(* ===== verification/Prelude.thy ===== *)
theory Prelude
  imports Main "HOL-Library.Word" "HOL-Library.Monad_Syntax"
begin

unbundle bit_operations_syntax

text \<open>
  What the component theories share: the machine types of the C++ source, checked
  access to byte buffers, the byte and bit views of data, and the lemma collections.

  An execution that the C++ standard leaves undefined (a read or write outside a buffer,
  an overflow of a signed integer, a shift by the width of the type, a division by zero)
  is the value \<^const>\<open>None\<close> of the model; every other behaviour is \<^const>\<open>Some\<close>.
\<close>

named_theorems mem_simps \<open>length and content of buffers after checked accesses\<close>
named_theorems bit_view_simps \<open>conversion between bytes, numbers and bit lists\<close>

section \<open>Machine types\<close>

type_synonym u8 = "8 word"
type_synonym u16 = "16 word"
type_synonym u32 = "32 word"
type_synonym u64 = "64 word"
type_synonym bytes = "u8 list"

text \<open>A value of type \<open>int\<close>: the mathematical value when it fits in 32 bits.\<close>

definition int32_range :: "int \<Rightarrow> bool" where
  "int32_range x \<longleftrightarrow> - 2147483648 \<le> x \<and> x < 2147483648"

definition checked_int :: "int \<Rightarrow> int option" where
  "checked_int x = (if int32_range x then Some x else None)"

lemma checked_int_Some [simp]: "int32_range x \<Longrightarrow> checked_int x = Some x"
  by (simp add: checked_int_def)

lemma checked_int_eq_Some: "checked_int x = Some y \<longleftrightarrow> int32_range x \<and> y = x"
  by (auto simp: checked_int_def)

lemma int32_range_of_nat: "n < 2147483648 \<Longrightarrow> int32_range (int n)"
  by (simp add: int32_range_def)

text \<open>Integer division of C++ rounds towards zero; a zero divisor is undefined.\<close>

definition cxx_div :: "int \<Rightarrow> int \<Rightarrow> int option" where
  "cxx_div a b = (if b = 0 then None else Some (sgn a * sgn b * (\<bar>a\<bar> div \<bar>b\<bar>)))"

definition cxx_mod :: "int \<Rightarrow> int \<Rightarrow> int option" where
  "cxx_mod a b = (if b = 0 then None else Some (a - b * (sgn a * sgn b * (\<bar>a\<bar> div \<bar>b\<bar>))))"

lemma cxx_div_pos: "0 \<le> a \<Longrightarrow> 0 < b \<Longrightarrow> cxx_div a b = Some (a div b)"
  by (cases "a = 0") (auto simp: cxx_div_def)

lemma cxx_mod_pos: "0 \<le> a \<Longrightarrow> 0 < b \<Longrightarrow> cxx_mod a b = Some (a mod b)"
  by (cases "a = 0") (auto simp: cxx_mod_def minus_mult_div_eq_mod)

text \<open>Unsigned 32-bit operands: a zero divisor is undefined; a size must not be negative.\<close>

definition u32_div :: "u32 \<Rightarrow> u32 \<Rightarrow> u32 option" where
  "u32_div a b = (if b = 0 then None else Some (a div b))"

definition u32_mod :: "u32 \<Rightarrow> u32 \<Rightarrow> u32 option" where
  "u32_mod a b = (if b = 0 then None else Some (a mod b))"

definition byte_count :: "int \<Rightarrow> nat option" where
  "byte_count n = (if n < 0 then None else Some (nat n))"

lemma byte_count_nonneg [simp]: "0 \<le> n \<Longrightarrow> byte_count n = Some (nat n)"
  by (simp add: byte_count_def)

text \<open>Conversion of an unsigned value back to \<open>int\<close>.\<close>

lemma sint_of_int_u32: "int32_range k \<Longrightarrow> sint (of_int k :: u32) = k"
  by (simp add: int32_range_def signed_of_int signed_take_bit_int_eq_self)

lemma sint_nonneg_u32:
  assumes "0 \<le> sint (w :: u32)"
  shows "sint w = int (unat w)"
proof -
  have "sint w < 2 ^ 31" using sint_lt [of w] by simp
  then have "take_bit 32 (sint w) = sint w" using assms by (simp add: take_bit_int_eq_self)
  then have "uint w = sint w" by (simp add: uint_sint)
  then show ?thesis by simp
qed

text \<open>A position that advances by a number of bytes modulo the size of a buffer.\<close>

lemma unat_of_int_u32: "0 \<le> n \<Longrightarrow> n < 4294967296 \<Longrightarrow> unat (of_int n :: u32) = nat n"
  by (elim nonneg_int_cases) (simp add: unat_of_nat)

lemma u32_advance:
  assumes "0 \<le> k" and "int (unat p) + k < 4294967296" and "0 < t" and "t < 4294967296"
  shows "\<exists>q. u32_mod (p + of_int k) (of_int t) = Some q \<and> unat q = (unat p + nat k) mod nat t"
proof -
  have t: "unat (of_int t :: u32) = nat t" using assms(3,4) by (simp add: unat_of_int_u32)
  have k: "unat (of_int k :: u32) = nat k" using assms(1,2) by (intro unat_of_int_u32) linarith+
  have "unat p + nat k < 2 ^ 32" using assms(1,2) by (simp del: of_nat_unat)
  then have "unat (p + of_int k) = unat p + nat k"
    using k by (subst unat_add_lem [THEN iffD1]) simp_all
  moreover have "(of_int t :: u32) \<noteq> 0" using t assms(3) by (auto simp: word_unat_eq_iff)
  ultimately show ?thesis using t by (simp add: u32_mod_def unat_mod)
qed

section \<open>Byte buffers\<close>

text \<open>\<open>memcpy\<close> out of a buffer, \<open>memcpy\<close> into it, and \<open>memset\<close>, with their ranges checked.\<close>

definition mem_read :: "'a list \<Rightarrow> nat \<Rightarrow> nat \<Rightarrow> 'a list option" where
  "mem_read buf pos n = (if pos + n \<le> length buf then Some (take n (drop pos buf)) else None)"

definition mem_write :: "'a list \<Rightarrow> nat \<Rightarrow> 'a list \<Rightarrow> 'a list option" where
  "mem_write buf pos src =
     (if pos + length src \<le> length buf
      then Some (take pos buf @ src @ drop (pos + length src) buf) else None)"

definition mem_set :: "'a list \<Rightarrow> nat \<Rightarrow> nat \<Rightarrow> 'a \<Rightarrow> 'a list option" where
  "mem_set buf pos n x = mem_write buf pos (replicate n x)"

lemma mem_read_Some [mem_simps]:
  "pos + n \<le> length buf \<Longrightarrow> mem_read buf pos n = Some (take n (drop pos buf))"
  by (simp add: mem_read_def)

lemma mem_read_length [mem_simps]: "mem_read buf pos n = Some r \<Longrightarrow> length r = n"
  by (auto simp: mem_read_def split: if_splits)

lemma mem_write_Some [mem_simps]:
  "pos + length src \<le> length buf \<Longrightarrow>
     mem_write buf pos src = Some (take pos buf @ src @ drop (pos + length src) buf)"
  by (simp add: mem_write_def)

lemma mem_write_length [mem_simps]: "mem_write buf pos src = Some r \<Longrightarrow> length r = length buf"
  by (auto simp: mem_write_def split: if_splits)

lemma mem_write_same:
  assumes "mem_write buf pos src = Some r"
  shows "take (length src) (drop pos r) = src"
  using assms by (auto simp: mem_write_def split: if_splits)

lemma mem_write_other:
  assumes "mem_write buf pos src = Some r" and "q + n \<le> pos \<or> pos + length src \<le> q"
  shows "take n (drop q r) = take n (drop q buf)"
  using assms
proof (elim disjE)
  assume w: "mem_write buf pos src = Some r" and "q + n \<le> pos"
  then show ?thesis
    by (auto simp: mem_write_def take_drop min_def split: if_splits)
next
  assume w: "mem_write buf pos src = Some r" and q: "pos + length src \<le> q"
  then obtain k where "q = pos + length src + k" by (metis le_add_diff_inverse)
  with w show ?thesis
    by (auto simp: mem_write_def ac_simps split: if_splits)
qed

section \<open>Bytes, little-endian fields and bits\<close>

lemma unat_u8_less [simp]: "unat (b :: u8) < 256"
  using unsigned_less [of b] by simp

lemma uint_u8_less [simp]: "uint (b :: u8) < 256"
  using uint_lt2p [of b] by simp

lemma uint_u8_of_unat: "uint (b :: u8) = int (unat b)"
  by simp

text \<open>The little-endian bytes of a number, and back: what \<open>memcpy\<close> of an integer stores.\<close>

fun le_bytes :: "nat \<Rightarrow> nat \<Rightarrow> bytes" where
  "le_bytes 0 v = []"
| "le_bytes (Suc n) v = of_nat (v mod 256) # le_bytes n (v div 256)"

fun of_le_bytes :: "bytes \<Rightarrow> nat" where
  "of_le_bytes [] = 0"
| "of_le_bytes (b # bs) = unat b + 256 * of_le_bytes bs"

lemma le_bytes_length [simp]: "length (le_bytes n v) = n"
  by (induction n arbitrary: v) auto

lemma unat_byte_of_nat [simp]: "unat (of_nat (v mod 256) :: u8) = v mod 256"
  by (simp add: unat_of_nat)

lemma of_le_bytes_le_bytes [bit_view_simps]: "of_le_bytes (le_bytes n v) = v mod 256 ^ n"
proof (induction n arbitrary: v)
  case 0
  then show ?case by simp
next
  case (Suc n)
  show ?case
    by (simp add: Suc.IH mod_mult2_eq)
qed

lemma of_le_bytes_less: "of_le_bytes bs < 256 ^ length bs"
proof (induction bs)
  case Nil
  then show ?case by simp
next
  case (Cons b bs)
  have "unat b < 256" by simp
  moreover have "256 * of_le_bytes bs + 256 \<le> 256 * 256 ^ length bs"
    using Cons.IH by simp
  ultimately have "unat b + 256 * of_le_bytes bs < 256 * 256 ^ length bs" by linarith
  then show ?case by simp
qed

text \<open>Bytes as bit lists, most significant bit first.\<close>

definition bits_of_nat :: "nat \<Rightarrow> nat \<Rightarrow> bool list" where
  "bits_of_nat n v = map (\<lambda>i. odd (v div 2 ^ i)) (rev [0..<n])"

fun nat_of_bits :: "bool list \<Rightarrow> nat" where
  "nat_of_bits [] = 0"
| "nat_of_bits (b # bs) = (if b then 2 ^ length bs else 0) + nat_of_bits bs"

definition bits_of_byte :: "u8 \<Rightarrow> bool list" where
  "bits_of_byte b = bits_of_nat 8 (unat b)"

definition bits_of_bytes :: "bytes \<Rightarrow> bool list" where
  "bits_of_bytes bs = concat (map bits_of_byte bs)"

lemma length_bits_of_nat [simp]: "length (bits_of_nat n v) = n"
  by (simp add: bits_of_nat_def)

lemma nat_of_bits_less: "nat_of_bits bs < 2 ^ length bs"
  by (induction bs) auto

lemma nat_of_bits_append: "nat_of_bits (xs @ ys) = nat_of_bits xs * 2 ^ length ys + nat_of_bits ys"
  by (induction xs) (auto simp: power_add algebra_simps)

lemma bits_of_nat_Suc:
  "bits_of_nat (Suc n) v = odd (v div 2 ^ n) # bits_of_nat n v"
  by (simp add: bits_of_nat_def)

lemma nat_of_bits_of_nat: "nat_of_bits (bits_of_nat n v) = v mod 2 ^ n"
proof (induction n)
  case 0
  then show ?case by (simp add: bits_of_nat_def)
next
  case (Suc n)
  have "v mod 2 ^ Suc n = 2 ^ n * (v div 2 ^ n mod 2) + v mod 2 ^ n"
    by (simp add: mod_mult2_eq mult.commute [of 2])
  with Suc show ?case by (auto simp: bits_of_nat_Suc odd_iff_mod_2_eq_one)
qed

lemma nat_of_bits_inj:
  "length xs = length ys \<Longrightarrow> nat_of_bits xs = nat_of_bits ys \<Longrightarrow> xs = ys"
proof (induction xs ys rule: list_induct2)
  case Nil
  then show ?case by simp
next
  case (Cons x xs y ys)
  have "nat_of_bits xs < 2 ^ length xs" "nat_of_bits ys < 2 ^ length xs"
    using nat_of_bits_less [of xs] nat_of_bits_less [of ys] Cons.hyps by simp_all
  with Cons show ?case by (cases x; cases y) auto
qed

lemma length_bits_of_byte [simp]: "length (bits_of_byte b) = 8"
  by (simp add: bits_of_byte_def)

lemma length_bits_of_bytes [simp]: "length (bits_of_bytes bs) = 8 * length bs"
  by (induction bs) (auto simp: bits_of_bytes_def)

lemma bits_of_bytes_simps [simp]:
  "bits_of_bytes [] = []"
  "bits_of_bytes (b # bs) = bits_of_byte b @ bits_of_bytes bs"
  "bits_of_bytes (xs @ ys) = bits_of_bytes xs @ bits_of_bytes ys"
  by (simp_all add: bits_of_bytes_def)

lemma nat_of_bits_byte [simp]: "nat_of_bits (bits_of_byte b) = unat b"
proof -
  have "unat b < 2 ^ 8" using unat_u8_less [of b] by simp
  then show ?thesis by (simp add: bits_of_byte_def nat_of_bits_of_nat)
qed

lemma bits_of_nat_split: "bits_of_nat (b + k) v = bits_of_nat b (v div 2 ^ k) @ bits_of_nat k v"
  by (induction b) (simp_all add: bits_of_nat_Suc bits_of_nat_def div_exp_eq add.commute)

lemma bits_of_nat_mod: "bits_of_nat n (v mod 2 ^ n) = bits_of_nat n v"
  by (rule nat_of_bits_inj) (simp_all add: nat_of_bits_of_nat)

lemma bits_of_nat_of_bits: "bits_of_nat (length l) (nat_of_bits l) = l"
  using nat_of_bits_less [of l] by (intro nat_of_bits_inj) (simp_all add: nat_of_bits_of_nat)

lemma take_bits_of_nat: "b \<le> n \<Longrightarrow> take b (bits_of_nat n v) = bits_of_nat b (v div 2 ^ (n - b))"
  using bits_of_nat_split [of b "n - b" v] by simp

lemma drop_bits_of_nat: "m \<le> n \<Longrightarrow> drop (n - m) (bits_of_nat n v) = bits_of_nat m v"
  using bits_of_nat_split [of "n - m" m v] by simp

lemma bits_of_nat_append_byte: "bits_of_nat (n + 8) (v * 256 + unat b) = bits_of_nat n v @ bits_of_byte b"
proof -
  have "(v * 256 + unat b) div 2 ^ 8 = v" by simp
  moreover have "bits_of_nat 8 (v * 256 + unat b) = bits_of_nat 8 (unat b)"
    using bits_of_nat_mod [of 8 "v * 256 + unat b"] by simp
  ultimately show ?thesis
    by (simp add: bits_of_nat_split bits_of_byte_def)
qed

lemma list_all_bits_ones: "list_all id l \<longleftrightarrow> nat_of_bits l = 2 ^ length l - 1"
proof (induction l)
  case (Cons x l)
  have "nat_of_bits l < 2 ^ length l" by (rule nat_of_bits_less)
  with Cons show ?case by (cases x) auto
qed simp

lemma unat_mask_word:
  assumes "n \<le> LENGTH('a)"
  shows "unat (mask n :: 'a::len word) = mask n"
proof -
  have "unat (take_bit n (- 1 :: 'a word)) = take_bit n (mask LENGTH('a))"
    by (simp only: unsigned_take_bit_eq unsigned_minus_1_eq_mask)
  then show ?thesis
    using assms by (simp add: take_bit_minus_one_eq_mask take_bit_of_mask)
qed

text \<open>Appending a byte below a shifted value, as the readers of big-endian fields do.\<close>

lemma or_shifted_byte_int:
  fixes v b :: int
  assumes "0 \<le> b" and "b < 256"
  shows "push_bit 8 v OR b = v * 256 + b"
proof -
  have "take_bit 8 b = b" using assms by (simp add: take_bit_int_eq_self)
  then have "\<not> bit b n" if "8 \<le> n" for n
    using that by (metis bit_take_bit_iff linorder_not_less)
  then have "push_bit 8 v AND b = 0"
    by (intro bit_eqI) (auto simp: bit_simps)
  then have "push_bit 8 v + b = push_bit 8 v OR b"
    by (rule disjunctive_add_eq_or)
  then show ?thesis by (simp add: push_bit_eq_mult)
qed

section \<open>Loops over cells\<close>

text \<open>A loop over a range of indices, with the state it changes.\<close>

fun iter_opt :: "('i \<Rightarrow> 's \<Rightarrow> 's option) \<Rightarrow> 'i list \<Rightarrow> 's \<Rightarrow> 's option" where
  "iter_opt f [] s = Some s"
| "iter_opt f (i # is) s = (case f i s of None \<Rightarrow> None | Some s' \<Rightarrow> iter_opt f is s')"

lemma iter_opt_append: "iter_opt f (xs @ ys) s = (case iter_opt f xs s of None \<Rightarrow> None | Some t \<Rightarrow> iter_opt f ys t)"
  by (induction xs arbitrary: s) (auto split: option.split)

lemma iter_opt_invariant:
  assumes "P 0 s" and "\<And>k t. k < n \<Longrightarrow> P k t \<Longrightarrow> \<exists>u. f k t = Some u \<and> P (Suc k) u"
  shows "\<exists>t. iter_opt f [0..<n] s = Some t \<and> P n t"
  using assms(2)
proof (induction n)
  case 0
  then show ?case using assms(1) by simp
next
  case (Suc n)
  then obtain t where "iter_opt f [0..<n] s = Some t" "P n t" using less_Suc_eq by blast
  moreover then obtain u where "f n t = Some u" "P (Suc n) u" using Suc.prems [of n] by blast
  ultimately show ?case by (simp add: iter_opt_append)
qed

text \<open>Two nested loops that fill the cells \<open>(i, j)\<close> column by column.\<close>

definition before :: "nat \<Rightarrow> nat \<Rightarrow> nat \<Rightarrow> nat \<Rightarrow> bool" where
  "before i j i' j' \<longleftrightarrow> i' < i \<or> i' = i \<and> j' < j"

lemma before_Suc: "before i (Suc j) i' j' \<longleftrightarrow> before i j i' j' \<or> i' = i \<and> j' = j"
  by (auto simp: before_def)

lemma cells_invariant:
  assumes start: "Q s"
    and step: "\<And>i j t. i < C \<Longrightarrow> j < n \<Longrightarrow> Q t \<Longrightarrow>
      \<exists>u. f i j t = Some u \<and> Q u \<and> cell i j u \<and>
        (\<forall>i' j'. i' < C \<longrightarrow> j' < n \<longrightarrow> (i', j') \<noteq> (i, j) \<longrightarrow> cell i' j' t \<longrightarrow> cell i' j' u)"
  shows "\<exists>t. iter_opt (\<lambda>i. iter_opt (f i) [0..<n]) [0..<C] s = Some t \<and> Q t \<and> (\<forall>i<C. \<forall>j<n. cell i j t)"
proof -
  let ?P = "\<lambda>i j t. Q t \<and> (\<forall>i'<C. \<forall>j'<n. before i j i' j' \<longrightarrow> cell i' j' t)"
  have inner: "\<exists>u. iter_opt (f i) [0..<n] t = Some u \<and> ?P i n u" if i: "i < C" and t: "?P i 0 t" for i t
  proof (rule iter_opt_invariant [where P = "?P i", OF t])
    fix j t assume j: "j < n" and t: "?P i j t"
    then obtain u where "f i j t = Some u" "Q u" "cell i j u"
      "\<forall>i' j'. i' < C \<longrightarrow> j' < n \<longrightarrow> (i', j') \<noteq> (i, j) \<longrightarrow> cell i' j' t \<longrightarrow> cell i' j' u"
      using step [OF i j] by blast
    with t show "\<exists>u. f i j t = Some u \<and> ?P i (Suc j) u"
      unfolding before_Suc by blast
  qed
  have "\<exists>u. iter_opt (\<lambda>i. iter_opt (f i) [0..<n]) [0..<C] s = Some u \<and> ?P C 0 u"
  proof (rule iter_opt_invariant [where P = "\<lambda>i. ?P i 0"])
    show "?P 0 0 s" using start by (simp add: before_def)
  next
    fix i t assume "i < C" "?P i 0 t"
    from inner [OF this] obtain u where "iter_opt (f i) [0..<n] t = Some u" "?P i n u" by blast
    then show "\<exists>u. iter_opt (f i) [0..<n] t = Some u \<and> ?P (Suc i) 0 u"
      by (auto simp: before_def less_Suc_eq)
  qed
  then show ?thesis by (auto simp: before_def)
qed

text \<open>The cells of an interleaved packet do not overlap.\<close>

lemma cell_disjoint:
  fixes i j i' j' C B :: nat
  assumes "i < C" and "i' < C" and "(i', j') \<noteq> (i, j)"
  shows "(j' * B * C + i' * B) + B \<le> j * B * C + i * B \<or> j * B * C + i * B + B \<le> j' * B * C + i' * B"
proof -
  have "j' * C + i' \<noteq> j * C + i"
  proof
    assume e: "j' * C + i' = j * C + i"
    then have "(j' * C + i') mod C = (j * C + i) mod C" "(j' * C + i') div C = (j * C + i) div C" by simp_all
    then show False using assms by simp
  qed
  then have "Suc (j' * C + i') \<le> j * C + i \<or> Suc (j * C + i) \<le> j' * C + i'" by linarith
  then have "Suc (j' * C + i') * B \<le> (j * C + i) * B \<or> Suc (j * C + i) * B \<le> (j' * C + i') * B"
    using mult_le_mono1 by blast
  then show ?thesis by (simp add: algebra_simps)
qed

lemma cell_inside:
  fixes i j C B n :: nat
  assumes "i < C" and "j < n"
  shows "j * B * C + i * B + B \<le> n * B * C"
proof -
  have "j * C + C \<le> n * C" using assms(2) mult_le_mono1 [of "Suc j" n C] by simp
  then have "Suc (j * C + i) \<le> n * C" using assms(1) by linarith
  then have "Suc (j * C + i) * B \<le> n * C * B" by (rule mult_le_mono1)
  then show ?thesis by (simp add: algebra_simps)
qed

end
