(* ===== verification/FloatRound.thy ===== *)
theory FloatRound
  imports Prelude "HOL-Library.Log_Nat"
begin

text \<open>
  The \<open>double\<close> and \<open>float\<close> arithmetic of the source.  A finite value is its rational; an
  operation rounds the exact result to the nearest representable value, ties to even, as
  IEEE 754 prescribes.  Signed zeros are not told apart, and infinities and NaN do not occur:
  every modelled quantity is far below the largest finite value, and a division by zero or
  a conversion out of the range of the integer type is \<^const>\<open>None\<close>.
\<close>

section \<open>Operations\<close>

type_synonym dbl = rat

text \<open>Round half to even, the binary exponent of a positive number, and rounding to \<open>p\<close> bits.\<close>

definition rne :: "rat \<Rightarrow> int" where
  "rne x = (let f = \<lfloor>x\<rfloor>; r = x - of_int f in
     if r < 1/2 \<or> r = 1/2 \<and> even f then f else f + 1)"

definition ilog2 :: "rat \<Rightarrow> int" where
  "ilog2 x = (if 1 \<le> x then bitlen \<lfloor>x\<rfloor> - 1 else - bitlen (\<lceil>1 / x\<rceil> - 1))"

definition fl_round :: "nat \<Rightarrow> int \<Rightarrow> rat \<Rightarrow> rat" where
  "fl_round p emin x =
     (if x = 0 then 0
      else let e = max (ilog2 \<bar>x\<bar> - int p + 1) emin
           in of_int (rne (x / 2 powi e)) * 2 powi e)"

definition dbl_round :: "rat \<Rightarrow> dbl" where
  "dbl_round = fl_round 53 (-1074)"

definition dbl_add :: "dbl \<Rightarrow> dbl \<Rightarrow> dbl" where "dbl_add x y = dbl_round (x + y)"
definition dbl_sub :: "dbl \<Rightarrow> dbl \<Rightarrow> dbl" where "dbl_sub x y = dbl_round (x - y)"
definition dbl_mul :: "dbl \<Rightarrow> dbl \<Rightarrow> dbl" where "dbl_mul x y = dbl_round (x * y)"

definition dbl_div :: "dbl \<Rightarrow> dbl \<Rightarrow> dbl option" where
  "dbl_div x y = (if y = 0 then None else Some (dbl_round (x / y)))"

text \<open>Conversion to \<open>int\<close>: towards zero, undefined when the result does not fit.\<close>

definition dbl_trunc :: "dbl \<Rightarrow> int" where
  "dbl_trunc x = (if 0 \<le> x then \<lfloor>x\<rfloor> else \<lceil>x\<rceil>)"

definition dbl_to_int :: "dbl \<Rightarrow> int option" where
  "dbl_to_int x = checked_int (dbl_trunc x)"

section \<open>Rounding to integers\<close>

lemma rne_ge: "of_int n \<le> x \<Longrightarrow> n \<le> rne x"
  by (auto simp: rne_def Let_def le_floor_iff intro: order_trans [of n "\<lfloor>x\<rfloor>"])

lemma rne_le:
  assumes "x \<le> of_int n"
  shows "rne x \<le> n"
proof (cases "\<lfloor>x\<rfloor> = n")
  case True
  then have "x = of_int n" using assms by (metis of_int_floor_le order_antisym)
  then show ?thesis by (simp add: rne_def)
next
  case False
  moreover have "\<lfloor>x\<rfloor> \<le> n" using assms by (simp add: floor_le_iff)
  ultimately show ?thesis by (simp add: rne_def Let_def)
qed

lemma rne_of_int [simp]: "rne (of_int n) = n"
  by (simp add: rne_def)

section \<open>The binary exponent\<close>


lemma bitlen_pos_bounds:
  assumes "0 < n"
  shows "2 powi (bitlen n - 1) \<le> (of_int n :: rat)" and "of_int (n + 1) \<le> (2 powi bitlen n :: rat)"
proof -
  have b: "1 \<le> bitlen n" using assms bitlen_eq_zero_iff [of n] bitlen_nonneg [of n] by linarith
  have "of_int (2 ^ nat (bitlen n - 1)) \<le> (of_int n :: rat)"
    using bitlen_bounds [OF assms] by (simp only: of_int_le_iff)
  then show "2 powi (bitlen n - 1) \<le> (of_int n :: rat)"
    using b by (simp add: power_int_nonneg_exp)
  have "n + 1 \<le> 2 ^ nat (bitlen n)" using bitlen_bounds [OF assms] by linarith
  then have "of_int (n + 1) \<le> (of_int (2 ^ nat (bitlen n)) :: rat)" by (simp only: of_int_le_iff)
  then show "of_int (n + 1) \<le> (2 powi bitlen n :: rat)"
    using b by (simp add: power_int_nonneg_exp)
qed

lemma ilog2_bounds:
  assumes "0 < x"
  shows "2 powi ilog2 x \<le> x" and "x < 2 powi (ilog2 x + 1)"
proof -
  have "2 powi ilog2 x \<le> x \<and> x < 2 powi (ilog2 x + 1)"
  proof (cases "1 \<le> x")
    case True
    then have "0 < \<lfloor>x\<rfloor>" by simp
    then show ?thesis
      using bitlen_pos_bounds [of "\<lfloor>x\<rfloor>"] floor_correct [of x] True
      by (auto simp: ilog2_def intro: order_trans [OF _ of_int_floor_le])
  next
    case False
    let ?n = "\<lceil>1 / x\<rceil> - 1"
    have "1 < 1 / x" using False assms by simp
    then have n: "0 < ?n" by (simp add: less_ceiling_iff)
    have c: "of_int ?n < 1 / x" "1 / x \<le> of_int (?n + 1)"
      using ceiling_correct [of "1 / x"] by simp_all
    have "2 powi (bitlen ?n - 1) < 1 / x" "1 / x \<le> 2 powi bitlen ?n"
      using bitlen_pos_bounds [OF n] c by (blast intro: le_less_trans order_trans)+
    then have "x < 1 / 2 powi (bitlen ?n - 1)" "1 / 2 powi bitlen ?n \<le> x"
      using assms by (simp_all add: field_simps)
    then show ?thesis
      using False by (simp add: ilog2_def power_int_minus_divide [symmetric] del: One_nat_def)
  qed
  then show "2 powi ilog2 x \<le> x" and "x < 2 powi (ilog2 x + 1)" by simp_all
qed

section \<open>Representable values\<close>

text \<open>Rounding never crosses a representable value; hence it keeps them.\<close>

definition fl_rep :: "nat \<Rightarrow> int \<Rightarrow> rat \<Rightarrow> bool" where
  "fl_rep p emin g \<longleftrightarrow> (\<exists>m e. g = of_int m * 2 powi e \<and> \<bar>m\<bar> \<le> 2 ^ p \<and> emin \<le> e)"

definition grid :: "int \<Rightarrow> rat \<Rightarrow> bool" where
  "grid e g \<longleftrightarrow> (\<exists>m :: int. g = of_int m * 2 powi e)"

lemma grid_mono: "grid e g \<Longrightarrow> e' \<le> e \<Longrightarrow> grid e' g"
proof -
  assume "grid e g" and le: "e' \<le> e"
  then obtain m :: int where "g = of_int m * 2 powi e" by (auto simp: grid_def)
  moreover have "(2 :: rat) powi e = 2 ^ nat (e - e') * 2 powi e'"
    using le power_int_add [of "2 :: rat" "e - e'" e'] by (simp add: power_int_nonneg_exp)
  ultimately have "g = of_int (m * 2 ^ nat (e - e')) * 2 powi e'" by simp
  then show ?thesis unfolding grid_def by blast
qed

lemma grid_pow: "e \<le> k \<Longrightarrow> grid e (2 powi k)"
  by (rule grid_mono [of k]) (auto simp: grid_def intro: exI [of _ 1])

lemma round_grid:
  assumes "grid e g"
  shows "g \<le> x \<Longrightarrow> g \<le> of_int (rne (x / 2 powi e)) * 2 powi e"
    and "x \<le> g \<Longrightarrow> of_int (rne (x / 2 powi e)) * 2 powi e \<le> g"
proof -
  obtain m :: int where g: "g = of_int m * 2 powi e" using assms by (auto simp: grid_def)
  have pos: "(0 :: rat) < 2 powi e" by simp
  show "g \<le> of_int (rne (x / 2 powi e)) * 2 powi e" if "g \<le> x"
  proof -
    have "of_int m \<le> x / 2 powi e" using that g pos by (simp add: pos_le_divide_eq)
    then have "m \<le> rne (x / 2 powi e)" by (rule rne_ge)
    then show ?thesis using g pos by simp
  qed
  show "of_int (rne (x / 2 powi e)) * 2 powi e \<le> g" if "x \<le> g"
  proof -
    have "x / 2 powi e \<le> of_int m" using that g pos by (simp add: pos_divide_le_eq)
    then have "rne (x / 2 powi e) \<le> m" by (rule rne_le)
    then show ?thesis using g pos by simp
  qed
qed


lemma fl_rep_grid:
  assumes "fl_rep p emin g" and "1 \<le> p" and "e = max (k - int p + 1) emin"
  shows "grid e g \<or> \<bar>g\<bar> < 2 powi k \<and> e \<le> k"
proof (rule ccontr)
  assume no: "\<not> (grid e g \<or> \<bar>g\<bar> < 2 powi k \<and> e \<le> k)"
  obtain m e' where g: "g = of_int m * 2 powi e'" "\<bar>m\<bar> \<le> 2 ^ p" "emin \<le> e'"
    using assms(1) by (auto simp: fl_rep_def)
  have "grid e' g" using g(1) by (auto simp: grid_def)
  then have lt: "e' < e" using no grid_mono [of e' g e] by force
  then have e: "e = k - int p + 1" "e \<le> k" using assms(2,3) g(3) by auto
  then have "2 powi k \<le> \<bar>g\<bar>" using no by auto
  moreover have "\<bar>g\<bar> = of_int \<bar>m\<bar> * 2 powi e'" by (simp add: g(1) abs_mult power_int_abs)
  moreover have "(2 :: rat) powi k = 2 powi (k - e') * 2 powi e'"
    using power_int_add [of "2 :: rat" "k - e'" e'] by simp
  ultimately have "(2 :: rat) powi (k - e') \<le> of_int \<bar>m\<bar>" by simp
  moreover have "(of_int \<bar>m\<bar> :: rat) \<le> of_int (2 ^ p)" using g(2) by (simp only: of_int_le_iff)
  ultimately have le: "(2 :: rat) powi (k - e') \<le> of_int \<bar>m\<bar>" "(of_int \<bar>m\<bar> :: rat) \<le> 2 powi int p"
    by simp_all
  then have "(2 :: rat) powi (k - e') \<le> 2 powi int p" by (rule order_trans)
  then have "k - e' \<le> int p" using power_int_le_imp_le_exp [of "2 :: rat" "k - e'" "int p"] by simp
  then have "k - e' = int p" using lt e by linarith
  then have "of_int \<bar>m\<bar> = (2 :: rat) ^ p" using le by simp
  then have "of_int \<bar>m\<bar> = (of_int (2 ^ p) :: rat)" by simp
  then have "\<bar>m\<bar> = 2 ^ p" by (simp only: of_int_eq_iff)
  then have "m = 2 ^ p \<or> m = - (2 ^ p)" by linarith
  then have "g = of_int 1 * 2 powi k \<or> g = of_int (-1) * 2 powi k"
    using g(1) \<open>k - e' = int p\<close> power_int_add [of "2 :: rat" "int p" e'] by (auto simp: algebra_simps)
  then have "grid k g" unfolding grid_def by blast
  then show False using no grid_mono [of k g e] e(2) by blast
qed

lemma grid_minus: "grid e g \<Longrightarrow> grid e (- g)"
  unfolding grid_def by (metis of_int_minus minus_mult_left)

lemma fl_round_ge:
  assumes "fl_rep p emin g" and "1 \<le> p" and "g \<le> x"
  shows "g \<le> fl_round p emin x"
proof (cases "x = 0")
  case False
  define k where "k = ilog2 \<bar>x\<bar>"
  define e where "e = max (k - int p + 1) emin"
  have r: "fl_round p emin x = of_int (rne (x / 2 powi e)) * 2 powi e"
    using False by (simp add: fl_round_def k_def e_def Let_def)
  consider "grid e g" | "\<bar>g\<bar> < 2 powi k" "e \<le> k"
    using fl_rep_grid [OF assms(1,2) e_def] by blast
  then show ?thesis
  proof cases
    case 1
    then show ?thesis using assms(3) unfolding r by (rule round_grid)
  next
    case 2
    have "2 powi k \<le> \<bar>x\<bar>" using False ilog2_bounds(1) [of "\<bar>x\<bar>"] by (simp add: k_def)
    with 2(1) assms(3) have "2 powi k \<le> x" by auto
    then have "2 powi k \<le> fl_round p emin x"
      unfolding r by (rule round_grid(1) [OF grid_pow [OF 2(2)]])
    then show ?thesis using 2(1) by linarith
  qed
qed (use assms in \<open>simp add: fl_round_def\<close>)

lemma fl_round_le:
  assumes "fl_rep p emin g" and "1 \<le> p" and "x \<le> g"
  shows "fl_round p emin x \<le> g"
proof (cases "x = 0")
  case False
  define k where "k = ilog2 \<bar>x\<bar>"
  define e where "e = max (k - int p + 1) emin"
  have r: "fl_round p emin x = of_int (rne (x / 2 powi e)) * 2 powi e"
    using False by (simp add: fl_round_def k_def e_def Let_def)
  consider "grid e g" | "\<bar>g\<bar> < 2 powi k" "e \<le> k"
    using fl_rep_grid [OF assms(1,2) e_def] by blast
  then show ?thesis
  proof cases
    case 1
    then show ?thesis using assms(3) unfolding r by (rule round_grid)
  next
    case 2
    have "2 powi k \<le> \<bar>x\<bar>" using False ilog2_bounds(1) [of "\<bar>x\<bar>"] by (simp add: k_def)
    with 2(1) assms(3) have "x \<le> - (2 powi k)" by auto
    then have "fl_round p emin x \<le> - (2 powi k)"
      unfolding r by (rule round_grid(2) [OF grid_minus [OF grid_pow [OF 2(2)]]])
    then show ?thesis using 2(1) by linarith
  qed
qed (use assms in \<open>simp add: fl_round_def\<close>)

lemma fl_round_rep:
  assumes "fl_rep p emin x" and "1 \<le> p"
  shows "fl_round p emin x = x"
  using fl_round_ge [OF assms, of x] fl_round_le [OF assms, of x] by (intro order_antisym) simp_all

lemma fl_rep_of_int:
  assumes "\<bar>n\<bar> \<le> 2 ^ p" and "emin \<le> 0"
  shows "fl_rep p emin (of_int n)"
  unfolding fl_rep_def using assms by (intro exI [of _ n] exI [of _ 0]) simp

section \<open>Doubles\<close>

definition dbl_rep :: "dbl \<Rightarrow> bool" where
  "dbl_rep = fl_rep 53 (-1074)"

lemma dbl_round_ge: "dbl_rep g \<Longrightarrow> g \<le> x \<Longrightarrow> g \<le> dbl_round x"
  unfolding dbl_rep_def dbl_round_def by (rule fl_round_ge) simp_all

lemma dbl_round_le: "dbl_rep g \<Longrightarrow> x \<le> g \<Longrightarrow> dbl_round x \<le> g"
  unfolding dbl_rep_def dbl_round_def by (rule fl_round_le) simp_all

lemma dbl_round_rep [simp]: "dbl_rep x \<Longrightarrow> dbl_round x = x"
  unfolding dbl_rep_def dbl_round_def by (rule fl_round_rep) simp_all

lemma dbl_rep_of_int: "\<bar>n\<bar> \<le> 9007199254740992 \<Longrightarrow> dbl_rep (of_int n)"
  unfolding dbl_rep_def by (rule fl_rep_of_int) simp_all

lemma dbl_round_int_bounds:
  assumes "\<bar>n\<bar> \<le> 9007199254740992"
  shows "of_int n \<le> x \<Longrightarrow> of_int n \<le> dbl_round x" and "x \<le> of_int n \<Longrightarrow> dbl_round x \<le> of_int n"
  using dbl_rep_of_int [OF assms] by (blast intro: dbl_round_ge dbl_round_le)+

end
