(* ===== verification/Sample.thy ===== *)
theory Sample
  imports FloatRound
begin

text \<open>
  Audio samples on the wire: \<open>fromSampleToBitConversion\<close> and \<open>fromBitToSampleConversion\<close> of
  \<open>src/AudioInterface.cpp\<close>.  A \<open>sample_t\<close> is the 32-bit pattern of an IEEE single; \<open>float_val\<close>
  is the value it denotes and \<open>float_bits\<close> the pattern of a representable value.  Integers are
  stored little-endian.
\<close>

section \<open>Singles\<close>

type_synonym sample_t = u32

datatype flt = Fin rat | Infinite bool | NaN

definition float_sign :: "sample_t \<Rightarrow> bool" where
  "float_sign w \<longleftrightarrow> 1 \<le> unat w div 2147483648"

definition float_exp :: "sample_t \<Rightarrow> nat" where
  "float_exp w = unat w div 8388608 mod 256"

definition float_frac :: "sample_t \<Rightarrow> nat" where
  "float_frac w = unat w mod 8388608"

definition with_sign :: "bool \<Rightarrow> rat \<Rightarrow> rat" where
  "with_sign s x = (if s then - x else x)"

definition float_val :: "sample_t \<Rightarrow> flt" where
  "float_val w =
     (let s = float_sign w; e = float_exp w; f = float_frac w
      in if e = 255 then (if f = 0 then Infinite s else NaN)
         else if e = 0 then Fin (with_sign s (of_nat f * 2 powi -149))
         else Fin (with_sign s (of_nat (8388608 + f) * 2 powi (int e - 150))))"

definition float_pack :: "bool \<Rightarrow> nat \<Rightarrow> nat \<Rightarrow> sample_t" where
  "float_pack s e f = of_nat ((if s then 2147483648 else 0) + e * 8388608 + f)"

definition float_bits :: "rat \<Rightarrow> sample_t" where
  "float_bits x =
     (if x = 0 then 0
      else let k = max (ilog2 \<bar>x\<bar>) (-126);
               m = nat \<lfloor>\<bar>x\<bar> / 2 powi (k - 23)\<rfloor>
           in if m < 8388608 then float_pack (x < 0) 0 m
              else float_pack (x < 0) (nat (k + 127)) (m - 8388608))"

definition float_round :: "rat \<Rightarrow> rat" where
  "float_round = fl_round 24 (-149)"

text \<open>The pattern of the double that a single is converted to.\<close>

definition double_bits_of_float :: "sample_t \<Rightarrow> nat" where
  "double_bits_of_float w =
     (let e = float_exp w; f = float_frac w; s = (if float_sign w then 2 ^ 63 else 0)
      in if e = 255 then s + 2047 * 2 ^ 52 + (if f = 0 then 0 else f * 2 ^ 29 mod 2 ^ 51 + 2 ^ 51)
         else if e = 0 then
           (if f = 0 then s
            else let k = nat (bitlen (int f) - 1) in s + (k + 874) * 2 ^ 52 + (f * 2 ^ (52 - k) - 2 ^ 52))
         else s + (e + 896) * 2 ^ 52 + f * 2 ^ 29)"

text \<open>Addition of singles.\<close>

definition float_add :: "sample_t \<Rightarrow> sample_t \<Rightarrow> sample_t" where
  "float_add a b =
     (case (float_val a, float_val b) of
        (Fin x, Fin y) \<Rightarrow>
          if x + y = 0 then (if x = 0 \<and> float_sign a \<and> float_sign b then 0x80000000 else 0)
          else let r = float_round (x + y)
               in if 2 ^ 128 \<le> \<bar>r\<bar> then float_pack (r < 0) 255 0 else float_bits r
      | (Infinite s, Fin y) \<Rightarrow> a
      | (Fin x, Infinite s) \<Rightarrow> b
      | (Infinite s, Infinite t) \<Rightarrow> if s = t then a else 0x7FC00000
      | _ \<Rightarrow> 0x7FC00000)"

section \<open>Conversions\<close>

datatype audioBitResolutionT = BIT8 | BIT16 | BIT24 | BIT32

fun bit_resolution_code :: "audioBitResolutionT \<Rightarrow> nat" where
  "bit_resolution_code BIT8 = 1"
| "bit_resolution_code BIT16 = 2"
| "bit_resolution_code BIT24 = 3"
| "bit_resolution_code BIT32 = 4"

text \<open>\<open>std::round\<close>, half away from zero.\<close>

definition cxx_round :: "rat \<Rightarrow> int" where
  "cxx_round x = (if 0 \<le> x then \<lfloor>x + 1/2\<rfloor> else - \<lfloor>1/2 - x\<rfloor>)"

text \<open>
  \<open>max<double>(- bound, min<double>(bound, round(x * bound)))\<close>: a NaN fails the comparison of
  \<open>std::min\<close>, which then returns its first argument.
\<close>

definition scale_clamp :: "int \<Rightarrow> flt \<Rightarrow> int" where
  "scale_clamp bound v =
     (case v of
        NaN \<Rightarrow> bound
      | Infinite s \<Rightarrow> if s then - bound else bound
      | Fin x \<Rightarrow> max (- bound) (min bound (cxx_round (dbl_mul x (of_int bound)))))"

definition int16_range :: "int \<Rightarrow> bool" where
  "int16_range x \<longleftrightarrow> - 32768 \<le> x \<and> x < 32768"

text \<open>The two's complement bytes of an integer, and the signed value of two bytes.\<close>

definition le_bytes_int :: "nat \<Rightarrow> int \<Rightarrow> bytes" where
  "le_bytes_int n x = le_bytes n (nat (x mod 256 ^ n))"

definition int_of_le_bytes :: "bytes \<Rightarrow> int" where
  "int_of_le_bytes bs =
     (let v = int (of_le_bytes bs); m = 256 ^ length bs in if 2 * v < m then v else v - m)"

definition fromSampleToBitConversion :: "sample_t \<Rightarrow> audioBitResolutionT \<Rightarrow> bytes option" where
  "fromSampleToBitConversion input target =
     (case target of
        BIT8 \<Rightarrow> Some (le_bytes_int 1 (scale_clamp 127 (float_val input)))
      | BIT16 \<Rightarrow> Some (le_bytes_int 2 (scale_clamp 32767 (float_val input)))
      | BIT24 \<Rightarrow>
          (case float_val input of
             Fin x \<Rightarrow>
               (let tmp_sample = dbl_mul x 32768;
                    tmp_sample16 = float_round (of_int \<lfloor>tmp_sample\<rfloor>);
                    tmp_16 = dbl_trunc tmp_sample16
                in if \<not> int16_range tmp_16 then None
                   else let tmp_sample8 = float_round (of_int
                              \<lfloor>dbl_mul (dbl_sub tmp_sample tmp_sample16) 256\<rfloor>);
                            tmp_u8 = dbl_trunc tmp_sample8
                        in if tmp_u8 < 0 \<or> 255 < tmp_u8 then None
                           else Some (le_bytes_int 2 tmp_16 @ le_bytes_int 1 tmp_u8))
           | _ \<Rightarrow> None)
      | BIT32 \<Rightarrow> Some (take 4 (le_bytes 8 (double_bits_of_float input))))"

definition fromBitToSampleConversion :: "bytes \<Rightarrow> audioBitResolutionT \<Rightarrow> sample_t option" where
  "fromBitToSampleConversion input source = do {
     bs \<leftarrow> mem_read input 0 (bit_resolution_code source);
     Some (case source of
        BIT8 \<Rightarrow> float_bits (float_round (dbl_round (of_int (int_of_le_bytes bs) / 128)))
      | BIT16 \<Rightarrow> float_bits (float_round (dbl_round (of_int (int_of_le_bytes bs) / 32768)))
      | BIT24 \<Rightarrow>
          (let tmp_sample16 = of_int (int_of_le_bytes (take 2 bs));
               tmp_sample8 = float_round (dbl_round (of_nat (unat (bs ! 2)) / 256))
           in float_bits (float_round (dbl_round (float_round (tmp_sample16 + tmp_sample8) / 32768))))
      | BIT32 \<Rightarrow> of_nat (of_le_bytes bs))
   }"


section \<open>Buffers of channels\<close>

text \<open>The sample \<open>j\<close> of channel \<open>i\<close> of a buffer.\<close>

definition get_sample :: "sample_t list list \<Rightarrow> nat \<Rightarrow> nat \<Rightarrow> sample_t option" where
  "get_sample buf i j = (if i < length buf \<and> j < length (buf ! i) then Some (buf ! i ! j) else None)"

definition put_sample :: "sample_t list list \<Rightarrow> nat \<Rightarrow> nat \<Rightarrow> sample_t \<Rightarrow> sample_t list list option" where
  "put_sample buf i j x =
     (if i < length buf \<and> j < length (buf ! i) then Some (buf[i := (buf ! i)[j := x]]) else None)"

section \<open>Patterns and values\<close>

lemma float_pack_fields:
  assumes "e < 256" and "f < 8388608"
  shows "float_sign (float_pack s e f) = s" and "float_exp (float_pack s e f) = e"
    and "float_frac (float_pack s e f) = f"
proof -
  let ?v = "(if s then 2147483648 else 0) + e * 8388608 + f"
  have lt: "e * 8388608 + f < 2147483648" using assms by linarith
  then have "?v < 2 ^ 32" by auto
  then have v: "unat (float_pack s e f) = ?v"
    by (simp add: float_pack_def unat_of_nat del: of_nat_add of_nat_mult)
  have "?v div 2147483648 = (if s then 1 else 0)" using lt by auto
  then show "float_sign (float_pack s e f) = s" unfolding float_sign_def v by auto
  have "?v div 8388608 = (if s then 256 else 0) + e" using assms(2) by auto
  then have "?v div 8388608 mod 256 = e" using assms(1) by auto
  then show "float_exp (float_pack s e f) = e" unfolding float_exp_def v .
  have "?v = f + ((if s then 256 else 0) + e) * 8388608" by simp
  then have "?v mod 8388608 = f mod 8388608" by (simp only: mod_mult_self1)
  then have "?v mod 8388608 = f" using assms(2) by simp
  then show "float_frac (float_pack s e f) = f" unfolding float_frac_def v .
qed

lemma float_val_rep:
  assumes "float_val w = Fin x"
  shows "\<exists>m e. x = of_int m * 2 powi e \<and> \<bar>m\<bar> < 16777216 \<and> -149 \<le> e"
proof -
  let ?s = "if float_sign w then - 1 else 1 :: int"
  have f: "float_frac w < 8388608" by (simp add: float_frac_def)
  show ?thesis
  proof (cases "float_exp w = 0")
    case True
    then have "x = of_int (?s * int (float_frac w)) * 2 powi -149"
      using assms by (auto simp: float_val_def Let_def with_sign_def split: if_splits)
    moreover have "\<bar>?s * int (float_frac w)\<bar> < 16777216" using f by auto
    ultimately show ?thesis by (metis order_refl)
  next
    case False
    then have "x = of_int (?s * int (8388608 + float_frac w)) * 2 powi (int (float_exp w) - 150)"
      using assms by (auto simp: float_val_def Let_def with_sign_def algebra_simps split: if_splits)
    moreover have "-149 \<le> int (float_exp w) - 150" using False by simp
    moreover have "\<bar>?s * int (8388608 + float_frac w)\<bar> < 16777216" using f by auto
    ultimately show ?thesis by metis
  qed
qed

lemma float_val_bits:
  assumes "fl_rep 24 (-149) x" and "\<bar>x\<bar> < 2 powi 128"
  shows "float_val (float_bits x) = Fin x"
proof (cases "x = 0")
  case True
  then show ?thesis
    by (simp add: float_bits_def float_val_def float_exp_def float_frac_def with_sign_def)
next
  case False
  define L where "L = ilog2 \<bar>x\<bar>"
  define k where "k = max L (-126)"
  have L: "2 powi L \<le> \<bar>x\<bar>" "\<bar>x\<bar> < 2 powi (L + 1)"
    using False ilog2_bounds [of "\<bar>x\<bar>"] by (simp_all add: L_def)
  have "k - 23 = max (L - int 24 + 1) (-149)" by (simp add: k_def)
  then have "grid (k - 23) x \<or> \<bar>x\<bar> < 2 powi L \<and> k - 23 \<le> L"
    by (intro fl_rep_grid [OF assms(1)]) simp_all
  then have "grid (k - 23) x" using L(1) by auto
  then obtain n :: int where n: "x = of_int n * 2 powi (k - 23)" by (auto simp: grid_def)
  then have ax: "\<bar>x\<bar> = of_int \<bar>n\<bar> * 2 powi (k - 23)" by (simp add: abs_mult power_int_abs)
  define m where "m = nat \<bar>n\<bar>"
  have m: "nat \<lfloor>\<bar>x\<bar> / 2 powi (k - 23)\<rfloor> = m"
    by (simp add: ax m_def flip: of_int_abs)
  have xm: "\<bar>x\<bar> = of_nat m * 2 powi (k - 23)" by (simp add: ax m_def)
  have hi: "\<bar>x\<bar> < 2 powi (k + 1)"
  proof -
    have "(2 :: rat) powi (L + 1) \<le> 2 powi (k + 1)" by (intro power_int_increasing) (simp_all add: k_def)
    with L(2) show ?thesis by (rule less_le_trans)
  qed
  have "(2 :: rat) powi (k + 1) = 16777216 * 2 powi (k - 23)"
    using power_int_add [of "2 :: rat" 24 "k - 23"] by (simp add: add.commute)
  then have "of_nat m * 2 powi (k - 23) < (of_nat 16777216 * 2 powi (k - 23) :: rat)"
    using hi xm by simp
  then have "of_nat m < (of_nat 16777216 :: rat)" by (rule mult_right_less_imp_less) simp
  then have m24: "m < 16777216" by (simp only: of_nat_less_iff)
  have "L < 128"
  proof (rule power_int_le_imp_less_exp [of "2 :: rat"])
    show "(2 :: rat) powi L < 2 powi 128" using L(1) assms(2) by (rule le_less_trans)
  qed simp_all
  then have k: "k + 127 \<le> 254" "1 \<le> k + 127" by (auto simp: k_def)
  have sx: "with_sign (x < 0) \<bar>x\<bar> = x" by (simp add: with_sign_def)
  show ?thesis
  proof (cases "m < 8388608")
    case True
    have "k = -126"
    proof (rule ccontr)
      assume "k \<noteq> -126"
      then have "k = L" by (auto simp: k_def max_def split: if_splits)
      then have "2 powi k \<le> \<bar>x\<bar>" using L(1) by simp
      moreover have "(2 :: rat) powi k = 8388608 * 2 powi (k - 23)"
        using power_int_add [of "2 :: rat" 23 "k - 23"] by simp
      ultimately have "of_nat 8388608 * 2 powi (k - 23) \<le> (of_nat m * 2 powi (k - 23) :: rat)"
        using xm by simp
      then have "of_nat 8388608 \<le> (of_nat m :: rat)" by (rule mult_right_le_imp_le) simp
      then show False using True by (simp only: of_nat_le_iff)
    qed
    moreover have "float_bits x = float_pack (x < 0) 0 m"
      using False True m by (simp add: float_bits_def Let_def L_def k_def)
    ultimately show ?thesis
      using True float_pack_fields [of 0 m "x < 0"] sx xm
      by (simp add: float_val_def)
  next
    case nsub: False
    have e: "nat (k + 127) < 256" "m - 8388608 < 8388608" "nat (k + 127) \<noteq> 255" "nat (k + 127) \<noteq> 0"
      using k m24 nsub by simp_all
    have "float_bits x = float_pack (x < 0) (nat (k + 127)) (m - 8388608)"
      using False nsub m by (simp add: float_bits_def Let_def L_def k_def)
    moreover have "of_nat (8388608 + (m - 8388608)) * 2 powi (int (nat (k + 127)) - 150) = \<bar>x\<bar>"
      using nsub k xm by (simp add: algebra_simps)
    ultimately show ?thesis
      using float_pack_fields [OF e(1,2), of "x < 0"] e sx
      by (simp add: float_val_def Let_def)
  qed
qed


section \<open>Exactness of the conversions\<close>

lemma dbl_mul_exact:
  assumes "float_val w = Fin x" and "\<bar>n\<bar> \<le> 536870912"
  shows "dbl_mul x (of_int n) = x * of_int n"
proof -
  obtain m e where x: "x = of_int m * 2 powi e" "\<bar>m\<bar> < 16777216" "-149 \<le> e"
    using float_val_rep [OF assms(1)] by blast
  have "\<bar>m * n\<bar> \<le> 16777216 * 536870912"
    unfolding abs_mult using x(2) assms(2) by (intro mult_mono) simp_all
  then have "dbl_rep (x * of_int n)"
    unfolding dbl_rep_def fl_rep_def using x
    by (intro exI [of _ "m * n"] exI [of _ e]) simp
  then show ?thesis by (simp add: dbl_mul_def)
qed

lemma float_round_rep [simp]: "fl_rep 24 (-149) x \<Longrightarrow> float_round x = x"
  unfolding float_round_def by (rule fl_round_rep) simp_all

text \<open>The values of the wire formats are exact in both precisions.\<close>

lemma wire_rep:
  assumes "\<bar>k\<bar> \<le> 16777216"
  shows "fl_rep 24 (-149) (of_int k / 8388608)" and "dbl_rep (of_int k / 8388608)"
proof -
  have x: "of_int k / 8388608 = (of_int k * 2 powi -23 :: rat)" by simp
  show "fl_rep 24 (-149) (of_int k / 8388608)"
    unfolding fl_rep_def x using assms by (intro exI [of _ k] exI [of _ "-23"]) simp
  show "dbl_rep (of_int k / 8388608)"
    unfolding dbl_rep_def fl_rep_def x using assms by (intro exI [of _ k] exI [of _ "-23"]) simp
qed

lemma wire_value:
  assumes "\<bar>k\<bar> \<le> 16777216"
  shows "float_val (float_bits (float_round (dbl_round (of_int k / 8388608)))) = Fin (of_int k / 8388608)"
proof -
  have "of_int \<bar>k\<bar> \<le> (of_int 16777216 :: rat)" using assms by (simp only: of_int_le_iff)
  then have "\<bar>of_int k / 8388608\<bar> < (2 powi 128 :: rat)" by simp
  then show ?thesis using wire_rep [OF assms] by (simp add: float_val_bits)
qed

lemma cxx_round_error: "\<bar>of_int (cxx_round x) - x\<bar> \<le> 1/2"
proof (cases "0 \<le> x")
  case True
  then show ?thesis
    using floor_correct [of "x + 1/2"] unfolding abs_le_iff by (simp add: cxx_round_def) linarith
next
  case False
  then show ?thesis
    using floor_correct [of "1/2 - x"] unfolding abs_le_iff by (simp add: cxx_round_def) linarith
qed

lemma cxx_round_bound:
  assumes "\<bar>x\<bar> \<le> of_int n"
  shows "\<bar>cxx_round x\<bar> \<le> n"
proof -
  have "of_int \<bar>cxx_round x\<bar> < (of_int (n + 1) :: rat)"
    using cxx_round_error [of x] assms unfolding of_int_abs by (simp add: abs_if split: if_splits)
  then show ?thesis by (simp only: of_int_less_iff)
qed

lemma scale_clamp_bound: "0 \<le> n \<Longrightarrow> \<bar>scale_clamp n v\<bar> \<le> n"
  by (auto simp: scale_clamp_def split: flt.split)

lemma scale_clamp_inside:
  assumes "float_val w = Fin x" and "\<bar>x\<bar> \<le> 1" and "0 \<le> n" "n \<le> 536870912"
  shows "scale_clamp n (Fin x) = cxx_round (x * of_int n)"
proof -
  have "\<bar>x * of_int n\<bar> \<le> of_int n"
    using mult_right_mono [OF assms(2), of "of_int n"] assms(3) by (simp add: abs_mult)
  then have "\<bar>cxx_round (x * of_int n)\<bar> \<le> n" by (rule cxx_round_bound)
  then show ?thesis
    using dbl_mul_exact [OF assms(1), of n] assms(3,4) by (simp add: scale_clamp_def)
qed

text \<open>Two's complement bytes read back.\<close>

lemma int_of_le_bytes_int:
  assumes "- (256 ^ n) \<le> 2 * x" and "2 * x < 256 ^ n"
  shows "int_of_le_bytes (le_bytes_int n x) = x"
proof -
  let ?m = "256 ^ n :: int"
  have m: "0 < ?m" by simp
  then have "nat (x mod ?m) mod 256 ^ n = nat (x mod ?m)"
    by (simp add: nat_mod_distrib [symmetric] flip: nat_power_eq)
  then have v: "int (of_le_bytes (le_bytes_int n x)) = x mod ?m"
    using m by (simp add: le_bytes_int_def of_le_bytes_le_bytes)
  show ?thesis
  proof (cases "0 \<le> x")
    case True
    then have "x mod ?m = x" using assms(2) by simp
    then show ?thesis using v assms(2) by (simp add: int_of_le_bytes_def le_bytes_int_def)
  next
    case False
    then have "(x + ?m) mod ?m = x + ?m" using assms(1) by (intro mod_pos_pos_trivial) linarith+
    then have "x mod ?m = x + ?m" by simp
    then show ?thesis using v False assms(1) by (simp add: int_of_le_bytes_def le_bytes_int_def)
  qed
qed

lemma le_bytes_int_length [simp]: "length (le_bytes_int n x) = n"
  by (simp add: le_bytes_int_def)

lemma conversion_total: "mode \<noteq> BIT24 \<Longrightarrow> \<exists>bs. fromSampleToBitConversion x mode = Some bs \<and> length bs = bit_resolution_code mode"
  by (cases mode) (auto simp: fromSampleToBitConversion_def)

lemma le_bytes_take: "k \<le> n \<Longrightarrow> take k (le_bytes n v) = le_bytes k v"
proof (induction k arbitrary: n v)
  case (Suc k)
  then show ?case by (cases n) auto
qed simp

lemma le_bytes_mod: "le_bytes n (v mod 256 ^ n) = le_bytes n v"
proof (induction n arbitrary: v)
  case (Suc n)
  have "v mod (256 * 256 ^ n) mod 256 = v mod 256" by (simp add: mod_mod_cancel)
  moreover have "v mod (256 * 256 ^ n) div 256 = v div 256 mod 256 ^ n"
    by (simp add: mod_mult2_eq)
  ultimately show ?case using Suc.IH by simp
qed simp


section \<open>One hop over the network\<close>

text \<open>Decoding a signed integer of the format is exact.\<close>

lemma decode_int:
  assumes "\<bar>q\<bar> \<le> 32767"
  shows "\<exists>s. fromBitToSampleConversion (le_bytes_int 2 q) BIT16 = Some s \<and> float_val s = Fin (of_int q / 32768)"
    and "\<bar>q\<bar> \<le> 127 \<Longrightarrow>
      \<exists>s. fromBitToSampleConversion (le_bytes_int 1 q) BIT8 = Some s \<and> float_val s = Fin (of_int q / 128)"
proof -
  have i: "int_of_le_bytes (le_bytes_int 2 q) = q" using assms by (intro int_of_le_bytes_int) auto
  have "float_val (float_bits (float_round (dbl_round (of_int (q * 256) / 8388608)))) =
      Fin (of_int (q * 256) / 8388608)"
    using assms by (intro wire_value) linarith
  then show "\<exists>s. fromBitToSampleConversion (le_bytes_int 2 q) BIT16 = Some s \<and> float_val s = Fin (of_int q / 32768)"
    using i by (simp add: fromBitToSampleConversion_def mem_read_def)
next
  assume q: "\<bar>q\<bar> \<le> 127"
  have i: "int_of_le_bytes (le_bytes_int 1 q) = q" using q by (intro int_of_le_bytes_int) auto
  have "float_val (float_bits (float_round (dbl_round (of_int (q * 65536) / 8388608)))) =
      Fin (of_int (q * 65536) / 8388608)"
    using q by (intro wire_value) linarith
  then show "\<exists>s. fromBitToSampleConversion (le_bytes_int 1 q) BIT8 = Some s \<and> float_val s = Fin (of_int q / 128)"
    using i by (simp add: fromBitToSampleConversion_def mem_read_def)
qed

lemma abs_div_diff: "0 < N \<Longrightarrow> \<bar>q / N - x\<bar> = \<bar>q - x * N\<bar> / N" for N q x :: rat
proof -
  assume "0 < N"
  then have "q / N - x = (q - x * N) / N" "\<bar>N\<bar> = N" by (simp_all add: field_simps)
  then show ?thesis by (simp only: abs_divide)
qed

text \<open>A sample scaled by \<open>n\<close>, rounded, and divided by \<open>n + 1\<close>.\<close>

lemma rescale_error:
  assumes "\<bar>x\<bar> \<le> 1" and "0 < n"
  shows "\<bar>of_int (cxx_round (x * of_int n)) / of_int (n + 1) - x\<bar> \<le> 3 / (2 * of_int (n + 1) :: rat)"
proof -
  let ?q = "of_int (cxx_round (x * of_int n)) :: rat" and ?N = "of_int (n + 1) :: rat"
  have N: "0 < ?N" using assms(2) by simp
  have "\<bar>?q - x * of_int n\<bar> \<le> 1/2" by (rule cxx_round_error)
  then have "\<bar>?q - x * ?N\<bar> \<le> 3/2" using assms(1) unfolding abs_le_iff by (simp add: algebra_simps)
  then have "\<bar>?q - x * ?N\<bar> / ?N \<le> (3/2) / ?N" using N by (intro divide_right_mono) simp_all
  moreover have "\<bar>?q / ?N - x\<bar> = \<bar>?q - x * ?N\<bar> / ?N" using N by (rule abs_div_diff)
  ultimately show ?thesis by simp
qed

lemma hop16:
  assumes "float_val w = Fin x" and "\<bar>x\<bar> \<le> 1"
  shows "\<exists>bs s y. fromSampleToBitConversion w BIT16 = Some bs \<and> length bs = 2 \<and>
    fromBitToSampleConversion bs BIT16 = Some s \<and> float_val s = Fin y \<and> \<bar>y - x\<bar> \<le> 3 / 65536"
proof -
  let ?q = "scale_clamp 32767 (Fin x)"
  have q: "?q = cxx_round (x * of_int 32767)" using assms by (intro scale_clamp_inside) simp_all
  have "\<bar>?q\<bar> \<le> 32767" by (rule scale_clamp_bound) simp
  then obtain s where "fromBitToSampleConversion (le_bytes_int 2 ?q) BIT16 = Some s"
    "float_val s = Fin (of_int ?q / 32768)"
    using decode_int(1) by blast
  moreover have "\<bar>of_int ?q / 32768 - x\<bar> \<le> 3 / 65536"
    using rescale_error [OF assms(2), of 32767] q by simp
  moreover have "fromSampleToBitConversion w BIT16 = Some (le_bytes_int 2 ?q)"
    using assms(1) by (simp add: fromSampleToBitConversion_def)
  ultimately show ?thesis using le_bytes_int_length by blast
qed

lemma hop8:
  assumes "float_val w = Fin x" and "\<bar>x\<bar> \<le> 1"
  shows "\<exists>bs s y. fromSampleToBitConversion w BIT8 = Some bs \<and> length bs = 1 \<and>
    fromBitToSampleConversion bs BIT8 = Some s \<and> float_val s = Fin y \<and> \<bar>y - x\<bar> \<le> 3 / 256"
proof -
  let ?q = "scale_clamp 127 (Fin x)"
  have q: "?q = cxx_round (x * of_int 127)" using assms by (intro scale_clamp_inside) simp_all
  have b: "\<bar>?q\<bar> \<le> 127" by (rule scale_clamp_bound) simp
  then have "\<bar>?q\<bar> \<le> 32767" by linarith
  then obtain s where "fromBitToSampleConversion (le_bytes_int 1 ?q) BIT8 = Some s"
    "float_val s = Fin (of_int ?q / 128)"
    using decode_int(2) b by blast
  moreover have "\<bar>of_int ?q / 128 - x\<bar> \<le> 3 / 256"
    using rescale_error [OF assms(2), of 127] q by simp
  moreover have "fromSampleToBitConversion w BIT8 = Some (le_bytes_int 1 ?q)"
    using assms(1) by (simp add: fromSampleToBitConversion_def)
  ultimately show ?thesis using le_bytes_int_length by blast
qed

lemma small_int_rep: "\<bar>n\<bar> \<le> 16777216 \<Longrightarrow> fl_rep 24 (-149) (of_int n)"
  by (rule fl_rep_of_int) simp_all

lemma decode24:
  assumes "- 32768 \<le> a" "a < 32768" "c < 256"
  shows "\<exists>s. fromBitToSampleConversion (le_bytes_int 2 a @ le_bytes_int 1 (int c)) BIT24 = Some s \<and>
    float_val s = Fin (of_int (a * 256 + int c) / 8388608)"
proof -
  have i: "int_of_le_bytes (le_bytes_int 2 a) = a" using assms by (intro int_of_le_bytes_int) auto
  have b1: "le_bytes_int 1 (int c) = [of_nat c]"
    using assms by (simp add: le_bytes_int_def nat_mod_distrib)
  have u: "unat (of_nat c :: u8) = c" using assms by (simp add: unat_of_nat)
  have b8: "(of_nat c / 256 :: rat) = of_int (int c * 32768) / 8388608" by simp
  have r8: "float_round (dbl_round (of_nat c / 256)) = of_nat c / 256"
    unfolding b8 using wire_rep [of "int c * 32768"] assms(3) by simp
  have sum: "(of_int a + of_nat c / 256 :: rat) = of_int (a * 256 + int c) * 2 powi -8"
    by (simp add: field_simps)
  have "fl_rep 24 (-149) (of_int a + of_nat c / 256)"
    unfolding fl_rep_def sum using assms by (intro exI [of _ "a * 256 + int c"] exI [of _ "-8"]) auto
  then have rs: "float_round (of_int a + of_nat c / 256) = of_int a + of_nat c / 256" by simp
  have v: "((of_int a + of_nat c / 256) / 32768 :: rat) = of_int (a * 256 + int c) / 8388608"
    by (simp add: field_simps)
  have "float_val (float_bits (float_round (dbl_round (of_int (a * 256 + int c) / 8388608)))) =
      Fin (of_int (a * 256 + int c) / 8388608)"
    using assms by (intro wire_value) auto
  moreover have "(unsigned (of_nat c :: u8) :: rat) = of_nat c"
    using arg_cong [OF u, of "of_nat :: nat \<Rightarrow> rat"] by simp
  ultimately show ?thesis
    unfolding fromBitToSampleConversion_def
    by (simp add: mem_read_def nth_append Let_def i b1 [simplified] r8 rs v del: of_int_add of_int_mult)
qed

text \<open>
  The remainder of the 24-bit conversion is exact unless the sample is negative and smaller
  than any multiple of \<open>2 ^ -67\<close> that the sum with 1 can hold.
\<close>

lemma remainder_exact:
  assumes "float_val w = Fin x" and "0 \<le> x \<or> x \<le> - (2 powi -44)"
  defines "r \<equiv> x * 32768 - of_int \<lfloor>x * 32768\<rfloor>"
  shows "dbl_rep r" and "dbl_rep (r * 256)"
proof -
  have fc: "of_int \<lfloor>x * 32768\<rfloor> \<le> x * 32768" "x * 32768 < of_int \<lfloor>x * 32768\<rfloor> + 1"
    using floor_correct [of "x * 32768"] by simp_all
  have "\<exists>M E. r = of_int M * 2 powi E \<and> \<bar>M\<bar> \<le> 2 ^ 53 \<and> -1000 \<le> E"
  proof (cases "2 powi -44 \<le> \<bar>x\<bar>")
    case True
    obtain m e where x: "x = of_int m * 2 powi e" "\<bar>m\<bar> < 16777216" "-149 \<le> e"
      using float_val_rep [OF assms(1)] by blast
    then have "fl_rep 24 (-149) x" unfolding fl_rep_def by (intro exI [of _ m] exI [of _ e]) simp
    then have "grid (-67) x \<or> \<bar>x\<bar> < 2 powi -44 \<and> -67 \<le> (-44 :: int)"
      by (rule fl_rep_grid) simp_all
    then have "grid (-67) x" using True by auto
    then obtain n :: int where n: "x = of_int n * 2 powi -67" by (auto simp: grid_def)
    let ?M = "n - \<lfloor>x * 32768\<rfloor> * 4503599627370496"
    have r: "r = of_int ?M * 2 powi -52" unfolding r_def n by (simp add: field_simps)
    have "0 \<le> r" "r < 1" using fc by (simp_all add: r_def)
    then have "0 \<le> (of_int ?M :: rat)" "(of_int ?M :: rat) < of_int 4503599627370496"
      unfolding r by (simp_all add: field_simps)
    then have "0 \<le> ?M" "?M < 4503599627370496" by (simp_all only: of_int_0_le_iff of_int_less_iff)
    then show ?thesis using r by (intro exI [of _ ?M] exI [of _ "-52"]) simp
  next
    case False
    then have pos: "0 \<le> x" using assms(2) by auto
    obtain m e where x: "x = of_int m * 2 powi e" "\<bar>m\<bar> < 16777216" "-149 \<le> e"
      using float_val_rep [OF assms(1)] by blast
    have "x < 1 / 17592186044416" using False pos by simp
    then have "\<lfloor>x * 32768\<rfloor> = 0" using pos by (simp add: floor_eq_iff)
    then have "r = of_int m * 2 powi (e + 15)"
      using x(1) power_int_add [of "2 :: rat" e 15] by (simp add: r_def)
    then show ?thesis using x by (intro exI [of _ m] exI [of _ "e + 15"]) simp
  qed
  then obtain M E where r: "r = of_int M * 2 powi E" "\<bar>M\<bar> \<le> 2 ^ 53" "-1000 \<le> E" by blast
  then show "dbl_rep r" unfolding dbl_rep_def fl_rep_def by (intro exI [of _ M] exI [of _ E]) simp
  have "r * 256 = of_int M * 2 powi (E + 8)" using r(1) power_int_add [of "2 :: rat" E 8] by simp
  then show "dbl_rep (r * 256)"
    unfolding dbl_rep_def fl_rep_def using r by (intro exI [of _ M] exI [of _ "E + 8"]) simp
qed

text \<open>Just below 1 the doubles are \<open>2 ^ -53\<close> apart.\<close>

lemma rne_near: "\<bar>x - of_int n\<bar> < 1/2 \<Longrightarrow> rne x = n"
proof -
  assume near: "\<bar>x - of_int n\<bar> < 1/2"
  show ?thesis
  proof (cases "of_int n \<le> x")
    case True
    then have "\<lfloor>x\<rfloor> = n" using near by (simp add: floor_eq_iff abs_if split: if_splits)
    then show ?thesis using near True by (simp add: rne_def)
  next
    case False
    then have "\<lfloor>x\<rfloor> = n - 1" using near by (simp add: floor_eq_iff abs_if split: if_splits)
    then show ?thesis using near False by (simp add: rne_def Let_def abs_if split: if_splits)
  qed
qed

lemma ilog2_below_1:
  assumes "1/2 \<le> x" and "x < 1"
  shows "ilog2 x = -1"
proof -
  have b: "2 powi ilog2 x \<le> x" "x < 2 powi (ilog2 x + 1)" using assms by (simp_all add: ilog2_bounds)
  have "(2 :: rat) powi ilog2 x < 2 powi 0" using b(1) assms(2) by simp
  then have "ilog2 x < 0" by (rule power_int_le_imp_less_exp [rotated]) simp_all
  have "(2 :: rat) powi -1 < 2 powi (ilog2 x + 1)" using b(2) assms(1) by simp
  then have "- 1 < ilog2 x + 1"
    using power_int_increasing [of "ilog2 x + 1" "-1" "2 :: rat"] by force
  with \<open>ilog2 x < 0\<close> show ?thesis by simp
qed

lemma dbl_round_below_1:
  assumes "- (1/2) \<le> d" and "d < 0"
  shows "dbl_round (d + 1) = of_int (rne (9007199254740992 + d * 9007199254740992)) / 9007199254740992"
proof -
  have "ilog2 \<bar>d + 1\<bar> = -1" using assms by (intro ilog2_below_1) simp_all
  then show ?thesis using assms by (simp add: dbl_round_def fl_round_def algebra_simps)
qed

text \<open>The remainder of a negative sample nearer to 0: all of it but the last step.\<close>

lemma small_negative_remainder:
  assumes "- (2 powi -29) < d" and "d < - (2 powi -54)"
  defines "r \<equiv> dbl_round (d + 1)"
  shows "dbl_mul r 256 = r * 256" and "\<lfloor>r * 256\<rfloor> = 255"
proof -
  have d: "- (1 / 536870912) < d" "d < - (1 / 18014398509481984)" using assms(1,2) by simp_all
  define m where "m = rne (9007199254740992 + d * 9007199254740992)"
  have r: "r = of_int m / 9007199254740992"
    using d unfolding r_def m_def by (intro dbl_round_below_1) simp_all
  have lo: "9007199237963776 \<le> m" unfolding m_def using d(1) by (intro rne_ge) (simp add: algebra_simps)
  have "m \<noteq> 9007199254740992"
  proof
    assume "m = 9007199254740992"
    define x where "x = 9007199254740992 + d * 9007199254740992"
    have x: "x < 9007199254740992 - 1/2" using d by (simp_all add: x_def algebra_simps)
    have "rne x = 9007199254740992" using \<open>m = 9007199254740992\<close> by (simp add: m_def x_def)
    moreover have "\<lfloor>x\<rfloor> \<noteq> 9007199254740992" using x by (auto simp: floor_eq_iff)
    ultimately have "\<lfloor>x\<rfloor> = 9007199254740991" "1/2 \<le> x - of_int \<lfloor>x\<rfloor>"
      by (auto simp: rne_def Let_def split: if_splits)
    then show False using x by simp
  qed
  moreover have "m \<le> 9007199254740992" unfolding m_def using d(2) by (intro rne_le) (simp add: algebra_simps)
  ultimately have hi: "m \<le> 9007199254740991" by simp
  have r256: "r * 256 = of_int m * 2 powi -45" by (simp add: r)
  have "dbl_rep (r * 256)" unfolding dbl_rep_def fl_rep_def r256
    using lo hi by (intro exI [of _ m] exI [of _ "-45"]) simp
  then show "dbl_mul r 256 = r * 256" by (simp add: dbl_mul_def)
  have "(9007199237963776 :: rat) \<le> of_int m" "of_int m \<le> (9007199254740991 :: rat)"
    using lo hi by (metis of_int_le_iff of_int_numeral)+
  then show "\<lfloor>r * 256\<rfloor> = 255" unfolding r256 by (simp add: floor_eq_iff field_simps)
qed

text \<open>What the 24-bit conversion sends when the remainder is in range, and what the peer makes of it.\<close>

lemma encode24:
  assumes "float_val w = Fin x" and "-1 \<le> x" "x < 1"
    and "dbl_mul (dbl_sub (x * 32768) (of_int \<lfloor>x * 32768\<rfloor>)) 256 = r" and "0 \<le> \<lfloor>r\<rfloor>" "\<lfloor>r\<rfloor> < 256"
  shows "\<exists>s. fromSampleToBitConversion w BIT24 = Some (le_bytes_int 2 \<lfloor>x * 32768\<rfloor> @ le_bytes_int 1 \<lfloor>r\<rfloor>) \<and>
    fromBitToSampleConversion (le_bytes_int 2 \<lfloor>x * 32768\<rfloor> @ le_bytes_int 1 \<lfloor>r\<rfloor>) BIT24 = Some s \<and>
    float_val s = Fin (of_int (\<lfloor>x * 32768\<rfloor> * 256 + \<lfloor>r\<rfloor>) / 8388608)"
proof -
  define a where "a = \<lfloor>x * 32768\<rfloor>"
  have t: "dbl_mul x 32768 = x * 32768" using dbl_mul_exact [OF assms(1), of 32768] by simp
  have a: "- 32768 \<le> a" "a < 32768"
    using assms(2,3) by (simp_all add: a_def le_floor_iff floor_less_iff)
  obtain c where c: "\<lfloor>r\<rfloor> = int c" "c < 256" using nonneg_int_cases [OF assms(5)] assms(6) by auto
  have fr: "float_round (of_int a) = of_int a" using a by (simp add: small_int_rep)
  have fb: "float_round (of_int \<lfloor>r\<rfloor>) = of_int \<lfloor>r\<rfloor>" using assms(5,6) by (simp add: small_int_rep)
  have ta: "dbl_trunc (of_int z) = z" for z by (simp add: dbl_trunc_def)
  have "fromSampleToBitConversion w BIT24 = Some (le_bytes_int 2 a @ le_bytes_int 1 \<lfloor>r\<rfloor>)"
    using assms(1,5,6) a assms(4) [folded a_def] unfolding fromSampleToBitConversion_def
    by (simp add: t a_def [symmetric] fr fb ta int16_range_def Let_def)
  then show ?thesis using decode24 [OF a c(2)] unfolding c(1) a_def by blast
qed

lemma hop24:
  assumes "float_val w = Fin x" and "-1 \<le> x" "x < 1" and "0 \<le> x \<or> x < - (2 powi -69)"
  shows "\<exists>bs s y. fromSampleToBitConversion w BIT24 = Some bs \<and> length bs = 3 \<and>
    fromBitToSampleConversion bs BIT24 = Some s \<and> float_val s = Fin y \<and> y \<le> x \<and> x < y + 1 / 8388608"
proof -
  define a where "a = \<lfloor>x * 32768\<rfloor>"
  obtain r where r: "dbl_mul (dbl_sub (x * 32768) (of_int a)) 256 = r" "0 \<le> \<lfloor>r\<rfloor>" "\<lfloor>r\<rfloor> < 256"
    "of_int (a * 256 + \<lfloor>r\<rfloor>) / 8388608 \<le> x" "x < of_int (a * 256 + \<lfloor>r\<rfloor>) / 8388608 + 1 / 8388608"
  proof (cases "0 \<le> x \<or> x \<le> - (2 powi -44)")
    case True
    define r where "r = (x * 32768 - of_int a) * 256"
    have "dbl_mul (dbl_sub (x * 32768) (of_int a)) 256 = r"
      using remainder_exact [OF assms(1) True] by (simp add: dbl_sub_def dbl_mul_def a_def r_def)
    moreover have "0 \<le> r" "r < 256" using floor_correct [of "x * 32768"] by (simp_all add: a_def r_def algebra_simps)
    moreover have "of_int \<lfloor>r\<rfloor> \<le> r" "r < of_int \<lfloor>r\<rfloor> + 1" using floor_correct [of r] by simp_all
    ultimately show ?thesis by (intro that [of r]) (simp_all add: r_def field_simps floor_less_iff)
  next
    case False
    then have x: "- (1 / 17592186044416) < x" "x < - (1 / 590295810358705651712)" using assms(4) by auto
    have "- 1 \<le> x * 32768" "x * 32768 < 0" using x by simp_all
    then have a: "a = -1" by (simp add: a_def floor_eq_iff)
    define q where "q = dbl_round (x * 32768 + 1)"
    have "dbl_mul q 256 = q * 256" "\<lfloor>q * 256\<rfloor> = 255"
      unfolding q_def using x by (intro small_negative_remainder; simp)+
    then show ?thesis using x by (intro that [of "q * 256"]) (simp_all add: a q_def dbl_sub_def)
  qed
  moreover have "length (le_bytes_int 2 a @ le_bytes_int 1 \<lfloor>r\<rfloor>) = 3" by simp
  ultimately show ?thesis using encode24 [OF assms(1-3), of r] unfolding a_def by blast
qed

section \<open>Samples that do not survive\<close>

lemma dbl_round_near_1:
  assumes "- (2 powi -54) \<le> d" and "d < 0"
  shows "dbl_round (d + 1) = 1"
proof -
  have d: "- (1 / 18014398509481984) \<le> d" using assms(1) by simp
  define x where "x = 9007199254740992 + d * 9007199254740992"
  have x: "9007199254740992 - 1/2 \<le> x" "x < 9007199254740992" using d assms(2) by (simp_all add: x_def algebra_simps)
  have "\<lfloor>x\<rfloor> = 9007199254740991" using x by (simp add: floor_eq_iff)
  then have "rne x = 9007199254740992" using x by (simp add: rne_def Let_def)
  moreover have "dbl_round (d + 1) = of_int (rne x) / 9007199254740992"
    using d assms(2) unfolding x_def by (intro dbl_round_below_1) simp_all
  ultimately show ?thesis by simp
qed

text \<open>A negative sample whose sum with 1 rounds to 1 makes the remainder 256.\<close>

lemma bit24_tiny_negative:
  assumes "float_val w = Fin x" and "- (2 powi -69) \<le> x" and "x < 0"
  shows "fromSampleToBitConversion w BIT24 = None"
proof -
  have t: "dbl_mul x 32768 = x * 32768" using dbl_mul_exact [OF assms(1), of 32768] by simp
  have x: "- (1 / 590295810358705651712) \<le> x" using assms(2) by simp
  have "- 1 \<le> x * 32768" "x * 32768 < 0" using x assms(3) by simp_all
  then have a: "\<lfloor>x * 32768\<rfloor> = -1" by (simp add: floor_eq_iff)
  have fr: "float_round (-1) = -1" using small_int_rep [of "-1"] by simp
  have "- (2 powi -54) \<le> x * 32768" using x by simp
  then have r: "dbl_sub (x * 32768) (-1) = 1"
    using dbl_round_near_1 [of "x * 32768"] assms(3) by (simp add: dbl_sub_def)
  have f1: "dbl_mul 1 256 = 256" using dbl_rep_of_int [of 256] by (simp add: dbl_mul_def)
  have f2: "float_round 256 = 256" using small_int_rep [of 256] by simp
  show ?thesis
    using assms(1) unfolding fromSampleToBitConversion_def
    by (simp add: t a fr r f1 f2 int16_range_def dbl_trunc_def Let_def)
qed

lemma bit24_full_scale:
  assumes "float_val w = Fin x" and "1 \<le> x"
  shows "fromSampleToBitConversion w BIT24 = None"
proof -
  have t: "dbl_mul x 32768 = x * 32768" using dbl_mul_exact [OF assms(1), of 32768] by simp
  have "32768 \<le> \<lfloor>x * 32768\<rfloor>" using assms(2) by (simp add: le_floor_iff)
  then have "of_int 32768 \<le> float_round (of_int \<lfloor>x * 32768\<rfloor>)"
    unfolding float_round_def by (intro fl_round_ge small_int_rep) simp_all
  then have "32768 \<le> dbl_trunc (float_round (of_int \<lfloor>x * 32768\<rfloor>))"
    by (simp add: dbl_trunc_def le_floor_iff)
  then show ?thesis
    using assms(1) unfolding fromSampleToBitConversion_def
    by (simp add: t int16_range_def Let_def)
qed

lemma double_bits_low:
  assumes "0 < float_exp w" and "float_exp w < 255"
  shows "double_bits_of_float w mod 4294967296 = float_frac w mod 8 * 536870912"
proof -
  let ?s = "if float_sign w then 2 ^ 63 else 0 :: nat"
  have "double_bits_of_float w = float_frac w * 536870912
      + (?s div 4294967296 + (float_exp w + 896) * 1048576) * 4294967296"
    using assms by (simp add: double_bits_of_float_def Let_def)
  then have "double_bits_of_float w mod 4294967296 = float_frac w * 536870912 mod 4294967296"
    by (simp only: mod_mult_self1)
  also have "\<dots> = float_frac w mod 8 * 536870912"
    using mult_mod_left [of "float_frac w" 8 536870912] by simp
  finally show ?thesis .
qed

lemma le_bytes_zero: "le_bytes n 0 = replicate n 0"
  by (induction n) simp_all

section \<open>Properties\<close>

text \<open>The error bound of one encoding and decoding.\<close>

fun hop_error :: "audioBitResolutionT \<Rightarrow> rat" where
  "hop_error BIT8 = 3 / 256"
| "hop_error BIT16 = 3 / 65536"
| "hop_error BIT24 = 1 / 8388608"
| "hop_error BIT32 = 0"

text \<open>
  C33: every sample in \<open>[-1, 1)\<close>, at 8, 16 and 24 bits.  At 8 and 16 bits, and at 24 bits except for the negative samples from
  \<open>- 2 ^ -69\<close> on, the sample takes exactly that many bits, is decoded without failure, and comes back with an error of at
  most \<open>hop_error\<close>.  The samples excepted have no defined encoding with 24 bits: their remainder is rounded to
  1, and the 256 that becomes of it is out of the range of the \<open>uint8_t\<close>.  (The source calls the 24 bits not working yet.)
\<close>

theorem sample_hop:
  assumes "float_val w = Fin x" and "-1 \<le> x" and "x < 1" and "res \<noteq> BIT32"
  shows "if res = BIT24 \<and> - (2 powi -69) \<le> x \<and> x < 0 then fromSampleToBitConversion w res = None
    else \<exists>bs s y. fromSampleToBitConversion w res = Some bs \<and> length bs = bit_resolution_code res \<and>
      fromBitToSampleConversion bs res = Some s \<and> float_val s = Fin y \<and> \<bar>y - x\<bar> \<le> hop_error res"
proof -
  have x: "\<bar>x\<bar> \<le> 1" using assms(2,3) by (simp add: abs_le_iff)
  show ?thesis
  proof (cases res)
    case BIT8
    then show ?thesis using hop8 [OF assms(1) x] by simp
  next
    case BIT16
    then show ?thesis using hop16 [OF assms(1) x] by simp
  next
    case BIT24
    show ?thesis
    proof (cases "- (2 powi -69) \<le> x \<and> x < 0")
      case True
      then show ?thesis using bit24_tiny_negative [OF assms(1)] BIT24 by simp
    next
      case False
      then have r: "0 \<le> x \<or> x < - (2 powi -69)" by linarith
      obtain bs s y where h: "fromSampleToBitConversion w BIT24 = Some bs" "length bs = 3"
        "fromBitToSampleConversion bs BIT24 = Some s" "float_val s = Fin y" "y \<le> x" "x < y + 1 / 8388608"
        using hop24 [OF assms(1-3) r] by blast
      then have "\<bar>y - x\<bar> \<le> 1 / 8388608" by (simp add: abs_le_iff)
      with h False show ?thesis unfolding BIT24 if_not_P [OF False] by auto
    qed
  qed (use assms(4) in simp)
qed

lemma float_val_half: "float_val 0x3F000000 = Fin (1/2)"
  by (simp add: float_val_def float_sign_def float_exp_def float_frac_def with_sign_def)

lemma float_val_tiny:
  "float_val 0x9D000000 = Fin (- (2 powi -69))" "float_val 0x9D000001 = Fin (- (8388609 * 2 powi -92))"
  by (simp_all add: float_val_def float_sign_def float_exp_def float_frac_def with_sign_def)

theorem sample_hop_witness:
  "(\<exists>bs s y. fromSampleToBitConversion 0x3F000000 BIT24 = Some bs \<and> length bs = 3 \<and>
      fromBitToSampleConversion bs BIT24 = Some s \<and> float_val s = Fin y \<and> \<bar>y - 1/2\<bar> \<le> 1 / 8388608) \<and>
    fromSampleToBitConversion 0x9D000000 BIT24 = None \<and>
    (\<exists>bs s y. fromSampleToBitConversion 0x9D000001 BIT24 = Some bs \<and> length bs = 3 \<and>
      fromBitToSampleConversion bs BIT24 = Some s \<and> float_val s = Fin y \<and> \<bar>y + 8388609 * 2 powi -92\<bar> \<le> 1 / 8388608)"
  using sample_hop [OF float_val_half, of BIT24] sample_hop [OF float_val_tiny(1), of BIT24]
    sample_hop [OF float_val_tiny(2), of BIT24]
  by simp

text \<open>
  With 32 bits the four bytes sent are the low half of the double the sample is converted
  to, so of every normal sample only the last three fraction bits reach the peer.
\<close>

lemma bit32_keeps_three_bits:
  assumes "0 < float_exp w" and "float_exp w < 255"
  shows "fromSampleToBitConversion w BIT32 = Some (le_bytes 4 (float_frac w mod 8 * 2 ^ 29))"
proof -
  have "take 4 (le_bytes 8 (double_bits_of_float w)) = le_bytes 4 (double_bits_of_float w)"
    by (simp add: le_bytes_take)
  also have "\<dots> = le_bytes 4 (double_bits_of_float w mod 256 ^ 4)" by (simp only: le_bytes_mod)
  finally show ?thesis
    using double_bits_low [OF assms] by (simp add: fromSampleToBitConversion_def)
qed

lemma bit32_keeps_three_bits_witness:
  "fromSampleToBitConversion 0x3F800000 BIT32 = Some [0, 0, 0, 0]"
proof -
  have "0 < float_exp 0x3F800000" "float_exp 0x3F800000 < 255" "float_frac 0x3F800000 = 0"
    by (simp_all add: float_exp_def float_frac_def)
  moreover have "le_bytes 4 0 = [0, 0, 0, 0]"
    unfolding le_bytes_zero by (simp add: numeral_eq_Suc)
  ultimately show ?thesis using bit32_keeps_three_bits [of "0x3F800000"] by simp
qed

text \<open>
  The 24-bit conversion is undefined for a sample of full scale or more, and for a negative
  sample so small that adding 1 to it rounds to 1: the remainder 256 does not fit the byte.
\<close>

lemma bit24_undefined:
  assumes "float_val w = Fin x" and "1 \<le> x \<or> - (2 powi -69) \<le> x \<and> x < 0"
  shows "fromSampleToBitConversion w BIT24 = None"
  using assms bit24_full_scale bit24_tiny_negative by blast

lemma bit24_undefined_witness: "fromSampleToBitConversion 0x3F800000 BIT24 = None"
proof -
  have "float_val 0x3F800000 = Fin 1"
    by (simp add: float_val_def float_sign_def float_exp_def float_frac_def with_sign_def)
  then show ?thesis by (rule bit24_undefined) simp
qed

end
