(* ===== verification/Burg.thy ===== *)
theory Burg
  imports Sample
begin

text \<open>
  The signal processing of the packet loss concealment (\<open>src/Regulator.h\<close>, \<open>src/Regulator.cpp\<close>):
  \<open>BurgAlgorithm\<close>, which fits an autoregressive model to the past and extends it, and the \<open>Channel\<close> with
  its history and the cross-fade.  Values are singles and doubles with infinities and NaN; signed
  zeros are not told apart, which no integer sample shows.  An access outside of a vector is \<^const>\<open>None\<close>.
\<close>

section \<open>Floating point with infinities\<close>

text \<open>The value a result is rounded to: in single and in double precision.\<close>

definition to_single :: "rat \<Rightarrow> flt" where
  "to_single x = (let r = float_round x in if 2 ^ 128 \<le> \<bar>r\<bar> then Infinite (r < 0) else Fin r)"

definition to_double :: "rat \<Rightarrow> flt" where
  "to_double x = (let r = dbl_round x in if 2 ^ 1024 \<le> \<bar>r\<bar> then Infinite (r < 0) else Fin r)"

fun flt_neg :: "flt \<Rightarrow> flt" where
  "flt_neg (Fin x) = Fin (- x)"
| "flt_neg (Infinite s) = Infinite (\<not> s)"
| "flt_neg NaN = NaN"

fun flt_add :: "(rat \<Rightarrow> flt) \<Rightarrow> flt \<Rightarrow> flt \<Rightarrow> flt" where
  "flt_add R (Fin x) (Fin y) = R (x + y)"
| "flt_add R (Infinite s) (Fin y) = Infinite s"
| "flt_add R (Fin x) (Infinite t) = Infinite t"
| "flt_add R (Infinite s) (Infinite t) = (if s = t then Infinite s else NaN)"
| "flt_add R _ _ = NaN"

definition flt_sub :: "(rat \<Rightarrow> flt) \<Rightarrow> flt \<Rightarrow> flt \<Rightarrow> flt" where
  "flt_sub R a b = flt_add R a (flt_neg b)"

fun flt_mul :: "(rat \<Rightarrow> flt) \<Rightarrow> flt \<Rightarrow> flt \<Rightarrow> flt" where
  "flt_mul R (Fin x) (Fin y) = R (x * y)"
| "flt_mul R (Infinite s) (Fin y) = (if y = 0 then NaN else Infinite (s \<noteq> (y < 0)))"
| "flt_mul R (Fin x) (Infinite t) = (if x = 0 then NaN else Infinite ((x < 0) \<noteq> t))"
| "flt_mul R (Infinite s) (Infinite t) = Infinite (s \<noteq> t)"
| "flt_mul R _ _ = NaN"

text \<open>A division by zero takes the zero as positive; the code does not divide by zero.\<close>

fun flt_div :: "(rat \<Rightarrow> flt) \<Rightarrow> flt \<Rightarrow> flt \<Rightarrow> flt" where
  "flt_div R (Fin x) (Fin y) = (if y = 0 then (if x = 0 then NaN else Infinite (x < 0)) else R (x / y))"
| "flt_div R (Infinite s) (Fin y) = Infinite (s \<noteq> (y < 0))"
| "flt_div R (Fin x) (Infinite t) = Fin 0"
| "flt_div R _ _ = NaN"

text \<open>An operation of a \<open>double\<close> whose result is stored in a \<open>float\<close> is rounded again.\<close>

fun narrow :: "flt \<Rightarrow> flt" where
  "narrow (Fin x) = to_single x"
| "narrow v = v"

abbreviation s_add :: "flt \<Rightarrow> flt \<Rightarrow> flt" where "s_add \<equiv> flt_add to_single"
abbreviation s_sub :: "flt \<Rightarrow> flt \<Rightarrow> flt" where "s_sub \<equiv> flt_sub to_single"
abbreviation s_mul :: "flt \<Rightarrow> flt \<Rightarrow> flt" where "s_mul \<equiv> flt_mul to_single"
abbreviation d_add :: "flt \<Rightarrow> flt \<Rightarrow> flt" where "d_add \<equiv> flt_add to_double"
abbreviation d_sub :: "flt \<Rightarrow> flt \<Rightarrow> flt" where "d_sub \<equiv> flt_sub to_double"
abbreviation d_mul :: "flt \<Rightarrow> flt \<Rightarrow> flt" where "d_mul \<equiv> flt_mul to_double"
abbreviation d_div :: "flt \<Rightarrow> flt \<Rightarrow> flt" where "d_div \<equiv> flt_div to_double"

text \<open>The pattern of a value.\<close>

fun flt_bits :: "flt \<Rightarrow> sample_t" where
  "flt_bits (Fin x) = float_bits x"
| "flt_bits (Infinite s) = float_pack s 255 0"
| "flt_bits NaN = 0x7FC00000"

section \<open>Vectors\<close>

definition vec_get :: "'a list \<Rightarrow> nat \<Rightarrow> 'a option" where
  "vec_get v i = (if i < length v then Some (v ! i) else None)"

definition vec_set :: "'a list \<Rightarrow> nat \<Rightarrow> 'a \<Rightarrow> 'a list option" where
  "vec_set v i x = (if i < length v then Some (v[i := x]) else None)"

section \<open>The algorithm of Burg\<close>

record BurgAlgorithm =
  burg_m :: nat
  burg_N :: nat
  burg_Ak :: "flt list"
  burg_AkReset :: "flt list"
  burg_f :: "flt list"
  burg_b :: "flt list"

definition BurgAlgorithm_new :: "nat \<Rightarrow> BurgAlgorithm option" where
  "BurgAlgorithm_new sz = do {
     let Ak = replicate sz (Fin 0);
     AkReset \<leftarrow> vec_set Ak 0 (Fin 1);
     Some \<lparr>burg_m = sz - 1, burg_N = sz - 1, burg_Ak = Ak, burg_AkReset = AkReset,
       burg_f = replicate sz (Fin 0), burg_b = replicate sz (Fin 0)\<rparr>
   }"

definition FLT_EPSILON :: rat where "FLT_EPSILON = 1 / 8388608"

text \<open>The constant 2.00002 as a \<open>double\<close>.\<close>

definition damping :: flt where "damping = to_double (200002 / 100000)"

definition train_power :: "flt list \<Rightarrow> nat \<Rightarrow> flt \<Rightarrow> flt option" where
  "train_power f j Dk = do {
     x \<leftarrow> vec_get f j;
     Some (narrow (d_add Dk (d_mul (d_mul damping x) x)))
   }"

definition train_mu :: "flt list \<Rightarrow> flt list \<Rightarrow> nat \<Rightarrow> nat \<Rightarrow> flt \<Rightarrow> flt option" where
  "train_mu f b k n mu = do {
     x \<leftarrow> vec_get f (n + k + 1);
     y \<leftarrow> vec_get b n;
     Some (s_add mu (s_mul x y))
   }"

definition train_Ak :: "flt \<Rightarrow> nat \<Rightarrow> nat \<Rightarrow> flt list \<Rightarrow> flt list option" where
  "train_Ak mu k n Ak = do {
     x \<leftarrow> vec_get Ak n;
     y \<leftarrow> vec_get Ak (k + 1 - n);
     Ak \<leftarrow> vec_set Ak n (s_add x (s_mul mu y));
     vec_set Ak (k + 1 - n) (s_add y (s_mul mu x))
   }"

definition train_fb :: "flt \<Rightarrow> nat \<Rightarrow> nat \<Rightarrow> flt list \<times> flt list \<Rightarrow> (flt list \<times> flt list) option" where
  "train_fb mu k n = (\<lambda>(f, b). do {
     x \<leftarrow> vec_get f (n + k + 1);
     y \<leftarrow> vec_get b n;
     f \<leftarrow> vec_set f (n + k + 1) (s_add x (s_mul mu y));
     b \<leftarrow> vec_set b n (s_add y (s_mul mu x));
     Some (f, b)
   })"

text \<open>One round of the recursion.\<close>

definition burg_recursion :: "nat \<Rightarrow> nat \<Rightarrow> flt list \<times> flt list \<times> flt list \<times> flt \<Rightarrow>
    (flt list \<times> flt list \<times> flt list \<times> flt) option" where
  "burg_recursion N k = (\<lambda>(Ak, f, b, Dk). do {
     mu \<leftarrow> iter_opt (train_mu f b k) [0..<N - k] (Fin 0);
     let Dk = (if Dk = Fin 0 then Fin FLT_EPSILON else Dk);
     let mu = narrow (d_mul mu (d_div (Fin (- 2)) Dk));
     Ak \<leftarrow> iter_opt (train_Ak mu k) [0..<(k + 1) div 2 + 1] Ak;
     (f, b) \<leftarrow> iter_opt (train_fb mu k) [0..<N - k] (f, b);
     x \<leftarrow> vec_get f (k + 1);
     y \<leftarrow> vec_get b (N - k - 1);
     Some (Ak, f, b,
       narrow (d_sub (d_sub (d_mul (d_sub (Fin 1) (s_mul mu mu)) Dk) (s_mul x x)) (s_mul y y)))
   })"

definition train :: "flt list \<Rightarrow> nat \<Rightarrow> BurgAlgorithm \<Rightarrow> (flt list \<times> BurgAlgorithm) option" where
  "train x sz B = do {
     let Ak = burg_AkReset B;
     past \<leftarrow> mem_read x 0 sz;
     f \<leftarrow> mem_write (burg_f B) 0 past;
     b \<leftarrow> mem_write (burg_b B) 0 past;
     Dk \<leftarrow> iter_opt (train_power f) [0..<burg_N B + 1] (Fin 0);
     f0 \<leftarrow> vec_get f 0;
     bN \<leftarrow> vec_get b (burg_N B);
     let Dk = s_sub Dk (s_add (s_mul f0 f0) (s_mul bN bN));
     (Ak, f, b, _) \<leftarrow> iter_opt (burg_recursion (burg_N B)) [0..<burg_m B] (Ak, f, b, Dk);
     Some (tl Ak, B\<lparr>burg_Ak := Ak, burg_f := f, burg_b := b\<rparr>)
   }"

definition predict_step :: "flt list \<Rightarrow> nat \<Rightarrow> nat \<Rightarrow> flt list \<Rightarrow> flt list option" where
  "predict_step cs i j tail = do {
     t \<leftarrow> vec_get tail i;
     c \<leftarrow> vec_get cs j;
     x \<leftarrow> vec_get tail (i - 1 - j);
     vec_set tail i (s_sub t (s_mul c x))
   }"

definition predict :: "flt list \<Rightarrow> flt list \<Rightarrow> nat \<Rightarrow> BurgAlgorithm \<Rightarrow> flt list option" where
  "predict cs tail sz B =
     iter_opt (\<lambda>i tail. do {
         tail \<leftarrow> vec_set tail i (Fin 0);
         iter_opt (predict_step cs i) [0..<burg_m B] tail
       }) [burg_m B..<sz] tail"


section \<open>Channels\<close>

record Channel =
  mTmpFloatBuf :: "flt list"
  prediction :: "flt list"
  predictedNowPacket :: "flt list"
  realNowPacket :: "flt list"
  outputNowPacket :: "flt list"
  futurePredictedPacket :: "flt list"
  realPast :: "flt list"
  zeroPast :: "flt list"
  predictedPast :: "flt list list"
  coeffs :: "flt list"
  mPacketRing :: "flt list list"
  mWptr :: nat
  mRing :: nat
  mZeros :: "flt list"
  mCoeffsSize :: nat
  mTailSize :: nat

definition Channel_new :: "nat \<Rightarrow> nat \<Rightarrow> nat \<Rightarrow> Channel" where
  "Channel_new fpp upToNow packetsInThePast =
     (let zeros = replicate fpp (Fin 0)
      in \<lparr>mTmpFloatBuf = zeros, prediction = replicate (upToNow + fpp * 2) (Fin 0), predictedNowPacket = zeros,
        realNowPacket = zeros, outputNowPacket = zeros, futurePredictedPacket = zeros,
        realPast = replicate upToNow (Fin 0), zeroPast = replicate upToNow (Fin 1),
        predictedPast = replicate packetsInThePast zeros, coeffs = replicate (upToNow - 1) (Fin 0),
        mPacketRing = replicate packetsInThePast zeros, mWptr = packetsInThePast div 2, mRing = packetsInThePast,
        mZeros = zeros, mCoeffsSize = upToNow - 1, mTailSize = upToNow + fpp * 2\<rparr>)"

definition ringBufferPush :: "Channel \<Rightarrow> Channel option" where
  "ringBufferPush c =
     (if mRing c = 0 then None
      else do {
        ring \<leftarrow> vec_set (mPacketRing c) (mWptr c mod mRing c) (mTmpFloatBuf c);
        Some (c\<lparr>mPacketRing := ring, mWptr := (mWptr c + 1) mod mRing c\<rparr>)
      })"

definition ringBufferPull :: "nat \<Rightarrow> Channel \<Rightarrow> Channel option" where
  "ringBufferPull past c = do {
     i \<leftarrow> (if past \<le> mWptr c then Some (mWptr c - past)
       else if past \<le> mWptr c + mRing c then Some (mWptr c + mRing c - past) else None);
     packet \<leftarrow> vec_get (mPacketRing c) i;
     Some (c\<lparr>mTmpFloatBuf := packet\<rparr>)
   }"

text \<open>What the channels of a regulator share: packet length, history, cross-fade.\<close>

record burg_setup =
  setup_fpp :: nat
  setup_past :: nat
  fadeUp :: "flt list"
  fadeDown :: "flt list"

definition recall_past :: "burg_setup \<Rightarrow> Channel \<Rightarrow> Channel option" where
  "recall_past S = iter_opt (\<lambda>i c. do {
       c \<leftarrow> ringBufferPull (setup_past S - i) c;
       packet \<leftarrow> mem_read (mTmpFloatBuf c) 0 (setup_fpp S);
       past \<leftarrow> mem_write (realPast c) (i * setup_fpp S) packet;
       Some (c\<lparr>realPast := past\<rparr>)
     }) [0..<setup_past S]"

text \<open>The prediction of a lost packet from the packets that were played.\<close>

definition predict_packet :: "burg_setup \<Rightarrow> BurgAlgorithm \<times> Channel \<Rightarrow> (BurgAlgorithm \<times> Channel) option" where
  "predict_packet S = (\<lambda>(B, c). do {
     pred \<leftarrow> iter_opt (\<lambda>s pred. do {
         packet \<leftarrow> vec_get (predictedPast c) (s div setup_fpp S);
         x \<leftarrow> vec_get packet (s mod setup_fpp S);
         vec_set pred s x
       }) [0..<setup_past S * setup_fpp S] (prediction c);
     (cf, B) \<leftarrow> train pred (setup_past S * setup_fpp S) B;
     pred \<leftarrow> predict cf pred (mTailSize c) B;
     now \<leftarrow> mem_read pred (setup_past S * setup_fpp S) (setup_fpp S);
     nowp \<leftarrow> mem_write (predictedNowPacket c) 0 now;
     Some (B, c\<lparr>prediction := pred, coeffs := cf, predictedNowPacket := nowp\<rparr>)
   })"

definition output_sample :: "bool \<Rightarrow> bool \<Rightarrow> bool \<Rightarrow> burg_setup \<Rightarrow> Channel \<Rightarrow> nat \<Rightarrow> flt option" where
  "output_sample glitch primed lastWasGlitch S c s =
     (if glitch then (if primed then vec_get (predictedNowPacket c) s else Some (Fin 0))
      else if lastWasGlitch then do {
        down \<leftarrow> vec_get (fadeDown S) s;
        future \<leftarrow> vec_get (futurePredictedPacket c) s;
        up \<leftarrow> vec_get (fadeUp S) s;
        real \<leftarrow> vec_get (realNowPacket c) s;
        Some (s_add (s_mul down future) (s_mul up real))
      }
      else vec_get (realNowPacket c) s)"

text \<open>One packet of one channel; \<open>glitch\<close> says that the packet is missing.\<close>

definition burg_channel :: "bool \<Rightarrow> bool \<Rightarrow> bool \<Rightarrow> burg_setup \<Rightarrow> BurgAlgorithm \<times> Channel \<Rightarrow>
    (BurgAlgorithm \<times> Channel) option" where
  "burg_channel glitch primed lastWasGlitch S = (\<lambda>(B, c). do {
     let n = setup_fpp S;
     packet \<leftarrow> (if glitch then Some (replicate n (Fin 0)) else mem_read (mTmpFloatBuf c) 0 n);
     real \<leftarrow> mem_write (realNowPacket c) 0 packet;
     let c = c\<lparr>realNowPacket := real\<rparr>;
     c \<leftarrow> (if glitch then Some c else do {
         tmp \<leftarrow> mem_write (mTmpFloatBuf c) 0 packet;
         ringBufferPush (c\<lparr>mTmpFloatBuf := tmp\<rparr>)
       });
     c \<leftarrow> (if primed then recall_past S c else Some c);
     (B, c) \<leftarrow> (if glitch then predict_packet S (B, c) else Some (B, c));
     out \<leftarrow> iter_opt (\<lambda>s out. do {
         v \<leftarrow> output_sample glitch primed lastWasGlitch S c s;
         vec_set out s v
       }) [0..<n] (outputNowPacket c);
     outp \<leftarrow> mem_read out 0 n;
     tmp \<leftarrow> mem_write (mTmpFloatBuf c) 0 outp;
     shifted \<leftarrow> iter_opt (\<lambda>i past. do {
         newer \<leftarrow> vec_get past (i + 1);
         newer \<leftarrow> mem_read newer 0 n;
         older \<leftarrow> vec_get past i;
         older \<leftarrow> mem_write older 0 newer;
         vec_set past i older
       }) [0..<setup_past S - 1] (predictedPast c);
     newest \<leftarrow> vec_get shifted (setup_past S - 1);
     newest \<leftarrow> mem_write newest 0 outp;
     shifted \<leftarrow> vec_set shifted (setup_past S - 1) newest;
     future \<leftarrow> mem_read (prediction c) ((setup_past S + 1) * n) n;
     futurep \<leftarrow> mem_write (futurePredictedPacket c) 0 future;
     Some (B, c\<lparr>outputNowPacket := out, mTmpFloatBuf := tmp, predictedPast := shifted,
       futurePredictedPacket := futurep\<rparr>)
   })"

end
