(* ===== verification/AudioTester.thy ===== *)
theory AudioTester
  imports Burg
begin

text \<open>
  The latency test (\<open>src/AudioTester.h\<close>, \<open>src/AudioTester.cpp\<close>): impulses of rising amplitude
  with a time stamp on one channel, the search for them in what comes back, and the statistics
  with their histogram.  The clock is an argument: its reading depends on the sample and on the call.
\<close>

section \<open>State\<close>

record AudioTester =
  enabled :: bool
  printIntervalSec :: flt
  sendChannel :: int
  impulsePending :: bool
  lastPrintTimeUS :: int
  impulseTimeUS :: int
  impulseTimeSamples :: int
  sampleCountSinceImpulse :: u64
  roundTripMean :: flt
  roundTripMeanSquare :: flt
  roundTripCount :: flt
  bufferSkip :: int
  pendingCell :: int
  testerSampleRate :: flt
  latencyHistogram :: "int \<Rightarrow> int"

definition bufferSkipStart :: int where "bufferSkipStart = 100"
definition impulseAmplitude :: flt where "impulseAmplitude = to_single (1 / 10)"
definition numAmpCells :: int where "numAmpCells = 10"
definition ampCellHeight :: flt where "ampCellHeight = flt_div to_single impulseAmplitude (Fin (of_int numAmpCells))"
definition latencyHistogramCellMax :: int where "latencyHistogramCellMax = 19"
definition latencyHistogramPrintCountMax :: int where "latencyHistogramPrintCountMax = 72"

definition AudioTester_new :: AudioTester where
  "AudioTester_new = \<lparr>enabled = False, printIntervalSec = Fin 1, sendChannel = 0, impulsePending = False,
     lastPrintTimeUS = 0, impulseTimeUS = 0, impulseTimeSamples = 0, sampleCountSinceImpulse = 1,
     roundTripMean = Fin 0, roundTripMeanSquare = Fin 0, roundTripCount = Fin 0, bufferSkip = bufferSkipStart,
     pendingCell = 0, testerSampleRate = Fin 48000, latencyHistogram = (\<lambda>_. 0)\<rparr>"

text \<open>Comparisons of floating-point numbers, false for a NaN.\<close>

fun flt_less :: "flt \<Rightarrow> flt \<Rightarrow> bool" where
  "flt_less (Fin x) (Fin y) = (x < y)"
| "flt_less (Fin x) (Infinite s) = (\<not> s)"
| "flt_less (Infinite s) (Fin y) = s"
| "flt_less (Infinite s) (Infinite t) = (s \<and> \<not> t)"
| "flt_less _ _ = False"

definition flt_le :: "flt \<Rightarrow> flt \<Rightarrow> bool" where
  "flt_le a b \<longleftrightarrow> a \<noteq> NaN \<and> b \<noteq> NaN \<and> \<not> flt_less b a"

definition int64_range :: "int \<Rightarrow> bool" where
  "int64_range x \<longleftrightarrow> - 9223372036854775808 \<le> x \<and> x < 9223372036854775808"

definition checked_int64 :: "int \<Rightarrow> int option" where
  "checked_int64 x = (if int64_range x then Some x else None)"

section \<open>Amplitudes\<close>

definition getImpulseAmp :: "AudioTester \<Rightarrow> (sample_t \<times> AudioTester) option" where
  "getImpulseAmp t = do {
     c \<leftarrow> checked_int (pendingCell t + 1);
     let c = (if numAmpCells \<le> c then 1 else c);
     Some (flt_bits (s_mul (to_single (of_int c)) (flt_div to_single impulseAmplitude (Fin (of_int numAmpCells)))),
       t\<lparr>pendingCell := c\<rparr>)
   }"

definition getImpulseCellNum :: "flt \<Rightarrow> int option" where
  "getImpulseCellNum amp =
     (case s_add (Fin (1/2)) (flt_div to_single amp ampCellHeight) of
        Fin x \<Rightarrow> do { iCell \<leftarrow> checked_int \<lfloor>x\<rfloor>; Some (max 0 (min (numAmpCells - 1) iCell)) }
      | _ \<Rightarrow> None)"

definition above_noise :: "flt \<Rightarrow> bool" where
  "above_noise amp \<longleftrightarrow> flt_less (d_mul (Fin (1/2)) ampCellHeight) amp"

section \<open>Statistics\<close>

definition latency_cell :: "flt \<Rightarrow> int" where
  "latency_cell latencyMS =
     (case d_div latencyMS (Fin 5) of
        Fin x \<Rightarrow> max 0 (min latencyHistogramCellMax \<lfloor>x\<rfloor>)
      | Infinite s \<Rightarrow> if s then 0 else latencyHistogramCellMax
      | NaN \<Rightarrow> latencyHistogramCellMax)"

definition extendLatencyHistogram :: "flt \<Rightarrow> AudioTester \<Rightarrow> AudioTester option" where
  "extendLatencyHistogram latencyMS t =
     (let c = latency_cell latencyMS in do {
        k \<leftarrow> checked_int (latencyHistogram t c + 1);
        Some (t\<lparr>latencyHistogram := (latencyHistogram t)(c := k)\<rparr>)
      })"

definition update_means :: "flt \<Rightarrow> AudioTester \<Rightarrow> AudioTester" where
  "update_means ms t =
     (if flt_less (Fin 1) (roundTripCount t)
      then let n = roundTripCount t;
               prevSum = d_mul (roundTripMean t) (d_sub n (Fin 1));
               prevSumSq = d_mul (roundTripMeanSquare t) (d_sub n (Fin 1))
           in t\<lparr>roundTripMean := d_div (d_add prevSum ms) n,
             roundTripMeanSquare := d_div (d_add prevSumSq (d_mul ms ms)) n\<rparr>
      else t\<lparr>roundTripMean := ms, roundTripMeanSquare := d_mul ms ms\<rparr>)"

text \<open>When it is time to print, the time of the last report is set.\<close>

definition report_times :: "(nat \<Rightarrow> u64) \<Rightarrow> AudioTester \<Rightarrow> AudioTester option" where
  "report_times now t =
     (let t = (if roundTripCount t = Fin 1 then t\<lparr>lastPrintTimeUS := sint (now 0)\<rparr> else t);
          curTimeUS = sint (now 1)
      in do {
        d \<leftarrow> checked_int64 (curTimeUS - lastPrintTimeUS t);
        Some (if flt_le (d_mul (printIntervalSec t) (Fin 1000000)) (to_double (of_int d))
          then t\<lparr>lastPrintTimeUS := curTimeUS\<rparr> else t)
      })"

definition record_latency :: "(nat \<Rightarrow> u64) \<Rightarrow> int \<Rightarrow> AudioTester \<Rightarrow> AudioTester option" where
  "record_latency now elapsedSamples t =
     (let ms = d_div (d_mul (Fin 1000) (to_double (of_int elapsedSamples))) (testerSampleRate t) in do {
        t \<leftarrow> extendLatencyHistogram ms t;
        report_times now (update_means ms t)
      })"

section \<open>The impulse that returns\<close>

text \<open>The samples between an impulse and its return, from the time stamp behind it.\<close>

definition elapsed_samples :: "u64 \<Rightarrow> nat \<Rightarrow> sample_t \<Rightarrow> int option" where
  "elapsed_samples count n stamp =
     (case s_mul (Fin (- 32768)) (float_val stamp) of
        Fin x \<Rightarrow> do { s \<leftarrow> checked_int64 (dbl_trunc x); Some (sint (count + of_nat n - of_int s)) }
      | _ \<Rightarrow> None)"

definition own_impulse :: "(nat \<Rightarrow> u64) \<Rightarrow> sample_t list list \<Rightarrow> nat \<Rightarrow> nat \<Rightarrow> AudioTester \<Rightarrow> AudioTester option" where
  "own_impulse now out_buffer n_frames n t = do {
     (elapsedSamples, t) \<leftarrow> (if n_frames - 1 \<le> n then Some (- 1, t)
       else do {
         stamp \<leftarrow> get_sample out_buffer (nat (sendChannel t)) (n + 1);
         e \<leftarrow> elapsed_samples (sampleCountSinceImpulse t) n stamp;
         Some (e, t\<lparr>sampleCountSinceImpulse := 1, roundTripCount := d_add (roundTripCount t) (Fin 1)\<rparr>)
       });
     t \<leftarrow> (if 0 < elapsedSamples then record_latency now elapsedSamples t else Some t);
     Some (t\<lparr>impulsePending := False\<rparr>)
   }"

definition look_sample :: "(nat \<Rightarrow> nat \<Rightarrow> u64) \<Rightarrow> sample_t list list \<Rightarrow> nat \<Rightarrow> nat \<Rightarrow> AudioTester \<Rightarrow> AudioTester option" where
  "look_sample now out_buffer n_frames n t = do {
     s \<leftarrow> get_sample out_buffer (nat (sendChannel t)) n;
     if \<not> above_noise (float_val s) then Some t
     else do {
       cellNum \<leftarrow> getImpulseCellNum (float_val s);
       if cellNum \<noteq> pendingCell t
       then Some (if pendingCell t < cellNum then t\<lparr>impulsePending := False\<rparr> else t)
       else own_impulse (now n) out_buffer n_frames n t
     }
   }"

text \<open>A failed \<open>assert\<close> and a negative channel have no result.\<close>

definition tester_channel :: "sample_t list list \<Rightarrow> AudioTester \<Rightarrow> bool" where
  "tester_channel buffer t \<longleftrightarrow> 0 \<le> sendChannel t \<and> sendChannel t < int (length buffer)"

definition lookForReturnPulse :: "(nat \<Rightarrow> nat \<Rightarrow> u64) \<Rightarrow> sample_t list list \<Rightarrow> nat \<Rightarrow> AudioTester \<Rightarrow> AudioTester option" where
  "lookForReturnPulse now out_buffer n_frames t =
     (if \<not> enabled t \<or> \<not> impulsePending t then Some t
      else if \<not> tester_channel out_buffer t then None
      else do {
        t \<leftarrow> iter_opt (look_sample now out_buffer n_frames) [0..<n_frames] t;
        Some (t\<lparr>sampleCountSinceImpulse := sampleCountSinceImpulse t + of_nat n_frames\<rparr>)
      })"

section \<open>The impulse that is sent\<close>

definition time_for_impulse :: "(nat \<Rightarrow> u64) \<Rightarrow> AudioTester \<Rightarrow> bool" where
  "time_for_impulse now t \<longleftrightarrow> (impulsePending t \<longrightarrow> of_int (impulseTimeUS t) + 500000 < now 0)"

definition time_stamp :: "int \<Rightarrow> sample_t" where
  "time_stamp k = flt_bits (flt_div to_single (flt_neg (to_single (of_int k))) (Fin 32768))"

definition send_impulse :: "(nat \<Rightarrow> u64) \<Rightarrow> nat \<Rightarrow> sample_t list list \<Rightarrow> AudioTester \<Rightarrow>
    (sample_t list list \<times> AudioTester) option" where
  "send_impulse now n_frames buf t =
     (let ch = nat (sendChannel t) in if \<not> tester_channel buf t then None else do {
        (amp, t) \<leftarrow> getImpulseAmp t;
        buf \<leftarrow> put_sample buf ch 0 amp;
        buf \<leftarrow> iter_opt (\<lambda>n buf. put_sample buf ch n 0) [1..<n_frames] buf;
        let t = t\<lparr>impulsePending := True, impulseTimeUS := sint (now 1),
          impulseTimeSamples := sint (sampleCountSinceImpulse t)\<rparr>;
        buf \<leftarrow> (if 1 < n_frames then put_sample buf ch 1 (time_stamp (impulseTimeSamples t)) else Some buf);
        Some (buf, t)
      })"

definition writeImpulse :: "(nat \<Rightarrow> u64) \<Rightarrow> sample_t list list \<Rightarrow> nat \<Rightarrow> AudioTester \<Rightarrow>
    (sample_t list list \<times> AudioTester) option" where
  "writeImpulse now mInBufCopy n_frames t =
     (if \<not> enabled t then Some (mInBufCopy, t)
      else if 0 < bufferSkip t then Some (mInBufCopy, t\<lparr>bufferSkip := bufferSkip t - 1\<rparr>)
      else if time_for_impulse now t then send_impulse now n_frames mInBufCopy t
      else if sendChannel t < 0 then None
      else do {
        buf \<leftarrow> put_sample mInBufCopy (nat (sendChannel t)) 0 0;
        buf \<leftarrow> (if 1 < n_frames then put_sample buf (nat (sendChannel t)) 1 0 else Some buf);
        Some (buf, t)
      })"

section \<open>The histogram\<close>

definition histogram_cells :: "int list" where
  "histogram_cells = [0..latencyHistogramCellMax]"

definition latencyHistogramFirstNonzeroCellIndex :: "AudioTester \<Rightarrow> int" where
  "latencyHistogramFirstNonzeroCellIndex t =
     (case filter (\<lambda>i. 0 < latencyHistogram t i) histogram_cells of [] \<Rightarrow> - 1 | i # _ \<Rightarrow> i)"

definition latencyHistogramLastNonzeroCellIndex :: "AudioTester \<Rightarrow> int" where
  "latencyHistogramLastNonzeroCellIndex t =
     (case filter (\<lambda>i. 0 < latencyHistogram t i) (rev histogram_cells) of [] \<Rightarrow> - 1 | i # _ \<Rightarrow> i)"

definition latencyHistogramCountMax :: "AudioTester \<Rightarrow> int" where
  "latencyHistogramCountMax t = foldl (\<lambda>lhMax i. if lhMax < latencyHistogram t i then latencyHistogram t i else lhMax) 0
     [latencyHistogramFirstNonzeroCellIndex t..latencyHistogramLastNonzeroCellIndex t]"

text \<open>A row: the latencies of the cell in milliseconds, its count, and the number of marks.\<close>

definition histogram_marks :: "AudioTester \<Rightarrow> int \<Rightarrow> int option" where
  "histogram_marks t hi =
     (let lhcm = latencyHistogramCountMax t; lhpcm = latencyHistogramPrintCountMax;
          histScale = (if lhpcm < lhcm then d_div (to_double (of_int lhpcm)) (to_double (of_int lhcm)) else Fin 1)
      in case d_mul histScale (to_double (of_int hi)) of Fin x \<Rightarrow> checked_int (cxx_round x) | _ \<Rightarrow> None)"

definition getLatencyHistogram :: "AudioTester \<Rightarrow> (int \<times> int \<times> int \<times> int) list option" where
  "getLatencyHistogram t =
     those (map (\<lambda>i. map_option (\<lambda>k. (5 * i, 5 * (i + 1), latencyHistogram t i, k)) (histogram_marks t (latencyHistogram t i)))
       [latencyHistogramFirstNonzeroCellIndex t..latencyHistogramLastNonzeroCellIndex t])"

end
