(* ===== verification/Fifo.thy ===== *)
theory Fifo
  imports Prelude
begin

text \<open>
  Circular buffers: the items from a start index on, and the contract of a bounded FIFO that
  the buffers of the program provide.  The contract says what an insertion does while there is
  room and what a removal does while there is something to read; the overflow and underrun
  behaviours differ between the buffers and are stated with them.
\<close>

section \<open>Occupied part of a circular buffer\<close>

definition ring_items :: "'a list \<Rightarrow> nat \<Rightarrow> nat \<Rightarrow> 'a list" where
  "ring_items buf start n = map (\<lambda>i. buf ! ((start + i) mod length buf)) [0..<n]"

lemma ring_items_length [simp]: "length (ring_items buf start n) = n"
  by (simp add: ring_items_def)

lemma ring_items_0 [simp]: "ring_items buf start 0 = []"
  by (simp add: ring_items_def)

lemma ring_items_nth [simp]:
  "i < n \<Longrightarrow> ring_items buf start n ! i = buf ! ((start + i) mod length buf)"
  by (simp add: ring_items_def)

lemma ring_items_Suc: "ring_items buf start (Suc n) =
    buf ! (start mod length buf) # ring_items buf ((start + 1) mod length buf) n"
  by (simp add: ring_items_def upt_rec [of 0 "Suc n"] map_Suc_upt [symmetric] mod_simps o_def
      del: upt_Suc)

lemma mod_add_inj_nat:
  fixes s i j N :: nat
  assumes "i < N" and "j < N" and "(s + i) mod N = (s + j) mod N"
  shows "i = j"
proof -
  have *: "i = j" if "i \<le> j" "j < N" "(s + j) mod N = (s + i) mod N" for i j
  proof -
    have "N dvd (s + j) - (s + i)" using that by (subst mod_eq_dvd_iff_nat [symmetric]) simp_all
    then have "N dvd j - i" by simp
    then show ?thesis using that nat_dvd_not_less [of "j - i" N] by fastforce
  qed
  show ?thesis
    using *[of i j] *[of j i] assms by (cases "i \<le> j") simp_all
qed

lemma ring_items_write:
  assumes "n < length buf"
  shows "ring_items (buf[(start + n) mod length buf := x]) start (Suc n) = ring_items buf start n @ [x]"
proof -
  let ?w = "(start + n) mod length buf"
  have "0 < length buf" using assms by linarith
  then have "?w < length buf" by (rule mod_less_divisor)
  moreover have "?w \<noteq> (start + i) mod length buf" if "i < n" for i
    using that assms mod_add_inj_nat [of i "length buf" n start] by auto
  ultimately show ?thesis
    by (auto simp: ring_items_def intro!: map_cong)
qed

lemma ring_items_drop:
  "d \<le> n \<Longrightarrow> ring_items buf ((start + d) mod length buf) (n - d) = drop d (ring_items buf start n)"
  by (rule nth_equalityI) (simp_all add: mod_simps add.assoc)

lemma ring_items_cong:
  assumes "\<And>i. i < n \<Longrightarrow> buf ! ((start + i) mod length buf) = buf' ! ((start + i) mod length buf)"
    and "length buf' = length buf"
  shows "ring_items buf' start n = ring_items buf start n"
  using assms by (simp add: ring_items_def)

section \<open>Writing around the end of the memory\<close>

definition ring_written :: "'a list \<Rightarrow> 'a list \<Rightarrow> nat \<Rightarrow> 'a list \<Rightarrow> bool" where
  "ring_written mem' mem start xs \<longleftrightarrow> length mem' = length mem \<and>
     (\<forall>j<length xs. mem' ! ((start + j) mod length mem) = xs ! j) \<and>
     (\<forall>i<length mem. (\<forall>j<length xs. i \<noteq> (start + j) mod length mem) \<longrightarrow> mem' ! i = mem ! i)"

lemma mod_add_split:
  fixes p j T :: nat
  assumes "p < T" and "j < T"
  shows "(p + j) mod T = (if p + j < T then p + j else p + j - T)"
  using assms by (auto simp: mod_if)

lemma ring_written_flat:
  assumes "pos < length mem" and "pos + length xs \<le> length mem" and "start mod length mem = pos"
  shows "ring_written (take pos mem @ xs @ drop (pos + length xs) mem) mem start xs"
proof -
  have j: "(start + j) mod length mem = pos + j" if "j < length xs" for j
    using assms that mod_add_left_eq [of start "length mem" j] by simp
  show ?thesis
    unfolding ring_written_def
    using assms j by (auto simp: nth_append)
qed

lemma ring_written_split:
  assumes "pos < length mem" and "length xs \<le> length mem" and "start mod length mem = pos"
    and "k = length mem - pos" and "k < length xs"
  shows "ring_written (drop k xs @ drop (length xs - k) (take pos mem @ take k xs)) mem start xs"
proof -
  let ?T = "length mem"
  have j: "(start + j) mod ?T = (if j < k then pos + j else j - k)" if "j < length xs" for j
  proof -
    have "(start + j) mod ?T = (pos + j) mod ?T" using assms(3) mod_add_left_eq [of start ?T j] by simp
    also have "\<dots> = (if pos + j < ?T then pos + j else pos + j - ?T)"
      by (rule mod_add_split) (use assms that in linarith)+
    also have "\<dots> = (if j < k then pos + j else j - k)" using assms by auto
    finally show ?thesis .
  qed
  let ?m = "drop k xs @ drop (length xs - k) (take pos mem @ take k xs)"
  have len: "length ?m = ?T" using assms by auto
  have rest: "length xs - k \<le> pos" using assms by linarith
  have new: "?m ! ((start + i) mod ?T) = xs ! i" if "i < length xs" for i
    using that assms rest by (auto simp: j nth_append)
  have old: "?m ! i = mem ! i" if "i < ?T" "\<forall>j<length xs. i \<noteq> (start + j) mod ?T" for i
  proof -
    have "length xs - k \<le> i"
    proof (rule ccontr)
      assume "\<not> length xs - k \<le> i"
      then have "i + k < length xs" by simp
      then show False using that(2) j [of "i + k"] by auto
    qed
    moreover have "i < pos"
    proof (rule ccontr)
      assume "\<not> i < pos"
      then obtain d where d: "i = pos + d" by (metis le_Suc_ex linorder_not_less)
      then have "d < k" using that(1) assms(4) by linarith
      then show False using that(2) j [of d] assms(5) d by (metis less_trans)
    qed
    moreover have "?m ! i = drop (length xs - k) (take pos mem @ take k xs) ! (i - (length xs - k))"
      using calculation(1) by (simp add: nth_append)
    moreover have "length xs - k \<le> length (take pos mem @ take k xs)" using assms rest by simp
    then have "drop (length xs - k) (take pos mem @ take k xs) ! (i - (length xs - k)) = (take pos mem @ take k xs) ! i"
      using calculation(1) by (simp only: nth_drop le_add_diff_inverse)
    ultimately show ?thesis using assms by (simp add: nth_append)
  qed
  show ?thesis unfolding ring_written_def using len new old by blast
qed

section \<open>The contract of a bounded FIFO\<close>

datatype 'a fifo_op = Put 'a | Get

text \<open>A run of operations on a buffer, with the values the \<open>Get\<close>s return; \<open>None\<close> when one fails.\<close>

fun run_ops :: "('a \<Rightarrow> 's \<Rightarrow> 's option) \<Rightarrow> ('s \<Rightarrow> ('b \<times> 's) option) \<Rightarrow> 'a fifo_op list \<Rightarrow> 's \<Rightarrow>
    ('b list \<times> 's) option" where
  "run_ops put get [] s = Some ([], s)"
| "run_ops put get (Put x # ops) s =
     (case put x s of None \<Rightarrow> None | Some s' \<Rightarrow> run_ops put get ops s')"
| "run_ops put get (Get # ops) s =
     (case get s of None \<Rightarrow> None
      | Some (x, s') \<Rightarrow> (case run_ops put get ops s' of None \<Rightarrow> None
          | Some (xs, s'') \<Rightarrow> Some (x # xs, s'')))"

text \<open>The same run on a list of at most \<open>cap\<close> items.\<close>

definition list_put :: "nat \<Rightarrow> 'a \<Rightarrow> 'a list \<Rightarrow> 'a list option" where
  "list_put cap x q = (if length q < cap then Some (q @ [x]) else None)"

lemma list_put_eq_Some: "list_put cap x q = Some r \<longleftrightarrow> length q < cap \<and> r = q @ [x]"
  by (auto simp: list_put_def)

fun list_get :: "'a list \<Rightarrow> ('a \<times> 'a list) option" where
  "list_get [] = None"
| "list_get (x # q) = Some (x, q)"

fun puts :: "'a fifo_op list \<Rightarrow> 'a list" where
  "puts [] = []"
| "puts (Put x # ops) = x # puts ops"
| "puts (Get # ops) = puts ops"

lemma puts_map: "puts (map (map_fifo_op f) ops) = map f (puts ops)"
  by (induction ops rule: puts.induct) simp_all

lemma list_run_order:
  "run_ops (list_put cap) list_get ops q = Some (out, q') \<Longrightarrow> out @ q' = q @ puts ops"
proof (induction ops arbitrary: q out)
  case (Cons op ops)
  then show ?case
    by (cases op; cases q) (auto simp: list_put_def split: if_splits option.splits prod.splits)
qed simp

text \<open>
  The contract, for buffers whose counters allow a number of insertions: \<open>inv n\<close> is the
  invariant while \<open>n\<close> more insertions are allowed.
\<close>

locale metered_fifo =
  fixes inv :: "nat \<Rightarrow> 's \<Rightarrow> bool"
    and ok :: "'a \<Rightarrow> bool"
    and cap :: nat
    and items :: "'s \<Rightarrow> 'a list"
    and put :: "'a \<Rightarrow> 's \<Rightarrow> 's option"
    and get :: "'s \<Rightarrow> ('a \<times> 's) option"
  assumes put_room: "inv (Suc n) s \<Longrightarrow> ok x \<Longrightarrow> length (items s) < cap \<Longrightarrow>
      \<exists>s'. put x s = Some s' \<and> inv n s' \<and> items s' = items s @ [x]"
    and get_item: "inv n s \<Longrightarrow> items s = x # q \<Longrightarrow> \<exists>s'. get s = Some (x, s') \<and> inv n s' \<and> items s' = q"
begin

text \<open>
  Whatever a list of bounded length does without failing, the buffer does: first for calls that
  carry an item in some way, each equal to the insertion of that item, then for the insertions.
\<close>

lemma calls_simulate_list:
  assumes "inv (n + length (puts ops)) s" and "list_all (\<lambda>c. ok (f c) \<and> P c) (puts ops)"
    and call: "\<And>c m s. inv m s \<Longrightarrow> P c \<Longrightarrow> call c s = put (f c) s"
    and "run_ops (list_put cap) list_get (map (map_fifo_op f) ops) (items s) = Some (out, q')"
  shows "\<exists>s'. run_ops call get ops s = Some (out, s') \<and> inv n s' \<and> items s' = q'"
  using assms(1,2,4)
proof (induction ops arbitrary: s out)
  case Nil
  then show ?case by simp
next
  case (Cons op ops)
  show ?case
  proof (cases op)
    case (Put c)
    with Cons.prems have room: "length (items s) < cap" and x: "ok (f c)" "P c"
      and ops: "list_all (\<lambda>c. ok (f c) \<and> P c) (puts ops)" and inv: "inv (Suc (n + length (puts ops))) s"
      and run: "run_ops (list_put cap) list_get (map (map_fifo_op f) ops) (items s @ [f c]) = Some (out, q')"
      by (auto simp: list_put_eq_Some split: option.splits)
    obtain s1 where "call c s = Some s1" "inv (n + length (puts ops)) s1" "items s1 = items s @ [f c]"
      using put_room [OF inv x(1) room] call [OF inv x(2)] by auto
    with Cons.IH [of s1, OF _ ops] run Put show ?thesis by simp
  next
    case Get
    with Cons.prems obtain x q out1 where q: "items s = x # q" and out: "out = x # out1"
      and run: "run_ops (list_put cap) list_get (map (map_fifo_op f) ops) q = Some (out1, q')"
      by (cases "items s") (auto split: option.splits prod.splits)
    have inv: "inv (n + length (puts ops)) s" and ops: "list_all (\<lambda>c. ok (f c) \<and> P c) (puts ops)"
      using Cons.prems(1,2) Get by simp_all
    obtain s1 where "get s = Some (x, s1)" "inv (n + length (puts ops)) s1" "items s1 = q"
      using get_item [OF inv q] by blast
    with Cons.IH [of s1 out1, OF _ ops] run Get out show ?thesis by auto
  qed
qed

lemma run_simulates_list:
  assumes "inv (n + length (puts ops)) s" and "list_all ok (puts ops)"
    and "run_ops (list_put cap) list_get ops (items s) = Some (out, q')"
  shows "\<exists>s'. run_ops put get ops s = Some (out, s') \<and> inv n s' \<and> items s' = q'"
proof -
  have "map (map_fifo_op (\<lambda>x. x)) ops = ops" by (induction ops) (simp_all add: fifo_op.map_ident)
  then show ?thesis
    by (intro calls_simulate_list [where f = "\<lambda>x. x" and P = "\<lambda>_. True"]) (use assms in simp_all)
qed

text \<open>First in, first out: what is read, and then what is left, is what was there and what was put.\<close>

lemma run_order:
  assumes "inv (n + length (puts ops)) s" and "list_all ok (puts ops)"
    and "run_ops (list_put cap) list_get ops (items s) = Some (out, q')"
  shows "\<exists>s'. run_ops put get ops s = Some (out, s') \<and> inv n s' \<and> out @ items s' = items s @ puts ops"
  using run_simulates_list [OF assms] list_run_order [OF assms(3)] by auto

end

text \<open>Buffers without such a limit.\<close>

locale bounded_fifo =
  fixes inv :: "'s \<Rightarrow> bool"
    and ok :: "'a \<Rightarrow> bool"
    and cap :: nat
    and items :: "'s \<Rightarrow> 'a list"
    and put :: "'a \<Rightarrow> 's \<Rightarrow> 's option"
    and get :: "'s \<Rightarrow> ('a \<times> 's) option"
  assumes put_room: "inv s \<Longrightarrow> ok x \<Longrightarrow> length (items s) < cap \<Longrightarrow>
      \<exists>s'. put x s = Some s' \<and> inv s' \<and> items s' = items s @ [x]"
    and get_item: "inv s \<Longrightarrow> items s = x # q \<Longrightarrow> \<exists>s'. get s = Some (x, s') \<and> inv s' \<and> items s' = q"

sublocale bounded_fifo \<subseteq> metered: metered_fifo "\<lambda>_. inv" ok cap items put get
  by unfold_locales (rule put_room get_item; assumption)+

context bounded_fifo begin

lemma run_order:
  assumes "inv s" and "list_all ok (puts ops)"
    and "run_ops (list_put cap) list_get ops (items s) = Some (out, q')"
  shows "\<exists>s'. run_ops put get ops s = Some (out, s') \<and> inv s' \<and> out @ items s' = items s @ puts ops"
  using assms by (rule metered.run_order)

end

end
