(* ===== verification/WaitFree.thy ===== *)
theory WaitFree
  imports Fifo
begin

text \<open>
  \<open>WaitFreeRingBuffer\<close> (\<open>src/WaitFreeRingBuffer.h\<close>) and \<open>WaitFreeFrameBuffer\<close>
  (\<open>src/WaitFreeFrameBuffer.h\<close>): the operations as a sequential program calls them, and the
  single atomic loads and stores of a producer and a consumer as a step relation.  The template
  argument \<open>Size\<close> is the length of the ring.  The virtual copies \<open>setItem\<close> and \<open>getItem\<close> are
  arguments of \<open>push\<close> and \<open>pop\<close>; they are undefined where a \<open>memcpy\<close> leaves its buffers.
\<close>

section \<open>Operations\<close>

record 'a WaitFreeRingBuffer =
  mRing :: "'a list"
  mHeadPtr :: nat
  mTailPtr :: nat
  mUnderruns :: u64
  mOverruns :: u64

abbreviation Size :: "('a, 'z) WaitFreeRingBuffer_scheme \<Rightarrow> nat" where
  "Size b \<equiv> length (mRing b)"

definition next_index :: "nat \<Rightarrow> nat \<Rightarrow> nat" where
  "next_index sz current = (current + 1) mod sz"

text \<open>The distance from the tail to the head, as \<open>push\<close> and \<open>size\<close> compute it.\<close>

definition ring_distance :: "nat \<Rightarrow> nat \<Rightarrow> nat \<Rightarrow> nat" where
  "ring_distance sz head tail = (if tail \<le> head then head - tail else head + (sz - tail))"

definition push :: "('a \<Rightarrow> 'b \<Rightarrow> 'a option) \<Rightarrow> 'b \<Rightarrow> ('a, 'z) WaitFreeRingBuffer_scheme \<Rightarrow>
    (nat \<times> ('a, 'z) WaitFreeRingBuffer_scheme) option" where
  "push setItem val b =
     (let tail = mTailPtr b; head = mHeadPtr b; next_head = next_index (Size b) head
      in if next_head = tail then Some (0, b\<lparr>mOverruns := mOverruns b + 1\<rparr>)
         else do {
           item \<leftarrow> setItem (mRing b ! head) val;
           Some (ring_distance (Size b) next_head tail,
             b\<lparr>mRing := (mRing b)[head := item], mHeadPtr := next_head\<rparr>)
         })"

definition pop :: "('a \<Rightarrow> 'b \<Rightarrow> 'b option) \<Rightarrow> 'b \<Rightarrow> ('a, 'z) WaitFreeRingBuffer_scheme \<Rightarrow>
    (bool \<times> 'b \<times> ('a, 'z) WaitFreeRingBuffer_scheme) option" where
  "pop getItem val b =
     (let tail = mTailPtr b
      in if tail = mHeadPtr b then Some (False, val, b\<lparr>mUnderruns := mUnderruns b + 1\<rparr>)
         else do {
           val' \<leftarrow> getItem (mRing b ! tail) val;
           Some (True, val', b\<lparr>mTailPtr := next_index (Size b) tail\<rparr>)
         })"

definition clearStats :: "('a, 'z) WaitFreeRingBuffer_scheme \<Rightarrow> ('a, 'z) WaitFreeRingBuffer_scheme" where
  "clearStats b = b\<lparr>mUnderruns := 0, mOverruns := 0\<rparr>"

definition clear :: "('a, 'z) WaitFreeRingBuffer_scheme \<Rightarrow> ('a, 'z) WaitFreeRingBuffer_scheme" where
  "clear b = clearStats (b\<lparr>mHeadPtr := 0, mTailPtr := 0\<rparr>)"

definition ring_size :: "('a, 'z) WaitFreeRingBuffer_scheme \<Rightarrow> nat" where
  "ring_size b = ring_distance (Size b) (mHeadPtr b) (mTailPtr b)"

definition ring_empty :: "('a, 'z) WaitFreeRingBuffer_scheme \<Rightarrow> bool" where
  "ring_empty b \<longleftrightarrow> mHeadPtr b = mTailPtr b"

definition capacity :: "('a, 'z) WaitFreeRingBuffer_scheme \<Rightarrow> nat" where
  "capacity b = Size b"

definition getUnderruns :: "('a, 'z) WaitFreeRingBuffer_scheme \<Rightarrow> u64" where
  "getUnderruns b = mUnderruns b"

definition getOverruns :: "('a, 'z) WaitFreeRingBuffer_scheme \<Rightarrow> u64" where
  "getOverruns b = mOverruns b"

definition WaitFreeRingBuffer_new :: "'a list \<Rightarrow> 'a WaitFreeRingBuffer" where
  "WaitFreeRingBuffer_new ring =
     \<lparr>mRing = ring, mHeadPtr = 0, mTailPtr = 0, mUnderruns = 0, mOverruns = 0\<rparr>"

text \<open>The copies of the base class: plain assignments.\<close>

definition setItem :: "'a \<Rightarrow> 'a \<Rightarrow> 'a option" where
  "setItem item val = Some val"

definition getItem :: "'a \<Rightarrow> 'a \<Rightarrow> 'a option" where
  "getItem item val = Some item"

text \<open>
  Frames: every item points to an array of \<open>mBytesPerFrame\<close> bytes that the constructor
  allocates without initialising (\<open>garbage\<close>), and the copies are \<open>memcpy\<close>s of that size.
\<close>

record WaitFreeFrameBuffer = "bytes WaitFreeRingBuffer" +
  mBytesPerFrame :: nat

definition WaitFreeFrameBuffer_new :: "nat \<Rightarrow> (nat \<Rightarrow> nat \<Rightarrow> u8) \<Rightarrow> nat \<Rightarrow> WaitFreeFrameBuffer" where
  "WaitFreeFrameBuffer_new sz garbage bytesPerFrame =
     WaitFreeRingBuffer.extend
       (WaitFreeRingBuffer_new (map (\<lambda>n. map (garbage n) [0..<bytesPerFrame]) [0..<sz]))
       \<lparr>mBytesPerFrame = bytesPerFrame\<rparr>"

definition frame_setItem :: "nat \<Rightarrow> bytes \<Rightarrow> bytes \<Rightarrow> bytes option" where
  "frame_setItem n item val = do { frame \<leftarrow> mem_read val 0 n; mem_write item 0 frame }"

definition frame_getItem :: "nat \<Rightarrow> bytes \<Rightarrow> bytes \<Rightarrow> bytes option" where
  "frame_getItem n item val = do { frame \<leftarrow> mem_read item 0 n; mem_write val 0 frame }"

definition frame_push :: "bytes \<Rightarrow> WaitFreeFrameBuffer \<Rightarrow> (nat \<times> WaitFreeFrameBuffer) option" where
  "frame_push val b = push (frame_setItem (mBytesPerFrame b)) val b"

definition frame_pop :: "bytes \<Rightarrow> WaitFreeFrameBuffer \<Rightarrow> (bool \<times> bytes \<times> WaitFreeFrameBuffer) option" where
  "frame_pop val b = pop (frame_getItem (mBytesPerFrame b)) val b"

section \<open>Head and tail\<close>

lemma next_index_cases: "h < n \<Longrightarrow> next_index n h = (if h + 1 = n then 0 else h + 1)"
  by (simp add: next_index_def)

lemma next_index_less: "h < n \<Longrightarrow> next_index n h < n"
  by (simp add: next_index_cases)

lemma ring_distance_less: "h < n \<Longrightarrow> t < n \<Longrightarrow> ring_distance n h t < n"
  by (auto simp: ring_distance_def)

lemma ring_distance_0: "h < n \<Longrightarrow> t < n \<Longrightarrow> ring_distance n h t = 0 \<longleftrightarrow> h = t"
  by (auto simp: ring_distance_def)

lemma ring_distance_full: "h < n \<Longrightarrow> t < n \<Longrightarrow> next_index n h = t \<longleftrightarrow> ring_distance n h t = n - 1"
  by (auto simp: ring_distance_def next_index_cases)

lemma ring_distance_push:
  "h < n \<Longrightarrow> t < n \<Longrightarrow> next_index n h \<noteq> t \<Longrightarrow>
    ring_distance n (next_index n h) t = Suc (ring_distance n h t)"
  by (auto simp: ring_distance_def next_index_cases)

lemma ring_distance_pop:
  "h < n \<Longrightarrow> t < n \<Longrightarrow> h \<noteq> t \<Longrightarrow> Suc (ring_distance n h (next_index n t)) = ring_distance n h t"
  by (auto simp: ring_distance_def next_index_cases)

lemma ring_distance_head: "h < n \<Longrightarrow> t < n \<Longrightarrow> (t + ring_distance n h t) mod n = h"
  by (auto simp: ring_distance_def)

text \<open>The items a consumer has still to read.\<close>

definition ring_ok :: "('a, 'z) WaitFreeRingBuffer_scheme \<Rightarrow> bool" where
  "ring_ok b \<longleftrightarrow> mHeadPtr b < Size b \<and> mTailPtr b < Size b"

definition pending_items :: "('a, 'z) WaitFreeRingBuffer_scheme \<Rightarrow> 'a list" where
  "pending_items b = ring_items (mRing b) (mTailPtr b) (ring_size b)"

lemma pending_items_write:
  assumes "ring_ok b" and "next_index (Size b) (mHeadPtr b) \<noteq> mTailPtr b"
  shows "ring_items ((mRing b)[mHeadPtr b := x]) (mTailPtr b)
      (ring_distance (Size b) (next_index (Size b) (mHeadPtr b)) (mTailPtr b)) =
    pending_items b @ [x]"
proof -
  have "mHeadPtr b = (mTailPtr b + ring_size b) mod Size b" and "ring_size b < Size b"
    using assms(1) by (simp_all add: ring_ok_def ring_size_def ring_distance_head ring_distance_less)
  then show ?thesis
    using ring_items_write [of "ring_size b" "mRing b" "mTailPtr b" x] assms
    by (simp add: pending_items_def ring_ok_def ring_distance_push ring_size_def)
qed

lemma pending_items_read:
  assumes "ring_ok b" and "mHeadPtr b \<noteq> mTailPtr b"
  shows "pending_items b = mRing b ! mTailPtr b #
    ring_items (mRing b) (next_index (Size b) (mTailPtr b))
      (ring_distance (Size b) (mHeadPtr b) (next_index (Size b) (mTailPtr b)))"
proof -
  have "ring_size b = Suc (ring_distance (Size b) (mHeadPtr b) (next_index (Size b) (mTailPtr b)))"
    using assms by (simp add: ring_ok_def ring_size_def ring_distance_pop)
  then show ?thesis
    using assms(1) by (simp add: pending_items_def ring_items_Suc next_index_def ring_ok_def)
qed

lemma pending_items_empty: "ring_ok b \<Longrightarrow> pending_items b = [] \<longleftrightarrow> mHeadPtr b = mTailPtr b"
  by (simp add: pending_items_def ring_ok_def ring_size_def ring_distance_0
      flip: length_0_conv)

lemma pending_items_length: "length (pending_items b) = ring_size b"
  by (simp add: pending_items_def)

section \<open>Sequential behaviour\<close>

lemma push_room:
  assumes "ring_ok b" and "ring_size b < Size b - 1" and "set_item (mRing b ! mHeadPtr b) val = Some x"
  shows "\<exists>b'. push set_item val b = Some (ring_size b + 1, b') \<and> ring_ok b' \<and> Size b' = Size b \<and>
    pending_items b' = pending_items b @ [x] \<and> more b' = more b"
proof -
  have room: "next_index (Size b) (mHeadPtr b) \<noteq> mTailPtr b"
    using assms(1,2) ring_distance_full [of "mHeadPtr b" "Size b" "mTailPtr b"]
    by (simp add: ring_ok_def ring_size_def)
  then show ?thesis
    using assms ring_distance_push [of "mHeadPtr b" "Size b" "mTailPtr b"]
      pending_items_write [OF assms(1) room, of x]
    by (auto simp: push_def Let_def ring_ok_def next_index_less ring_size_def pending_items_def)
qed

lemma push_full:
  assumes "ring_ok b" and "ring_size b = Size b - 1"
  shows "push set_item val b = Some (0, b\<lparr>mOverruns := mOverruns b + 1\<rparr>)"
  using assms by (simp add: push_def ring_ok_def ring_size_def ring_distance_full)

lemma pop_item:
  assumes "ring_ok b" and "pending_items b = x # xs" and "get_item x val = Some val'"
  shows "\<exists>b'. pop get_item val b = Some (True, val', b') \<and> ring_ok b' \<and> Size b' = Size b \<and>
    pending_items b' = xs \<and> more b' = more b"
proof -
  have ne: "mHeadPtr b \<noteq> mTailPtr b" using assms pending_items_empty [OF assms(1)] by auto
  then show ?thesis
    using assms pending_items_read [OF assms(1) ne]
    by (auto simp: pop_def Let_def ring_ok_def next_index_less pending_items_def ring_size_def)
qed

lemma pop_empty:
  "ring_ok b \<Longrightarrow> pending_items b = [] \<Longrightarrow>
    pop get_item val b = Some (False, val, b\<lparr>mUnderruns := mUnderruns b + 1\<rparr>)"
  by (simp add: pop_def pending_items_empty)


text \<open>Frames: every allocated item has the frame size.\<close>

definition frames_ok :: "nat \<Rightarrow> nat \<Rightarrow> WaitFreeFrameBuffer \<Rightarrow> bool" where
  "frames_ok sz n b \<longleftrightarrow> ring_ok b \<and> Size b = sz \<and> mBytesPerFrame b = n \<and>
     list_all (\<lambda>item. length item = n) (mRing b)"

lemma frame_setItem_eq: "length val = n \<Longrightarrow> length item = n \<Longrightarrow> frame_setItem n item val = Some val"
  by (simp add: frame_setItem_def mem_read_def mem_write_def)

lemma frame_getItem_eq: "length val = n \<Longrightarrow> length item = n \<Longrightarrow> frame_getItem n item val = Some item"
  by (simp add: frame_getItem_def mem_read_def mem_write_def)

lemma frames_ok_new:
  "0 < sz \<Longrightarrow> frames_ok sz n (WaitFreeFrameBuffer_new sz garbage n) \<and>
    pending_items (WaitFreeFrameBuffer_new sz garbage n) = []"
  by (auto simp: frames_ok_def WaitFreeFrameBuffer_new_def WaitFreeRingBuffer_new_def
      WaitFreeRingBuffer.defs ring_ok_def list_all_iff pending_items_def ring_size_def
      ring_distance_def)

lemma frame_push_room:
  assumes "frames_ok sz n b" and "length val = n" and "length (pending_items b) < sz - 1"
  shows "\<exists>b'. frame_push val b = Some (ring_size b + 1, b') \<and> frames_ok sz n b' \<and>
    pending_items b' = pending_items b @ [val]"
proof -
  have b: "ring_ok b" "mHeadPtr b < length (mRing b)" using assms(1) by (simp_all add: frames_ok_def ring_ok_def)
  have "length (mRing b ! mHeadPtr b) = n"
    using assms(1) b(2) by (simp add: frames_ok_def list_all_length)
  then have set: "frame_setItem (mBytesPerFrame b) (mRing b ! mHeadPtr b) val = Some val"
    using assms(1,2) by (simp add: frame_setItem_eq frames_ok_def)
  have room: "next_index (Size b) (mHeadPtr b) \<noteq> mTailPtr b"
    using assms(1,3) ring_distance_full [of "mHeadPtr b" "Size b" "mTailPtr b"]
    by (simp add: frames_ok_def ring_ok_def ring_size_def pending_items_length)
  have "ring_distance (Size b) (next_index (Size b) (mHeadPtr b)) (mTailPtr b) = Suc (ring_size b)"
    using b(1) room by (simp add: ring_ok_def ring_distance_push ring_size_def)
  then show ?thesis
    using assms(1,2) set room b pending_items_write [OF b(1) room, of val]
    by (auto simp: frame_push_def push_def Let_def frames_ok_def ring_ok_def next_index_less
        pending_items_def ring_size_def list_all_length nth_list_update)
qed

lemma frame_pop_item:
  assumes "frames_ok sz n b" and "length val = n" and "pending_items b = x # xs"
  shows "\<exists>b'. frame_pop val b = Some (True, x, b') \<and> frames_ok sz n b' \<and> pending_items b' = xs"
proof -
  have b: "ring_ok b" "mTailPtr b < length (mRing b)" using assms(1) by (simp_all add: frames_ok_def ring_ok_def)
  have ne: "mHeadPtr b \<noteq> mTailPtr b" using assms(3) pending_items_empty [OF b(1)] by auto
  have "length (mRing b ! mTailPtr b) = n"
    using assms(1) b(2) by (simp add: frames_ok_def list_all_length)
  then have "frame_getItem (mBytesPerFrame b) (mRing b ! mTailPtr b) val = Some (mRing b ! mTailPtr b)"
    using assms(1,2) by (simp add: frame_getItem_eq frames_ok_def)
  then show ?thesis
    using assms(1,3) b ne pending_items_read [OF b(1) ne]
    by (auto simp: frame_pop_def pop_def Let_def frames_ok_def ring_ok_def next_index_less
        pending_items_def ring_size_def)
qed

text \<open>The frame buffer as a FIFO: a failed push or pop is \<open>None\<close>.\<close>

definition frame_put :: "bytes \<Rightarrow> WaitFreeFrameBuffer \<Rightarrow> WaitFreeFrameBuffer option" where
  "frame_put val b = (case frame_push val b of Some (Suc _, b') \<Rightarrow> Some b' | _ \<Rightarrow> None)"

definition frame_get :: "nat \<Rightarrow> WaitFreeFrameBuffer \<Rightarrow> (bytes \<times> WaitFreeFrameBuffer) option" where
  "frame_get n b = (case frame_pop (replicate n 0) b of Some (True, val, b') \<Rightarrow> Some (val, b') | _ \<Rightarrow> None)"

interpretation frame_fifo: bounded_fifo "frames_ok sz n" "\<lambda>val. length val = n" "sz - 1" pending_items
    frame_put "frame_get n"
  for sz n
proof
  fix b :: WaitFreeFrameBuffer and val :: bytes
  assume "frames_ok sz n b" "length val = n" "length (pending_items b) < sz - 1"
  then show "\<exists>b'. frame_put val b = Some b' \<and> frames_ok sz n b' \<and> pending_items b' = pending_items b @ [val]"
    using frame_push_room by (fastforce simp: frame_put_def)
next
  fix b :: WaitFreeFrameBuffer and x :: bytes and q
  assume "frames_ok sz n b" "pending_items b = x # q"
  then show "\<exists>b'. frame_get n b = Some (x, b') \<and> frames_ok sz n b' \<and> pending_items b' = q"
    using frame_pop_item [of sz n b "replicate n 0" x q] by (auto simp: frame_get_def)
qed

section \<open>One producer and one consumer\<close>

text \<open>
  The threads at the granularity of the atomic loads and stores and of the copies of the items.
  \<open>written\<close> and \<open>consumed\<close> are histories: the values whose push and whose pop has been published
  by the store of the pointer.
\<close>

datatype 'a producer = P_idle
  | P_load_tail 'a
  | P_load_head 'a nat
  | P_copy 'a nat nat nat
  | P_publish 'a nat nat nat

datatype 'a consumer = C_idle
  | C_load_tail
  | C_load_head nat
  | C_copy nat
  | C_publish nat 'a

record 'a spsc =
  ring :: "'a WaitFreeRingBuffer"
  producer :: "'a producer"
  consumer :: "'a consumer"
  written :: "'a list"
  consumed :: "'a list"

inductive spsc_step :: "'a spsc \<Rightarrow> 'a spsc \<Rightarrow> bool" where
  push_call: "producer s = P_idle \<Longrightarrow> spsc_step s (s\<lparr>producer := P_load_tail v\<rparr>)"
| push_load_tail: "producer s = P_load_tail v \<Longrightarrow>
    spsc_step s (s\<lparr>producer := P_load_head v (mTailPtr (ring s))\<rparr>)"
| push_load_head: "producer s = P_load_head v tail \<Longrightarrow> head = mHeadPtr (ring s) \<Longrightarrow>
    next_head = next_index (Size (ring s)) head \<Longrightarrow> next_head \<noteq> tail \<Longrightarrow>
    spsc_step s (s\<lparr>producer := P_copy v tail head next_head\<rparr>)"
| push_overrun: "producer s = P_load_head v tail \<Longrightarrow>
    next_index (Size (ring s)) (mHeadPtr (ring s)) = tail \<Longrightarrow>
    spsc_step s (s\<lparr>producer := P_idle, ring := (ring s)\<lparr>mOverruns := mOverruns (ring s) + 1\<rparr>\<rparr>)"
| push_copy: "producer s = P_copy v tail head next_head \<Longrightarrow>
    spsc_step s (s\<lparr>producer := P_publish v tail head next_head,
      ring := (ring s)\<lparr>mRing := (mRing (ring s))[head := v]\<rparr>\<rparr>)"
| push_publish: "producer s = P_publish v tail head next_head \<Longrightarrow>
    spsc_step s (s\<lparr>producer := P_idle, ring := (ring s)\<lparr>mHeadPtr := next_head\<rparr>,
      written := written s @ [v]\<rparr>)"
| pop_call: "consumer s = C_idle \<Longrightarrow> spsc_step s (s\<lparr>consumer := C_load_tail\<rparr>)"
| pop_load_tail: "consumer s = C_load_tail \<Longrightarrow>
    spsc_step s (s\<lparr>consumer := C_load_head (mTailPtr (ring s))\<rparr>)"
| pop_load_head: "consumer s = C_load_head tail \<Longrightarrow> tail \<noteq> mHeadPtr (ring s) \<Longrightarrow>
    spsc_step s (s\<lparr>consumer := C_copy tail\<rparr>)"
| pop_underrun: "consumer s = C_load_head tail \<Longrightarrow> tail = mHeadPtr (ring s) \<Longrightarrow>
    spsc_step s (s\<lparr>consumer := C_idle, ring := (ring s)\<lparr>mUnderruns := mUnderruns (ring s) + 1\<rparr>\<rparr>)"
| pop_copy: "consumer s = C_copy tail \<Longrightarrow>
    spsc_step s (s\<lparr>consumer := C_publish tail (mRing (ring s) ! tail)\<rparr>)"
| pop_publish: "consumer s = C_publish tail v \<Longrightarrow>
    spsc_step s (s\<lparr>consumer := C_idle, ring := (ring s)\<lparr>mTailPtr := next_index (Size (ring s)) tail\<rparr>,
      consumed := consumed s @ [v]\<rparr>)"

definition spsc_init :: "'a list \<Rightarrow> 'a spsc" where
  "spsc_init items = \<lparr>ring = WaitFreeRingBuffer_new items, producer = P_idle, consumer = C_idle,
     written = [], consumed = []\<rparr>"

text \<open>What the threads know: own pointers exactly, the tail of the consumer as a past value.\<close>

definition producer_ok :: "'a WaitFreeRingBuffer \<Rightarrow> 'a producer \<Rightarrow> bool" where
  "producer_ok b p = (case p of P_idle \<Rightarrow> True | P_load_tail v \<Rightarrow> True
     | P_load_head v tail \<Rightarrow> tail < Size b \<and> ring_size b \<le> ring_distance (Size b) (mHeadPtr b) tail
     | P_copy v tail head next_head \<Rightarrow> head = mHeadPtr b \<and> next_head = next_index (Size b) head \<and>
         ring_size b < Size b - 1
     | P_publish v tail head next_head \<Rightarrow> head = mHeadPtr b \<and> next_head = next_index (Size b) head \<and>
         ring_size b < Size b - 1 \<and> mRing b ! head = v)"

definition consumer_ok :: "'a WaitFreeRingBuffer \<Rightarrow> 'a consumer \<Rightarrow> bool" where
  "consumer_ok b c = (case c of C_idle \<Rightarrow> True | C_load_tail \<Rightarrow> True
     | C_load_head tail \<Rightarrow> tail = mTailPtr b
     | C_copy tail \<Rightarrow> tail = mTailPtr b \<and> mHeadPtr b \<noteq> tail
     | C_publish tail v \<Rightarrow> tail = mTailPtr b \<and> mHeadPtr b \<noteq> tail \<and> mRing b ! tail = v)"

definition spsc_inv :: "'a spsc \<Rightarrow> bool" where
  "spsc_inv s \<longleftrightarrow> ring_ok (ring s) \<and> producer_ok (ring s) (producer s) \<and> consumer_ok (ring s) (consumer s) \<and>
     written s = consumed s @ pending_items (ring s)"

lemma room_next:
  "ring_ok b \<Longrightarrow> ring_size b < Size b - 1 \<Longrightarrow> next_index (Size b) (mHeadPtr b) \<noteq> mTailPtr b"
  using ring_distance_full [of "mHeadPtr b" "Size b" "mTailPtr b"]
  by (simp add: ring_ok_def ring_size_def)

text \<open>The copy into the head slot does not touch the pending items.\<close>

lemma pending_items_copy:
  assumes "ring_ok b" and "ring_size b < Size b - 1"
  shows "ring_items ((mRing b)[mHeadPtr b := x]) (mTailPtr b) (ring_size b) = pending_items b"
proof -
  have "ring_distance (Size b) (next_index (Size b) (mHeadPtr b)) (mTailPtr b) = Suc (ring_size b)"
    using room_next [OF assms] assms(1) by (simp add: ring_ok_def ring_distance_push ring_size_def)
  then have "ring_items ((mRing b)[mHeadPtr b := x]) (mTailPtr b) (Suc (ring_size b)) =
      pending_items b @ [x]"
    using pending_items_write [OF assms(1) room_next [OF assms], of x] by simp
  then have "butlast (ring_items ((mRing b)[mHeadPtr b := x]) (mTailPtr b) (Suc (ring_size b))) =
      pending_items b" by simp
  then show ?thesis by (simp add: ring_items_def)
qed

lemma spsc_inv_step:
  assumes "spsc_step s s'" and "spsc_inv s"
  shows "spsc_inv s'"
  using assms(1)
proof (cases rule: spsc_step.cases)
  case (push_load_head v tail head next_head)
  then show ?thesis using assms(2) ring_distance_full [of "mHeadPtr (ring s)" "Size (ring s)" tail]
    ring_distance_less [of "mHeadPtr (ring s)" "Size (ring s)" tail]
    by (auto simp: spsc_inv_def producer_ok_def ring_ok_def)
next
  case (push_copy v tail head next_head)
  have inv: "ring_ok (ring s)" "head = mHeadPtr (ring s)" "ring_size (ring s) < Size (ring s) - 1"
    using assms(2) push_copy by (simp_all add: spsc_inv_def producer_ok_def)
  have "pending_items (ring s\<lparr>mRing := (mRing (ring s))[head := v]\<rparr>) = pending_items (ring s)"
    using pending_items_copy [OF inv(1,3), of v] inv(2) by (simp add: pending_items_def ring_size_def)
  then show ?thesis using assms(2) push_copy inv
    by (auto simp: spsc_inv_def producer_ok_def consumer_ok_def ring_ok_def ring_size_def
        split: consumer.splits)
next
  case (push_publish v tail head next_head)
  have inv: "ring_ok (ring s)" "head = mHeadPtr (ring s)" "ring_size (ring s) < Size (ring s) - 1"
    "next_head = next_index (Size (ring s)) head" "mRing (ring s) ! head = v"
    using assms(2) push_publish by (auto simp: spsc_inv_def producer_ok_def)
  have "pending_items (ring s\<lparr>mHeadPtr := next_head\<rparr>) = pending_items (ring s) @ [v]"
    using pending_items_write [OF inv(1) room_next [OF inv(1,3)], of v] inv(2,4,5)
    by (auto simp: pending_items_def ring_size_def)
  then show ?thesis using assms(2) push_publish inv room_next [OF inv(1,3)]
    by (auto simp: spsc_inv_def producer_ok_def consumer_ok_def ring_ok_def next_index_less
        split: consumer.splits)
next
  case (pop_publish tail v)
  have inv: "ring_ok (ring s)" "tail = mTailPtr (ring s)" "mHeadPtr (ring s) \<noteq> mTailPtr (ring s)"
    "mRing (ring s) ! tail = v"
    using assms(2) pop_publish by (auto simp: spsc_inv_def consumer_ok_def)
  let ?b = "ring s\<lparr>mTailPtr := next_index (Size (ring s)) tail\<rparr>"
  have "pending_items (ring s) = v # pending_items ?b"
    using pending_items_read [OF inv(1,3)] inv(2,4) by (simp add: pending_items_def ring_size_def)
  moreover have "ring_size ?b \<le> ring_size (ring s)"
    using ring_distance_pop [of "mHeadPtr (ring s)" "Size (ring s)" "mTailPtr (ring s)"] inv
    by (simp add: ring_ok_def ring_size_def)
  ultimately show ?thesis using assms(2) pop_publish inv
    by (auto simp: spsc_inv_def producer_ok_def consumer_ok_def ring_ok_def next_index_less
        split: producer.splits)
next
  case (push_load_tail v)
  then show ?thesis using assms(2)
    by (auto simp: spsc_inv_def producer_ok_def ring_ok_def ring_size_def)
qed (use assms(2) in \<open>auto simp: spsc_inv_def producer_ok_def consumer_ok_def ring_ok_def
     pending_items_def ring_size_def split: producer.splits consumer.splits\<close>)

lemma spsc_inv_init: "items \<noteq> [] \<Longrightarrow> spsc_inv (spsc_init items)"
  by (simp add: spsc_inv_def spsc_init_def WaitFreeRingBuffer_new_def ring_ok_def producer_ok_def
      consumer_ok_def pending_items_def ring_size_def ring_distance_def)

lemma spsc_inv_reachable:
  assumes "spsc_step\<^sup>*\<^sup>* (spsc_init items) s" and "items \<noteq> []"
  shows "spsc_inv s"
  using assms(1) by (induction rule: rtranclp_induct) (auto intro: spsc_inv_init [OF assms(2)] spsc_inv_step)

lemma spsc_size_step: "spsc_step s s' \<Longrightarrow> Size (ring s') = Size (ring s)"
  by (induction rule: spsc_step.induct) simp_all

lemma spsc_size_reachable: "spsc_step\<^sup>*\<^sup>* (spsc_init items) s \<Longrightarrow> Size (ring s) = length items"
  by (induction rule: rtranclp_induct)
    (simp_all add: spsc_size_step spsc_init_def WaitFreeRingBuffer_new_def)

section \<open>Properties\<close>

text \<open>
  C19: in every interleaving of the atomic steps of one producer and one consumer, the values
  popped so far followed by the items still in the ring are the values pushed so far: nothing is
  lost, duplicated or reordered, the ring holds at most \<open>capacity - 1\<close> items, and the producer never
  copies into the slot that the consumer is copying from.
\<close>

theorem spsc_fifo:
  assumes "spsc_step\<^sup>*\<^sup>* (spsc_init items) s" and "items \<noteq> []"
  shows "written s = consumed s @ pending_items (ring s) \<and> ring_size (ring s) < capacity (ring s) \<and>
    (\<forall>v tail head next_head. producer s = P_copy v tail head next_head \<longrightarrow> consumer s \<noteq> C_copy head)"
proof -
  have inv: "spsc_inv s" using assms by (rule spsc_inv_reachable)
  then have "ring_size (ring s) < capacity (ring s)"
    by (simp add: spsc_inv_def ring_ok_def ring_size_def ring_distance_less capacity_def)
  then show ?thesis
    using inv by (auto simp: spsc_inv_def producer_ok_def consumer_ok_def)
qed

theorem spsc_fifo_witness:
  "\<exists>s. spsc_step\<^sup>*\<^sup>* (spsc_init [0, 0 :: nat]) s \<and> producer s = P_publish 7 0 0 1 \<and>
    written s = consumed s @ pending_items (ring s)"
proof -
  let ?s0 = "spsc_init [0, 0 :: nat]"
  let ?s1 = "?s0\<lparr>producer := P_load_tail 7\<rparr>"
  let ?s2 = "?s0\<lparr>producer := P_load_head 7 0\<rparr>"
  let ?s3 = "?s0\<lparr>producer := P_copy 7 0 0 1\<rparr>"
  let ?s4 = "?s0\<lparr>producer := P_publish 7 0 0 1, ring := (ring ?s0)\<lparr>mRing := [7, 0]\<rparr>\<rparr>"
  have a: "spsc_step ?s0 ?s1" using push_call [of ?s0 7] by (simp add: spsc_init_def)
  have b: "spsc_step ?s1 ?s2"
    using push_load_tail [of ?s1 7] by (simp add: spsc_init_def WaitFreeRingBuffer_new_def)
  have c: "spsc_step ?s2 ?s3"
    using push_load_head [of ?s2 7 0 0 1]
    by (simp add: spsc_init_def WaitFreeRingBuffer_new_def next_index_def)
  have d: "spsc_step ?s3 ?s4"
    using push_copy [of ?s3 7 0 0 1] by (simp add: spsc_init_def WaitFreeRingBuffer_new_def)
  note into = rtranclp.rtrancl_into_rtrancl [where r = spsc_step]
  have run: "spsc_step\<^sup>*\<^sup>* ?s0 ?s4"
    by (rule into [OF into [OF into [OF into [OF rtranclp.rtrancl_refl a] b] c] d])
  then show ?thesis using spsc_fifo [OF run] by (intro exI [of _ ?s4]) simp
qed

text \<open>
  A frame buffer that starts empty returns, for every sequence of pushes and pops in which
  it neither runs full nor empty, exactly the frames that were pushed, in that order.
\<close>

lemma frame_buffer_order:
  assumes "0 < sz" and "list_all (\<lambda>val. length val = n) (puts ops)"
    and "run_ops (list_put (sz - 1)) list_get ops [] = Some (out, q)"
  shows "\<exists>b. run_ops frame_put (frame_get n) ops (WaitFreeFrameBuffer_new sz garbage n) = Some (out, b) \<and>
    out @ pending_items b = puts ops"
proof -
  have new: "frames_ok sz n (WaitFreeFrameBuffer_new sz garbage n)"
    "pending_items (WaitFreeFrameBuffer_new sz garbage n) = []"
    using frames_ok_new [OF assms(1)] by auto
  show ?thesis
    using frame_fifo.run_order [OF new(1), of ops out q] assms(2,3) new(2) by auto
qed

lemma frame_buffer_order_witness:
  "\<exists>b. run_ops frame_put (frame_get 1) [Put [1], Put [2], Get, Put [3], Get]
      (WaitFreeFrameBuffer_new 3 (\<lambda>n i. 0) 1) = Some ([[1], [2]], b) \<and>
    [[1], [2]] @ pending_items b = [[1], [2], [3]]"
  using frame_buffer_order [of 3 1 "[Put [1], Put [2], Get, Put [3], Get]" "[[1], [2]]" "[[3]]"]
  by (simp add: list_put_def)

end
