(* ===== verification/AudioInterface.thy ===== *)
theory AudioInterface
  imports AudioTester WaitFree
begin

text \<open>
  The audio interface (\<open>src/AudioInterface.cpp\<close>, \<open>src/AudioInterface.h\<close>) without the WAIR
  option: sample-rate types, buffer sizes and allocation, the interleaving of the channels into
  packets and out of them, the admission of process plugins and the device messages.  A buffer
  of samples is the list of its channels, each a list of \<open>n_frames\<close> samples.  The vectors of
  channel numbers are lists; what \<open>new\<close> leaves uninitialised is an argument.
\<close>

section \<open>State\<close>

datatype samplingRateT = SR22 | SR32 | SR44 | SR48 | SR88 | SR96 | SR192 | UNDEF

datatype inputMixModeT = MIX_UNSET | MONO | STEREO | MIXTOMONO

datatype warningMessageT = DEVICE_WARN_NONE | DEVICE_WARN_BUFFER_LATENCY | DEVICE_WARN_ASIO_LATENCY
  | DEVICE_WARN_ALSA_LATENCY | DEVICE_WARN_SPEAKERS

datatype errorMessageT = DEVICE_ERR_NONE | DEVICE_ERR_INCOMPATIBLE | DEVICE_ERR_NO_INPUTS
  | DEVICE_ERR_NO_OUTPUTS | DEVICE_ERR_NO_DEVICES

text \<open>What the admission tests ask of a plugin.\<close>

record plugin =
  getNumInputs :: int
  getNumOutputs :: int

record AudioInterface =
  mInputChans :: "int list"
  mOutputChans :: "int list"
  mInputMixMode :: inputMixModeT
  mAudioBitResolution :: int
  mBitResolutionMode :: audioBitResolutionT
  mSampleRate :: u32
  mBufferSizeInSamples :: u32
  mSizeInBytesPerChannel :: u64
  mMonitorQueuePtr :: "WaitFreeFrameBuffer option"
  mAudioInputPacket :: bytes
  mAudioOutputPacket :: bytes
  mInProcessBuffer :: "sample_t list list"
  mOutProcessBuffer :: "sample_t list list"
  mLoopBack :: bool
  mProcessWithNetwork :: bool
  mMonitorStarted :: bool
  mProcessPluginsFromNetwork :: "plugin list"
  mProcessPluginsToNetwork :: "plugin list"
  mProcessPluginsToMonitor :: "plugin list"
  mAudioTesterP :: "AudioTester option"
  mWarningMsg :: string
  mErrorMsg :: string
  mWarningHelpUrl :: string
  mErrorHelpUrl :: string
  mHighLatencyFlag :: bool

section \<open>Operations\<close>

definition gDefaultSampleRate :: u32 where "gDefaultSampleRate = 48000"
definition gDefaultBufferSizeInSamples :: u32 where "gDefaultBufferSizeInSamples = 128"

definition AudioInterface_new :: "u64 \<Rightarrow> bool \<Rightarrow> int list \<Rightarrow> int list \<Rightarrow> inputMixModeT \<Rightarrow>
    audioBitResolutionT \<Rightarrow> bool \<Rightarrow> AudioInterface" where
  "AudioInterface_new garbage_size garbage_flag InputChans OutputChans InputMixMode
     AudioBitResolution processWithNetwork =
     \<lparr>mInputChans = InputChans, mOutputChans = OutputChans, mInputMixMode = InputMixMode,
       mAudioBitResolution = int (bit_resolution_code AudioBitResolution) * 8,
       mBitResolutionMode = AudioBitResolution, mSampleRate = gDefaultSampleRate,
       mBufferSizeInSamples = gDefaultBufferSizeInSamples, mSizeInBytesPerChannel = garbage_size,
       mMonitorQueuePtr = None, mAudioInputPacket = [], mAudioOutputPacket = [],
       mInProcessBuffer = [], mOutProcessBuffer = [], mLoopBack = False,
       mProcessWithNetwork = processWithNetwork, mMonitorStarted = False,
       mProcessPluginsFromNetwork = [], mProcessPluginsToNetwork = [], mProcessPluginsToMonitor = [],
       mAudioTesterP = None, mWarningMsg = '''', mErrorMsg = '''', mWarningHelpUrl = '''',
       mErrorHelpUrl = '''', mHighLatencyFlag = garbage_flag\<rparr>"

definition getSizeInBytesPerChannel :: "AudioInterface \<Rightarrow> u64" where
  "getSizeInBytesPerChannel a =
     ucast ((mBufferSizeInSamples a * of_int (mAudioBitResolution a)) div 8)"

text \<open>\<open>setup\<close>; an allocation of a negative size fails.\<close>

definition AudioInterface_setup :: "(nat \<Rightarrow> u8) \<Rightarrow> (nat \<Rightarrow> nat \<Rightarrow> u8) \<Rightarrow> AudioInterface \<Rightarrow> AudioInterface option" where
  "AudioInterface_setup garbage queue_garbage a =
     (let sz = getSizeInBytesPerChannel a;
          nframes = sint (mBufferSizeInSamples a);
          nin = length (mInputChans a);
          nout = length (mOutputChans a);
          size_audio_input = sint (ucast (sz * of_nat nin) :: u32);
          size_audio_output = sint (ucast (sz * of_nat nout) :: u32);
          audioInputPacketSize = unat (max (of_int size_audio_input) (of_nat (nin * 4) * of_int nframes :: u64));
          audioOutputPacketSize = unat (max (of_int size_audio_output) (of_nat (nout * 4) * of_int nframes :: u64))
      in if nframes < 0 then None
         else Some (a\<lparr>mSizeInBytesPerChannel := sz,
           mAudioInputPacket := map garbage [0..<audioInputPacketSize],
           mAudioOutputPacket := map garbage [0..<audioOutputPacketSize],
           mMonitorQueuePtr := Some (WaitFreeFrameBuffer_new 64 queue_garbage audioInputPacketSize),
           mInProcessBuffer := replicate nin (replicate (nat nframes) 0),
           mOutProcessBuffer := replicate nout (replicate (nat nframes) 0)\<rparr>))"

definition near_rate :: "int \<Rightarrow> int \<Rightarrow> bool option" where
  "near_rate rate x = do { d \<leftarrow> checked_int (rate - x); Some (\<bar>d\<bar> < 100) }"

definition getSampleRateType :: "u32 \<Rightarrow> samplingRateT option" where
  "getSampleRateType sampleRate = do {
     let rate = sint sampleRate;
     c22 \<leftarrow> near_rate rate 22050;
     if c22 then Some SR22 else do {
       c32 \<leftarrow> near_rate rate 32000;
       if c32 then Some SR32 else do {
         c44 \<leftarrow> near_rate rate 44100;
         if c44 then Some SR44 else do {
           c48 \<leftarrow> near_rate rate 48000;
           if c48 then Some SR48 else do {
             c88 \<leftarrow> near_rate rate 88200;
             if c88 then Some SR88 else do {
               c96 \<leftarrow> near_rate rate 96000;
               if c96 then Some SR96 else do {
                 c192 \<leftarrow> near_rate rate 19200;
                 Some (if c192 then SR192 else UNDEF)
     }}}}}}}"

fun getSampleRateFromType :: "samplingRateT \<Rightarrow> int" where
  "getSampleRateFromType SR22 = 22050"
| "getSampleRateFromType SR32 = 32000"
| "getSampleRateFromType SR44 = 44100"
| "getSampleRateFromType SR48 = 48000"
| "getSampleRateFromType SR88 = 88200"
| "getSampleRateFromType SR96 = 96000"
| "getSampleRateFromType SR192 = 192000"
| "getSampleRateFromType UNDEF = 0"

text \<open>The packet that \<open>computeProcessToNetwork\<close> hands to \<open>sendNetworkPacket\<close>.\<close>

definition computeProcessToNetwork :: "sample_t list list \<Rightarrow> nat \<Rightarrow> AudioInterface \<Rightarrow> AudioInterface option" where
  "computeProcessToNetwork in_buffer n_frames a =
     (let nChansIn = (if mInputMixMode a = MIXTOMONO then 1 else length (mInputChans a));
          B = bit_resolution_code (mBitResolutionMode a)
      in do {
        packet \<leftarrow> iter_opt (\<lambda>i. iter_opt (\<lambda>j packet. do {
            s \<leftarrow> get_sample in_buffer i j;
            p \<leftarrow> get_sample (mInProcessBuffer a) i j;
            bs \<leftarrow> fromSampleToBitConversion (float_add s p) (mBitResolutionMode a);
            mem_write packet (j * B * nChansIn + i * B) bs
          }) [0..<n_frames]) [0..<nChansIn] (mAudioInputPacket a);
        Some (a\<lparr>mAudioInputPacket := packet\<rparr>)
      })"

text \<open>
  The extraction of the channels from \<open>mAudioOutputPacket\<close>, after the packet was read from the
  ring; \<open>computeProcessFromNetwork\<close> and \<open>broadcastCallback\<close> both consist of it.
\<close>

definition extract_channels :: "sample_t list list \<Rightarrow> nat \<Rightarrow> AudioInterface \<Rightarrow> sample_t list list option" where
  "extract_channels out_buffer n_frames a =
     (let C = length (mOutputChans a); B = bit_resolution_code (mBitResolutionMode a)
      in iter_opt (\<lambda>i. iter_opt (\<lambda>j buf. do {
            bs \<leftarrow> mem_read (mAudioOutputPacket a) (j * B * C + i * B) B;
            s \<leftarrow> fromBitToSampleConversion bs (mBitResolutionMode a);
            put_sample buf i j s
          }) [0..<n_frames]) [0..<C] out_buffer)"

definition computeProcessFromNetwork :: "bytes \<Rightarrow> sample_t list list \<Rightarrow> nat \<Rightarrow> AudioInterface \<Rightarrow>
    (sample_t list list \<times> AudioInterface) option" where
  "computeProcessFromNetwork received out_buffer n_frames a = do {
     packet \<leftarrow> mem_write (mAudioOutputPacket a) 0 received;
     let a = a\<lparr>mAudioOutputPacket := packet\<rparr>;
     out \<leftarrow> extract_channels out_buffer n_frames a;
     Some (out, a)
   }"

definition broadcastCallback :: "bytes \<Rightarrow> sample_t list list \<Rightarrow> nat \<Rightarrow> AudioInterface \<Rightarrow>
    (sample_t list list \<times> AudioInterface) option" where
  "broadcastCallback received mon_buffer n_frames a = do {
     packet \<leftarrow> mem_write (mAudioOutputPacket a) 0 received;
     let a = a\<lparr>mAudioOutputPacket := packet\<rparr>;
     mon \<leftarrow> extract_channels mon_buffer n_frames a;
     Some (mon, a)
   }"

text \<open>Admission of plugins; a null pointer is \<open>None\<close>, and a failed \<open>assert\<close> has no result.\<close>

definition nTestChans :: "AudioInterface \<Rightarrow> int" where
  "nTestChans a = (case mAudioTesterP a of None \<Rightarrow> 0 | Some t \<Rightarrow> if enabled t then 1 else 0)"

definition tester_channel_ok :: "AudioInterface \<Rightarrow> int \<Rightarrow> bool" where
  "tester_channel_ok a ch = (case mAudioTesterP a of None \<Rightarrow> True
     | Some t \<Rightarrow> \<not> enabled t \<or> sendChannel t = ch)"

definition appendProcessPluginToNetwork :: "plugin option \<Rightarrow> AudioInterface \<Rightarrow> AudioInterface option" where
  "appendProcessPluginToNetwork pl a =
     (case pl of None \<Rightarrow> Some a
      | Some p \<Rightarrow>
         let nChansIn = (if mInputMixMode a = MIXTOMONO then 1 else int (length (mInputChans a)));
             nPluginChans = nChansIn - nTestChans a
         in if \<not> tester_channel_ok a (nChansIn - 1) then None
            else if getNumInputs p < nPluginChans then Some a
            else Some (a\<lparr>mProcessPluginsToNetwork := mProcessPluginsToNetwork a @ [p]\<rparr>))"

definition appendProcessPluginFromNetwork :: "plugin option \<Rightarrow> AudioInterface \<Rightarrow> AudioInterface option" where
  "appendProcessPluginFromNetwork pl a =
     (case pl of None \<Rightarrow> Some a
      | Some p \<Rightarrow>
         let nPluginChans = int (length (mOutputChans a)) - nTestChans a
         in if \<not> tester_channel_ok a (int (length (mOutputChans a)) - 1) then None
            else if getNumOutputs p > nPluginChans then Some a
            else Some (a\<lparr>mProcessPluginsFromNetwork := mProcessPluginsFromNetwork a @ [p]\<rparr>))"

definition getNumMonChannels :: "AudioInterface \<Rightarrow> int" where
  "getNumMonChannels a = int (length (mOutputChans a))"

definition appendProcessPluginToMonitor :: "plugin option \<Rightarrow> AudioInterface \<Rightarrow> AudioInterface" where
  "appendProcessPluginToMonitor pl a =
     (case pl of None \<Rightarrow> a
      | Some p \<Rightarrow>
         if getNumInputs p > getNumMonChannels a then a
         else if getNumOutputs p > getNumMonChannels a then a
         else a\<lparr>mProcessPluginsToMonitor := mProcessPluginsToMonitor a @ [p]\<rparr>)"

definition setDevicesWarningMsg :: "warningMessageT \<Rightarrow> AudioInterface \<Rightarrow> AudioInterface" where
  "setDevicesWarningMsg msg a =
     (case msg of
        DEVICE_WARN_BUFFER_LATENCY \<Rightarrow>
          a\<lparr>mWarningMsg := ''The buffer size setting for your audio device will cause high latency '' @
              ''or audio delay. Use an audio device that supports small buffer sizes '' @
              ''to reduce audio delays.'',
            mWarningHelpUrl := ''https://support.jacktrip.com/recommended-audio-interfaces'',
            mHighLatencyFlag := True\<rparr>
      | DEVICE_WARN_ASIO_LATENCY \<Rightarrow>
          a\<lparr>mWarningMsg := ''You audio device drivers may cause high latency or audio delay. Install '' @
              ''and use ASIO drivers provided by your device'' @ [CHR 0x27] @ ''s manufacturer to reduce '' @
              ''audio delays.'',
            mWarningHelpUrl :=
              ''https://support.jacktrip.com/troubleshooting-windows-drivers-and-asio'',
            mHighLatencyFlag := True\<rparr>
      | DEVICE_WARN_ALSA_LATENCY \<Rightarrow>
          a\<lparr>mWarningMsg := ''You audio device drivers may cause high latency or audio delay. Use '' @
              ''JACK backend or Linux ALSA drivers to reduce audio delays.'',
            mWarningHelpUrl := '''', mHighLatencyFlag := True\<rparr>
      | DEVICE_WARN_SPEAKERS \<Rightarrow>
          a\<lparr>mWarningMsg := ''You appear to have selected speakers for audio output. '' @
              ''Using speakers with microphones will likely cause a loud feedback '' @
              ''loop. We strongly recommend that you use wired headphones instead.'',
            mWarningHelpUrl := ''https://support.jacktrip.com/recommended-audio-interfaces''\<rparr>
      | DEVICE_WARN_NONE \<Rightarrow>
          a\<lparr>mWarningMsg := '''', mWarningHelpUrl := '''', mHighLatencyFlag := False\<rparr>)"

text \<open>The messages of the platforms other than Windows.\<close>

definition setDevicesErrorMsg :: "errorMessageT \<Rightarrow> AudioInterface \<Rightarrow> AudioInterface" where
  "setDevicesErrorMsg msg a =
     (case msg of
        DEVICE_ERR_INCOMPATIBLE \<Rightarrow>
          a\<lparr>mErrorMsg := ''The two devices you have selected are not compatible. Please select a '' @
              ''different pair of devices.'', mErrorHelpUrl := ''''\<rparr>
      | DEVICE_ERR_NO_INPUTS \<Rightarrow>
          a\<lparr>mErrorMsg := ''JackTrip couldn'' @ [CHR 0x27] @ ''t find any input devices!'', mErrorHelpUrl := ''''\<rparr>
      | DEVICE_ERR_NO_OUTPUTS \<Rightarrow>
          a\<lparr>mErrorMsg := ''JackTrip couldn'' @ [CHR 0x27] @ ''t find any output devices!'', mErrorHelpUrl := ''''\<rparr>
      | DEVICE_ERR_NO_DEVICES \<Rightarrow>
          a\<lparr>mErrorMsg := ''JackTrip couldn'' @ [CHR 0x27] @ ''t find any audio devices!'', mErrorHelpUrl := ''''\<rparr>
      | DEVICE_ERR_NONE \<Rightarrow> a\<lparr>mErrorMsg := '''', mErrorHelpUrl := ''''\<rparr>)"

section \<open>Sample conversions\<close>

lemma fromSampleToBitConversion_length:
  assumes "fromSampleToBitConversion x res = Some bs"
  shows "length bs = bit_resolution_code res"
  using assms unfolding fromSampleToBitConversion_def Let_def
  by (cases res; cases "float_val x") (auto split: if_splits)

lemma fromBitToSampleConversion_defined:
  "bit_resolution_code res \<le> length bs \<Longrightarrow> \<exists>s. fromBitToSampleConversion bs res = Some s"
  by (simp add: fromBitToSampleConversion_def mem_read_def)

section \<open>Interleaving\<close>

definition nChansIn :: "AudioInterface \<Rightarrow> nat" where
  "nChansIn a = (if mInputMixMode a = MIXTOMONO then 1 else length (mInputChans a))"

definition has_frames :: "sample_t list list \<Rightarrow> nat \<Rightarrow> nat \<Rightarrow> bool" where
  "has_frames buf C n \<longleftrightarrow> C \<le> length buf \<and> (\<forall>i<C. n \<le> length (buf ! i))"

lemma get_sample_Some: "has_frames buf C n \<Longrightarrow> i < C \<Longrightarrow> j < n \<Longrightarrow> get_sample buf i j = Some (buf ! i ! j)"
  by (auto simp: has_frames_def get_sample_def intro: order_less_le_trans)

lemma put_sample_frames:
  assumes "has_frames buf C n" and "i < C" and "j < n"
  shows "\<exists>buf'. put_sample buf i j x = Some buf' \<and> has_frames buf' C n \<and> buf' ! i ! j = x \<and>
    (\<forall>i' j'. (i', j') \<noteq> (i, j) \<longrightarrow> buf' ! i' ! j' = buf ! i' ! j')"
proof -
  have "i < length buf" "j < length (buf ! i)"
    using assms by (auto simp: has_frames_def intro: order_less_le_trans)
  then show ?thesis
    using assms(1) by (auto simp: put_sample_def has_frames_def nth_list_update)
qed

lemma to_network_cells:
  assumes "has_frames inb (nChansIn a) n" and "has_frames (mInProcessBuffer a) (nChansIn a) n"
    and "n * bit_resolution_code (mBitResolutionMode a) * nChansIn a \<le> length (mAudioInputPacket a)"
    and defd: "\<And>i j. i < nChansIn a \<Longrightarrow> j < n \<Longrightarrow>
      \<exists>bs. fromSampleToBitConversion (float_add (inb ! i ! j) (mInProcessBuffer a ! i ! j)) (mBitResolutionMode a) = Some bs"
  defines "B \<equiv> bit_resolution_code (mBitResolutionMode a)" and "C \<equiv> nChansIn a"
  shows "\<exists>p. computeProcessToNetwork inb n a = Some (a\<lparr>mAudioInputPacket := p\<rparr>) \<and>
    length p = length (mAudioInputPacket a) \<and>
    (\<forall>i<C. \<forall>j<n. fromSampleToBitConversion (float_add (inb ! i ! j) (mInProcessBuffer a ! i ! j)) (mBitResolutionMode a)
       = Some (take B (drop (j * B * C + i * B) p)))"
proof -
  let ?f = "\<lambda>i j (packet :: bytes). do {
     s \<leftarrow> get_sample inb i j;
     p \<leftarrow> get_sample (mInProcessBuffer a) i j;
     bs \<leftarrow> fromSampleToBitConversion (float_add s p) (mBitResolutionMode a);
     mem_write packet (j * B * C + i * B) bs }"
  let ?cell = "\<lambda>i j (p :: bytes). fromSampleToBitConversion (float_add (inb ! i ! j) (mInProcessBuffer a ! i ! j)) (mBitResolutionMode a)
       = Some (take B (drop (j * B * C + i * B) p))"
  have "\<exists>p. iter_opt (\<lambda>i. iter_opt (?f i) [0..<n]) [0..<C] (mAudioInputPacket a) = Some p \<and>
      length p = length (mAudioInputPacket a) \<and> (\<forall>i<C. \<forall>j<n. ?cell i j p)"
  proof (rule cells_invariant)
    fix i j and p :: bytes assume i: "i < C" and j: "j < n" and p: "length p = length (mAudioInputPacket a)"
    obtain bs where bs: "fromSampleToBitConversion (float_add (inb ! i ! j) (mInProcessBuffer a ! i ! j)) (mBitResolutionMode a) = Some bs"
      using defd i j C_def by blast
    then have len: "length bs = B" by (simp add: B_def fromSampleToBitConversion_length)
    have "j * B * C + i * B + length bs \<le> length p"
      using cell_inside [OF i j, of B] assms(3) p len by (simp add: B_def C_def)
    then obtain q where q: "mem_write p (j * B * C + i * B) bs = Some q" by (simp add: mem_write_def)
    have "?f i j p = Some q"
      using assms(1,2) i j bs q by (simp add: get_sample_Some C_def)
    moreover have "length q = length (mAudioInputPacket a)" using mem_write_length [OF q] p by simp
    moreover have "?cell i j q" using bs mem_write_same [OF q] len by simp
    moreover have "?cell i' j' q"
      if "i' < C" "j' < n" "(i', j') \<noteq> (i, j)" "?cell i' j' p" for i' j'
      using that mem_write_other [OF q] cell_disjoint [OF i that(1,3), of B] len by simp
    ultimately show "\<exists>u. ?f i j p = Some u \<and> length u = length (mAudioInputPacket a) \<and> ?cell i j u \<and>
      (\<forall>i' j'. i' < C \<longrightarrow> j' < n \<longrightarrow> (i', j') \<noteq> (i, j) \<longrightarrow> ?cell i' j' p \<longrightarrow> ?cell i' j' u)" by blast
  qed simp
  then show ?thesis
    by (auto simp: computeProcessToNetwork_def Let_def C_def B_def nChansIn_def [symmetric])
qed

lemma extract_cells:
  assumes "has_frames outb C n" and "C = length (mOutputChans b)"
    and B: "B = bit_resolution_code (mBitResolutionMode b)"
    and "n * B * C \<le> length (mAudioOutputPacket b)"
  shows "\<exists>out. extract_channels outb n b = Some out \<and> has_frames out C n \<and>
    (\<forall>i<C. \<forall>j<n. fromBitToSampleConversion (take B (drop (j * B * C + i * B) (mAudioOutputPacket b)))
       (mBitResolutionMode b) = Some (out ! i ! j))"
proof -
  let ?p = "mAudioOutputPacket b"
  let ?f = "\<lambda>i j buf. do {
     bs \<leftarrow> mem_read ?p (j * B * C + i * B) B;
     s \<leftarrow> fromBitToSampleConversion bs (mBitResolutionMode b);
     put_sample buf i j s }"
  let ?cell = "\<lambda>i j out. fromBitToSampleConversion (take B (drop (j * B * C + i * B) ?p))
       (mBitResolutionMode b) = Some (out ! i ! j)"
  have "\<exists>t. iter_opt (\<lambda>i. iter_opt (?f i) [0..<n]) [0..<C] outb = Some t \<and> has_frames t C n \<and>
      (\<forall>i<C. \<forall>j<n. ?cell i j t)"
  proof (rule cells_invariant [where Q = "\<lambda>t. has_frames t C n", OF assms(1)])
    fix i j t assume i: "i < C" and j: "j < n" and t: "has_frames t C n"
    have inside: "j * B * C + i * B + B \<le> length ?p" using cell_inside [OF i j, of B] assms(4) by simp
    then obtain s where s: "fromBitToSampleConversion (take B (drop (j * B * C + i * B) ?p)) (mBitResolutionMode b) = Some s"
      using fromBitToSampleConversion_defined [of "mBitResolutionMode b" "take B (drop (j * B * C + i * B) ?p)"]
      by (auto simp: B)
    obtain u where "put_sample t i j s = Some u" "has_frames u C n" "u ! i ! j = s"
      "\<forall>i' j'. (i', j') \<noteq> (i, j) \<longrightarrow> u ! i' ! j' = t ! i' ! j'"
      using put_sample_frames [OF t i j] by blast
    then show "\<exists>u. ?f i j t = Some u \<and> has_frames u C n \<and> ?cell i j u \<and>
      (\<forall>i' j'. i' < C \<longrightarrow> j' < n \<longrightarrow> (i', j') \<noteq> (i, j) \<longrightarrow> ?cell i' j' t \<longrightarrow> ?cell i' j' u)"
      using s inside by (auto simp: mem_read_def)
  qed
  then show ?thesis using assms(2) B by (simp add: extract_channels_def Let_def)
qed

section \<open>Allocation\<close>

text \<open>What \<open>setup\<close> allocates is large enough for every bit resolution.\<close>

definition int_channels :: "AudioInterface \<Rightarrow> bool" where
  "int_channels a \<longleftrightarrow> length (mInputChans a) < 2147483648 \<and> length (mOutputChans a) < 2147483648"

lemma unat_max_u64: "unat (max a b :: u64) = max (unat a) (unat b)"
  by (simp add: max_def word_le_nat_alt)

lemma setup_sizes:
  assumes "AudioInterface_setup g q a = Some a'"
    and "int_channels a"
  shows "length (mInputChans a) * 4 * unat (mBufferSizeInSamples a) \<le> length (mAudioInputPacket a')"
    and "length (mOutputChans a) * 4 * unat (mBufferSizeInSamples a) \<le> length (mAudioOutputPacket a')"
    and "mInProcessBuffer a' = replicate (length (mInputChans a)) (replicate (unat (mBufferSizeInSamples a)) 0)"
    and "mInputChans a' = mInputChans a" "mOutputChans a' = mOutputChans a"
      "mInputMixMode a' = mInputMixMode a" "mBitResolutionMode a' = mBitResolutionMode a"
      "mBufferSizeInSamples a' = mBufferSizeInSamples a"
proof -
  have nn: "0 \<le> sint (mBufferSizeInSamples a)"
    using assms(1) by (auto simp: AudioInterface_setup_def Let_def split: if_splits)
  then have n: "sint (mBufferSizeInSamples a) = int (unat (mBufferSizeInSamples a))"
    by (rule sint_nonneg_u32)
  have u: "unat (of_nat (k * 4) * of_int (int (unat m)) :: u64) = k * 4 * unat m"
    if "k < 2147483648" and m: "sint m = int (unat m)" for k and m :: u32
  proof -
    have "sint m < 2 ^ 31" using sint_lt [of m] by simp
    then have "int (unat m) < int 2147483648" unfolding m by simp
    then have "unat m < 2147483648" by (simp only: of_nat_less_iff)
    then have "k * 4 * unat m \<le> (2147483647 * 4) * 2147483647"
      using that by (intro mult_le_mono) simp_all
    then have that: "k * 4 * unat m < 18446744073709551616" by simp
    have "(of_nat (k * 4) * of_int (int (unat m)) :: u64) = of_nat (k * 4 * unat m)" by simp
    moreover have "unat (of_nat (k * 4 * unat m) :: u64) = k * 4 * unat m"
      using that by (simp only: unat_of_nat) simp
    ultimately show ?thesis by simp
  qed
  have a': "\<exists>x y. length (mAudioInputPacket a') = max x (length (mInputChans a) * 4 * unat (mBufferSizeInSamples a)) \<and>
    length (mAudioOutputPacket a') = max y (length (mOutputChans a) * 4 * unat (mBufferSizeInSamples a)) \<and>
    mInProcessBuffer a' = replicate (length (mInputChans a)) (replicate (unat (mBufferSizeInSamples a)) 0)"
    using assms(1) nn
    unfolding AudioInterface_setup_def Let_def unat_max_u64 n
      u [OF assms(2) [unfolded int_channels_def, THEN conjunct1] n]
      u [OF assms(2) [unfolded int_channels_def, THEN conjunct2] n]
    by auto
  then show "length (mInputChans a) * 4 * unat (mBufferSizeInSamples a) \<le> length (mAudioInputPacket a')"
    and "length (mOutputChans a) * 4 * unat (mBufferSizeInSamples a) \<le> length (mAudioOutputPacket a')"
    and "mInProcessBuffer a' = replicate (length (mInputChans a)) (replicate (unat (mBufferSizeInSamples a)) 0)"
    by auto
  show "mInputChans a' = mInputChans a" "mOutputChans a' = mOutputChans a"
      "mInputMixMode a' = mInputMixMode a" "mBitResolutionMode a' = mBitResolutionMode a"
      "mBufferSizeInSamples a' = mBufferSizeInSamples a"
    using assms(1) by (auto simp: AudioInterface_setup_def Let_def split: if_splits)
qed

section \<open>Properties\<close>

lemma resolution_at_most_4: "bit_resolution_code res \<le> 4"
  by (cases res) simp_all

lemma setup_process_frames:
  "has_frames (replicate N (replicate n (0 :: sample_t))) N n"
  by (simp add: has_frames_def)

text \<open>
  C32: two audio interfaces that were set up for the same bit resolution, the receiver with as
  many output channels as the sender sends, transport a period of at most
  \<open>mBufferSizeInSamples\<close> frames: interleaving stays inside the packet that \<open>setup\<close> allocated,
  and de-interleaving its first \<open>n_frames * channels * resolution\<close> bytes gives for every channel
  and frame the converted sample of that channel and frame, whatever the packets held before.
\<close>

theorem audio_period_transport:
  assumes tx: "AudioInterface_setup g q a0 = Some a" and rx: "AudioInterface_setup g' q' b0 = Some b"
    and peers: "mBitResolutionMode b0 = mBitResolutionMode a0" "length (mOutputChans b0) = nChansIn a0"
      "mBufferSizeInSamples b0 = mBufferSizeInSamples a0"
    and frames: "n \<le> unat (mBufferSizeInSamples a0)"
    and chans: "int_channels a0" "int_channels b0" "nChansIn a0 \<le> length (mInputChans a0)"
    and inb: "has_frames inb (nChansIn a0) n" and outb: "has_frames outb (nChansIn a0) n"
    and defd: "\<And>i j. i < nChansIn a0 \<Longrightarrow> j < n \<Longrightarrow>
      \<exists>bs. fromSampleToBitConversion (float_add (inb ! i ! j) 0) (mBitResolutionMode a0) = Some bs"
  shows "\<exists>a' out b'. computeProcessToNetwork inb n a = Some a' \<and>
    computeProcessFromNetwork (take (n * bit_resolution_code (mBitResolutionMode a0) * nChansIn a0) (mAudioInputPacket a'))
      outb n b = Some (out, b') \<and>
    (\<forall>i<nChansIn a0. \<forall>j<n. \<exists>bs.
       fromSampleToBitConversion (float_add (inb ! i ! j) 0) (mBitResolutionMode a0) = Some bs \<and>
       fromBitToSampleConversion bs (mBitResolutionMode a0) = Some (out ! i ! j))"
proof -
  define B where "B = bit_resolution_code (mBitResolutionMode a0)"
  define C where "C = nChansIn a0"
  define conv where "conv x = fromSampleToBitConversion (float_add x 0) (mBitResolutionMode a0)" for x
  have a: "nChansIn a = C" "mBitResolutionMode a = mBitResolutionMode a0"
    using setup_sizes(4,6,7) [OF tx chans(1)] by (simp_all add: nChansIn_def C_def)
  have b: "length (mOutputChans b) = C" "mBitResolutionMode b = mBitResolutionMode a0"
    using setup_sizes(5,7) [OF rx chans(2)] peers by (simp_all add: C_def)
  have "n * B * C \<le> unat (mBufferSizeInSamples a0) * 4 * C"
    using frames resolution_at_most_4 by (intro mult_le_mono) (simp_all add: B_def)
  then have need: "n * B * C \<le> C * 4 * unat (mBufferSizeInSamples a0)" by (simp add: ac_simps)
  note need
  also have "\<dots> \<le> length (mInputChans a0) * 4 * unat (mBufferSizeInSamples a0)"
    using chans(3) by (simp add: C_def)
  finally have room_a: "n * B * C \<le> length (mAudioInputPacket a)"
    using setup_sizes(1) [OF tx chans(1)] by simp
  have room_b: "n * B * C \<le> length (mAudioOutputPacket b)"
    using order_trans [OF need] setup_sizes(2) [OF rx chans(2)] peers(2,3) by (simp only: C_def)
  have zeros: "mInProcessBuffer a =
      replicate (length (mInputChans a0)) (replicate (unat (mBufferSizeInSamples a0)) 0)"
    by (rule setup_sizes(3) [OF tx chans(1)])
  then have z: "mInProcessBuffer a ! i ! j = 0" if "i < C" "j < n" for i j
    using that chans(3) frames by (simp add: C_def)
  have "has_frames (mInProcessBuffer a) C n"
    using chans(3) frames by (simp add: zeros has_frames_def C_def)
  then obtain p where p: "computeProcessToNetwork inb n a = Some (a\<lparr>mAudioInputPacket := p\<rparr>)"
      "length p = length (mAudioInputPacket a)"
    and enc: "\<And>i j. i < C \<Longrightarrow> j < n \<Longrightarrow> conv (inb ! i ! j) = Some (take B (drop (j * B * C + i * B) p))"
    using to_network_cells [of inb a n] inb room_a defd z
    unfolding a B_def [symmetric] C_def [symmetric] conv_def by auto
  define w where "w = take (n * B * C) p"
  define b1 where "b1 = b\<lparr>mAudioOutputPacket := w @ drop (length w) (mAudioOutputPacket b)\<rparr>"
  have w: "mem_write (mAudioOutputPacket b) 0 w = Some (mAudioOutputPacket b1)"
    using room_a room_b p(2) by (simp add: mem_write_def w_def b1_def)
  have "n * B * C \<le> length (mAudioOutputPacket b1)" "length (mOutputChans b1) = C"
      "mBitResolutionMode b1 = mBitResolutionMode a0"
    using mem_write_length [OF w] room_b b by (simp_all add: b1_def)
  then obtain out where out: "extract_channels outb n b1 = Some out"
    and dec: "\<And>i j. i < C \<Longrightarrow> j < n \<Longrightarrow> fromBitToSampleConversion
      (take B (drop (j * B * C + i * B) (mAudioOutputPacket b1))) (mBitResolutionMode a0) = Some (out ! i ! j)"
    using extract_cells [of outb C n b1 B] outb by (auto simp: C_def B_def)
  have same: "take B (drop (j * B * C + i * B) (mAudioOutputPacket b1)) = take B (drop (j * B * C + i * B) p)"
    if "i < C" "j < n" for i j
    using cell_inside [OF that, of B] room_a p(2) by (simp add: b1_def w_def drop_take)
  have "computeProcessFromNetwork w outb n b = Some (out, b1)"
    using w out by (simp add: computeProcessFromNetwork_def b1_def)
  moreover have "\<forall>i<C. \<forall>j<n. \<exists>bs. conv (inb ! i ! j) = Some bs \<and>
      fromBitToSampleConversion bs (mBitResolutionMode a0) = Some (out ! i ! j)"
    using enc dec same by auto
  ultimately show ?thesis
    using p(1) by (auto simp: w_def conv_def B_def C_def)
qed

text \<open>Constant inputs of one mono frame, as a concrete period.\<close>

definition mono_interface :: AudioInterface where
  "mono_interface = AudioInterface_new 0 False [0] [0] MONO BIT16 False"

theorem audio_period_transport_witness:
  "\<exists>a a' out b'. AudioInterface_setup (\<lambda>_. 0) (\<lambda>_ _. 0) mono_interface = Some a \<and>
     computeProcessToNetwork [[0x3F000000, 0xBF000000]] 2 a = Some a' \<and>
     computeProcessFromNetwork (take (2 * 2 * 1) (mAudioInputPacket a')) [[0, 0]] 2 a = Some (out, b')"
proof -
  let ?m = mono_interface
  have m: "mBitResolutionMode ?m = BIT16" "nChansIn ?m = 1" "mBufferSizeInSamples ?m = 128"
      "mInputChans ?m = [0]" "mOutputChans ?m = [0]"
    by (simp_all add: mono_interface_def AudioInterface_new_def nChansIn_def gDefaultBufferSizeInSamples_def)
  have "0 \<le> sint (mBufferSizeInSamples ?m)" by (simp add: m)
  then obtain a where a: "AudioInterface_setup (\<lambda>_. 0) (\<lambda>_ _. 0) ?m = Some a"
    by (auto simp: AudioInterface_setup_def Let_def)
  have f: "has_frames [[0x3F000000, 0xBF000000 :: sample_t]] 1 2" "has_frames [[0, 0 :: sample_t]] 1 2"
    by (simp_all add: has_frames_def)
  have "\<exists>bs. fromSampleToBitConversion x BIT16 = Some bs" for x by (simp add: fromSampleToBitConversion_def)
  then have "\<exists>a' out b'. computeProcessToNetwork [[0x3F000000, 0xBF000000]] 2 a = Some a' \<and>
     computeProcessFromNetwork (take (2 * bit_resolution_code (mBitResolutionMode ?m) * nChansIn ?m)
       (mAudioInputPacket a')) [[0, 0]] 2 a = Some (out, b')"
    using audio_period_transport [OF a a, of 2 "[[0x3F000000, 0xBF000000]]" "[[0, 0]]"] f
    by (fastforce simp: m int_channels_def)
  then show ?thesis using a by (auto simp: m)
qed

text \<open>
  \<open>getSampleRateType\<close> recovers every sample rate that \<open>getSampleRateFromType\<close> names, except
  192 kHz, which it does not recognise; it takes 19200 Hz for it instead.
\<close>

lemma sample_rate_types:
  "list_all (\<lambda>t. getSampleRateType (of_int (getSampleRateFromType t)) = Some t)
     [SR22, SR32, SR44, SR48, SR88, SR96, UNDEF] \<and>
   getSampleRateType (of_int (getSampleRateFromType SR192)) = Some UNDEF \<and>
   getSampleRateType 19200 = Some SR192"
  by (simp add: getSampleRateType_def near_rate_def int32_range_def checked_int_def)
end
