(* ===== verification/PacketHeader.thy ===== *)
theory PacketHeader
  imports AudioInterface
begin

text \<open>
  The packet headers (\<open>src/PacketHeader.h\<close>, \<open>src/PacketHeader.cpp\<close>) and the functions of
  \<open>src/JackTrip.h\<close> and \<open>src/JackTrip.cpp\<close> that put them before the audio and read them from a
  received packet.  The structs have no padding and are little-endian in memory, as on every
  platform JackTrip supports: the default header takes 16 bytes, the JamLink header 8.  A virtual
  function is a case distinction on the class of the header.
\<close>

section \<open>Header structs\<close>

record DefaultHeaderStruct =
  TimeStamp :: u64
  SeqNumber :: u16
  BufferSize :: u16
  SamplingRate :: u8
  BitResolution :: u8
  NumIncomingChannelsFromNet :: u8
  NumOutgoingChannelsToNet :: u8

record JamLinkHeaderStuct =
  jlCommon :: u16
  jlSeqNumber :: u16
  jlTimeStamp :: u32

definition default_struct_bytes :: "DefaultHeaderStruct \<Rightarrow> bytes" where
  "default_struct_bytes h = le_bytes 8 (unat (TimeStamp h)) @ le_bytes 2 (unat (SeqNumber h)) @
     le_bytes 2 (unat (BufferSize h)) @ [SamplingRate h, BitResolution h,
     NumIncomingChannelsFromNet h, NumOutgoingChannelsToNet h]"

definition jamlink_struct_bytes :: "JamLinkHeaderStuct \<Rightarrow> bytes" where
  "jamlink_struct_bytes h = le_bytes 2 (unat (jlCommon h)) @ le_bytes 2 (unat (jlSeqNumber h)) @
     le_bytes 4 (unat (jlTimeStamp h))"

definition ETX_XTND :: u16 where "ETX_XTND = push_bit 14 1"
definition ETX_MONO :: u16 where "ETX_MONO = push_bit 13 0"
definition ETX_16BIT :: u16 where "ETX_16BIT = push_bit 12 0"
definition ETX_48KHZ :: u16 where "ETX_48KHZ = push_bit 9 0"
definition ETX_44KHZ :: u16 where "ETX_44KHZ = push_bit 9 1"
definition ETX_32KHZ :: u16 where "ETX_32KHZ = push_bit 9 2"
definition ETX_22KHZ :: u16 where "ETX_22KHZ = push_bit 9 4"

definition gMaxBufferSizeInSamples :: u16 where "gMaxBufferSizeInSamples = 4096"
definition gMaxAudioChannels :: u8 where "gMaxAudioChannels = 128"

section \<open>Header objects\<close>

record PacketHeaderBase =
  mBufferRequiresSameSettings :: bool
  mSeqNumber :: u16

datatype PacketHeader =
    DefaultHeader PacketHeaderBase DefaultHeaderStruct
  | JamLinkHeader PacketHeaderBase JamLinkHeaderStuct
  | EmptyHeader PacketHeaderBase

definition PacketHeader_new :: PacketHeaderBase where
  "PacketHeader_new = \<lparr>mBufferRequiresSameSettings = False, mSeqNumber = 0\<rparr>"

definition DefaultHeader_new :: PacketHeader where
  "DefaultHeader_new = DefaultHeader PacketHeader_new
     \<lparr>TimeStamp = 0, SeqNumber = 0, BufferSize = 0, SamplingRate = 0, BitResolution = 0,
      NumIncomingChannelsFromNet = 0, NumOutgoingChannelsToNet = 0\<rparr>"

definition JamLinkHeader_new :: PacketHeader where
  "JamLinkHeader_new = JamLinkHeader PacketHeader_new \<lparr>jlCommon = 0, jlSeqNumber = 0, jlTimeStamp = 0\<rparr>"

definition EmptyHeader_new :: PacketHeader where
  "EmptyHeader_new = EmptyHeader PacketHeader_new"

datatype packetHeaderTypeT = DEFAULT | JAMLINK | EMPTY

fun createHeader :: "packetHeaderTypeT \<Rightarrow> PacketHeader" where
  "createHeader DEFAULT = DefaultHeader_new"
| "createHeader JAMLINK = JamLinkHeader_new"
| "createHeader EMPTY = EmptyHeader_new"

text \<open>The part of the mediator \<open>JackTrip\<close> that the headers and the packet sizes depend on.\<close>

record JackTrip =
  mNumAudioChansIn :: int
  mNumAudioChansOut :: int
  mAudioBufferSize :: u32
  jtAudioBitResolution :: audioBitResolutionT
  mAudioInterface :: AudioInterface
  mPacketHeader :: PacketHeader

definition getBufferSizeInSamples :: "JackTrip \<Rightarrow> u32" where
  "getBufferSizeInSamples jt = mAudioBufferSize jt"

definition getAudioBitResolution :: "JackTrip \<Rightarrow> u8" where
  "getAudioBitResolution jt = of_nat (bit_resolution_code (jtAudioBitResolution jt) * 8)"

definition getNumInputChannels :: "JackTrip \<Rightarrow> u32" where
  "getNumInputChannels jt = of_int (mNumAudioChansIn jt)"

definition getNumOutputChannels :: "JackTrip \<Rightarrow> u32" where
  "getNumOutputChannels jt = of_int (mNumAudioChansOut jt)"

text \<open>The time of day as \<open>gettimeofday\<close> returns it; the sum is a 64-bit \<open>long\<close>.\<close>

definition usecTime :: "int \<Rightarrow> int \<Rightarrow> u64 option" where
  "usecTime tv_sec tv_usec =
     (if \<bar>tv_sec * 1000000\<bar> < 2 ^ 63 \<and> \<bar>tv_sec * 1000000 + tv_usec\<bar> < 2 ^ 63
      then Some (of_int (tv_sec * 1000000 + tv_usec)) else None)"

fun rate_code :: "samplingRateT \<Rightarrow> nat" where
  "rate_code SR22 = 0"
| "rate_code SR32 = 1"
| "rate_code SR44 = 2"
| "rate_code SR48 = 3"
| "rate_code SR88 = 4"
| "rate_code SR96 = 5"
| "rate_code SR192 = 6"
| "rate_code UNDEF = 7"

section \<open>Filling a header\<close>

definition DefaultHeader_fill :: "u64 \<Rightarrow> JackTrip \<Rightarrow> DefaultHeaderStruct \<Rightarrow> DefaultHeaderStruct option" where
  "DefaultHeader_fill now jt h = do {
     rate \<leftarrow> getSampleRateType (mSampleRate (mAudioInterface jt));
     let nin = getNumInputChannels jt;
     let nout = getNumOutputChannels jt;
     Some (h\<lparr>TimeStamp := now,
       BufferSize := ucast (getBufferSizeInSamples jt),
       SamplingRate := of_nat (rate_code rate),
       BitResolution := getAudioBitResolution jt,
       NumIncomingChannelsFromNet := ucast nout,
       NumOutgoingChannelsToNet := (if nin = nout then 0 else if nin = 0 then 255 else ucast nin)\<rparr>)
   }"

text \<open>The JamLink header: the fields and the errors signalled on the way.\<close>

definition JamLinkHeader_fill :: "JackTrip \<Rightarrow> JamLinkHeaderStuct \<Rightarrow> (JamLinkHeaderStuct \<times> string list) option" where
  "JamLinkHeader_fill jt h = do {
     rate_type \<leftarrow> getSampleRateType (mSampleRate (mAudioInterface jt));
     let base = (ETX_MONO OR ETX_16BIT OR ETX_XTND) + 64;
     let errors =
       (if sint (getNumInputChannels jt) \<noteq> 1
        then [''JamLink only supports ONE channel. Run JackTrip using only one channel''] else []) @
       (if rate_type \<noteq> SR48
        then [''JamLink only supports 48kHz for communication with JackTrip '' @ ''at the moment.''] else []) @
       (if sint (getBufferSizeInSamples jt) \<noteq> 64
        then [''JamLink only supports a buffer size of 64 for communication with JackTrip '' @ ''at the moment.'']
        else []);
     Some (case rate_type of
         SR48 \<Rightarrow> (h\<lparr>jlCommon := base OR ETX_48KHZ\<rparr>, errors)
       | SR44 \<Rightarrow> (h\<lparr>jlCommon := base OR ETX_44KHZ\<rparr>, errors)
       | SR32 \<Rightarrow> (h\<lparr>jlCommon := base OR ETX_32KHZ\<rparr>, errors)
       | SR22 \<Rightarrow> (h\<lparr>jlCommon := base OR ETX_22KHZ\<rparr>, errors)
       | _ \<Rightarrow> (h\<lparr>jlCommon := base\<rparr>, errors @ [''Sample rate not supported by JamLink.'']))
   }"

fun fillHeaderCommonFromAudio :: "u64 \<Rightarrow> JackTrip \<Rightarrow> PacketHeader \<Rightarrow> (PacketHeader \<times> string list) option" where
  "fillHeaderCommonFromAudio now jt (DefaultHeader b h) =
     map_option (\<lambda>h. (DefaultHeader b h, [])) (DefaultHeader_fill now jt h)"
| "fillHeaderCommonFromAudio now jt (JamLinkHeader b h) =
     map_option (\<lambda>(h, errors). (JamLinkHeader b h, errors)) (JamLinkHeader_fill jt h)"
| "fillHeaderCommonFromAudio now jt (EmptyHeader b) = Some (EmptyHeader b, [])"

section \<open>Sequence numbers and sizes\<close>

fun increaseSequenceNumber :: "PacketHeader \<Rightarrow> PacketHeader" where
  "increaseSequenceNumber (DefaultHeader b h) = DefaultHeader b (h\<lparr>SeqNumber := SeqNumber h + 1\<rparr>)"
| "increaseSequenceNumber (JamLinkHeader b h) = JamLinkHeader b h"
| "increaseSequenceNumber (EmptyHeader b) = EmptyHeader b"

fun getSequenceNumber :: "PacketHeader \<Rightarrow> u16" where
  "getSequenceNumber (DefaultHeader b h) = SeqNumber h"
| "getSequenceNumber (JamLinkHeader b h) = mSeqNumber b"
| "getSequenceNumber (EmptyHeader b) = mSeqNumber b"

fun getHeaderSizeInBytes :: "PacketHeader \<Rightarrow> nat" where
  "getHeaderSizeInBytes (DefaultHeader b h) = 16"
| "getHeaderSizeInBytes (JamLinkHeader b h) = 8"
| "getHeaderSizeInBytes (EmptyHeader b) = 0"

definition setBufferRequiresSameSettings :: "bool \<Rightarrow> PacketHeader \<Rightarrow> PacketHeader" where
  "setBufferRequiresSameSettings same p =
     (case p of
        DefaultHeader b h \<Rightarrow> DefaultHeader (b\<lparr>mBufferRequiresSameSettings := same\<rparr>) h
      | JamLinkHeader b h \<Rightarrow> JamLinkHeader (b\<lparr>mBufferRequiresSameSettings := same\<rparr>) h
      | EmptyHeader b \<Rightarrow> EmptyHeader (b\<lparr>mBufferRequiresSameSettings := same\<rparr>))"

fun header_bytes :: "PacketHeader \<Rightarrow> bytes" where
  "header_bytes (DefaultHeader b h) = default_struct_bytes h"
| "header_bytes (JamLinkHeader b h) = jamlink_struct_bytes h"
| "header_bytes (EmptyHeader b) = []"

definition putHeaderInPacket :: "PacketHeader \<Rightarrow> bytes \<Rightarrow> bytes option" where
  "putHeaderInPacket p full_packet = mem_write full_packet 0 (header_bytes p)"

section \<open>Reading the peer's header\<close>

text \<open>The fields at position \<open>pos\<close> of a buffer; the classes without a peer header return 0.\<close>

definition read_le :: "bytes \<Rightarrow> nat \<Rightarrow> nat \<Rightarrow> nat option" where
  "read_le buf pos n = map_option of_le_bytes (mem_read buf pos n)"

definition peer_field :: "PacketHeader \<Rightarrow> bytes \<Rightarrow> nat \<Rightarrow> nat \<Rightarrow> ('a::len) word option" where
  "peer_field p buf pos n =
     (case p of DefaultHeader _ _ \<Rightarrow> map_option of_nat (read_le buf pos n) | _ \<Rightarrow> Some 0)"

definition getPeerTimeStamp :: "PacketHeader \<Rightarrow> bytes \<Rightarrow> nat \<Rightarrow> u64 option" where
  "getPeerTimeStamp p buf pos = peer_field p buf pos 8"

definition getPeerSequenceNumber :: "PacketHeader \<Rightarrow> bytes \<Rightarrow> nat \<Rightarrow> u16 option" where
  "getPeerSequenceNumber p buf pos = peer_field p buf (pos + 8) 2"

definition getPeerBufferSize :: "PacketHeader \<Rightarrow> bytes \<Rightarrow> nat \<Rightarrow> u16 option" where
  "getPeerBufferSize p buf pos = peer_field p buf (pos + 10) 2"

definition getPeerSamplingRate :: "PacketHeader \<Rightarrow> bytes \<Rightarrow> nat \<Rightarrow> u8 option" where
  "getPeerSamplingRate p buf pos = peer_field p buf (pos + 12) 1"

definition getPeerBitResolution :: "PacketHeader \<Rightarrow> bytes \<Rightarrow> nat \<Rightarrow> u8 option" where
  "getPeerBitResolution p buf pos = peer_field p buf (pos + 13) 1"

definition getPeerNumIncomingChannels :: "PacketHeader \<Rightarrow> bytes \<Rightarrow> nat \<Rightarrow> u8 option" where
  "getPeerNumIncomingChannels p buf pos = peer_field p buf (pos + 14) 1"

definition header_NumOutgoingChannels :: "PacketHeader \<Rightarrow> bytes \<Rightarrow> nat \<Rightarrow> u8 option" where
  "header_NumOutgoingChannels p buf pos = peer_field p buf (pos + 15) 1"

text \<open>\<open>JackTrip::getPeerNumOutgoingChannels\<close> decodes 0 as the number of incoming channels.\<close>

definition getPeerNumOutgoingChannels :: "PacketHeader \<Rightarrow> bytes \<Rightarrow> nat \<Rightarrow> u8 option" where
  "getPeerNumOutgoingChannels p buf pos = do {
     n \<leftarrow> header_NumOutgoingChannels p buf pos;
     if n = 0 then getPeerNumIncomingChannels p buf pos else header_NumOutgoingChannels p buf pos
   }"

text \<open>
  \<open>checkPeerSettings\<close>: whether the settings agree, and the mismatches in the order of the report
  that is signalled when they do not, with the numbers it prints.  A sampling rate code
  that is no value of the enumeration is undefined.
\<close>

datatype settings_mismatch =
    PeerBufferSize nat nat
  | PeerSamplingRate int int
  | PeerBitResolution nat nat

definition rate_of_code :: "u8 \<Rightarrow> samplingRateT option" where
  "rate_of_code c = (if unat c < 8
     then Some ([SR22, SR32, SR44, SR48, SR88, SR96, SR192, UNDEF] ! unat c) else None)"

definition checkPeerSettings :: "PacketHeader \<Rightarrow> bytes \<Rightarrow> (bool \<times> settings_mismatch list) option" where
  "checkPeerSettings p full_packet =
     (case p of
        DefaultHeader b h \<Rightarrow> do {
          size \<leftarrow> getPeerBufferSize p full_packet 0;
          rate \<leftarrow> getPeerSamplingRate p full_packet 0;
          res \<leftarrow> getPeerBitResolution p full_packet 0;
          let report1 = (if size \<noteq> BufferSize h \<and> mBufferRequiresSameSettings b
            then [PeerBufferSize (unat size) (unat (BufferSize h))] else []);
          report2 \<leftarrow> (if rate \<noteq> SamplingRate h
            then do {
              peerRate \<leftarrow> rate_of_code rate;
              localRate \<leftarrow> rate_of_code (SamplingRate h);
              Some [PeerSamplingRate (getSampleRateFromType peerRate) (getSampleRateFromType localRate)]
            } else Some []);
          let report3 = (if res \<noteq> BitResolution h
            then [PeerBitResolution (unat res) (unat (BitResolution h))] else []);
          let report = report1 @ report2 @ report3;
          Some (report = [], report)
        }
      | _ \<Rightarrow> Some (True, []))"

definition effective_chans :: "u8 \<Rightarrow> u8 \<Rightarrow> u8" where
  "effective_chans incoming outgoing =
     (if outgoing = 0 then incoming else if outgoing = 255 then 0 else outgoing)"

definition validatePeerHeader :: "PacketHeader \<Rightarrow> bytes \<Rightarrow> int \<Rightarrow> bool option" where
  "validatePeerHeader p full_packet received_bytes =
     (case p of
        DefaultHeader b h \<Rightarrow>
          if received_bytes < 16 then Some False
          else do {
            size \<leftarrow> getPeerBufferSize p full_packet 0;
            if size = 0 \<or> gMaxBufferSizeInSamples < size then Some False
            else do {
              incoming \<leftarrow> getPeerNumIncomingChannels p full_packet 0;
              if incoming = 0 \<or> gMaxAudioChannels < incoming then Some False
              else do {
                outgoing \<leftarrow> header_NumOutgoingChannels p full_packet 0;
                if outgoing \<noteq> 0 \<and> outgoing \<noteq> 255 \<and> gMaxAudioChannels < outgoing then Some False
                else do {
                  br \<leftarrow> getPeerBitResolution p full_packet 0;
                  if br \<noteq> 8 \<and> br \<noteq> 16 \<and> br \<noteq> 24 \<and> br \<noteq> 32 then Some False
                  else do {
                    product \<leftarrow> checked_int (int (unat size) * int (unat (effective_chans incoming outgoing)));
                    expected_audio_bytes \<leftarrow> checked_int (product * (int (unat br) div 8));
                    min_packet_size \<leftarrow> checked_int (16 + expected_audio_bytes);
                    Some (\<not> received_bytes < min_packet_size)
                  } } } } }
      | _ \<Rightarrow> Some True)"

section \<open>Packets with header and audio\<close>

text \<open>The cast of \<open>size_t\<close> to \<open>int\<close> keeps the low 32 bits.\<close>

definition int_of_size :: "u64 \<Rightarrow> int" where
  "int_of_size s = sint (ucast s :: u32)"

definition getTotalAudioInputPacketSizeInBytes :: "JackTrip \<Rightarrow> int option" where
  "getTotalAudioInputPacketSizeInBytes jt =
     checked_int (int_of_size (getSizeInBytesPerChannel (mAudioInterface jt)) * mNumAudioChansIn jt)"

definition getTotalAudioOutputPacketSizeInBytes :: "JackTrip \<Rightarrow> int option" where
  "getTotalAudioOutputPacketSizeInBytes jt =
     checked_int (int_of_size (getSizeInBytesPerChannel (mAudioInterface jt)) * mNumAudioChansOut jt)"

definition getSendPacketSizeInBytes :: "JackTrip \<Rightarrow> int option" where
  "getSendPacketSizeInBytes jt = do {
     audio \<leftarrow> getTotalAudioInputPacketSizeInBytes jt;
     checked_int (audio + int (getHeaderSizeInBytes (mPacketHeader jt)))
   }"

definition getReceivePacketSizeInBytes :: "JackTrip \<Rightarrow> int option" where
  "getReceivePacketSizeInBytes jt = do {
     audio \<leftarrow> getTotalAudioOutputPacketSizeInBytes jt;
     checked_int (audio + int (getHeaderSizeInBytes (mPacketHeader jt)))
   }"

text \<open>The new packet and mediator, and the errors signalled; the audio is \<open>None\<close> for a null pointer.\<close>

definition put_header_and_audio :: "(JackTrip \<Rightarrow> int option) \<Rightarrow> u64 \<Rightarrow> JackTrip \<Rightarrow> bytes \<Rightarrow> bytes option \<Rightarrow>
    (JackTrip \<times> bytes \<times> string list) option" where
  "put_header_and_audio audio_size now jt full_packet audio_packet = do {
     (p, errors) \<leftarrow> fillHeaderCommonFromAudio now jt (mPacketHeader jt);
     let jt = jt\<lparr>mPacketHeader := p\<rparr>;
     full \<leftarrow> putHeaderInPacket p full_packet;
     (case audio_packet of
        None \<Rightarrow> Some (jt, full, errors)
      | Some audio \<Rightarrow> do {
          size \<leftarrow> audio_size jt;
          n \<leftarrow> byte_count size;
          bs \<leftarrow> mem_read audio 0 n;
          full \<leftarrow> mem_write full (getHeaderSizeInBytes p) bs;
          Some (jt, full, errors)
        })
   }"

definition putHeaderInIncomingPacket :: "u64 \<Rightarrow> JackTrip \<Rightarrow> bytes \<Rightarrow> bytes option \<Rightarrow> (JackTrip \<times> bytes \<times> string list) option" where
  "putHeaderInIncomingPacket = put_header_and_audio getTotalAudioOutputPacketSizeInBytes"

definition putHeaderInOutgoingPacket :: "u64 \<Rightarrow> JackTrip \<Rightarrow> bytes \<Rightarrow> bytes option \<Rightarrow> (JackTrip \<times> bytes \<times> string list) option" where
  "putHeaderInOutgoingPacket = put_header_and_audio getTotalAudioInputPacketSizeInBytes"


section \<open>Headers in front of audio\<close>

text \<open>What a client of the headers relies on: a header occupies the bytes it says it does.\<close>

locale packet_header =
  fixes hbytes :: "'p \<Rightarrow> bytes" and hsize :: "'p \<Rightarrow> nat"
  assumes bytes_size: "length (hbytes p) = hsize p"
begin

lemma put_header: "hsize p \<le> length full \<Longrightarrow> mem_write full 0 (hbytes p) = Some (hbytes p @ drop (hsize p) full)"
  by (simp add: mem_write_def bytes_size add.commute)

lemma put_audio:
  "hsize p + length bs \<le> length full \<Longrightarrow>
     mem_write (hbytes p @ drop (hsize p) full) (hsize p) bs =
       Some (hbytes p @ bs @ drop (hsize p + length bs) full)"
  by (simp add: mem_write_def bytes_size add.commute)

end

interpretation hdr: packet_header header_bytes getHeaderSizeInBytes
proof unfold_locales
  show "length (header_bytes p) = getHeaderSizeInBytes p" for p
    by (cases p) (simp_all add: default_struct_bytes_def jamlink_struct_bytes_def)
qed

lemma put_header_and_audio_Some:
  assumes "fillHeaderCommonFromAudio now jt (mPacketHeader jt) = Some (p, errors)"
    and "audio_size (jt\<lparr>mPacketHeader := p\<rparr>) = Some (int n)" and "n \<le> length audio"
    and "getHeaderSizeInBytes p + n \<le> length full"
  shows "put_header_and_audio audio_size now jt full (Some audio) =
    Some (jt\<lparr>mPacketHeader := p\<rparr>, header_bytes p @ take n audio @ drop (getHeaderSizeInBytes p + n) full, errors)"
  using assms hdr.put_header [of p full] hdr.put_audio [of p "take n audio" full]
  by (simp add: put_header_and_audio_def putHeaderInPacket_def mem_read_def)

lemma fill_keeps_size:
  "fillHeaderCommonFromAudio now jt p = Some (p', errors) \<Longrightarrow> getHeaderSizeInBytes p' = getHeaderSizeInBytes p"
  by (cases p) (auto split: prod.splits)

section \<open>Reading what was written\<close>

lemma of_le_bytes_word:
  fixes w :: "'a::len word"
  shows "LENGTH('a) = 8 * n \<Longrightarrow> of_nat (of_le_bytes (le_bytes n (unat w))) = w"
proof -
  assume "LENGTH('a) = 8 * n"
  then have "(256 :: nat) ^ n = 2 ^ LENGTH('a)" by (simp add: power_mult)
  then have "unat w < 256 ^ n" using unsigned_less [of w] by simp
  then show ?thesis by (simp add: of_le_bytes_le_bytes)
qed

lemma peer_field_at:
  assumes "take 16 (drop pos buf) = default_struct_bytes h" and "k + n \<le> 16"
  shows "peer_field (DefaultHeader b h') buf (pos + k) n =
    Some (of_nat (of_le_bytes (take n (drop k (default_struct_bytes h)))))"
proof -
  have "length (take 16 (drop pos buf)) = 16"
    unfolding assms(1) by (simp add: default_struct_bytes_def)
  then have "pos + 16 \<le> length buf" by simp
  moreover have "take n (drop k (take 16 (drop pos buf))) = take n (drop (pos + k) buf)"
    using assms(2) by (simp add: drop_take ac_simps min_def)
  ultimately show ?thesis
    using assms by (simp add: peer_field_def read_le_def mem_read_def)
qed

lemma peer_fields:
  assumes "take 16 (drop pos buf) = default_struct_bytes h"
  shows "getPeerTimeStamp (DefaultHeader b h') buf pos = Some (TimeStamp h)"
    and "getPeerSequenceNumber (DefaultHeader b h') buf pos = Some (SeqNumber h)"
    and "getPeerBufferSize (DefaultHeader b h') buf pos = Some (BufferSize h)"
    and "getPeerSamplingRate (DefaultHeader b h') buf pos = Some (SamplingRate h)"
    and "getPeerBitResolution (DefaultHeader b h') buf pos = Some (BitResolution h)"
    and "getPeerNumIncomingChannels (DefaultHeader b h') buf pos = Some (NumIncomingChannelsFromNet h)"
    and "header_NumOutgoingChannels (DefaultHeader b h') buf pos = Some (NumOutgoingChannelsToNet h)"
  by (simp_all add: getPeerTimeStamp_def getPeerSequenceNumber_def getPeerBufferSize_def
    getPeerSamplingRate_def getPeerBitResolution_def getPeerNumIncomingChannels_def
    header_NumOutgoingChannels_def peer_field_at [OF assms] peer_field_at [OF assms, of 0, simplified]
    peer_field_at [OF assms, of _ "Suc 0"] default_struct_bytes_def of_le_bytes_word)

text \<open>The fields of any buffer with room for a header are some numbers.\<close>

lemma peer_field_defined: "pos + n \<le> length buf \<Longrightarrow> \<exists>v. peer_field p buf pos n = Some v"
  by (cases p) (auto simp: peer_field_def read_le_def mem_read_def)

section \<open>Validation\<close>

lemma payload_bound:
  fixes N c br :: nat
  assumes "N \<le> 4096" and "c \<le> 255" and "br \<le> 32"
  shows "N * c \<le> 1044480" and "N * c * (br div 8) \<le> 4177920"
proof -
  show nc: "N * c \<le> 1044480" using mult_le_mono [OF assms(1,2)] by simp
  have "br div 8 \<le> 4" using assms(3) by simp
  then show "N * c * (br div 8) \<le> 4177920" using mult_le_mono [OF nc] by fastforce
qed

definition payload :: "u16 \<Rightarrow> u8 \<Rightarrow> u8 \<Rightarrow> u8 \<Rightarrow> nat" where
  "payload bsize incoming outgoing br =
     unat bsize * unat (effective_chans incoming outgoing) * (unat br div 8)"

lemma validate_sizes:
  assumes "bsize \<le> gMaxBufferSizeInSamples" and "br = 8 \<or> br = 16 \<or> br = 24 \<or> br = 32"
  shows "checked_int (int (unat bsize) * int (unat (effective_chans incoming outgoing))) =
      Some (int (unat bsize * unat (effective_chans incoming outgoing)))"
    and "checked_int (int (unat bsize * unat (effective_chans incoming outgoing)) * (int (unat br) div 8)) =
      Some (int (payload bsize incoming outgoing br))"
    and "checked_int (16 + int (payload bsize incoming outgoing br)) = Some (16 + int (payload bsize incoming outgoing br))"
proof -
  let ?c = "unat (effective_chans incoming outgoing)"
  have N: "unat bsize \<le> 4096" using assms(1) by (simp add: word_le_nat_alt gMaxBufferSizeInSamples_def)
  have c: "?c \<le> 255" using unat_u8_less [of "effective_chans incoming outgoing"] by linarith
  have br: "unat br \<le> 32" using assms(2) by auto
  note b = payload_bound [OF N c br]
  have "int (unat bsize) * int ?c = int (unat bsize * ?c)" by (simp del: of_nat_unat)
  then show "checked_int (int (unat bsize) * int ?c) = Some (int (unat bsize * ?c))"
    using b(1) by (simp add: int32_range_def del: of_nat_unat of_nat_mult)
  have "int (unat bsize * ?c) * (int (unat br) div 8) = int (payload bsize incoming outgoing br)"
    by (simp add: payload_def zdiv_int del: of_nat_unat)
  then show "checked_int (int (unat bsize * ?c) * (int (unat br) div 8)) = Some (int (payload bsize incoming outgoing br))"
    using b(2) by (simp add: int32_range_def payload_def del: of_nat_unat of_nat_mult)
  show "checked_int (16 + int (payload bsize incoming outgoing br)) = Some (16 + int (payload bsize incoming outgoing br))"
    using b(2) by (simp add: int32_range_def payload_def del: of_nat_unat of_nat_mult)
qed

text \<open>The fields a header is accepted with.\<close>

definition sane_fields :: "u16 \<Rightarrow> u8 \<Rightarrow> u8 \<Rightarrow> u8 \<Rightarrow> bool" where
  "sane_fields bsize incoming outgoing br \<longleftrightarrow>
     0 < bsize \<and> bsize \<le> gMaxBufferSizeInSamples \<and> 0 < incoming \<and> incoming \<le> gMaxAudioChannels \<and>
     (outgoing = 0 \<or> outgoing = 255 \<or> outgoing \<le> gMaxAudioChannels) \<and>
     (br = 8 \<or> br = 16 \<or> br = 24 \<or> br = 32)"

lemma validate_eq:
  assumes "getPeerBufferSize (DefaultHeader b h) buf 0 = Some bsize"
    and "getPeerNumIncomingChannels (DefaultHeader b h) buf 0 = Some incoming"
    and "header_NumOutgoingChannels (DefaultHeader b h) buf 0 = Some outgoing"
    and "getPeerBitResolution (DefaultHeader b h) buf 0 = Some br"
  shows "validatePeerHeader (DefaultHeader b h) buf r =
    Some (16 \<le> r \<and> sane_fields bsize incoming outgoing br \<and> 16 + int (payload bsize incoming outgoing br) \<le> r)"
proof (cases "16 \<le> r \<and> sane_fields bsize incoming outgoing br")
  case True
  then have s: "sane_fields bsize incoming outgoing br" and r: "16 \<le> r" by simp_all
  then have ok: "bsize \<noteq> 0" "\<not> gMaxBufferSizeInSamples < bsize" "incoming \<noteq> 0" "\<not> gMaxAudioChannels < incoming"
    "\<not> (outgoing \<noteq> 0 \<and> outgoing \<noteq> 255 \<and> gMaxAudioChannels < outgoing)"
    "\<not> (br \<noteq> 8 \<and> br \<noteq> 16 \<and> br \<noteq> 24 \<and> br \<noteq> 32)"
    by (auto simp: sane_fields_def)
  note sz = validate_sizes [of bsize br incoming outgoing]
  have "bsize \<le> gMaxBufferSizeInSamples" "br = 8 \<or> br = 16 \<or> br = 24 \<or> br = 32"
    using s by (simp_all add: sane_fields_def)
  note sz = sz(1) [OF this] sz(2) [OF this] sz(3) [OF this]
  show ?thesis
    using r s unfolding validatePeerHeader_def
    by (simp only: PacketHeader.case assms bind.bind_lunit ok if_False sz not_less simp_thms if_True)
      (simp add: not_less)
next
  case False
  then show ?thesis
    by (auto simp: validatePeerHeader_def assms sane_fields_def word_neq_0_conv)
qed

section \<open>A sender with sane settings\<close>

text \<open>
  The settings of a client as \<open>JackTrip\<close> keeps them once its audio interface exists: the
  interface has the buffer size and the resolution of the mediator, and all of them are within the
  bounds of the peer.
\<close>

definition sane_sender :: "JackTrip \<Rightarrow> bool" where
  "sane_sender jt \<longleftrightarrow>
     1 \<le> mNumAudioChansIn jt \<and> mNumAudioChansIn jt \<le> 128 \<and>
     1 \<le> mNumAudioChansOut jt \<and> mNumAudioChansOut jt \<le> 128 \<and>
     0 < mAudioBufferSize jt \<and> mAudioBufferSize jt \<le> 4096 \<and>
     mBufferSizeInSamples (mAudioInterface jt) = mAudioBufferSize jt \<and>
     mAudioBitResolution (mAudioInterface jt) = int (bit_resolution_code (jtAudioBitResolution jt)) * 8"

lemma sane_sample_bytes:
  assumes "sane_sender jt"
  shows "int_of_size (getSizeInBytesPerChannel (mAudioInterface jt)) =
    int (unat (mAudioBufferSize jt) * bit_resolution_code (jtAudioBitResolution jt))"
proof -
  define N where "N = unat (mAudioBufferSize jt)"
  define B where "B = bit_resolution_code (jtAudioBitResolution jt)"
  have N: "N \<le> 4096" using assms by (simp add: sane_sender_def N_def word_le_nat_alt)
  have B: "B \<le> 4" by (simp add: B_def resolution_at_most_4)
  have NB: "N * B \<le> 16384" using mult_le_mono [OF N B] by simp
  have w: "mAudioBufferSize jt = of_nat N" by (simp add: N_def)
  have "mAudioBufferSize jt * of_int (int B * 8) = (of_nat (N * B * 8) :: u32)"
    by (simp add: w)
  moreover have "(of_nat (N * B * 8) :: u32) div 8 = of_nat (N * B)"
  proof -
    have "N * B * 8 < 4294967296" "N * B < 4294967296" using NB by linarith+
    then show ?thesis by (simp add: word_unat_eq_iff unat_div unat_of_nat del: of_nat_mult)
  qed
  ultimately have "getSizeInBytesPerChannel (mAudioInterface jt) = ucast (of_nat (N * B) :: u32)"
    using assms by (simp add: getSizeInBytesPerChannel_def sane_sender_def B_def)
  then have "int_of_size (getSizeInBytesPerChannel (mAudioInterface jt)) = sint (of_int (int (N * B)) :: u32)"
    by (simp add: int_of_size_def ucast_down_ucast_id is_down)
  also have "\<dots> = int (N * B)" using NB by (intro sint_of_int_u32) (simp add: int32_range_def del: of_nat_mult)
  finally show ?thesis by (simp add: N_def B_def)
qed

lemma sane_input_size:
  assumes "sane_sender jt"
  shows "getTotalAudioInputPacketSizeInBytes jt =
    Some (int (unat (mAudioBufferSize jt) * bit_resolution_code (jtAudioBitResolution jt) * nat (mNumAudioChansIn jt)))"
proof -
  define S where "S = unat (mAudioBufferSize jt) * bit_resolution_code (jtAudioBitResolution jt)"
  have "unat (mAudioBufferSize jt) \<le> 4096" using assms by (simp add: sane_sender_def word_le_nat_alt)
  then have S: "S \<le> 16384" using mult_le_mono [OF _ resolution_at_most_4] by (fastforce simp: S_def)
  have "nat (mNumAudioChansIn jt) \<le> 128" using assms by (simp add: sane_sender_def nat_le_iff)
  then have le: "S * nat (mNumAudioChansIn jt) \<le> 2097152" using mult_le_mono [OF S] by fastforce
  have "int S * mNumAudioChansIn jt = int (S * nat (mNumAudioChansIn jt))"
    using assms by (simp add: sane_sender_def)
  then show ?thesis
    using le unfolding getTotalAudioInputPacketSizeInBytes_def sane_sample_bytes [OF assms] S_def [symmetric]
    by (simp add: int32_range_def del: of_nat_mult)
qed

definition send_payload :: "JackTrip \<Rightarrow> nat" where
  "send_payload jt =
     unat (mAudioBufferSize jt) * bit_resolution_code (jtAudioBitResolution jt) * nat (mNumAudioChansIn jt)"

lemma sane_send_size:
  assumes "sane_sender jt" and "mPacketHeader jt = DefaultHeader b h"
    and "getSendPacketSizeInBytes jt = Some (int m)"
  shows "m = send_payload jt + 16"
proof -
  have "getTotalAudioInputPacketSizeInBytes jt = Some (int (send_payload jt))"
    unfolding send_payload_def by (rule sane_input_size [OF assms(1)])
  then show ?thesis
    using assms(3) by (simp add: getSendPacketSizeInBytes_def assms(2) checked_int_def split: if_splits)
qed

text \<open>The packet a sender with sane settings builds.\<close>

lemma outgoing_packet:
  assumes jt: "sane_sender jt" "mPacketHeader jt = DefaultHeader b h"
    and rate: "getSampleRateType (mSampleRate (mAudioInterface jt)) = Some rate"
    and full: "length full = send_payload jt + 16" and audio: "send_payload jt \<le> length audio"
  defines "ins \<equiv> nat (mNumAudioChansIn jt)" and "outs \<equiv> nat (mNumAudioChansOut jt)"
  shows "\<exists>h1. putHeaderInOutgoingPacket now jt full (Some audio) =
      Some (jt\<lparr>mPacketHeader := DefaultHeader b h1\<rparr>, default_struct_bytes h1 @ take (send_payload jt) audio, []) \<and>
    BufferSize h1 = ucast (mAudioBufferSize jt) \<and> SamplingRate h1 = of_nat (rate_code rate) \<and>
    BitResolution h1 = getAudioBitResolution jt \<and> SeqNumber h1 = SeqNumber h \<and>
    NumIncomingChannelsFromNet h1 = of_nat outs \<and>
    NumOutgoingChannelsToNet h1 = (if ins = outs then 0 else of_nat ins)"
proof -
  have in_size: "getTotalAudioInputPacketSizeInBytes jt = Some (int (send_payload jt))"
    using sane_input_size [OF jt(1)] by (simp add: send_payload_def)
  have io: "1 \<le> ins" "ins \<le> 128" "1 \<le> outs" "outs \<le> 128"
    and ch: "getNumInputChannels jt = of_nat ins" "getNumOutputChannels jt = of_nat outs"
    using jt(1) by (auto simp: sane_sender_def ins_def outs_def getNumInputChannels_def getNumOutputChannels_def)
  have w: "(of_nat ins :: u32) = of_nat outs \<longleftrightarrow> ins = outs" "(of_nat ins :: u32) \<noteq> 0"
      "(ucast (of_nat ins :: u32) :: u8) = of_nat ins" "(ucast (of_nat outs :: u32) :: u8) = of_nat outs"
    using io by (simp_all add: word_unat_eq_iff unat_of_nat unsigned_ucast_eq take_bit_eq_mod)
  obtain h1 where h1: "DefaultHeader_fill now jt h = Some h1" and f:
      "BufferSize h1 = ucast (mAudioBufferSize jt)" "SamplingRate h1 = of_nat (rate_code rate)"
      "BitResolution h1 = getAudioBitResolution jt" "SeqNumber h1 = SeqNumber h"
      "NumIncomingChannelsFromNet h1 = of_nat outs"
      "NumOutgoingChannelsToNet h1 = (if ins = outs then 0 else of_nat ins)"
    using rate w by (simp add: DefaultHeader_fill_def Let_def getBufferSizeInSamples_def ch)
  have "putHeaderInOutgoingPacket now jt full (Some audio) =
      Some (jt\<lparr>mPacketHeader := DefaultHeader b h1\<rparr>, default_struct_bytes h1 @ take (send_payload jt) audio, [])"
    unfolding putHeaderInOutgoingPacket_def
    using put_header_and_audio_Some [of now jt "DefaultHeader b h1" "[]" getTotalAudioInputPacketSizeInBytes
        "send_payload jt" audio full] in_size h1 audio full
    by (simp add: jt(2) getTotalAudioInputPacketSizeInBytes_def)
  with f show ?thesis by blast
qed

text \<open>The number of channels a peer decodes from a header.\<close>

definition outgoing_chans :: "DefaultHeaderStruct \<Rightarrow> u8" where
  "outgoing_chans h = (if NumOutgoingChannelsToNet h = 0 then NumIncomingChannelsFromNet h
     else NumOutgoingChannelsToNet h)"

lemma peer_outgoing:
  "take 16 (drop pos buf) = default_struct_bytes h \<Longrightarrow>
     getPeerNumOutgoingChannels (DefaultHeader b h') buf pos = Some (outgoing_chans h)"
  by (simp add: getPeerNumOutgoingChannels_def peer_fields outgoing_chans_def)

lemma small_u8:
  assumes "1 \<le> k" and "k \<le> 128"
  shows "unat (of_nat k :: u8) = k" "(of_nat k :: u8) \<noteq> 0" "(of_nat k :: u8) \<noteq> 255" "(of_nat k :: u8) \<le> 128"
  using assms by (auto simp: word_unat_eq_iff word_le_nat_alt unat_of_nat)

section \<open>Properties\<close>

text \<open>
  C7: \<open>validatePeerHeader\<close> reads only the received bytes, and a header it accepts declares a buffer
  size, channel counts and a resolution within bounds, and an audio payload that was received.
\<close>

theorem validated_header_is_sane:
  assumes "r \<le> int (length buf)"
  shows "\<exists>ok. validatePeerHeader (DefaultHeader b h) buf r = Some ok \<and>
    (ok \<longrightarrow> (\<exists>N incoming outgoing br.
       getPeerBufferSize (DefaultHeader b h) buf 0 = Some N \<and>
       getPeerNumIncomingChannels (DefaultHeader b h) buf 0 = Some incoming \<and>
       header_NumOutgoingChannels (DefaultHeader b h) buf 0 = Some outgoing \<and>
       getPeerBitResolution (DefaultHeader b h) buf 0 = Some br \<and>
       sane_fields N incoming outgoing br \<and>
       16 + int (unat N * unat (effective_chans incoming outgoing) * (unat br div 8)) \<le> r))"
proof (cases "r < 16")
  case False
  then have "16 \<le> length buf" using assms by linarith
  then obtain N incoming outgoing br where f:
    "getPeerBufferSize (DefaultHeader b h) buf 0 = Some N"
    "getPeerNumIncomingChannels (DefaultHeader b h) buf 0 = Some incoming"
    "header_NumOutgoingChannels (DefaultHeader b h) buf 0 = Some outgoing"
    "getPeerBitResolution (DefaultHeader b h) buf 0 = Some br"
    unfolding getPeerBufferSize_def getPeerNumIncomingChannels_def header_NumOutgoingChannels_def
      getPeerBitResolution_def
    using peer_field_defined [of 10 2 buf] peer_field_defined [of 14 1 buf] peer_field_defined [of 15 1 buf]
      peer_field_defined [of 13 1 buf] by fastforce
  then show ?thesis using validate_eq [OF f, of r] by (auto simp: payload_def)
qed (auto simp: validatePeerHeader_def)

theorem validated_header_is_sane_witness:
  "\<exists>ok. validatePeerHeader DefaultHeader_new (replicate 16 0) 16 = Some ok"
  using validated_header_is_sane [of 16 "replicate 16 0"] unfolding DefaultHeader_new_def by fastforce

text \<open>
  C6: a client with sane settings builds a packet of \<open>getSendPacketSizeInBytes\<close> bytes, the header
  and then the audio unchanged; the peer accepts its header at that length, reads the client's
  buffer size and number of input channels from it, and finds no mismatch when its
  own header was filled from the same rate, resolution and buffer size.
\<close>

theorem outgoing_packet_accepted:
  assumes jt: "sane_sender jt" "mPacketHeader jt = DefaultHeader b h"
    and rate: "getSampleRateType (mSampleRate (mAudioInterface jt)) = Some rate"
    and size: "getSendPacketSizeInBytes jt = Some (int (length full))"
    and audio: "length full \<le> length audio + 16"
  shows "\<exists>jt' full'. putHeaderInOutgoingPacket now jt full (Some audio) = Some (jt', full', []) \<and>
    length full' = length full \<and> drop 16 full' = take (length full - 16) audio \<and>
    validatePeerHeader p full' (int (length full)) = Some True \<and>
    (\<forall>b' h'. getPeerBufferSize (DefaultHeader b' h') full' 0 = Some (ucast (mAudioBufferSize jt)) \<and>
      getPeerNumOutgoingChannels (DefaultHeader b' h') full' 0 = Some (of_int (mNumAudioChansIn jt)) \<and>
      getPeerSequenceNumber (DefaultHeader b' h') full' 0 = Some (SeqNumber h) \<and>
      (BufferSize h' = ucast (mAudioBufferSize jt) \<and> SamplingRate h' = of_nat (rate_code rate) \<and>
       BitResolution h' = getAudioBitResolution jt \<longrightarrow>
         checkPeerSettings (DefaultHeader b' h') full' = Some (True, [])))"
proof -
  define n where "n = send_payload jt"
  define ins where "ins = nat (mNumAudioChansIn jt)"
  define outs where "outs = nat (mNumAudioChansOut jt)"
  have len: "length full = n + 16" using sane_send_size [OF jt size] by (simp add: n_def)
  obtain h1 where put: "putHeaderInOutgoingPacket now jt full (Some audio) =
      Some (jt\<lparr>mPacketHeader := DefaultHeader b h1\<rparr>, default_struct_bytes h1 @ take n audio, [])"
    and f: "BufferSize h1 = ucast (mAudioBufferSize jt)" "SamplingRate h1 = of_nat (rate_code rate)"
      "BitResolution h1 = getAudioBitResolution jt" "SeqNumber h1 = SeqNumber h"
      "NumIncomingChannelsFromNet h1 = of_nat outs"
      "NumOutgoingChannelsToNet h1 = (if ins = outs then 0 else of_nat ins)"
    using outgoing_packet [OF jt rate, of full audio now] len audio by (auto simp: n_def ins_def outs_def)
  define full' where "full' = default_struct_bytes h1 @ take n audio"
  have hl: "length (default_struct_bytes h1) = 16" using hdr.bytes_size [of "DefaultHeader b h1"] by simp
  then have "take 16 (drop 0 full') = default_struct_bytes h1" by (simp add: full'_def)
  note fields = peer_fields [OF this, unfolded f] and decoded = peer_outgoing [OF this]
  have io: "1 \<le> ins" "ins \<le> 128" "1 \<le> outs" "outs \<le> 128" and ch: "of_int (mNumAudioChansIn jt) = (of_nat ins :: u8)"
    using jt(1) by (auto simp: sane_sender_def ins_def outs_def)
  define out where "out = (if ins = outs then 0 else of_nat ins :: u8)"
  note ins8 = small_u8 [OF io(1,2)] and outs8 = small_u8 [OF io(3,4)]
  have eff: "unat (effective_chans (of_nat outs) out) = ins" "out = 0 \<or> out = 255 \<or> out \<le> gMaxAudioChannels"
    using ins8 outs8 by (auto simp: out_def effective_chans_def gMaxAudioChannels_def)
  have outgoing: "getPeerNumOutgoingChannels (DefaultHeader b' h') full' 0 = Some (of_nat ins)" for b' h'
    using ins8 by (simp add: decoded outgoing_chans_def f)
  have small: "unat (ucast (mAudioBufferSize jt) :: u16) = unat (mAudioBufferSize jt)"
    using jt(1) by (simp add: sane_sender_def word_le_nat_alt unsigned_ucast_eq take_bit_eq_mod)
  have br: "unat (getAudioBitResolution jt) div 8 = bit_resolution_code (jtAudioBitResolution jt)"
      "getAudioBitResolution jt = 8 \<or> getAudioBitResolution jt = 16 \<or> getAudioBitResolution jt = 24 \<or>
       getAudioBitResolution jt = 32"
    by (cases "jtAudioBitResolution jt"; simp add: getAudioBitResolution_def)+
  have sane: "sane_fields (ucast (mAudioBufferSize jt)) (of_nat outs) out (getAudioBitResolution jt)"
    using jt(1) small io br(2) eff(2) outs8(1)
    by (simp add: sane_fields_def sane_sender_def gMaxBufferSizeInSamples_def gMaxAudioChannels_def
      word_le_nat_alt word_less_nat_alt)
  have pay: "payload (ucast (mAudioBufferSize jt)) (of_nat outs) out (getAudioBitResolution jt) = n"
    unfolding payload_def small eff(1) br(1) by (simp add: n_def send_payload_def ins_def ac_simps)
  have valid: "validatePeerHeader p full' (int (length full)) = Some True"
  proof (cases p)
    case (DefaultHeader b' h')
    have "16 \<le> int (length full)" "16 + int n \<le> int (length full)" using len by simp_all
    then show ?thesis
      unfolding DefaultHeader
        validate_eq [OF fields(3) fields(6) fields(7) [folded out_def] fields(5)] pay
      using sane by simp
  qed (simp_all add: validatePeerHeader_def)
  have check: "checkPeerSettings (DefaultHeader b' h') full' = Some (True, [])"
    if "BufferSize h' = ucast (mAudioBufferSize jt)" "SamplingRate h' = of_nat (rate_code rate)"
      "BitResolution h' = getAudioBitResolution jt" for b' h'
    using that by (simp add: checkPeerSettings_def fields)
  have "length full' = length full" "drop 16 full' = take (length full - 16) audio"
    using hl audio len by (simp_all add: full'_def)
  then show ?thesis
    using put valid check outgoing fields(2,3) by (auto simp: full'_def ch)
qed

text \<open>A stereo client at 48 kHz with 128 samples of 16 bits.\<close>

definition stereo_client :: JackTrip where
  "stereo_client = \<lparr>mNumAudioChansIn = 2, mNumAudioChansOut = 2, mAudioBufferSize = 128,
     jtAudioBitResolution = BIT16, mAudioInterface = AudioInterface_new 0 False [0, 1] [0, 1] STEREO BIT16 False,
     mPacketHeader = DefaultHeader_new\<rparr>"

lemma stereo_client_sane: "sane_sender stereo_client"
  by (simp add: sane_sender_def stereo_client_def AudioInterface_new_def gDefaultBufferSizeInSamples_def)

lemma stereo_client_rate: "getSampleRateType (mSampleRate (mAudioInterface stereo_client)) = Some SR48"
  by (simp add: stereo_client_def AudioInterface_new_def gDefaultSampleRate_def getSampleRateType_def
    near_rate_def checked_int_def int32_range_def)

lemma stereo_client_header: "mPacketHeader stereo_client = DefaultHeader PacketHeader_new
     \<lparr>TimeStamp = 0, SeqNumber = 0, BufferSize = 0, SamplingRate = 0, BitResolution = 0,
      NumIncomingChannelsFromNet = 0, NumOutgoingChannelsToNet = 0\<rparr>"
  by (simp add: stereo_client_def DefaultHeader_new_def)

theorem outgoing_packet_accepted_witness:
  "\<exists>jt' full'. putHeaderInOutgoingPacket 0 stereo_client (replicate 528 0) (Some (replicate 512 7)) = Some (jt', full', []) \<and>
     validatePeerHeader DefaultHeader_new full' 528 = Some True"
proof -
  let ?jt = stereo_client
  note s = stereo_client_sane and r = stereo_client_rate and h = stereo_client_header
  have "getSendPacketSizeInBytes ?jt = Some (int (length (replicate 528 (0 :: u8))))"
    using sane_input_size [OF s] by (simp add: getSendPacketSizeInBytes_def h)
      (simp add: stereo_client_def checked_int_def int32_range_def)
  from outgoing_packet_accepted [OF s h r this, of "replicate 512 7" 0 DefaultHeader_new]
  show ?thesis by auto
qed
end
