(* ===== verification/Auth.thy ===== *)
theory Auth
  imports Prelude
begin

text \<open>
  The credentials of a hub server (\<open>src/Auth.cpp\<close>, \<open>src/Auth.h\<close>): the tables of password hashes and
  access times, the file they are kept in, the SHA-512 crypt scheme, and the check of a client's
  credentials.  A \<open>QString\<close> is the list of its UTF-16 code units, a \<open>QHash\<close> a map.  SHA-512,
  the UTF-8 conversions, the codec of the text stream on the file, the parser of times and the current date and time are
  Qt's: they are arguments.  Messages printed to the console are left out.
\<close>

section \<open>Strings\<close>

type_synonym qstring = "u16 list"

definition qs :: "string \<Rightarrow> qstring" where
  "qs s = map (\<lambda>c. of_nat (of_char c)) s"

text \<open>\<open>split\<close> at a separator of one character, and \<open>section (sep, i, i)\<close>.\<close>

fun split_at :: "'a \<Rightarrow> 'a list \<Rightarrow> 'a list list" where
  "split_at sep [] = [[]]"
| "split_at sep (c # cs) =
     (if c = sep then [] # split_at sep cs
      else case split_at sep cs of [] \<Rightarrow> [[c]] | part # parts \<Rightarrow> (c # part) # parts)"

definition section_of :: "'a \<Rightarrow> nat \<Rightarrow> 'a list \<Rightarrow> 'a list" where
  "section_of sep i s = (let parts = split_at sep s in if i < length parts then parts ! i else [])"

definition startsWith :: "'a list \<Rightarrow> 'a list \<Rightarrow> bool" where
  "startsWith s pre \<longleftrightarrow> take (length pre) s = pre"

abbreviation colon :: u16 where "colon \<equiv> 58"
abbreviation dollar :: u16 where "dollar \<equiv> 36"
abbreviation comma :: u16 where "comma \<equiv> 44"
abbreviation hyphen :: u16 where "hyphen \<equiv> 45"
abbreviation newline :: u16 where "newline \<equiv> 10"
abbreviation return :: u16 where "return \<equiv> 13"

section \<open>State\<close>

datatype AuthResponseT = OK | REQUIRED | NOTREQUIRED | WRONGCREDS | WRONGTIME

fun response_code :: "AuthResponseT \<Rightarrow> int" where
  "response_code OK = 65536"
| "response_code REQUIRED = 131072"
| "response_code NOTREQUIRED = 196608"
| "response_code WRONGCREDS = 262144"
| "response_code WRONGTIME = 327680"

record Auth =
  m_passwordTable :: "qstring \<Rightarrow> qstring option"
  m_timesTable :: "qstring \<Rightarrow> qstring option"
  m_authFileName :: qstring
  m_monitorChanges :: bool
  m_authFileWatcher :: "qstring set"

definition m_days :: "qstring list" where
  "m_days = map qs [''Mo'', ''Tu'', ''We'', ''Th'', ''Fr'', ''Sa'', ''Su'']"

text \<open>Reading a \<open>QHash\<close> with \<open>[]\<close> inserts an empty value for a missing key.\<close>

definition hash_at :: "qstring \<Rightarrow> (qstring \<Rightarrow> qstring option) \<Rightarrow> qstring \<times> (qstring \<Rightarrow> qstring option)" where
  "hash_at k t = (case t k of Some v \<Rightarrow> (v, t) | None \<Rightarrow> ([], t(k \<mapsto> [])))"

section \<open>SHA-512 crypt\<close>

definition char64 :: "int \<Rightarrow> u8" where
  "char64 v = (if v < 0 \<or> v \<ge> 64 then 0
     else if v < 12 then of_int (v + 46)
     else if v < 38 then of_int (v + 53)
     else of_int (v + 59))"

fun charGroup_loop :: "u32 \<Rightarrow> nat \<Rightarrow> bytes" where
  "charGroup_loop w 0 = []"
| "charGroup_loop w (Suc n) = char64 (uint (w AND 0x3f)) # charGroup_loop (drop_bit 6 w) n"

definition charGroup :: "u8 \<Rightarrow> u8 \<Rightarrow> u8 \<Rightarrow> nat \<Rightarrow> bytes" where
  "charGroup byte2 byte1 byte0 n =
     charGroup_loop (push_bit 16 (ucast byte2) OR push_bit 8 (ucast byte1) OR ucast byte0) n"

text \<open>The loops of steps 9 and 10, 16 and 20, of step 11, and of step 21.\<close>

function add_blocks :: "bytes \<Rightarrow> nat \<Rightarrow> bytes" where
  "add_blocks r n = (if 64 < n then r @ add_blocks r (n - 64) else take n r)"
  by pat_completeness auto
termination by (relation "measure snd") auto

declare add_blocks.simps [simp del]

function add_bits :: "bytes \<Rightarrow> bytes \<Rightarrow> nat \<Rightarrow> bytes" where
  "add_bits r passwd n =
     (if n = 0 then [] else (if odd n then r else passwd) @ add_bits r passwd (n div 2))"
  by pat_completeness auto
termination by (relation "measure (snd o snd)") auto

declare add_bits.simps [simp del]

definition crypt_round :: "(bytes \<Rightarrow> bytes) \<Rightarrow> bytes \<Rightarrow> bytes \<Rightarrow> nat \<Rightarrow> bytes \<Rightarrow> bytes" where
  "crypt_round sha512 p s n a = sha512
     ((if odd n then p else a) @ (if n mod 3 \<noteq> 0 then s else []) @
      (if n mod 7 \<noteq> 0 then p else []) @ (if odd n then a else p))"

fun crypt_rounds :: "(bytes \<Rightarrow> bytes) \<Rightarrow> bytes \<Rightarrow> bytes \<Rightarrow> nat \<Rightarrow> bytes \<Rightarrow> bytes" where
  "crypt_rounds sha512 p s 0 a = a"
| "crypt_rounds sha512 p s (Suc n) a = crypt_round sha512 p s n (crypt_rounds sha512 p s n a)"

text \<open>The order of the digest's bytes in step 22.\<close>

definition crypt_order :: "(nat \<times> nat \<times> nat) list" where
  "crypt_order = [(0, 21, 42), (22, 43, 1), (44, 2, 23), (3, 24, 45), (25, 46, 4), (47, 5, 26), (6, 27, 48),
     (28, 49, 7), (50, 8, 29), (9, 30, 51), (31, 52, 10), (53, 11, 32), (12, 33, 54), (34, 55, 13),
     (56, 14, 35), (15, 36, 57), (37, 58, 16), (59, 17, 38), (18, 39, 60), (40, 61, 19), (62, 20, 41)]"

definition crypt_digest :: "bytes \<Rightarrow> bytes" where
  "crypt_digest a = concat (map (\<lambda>(i, j, k). charGroup (a ! i) (a ! j) (a ! k) 4) crypt_order) @
     charGroup 0 0 (a ! 63) 2"

definition sha512_crypt :: "(bytes \<Rightarrow> bytes) \<Rightarrow> bytes \<Rightarrow> bytes \<Rightarrow> bytes" where
  "sha512_crypt sha512 passwd salt =
     (let b = sha512 (passwd @ salt @ passwd);
          a = sha512 (passwd @ salt @ add_blocks b (length passwd) @ add_bits b passwd (length passwd));
          dp = sha512 (concat (replicate (length passwd) passwd));
          p = add_blocks dp (length passwd);
          ds = sha512 (concat (replicate (16 + unat (a ! 0)) salt));
          s = add_blocks ds (length salt)
      in [36, 54, 36] @ salt @ [36] @ crypt_digest (crypt_rounds sha512 p s 5000 a))"

text \<open>The conversions and the hash are Qt's.\<close>

record qt =
  sha512 :: "bytes \<Rightarrow> bytes"
  toUtf8 :: "qstring \<Rightarrow> bytes"
  fromUtf8 :: "bytes \<Rightarrow> qstring"
  timeFromString :: "qstring \<Rightarrow> nat option"

definition generateSha512Hash :: "qt \<Rightarrow> qstring \<Rightarrow> qstring \<Rightarrow> qstring" where
  "generateSha512Hash Q passwordString saltString =
     fromUtf8 Q (sha512_crypt (sha512 Q) (take 256 (toUtf8 Q passwordString)) (take 16 (toUtf8 Q saltString)))"

text \<open>The random numbers are the argument.\<close>

definition generateSalt :: "(nat \<Rightarrow> int) \<Rightarrow> qstring" where
  "generateSalt random = map (\<lambda>i. ucast (char64 (random i))) [0..<16]"

section \<open>Access times\<close>

text \<open>A range of times of day, in milliseconds since midnight.\<close>

fun time_range :: "qt \<Rightarrow> qstring list \<Rightarrow> (nat \<times> nat) option" where
  "time_range Q [start, stop] =
     (case (timeFromString Q start, timeFromString Q stop) of
        (Some s, Some e) \<Rightarrow> Some (s, e) | _ \<Rightarrow> None)"
| "time_range Q _ = None"

definition entry_grants :: "qt \<Rightarrow> qstring \<Rightarrow> nat \<Rightarrow> qstring \<Rightarrow> bool" where
  "entry_grants Q dayOfWeek currentTime entry \<longleftrightarrow> startsWith entry dayOfWeek \<and>
     (let accessTime = drop 2 entry in
        accessTime = qs ''*'' \<or>
        (case time_range Q (split_at hyphen accessTime) of
           Some (start, stop) \<Rightarrow> start \<le> currentTime \<and> currentTime \<le> stop
         | None \<Rightarrow> False))"

definition checkTime :: "qt \<Rightarrow> nat \<Rightarrow> nat \<Rightarrow> qstring \<Rightarrow> Auth \<Rightarrow> bool \<times> Auth" where
  "checkTime Q weekday currentTime username a =
     (let (t, table) = hash_at username (m_timesTable a);
          a = a\<lparr>m_timesTable := table\<rparr>;
          access = split_at comma t
      in if length access = 1 \<and> access ! 0 = [] then (False, a)
         else if qs ''*'' \<in> set access then (True, a)
         else (list_ex (entry_grants Q (m_days ! (weekday - 1)) currentTime) access, a))"

definition entry_well_formed :: "qt \<Rightarrow> qstring \<Rightarrow> bool" where
  "entry_well_formed Q entry \<longleftrightarrow> entry = qs ''*'' \<or> take 2 entry \<in> set m_days \<and>
     (let accessTime = drop 2 entry; range = split_at hyphen accessTime in
        accessTime = qs ''*'' \<or> (length range = 2 \<longrightarrow> time_range Q range \<noteq> None))"

definition verifyTimeFormat :: "qt \<Rightarrow> qstring \<Rightarrow> bool" where
  "verifyTimeFormat Q timeString =
     (let access = split_at comma timeString in
        length access = 1 \<and> access ! 0 = [] \<or> list_all (entry_well_formed Q) access)"

section \<open>Credentials\<close>

definition checkCredentials :: "qt \<Rightarrow> nat \<Rightarrow> nat \<Rightarrow> qstring \<Rightarrow> qstring \<Rightarrow> Auth \<Rightarrow> AuthResponseT \<times> Auth" where
  "checkCredentials Q weekday currentTime username password a =
     (if username = [] \<or> password = [] then (WRONGCREDS, a)
      else case m_passwordTable a username of
        None \<Rightarrow> (WRONGCREDS, a)
      | Some stored \<Rightarrow>
          if generateSha512Hash Q password (section_of dollar 2 stored) = stored
          then (let (ok, a) = checkTime Q weekday currentTime username a
                in (if ok then OK else WRONGTIME, a))
          else (WRONGCREDS, a))"

definition getTimes :: "qstring \<Rightarrow> Auth \<Rightarrow> qstring \<times> Auth" where
  "getTimes username a =
     (let (t, table) = hash_at username (m_timesTable a) in (t, a\<lparr>m_timesTable := table\<rparr>))"

definition getUsers :: "Auth \<Rightarrow> qstring set" where
  "getUsers a = dom (m_passwordTable a)"

definition deleteUser :: "qstring \<Rightarrow> Auth \<Rightarrow> Auth" where
  "deleteUser username a =
     a\<lparr>m_passwordTable := (m_passwordTable a)(username := None),
       m_timesTable := (m_timesTable a)(username := None)\<rparr>"

definition editUser :: "qt \<Rightarrow> (nat \<Rightarrow> int) \<Rightarrow> qstring \<Rightarrow> qstring \<Rightarrow> qstring \<Rightarrow> Auth \<Rightarrow> Auth" where
  "editUser Q random username access password a =
     (if m_passwordTable a username = None \<and> password = [] then a
      else
        let a = (if password \<noteq> []
              then a\<lparr>m_passwordTable := (m_passwordTable a)
                (username \<mapsto> generateSha512Hash Q password (generateSalt random))\<rparr>
              else a)
        in if verifyTimeFormat Q access
           then a\<lparr>m_timesTable := (m_timesTable a)(username \<mapsto> access)\<rparr> else a)"

section \<open>The credentials file\<close>

text \<open>
  The file holds bytes, and the code writes and reads it with a \<open>QTextStream\<close>.  How the stream turns a text into the bytes of the
  file (the codec of the locale in Qt 5 and UTF-8 in Qt 6, and the line ends of the platform), and how it reads bytes as a
  text (with the detection of a byte order mark) is Qt's, and an argument.

  The text is written in the order \<open>users\<close> in which the iterator visits the table.  The lines of a
  text are those of \<open>QTextStream::readLine\<close>: each ends at a newline, without a carriage return before it.
\<close>

record text_codec =
  encode_text :: "qstring \<Rightarrow> bytes"
  decode_text :: "bytes \<Rightarrow> qstring"

fun write_users :: "(qstring \<Rightarrow> qstring option) \<Rightarrow> qstring list \<Rightarrow> (qstring \<Rightarrow> qstring option) \<Rightarrow>
    qstring \<times> (qstring \<Rightarrow> qstring option)" where
  "write_users pw [] access = ([], access)"
| "write_users pw (u # us) access =
     (let (t, access) = hash_at u access;
          (rest, access) = write_users pw us access
      in (u @ [colon] @ the (pw u) @ [colon] @ t @ [newline] @ rest, access))"

definition writeFile :: "text_codec \<Rightarrow> bool \<Rightarrow> qstring list \<Rightarrow> Auth \<Rightarrow> bool \<times> bytes \<times> Auth" where
  "writeFile T opened users a =
     (if opened then
        let (text, access) = write_users (m_passwordTable a) users (m_timesTable a)
        in (True, encode_text T text, a\<lparr>m_timesTable := access\<rparr>)
      else (False, [], a))"

definition strip_return :: "qstring \<Rightarrow> qstring" where
  "strip_return l = (if l \<noteq> [] \<and> last l = return then butlast l else l)"

definition text_lines :: "qstring \<Rightarrow> qstring list" where
  "text_lines t = (let parts = split_at newline t in
     map strip_return (if last parts = [] then butlast parts else parts))"

definition usable_hash :: "qstring \<Rightarrow> bool" where
  "usable_hash h \<longleftrightarrow> startsWith h (qs ''$6$'') \<and>
     (let hashParts = split_at dollar h in
        4 \<le> length hashParts \<and> hashParts ! 2 \<noteq> [] \<and> hashParts ! 3 \<noteq> [])"

fun load_line :: "qstring \<Rightarrow> bool \<times> Auth \<Rightarrow> bool \<times> Auth" where
  "load_line line (errorFree, a) =
     (let lineParts = split_at colon line in
        if length lineParts < 3 then (False, a)
        else if \<not> usable_hash (lineParts ! 1) then (False, a)
        else (errorFree,
          a\<lparr>m_passwordTable := (m_passwordTable a)(lineParts ! 0 \<mapsto> lineParts ! 1),
            m_timesTable := (m_timesTable a)(lineParts ! 0 \<mapsto> lineParts ! 2)\<rparr>))"

text \<open>The argument \<open>files\<close> gives the bytes of the file at a name; none when it cannot be opened.\<close>

definition loadAuthFile :: "text_codec \<Rightarrow> (qstring \<Rightarrow> bytes option) \<Rightarrow> qstring \<Rightarrow> Auth \<Rightarrow> bool \<times> Auth" where
  "loadAuthFile T files filename a =
     (let a = a\<lparr>m_passwordTable := Map.empty, m_timesTable := Map.empty\<rparr> in
        case files filename of None \<Rightarrow> (True, a)
        | Some data \<Rightarrow> fold load_line (text_lines (decode_text T data)) (True, a))"

definition Auth_new :: "text_codec \<Rightarrow> (qstring \<Rightarrow> bytes option) \<Rightarrow> qstring \<Rightarrow> bool \<Rightarrow> Auth" where
  "Auth_new T files fileName monitorChanges =
     (let a = \<lparr>m_passwordTable = Map.empty, m_timesTable = Map.empty, m_authFileName = fileName,
            m_monitorChanges = monitorChanges, m_authFileWatcher = {}\<rparr>
      in if fileName = [] then a
         else let a = snd (loadAuthFile T files fileName a)
              in if monitorChanges then a\<lparr>m_authFileWatcher := insert fileName (m_authFileWatcher a)\<rparr> else a)"

definition setFileName :: "text_codec \<Rightarrow> (qstring \<Rightarrow> bytes option) \<Rightarrow> qstring \<Rightarrow> bool \<Rightarrow> Auth \<Rightarrow> bool \<times> Auth" where
  "setFileName T files fileName readFile a =
     (let a = (if m_monitorChanges a
            then a\<lparr>m_authFileWatcher := insert fileName
              (if m_authFileName a \<noteq> [] then m_authFileWatcher a - {m_authFileName a} else m_authFileWatcher a)\<rparr>
            else a);
          a = a\<lparr>m_authFileName := fileName\<rparr>
      in if readFile \<or> m_monitorChanges a then loadAuthFile T files fileName a
         else (True, a\<lparr>m_passwordTable := Map.empty, m_timesTable := Map.empty\<rparr>))"

definition reloadAuthFile :: "text_codec \<Rightarrow> (qstring \<Rightarrow> bytes option) \<Rightarrow> Auth \<Rightarrow> Auth" where
  "reloadAuthFile T files a =
     snd (loadAuthFile T files (m_authFileName a)
       (a\<lparr>m_authFileWatcher := insert (m_authFileName a) (m_authFileWatcher a)\<rparr>))"

end
