(* ===== verification/Patcher.thy ===== *)
theory Patcher
  imports Auth
begin

text \<open>
  The patcher of the hub server (\<open>src/Patcher.h\<close>, \<open>src/Patcher.cpp\<close>): which JACK ports it connects
  when a client is registered.  JACK is an argument: whether a client can be opened, and the arrays
  that \<open>jack_get_ports\<close> returns, where none is the null pointer.  The calls of \<open>jack_connect\<close> are
  returned in their order, the source port first.  A read through a null pointer has no result.
\<close>

section \<open>State\<close>

datatype hubConnectionModeT =
    SERVERTOCLIENT | CLIENTECHO | CLIENTFOFI | RESERVEDMATRIX | FULLMIX | NOAUTO | SERVFOFI | SERVFULLMIX

record Patcher =
  m_clients :: "qstring list"
  m_monoClients :: "qstring list"
  m_fan :: bool
  m_loop :: bool
  m_includeServer :: bool
  m_steroUpmix :: bool
  m_jackClient :: bool

record jack =
  client_opens :: bool
  output_ports :: "qstring list option"
  input_ports :: "qstring list option"
  physical_inputs :: "qstring list option"

definition Patcher_new :: Patcher where
  "Patcher_new = \<lparr>m_clients = [], m_monoClients = [], m_fan = False, m_loop = False,
     m_includeServer = True, m_steroUpmix = False, m_jackClient = False\<rparr>"

definition setPatchMode :: "hubConnectionModeT \<Rightarrow> Patcher \<Rightarrow> Patcher" where
  "setPatchMode patchMode p = p
     \<lparr>m_fan := patchMode = CLIENTFOFI \<or> patchMode = FULLMIX \<or> patchMode = SERVFOFI \<or> patchMode = SERVFULLMIX,
      m_loop := patchMode = CLIENTECHO \<or> patchMode = FULLMIX \<or> patchMode = SERVFULLMIX,
      m_includeServer := patchMode = SERVERTOCLIENT \<or> patchMode = SERVFOFI \<or> patchMode = SERVFULLMIX\<rparr>"

definition setStereoUpmix :: "bool \<Rightarrow> Patcher \<Rightarrow> Patcher" where
  "setStereoUpmix upmix p = p\<lparr>m_steroUpmix := upmix\<rparr>"

section \<open>Port names\<close>

text \<open>A port is called \<open>client:port_channel\<close>.\<close>

definition port_client :: "qstring \<Rightarrow> qstring" where
  "port_client port = section_of colon 0 port"

definition port_channel :: "qstring \<Rightarrow> qstring" where
  "port_channel port = last (split_at 95 port)"

fun contains :: "'a list \<Rightarrow> 'a list \<Rightarrow> bool" where
  "contains [] t \<longleftrightarrow> t = []"
| "contains (c # cs) t \<longleftrightarrow> startsWith (c # cs) t \<or> contains cs t"

definition is_broadcast :: "qstring \<Rightarrow> bool" where
  "is_broadcast port \<longleftrightarrow> contains port (qs ''broadcast'')"

section \<open>Registration\<close>

definition server_connections :: "jack \<Rightarrow> Patcher \<Rightarrow> qstring list \<Rightarrow> (qstring \<times> qstring) list option" where
  "server_connections J p clientOutPorts =
     (if m_includeServer p \<and> length clientOutPorts = 1 \<and> m_steroUpmix p then do {
        systemInPorts \<leftarrow> physical_inputs J;
        Some (if 2 \<le> length systemInPorts then [(clientOutPorts ! 0, systemInPorts ! 1)] else [])
      } else Some [])"

definition receiving_connections :: "Patcher \<Rightarrow> qstring \<Rightarrow> bool \<Rightarrow> qstring \<Rightarrow> qstring \<Rightarrow> (qstring \<times> qstring) list" where
  "receiving_connections p clientName clientIsMono out inp =
     (let channel = port_channel out; otherClient = port_client inp; otherChannel = port_channel inp in
        (if m_fan p then
           if otherClient \<in> set (m_clients p) \<and> otherChannel = channel then [(out, inp)]
           else if m_steroUpmix p \<and> clientIsMono then
             if otherClient \<in> set (m_clients p) \<and> otherChannel = qs ''2'' then [(out, inp)] else []
           else []
         else []) @
        (if m_loop p then
           if otherClient = clientName \<and> otherChannel = channel then [(out, inp)]
           else if m_steroUpmix p \<and> clientIsMono then
             if otherClient = clientName \<and> otherChannel = qs ''2'' then [(out, inp)] else []
           else []
         else []))"

definition sending_connections :: "Patcher \<Rightarrow> qstring \<Rightarrow> qstring \<Rightarrow> (qstring \<times> qstring) list" where
  "sending_connections p inp out =
     (let channel = port_channel inp; otherClient = port_client out; otherChannel = port_channel out in
        if otherClient \<in> set (m_clients p) \<and> \<not> is_broadcast out \<and>
           (otherChannel = channel \<or>
            m_steroUpmix p \<and> channel = qs ''2'' \<and> otherClient \<in> set (m_monoClients p))
        then [(out, inp)] else [])"

definition registerClient :: "jack \<Rightarrow> qstring \<Rightarrow> Patcher \<Rightarrow> (Patcher \<times> (qstring \<times> qstring) list) option" where
  "registerClient J clientName p =
     (if \<not> m_jackClient p \<and> \<not> client_opens J then Some (p, [])
      else do {
        let p = p\<lparr>m_jackClient := True\<rparr>;
        outPorts \<leftarrow> output_ports J;
        inPorts \<leftarrow> input_ports J;
        let clientOutPorts = filter (\<lambda>port. port_client port = clientName \<and> \<not> is_broadcast port) outPorts;
        let clientInPorts = filter (\<lambda>i. port_client i = clientName) inPorts;
        let clientIsMono = (length clientOutPorts = 1);
        server \<leftarrow> server_connections J p clientOutPorts;
        let receiving = (if m_fan p \<or> m_loop p then
          concat (map (\<lambda>out. concat (map (receiving_connections p clientName clientIsMono out) inPorts)) clientOutPorts)
          else []);
        let sending = (if m_fan p then
          concat (map (\<lambda>inp. concat (map (sending_connections p inp) outPorts)) clientInPorts) else []);
        Some (p\<lparr>m_clients := m_clients p @ [clientName],
            m_monoClients := m_monoClients p @ (if clientIsMono then [clientName] else [])\<rparr>,
          server @ receiving @ sending)
      })"

definition unregisterClient :: "qstring \<Rightarrow> Patcher \<Rightarrow> Patcher" where
  "unregisterClient clientName p =
     p\<lparr>m_clients := filter (\<lambda>c. c \<noteq> clientName) (m_clients p),
       m_monoClients := filter (\<lambda>c. c \<noteq> clientName) (m_monoClients p)\<rparr>"

definition shutdownCallback :: "Patcher \<Rightarrow> Patcher" where
  "shutdownCallback p = p\<lparr>m_jackClient := False\<rparr>"

section \<open>The mix of registered clients\<close>

fun registerClients :: "jack \<Rightarrow> qstring list \<Rightarrow> Patcher \<Rightarrow> (Patcher \<times> (qstring \<times> qstring) list) option" where
  "registerClients J [] p = Some (p, [])"
| "registerClients J (c # cs) p = do {
     (p, made) \<leftarrow> registerClient J c p;
     (p, more) \<leftarrow> registerClients J cs p;
     Some (p, made @ more)
   }"

text \<open>
  The pairs of ports that belong to a mix of the clients \<open>cs\<close>: the same channel of two clients where
  each hears the others, of one client where it hears itself.
\<close>

definition mix :: "bool \<Rightarrow> bool \<Rightarrow> qstring set \<Rightarrow> qstring list \<Rightarrow> qstring list \<Rightarrow> (qstring \<times> qstring) set" where
  "mix fan loop cs outs ins = {(out, inp). out \<in> set outs \<and> inp \<in> set ins \<and> \<not> is_broadcast out \<and>
     port_channel out = port_channel inp \<and> port_client out \<in> cs \<and> port_client inp \<in> cs \<and>
     (if port_client out = port_client inp then loop else fan)}"

lemma mix_pairs:
  "mix fan loop cs outs ins = set (filter (\<lambda>(out, inp). \<not> is_broadcast out \<and> port_channel out = port_channel inp \<and>
     port_client out \<in> cs \<and> port_client inp \<in> cs \<and> (if port_client out = port_client inp then loop else fan))
     (List.product outs ins))"
  by (auto simp: mix_def)

lemma mix_insert:
  assumes "c \<notin> cs"
  shows "mix fan loop (insert c cs) outs ins = mix fan loop cs outs ins \<union>
    {(out, inp). out \<in> set outs \<and> inp \<in> set ins \<and> \<not> is_broadcast out \<and> port_channel out = port_channel inp \<and>
       (port_client out = c \<and> (fan \<and> port_client inp \<in> cs \<or> loop \<and> port_client inp = c) \<or>
        fan \<and> port_client inp = c \<and> port_client out \<in> cs)}"
  using assms by (auto simp: mix_def)

lemma set_receiving_connections:
  "\<not> m_steroUpmix p \<Longrightarrow> set (receiving_connections p c single out inp) =
    (if port_channel inp = port_channel out \<and>
        (m_fan p \<and> port_client inp \<in> set (m_clients p) \<or> m_loop p \<and> port_client inp = c)
     then {(out, inp)} else {})"
  by (auto simp: receiving_connections_def Let_def)

lemma set_sending_connections:
  "\<not> m_steroUpmix p \<Longrightarrow> set (sending_connections p inp out) =
    (if port_channel inp = port_channel out \<and> \<not> is_broadcast out \<and> port_client out \<in> set (m_clients p)
     then {(out, inp)} else {})"
  by (auto simp: sending_connections_def Let_def)

lemma registerClient_mix:
  assumes "output_ports J = Some outs" and "input_ports J = Some ins"
    and "m_jackClient p \<or> client_opens J" and "\<not> m_steroUpmix p" and "c \<notin> set (m_clients p)"
  shows "\<exists>mono made. registerClient J c p = Some (p\<lparr>m_jackClient := True, m_clients := m_clients p @ [c],
      m_monoClients := m_monoClients p @ mono\<rparr>, made) \<and>
    mix (m_fan p) (m_loop p) (set (m_clients p) \<union> {c}) outs ins =
      mix (m_fan p) (m_loop p) (set (m_clients p)) outs ins \<union> set made"
proof -
  let ?mono = "length (filter (\<lambda>port. port_client port = c \<and> \<not> is_broadcast port) outs) = 1"
  let ?receiving = "(if m_fan p \<or> m_loop p then concat (map (\<lambda>out. concat (map
      (receiving_connections (p\<lparr>m_jackClient := True\<rparr>) c ?mono out) ins))
      (filter (\<lambda>port. port_client port = c \<and> \<not> is_broadcast port) outs)) else [])"
  let ?sending = "(if m_fan p then concat (map (\<lambda>inp. concat (map
      (sending_connections (p\<lparr>m_jackClient := True\<rparr>) inp) outs)) (filter (\<lambda>i. port_client i = c) ins)) else [])"
  have "registerClient J c p = Some (p\<lparr>m_jackClient := True, m_clients := m_clients p @ [c],
      m_monoClients := m_monoClients p @ (if ?mono then [c] else [])\<rparr>, ?receiving @ ?sending)"
    using assms(1-4) by (auto simp: registerClient_def server_connections_def Let_def)
  moreover have "set ?receiving = {(out, inp). out \<in> set outs \<and> inp \<in> set ins \<and> \<not> is_broadcast out \<and>
      port_channel out = port_channel inp \<and> port_client out = c \<and>
      (m_fan p \<and> port_client inp \<in> set (m_clients p) \<or> m_loop p \<and> port_client inp = c)}"
    using assms(4) by (auto simp: set_receiving_connections split: if_splits)
  moreover have "set ?sending = {(out, inp). out \<in> set outs \<and> inp \<in> set ins \<and> \<not> is_broadcast out \<and>
      port_channel out = port_channel inp \<and> m_fan p \<and> port_client inp = c \<and> port_client out \<in> set (m_clients p)}"
    using assms(4) by (auto simp: set_sending_connections split: if_splits)
  moreover have "mix (m_fan p) (m_loop p) (set (m_clients p) \<union> {c}) outs ins =
      mix (m_fan p) (m_loop p) (set (m_clients p)) outs ins \<union> set (?receiving @ ?sending)"
    unfolding set_append calculation(2,3) using mix_insert [OF assms(5)] by auto
  ultimately show ?thesis by blast
qed

lemma registerClients_mix:
  assumes "output_ports J = Some outs" and "input_ports J = Some ins"
    and "m_jackClient p \<or> client_opens J" and "\<not> m_steroUpmix p"
    and "distinct cs" and "set cs \<inter> set (m_clients p) = {}"
  shows "\<exists>p' made. registerClients J cs p = Some (p', made) \<and> m_clients p' = m_clients p @ cs \<and>
    mix (m_fan p) (m_loop p) (set (m_clients p) \<union> set cs) outs ins =
      mix (m_fan p) (m_loop p) (set (m_clients p)) outs ins \<union> set made"
  using assms
proof (induction cs arbitrary: p)
  case (Cons c cs)
  obtain mono made where first: "registerClient J c p = Some (p\<lparr>m_jackClient := True,
      m_clients := m_clients p @ [c], m_monoClients := m_monoClients p @ mono\<rparr>, made)"
    "mix (m_fan p) (m_loop p) (set (m_clients p) \<union> {c}) outs ins =
      mix (m_fan p) (m_loop p) (set (m_clients p)) outs ins \<union> set made"
    using registerClient_mix [OF Cons.prems(1-4), of c] Cons.prems(6) by auto
  let ?p = "p\<lparr>m_jackClient := True, m_clients := m_clients p @ [c], m_monoClients := m_monoClients p @ mono\<rparr>"
  obtain p' more where rest: "registerClients J cs ?p = Some (p', more)" "m_clients p' = m_clients ?p @ cs"
    "mix (m_fan p) (m_loop p) (set (m_clients ?p) \<union> set cs) outs ins =
      mix (m_fan p) (m_loop p) (set (m_clients ?p)) outs ins \<union> set more"
    using Cons.IH [of ?p] Cons.prems by auto
  have "set (m_clients p) \<union> set (c # cs) = set (m_clients ?p) \<union> set cs" by auto
  then show ?case using first rest by (auto simp: Un_assoc)
qed simp

text \<open>
  C34: Without stereo upmix, registering clients one after the other makes exactly the connections
  of the mix of the patch mode: the same channel of every client to every other client in the fan
  modes, of each client to itself in the loop modes, and no broadcast port.
\<close>

theorem registered_clients_mixed:
  assumes "output_ports J = Some outs" and "input_ports J = Some ins" and "client_opens J" and "distinct cs"
  shows "\<exists>p made. registerClients J cs (setPatchMode mode Patcher_new) = Some (p, made) \<and> m_clients p = cs \<and>
    set made = mix (mode \<in> {CLIENTFOFI, FULLMIX, SERVFOFI, SERVFULLMIX})
      (mode \<in> {CLIENTECHO, FULLMIX, SERVFULLMIX}) (set cs) outs ins"
proof -
  let ?p = "setPatchMode mode Patcher_new"
  have p: "\<not> m_steroUpmix ?p" "m_clients ?p = []"
    "m_fan ?p = (mode \<in> {CLIENTFOFI, FULLMIX, SERVFOFI, SERVFULLMIX})"
    "m_loop ?p = (mode \<in> {CLIENTECHO, FULLMIX, SERVFULLMIX})"
    by (auto simp: setPatchMode_def Patcher_new_def)
  have "mix fan loop {} outs ins = {}" for fan loop by (simp add: mix_def)
  then show ?thesis
    using registerClients_mix [OF assms(1,2) disjI2 [OF assms(3)] p(1) assms(4)]
    unfolding p(2-4) by auto
qed

definition example_jack :: jack where
  "example_jack = \<lparr>client_opens = True,
     output_ports = Some (map qs [''a:receive_1'', ''b:receive_1'', ''b:broadcast_1'']),
     input_ports = Some (map qs [''a:send_1'', ''b:send_1'']), physical_inputs = None\<rparr>"

theorem registered_clients_mixed_witness:
  "\<exists>p made. registerClients example_jack [qs ''a'', qs ''b''] (setPatchMode CLIENTFOFI Patcher_new) = Some (p, made) \<and>
    set made = {(qs ''a:receive_1'', qs ''b:send_1''), (qs ''b:receive_1'', qs ''a:send_1'')}"
proof -
  let ?outs = "map qs [''a:receive_1'', ''b:receive_1'', ''b:broadcast_1'']"
    and ?ins = "map qs [''a:send_1'', ''b:send_1'']"
  have "mix True False (set [qs ''a'', qs ''b'']) ?outs ?ins =
      set [(qs ''a:receive_1'', qs ''b:send_1''), (qs ''b:receive_1'', qs ''a:send_1'')]"
    unfolding mix_pairs by code_simp
  then show ?thesis
    using registered_clients_mixed [of example_jack ?outs ?ins "[qs ''a'', qs ''b'']" CLIENTFOFI]
    by (simp add: example_jack_def) (auto simp: qs_def)
qed

end
