(* ===== verification/HubWorkers.thy ===== *)
theory HubWorkers
  imports PacketHeader Patcher
begin

text \<open>
  The workers of the hub server (\<open>src/JackTripWorker.h\<close>, \<open>src/JackTripWorker.cpp\<close>) and the pool in
  which the listener keeps them (\<open>src/UdpHubListener.h\<close>, \<open>src/UdpHubListener.cpp\<close>), in one theory
  since their functions call each other.  Worker objects live in a heap and the pool holds their
  addresses; an object that was handed to \<open>deleteLater\<close> stays in the heap until the event loop
  deletes it.  Every function is one step (they run on the thread of the event loop, except
  \<open>createWebTransportWorker\<close>, which msquic calls), so the mutexes matter only where a
  function locks one that it holds: that, and a call through a null or dangling pointer, has no result.
  The member of a worker that was never written holds what the memory held.
\<close>

section \<open>Workers\<close>

datatype dataProtocolT = UDP | TCP | SCTP | WEBRTC | WEBTRANSPORT

text \<open>What a worker sets of its \<open>JackTrip\<close> object and calls on it.\<close>

record JackTripProcess =
  process_inputs :: int
  process_outputs :: int
  process_queue :: int
  process_protocol :: dataProtocolT
  process_started :: bool
  process_stopped :: bool

record JackTripWorker =
  mSpawning :: bool
  mRunning :: bool
  mPatched :: bool
  mID :: int
  mClientAddress :: qstring
  mServerPort :: u16
  mClientPort :: u16
  mClientName :: qstring
  mAssignedClientName :: qstring
  mBufferQueueLength :: int
  mElapsedTime :: int
  mTimeoutTimer :: bool
  mUdpSockTemp :: bool
  mDataProtocol :: dataProtocolT
  mJackTrip :: "JackTripProcess option"
  mWebRtcPeerConnection :: bool
  mWebTransportSession :: bool
  deleted_later :: bool

definition JackTripWorker_new :: "u16 \<Rightarrow> u16 \<Rightarrow> int \<Rightarrow> int \<Rightarrow> qstring \<Rightarrow> JackTripWorker" where
  "JackTripWorker_new garbage1 garbage2 garbage3 BufferQueueLength clientName =
     \<lparr>mSpawning = False, mRunning = False, mPatched = False, mID = 0, mClientAddress = [],
      mServerPort = garbage1, mClientPort = garbage2, mClientName = clientName, mAssignedClientName = [],
      mBufferQueueLength = BufferQueueLength, mElapsedTime = garbage3, mTimeoutTimer = False,
      mUdpSockTemp = False, mDataProtocol = UDP, mJackTrip = None, mWebRtcPeerConnection = False,
      mWebTransportSession = False, deleted_later = False\<rparr>"

definition mSleepTime :: int where "mSleepTime = 100"
definition gTimeOutMultiThreadedServer :: int where "gTimeOutMultiThreadedServer = 10000"
definition gMaxThreads :: nat where "gMaxThreads = 1024"

section \<open>The listener\<close>

record UdpHubListener =
  mJTWorkers :: "nat option list"
  heap :: "nat \<Rightarrow> JackTripWorker option"
  next_address :: nat
  mTotalRunningThreads :: int
  mBasePort :: int
  mRequireAuth :: bool
  mTlsConfigured :: bool
  mAuth :: "Auth option"
  mAppendThreadID :: bool
  m_connectDefaultAudioPorts :: bool
  hubBufferQueueLength :: int
  mHubPatch :: hubConnectionModeT
  mPatcher :: Patcher
  mStopped :: bool

definition gDefaultPort :: int where "gDefaultPort = 4464"
definition gDefaultQueueLength :: int where "gDefaultQueueLength = 4"

definition UdpHubListener_new :: "int \<Rightarrow> int \<Rightarrow> hubConnectionModeT \<Rightarrow> UdpHubListener" where
  "UdpHubListener_new server_port server_udp_port garbage =
     \<lparr>mJTWorkers = replicate gMaxThreads None, heap = Map.empty, next_address = 0,
      mTotalRunningThreads = 0,
      mBasePort = (if server_udp_port \<noteq> 0 then server_udp_port else 61002 + (server_port - gDefaultPort)),
      mRequireAuth = False, mTlsConfigured = False, mAuth = None, mAppendThreadID = False,
      m_connectDefaultAudioPorts = False, hubBufferQueueLength = gDefaultQueueLength,
      mHubPatch = garbage, mPatcher = Patcher_new, mStopped = False\<rparr>"

definition setHubPatch :: "hubConnectionModeT \<Rightarrow> UdpHubListener \<Rightarrow> UdpHubListener" where
  "setHubPatch p h = h\<lparr>mHubPatch := p, mPatcher := setPatchMode p (mPatcher h),
     m_connectDefaultAudioPorts := p = SERVERTOCLIENT \<or> p = SERVFOFI \<or> p = SERVFULLMIX\<rparr>"

definition setConnectDefaultAudioPorts :: "bool \<Rightarrow> UdpHubListener \<Rightarrow> UdpHubListener" where
  "setConnectDefaultAudioPorts connectDefaultAudioPorts h =
     (if mHubPatch h = SERVERTOCLIENT \<or> mHubPatch h = RESERVEDMATRIX
      then h\<lparr>m_connectDefaultAudioPorts := connectDefaultAudioPorts\<rparr> else h)"

text \<open>The object at an address, and its update.\<close>

definition worker_at :: "nat \<Rightarrow> UdpHubListener \<Rightarrow> JackTripWorker option" where
  "worker_at w h = heap h w"

definition set_worker :: "nat \<Rightarrow> JackTripWorker \<Rightarrow> UdpHubListener \<Rightarrow> UdpHubListener" where
  "set_worker w k h = h\<lparr>heap := (heap h)(w \<mapsto> k)\<rparr>"

section \<open>Patching\<close>

definition patching_disabled :: "UdpHubListener \<Rightarrow> bool" where
  "patching_disabled h \<longleftrightarrow> mHubPatch h = NOAUTO \<or>
     mHubPatch h = SERVERTOCLIENT \<and> \<not> m_connectDefaultAudioPorts h"

definition registerClientWithPatcher :: "jack \<Rightarrow> qstring \<Rightarrow> UdpHubListener \<Rightarrow> UdpHubListener option" where
  "registerClientWithPatcher J clientName h =
     (if patching_disabled h \<or> mHubPatch h = RESERVEDMATRIX then Some h
      else do {
        (p, made) \<leftarrow> registerClient J clientName (mPatcher h);
        Some (h\<lparr>mPatcher := p\<rparr>)
      })"

definition unregisterClientWithPatcher :: "qstring \<Rightarrow> UdpHubListener \<Rightarrow> UdpHubListener" where
  "unregisterClientWithPatcher clientName h =
     (if patching_disabled h \<or> mHubPatch h = RESERVEDMATRIX then h
      else h\<lparr>mPatcher := unregisterClient clientName (mPatcher h)\<rparr>)"

text \<open>The end of a session: the JackTrip process is stopped and the client leaves the patcher.\<close>

definition unpatch :: "nat \<Rightarrow> JackTripWorker \<Rightarrow> UdpHubListener \<Rightarrow> UdpHubListener" where
  "unpatch w k h =
     (if mPatched k
      then set_worker w (k\<lparr>mPatched := False\<rparr>) (unregisterClientWithPatcher (mAssignedClientName k) h)
      else set_worker w k h)"

definition slotStopProcesses :: "JackTripWorker \<Rightarrow> JackTripWorker option" where
  "slotStopProcesses k = (case mJackTrip k of None \<Rightarrow> None
     | Some p \<Rightarrow> Some (k\<lparr>mJackTrip := Some (p\<lparr>process_stopped := True\<rparr>)\<rparr>))"

section \<open>The pool\<close>

definition stopThread :: "nat \<Rightarrow> UdpHubListener \<Rightarrow> UdpHubListener option" where
  "stopThread w h = do {
     k \<leftarrow> worker_at w h;
     h \<leftarrow> (if mRunning k then do {
            k \<leftarrow> slotStopProcesses (k\<lparr>mRunning := False\<rparr>);
            Some (unpatch w k h)
          }
          else if mSpawning k
          then Some (set_worker w (k\<lparr>mSpawning := False, mUdpSockTemp := False, mTimeoutTimer := False\<rparr>) h)
          else Some h);
     k \<leftarrow> worker_at w h;
     Some (set_worker w (k\<lparr>mWebRtcPeerConnection := False, mWebTransportSession := False\<rparr>) h)
   }"

definition delete_later :: "nat \<Rightarrow> UdpHubListener \<Rightarrow> UdpHubListener option" where
  "delete_later w h = do {
     k \<leftarrow> worker_at w h;
     Some (set_worker w (k\<lparr>deleted_later := True\<rparr>) h)
   }"

text \<open>\<open>at\<close> with an index outside of the vector is undefined, and so is a call through its null pointer.\<close>

definition slot_at :: "int \<Rightarrow> UdpHubListener \<Rightarrow> nat option option" where
  "slot_at i h = (if 0 \<le> i \<and> nat i < length (mJTWorkers h) then Some (mJTWorkers h ! nat i) else None)"

definition releaseThread :: "int \<Rightarrow> UdpHubListener \<Rightarrow> UdpHubListener option" where
  "releaseThread i h = do {
     let h = h\<lparr>mTotalRunningThreads := mTotalRunningThreads h - 1\<rparr>;
     slot \<leftarrow> slot_at i h;
     w \<leftarrow> slot;
     h \<leftarrow> delete_later w h;
     Some (h\<lparr>mJTWorkers := (mJTWorkers h)[nat i := None]\<rparr>)
   }"

definition first_empty :: "'a option list \<Rightarrow> nat option" where
  "first_empty xs = (case filter (\<lambda>i. xs ! i = None) [0..<length xs] of [] \<Rightarrow> None | i # _ \<Rightarrow> Some i)"

definition decimal :: "nat \<Rightarrow> qstring" where
  "decimal n = (if n < 10 then [of_nat (48 + n)] else
     if n < 100 then [of_nat (48 + n div 10), of_nat (48 + n mod 10)] else
     if n < 1000 then [of_nat (48 + n div 100), of_nat (48 + n div 10 mod 10), of_nat (48 + n mod 10)]
     else [of_nat (48 + n div 1000), of_nat (48 + n div 100 mod 10), of_nat (48 + n div 10 mod 10),
       of_nat (48 + n mod 10)])"

definition createWorker :: "u16 \<times> u16 \<times> int \<Rightarrow> qstring \<Rightarrow> UdpHubListener \<Rightarrow> nat option \<times> qstring \<times> UdpHubListener" where
  "createWorker garbage clientName h =
     (case first_empty (mJTWorkers h) of
        None \<Rightarrow> (None, clientName, h)
      | Some i \<Rightarrow>
          let h = h\<lparr>mTotalRunningThreads := mTotalRunningThreads h + 1\<rparr>;
              clientName = (if mAppendThreadID h then clientName @ [95] @ decimal (i + 1) else clientName);
              (g1, g2, g3) = garbage;
              worker = JackTripWorker_new g1 g2 g3 (hubBufferQueueLength h) clientName;
              w = next_address h
          in (Some i, clientName, (set_worker w worker h)\<lparr>next_address := w + 1, mJTWorkers := (mJTWorkers h)[i := Some w]\<rparr>))"

text \<open>The address of a worker that a slot points to, and its members.\<close>

definition pooled :: "nat \<Rightarrow> UdpHubListener \<Rightarrow> (nat \<times> JackTripWorker) option" where
  "pooled i h = do {
     w \<leftarrow> mJTWorkers h ! i;
     k \<leftarrow> worker_at w h;
     Some (w, k)
   }"

fun find_worker :: "qstring \<Rightarrow> u16 \<Rightarrow> UdpHubListener \<Rightarrow> nat list \<Rightarrow> int option" where
  "find_worker address port h [] = Some (- 1)"
| "find_worker address port h (i # is) =
     (case mJTWorkers h ! i of
        None \<Rightarrow> find_worker address port h is
      | Some w \<Rightarrow> (case worker_at w h of
            None \<Rightarrow> None
          | Some k \<Rightarrow> if address = mClientAddress k \<and> port = mServerPort k then Some (int i)
              else find_worker address port h is))"

definition getPoolID :: "qstring \<Rightarrow> u16 \<Rightarrow> UdpHubListener \<Rightarrow> int option" where
  "getPoolID address port h = find_worker address port h [0..<length (mJTWorkers h)]"

text \<open>
  The worker \<open>me\<close> calls this with its mutex locked: when its own entry matches, \<open>stopThread\<close> waits
  for that mutex for ever.
\<close>

definition release_duplicate :: "nat \<Rightarrow> u16 \<Rightarrow> nat \<Rightarrow> UdpHubListener \<Rightarrow> UdpHubListener option" where
  "release_duplicate me actual_peer_port i h =
     (case mJTWorkers h ! i of
        None \<Rightarrow> Some h
      | Some w \<Rightarrow> do {
          k \<leftarrow> worker_at w h;
          own \<leftarrow> worker_at me h;
          if mClientAddress own = mClientAddress k \<and> actual_peer_port = mClientPort k
          then if w = me then None
            else do {
              h \<leftarrow> stopThread w h;
              h \<leftarrow> delete_later w h;
              Some (h\<lparr>mJTWorkers := (mJTWorkers h)[i := None],
                mTotalRunningThreads := mTotalRunningThreads h - 1\<rparr>)
            }
          else Some h
        })"

definition releaseDuplicateThreads :: "nat \<Rightarrow> u16 \<Rightarrow> UdpHubListener \<Rightarrow> UdpHubListener option" where
  "releaseDuplicateThreads me actual_peer_port h = do {
     h \<leftarrow> iter_opt (release_duplicate me actual_peer_port) [0..<length (mJTWorkers h)] h;
     k \<leftarrow> worker_at me h;
     Some (set_worker me (k\<lparr>mClientPort := actual_peer_port\<rparr>) h)
   }"

definition queueBufferChanged :: "int \<Rightarrow> UdpHubListener \<Rightarrow> UdpHubListener option" where
  "queueBufferChanged queueBufferSize h =
     iter_opt (\<lambda>i h. case mJTWorkers h ! i of
         None \<Rightarrow> Some h
       | Some w \<Rightarrow> do {
           k \<leftarrow> worker_at w h;
           Some (case mJackTrip k of
               None \<Rightarrow> h
             | Some p \<Rightarrow>
                 if mBufferQueueLength k = queueBufferSize then h
                 else set_worker w (k\<lparr>mBufferQueueLength := queueBufferSize,
                   mJackTrip := Some (p\<lparr>process_queue := queueBufferSize\<rparr>)\<rparr>) h)
         }) [0..<length (mJTWorkers h)] (h\<lparr>hubBufferQueueLength := queueBufferSize\<rparr>)"

definition stopAllThreads :: "UdpHubListener \<Rightarrow> UdpHubListener option" where
  "stopAllThreads h =
     iter_opt (\<lambda>i h. case mJTWorkers h ! i of None \<Rightarrow> Some h | Some w \<Rightarrow> stopThread w h)
       [0..<length (mJTWorkers h)] h"

definition stopCheck :: "bool \<Rightarrow> UdpHubListener \<Rightarrow> UdpHubListener option" where
  "stopCheck sSigInt h = (if mStopped h \<or> sSigInt then stopAllThreads h else Some h)"

section \<open>A worker's session\<close>

definition JackTripProcess_new :: "int \<Rightarrow> JackTripProcess" where
  "JackTripProcess_new queue = \<lparr>process_inputs = 1, process_outputs = 1, process_queue = queue,
     process_protocol = UDP, process_started = False, process_stopped = False\<rparr>"

definition setJackTrip :: "nat \<Rightarrow> int \<Rightarrow> qstring \<Rightarrow> u16 \<Rightarrow> u16 \<Rightarrow> UdpHubListener \<Rightarrow> UdpHubListener option" where
  "setJackTrip w i client_address server_port client_port h = do {
     k \<leftarrow> worker_at w h;
     let k = k\<lparr>mUdpSockTemp := False\<rparr>;
     h \<leftarrow> (if mRunning k then do {
            k \<leftarrow> slotStopProcesses k;
            Some (unpatch w (k\<lparr>mRunning := False\<rparr>) h)
          } else Some (set_worker w k h));
     k \<leftarrow> worker_at w h;
     Some (set_worker w (k\<lparr>mSpawning := True, mID := i, mClientAddress := client_address,
       mServerPort := server_port, mClientPort := client_port, mAssignedClientName := [],
       mJackTrip := Some (JackTripProcess_new (mBufferQueueLength k))\<rparr>) h)
   }"

text \<open>The temporary socket is bound; when that fails, an exception leaves the event loop.\<close>

definition start_worker :: "bool \<Rightarrow> nat \<Rightarrow> UdpHubListener \<Rightarrow> UdpHubListener option" where
  "start_worker bind_ok w h = do {
     k \<leftarrow> worker_at w h;
     if \<not> mSpawning k then Some h
     else if bind_ok
     then Some (set_worker w (k\<lparr>mElapsedTime := 0, mTimeoutTimer := True, mUdpSockTemp := True\<rparr>) h)
     else None
   }"

definition udpTimerTick :: "nat \<Rightarrow> UdpHubListener \<Rightarrow> UdpHubListener option" where
  "udpTimerTick w h = do {
     k \<leftarrow> worker_at w h;
     if \<not> mSpawning k then Some (set_worker w (k\<lparr>mTimeoutTimer := False\<rparr>) h)
     else do {
       elapsed \<leftarrow> checked_int (mElapsedTime k + mSleepTime);
       let k = k\<lparr>mElapsedTime := elapsed\<rparr>;
       if 0 < gTimeOutMultiThreadedServer \<and> gTimeOutMultiThreadedServer \<le> elapsed
       then releaseThread (mID k)
         (set_worker w (k\<lparr>mTimeoutTimer := False, mUdpSockTemp := False, mSpawning := False\<rparr>) h)
       else Some (set_worker w k h)
     }
   }"

text \<open>The peer's header is read before its size is known: a read past the packet is undefined.\<close>

definition give_up :: "nat \<Rightarrow> JackTripWorker \<Rightarrow> UdpHubListener \<Rightarrow> UdpHubListener option" where
  "give_up w k h = releaseThread (mID k) (set_worker w (k\<lparr>mSpawning := False\<rparr>) h)"

definition peer_channels :: "u8 \<Rightarrow> u8 \<Rightarrow> int \<times> int" where
  "peer_channels incoming outgoing =
     (if outgoing = 0 then (uint incoming, uint incoming)
      else if outgoing = 255 then (uint incoming, 0)
      else (uint incoming, uint outgoing))"

definition processPeerSettings :: "bytes \<Rightarrow> nat \<Rightarrow> UdpHubListener \<Rightarrow> UdpHubListener option" where
  "processPeerSettings full_packet w h = do {
     k \<leftarrow> worker_at w h;
     p \<leftarrow> mJackTrip k;
     PeerBufferSize \<leftarrow> getPeerBufferSize DefaultHeader_new full_packet 0;
     PeerSamplingRate \<leftarrow> getPeerSamplingRate DefaultHeader_new full_packet 0;
     PeerBitResolution \<leftarrow> getPeerBitResolution DefaultHeader_new full_packet 0;
     incoming \<leftarrow> getPeerNumIncomingChannels DefaultHeader_new full_packet 0;
     outgoing \<leftarrow> getPeerNumOutgoingChannels DefaultHeader_new full_packet 0;
     if PeerBufferSize = 0 \<or> gMaxBufferSizeInSamples < PeerBufferSize then give_up w k h
     else if incoming < 1 \<or> gMaxAudioChannels < incoming then give_up w k h
     else if outgoing \<noteq> 0 \<and> outgoing \<noteq> 255 \<and> gMaxAudioChannels < outgoing then give_up w k h
     else Some (set_worker w
       (k\<lparr>mJackTrip := Some (p\<lparr>process_inputs := fst (peer_channels incoming outgoing),
            process_outputs := snd (peer_channels incoming outgoing), process_started := True\<rparr>),
          mRunning := True, mSpawning := False\<rparr>) h)
   }"

definition receivedFirstPacketUDP :: "bytes \<Rightarrow> u16 \<Rightarrow> nat \<Rightarrow> UdpHubListener \<Rightarrow> UdpHubListener option" where
  "receivedFirstPacketUDP packet port w h = do {
     k \<leftarrow> worker_at w h;
     if \<not> mSpawning k \<or> \<not> mUdpSockTemp k then Some h
     else do {
       let k = k\<lparr>mTimeoutTimer := False, mUdpSockTemp := False\<rparr>;
       if length packet < 16 then give_up w k h
       else do {
         h \<leftarrow> releaseDuplicateThreads w port (set_worker w k h);
         processPeerSettings packet w h
       }
     }
   }"

definition jacktripStopped :: "nat \<Rightarrow> UdpHubListener \<Rightarrow> UdpHubListener option" where
  "jacktripStopped w h = do {
     k \<leftarrow> worker_at w h;
     if mSpawning k \<or> \<not> mRunning k then Some h
     else releaseThread (mID k) (unpatch w (k\<lparr>mRunning := False\<rparr>) h)
   }"

definition alertPatcher :: "jack \<Rightarrow> qstring \<Rightarrow> nat \<Rightarrow> UdpHubListener \<Rightarrow> UdpHubListener option" where
  "alertPatcher J assigned w h = do {
     k \<leftarrow> worker_at w h;
     if mRunning k then do {
       p \<leftarrow> mJackTrip k;
       h \<leftarrow> registerClientWithPatcher J assigned h;
       Some (set_worker w (k\<lparr>mAssignedClientName := assigned, mPatched := True\<rparr>) h)
     } else Some h
   }"

text \<open>The destructor stops the thread; the object leaves the heap.\<close>

definition delete_worker :: "nat \<Rightarrow> UdpHubListener \<Rightarrow> UdpHubListener option" where
  "delete_worker w h = do {
     h \<leftarrow> stopThread w h;
     Some (h\<lparr>heap := (heap h)(w := None)\<rparr>)
   }"

definition handleWorkerRemoval :: "nat \<Rightarrow> UdpHubListener \<Rightarrow> UdpHubListener option" where
  "handleWorkerRemoval sender h = do {
     k \<leftarrow> worker_at sender h;
     releaseThread (mID k) h
   }"

section \<open>Web clients\<close>

text \<open>
  A worker of WebRTC or WebTransport: created with a connection, given its session when the data
  channel opens or the session is established, and removed when that closes or fails.
\<close>

definition createWebRtcWorker :: "u16 \<times> u16 \<times> int \<Rightarrow> UdpHubListener \<Rightarrow> nat option \<times> UdpHubListener option" where
  "createWebRtcWorker garbage h =
     (case createWorker garbage [] h of
        (None, _, h) \<Rightarrow> (None, Some h)
      | (Some i, _, h) \<Rightarrow> (Some i, do {
          (w, k) \<leftarrow> pooled i h;
          Some (set_worker w (k\<lparr>mWebRtcPeerConnection := True\<rparr>) h)
        }))"

definition onWebRtcDataChannelOpen :: "bool \<Rightarrow> qstring \<Rightarrow> qstring \<Rightarrow> nat \<Rightarrow> UdpHubListener \<Rightarrow> UdpHubListener option" where
  "onWebRtcDataChannelOpen dataChannel peerAddress clientName w h = do {
     k \<leftarrow> worker_at w h;
     if \<not> mWebRtcPeerConnection k \<or> \<not> dataChannel then Some h
     else do {
       let h = set_worker w (k\<lparr>mClientName := clientName\<rparr>) h;
       h \<leftarrow> setJackTrip w (mID k) peerAddress (of_int (mBasePort h + mID k)) 0 h;
       k \<leftarrow> worker_at w h;
       p \<leftarrow> mJackTrip k;
       Some (set_worker w (k\<lparr>mDataProtocol := WEBRTC, mJackTrip := Some (p\<lparr>process_protocol := WEBRTC\<rparr>)\<rparr>) h)
     }
   }"

definition receivedFirstPacketWebRtc :: "bytes \<Rightarrow> nat \<Rightarrow> UdpHubListener \<Rightarrow> UdpHubListener option" where
  "receivedFirstPacketWebRtc packet w h = do {
     k \<leftarrow> worker_at w h;
     if \<not> mSpawning k then Some h else processPeerSettings packet w h
   }"

text \<open>Closed or failed: the thread is stopped, then the listener handles the removal from its queue.\<close>

definition web_connection_ended :: "nat \<Rightarrow> UdpHubListener \<Rightarrow> UdpHubListener option" where
  "web_connection_ended w h = stopThread w h"

definition onWebTransportSessionEstablished :: "qstring \<Rightarrow> qstring \<Rightarrow> nat \<Rightarrow> UdpHubListener \<Rightarrow> UdpHubListener option" where
  "onWebTransportSessionEstablished peerAddress clientName w h = do {
     k \<leftarrow> worker_at w h;
     if \<not> mWebTransportSession k then Some h
     else do {
       let h = set_worker w (k\<lparr>mClientName := clientName\<rparr>) h;
       h \<leftarrow> setJackTrip w (mID k) peerAddress (of_int (mBasePort h + mID k)) 0 h;
       k \<leftarrow> worker_at w h;
       p \<leftarrow> mJackTrip k;
       Some (set_worker w (k\<lparr>mDataProtocol := WEBTRANSPORT,
         mJackTrip := Some (p\<lparr>process_protocol := WEBTRANSPORT\<rparr>)\<rparr>) h)
     }
   }"

definition createWebTransportWorker :: "u16 \<times> u16 \<times> int \<Rightarrow> (qstring \<times> qstring) option \<Rightarrow> UdpHubListener \<Rightarrow>
    nat option \<times> UdpHubListener option" where
  "createWebTransportWorker garbage session h =
     (case createWorker garbage [] h of
        (None, _, h) \<Rightarrow> (None, Some h)
      | (Some i, _, h) \<Rightarrow> (Some i, do {
          (w, k) \<leftarrow> pooled i h;
          let h = set_worker w (k\<lparr>mWebTransportSession := True\<rparr>) h;
          case session of None \<Rightarrow> Some h
          | Some (peerAddress, clientName) \<Rightarrow> onWebTransportSessionEstablished peerAddress clientName w h
        }))"

definition receivedFirstPacketWebTransport :: "bytes \<Rightarrow> nat \<Rightarrow> UdpHubListener \<Rightarrow> UdpHubListener option" where
  "receivedFirstPacketWebTransport packet w h = do {
     k \<leftarrow> worker_at w h;
     if \<not> mSpawning k then Some h
     else if \<not> mWebTransportSession k then None
     else processPeerSettings packet w h
   }"

section \<open>Admission of a client\<close>

text \<open>
  What the listener does with the name of a client that may connect: it takes a slot, sets up the
  worker, sends its port and starts it; the result is the port, or none when the pool is full.
\<close>

definition admit_client :: "u16 \<times> u16 \<times> int \<Rightarrow> bool \<Rightarrow> bool \<Rightarrow> qstring \<Rightarrow> qstring \<Rightarrow> UdpHubListener \<Rightarrow>
    (u16 option \<times> UdpHubListener) option" where
  "admit_client garbage port_sent bind_ok address clientName h =
     (case createWorker garbage clientName h of
        (None, _, h) \<Rightarrow> Some (None, h)
      | (Some i, _, h) \<Rightarrow> do {
          w \<leftarrow> mJTWorkers h ! i;
          h \<leftarrow> setJackTrip w (int i) address (of_int (mBasePort h + int i)) 0 h;
          k \<leftarrow> worker_at w h;
          h \<leftarrow> (if port_sent then start_worker bind_ok w h else releaseThread (int i) h);
          Some (Some (mServerPort k), h)
        })"

end
