(* ===== verification/HubSpec.thy ===== *)
theory HubSpec
  imports HubWorkers
begin

text \<open>
  The pool of a hub server whose clients connect over UDP: every event keeps the invariant of the
  pool and has a result, workers leave the pool when they end, a client that sends nothing is removed
  after its time, and no two sessions have the same port or the same peer.  Then what a
  WebRTC client does to the slot of another.
\<close>

section \<open>The invariant of the pool\<close>

definition awaiting :: "JackTripWorker \<Rightarrow> bool" where
  "awaiting k \<longleftrightarrow> mSpawning k \<and> mTimeoutTimer k \<and> mUdpSockTemp k"

definition live :: "JackTripWorker \<Rightarrow> bool" where
  "live k \<longleftrightarrow> mRunning k \<or> awaiting k"

definition idle :: "JackTripWorker \<Rightarrow> bool" where
  "idle k \<longleftrightarrow> \<not> mRunning k \<and> \<not> mTimeoutTimer k \<and> \<not> mUdpSockTemp k"

definition worker_ok :: "int \<Rightarrow> JackTripWorker \<Rightarrow> bool" where
  "worker_ok base k \<longleftrightarrow> 0 \<le> mID k \<and> mServerPort k = of_int (base + mID k) \<and> mJackTrip k \<noteq> None \<and>
     (mPatched k \<longrightarrow> mRunning k) \<and> (mSpawning k \<longrightarrow> \<not> mRunning k \<and> mClientPort k = 0) \<and>
     (mRunning k \<longrightarrow> mClientPort k \<noteq> 0 \<and> \<not> mTimeoutTimer k \<and> \<not> mUdpSockTemp k) \<and>
     (mTimeoutTimer k \<longrightarrow> 0 \<le> mElapsedTime k \<and> mElapsedTime k < gTimeOutMultiThreadedServer)"

definition same_peer :: "JackTripWorker \<Rightarrow> JackTripWorker \<Rightarrow> bool" where
  "same_peer k l \<longleftrightarrow> mClientAddress k = mClientAddress l \<and> mClientPort k = mClientPort l \<and> mClientPort k \<noteq> 0"

definition occupied :: "UdpHubListener \<Rightarrow> nat set" where
  "occupied h = {i. i < length (mJTWorkers h) \<and> mJTWorkers h ! i \<noteq> None}"

text \<open>The workers in \<open>X\<close> are between two of their states.\<close>

definition slots_ok :: "nat set \<Rightarrow> UdpHubListener \<Rightarrow> bool" where
  "slots_ok X h \<longleftrightarrow> (\<forall>i w. i < gMaxThreads \<longrightarrow> mJTWorkers h ! i = Some w \<longrightarrow>
     (\<exists>k. worker_at w h = Some k \<and> mID k = int i \<and> (w \<notin> X \<longrightarrow> live k) \<and> \<not> deleted_later k))"

definition objects_ok :: "UdpHubListener \<Rightarrow> bool" where
  "objects_ok h \<longleftrightarrow> (\<forall>w k. worker_at w h = Some k \<longrightarrow> worker_ok (mBasePort h) k \<and> w < next_address h \<and>
     (Some w \<notin> set (mJTWorkers h) \<longrightarrow> idle k \<and> deleted_later k))"

definition peers_distinct :: "UdpHubListener \<Rightarrow> bool" where
  "peers_distinct h \<longleftrightarrow> (\<forall>v w k l. Some v \<in> set (mJTWorkers h) \<longrightarrow> Some w \<in> set (mJTWorkers h) \<longrightarrow>
     worker_at v h = Some k \<longrightarrow> worker_at w h = Some l \<longrightarrow> same_peer k l \<longrightarrow> v = w)"

definition pool_inv :: "nat set \<Rightarrow> UdpHubListener \<Rightarrow> bool" where
  "pool_inv X h \<longleftrightarrow> length (mJTWorkers h) = gMaxThreads \<and> slots_ok X h \<and> objects_ok h \<and> peers_distinct h \<and>
     mTotalRunningThreads h = int (card (occupied h))"

abbreviation pool_ok :: "UdpHubListener \<Rightarrow> bool" where
  "pool_ok \<equiv> pool_inv {}"

section \<open>Reading and writing the heap\<close>

lemma set_worker_fields [simp]:
  "worker_at v (set_worker w k h) = (if v = w then Some k else worker_at v h)"
  "mJTWorkers (set_worker w k h) = mJTWorkers h" "next_address (set_worker w k h) = next_address h"
  "mTotalRunningThreads (set_worker w k h) = mTotalRunningThreads h"
  "mBasePort (set_worker w k h) = mBasePort h" "occupied (set_worker w k h) = occupied h"
  "set_worker w k (set_worker w l h) = set_worker w k h"
  by (simp_all add: set_worker_def worker_at_def occupied_def)

lemma worker_at_update [simp]:
  "worker_at w (h\<lparr>mPatcher := p\<rparr>) = worker_at w h"
  "worker_at w (h\<lparr>mJTWorkers := s\<rparr>) = worker_at w h"
  "worker_at w (h\<lparr>mTotalRunningThreads := n\<rparr>) = worker_at w h"
  "worker_at w (h\<lparr>next_address := a\<rparr>) = worker_at w h"
  "worker_at w (h\<lparr>hubBufferQueueLength := q\<rparr>) = worker_at w h"
  by (simp_all add: worker_at_def)

lemma pool_inv_irrelevant [simp]:
  "pool_inv X (h\<lparr>mPatcher := p\<rparr>) = pool_inv X h"
  "pool_inv X (h\<lparr>hubBufferQueueLength := q\<rparr>) = pool_inv X h"
  by (simp_all add: pool_inv_def slots_ok_def objects_ok_def peers_distinct_def occupied_def)

lemma pool_length: "pool_inv X h \<Longrightarrow> length (mJTWorkers h) = gMaxThreads"
  by (simp add: pool_inv_def)

lemma pool_slot:
  assumes "pool_inv X h" and "i < gMaxThreads" and "mJTWorkers h ! i = Some w"
  obtains k where "worker_at w h = Some k" and "mID k = int i" and "w \<notin> X \<Longrightarrow> live k" and "\<not> deleted_later k"
    and "Some w \<in> set (mJTWorkers h)"
  using assms that unfolding pool_inv_def slots_ok_def by (metis nth_mem)

lemma pooled_slot:
  assumes "pool_inv X h" and "Some w \<in> set (mJTWorkers h)"
  obtains i k where "i < gMaxThreads" and "mJTWorkers h ! i = Some w" and "worker_at w h = Some k"
    and "mID k = int i" and "w \<notin> X \<Longrightarrow> live k" and "\<not> deleted_later k"
proof -
  obtain i where i: "i < gMaxThreads" "mJTWorkers h ! i = Some w"
    using assms pool_length [OF assms(1)] by (metis in_set_conv_nth)
  then show thesis using pool_slot [OF assms(1) i] that by metis
qed

lemma object_ok:
  "pool_inv X h \<Longrightarrow> worker_at w h = Some k \<Longrightarrow> worker_ok (mBasePort h) k"
  "pool_inv X h \<Longrightarrow> worker_at w h = Some k \<Longrightarrow> w < next_address h"
  by (auto simp: pool_inv_def objects_ok_def)

lemma live_pooled:
  assumes "pool_inv X h" and "worker_at w h = Some k" and "\<not> idle k"
  shows "Some w \<in> set (mJTWorkers h)" and "nat (mID k) < gMaxThreads"
    and "mJTWorkers h ! nat (mID k) = Some w" and "0 \<le> mID k"
proof -
  show w: "Some w \<in> set (mJTWorkers h)" using assms by (auto simp: pool_inv_def objects_ok_def)
  obtain i l where "i < gMaxThreads" "mJTWorkers h ! i = Some w" "worker_at w h = Some l" "mID l = int i"
    using pooled_slot [OF assms(1) w] by metis
  then show "nat (mID k) < gMaxThreads" "mJTWorkers h ! nat (mID k) = Some w" "0 \<le> mID k"
    using assms(2) by simp_all
qed

lemma slot_unique:
  assumes "pool_inv X h" and "i < gMaxThreads" and "j < gMaxThreads"
    and "mJTWorkers h ! i = Some w" and "mJTWorkers h ! j = Some w"
  shows "i = j"
  using pool_slot [OF assms(1,2,4)] pool_slot [OF assms(1,3,5)] by (metis of_nat_eq_iff option.inject)

section \<open>Updates that keep the invariant\<close>

lemma deleted_update [simp]:
  "worker_ok base (k\<lparr>deleted_later := d\<rparr>) = worker_ok base k" "idle (k\<lparr>deleted_later := d\<rparr>) = idle k"
  by (simp_all add: worker_ok_def idle_def)

lemma pool_inv_update:
  assumes inv: "pool_inv X h" and k: "worker_at w h = Some k" and w: "Some w \<in> set (mJTWorkers h)"
    and ok: "worker_ok (mBasePort h) k'" and same: "mID k' = mID k" "deleted_later k' = deleted_later k"
    and live: "w \<notin> Y \<Longrightarrow> live k'" and "X \<subseteq> insert w Y"
    and peers: "\<And>v l. v \<noteq> w \<Longrightarrow> Some v \<in> set (mJTWorkers h) \<Longrightarrow> worker_at v h = Some l \<Longrightarrow> \<not> same_peer k' l"
  shows "pool_inv Y (set_worker w k' h)"
  unfolding pool_inv_def
proof (intro conjI)
  have sym: "same_peer l l' = same_peer l' l" for l l' by (auto simp: same_peer_def)
  have s: "slots_ok X h" "objects_ok h" "peers_distinct h" using inv by (simp_all add: pool_inv_def)
  show "slots_ok Y (set_worker w k' h)"
    unfolding slots_ok_def
  proof (intro allI impI)
    fix i v assume "i < gMaxThreads" "mJTWorkers (set_worker w k' h) ! i = Some v"
    moreover then obtain l where "worker_at v h = Some l" "mID l = int i" "v \<notin> X \<longrightarrow> live l" "\<not> deleted_later l"
      using s(1) unfolding slots_ok_def by auto
    ultimately show "\<exists>l. worker_at v (set_worker w k' h) = Some l \<and> mID l = int i \<and> (v \<notin> Y \<longrightarrow> live l) \<and> \<not> deleted_later l"
      using assms(8) live k same by auto
  qed
  show "objects_ok (set_worker w k' h)" using s(2) ok w k by (auto simp: objects_ok_def)
  show "peers_distinct (set_worker w k' h)"
    using s(3) peers peers [unfolded sym [of k']] unfolding peers_distinct_def by auto
qed (use inv in \<open>simp_all add: pool_inv_def\<close>)

lemma pool_inv_update_idle:
  assumes "pool_inv X h" and "worker_at w h = Some k" and "Some w \<notin> set (mJTWorkers h)"
    and "worker_ok (mBasePort h) k'" and "idle k'" and "deleted_later k'"
  shows "pool_inv X (set_worker w k' h)"
  using assms unfolding pool_inv_def slots_ok_def objects_ok_def peers_distinct_def
  by (auto simp: in_set_conv_nth)

text \<open>A worker leaves its slot.\<close>

definition vacate :: "nat \<Rightarrow> nat \<Rightarrow> JackTripWorker \<Rightarrow> UdpHubListener \<Rightarrow> UdpHubListener" where
  "vacate i w k h = (set_worker w (k\<lparr>deleted_later := True\<rparr>) h)
     \<lparr>mJTWorkers := (mJTWorkers h)[i := None], mTotalRunningThreads := mTotalRunningThreads h - 1\<rparr>"

lemma occupied_vacate:
  "i < length (mJTWorkers h) \<Longrightarrow> occupied (vacate i w k h) = occupied h - {i}"
  by (auto simp: occupied_def vacate_def nth_list_update)

lemma vacate_fields [simp]:
  "worker_at v (vacate i w k h) = (if v = w then Some (k\<lparr>deleted_later := True\<rparr>) else worker_at v h)"
  "mJTWorkers (vacate i w k h) = (mJTWorkers h)[i := None]"
  "next_address (vacate i w k h) = next_address h" "mBasePort (vacate i w k h) = mBasePort h"
  "mTotalRunningThreads (vacate i w k h) = mTotalRunningThreads h - 1"
  by (simp_all add: vacate_def)

lemma pool_inv_vacate:
  assumes inv: "pool_inv X h" and i: "i < gMaxThreads" "mJTWorkers h ! i = Some w"
    and "worker_ok (mBasePort h) k" and "idle k" and "X \<subseteq> insert w Y"
  shows "pool_inv Y (vacate i w k h)"
  unfolding pool_inv_def
proof (intro conjI)
  have len: "length (mJTWorkers h) = gMaxThreads" using inv by (rule pool_length)
  have other: "mJTWorkers h ! j \<noteq> Some w" if "j < gMaxThreads" "j \<noteq> i" for j
    using slot_unique [OF inv that(1) i(1) _ i(2)] that(2) by blast
  have slots': "Some v \<in> set ((mJTWorkers h)[i := None]) \<longleftrightarrow> Some v \<in> set (mJTWorkers h) \<and> v \<noteq> w" for v
  proof -
    have "Some v \<in> set ((mJTWorkers h)[i := None]) \<longleftrightarrow> (\<exists>j<gMaxThreads. j \<noteq> i \<and> mJTWorkers h ! j = Some v)"
      using len unfolding in_set_conv_nth length_list_update
      by (metis nth_list_update_eq nth_list_update_neq option.distinct(1))
    then show ?thesis using i(2) len other unfolding in_set_conv_nth by (metis option.inject)
  qed
  have s: "slots_ok X h" "objects_ok h" "peers_distinct h" using inv by (simp_all add: pool_inv_def)
  show "slots_ok Y (vacate i w k h)"
    unfolding slots_ok_def
  proof (intro allI impI)
    fix j v assume j: "j < gMaxThreads" "mJTWorkers (vacate i w k h) ! j = Some v"
    then have "j \<noteq> i" "mJTWorkers h ! j = Some v" using len i by (auto simp: nth_list_update split: if_splits)
    moreover then have "v \<noteq> w" using other j(1) by blast
    moreover obtain l where "worker_at v h = Some l" "mID l = int j" "v \<notin> X \<longrightarrow> live l" "\<not> deleted_later l"
      using s(1) j(1) calculation(2) unfolding slots_ok_def by auto
    ultimately show "\<exists>k'. worker_at v (vacate i w k h) = Some k' \<and> mID k' = int j \<and> (v \<notin> Y \<longrightarrow> live k') \<and>
        \<not> deleted_later k'"
      using assms(6) by auto
  qed
  obtain l where "worker_at w h = Some l" using pool_slot [OF inv i] by metis
  then have "w < next_address h" by (rule object_ok(2) [OF inv])
  then show "objects_ok (vacate i w k h)"
    using s(2) assms(4,5) unfolding objects_ok_def vacate_fields slots' by auto
  show "peers_distinct (vacate i w k h)"
    using s(3) unfolding peers_distinct_def vacate_fields slots' by auto
  have "i \<in> occupied h" using i len by (simp add: occupied_def)
  moreover have "finite (occupied h)" by (simp add: occupied_def)
  moreover have "0 < card (occupied h)" using calculation by (auto simp: card_gt_0_iff)
  ultimately show "mTotalRunningThreads (vacate i w k h) = int (card (occupied (vacate i w k h)))"
    using inv i len by (simp add: occupied_vacate pool_inv_def)
qed (use inv in \<open>simp add: pool_inv_def\<close>)

lemma releaseThread_vacates:
  assumes "pool_inv X h" and "i < gMaxThreads" and "mJTWorkers h ! i = Some w" and "worker_at w h' = Some k"
    and "mJTWorkers h' = mJTWorkers h"
  shows "releaseThread (int i) h' = Some (vacate i w k h')"
  using assms(2-) pool_length [OF assms(1)]
  by (simp add: releaseThread_def slot_at_def delete_later_def vacate_def set_worker_def worker_at_def Let_def)

text \<open>A new worker takes an empty slot.\<close>

definition occupy :: "nat \<Rightarrow> JackTripWorker \<Rightarrow> UdpHubListener \<Rightarrow> UdpHubListener" where
  "occupy i k h = (set_worker (next_address h) k h)
     \<lparr>next_address := next_address h + 1, mJTWorkers := (mJTWorkers h)[i := Some (next_address h)],
      mTotalRunningThreads := mTotalRunningThreads h + 1\<rparr>"

lemma occupy_fields [simp]:
  "worker_at v (occupy i k h) = (if v = next_address h then Some k else worker_at v h)"
  "mJTWorkers (occupy i k h) = (mJTWorkers h)[i := Some (next_address h)]"
  "next_address (occupy i k h) = next_address h + 1" "mBasePort (occupy i k h) = mBasePort h"
  "mTotalRunningThreads (occupy i k h) = mTotalRunningThreads h + 1"
  by (simp_all add: occupy_def)

lemma occupied_occupy: "i < length (mJTWorkers h) \<Longrightarrow> occupied (occupy i k h) = insert i (occupied h)"
  by (auto simp: occupied_def occupy_def nth_list_update)

lemma pool_inv_occupy:
  assumes inv: "pool_inv X h" and i: "i < gMaxThreads" "mJTWorkers h ! i = None"
    and k: "worker_ok (mBasePort h) k" "mID k = int i" "\<not> deleted_later k" "mClientPort k = 0"
    and live: "next_address h \<notin> Y \<Longrightarrow> live k" and "X \<subseteq> Y"
  shows "pool_inv Y (occupy i k h)"
  unfolding pool_inv_def
proof (intro conjI)
  let ?w = "next_address h"
  have len: "length (mJTWorkers h) = gMaxThreads" using inv by (rule pool_length)
  have s: "slots_ok X h" "objects_ok h" "peers_distinct h" using inv by (simp_all add: pool_inv_def)
  have fresh: "Some ?w \<notin> set (mJTWorkers h)" using pooled_slot [OF inv] object_ok(2) [OF inv] by (metis less_irrefl)
  have slots': "Some v \<in> set ((mJTWorkers h)[i := Some ?w]) \<longleftrightarrow> v = ?w \<or> Some v \<in> set (mJTWorkers h)" for v
    using i len unfolding in_set_conv_nth length_list_update
    by (metis nth_list_update_eq nth_list_update_neq option.distinct(1) option.inject)
  show "slots_ok Y (occupy i k h)"
    unfolding slots_ok_def
  proof (intro allI impI)
    fix j v assume j: "j < gMaxThreads" "mJTWorkers (occupy i k h) ! j = Some v"
    show "\<exists>l. worker_at v (occupy i k h) = Some l \<and> mID l = int j \<and> (v \<notin> Y \<longrightarrow> live l) \<and> \<not> deleted_later l"
    proof (cases "j = i")
      case True
      then show ?thesis using j len k live by auto
    next
      case False
      then have v: "mJTWorkers h ! j = Some v" using j by simp
      moreover have "v \<noteq> ?w" using v j(1) len fresh by (metis nth_mem)
      moreover obtain l where "worker_at v h = Some l" "mID l = int j" "v \<notin> X \<longrightarrow> live l" "\<not> deleted_later l"
        using s(1) j(1) v unfolding slots_ok_def by auto
      ultimately show ?thesis using assms(8,9) by auto
    qed
  qed
  show "objects_ok (occupy i k h)"
    using s(2) k(1) unfolding objects_ok_def occupy_fields slots' by (auto intro: less_SucI)
  show "peers_distinct (occupy i k h)"
    using s(3) k(4) fresh unfolding peers_distinct_def occupy_fields slots' by (auto simp: same_peer_def)
  have "i \<notin> occupied h" "finite (occupied h)" using i by (simp_all add: occupied_def)
  then show "mTotalRunningThreads (occupy i k h) = int (card (occupied (occupy i k h)))"
    using inv i len by (simp add: occupied_occupy pool_inv_def)
qed (use inv in \<open>simp add: pool_inv_def\<close>)

section \<open>The functions of the pool\<close>

lemma unpatch_form:
  "\<exists>p. unpatch w k h = set_worker w (k\<lparr>mPatched := False\<rparr>) (h\<lparr>mPatcher := p\<rparr>)"
proof (cases "mPatched k")
  case True
  have form: "\<exists>p. unregisterClientWithPatcher c h = h\<lparr>mPatcher := p\<rparr>" for c
  proof (cases "patching_disabled h \<or> mHubPatch h = RESERVEDMATRIX")
    case True
    then show ?thesis by (intro exI [of _ "mPatcher h"]) (simp add: unregisterClientWithPatcher_def)
  qed (auto simp: unregisterClientWithPatcher_def)
  from form obtain p where "unregisterClientWithPatcher (mAssignedClientName k) h = h\<lparr>mPatcher := p\<rparr>" by blast
  then show ?thesis using True by (intro exI [of _ p]) (simp add: unpatch_def)
next
  case False
  then have "k\<lparr>mPatched := False\<rparr> = k" by (cases k) simp
  then have "unpatch w k h = set_worker w (k\<lparr>mPatched := False\<rparr>) (h\<lparr>mPatcher := mPatcher h\<rparr>)"
    using False by (simp only: unpatch_def) simp
  then show ?thesis ..
qed

lemma stopThread_form:
  assumes k: "worker_at w h = Some k" and ok: "worker_ok base k" and "live k \<or> idle k"
  shows "\<exists>p k'. stopThread w h = Some (set_worker w k' (h\<lparr>mPatcher := p\<rparr>)) \<and> worker_ok base k' \<and> idle k' \<and>
    \<not> mSpawning k' \<and> mID k' = mID k \<and> deleted_later k' = deleted_later k \<and>
    mClientAddress k' = mClientAddress k \<and> mClientPort k' = mClientPort k"
proof (cases "mRunning k")
  case True
  then obtain j where j: "mJackTrip k = Some j" using ok by (auto simp: worker_ok_def)
  let ?k = "k\<lparr>mRunning := False, mJackTrip := Some (j\<lparr>process_stopped := True\<rparr>)\<rparr>"
  obtain p where p: "unpatch w ?k h = set_worker w (?k\<lparr>mPatched := False\<rparr>) (h\<lparr>mPatcher := p\<rparr>)"
    using unpatch_form by blast
  let ?k' = "?k\<lparr>mPatched := False, mWebRtcPeerConnection := False, mWebTransportSession := False\<rparr>"
  have "stopThread w h = Some (set_worker w ?k' (h\<lparr>mPatcher := p\<rparr>))"
    using k True j p by (simp add: stopThread_def slotStopProcesses_def)
  moreover have "worker_ok base ?k'" "idle ?k'" "\<not> mSpawning ?k'" using ok True by (auto simp: worker_ok_def idle_def)
  ultimately show ?thesis by (intro exI [of _ p] exI [of _ ?k']) simp
next
  case False
  let ?k = "if mSpawning k then k\<lparr>mSpawning := False, mUdpSockTemp := False, mTimeoutTimer := False\<rparr> else k"
  let ?k' = "?k\<lparr>mWebRtcPeerConnection := False, mWebTransportSession := False\<rparr>"
  have "stopThread w h = Some (set_worker w ?k' (h\<lparr>mPatcher := mPatcher h\<rparr>))"
    using k False by (simp add: stopThread_def)
  moreover have "worker_ok base ?k'" "idle ?k'" "\<not> mSpawning ?k'"
    using ok False assms(3) by (auto simp: worker_ok_def idle_def live_def awaiting_def)
  ultimately show ?thesis by (intro exI [of _ "mPatcher h"] exI [of _ ?k']) simp
qed

lemma first_empty_Some:
  "first_empty xs = Some i \<Longrightarrow> i < length xs \<and> xs ! i = None \<and> (\<forall>j<i. xs ! j \<noteq> None)"
proof -
  assume "first_empty xs = Some i"
  then obtain rest where f: "filter (\<lambda>i. xs ! i = None) [0..<length xs] = i # rest"
    by (auto simp: first_empty_def split: list.splits)
  then have "i \<in> set (filter (\<lambda>i. xs ! i = None) [0..<length xs])" by simp
  then have i: "i < length xs" "xs ! i = None" by simp_all
  moreover have "xs ! j \<noteq> None" if "j < i" for j
  proof
    assume "xs ! j = None"
    then have "j \<in> set (i # rest)" using that i(1) unfolding f [symmetric] by simp
    moreover have "sorted (i # rest)" unfolding f [symmetric] by (simp add: sorted_wrt_filter)
    ultimately show False using that by auto
  qed
  ultimately show ?thesis by blast
qed

lemma first_empty_None: "first_empty xs = None \<longleftrightarrow> (\<forall>i<length xs. xs ! i \<noteq> None)"
proof -
  have "first_empty xs = None \<longleftrightarrow> filter (\<lambda>i. xs ! i = None) [0..<length xs] = []"
    by (simp add: first_empty_def split: list.splits)
  also have "\<dots> \<longleftrightarrow> (\<forall>i<length xs. xs ! i \<noteq> None)" by (auto simp: filter_empty_conv)
  finally show ?thesis .
qed

lemma admit_full:
  "first_empty (mJTWorkers h) = None \<Longrightarrow> admit_client garbage sent bind_ok address name h = Some (None, h)"
  by (simp add: admit_client_def createWorker_def)

lemma admit_form:
  assumes len: "length (mJTWorkers h) = gMaxThreads" and i: "first_empty (mJTWorkers h) = Some i"
  shows "\<exists>k. worker_ok (mBasePort h) k \<and> mID k = int i \<and> \<not> deleted_later k \<and> mClientPort k = 0 \<and>
    mClientAddress k = address \<and> mElapsedTime k = 0 \<and> awaiting k \<and>
    admit_client garbage True True address name h = Some (Some (of_int (mBasePort h + int i)), occupy i k h)"
    and "\<exists>k. worker_ok (mBasePort h) k \<and> mID k = int i \<and> \<not> deleted_later k \<and> mClientPort k = 0 \<and> idle k \<and>
    admit_client garbage False bind_ok address name h =
      Some (Some (of_int (mBasePort h + int i)), vacate i (next_address h) k (occupy i k h))"
proof -
  have slot: "i < gMaxThreads" "mJTWorkers h ! i = None" using first_empty_Some [OF i] len by auto
  obtain g1 g2 g3 where g: "garbage = (g1, g2, g3)" by (cases garbage)
  define name' where "name' = (if mAppendThreadID h then name @ [95] @ decimal (i + 1) else name)"
  define k where "k = (JackTripWorker_new g1 g2 g3 (hubBufferQueueLength h) name')\<lparr>mSpawning := True, mID := int i,
      mClientAddress := address, mServerPort := of_int (mBasePort h + int i), mClientPort := 0,
      mAssignedClientName := [], mJackTrip := Some (JackTripProcess_new (hubBufferQueueLength h))\<rparr>"
  let ?k = "k\<lparr>mElapsedTime := 0, mTimeoutTimer := True, mUdpSockTemp := True\<rparr>"
  have "admit_client garbage True True address name h = Some (Some (of_int (mBasePort h + int i)), occupy i ?k h)"
    using slot len i g
    by (simp add: admit_client_def createWorker_def setJackTrip_def start_worker_def occupy_def set_worker_def
        worker_at_def JackTripWorker_new_def k_def name'_def Let_def)
  moreover have "worker_ok (mBasePort h) ?k" "mID ?k = int i" "\<not> deleted_later ?k" "mClientPort ?k = 0" "awaiting ?k"
    "mClientAddress ?k = address" "mElapsedTime ?k = 0"
    by (auto simp: worker_ok_def k_def JackTripWorker_new_def gTimeOutMultiThreadedServer_def awaiting_def)
  ultimately show "\<exists>k. worker_ok (mBasePort h) k \<and> mID k = int i \<and> \<not> deleted_later k \<and> mClientPort k = 0 \<and>
    mClientAddress k = address \<and> mElapsedTime k = 0 \<and> awaiting k \<and>
    admit_client garbage True True address name h = Some (Some (of_int (mBasePort h + int i)), occupy i k h)"
    by blast
  have "admit_client garbage False bind_ok address name h =
      Some (Some (of_int (mBasePort h + int i)), vacate i (next_address h) k (occupy i k h))"
    using slot len i g
    by (simp add: admit_client_def createWorker_def setJackTrip_def releaseThread_def slot_at_def delete_later_def
        occupy_def vacate_def set_worker_def worker_at_def JackTripWorker_new_def k_def name'_def Let_def)
  moreover have "worker_ok (mBasePort h) k" "mID k = int i" "\<not> deleted_later k" "mClientPort k = 0" "idle k"
    by (auto simp: worker_ok_def k_def JackTripWorker_new_def idle_def)
  ultimately show "\<exists>k. worker_ok (mBasePort h) k \<and> mID k = int i \<and> \<not> deleted_later k \<and> mClientPort k = 0 \<and> idle k \<and>
    admit_client garbage False bind_ok address name h =
      Some (Some (of_int (mBasePort h + int i)), vacate i (next_address h) k (occupy i k h))"
    by blast
qed

lemma admit_ok:
  assumes inv: "pool_ok h"
  shows "\<exists>r h'. admit_client garbage sent (bind_ok \<or> \<not> sent) address name h = Some (r, h') \<and> pool_ok h' \<or> \<not> bind_ok \<and> sent"
proof (cases "first_empty (mJTWorkers h)")
  case None
  then show ?thesis using inv by (simp add: admit_full)
next
  case (Some i)
  have slot: "i < gMaxThreads" "mJTWorkers h ! i = None" using first_empty_Some [OF Some] pool_length [OF inv] by auto
  show ?thesis
  proof (cases sent)
    case True
    obtain k where k: "worker_ok (mBasePort h) k" "mID k = int i" "\<not> deleted_later k" "mClientPort k = 0" "awaiting k"
      "admit_client garbage True True address name h = Some (Some (of_int (mBasePort h + int i)), occupy i k h)"
      using admit_form(1) [OF pool_length [OF inv] Some] by blast
    then have "pool_ok (occupy i k h)"
      by (intro pool_inv_occupy [OF inv slot]) (simp_all add: live_def)
    then show ?thesis using True k(6) by auto
  next
    case False
    obtain k where k: "worker_ok (mBasePort h) k" "mID k = int i" "\<not> deleted_later k" "mClientPort k = 0" "idle k"
      "admit_client garbage False True address name h =
        Some (Some (of_int (mBasePort h + int i)), vacate i (next_address h) k (occupy i k h))"
      using admit_form(2) [OF pool_length [OF inv] Some] by blast
    have "pool_inv {next_address h} (occupy i k h)"
      by (rule pool_inv_occupy [OF inv slot k(1-4)]) simp_all
    then have "pool_ok (vacate i (next_address h) k (occupy i k h))"
      by (rule pool_inv_vacate) (use k slot pool_length [OF inv] in simp_all)
    then show ?thesis using False k(6) by auto
  qed
qed

lemma tick_awaiting:
  assumes inv: "pool_ok h" and k: "worker_at w h = Some k" "mTimeoutTimer k"
  shows "\<exists>l. worker_ok (mBasePort h) l \<and> mID l = mID k \<and> mElapsedTime l = mElapsedTime k + mSleepTime \<and>
    (if mElapsedTime k + mSleepTime < gTimeOutMultiThreadedServer
     then udpTimerTick w h = Some (set_worker w l h) \<and> awaiting l \<and> pool_ok (set_worker w l h)
     else udpTimerTick w h = Some (vacate (nat (mID k)) w l h) \<and> idle l \<and> pool_ok (vacate (nat (mID k)) w l h))"
proof -
  have ok: "worker_ok (mBasePort h) k" using object_ok [OF inv] k by blast
  have "\<not> idle k" using k by (simp add: idle_def)
  note slot = live_pooled [OF inv k(1) this]
  then obtain k' where "worker_at w h = Some k'" "live k'" "\<not> deleted_later k'"
    using pooled_slot [OF inv slot(1)] by (metis empty_iff)
  then have await: "awaiting k" "\<not> deleted_later k" using k ok by (auto simp: live_def worker_ok_def)
  have checked: "checked_int (mElapsedTime k + mSleepTime) = Some (mElapsedTime k + mSleepTime)"
    using ok k(2) by (auto simp: checked_int_def int32_range_def worker_ok_def gTimeOutMultiThreadedServer_def mSleepTime_def)
  show ?thesis
  proof (cases "mElapsedTime k + mSleepTime < gTimeOutMultiThreadedServer")
    case True
    let ?l = "k\<lparr>mElapsedTime := mElapsedTime k + mSleepTime\<rparr>"
    have "udpTimerTick w h = Some (set_worker w ?l h)"
      using k await checked True by (simp add: udpTimerTick_def awaiting_def Let_def)
    moreover have l: "worker_ok (mBasePort h) ?l" "awaiting ?l"
      using ok await True by (auto simp: worker_ok_def awaiting_def mSleepTime_def)
    moreover have "pool_ok (set_worker w ?l h)"
      by (rule pool_inv_update [OF inv k(1) slot(1)]) (use l ok await in \<open>auto simp: live_def same_peer_def worker_ok_def awaiting_def\<close>)
    ultimately show ?thesis using True by (intro exI [of _ ?l]) simp
  next
    case False
    let ?l = "k\<lparr>mElapsedTime := mElapsedTime k + mSleepTime, mTimeoutTimer := False, mUdpSockTemp := False, mSpawning := False\<rparr>"
    have l: "worker_ok (mBasePort h) ?l" "idle ?l"
      using ok await by (auto simp: worker_ok_def awaiting_def idle_def)
    have "releaseThread (int (nat (mID k))) (set_worker w ?l h) = Some (vacate (nat (mID k)) w ?l (set_worker w ?l h))"
      by (rule releaseThread_vacates [OF inv slot(2,3)]) simp_all
    moreover have "vacate i w l (set_worker w l h) = vacate i w l h" for i l by (simp add: vacate_def)
    ultimately have "udpTimerTick w h = Some (vacate (nat (mID k)) w ?l h)"
      using k await checked False slot(4) by (simp add: udpTimerTick_def awaiting_def gTimeOutMultiThreadedServer_def Let_def)
    moreover have "pool_ok (vacate (nat (mID k)) w ?l h)"
      by (rule pool_inv_vacate [OF inv slot(2,3) l]) simp
    ultimately show ?thesis using False l by (intro exI [of _ ?l]) simp
  qed
qed

text \<open>The first packet of a client, while the duplicates of its worker leave the pool.\<close>

definition same_client :: "JackTripWorker \<Rightarrow> u16 \<Rightarrow> JackTripWorker \<Rightarrow> bool" where
  "same_client own port k \<longleftrightarrow> mClientAddress own = mClientAddress k \<and> port = mClientPort k"

definition releasing :: "nat \<Rightarrow> JackTripWorker \<Rightarrow> u16 \<Rightarrow> int \<Rightarrow> nat \<Rightarrow> UdpHubListener \<Rightarrow> bool" where
  "releasing w own port base j h \<longleftrightarrow> pool_inv {w} h \<and> worker_at w h = Some own \<and>
     Some w \<in> set (mJTWorkers h) \<and> mBasePort h = base \<and>
     (\<forall>i<j. \<forall>v k. mJTWorkers h ! i = Some v \<longrightarrow> worker_at v h = Some k \<longrightarrow> \<not> same_client own port k)"

lemma release_duplicate_step:
  assumes rel: "releasing w own port base j h" and j: "j < gMaxThreads"
    and port: "port \<noteq> mClientPort own \<or> mJTWorkers h ! j \<noteq> Some w"
  shows "\<exists>h'. release_duplicate w port j h = Some h' \<and> releasing w own port base (Suc j) h'"
proof (cases "mJTWorkers h ! j")
  case None
  then show ?thesis using rel by (auto simp: release_duplicate_def releasing_def less_Suc_eq)
next
  case (Some v)
  have inv: "pool_inv {w} h" and own: "worker_at w h = Some own" using rel by (simp_all add: releasing_def)
  obtain k where k: "worker_at v h = Some k" "mID k = int j" "v \<noteq> w \<Longrightarrow> live k" "\<not> deleted_later k"
    using pool_slot [OF inv j Some] by (metis singletonD)
  show ?thesis
  proof (cases "same_client own port k")
    case False
    then have "release_duplicate w port j h = Some h"
      using Some k own by (auto simp: release_duplicate_def same_client_def)
    then show ?thesis using rel False Some k by (auto simp: releasing_def less_Suc_eq)
  next
    case True
    then have vw: "v \<noteq> w" using k(1) own port Some by (auto simp: same_client_def)
    obtain p l where stop: "stopThread v h = Some (set_worker v l (h\<lparr>mPatcher := p\<rparr>))" "worker_ok (mBasePort h) l" "idle l"
      using stopThread_form [OF k(1) object_ok(1) [OF inv k(1)]] k(3) [OF vw] by blast
    let ?h = "vacate j v l (h\<lparr>mPatcher := p\<rparr>)"
    have "release_duplicate w port j h = Some ?h"
      using Some k own True vw stop
      by (simp add: release_duplicate_def same_client_def delete_later_def vacate_def)
    moreover have "pool_inv {w} ?h"
      by (rule pool_inv_vacate [where X = "{w}"]) (use inv j Some stop in simp_all)
    moreover have "Some w \<in> set ((mJTWorkers h)[j := None])"
    proof -
      have "Some w \<in> set (mJTWorkers h)" using rel by (simp add: releasing_def)
      then obtain i where "i < gMaxThreads" "mJTWorkers h ! i = Some w"
        using pool_length [OF inv] by (metis in_set_conv_nth)
      then show ?thesis using Some vw pool_length [OF inv]
        by (metis in_set_conv_nth length_list_update nth_list_update_neq option.inject)
    qed
    moreover have "\<not> same_client own port m"
      if "i < Suc j" "mJTWorkers ?h ! i = Some x" "worker_at x ?h = Some m" for i x m
    proof -
      have i: "i < j" "mJTWorkers h ! i = Some x"
        using that(1,2) j pool_length [OF inv] by (auto simp: nth_list_update less_Suc_eq split: if_splits)
      then have "x \<noteq> v" using slot_unique [OF inv _ j _ Some, of i] j by auto
      then show ?thesis using rel i that(3) by (auto simp: releasing_def)
    qed
    ultimately show ?thesis using own vw rel by (auto simp: releasing_def)
  qed
qed

lemma releaseDuplicateThreads_ok:
  assumes inv: "pool_inv {w} h" and own: "worker_at w h = Some own" "Some w \<in> set (mJTWorkers h)"
    and port: "port \<noteq> mClientPort own"
  shows "\<exists>h'. releaseDuplicateThreads w port h = Some (set_worker w (own\<lparr>mClientPort := port\<rparr>) h') \<and>
    releasing w own port (mBasePort h) gMaxThreads h'"
proof -
  have "releasing w own port (mBasePort h) 0 h" using inv own by (simp add: releasing_def)
  then obtain h' where "iter_opt (release_duplicate w port) [0..<gMaxThreads] h = Some h'"
    "releasing w own port (mBasePort h) gMaxThreads h'"
    using iter_opt_invariant [where P = "releasing w own port (mBasePort h)" and f = "release_duplicate w port"]
      release_duplicate_step port by blast
  moreover from this(2) have "worker_at w h' = Some own" by (simp add: releasing_def)
  ultimately have "releaseDuplicateThreads w port h = Some (set_worker w (own\<lparr>mClientPort := port\<rparr>) h')"
    using pool_length [OF inv] by (simp add: releaseDuplicateThreads_def)
  then show ?thesis using \<open>releasing w own port (mBasePort h) gMaxThreads h'\<close> by blast
qed

text \<open>A peer's settings start the session or release the slot.\<close>

lemma peer_field_read:
  "16 \<le> length packet \<Longrightarrow> pos + n \<le> 16 \<Longrightarrow> \<exists>x. peer_field DefaultHeader_new packet pos n = Some x"
  by (simp add: peer_field_def DefaultHeader_new_def read_le_def mem_read_def)

lemma peer_header_read:
  assumes "16 \<le> length packet"
  obtains n rate res incoming outgoing where
    "getPeerBufferSize DefaultHeader_new packet 0 = Some n"
    "getPeerSamplingRate DefaultHeader_new packet 0 = Some rate"
    "getPeerBitResolution DefaultHeader_new packet 0 = Some res"
    "getPeerNumIncomingChannels DefaultHeader_new packet 0 = Some incoming"
    "getPeerNumOutgoingChannels DefaultHeader_new packet 0 = Some outgoing"
proof -
  note read = peer_field_read [OF assms]
  have "\<exists>n. getPeerBufferSize DefaultHeader_new packet 0 = Some n"
    "\<exists>rate. getPeerSamplingRate DefaultHeader_new packet 0 = Some rate"
    "\<exists>res. getPeerBitResolution DefaultHeader_new packet 0 = Some res"
    by (simp_all add: getPeerBufferSize_def getPeerSamplingRate_def getPeerBitResolution_def read)
  moreover have channels: "\<exists>n. getPeerNumIncomingChannels DefaultHeader_new packet 0 = Some n"
    "\<exists>n. header_NumOutgoingChannels DefaultHeader_new packet 0 = Some n"
    by (simp_all add: getPeerNumIncomingChannels_def header_NumOutgoingChannels_def read)
  moreover from channels have "\<exists>n. getPeerNumOutgoingChannels DefaultHeader_new packet 0 = Some n"
    by (auto simp: getPeerNumOutgoingChannels_def)
  ultimately show thesis using that by blast
qed

text \<open>A header that a worker accepts.\<close>

definition settings_ok :: "bytes \<Rightarrow> bool" where
  "settings_ok packet \<longleftrightarrow>
     (case (getPeerBufferSize DefaultHeader_new packet 0, getPeerNumIncomingChannels DefaultHeader_new packet 0,
        getPeerNumOutgoingChannels DefaultHeader_new packet 0) of
        (Some n, Some incoming, Some outgoing) \<Rightarrow> n \<noteq> 0 \<and> n \<le> gMaxBufferSizeInSamples \<and>
          1 \<le> incoming \<and> incoming \<le> gMaxAudioChannels \<and>
          (outgoing = 0 \<or> outgoing = 255 \<or> outgoing \<le> gMaxAudioChannels)
      | _ \<Rightarrow> False)"

lemma processPeerSettings_cases:
  assumes packet: "16 \<le> length packet" and k: "worker_at w h = Some k" "mJackTrip k \<noteq> None"
  shows "processPeerSettings packet w h =
      (if settings_ok packet then processPeerSettings packet w h else give_up w k h)"
    and "settings_ok packet \<Longrightarrow> \<exists>j. processPeerSettings packet w h =
      Some (set_worker w (k\<lparr>mJackTrip := Some j, mRunning := True, mSpawning := False\<rparr>) h) \<and> process_started j"
proof -
  obtain n rate res incoming outgoing where r: "getPeerBufferSize DefaultHeader_new packet 0 = Some n"
    "getPeerSamplingRate DefaultHeader_new packet 0 = Some rate"
    "getPeerBitResolution DefaultHeader_new packet 0 = Some res"
    "getPeerNumIncomingChannels DefaultHeader_new packet 0 = Some incoming"
    "getPeerNumOutgoingChannels DefaultHeader_new packet 0 = Some outgoing"
    using peer_header_read [OF packet] by blast
  show "processPeerSettings packet w h =
      (if settings_ok packet then processPeerSettings packet w h else give_up w k h)"
    using k r by (auto simp: processPeerSettings_def settings_ok_def not_less not_le)
  show "\<exists>j. processPeerSettings packet w h =
      Some (set_worker w (k\<lparr>mJackTrip := Some j, mRunning := True, mSpawning := False\<rparr>) h) \<and> process_started j"
    if "settings_ok packet"
  proof -
    have "\<not> (n = 0 \<or> gMaxBufferSizeInSamples < n)" "\<not> (incoming < 1 \<or> gMaxAudioChannels < incoming)"
      "\<not> (outgoing \<noteq> 0 \<and> outgoing \<noteq> 255 \<and> gMaxAudioChannels < outgoing)"
      using that r by (auto simp: settings_ok_def not_less)
    moreover obtain j where "mJackTrip k = Some j" using k(2) by blast
    ultimately show ?thesis using k(1) r
      by (intro exI [of _ "j\<lparr>process_inputs := fst (peer_channels incoming outgoing),
        process_outputs := snd (peer_channels incoming outgoing), process_started := True\<rparr>"])
        (auto simp: processPeerSettings_def)
  qed
qed

lemma vacate_set_worker [simp]: "vacate i w k (set_worker w l h) = vacate i w k h"
  by (simp add: vacate_def)

lemma give_up_vacates:
  assumes "pool_inv X h'" and "i < gMaxThreads" and "mJTWorkers h' ! i = Some w" and "mID k = int i"
    and "mJTWorkers h = mJTWorkers h'"
  shows "give_up w k h = Some (vacate i w (k\<lparr>mSpawning := False\<rparr>) h)"
  using releaseThread_vacates [OF assms(1-3), of "set_worker w (k\<lparr>mSpawning := False\<rparr>) h"] assms(4,5)
  by (simp add: give_up_def)

lemma first_packet_form:
  assumes inv: "pool_ok h" and k: "worker_at w h = Some k" "mSpawning k" "mUdpSockTemp k" and port: "port \<noteq> 0"
  shows "\<exists>h'. receivedFirstPacketUDP packet port w h = Some h' \<and> pool_ok h' \<and>
    (if 16 \<le> length packet \<and> settings_ok packet
     then mJTWorkers h' ! nat (mID k) = Some w \<and> (\<exists>l. worker_at w h' = Some l \<and> mRunning l \<and>
       mClientAddress l = mClientAddress k \<and> mClientPort l = port)
     else mJTWorkers h' ! nat (mID k) = None)"
proof -
  define own where "own = k\<lparr>mTimeoutTimer := False, mUdpSockTemp := False\<rparr>"
  have ok: "worker_ok (mBasePort h) k" using object_ok [OF inv] k by blast
  have "\<not> idle k" using k by (simp add: idle_def)
  note slot = live_pooled [OF inv k(1) this]
  let ?i = "nat (mID k)"
  have len: "length (mJTWorkers h) = gMaxThreads" using inv by (rule pool_length)
  have k': "\<not> deleted_later k" "awaiting k"
    using pooled_slot [OF inv slot(1)] k ok by (auto simp: live_def worker_ok_def)
  have own: "worker_ok (mBasePort h) own" "mID own = mID k" "\<not> deleted_later own" "mClientPort own = 0"
    "mSpawning own" "\<not> mRunning own" "mJackTrip own \<noteq> None"
    using ok k k' by (auto simp: worker_ok_def own_def)
  have idle: "idle (own\<lparr>mSpawning := False, mClientPort := p\<rparr>)" "worker_ok (mBasePort h) (own\<lparr>mSpawning := False, mClientPort := p\<rparr>)"
    for p using own ok by (auto simp: idle_def own_def worker_ok_def)
  show ?thesis
  proof (cases "16 \<le> length packet")
    case False
    have "receivedFirstPacketUDP packet port w h = give_up w own h"
      using k False by (simp add: receivedFirstPacketUDP_def own_def Let_def)
    also have "\<dots> = Some (vacate ?i w (own\<lparr>mSpawning := False\<rparr>) h)"
      by (rule give_up_vacates [OF inv slot(2,3)]) (use slot own in simp_all)
    moreover have "own\<lparr>mSpawning := False\<rparr> = own\<lparr>mSpawning := False, mClientPort := 0\<rparr>"
      using own(4) by (cases own) simp
    ultimately show ?thesis
      using pool_inv_vacate [OF inv slot(2,3) idle(2,1), of "{}" 0] slot len False by auto
  next
    case True
    have inv1: "pool_inv {w} (set_worker w own h)"
      by (rule pool_inv_update [OF inv k(1) slot(1) own(1)]) (use own k k' in \<open>auto simp: same_peer_def\<close>)
    obtain h' where h': "releaseDuplicateThreads w port (set_worker w own h) =
        Some (set_worker w (own\<lparr>mClientPort := port\<rparr>) h')" "releasing w own port (mBasePort h) gMaxThreads h'"
      using releaseDuplicateThreads_ok [OF inv1, of own port] slot(1) own(4) port by auto
    have r: "pool_inv {w} h'" "worker_at w h' = Some own" "Some w \<in> set (mJTWorkers h')" "mBasePort h' = mBasePort h"
      using h'(2) by (simp_all add: releasing_def)
    obtain i l where il: "i < gMaxThreads" "mJTWorkers h' ! i = Some w" "worker_at w h' = Some l" "mID l = int i"
      using pooled_slot [OF r(1,3)] by metis
    then have "mID k = int i" using r(2) own(2) by simp
    then have slot': "mJTWorkers h' ! ?i = Some w" "?i < gMaxThreads" "int ?i = mID own" using il own(2) by simp_all
    let ?own = "own\<lparr>mClientPort := port\<rparr>" and ?h = "set_worker w (own\<lparr>mClientPort := port\<rparr>) h'"
    have step: "receivedFirstPacketUDP packet port w h = processPeerSettings packet w ?h"
      using k True h'(1) by (simp add: receivedFirstPacketUDP_def own_def Let_def)
    note settings = processPeerSettings_cases [OF True, of w ?h ?own]
    show ?thesis
    proof (cases "settings_ok packet")
      case False
      have "give_up w ?own ?h = Some (vacate ?i w (?own\<lparr>mSpawning := False\<rparr>) ?h)"
        by (rule give_up_vacates [OF r(1) slot'(2,1)]) (use slot' in simp_all)
      moreover have "?own\<lparr>mSpawning := False\<rparr> = own\<lparr>mSpawning := False, mClientPort := port\<rparr>" by (cases own) simp
      ultimately have "receivedFirstPacketUDP packet port w h =
          Some (vacate ?i w (own\<lparr>mSpawning := False, mClientPort := port\<rparr>) h')"
        using step settings(1) own(7) False by simp
      moreover have "pool_ok (vacate ?i w (own\<lparr>mSpawning := False, mClientPort := port\<rparr>) h')"
        by (rule pool_inv_vacate [OF r(1) slot'(2,1)]) (use idle r in simp_all)
      ultimately show ?thesis using False slot' pool_length [OF r(1)] by auto
    next
      case True
      then obtain j where j: "processPeerSettings packet w ?h =
          Some (set_worker w (?own\<lparr>mJackTrip := Some j, mRunning := True, mSpawning := False\<rparr>) ?h)"
        using settings(2) own(7) by auto
      let ?l = "?own\<lparr>mJackTrip := Some j, mRunning := True, mSpawning := False\<rparr>"
      have "worker_ok (mBasePort h') ?l" using own r(4) port by (auto simp: worker_ok_def own_def)
      moreover have "\<not> same_peer ?l m" if v: "Some v \<in> set (mJTWorkers h')" "worker_at v h' = Some m" for v m
      proof -
        obtain a where "a < gMaxThreads" "mJTWorkers h' ! a = Some v" using pooled_slot [OF r(1) v(1)] by metis
        then have "\<not> same_client own port m" using h'(2) v(2) by (auto simp: releasing_def)
        then show ?thesis by (auto simp: same_client_def same_peer_def)
      qed
      ultimately have "pool_ok (set_worker w ?l h')"
        by (intro pool_inv_update [OF r(1,2,3)]) (simp_all add: live_def)
      then show ?thesis using step j True \<open>16 \<le> length packet\<close> slot' by (simp add: own_def)
    qed
  qed
qed

text \<open>The other events.\<close>

lemma pool_inv_same_peer:
  assumes inv: "pool_inv X h" and k: "worker_at w h = Some k" and w: "Some w \<in> set (mJTWorkers h)"
    and ok: "worker_ok (mBasePort h) k'" and same: "mID k' = mID k" "deleted_later k' = deleted_later k"
    and live: "live k'" and peer: "mClientAddress k' = mClientAddress k" "mClientPort k' = mClientPort k"
  shows "pool_inv X (set_worker w k' h)"
proof (rule pool_inv_update [OF inv k w ok same])
  fix v l assume "v \<noteq> w" "Some v \<in> set (mJTWorkers h)" "worker_at v h = Some l"
  then have "\<not> same_peer k l" using inv k w by (auto simp: pool_inv_def peers_distinct_def)
  then show "\<not> same_peer k' l" by (simp add: same_peer_def peer)
qed (use live in auto)

lemma stopped_form:
  assumes inv: "pool_ok h" and k: "worker_at w h = Some k"
  shows "\<exists>h'. jacktripStopped w h = Some h' \<and> pool_ok h' \<and>
    (mRunning k \<longrightarrow> mJTWorkers h' ! nat (mID k) = None)"
proof (cases "mRunning k")
  case False
  then show ?thesis using inv k by (simp add: jacktripStopped_def)
next
  case True
  have ok: "worker_ok (mBasePort h) k" using object_ok [OF inv] k by blast
  have "\<not> idle k" using True by (simp add: idle_def)
  note slot = live_pooled [OF inv k this]
  obtain p where p: "unpatch w (k\<lparr>mRunning := False\<rparr>) h =
      set_worker w (k\<lparr>mRunning := False, mPatched := False\<rparr>) (h\<lparr>mPatcher := p\<rparr>)"
    using unpatch_form [of w "k\<lparr>mRunning := False\<rparr>"] by auto
  let ?k = "k\<lparr>mRunning := False, mPatched := False\<rparr>"
  have ok': "worker_ok (mBasePort h) ?k" "idle ?k" using ok True by (auto simp: worker_ok_def idle_def)
  have "releaseThread (int (nat (mID k))) (set_worker w ?k (h\<lparr>mPatcher := p\<rparr>)) =
      Some (vacate (nat (mID k)) w ?k (set_worker w ?k (h\<lparr>mPatcher := p\<rparr>)))"
    by (rule releaseThread_vacates [OF inv slot(2,3)]) simp_all
  then have "jacktripStopped w h = Some (vacate (nat (mID k)) w ?k (h\<lparr>mPatcher := p\<rparr>))"
    using k True ok slot(4) p by (auto simp: jacktripStopped_def worker_ok_def)
  moreover have "pool_ok (vacate (nat (mID k)) w ?k (h\<lparr>mPatcher := p\<rparr>))"
    by (rule pool_inv_vacate [where X = "{}"]) (use inv slot ok' in simp_all)
  ultimately show ?thesis using slot pool_length [OF inv] by simp
qed

definition jack_ok :: "jack \<Rightarrow> bool" where
  "jack_ok J \<longleftrightarrow> output_ports J \<noteq> None \<and> input_ports J \<noteq> None \<and> physical_inputs J \<noteq> None"

lemma register_form:
  "jack_ok J \<Longrightarrow> \<exists>p. registerClientWithPatcher J c h = Some (h\<lparr>mPatcher := p\<rparr>)"
proof -
  assume "jack_ok J"
  then obtain outs ins sys where J: "output_ports J = Some outs" "input_ports J = Some ins" "physical_inputs J = Some sys"
    by (auto simp: jack_ok_def)
  have "\<exists>f. \<forall>p l. server_connections J p l = Some (f p l)"
    by (rule exI [of _ "\<lambda>p l. the (server_connections J p l)"]) (simp add: server_connections_def J)
  then obtain f where "\<And>p l. server_connections J p l = Some (f p l)" by blast
  then have "\<exists>p made. registerClient J c (mPatcher h) = Some (p, made)"
    using J by (simp add: registerClient_def Let_def)
  moreover have "\<exists>p. h = h\<lparr>mPatcher := p\<rparr>" by (rule exI [of _ "mPatcher h"]) simp
  ultimately show ?thesis by (auto simp: registerClientWithPatcher_def)
qed

lemma alert_form:
  assumes inv: "pool_ok h" and k: "worker_at w h = Some k" and J: "jack_ok J"
  shows "\<exists>h'. alertPatcher J c w h = Some h' \<and> pool_ok h'"
proof (cases "mRunning k")
  case False
  then show ?thesis using inv k by (simp add: alertPatcher_def)
next
  case True
  have ok: "worker_ok (mBasePort h) k" using object_ok [OF inv] k by blast
  have "\<not> idle k" using True by (simp add: idle_def)
  note slot = live_pooled [OF inv k this]
  obtain p where p: "registerClientWithPatcher J c h = Some (h\<lparr>mPatcher := p\<rparr>)" using register_form [OF J] by blast
  let ?k = "k\<lparr>mAssignedClientName := c, mPatched := True\<rparr>"
  have "alertPatcher J c w h = Some (set_worker w ?k (h\<lparr>mPatcher := p\<rparr>))"
    using k True p ok by (auto simp: alertPatcher_def worker_ok_def)
  moreover have "pool_ok (set_worker w ?k (h\<lparr>mPatcher := p\<rparr>))"
    by (rule pool_inv_same_peer) (use inv k slot True ok in \<open>auto simp: live_def worker_ok_def\<close>)
  ultimately show ?thesis by blast
qed

lemma pool_inv_forget:
  assumes "pool_inv X h" and "Some w \<notin> set (mJTWorkers h)"
  shows "pool_inv X (h\<lparr>heap := (heap h)(w := None)\<rparr>)"
proof -
  have f: "worker_at v (h\<lparr>heap := (heap h)(w := None)\<rparr>) = (if v = w then None else worker_at v h)" for v
    by (simp add: worker_at_def)
  show ?thesis
    unfolding pool_inv_def
  proof (intro conjI)
    show "slots_ok X (h\<lparr>heap := (heap h)(w := None)\<rparr>)"
      unfolding slots_ok_def f
    proof (intro allI impI)
      fix i v assume i: "i < gMaxThreads" "mJTWorkers (h\<lparr>heap := (heap h)(w := None)\<rparr>) ! i = Some v"
      then obtain k where "worker_at v h = Some k" "mID k = int i" "v \<notin> X \<Longrightarrow> live k" "\<not> deleted_later k"
        "Some v \<in> set (mJTWorkers h)" using pool_slot [OF assms(1), of i v] by auto
      then show "\<exists>k. (if v = w then None else worker_at v h) = Some k \<and> mID k = int i \<and> (v \<notin> X \<longrightarrow> live k) \<and>
          \<not> deleted_later k" using assms(2) by auto
    qed
  qed (use assms(1) in \<open>auto simp: pool_inv_def objects_ok_def peers_distinct_def occupied_def f\<close>)
qed

lemma delete_form:
  assumes inv: "pool_ok h" and k: "worker_at w h = Some k" "deleted_later k"
  shows "\<exists>h'. delete_worker w h = Some h' \<and> pool_ok h'"
proof -
  have w: "Some w \<notin> set (mJTWorkers h)" using pooled_slot [OF inv] k by (metis option.inject)
  then have idle: "idle k" using live_pooled(1) [OF inv k(1)] by blast
  have ok: "worker_ok (mBasePort h) k" using object_ok [OF inv] k by blast
  obtain p l where l: "stopThread w h = Some (set_worker w l (h\<lparr>mPatcher := p\<rparr>))" "worker_ok (mBasePort h) l" "idle l"
    "deleted_later l" using stopThread_form [OF k(1) ok] idle k(2) by auto
  have "pool_ok (set_worker w l (h\<lparr>mPatcher := p\<rparr>))"
    by (rule pool_inv_update_idle) (use inv k w l in simp_all)
  then have "pool_ok ((set_worker w l (h\<lparr>mPatcher := p\<rparr>))\<lparr>heap := (heap (set_worker w l (h\<lparr>mPatcher := p\<rparr>)))(w := None)\<rparr>)"
    by (rule pool_inv_forget) (use w in simp)
  then show ?thesis using l(1) by (simp add: delete_worker_def)
qed

lemma queue_form:
  assumes inv: "pool_ok h"
  shows "\<exists>h'. queueBufferChanged n h = Some h' \<and> pool_ok h'"
proof -
  let ?f = "\<lambda>i h. case mJTWorkers h ! i of None \<Rightarrow> Some h
    | Some w \<Rightarrow> do {
        k \<leftarrow> worker_at w h;
        Some (case mJackTrip k of None \<Rightarrow> h
          | Some p \<Rightarrow> if mBufferQueueLength k = n then h
              else set_worker w (k\<lparr>mBufferQueueLength := n, mJackTrip := Some (p\<lparr>process_queue := n\<rparr>)\<rparr>) h) }"
  have step: "\<exists>u. ?f i t = Some u \<and> pool_ok u" if i: "i < gMaxThreads" and t: "pool_ok t" for i t
  proof (cases "mJTWorkers t ! i")
    case (Some w)
    obtain k where k: "worker_at w t = Some k" "live k" "Some w \<in> set (mJTWorkers t)"
      using pool_slot [OF t i Some] by (metis empty_iff)
    have ok: "worker_ok (mBasePort t) k" using object_ok [OF t] k by blast
    then obtain p where p: "mJackTrip k = Some p" by (auto simp: worker_ok_def)
    have "pool_ok (set_worker w (k\<lparr>mBufferQueueLength := n, mJackTrip := Some (p\<lparr>process_queue := n\<rparr>)\<rparr>) t)"
      by (rule pool_inv_same_peer [OF t k(1,3)]) (use ok k(2) in \<open>auto simp: worker_ok_def live_def awaiting_def\<close>)
    then show ?thesis using Some k p t by simp
  qed (use t in simp)
  have "length (mJTWorkers h) = gMaxThreads" using inv by (rule pool_length)
  then show ?thesis
    using iter_opt_invariant [where f = ?f and P = "\<lambda>_. pool_ok" and s = "h\<lparr>hubBufferQueueLength := n\<rparr>"] step inv
    unfolding queueBufferChanged_def by fastforce
qed

section \<open>The events of a hub with UDP clients\<close>

datatype hub_event =
    Admitted "u16 \<times> u16 \<times> int" bool bool qstring qstring
  | FirstPacket bytes u16 nat
  | TimerTick nat
  | ProcessStopped nat
  | AudioStarted jack qstring nat
  | DeferredDelete nat
  | QueueBufferChanged int

fun handle :: "hub_event \<Rightarrow> UdpHubListener \<Rightarrow> UdpHubListener option" where
  "handle (Admitted garbage port_sent bind_ok address name) h =
     map_option snd (admit_client garbage port_sent bind_ok address name h)"
| "handle (FirstPacket packet port w) h = receivedFirstPacketUDP packet port w h"
| "handle (TimerTick w) h = udpTimerTick w h"
| "handle (ProcessStopped w) h = jacktripStopped w h"
| "handle (AudioStarted J assigned w) h = alertPatcher J assigned w h"
| "handle (DeferredDelete w) h = delete_worker w h"
| "handle (QueueBufferChanged n) h = queueBufferChanged n h"

text \<open>
  An event reaches objects that exist, a timer fires while it runs, an object is deleted after
  \<open>deleteLater\<close>; the sockets can be bound, a packet comes from a port other than 0, and JACK has
  ports.
\<close>

fun enabled :: "hub_event \<Rightarrow> UdpHubListener \<Rightarrow> bool" where
  "enabled (Admitted garbage port_sent bind_ok address name) h \<longleftrightarrow> bind_ok"
| "enabled (FirstPacket packet port w) h \<longleftrightarrow> worker_at w h \<noteq> None \<and> port \<noteq> 0"
| "enabled (TimerTick w) h \<longleftrightarrow> (\<exists>k. worker_at w h = Some k \<and> mTimeoutTimer k)"
| "enabled (ProcessStopped w) h \<longleftrightarrow> worker_at w h \<noteq> None"
| "enabled (AudioStarted J assigned w) h \<longleftrightarrow> worker_at w h \<noteq> None \<and> jack_ok J"
| "enabled (DeferredDelete w) h \<longleftrightarrow> (\<exists>k. worker_at w h = Some k \<and> deleted_later k)"
| "enabled (QueueBufferChanged n) h \<longleftrightarrow> True"

inductive reachable :: "UdpHubListener \<Rightarrow> UdpHubListener \<Rightarrow> bool" for start :: UdpHubListener where
  start: "reachable start start"
| step: "reachable start h \<Longrightarrow> enabled e h \<Longrightarrow> handle e h = Some h' \<Longrightarrow> reachable start h'"

lemma new_pool: "pool_ok (UdpHubListener_new port udp_port garbage)"
  by (simp add: pool_inv_def slots_ok_def objects_ok_def peers_distinct_def occupied_def UdpHubListener_new_def
      worker_at_def)

lemma setHubPatch_pool [simp]: "pool_ok (setHubPatch mode h) = pool_ok h"
  by (simp add: setHubPatch_def pool_inv_def slots_ok_def objects_ok_def peers_distinct_def occupied_def
      worker_at_def)

lemma handle_ok:
  assumes inv: "pool_ok h" and "enabled e h"
  shows "\<exists>h'. handle e h = Some h' \<and> pool_ok h'"
proof (cases e)
  case (Admitted garbage sent bind_ok address name)
  then have "bind_ok" using assms(2) by simp
  then show ?thesis using Admitted admit_ok [OF inv, of garbage sent bind_ok address name] by auto
next
  case (FirstPacket packet port w)
  then obtain k where k: "worker_at w h = Some k" "port \<noteq> 0" using assms(2) by auto
  show ?thesis
  proof (cases "mSpawning k \<and> mUdpSockTemp k")
    case True
    then show ?thesis using first_packet_form [OF inv k(1) _ _ k(2)] FirstPacket by fastforce
  next
    case False
    then show ?thesis using k inv FirstPacket by (auto simp: receivedFirstPacketUDP_def)
  qed
next
  case (TimerTick w)
  then obtain k where "worker_at w h = Some k" "mTimeoutTimer k" using assms(2) by auto
  from tick_awaiting [OF inv this] show ?thesis using TimerTick by (auto split: if_splits)
next
  case (ProcessStopped w)
  then show ?thesis using stopped_form [OF inv] assms(2) by fastforce
next
  case (AudioStarted J assigned w)
  then show ?thesis using alert_form [OF inv] assms(2) by auto
next
  case (DeferredDelete w)
  then show ?thesis using delete_form [OF inv] assms(2) by auto
next
  case (QueueBufferChanged n)
  then show ?thesis using queue_form [OF inv] by auto
qed

lemma reachable_pool: "reachable start h \<Longrightarrow> pool_ok start \<Longrightarrow> pool_ok h"
proof (induction rule: reachable.induct)
  case (step h e h')
  then show ?case using handle_ok [of h e] by auto
qed

end
