(* ===== verification/HubPool.thy ===== *)
theory HubPool
  imports HubSpec
begin

text \<open>
  Properties of the worker pool of the hub server, from its invariant: no event of a UDP client
  faults, no slot leaks, ports and peers are distinct, a silent client is removed after its time, and
  a client that connects again replaces its old session.  Two defects: a packet from
  port 0 locks the listener, and a WebRTC client that ends releases the slot of another client.
\<close>

section \<open>Helpers\<close>

definition fresh_hub :: "int \<Rightarrow> int \<Rightarrow> hubConnectionModeT \<Rightarrow> UdpHubListener" where
  "fresh_hub server_port server_udp_port mode =
     setHubPatch mode (UdpHubListener_new server_port server_udp_port mode)"

lemma fresh_pool: "pool_ok (fresh_hub port udp_port mode)"
  by (simp add: fresh_hub_def new_pool)

lemma reachable_hub: "reachable (fresh_hub port udp_port mode) h \<Longrightarrow> pool_ok h"
  using reachable_pool fresh_pool by blast

lemma port_words_distinct:
  assumes "i < gMaxThreads" and "j < gMaxThreads" and "i \<noteq> j"
  shows "(of_int (base + int i) :: u16) \<noteq> of_int (base + int j)"
proof
  assume "(of_int (base + int i) :: u16) = of_int (base + int j)"
  then have "take_bit 16 (base + int i) = take_bit 16 (base + int j)"
    by (simp only: of_int_eq_iff word_of_int_eq_iff) simp
  then have "(base + int i) mod 65536 = (base + int j) mod 65536" by (simp add: take_bit_eq_mod)
  then have "(65536 :: int) dvd (int i - int j)" by (metis add_diff_cancel_left mod_eq_dvd_iff)
  moreover have "\<bar>int i - int j\<bar> < 65536" using assms by (simp add: gMaxThreads_def)
  ultimately show False using assms(3) zdvd_not_zless [of "\<bar>int i - int j\<bar>" 65536] by auto
qed

lemma set_worker_running:
  "set_worker w k (h\<lparr>mTotalRunningThreads := n\<rparr>) = (set_worker w k h)\<lparr>mTotalRunningThreads := n\<rparr>"
  by (simp add: set_worker_def)

fun ticks :: "nat \<Rightarrow> nat \<Rightarrow> UdpHubListener \<Rightarrow> UdpHubListener option" where
  "ticks w 0 h = Some h"
| "ticks w (Suc n) h = (case ticks w n h of None \<Rightarrow> None | Some h \<Rightarrow> udpTimerTick w h)"

lemma ticks_waiting:
  assumes "pool_ok h" and "worker_at w h = Some k" and "mTimeoutTimer k" and "mElapsedTime k = 0" and "n < 100"
  shows "\<exists>h' l. ticks w n h = Some h' \<and> pool_ok h' \<and> worker_at w h' = Some l \<and> mTimeoutTimer l \<and>
    mID l = mID k \<and> mElapsedTime l = 100 * int n \<and> mJTWorkers h' = mJTWorkers h"
  using assms(5)
proof (induction n)
  case 0
  then show ?case using assms(1-4) by auto
next
  case (Suc n)
  then obtain h' l where IH: "ticks w n h = Some h'" "pool_ok h'" "worker_at w h' = Some l" "mTimeoutTimer l"
    "mID l = mID k" "mElapsedTime l = 100 * int n" "mJTWorkers h' = mJTWorkers h" by auto
  have "mElapsedTime l + mSleepTime < gTimeOutMultiThreadedServer"
    using IH(6) Suc.prems by (simp add: mSleepTime_def gTimeOutMultiThreadedServer_def)
  then obtain m where "udpTimerTick w h' = Some (set_worker w m h')" "awaiting m" "pool_ok (set_worker w m h')"
    "mID m = mID l" "mElapsedTime m = mElapsedTime l + mSleepTime"
    using tick_awaiting [OF IH(2,3,4)] by auto
  then show ?case using IH by (auto simp: awaiting_def mSleepTime_def)
qed

lemma ticks_timeout:
  assumes "pool_ok h" and "worker_at w h = Some k" and "mTimeoutTimer k" and "mElapsedTime k = 0"
  shows "\<exists>h'. ticks w 100 h = Some h' \<and> pool_ok h' \<and> mJTWorkers h' = (mJTWorkers h)[nat (mID k) := None]"
proof -
  obtain h' l where IH: "ticks w 99 h = Some h'" "pool_ok h'" "worker_at w h' = Some l" "mTimeoutTimer l"
    "mID l = mID k" "mElapsedTime l = 9900" "mJTWorkers h' = mJTWorkers h"
    using ticks_waiting [OF assms, of 99] by auto
  then obtain m where m: "udpTimerTick w h' = Some (vacate (nat (mID l)) w m h')" "pool_ok (vacate (nat (mID l)) w m h')"
    using tick_awaiting [OF IH(2,3,4)] by (auto simp: mSleepTime_def gTimeOutMultiThreadedServer_def)
  have "ticks w (Suc 99) h = Some (vacate (nat (mID l)) w m h')" using IH(1) m(1) by (simp only: ticks.simps) simp
  then show ?thesis using m IH by simp
qed

section \<open>Properties\<close>

text \<open>
  C8: In every state that the events of UDP clients reach, every event has a result, each
  occupied slot holds a worker with the number of the slot that runs a session or waits for its first
  packet with the timer on, no other worker runs, waits or has a timer, and the count of threads is the number of
  occupied slots.
\<close>

theorem hub_pool_safe:
  assumes "reachable (fresh_hub port udp_port mode) h" and "enabled e h"
  shows "\<exists>h'. handle e h = Some h' \<and>
    (\<forall>i<gMaxThreads. \<forall>w. mJTWorkers h' ! i = Some w \<longrightarrow> (\<exists>k. worker_at w h' = Some k \<and> mID k = int i \<and>
      (mRunning k \<or> mSpawning k \<and> mTimeoutTimer k \<and> mUdpSockTemp k))) \<and>
    (\<forall>w k. worker_at w h' = Some k \<longrightarrow> mRunning k \<or> mTimeoutTimer k \<or> mUdpSockTemp k \<longrightarrow>
      mJTWorkers h' ! nat (mID k) = Some w) \<and>
    mTotalRunningThreads h' = int (card {i. i < gMaxThreads \<and> mJTWorkers h' ! i \<noteq> None})"
proof -
  obtain h' where h': "handle e h = Some h'" "pool_ok h'"
    using handle_ok [OF reachable_hub [OF assms(1)] assms(2)] by blast
  have "\<exists>k. worker_at w h' = Some k \<and> mID k = int i \<and> (mRunning k \<or> mSpawning k \<and> mTimeoutTimer k \<and> mUdpSockTemp k)"
    if "i < gMaxThreads" "mJTWorkers h' ! i = Some w" for i w
    using pool_slot [OF h'(2) that] by (metis awaiting_def empty_iff live_def)
  moreover have "mJTWorkers h' ! nat (mID k) = Some w"
    if "worker_at w h' = Some k" "mRunning k \<or> mTimeoutTimer k \<or> mUdpSockTemp k" for w k
    using live_pooled(3) [OF h'(2) that(1)] that(2) by (auto simp: idle_def)
  moreover have "mTotalRunningThreads h' = int (card {i. i < gMaxThreads \<and> mJTWorkers h' ! i \<noteq> None})"
    using h'(2) by (simp add: pool_inv_def occupied_def)
  ultimately show ?thesis using h'(1) by blast
qed

text \<open>
  Two workers in different slots listen on different ports, and do not serve the same address
  and port of a client.
\<close>

lemma hub_sessions_distinct:
  assumes "reachable (fresh_hub port udp_port mode) h"
    and "i < gMaxThreads" and "j < gMaxThreads" and "i \<noteq> j"
    and "mJTWorkers h ! i = Some v" and "mJTWorkers h ! j = Some w"
    and "worker_at v h = Some k" and "worker_at w h = Some l"
  shows "mServerPort k \<noteq> mServerPort l \<and>
    (mRunning k \<longrightarrow> mClientAddress k = mClientAddress l \<longrightarrow> mClientPort k \<noteq> mClientPort l)"
proof -
  have inv: "pool_ok h" using assms(1) by (rule reachable_hub)
  have "mID k = int i" "mID l = int j" "Some v \<in> set (mJTWorkers h)" "Some w \<in> set (mJTWorkers h)"
    using pool_slot [OF inv assms(2,5)] pool_slot [OF inv assms(3,6)] assms(7,8) by (metis option.inject)+
  moreover have "v \<noteq> w" using slot_unique [OF inv assms(2,3,5)] assms(4,6) by blast
  moreover have "worker_ok (mBasePort h) k" "worker_ok (mBasePort h) l" using object_ok [OF inv] assms(7,8) by blast+
  ultimately show ?thesis
    using port_words_distinct [OF assms(2,3,4)] inv assms(7,8)
    by (auto simp: worker_ok_def pool_inv_def peers_distinct_def same_peer_def simp del: of_int_add)
qed

text \<open>
  C28: A client that gets a slot and then sends nothing keeps it for 99 ticks of its timer, and
  the hundredth, after ten seconds, frees it.
\<close>

theorem silent_client_times_out:
  assumes "reachable (fresh_hub port udp_port mode) h" and "first_empty (mJTWorkers h) = Some i"
  shows "\<exists>p h1 w. admit_client garbage True True address name h = Some (Some p, h1) \<and>
    mJTWorkers h1 ! i = Some w \<and>
    (\<forall>n<100. \<exists>h2. ticks w n h1 = Some h2 \<and> mJTWorkers h2 ! i = Some w) \<and>
    (\<exists>h2. ticks w 100 h1 = Some h2 \<and> mJTWorkers h2 ! i = None)"
proof -
  have inv: "pool_ok h" using assms(1) by (rule reachable_hub)
  have slot: "i < gMaxThreads" "mJTWorkers h ! i = None"
    using first_empty_Some [OF assms(2)] pool_length [OF inv] by auto
  obtain k where k: "worker_ok (mBasePort h) k" "mID k = int i" "\<not> deleted_later k" "mClientPort k = 0"
    "mElapsedTime k = 0" "awaiting k" "admit_client garbage True True address name h =
      Some (Some (of_int (mBasePort h + int i)), occupy i k h)"
    using admit_form(1) [OF pool_length [OF inv] assms(2)] by blast
  let ?w = "next_address h" and ?h = "occupy i k h"
  have "pool_ok ?h" by (rule pool_inv_occupy [OF inv slot k(1-4)]) (use k in \<open>simp_all add: live_def\<close>)
  note h1 = this
  have w: "worker_at ?w ?h = Some k" by simp
  have timer: "mTimeoutTimer k" using k by (simp add: awaiting_def)
  have here: "mJTWorkers ?h ! i = Some ?w" using slot pool_length [OF inv] by simp
  moreover have "\<exists>h2. ticks ?w n ?h = Some h2 \<and> mJTWorkers h2 ! i = Some ?w" if "n < 100" for n
    using ticks_waiting [OF h1 w timer k(5) that] here by auto
  moreover have "\<exists>h2. ticks ?w 100 ?h = Some h2 \<and> mJTWorkers h2 ! i = None"
    using ticks_timeout [OF h1 w timer k(5)] k(2) slot pool_length [OF inv] by auto
  ultimately show ?thesis using k(7) by blast
qed

text \<open>
  C17: When the first packet of a client has a header with sane settings, its worker keeps
  its slot and runs a session with the address and port of the client, and no other slot keeps a
  session with them; with a short packet or other settings the slot becomes free.
\<close>

theorem first_packet_replaces_session:
  assumes "reachable (fresh_hub server_port udp_port mode) h" and "worker_at w h = Some k"
    and "mSpawning k" and "mUdpSockTemp k" and "port \<noteq> 0"
  shows "\<exists>h'. receivedFirstPacketUDP packet port w h = Some h' \<and>
    (if 16 \<le> length packet \<and> settings_ok packet
     then mJTWorkers h' ! nat (mID k) = Some w \<and>
       (\<exists>l. worker_at w h' = Some l \<and> mRunning l \<and> mClientAddress l = mClientAddress k \<and> mClientPort l = port) \<and>
       (\<forall>v m. Some v \<in> set (mJTWorkers h') \<longrightarrow> worker_at v h' = Some m \<longrightarrow> mClientAddress m = mClientAddress k \<longrightarrow>
         mClientPort m = port \<longrightarrow> v = w)
     else mJTWorkers h' ! nat (mID k) = None)"
proof -
  have inv: "pool_ok h" using assms(1) by (rule reachable_hub)
  obtain h' where h': "receivedFirstPacketUDP packet port w h = Some h'" "pool_ok h'"
    "if 16 \<le> length packet \<and> settings_ok packet
     then mJTWorkers h' ! nat (mID k) = Some w \<and> (\<exists>l. worker_at w h' = Some l \<and> mRunning l \<and>
       mClientAddress l = mClientAddress k \<and> mClientPort l = port)
     else mJTWorkers h' ! nat (mID k) = None"
    using first_packet_form [OF inv assms(2-5)] by blast
  have "v = w" if sane: "16 \<le> length packet \<and> settings_ok packet" and v: "Some v \<in> set (mJTWorkers h')"
    "worker_at v h' = Some m" "mClientAddress m = mClientAddress k" "mClientPort m = port" for v m
  proof -
    obtain l where l: "worker_at w h' = Some l" "mRunning l" "mClientAddress l = mClientAddress k" "mClientPort l = port"
      using h'(3) sane by auto
    have "Some w \<in> set (mJTWorkers h')" using live_pooled(1) [OF h'(2) l(1)] l(2) by (simp add: idle_def)
    then show ?thesis
      using h'(2) v l assms(5) by (auto simp: pool_inv_def peers_distinct_def same_peer_def)
  qed
  then show ?thesis using h' by auto
qed

text \<open>
  C22: A datagram of 16 bytes or more whose source port is 0 stops the listener for ever: the worker that
  waits for its first packet has the client port 0 itself, so it is its own duplicate, and
  \<open>stopThread\<close> locks the mutex that the worker holds.
\<close>

theorem port_zero_deadlock:
  assumes "reachable (fresh_hub server_port udp_port mode) h" and "worker_at w h = Some k"
    and "mSpawning k" and "mUdpSockTemp k" and "16 \<le> length packet"
  shows "receivedFirstPacketUDP packet 0 w h = None"
proof -
  have inv: "pool_ok h" using assms(1) by (rule reachable_hub)
  have ok: "worker_ok (mBasePort h) k" using object_ok [OF inv] assms(2) by blast
  have "\<not> idle k" using assms(4) by (simp add: idle_def)
  note slot = live_pooled [OF inv assms(2) this]
  let ?i = "nat (mID k)" and ?own = "k\<lparr>mTimeoutTimer := False, mUdpSockTemp := False\<rparr>"
  let ?h = "set_worker w ?own h" and ?f = "release_duplicate w 0"
  have "\<not> deleted_later k" using pooled_slot [OF inv slot(1)] assms(2) by (metis option.inject)
  then have "pool_inv {w} ?h"
    by (intro pool_inv_update [OF inv assms(2) slot(1)])
      (use ok assms(3) in \<open>auto simp: worker_ok_def same_peer_def\<close>)
  then have rel: "releasing w ?own 0 (mBasePort h) 0 ?h \<and> mJTWorkers ?h ! ?i = Some w"
    using slot by (simp add: releasing_def)
  have "\<exists>u. ?f j t = Some u \<and> releasing w ?own 0 (mBasePort h) (Suc j) u \<and> mJTWorkers u ! ?i = Some w"
    if j: "j < ?i" and t: "releasing w ?own 0 (mBasePort h) j t \<and> mJTWorkers t ! ?i = Some w" for j t
  proof -
    have inv': "pool_inv {w} t" using t by (simp add: releasing_def)
    have jg: "j < gMaxThreads" using j slot(2) by simp
    have "mJTWorkers t ! j \<noteq> Some w" using slot_unique [OF inv' jg slot(2)] t j by blast
    then obtain u where u: "?f j t = Some u" "releasing w ?own 0 (mBasePort h) (Suc j) u"
      using release_duplicate_step [of w ?own 0 "mBasePort h" j t] t jg by blast
    have inv2: "pool_inv {w} u" "Some w \<in> set (mJTWorkers u)" "worker_at w u = Some ?own"
      using u(2) by (simp_all add: releasing_def)
    obtain a l where "mJTWorkers u ! a = Some w" "worker_at w u = Some l" "mID l = int a"
      using pooled_slot [OF inv2(1,2)] by metis
    then have "mJTWorkers u ! ?i = Some w" using inv2(3) by auto
    then show ?thesis using u by blast
  qed
  then obtain t where t: "iter_opt ?f [0..<?i] ?h = Some t" "releasing w ?own 0 (mBasePort h) ?i t"
    "mJTWorkers t ! ?i = Some w"
    using iter_opt_invariant [where f = ?f and s = ?h and n = ?i and
        P = "\<lambda>j t. releasing w ?own 0 (mBasePort h) j t \<and> mJTWorkers t ! ?i = Some w"] rel by blast
  have "?f ?i t = None"
    using t(2,3) ok assms(3) by (auto simp: release_duplicate_def releasing_def worker_ok_def)
  moreover have "[0..<gMaxThreads] = [0..<?i] @ ?i # [Suc ?i..<gMaxThreads]"
    using slot(2) by (metis less_imp_le_nat upt_add_eq_append upt_conv_Cons le_add_diff_inverse zero_le)
  ultimately have "iter_opt ?f [0..<gMaxThreads] ?h = None"
    using t(1) by (simp add: iter_opt_append)
  then show ?thesis
    using assms(2-5) pool_length [OF inv] by (simp add: receivedFirstPacketUDP_def releaseDuplicateThreads_def)
qed

lemma web_worker_form:
  assumes "pool_ok h" and "first_empty (mJTWorkers h) = Some i"
  shows "\<exists>web. createWebRtcWorker garbage h = (Some i, Some (occupy i web h)) \<and> \<not> mRunning web \<and>
    \<not> mSpawning web \<and> mID web = 0 \<and> mWebRtcPeerConnection web"
proof -
  have len: "length (mJTWorkers h) = gMaxThreads" using assms(1) by (rule pool_length)
  have i: "i < gMaxThreads" using first_empty_Some [OF assms(2)] len by simp
  obtain g1 g2 g3 where g: "garbage = (g1, g2, g3)" by (cases garbage)
  define web where "web = (JackTripWorker_new g1 g2 g3 (hubBufferQueueLength h)
      (if mAppendThreadID h then [] @ [95] @ decimal (i + 1) else []))\<lparr>mWebRtcPeerConnection := True\<rparr>"
  have "createWebRtcWorker garbage h = (Some i, Some (occupy i web h))"
    using assms(2) g len i by (simp add: createWebRtcWorker_def createWorker_def pooled_def occupy_def set_worker_def
        worker_at_def web_def Let_def)
  then show ?thesis by (intro exI [of _ web]) (simp add: web_def JackTripWorker_new_def)
qed

text \<open>
  A WebRTC client that gets a slot other than the first, and whose connection then closes or
  fails, whether or not its data channel was opened: the listener releases the first slot, which
  belongs to another client, and the slot of the WebRTC client stays occupied.
\<close>

lemma web_client_releases_first_slot:
  assumes "pool_ok h" and "first_empty (mJTWorkers h) = Some i" and "i \<noteq> 0"
  shows "\<exists>h1 h2 h3 h4 v w. createWebRtcWorker garbage h = (Some i, Some h1) \<and>
    mJTWorkers h ! 0 = Some v \<and> mJTWorkers h1 ! 0 = Some v \<and> mJTWorkers h1 ! i = Some w \<and>
    (if opened then onWebRtcDataChannelOpen True address name w h1 else Some h1) = Some h2 \<and>
    web_connection_ended w h2 = Some h3 \<and> handleWorkerRemoval w h3 = Some h4 \<and>
    mJTWorkers h4 ! 0 = None \<and> mJTWorkers h4 ! i = Some w"
proof -
  have len: "length (mJTWorkers h) = gMaxThreads" using assms(1) by (rule pool_length)
  have i: "i < gMaxThreads" "mJTWorkers h ! i = None" "0 < gMaxThreads" using first_empty_Some [OF assms(2)] len
    by (auto simp: gMaxThreads_def)
  obtain v where v: "mJTWorkers h ! 0 = Some v" using first_empty_Some [OF assms(2)] assms(3) by auto
  obtain k where k: "worker_at v h = Some k" using pool_slot [OF assms(1) i(3) v] by metis
  have vw: "v \<noteq> next_address h" using object_ok(2) [OF assms(1) k] by simp
  let ?w = "next_address h"
  obtain web where web: "createWebRtcWorker garbage h = (Some i, Some (occupy i web h))"
    and new: "\<not> mRunning web" "\<not> mSpawning web" "mID web = 0" "mWebRtcPeerConnection web"
    using web_worker_form [OF assms(1,2)] by blast
  define h1 where "h1 = occupy i web h"
  have h1: "createWebRtcWorker garbage h = (Some i, Some h1)" by (simp add: web h1_def)
  have "\<exists>l. (if opened then onWebRtcDataChannelOpen True address name ?w h1 else Some h1) = Some (set_worker ?w l h1) \<and>
      mID l = 0 \<and> \<not> mRunning l"
  proof (cases opened)
    case True
    let ?s = "web\<lparr>mClientName := name, mUdpSockTemp := False, mSpawning := True, mID := 0, mClientAddress := address,
        mServerPort := of_int (mBasePort h1), mClientPort := 0, mAssignedClientName := [], mDataProtocol := WEBRTC,
        mJackTrip := Some ((JackTripProcess_new (mBufferQueueLength web))\<lparr>process_protocol := WEBRTC\<rparr>)\<rparr>"
    have "onWebRtcDataChannelOpen True address name ?w h1 = Some (set_worker ?w ?s h1)"
      using new by (simp add: onWebRtcDataChannelOpen_def setJackTrip_def h1_def)
    then show ?thesis using True new by (intro exI [of _ ?s]) simp
  next
    case False
    have "set_worker ?w web h1 = h1" by (simp add: h1_def occupy_def set_worker_def)
    then show ?thesis using False new by (intro exI [of _ web]) simp
  qed
  then obtain l where l: "(if opened then onWebRtcDataChannelOpen True address name ?w h1 else Some h1) =
      Some (set_worker ?w l h1)" "mID l = 0" "\<not> mRunning l" by blast
  define m where "m = (if mSpawning l then l\<lparr>mSpawning := False, mUdpSockTemp := False, mTimeoutTimer := False\<rparr>
      else l)\<lparr>mWebRtcPeerConnection := False, mWebTransportSession := False\<rparr>"
  have ended: "web_connection_ended ?w (set_worker ?w l h1) = Some (set_worker ?w m h1)"
    using l(3) by (simp add: web_connection_ended_def stopThread_def m_def)
  have "mID m = 0" using l(2) by (simp add: m_def)
  then have "handleWorkerRemoval ?w (set_worker ?w m h1) = Some (vacate 0 v k (set_worker ?w m h1))"
    using v k vw len i assms(3)
    by (simp add: handleWorkerRemoval_def releaseThread_def slot_at_def delete_later_def vacate_def h1_def
        set_worker_running Let_def)
  moreover have "mJTWorkers h1 ! 0 = Some v" "mJTWorkers h1 ! i = Some ?w"
    using v i len assms(3) by (simp_all add: h1_def)
  moreover have "mJTWorkers (vacate 0 v k (set_worker ?w m h1)) ! 0 = None"
    "mJTWorkers (vacate 0 v k (set_worker ?w m h1)) ! i = Some ?w"
    using i len assms(3) by (simp_all add: h1_def)
  ultimately show ?thesis using h1 l(1) ended v by blast
qed

section \<open>Witnesses\<close>

definition example_hub :: UdpHubListener where
  "example_hub = fresh_hub 4464 0 NOAUTO"

lemma example_empty: "mJTWorkers example_hub = replicate gMaxThreads None" "next_address example_hub = 0"
  by (simp_all add: example_hub_def fresh_hub_def setHubPatch_def UdpHubListener_new_def)

lemma first_empty_eqI:
  assumes "n < length xs" and "xs ! n = None" and "\<And>j. j < n \<Longrightarrow> xs ! j \<noteq> None"
  shows "first_empty xs = Some n"
proof -
  obtain i where i: "first_empty xs = Some i" using assms(1,2) first_empty_None [of xs] by auto
  have "i = n" using first_empty_Some [OF i] assms by (metis linorder_neqE_nat)
  then show ?thesis using i by simp
qed

lemma example_first_empty: "first_empty (mJTWorkers example_hub) = Some 0"
  by (rule first_empty_eqI) (simp_all add: example_empty gMaxThreads_def)

lemma example_reachable: "reachable example_hub example_hub"
  by (rule reachable.start)

lemma example_admitted:
  "\<exists>h k. reachable example_hub h \<and> worker_at 0 h = Some k \<and> awaiting k \<and> mID k = 0 \<and> mJTWorkers h ! 0 = Some 0 \<and>
    first_empty (mJTWorkers h) = Some 1"
proof -
  have inv: "pool_ok example_hub" by (simp add: example_hub_def fresh_pool)
  obtain k where k: "mID k = int 0" "awaiting k" "admit_client (0, 0, 0) True True [] [] example_hub =
      Some (Some (of_int (mBasePort example_hub + int 0)), occupy 0 k example_hub)"
    using admit_form(1) [OF pool_length [OF inv] example_first_empty] by blast
  have "handle (Admitted (0, 0, 0) True True [] []) example_hub = Some (occupy 0 k example_hub)"
    using k(3) by simp
  then have "reachable example_hub (occupy 0 k example_hub)"
    by (intro reachable.step [OF reachable.start, where e = "Admitted (0, 0, 0) True True [] []"]) simp_all
  moreover have "first_empty ((replicate gMaxThreads None)[0 := Some (0 :: nat)]) = Some 1"
    by (rule first_empty_eqI) (simp_all add: gMaxThreads_def)
  ultimately show ?thesis
    using k(1,2) by (intro exI [of _ "occupy 0 k example_hub"] exI [of _ k]) (simp add: example_empty gMaxThreads_def)
qed

theorem hub_pool_safe_witness:
  "\<exists>h'. handle (QueueBufferChanged 8) example_hub = Some h' \<and>
    mTotalRunningThreads h' = int (card {i. i < gMaxThreads \<and> mJTWorkers h' ! i \<noteq> None})"
  using hub_pool_safe [OF example_reachable [unfolded example_hub_def], of "QueueBufferChanged 8"]
  by (auto simp: example_hub_def)

theorem silent_client_times_out_witness:
  "\<exists>p h1 w. admit_client (1, 2, 3) True True [] [] example_hub = Some (Some p, h1) \<and> mJTWorkers h1 ! 0 = Some w \<and>
    (\<exists>h2. ticks w 100 h1 = Some h2 \<and> mJTWorkers h2 ! 0 = None)"
  using silent_client_times_out [OF example_reachable [unfolded example_hub_def], of 0 "(1, 2, 3)" "[]" "[]"]
    example_first_empty by (auto simp: example_hub_def)

definition example_packet :: bytes where
  "example_packet = [0, 0, 0, 0, 0, 0, 0, 0, 0, 0, 128, 0, 3, 16, 2, 0]"

theorem first_packet_replaces_session_witness:
  "\<exists>h h'. reachable example_hub h \<and> receivedFirstPacketUDP example_packet 4464 0 h = Some h' \<and>
    mJTWorkers h' ! 0 = Some 0 \<and> receivedFirstPacketUDP [] 4464 0 h \<noteq> None"
proof -
  obtain h k where h: "reachable example_hub h" "worker_at 0 h = Some k" "awaiting k" "mID k = 0"
    using example_admitted by blast
  have "settings_ok example_packet" by code_simp
  moreover have "16 \<le> length example_packet" by (simp add: example_packet_def)
  ultimately show ?thesis
    using first_packet_replaces_session [OF h(1) [unfolded example_hub_def] h(2), of 4464 example_packet]
      first_packet_replaces_session [OF h(1) [unfolded example_hub_def] h(2), of 4464 "[]"] h
    by (auto simp: awaiting_def)
qed

theorem port_zero_deadlock_witness:
  "\<exists>h. reachable example_hub h \<and> receivedFirstPacketUDP example_packet 0 0 h = None"
proof -
  obtain h k where h: "reachable example_hub h" "worker_at 0 h = Some k" "awaiting k"
    using example_admitted by blast
  then show ?thesis
    using port_zero_deadlock [OF h(1) [unfolded example_hub_def] h(2), of example_packet]
    by (auto simp: awaiting_def example_packet_def)
qed

lemma web_client_releases_first_slot_witness:
  "\<exists>h h1 h2 h4 w. reachable example_hub h \<and> createWebRtcWorker (0, 0, 0) h = (Some 1, Some h1) \<and>
    mJTWorkers h1 ! 0 = Some 0 \<and> web_connection_ended w h1 = Some h2 \<and> handleWorkerRemoval w h2 = Some h4 \<and>
    mJTWorkers h4 ! 0 = None \<and> mJTWorkers h4 ! 1 = Some w"
proof -
  obtain h where h: "reachable example_hub h" "mJTWorkers h ! 0 = Some 0" "first_empty (mJTWorkers h) = Some 1"
    using example_admitted by blast
  then have "pool_ok h" by (simp add: example_hub_def reachable_hub)
  obtain h1 h2 h3 h4 v w where w: "createWebRtcWorker (0, 0, 0) h = (Some 1, Some h1)"
    "mJTWorkers h ! 0 = Some v" "mJTWorkers h1 ! 0 = Some v" "Some h1 = Some h2" "web_connection_ended w h2 = Some h3"
    "handleWorkerRemoval w h3 = Some h4" "mJTWorkers h4 ! 0 = None" "mJTWorkers h4 ! 1 = Some w"
    using web_client_releases_first_slot [OF \<open>pool_ok h\<close> h(3), of "(0, 0, 0)" False] by auto
  have "v = 0" "h1 = h2" using w(2,4) h(2) by simp_all
  then show ?thesis using h(1) w by blast
qed

lemma hub_sessions_distinct_witness:
  "\<exists>h v w k l. reachable example_hub h \<and> mJTWorkers h ! 0 = Some v \<and> mJTWorkers h ! 1 = Some w \<and>
    worker_at v h = Some k \<and> worker_at w h = Some l \<and> mServerPort k \<noteq> mServerPort l"
proof -
  obtain h k where h: "reachable example_hub h" "worker_at 0 h = Some k" "mJTWorkers h ! 0 = Some 0"
    "first_empty (mJTWorkers h) = Some 1" using example_admitted by blast
  then have inv: "pool_ok h" by (simp add: example_hub_def reachable_hub)
  obtain l where l: "admit_client (0, 0, 0) True True [] [] h = Some (Some (of_int (mBasePort h + int 1)), occupy 1 l h)"
    using admit_form(1) [OF pool_length [OF inv] h(4)] by blast
  then have "handle (Admitted (0, 0, 0) True True [] []) h = Some (occupy 1 l h)" by simp
  then have r: "reachable example_hub (occupy 1 l h)"
    using reachable.step [OF h(1), of "Admitted (0, 0, 0) True True [] []"] by simp
  have at: "mJTWorkers (occupy 1 l h) ! 0 = Some 0" "mJTWorkers (occupy 1 l h) ! 1 = Some (next_address h)"
    "worker_at 0 (occupy 1 l h) = Some k" "worker_at (next_address h) (occupy 1 l h) = Some l"
    using h object_ok(2) [OF inv h(2)] pool_length [OF inv] by (simp_all add: gMaxThreads_def)
  show ?thesis
    using hub_sessions_distinct [OF r [unfolded example_hub_def], of 0 1, OF _ _ _ at] r at
    by (auto simp: gMaxThreads_def)
qed

end
