(* ===== verification/HubWire.thy ===== *)
theory HubWire
  imports Auth
begin

text \<open>
  The numbers and names that a client and the hub server exchange over TCP before the audio starts
  (\<open>src/JackTrip.cpp\<close>, \<open>src/UdpHubListener.cpp\<close>): 32-bit little-endian numbers, and a name in 64
  bytes that ends with a null.
\<close>

text \<open>\<open>qToLittleEndian\<close> and \<open>qFromLittleEndian\<close> of \<open>qint32\<close>.\<close>

definition qint32_bytes :: "int \<Rightarrow> bytes" where
  "qint32_bytes v = le_bytes 4 (nat (v mod 2 ^ 32))"

definition qint32_at :: "bytes \<Rightarrow> int" where
  "qint32_at b = sint (of_nat (of_le_bytes (take 4 b)) :: u32)"

definition gMaxRemoteNameLength :: nat where "gMaxRemoteNameLength = 64"
definition gMaxCredentialLength :: int where "gMaxCredentialLength = 255"

text \<open>Where a name is cut: at most 63 bytes, and not inside a character of several bytes.\<close>

fun cut_back :: "bytes \<Rightarrow> nat \<Rightarrow> nat" where
  "cut_back name 0 = 0"
| "cut_back name (Suc n) = (if name ! Suc n AND 0xc0 = 0x80 then cut_back name n else Suc n)"

definition name_length :: "bytes \<Rightarrow> nat" where
  "name_length name = (if gMaxRemoteNameLength - 1 < length name
     then cut_back name (gMaxRemoteNameLength - 1) else length name)"

definition name_field :: "bytes \<Rightarrow> bytes" where
  "name_field name =
     (let b = take (name_length name) name in b @ replicate (gMaxRemoteNameLength - length b) 0)"

section \<open>Facts\<close>

lemma qint32_length [simp]: "length (qint32_bytes v) = 4"
  by (simp add: qint32_bytes_def)

lemma qint32_roundtrip:
  assumes "int32_range v"
  shows "qint32_at (qint32_bytes v @ rest) = v"
proof -
  have "nat (v mod 2 ^ 32) < 2 ^ 32" by (simp add: nat_less_iff)
  then have "of_le_bytes (le_bytes 4 (nat (v mod 2 ^ 32))) = nat (v mod 2 ^ 32)"
    by (simp add: of_le_bytes_le_bytes del: le_bytes.simps)
  moreover have "(of_nat (nat (v mod 2 ^ 32)) :: u32) = of_int v"
    by (simp add: word_of_int_eq_iff of_nat_nat take_bit_eq_mod)
  ultimately show ?thesis
    using sint_of_int_u32 [OF assms] by (simp add: qint32_at_def qint32_bytes_def del: le_bytes.simps)
qed

lemma cut_back_le: "cut_back name n \<le> n"
  by (induction n) auto

lemma name_length_le: "name_length name \<le> 63" "name_length name \<le> length name"
  using cut_back_le [of name 63] by (auto simp: name_length_def gMaxRemoteNameLength_def)

lemma name_field_length [simp]: "length (name_field name) = 64"
  using name_length_le [of name] by (simp add: name_field_def gMaxRemoteNameLength_def Let_def)

end
