(* ===== verification/HubConnection.thy ===== *)
theory HubConnection
  imports HubWorkers HubWire
begin

text \<open>
  The TCP handshake of the hub server (\<open>src/UdpHubListener.cpp\<close>): \<open>readyRead\<close> with everything it
  calls.  A connection holds the bytes that arrived and were not read, the bytes written, and what was
  done to the socket.  The TLS layer is Qt's: a connection is encrypted once it says so.
  A call through a null pointer has no result.
\<close>

section \<open>Connections\<close>

record connection =
  encrypted :: bool
  bytes_available :: bytes
  peerAddress :: qstring
  bytes_written :: bytes
  startServerEncryption :: bool
  socket_closed :: bool
  disconnected :: bool
  signals_detached :: bool

text \<open>What the environment adds: Qt's functions, the date and time, and whether writing and binding work.\<close>

record hub_env =
  env_qt :: qt
  env_weekday :: nat
  env_time :: nat
  env_memory :: "u16 \<times> u16 \<times> int"
  env_write :: bool
  env_bind :: bool

definition read_bytes :: "nat \<Rightarrow> connection \<Rightarrow> bytes \<times> connection" where
  "read_bytes n c = (take n (bytes_available c), c\<lparr>bytes_available := drop n (bytes_available c)\<rparr>)"

definition write_bytes :: "bytes \<Rightarrow> connection \<Rightarrow> connection" where
  "write_bytes b c = c\<lparr>bytes_written := bytes_written c @ b\<rparr>"

definition close_connection :: "connection \<Rightarrow> connection" where
  "close_connection c = c\<lparr>socket_closed := True\<rparr>"

section \<open>The port of a client\<close>

definition readClientUdpPort :: "qt \<Rightarrow> connection \<Rightarrow> int \<times> qstring \<times> connection" where
  "readClientUdpPort Q c =
     (let (port_buf, c) = read_bytes 4 c;
          udp_port = qint32_at port_buf
      in if length (bytes_available c) = gMaxRemoteNameLength
         then let (name_buf, c) = read_bytes gMaxRemoteNameLength c in (udp_port, fromUtf8 Q name_buf, c)
         else (udp_port, [], c))"

definition checkAuthAndReadPort :: "hub_env \<Rightarrow> UdpHubListener \<Rightarrow> connection \<Rightarrow>
    (int \<times> qstring \<times> UdpHubListener \<times> connection) option" where
  "checkAuthAndReadPort E h c =
     (let n = gMaxRemoteNameLength + 3 * 4;
          buf = take n (bytes_available c)
      in if length (bytes_available c) < n then Some (0, [], h, c)
         else
           let usernameLength = qint32_at (drop (gMaxRemoteNameLength + 4) buf);
               passwordLength = qint32_at (drop (gMaxRemoteNameLength + 2 * 4) buf)
           in if usernameLength < 0 \<or> gMaxCredentialLength < usernameLength \<or>
                 passwordLength < 0 \<or> gMaxCredentialLength < passwordLength
              then Some (response_code WRONGCREDS, [], h, c)
              else if int (length (bytes_available c)) < int n + usernameLength + passwordLength + 2
              then Some (0, [], h, c)
              else
                let (port_buf, c) = read_bytes 4 c;
                    udp_port = qint32_at port_buf;
                    (name_buf, c) = read_bytes gMaxRemoteNameLength c;
                    clientName = fromUtf8 (env_qt E) name_buf;
                    (_, c) = read_bytes 4 c;
                    (_, c) = read_bytes 4 c;
                    (username_buf, c) = read_bytes (nat usernameLength) c;
                    (_, c) = read_bytes 1 c;
                    (password_buf, c) = read_bytes (nat passwordLength) c;
                    (_, c) = read_bytes 1 c
                in (case mAuth h of
                      None \<Rightarrow> None
                    | Some a \<Rightarrow>
                        let (response, a) = checkCredentials (env_qt E) (env_weekday E) (env_time E)
                              (fromUtf8 (env_qt E) username_buf) (fromUtf8 (env_qt E) password_buf) a
                        in Some (if response = OK then udp_port else response_code response, clientName,
                             h\<lparr>mAuth := Some a\<rparr>, c)))"

text \<open>The result is whether the bytes went out before the client disconnected.\<close>

definition sendUdpPort :: "hub_env \<Rightarrow> int \<Rightarrow> connection \<Rightarrow> int \<times> connection" where
  "sendUdpPort E udp_port c = (if env_write E then 1 else 0, write_bytes (qint32_bytes udp_port) c)"

definition refuse :: "hub_env \<Rightarrow> AuthResponseT \<Rightarrow> connection \<Rightarrow> connection" where
  "refuse E response c = close_connection (snd (sendUdpPort E (response_code response) c))"

section \<open>Requests of browsers\<close>

definition ascii :: "string \<Rightarrow> bytes" where
  "ascii s = map (\<lambda>c. of_nat (of_char c)) s"

definition crlf :: bytes where "crlf = [13, 10]"

text \<open>\<open>indexOf\<close> from a position; none for -1.\<close>

fun index_of :: "'a list \<Rightarrow> 'a list \<Rightarrow> nat option" where
  "index_of pat [] = (if pat = [] then Some 0 else None)"
| "index_of pat (x # xs) =
     (if startsWith (x # xs) pat then Some 0 else map_option Suc (index_of pat xs))"

definition to_lower :: "u8 \<Rightarrow> u8" where
  "to_lower b = (if 65 \<le> b \<and> b \<le> 90 then b + 32 else b)"

definition is_space :: "u8 \<Rightarrow> bool" where
  "is_space b \<longleftrightarrow> b = 32 \<or> 9 \<le> b \<and> b \<le> 13"

definition trimmed :: "bytes \<Rightarrow> bytes" where
  "trimmed b = rev (dropWhile is_space (rev (dropWhile is_space b)))"

definition request_origin :: "bytes \<Rightarrow> bytes" where
  "request_origin peekData =
     (case index_of (crlf @ ascii ''origin: '') (map to_lower peekData) of
        None \<Rightarrow> []
      | Some originIdx \<Rightarrow>
          let rest = drop (originIdx + 10) peekData in
          (case index_of [13] rest of None \<Rightarrow> [] | Some n \<Rightarrow> trimmed (take n rest)))"

definition cors_headers :: "bytes \<Rightarrow> bytes" where
  "cors_headers origin =
     (if origin = [] then []
      else ascii ''Access-Control-Allow-Origin: '' @ origin @ crlf @
        ascii ''Access-Control-Allow-Methods: GET, OPTIONS'' @ crlf @
        ascii ''Access-Control-Allow-Headers: Content-Type'' @ crlf)"

definition request_path :: "bytes \<Rightarrow> bytes" where
  "request_path peekData =
     (let requestLine = (case index_of [13] peekData of None \<Rightarrow> [] | Some n \<Rightarrow> take n peekData);
          requestParts = split_at 32 requestLine
      in if 1 < length requestParts then requestParts ! 1 else [])"

definition json_response :: "string \<Rightarrow> string \<Rightarrow> bytes \<Rightarrow> bytes" where
  "json_response status body corsHeaders =
     ascii ''HTTP/1.1 '' @ ascii status @ crlf @ ascii ''Content-Type: application/json'' @ crlf @
     ascii ''Content-Length: '' @ map ucast (decimal (length body)) @ crlf @ ascii ''Connection: close'' @ crlf @
     corsHeaders @ crlf @ ascii body"

definition web_request :: "hub_env \<Rightarrow> UdpHubListener \<Rightarrow> connection \<Rightarrow> (UdpHubListener \<times> connection) option" where
  "web_request E h c =
     (let peekData = take 512 (bytes_available c);
          corsHeaders = cors_headers (request_origin peekData);
          path = request_path peekData
      in if startsWith peekData (ascii ''OPTIONS'')
         then Some (h, (write_bytes (ascii ''HTTP/1.1 204 No Content'' @ crlf @ ascii ''Connection: close'' @ crlf @
           corsHeaders @ crlf) c)\<lparr>disconnected := True\<rparr>)
         else if path = ascii ''/ping''
         then Some (h, (write_bytes (json_response ''200 OK'' ''{\"status\":\"OK\"}'' corsHeaders) c)\<lparr>disconnected := True\<rparr>)
         else if path = ascii ''/webrtc'' \<or> startsWith path (ascii ''/webrtc?'')
         then let c = c\<lparr>signals_detached := True\<rparr> in
           (case createWebRtcWorker (env_memory E) h of
              (None, h) \<Rightarrow> map_option (\<lambda>h. (h, close_connection c)) h
            | (Some _, h) \<Rightarrow> map_option (\<lambda>h. (h, c)) h)
         else Some (h, (write_bytes (json_response ''404 Not Found'' ''{\"status\":\"Not Found\"}'' corsHeaders) c)
           \<lparr>disconnected := True\<rparr>))"

section \<open>New data on a connection\<close>

definition client_hello :: "bytes \<Rightarrow> bool" where
  "client_hello header \<longleftrightarrow> header ! 0 = 0x16 \<and> header ! 1 = 0x03 \<and> 0x01 \<le> header ! 2 \<and> header ! 2 \<le> 0x04"

definition accept_client :: "hub_env \<Rightarrow> int \<Rightarrow> qstring \<Rightarrow> UdpHubListener \<Rightarrow> connection \<Rightarrow>
    (UdpHubListener \<times> connection) option" where
  "accept_client E peer_udp_port clientName h c =
     (if peer_udp_port = 0 then Some (h, c)
      else do {
        (port, h) \<leftarrow> admit_client (env_memory E) (env_write E) (env_bind E) (peerAddress c) clientName h;
        Some (h, case port of
            None \<Rightarrow> close_connection c
          | Some p \<Rightarrow> close_connection (snd (sendUdpPort E (uint p) c)))
      })"

definition readyRead :: "hub_env \<Rightarrow> UdpHubListener \<Rightarrow> connection \<Rightarrow> (UdpHubListener \<times> connection) option" where
  "readyRead E h c =
     (if \<not> encrypted c then
        if length (take 3 (bytes_available c)) < 3 then Some (h, c)
        else if client_hello (take 3 (bytes_available c)) then
          if \<not> mTlsConfigured h then Some (h, close_connection c)
          else Some (h, c\<lparr>startServerEncryption := True\<rparr>)
        else if length (bytes_available c) < 4 then Some (h, c)
        else
          let (peer_udp_port, clientName, c) = readClientUdpPort (env_qt E) c in
          if peer_udp_port = response_code OK then
            if \<not> mRequireAuth h then Some (h, refuse E NOTREQUIRED c)
            else Some (h, (snd (sendUdpPort E (response_code OK) c))\<lparr>startServerEncryption := True\<rparr>)
          else if mRequireAuth h then Some (h, refuse E REQUIRED c)
          else accept_client E peer_udp_port clientName h c
      else if startsWith (take 512 (bytes_available c)) (ascii ''GET'') \<or>
              startsWith (take 512 (bytes_available c)) (ascii ''OPTIONS'')
      then web_request E h c
      else do {
        (peer_udp_port, clientName, h, c) \<leftarrow> checkAuthAndReadPort E h c;
        if 65535 < peer_udp_port
        then Some (h, close_connection (snd (sendUdpPort E peer_udp_port c)))
        else accept_client E peer_udp_port clientName h c
      })"

section \<open>Starting the listener\<close>

text \<open>
  What \<open>start\<close> finds outside: the port, the SSL library, the certificate and the key, the credentials
  file, and whether the HTTP/3 server starts.  A file name that is not set is empty.
\<close>

datatype file_status = Missing | Unusable | Usable

record start_env =
  port_listens :: bool
  ssl_supported :: bool
  cert_name :: qstring
  key_name :: qstring
  creds_name :: qstring
  cert_status :: file_status
  key_status :: file_status
  creds_is_file :: bool
  file_contents :: "qstring \<Rightarrow> bytes option"
  file_codec :: text_codec

datatype start_error =
    PortError | NoSsl | NoCertificate | BadCertificate | NoKey | BadKey
  | NoCertificateName | NoKeyName | NoCredentials

definition tls_error :: "start_env \<Rightarrow> start_error option" where
  "tls_error S =
     (if \<not> ssl_supported S then Some NoSsl
      else case cert_status S of
        Missing \<Rightarrow> Some NoCertificate
      | Unusable \<Rightarrow> Some BadCertificate
      | Usable \<Rightarrow> (case key_status S of
            Missing \<Rightarrow> Some NoKey
          | Unusable \<Rightarrow> Some BadKey
          | Usable \<Rightarrow> None))"

definition auth_error :: "start_env \<Rightarrow> start_error option" where
  "auth_error S =
     (if cert_name S = [] then Some NoCertificateName
      else if key_name S = [] then Some NoKeyName
      else if \<not> creds_is_file S then Some NoCredentials
      else None)"

definition start_listener :: "start_env \<Rightarrow> UdpHubListener \<Rightarrow> (start_error + UdpHubListener)" where
  "start_listener S h =
     (let h = h\<lparr>mStopped := False\<rparr>;
          tls = cert_name S \<noteq> [] \<and> key_name S \<noteq> []
      in if \<not> port_listens S then Inl PortError
         else case (if tls \<and> mRequireAuth h then tls_error S else None) of
           Some e \<Rightarrow> Inl e
         | None \<Rightarrow>
             let h = (if tls \<and> tls_error S = None then h\<lparr>mTlsConfigured := True\<rparr> else h) in
             if mRequireAuth h
             then (case auth_error S of
                 Some e \<Rightarrow> Inl e
               | None \<Rightarrow> Inr (h\<lparr>mAuth := Some (Auth_new (file_codec S) (file_contents S) (creds_name S) True)\<rparr>))
             else Inr h)"

end
