(* ===== verification/ClientConnection.thy ===== *)
theory ClientConnection
  imports HubWire
begin

text \<open>
  How a \<open>JackTrip\<close> object connects (\<open>src/JackTrip.cpp\<close>): the client of a hub server, which asks for a
  port over TCP, with or without authentication, and retries until its time is over, and the
  server of a single peer, which waits for the first UDP packet.  Sockets and timers are the fields
  that the code sets; what they signal are the calls of the slots.  Random numbers, the SSL
  library, name lookups and the state of the audio interface are arguments, console output is left out.
\<close>

section \<open>State\<close>

datatype tcp_state = Unconnected | Connecting qstring int | Closed

datatype jacktrip_signal = SignalError qstring | SignalProcessesStopped | SignalTcpClientConnected

record ClientConnection =
  mPeerAddress :: qstring
  mReceiverBindPort :: int
  mTcpServerPort :: int
  mPeerPort :: "int option"
  mRemoteClientName :: qstring
  mUseAuth :: bool
  mUsername :: qstring
  mPassword :: qstring
  mRetries :: int
  mElapsedTime :: int
  mEndTime :: int
  mAwaitingTcp :: bool
  mAwaitingUdp :: bool
  mRetryTimer :: bool
  mRetryInterval :: int
  mTimeoutTimer :: bool
  mUdpSockTemp :: bool
  mStopped :: bool
  mHasShutdown :: bool
  tcp_client :: tcp_state
  tcp_encrypted :: bool
  tcp_available :: bytes
  tcp_written :: bytes
  startClientEncryption :: bool
  udp_written :: "(bytes \<times> u16) list"
  signals :: "jacktrip_signal list"
  connection_complete :: bool

record client_env =
  client_qt :: qt
  client_ssl :: bool
  client_random :: int
  client_bind :: bool
  client_memory :: bytes
  client_stop_flag :: bool
  client_audio_stopped :: bool
  client_audio_error :: qstring
  client_lookup :: "qstring \<Rightarrow> qstring"

definition mSleepTime :: int where "mSleepTime = 100"

definition emit :: "jacktrip_signal \<Rightarrow> ClientConnection \<Rightarrow> ClientConnection" where
  "emit s c = c\<lparr>signals := signals c @ [s]\<rparr>"

text \<open>The end of the processes, once; an error of the audio interface comes before the message.\<close>

definition stop_jacktrip :: "client_env \<Rightarrow> qstring \<Rightarrow> ClientConnection \<Rightarrow> ClientConnection" where
  "stop_jacktrip E errorMessage c =
     (let c = c\<lparr>mStopped := True\<rparr> in
      if mHasShutdown c then c
      else
        let c = c\<lparr>mHasShutdown := True\<rparr>;
            audioErrorMsg = (if client_audio_error E \<noteq> [] then client_audio_error E
              else if client_audio_stopped E then qs ''Your audio interface has stopped!'' else [])
        in if audioErrorMsg \<noteq> [] then emit (SignalError audioErrorMsg) c
           else if errorMessage = [] then emit SignalProcessesStopped c
           else emit (SignalError errorMessage) c)"

definition close_tcp :: "ClientConnection \<Rightarrow> ClientConnection" where
  "close_tcp c = c\<lparr>tcp_client := Closed\<rparr>"

definition write_tcp :: "bytes \<Rightarrow> ClientConnection \<Rightarrow> ClientConnection" where
  "write_tcp b c = c\<lparr>tcp_written := tcp_written c @ b\<rparr>"

definition completeConnection :: "ClientConnection \<Rightarrow> ClientConnection" where
  "completeConnection c = c\<lparr>connection_complete := True\<rparr>"

definition setPeerPorts :: "int \<Rightarrow> ClientConnection \<Rightarrow> ClientConnection" where
  "setPeerPorts port c = c\<lparr>mPeerPort := Some port\<rparr>"

section \<open>The client of a hub server\<close>

text \<open>An exception is no result.\<close>

definition clientPingToServerStart :: "client_env \<Rightarrow> ClientConnection \<Rightarrow> (int \<times> ClientConnection) option" where
  "clientPingToServerStart E c =
     (if mPeerAddress c = [] then None
      else if mUseAuth c \<and> \<not> client_ssl E then Some (- 1, stop_jacktrip E
        (qs ''SSL not supported. Make sure you have the appropriate SSL libraries'' @ [newline] @
         qs ''installed to enable authentication.'') c)
      else if mUseAuth c \<and> (mUsername c = [] \<or> mPassword c = []) then Some (- 1, stop_jacktrip E
        (qs ''You must supply a username and password to authenticate with a hub server.'') c)
      else
        let c = c\<lparr>mAwaitingTcp := True, mElapsedTime := 0, mEndTime := 30000,
              mRetryTimer := True, mRetryInterval := client_random E\<rparr>
        in Some (0, if tcp_client c = Unconnected
             then c\<lparr>tcp_client := Connecting (client_lookup E (mPeerAddress c)) (mTcpServerPort c)\<rparr> else c))"

text \<open>
  The single-shot timer has fired.  The interval is computed in \<open>double\<close> and converted; the numbers
  are exact.
\<close>

definition retry_interval :: "int \<Rightarrow> int option" where
  "retry_interval retries = map_option (\<lambda>n. min n 6000) (checked_int (2000 * 2 ^ nat retries))"

definition tcpTimerTick :: "client_env \<Rightarrow> ClientConnection \<Rightarrow> ClientConnection option" where
  "tcpTimerTick E c =
     (let c = c\<lparr>mRetryTimer := False\<rparr> in
      if \<not> mAwaitingTcp c then Some c
      else if mStopped c \<or> client_stop_flag E \<or> client_audio_stopped E
      then Some (stop_jacktrip E [] (close_tcp (c\<lparr>mAwaitingTcp := False\<rparr>)))
      else do {
        elapsed \<leftarrow> checked_int (mElapsedTime c + mRetryInterval c);
        let c = c\<lparr>mElapsedTime := elapsed\<rparr>;
        if 0 < mEndTime c \<and> mEndTime c \<le> elapsed
        then Some (stop_jacktrip E (qs ''Initial TCP Connection Timed Out'')
          (close_tcp (c\<lparr>mAwaitingTcp := False\<rparr>)))
        else do {
          retries \<leftarrow> checked_int (mRetries c + 1);
          base \<leftarrow> retry_interval retries;
          newInterval \<leftarrow> checked_int (base + client_random E);
          Some (c\<lparr>mRetries := retries, mRetryTimer := True, mRetryInterval := newInterval,
            tcp_client := Connecting (client_lookup E (mPeerAddress c)) (mTcpServerPort c)\<rparr>)
        }
      })"

definition client_name_field :: "client_env \<Rightarrow> ClientConnection \<Rightarrow> bytes" where
  "client_name_field E c =
     (if mRemoteClientName c = [] then replicate gMaxRemoteNameLength 0
      else name_field (toUtf8 (client_qt E) (mRemoteClientName c)))"

definition receivedConnectionTCP :: "client_env \<Rightarrow> ClientConnection \<Rightarrow> ClientConnection" where
  "receivedConnectionTCP E c =
     (if \<not> mAwaitingTcp c then c
      else
        let c = emit SignalTcpClientConnected (c\<lparr>mAwaitingTcp := False, mRetryTimer := False\<rparr>)
        in if mUseAuth c then write_tcp (qint32_bytes (response_code OK)) c
           else write_tcp (qint32_bytes (mReceiverBindPort c) @ client_name_field E c) c)"

definition connectionSecured :: "client_env \<Rightarrow> ClientConnection \<Rightarrow> ClientConnection" where
  "connectionSecured E c =
     (let username = toUtf8 (client_qt E) (mUsername c);
          password = toUtf8 (client_qt E) (mPassword c)
      in write_tcp (qint32_bytes (mReceiverBindPort c) @ client_name_field E c @
           qint32_bytes (int (length username)) @ qint32_bytes (int (length password)) @
           username @ [0] @ password @ [0]) c)"

definition read_tcp :: "nat \<Rightarrow> bytes \<Rightarrow> ClientConnection \<Rightarrow> bytes \<times> ClientConnection" where
  "read_tcp n buf c =
     (let b = take n (tcp_available c)
      in (b @ drop (length b) buf, c\<lparr>tcp_available := drop n (tcp_available c)\<rparr>))"

definition receivedDataTCP :: "client_env \<Rightarrow> ClientConnection \<Rightarrow> ClientConnection" where
  "receivedDataTCP E c =
     (if mUseAuth c \<and> \<not> tcp_encrypted c then
        let (auth_buf, c) = read_tcp 4 (client_memory E) c;
            authResponse = qint32_at auth_buf
        in if authResponse = response_code OK then c\<lparr>startClientEncryption := True\<rparr>
           else if authResponse = response_code NOTREQUIRED
           then close_tcp (stop_jacktrip E (qs ''The server does not require authentication'') c)
           else
             let c = stop_jacktrip E (qs ''The server does not support authentication'') c;
                 c = (if client_bind E
                   then c\<lparr>udp_written := udp_written c @ [(replicate 16 1, of_int authResponse)]\<rparr> else c)
             in close_tcp c
      else if length (tcp_available c) < 4 then c
      else
        let (port_buf, c) = read_tcp 4 (client_memory E) c;
            udp_port = (of_int (qint32_at port_buf) :: u32);
            c = close_tcp c
        in if mUseAuth c \<and> 65535 < udp_port
           then stop_jacktrip E
             (if uint udp_port = response_code WRONGCREDS then qs ''Incorrect username or password.''
              else if uint udp_port = response_code WRONGTIME
              then qs ''You are not authorized to access the server at this time.''
              else qs ''Unknown authentication error.'') c
           else if 65535 < udp_port
           then stop_jacktrip E
             (if uint udp_port = response_code REQUIRED
              then qs ''The server you are attempting to connect to requires authentication.''
              else qs ''Unknown authentication error.'') c
           else completeConnection (setPeerPorts (uint udp_port) c))"

definition receivedErrorTCP :: "client_env \<Rightarrow> bool \<Rightarrow> qstring \<Rightarrow> ClientConnection \<Rightarrow> ClientConnection" where
  "receivedErrorTCP E connectionRefused errorNumber c =
     (if \<not> connectionRefused
      then stop_jacktrip E (qs ''TCP Socket Error: '' @ errorNumber) ((close_tcp c)\<lparr>mRetryTimer := False\<rparr>)
      else c)"

section \<open>The server of a single peer\<close>

text \<open>A peer's address: its text, and for an IPv4 address mapped to IPv6 the text of that.\<close>

record host_address =
  is_ipv6 :: bool
  mapped_ipv4 :: "qstring option"
  address_text :: qstring

definition peer_address_text :: "host_address \<Rightarrow> qstring" where
  "peer_address_text a =
     (if is_ipv6 a then (case mapped_ipv4 a of Some t \<Rightarrow> t | None \<Rightarrow> address_text a) else address_text a)"

definition serverStart :: "client_env \<Rightarrow> bool \<Rightarrow> int \<Rightarrow> ClientConnection \<Rightarrow> (int \<times> ClientConnection) option" where
  "serverStart E timeout udpTimeout c =
     (let c = c\<lparr>mPeerAddress := [], mAwaitingUdp := True, mElapsedTime := 0,
           mEndTime := (if timeout then udpTimeout else mEndTime c), mTimeoutTimer := True\<rparr>
      in if client_bind E then Some (0, c\<lparr>mUdpSockTemp := True\<rparr>) else None)"

definition udpTimerTick :: "client_env \<Rightarrow> ClientConnection \<Rightarrow> ClientConnection option" where
  "udpTimerTick E c =
     (if \<not> mAwaitingUdp c then Some c
      else do {
        let c = (if mStopped c \<or> client_stop_flag E \<or> client_audio_stopped E
          then stop_jacktrip E [] (c\<lparr>mAwaitingUdp := False, mUdpSockTemp := False, mTimeoutTimer := False\<rparr>)
          else c);
        elapsed \<leftarrow> checked_int (mElapsedTime c + mSleepTime);
        let c = c\<lparr>mElapsedTime := elapsed\<rparr>;
        Some (if 0 < mEndTime c \<and> mEndTime c \<le> elapsed
          then stop_jacktrip E (qs ''JackTrip Server Timed Out'')
            (c\<lparr>mAwaitingUdp := False, mUdpSockTemp := False, mTimeoutTimer := False\<rparr>)
          else c)
      })"

definition receivedFirstPacket :: "host_address \<Rightarrow> u16 \<Rightarrow> ClientConnection \<Rightarrow> ClientConnection" where
  "receivedFirstPacket peerHostAddress peer_port c =
     (if \<not> mAwaitingUdp c then c
      else completeConnection (setPeerPorts (uint peer_port)
        (c\<lparr>mAwaitingUdp := False, mTimeoutTimer := False, mUdpSockTemp := False,
           mPeerAddress := peer_address_text peerHostAddress\<rparr>)))"

definition clientStart :: "ClientConnection \<Rightarrow> ClientConnection option" where
  "clientStart c = (if mPeerAddress c = [] then None else Some (completeConnection c))"

end
