(* ===== verification/AuthSpec.thy ===== *)
theory AuthSpec
  imports Auth
begin

text \<open>
  What the credentials promise: the shape of a password hash, the acceptance of an edited user
  with the right password, the round trip of the credentials file, and an entry of the access times
  that is accepted but never grants access.
\<close>

section \<open>Splitting\<close>

lemma split_at_nonempty: "split_at sep s \<noteq> []"
  by (induction s) (auto split: list.splits)

lemma split_at_append: "split_at sep (xs @ sep # ys) = split_at sep xs @ split_at sep ys"
proof (induction xs)
  case (Cons x xs)
  then show ?case using split_at_nonempty [of sep xs] by (auto split: list.splits)
qed simp

lemma split_at_free: "sep \<notin> set xs \<Longrightarrow> split_at sep xs = [xs]"
  by (induction xs) auto

section \<open>The base 64 alphabet\<close>

definition alphabet :: bytes where
  "alphabet = map (\<lambda>c. of_nat (of_char c))
     ''./0123456789ABCDEFGHIJKLMNOPQRSTUVWXYZabcdefghijklmnopqrstuvwxyz''"

lemma char64_table: "map (\<lambda>v. char64 (int v)) [0..<64] = alphabet"
  unfolding alphabet_def by code_simp

lemma length_alphabet: "length alphabet = 64"
  by (simp add: alphabet_def)

lemma char64_nth: "v < 64 \<Longrightarrow> char64 (int v) = alphabet ! v"
  using arg_cong [OF char64_table, of "\<lambda>l. l ! v"] by (simp del: upt_Suc)

lemma char64_in: "0 \<le> v \<Longrightarrow> v < 64 \<Longrightarrow> char64 v \<in> set alphabet"
  using char64_nth [of "nat v"] nth_mem [of "nat v" alphabet] by (simp add: length_alphabet)

lemma alphabet_chars: "c \<in> set alphabet \<Longrightarrow> c < 128 \<and> c \<noteq> 36 \<and> c \<noteq> 58 \<and> c \<noteq> 10 \<and> c \<noteq> 13"
proof -
  have "list_all (\<lambda>c. c < 128 \<and> c \<noteq> 36 \<and> c \<noteq> 58 \<and> c \<noteq> 10 \<and> c \<noteq> 13) alphabet"
    unfolding alphabet_def by code_simp
  then show "c \<in> set alphabet \<Longrightarrow> c < 128 \<and> c \<noteq> 36 \<and> c \<noteq> 58 \<and> c \<noteq> 10 \<and> c \<noteq> 13"
    by (simp add: list_all_iff)
qed

lemma charGroup_loop_chars: "length (charGroup_loop w n) = n \<and> set (charGroup_loop w n) \<subseteq> set alphabet"
proof (induction n arbitrary: w)
  case (Suc n)
  have "w AND 0x3f \<le> 0x3f" by (rule word_and_le1)
  then have "uint (w AND 0x3f) < 64" by (simp add: word_le_def)
  then show ?case using Suc.IH char64_in [of "uint (w AND 0x3f)"] by simp
qed simp

lemma crypt_digest_chars: "length (crypt_digest a) = 86 \<and> set (crypt_digest a) \<subseteq> set alphabet"
  using charGroup_loop_chars by (auto simp: crypt_digest_def crypt_order_def charGroup_def)

lemma sha512_crypt_form:
  "\<exists>d. sha512_crypt sha passwd salt = [36, 54, 36] @ salt @ [36] @ d \<and> length d = 86 \<and> set d \<subseteq> set alphabet"
  using crypt_digest_chars by (auto simp: sha512_crypt_def Let_def)

section \<open>Hashes as strings\<close>

text \<open>UTF-8 is ASCII on ASCII characters.\<close>

definition ascii_utf8 :: "qt \<Rightarrow> bool" where
  "ascii_utf8 Q \<longleftrightarrow> (\<forall>s. (\<forall>c\<in>set s. c < 128) \<longrightarrow> toUtf8 Q s = map ucast s) \<and>
     (\<forall>b. (\<forall>c\<in>set b. c < 128) \<longrightarrow> fromUtf8 Q b = map ucast b)"

lemma unat_widen: "unat (ucast (c :: u8) :: u16) = unat c"
proof -
  have "unat c < 2 ^ 16" by (rule less_trans [OF unat_u8_less]) simp
  then show ?thesis by (simp add: unsigned_ucast_eq take_bit_nat_eq_self)
qed

lemma unat_narrow: "c < 128 \<Longrightarrow> unat (ucast (c :: u16) :: u8) = unat c"
proof -
  assume "c < 128"
  then have "unat c < 2 ^ 8" by (simp add: word_less_nat_alt)
  then show ?thesis by (simp add: unsigned_ucast_eq take_bit_nat_eq_self)
qed

lemma narrow_widen: "c < 128 \<Longrightarrow> ucast (ucast c :: u16) = (c :: u8)"
proof -
  assume c: "c < 128"
  then have "(ucast c :: u16) < 128" by (simp add: word_less_nat_alt unat_widen)
  then show ?thesis by (simp add: word_unat_eq_iff unat_narrow unat_widen)
qed

lemma widen_small: "c < 128 \<Longrightarrow> (ucast (c :: u8) :: u16) < 128"
  by (simp add: word_less_nat_alt unat_widen)

lemma widen_eq: "(ucast (c :: u8) :: u16) = ucast d \<longleftrightarrow> c = d"
  by (simp add: word_unat_eq_iff unat_widen)

definition widen :: "bytes \<Rightarrow> qstring" where
  "widen = map ucast"

text \<open>Characters of the alphabet, as they occur in salts and digests.\<close>

definition plain :: "qstring \<Rightarrow> bool" where
  "plain s \<longleftrightarrow> (\<exists>b. s = widen b \<and> set b \<subseteq> set alphabet)"

lemma plain_chars:
  assumes "plain s"
  shows "dollar \<notin> set s" and "colon \<notin> set s" and "newline \<notin> set s" and "return \<notin> set s"
proof -
  obtain b where b: "s = widen b" "set b \<subseteq> set alphabet" using assms by (auto simp: plain_def)
  have "unat c \<noteq> 36 \<and> unat c \<noteq> 58 \<and> unat c \<noteq> 10 \<and> unat c \<noteq> 13" if c: "c \<in> set s" for c
  proof -
    obtain d where d: "c = ucast d" "d \<in> set alphabet" using c b by (auto simp: widen_def)
    then show ?thesis using alphabet_chars [OF d(2)] by (auto simp: unat_widen word_unat_eq_iff)
  qed
  then show "dollar \<notin> set s" "colon \<notin> set s" "newline \<notin> set s" "return \<notin> set s" by force+
qed

lemma generateSalt_plain:
  assumes "\<And>i. i < 16 \<Longrightarrow> 0 \<le> random i \<and> random i < 64"
  shows "plain (generateSalt random)" and "length (generateSalt random) = 16"
proof -
  have "generateSalt random = widen (map (\<lambda>i. char64 (random i)) [0..<16])"
    by (simp add: generateSalt_def widen_def)
  moreover have "set (map (\<lambda>i. char64 (random i)) [0..<16]) \<subseteq> set alphabet"
    using assms char64_in by auto
  ultimately show "plain (generateSalt random)" unfolding plain_def by blast
qed (simp add: generateSalt_def)

lemma toUtf8_plain:
  assumes "ascii_utf8 Q" and "s = widen b" and "set b \<subseteq> set alphabet"
  shows "toUtf8 Q s = b"
proof -
  have "\<forall>c\<in>set b. c < 128" using assms(3) alphabet_chars by blast
  moreover from this have "\<forall>c\<in>set s. c < 128" using assms(2) widen_small by (auto simp: widen_def)
  ultimately show ?thesis
    using assms(1,2) narrow_widen by (simp add: ascii_utf8_def widen_def map_idI)
qed

text \<open>The hash of a password with a salt from the alphabet, and its parts.\<close>

lemma hash_form:
  assumes Q: "ascii_utf8 Q" and "plain salt" and "length salt = 16"
  shows "\<exists>d. generateSha512Hash Q pw salt = qs ''$6$'' @ salt @ [dollar] @ d \<and> plain d \<and> length d = 86"
proof -
  obtain b where b: "salt = widen b" "set b \<subseteq> set alphabet" using assms(2) by (auto simp: plain_def)
  have salt: "take 16 (toUtf8 Q salt) = b" using toUtf8_plain [OF Q b] b(1) assms(3) by (simp add: widen_def)
  obtain d where d: "sha512_crypt (sha512 Q) (take 256 (toUtf8 Q pw)) b = [36, 54, 36] @ b @ [36] @ d"
    "length d = 86" "set d \<subseteq> set alphabet" using sha512_crypt_form by blast
  have "\<forall>c\<in>set ([36, 54, 36] @ b @ [36] @ d). c < 128" using b(2) d(3) alphabet_chars by auto
  then have "generateSha512Hash Q pw salt = map ucast ([36, 54, 36] @ b @ [36] @ d)"
    unfolding generateSha512Hash_def salt d(1) using Q unfolding ascii_utf8_def by blast
  also have "\<dots> = qs ''$6$'' @ salt @ [dollar] @ widen d" by (simp add: qs_def b(1) widen_def)
  finally show ?thesis using d by (auto simp: plain_def widen_def)
qed

lemma split_hash:
  assumes "plain salt" and "plain d"
  shows "split_at dollar (qs ''$6$'' @ salt @ [dollar] @ d) = [[], [54], salt, d]"
proof -
  have "qs ''$6$'' = [dollar, 54, dollar]" by (simp add: qs_def)
  then show ?thesis
    using split_at_append [of dollar salt d] plain_chars(1) [OF assms(1)] plain_chars(1) [OF assms(2)]
    by (simp add: split_at_free)
qed

lemma hash_salt:
  assumes "plain salt" and "plain d"
  shows "section_of dollar 2 (qs ''$6$'' @ salt @ [dollar] @ d) = salt"
  unfolding section_of_def split_hash [OF assms] by simp

lemma hash_usable:
  assumes "plain salt" and "plain d" and "salt \<noteq> []" and "d \<noteq> []"
  shows "usable_hash (qs ''$6$'' @ salt @ [dollar] @ d)"
  unfolding usable_hash_def split_hash [OF assms(1,2)] using assms(3,4) by (simp add: startsWith_def qs_def)

section \<open>The credentials file\<close>

text \<open>Strings that a line of the file can carry.\<close>

definition file_field :: "qstring \<Rightarrow> bool" where
  "file_field s \<longleftrightarrow> colon \<notin> set s \<and> newline \<notin> set s \<and> return \<notin> set s"

definition file_line :: "(qstring \<Rightarrow> qstring option) \<Rightarrow> (qstring \<Rightarrow> qstring option) \<Rightarrow> qstring \<Rightarrow> qstring" where
  "file_line pw access u = u @ [colon] @ the (pw u) @ [colon] @ fst (hash_at u access)"

definition times_or_empty :: "(qstring \<Rightarrow> qstring option) \<Rightarrow> qstring list \<Rightarrow> qstring \<Rightarrow> qstring option" where
  "times_or_empty access us u = (if u \<in> set us then Some (fst (hash_at u access)) else access u)"

lemma hash_at_times: "snd (hash_at u access) = times_or_empty access [u]"
  by (auto simp: hash_at_def times_or_empty_def split: option.splits)

lemma write_users_lines:
  assumes "distinct us"
  shows "write_users pw us access =
    (concat (map (\<lambda>u. file_line pw access u @ [newline]) us), times_or_empty access us)"
  using assms
proof (induction us arbitrary: access)
  case Nil
  then show ?case by (auto simp: times_or_empty_def)
next
  case (Cons u us)
  let ?t = "snd (hash_at u access)"
  have same: "fst (hash_at v ?t) = fst (hash_at v access)" if "v \<in> set us" for v
    using that Cons.prems by (auto simp: hash_at_def split: option.splits)
  then have "map (\<lambda>v. file_line pw ?t v @ [newline]) us = map (\<lambda>v. file_line pw access v @ [newline]) us"
    by (simp add: file_line_def)
  then have "concat (map (\<lambda>v. file_line pw ?t v @ [newline]) us) = concat (map (\<lambda>v. file_line pw access v @ [newline]) us)"
    by (rule arg_cong)
  moreover have "times_or_empty ?t us = times_or_empty access (u # us)"
    using same by (auto simp: hash_at_times times_or_empty_def fun_eq_iff)
  moreover have "write_users pw us ?t =
      (concat (map (\<lambda>v. file_line pw ?t v @ [newline]) us), times_or_empty ?t us)"
    using Cons.IH Cons.prems by simp
  moreover have "write_users pw (u # us) access =
      (file_line pw access u @ [newline] @ fst (write_users pw us ?t), snd (write_users pw us ?t))"
    by (simp add: file_line_def case_prod_unfold Let_def)
  ultimately show ?case by simp
qed

lemma split_lines:
  assumes "\<And>l. l \<in> set ls \<Longrightarrow> newline \<notin> set l"
  shows "split_at newline (concat (map (\<lambda>l. l @ [newline]) ls)) = ls @ [[]]"
  using assms by (induction ls) (simp_all add: split_at_append split_at_free)

lemma text_lines_file:
  assumes "\<And>l. l \<in> set ls \<Longrightarrow> newline \<notin> set l \<and> return \<notin> set l"
  shows "text_lines (concat (map (\<lambda>l. l @ [newline]) ls)) = ls"
proof -
  have "split_at newline (concat (map (\<lambda>l. l @ [newline]) ls)) = ls @ [[]]"
    by (rule split_lines) (use assms in blast)
  moreover have "strip_return l = l" if "l \<in> set ls" for l
    using assms [OF that] by (cases "l = []") (auto simp: strip_return_def dest: last_in_set)
  ultimately show ?thesis by (simp add: text_lines_def map_idI)
qed

lemma load_file_line:
  assumes "file_field u" and "file_field h" and "file_field t" and "usable_hash h"
  shows "load_line (u @ [colon] @ h @ [colon] @ t) (e, a) =
    (e, a\<lparr>m_passwordTable := (m_passwordTable a)(u \<mapsto> h), m_timesTable := (m_timesTable a)(u \<mapsto> t)\<rparr>)"
proof -
  have "split_at colon (u @ [colon] @ h @ [colon] @ t) = [u, h, t]"
    using assms(1-3) split_at_append [of colon u "h @ [colon] @ t"] split_at_append [of colon h t]
    by (simp add: split_at_free file_field_def)
  then show ?thesis using assms(4) by simp
qed

lemma load_lines:
  assumes "\<And>u. u \<in> set us \<Longrightarrow> file_field u \<and> file_field (h u) \<and> file_field (t u) \<and> usable_hash (h u)"
  shows "fold load_line (map (\<lambda>u. u @ [colon] @ h u @ [colon] @ t u) us) (e, a) =
    (e, a\<lparr>m_passwordTable := (\<lambda>u. if u \<in> set us then Some (h u) else m_passwordTable a u),
      m_timesTable := (\<lambda>u. if u \<in> set us then Some (t u) else m_timesTable a u)\<rparr>)"
  using assms
proof (induction us arbitrary: a)
  case (Cons u us)
  have "load_line (u @ [colon] @ h u @ [colon] @ t u) (e, a) =
    (e, a\<lparr>m_passwordTable := (m_passwordTable a)(u \<mapsto> h u), m_timesTable := (m_timesTable a)(u \<mapsto> t u)\<rparr>)"
    using Cons.prems by (intro load_file_line) simp_all
  moreover have "(\<lambda>v. if v \<in> set us then Some (h v) else (m(u \<mapsto> h u)) v) = (\<lambda>v. if v \<in> set (u # us) then Some (h v) else m v)"
    for m and h :: "qstring \<Rightarrow> qstring" by (auto simp: fun_eq_iff)
  ultimately show ?case using Cons.IH [of "a\<lparr>m_passwordTable := (m_passwordTable a)(u \<mapsto> h u),
      m_timesTable := (m_timesTable a)(u \<mapsto> t u)\<rparr>"] Cons.prems
    by (simp del: load_line.simps cong: if_cong)
qed simp

section \<open>Properties\<close>

text \<open>
  C38: The hash of any password with a salt of sixteen characters of the crypt alphabet is
  \<open>$6$\<close>, the salt, \<open>$\<close> and 86 characters of the crypt alphabet, whatever the hash function.
\<close>

theorem crypt_string_shape:
  assumes "ascii_utf8 Q" and "\<And>i. i < 16 \<Longrightarrow> 0 \<le> random i \<and> random i < 64"
  shows "\<exists>d. generateSha512Hash Q password (generateSalt random) =
      qs ''$6$'' @ generateSalt random @ [dollar] @ map ucast d \<and> length d = 86 \<and> set d \<subseteq> set alphabet"
proof -
  obtain d where d: "generateSha512Hash Q password (generateSalt random) =
      qs ''$6$'' @ generateSalt random @ [dollar] @ d" "plain d" "length d = 86"
    using hash_form [OF assms(1) generateSalt_plain [of random]] assms(2) by blast
  then show ?thesis by (auto simp: plain_def widen_def)
qed

text \<open>
  C39: The arithmetic of \<open>char64\<close> is the alphabet of the comment above it: the character of a value
  is the one the alphabet has at that position, and 0 outside of it.
\<close>

theorem char64_is_alphabet:
  "char64 v = (if 0 \<le> v \<and> v < 64 then alphabet ! nat v else 0)"
  using char64_nth [of "nat v"] by (auto simp: char64_def)

lemma star_entry: "verifyTimeFormat Q (qs ''*'')" "split_at comma (qs ''*'') = [qs ''*'']"
  by (simp_all add: verifyTimeFormat_def entry_well_formed_def qs_def Let_def)

lemma credentials_of_hash:
  assumes "ascii_utf8 Q" and "\<And>i. i < 16 \<Longrightarrow> 0 \<le> random i \<and> random i < 64" and "username \<noteq> []"
    and "m_passwordTable a username = Some (generateSha512Hash Q password (generateSalt random))"
    and "m_timesTable a username = Some (qs ''*'')"
  shows "checkCredentials Q weekday now username attempt a =
    (if attempt \<noteq> [] \<and> generateSha512Hash Q attempt (generateSalt random) =
          generateSha512Hash Q password (generateSalt random)
     then OK else WRONGCREDS, a)"
proof -
  let ?salt = "generateSalt random" and ?h = "generateSha512Hash Q password (generateSalt random)"
  have "section_of dollar 2 ?h = ?salt"
    using hash_form [OF assms(1) generateSalt_plain [of random]] generateSalt_plain(1) [of random] assms(2) hash_salt
    by metis
  moreover have "a\<lparr>m_timesTable := m_timesTable a\<rparr> = a" by simp
  then have "checkTime Q weekday now username a = (True, a)"
    using star_entry(2) assms(5) by (simp add: checkTime_def hash_at_def qs_def Let_def)
  ultimately show ?thesis using assms(3,4) by (simp add: checkCredentials_def)
qed

text \<open>
  C35: After a user is edited with a password and access at any time, the password is accepted, and
  every password with another hash is refused, as are an empty name and an empty password.
\<close>

theorem edited_user_accepted:
  assumes Q: "ascii_utf8 Q" and random: "\<And>i. i < 16 \<Longrightarrow> 0 \<le> random i \<and> random i < 64" and "password \<noteq> []"
  shows "let a' = editUser Q random username (qs ''*'') password a in
    checkCredentials Q weekday now username attempt a' =
    (if username \<noteq> [] \<and> attempt \<noteq> [] \<and> generateSha512Hash Q attempt (generateSalt random) =
          generateSha512Hash Q password (generateSalt random)
     then OK else WRONGCREDS, a')"
proof (cases "username = []")
  case True
  then show ?thesis by (simp add: checkCredentials_def Let_def)
next
  case False
  then show ?thesis using assms(3) star_entry credentials_of_hash [OF Q random False]
    by (simp add: editUser_def Let_def)
qed

text \<open>
  The texts a codec carries: a set of texts, closed under concatenation, each of which reads back as it was written.  For the codec
  of a locale these are the texts over its characters, for UTF-8 the texts without unpaired surrogates and byte order marks.
\<close>

definition carries :: "text_codec \<Rightarrow> qstring set \<Rightarrow> bool" where
  "carries T R \<longleftrightarrow> [] \<in> R \<and> (\<forall>s\<in>R. \<forall>t\<in>R. s @ t \<in> R) \<and> (\<forall>s\<in>R. decode_text T (encode_text T s) = s)"

lemma carries_concat: "carries T R \<Longrightarrow> \<forall>l\<in>set ls. l \<in> R \<Longrightarrow> concat ls \<in> R"
  by (induction ls) (simp_all add: carries_def)

text \<open>
  C36: A credentials file that is written and loaded again restores the users and their hashes, and
  the access times of these users, when names, hashes and times have no colon and no line break and are texts that the
  codec of the file carries, together with the colon and the line end themselves.
\<close>

theorem auth_file_roundtrip:
  assumes "distinct us" and "set us = dom (m_passwordTable a)"
    and "carries T R" and "[colon] \<in> R" and "[newline] \<in> R"
    and "\<And>u h. m_passwordTable a u = Some h \<Longrightarrow> file_field u \<and> file_field h \<and> usable_hash h \<and> u \<in> R \<and> h \<in> R"
    and "\<And>u t. m_timesTable a u = Some t \<Longrightarrow> file_field t \<and> t \<in> R"
  shows "case writeFile T True us a of (ok, data, a') \<Rightarrow> ok \<and>
      loadAuthFile T (files(m_authFileName a \<mapsto> data)) (m_authFileName a) a' = (True, a'\<lparr>m_timesTable := m_timesTable a' |` set us\<rparr>)"
proof -
  let ?h = "\<lambda>u. the (m_passwordTable a u)" and ?t = "\<lambda>u. fst (hash_at u (m_timesTable a))"
  define ls where "ls = map (\<lambda>u. u @ [colon] @ ?h u @ [colon] @ ?t u) us"
  define s where "s = concat (map (\<lambda>l. l @ [newline]) ls)"
  have lines: "write_users (m_passwordTable a) us (m_timesTable a) = (s, times_or_empty (m_timesTable a) us)"
    using write_users_lines [OF assms(1)] by (simp add: s_def ls_def file_line_def o_def)
  have field: "file_field u \<and> file_field (?h u) \<and> file_field (?t u) \<and> usable_hash (?h u)" if "u \<in> set us" for u
    using that assms(2,6,7) by (cases "m_timesTable a u") (force simp: hash_at_def file_field_def)+
  have "u \<in> R \<and> ?h u \<in> R \<and> ?t u \<in> R" if "u \<in> set us" for u
    using that assms(2,3,6,7) by (cases "m_timesTable a u") (force simp: hash_at_def carries_def)+
  then have "\<forall>l\<in>set (map (\<lambda>l. l @ [newline]) ls). l \<in> R"
    using assms(3-5) by (auto simp: ls_def carries_def simp del: append_Cons append_Nil)
  then have kept: "decode_text T (encode_text T s) = s"
    using carries_concat [OF assms(3)] assms(3) unfolding s_def carries_def by blast
  have "newline \<notin> set l \<and> return \<notin> set l" if "l \<in> set ls" for l
    using that field by (auto simp: ls_def file_field_def)
  then have read_back: "text_lines s = ls" unfolding s_def by (rule text_lines_file)
  define a' where "a' = a\<lparr>m_timesTable := times_or_empty (m_timesTable a) us\<rparr>"
  have "loadAuthFile T (files(m_authFileName a \<mapsto> encode_text T s)) (m_authFileName a) a' =
    (True, a'\<lparr>m_passwordTable := (\<lambda>u. if u \<in> set us then Some (?h u) else None),
      m_timesTable := (\<lambda>u. if u \<in> set us then Some (?t u) else None)\<rparr>)"
    unfolding loadAuthFile_def Let_def fun_upd_same option.case kept read_back
    unfolding ls_def by (subst load_lines [OF field]) (simp_all cong: if_cong)
  moreover have "(\<lambda>u. if u \<in> set us then Some (?h u) else None) = m_passwordTable a"
    using assms(2) by (auto simp: fun_eq_iff)
  moreover have "(\<lambda>u. if u \<in> set us then Some (?t u) else None) = m_timesTable a' |` set us"
    by (auto simp: fun_eq_iff a'_def times_or_empty_def)
  moreover have "a'\<lparr>m_passwordTable := m_passwordTable a, m_timesTable := t\<rparr> = a'\<lparr>m_timesTable := t\<rparr>" for t
    by (cases a) (simp add: a'_def)
  ultimately have "loadAuthFile T (files(m_authFileName a \<mapsto> encode_text T s)) (m_authFileName a) a' =
    (True, a'\<lparr>m_timesTable := m_timesTable a' |` set us\<rparr>)" by (simp only:)
  then show ?thesis by (simp add: writeFile_def lines a'_def)
qed

text \<open>
  An entry of a day and a text that is neither \<open>*\<close> nor a range with a hyphen is accepted as a
  valid access time, and never grants access, at no day and time.
\<close>

lemma accepted_entry_never_grants:
  assumes "day \<in> set m_days" and "comma \<notin> set rest" and "hyphen \<notin> set rest" and "rest \<noteq> qs ''*''"
    and "m_timesTable a username = Some (day @ rest)"
  shows "verifyTimeFormat Q (day @ rest) \<and> checkTime Q weekday now username a = (False, a)"
proof -
  have day: "length day = 2" "comma \<notin> set day" "hd day \<noteq> 42"
    using assms(1) by (auto simp: m_days_def qs_def)
  have "day @ rest \<noteq> [42]" using day(1) by (cases day) auto
  moreover have one: "split_at comma (day @ rest) = [day @ rest]" using assms(2) day(2) by (simp add: split_at_free)
  moreover have "split_at hyphen rest = [rest]" using assms(3) by (simp add: split_at_free)
  moreover have "day @ rest \<noteq> []" using day(1) by auto
  ultimately show ?thesis using assms(1,4,5) day(1)
    by (auto simp: verifyTimeFormat_def entry_well_formed_def checkTime_def hash_at_def entry_grants_def qs_def Let_def)
qed

section \<open>Witnesses\<close>

definition example_qt :: qt where
  "example_qt = \<lparr>sha512 = (\<lambda>_. replicate 64 0), toUtf8 = map ucast, fromUtf8 = map ucast,
     timeFromString = (\<lambda>_. None)\<rparr>"

lemma example_ascii: "ascii_utf8 example_qt"
  by (simp add: ascii_utf8_def example_qt_def)

text \<open>The codec of a Latin-1 locale: a character it does not have is written as a question mark.\<close>

definition latin1 :: text_codec where
  "latin1 = \<lparr>encode_text = map (\<lambda>c. if c < 256 then ucast c else 63), decode_text = map ucast\<rparr>"

definition latin1_texts :: "qstring set" where
  "latin1_texts = {s. \<forall>c\<in>set s. c < 256}"

lemma latin1_char: "c < 256 \<Longrightarrow> ucast (ucast (c :: u16) :: u8) = c"
proof -
  assume c: "c < 256"
  then have "unat c < 256" by (simp add: word_less_nat_alt)
  then show ?thesis by (simp add: word_unat_eq_iff unat_widen unsigned_ucast_eq unsigned_take_bit_eq take_bit_nat_eq_self)
qed

lemma latin1_carries: "carries latin1 latin1_texts"
  by (auto simp: carries_def latin1_def latin1_texts_def latin1_char intro!: map_idI)

text \<open>The name of the user has a character above 127: \<open>ann\<close> and an e with an acute accent.\<close>

definition ann :: qstring where
  "ann = qs ''ann'' @ [233]"

definition example_auth :: Auth where
  "example_auth = \<lparr>m_passwordTable = [ann \<mapsto> qs ''$6$s$d''], m_timesTable = [ann \<mapsto> qs ''MoX''],
     m_authFileName = qs ''f'', m_monitorChanges = False, m_authFileWatcher = {}\<rparr>"

theorem crypt_string_shape_witness:
  "\<exists>d. generateSha512Hash example_qt (qs ''pw'') (generateSalt (\<lambda>i. int i)) =
      qs ''$6$'' @ generateSalt (\<lambda>i. int i) @ [dollar] @ map ucast d \<and> length d = 86 \<and> set d \<subseteq> set alphabet"
  by (rule crypt_string_shape [OF example_ascii]) simp

theorem edited_user_accepted_witness:
  "let a' = editUser example_qt int (qs ''bob'') (qs ''*'') (qs ''pw'') example_auth in
    checkCredentials example_qt 1 0 (qs ''bob'') (qs ''pw'') a' = (OK, a') \<and>
    checkCredentials example_qt 1 0 (qs ''bob'') [] a' = (WRONGCREDS, a')"
  using edited_user_accepted [OF example_ascii, of int "qs ''pw''" "qs ''bob''" example_auth 1 0 "qs ''pw''"]
    edited_user_accepted [OF example_ascii, of int "qs ''pw''" "qs ''bob''" example_auth 1 0 "[]"]
  by (simp add: qs_def Let_def)

theorem auth_file_roundtrip_witness:
  "\<exists>data. writeFile latin1 True [ann] example_auth = (True, data, example_auth) \<and>
    data = [97, 110, 110, 233, 58, 36, 54, 36, 115, 36, 100, 58, 77, 111, 88, 10] \<and>
    loadAuthFile latin1 [qs ''f'' \<mapsto> data] (qs ''f'') example_auth = (True, example_auth)"
proof -
  let ?data = "[97, 110, 110, 233, 58, 36, 54, 36, 115, 36, 100, 58, 77, 111, 88, 10] :: bytes"
  have h: "usable_hash (qs ''$6$s$d'')" by code_simp
  have w: "writeFile latin1 True [ann] example_auth = (True, ?data, example_auth)"
    by (simp add: writeFile_def example_auth_def hash_at_def qs_def ann_def latin1_def)
  have "example_auth\<lparr>m_timesTable := m_timesTable example_auth |` {ann}\<rparr> = example_auth"
    by (auto simp: example_auth_def restrict_map_def fun_eq_iff)
  moreover have "file_field u \<and> file_field h \<and> usable_hash h \<and> u \<in> latin1_texts \<and> h \<in> latin1_texts"
    if "m_passwordTable example_auth u = Some h" for u h
    using that h by (auto simp: example_auth_def file_field_def qs_def ann_def latin1_texts_def split: if_splits)
  moreover have "file_field t \<and> t \<in> latin1_texts" if "m_timesTable example_auth u = Some t" for u t
    using that by (auto simp: example_auth_def file_field_def qs_def latin1_texts_def split: if_splits)
  moreover have "set [ann] = dom (m_passwordTable example_auth)" by (simp add: example_auth_def)
  moreover have "[colon] \<in> latin1_texts" "[newline] \<in> latin1_texts" by (simp_all add: latin1_texts_def)
  moreover have "m_authFileName example_auth = qs ''f''" by (simp add: example_auth_def)
  ultimately show ?thesis
    using auth_file_roundtrip [of "[ann]" example_auth latin1 latin1_texts Map.empty] latin1_carries w by auto
qed

text \<open>A name that the codec does not carry is lost: the user is loaded under another name.\<close>

lemma name_outside_locale_lost:
  "\<exists>data a'. writeFile latin1 True [[0x416]] (example_auth\<lparr>m_passwordTable := [[0x416] \<mapsto> qs ''$6$s$d'']\<rparr>) = (True, data, a') \<and>
    m_passwordTable (snd (loadAuthFile latin1 [qs ''f'' \<mapsto> data] (qs ''f'') a')) = [qs ''?'' \<mapsto> qs ''$6$s$d'']"
proof -
  have h: "usable_hash (qs ''$6$s$d'')" by code_simp
  show ?thesis using h
    by (simp add: writeFile_def example_auth_def hash_at_def qs_def ann_def latin1_def loadAuthFile_def text_lines_def strip_return_def)
qed

lemma accepted_entry_never_grants_witness:
  "verifyTimeFormat example_qt (qs ''MoX'') \<and>
    checkTime example_qt 1 0 ann example_auth = (False, example_auth)"
  using accepted_entry_never_grants [of "qs ''Mo''" "qs ''X''" example_auth ann example_qt 1 0]
  by (simp add: example_auth_def m_days_def qs_def)

end
