(* ===== verification/HubHandshake.thy ===== *)
theory HubHandshake
  imports HubPool HubConnection ClientConnection AuthSpec
begin

text \<open>
  A client and the hub server together: the handshake with and without authentication gives the
  client the port of its slot or the error of the server, the pool changes only for clients that
  may connect, the retries of a client end, and a TLS client of a server without authentication
  reaches a null pointer.
\<close>

section \<open>Messages\<close>

definition new_connection :: "bool \<Rightarrow> qstring \<Rightarrow> bytes \<Rightarrow> connection" where
  "new_connection secure address data = \<lparr>encrypted = secure, bytes_available = data, peerAddress = address,
     bytes_written = [], startServerEncryption = False, socket_closed = False, disconnected = False,
     signals_detached = False\<rparr>"

lemma new_connection_fields [simp]:
  "encrypted (new_connection secure address data) = secure"
  "bytes_available (new_connection secure address data) = data"
  "peerAddress (new_connection secure address data) = address"
  "bytes_written (new_connection secure address data) = []"
  by (simp_all add: new_connection_def)

lemma port_bytes:
  assumes "0 \<le> v" and "v < 2 ^ 24"
  shows "\<exists>a b c. qint32_bytes v = [a, b, c, 0] \<and> (v < 65536 \<longrightarrow> c = 0) \<and> (v = 65536 \<longrightarrow> a = 0)"
proof -
  have four: "(4 :: nat) = Suc (Suc (Suc (Suc 0)))" by simp
  have m: "nat (v mod 4294967296) = nat v" using assms by (simp add: mod_pos_pos_trivial)
  have "nat v div 256 div 256 div 256 = 0" using assms by (simp add: div_mult2_eq [symmetric])
  moreover have "nat v div 256 div 256 = 0" if "v < 65536" using that by (simp add: div_mult2_eq [symmetric])
  ultimately show ?thesis by (auto simp: qint32_bytes_def m four)
qed

lemma not_client_hello:
  assumes "0 \<le> v" and "v \<le> 65536"
  shows "\<not> client_hello (take 3 (qint32_bytes v @ rest))"
proof -
  obtain a b c where abc: "qint32_bytes v = [a, b, c, 0]" "v < 65536 \<longrightarrow> c = 0" "v = 65536 \<longrightarrow> a = 0"
    using port_bytes [of v] assms by auto
  then show ?thesis using assms by (cases "v = 65536") (auto simp: client_hello_def)
qed

lemma not_web_request:
  assumes "0 \<le> v" and "v < 65536"
  shows "\<not> startsWith (take 512 (qint32_bytes v @ rest)) (ascii ''GET'')"
    and "\<not> startsWith (take 512 (qint32_bytes v @ rest)) (ascii ''OPTIONS'')"
proof -
  obtain a b where "qint32_bytes v = [a, b, 0, 0]" using port_bytes [of v] assms by auto
  then show "\<not> startsWith (take 512 (qint32_bytes v @ rest)) (ascii ''GET'')"
    "\<not> startsWith (take 512 (qint32_bytes v @ rest)) (ascii ''OPTIONS'')"
    by (simp_all add: startsWith_def ascii_def)
qed

lemma client_name_field_length [simp]: "length (client_name_field F c) = 64"
  by (simp add: client_name_field_def gMaxRemoteNameLength_def)

lemma small_qint32: "0 \<le> v \<Longrightarrow> v < 2 ^ 31 \<Longrightarrow> qint32_at (qint32_bytes v @ rest) = v"
  by (rule qint32_roundtrip) (simp add: int32_range_def)

lemma small_qint32' [simp]: "0 \<le> v \<Longrightarrow> v < 2 ^ 31 \<Longrightarrow> qint32_at (qint32_bytes v) = v"
  using small_qint32 [of v "[]"] by simp

lemma response_code_range: "65536 \<le> response_code r \<and> response_code r \<le> 327680"
  by (cases r) simp_all

section \<open>The parts of the handshake\<close>

lemma accept_form:
  assumes inv: "pool_ok h" and i: "first_empty (mJTWorkers h) = Some i"
    and "env_write E" and "env_bind E" and "port \<noteq> 0"
  shows "\<exists>h' w k. accept_client E port name h c =
      Some (h', close_connection (write_bytes (qint32_bytes (uint (mServerPort k))) c)) \<and>
    mJTWorkers h' ! i = Some w \<and> worker_at w h' = Some k \<and> pool_ok h'"
proof -
  have slot: "i < gMaxThreads" "mJTWorkers h ! i = None" using first_empty_Some [OF i] pool_length [OF inv] by auto
  obtain k where k: "worker_ok (mBasePort h) k" "mID k = int i" "\<not> deleted_later k" "mClientPort k = 0" "awaiting k"
    "admit_client (env_memory E) True True (peerAddress c) name h =
      Some (Some (of_int (mBasePort h + int i)), occupy i k h)"
    using admit_form(1) [OF pool_length [OF inv] i] by blast
  have "mServerPort k = of_int (mBasePort h + int i)" using k by (simp add: worker_ok_def)
  moreover have "pool_ok (occupy i k h)"
    by (rule pool_inv_occupy [OF inv slot k(1-4)]) (use k in \<open>simp_all add: live_def\<close>)
  ultimately show ?thesis
    using assms(3-5) k(6) slot pool_length [OF inv]
    by (intro exI [of _ "occupy i k h"] exI [of _ "next_address h"] exI [of _ k])
      (simp add: accept_client_def sendUdpPort_def)
qed

text \<open>A client that reads the port of a slot connects to it; a client that reads an error stops.\<close>

lemma client_reads_port:
  assumes "tcp_available c = qint32_bytes (uint (p :: u16))" and "mUseAuth c \<longrightarrow> tcp_encrypted c"
  shows "connection_complete (receivedDataTCP F c) \<and> mPeerPort (receivedDataTCP F c) = Some (uint p)"
proof -
  have p: "uint p < 65536" using uint_lt2p [of p] by simp
  then have "uint (of_int (uint p) :: u32) = uint p"
    by (simp add: take_bit_int_eq_self unsigned_of_int unsigned_ucast_eq)
  moreover from this have "\<not> 65535 < (of_int (uint p) :: u32)" using p by (simp add: word_less_def)
  moreover have "qint32_at (qint32_bytes (uint p) @ m) = uint p" for m using p by (simp add: small_qint32)
  ultimately show ?thesis
    using assms p by (auto simp: receivedDataTCP_def read_tcp_def Let_def completeConnection_def setPeerPorts_def
        close_tcp_def)
qed

definition refusal_message :: "AuthResponseT \<Rightarrow> qstring" where
  "refusal_message r = (case r of
     WRONGCREDS \<Rightarrow> qs ''Incorrect username or password.''
   | WRONGTIME \<Rightarrow> qs ''You are not authorized to access the server at this time.''
   | _ \<Rightarrow> qs ''Unknown authentication error.'')"

lemma code_word:
  "uint (of_int (response_code r) :: u32) = response_code r" "65535 < (of_int (response_code r) :: u32)"
proof -
  show u: "uint (of_int (response_code r) :: u32) = response_code r"
    using response_code_range [of r] by (simp add: take_bit_int_eq_self unsigned_of_int)
  then show "65535 < (of_int (response_code r) :: u32)"
    using response_code_range [of r] by (simp add: word_less_def)
qed

lemma client_reads_refusal:
  assumes "tcp_available c = qint32_bytes (response_code r)" and "tcp_encrypted c" and "mUseAuth c"
  shows "\<exists>c1. receivedDataTCP F c = stop_jacktrip F (refusal_message r) c1 \<and> mHasShutdown c1 = mHasShutdown c \<and>
    signals c1 = signals c \<and> connection_complete c1 = connection_complete c"
proof -
  let ?c = "close_tcp (c\<lparr>tcp_available := []\<rparr>)"
  have at: "qint32_at (qint32_bytes (response_code r) @ m) = response_code r" for m
    by (cases r) (simp_all add: small_qint32)
  have "receivedDataTCP F c = stop_jacktrip F
      (if response_code r = response_code WRONGCREDS then refusal_message WRONGCREDS
       else if response_code r = response_code WRONGTIME then refusal_message WRONGTIME
       else refusal_message OK) ?c"
    using assms by (simp add: receivedDataTCP_def read_tcp_def Let_def close_tcp_def refusal_message_def at code_word
        del: response_code.simps)
  then have "receivedDataTCP F c = stop_jacktrip F (refusal_message r) ?c"
    by (cases r) (simp_all add: refusal_message_def)
  then show ?thesis by (intro exI [of _ ?c]) (simp add: close_tcp_def)
qed

lemma server_checks:
  assumes "mAuth h = Some a" and "checkCredentials (env_qt E) (env_weekday E) (env_time E)
      (fromUtf8 (env_qt E) user) (fromUtf8 (env_qt E) pw) a = (r, a')"
    and "length user \<le> 255" and "length pw \<le> 255" and "0 \<le> port" and "port < 65536" and "length field = 64"
    and "bytes_available c = qint32_bytes port @ field @ qint32_bytes (int (length user)) @
      qint32_bytes (int (length pw)) @ user @ [0] @ pw @ [0]"
  shows "checkAuthAndReadPort E h c = Some (if r = OK then port else response_code r, fromUtf8 (env_qt E) field,
    h\<lparr>mAuth := Some a'\<rparr>, c\<lparr>bytes_available := []\<rparr>)"
proof -
  have buf: "drop 68 (take 76 (bytes_available c)) = qint32_bytes (int (length user)) @ qint32_bytes (int (length pw))"
    "drop 72 (take 76 (bytes_available c)) = qint32_bytes (int (length pw))"
    using assms(7,8) by simp_all
  show ?thesis
    using assms by (simp add: checkAuthAndReadPort_def gMaxRemoteNameLength_def gMaxCredentialLength_def read_bytes_def
        Let_def small_qint32 buf [simplified assms(8)])
qed

section \<open>The retries of a client\<close>

fun retry_ticks :: "client_env list \<Rightarrow> ClientConnection \<Rightarrow> ClientConnection option" where
  "retry_ticks [] c = Some c"
| "retry_ticks (E # Es) c = (case tcpTimerTick E c of None \<Rightarrow> None | Some c \<Rightarrow> retry_ticks Es c)"

text \<open>What is left of the time when the timer runs for the \<open>n\<close>th time again.\<close>

definition retrying :: "nat \<Rightarrow> ClientConnection \<Rightarrow> bool" where
  "retrying n c \<longleftrightarrow> mAwaitingTcp c \<and> mEndTime c = 30000 \<and> mRetries c = int n \<and> 0 \<le> mElapsedTime c \<and>
     mElapsedTime c < 30000 \<and> 6000 * int n \<le> mElapsedTime c + 8000 \<and>
     (if n = 0 then 0 \<le> mRetryInterval c
      else if n = 1 then 4000 \<le> mRetryInterval c else 6000 \<le> mRetryInterval c) \<and> mRetryInterval c < 6500"

definition given_up :: "ClientConnection \<Rightarrow> bool" where
  "given_up c \<longleftrightarrow> \<not> mAwaitingTcp c \<and> \<not> mRetryTimer c"

lemma retry_interval_value:
  assumes "1 \<le> n" and "n \<le> 10"
  shows "retry_interval (int n) = Some (if n = 1 then 4000 else 6000)"
proof -
  have "(2 :: int) ^ n \<le> 2 ^ 10" using assms(2) by (rule power_increasing) simp
  then have bound: "2 ^ n \<le> (1024 :: int)" "0 < (2 :: int) ^ n" by simp_all
  show ?thesis
  proof (cases "n = 1")
    case False
    then have "2 \<le> n" using assms(1) by simp
    then have "(4 :: int) \<le> 2 ^ n" using power_increasing [of 2 n "2 :: int"] by simp
    then show ?thesis using False bound unfolding retry_interval_def nat_int checked_int_def int32_range_def by simp
  qed (simp add: retry_interval_def checked_int_def int32_range_def)
qed

lemma tick_given_up: "given_up c \<Longrightarrow> \<exists>c'. tcpTimerTick E c = Some c' \<and> given_up c'"
  by (auto simp: tcpTimerTick_def given_up_def Let_def)

lemma stop_jacktrip_fields [simp]:
  "mAwaitingTcp (stop_jacktrip E m c) = mAwaitingTcp c" "mRetryTimer (stop_jacktrip E m c) = mRetryTimer c"
  by (simp_all add: stop_jacktrip_def emit_def Let_def)

lemma tick_retrying:
  assumes "retrying n c" and "0 \<le> client_random E" and "client_random E < 500"
  shows "\<exists>c'. tcpTimerTick E c = Some c' \<and> (given_up c' \<or> retrying (Suc n) c' \<and> n < 6)"
proof (cases "mStopped c \<or> client_stop_flag E \<or> client_audio_stopped E")
  case True
  then show ?thesis using assms(1)
    by (auto simp: tcpTimerTick_def retrying_def given_up_def close_tcp_def Let_def)
next
  case False
  have r: "0 \<le> mElapsedTime c" "mElapsedTime c < 30000" "mRetryInterval c < 6500" "0 \<le> mRetryInterval c"
    "mAwaitingTcp c" "mEndTime c = 30000" "mRetries c = int n" "6000 * int n \<le> mElapsedTime c + 8000"
    "n = 1 \<longrightarrow> 4000 \<le> mRetryInterval c" "2 \<le> n \<longrightarrow> 6000 \<le> mRetryInterval c"
    using assms(1) by (auto simp: retrying_def split: if_splits)
  then have elapsed: "checked_int (mElapsedTime c + mRetryInterval c) = Some (mElapsedTime c + mRetryInterval c)"
    by (simp add: checked_int_def int32_range_def)
  show ?thesis
  proof (cases "mElapsedTime c + mRetryInterval c < 30000")
    case True
    have n: "n < 6" using True r by (cases "n < 2") auto
    then have interval: "retry_interval (int n + 1) = Some (if n = 0 then 4000 else 6000)"
      using retry_interval_value [of "Suc n"] by (simp add: add.commute)
    have "checked_int (int n + 1) = Some (int n + 1)" using n by (simp add: checked_int_def int32_range_def)
    moreover have "checked_int ((if n = 0 then 4000 else 6000) + client_random E) =
        Some ((if n = 0 then 4000 else 6000) + client_random E)"
      using assms(2,3) by (simp add: checked_int_def int32_range_def)
    ultimately have "tcpTimerTick E c = Some (c\<lparr>mRetryTimer := True, mElapsedTime := mElapsedTime c + mRetryInterval c,
        mRetries := int n + 1, mRetryInterval := (if n = 0 then 4000 else 6000) + client_random E,
        tcp_client := Connecting (client_lookup E (mPeerAddress c)) (mTcpServerPort c)\<rparr>)"
      using False True r elapsed interval by (simp add: tcpTimerTick_def Let_def)
    moreover have "retrying (Suc n) (c\<lparr>mRetryTimer := True, mElapsedTime := mElapsedTime c + mRetryInterval c,
        mRetries := int n + 1, mRetryInterval := (if n = 0 then 4000 else 6000) + client_random E,
        tcp_client := Connecting (client_lookup E (mPeerAddress c)) (mTcpServerPort c)\<rparr>)"
      using True r n assms(2,3) by (cases "n = 0"; cases "n = 1") (auto simp: retrying_def)
    ultimately show ?thesis using n by blast
  next
    case late: False
    then show ?thesis using False r elapsed
      by (simp add: tcpTimerTick_def given_up_def close_tcp_def Let_def)
  qed
qed

lemma ticks_given_up: "given_up c \<Longrightarrow> \<exists>c'. retry_ticks Es c = Some c' \<and> given_up c'"
proof (induction Es arbitrary: c)
  case (Cons E Es)
  then show ?case using tick_given_up [of c E] by fastforce
qed simp

lemma ticks_retrying:
  assumes "retrying n c" and "\<forall>E\<in>set Es. 0 \<le> client_random E \<and> client_random E < 500" and "7 \<le> n + length Es"
  shows "\<exists>c'. retry_ticks Es c = Some c' \<and> given_up c'"
  using assms
proof (induction Es arbitrary: n c)
  case Nil
  then show ?case by (auto simp: retrying_def)
next
  case (Cons E Es)
  obtain c' where c': "tcpTimerTick E c = Some c'" "given_up c' \<or> retrying (Suc n) c' \<and> n < 6"
    using tick_retrying [OF Cons.prems(1), of E] Cons.prems(2) by auto
  then show ?case using ticks_given_up Cons.IH [of "Suc n" c'] Cons.prems by auto
qed

section \<open>Properties\<close>

definition new_client :: "qstring \<Rightarrow> int \<Rightarrow> int \<Rightarrow> bool \<Rightarrow> qstring \<Rightarrow> qstring \<Rightarrow> qstring \<Rightarrow> ClientConnection" where
  "new_client server bind_port server_port auth name user password =
     \<lparr>mPeerAddress = server, mReceiverBindPort = bind_port, mTcpServerPort = server_port, mPeerPort = None,
      mRemoteClientName = name, mUseAuth = auth, mUsername = user, mPassword = password, mRetries = 0,
      mElapsedTime = 0, mEndTime = 0, mAwaitingTcp = False, mAwaitingUdp = False, mRetryTimer = False,
      mRetryInterval = 0, mTimeoutTimer = False, mUdpSockTemp = False, mStopped = False, mHasShutdown = False,
      tcp_client = Unconnected, tcp_encrypted = False, tcp_available = [], tcp_written = [],
      startClientEncryption = False, udp_written = [], signals = [], connection_complete = False\<rparr>"

lemma client_name_field_update [simp]:
  "client_name_field F (c\<lparr>mAwaitingTcp := b\<rparr>) = client_name_field F c"
  "client_name_field F (c\<lparr>mRetryTimer := b\<rparr>) = client_name_field F c"
  "client_name_field F (c\<lparr>signals := s\<rparr>) = client_name_field F c"
  by (simp_all add: client_name_field_def)

lemma started_client:
  assumes "clientPingToServerStart F (new_client server port server_port auth name user pw) = Some (0, c)"
  shows "mAwaitingTcp c" "mUseAuth c = auth" "tcp_written c = []" "\<not> tcp_encrypted c" "\<not> mHasShutdown c"
    "mReceiverBindPort c = port" "mUsername c = user" "mPassword c = pw" "signals c = []" "mEndTime c = 30000"
    "mRetries c = 0" "mElapsedTime c = 0" "mRetryInterval c = client_random F"
  using assms by (auto simp: clientPingToServerStart_def new_client_def Let_def split: if_splits)

text \<open>
  C9: The handshake without authentication: the server that reads what a client writes takes the
  first free slot for it, and the client that reads the answer completes its connection with the port
  on which the worker of that slot listens.
\<close>

theorem plain_handshake:
  assumes "pool_ok h" and "\<not> mRequireAuth h" and "first_empty (mJTWorkers h) = Some i"
    and "env_write E" and "env_bind E" and "0 < port" and "port < 65536"
    and "clientPingToServerStart F (new_client server port server_port False name user pw) = Some (0, c)"
  shows "\<exists>h' conn w k. readyRead E h (new_connection False address (tcp_written (receivedConnectionTCP F c))) =
      Some (h', conn) \<and> mJTWorkers h' ! i = Some w \<and> worker_at w h' = Some k \<and>
    (let c' = receivedDataTCP F ((receivedConnectionTCP F c)\<lparr>tcp_available := bytes_written conn\<rparr>)
     in connection_complete c' \<and> mPeerPort c' = Some (uint (mServerPort k)))"
proof -
  note c = started_client [OF assms(8)]
  let ?c1 = "receivedConnectionTCP F c"
  have written: "tcp_written ?c1 = qint32_bytes port @ client_name_field F c" and auth: "\<not> mUseAuth ?c1"
    using c by (simp_all add: receivedConnectionTCP_def write_tcp_def emit_def Let_def)
  let ?conn = "new_connection False address (qint32_bytes port @ client_name_field F c)"
  let ?conn1 = "?conn\<lparr>bytes_available := []\<rparr>" and ?name = "fromUtf8 (env_qt E) (client_name_field F c)"
  have read: "readClientUdpPort (env_qt E) ?conn = (port, ?name, ?conn1)"
    using assms(6,7) by (simp add: readClientUdpPort_def read_bytes_def gMaxRemoteNameLength_def)
  have "readyRead E h ?conn = accept_client E port ?name h ?conn1"
    using assms(2,6,7) not_client_hello [of port "client_name_field F c"] read
    by (simp add: readyRead_def Let_def)
  moreover obtain h' w k where "accept_client E port ?name h ?conn1 =
      Some (h', close_connection (write_bytes (qint32_bytes (uint (mServerPort k))) ?conn1))"
    "mJTWorkers h' ! i = Some w" "worker_at w h' = Some k"
    using accept_form [OF assms(1,3-5), of port ?name ?conn1] assms(6) by auto
  moreover have "connection_complete (receivedDataTCP F (?c1\<lparr>tcp_available := qint32_bytes (uint p)\<rparr>)) \<and>
      mPeerPort (receivedDataTCP F (?c1\<lparr>tcp_available := qint32_bytes (uint p)\<rparr>)) = Some (uint p)" for p :: u16
    by (rule client_reads_port) (use auth in simp_all)
  ultimately show ?thesis
    using written by (auto simp: close_connection_def write_bytes_def Let_def)
qed

lemma auth_request:
  assumes "mRequireAuth h" and "mAwaitingTcp c" and "mUseAuth c" and "tcp_written c = []" and "\<not> tcp_encrypted c"
  shows "\<exists>conn. readyRead E h (new_connection False address (tcp_written (receivedConnectionTCP F c))) =
      Some (h, conn) \<and> startServerEncryption conn \<and>
    startClientEncryption (receivedDataTCP F ((receivedConnectionTCP F c)\<lparr>tcp_available := bytes_written conn\<rparr>))"
proof -
  have written: "tcp_written (receivedConnectionTCP F c) = qint32_bytes 65536"
    using assms by (simp add: receivedConnectionTCP_def write_tcp_def emit_def Let_def)
  let ?conn = "(new_connection False address [])\<lparr>bytes_written := qint32_bytes 65536, startServerEncryption := True\<rparr>"
  have "readClientUdpPort (env_qt E) (new_connection False address (qint32_bytes 65536)) =
      (65536, [], new_connection False address [])"
    by (simp add: readClientUdpPort_def read_bytes_def gMaxRemoteNameLength_def new_connection_def)
  then have "readyRead E h (new_connection False address (qint32_bytes 65536)) = Some (h, ?conn)"
    using assms(1) not_client_hello [of 65536 "[]"]
    by (simp add: readyRead_def sendUdpPort_def write_bytes_def Let_def)
  moreover have "startClientEncryption (receivedDataTCP F
      ((receivedConnectionTCP F c)\<lparr>tcp_available := qint32_bytes 65536\<rparr>))"
    using assms by (simp add: receivedDataTCP_def receivedConnectionTCP_def write_tcp_def emit_def read_tcp_def
        small_qint32 Let_def)
  ultimately show ?thesis using written by (intro exI [of _ ?conn]) simp
qed

text \<open>
  C11: The handshake with authentication: the server answers the request of the client with TLS, and then the
  credentials with the port of the first free slot, to which the client connects, or with the reason of the refusal,
  for which the client stops with its message while the pool stays as it was.
\<close>

theorem authenticated_handshake:
  assumes "pool_ok h" and "mRequireAuth h" and "mAuth h = Some a" and "first_empty (mJTWorkers h) = Some i"
    and "env_write E" and "env_bind E" and "0 < port" and "port < 65536"
    and "clientPingToServerStart F (new_client server port server_port True name user pw) = Some (0, c)"
    and "client_audio_error F = []" and "\<not> client_audio_stopped F"
    and "length (toUtf8 (client_qt F) user) \<le> 255" and "length (toUtf8 (client_qt F) pw) \<le> 255"
    and "fromUtf8 (env_qt E) (toUtf8 (client_qt F) user) = user"
    and "fromUtf8 (env_qt E) (toUtf8 (client_qt F) pw) = pw"
    and "checkCredentials (env_qt E) (env_weekday E) (env_time E) user pw a = (r, a')"
  shows "\<exists>conn1 h' conn2.
    readyRead E h (new_connection False address (tcp_written (receivedConnectionTCP F c))) = Some (h, conn1) \<and>
    startServerEncryption conn1 \<and>
    startClientEncryption (receivedDataTCP F ((receivedConnectionTCP F c)\<lparr>tcp_available := bytes_written conn1\<rparr>)) \<and>
    readyRead E h (new_connection True address (tcp_written (connectionSecured F c))) = Some (h', conn2) \<and>
    (let c' = receivedDataTCP F (c\<lparr>tcp_encrypted := True, tcp_available := bytes_written conn2\<rparr>) in
     if r = OK
     then \<exists>w k. mJTWorkers h' ! i = Some w \<and> worker_at w h' = Some k \<and> connection_complete c' \<and>
       mPeerPort c' = Some (uint (mServerPort k))
     else mJTWorkers h' = mJTWorkers h \<and> signals c' = [SignalError (refusal_message r)])"
proof -
  note c = started_client [OF assms(9)]
  let ?u = "toUtf8 (client_qt F) user" and ?p = "toUtf8 (client_qt F) pw" and ?field = "client_name_field F c"
  define rest where "rest = ?field @ qint32_bytes (int (length ?u)) @ qint32_bytes (int (length ?p)) @
      ?u @ [0] @ ?p @ [0]"
  let ?msg = "qint32_bytes port @ rest"
  let ?conn = "new_connection True address ?msg" and ?h = "h\<lparr>mAuth := Some a'\<rparr>"
  let ?conn1 = "?conn\<lparr>bytes_available := []\<rparr>"
  have written: "tcp_written (connectionSecured F c) = ?msg"
    using c by (simp add: connectionSecured_def write_tcp_def rest_def Let_def)
  have check: "checkAuthAndReadPort E h ?conn =
      Some (if r = OK then port else response_code r, fromUtf8 (env_qt E) ?field, ?h, ?conn1)"
    using assms(3,7,8,12-16) by (intro server_checks [where user = ?u and pw = ?p]) (simp_all add: rest_def)
  have inv: "pool_ok ?h"
    using assms(1) by (simp add: pool_inv_def slots_ok_def objects_ok_def peers_distinct_def occupied_def worker_at_def)
  have "\<exists>h' conn2. readyRead E h ?conn = Some (h', conn2) \<and>
    (let c' = receivedDataTCP F (c\<lparr>tcp_encrypted := True, tcp_available := bytes_written conn2\<rparr>) in
     if r = OK
     then \<exists>w k. mJTWorkers h' ! i = Some w \<and> worker_at w h' = Some k \<and> connection_complete c' \<and>
       mPeerPort c' = Some (uint (mServerPort k))
     else mJTWorkers h' = mJTWorkers h \<and> signals c' = [SignalError (refusal_message r)])"
  proof (cases "r = OK")
    case True
    have "readyRead E h ?conn = accept_client E port (fromUtf8 (env_qt E) ?field) ?h ?conn1"
      using check not_web_request [of port rest] assms(7,8) True by (simp add: readyRead_def)
    moreover obtain h' w k where "accept_client E port (fromUtf8 (env_qt E) ?field) ?h ?conn1 =
        Some (h', close_connection (write_bytes (qint32_bytes (uint (mServerPort k))) ?conn1))"
      "mJTWorkers h' ! i = Some w" "worker_at w h' = Some k"
      using accept_form [OF inv, of i E port "fromUtf8 (env_qt E) ?field" ?conn1] assms(4-7) by auto
    moreover have "connection_complete (receivedDataTCP F (c\<lparr>tcp_encrypted := True, tcp_available := qint32_bytes (uint q)\<rparr>)) \<and>
        mPeerPort (receivedDataTCP F (c\<lparr>tcp_encrypted := True, tcp_available := qint32_bytes (uint q)\<rparr>)) =
          Some (uint q)" for q :: u16
      by (rule client_reads_port) simp_all
    ultimately show ?thesis using True by (auto simp: close_connection_def write_bytes_def Let_def)
  next
    case False
    let ?conn2 = "close_connection (write_bytes (qint32_bytes (response_code r)) ?conn1)"
    have "readyRead E h ?conn = Some (?h, ?conn2)"
      using check not_web_request [of port rest] assms(7,8) False response_code_range [of r]
      by (simp add: readyRead_def sendUdpPort_def)
    moreover obtain c1 where "receivedDataTCP F (c\<lparr>tcp_encrypted := True, tcp_available := qint32_bytes (response_code r)\<rparr>) =
        stop_jacktrip F (refusal_message r) c1" "\<not> mHasShutdown c1" "signals c1 = []"
      using client_reads_refusal [of "c\<lparr>tcp_encrypted := True, tcp_available := qint32_bytes (response_code r)\<rparr>" r F] c
      by auto
    moreover have "refusal_message r \<noteq> []" by (simp add: refusal_message_def qs_def split: AuthResponseT.splits)
    ultimately show ?thesis using False assms(10,11)
      by (simp add: close_connection_def write_bytes_def stop_jacktrip_def emit_def Let_def)
  qed
  then show ?thesis using auth_request [of h c E address F] assms(2) c written by auto
qed

text \<open>
  The message of a client that authenticates: its port, its name, the lengths of the two credentials, and the
  credentials, each with a byte behind it.
\<close>

definition carries_credentials :: "bytes \<Rightarrow> bytes \<Rightarrow> bytes \<Rightarrow> bool" where
  "carries_credentials data user pw \<longleftrightarrow> (\<exists>port name nuser npw x y rest. length port = 4 \<and> length name = 64 \<and>
     length nuser = 4 \<and> length npw = 4 \<and> qint32_at nuser = int (length user) \<and> qint32_at npw = int (length pw) \<and>
     data = port @ name @ nuser @ npw @ user @ [x] @ pw @ [y] @ rest)"

lemma qint32_at_take: "take 4 b = take 4 b' \<Longrightarrow> qint32_at b = qint32_at b'"
  by (simp add: qint32_at_def)

lemma carries_parts:
  assumes "qint32_at (drop 68 (take 76 b)) = int u" and "qint32_at (drop 72 (take 76 b)) = int p"
    and "78 + u + p \<le> length b"
  shows "carries_credentials b (take u (drop 76 b)) (take p (drop (77 + u) b))"
proof -
  have split: "drop k b = take n (drop k b) @ drop (k + n) b" for k n
    using append_take_drop_id [of n "drop k b"] by (simp add: add.commute)
  have one: "take (Suc 0) (drop k b) = [b ! k]" if "k < length b" for k
    using that by (simp add: take_Suc_conv_app_nth hd_drop_conv_nth take_Suc)
  have "b = take 4 b @ take 64 (drop 4 b) @ take 4 (drop 68 b) @ take 4 (drop 72 b) @ take u (drop 76 b) @
      [b ! (76 + u)] @ take p (drop (77 + u) b) @ [b ! (77 + u + p)] @ drop (78 + u + p) b"
    using split [of 0 4] split [of 4 64] split [of 68 4] split [of 72 4] split [of 76 u] split [of "76 + u" 1]
      split [of "77 + u" p] split [of "77 + u + p" 1] one [of "76 + u"] one [of "77 + u + p"] assms(3)
    by (simp add: add.commute add.left_commute)
  moreover have "qint32_at (take 4 (drop 68 b)) = int u" "qint32_at (take 4 (drop 72 b)) = int p"
    using assms(1,2) by (simp_all add: qint32_at_def drop_take)
  moreover have "length (take u (drop 76 b)) = u" "length (take p (drop (77 + u) b)) = p" using assms(3) by simp_all
  moreover have "length (take 4 b) = 4" "length (take 64 (drop 4 b)) = 64" "length (take 4 (drop 68 b)) = 4"
    "length (take 4 (drop 72 b)) = 4" using assms(3) by simp_all
  ultimately show ?thesis unfolding carries_credentials_def by metis
qed

lemma checkAuth_pool:
  assumes "checkAuthAndReadPort E h c = Some (port, name, h', c')"
  shows "mJTWorkers h' = mJTWorkers h"
    and "port = 0 \<or> 65535 < port \<or> (\<exists>a user pw a'. mAuth h = Some a \<and> carries_credentials (bytes_available c) user pw \<and>
      checkCredentials (env_qt E) (env_weekday E) (env_time E) (fromUtf8 (env_qt E) user) (fromUtf8 (env_qt E) pw) a = (OK, a'))"
proof -
  let ?b = "bytes_available c"
  let ?u = "qint32_at (drop 68 (take 76 ?b))" and ?p = "qint32_at (drop 72 (take 76 ?b))"
  have "65535 < response_code r" for r using response_code_range [of r] by simp
  then have "mJTWorkers h' = mJTWorkers h \<and> (port = 0 \<or> 65535 < port \<or> (\<exists>a a'. mAuth h = Some a \<and>
      0 \<le> ?u \<and> 0 \<le> ?p \<and> 78 + ?u + ?p \<le> int (length ?b) \<and>
      checkCredentials (env_qt E) (env_weekday E) (env_time E) (fromUtf8 (env_qt E) (take (nat ?u) (drop 76 ?b)))
        (fromUtf8 (env_qt E) (take (nat ?p) (drop (77 + nat ?u) ?b))) a = (OK, a')))"
    using assms by (auto simp: checkAuthAndReadPort_def read_bytes_def gMaxRemoteNameLength_def Let_def add.commute
        split: if_splits prod.splits option.splits simp del: response_code.simps)
  moreover have "carries_credentials ?b (take (nat ?u) (drop 76 ?b)) (take (nat ?p) (drop (77 + nat ?u) ?b))"
    if "0 \<le> ?u" "0 \<le> ?p" "78 + ?u + ?p \<le> int (length ?b)"
    using that by (intro carries_parts) simp_all
  ultimately show "mJTWorkers h' = mJTWorkers h" "port = 0 \<or> 65535 < port \<or> (\<exists>a user pw a'. mAuth h = Some a \<and>
      carries_credentials ?b user pw \<and>
      checkCredentials (env_qt E) (env_weekday E) (env_time E) (fromUtf8 (env_qt E) user) (fromUtf8 (env_qt E) pw) a = (OK, a'))"
    by blast+
qed

text \<open>
  C12: On a server that requires authentication, data on a connection changes the pool only when the
  connection is encrypted, and it is either a browser's request for \<open>/webrtc\<close> or the message of a client
  that authenticates, and then the user name and the password in the bytes of this very message are accepted by the server's
  credentials at the day and time of the message.
\<close>

theorem authentication_gate:
  assumes "mRequireAuth h" and "readyRead E h c = Some (h', c')" and "mJTWorkers h' \<noteq> mJTWorkers h"
  shows "encrypted c \<and>
    (startsWith (take 512 (bytes_available c)) (ascii ''GET'') \<and>
       (request_path (take 512 (bytes_available c)) = ascii ''/webrtc'' \<or>
        startsWith (request_path (take 512 (bytes_available c))) (ascii ''/webrtc?'')) \<or>
     (\<exists>a user pw a'. mAuth h = Some a \<and> carries_credentials (bytes_available c) user pw \<and>
       checkCredentials (env_qt E) (env_weekday E) (env_time E) (fromUtf8 (env_qt E) user) (fromUtf8 (env_qt E) pw) a = (OK, a')))"
proof (cases "encrypted c")
  case False
  then show ?thesis using assms by (auto simp: readyRead_def Let_def split: if_splits prod.splits)
next
  case True
  show ?thesis
  proof (cases "startsWith (take 512 (bytes_available c)) (ascii ''GET'') \<or>
      startsWith (take 512 (bytes_available c)) (ascii ''OPTIONS'')")
    case web: True
    then have "web_request E h c = Some (h', c')" using True assms(2) by (simp add: readyRead_def)
    then have "\<not> startsWith (take 512 (bytes_available c)) (ascii ''OPTIONS'')"
      "request_path (take 512 (bytes_available c)) = ascii ''/webrtc'' \<or>
        startsWith (request_path (take 512 (bytes_available c))) (ascii ''/webrtc?'')"
      using assms(3) by (auto simp: web_request_def Let_def split: if_splits)
    then show ?thesis using True web by blast
  next
    case web: False
    obtain port name h1 c1 where check: "checkAuthAndReadPort E h c = Some (port, name, h1, c1)"
      using assms(2) True web by (auto simp: readyRead_def Option.bind_eq_Some_conv)
    have "port \<noteq> 0 \<and> port \<le> 65535"
      using assms(2,3) True web check checkAuth_pool(1) [OF check]
      by (auto simp: readyRead_def accept_client_def split: if_splits)
    then show ?thesis using True checkAuth_pool(2) [OF check] by auto
  qed
qed

text \<open>
  C23: A server that was started with a certificate and without authentication has no credentials, and
  a client that speaks TLS and sends the message of an authenticating client makes it call
  through the null pointer.
\<close>

theorem tls_without_credentials:
  assumes "start_listener S (fresh_hub server_port udp_port mode) = Inr h"
    and "length user \<le> 255" and "length pw \<le> 255" and "0 \<le> port" and "port < 65536" and "length name = 64"
  shows "readyRead E h (new_connection True address (qint32_bytes port @ name @ qint32_bytes (int (length user)) @
    qint32_bytes (int (length pw)) @ user @ [0] @ pw @ [0])) = None"
proof -
  define rest where "rest = name @ qint32_bytes (int (length user)) @ qint32_bytes (int (length pw)) @
      user @ [0] @ pw @ [0]"
  have auth: "mAuth h = None"
    using assms(1) by (auto simp: start_listener_def fresh_hub_def UdpHubListener_new_def setHubPatch_def Let_def
        split: if_splits option.splits)
  have buf: "take 76 (qint32_bytes port @ rest) =
      qint32_bytes port @ name @ qint32_bytes (int (length user)) @ qint32_bytes (int (length pw))"
    using assms(6) by (simp add: rest_def)
  have "length (qint32_bytes port @ rest) = 78 + length user + length pw" using assms(6) by (simp add: rest_def)
  then have "checkAuthAndReadPort E h (new_connection True address (qint32_bytes port @ rest)) = None"
    using auth assms(2,3,6) buf
    by (simp add: checkAuthAndReadPort_def gMaxRemoteNameLength_def gMaxCredentialLength_def read_bytes_def Let_def
        small_qint32)
  then have "readyRead E h (new_connection True address (qint32_bytes port @ rest)) = None"
    using not_web_request [of port rest] assms(4,5) by (simp add: readyRead_def)
  then show ?thesis by (simp only: rest_def append_assoc)
qed

text \<open>
  A client whose server does not answer gives up: whatever the seven random delays are, after its retry
  timer fired seven times it no longer waits and the timer is off.
\<close>

lemma client_gives_up:
  assumes "clientPingToServerStart F (new_client server port server_port auth name user pw) = Some (0, c)"
    and "0 \<le> client_random F" and "client_random F < 2000"
    and "\<forall>E\<in>set Es. 0 \<le> client_random E \<and> client_random E < 500" and "7 \<le> length Es"
  shows "\<exists>c'. retry_ticks Es c = Some c' \<and> \<not> mAwaitingTcp c' \<and> \<not> mRetryTimer c'"
proof -
  note c = started_client [OF assms(1)]
  have "retrying 0 c" using c assms(2,3) by (simp add: retrying_def)
  then show ?thesis using ticks_retrying [of 0 c Es] assms(4,5) by (auto simp: given_up_def)
qed

section \<open>Witnesses\<close>

definition example_env :: hub_env where
  "example_env = \<lparr>env_qt = example_qt, env_weekday = 1, env_time = 0, env_memory = (0, 0, 0), env_write = True,
     env_bind = True\<rparr>"

definition example_client_env :: client_env where
  "example_client_env = \<lparr>client_qt = example_qt, client_ssl = True, client_random = 100, client_bind = True,
     client_memory = [], client_stop_flag = False, client_audio_stopped = False, client_audio_error = [],
     client_lookup = id\<rparr>"

lemma example_pool: "pool_ok example_hub"
  by (simp add: example_hub_def fresh_pool)

lemma example_flags: "\<not> mRequireAuth example_hub" "mAuth example_hub = None" "\<not> mTlsConfigured example_hub"
  by (simp_all add: example_hub_def fresh_hub_def setHubPatch_def UdpHubListener_new_def)

definition guarded_hub :: "Auth \<Rightarrow> UdpHubListener" where
  "guarded_hub a = example_hub\<lparr>mRequireAuth := True, mAuth := Some a\<rparr>"

lemma guarded_pool: "pool_ok (guarded_hub a)" "mJTWorkers (guarded_hub a) = mJTWorkers example_hub"
  using example_pool
  by (simp_all add: guarded_hub_def pool_inv_def slots_ok_def objects_ok_def peers_distinct_def occupied_def worker_at_def)

lemma example_env_fields [simp]: "env_write example_env" "env_bind example_env" "env_qt example_env = example_qt"
  "env_weekday example_env = 1" "env_time example_env = 0"
  by (simp_all add: example_env_def)

lemma example_client_env_fields [simp]: "client_qt example_client_env = example_qt"
  "client_audio_error example_client_env = []" "\<not> client_audio_stopped example_client_env"
  "client_random example_client_env = 100"
  by (simp_all add: example_client_env_def)

lemma example_start:
  "\<exists>c. clientPingToServerStart example_client_env (new_client (qs ''a'') 4464 4464 auth [] (qs ''bob'') (qs ''pw'')) =
    Some (0, c)"
  by (simp add: clientPingToServerStart_def new_client_def example_client_env_def qs_def)

theorem plain_handshake_witness:
  "\<exists>c h' conn w k. clientPingToServerStart example_client_env
      (new_client (qs ''a'') 4464 4464 False [] (qs ''bob'') (qs ''pw'')) = Some (0, c) \<and>
    readyRead example_env example_hub
      (new_connection False [] (tcp_written (receivedConnectionTCP example_client_env c))) = Some (h', conn) \<and>
    mJTWorkers h' ! 0 = Some w \<and> worker_at w h' = Some k \<and>
    connection_complete (receivedDataTCP example_client_env
      ((receivedConnectionTCP example_client_env c)\<lparr>tcp_available := bytes_written conn\<rparr>))"
proof -
  obtain c where "clientPingToServerStart example_client_env
      (new_client (qs ''a'') 4464 4464 False [] (qs ''bob'') (qs ''pw'')) = Some (0, c)"
    using example_start by blast
  then show ?thesis
    using plain_handshake [OF example_pool example_flags(1) example_first_empty, of example_env 4464
        example_client_env "qs ''a''" 4464 "[]" "qs ''bob''" "qs ''pw''" c "[]"]
    by (simp add: Let_def) blast
qed

theorem authenticated_handshake_witness:
  "\<exists>a c h' conn. checkCredentials example_qt 1 0 (qs ''bob'') (qs ''pw'') a = (OK, a) \<and>
    clientPingToServerStart example_client_env
      (new_client (qs ''a'') 4464 4464 True [] (qs ''bob'') (qs ''pw'')) = Some (0, c) \<and>
    readyRead example_env (guarded_hub a)
      (new_connection True [] (tcp_written (connectionSecured example_client_env c))) = Some (h', conn) \<and>
    connection_complete (receivedDataTCP example_client_env
      (c\<lparr>tcp_encrypted := True, tcp_available := bytes_written conn\<rparr>))"
proof -
  let ?bob = "qs ''bob''" and ?pw = "qs ''pw''"
  define a where "a = editUser example_qt int ?bob (qs ''*'') ?pw example_auth"
  have check: "checkCredentials example_qt 1 0 ?bob ?pw a = (OK, a)"
    unfolding a_def
    by (subst credentials_of_hash [OF example_ascii, where random = int and password = ?pw])
      (simp_all add: editUser_def star_entry example_auth_def Let_def, simp_all add: qs_def)
  obtain c where c: "clientPingToServerStart example_client_env (new_client (qs ''a'') 4464 4464 True [] ?bob ?pw) =
      Some (0, c)"
    using example_start by blast
  have texts: "length (toUtf8 example_qt ?bob) \<le> 255" "length (toUtf8 example_qt ?pw) \<le> 255"
    "fromUtf8 example_qt (toUtf8 example_qt ?bob) = ?bob" "fromUtf8 example_qt (toUtf8 example_qt ?pw) = ?pw"
    by (simp_all add: example_qt_def qs_def)
  have "mAuth (guarded_hub a) = Some a" "mRequireAuth (guarded_hub a)"
    "first_empty (mJTWorkers (guarded_hub a)) = Some 0"
    by (simp_all add: guarded_hub_def example_first_empty [unfolded guarded_pool(2) [symmetric]])
  then have "\<exists>h' conn. readyRead example_env (guarded_hub a)
      (new_connection True [] (tcp_written (connectionSecured example_client_env c))) = Some (h', conn) \<and>
    connection_complete (receivedDataTCP example_client_env
      (c\<lparr>tcp_encrypted := True, tcp_available := bytes_written conn\<rparr>))"
    using authenticated_handshake [OF guarded_pool(1) _ _ _ _ _ _ _ c, of a a 0 example_env OK a "[]"] check texts
    by (simp add: Let_def) blast
  then show ?thesis using check c by blast
qed

theorem authentication_gate_witness:
  "\<exists>a h' conn user pw a'. mRequireAuth (guarded_hub a) \<and>
     readyRead example_env (guarded_hub a) (new_connection True [] (qint32_bytes 4464 @ replicate 64 0 @ qint32_bytes 3 @
       qint32_bytes 2 @ [98, 111, 98] @ [0] @ [112, 119] @ [0])) = Some (h', conn) \<and>
     mJTWorkers h' \<noteq> mJTWorkers (guarded_hub a) \<and>
     carries_credentials (qint32_bytes 4464 @ replicate 64 0 @ qint32_bytes 3 @ qint32_bytes 2 @ [98, 111, 98] @ [0] @
       [112, 119] @ [0]) user pw \<and>
     checkCredentials example_qt 1 0 (fromUtf8 example_qt user) (fromUtf8 example_qt pw) a = (OK, a')"
proof -
  let ?bob = "qs ''bob''" and ?pw = "qs ''pw''"
  define a where "a = editUser example_qt int ?bob (qs ''*'') ?pw example_auth"
  have check: "checkCredentials example_qt 1 0 ?bob ?pw a = (OK, a)"
    unfolding a_def
    by (subst credentials_of_hash [OF example_ascii, where random = int and password = ?pw])
      (simp_all add: editUser_def star_entry example_auth_def Let_def, simp_all add: qs_def)
  let ?user = "[98, 111, 98] :: bytes" and ?word = "[112, 119] :: bytes" and ?field = "replicate 64 0 :: bytes"
  define rest where "rest = ?field @ qint32_bytes (int (length ?user)) @ qint32_bytes (int (length ?word)) @ ?user @ [0] @ ?word @ [0]"
  let ?c = "new_connection True [] (qint32_bytes 4464 @ rest)" and ?h = "guarded_hub a"
  have utf: "fromUtf8 example_qt ?user = ?bob" "fromUtf8 example_qt ?word = ?pw" by (simp_all add: example_qt_def qs_def)
  have h: "mAuth ?h = Some a" "mRequireAuth ?h" "first_empty (mJTWorkers ?h) = Some 0"
    by (simp_all add: guarded_hub_def example_first_empty [unfolded guarded_pool(2) [symmetric]])
  let ?h1 = "?h\<lparr>mAuth := Some a\<rparr>" and ?c1 = "?c\<lparr>bytes_available := []\<rparr>"
  have "checkAuthAndReadPort example_env ?h ?c = Some (if OK = OK then 4464 else response_code OK,
      fromUtf8 (env_qt example_env) ?field, ?h1, ?c1)"
    using h(1) check utf by (intro server_checks [where user = ?user and pw = ?word]) (simp_all add: rest_def example_env_def)
  then have read: "readyRead example_env ?h ?c = accept_client example_env 4464 (fromUtf8 (env_qt example_env) ?field) ?h1 ?c1"
    using not_web_request [of 4464 rest] by (simp add: readyRead_def)
  have same: "?h1 = ?h" using h(1) by (cases ?h) simp
  have pre: "env_write example_env" "env_bind example_env" "(4464 :: int) \<noteq> 0" by (simp_all add: example_env_def)
  obtain h' w k where r: "accept_client example_env 4464 (fromUtf8 (env_qt example_env) ?field) ?h ?c1 =
      Some (h', close_connection (write_bytes (qint32_bytes (uint (mServerPort k))) ?c1))" "mJTWorkers h' ! 0 = Some w"
    "worker_at w h' = Some k"
    using accept_form [OF guarded_pool(1) h(3) pre, of "fromUtf8 (env_qt example_env) ?field" ?c1]
    by (elim exE conjE) (rule that; assumption)
  have "mJTWorkers ?h ! 0 = None" using first_empty_Some [OF h(3)] by blast
  then have "mJTWorkers h' \<noteq> mJTWorkers ?h" using r(2) by auto
  moreover have "\<not> startsWith (take 512 (bytes_available ?c)) (ascii ''GET'')" using not_web_request(1) [of 4464 rest] by simp
  moreover have "rest = replicate 64 0 @ qint32_bytes 3 @ qint32_bytes 2 @ [98, 111, 98] @ [0] @ [112, 119] @ [0]"
    by (simp add: rest_def)
  ultimately show ?thesis
    using authentication_gate [OF h(2), of example_env ?c h'] read [unfolded same] r(1) h(1,2) by (fastforce simp: example_env_def)
qed

theorem tls_without_credentials_witness:
  "\<exists>h. start_listener \<lparr>port_listens = True, ssl_supported = True, cert_name = qs ''c'', key_name = qs ''k'',
      creds_name = [], cert_status = Usable, key_status = Usable, creds_is_file = False, file_contents = (\<lambda>_. None), file_codec = latin1\<rparr>
      example_hub = Inr h \<and>
    readyRead example_env h (new_connection True [] (qint32_bytes 4464 @ replicate 64 0 @ qint32_bytes (int (length [98 :: u8])) @
      qint32_bytes (int (length [112 :: u8])) @ [98] @ [0] @ [112] @ [0])) = None"
proof -
  let ?S = "\<lparr>port_listens = True, ssl_supported = True, cert_name = qs ''c'', key_name = qs ''k'',
      creds_name = [], cert_status = Usable, key_status = Usable, creds_is_file = False, file_contents = (\<lambda>_. None), file_codec = latin1\<rparr>"
  have "qs ''c'' \<noteq> []" "qs ''k'' \<noteq> []" by (simp_all add: qs_def)
  then obtain h where "start_listener ?S example_hub = Inr h"
    using example_flags by (auto simp: start_listener_def tls_error_def Let_def)
  then show ?thesis
    using tls_without_credentials [of ?S 4464 0 NOAUTO h "[98]" "[112]" 4464 "replicate 64 0" example_env "[]"]
    by (auto simp: example_hub_def)
qed

lemma client_gives_up_witness:
  "\<exists>c c'. clientPingToServerStart example_client_env
      (new_client (qs ''a'') 4464 4464 False [] (qs ''bob'') (qs ''pw'')) = Some (0, c) \<and>
    retry_ticks (replicate 7 example_client_env) c = Some c' \<and> \<not> mAwaitingTcp c' \<and> \<not> mRetryTimer c'"
proof -
  obtain c where c: "clientPingToServerStart example_client_env
      (new_client (qs ''a'') 4464 4464 False [] (qs ''bob'') (qs ''pw'')) = Some (0, c)"
    using example_start by blast
  then show ?thesis using client_gives_up [OF c, of "replicate 7 example_client_env"] by auto
qed

end
