(* ===== verification/QuicVarint.thy ===== *)
theory QuicVarint
  imports Prelude
begin

unbundle bit_operations_syntax

text \<open>
  QUIC variable-length integers: \<open>readVarint\<close> and \<open>encodeQuicVarint\<close> of
  \<open>src/http3/Http3Protocol.cpp\<close>.  \<open>pos\<close> is the reference parameter, so the reader
  returns the pair of its result and the new position; the result is the C++
  \<open>int64_t\<close>, with \<open>-1\<close> for missing data.
\<close>

section \<open>Operations\<close>

fun readVarint_loop :: "bytes \<Rightarrow> nat \<Rightarrow> nat \<Rightarrow> int \<Rightarrow> int \<times> nat" where
  "readVarint_loop data pos 0 value = (value, pos)"
| "readVarint_loop data pos (Suc n) value =
     readVarint_loop data (pos + 1) n (push_bit 8 value OR uint (data ! pos))"

definition readVarint :: "bytes \<Rightarrow> nat \<Rightarrow> int \<times> nat" where
  "readVarint data pos =
     (if length data \<le> pos then (-1, pos)
      else let firstByte = data ! pos;
               prefix = drop_bit 6 firstByte;
               value = uint (firstByte AND 0x3F);
               numBytes = 2 ^ unat prefix
           in if length data < pos + numBytes then (-1, pos)
              else readVarint_loop data (pos + 1) (numBytes - 1) value)"

definition encodeQuicVarint :: "u64 \<Rightarrow> bytes" where
  "encodeQuicVarint value =
     (if value \<le> 63 then [ucast value]
      else if value \<le> 16383 then
        [ucast (0x40 OR drop_bit 8 value), ucast (value AND 0xFF)]
      else if value \<le> 1073741823 then
        [ucast (0x80 OR drop_bit 24 value), ucast (drop_bit 16 value AND 0xFF),
         ucast (drop_bit 8 value AND 0xFF), ucast (value AND 0xFF)]
      else
        [ucast (0xC0 OR drop_bit 56 value), ucast (drop_bit 48 value AND 0xFF),
         ucast (drop_bit 40 value AND 0xFF), ucast (drop_bit 32 value AND 0xFF),
         ucast (drop_bit 24 value AND 0xFF), ucast (drop_bit 16 value AND 0xFF),
         ucast (drop_bit 8 value AND 0xFF), ucast (value AND 0xFF)])"

section \<open>Reading big-endian fields\<close>

text \<open>The number a big-endian byte list denotes, and the value of the reader's loop.\<close>

fun be_value :: "bytes \<Rightarrow> nat" where
  "be_value [] = 0"
| "be_value (b # bs) = unat b * 256 ^ length bs + be_value bs"

lemma be_value_less: "be_value bs < 256 ^ length bs"
proof (induction bs)
  case (Cons b bs)
  have "unat b * 256 ^ length bs + 256 ^ length bs \<le> 256 * 256 ^ length bs"
    using unat_u8_less [of b]
    by (metis Suc_leI add.commute mult_Suc mult_le_mono1)
  with Cons.IH have "unat b * 256 ^ length bs + be_value bs < 256 * 256 ^ length bs"
    by linarith
  then show ?case by simp
qed simp

lemma readVarint_loop_append:
  assumes "pos + n \<le> length data" and "0 \<le> val"
  shows "readVarint_loop data pos n val =
    (val * 256 ^ n + int (be_value (take n (drop pos data))), pos + n)"
  using assms
proof (induction n arbitrary: pos val)
  case 0
  then show ?case by simp
next
  case (Suc n)
  let ?b = "data ! pos"
  have len: "Suc pos + n \<le> length data" using Suc.prems(1) by simp
  have or_val: "push_bit 8 val OR uint ?b = val * 256 + uint ?b"
    by (rule or_shifted_byte_int) simp_all
  have nonneg: "0 \<le> val * 256 + uint ?b"
    using Suc.prems(2) by simp
  have "take (Suc n) (drop pos data) = ?b # take n (drop (Suc pos) data)"
    using len by (simp add: Cons_nth_drop_Suc [symmetric])
  moreover have "readVarint_loop data (Suc pos) n (val * 256 + uint ?b) =
      ((val * 256 + uint ?b) * 256 ^ n + int (be_value (take n (drop (Suc pos) data))),
       Suc pos + n)"
    using len nonneg by (rule Suc.IH)
  ultimately show ?case
    using len by (simp add: or_val algebra_simps)
qed

lemma first_byte_fields:
  assumes "unat (b :: u8) = p * 64 + x" and "x < 64"
  shows "unat (drop_bit 6 b) = p" and "uint (b AND 0x3F) = int x"
proof -
  show "unat (drop_bit 6 b) = p"
    using assms by (simp add: unat_drop_bit_eq drop_bit_eq_div [where ?'a = nat])
  have "b AND 0x3F = take_bit 6 b"
    by (simp add: take_bit_eq_mask mask_eq_exp_minus_1)
  then have "unat (b AND 0x3F) = x"
    using assms by (simp add: unsigned_take_bit_eq take_bit_eq_mod [where ?'a = nat])
  then show "uint (b AND 0x3F) = int x"
    by (metis uint_u8_of_unat)
qed

lemma readVarint_at:
  assumes "data = pre @ b # bs @ post"
    and "unat (b :: u8) = p * 64 + x" and "x < 64" and "length bs = 2 ^ p - 1"
  shows "readVarint data (length pre) =
    (int (x * 256 ^ length bs + be_value bs), length pre + 2 ^ p)"
proof -
  have nth: "data ! length pre = b" using assms(1) by simp
  have two: "Suc (length bs) = 2 ^ p" using assms(4) by simp
  have len: "length pre + 1 + (2 ^ p - 1) \<le> length data"
    using assms(1,4) by simp
  have drop: "take (2 ^ p - 1) (drop (length pre + 1) data) = bs"
    using assms(1,4) by simp
  have "readVarint data (length pre) =
      readVarint_loop data (length pre + 1) (2 ^ p - 1) (int x)"
    using assms len nth two first_byte_fields [OF assms(2,3)]
    by (simp add: readVarint_def Let_def)
  also have "\<dots> = (int x * 256 ^ (2 ^ p - 1) + int (be_value bs), length pre + 1 + (2 ^ p - 1))"
    using readVarint_loop_append [OF len, of "int x"] drop by simp
  finally show ?thesis
    using assms(4) two by simp
qed

section \<open>The encoder's bytes\<close>

lemma ucast_low_byte: "unat (ucast (w AND 0xFF :: u64) :: u8) = unat w mod 256"
proof -
  have "w AND 0xFF = take_bit 8 w"
    by (simp add: take_bit_eq_mask mask_eq_exp_minus_1)
  then show ?thesis
    by (simp add: unsigned_ucast_eq unsigned_take_bit_eq take_bit_eq_mod [where ?'a = nat])
qed

lemma ucast_first_byte:
  assumes "unat (y :: u64) < 64" and "p < 4"
  shows "unat (ucast (push_bit 6 (of_nat p) OR y) :: u8) = p * 64 + unat y"
proof -
  have ty: "take_bit 6 y = y"
    using assms(1) by (simp add: word_unat_eq_iff unsigned_take_bit_eq take_bit_eq_mod [where ?'a = nat])
  have "\<not> bit y n" if "6 \<le> n" for n
    using that ty by (metis bit_take_bit_iff linorder_not_less)
  then have "push_bit 6 (of_nat p) AND y = 0"
    by (intro bit_eqI) (auto simp: bit_simps)
  then have "push_bit 6 (of_nat p) OR y = push_bit 6 (of_nat p) + y"
    by (simp add: disjunctive_add_eq_or)
  moreover have "push_bit 6 (of_nat p :: u64) + y = of_nat (p * 64 + unat y)"
    by (simp add: push_bit_eq_mult mult.commute)
  ultimately have sum: "push_bit 6 (of_nat p) OR y = of_nat (p * 64 + unat y)"
    by (simp only:)
  have small: "p * 64 + unat y < 256" using assms by linarith
  have "unat (of_nat (p * 64 + unat y) :: u64) = p * 64 + unat y"
    using small by (simp add: unat_of_nat del: of_nat_add of_nat_mult)
  with small show ?thesis
    by (simp only: sum unsigned_ucast_eq take_bit_eq_mod [where ?'a = nat]) simp
qed

lemma mod_mult_digit: "v mod (256 * b) = v div b mod 256 * b + v mod (b :: nat)"
  using mod_mult2_eq [of v b 256] by (simp add: mult.commute)

lemma be_digits_1: "(v :: nat) div 256 * 256 + v mod 256 = v"
  by simp

lemma be_digits_3:
  "(v :: nat) div 16777216 * 16777216 + (v div 65536 mod 256 * 65536
     + (v div 256 mod 256 * 256 + v mod 256)) = v"
  using mod_mult_digit [of v 65536] mod_mult_digit [of v 256]
    div_mult_mod_eq [of v 16777216] by simp

lemma be_digits_7:
  "(v :: nat) div 72057594037927936 * 72057594037927936
     + (v div 281474976710656 mod 256 * 281474976710656
     + (v div 1099511627776 mod 256 * 1099511627776
     + (v div 4294967296 mod 256 * 4294967296
     + (v div 16777216 mod 256 * 16777216 + (v div 65536 mod 256 * 65536
     + (v div 256 mod 256 * 256 + v mod 256)))))) = v"
  using mod_mult_digit [of v 65536] mod_mult_digit [of v 256] mod_mult_digit [of v 16777216]
    mod_mult_digit [of v 4294967296] mod_mult_digit [of v 1099511627776]
    mod_mult_digit [of v 281474976710656] div_mult_mod_eq [of v 72057594037927936] by simp

section \<open>Round trip\<close>

text \<open>The number of bytes the encoder writes.\<close>

definition varint_size :: "nat \<Rightarrow> nat" where
  "varint_size v = (if v < 64 then 1 else if v < 16384 then 2 else if v < 1073741824 then 4 else 8)"

lemma encodeQuicVarint_length: "length (encodeQuicVarint w) = varint_size (unat w)"
  by (auto simp: encodeQuicVarint_def varint_size_def word_le_nat_alt)

lemma readVarint_encodeQuicVarint:
  assumes "unat w < 2 ^ 62" and "data = pre @ encodeQuicVarint w @ post"
  shows "readVarint data (length pre) = (int (unat w), length pre + varint_size (unat w))"
proof -
  let ?v = "unat w"
  consider "?v < 64" | "64 \<le> ?v" "?v < 16384" | "16384 \<le> ?v" "?v < 1073741824"
    | "1073741824 \<le> ?v" by linarith
  then show ?thesis
  proof cases
    case 1
    then have "unat (ucast w :: u8) = 0 * 64 + ?v"
      by (simp add: unsigned_ucast_eq take_bit_eq_mod [where ?'a = nat])
    moreover have "encodeQuicVarint w = [ucast w]"
      using 1 by (simp add: encodeQuicVarint_def word_le_nat_alt)
    ultimately show ?thesis
      using 1 assms(2) readVarint_at [of data pre "ucast w" "[]" post 0 ?v]
      by (simp add: varint_size_def)
  next
    case 2
    let ?b = "ucast (0x40 OR drop_bit 8 w) :: u8"
    have "unat (drop_bit 8 w) = ?v div 256"
      by (simp add: unat_drop_bit_eq drop_bit_eq_div [where ?'a = nat])
    then have "unat ?b = 1 * 64 + ?v div 256"
      using 2 ucast_first_byte [of "drop_bit 8 w" 1] by simp
    moreover have "encodeQuicVarint w = ?b # [ucast (w AND 0xFF)]"
      using 2 by (simp add: encodeQuicVarint_def word_le_nat_alt)
    ultimately show ?thesis
      using 2 assms(2) readVarint_at [of data pre ?b "[ucast (w AND 0xFF)]" post 1 "?v div 256"]
      by (simp add: varint_size_def ucast_low_byte be_digits_1)
  next
    case 3
    let ?b = "ucast (0x80 OR drop_bit 24 w) :: u8"
    let ?bs = "[ucast (drop_bit 16 w AND 0xFF), ucast (drop_bit 8 w AND 0xFF), ucast (w AND 0xFF)] :: bytes"
    have "unat (drop_bit 24 w) = ?v div 16777216"
      by (simp add: unat_drop_bit_eq drop_bit_eq_div [where ?'a = nat])
    then have "unat ?b = 2 * 64 + ?v div 16777216"
      using 3 ucast_first_byte [of "drop_bit 24 w" 2] by simp
    moreover have "encodeQuicVarint w = ?b # ?bs"
      using 3 by (simp add: encodeQuicVarint_def word_le_nat_alt)
    moreover have "?v div 16777216 * 256 ^ 3 + be_value ?bs = ?v"
      using be_digits_3 [of ?v] by (simp add: ucast_low_byte unat_drop_bit_eq drop_bit_eq_div [where ?'a = nat])
    ultimately show ?thesis
      using 3 assms(2) readVarint_at [of data pre ?b ?bs post 2 "?v div 16777216"]
      by (simp add: varint_size_def numeral_3_eq_3)
  next
    case 4
    let ?b = "ucast (0xC0 OR drop_bit 56 w) :: u8"
    let ?bs = "[ucast (drop_bit 48 w AND 0xFF), ucast (drop_bit 40 w AND 0xFF),
      ucast (drop_bit 32 w AND 0xFF), ucast (drop_bit 24 w AND 0xFF),
      ucast (drop_bit 16 w AND 0xFF), ucast (drop_bit 8 w AND 0xFF), ucast (w AND 0xFF)] :: bytes"
    have "unat (drop_bit 56 w) = ?v div 72057594037927936"
      by (simp add: unat_drop_bit_eq drop_bit_eq_div [where ?'a = nat])
    then have "unat ?b = 3 * 64 + ?v div 72057594037927936"
      using assms(1) ucast_first_byte [of "drop_bit 56 w" 3] by simp
    moreover have "encodeQuicVarint w = ?b # ?bs"
      using 4 by (simp add: encodeQuicVarint_def word_le_nat_alt)
    moreover have "?v div 72057594037927936 * 256 ^ 7 + be_value ?bs = ?v"
      using be_digits_7 [of ?v] by (simp add: ucast_low_byte unat_drop_bit_eq drop_bit_eq_div [where ?'a = nat])
    ultimately show ?thesis
      using 4 assms readVarint_at [of data pre ?b ?bs post 3 "?v div 72057594037927936"]
      by (simp add: varint_size_def)
  qed
qed

section \<open>Properties\<close>

text \<open>
  Reading back what \<open>encodeQuicVarint\<close> wrote, at any offset of a buffer, gives the
  value and moves the position past exactly the bytes of the encoding.
\<close>

lemma varint_roundtrip:
  assumes "unat w < 2 ^ 62"
  shows "readVarint (pre @ encodeQuicVarint w @ post) (length pre) =
    (int (unat w), length pre + length (encodeQuicVarint w))"
  using readVarint_encodeQuicVarint [OF assms, of "pre @ encodeQuicVarint w @ post" pre post]
  by (simp add: encodeQuicVarint_length)

lemma varint_roundtrip_witness:
  "readVarint ([7] @ encodeQuicVarint 15293 @ [9]) (length [7 :: u8]) =
    (15293, length [7 :: u8] + length (encodeQuicVarint 15293))"
  using varint_roundtrip [of 15293 "[7]" "[9]"] by simp

end
