(* ===== verification/Http3Frame.thy ===== *)
theory Http3Frame
  imports QuicVarint
begin

text \<open>
  HTTP/3 frames: \<open>parseHttp3Frame\<close> of \<open>src/http3/Http3Protocol.cpp\<close>, which looks for
  the first HEADERS frame.  The pointer and the length it returns through its reference
  parameters are an offset into the data and a length; \<open>None\<close> is its result \<open>false\<close>.
\<close>

section \<open>Operations\<close>

datatype FrameType = FRAME_DATA | FRAME_HEADERS | FRAME_CANCEL_PUSH | FRAME_SETTINGS
  | FRAME_PUSH_PROMISE | FRAME_GOAWAY | FRAME_MAX_PUSH_ID

fun frame_code :: "FrameType \<Rightarrow> int" where
  "frame_code FRAME_DATA = 0x00"
| "frame_code FRAME_HEADERS = 0x01"
| "frame_code FRAME_CANCEL_PUSH = 0x03"
| "frame_code FRAME_SETTINGS = 0x04"
| "frame_code FRAME_PUSH_PROMISE = 0x05"
| "frame_code FRAME_GOAWAY = 0x07"
| "frame_code FRAME_MAX_PUSH_ID = 0x0D"

lemma readVarint_progress:
  assumes "readVarint data pos = (v, pos')" and "0 \<le> v"
  shows "pos < pos' \<and> pos' \<le> length data"
proof -
  let ?n = "2 ^ unat (drop_bit 6 (data ! pos)) :: nat"
  let ?x = "uint (data ! pos AND 0x3F)"
  have inb: "pos < length data" "pos + ?n \<le> length data"
    using assms by (auto simp: readVarint_def Let_def split: if_splits)
  have "?n \<noteq> 0" by simp
  then have n: "pos + 1 + (?n - 1) = pos + ?n" by linarith
  have "(v, pos') = readVarint_loop data (pos + 1) (?n - 1) ?x"
    using assms inb by (simp add: readVarint_def Let_def)
  also have "snd \<dots> = pos + ?n"
    using readVarint_loop_append [of "pos + 1" "?n - 1" data ?x] inb n by simp
  finally have "pos' = pos + ?n" by simp
  then show ?thesis using inb \<open>?n \<noteq> 0\<close> by linarith
qed

function parseHttp3Frame_loop :: "bytes \<Rightarrow> nat \<Rightarrow> (nat \<times> nat) option" where
  "parseHttp3Frame_loop data pos =
     (if pos < length data then
        (case readVarint data pos of (frameType, pos1) \<Rightarrow>
          if frameType < 0 then None
          else (case readVarint data pos1 of (frameLength, pos2) \<Rightarrow>
            if frameLength < 0 then None
            else if length data < pos2 + nat frameLength then None
            else if frameType = frame_code FRAME_HEADERS then Some (pos2, nat frameLength)
            else parseHttp3Frame_loop data (pos2 + nat frameLength)))
      else None)"
  by pat_completeness auto
termination
proof (relation "measure (\<lambda>(data, pos). length data - pos)", goal_cases)
  case 1
  then show ?case by simp
next
  case (2 data pos frameType pos1 frameLength pos2)
  then have "readVarint data pos = (frameType, pos1)" "readVarint data pos1 = (frameLength, pos2)"
    by simp_all
  with 2 readVarint_progress [of data pos frameType pos1]
    readVarint_progress [of data pos1 frameLength pos2]
  show ?case by simp
qed

declare parseHttp3Frame_loop.simps [simp del]

definition parseHttp3Frame :: "bytes \<Rightarrow> (nat \<times> nat) option" where
  "parseHttp3Frame data = parseHttp3Frame_loop data 0"

section \<open>Safety and the first HEADERS frame\<close>

text \<open>The payload that is returned lies inside the data.\<close>

lemma parseHttp3Frame_loop_bounds:
  "parseHttp3Frame_loop data pos = Some (off, n) \<Longrightarrow> off + n \<le> length data"
proof (induction data pos rule: parseHttp3Frame_loop.induct)
  case (1 data pos)
  from "1.prems" show ?case
    by (subst (asm) parseHttp3Frame_loop.simps)
      (auto split: if_splits prod.splits intro: "1.IH")
qed

text \<open>A frame as a sender writes it: type, payload length and payload.\<close>

definition encode_frame :: "u64 \<times> bytes \<Rightarrow> bytes" where
  "encode_frame f = encodeQuicVarint (fst f) @ encodeQuicVarint (of_nat (length (snd f))) @ snd f"

definition frame_ok :: "u64 \<times> bytes \<Rightarrow> bool" where
  "frame_ok f \<longleftrightarrow> unat (fst f) < 2 ^ 62 \<and> length (snd f) < 2 ^ 62"

lemma varint_size_pos: "0 < varint_size v"
  by (simp add: varint_size_def)

lemma frame_length_unat: "n < 2 ^ 62 \<Longrightarrow> unat (of_nat n :: u64) = n"
  by (simp add: unat_of_nat)

lemma parseHttp3Frame_loop_frame:
  assumes "frame_ok (t, p)" and "data = pre @ encode_frame (t, p) @ post"
  shows "parseHttp3Frame_loop data (length pre) =
    (if t = 1 then Some (length pre + length (encode_frame (t, p)) - length p, length p)
     else parseHttp3Frame_loop data (length (pre @ encode_frame (t, p))))"
proof -
  let ?et = "encodeQuicVarint t" and ?el = "encodeQuicVarint (of_nat (length p))"
  have ok: "unat t < 2 ^ 62" "length p < 2 ^ 62"
    using assms(1) by (simp_all add: frame_ok_def)
  have len: "unat (of_nat (length p) :: u64) = length p"
    using ok(2) by (rule frame_length_unat)
  have r1: "readVarint data (length pre) = (int (unat t), length (pre @ ?et))"
    using readVarint_encodeQuicVarint [of t data pre "?el @ p @ post"] ok(1) assms(2)
    by (simp add: encode_frame_def encodeQuicVarint_length)
  have r2: "readVarint data (length (pre @ ?et)) = (int (length p), length (pre @ ?et @ ?el))"
    using readVarint_encodeQuicVarint [of "of_nat (length p)" data "pre @ ?et" "p @ post"]
      ok(2) assms(2) len
    by (simp add: encode_frame_def encodeQuicVarint_length)
  have inb: "length pre < length data" "length (pre @ ?et @ ?el) + length p \<le> length data"
    using assms(2) varint_size_pos [of "unat t"]
    by (simp_all add: encode_frame_def encodeQuicVarint_length)
  have hdr: "int (unat t) = 1 \<longleftrightarrow> t = 1"
    by (metis of_nat_1 of_nat_eq_iff unsigned_1 word_unat_eq_iff)
  show ?thesis
    using inb r1 r2 hdr
    by (subst parseHttp3Frame_loop.simps) (simp add: encode_frame_def add.assoc)
qed

lemma parseHttp3Frame_loop_frames:
  assumes "list_all (\<lambda>f. frame_ok f \<and> fst f \<noteq> 1) fs" and "frame_ok (1, p)"
  shows "parseHttp3Frame_loop (pre @ concat (map encode_frame fs) @ encode_frame (1, p) @ post)
      (length pre) =
    Some (length pre + length (concat (map encode_frame fs)) + length (encode_frame (1, p))
      - length p, length p)"
  using assms(1)
proof (induction fs arbitrary: pre)
  case Nil
  then show ?case
    using parseHttp3Frame_loop_frame [OF assms(2), of _ pre post] by simp
next
  case (Cons f fs)
  obtain t q where f: "f = (t, q)" by fastforce
  from Cons.prems f have ok: "frame_ok (t, q)" "t \<noteq> 1"
    and rest: "list_all (\<lambda>f. frame_ok f \<and> fst f \<noteq> 1) fs" by simp_all
  from Cons.IH [OF rest, of "pre @ encode_frame f"] show ?case
    using parseHttp3Frame_loop_frame [OF ok(1), of _ pre
        "concat (map encode_frame fs) @ encode_frame (1, p) @ post"] ok(2) f
    by (simp add: add.assoc)
qed

section \<open>Properties\<close>

text \<open>
  Whatever the bytes of the peer, the HEADERS payload that \<open>parseHttp3Frame\<close> hands to the
  header decoder lies inside the received data.
\<close>

lemma headers_payload_in_bounds:
  assumes "parseHttp3Frame data = Some (off, n)"
  shows "off + n \<le> length data"
  using assms unfolding parseHttp3Frame_def by (rule parseHttp3Frame_loop_bounds)

lemma headers_payload_in_bounds_witness:
  "parseHttp3Frame [0x04, 0x01, 0xAA, 0x01, 0x02, 0xBB, 0xCC] = Some (5, 2) \<and> (5 :: nat) + 2 \<le> 7"
proof -
  have p: "parseHttp3Frame [0x04, 0x01, 0xAA, 0x01, 0x02, 0xBB, 0xCC] = Some (5, 2)"
    by (simp add: parseHttp3Frame_def parseHttp3Frame_loop.simps readVarint_def)
  show ?thesis using p headers_payload_in_bounds [OF p] by simp
qed

text \<open>
  For a stream of well-formed frames, \<open>parseHttp3Frame\<close> skips every frame of another type,
  unknown ones included, and returns exactly the payload of the first HEADERS frame.
\<close>

lemma headers_frame_found:
  assumes "list_all (\<lambda>f. frame_ok f \<and> fst f \<noteq> 1) fs" and "frame_ok (1, p)"
    and "data = concat (map encode_frame fs) @ encode_frame (1, p) @ post"
  shows "\<exists>off. parseHttp3Frame data = Some (off, length p) \<and> take (length p) (drop off data) = p"
proof -
  let ?pre = "concat (map encode_frame fs)"
  let ?off = "length ?pre + length (encode_frame (1, p)) - length p"
  have "parseHttp3Frame data = Some (?off, length p)"
    using parseHttp3Frame_loop_frames [OF assms(1,2), of "[]" post] assms(3)
    by (simp add: parseHttp3Frame_def)
  moreover have "take (length p) (drop ?off data) = p"
    using assms(3) by (simp add: encode_frame_def)
  ultimately show ?thesis by blast
qed

lemma headers_frame_found_witness:
  "\<exists>off. parseHttp3Frame (concat (map encode_frame [(4, [0xAA])]) @ encode_frame (1, [0xBB, 0xCC]) @ [])
      = Some (off, length [0xBB, 0xCC :: u8]) \<and>
    take (length [0xBB, 0xCC :: u8])
      (drop off (concat (map encode_frame [(4, [0xAA])]) @ encode_frame (1, [0xBB, 0xCC]) @ [])) =
      [0xBB, 0xCC]"
  by (rule headers_frame_found [OF _ _ refl]) (simp_all add: frame_ok_def)

end
