(* ===== verification/QpackTable.thy ===== *)
theory QpackTable
  imports Prelude
begin

text \<open>
  The static table of QPACK (\<open>QPACK_STATIC_TABLE\<close> of \<open>src/http3/Http3Protocol.cpp\<close>, RFC 9204
  Appendix A): a flat list of C strings, the name of entry \<open>i\<close> at \<open>2 * i\<close> and its value
  at \<open>2 * i + 1\<close>.  The two halves follow the order of the source.
\<close>

definition QPACK_STATIC_TABLE_0_49 :: "string list" where
  "QPACK_STATIC_TABLE_0_49 =
    [
     '':authority'', '''',
     '':path'', ''/'',
     ''age'', ''0'',
     ''content-disposition'', '''',
     ''content-length'', ''0'',
     ''cookie'', '''',
     ''date'', '''',
     ''etag'', '''',
     ''if-modified-since'', '''',
     ''if-none-match'', '''',
     ''last-modified'', '''',
     ''link'', '''',
     ''location'', '''',
     ''referer'', '''',
     ''set-cookie'', '''',
     '':method'', ''CONNECT'',
     '':method'', ''DELETE'',
     '':method'', ''GET'',
     '':method'', ''HEAD'',
     '':method'', ''OPTIONS'',
     '':method'', ''POST'',
     '':method'', ''PUT'',
     '':scheme'', ''http'',
     '':scheme'', ''https'',
     '':status'', ''103'',
     '':status'', ''200'',
     '':status'', ''304'',
     '':status'', ''404'',
     '':status'', ''503'',
     ''accept'', ''*/*'',
     ''accept'', ''application/dns-message'',
     ''accept-encoding'', ''gzip, deflate, br'',
     ''accept-ranges'', ''bytes'',
     ''access-control-allow-headers'', ''cache-control'',
     ''access-control-allow-headers'', ''content-type'',
     ''access-control-allow-origin'', ''*'',
     ''cache-control'', ''max-age=0'',
     ''cache-control'', ''max-age=2592000'',
     ''cache-control'', ''max-age=604800'',
     ''cache-control'', ''no-cache'',
     ''cache-control'', ''no-store'',
     ''cache-control'', ''public, max-age=31536000'',
     ''content-encoding'', ''br'',
     ''content-encoding'', ''gzip'',
     ''content-type'', ''application/dns-message'',
     ''content-type'', ''application/javascript'',
     ''content-type'', ''application/json'',
     ''content-type'', ''application/x-www-form-urlencoded'',
     ''content-type'', ''image/gif'',
     ''content-type'', ''image/jpeg'']"

definition QPACK_STATIC_TABLE_50_98 :: "string list" where
  "QPACK_STATIC_TABLE_50_98 =
    [
     ''content-type'', ''image/png'',
     ''content-type'', ''text/css'',
     ''content-type'', ''text/html; charset=utf-8'',
     ''content-type'', ''text/plain'',
     ''content-type'', ''text/plain;charset=utf-8'',
     ''range'', ''bytes=0-'',
     ''strict-transport-security'', ''max-age=31536000'',
     ''strict-transport-security'', ''max-age=31536000; includesubdomains'',
     ''strict-transport-security'', ''max-age=31536000; includesubdomains; preload'',
     ''vary'', ''accept-encoding'',
     ''vary'', ''origin'',
     ''x-content-type-options'', ''nosniff'',
     ''x-xss-protection'', ''1; mode=block'',
     '':status'', ''100'',
     '':status'', ''204'',
     '':status'', ''206'',
     '':status'', ''302'',
     '':status'', ''400'',
     '':status'', ''403'',
     '':status'', ''421'',
     '':status'', ''425'',
     '':status'', ''500'',
     ''accept-language'', '''',
     ''access-control-allow-credentials'', ''FALSE'',
     ''access-control-allow-credentials'', ''TRUE'',
     ''access-control-allow-headers'', ''*'',
     ''access-control-allow-methods'', ''get'',
     ''access-control-allow-methods'', ''get, post, options'',
     ''access-control-allow-methods'', ''options'',
     ''access-control-expose-headers'', ''content-length'',
     ''access-control-request-headers'', ''content-type'',
     ''access-control-request-method'', ''get'',
     ''access-control-request-method'', ''post'',
     ''alt-svc'', ''clear'',
     ''authorization'', '''',
     ''content-security-policy'', ''script-src 'none'; object-src 'none'; base-uri 'none'' @ [CHR 0x27],
     ''early-data'', ''1'',
     ''expect-ct'', '''',
     ''forwarded'', '''',
     ''if-range'', '''',
     ''origin'', '''',
     ''purpose'', ''prefetch'',
     ''server'', '''',
     ''timing-allow-origin'', ''*'',
     ''upgrade-insecure-requests'', ''1'',
     ''user-agent'', '''',
     ''x-forwarded-for'', '''',
     ''x-frame-options'', ''deny'',
     ''x-frame-options'', ''sameorigin'']"

definition QPACK_STATIC_TABLE :: "string list" where
  "QPACK_STATIC_TABLE = QPACK_STATIC_TABLE_0_49 @ QPACK_STATIC_TABLE_50_98"

lemma QPACK_STATIC_TABLE_length: "length QPACK_STATIC_TABLE = 198"
  by (simp add: QPACK_STATIC_TABLE_def QPACK_STATIC_TABLE_0_49_def QPACK_STATIC_TABLE_50_98_def)

text \<open>The bytes of a C string of ASCII characters, without the terminating zero.\<close>

definition c_str :: "string \<Rightarrow> bytes" where
  "c_str s = map of_char s"

end
