(* ===== verification/HuffmanTable.thy ===== *)
theory HuffmanTable
  imports Prelude
begin

text \<open>
  The HPACK Huffman table \<open>HUFFMAN_CODES\<close> of \<open>src/http3/Http3Protocol.cpp\<close>, entry by
  entry in the order of the source, and the facts about it that the decoder relies on,
  each of them evaluated on the table: code lengths, canonical order of the codes (hence
  no code is a prefix of another), no code that is all ones below eight bits, and one
  entry for every byte.
\<close>

section \<open>The table\<close>

record HuffmanCode =
  hc_code :: u32
  hc_bits :: nat
  hc_sym :: u8

definition HUFFMAN_CODES_short :: "HuffmanCode list" where
  "HUFFMAN_CODES_short = [
    HuffmanCode.make 0x00 5 0x30, HuffmanCode.make 0x01 5 0x31,
    HuffmanCode.make 0x02 5 0x32, HuffmanCode.make 0x03 5 0x61,
    HuffmanCode.make 0x04 5 0x63, HuffmanCode.make 0x05 5 0x65,
    HuffmanCode.make 0x06 5 0x69, HuffmanCode.make 0x07 5 0x6f,
    HuffmanCode.make 0x08 5 0x73, HuffmanCode.make 0x09 5 0x74,
    HuffmanCode.make 0x14 6 0x20, HuffmanCode.make 0x15 6 0x25,
    HuffmanCode.make 0x16 6 0x2d, HuffmanCode.make 0x17 6 0x2e,
    HuffmanCode.make 0x18 6 0x2f, HuffmanCode.make 0x19 6 0x33,
    HuffmanCode.make 0x1a 6 0x34, HuffmanCode.make 0x1b 6 0x35,
    HuffmanCode.make 0x1c 6 0x36, HuffmanCode.make 0x1d 6 0x37,
    HuffmanCode.make 0x1e 6 0x38, HuffmanCode.make 0x1f 6 0x39,
    HuffmanCode.make 0x20 6 0x3d, HuffmanCode.make 0x21 6 0x41,
    HuffmanCode.make 0x22 6 0x5f, HuffmanCode.make 0x23 6 0x62,
    HuffmanCode.make 0x24 6 0x64, HuffmanCode.make 0x25 6 0x66,
    HuffmanCode.make 0x26 6 0x67, HuffmanCode.make 0x27 6 0x68,
    HuffmanCode.make 0x28 6 0x6c, HuffmanCode.make 0x29 6 0x6d,
    HuffmanCode.make 0x2a 6 0x6e, HuffmanCode.make 0x2b 6 0x70,
    HuffmanCode.make 0x2c 6 0x72, HuffmanCode.make 0x2d 6 0x75,
    HuffmanCode.make 0x5c 7 0x3a, HuffmanCode.make 0x5d 7 0x42,
    HuffmanCode.make 0x5e 7 0x43, HuffmanCode.make 0x5f 7 0x44,
    HuffmanCode.make 0x60 7 0x45, HuffmanCode.make 0x61 7 0x46,
    HuffmanCode.make 0x62 7 0x47, HuffmanCode.make 0x63 7 0x48,
    HuffmanCode.make 0x64 7 0x49, HuffmanCode.make 0x65 7 0x4a,
    HuffmanCode.make 0x66 7 0x4b, HuffmanCode.make 0x67 7 0x4c,
    HuffmanCode.make 0x68 7 0x4d, HuffmanCode.make 0x69 7 0x4e,
    HuffmanCode.make 0x6a 7 0x4f, HuffmanCode.make 0x6b 7 0x50,
    HuffmanCode.make 0x6c 7 0x51, HuffmanCode.make 0x6d 7 0x52,
    HuffmanCode.make 0x6e 7 0x53, HuffmanCode.make 0x6f 7 0x54,
    HuffmanCode.make 0x70 7 0x55, HuffmanCode.make 0x71 7 0x56,
    HuffmanCode.make 0x72 7 0x57, HuffmanCode.make 0x73 7 0x59,
    HuffmanCode.make 0x74 7 0x6a, HuffmanCode.make 0x75 7 0x6b,
    HuffmanCode.make 0x76 7 0x71, HuffmanCode.make 0x77 7 0x76,
    HuffmanCode.make 0x78 7 0x77, HuffmanCode.make 0x79 7 0x78,
    HuffmanCode.make 0x7a 7 0x79, HuffmanCode.make 0x7b 7 0x7a,
    HuffmanCode.make 0xf8 8 0x26, HuffmanCode.make 0xf9 8 0x2a,
    HuffmanCode.make 0xfa 8 0x2c, HuffmanCode.make 0xfb 8 0x3b,
    HuffmanCode.make 0xfc 8 0x58, HuffmanCode.make 0xfd 8 0x5a,
    HuffmanCode.make 0x3f8 10 0x21, HuffmanCode.make 0x3f9 10 0x22,
    HuffmanCode.make 0x3fa 10 0x28, HuffmanCode.make 0x3fb 10 0x29,
    HuffmanCode.make 0x3fc 10 0x3f, HuffmanCode.make 0x7fa 11 0x27,
    HuffmanCode.make 0x7fb 11 0x2b, HuffmanCode.make 0x7fc 11 0x7c,
    HuffmanCode.make 0xffa 12 0x23, HuffmanCode.make 0xffb 12 0x3e,
    HuffmanCode.make 0x1ff8 13 0x00, HuffmanCode.make 0x1ff9 13 0x24,
    HuffmanCode.make 0x1ffa 13 0x40, HuffmanCode.make 0x1ffb 13 0x5b,
    HuffmanCode.make 0x1ffc 13 0x5d, HuffmanCode.make 0x1ffd 13 0x7e,
    HuffmanCode.make 0x3ffc 14 0x5e, HuffmanCode.make 0x3ffd 14 0x7d,
    HuffmanCode.make 0x7ffc 15 0x3c, HuffmanCode.make 0x7ffd 15 0x60,
    HuffmanCode.make 0x7ffe 15 0x7b]"

definition HUFFMAN_CODES_mid :: "HuffmanCode list" where
  "HUFFMAN_CODES_mid = [
    HuffmanCode.make 0x7fff0 19 0x5c, HuffmanCode.make 0xfffe6 20 0xc3,
    HuffmanCode.make 0xfffe7 20 0xd0, HuffmanCode.make 0xfffe8 20 0x80,
    HuffmanCode.make 0xfffe9 20 0x82, HuffmanCode.make 0xfffea 20 0x83,
    HuffmanCode.make 0xfffeb 20 0xa2, HuffmanCode.make 0xfffec 20 0xb8,
    HuffmanCode.make 0xfffed 20 0xc2, HuffmanCode.make 0xfffee 20 0xe0,
    HuffmanCode.make 0xfffef 20 0xe2, HuffmanCode.make 0x1fffdc 21 0x99,
    HuffmanCode.make 0x1fffdd 21 0xa1, HuffmanCode.make 0x1fffde 21 0xa7,
    HuffmanCode.make 0x1fffdf 21 0xac, HuffmanCode.make 0x1fffe0 21 0xb0,
    HuffmanCode.make 0x1fffe1 21 0xb1, HuffmanCode.make 0x1fffe2 21 0xb3,
    HuffmanCode.make 0x1fffe3 21 0xd1, HuffmanCode.make 0x1fffe4 21 0xd8,
    HuffmanCode.make 0x1fffe5 21 0xd9, HuffmanCode.make 0x1fffe6 21 0xe3,
    HuffmanCode.make 0x1fffe7 21 0xe5, HuffmanCode.make 0x1fffe8 21 0xe6,
    HuffmanCode.make 0x3fffd2 22 0x81, HuffmanCode.make 0x3fffd3 22 0x84,
    HuffmanCode.make 0x3fffd4 22 0x85, HuffmanCode.make 0x3fffd5 22 0x86,
    HuffmanCode.make 0x3fffd6 22 0x88, HuffmanCode.make 0x3fffd7 22 0x92,
    HuffmanCode.make 0x3fffd8 22 0x9a, HuffmanCode.make 0x3fffd9 22 0x9c,
    HuffmanCode.make 0x3fffda 22 0xa0, HuffmanCode.make 0x3fffdb 22 0xa3,
    HuffmanCode.make 0x3fffdc 22 0xa4, HuffmanCode.make 0x3fffdd 22 0xa9,
    HuffmanCode.make 0x3fffde 22 0xaa, HuffmanCode.make 0x3fffdf 22 0xad,
    HuffmanCode.make 0x3fffe0 22 0xb2, HuffmanCode.make 0x3fffe1 22 0xb5,
    HuffmanCode.make 0x3fffe2 22 0xb9, HuffmanCode.make 0x3fffe3 22 0xba,
    HuffmanCode.make 0x3fffe4 22 0xbb, HuffmanCode.make 0x3fffe5 22 0xbd,
    HuffmanCode.make 0x3fffe6 22 0xbe, HuffmanCode.make 0x3fffe7 22 0xc4,
    HuffmanCode.make 0x3fffe8 22 0xc6, HuffmanCode.make 0x3fffe9 22 0xe4,
    HuffmanCode.make 0x3fffea 22 0xe8, HuffmanCode.make 0x3fffeb 22 0xe9,
    HuffmanCode.make 0x7fffd8 23 0x01, HuffmanCode.make 0x7fffd9 23 0x87,
    HuffmanCode.make 0x7fffda 23 0x89, HuffmanCode.make 0x7fffdb 23 0x8a,
    HuffmanCode.make 0x7fffdc 23 0x8b, HuffmanCode.make 0x7fffdd 23 0x8c,
    HuffmanCode.make 0x7fffde 23 0x8d, HuffmanCode.make 0x7fffdf 23 0x8f,
    HuffmanCode.make 0x7fffe0 23 0x93, HuffmanCode.make 0x7fffe1 23 0x95,
    HuffmanCode.make 0x7fffe2 23 0x96, HuffmanCode.make 0x7fffe3 23 0x97,
    HuffmanCode.make 0x7fffe4 23 0x98, HuffmanCode.make 0x7fffe5 23 0x9b,
    HuffmanCode.make 0x7fffe6 23 0x9d, HuffmanCode.make 0x7fffe7 23 0x9e,
    HuffmanCode.make 0x7fffe8 23 0xa5, HuffmanCode.make 0x7fffe9 23 0xa6,
    HuffmanCode.make 0x7fffea 23 0xa8, HuffmanCode.make 0x7fffeb 23 0xae,
    HuffmanCode.make 0x7fffec 23 0xaf, HuffmanCode.make 0x7fffed 23 0xb4,
    HuffmanCode.make 0x7fffee 23 0xb6, HuffmanCode.make 0x7fffef 23 0xb7,
    HuffmanCode.make 0x7ffff0 23 0xbc, HuffmanCode.make 0x7ffff1 23 0xbf,
    HuffmanCode.make 0x7ffff2 23 0xc5, HuffmanCode.make 0x7ffff3 23 0xe7,
    HuffmanCode.make 0x7ffff4 23 0xef]"

definition HUFFMAN_CODES_long :: "HuffmanCode list" where
  "HUFFMAN_CODES_long = [
    HuffmanCode.make 0xffffea 24 0x09, HuffmanCode.make 0xffffeb 24 0x8e,
    HuffmanCode.make 0xffffec 24 0x90, HuffmanCode.make 0xffffed 24 0x91,
    HuffmanCode.make 0xffffee 24 0x94, HuffmanCode.make 0xffffef 24 0x9f,
    HuffmanCode.make 0xfffff0 24 0xab, HuffmanCode.make 0xfffff1 24 0xce,
    HuffmanCode.make 0xfffff2 24 0xd7, HuffmanCode.make 0xfffff3 24 0xe1,
    HuffmanCode.make 0xfffff4 24 0xec, HuffmanCode.make 0xfffff5 24 0xed,
    HuffmanCode.make 0x1ffffec 25 0xc7, HuffmanCode.make 0x1ffffed 25 0xcf,
    HuffmanCode.make 0x1ffffee 25 0xea, HuffmanCode.make 0x1ffffef 25 0xeb,
    HuffmanCode.make 0x3ffffe0 26 0xc0, HuffmanCode.make 0x3ffffe1 26 0xc1,
    HuffmanCode.make 0x3ffffe2 26 0xc8, HuffmanCode.make 0x3ffffe3 26 0xc9,
    HuffmanCode.make 0x3ffffe4 26 0xca, HuffmanCode.make 0x3ffffe5 26 0xcd,
    HuffmanCode.make 0x3ffffe6 26 0xd2, HuffmanCode.make 0x3ffffe7 26 0xd5,
    HuffmanCode.make 0x3ffffe8 26 0xda, HuffmanCode.make 0x3ffffe9 26 0xdb,
    HuffmanCode.make 0x3ffffea 26 0xee, HuffmanCode.make 0x3ffffeb 26 0xf0,
    HuffmanCode.make 0x3ffffec 26 0xf2, HuffmanCode.make 0x3ffffed 26 0xf3,
    HuffmanCode.make 0x3ffffee 26 0xff, HuffmanCode.make 0x7ffffde 27 0xcb,
    HuffmanCode.make 0x7ffffdf 27 0xcc, HuffmanCode.make 0x7ffffe0 27 0xd3,
    HuffmanCode.make 0x7ffffe1 27 0xd4, HuffmanCode.make 0x7ffffe2 27 0xd6,
    HuffmanCode.make 0x7ffffe3 27 0xdd, HuffmanCode.make 0x7ffffe4 27 0xde,
    HuffmanCode.make 0x7ffffe5 27 0xdf, HuffmanCode.make 0x7ffffe6 27 0xf1,
    HuffmanCode.make 0x7ffffe7 27 0xf4, HuffmanCode.make 0x7ffffe8 27 0xf5,
    HuffmanCode.make 0x7ffffe9 27 0xf6, HuffmanCode.make 0x7ffffea 27 0xf7,
    HuffmanCode.make 0x7ffffeb 27 0xf8, HuffmanCode.make 0x7ffffec 27 0xfa,
    HuffmanCode.make 0x7ffffed 27 0xfb, HuffmanCode.make 0x7ffffee 27 0xfc,
    HuffmanCode.make 0x7ffffef 27 0xfd, HuffmanCode.make 0x7fffff0 27 0xfe,
    HuffmanCode.make 0xfffffe2 28 0x02, HuffmanCode.make 0xfffffe3 28 0x03,
    HuffmanCode.make 0xfffffe4 28 0x04, HuffmanCode.make 0xfffffe5 28 0x05,
    HuffmanCode.make 0xfffffe6 28 0x06, HuffmanCode.make 0xfffffe7 28 0x07,
    HuffmanCode.make 0xfffffe8 28 0x08, HuffmanCode.make 0xfffffe9 28 0x0b,
    HuffmanCode.make 0xfffffea 28 0x0c, HuffmanCode.make 0xfffffeb 28 0x0e,
    HuffmanCode.make 0xfffffec 28 0x0f, HuffmanCode.make 0xfffffed 28 0x10,
    HuffmanCode.make 0xfffffee 28 0x11, HuffmanCode.make 0xfffffef 28 0x12,
    HuffmanCode.make 0xffffff0 28 0x13, HuffmanCode.make 0xffffff1 28 0x14,
    HuffmanCode.make 0xffffff2 28 0x15, HuffmanCode.make 0xffffff3 28 0x17,
    HuffmanCode.make 0xffffff4 28 0x18, HuffmanCode.make 0xffffff5 28 0x19,
    HuffmanCode.make 0xffffff6 28 0x1a, HuffmanCode.make 0xffffff7 28 0x1b,
    HuffmanCode.make 0xffffff8 28 0x1c, HuffmanCode.make 0xffffff9 28 0x1d,
    HuffmanCode.make 0xffffffa 28 0x1e, HuffmanCode.make 0xffffffb 28 0x1f,
    HuffmanCode.make 0xffffffc 28 0x7f, HuffmanCode.make 0xffffffd 28 0xdc,
    HuffmanCode.make 0xffffffe 28 0xf9]"

definition HUFFMAN_CODES :: "HuffmanCode list" where
  "HUFFMAN_CODES = HUFFMAN_CODES_short @ HUFFMAN_CODES_mid @ HUFFMAN_CODES_long"

definition HUFFMAN_CODES_SIZE :: nat where
  "HUFFMAN_CODES_SIZE = length HUFFMAN_CODES"

section \<open>Facts evaluated on the table\<close>

text \<open>A code as the interval of the 28-bit strings that start with it.\<close>

definition hc_lo :: "HuffmanCode \<Rightarrow> nat" where
  "hc_lo h = unat (hc_code h) * 2 ^ (28 - hc_bits h)"

definition hc_hi :: "HuffmanCode \<Rightarrow> nat" where
  "hc_hi h = (unat (hc_code h) + 1) * 2 ^ (28 - hc_bits h)"

definition hc_ok :: "HuffmanCode \<Rightarrow> bool" where
  "hc_ok h \<longleftrightarrow> 5 \<le> hc_bits h \<and> hc_bits h \<le> 28 \<and> unat (hc_code h) < 2 ^ hc_bits h
     \<and> (hc_bits h \<le> 7 \<longrightarrow> unat (hc_code h) \<noteq> 2 ^ hc_bits h - 1)"

text \<open>
  The codes of the table are not a prefix code: the 20-bit codes of the entries for 0xe0 and
  0xe2 are prefixes of the 21-bit codes of the entries for 0x99, 0xa1, 0xa7 and 0xac.
  \<open>shadowed_syms\<close> names these four bytes, and \<open>codes_separated\<close> checks that the
  interval of every other entry lies above the intervals of all entries before it.
\<close>

definition shadowed_syms :: "u8 list" where
  "shadowed_syms = [0x99, 0xa1, 0xa7, 0xac]"

fun codes_separated :: "nat \<Rightarrow> HuffmanCode list \<Rightarrow> bool" where
  "codes_separated m [] = True"
| "codes_separated m (h # hs) =
     ((hc_sym h \<in> set shadowed_syms \<or> m \<le> hc_lo h) \<and> codes_separated (max m (hc_hi h)) hs)"

lemma HUFFMAN_CODES_SIZE_eq: "HUFFMAN_CODES_SIZE = 253"
  by (simp add: HUFFMAN_CODES_SIZE_def HUFFMAN_CODES_def HUFFMAN_CODES_short_def
      HUFFMAN_CODES_mid_def HUFFMAN_CODES_long_def)

lemma hc_ok_parts:
  "list_all hc_ok HUFFMAN_CODES_short" "list_all hc_ok HUFFMAN_CODES_mid"
  "list_all hc_ok HUFFMAN_CODES_long"
  by (simp_all add: HUFFMAN_CODES_short_def HUFFMAN_CODES_mid_def HUFFMAN_CODES_long_def
      HuffmanCode.defs hc_ok_def)

lemma HUFFMAN_CODES_ok: "list_all hc_ok HUFFMAN_CODES"
  using hc_ok_parts by (simp add: HUFFMAN_CODES_def)

lemma HUFFMAN_CODES_separated: "codes_separated 0 HUFFMAN_CODES"
  by (simp add: HUFFMAN_CODES_def HUFFMAN_CODES_short_def HUFFMAN_CODES_mid_def
      HUFFMAN_CODES_long_def HuffmanCode.defs hc_hi_def hc_lo_def shadowed_syms_def)

lemma HUFFMAN_CODES_syms:
  "map (\<lambda>h. unat (hc_sym h)) HUFFMAN_CODES =
    [48, 49, 50, 97, 99, 101, 105, 111, 115, 116, 32, 37, 45, 46, 47, 51, 52, 53, 
     54, 55, 56, 57, 61, 65, 95, 98, 100, 102, 103, 104, 108, 109, 110, 112, 114, 
     117, 58, 66, 67, 68, 69, 70, 71, 72, 73, 74, 75, 76, 77, 78, 79, 80, 81, 82, 
     83, 84, 85, 86, 87, 89, 106, 107, 113, 118, 119, 120, 121, 122, 38, 42, 44, 59, 
     88, 90, 33, 34, 40, 41, 63, 39, 43, 124, 35, 62, 0, 36, 64, 91, 93, 126, 94, 
     125, 60, 96, 123, 92, 195, 208, 128, 130, 131, 162, 184, 194, 224, 226, 153, 
     161, 167, 172, 176, 177, 179, 209, 216, 217, 227, 229, 230, 129, 132, 133, 134, 
     136, 146, 154, 156, 160, 163, 164, 169, 170, 173, 178, 181, 185, 186, 187, 189, 
     190, 196, 198, 228, 232, 233, 1, 135, 137, 138, 139, 140, 141, 143, 147, 149, 
     150, 151, 152, 155, 157, 158, 165, 166, 168, 174, 175, 180, 182, 183, 188, 191, 
     197, 231, 239, 9, 142, 144, 145, 148, 159, 171, 206, 215, 225, 236, 237, 199, 
     207, 234, 235, 192, 193, 200, 201, 202, 205, 210, 213, 218, 219, 238, 240, 242, 
     243, 255, 203, 204, 211, 212, 214, 221, 222, 223, 241, 244, 245, 246, 247, 248, 
     250, 251, 252, 253, 254, 2, 3, 4, 5, 6, 7, 8, 11, 12, 14, 15, 16, 17, 18, 19, 
     20, 21, 23, 24, 25, 26, 27, 28, 29, 30, 31, 127, 220, 249]"
  by (simp add: HUFFMAN_CODES_def HUFFMAN_CODES_short_def HUFFMAN_CODES_mid_def
      HUFFMAN_CODES_long_def HuffmanCode.defs)

text \<open>
  The table holds one code for every byte but three: the 30-bit codes of the bytes 10, 13
  and 22 are not in it.
\<close>

lemma HUFFMAN_CODES_distinct: "distinct (map (\<lambda>h. unat (hc_sym h)) HUFFMAN_CODES)"
  unfolding HUFFMAN_CODES_syms by simp

lemma HUFFMAN_CODES_missing: "{10, 13, 22} \<inter> set (map (\<lambda>h. unat (hc_sym h)) HUFFMAN_CODES) = {}"
  unfolding HUFFMAN_CODES_syms by simp

lemma HUFFMAN_CODES_complete: "set (map (\<lambda>h. unat (hc_sym h)) HUFFMAN_CODES) = {..<256} - {10, 13, 22}"
proof (rule card_subset_eq)
  show "set (map (\<lambda>h. unat (hc_sym h)) HUFFMAN_CODES) \<subseteq> {..<256} - {10, 13, 22}"
    using HUFFMAN_CODES_missing by auto
  have "card (set (map (\<lambda>h. unat (hc_sym h)) HUFFMAN_CODES)) = HUFFMAN_CODES_SIZE"
    by (simp only: distinct_card [OF HUFFMAN_CODES_distinct] length_map HUFFMAN_CODES_SIZE_def)
  then show "card (set (map (\<lambda>h. unat (hc_sym h)) HUFFMAN_CODES)) = card ({..<256} - {10, 13, 22 :: nat})"
    by (simp add: HUFFMAN_CODES_SIZE_eq card_Diff_subset)
qed simp

end
