(* ===== verification/HuffmanRfc.thy ===== *)
theory HuffmanRfc
  imports HuffmanTable
begin

text \<open>
  The Huffman code of RFC 7541, Appendix B, on its own, and how far the table of \<open>src/http3/Http3Protocol.cpp\<close> is that
  code.  The code is canonical: its symbols are ordered by the length of their codes and then by their value, the codes
  are consecutive numbers, and at each longer length the next number is shifted to that length.  The last symbol of the RFC,
  the end of a string, is not a byte and never sent.
\<close>

section \<open>The code\<close>

definition rfc7541_lengths :: "(nat \<times> nat list) list" where
  "rfc7541_lengths = [
    (5, [48, 49, 50, 97, 99, 101, 105, 111, 115, 116]),
    (6, [32, 37, 45, 46, 47, 51, 52, 53, 54, 55, 56, 57, 61, 65, 95, 98, 100, 102, 103, 104, 108, 109, 110,
      112, 114, 117]),
    (7, [58, 66, 67, 68, 69, 70, 71, 72, 73, 74, 75, 76, 77, 78, 79, 80, 81, 82, 83, 84, 85, 86, 87, 89, 106,
      107, 113, 118, 119, 120, 121, 122]),
    (8, [38, 42, 44, 59, 88, 90]),
    (10, [33, 34, 40, 41, 63]),
    (11, [39, 43, 124]),
    (12, [35, 62]),
    (13, [0, 36, 64, 91, 93, 126]),
    (14, [94, 125]),
    (15, [60, 96, 123]),
    (19, [92, 195, 208]),
    (20, [128, 130, 131, 162, 184, 194, 224, 226]),
    (21, [153, 161, 167, 172, 176, 177, 179, 209, 216, 217, 227, 229, 230]),
    (22, [129, 132, 133, 134, 136, 146, 154, 156, 160, 163, 164, 169, 170, 173, 178, 181, 185, 186, 187, 189,
      190, 196, 198, 228, 232, 233]),
    (23, [1, 135, 137, 138, 139, 140, 141, 143, 147, 149, 150, 151, 152, 155, 157, 158, 165, 166, 168, 174,
      175, 180, 182, 183, 188, 191, 197, 231, 239]),
    (24, [9, 142, 144, 145, 148, 159, 171, 206, 215, 225, 236, 237]),
    (25, [199, 207, 234, 235]),
    (26, [192, 193, 200, 201, 202, 205, 210, 213, 218, 219, 238, 240, 242, 243, 255]),
    (27, [203, 204, 211, 212, 214, 221, 222, 223, 241, 244, 245, 246, 247, 248, 250, 251, 252, 253, 254]),
    (28, [2, 3, 4, 5, 6, 7, 8, 11, 12, 14, 15, 16, 17, 18, 19, 20, 21, 23, 24, 25, 26, 27, 28, 29, 30, 31,
      127, 220, 249]),
    (30, [10, 13, 22])]"

fun canonical_codes :: "nat \<Rightarrow> nat \<Rightarrow> (nat \<times> nat list) list \<Rightarrow> (nat \<times> nat \<times> nat) list" where
  "canonical_codes code n [] = []"
| "canonical_codes code n ((k, []) # gs) = canonical_codes code n gs"
| "canonical_codes code n ((k, s # ss) # gs) =
     (let c = code * 2 ^ (k - n) in (s, c, k) # canonical_codes (c + 1) k ((k, ss) # gs))"

text \<open>Each byte with its code and the length of it.\<close>

definition rfc7541_codes :: "(nat \<times> nat \<times> nat) list" where
  "rfc7541_codes = canonical_codes 0 0 rfc7541_lengths"

definition code_of_sym :: "u8 \<Rightarrow> bool list" where
  "code_of_sym s = (case map_of rfc7541_codes (unat s) of Some (c, n) \<Rightarrow> bits_of_nat n c | None \<Rightarrow> [])"

section \<open>The table of the source\<close>

text \<open>
  The bytes that the decoder of the source does not read: three that its table lacks, ten that the table gives another code, and
  the four whose codes the table has and shadows.
\<close>

definition misread_codes :: "nat list" where
  "misread_codes = [128, 130, 131, 162, 184, 194, 195, 208, 224, 226]"

definition misread_bytes :: "nat list" where
  "misread_bytes = [10, 13, 22] @ misread_codes @ [153, 161, 167, 172]"

definition table_entry :: "HuffmanCode \<Rightarrow> nat \<times> nat \<times> nat" where
  "table_entry h = (unat (hc_sym h), unat (hc_code h), hc_bits h)"

text \<open>All other entries are those of the RFC.\<close>

lemma rfc7541_codes_eq:
  "rfc7541_codes = [
    (48, 0x0, 5), (49, 0x1, 5), (50, 0x2, 5), (97, 0x3, 5), (99, 0x4, 5), (101, 0x5, 5), (105, 0x6, 5), (111, 0x7, 5),
    (115, 0x8, 5), (116, 0x9, 5), (32, 0x14, 6), (37, 0x15, 6), (45, 0x16, 6), (46, 0x17, 6), (47, 0x18, 6), (51, 0x19, 6),
    (52, 0x1a, 6), (53, 0x1b, 6), (54, 0x1c, 6), (55, 0x1d, 6), (56, 0x1e, 6), (57, 0x1f, 6), (61, 0x20, 6), (65, 0x21, 6),
    (95, 0x22, 6), (98, 0x23, 6), (100, 0x24, 6), (102, 0x25, 6), (103, 0x26, 6), (104, 0x27, 6), (108, 0x28, 6),
    (109, 0x29, 6), (110, 0x2a, 6), (112, 0x2b, 6), (114, 0x2c, 6), (117, 0x2d, 6), (58, 0x5c, 7), (66, 0x5d, 7),
    (67, 0x5e, 7), (68, 0x5f, 7), (69, 0x60, 7), (70, 0x61, 7), (71, 0x62, 7), (72, 0x63, 7), (73, 0x64, 7), (74, 0x65, 7),
    (75, 0x66, 7), (76, 0x67, 7), (77, 0x68, 7), (78, 0x69, 7), (79, 0x6a, 7), (80, 0x6b, 7), (81, 0x6c, 7), (82, 0x6d, 7),
    (83, 0x6e, 7), (84, 0x6f, 7), (85, 0x70, 7), (86, 0x71, 7), (87, 0x72, 7), (89, 0x73, 7), (106, 0x74, 7), (107, 0x75, 7),
    (113, 0x76, 7), (118, 0x77, 7), (119, 0x78, 7), (120, 0x79, 7), (121, 0x7a, 7), (122, 0x7b, 7), (38, 0xf8, 8),
    (42, 0xf9, 8), (44, 0xfa, 8), (59, 0xfb, 8), (88, 0xfc, 8), (90, 0xfd, 8), (33, 0x3f8, 10), (34, 0x3f9, 10),
    (40, 0x3fa, 10), (41, 0x3fb, 10), (63, 0x3fc, 10), (39, 0x7fa, 11), (43, 0x7fb, 11), (124, 0x7fc, 11), (35, 0xffa, 12),
    (62, 0xffb, 12), (0, 0x1ff8, 13), (36, 0x1ff9, 13), (64, 0x1ffa, 13), (91, 0x1ffb, 13), (93, 0x1ffc, 13),
    (126, 0x1ffd, 13), (94, 0x3ffc, 14), (125, 0x3ffd, 14), (60, 0x7ffc, 15), (96, 0x7ffd, 15), (123, 0x7ffe, 15),
    (92, 0x7fff0, 19), (195, 0x7fff1, 19), (208, 0x7fff2, 19), (128, 0xfffe6, 20), (130, 0xfffe7, 20), (131, 0xfffe8, 20),
    (162, 0xfffe9, 20), (184, 0xfffea, 20), (194, 0xfffeb, 20), (224, 0xfffec, 20), (226, 0xfffed, 20), (153, 0x1fffdc, 21),
    (161, 0x1fffdd, 21), (167, 0x1fffde, 21), (172, 0x1fffdf, 21), (176, 0x1fffe0, 21), (177, 0x1fffe1, 21),
    (179, 0x1fffe2, 21), (209, 0x1fffe3, 21), (216, 0x1fffe4, 21), (217, 0x1fffe5, 21), (227, 0x1fffe6, 21),
    (229, 0x1fffe7, 21), (230, 0x1fffe8, 21), (129, 0x3fffd2, 22), (132, 0x3fffd3, 22), (133, 0x3fffd4, 22),
    (134, 0x3fffd5, 22), (136, 0x3fffd6, 22), (146, 0x3fffd7, 22), (154, 0x3fffd8, 22), (156, 0x3fffd9, 22),
    (160, 0x3fffda, 22), (163, 0x3fffdb, 22), (164, 0x3fffdc, 22), (169, 0x3fffdd, 22), (170, 0x3fffde, 22),
    (173, 0x3fffdf, 22), (178, 0x3fffe0, 22), (181, 0x3fffe1, 22), (185, 0x3fffe2, 22), (186, 0x3fffe3, 22),
    (187, 0x3fffe4, 22), (189, 0x3fffe5, 22), (190, 0x3fffe6, 22), (196, 0x3fffe7, 22), (198, 0x3fffe8, 22),
    (228, 0x3fffe9, 22), (232, 0x3fffea, 22), (233, 0x3fffeb, 22), (1, 0x7fffd8, 23), (135, 0x7fffd9, 23),
    (137, 0x7fffda, 23), (138, 0x7fffdb, 23), (139, 0x7fffdc, 23), (140, 0x7fffdd, 23), (141, 0x7fffde, 23),
    (143, 0x7fffdf, 23), (147, 0x7fffe0, 23), (149, 0x7fffe1, 23), (150, 0x7fffe2, 23), (151, 0x7fffe3, 23),
    (152, 0x7fffe4, 23), (155, 0x7fffe5, 23), (157, 0x7fffe6, 23), (158, 0x7fffe7, 23), (165, 0x7fffe8, 23),
    (166, 0x7fffe9, 23), (168, 0x7fffea, 23), (174, 0x7fffeb, 23), (175, 0x7fffec, 23), (180, 0x7fffed, 23),
    (182, 0x7fffee, 23), (183, 0x7fffef, 23), (188, 0x7ffff0, 23), (191, 0x7ffff1, 23), (197, 0x7ffff2, 23),
    (231, 0x7ffff3, 23), (239, 0x7ffff4, 23), (9, 0xffffea, 24), (142, 0xffffeb, 24), (144, 0xffffec, 24),
    (145, 0xffffed, 24), (148, 0xffffee, 24), (159, 0xffffef, 24), (171, 0xfffff0, 24), (206, 0xfffff1, 24),
    (215, 0xfffff2, 24), (225, 0xfffff3, 24), (236, 0xfffff4, 24), (237, 0xfffff5, 24), (199, 0x1ffffec, 25),
    (207, 0x1ffffed, 25), (234, 0x1ffffee, 25), (235, 0x1ffffef, 25), (192, 0x3ffffe0, 26), (193, 0x3ffffe1, 26),
    (200, 0x3ffffe2, 26), (201, 0x3ffffe3, 26), (202, 0x3ffffe4, 26), (205, 0x3ffffe5, 26), (210, 0x3ffffe6, 26),
    (213, 0x3ffffe7, 26), (218, 0x3ffffe8, 26), (219, 0x3ffffe9, 26), (238, 0x3ffffea, 26), (240, 0x3ffffeb, 26),
    (242, 0x3ffffec, 26), (243, 0x3ffffed, 26), (255, 0x3ffffee, 26), (203, 0x7ffffde, 27), (204, 0x7ffffdf, 27),
    (211, 0x7ffffe0, 27), (212, 0x7ffffe1, 27), (214, 0x7ffffe2, 27), (221, 0x7ffffe3, 27), (222, 0x7ffffe4, 27),
    (223, 0x7ffffe5, 27), (241, 0x7ffffe6, 27), (244, 0x7ffffe7, 27), (245, 0x7ffffe8, 27), (246, 0x7ffffe9, 27),
    (247, 0x7ffffea, 27), (248, 0x7ffffeb, 27), (250, 0x7ffffec, 27), (251, 0x7ffffed, 27), (252, 0x7ffffee, 27),
    (253, 0x7ffffef, 27), (254, 0x7fffff0, 27), (2, 0xfffffe2, 28), (3, 0xfffffe3, 28), (4, 0xfffffe4, 28),
    (5, 0xfffffe5, 28), (6, 0xfffffe6, 28), (7, 0xfffffe7, 28), (8, 0xfffffe8, 28), (11, 0xfffffe9, 28), (12, 0xfffffea, 28),
    (14, 0xfffffeb, 28), (15, 0xfffffec, 28), (16, 0xfffffed, 28), (17, 0xfffffee, 28), (18, 0xfffffef, 28),
    (19, 0xffffff0, 28), (20, 0xffffff1, 28), (21, 0xffffff2, 28), (23, 0xffffff3, 28), (24, 0xffffff4, 28),
    (25, 0xffffff5, 28), (26, 0xffffff6, 28), (27, 0xffffff7, 28), (28, 0xffffff8, 28), (29, 0xffffff9, 28),
    (30, 0xffffffa, 28), (31, 0xffffffb, 28), (127, 0xffffffc, 28), (220, 0xffffffd, 28), (249, 0xffffffe, 28),
    (10, 0x3ffffffc, 30), (13, 0x3ffffffd, 30), (22, 0x3ffffffe, 30)]"
  by (simp add: rfc7541_codes_def rfc7541_lengths_def)

lemma rfc7541_distinct: "distinct (map fst rfc7541_codes)"
  by (simp add: rfc7541_codes_eq)

text \<open>
  Entry by entry, the table of the source is that of the RFC exactly but for the ten bytes of \<open>misread_codes\<close>.
\<close>

lemma table_agrees:
  "list_all2 (\<lambda>h e. table_entry h = e \<longleftrightarrow> unat (hc_sym h) \<notin> set misread_codes) HUFFMAN_CODES (take 253 rfc7541_codes)"
  by (simp add: rfc7541_codes_eq misread_codes_def table_entry_def HUFFMAN_CODES_def HUFFMAN_CODES_short_def
      HUFFMAN_CODES_mid_def HUFFMAN_CODES_long_def HuffmanCode.defs)

lemma code_of_sym_entry:
  assumes "unat s \<notin> set misread_bytes"
  obtains h where "h \<in> set HUFFMAN_CODES" "hc_sym h = s" "code_of_sym s = bits_of_nat (hc_bits h) (unat (hc_code h))"
proof -
  have "unat s < 256" "unat s \<notin> {10, 13, 22}" using assms by (auto simp: misread_bytes_def)
  then have "unat s \<in> set (map (\<lambda>h. unat (hc_sym h)) HUFFMAN_CODES)"
    unfolding HUFFMAN_CODES_complete by simp
  then obtain i where i: "i < length HUFFMAN_CODES" "unat (hc_sym (HUFFMAN_CODES ! i)) = unat s"
    by (auto simp: in_set_conv_nth)
  let ?h = "HUFFMAN_CODES ! i"
  have "table_entry ?h = take 253 rfc7541_codes ! i" "i < length (take 253 rfc7541_codes)"
    using table_agrees i assms by (auto simp: list_all2_conv_all_nth misread_bytes_def)
  then have "table_entry ?h \<in> set rfc7541_codes" by (metis in_set_takeD nth_mem)
  then have "map_of rfc7541_codes (unat s) = Some (unat (hc_code ?h), hc_bits ?h)"
    using rfc7541_distinct i(2) by (simp add: table_entry_def)
  then show ?thesis using that [of ?h] i by (simp add: code_of_sym_def word_unat_eq_iff)
qed

end
