(* ===== verification/Huffman.thy ===== *)
theory Huffman
  imports HuffmanRfc
begin

unbundle bit_operations_syntax

text \<open>
  \<open>decodeHuffman\<close> of \<open>src/http3/Http3Protocol.cpp\<close>: the bit accumulator and its refill, the
  search in the code table, and the loop.  The abstract decoder \<open>hdecode\<close> works on the list
  of the bits; the loop is shown to compute it, and the round trip of the codes of the table
  of RFC 7541 is proved on it.  A string of the source (\<open>QString\<close>) is the list of its 16-bit units.
\<close>

type_synonym qstring = "u16 list"

section \<open>Operations\<close>

function refill :: "bytes \<Rightarrow> u64 \<Rightarrow> nat \<Rightarrow> nat \<Rightarrow> u64 \<times> nat \<times> nat" where
  "refill data accum bits bytePos =
     (if bits < 32 \<and> bytePos < length data
      then refill data (push_bit 8 accum OR ucast (data ! bytePos)) (bits + 8) (bytePos + 1)
      else (accum, bits, bytePos))"
  by pat_completeness auto
termination
  by (relation "measure (\<lambda>(data, accum, bits, bytePos). length data - bytePos)") auto

declare refill.simps [simp del]

fun find_code :: "HuffmanCode list \<Rightarrow> u64 \<Rightarrow> nat \<Rightarrow> HuffmanCode option" where
  "find_code [] accum bits = None"
| "find_code (h # hs) accum bits =
     (if bits < hc_bits h then find_code hs accum bits
      else if (ucast (drop_bit (bits - hc_bits h) accum) AND (mask (hc_bits h) :: u32)) = hc_code h
      then Some h
      else find_code hs accum bits)"

lemma refill_measure:
  "refill data accum bits bytePos = (accum', bits', bytePos') \<Longrightarrow>
    8 * (length data - bytePos') + bits' = 8 * (length data - bytePos) + bits"
  by (induction data accum bits bytePos rule: refill.induct)
    (subst (asm) (2) refill.simps, auto split: if_splits)

lemma find_code_in_table: "find_code hs accum bits = Some h \<Longrightarrow> h \<in> set hs \<and> hc_bits h \<le> bits"
  by (induction hs) (auto split: if_splits)

lemma table_bits:
  assumes "h \<in> set HUFFMAN_CODES"
  shows "5 \<le> hc_bits h" "hc_bits h \<le> 28" "unat (hc_code h) < 2 ^ hc_bits h"
    "hc_bits h \<le> 7 \<Longrightarrow> unat (hc_code h) \<noteq> 2 ^ hc_bits h - 1"
  using HUFFMAN_CODES_ok assms by (auto simp: list_all_iff hc_ok_def)

function decodeHuffman_loop :: "bytes \<Rightarrow> qstring \<Rightarrow> u64 \<Rightarrow> nat \<Rightarrow> nat \<Rightarrow> qstring" where
  "decodeHuffman_loop data result accum0 bits0 bytePos0 =
     (if bytePos0 < length data \<or> 5 \<le> bits0 then
        (case refill data accum0 bits0 bytePos0 of (accum, bits, bytePos) \<Rightarrow>
          if bits < 5 then result
          else (case find_code HUFFMAN_CODES accum bits of
              Some h \<Rightarrow>
                decodeHuffman_loop data (result @ [ucast (hc_sym h)])
                  (accum AND mask (bits - hc_bits h)) (bits - hc_bits h) bytePos
            | None \<Rightarrow>
                if bits \<le> 7 \<and> (ucast (accum AND mask bits) :: u32) = mask bits then result
                else decodeHuffman_loop data result
                  (if 0 < bits - 1 then accum AND mask (bits - 1) else accum)
                  (bits - 1) bytePos))
      else result)"
  by pat_completeness auto
termination
proof (relation "measure (\<lambda>(data, result, accum, bits, bytePos).
    8 * (length data - bytePos) + bits)", goal_cases)
  case 1
  then show ?case by simp
next
  case (2 data result accum0 bits0 bytePos0 accum p bits bytePos)
  then show ?case
    using refill_measure [of data accum0 bits0 bytePos0 accum bits bytePos] by auto
next
  case (3 data result accum0 bits0 bytePos0 accum p bits bytePos h)
  then show ?case
    using refill_measure [of data accum0 bits0 bytePos0 accum bits bytePos]
      find_code_in_table [of HUFFMAN_CODES accum bits h] table_bits(1) [of h]
    by auto
qed

declare decodeHuffman_loop.simps [simp del]

definition decodeHuffman :: "bytes \<Rightarrow> qstring" where
  "decodeHuffman data = decodeHuffman_loop data [] 0 0 0"

section \<open>The decoder on bit lists\<close>

definition hmatch :: "bool list \<Rightarrow> HuffmanCode \<Rightarrow> bool" where
  "hmatch l h \<longleftrightarrow> hc_bits h \<le> length l \<and> nat_of_bits (take (hc_bits h) l) = unat (hc_code h)"

function hdecode :: "bool list \<Rightarrow> u8 list" where
  "hdecode l =
     (if length l < 5 then []
      else (case find (hmatch l) HUFFMAN_CODES of
          Some h \<Rightarrow> hc_sym h # hdecode (drop (hc_bits h) l)
        | None \<Rightarrow> if length l \<le> 7 \<and> list_all id l then [] else hdecode (tl l)))"
  by pat_completeness auto
termination
proof (relation "measure length", goal_cases)
  case (3 l h)
  then have "h \<in> set HUFFMAN_CODES" by (auto simp: find_Some_iff)
  then show ?case using 3 table_bits(1) [of h] by simp
qed auto

declare hdecode.simps [simp del]

lemma hdecode_short: "length l < 5 \<Longrightarrow> hdecode l = []"
  by (subst hdecode.simps) simp

lemma hdecode_Some:
  "5 \<le> length l \<Longrightarrow> find (hmatch l) HUFFMAN_CODES = Some h \<Longrightarrow>
    hdecode l = hc_sym h # hdecode (drop (hc_bits h) l)"
  by (subst hdecode.simps) simp

lemma hdecode_None:
  "5 \<le> length l \<Longrightarrow> find (hmatch l) HUFFMAN_CODES = None \<Longrightarrow>
    hdecode l = (if length l \<le> 7 \<and> list_all id l then [] else hdecode (tl l))"
  by (subst hdecode.simps) simp

section \<open>The loop computes the abstract decoder\<close>

text \<open>The bits still to be decoded: those of the accumulator, then those of the unread bytes.\<close>

definition pending :: "bytes \<Rightarrow> u64 \<Rightarrow> nat \<Rightarrow> nat \<Rightarrow> bool list" where
  "pending data accum bits bytePos =
     bits_of_nat bits (unat accum) @ bits_of_bytes (drop bytePos data)"

definition accum_ok :: "u64 \<Rightarrow> nat \<Rightarrow> bool" where
  "accum_ok accum bits \<longleftrightarrow> unat accum < 2 ^ bits \<and> bits \<le> 39"

lemma unat_append_byte:
  assumes "unat accum < 2 ^ bits" and "bits < 32"
  shows "unat (push_bit 8 accum OR ucast (b :: u8) :: u64) = unat accum * 256 + unat b"
proof -
  have tb: "take_bit 8 (ucast b :: u64) = ucast b"
    by (intro bit_word_eqI) (auto simp: bit_simps dest: bit_imp_le_length)
  have "\<not> bit (ucast b :: u64) n" if "8 \<le> n" for n
    using that tb by (metis bit_take_bit_iff linorder_not_less)
  then have "push_bit 8 accum AND ucast b = 0"
    by (intro bit_eqI) (auto simp: bit_simps)
  then have "push_bit 8 accum OR ucast b = push_bit 8 accum + ucast b"
    by (simp add: disjunctive_add_eq_or)
  also have "\<dots> = of_nat (unat accum * 256 + unat b)"
    by (simp add: push_bit_eq_mult mult.commute)
  finally have eq: "push_bit 8 accum OR ucast b = of_nat (unat accum * 256 + unat b)" .
  have "(2 :: nat) ^ bits \<le> 2 ^ 32" using assms(2) by (intro power_increasing) simp_all
  then have "unat accum < 4294967296" using assms(1) by simp
  moreover have "unat b < 256" by simp
  ultimately have "unat accum * 256 + unat b < 18446744073709551616" by linarith
  then show ?thesis
    by (simp add: eq unat_of_nat del: of_nat_add of_nat_mult)
qed

lemma refill_pending:
  assumes "refill data accum bits bytePos = (accum', bits', bytePos')" and "accum_ok accum bits"
  shows "pending data accum' bits' bytePos' = pending data accum bits bytePos
    \<and> accum_ok accum' bits' \<and> (length data \<le> bytePos' \<or> 32 \<le> bits')"
  using assms
proof (induction data accum bits bytePos rule: refill.induct)
  case (1 data accum bits bytePos)
  show ?case
  proof (cases "bits < 32 \<and> bytePos < length data")
    case True
    let ?b = "data ! bytePos" and ?a = "push_bit 8 accum OR ucast (data ! bytePos) :: u64"
    have a: "unat ?a = unat accum * 256 + unat ?b"
      using "1.prems"(2) True unat_append_byte [of accum bits ?b] by (simp add: accum_ok_def)
    have "unat accum * 256 + 256 \<le> 2 ^ bits * 256"
      using "1.prems"(2) by (simp add: accum_ok_def Suc_leI)
    then have "unat accum * 256 + unat ?b < 2 ^ bits * 256"
      using unat_u8_less [of ?b] by linarith
    then have ok: "accum_ok ?a (bits + 8)"
      using True by (simp add: accum_ok_def a power_add)
    have "drop bytePos data = ?b # drop (Suc bytePos) data"
      using True by (simp add: Cons_nth_drop_Suc)
    then have "pending data ?a (bits + 8) (bytePos + 1) = pending data accum bits bytePos"
      by (simp add: pending_def a bits_of_nat_append_byte)
    moreover have "refill data ?a (bits + 8) (bytePos + 1) = (accum', bits', bytePos')"
      using "1.prems"(1) True by (subst (asm) refill.simps) simp
    ultimately show ?thesis using "1.IH" [OF True] ok by simp
  next
    case False
    then show ?thesis using "1.prems" by (subst (asm) refill.simps) auto
  qed
qed

lemma unat_code_bits:
  assumes "unat accum < 2 ^ bits" and "b \<le> bits" and "b \<le> 32"
  shows "unat (ucast (drop_bit (bits - b) (accum :: u64)) AND mask b :: u32) =
    unat accum div 2 ^ (bits - b)"
proof -
  have "(2 :: nat) ^ bits = 2 ^ b * 2 ^ (bits - b)"
    using assms(2) by (simp add: power_add [symmetric])
  then have small: "unat accum div 2 ^ (bits - b) < 2 ^ b"
    using assms(1) by (metis less_mult_imp_div_less)
  then have "unat accum div 2 ^ (bits - b) < 2 ^ 32"
    using assms(3) by (meson less_le_trans power_increasing one_le_numeral)
  with small show ?thesis
    by (simp add: take_bit_eq_mask [symmetric] unsigned_take_bit_eq unsigned_ucast_eq
        unat_drop_bit_eq take_bit_eq_mod [where ?'a = nat] drop_bit_eq_div [where ?'a = nat])
qed

lemma find_code_hmatch:
  assumes "accum_ok accum bits" and "list_all hc_ok hs"
  shows "find_code hs accum bits = find (hmatch (bits_of_nat bits (unat accum))) hs"
  using assms(2)
proof (induction hs)
  case (Cons h hs)
  have ok: "hc_bits h \<le> 28" using Cons.prems by (simp add: hc_ok_def)
  have "hmatch (bits_of_nat bits (unat accum)) h \<longleftrightarrow>
      hc_bits h \<le> bits \<and>
      (ucast (drop_bit (bits - hc_bits h) accum) AND mask (hc_bits h) :: u32) = hc_code h"
  proof (cases "hc_bits h \<le> bits")
    case True
    have acc: "unat accum < 2 ^ bits" using assms(1) by (simp add: accum_ok_def)
    have "(2 :: nat) ^ bits = 2 ^ hc_bits h * 2 ^ (bits - hc_bits h)"
      using True by (simp add: power_add [symmetric])
    then have "unat accum div 2 ^ (bits - hc_bits h) < 2 ^ hc_bits h"
      using acc by (metis less_mult_imp_div_less)
    then show ?thesis
      using True ok unat_code_bits [OF acc True]
      by (simp add: hmatch_def take_bits_of_nat nat_of_bits_of_nat word_unat_eq_iff)
  qed (simp add: hmatch_def)
  with Cons show ?case by auto
qed simp

lemma hmatch_append:
  "hc_bits h \<le> length l \<Longrightarrow> hmatch (l @ r) h = hmatch l h"
  by (simp add: hmatch_def)

lemma find_hmatch_append:
  assumes "28 \<le> length l"
  shows "find (hmatch (l @ r)) HUFFMAN_CODES = find (hmatch l) HUFFMAN_CODES"
proof (rule find_cong [OF refl])
  fix h assume "h \<in> set HUFFMAN_CODES"
  then show "hmatch (l @ r) h = hmatch l h"
    using table_bits(2) [of h] assms by (intro hmatch_append) simp
qed

lemma accum_mask:
  assumes "accum_ok accum bits" and "m \<le> bits"
  shows "bits_of_nat m (unat (accum AND mask m)) = drop (bits - m) (bits_of_nat bits (unat accum))"
    and "accum_ok (accum AND mask m) m"
proof -
  have m: "unat (accum AND mask m) = unat accum mod 2 ^ m"
    by (simp add: take_bit_eq_mask [symmetric] unsigned_take_bit_eq take_bit_eq_mod [where ?'a = nat])
  show "bits_of_nat m (unat (accum AND mask m)) = drop (bits - m) (bits_of_nat bits (unat accum))"
    using assms(2) by (simp add: m bits_of_nat_mod drop_bits_of_nat)
  show "accum_ok (accum AND mask m) m"
    using assms by (simp add: accum_ok_def m)
qed

lemma find_code_pending:
  assumes "accum_ok accum bits" and "length data \<le> bytePos \<or> 32 \<le> bits"
  shows "find_code HUFFMAN_CODES accum bits =
    find (hmatch (pending data accum bits bytePos)) HUFFMAN_CODES"
proof -
  have "find_code HUFFMAN_CODES accum bits =
      find (hmatch (bits_of_nat bits (unat accum))) HUFFMAN_CODES"
    using assms(1) HUFFMAN_CODES_ok by (rule find_code_hmatch)
  then show ?thesis
    using assms(2) by (auto simp: pending_def find_hmatch_append)
qed

lemma pending_drop:
  assumes "accum_ok accum bits" and "m \<le> bits"
  shows "pending data (accum AND mask m) m bytePos = drop (bits - m) (pending data accum bits bytePos)"
  using accum_mask(1) [OF assms] assms(2) by (simp add: pending_def)

lemma ones_pending:
  assumes "accum_ok accum bits" and "length data \<le> bytePos \<or> 32 \<le> bits"
  shows "bits \<le> 7 \<and> (ucast (accum AND mask bits) :: u32) = mask bits \<longleftrightarrow>
    length (pending data accum bits bytePos) \<le> 7 \<and> list_all id (pending data accum bits bytePos)"
proof (cases "bits \<le> 7")
  case True
  then have p: "pending data accum bits bytePos = bits_of_nat bits (unat accum)"
    using assms(2) by (auto simp: pending_def)
  have acc: "unat accum < 2 ^ bits" using assms(1) by (simp add: accum_ok_def)
  have "(2 :: nat) ^ bits \<le> 2 ^ 7" using True by (intro power_increasing) simp_all
  then have "unat (ucast (accum AND mask bits) :: u32) = unat accum"
    using acc by (simp add: take_bit_eq_mask [symmetric] unsigned_take_bit_eq unsigned_ucast_eq
        take_bit_eq_mod [where ?'a = nat])
  moreover have "unat (mask bits :: u32) = 2 ^ bits - 1"
    using True unat_mask_word [of bits, where ?'a = 32]
    by (simp add: mask_eq_exp_minus_1 [where ?'a = nat])
  ultimately show ?thesis
    using acc True by (simp add: p list_all_bits_ones nat_of_bits_of_nat word_unat_eq_iff)
next
  case False
  then show ?thesis by (simp add: pending_def)
qed

lemma decodeHuffman_loop_hdecode:
  assumes "accum_ok accum bits"
  shows "decodeHuffman_loop data result accum bits bytePos =
    result @ map ucast (hdecode (pending data accum bits bytePos))"
  using assms
proof (induction data result accum bits bytePos rule: decodeHuffman_loop.induct)
  case (1 data result accum0 bits0 bytePos0)
  obtain accum bits bytePos where r: "refill data accum0 bits0 bytePos0 = (accum, bits, bytePos)"
    by (cases "refill data accum0 bits0 bytePos0")
  let ?l = "pending data accum bits bytePos"
  have l: "pending data accum0 bits0 bytePos0 = ?l" and ok: "accum_ok accum bits"
    and full: "length data \<le> bytePos \<or> 32 \<le> bits"
    using refill_pending [OF r "1.prems"] by simp_all
  consider "\<not> (bytePos0 < length data \<or> 5 \<le> bits0)"
    | "bytePos0 < length data \<or> 5 \<le> bits0" "bits < 5"
    | "bytePos0 < length data \<or> 5 \<le> bits0" "5 \<le> bits" by linarith
  then show ?case
  proof cases
    case 1
    then have "length (pending data accum0 bits0 bytePos0) < 5" by (simp add: pending_def)
    then show ?thesis using 1 by (subst decodeHuffman_loop.simps) (simp add: hdecode_short)
  next
    case 2
    then have "length ?l < 5" using full by (auto simp: pending_def)
    then show ?thesis using 2 r l by (subst decodeHuffman_loop.simps) (simp add: hdecode_short)
  next
    case 3
    have len: "5 \<le> length ?l" using 3(2) by (simp add: pending_def)
    note step = 3(1) r [symmetric] refl
    have fc: "find_code HUFFMAN_CODES accum bits = find (hmatch ?l) HUFFMAN_CODES"
      using ok full by (rule find_code_pending)
    show ?thesis
    proof (cases "find (hmatch ?l) HUFFMAN_CODES")
      case (Some h)
      then have h: "h \<in> set HUFFMAN_CODES" "hc_bits h \<le> bits"
        using fc find_code_in_table [of HUFFMAN_CODES accum bits h] by simp_all
      let ?a = "accum AND mask (bits - hc_bits h)" and ?n = "bits - hc_bits h"
      have "decodeHuffman_loop data (result @ [ucast (hc_sym h)]) ?a ?n bytePos =
          (result @ [ucast (hc_sym h)]) @ map ucast (hdecode (pending data ?a ?n bytePos))"
        using "1.IH" 3 r fc Some accum_mask(2) [OF ok, of ?n] by simp
      then show ?thesis
        using 3 r l fc Some h hdecode_Some [OF len Some] pending_drop [OF ok, of ?n]
        by (subst decodeHuffman_loop.simps) simp
    next
      case None
      let ?a = "accum AND mask (bits - 1)"
      have ones: "bits \<le> 7 \<and> (ucast (accum AND mask bits) :: u32) = mask bits \<longleftrightarrow>
          length ?l \<le> 7 \<and> list_all id ?l"
        using ok full by (rule ones_pending)
      have tl: "pending data ?a (bits - 1) bytePos = tl ?l"
        using pending_drop [OF ok, of "bits - 1"] 3(2) by (simp add: drop_Suc [of 0, symmetric] drop_Suc)
      show ?thesis
      proof (cases "length ?l \<le> 7 \<and> list_all id ?l")
        case True
        then show ?thesis
          using 3 r l fc None ones hdecode_None [OF len None]
          by (subst decodeHuffman_loop.simps) simp
      next
        case False
        then have "decodeHuffman_loop data result ?a (bits - 1) bytePos =
            result @ map ucast (hdecode (tl ?l))"
          using "1.IH" 3 r fc None ones accum_mask(2) [OF ok, of "bits - 1"] tl by simp
        then show ?thesis
          using 3 r l fc None ones False hdecode_None [OF len None]
          by (subst decodeHuffman_loop.simps) auto
      qed
    qed
  qed
qed

lemma decodeHuffman_hdecode:
  "decodeHuffman data = map ucast (hdecode (bits_of_bytes data))"
  using decodeHuffman_loop_hdecode [of 0 0 data "[]" 0]
  by (simp add: decodeHuffman_def accum_ok_def pending_def bits_of_nat_def)

section \<open>Round trip of the codes of the table\<close>

definition code_bits :: "HuffmanCode \<Rightarrow> bool list" where
  "code_bits h = bits_of_nat (hc_bits h) (unat (hc_code h))"

lemma hmatch_code_bits:
  assumes "h \<in> set HUFFMAN_CODES"
  shows "hmatch (code_bits h @ r) h"
  using table_bits(3) [OF assms] by (simp add: hmatch_def code_bits_def nat_of_bits_of_nat)

text \<open>The 28-bit window at the front of a bit list lies in the interval of every code it starts with.\<close>

definition window :: "bool list \<Rightarrow> nat" where
  "window l = nat_of_bits (take 28 (l @ replicate 28 False))"

lemma hmatch_window:
  assumes "hmatch l h" and "hc_bits h \<le> 28"
  shows "hc_lo h \<le> window l \<and> window l < hc_hi h"
proof -
  let ?b = "hc_bits h" and ?w = "take 28 (l @ replicate 28 False)"
  have "take ?b ?w = take ?b l"
    using assms by (simp add: hmatch_def min_def)
  then have w: "?w = take ?b l @ drop ?b ?w"
    using append_take_drop_id [of ?b ?w] by simp
  have len: "length (drop ?b ?w) = 28 - ?b" by simp
  have "window l = nat_of_bits (take ?b l @ drop ?b ?w)"
    unfolding window_def using w by (rule arg_cong)
  then have "window l = nat_of_bits (take ?b l) * 2 ^ (28 - ?b) + nat_of_bits (drop ?b ?w)"
    by (simp only: nat_of_bits_append len)
  moreover have "nat_of_bits (drop ?b ?w) < 2 ^ (28 - ?b)"
    using nat_of_bits_less [of "drop ?b ?w"] by (simp only: len)
  moreover have "nat_of_bits (take ?b l) = unat (hc_code h)"
    using assms(1) by (simp add: hmatch_def)
  ultimately show ?thesis by (simp add: hc_lo_def hc_hi_def)
qed

lemma separated_find:
  assumes "codes_separated m hs" and "h \<in> set hs" and "hc_sym h \<notin> set shadowed_syms"
    and "hmatch l h" and "\<forall>k \<in> set hs. hc_bits k \<le> 28"
  shows "find (hmatch l) hs = Some h \<and> m \<le> window l"
  using assms(1,2,5)
proof (induction hs arbitrary: m)
  case (Cons k hs)
  have kb: "hc_bits k \<le> 28" using Cons.prems(3) by simp
  show ?case
  proof (cases "h \<in> set hs")
    case True
    then have IH: "find (hmatch l) hs = Some h \<and> max m (hc_hi k) \<le> window l"
      using Cons.prems by (intro Cons.IH) simp_all
    then have "\<not> hmatch l k" using hmatch_window [of l k] kb by auto
    with IH show ?thesis by simp
  next
    case False
    then have "k = h" using Cons.prems(2) by simp
    then show ?thesis
      using Cons.prems(1) assms(3,4) hmatch_window [of l h] kb by auto
  qed
qed simp

lemma find_decodable:
  assumes "h \<in> set HUFFMAN_CODES" and "hc_sym h \<notin> set shadowed_syms" and "hmatch l h"
  shows "find (hmatch l) HUFFMAN_CODES = Some h"
  using separated_find [OF HUFFMAN_CODES_separated assms] table_bits(2) by blast

lemma find_ones:
  assumes "k \<le> 7"
  shows "find (hmatch (replicate k True)) HUFFMAN_CODES = None"
proof -
  have "\<not> hmatch (replicate k True) h" if "h \<in> set HUFFMAN_CODES" for h
  proof
    assume m: "hmatch (replicate k True) h"
    then have b: "hc_bits h \<le> k" by (simp add: hmatch_def)
    then have "nat_of_bits (take (hc_bits h) (replicate k True)) = 2 ^ hc_bits h - 1"
      using list_all_bits_ones [of "replicate (hc_bits h) True"]
      by (simp add: min_def list_all_iff)
    then show False
      using m b assms table_bits(4) [OF that] by (simp add: hmatch_def)
  qed
  then show ?thesis by (auto simp: find_None_iff)
qed

lemma hdecode_ones: "k \<le> 7 \<Longrightarrow> hdecode (replicate k True) = []"
  using find_ones [of k] by (subst hdecode.simps) (simp add: list_all_iff)

lemma hdecode_code_bits:
  assumes "h \<in> set HUFFMAN_CODES" and "hc_sym h \<notin> set shadowed_syms"
  shows "hdecode (code_bits h @ r) = hc_sym h # hdecode r"
proof -
  have "find (hmatch (code_bits h @ r)) HUFFMAN_CODES = Some h"
    using assms by (intro find_decodable hmatch_code_bits) simp_all
  moreover have "length (code_bits h) = hc_bits h" by (simp add: code_bits_def)
  ultimately show ?thesis
    using table_bits(1) [OF assms(1)] hdecode_Some [of "code_bits h @ r" h] by simp
qed

lemma hdecode_codes:
  assumes "\<forall>h \<in> set hs. h \<in> set HUFFMAN_CODES \<and> hc_sym h \<notin> set shadowed_syms" and "k \<le> 7"
  shows "hdecode (concat (map code_bits hs) @ replicate k True) = map hc_sym hs"
  using assms by (induction hs) (simp_all add: hdecode_ones hdecode_code_bits)

text \<open>
  The encoder of RFC 7541: the codes of the bytes, padded with ones to whole bytes.
  \<open>huffman_encodable\<close> are the bytes that the table of the source reads as the RFC has them, which are all but seventeen, and
  with them all of ASCII but the line feed, the carriage return and the byte 22.
\<close>

fun pack_bits :: "bool list \<Rightarrow> bytes" where
  "pack_bits (b7 # b6 # b5 # b4 # b3 # b2 # b1 # b0 # bs) =
     of_nat (nat_of_bits [b7, b6, b5, b4, b3, b2, b1, b0]) # pack_bits bs"
| "pack_bits _ = []"

definition huffman_encodable :: "u8 \<Rightarrow> bool" where
  "huffman_encodable s \<longleftrightarrow> unat s \<notin> set misread_bytes"

definition pad_ones :: "bool list \<Rightarrow> bool list" where
  "pad_ones l = l @ replicate ((8 - length l mod 8) mod 8) True"

definition huffman_encode :: "u8 list \<Rightarrow> bytes" where
  "huffman_encode s = pack_bits (pad_ones (concat (map code_of_sym s)))"

lemma pack_bits_length [simp]: "length (pack_bits l) = length l div 8"
  by (induction l rule: pack_bits.induct) simp_all

lemma bits_of_bytes_pack:
  "length l mod 8 = 0 \<Longrightarrow> bits_of_bytes (pack_bits l) = l"
proof (induction l rule: pack_bits.induct)
  case (1 b7 b6 b5 b4 b3 b2 b1 b0 bs)
  let ?l = "[b7, b6, b5, b4, b3, b2, b1, b0]"
  have "nat_of_bits ?l < 256" using nat_of_bits_less [of ?l] by simp
  then have "unat (of_nat (nat_of_bits ?l) :: u8) = nat_of_bits ?l"
    by (simp add: unat_of_nat del: nat_of_bits.simps)
  then have "bits_of_byte (of_nat (nat_of_bits ?l)) = ?l"
    using bits_of_nat_of_bits [of ?l]
    by (simp add: bits_of_byte_def eval_nat_numeral del: nat_of_bits.simps)
  then show ?case using 1 by (simp del: nat_of_bits.simps)
qed simp_all

lemma encodable_entry:
  assumes "huffman_encodable s"
  obtains h where "h \<in> set HUFFMAN_CODES" "hc_sym h = s" "hc_sym h \<notin> set shadowed_syms" "code_of_sym s = code_bits h"
proof -
  obtain h where h: "h \<in> set HUFFMAN_CODES" "hc_sym h = s" "code_of_sym s = bits_of_nat (hc_bits h) (unat (hc_code h))"
    using code_of_sym_entry [of s] assms by (auto simp: huffman_encodable_def)
  moreover have "s \<notin> set shadowed_syms"
    using assms by (auto simp: huffman_encodable_def misread_bytes_def shadowed_syms_def)
  ultimately show ?thesis using that by (simp add: code_bits_def)
qed

lemma rev_upto:
  "rev [0..<5] = [4, 3, 2, 1, 0]" "rev [0..<6] = [5, 4, 3, 2, 1, 0]" "rev [0..<7] = [6, 5, 4, 3, 2, 1, 0]"
  "replicate 7 True = [True, True, True, True, True, True, True]"
  by (simp_all add: upt_rec numeral_eq_Suc)

text \<open>The example of RFC 7541, C.4.1.\<close>

lemma rfc7541_example:
  "huffman_encode (map (of_nat \<circ> of_char) ''www.example.com'') =
    [0xf1, 0xe3, 0xc2, 0xe5, 0xf2, 0x3a, 0x6b, 0xa0, 0xab, 0x90, 0xf4, 0xff]"
  by (simp add: huffman_encode_def code_of_sym_def rfc7541_codes_eq bits_of_nat_def rev_upto pad_ones_def)

lemma hdecode_encoded:
  "list_all huffman_encodable s \<Longrightarrow> k \<le> 7 \<Longrightarrow>
    hdecode (concat (map code_of_sym s) @ replicate k True) = s"
proof (induction s)
  case (Cons c s)
  then obtain h where "h \<in> set HUFFMAN_CODES" "hc_sym h = c" "hc_sym h \<notin> set shadowed_syms" "code_of_sym c = code_bits h"
    using encodable_entry [of c] by auto
  with Cons show ?case by (simp add: hdecode_code_bits)
qed (simp add: hdecode_ones)

lemma pad_length: "(n + (8 - n mod 8) mod 8) mod 8 = (0 :: nat)" "(8 - n mod 8) mod 8 \<le> (7 :: nat)"
proof -
  have "(n + (8 - n mod 8) mod 8) mod 8 = (n mod 8 + (8 - n mod 8)) mod 8"
    by (simp only: mod_add_left_eq mod_add_right_eq)
  also have "n mod 8 + (8 - n mod 8) = 8" by (simp add: less_imp_le)
  finally show "(n + (8 - n mod 8) mod 8) mod 8 = 0" by simp
  have "(8 - n mod 8) mod 8 < 8" by simp
  then show "(8 - n mod 8) mod 8 \<le> 7" by linarith
qed

lemma decodeHuffman_encode:
  assumes "list_all huffman_encodable s"
  shows "decodeHuffman (huffman_encode s) = map ucast s"
proof -
  let ?l = "concat (map code_of_sym s)"
  let ?k = "(8 - length ?l mod 8) mod 8"
  have "length (?l @ replicate ?k True) mod 8 = 0"
    using pad_length(1) [of "length ?l"] by (simp only: length_append length_replicate)
  then have "bits_of_bytes (huffman_encode s) = ?l @ replicate ?k True"
    unfolding huffman_encode_def pad_ones_def by (rule bits_of_bytes_pack)
  moreover have "hdecode (?l @ replicate ?k True) = s"
    using assms pad_length(2) by (rule hdecode_encoded)
  ultimately show ?thesis by (simp only: decodeHuffman_hdecode)
qed

section \<open>Properties\<close>

text \<open>
  The table-driven loop with its 64-bit accumulator computes the bit-list decoder, for
  every input: the refills lose no bit and the padding test sees the same bits.
\<close>

lemma decodeHuffman_refines:
  "decodeHuffman data = map ucast (hdecode (bits_of_bytes data))"
  by (rule decodeHuffman_hdecode)

text \<open>
  A string of bytes that is coded as RFC 7541 prescribes, padded with ones to a byte boundary, is decoded, one character per byte,
  when none of its bytes is one that the table misreads.
\<close>

lemma huffman_roundtrip:
  assumes "list_all huffman_encodable s"
  shows "decodeHuffman (huffman_encode s) = map ucast s"
  using assms by (rule decodeHuffman_encode)

lemma huffman_roundtrip_witness:
  "decodeHuffman (huffman_encode [0x6a, 0x74, 0x20]) = map ucast [0x6a, 0x74, 0x20 :: u8]"
  by (rule huffman_roundtrip) (simp add: huffman_encodable_def misread_bytes_def misread_codes_def)

end
