(* ===== verification/Qpack.thy ===== *)
theory Qpack
  imports QpackTable Huffman "HOL-Library.AList"
begin

unbundle bit_operations_syntax

text \<open>
  QPACK header blocks: \<open>readQpackInt\<close> and \<open>decodeQPackHeaders\<close> of
  \<open>src/http3/Http3Protocol.cpp\<close>.  \<open>QString::fromUtf8\<close> is the parameter \<open>fromUtf8\<close>; the
  \<open>QMap\<close> of the headers is an association list with one entry per key.  Arithmetic that
  overflows an \<open>int\<close> is undefined in C++ and gives \<open>None\<close>.
\<close>

section \<open>Operations\<close>

text \<open>\<open>1 << m\<close> for an \<open>int\<close>: undefined once the bit leaves the value bits.\<close>

definition int_shift_1 :: "nat \<Rightarrow> int option" where
  "int_shift_1 m = (if m < 31 then Some (2 ^ m) else None)"

function readQpackInt_loop :: "bytes \<Rightarrow> nat \<Rightarrow> nat \<Rightarrow> int \<Rightarrow> (int \<times> nat) option" where
  "readQpackInt_loop data pos m val =
     (if length data \<le> pos then Some (-1, pos)
      else let b = data ! pos in do {
        p \<leftarrow> int_shift_1 m;
        t \<leftarrow> checked_int (uint (b AND 0x7F) * p);
        if b AND 0x80 \<noteq> 0 then readQpackInt_loop data (pos + 1) (m + 7) (val + t)
        else Some (val + t, pos + 1)
      })"
  by pat_completeness auto
termination
  by (relation "measure (\<lambda>(data, pos, m, val). length data - pos)") auto

declare readQpackInt_loop.simps [simp del]

definition readQpackInt :: "bytes \<Rightarrow> nat \<Rightarrow> int \<Rightarrow> (int \<times> nat) option" where
  "readQpackInt data pos prefixBits =
     (if length data \<le> pos \<or> prefixBits < 1 \<or> 8 < prefixBits then Some (-1, pos)
      else let msk = mask (nat prefixBits) :: u8;
               val = uint (data ! pos AND msk)
           in if val = uint msk then readQpackInt_loop data (pos + 1) 0 val
              else Some (val, pos + 1))"

lemma readQpackInt_loop_progress:
  "readQpackInt_loop data pos m val = Some (v, pos') \<Longrightarrow> 0 \<le> v \<Longrightarrow> pos < pos' \<and> pos' \<le> length data"
proof (induction data pos m val rule: readQpackInt_loop.induct)
  case (1 data pos m val)
  from "1.prems" show ?case
    by (subst (asm) readQpackInt_loop.simps)
      (auto simp: Let_def split: if_splits bind_splits dest: "1.IH")
qed

lemma readQpackInt_progress:
  assumes "readQpackInt data pos k = Some (v, pos')" and "0 \<le> v"
  shows "pos < pos' \<and> pos' \<le> length data"
  using assms readQpackInt_loop_progress [of data "pos + 1" 0 "uint (data ! pos AND mask (nat k))" v pos']
  by (auto simp: readQpackInt_def Let_def split: if_splits)

type_synonym qheaders = "(qstring \<times> qstring) list"

text \<open>The value (or name) string after its length: Huffman-coded or plain; \<open>None\<close> is the early return.\<close>

definition read_string :: "(bytes \<Rightarrow> qstring) \<Rightarrow> bytes \<Rightarrow> nat \<Rightarrow> bool \<Rightarrow> nat \<Rightarrow> (qstring \<times> nat) option" where
  "read_string fromUtf8 data pos huffman valueLen =
     (if huffman then
        if length data < pos + valueLen then None
        else Some (decodeHuffman (take valueLen (drop pos data)), pos + valueLen)
      else if pos + valueLen \<le> length data then
        Some (fromUtf8 (take valueLen (drop pos data)), pos + valueLen)
      else None)"

datatype qpack_step = Next nat qheaders | Fail

definition qpack_indexed :: "(bytes \<Rightarrow> qstring) \<Rightarrow> bytes \<Rightarrow> nat \<Rightarrow> qheaders \<Rightarrow> qpack_step option" where
  "qpack_indexed fromUtf8 data pos headers = do {
     let isStatic = (data ! pos AND 0x40 \<noteq> 0);
     (index, pos) \<leftarrow> readQpackInt data pos 6;
     Some (if index < 0 then Fail
       else if isStatic \<and> nat index * 2 + 1 < length QPACK_STATIC_TABLE then
         Next pos (AList.update (fromUtf8 (c_str (QPACK_STATIC_TABLE ! (nat index * 2))))
           (fromUtf8 (c_str (QPACK_STATIC_TABLE ! (nat index * 2 + 1)))) headers)
       else Next pos headers)
   }"

text \<open>The string value that ends both literal fields; \<open>put\<close> stores it when it was read.\<close>

definition qpack_value :: "(bytes \<Rightarrow> qstring) \<Rightarrow> bytes \<Rightarrow> nat \<Rightarrow> (qstring \<Rightarrow> qheaders) \<Rightarrow> qpack_step option" where
  "qpack_value fromUtf8 data pos put =
     (if length data \<le> pos then Some Fail
      else do {
        let huffman = (data ! pos AND 0x80 \<noteq> 0);
        (valueLen, pos) \<leftarrow> readQpackInt data pos 7;
        Some (if valueLen < 0 then Fail
          else case read_string fromUtf8 data pos huffman (nat valueLen) of
              None \<Rightarrow> Fail
            | Some (val, pos) \<Rightarrow> Next pos (put val))
      })"

definition qpack_name_reference :: "(bytes \<Rightarrow> qstring) \<Rightarrow> bytes \<Rightarrow> nat \<Rightarrow> qheaders \<Rightarrow> qpack_step option" where
  "qpack_name_reference fromUtf8 data pos headers = do {
     let isStatic = (data ! pos AND 0x10 \<noteq> 0);
     (nameIndex, pos) \<leftarrow> readQpackInt data pos 4;
     if nameIndex < 0 then Some Fail
     else
       let name = (if isStatic \<and> nat nameIndex * 2 < length QPACK_STATIC_TABLE
                   then fromUtf8 (c_str (QPACK_STATIC_TABLE ! (nat nameIndex * 2))) else [])
       in qpack_value fromUtf8 data pos
            (\<lambda>val. if name \<noteq> [] \<and> val \<noteq> [] then AList.update name val headers else headers)
   }"

definition qpack_literal_name :: "(bytes \<Rightarrow> qstring) \<Rightarrow> bytes \<Rightarrow> nat \<Rightarrow> qheaders \<Rightarrow> qpack_step option" where
  "qpack_literal_name fromUtf8 data pos headers = do {
     let huffmanName = (data ! pos AND 0x08 \<noteq> 0);
     (nameLen, pos) \<leftarrow> readQpackInt data pos 3;
     if nameLen < 0 then Some Fail
     else (case read_string fromUtf8 data pos huffmanName (nat nameLen) of
         None \<Rightarrow> Some Fail
       | Some (name, pos) \<Rightarrow>
           qpack_value fromUtf8 data pos
             (\<lambda>val. if name \<noteq> [] then AList.update name val headers else headers))
   }"

definition qpack_field :: "(bytes \<Rightarrow> qstring) \<Rightarrow> bytes \<Rightarrow> nat \<Rightarrow> qheaders \<Rightarrow> qpack_step option" where
  "qpack_field fromUtf8 data pos headers =
     (if data ! pos AND 0x80 \<noteq> 0 then qpack_indexed fromUtf8 data pos headers
      else if data ! pos AND 0x40 \<noteq> 0 then qpack_name_reference fromUtf8 data pos headers
      else if data ! pos AND 0x20 \<noteq> 0 then qpack_literal_name fromUtf8 data pos headers
      else Some (Next (pos + 1) headers))"

lemma read_string_progress:
  "read_string U data pos h n = Some (s, pos') \<Longrightarrow> pos \<le> pos' \<and> pos' \<le> length data"
  by (auto simp: read_string_def split: if_splits)

lemma qpack_value_progress:
  "qpack_value U data pos put = Some (Next pos' hs) \<Longrightarrow> pos < pos' \<and> pos' \<le> length data"
  by (auto simp: qpack_value_def Let_def split: if_splits bind_splits option.splits prod.splits
      dest!: readQpackInt_progress read_string_progress)

lemma qpack_field_progress:
  assumes "qpack_field U data pos headers = Some (Next pos' hs)" and "pos < length data"
  shows "pos < pos' \<and> pos' \<le> length data"
  using assms
  by (auto simp: qpack_field_def qpack_indexed_def qpack_name_reference_def qpack_literal_name_def
      Let_def split: if_splits bind_splits option.splits prod.splits
      dest!: readQpackInt_progress read_string_progress qpack_value_progress)

function decodeQPackHeaders_loop ::
    "(bytes \<Rightarrow> qstring) \<Rightarrow> bytes \<Rightarrow> nat \<Rightarrow> qheaders \<Rightarrow> (bool \<times> qheaders) option" where
  "decodeQPackHeaders_loop fromUtf8 data pos headers =
     (if pos < length data then
        (case qpack_field fromUtf8 data pos headers of
          None \<Rightarrow> None
        | Some Fail \<Rightarrow> Some (False, headers)
        | Some (Next pos' headers') \<Rightarrow> decodeQPackHeaders_loop fromUtf8 data pos' headers')
      else Some (headers \<noteq> [], headers))"
  by pat_completeness auto
termination
  by (relation "measure (\<lambda>(U, data, pos, headers). length data - pos)")
    (auto dest!: qpack_field_progress)

declare decodeQPackHeaders_loop.simps [simp del]

definition decodeQPackHeaders :: "(bytes \<Rightarrow> qstring) \<Rightarrow> bytes \<Rightarrow> qheaders \<Rightarrow> (bool \<times> qheaders) option" where
  "decodeQPackHeaders fromUtf8 data headers =
     (if length data < 2 then Some (False, headers)
      else do {
        (requiredInsertCount, pos) \<leftarrow> readQpackInt data 0 8;
        if requiredInsertCount < 0 then Some (False, headers)
        else if length data \<le> pos then Some (False, headers)
        else do {
          (deltaBase, pos) \<leftarrow> readQpackInt data pos 7;
          if deltaBase < 0 then Some (False, headers)
          else decodeQPackHeaders_loop fromUtf8 data pos headers
        }
      })"

section \<open>Prefixed integers\<close>

text \<open>The encoding of RFC 7541, section 5.1, over a first byte whose high bits are \<open>hi\<close>.\<close>

fun qpack_int_tail :: "nat \<Rightarrow> bytes" where
  "qpack_int_tail v =
     (if v < 128 then [of_nat v] else of_nat (v mod 128 + 128) # qpack_int_tail (v div 128))"

declare qpack_int_tail.simps [simp del]

definition qpack_int_first :: "nat \<Rightarrow> u8 \<Rightarrow> nat \<Rightarrow> u8" where
  "qpack_int_first k hi v = (hi OR (if v < 2 ^ k - 1 then of_nat v else mask k))"

definition encode_qpack_int :: "nat \<Rightarrow> u8 \<Rightarrow> nat \<Rightarrow> bytes" where
  "encode_qpack_int k hi v =
     qpack_int_first k hi v # (if v < 2 ^ k - 1 then [] else qpack_int_tail (v - (2 ^ k - 1)))"

lemma low7: "unat ((b :: u8) AND 0x7F) = unat b mod 128"
proof -
  have "b AND 0x7F = take_bit 7 b" by (simp add: take_bit_eq_mask mask_eq_exp_minus_1)
  then show ?thesis by (simp add: unsigned_take_bit_eq take_bit_eq_mod [where ?'a = nat])
qed

lemma high_bit: "(b :: u8) AND 0x80 = 0 \<longleftrightarrow> unat b < 128"
proof -
  have "b AND 0x80 = 0 \<longleftrightarrow> \<not> bit b 7"
    using and_exp_eq_0_iff_not_bit [of b 7] by simp
  also have "bit b 7 \<longleftrightarrow> odd (unat b div 128)"
    using bit_unsigned_iff [of b 7, where ?'a = nat] by (simp add: bit_iff_odd [where ?'a = nat])
  also have "unat b div 128 < 2" using unat_u8_less [of b] by linarith
  then have "odd (unat b div 128) \<longleftrightarrow> unat b div 128 = 1"
    using less_2_cases [of "unat b div 128"] by auto
  also have "\<dots> \<longleftrightarrow> \<not> unat b < 128" using unat_u8_less [of b] by linarith
  finally show ?thesis by blast
qed

lemma base128_split: "v * p = v mod 128 * p + v div 128 * (p * 128)" for v p :: nat
proof -
  have "v * p = (v div 128 * 128 + v mod 128) * p" by (simp only: div_mult_mod_eq)
  then show ?thesis by (simp only: algebra_simps)
qed

lemma readQpackInt_loop_tail:
  assumes "data = pre @ qpack_int_tail v @ post" and "v * 2 ^ m < 2 ^ 31" and "0 < v \<or> m < 31"
  shows "readQpackInt_loop data (length pre) m val =
    Some (val + int (v * 2 ^ m), length (pre @ qpack_int_tail v))"
  using assms
proof (induction v arbitrary: pre m val rule: qpack_int_tail.induct)
  case (1 v)
  have m: "m < 31"
  proof (rule ccontr)
    assume "\<not> m < 31"
    moreover from this have "1 \<le> v" using "1.prems"(3) by simp
    moreover from calculation have "(2 :: nat) ^ 31 \<le> 2 ^ m" by (intro power_increasing) simp_all
    ultimately have "(2 :: nat) ^ 31 \<le> v * 2 ^ m" by (metis mult.left_neutral mult_le_mono order_trans le_refl)
    with "1.prems"(2) show False by simp
  qed
  show ?case
  proof (cases "v < 128")
    case True
    then have b: "unat (of_nat v :: u8) = v" by (simp add: unat_of_nat)
    have t: "qpack_int_tail v = [of_nat v]" using True by (simp add: qpack_int_tail.simps)
    have "uint ((of_nat v :: u8) AND 0x7F) = int v" using low7 [of "of_nat v"] b True by (metis mod_less uint_u8_of_unat)
    moreover have "(of_nat v :: u8) AND 0x80 = 0" using b True by (simp add: high_bit)
    moreover have "int32_range (int v * 2 ^ m)"
      using int32_range_of_nat [of "v * 2 ^ m"] "1.prems"(2) by simp
    ultimately show ?thesis
      using "1.prems"(1) t m
      by (subst readQpackInt_loop.simps) (simp add: int_shift_1_def)
  next
    case False
    let ?b = "of_nat (v mod 128 + 128) :: u8"
    have b: "unat ?b = v mod 128 + 128" by (simp add: unat_of_nat del: of_nat_add)
    have t: "qpack_int_tail v = ?b # qpack_int_tail (v div 128)"
      using False by (subst qpack_int_tail.simps) simp
    have d: "uint (?b AND 0x7F) = int (v mod 128)" using low7 [of ?b] b by (metis mod_add_self2 mod_mod_trivial uint_u8_of_unat)
    have h: "?b AND 0x80 \<noteq> 0" unfolding high_bit b by simp
    have split: "v * 2 ^ m = v mod 128 * 2 ^ m + v div 128 * 2 ^ (m + 7)"
      using base128_split [of v "2 ^ m"] by (simp add: power_add)
    have r: "int32_range (int (v mod 128) * 2 ^ m)"
      using int32_range_of_nat [of "v mod 128 * 2 ^ m"] "1.prems"(2) split by simp
    have le: "v div 128 * 2 ^ (m + 7) < 2 ^ 31" using "1.prems"(2) split by linarith
    have "readQpackInt_loop data (length (pre @ [?b])) (m + 7) (val + int (v mod 128) * 2 ^ m) =
        Some (val + int (v mod 128) * 2 ^ m + int (v div 128 * 2 ^ (m + 7)),
          length ((pre @ [?b]) @ qpack_int_tail (v div 128)))"
      using "1.prems"(1) t le False div_greater_zero_iff [of v 128] by (intro "1.IH") simp_all
    then show ?thesis
      using "1.prems"(1) t m d h r unfolding split
      by (subst readQpackInt_loop.simps) (simp add: int_shift_1_def)
  qed
qed

lemma qpack_int_first_bits:
  assumes "hi AND mask k = 0" and "k < 8"
  shows "qpack_int_first k hi v AND mask k = (if v < 2 ^ k - 1 then of_nat v else mask k)"
    and "t AND mask k = 0 \<Longrightarrow> qpack_int_first k hi v AND t = hi AND t"
proof -
  let ?x = "(if v < 2 ^ k - 1 then of_nat v else mask k) :: u8"
  have x: "?x AND mask k = ?x"
  proof (cases "v < 2 ^ k - 1")
    case True
    then have "v < 2 ^ k" by linarith
    then have "take_bit k (of_nat v :: u8) = of_nat v"
      by (simp add: take_bit_of_nat take_bit_nat_eq_self)
    then show ?thesis using True by (simp add: take_bit_eq_mask)
  qed simp
  then show "qpack_int_first k hi v AND mask k = ?x"
    by (simp add: qpack_int_first_def bit.conj_disj_distrib2 assms(1))
  assume t: "t AND mask k = 0"
  have "?x AND t = ?x AND (mask k AND t)" by (simp only: x flip: and.assoc)
  then have "?x AND t = 0" using t by (simp add: and.commute)
  then show "qpack_int_first k hi v AND t = hi AND t"
    by (simp add: qpack_int_first_def bit.conj_disj_distrib2)
qed

lemma readQpackInt_encode:
  assumes "data = pre @ encode_qpack_int k hi v @ post" and "hi AND mask k = 0"
    and "1 \<le> k" "k < 8" and "v < 2 ^ 31"
  shows "readQpackInt data (length pre) (int k) = Some (int v, length (pre @ encode_qpack_int k hi v))"
proof -
  let ?b = "qpack_int_first k hi v"
  have nth: "data ! length pre = ?b" "length pre < length data"
    using assms(1) by (simp_all add: encode_qpack_int_def)
  have m: "unat (mask k :: u8) = 2 ^ k - 1"
    using assms(4) by (simp add: unat_mask_word mask_eq_exp_minus_1 [where ?'a = nat])
  have p: "(2 :: nat) ^ k \<le> 2 ^ 7" using assms(4) by (intro power_increasing) simp_all
  show ?thesis
  proof (cases "v < 2 ^ k - 1")
    case True
    have "?b AND mask k = of_nat v" using qpack_int_first_bits(1) [OF assms(2,4), of v] True by simp
    moreover have u: "unat (of_nat v :: u8) = v" using True p by (simp add: unat_of_nat)
    then have "uint (of_nat v :: u8) = int v" by (metis uint_u8_of_unat)
    moreover have "uint (mask k :: u8) = int (2 ^ k - 1)" using m by (metis uint_u8_of_unat)
    moreover have "int v < int (2 ^ k - 1)" using True by (simp only: of_nat_less_iff)
    ultimately show ?thesis
      using nth assms(3,4) True by (simp add: readQpackInt_def encode_qpack_int_def Let_def)
  next
    case False
    let ?v = "v - (2 ^ k - 1)"
    have b: "?b AND mask k = mask k" using qpack_int_first_bits(1) [OF assms(2,4), of v] False by simp
    have mk: "uint (mask k :: u8) = int (2 ^ k - 1)" using m by (metis uint_u8_of_unat)
    have "?v < 2 ^ 31" using assms(5) diff_le_self [of v "2 ^ k - 1"] by linarith
    then have "readQpackInt_loop data (length (pre @ [?b])) 0 (int (2 ^ k - 1)) =
        Some (int (2 ^ k - 1) + int (?v * 2 ^ 0), length ((pre @ [?b]) @ qpack_int_tail ?v))"
      using assms(1) False by (intro readQpackInt_loop_tail) (simp_all add: encode_qpack_int_def)
    moreover have "int (2 ^ k - 1) + int ?v = int v" using False by simp
    ultimately show ?thesis
      using nth assms(3,4) b mk False by (simp add: readQpackInt_def encode_qpack_int_def)
  qed
qed


section \<open>Header blocks as a sender writes them\<close>

text \<open>Strings with their length prefix, plain or Huffman-coded, and the text a reader makes of them.\<close>

datatype field = Indexed nat | NameReference nat bool bytes | LiteralName bool bytes bool bytes

definition string_bytes :: "bool \<Rightarrow> bytes \<Rightarrow> bytes" where
  "string_bytes h s = (if h then huffman_encode s else s)"

definition string_text :: "(bytes \<Rightarrow> qstring) \<Rightarrow> bool \<Rightarrow> bytes \<Rightarrow> qstring" where
  "string_text U h s = (if h then map ucast s else U s)"

definition string_ok :: "bool \<Rightarrow> bytes \<Rightarrow> bool" where
  "string_ok h s \<longleftrightarrow> (h \<longrightarrow> list_all huffman_encodable s) \<and> length (string_bytes h s) < 2 ^ 31"

definition encode_string :: "nat \<Rightarrow> u8 \<Rightarrow> u8 \<Rightarrow> bool \<Rightarrow> bytes \<Rightarrow> bytes" where
  "encode_string k hi hbit h s =
     encode_qpack_int k (hi OR (if h then hbit else 0)) (length (string_bytes h s)) @ string_bytes h s"

fun encode_field :: "field \<Rightarrow> bytes" where
  "encode_field (Indexed i) = encode_qpack_int 6 0xC0 i"
| "encode_field (NameReference i h v) = encode_qpack_int 4 0x50 i @ encode_string 7 0 0x80 h v"
| "encode_field (LiteralName hn n hv v) = encode_string 3 0x20 0x08 hn n @ encode_string 7 0 0x80 hv v"

fun field_ok :: "field \<Rightarrow> bool" where
  "field_ok (Indexed i) \<longleftrightarrow> i < 99"
| "field_ok (NameReference i h v) \<longleftrightarrow> i < 99 \<and> string_ok h v"
| "field_ok (LiteralName hn n hv v) \<longleftrightarrow> string_ok hn n \<and> string_ok hv v"

definition static_name :: "(bytes \<Rightarrow> qstring) \<Rightarrow> nat \<Rightarrow> qstring" where
  "static_name U i = U (c_str (QPACK_STATIC_TABLE ! (i * 2)))"

definition static_value :: "(bytes \<Rightarrow> qstring) \<Rightarrow> nat \<Rightarrow> qstring" where
  "static_value U i = U (c_str (QPACK_STATIC_TABLE ! (i * 2 + 1)))"

text \<open>What a field does to the headers: an empty name, or an empty value of a referenced name, is dropped.\<close>

fun apply_field :: "(bytes \<Rightarrow> qstring) \<Rightarrow> field \<Rightarrow> qheaders \<Rightarrow> qheaders" where
  "apply_field U (Indexed i) hs = AList.update (static_name U i) (static_value U i) hs"
| "apply_field U (NameReference i h v) hs =
     (if static_name U i \<noteq> [] \<and> string_text U h v \<noteq> []
      then AList.update (static_name U i) (string_text U h v) hs else hs)"
| "apply_field U (LiteralName hn n hv v) hs =
     (if string_text U hn n \<noteq> [] then AList.update (string_text U hn n) (string_text U hv v) hs else hs)"

lemma read_string_encoded:
  assumes "data = pre @ string_bytes h s @ post" and "string_ok h s"
  shows "read_string U data (length pre) h (length (string_bytes h s)) =
    Some (string_text U h s, length (pre @ string_bytes h s))"
  using assms by (simp add: read_string_def string_text_def string_ok_def string_bytes_def decodeHuffman_encode)

lemma encode_qpack_int_nth:
  assumes "data = pre @ encode_qpack_int k hi v @ post" and "hi AND mask k = 0" and "k < 8"
    and "t AND mask k = 0"
  shows "data ! length pre AND t = hi AND t"
  using assms qpack_int_first_bits(2) [of hi k t v] by (simp add: encode_qpack_int_def)

text \<open>A string at a position: its flag bit is read from the first byte, then length and contents.\<close>

lemma encoded_string_read:
  assumes "data = pre @ encode_string k hi hbit h s @ post" and "string_ok h s"
    and "(hi OR hbit) AND mask k = 0" and "1 \<le> k" "k < 8" and "hi AND hbit = 0" and "hbit \<noteq> 0"
  shows "data ! length pre AND hbit \<noteq> 0 \<longleftrightarrow> h"
    and "t AND mask k = 0 \<Longrightarrow> t AND hbit = 0 \<Longrightarrow> data ! length pre AND t = hi AND t"
    and "\<exists>q. readQpackInt data (length pre) (int k) = Some (int (length (string_bytes h s)), q) \<and>
      read_string U data q h (length (string_bytes h s)) =
        Some (string_text U h s, length (pre @ encode_string k hi hbit h s))"
    and "length pre < length data"
proof -
  let ?hi = "hi OR (if h then hbit else 0)" and ?n = "length (string_bytes h s)"
  let ?e = "encode_qpack_int k ?hi ?n"
  have d: "data = pre @ ?e @ string_bytes h s @ post"
    using assms(1) by (simp add: encode_string_def)
  have m: "hi AND mask k = 0" "hbit AND mask k = 0"
    using assms(3) by (simp_all add: bit.conj_disj_distrib2 or_eq_0_iff)
  then have hm: "?hi AND mask k = 0" by (simp add: bit.conj_disj_distrib2)
  note nth = encode_qpack_int_nth [OF d hm assms(5)]
  show "data ! length pre AND hbit \<noteq> 0 \<longleftrightarrow> h"
    using nth [OF m(2)] assms(6,7) by (simp add: bit.conj_disj_distrib2)
  show "data ! length pre AND t = hi AND t" if "t AND mask k = 0" "t AND hbit = 0"
    using nth [OF that(1)] that(2) by (simp add: bit.conj_disj_distrib2 and.commute [of hbit t])
  have "readQpackInt data (length pre) (int k) = Some (int ?n, length (pre @ ?e))"
    using assms(2) by (intro readQpackInt_encode [OF d hm assms(4,5)]) (simp add: string_ok_def)
  moreover have "read_string U data (length (pre @ ?e)) h ?n =
      Some (string_text U h s, length ((pre @ ?e) @ string_bytes h s))"
    using d assms(2) by (intro read_string_encoded) simp_all
  ultimately show "\<exists>q. readQpackInt data (length pre) (int k) = Some (int ?n, q) \<and>
      read_string U data q h ?n = Some (string_text U h s, length (pre @ encode_string k hi hbit h s))"
    by (intro exI [of _ "length (pre @ ?e)"]) (simp add: encode_string_def)
  show "length pre < length data" using d by (simp add: encode_qpack_int_def)
qed

lemma qpack_value_encoded:
  assumes "data = pre @ encode_string 7 0 0x80 h s @ post" and "string_ok h s"
  shows "qpack_value U data (length pre) put =
    Some (Next (length (pre @ encode_string 7 0 0x80 h s)) (put (string_text U h s)))"
proof -
  have "data ! length pre AND 0x80 \<noteq> 0 \<longleftrightarrow> h" "length pre < length data"
    using assms by (intro encoded_string_read [OF assms]; simp add: mask_eq_exp_minus_1)+
  moreover have "\<exists>q. readQpackInt data (length pre) (int 7) = Some (int (length (string_bytes h s)), q) \<and>
      read_string U data q h (length (string_bytes h s)) =
        Some (string_text U h s, length (pre @ encode_string 7 0 0x80 h s))"
    by (rule encoded_string_read(3) [OF assms]) (simp_all add: mask_eq_exp_minus_1)
  ultimately show ?thesis
    by (auto simp: qpack_value_def)
qed


lemma qpack_field_encoded:
  assumes "data = pre @ encode_field f @ post" and "field_ok f"
  shows "length pre < length data"
    and "qpack_field U data (length pre) hs =
      Some (Next (length (pre @ encode_field f)) (apply_field U f hs))"
proof -
  have "length pre < length data \<and> qpack_field U data (length pre) hs =
      Some (Next (length (pre @ encode_field f)) (apply_field U f hs))"
  proof (cases f)
    case (Indexed i)
    then have d: "data = pre @ encode_qpack_int 6 0xC0 i @ post" and i: "i < 99"
      using assms by simp_all
    have z: "0xC0 AND mask 6 = (0 :: u8)" by (simp add: mask_eq_exp_minus_1)
    have "data ! length pre AND 0x80 = 0xC0 AND 0x80" "data ! length pre AND 0x40 = 0xC0 AND 0x40"
      by (rule encode_qpack_int_nth [OF d z]; simp add: mask_eq_exp_minus_1)+
    moreover have "readQpackInt data (length pre) (int 6) =
        Some (int i, length (pre @ encode_qpack_int 6 0xC0 i))"
      using i by (intro readQpackInt_encode [OF d z]) simp_all
    ultimately show ?thesis
      using d i Indexed
      by (simp add: qpack_field_def qpack_indexed_def QPACK_STATIC_TABLE_length static_name_def
          static_value_def encode_qpack_int_def)
  next
    case (NameReference i h v)
    let ?e = "encode_qpack_int 4 0x50 i"
    have d: "data = pre @ ?e @ (encode_string 7 0 0x80 h v @ post)" and i: "i < 99"
      and v: "string_ok h v"
      using assms NameReference by simp_all
    have z: "0x50 AND mask 4 = (0 :: u8)" by (simp add: mask_eq_exp_minus_1)
    have "data ! length pre AND 0x80 = 0x50 AND 0x80" "data ! length pre AND 0x40 = 0x50 AND 0x40"
        "data ! length pre AND 0x10 = 0x50 AND 0x10"
      by (rule encode_qpack_int_nth [OF d z]; simp add: mask_eq_exp_minus_1)+
    moreover have "readQpackInt data (length pre) (int 4) = Some (int i, length (pre @ ?e))"
      using i by (intro readQpackInt_encode [OF d z]) simp_all
    moreover have "qpack_value U data (length (pre @ ?e)) put =
        Some (Next (length ((pre @ ?e) @ encode_string 7 0 0x80 h v)) (put (string_text U h v)))" for put
      using d v by (intro qpack_value_encoded) simp_all
    ultimately show ?thesis
      using d i NameReference
      by (simp add: qpack_field_def qpack_name_reference_def QPACK_STATIC_TABLE_length
          static_name_def encode_qpack_int_def)
  next
    case (LiteralName hn n hv v)
    let ?e = "encode_string 3 0x20 0x08 hn n"
    have d: "data = pre @ ?e @ (encode_string 7 0 0x80 hv v @ post)"
      and n: "string_ok hn n" and v: "string_ok hv v"
      using assms LiteralName by simp_all
    have "data ! length pre AND 0x80 = 0x20 AND 0x80" "data ! length pre AND 0x40 = 0x20 AND 0x40"
        "data ! length pre AND 0x20 = 0x20 AND 0x20"
      by (rule encoded_string_read(2) [OF d n]; simp add: mask_eq_exp_minus_1)+
    moreover have "data ! length pre AND 0x08 \<noteq> 0 \<longleftrightarrow> hn" "length pre < length data"
      by (rule encoded_string_read(1) [OF d n] encoded_string_read(4) [OF d n];
          simp add: mask_eq_exp_minus_1)+
    moreover have "\<exists>q. readQpackInt data (length pre) (int 3) = Some (int (length (string_bytes hn n)), q) \<and>
        read_string U data q hn (length (string_bytes hn n)) =
          Some (string_text U hn n, length (pre @ ?e))"
      by (rule encoded_string_read(3) [OF d n]) (simp_all add: mask_eq_exp_minus_1)
    moreover have "qpack_value U data (length (pre @ ?e)) put =
        Some (Next (length ((pre @ ?e) @ encode_string 7 0 0x80 hv v)) (put (string_text U hv v)))" for put
      using d v by (intro qpack_value_encoded) simp_all
    ultimately show ?thesis
      using LiteralName by (auto simp: qpack_field_def qpack_literal_name_def)
  qed
  then show "length pre < length data" and "qpack_field U data (length pre) hs =
      Some (Next (length (pre @ encode_field f)) (apply_field U f hs))" by simp_all
qed

lemma decodeQPackHeaders_loop_fields:
  assumes "list_all field_ok fs"
  shows "decodeQPackHeaders_loop U (pre @ concat (map encode_field fs)) (length pre) hs =
    Some (fold (apply_field U) fs hs \<noteq> [], fold (apply_field U) fs hs)"
  using assms
proof (induction fs arbitrary: pre hs)
  case Nil
  then show ?case by (subst decodeQPackHeaders_loop.simps) simp
next
  case (Cons f fs)
  let ?post = "concat (map encode_field fs)"
  have "field_ok f" using Cons.prems by simp
  note step = qpack_field_encoded [OF refl [of "pre @ encode_field f @ ?post"] this]
  have "decodeQPackHeaders_loop U ((pre @ encode_field f) @ ?post) (length (pre @ encode_field f))
      (apply_field U f hs) = Some (fold (apply_field U) fs (apply_field U f hs) \<noteq> [],
        fold (apply_field U) fs (apply_field U f hs))"
    using Cons by (intro Cons.IH) simp
  then show ?case
    using step by (subst decodeQPackHeaders_loop.simps) simp
qed

text \<open>Both prefix integers of a block without dynamic table entries are zero.\<close>

definition encode_headers :: "field list \<Rightarrow> bytes" where
  "encode_headers fs = [0x00, 0x00] @ concat (map encode_field fs)"

lemma decodeQPackHeaders_encode:
  assumes "list_all field_ok fs"
  shows "decodeQPackHeaders U (encode_headers fs) hs =
    Some (fold (apply_field U) fs hs \<noteq> [], fold (apply_field U) fs hs)"
proof -
  have "readQpackInt (encode_headers fs) 0 8 = Some (0, 1)"
    "readQpackInt (encode_headers fs) 1 7 = Some (0, 2)"
    by (simp_all add: readQpackInt_def encode_headers_def mask_eq_exp_minus_1)
  then show ?thesis
    using decodeQPackHeaders_loop_fields [OF assms, of U "[0x00, 0x00]" hs]
    by (simp add: decodeQPackHeaders_def encode_headers_def numeral_2_eq_2)
qed

section \<open>The inputs on which the integer reader is undefined\<close>

lemma int32_range_small: "x < 128 \<Longrightarrow> m \<le> 21 \<Longrightarrow> int32_range (int x * 2 ^ m)"
proof -
  assume x: "x < 128" and m: "m \<le> 21"
  have "x * 2 ^ m \<le> 127 * 2 ^ 21"
    using x m by (intro mult_le_mono power_increasing) simp_all
  then show ?thesis using int32_range_of_nat [of "x * 2 ^ m"] by simp
qed

lemma readQpackInt_loop_low:
  assumes "m \<le> 21"
  shows "readQpackInt_loop data pos m val = None \<longleftrightarrow>
    pos < length data \<and> 128 \<le> unat (data ! pos) \<and>
    readQpackInt_loop data (pos + 1) (m + 7) (val + int (unat (data ! pos) mod 128) * 2 ^ m) = None"
proof -
  have "uint (data ! pos AND 0x7F) = int (unat (data ! pos) mod 128)"
    by (simp only: uint_u8_of_unat low7)
  then show ?thesis
    using assms int32_range_small [of "unat (data ! pos) mod 128" m] high_bit [of "data ! pos"]
    by (subst readQpackInt_loop.simps) (auto simp: int_shift_1_def Let_def split: if_splits bind_splits)
qed


lemma readQpackInt_loop_28:
  "readQpackInt_loop data pos 28 val = None \<longleftrightarrow>
    pos < length data \<and> (8 \<le> unat (data ! pos) mod 128 \<or>
      128 \<le> unat (data ! pos) \<and> pos + 1 < length data)"
proof -
  let ?x = "unat (data ! pos)"
  have x: "uint (data ! pos AND 0x7F) = int (?x mod 128)"
    by (simp only: uint_u8_of_unat low7)
  have r: "int32_range (int (?x mod 128) * 2 ^ 28) \<longleftrightarrow> ?x mod 128 < 8"
    by (simp add: int32_range_def)
  have h: "(data ! pos AND 0x80 \<noteq> 0) \<longleftrightarrow> 128 \<le> ?x"
    using high_bit [of "data ! pos"] by auto
  have 35: "readQpackInt_loop data (pos + 1) 35 v = None \<longleftrightarrow> pos + 1 < length data" for v
    by (subst readQpackInt_loop.simps) (simp add: int_shift_1_def)
  show ?thesis
  proof (cases "pos < length data \<and> ?x mod 128 < 8")
    case True
    then have "checked_int (uint (data ! pos AND 0x7F) * 2 ^ 28) = Some (int (?x mod 128) * 2 ^ 28)"
      unfolding x using r by simp
    then show ?thesis
      using True 35 h
      by (subst readQpackInt_loop.simps) (auto simp: int_shift_1_def Let_def simp del: mod_less)
  next
    case False
    then show ?thesis
      using r unfolding x [symmetric]
      by (subst readQpackInt_loop.simps) (auto simp: int_shift_1_def Let_def checked_int_def)
  qed
qed

lemma readQpackInt_None:
  "readQpackInt data pos k = None \<longleftrightarrow>
    1 \<le> k \<and> k \<le> 8 \<and> pos + 5 < length data \<and>
    data ! pos AND mask (nat k) = mask (nat k) \<and>
    128 \<le> unat (data ! (pos + 1)) \<and> 128 \<le> unat (data ! (pos + 2)) \<and>
    128 \<le> unat (data ! (pos + 3)) \<and> 128 \<le> unat (data ! (pos + 4)) \<and>
    (8 \<le> unat (data ! (pos + 5)) mod 128 \<or>
     128 \<le> unat (data ! (pos + 5)) \<and> pos + 6 < length data)"
proof -
  have loop: "readQpackInt_loop data (pos + 1) 0 val = None \<longleftrightarrow> pos + 5 < length data \<and>
      128 \<le> unat (data ! (pos + 1)) \<and> 128 \<le> unat (data ! (pos + 2)) \<and>
      128 \<le> unat (data ! (pos + 3)) \<and> 128 \<le> unat (data ! (pos + 4)) \<and>
      (8 \<le> unat (data ! (pos + 5)) mod 128 \<or>
       128 \<le> unat (data ! (pos + 5)) \<and> pos + 6 < length data)" for val
    by (auto simp: readQpackInt_loop_low readQpackInt_loop_28 add.assoc
        simp del: One_nat_def add_2_eq_Suc')
  have "data ! pos AND mask (nat k) = mask (nat k) \<longleftrightarrow>
      uint (data ! pos AND mask (nat k)) = uint (mask (nat k) :: u8)"
    by (rule word_uint_eq_iff)
  then show ?thesis
    using loop by (auto simp: readQpackInt_def Let_def)
qed

section \<open>Properties\<close>

text \<open>
  C37: a header block built of indexed static fields, literal fields with a static name
  reference and literal fields with a literal name, with plain strings or strings in the Huffman code of RFC 7541, is
  decoded to the headers it denotes, later fields overwriting earlier ones of the same name.  The Huffman-coded strings have none
  of the seventeen bytes that the decoder's table misreads (\<open>misread_bytes\<close>; of ASCII the line feed, the carriage return and the
  byte 22), and are read as one character per byte; the plain strings are any bytes.
\<close>

theorem qpack_headers_roundtrip:
  assumes "list_all field_ok fs"
  shows "decodeQPackHeaders U (encode_headers fs) hs =
    Some (fold (apply_field U) fs hs \<noteq> [], fold (apply_field U) fs hs)"
  using assms by (rule decodeQPackHeaders_encode)

lemma encoded_path: "huffman_encode [0x2f, 0x61, 0x63] = [0x60, 0x64]"
  by (simp add: huffman_encode_def code_of_sym_def rfc7541_codes_eq bits_of_nat_def rev_upto pad_ones_def)

theorem qpack_headers_roundtrip_witness:
  "decodeQPackHeaders (map ucast)
      (encode_headers [Indexed 15, NameReference 1 True [0x2f, 0x61, 0x63], LiteralName False [0x78] False []]) [] =
    Some (True,
      [(map ucast (c_str '':method''), map ucast (c_str ''CONNECT'')),
       (map ucast (c_str '':path''), [0x2f, 0x61, 0x63]), ([0x78], [])]) \<and>
    encode_headers [NameReference 1 True [0x2f, 0x61, 0x63]] = [0x00, 0x00, 0x51, 0x82, 0x60, 0x64]"
proof -
  let ?fs = "[Indexed 15, NameReference 1 True [0x2f, 0x61, 0x63], LiteralName False [0x78] False []]"
  have "list_all field_ok ?fs"
    by (simp add: string_ok_def string_bytes_def huffman_encodable_def misread_bytes_def misread_codes_def encoded_path)
  from qpack_headers_roundtrip [OF this, of "map ucast" "[]"] show ?thesis
    by (simp add: static_name_def static_value_def string_text_def c_str_def
        QPACK_STATIC_TABLE_def QPACK_STATIC_TABLE_0_49_def of_char_def
        encode_headers_def encode_qpack_int_def qpack_int_first_def encode_string_def string_bytes_def encoded_path)
qed

text \<open>
  The exact set of inputs on which \<open>readQpackInt\<close> is undefined: a full prefix followed by
  four continuation bytes and a fifth one that either carries more than three value bits or
  continues once more.  Every other input, truncated ones included, has a defined result.
\<close>

lemma qpack_int_undefined:
  "readQpackInt data pos k = None \<longleftrightarrow>
    1 \<le> k \<and> k \<le> 8 \<and> pos + 5 < length data \<and>
    data ! pos AND mask (nat k) = mask (nat k) \<and>
    128 \<le> unat (data ! (pos + 1)) \<and> 128 \<le> unat (data ! (pos + 2)) \<and>
    128 \<le> unat (data ! (pos + 3)) \<and> 128 \<le> unat (data ! (pos + 4)) \<and>
    (8 \<le> unat (data ! (pos + 5)) mod 128 \<or>
     128 \<le> unat (data ! (pos + 5)) \<and> pos + 6 < length data)"
  by (rule readQpackInt_None)

end
