(* ===== verification/RingBuffer.thy ===== *)
theory RingBuffer
  imports Fifo FloatRound
begin

text \<open>
  \<open>RingBuffer\<close> (\<open>src/RingBuffer.cpp\<close>, \<open>src/RingBuffer.h\<close>) and \<open>RingBufferWavetable\<close>
  (\<open>src/RingBufferWavetable.h\<close>).  The members are the fields of the record; a \<open>NULL\<close> buffer
  is the empty list.  Every operation runs under the mutex, so it is one step; the blocking ones
  are split where they wait.  A slot passed in is the memory at the pointer, and a slot passed
  out is the list of the bytes written there.
\<close>

section \<open>State\<close>

record RingBuffer =
  mSlotSize :: int
  mNumSlots :: int
  mTotalSize :: int
  mReadPosition :: u32
  mWritePosition :: u32
  mFullSlots :: int
  mRingBuffer :: bytes
  mLastReadSlot :: bytes
  mStatUnit :: int
  mUnderruns :: u32
  mOverflows :: u32
  mSkewRaw :: int
  mLevelCur :: dbl
  mLevelDownRate :: dbl
  mLevel :: int
  mBufDecOverflow :: u32
  mBufDecPktLoss :: u32
  mBufIncUnderrun :: u32
  mBufIncCompensate :: u32
  mReadsNew :: u32
  mUnderrunsNew :: u32
  mSkew0 :: int
  mBroadcastSkew :: int
  mBroadcastDelta :: int

record IOStat =
  underruns :: u32
  overflows :: u32
  skew :: int
  skew_raw :: int
  level :: int
  buf_dec_overflows :: u32
  buf_dec_pktloss :: u32
  buf_inc_underrun :: u32
  buf_inc_compensate :: u32
  broadcast_skew :: int
  broadcast_delta :: int
  autoq_corr :: int
  autoq_rate :: int

section \<open>Operations\<close>

text \<open>
  The constructor does not initialise \<open>mReadsNew\<close> and \<open>mUnderrunsNew\<close>; the two last arguments are
  whatever the memory holds.
\<close>

definition RingBuffer_new :: "int \<Rightarrow> int \<Rightarrow> u32 \<Rightarrow> u32 \<Rightarrow> RingBuffer option" where
  "RingBuffer_new SlotSize NumSlots readsNew underrunsNew = do {
     total \<leftarrow> checked_int (SlotSize * NumSlots);
     half \<leftarrow> cxx_div NumSlots 2;
     n \<leftarrow> (if 0 < total then byte_count total else Some 0);
     k \<leftarrow> (if 0 < total then byte_count SlotSize else Some 0);
     wpos \<leftarrow> (if 0 < total then do { h \<leftarrow> checked_int (half * SlotSize); cxx_mod h total } else Some 0);
     Some \<lparr>mSlotSize = SlotSize, mNumSlots = NumSlots, mTotalSize = total,
       mReadPosition = 0, mWritePosition = of_int wpos, mFullSlots = half,
       mRingBuffer = replicate n 0, mLastReadSlot = replicate k 0,
       mStatUnit = 1, mUnderruns = 0, mOverflows = 0, mSkewRaw = 0,
       mLevelCur = of_int half, mLevelDownRate = dbl_round (1 / 100), mLevel = half,
       mBufDecOverflow = 0, mBufDecPktLoss = 0, mBufIncUnderrun = 0, mBufIncCompensate = 0,
       mReadsNew = readsNew, mUnderrunsNew = underrunsNew, mSkew0 = 0,
       mBroadcastSkew = 0, mBroadcastDelta = 0\<rparr>
   }"

definition updateReadStats :: "RingBuffer \<Rightarrow> RingBuffer option" where
  "updateReadStats b = do {
     sk \<leftarrow> checked_int (mSkewRaw b - 1);
     lv \<leftarrow> checked_int \<lceil>mLevelCur b\<rceil>;
     Some (b\<lparr>mSkewRaw := sint (of_int sk + mReadsNew b), mReadsNew := 0,
       mUnderruns := mUnderruns b + mUnderrunsNew b,
       mBufIncUnderrun := mBufIncUnderrun b + mUnderrunsNew b,
       mUnderrunsNew := 0, mLevel := lv\<rparr>)
   }"

definition overflowReset :: "RingBuffer \<Rightarrow> RingBuffer option" where
  "overflowReset b = do {
     d \<leftarrow> cxx_div (mNumSlots b) 2;
     k \<leftarrow> checked_int (d * mSlotSize b);
     rpos \<leftarrow> u32_mod (mReadPosition b + of_int k) (of_int (mTotalSize b));
     Some (b\<lparr>mReadPosition := rpos, mFullSlots := mFullSlots b - d,
       mOverflows := mOverflows b + of_int (d + 1),
       mBufDecOverflow := mBufDecOverflow b + of_int (d + 1),
       mLevelCur := dbl_sub (mLevelCur b) (of_int d)\<rparr>)
   }"

definition underrunReset :: "RingBuffer \<Rightarrow> RingBuffer option" where
  "underrunReset b = do {
     n \<leftarrow> byte_count (mTotalSize b);
     mem \<leftarrow> mem_set (mRingBuffer b) 0 n 0;
     Some (b\<lparr>mRingBuffer := mem, mUnderrunsNew := mUnderrunsNew b + 1\<rparr>)
   }"

text \<open>Writing a slot, and reading one, once there is room or something to read.\<close>

definition write_slot :: "bytes \<Rightarrow> RingBuffer \<Rightarrow> RingBuffer option" where
  "write_slot ptrToSlot b = do {
     n \<leftarrow> byte_count (mSlotSize b);
     src \<leftarrow> mem_read ptrToSlot 0 n;
     mem \<leftarrow> mem_write (mRingBuffer b) (unat (mWritePosition b)) src;
     wpos \<leftarrow> u32_mod (mWritePosition b + of_int (mSlotSize b)) (of_int (mTotalSize b));
     Some (b\<lparr>mRingBuffer := mem, mWritePosition := wpos, mFullSlots := mFullSlots b + 1\<rparr>)
   }"

definition copy_slot_out :: "RingBuffer \<Rightarrow> (bytes \<times> RingBuffer) option" where
  "copy_slot_out b = do {
     n \<leftarrow> byte_count (mSlotSize b);
     slot \<leftarrow> mem_read (mRingBuffer b) (unat (mReadPosition b)) n;
     last \<leftarrow> mem_write (mLastReadSlot b) 0 slot;
     Some (slot, b\<lparr>mLastReadSlot := last\<rparr>)
   }"

definition insertSlotNonBlocking :: "bytes \<Rightarrow> int \<Rightarrow> int \<Rightarrow> int \<Rightarrow> RingBuffer \<Rightarrow> (bool \<times> RingBuffer) option" where
  "insertSlotNonBlocking ptrToSlot len lostLen seq_num b =
     (if len \<noteq> mSlotSize b \<and> 0 \<noteq> len then Some (False, b)
      else do {
        b \<leftarrow> (if 0 < lostLen then do {
            lostCount \<leftarrow> cxx_div lostLen (mSlotSize b);
            sk \<leftarrow> checked_int (mSkewRaw b - lostCount);
            Some (b\<lparr>mBufDecPktLoss := mBufDecPktLoss b + of_int lostCount, mSkewRaw := sk,
              mLevelCur := dbl_sub (mLevelCur b) (of_int lostCount)\<rparr>)
          } else Some b);
        b \<leftarrow> updateReadStats b;
        if mFullSlots b = mNumSlots b
        then do { b \<leftarrow> overflowReset b; Some (True, b) }
        else do { b \<leftarrow> write_slot ptrToSlot b; Some (True, b) }
      })"

text \<open>The blocking insertion up to its wait, and its continuation once the buffer is not full.\<close>

definition insertSlotBlocking_enter :: "RingBuffer \<Rightarrow> RingBuffer option" where
  "insertSlotBlocking_enter b = updateReadStats b"

definition insertSlotBlocking_resume :: "bytes \<Rightarrow> RingBuffer \<Rightarrow> RingBuffer option option" where
  "insertSlotBlocking_resume ptrToSlot b =
     (if mFullSlots b = mNumSlots b then Some None
      else do { b \<leftarrow> write_slot ptrToSlot b; Some (Some b) })"

text \<open>
  The underrun slot: zeros in \<open>RingBuffer\<close>, the last slot read in \<open>RingBufferWavetable\<close>.
  \<open>readSlotNonBlocking\<close> calls the virtual function, so it takes it as an argument.
\<close>

definition setUnderrunReadSlot :: "RingBuffer \<Rightarrow> bytes option" where
  "setUnderrunReadSlot b = do { n \<leftarrow> byte_count (mSlotSize b); Some (replicate n 0) }"

definition setMemoryInReadSlotWithLastReadSlot :: "RingBuffer \<Rightarrow> bytes option" where
  "setMemoryInReadSlotWithLastReadSlot b =
     do { n \<leftarrow> byte_count (mSlotSize b); mem_read (mLastReadSlot b) 0 n }"

definition wavetable_setUnderrunReadSlot :: "RingBuffer \<Rightarrow> bytes option" where
  "wavetable_setUnderrunReadSlot b = setMemoryInReadSlotWithLastReadSlot b"

definition readSlotNonBlocking :: "(RingBuffer \<Rightarrow> bytes option) \<Rightarrow> RingBuffer \<Rightarrow> (bytes \<times> RingBuffer) option" where
  "readSlotNonBlocking setUnderrun b = do {
     let b = b\<lparr>mReadsNew := mReadsNew b + 1\<rparr>;
     let b = b\<lparr>mLevelCur := (if of_int (mFullSlots b) < mLevelCur b
           then max (of_int (mFullSlots b)) (dbl_sub (mLevelCur b) (mLevelDownRate b))
           else of_int (mFullSlots b))\<rparr>;
     if mFullSlots b \<le> 0 then do {
       slot \<leftarrow> setUnderrun b;
       b \<leftarrow> underrunReset b;
       Some (slot, b)
     } else do {
       (slot, b) \<leftarrow> copy_slot_out b;
       rpos \<leftarrow> u32_mod (mReadPosition b + of_int (mSlotSize b)) (of_int (mTotalSize b));
       Some (slot, b\<lparr>mReadPosition := rpos, mFullSlots := mFullSlots b - 1\<rparr>)
     }
   }"

text \<open>
  The blocking read up to its wait, and one turn of its loop: it returns without a slot when
  the audio was stopped during the wait (\<open>Stopped\<close>), waits again, or takes a slot.
\<close>

datatype read_turn = Stopped | Wait | Got bytes RingBuffer

definition readSlotBlocking_enter :: "RingBuffer \<Rightarrow> RingBuffer" where
  "readSlotBlocking_enter b = b\<lparr>mReadsNew := mReadsNew b + 1\<rparr>"

definition readSlotBlocking_turn :: "bool \<Rightarrow> bool \<Rightarrow> RingBuffer \<Rightarrow> read_turn option" where
  "readSlotBlocking_turn after_wait sAudioStopped b =
     (if after_wait \<and> sAudioStopped then Some Stopped
      else if mFullSlots b = 0 then Some Wait
      else do {
        (slot, b) \<leftarrow> copy_slot_out b;
        rpos \<leftarrow> (if 0 = mTotalSize b then Some (mReadPosition b)
          else u32_mod (mReadPosition b + of_int (mSlotSize b)) (of_int (mTotalSize b)));
        Some (Got slot (b\<lparr>mReadPosition := rpos, mFullSlots := mFullSlots b - 1\<rparr>))
      })"

definition readBroadcastSlot :: "RingBuffer \<Rightarrow> bytes option" where
  "readBroadcastSlot b = do { n \<leftarrow> byte_count (mSlotSize b); Some (replicate n 0) }"

definition setQueueBufferLength :: "int \<Rightarrow> RingBuffer \<Rightarrow> RingBuffer" where
  "setQueueBufferLength queueBuffer b = b"

definition getLatency :: "RingBuffer \<Rightarrow> dbl" where
  "getLatency b = -1"

text \<open>Division of an \<open>int\<close> statistic by the unit; \<open>-2147483648 / -1\<close> does not fit.\<close>

definition int_div :: "int \<Rightarrow> int \<Rightarrow> int option" where
  "int_div a b = do { q \<leftarrow> cxx_div a b; checked_int q }"

definition getStats_reset :: "bool \<Rightarrow> RingBuffer \<Rightarrow> RingBuffer" where
  "getStats_reset reset b =
     (if reset then
        b\<lparr>mUnderruns := 0, mOverflows := 0, mSkew0 := mLevel b, mSkewRaw := 0, mBufDecOverflow := 0,
          mBufDecPktLoss := 0, mBufIncUnderrun := 0, mBufIncCompensate := 0, mBroadcastSkew := 0\<rparr>
      else b)"

definition getStats :: "bool \<Rightarrow> RingBuffer \<Rightarrow> (IOStat \<times> RingBuffer) option" where
  "getStats reset b0 = do {
     let b = getStats_reset reset b0;
     let unit = of_int (mStatUnit b);
     un \<leftarrow> u32_div (mUnderruns b) unit;
     ov \<leftarrow> u32_div (mOverflows b) unit;
     dl \<leftarrow> checked_int (mSkew0 b - mLevel b);
     sk \<leftarrow> int_div (sint (of_int dl + mBufIncUnderrun b + mBufIncCompensate b
             - mBufDecOverflow b - mBufDecPktLoss b)) (mStatUnit b);
     sr \<leftarrow> int_div (mSkewRaw b) (mStatUnit b);
     lv \<leftarrow> int_div (mLevel b) (mStatUnit b);
     dov \<leftarrow> u32_div (mBufDecOverflow b) unit;
     dpl \<leftarrow> u32_div (mBufDecPktLoss b) unit;
     iu \<leftarrow> u32_div (mBufIncUnderrun b) unit;
     ic \<leftarrow> u32_div (mBufIncCompensate b) unit;
     Some (\<lparr>underruns = un, overflows = ov, skew = sk, skew_raw = sr, level = lv,
       buf_dec_overflows = dov, buf_dec_pktloss = dpl, buf_inc_underrun = iu,
       buf_inc_compensate = ic, broadcast_skew = mBroadcastSkew b,
       broadcast_delta = mBroadcastDelta b, autoq_corr = 0, autoq_rate = 0\<rparr>, b)
   }"

end
