(* ===== verification/RingBufferSpec.thy ===== *)
theory RingBufferSpec
  imports RingBuffer "HOL-Library.Sublist"
begin

text \<open>
  What \<open>RingBuffer\<close> promises: the invariant of the positions, the operations on the abstract
  list of slots, the FIFO contract of a buffer that neither overflows nor runs empty, and the
  send ring as a monitor that the audio callback fills and the network thread waits on.
\<close>

section \<open>Invariant and abstraction\<close>

text \<open>
  The abstract state is the list of the slots still to be read, oldest first.  \<open>S\<close> and \<open>N\<close> are
  the slot size and the number of slots; positions are byte offsets of slot starts, and the write
  position is \<open>mFullSlots\<close> slots ahead of the read position.
\<close>

definition slot_list :: "nat \<Rightarrow> nat \<Rightarrow> bytes \<Rightarrow> bytes list" where
  "slot_list S N mem = map (\<lambda>i. take S (drop (i * S) mem)) [0..<N]"

definition rb_inv :: "nat \<Rightarrow> nat \<Rightarrow> RingBuffer \<Rightarrow> bool" where
  "rb_inv S N b \<longleftrightarrow> 0 < S \<and> 0 < N \<and> S * N < 2147483648 \<and>
     mSlotSize b = int S \<and> mNumSlots b = int N \<and> mTotalSize b = int (S * N) \<and>
     length (mRingBuffer b) = S * N \<and> length (mLastReadSlot b) = S \<and>
     0 \<le> mFullSlots b \<and> mFullSlots b \<le> int N \<and>
     S dvd unat (mReadPosition b) \<and> unat (mReadPosition b) < S * N \<and>
     unat (mWritePosition b) = ((unat (mReadPosition b) div S + nat (mFullSlots b)) mod N) * S"

definition slots :: "nat \<Rightarrow> nat \<Rightarrow> RingBuffer \<Rightarrow> bytes list" where
  "slots S N b = ring_items (slot_list S N (mRingBuffer b)) (unat (mReadPosition b) div S) (nat (mFullSlots b))"

text \<open>Both depend on the geometry of the ring only, not on the statistics.\<close>

definition same_ring :: "RingBuffer \<Rightarrow> RingBuffer \<Rightarrow> bool" where
  "same_ring a b \<longleftrightarrow> mSlotSize a = mSlotSize b \<and> mNumSlots a = mNumSlots b \<and>
     mTotalSize a = mTotalSize b \<and> mReadPosition a = mReadPosition b \<and>
     mWritePosition a = mWritePosition b \<and> mFullSlots a = mFullSlots b \<and>
     mRingBuffer a = mRingBuffer b \<and> mLastReadSlot a = mLastReadSlot b"

lemma same_ring_inv: "same_ring a b \<Longrightarrow> rb_inv S N a = rb_inv S N b"
  by (simp add: same_ring_def rb_inv_def)

lemma same_ring_slots: "same_ring a b \<Longrightarrow> slots S N a = slots S N b"
  by (simp add: same_ring_def slots_def)

text \<open>The statistics that the next operations depend on.\<close>

definition same_stats :: "RingBuffer \<Rightarrow> RingBuffer \<Rightarrow> bool" where
  "same_stats a b \<longleftrightarrow> mSkewRaw a = mSkewRaw b \<and> mReadsNew a = mReadsNew b \<and>
     mLevelCur a = mLevelCur b \<and> mLevelDownRate a = mLevelDownRate b"

lemma slot_list_length [simp]: "length (slot_list S N mem) = N"
  by (simp add: slot_list_def)

lemma slot_list_nth: "i < N \<Longrightarrow> slot_list S N mem ! i = take S (drop (i * S) mem)"
  by (simp add: slot_list_def)

lemma slot_bound: "i < N \<Longrightarrow> i * S + S \<le> S * (N :: nat)"
  by (metis add.commute mult.commute mult_Suc mult_le_mono1 Suc_leI)

lemma slot_list_write:
  assumes "mem_write mem (w * S) src = Some mem'" and "length src = S" and "w < N"
  shows "slot_list S N mem' = (slot_list S N mem)[w := src]"
proof (rule nth_equalityI)
  fix i
  assume "i < length (slot_list S N mem')"
  then have i: "i < N" by simp
  show "slot_list S N mem' ! i = (slot_list S N mem)[w := src] ! i"
  proof (cases "i = w")
    case True
    then show ?thesis
      using mem_write_same [OF assms(1)] assms(2,3) i by (simp add: slot_list_nth)
  next
    case False
    have "i * S + S \<le> w * S \<or> w * S + length src \<le> i * S"
    proof (cases "i < w")
      case True
      then show ?thesis using slot_bound [of i w S] by (simp add: mult.commute)
    next
      case False
      with \<open>i \<noteq> w\<close> have "w < i" by simp
      then show ?thesis using slot_bound [of w i S] assms(2) by (simp add: mult.commute)
    qed
    then show ?thesis
      using mem_write_other [OF assms(1)] False i by (simp add: slot_list_nth)
  qed
qed simp

text \<open>Positions advance by whole slots.\<close>

lemma slot_mod: "(r * S + d * S) mod (S * N) = ((r + d) mod N) * (S :: nat)"
  by (simp add: mult_mod_left mult.commute [of S N] add_mult_distrib)

lemma slot_advance:
  assumes "rb_inv S N b" and "unat p = r * S" and "r < N" and "d \<le> N"
  shows "\<exists>q. u32_mod (p + of_int (int d * mSlotSize b)) (of_int (mTotalSize b)) = Some q \<and>
    unat q = ((r + d) mod N) * S"
proof -
  have le: "d * S \<le> S * N" using assms(4) by (simp add: mult.commute)
  have lt: "r * S < S * N" using assms(1,3) by (simp add: rb_inv_def mult.commute)
  have T: "S * N < 2147483648" "0 < S * N" using assms(1) by (simp_all add: rb_inv_def)
  have "int (unat p) + int (d * S) < 4294967296" unfolding assms(2) using le lt T by linarith
  then obtain q where "u32_mod (p + of_int (int (d * S))) (of_int (int (S * N))) = Some q"
    "unat q = (unat p + nat (int (d * S))) mod nat (int (S * N))"
    using u32_advance [of "int (d * S)" p "int (S * N)"] T by (auto simp del: of_nat_mult)
  then show ?thesis
    using assms(1,2) slot_mod [of r S d N] by (auto simp: rb_inv_def nat_mult_distrib)
qed

lemma rb_read_index:
  assumes "rb_inv S N b"
  shows "unat (mReadPosition b) = unat (mReadPosition b) div S * S" and "unat (mReadPosition b) div S < N"
proof -
  have "S dvd unat (mReadPosition b)" "unat (mReadPosition b) < S * N" "0 < S"
    using assms by (simp_all add: rb_inv_def)
  then show "unat (mReadPosition b) = unat (mReadPosition b) div S * S"
    and "unat (mReadPosition b) div S < N"
    by (simp_all add: div_less_iff_less_mult mult.commute)
qed

section \<open>The operations on the abstract slots\<close>

lemma write_slot_room:
  assumes inv: "rb_inv S N b" and "mFullSlots b < mNumSlots b" and "S \<le> length ptr"
  shows "\<exists>b'. write_slot ptr b = Some b' \<and> rb_inv S N b' \<and> slots S N b' = slots S N b @ [take S ptr] \<and>
    mFullSlots b' = mFullSlots b + 1 \<and> same_stats b' b"
proof -
  let ?r = "unat (mReadPosition b) div S" and ?n = "nat (mFullSlots b)"
  let ?w = "(?r + ?n) mod N"
  have geo: "mSlotSize b = int S" "0 < S" "0 < N" "length (mRingBuffer b) = S * N" "?n < N"
    "unat (mWritePosition b) = ?w * S" "0 \<le> mFullSlots b"
    using inv assms(2) by (auto simp: rb_inv_def)
  have w: "?w < N" using geo(3) by simp
  have "?w * S + S \<le> length (mRingBuffer b)" using slot_bound [OF w, of S] geo(4) by simp
  then obtain mem where mem: "mem_write (mRingBuffer b) (?w * S) (take S ptr) = Some mem"
    using assms(3) by (simp add: mem_write_def)
  obtain q where q: "u32_mod (mWritePosition b + of_int (mSlotSize b)) (of_int (mTotalSize b)) = Some q"
    "unat q = ((?w + 1) mod N) * S"
    using slot_advance [OF inv geo(6) w, of 1] geo(3) by auto
  have nw: "nat (mFullSlots b + 1) = Suc ?n" using geo(7) by simp
  have read: "mem_read ptr 0 S = Some (take S ptr)" using assms(3) by (simp add: mem_read_def)
  have sl: "slot_list S N mem = (slot_list S N (mRingBuffer b))[?w := take S ptr]"
    using slot_list_write [OF mem] assms(3) w by simp
  let ?b = "b\<lparr>mRingBuffer := mem, mWritePosition := q, mFullSlots := mFullSlots b + 1\<rparr>"
  have "write_slot ptr b = Some ?b"
    using geo(1,6) read mem q(1) by (simp add: write_slot_def)
  moreover have "rb_inv S N ?b"
    using inv assms(2) mem_write_length [OF mem] q(2) nw by (simp add: rb_inv_def mod_simps)
  moreover have "slots S N ?b = slots S N b @ [take S ptr]"
    using ring_items_write [of ?n "slot_list S N (mRingBuffer b)" ?r "take S ptr"] geo(5) sl nw
    by (simp add: slots_def)
  ultimately show ?thesis by (auto simp: same_stats_def)
qed

lemma copy_slot_out_item:
  assumes inv: "rb_inv S N b"
  shows "copy_slot_out b =
    Some (slot_list S N (mRingBuffer b) ! (unat (mReadPosition b) div S),
      b\<lparr>mLastReadSlot := slot_list S N (mRingBuffer b) ! (unat (mReadPosition b) div S)\<rparr>)"
proof -
  let ?r = "unat (mReadPosition b) div S"
  note r = rb_read_index [OF inv]
  have geo: "mSlotSize b = int S" "length (mRingBuffer b) = S * N" "length (mLastReadSlot b) = S"
    using inv by (simp_all add: rb_inv_def)
  have "?r * S + S \<le> length (mRingBuffer b)" using slot_bound [OF r(2), of S] geo(2) by simp
  then have "mem_read (mRingBuffer b) (unat (mReadPosition b)) S = Some (slot_list S N (mRingBuffer b) ! ?r)"
    using r by (simp add: mem_read_def slot_list_nth)
  moreover from this have "length (slot_list S N (mRingBuffer b) ! ?r) = S" by (rule mem_read_length)
  ultimately show ?thesis using geo by (simp add: copy_slot_out_def mem_write_def)
qed

lemma take_slot:
  assumes inv: "rb_inv S N b" and "slots S N b = x # xs"
  shows "\<exists>q. u32_mod (mReadPosition b + of_int (mSlotSize b)) (of_int (mTotalSize b)) = Some q \<and>
    copy_slot_out b = Some (x, b\<lparr>mLastReadSlot := x\<rparr>) \<and>
    rb_inv S N (b\<lparr>mLastReadSlot := x, mReadPosition := q, mFullSlots := mFullSlots b - 1\<rparr>) \<and>
    slots S N (b\<lparr>mLastReadSlot := x, mReadPosition := q, mFullSlots := mFullSlots b - 1\<rparr>) = xs"
proof -
  let ?r = "unat (mReadPosition b) div S" and ?n = "nat (mFullSlots b)"
  note r = rb_read_index [OF inv]
  have N: "0 < N" "0 < S" "1 \<le> N" using inv by (simp_all add: rb_inv_def Suc_le_eq)
  have len: "length (slots S N b) = ?n" by (simp add: slots_def)
  then obtain m where m: "?n = Suc m" using assms(2) by (cases ?n) auto
  then have full: "nat (mFullSlots b - 1) = m" "1 \<le> mFullSlots b" by linarith+
  obtain q where q: "u32_mod (mReadPosition b + of_int (mSlotSize b)) (of_int (mTotalSize b)) = Some q"
    "unat q = ((?r + 1) mod N) * S"
    using slot_advance [OF inv r N(3)] by auto
  then have qd: "unat q div S = (?r + 1) mod N" using N by simp
  have split: "slots S N b = slot_list S N (mRingBuffer b) ! ?r # 
      ring_items (slot_list S N (mRingBuffer b)) ((?r + 1) mod N) m"
    using r(2) by (simp add: slots_def m ring_items_Suc)
  then have x: "slot_list S N (mRingBuffer b) ! ?r = x" "ring_items (slot_list S N (mRingBuffer b)) ((?r + 1) mod N) m = xs"
    using assms(2) by simp_all
  have "length x = S"
    using x(1) slot_bound [OF r(2), of S] inv r(2) by (auto simp: slot_list_nth rb_inv_def)
  moreover have "(?r + 1) mod N * S < S * N" using N by (simp add: mult.commute)
  moreover have "((?r + 1) mod N + m) mod N = (?r + ?n) mod N"
    by (simp add: m mod_simps)
  ultimately have "rb_inv S N (b\<lparr>mLastReadSlot := x, mReadPosition := q, mFullSlots := mFullSlots b - 1\<rparr>)"
    using inv q(2) qd full m by (simp add: rb_inv_def)
  moreover have "slots S N (b\<lparr>mLastReadSlot := x, mReadPosition := q, mFullSlots := mFullSlots b - 1\<rparr>) = xs"
    using x(2) qd full by (simp add: slots_def)
  ultimately show ?thesis using q(1) copy_slot_out_item [OF inv] x(1) by auto
qed

lemma overflowReset_drop:
  assumes inv: "rb_inv S N b" and "mFullSlots b = mNumSlots b"
  shows "\<exists>b'. overflowReset b = Some b' \<and> rb_inv S N b' \<and> slots S N b' = drop (N div 2) (slots S N b) \<and>
    mOverflows b' = mOverflows b + of_nat (N div 2 + 1) \<and> mSkewRaw b' = mSkewRaw b"
proof -
  let ?r = "unat (mReadPosition b) div S" and ?d = "N div 2"
  note r = rb_read_index [OF inv]
  have geo: "mSlotSize b = int S" "mNumSlots b = int N" "0 < S" "0 < N" "S * N < 2147483648"
    using inv by (simp_all add: rb_inv_def)
  have "?d * S \<le> S * N" by (simp add: mult.commute)
  then have "?d * S < 2147483648" using geo(5) by linarith
  then have k: "int32_range (int ?d * int S)"
    using int32_range_of_nat [of "?d * S"] by simp
  obtain q where q: "u32_mod (mReadPosition b + of_int (int ?d * mSlotSize b)) (of_int (mTotalSize b)) = Some q"
    "unat q = ((?r + ?d) mod N) * S"
    using slot_advance [OF inv r, of ?d] by auto
  then have qd: "unat q div S = (?r + ?d) mod N" using geo by simp
  have d: "cxx_div (mNumSlots b) 2 = Some (int ?d)"
    using geo by (simp add: cxx_div_pos zdiv_int)
  let ?b = "b\<lparr>mReadPosition := q, mFullSlots := mFullSlots b - int ?d,
      mOverflows := mOverflows b + of_int (int ?d + 1),
      mBufDecOverflow := mBufDecOverflow b + of_int (int ?d + 1),
      mLevelCur := dbl_sub (mLevelCur b) (of_int (int ?d))\<rparr>"
  have "overflowReset b = Some ?b"
    using d k q(1) geo(1) by (simp add: overflowReset_def)
  moreover have full: "nat (mFullSlots b - int ?d) = N - ?d"
    using assms(2) geo(2) by (simp add: nat_diff_distrib)
  moreover have "((?r + ?d) mod N + (N - ?d)) mod N = (?r + ?d + (N - ?d)) mod N"
    by (rule mod_add_left_eq)
  moreover have "(?r + ?d) mod N * S < S * N" using geo by (simp add: mult.commute)
  moreover have "slots S N ?b = drop ?d (slots S N b)"
    using ring_items_drop [of ?d N "slot_list S N (mRingBuffer b)" ?r] assms(2) geo(2) qd full
    by (simp add: slots_def)
  ultimately show ?thesis
    using inv q(2) qd assms(2) geo(2) by (auto simp: rb_inv_def)
qed

lemma underrunReset_empty:
  assumes inv: "rb_inv S N b" and "mFullSlots b = 0"
  shows "\<exists>b'. underrunReset b = Some b' \<and> rb_inv S N b' \<and> slots S N b' = [] \<and>
    mUnderrunsNew b' = mUnderrunsNew b + 1 \<and> mLastReadSlot b' = mLastReadSlot b"
  using assms by (auto simp: underrunReset_def mem_set_def mem_write_def rb_inv_def slots_def nat_mult_distrib)


text \<open>
  Room in the statistics: the updates of an insertion stay in the range of \<open>int\<close>.  The level
  only falls between two reads when packets are lost, and \<open>mSkewRaw\<close> by one per insertion.
\<close>

definition stats_ok :: "RingBuffer \<Rightarrow> bool" where
  "stats_ok b \<longleftrightarrow> - 1073741824 \<le> mSkewRaw b \<and> mSkewRaw b \<le> 1073741824 \<and>
     - 1073741824 \<le> mLevelCur b \<and> mLevelCur b \<le> 1073741824"

text \<open>The state after the statistics of an insertion.\<close>

definition account_loss :: "int \<Rightarrow> RingBuffer \<Rightarrow> RingBuffer option" where
  "account_loss lostLen b =
     (if 0 < lostLen then do {
        lostCount \<leftarrow> cxx_div lostLen (mSlotSize b);
        sk \<leftarrow> checked_int (mSkewRaw b - lostCount);
        Some (b\<lparr>mBufDecPktLoss := mBufDecPktLoss b + of_int lostCount, mSkewRaw := sk,
          mLevelCur := dbl_sub (mLevelCur b) (of_int lostCount)\<rparr>)
      } else Some b)"

lemma insertSlotNonBlocking_alt:
  "len = mSlotSize b \<or> len = 0 \<Longrightarrow>
    insertSlotNonBlocking ptr len lostLen seq b = do {
      b \<leftarrow> account_loss lostLen b;
      b \<leftarrow> updateReadStats b;
      if mFullSlots b = mNumSlots b
      then do { b \<leftarrow> overflowReset b; Some (True, b) }
      else do { b \<leftarrow> write_slot ptr b; Some (True, b) }
    }"
  by (auto simp: insertSlotNonBlocking_def account_loss_def)

lemma account_loss_ok:
  assumes "rb_inv S N b" and "stats_ok b" and "lostLen \<le> 536870912"
  shows "\<exists>b'. account_loss lostLen b = Some b' \<and> same_ring b' b \<and>
    int32_range (mSkewRaw b' - 1) \<and> int32_range \<lceil>mLevelCur b'\<rceil> \<and>
    mReadsNew b' = mReadsNew b \<and> mOverflows b' = mOverflows b"
proof (cases "0 < lostLen")
  case False
  then show ?thesis
    using assms(2)
    by (auto simp: account_loss_def same_ring_def stats_ok_def int32_range_def le_ceiling_iff
        ceiling_less_iff less_ceiling_iff ceiling_le_iff intro!: order_le_less_trans [of "\<lceil>_\<rceil>" 1073741824])
next
  case True
  let ?c = "lostLen div mSlotSize b"
  have S: "1 \<le> mSlotSize b" using assms(1) by (auto simp: rb_inv_def)
  have c: "0 \<le> ?c" "?c \<le> 536870912"
    using True S assms(3) zdiv_mono2 [of lostLen 1 "mSlotSize b"]
    by (auto simp: pos_imp_zdiv_nonneg_iff)
  have div: "cxx_div lostLen (mSlotSize b) = Some ?c" using True S by (simp add: cxx_div_pos)
  have sk: "int32_range (mSkewRaw b - ?c)" "int32_range (mSkewRaw b - ?c - 1)"
    using assms(2) c by (auto simp: stats_ok_def int32_range_def)
  have "of_int (-1610612736) \<le> mLevelCur b - of_int ?c" "mLevelCur b - of_int ?c \<le> of_int 1073741824"
    using assms(2) c by (auto simp: stats_ok_def) 
  then have "of_int (-1610612736) \<le> dbl_sub (mLevelCur b) (of_int ?c)"
    "dbl_sub (mLevelCur b) (of_int ?c) \<le> of_int 1073741824"
    using dbl_round_int_bounds [of "-1610612736" "mLevelCur b - of_int ?c"]
      dbl_round_int_bounds [of 1073741824 "mLevelCur b - of_int ?c"]
    by (simp_all add: dbl_sub_def)
  then have "int32_range \<lceil>dbl_sub (mLevelCur b) (of_int ?c)\<rceil>"
    by (simp add: int32_range_def)
  then show ?thesis
    using True div sk by (simp add: account_loss_def same_ring_def)
qed


lemma updateReadStats_ok:
  assumes "int32_range (mSkewRaw b - 1)" and "int32_range \<lceil>mLevelCur b\<rceil>"
  shows "\<exists>b'. updateReadStats b = Some b' \<and> same_ring b' b \<and> mReadsNew b' = 0 \<and>
    mOverflows b' = mOverflows b \<and> mLevelCur b' = mLevelCur b \<and>
    mSkewRaw b' = sint (of_int (mSkewRaw b - 1) + mReadsNew b)"
  using assms by (simp add: updateReadStats_def same_ring_def)

lemma insert_stats_ok:
  assumes "rb_inv S N b" and "stats_ok b" and "lostLen \<le> 536870912"
  shows "\<exists>b1 b2. account_loss lostLen b = Some b1 \<and> updateReadStats b1 = Some b2 \<and>
    rb_inv S N b2 \<and> slots S N b2 = slots S N b \<and> mFullSlots b2 = mFullSlots b \<and>
    mNumSlots b2 = mNumSlots b \<and> mOverflows b2 = mOverflows b"
proof -
  obtain b1 where b1: "account_loss lostLen b = Some b1" "same_ring b1 b"
    "int32_range (mSkewRaw b1 - 1)" "int32_range \<lceil>mLevelCur b1\<rceil>" "mOverflows b1 = mOverflows b"
    using account_loss_ok [OF assms] by blast
  obtain b2 where b2: "updateReadStats b1 = Some b2" "same_ring b2 b1" "mOverflows b2 = mOverflows b1"
    using updateReadStats_ok [OF b1(3,4)] by blast
  have "same_ring b2 b" using b1(2) b2(2) by (simp add: same_ring_def)
  then show ?thesis
    using assms(1) b1 b2 same_ring_inv [of b2 b S N] same_ring_slots [of b2 b S N]
    by (auto simp: same_ring_def)
qed

lemma insertSlotNonBlocking_room:
  assumes "rb_inv S N b" and "stats_ok b" and "lostLen \<le> 536870912" and "len = int S \<or> len = 0"
    and "S \<le> length ptr" and "length (slots S N b) < N"
  shows "\<exists>b'. insertSlotNonBlocking ptr len lostLen seq b = Some (True, b') \<and> rb_inv S N b' \<and>
    slots S N b' = slots S N b @ [take S ptr]"
proof -
  obtain b1 b2 where b: "account_loss lostLen b = Some b1" "updateReadStats b1 = Some b2"
    "rb_inv S N b2" "slots S N b2 = slots S N b" "mFullSlots b2 = mFullSlots b"
    "mNumSlots b2 = mNumSlots b"
    using insert_stats_ok [OF assms(1-3)] by blast
  have full: "mFullSlots b2 < mNumSlots b2"
    using assms(1,6) b(5,6) by (simp add: slots_def rb_inv_def)
  have "len = mSlotSize b \<or> len = 0" using assms(1,4) by (simp add: rb_inv_def)
  then show ?thesis
    using write_slot_room [OF b(3) full assms(5)] b full
    by (auto simp: insertSlotNonBlocking_alt)
qed

lemma insertSlotNonBlocking_overflow:
  assumes "rb_inv S N b" and "stats_ok b" and "lostLen \<le> 536870912" and "len = int S \<or> len = 0"
    and "length (slots S N b) = N"
  shows "\<exists>b'. insertSlotNonBlocking ptr len lostLen seq b = Some (True, b') \<and> rb_inv S N b' \<and>
    slots S N b' = drop (N div 2) (slots S N b) \<and> mOverflows b' = mOverflows b + of_nat (N div 2 + 1)"
proof -
  obtain b1 b2 where b: "account_loss lostLen b = Some b1" "updateReadStats b1 = Some b2"
    "rb_inv S N b2" "slots S N b2 = slots S N b" "mFullSlots b2 = mFullSlots b"
    "mNumSlots b2 = mNumSlots b" "mOverflows b2 = mOverflows b"
    using insert_stats_ok [OF assms(1-3)] by blast
  have full: "mFullSlots b2 = mNumSlots b2"
    using assms(1,5) b(5,6) by (auto simp: slots_def rb_inv_def)
  have "len = mSlotSize b \<or> len = 0" using assms(1,4) by (simp add: rb_inv_def)
  then show ?thesis
    using overflowReset_drop [OF b(3) full] b full
    by (auto simp: insertSlotNonBlocking_alt)
qed

text \<open>What a non-blocking read does to the statistics before it looks at the slots.\<close>

definition account_read :: "RingBuffer \<Rightarrow> RingBuffer" where
  "account_read b = b\<lparr>mReadsNew := mReadsNew b + 1,
     mLevelCur := (if of_int (mFullSlots b) < mLevelCur b
       then max (of_int (mFullSlots b)) (dbl_sub (mLevelCur b) (mLevelDownRate b))
       else of_int (mFullSlots b))\<rparr>"

lemma account_read_same: "same_ring (account_read b) b"
  by (simp add: account_read_def same_ring_def)

lemma readSlotNonBlocking_alt:
  "readSlotNonBlocking f b = (let b = account_read b in
     if mFullSlots b \<le> 0 then do {
       slot \<leftarrow> f b; b \<leftarrow> underrunReset b; Some (slot, b)
     } else do {
       (slot, b) \<leftarrow> copy_slot_out b;
       rpos \<leftarrow> u32_mod (mReadPosition b + of_int (mSlotSize b)) (of_int (mTotalSize b));
       Some (slot, b\<lparr>mReadPosition := rpos, mFullSlots := mFullSlots b - 1\<rparr>)
     })"
  by (simp add: readSlotNonBlocking_def account_read_def Let_def)

lemma slots_nonempty: "slots S N b = x # xs \<Longrightarrow> 0 < mFullSlots b"
  by (cases "mFullSlots b \<le> 0") (auto simp: slots_def)

lemma readSlotNonBlocking_item:
  assumes "rb_inv S N b" and "slots S N b = x # xs"
  shows "\<exists>b'. readSlotNonBlocking f b = Some (x, b') \<and> rb_inv S N b' \<and> slots S N b' = xs \<and>
    mLastReadSlot b' = x \<and> same_stats b' (account_read b) \<and>
    mFullSlots b' = mFullSlots b - 1"
proof -
  let ?b = "account_read b"
  have inv: "rb_inv S N ?b" and sl: "slots S N ?b = x # xs"
    using assms same_ring_inv [OF account_read_same] same_ring_slots [OF account_read_same] by auto
  have "0 < mFullSlots ?b" using sl by (rule slots_nonempty)
  then show ?thesis
    using take_slot [OF inv sl]
    by (auto simp: readSlotNonBlocking_alt Let_def account_read_def same_stats_def)
qed

lemma readSlotNonBlocking_underrun:
  assumes "rb_inv S N b" and "slots S N b = []" and "f (account_read b) = Some slot"
  shows "\<exists>b'. readSlotNonBlocking f b = Some (slot, b') \<and> rb_inv S N b' \<and> slots S N b' = [] \<and>
    mUnderrunsNew b' = mUnderrunsNew b + 1 \<and> mLastReadSlot b' = mLastReadSlot b"
proof -
  let ?b = "account_read b"
  have inv: "rb_inv S N ?b" and full: "mFullSlots ?b = 0"
    using assms(1,2) same_ring_inv [OF account_read_same]
    by (auto simp: rb_inv_def slots_def account_read_def ring_items_def)
  then show ?thesis
    using underrunReset_empty [OF inv full] assms(3)
    by (auto simp: readSlotNonBlocking_alt Let_def account_read_def)
qed

lemma underrun_slots:
  assumes "rb_inv S N b"
  shows "setUnderrunReadSlot b = Some (replicate S 0)"
    and "wavetable_setUnderrunReadSlot b = Some (mLastReadSlot b)"
  using assms
  by (simp_all add: setUnderrunReadSlot_def wavetable_setUnderrunReadSlot_def rb_inv_def
      setMemoryInReadSlotWithLastReadSlot_def mem_read_def)

lemma RingBuffer_new_inv:
  assumes "0 < S" and "0 < N" and "S * N < 2147483648"
  shows "\<exists>b. RingBuffer_new (int S) (int N) r u = Some b \<and> rb_inv S N b \<and>
    slots S N b = replicate (N div 2) (replicate S 0) \<and> mReadsNew b = r \<and> mUnderrunsNew b = u \<and>
    mSkewRaw b = 0 \<and> mLevelCur b = of_nat (N div 2) \<and> mLevelDownRate b = dbl_round (1 / 100)"
proof -
  have half: "cxx_div (int N) 2 = Some (int (N div 2))" by (simp add: cxx_div_pos zdiv_int)
  have "N div 2 * S \<le> S * N" by (simp add: mult.commute)
  then have hS: "N div 2 * S < 2147483648" using assms(3) by linarith
  have lt: "N div 2 * S < S * N" using assms(1,2) by (simp add: mult.commute)
  then have wm: "cxx_mod (int (N div 2 * S)) (int (S * N)) = Some (int (N div 2 * S))"
    using assms by (subst cxx_mod_pos) (simp_all flip: of_nat_mult of_nat_mod)
  have pos: "0 < int (S * N)" using assms by simp
  have w: "unat (of_int (int (N div 2 * S)) :: u32) = N div 2 * S"
    using hS by (simp add: unat_of_nat del: of_nat_mult)
  obtain b where b: "RingBuffer_new (int S) (int N) r u = Some b"
    "b = \<lparr>mSlotSize = int S, mNumSlots = int N, mTotalSize = int (S * N),
       mReadPosition = 0, mWritePosition = of_int (int (N div 2 * S)), mFullSlots = int (N div 2),
       mRingBuffer = replicate (S * N) 0, mLastReadSlot = replicate S 0,
       mStatUnit = 1, mUnderruns = 0, mOverflows = 0, mSkewRaw = 0,
       mLevelCur = of_int (int (N div 2)), mLevelDownRate = dbl_round (1 / 100), mLevel = int (N div 2),
       mBufDecOverflow = 0, mBufDecPktLoss = 0, mBufIncUnderrun = 0, mBufIncCompensate = 0,
       mReadsNew = r, mUnderrunsNew = u, mSkew0 = 0,
       mBroadcastSkew = 0, mBroadcastDelta = 0\<rparr>"
    using int32_range_of_nat [OF assms(3)] int32_range_of_nat [OF hS] half wm pos
    unfolding RingBuffer_new_def by (simp flip: of_nat_mult)
  have "slot_list S N (replicate (S * N) 0) ! i = replicate S 0" if "i < N" for i
    using that slot_bound [OF that, of S] by (simp add: slot_list_nth min_def)
  then have "slots S N b = replicate (N div 2) (replicate S 0)"
    using b(2) assms(2) by (intro nth_equalityI) (simp_all add: slots_def)
  moreover have "N div 2 mod N = N div 2" using assms(2) by simp
  then have "rb_inv S N b"
    using assms b(2) w by (simp add: rb_inv_def)
  ultimately show ?thesis using b by auto
qed


section \<open>The buffer as a FIFO\<close>

text \<open>
  Modulo \<open>2 ^ 32\<close>, the sum of \<open>mSkewRaw\<close>, \<open>mReadsNew\<close> and \<open>mFullSlots\<close> does not change, so an insertion that leaves
  \<open>mSkewRaw\<close> at the least \<open>int\<close>, from which the next one could not count down, would need one of \<open>N\<close> values of this
  sum; the buffer works, however many slots pass through it, when the sum is none of them.
\<close>

definition balance :: "RingBuffer \<Rightarrow> u32" where
  "balance b = of_int (mSkewRaw b) + mReadsNew b + of_int (mFullSlots b)"

definition sum_ok :: "nat \<Rightarrow> u32 \<Rightarrow> bool" where
  "sum_ok N w \<longleftrightarrow> (\<forall>f\<in>{1..N}. w \<noteq> 0x80000000 + of_nat f)"

definition flow_inv :: "nat \<Rightarrow> nat \<Rightarrow> RingBuffer \<Rightarrow> bool" where
  "flow_inv S N b \<longleftrightarrow> rb_inv S N b \<and> N \<le> 536870912 \<and>
     int32_range (mSkewRaw b) \<and> mSkewRaw b \<noteq> - 2147483648 \<and> sum_ok N (balance b) \<and>
     0 \<le> mLevelCur b \<and> mLevelCur b \<le> of_nat N \<and> 0 \<le> mLevelDownRate b"

definition ring_put :: "bytes \<Rightarrow> RingBuffer \<Rightarrow> RingBuffer option" where
  "ring_put slot b = (case insertSlotNonBlocking slot 0 0 0 b of Some (True, b') \<Rightarrow> Some b' | _ \<Rightarrow> None)"

definition ring_get :: "RingBuffer \<Rightarrow> (bytes \<times> RingBuffer) option" where
  "ring_get b = readSlotNonBlocking setUnderrunReadSlot b"

lemma flow_stats:
  assumes "flow_inv S N b"
  shows "int32_range (mSkewRaw b - 1)" and "int32_range \<lceil>mLevelCur b\<rceil>"
proof -
  have b: "N \<le> 536870912" "0 \<le> mLevelCur b" "mLevelCur b \<le> of_nat N" using assms by (simp_all add: flow_inv_def)
  show "int32_range (mSkewRaw b - 1)" using assms by (simp add: flow_inv_def int32_range_def)
  have "(of_nat N :: rat) \<le> of_nat 536870912" using b(1) by (simp only: of_nat_le_iff)
  then have "mLevelCur b \<le> 536870912" using b(3) by simp
  then have "\<lceil>mLevelCur b\<rceil> \<le> 536870912" "0 \<le> \<lceil>mLevelCur b\<rceil>" using b(2) by (simp_all add: ceiling_le_iff)
  then show "int32_range \<lceil>mLevelCur b\<rceil>" by (simp add: int32_range_def)
qed

text \<open>What an insertion does to \<open>mSkewRaw\<close>.\<close>

lemma next_skew:
  assumes "flow_inv S N b" and "mFullSlots b < int N" and "x = sint (of_int (mSkewRaw b - 1) + mReadsNew b)"
  shows "int32_range x" and "x \<noteq> - 2147483648" and "of_int x + of_int (mFullSlots b + 1) = balance b"
proof -
  have w: "(of_int x :: u32) = of_int (mSkewRaw b - 1) + mReadsNew b" by (simp add: assms(3))
  show sum: "of_int x + of_int (mFullSlots b + 1) = balance b" by (simp add: w balance_def)
  have "- (2 ^ 31) \<le> x" "x < 2 ^ 31"
    using sint_ge [of "of_int (mSkewRaw b - 1) + mReadsNew b :: u32"] sint_lt [of "of_int (mSkewRaw b - 1) + mReadsNew b :: u32"]
    by (simp_all add: assms(3))
  then show "int32_range x" by (simp add: int32_range_def)
  have f: "nat (mFullSlots b + 1) \<in> {1..N}" "int (nat (mFullSlots b + 1)) = mFullSlots b + 1"
    using assms(1,2) by (auto simp: flow_inv_def rb_inv_def)
  then have "balance b \<noteq> 0x80000000 + of_int (mFullSlots b + 1)"
    using assms(1) by (metis flow_inv_def sum_ok_def of_int_of_nat_eq)
  moreover have "(of_int (- 2147483648) :: u32) = 0x80000000" by simp
  ultimately show "x \<noteq> - 2147483648" using sum by (metis of_int_add)
qed

lemma ring_put_room:
  assumes "flow_inv S N b" and "length x = S" and "length (slots S N b) < N"
  shows "\<exists>b'. ring_put x b = Some b' \<and> flow_inv S N b' \<and> slots S N b' = slots S N b @ [x]"
proof -
  note st = flow_stats [OF assms(1)]
  obtain b2 where b2: "updateReadStats b = Some b2" "same_ring b2 b" "mReadsNew b2 = 0"
    "mLevelCur b2 = mLevelCur b" "mSkewRaw b2 = sint (of_int (mSkewRaw b - 1) + mReadsNew b)"
    "mLevelDownRate b2 = mLevelDownRate b"
    using st by (auto simp: updateReadStats_def same_ring_def)
  have inv: "rb_inv S N b2" and sl: "slots S N b2 = slots S N b" and f: "mFullSlots b2 = mFullSlots b"
    using assms(1) same_ring_inv [OF b2(2)] same_ring_slots [OF b2(2)] b2(2)
    by (auto simp: flow_inv_def same_ring_def)
  have full: "mFullSlots b2 < mNumSlots b2"
    using assms(3) inv sl f by (simp add: rb_inv_def slots_def) 
  obtain b3 where b3: "write_slot x b2 = Some b3" "rb_inv S N b3"
    "slots S N b3 = slots S N b @ [x]" "mFullSlots b3 = mFullSlots b + 1" "same_stats b3 b2"
    using write_slot_room [OF inv full, of x] assms(2) sl f by auto
  have "ring_put x b = Some b3"
    using b2(1) b3(1) full by (simp add: ring_put_def insertSlotNonBlocking_alt account_loss_def)
  moreover have "flow_inv S N b3"
  proof -
    have "mFullSlots b < int N" using full inv f by (simp add: rb_inv_def)
    note skew = next_skew [OF assms(1) this b2(5)]
    have "balance b3 = balance b" using skew(3) b3(4,5) b2(3) by (simp add: same_stats_def balance_def)
    then show ?thesis using assms(1) skew(1,2) b2(4,6) b3(2,5) by (simp add: flow_inv_def same_stats_def)
  qed
  ultimately show ?thesis using b3(3) by auto
qed

lemma ring_get_item:
  assumes "flow_inv S N b" and "slots S N b = x # xs"
  shows "\<exists>b'. ring_get b = Some (x, b') \<and> flow_inv S N b' \<and> slots S N b' = xs"
proof -
  have inv: "rb_inv S N b" using assms(1) by (simp add: flow_inv_def)
  obtain b' where b': "ring_get b = Some (x, b')" "rb_inv S N b'" "slots S N b' = xs"
    "same_stats b' (account_read b)" "mFullSlots b' = mFullSlots b - 1"
    using readSlotNonBlocking_item [OF inv assms(2), of setUnderrunReadSlot] by (auto simp: ring_get_def)
  let ?l = "mLevelCur (account_read b)"
  have full: "0 \<le> mFullSlots b" "mFullSlots b \<le> int N" and N: "\<bar>int N\<bar> \<le> 9007199254740992"
    and lv: "mLevelCur b \<le> of_int (int N)" "0 \<le> mLevelDownRate b"
    using assms(1) by (auto simp: flow_inv_def rb_inv_def)
  have "of_int (mFullSlots b) \<le> (of_int (int N) :: rat)" using full(2) by (simp only: of_int_le_iff)
  moreover have "dbl_sub (mLevelCur b) (mLevelDownRate b) \<le> of_int (int N)"
    unfolding dbl_sub_def using lv by (intro dbl_round_int_bounds [OF N]) linarith
  moreover have "(0 :: rat) \<le> of_int (mFullSlots b)" using full(1) by simp
  ultimately have "0 \<le> ?l \<and> ?l \<le> of_int (int N)"
    by (auto simp: account_read_def le_max_iff_disj)
  moreover have "balance b' = balance b" using b'(4,5) by (simp add: balance_def same_stats_def account_read_def)
  ultimately have "flow_inv S N b'"
    using assms(1) b' by (simp add: flow_inv_def same_stats_def) (simp add: account_read_def)
  then show ?thesis using b' by auto
qed

interpretation ring_fifo: bounded_fifo "flow_inv S N" "\<lambda>x. length x = S" N "slots S N" ring_put ring_get
  for S N
  by unfold_locales (rule ring_put_room ring_get_item; simp)+


section \<open>The send ring as a monitor\<close>

text \<open>
  The audio callback inserts without blocking, the sender thread reads blocking; each holds the
  mutex for one step, and a waiting reader releases it.  A reader that sleeps in
  \<open>mBufferIsNotEmpty.wait\<close> becomes runnable by a \<open>wakeAll\<close> or by the timeout of 200 ms.
  \<open>inserted\<close> and \<open>delivered\<close> are histories.
\<close>

datatype reader = R_idle | R_waiting | R_woken

record send_ring =
  ring :: RingBuffer
  reader :: reader
  sAudioStopped :: bool
  inserted :: "bytes list"
  delivered :: "bytes list"

fun apply_turn :: "read_turn \<Rightarrow> send_ring \<Rightarrow> send_ring" where
  "apply_turn Stopped s = s\<lparr>reader := R_idle\<rparr>"
| "apply_turn Wait s = s\<lparr>reader := R_waiting\<rparr>"
| "apply_turn (Got slot b) s = s\<lparr>reader := R_idle, ring := b, delivered := delivered s @ [slot]\<rparr>"

inductive send_step :: "send_ring \<Rightarrow> send_ring \<Rightarrow> bool" where
  insert_write: "insertSlotNonBlocking p len lostLen seq (ring s) = Some (True, b) \<Longrightarrow>
    mFullSlots (ring s) \<noteq> mNumSlots (ring s) \<Longrightarrow>
    send_step s (s\<lparr>ring := b, reader := (if reader s = R_waiting then R_woken else reader s),
      inserted := inserted s @ [take (nat (mSlotSize (ring s))) p]\<rparr>)"
| insert_overflow: "insertSlotNonBlocking p len lostLen seq (ring s) = Some (True, b) \<Longrightarrow>
    mFullSlots (ring s) = mNumSlots (ring s) \<Longrightarrow> send_step s (s\<lparr>ring := b\<rparr>)"
| read_call: "reader s = R_idle \<Longrightarrow>
    readSlotBlocking_turn False (sAudioStopped s) (readSlotBlocking_enter (ring s)) = Some t \<Longrightarrow>
    send_step s (apply_turn t (s\<lparr>ring := readSlotBlocking_enter (ring s)\<rparr>))"
| read_timeout: "reader s = R_waiting \<Longrightarrow> send_step s (s\<lparr>reader := R_woken\<rparr>)"
| read_resume: "reader s = R_woken \<Longrightarrow>
    readSlotBlocking_turn True (sAudioStopped s) (ring s) = Some t \<Longrightarrow> send_step s (apply_turn t s)"
| stop: "send_step s (s\<lparr>sAudioStopped := True\<rparr>)"

definition send_init :: "RingBuffer \<Rightarrow> nat \<Rightarrow> nat \<Rightarrow> send_ring" where
  "send_init b S N = \<lparr>ring = b, reader = R_idle, sAudioStopped = False,
     inserted = slots S N b, delivered = []\<rparr>"

definition send_inv :: "nat \<Rightarrow> nat \<Rightarrow> send_ring \<Rightarrow> bool" where
  "send_inv S N s \<longleftrightarrow> rb_inv S N (ring s) \<and> (reader s = R_waiting \<longrightarrow> slots S N (ring s) = []) \<and>
     subseq (delivered s @ slots S N (ring s)) (inserted s)"

lemma account_loss_same: "account_loss l b = Some b' \<Longrightarrow> same_ring b' b"
  by (auto simp: account_loss_def same_ring_def split: if_splits bind_splits)

lemma updateReadStats_same: "updateReadStats b = Some b' \<Longrightarrow> same_ring b' b"
  by (auto simp: updateReadStats_def same_ring_def split: bind_splits)

lemma insert_Some:
  assumes inv: "rb_inv S N b" and "insertSlotNonBlocking p len lostLen seq b = Some (True, b')"
  shows "rb_inv S N b' \<and> slots S N b' =
    (if mFullSlots b = mNumSlots b then drop (N div 2) (slots S N b) else slots S N b @ [take S p])"
proof -
  have len: "len = mSlotSize b \<or> len = 0"
    using assms(2) by (auto simp: insertSlotNonBlocking_def split: if_splits)
  obtain b1 b2 where b: "account_loss lostLen b = Some b1" "updateReadStats b1 = Some b2"
    and last: "(if mFullSlots b2 = mNumSlots b2 then overflowReset b2 else write_slot p b2) = Some b'"
    using assms(2) unfolding insertSlotNonBlocking_alt [OF len]
    by (auto split: bind_splits if_splits)
  have same: "same_ring b2 b"
    using account_loss_same [OF b(1)] updateReadStats_same [OF b(2)] by (simp add: same_ring_def)
  then have b2: "rb_inv S N b2" "slots S N b2 = slots S N b" "mFullSlots b2 = mFullSlots b"
    "mNumSlots b2 = mNumSlots b"
    using inv same_ring_inv [OF same] same_ring_slots [OF same] by (simp_all add: same_ring_def)
  show ?thesis
  proof (cases "mFullSlots b = mNumSlots b")
    case True
    then show ?thesis using overflowReset_drop [OF b2(1)] b2 last by auto
  next
    case False
    then have lt: "mFullSlots b2 < mNumSlots b2" using b2 by (simp add: rb_inv_def)
    have "S \<le> length p"
      using last False b2 by (auto simp: write_slot_def rb_inv_def mem_read_def split: bind_splits if_splits)
    then show ?thesis using write_slot_room [OF b2(1) lt, of p] b2 last False by auto
  qed
qed

text \<open>A turn of the blocking read is always defined.\<close>

lemma read_turn_ok:
  assumes inv: "rb_inv S N b"
  shows "slots S N b = [] \<Longrightarrow> \<not> (w \<and> st) \<Longrightarrow> readSlotBlocking_turn w st b = Some Wait"
    and "slots S N b = x # xs \<Longrightarrow> \<not> (w \<and> st) \<Longrightarrow>
      \<exists>b'. readSlotBlocking_turn w st b = Some (Got x b') \<and> rb_inv S N b' \<and> slots S N b' = xs"
proof -
  have full: "slots S N b = [] \<longleftrightarrow> mFullSlots b = 0"
    using inv by (auto simp: slots_def rb_inv_def ring_items_def)
  then show "slots S N b = [] \<Longrightarrow> \<not> (w \<and> st) \<Longrightarrow> readSlotBlocking_turn w st b = Some Wait"
    by (simp add: readSlotBlocking_turn_def)
  assume sl: "slots S N b = x # xs" and go: "\<not> (w \<and> st)"
  have "mTotalSize b \<noteq> 0" "mFullSlots b \<noteq> 0" using inv full sl by (auto simp: rb_inv_def)
  then show "\<exists>b'. readSlotBlocking_turn w st b = Some (Got x b') \<and> rb_inv S N b' \<and> slots S N b' = xs"
    using take_slot [OF inv sl] go by (auto simp: readSlotBlocking_turn_def)
qed

lemma apply_turn_inv:
  assumes "rb_inv S N (ring s)" and "subseq (delivered s @ slots S N (ring s)) (inserted s)"
    and "readSlotBlocking_turn w st (ring s) = Some t"
  shows "send_inv S N (apply_turn t s)"
proof (cases "w \<and> st")
  case True
  then show ?thesis using assms by (auto simp: readSlotBlocking_turn_def send_inv_def)
next
  case False
  show ?thesis
  proof (cases "slots S N (ring s)")
    case Nil
    then have "t = Wait" using assms(3) False read_turn_ok(1) [OF assms(1) Nil False] by simp
    then show ?thesis using assms Nil by (simp add: send_inv_def)
  next
    case (Cons x xs)
    then show ?thesis
      using assms read_turn_ok(2) [OF assms(1) Cons False] by (auto simp: send_inv_def)
  qed
qed

lemma send_inv_step:
  assumes "send_step s s'" and "send_inv S N s"
  shows "send_inv S N s'"
  using assms(1)
proof (cases rule: send_step.cases)
  case (insert_write p len lostLen seq b)
  have inv: "rb_inv S N (ring s)" and sub: "subseq (delivered s @ slots S N (ring s)) (inserted s)"
    using assms(2) by (simp_all add: send_inv_def)
  have "subseq ((delivered s @ slots S N (ring s)) @ [take S p]) (inserted s @ [take S p])"
    using sub by (simp only: subseq_append)
  moreover have "nat (mSlotSize (ring s)) = S" using inv by (simp add: rb_inv_def)
  ultimately show ?thesis
    using insert_write insert_Some [OF inv insert_write(2)] by (auto simp: send_inv_def)
next
  case (insert_overflow p len lostLen seq b)
  have inv: "rb_inv S N (ring s)" and sub: "subseq (delivered s @ slots S N (ring s)) (inserted s)"
    using assms(2) by (simp_all add: send_inv_def)
  have "subseq (delivered s @ drop (N div 2) (slots S N (ring s))) (delivered s @ slots S N (ring s))"
    using subseq_drop_many [OF subseq_order.refl, of "drop (N div 2) (slots S N (ring s))"
        "take (N div 2) (slots S N (ring s))"]
    by (simp add: subseq_append')
  then show ?thesis
    using insert_overflow insert_Some [OF inv insert_overflow(2)] assms(2) subseq_order.trans [OF _ sub]
    by (auto simp: send_inv_def)
next
  case (read_call t)
  have same: "same_ring (readSlotBlocking_enter (ring s)) (ring s)"
    by (simp add: same_ring_def readSlotBlocking_enter_def)
  show ?thesis
    unfolding read_call(1)
    using assms(2) read_call(3) same_ring_inv [OF same] same_ring_slots [OF same]
    by (intro apply_turn_inv [where w = False and st = "sAudioStopped s"]) (simp_all add: send_inv_def)
next
  case (read_resume t)
  then show ?thesis
    using assms(2) by (auto simp: send_inv_def [of _ _ s] intro: apply_turn_inv)
qed (use assms(2) in \<open>auto simp: send_inv_def\<close>)

lemma send_inv_init: "rb_inv S N b \<Longrightarrow> send_inv S N (send_init b S N)"
  by (simp add: send_inv_def send_init_def)

lemma send_inv_reachable:
  assumes "send_step\<^sup>*\<^sup>* (send_init b S N) s" and "rb_inv S N b"
  shows "send_inv S N s"
  using assms(1)
  by (induction rule: rtranclp_induct) (auto intro: send_inv_init [OF assms(2)] send_inv_step)


section \<open>Properties\<close>

text \<open>
  C15: a ring buffer fresh from its constructor holds \<open>N div 2\<close> slots of silence and then, for
  every sequence of insertions and reads in which it neither overflows nor runs empty, returns
  the slots that were inserted, in order and unchanged, however many times the positions and the
  statistics go around.  The constructor leaves \<open>mReadsNew\<close> and \<open>mUnderrunsNew\<close> as the memory has them, \<open>r\<close> and
  \<open>u\<close>: \<open>u\<close> may be anything, and \<open>r\<close> anything but the \<open>N\<close> values from \<open>0x80000001 - N div 2\<close> on, with which
  \<open>--mSkewRaw\<close> can overflow.
\<close>

theorem ring_buffer_order:
  assumes "0 < S" and "0 < N" and "S * N < 2147483648" and "N \<le> 536870912"
    and "\<forall>f\<in>{1..N}. r + of_nat (N div 2) \<noteq> 0x80000000 + of_nat f"
    and "list_all (\<lambda>x. length x = S) (puts ops)"
    and "run_ops (list_put N) list_get ops (replicate (N div 2) (replicate S 0)) = Some (out, q)"
  shows "\<exists>b b'. RingBuffer_new (int S) (int N) r u = Some b \<and>
    run_ops ring_put ring_get ops b = Some (out, b') \<and>
    out @ slots S N b' = replicate (N div 2) (replicate S 0) @ puts ops"
proof -
  obtain b where b: "RingBuffer_new (int S) (int N) r u = Some b" "rb_inv S N b"
    "slots S N b = replicate (N div 2) (replicate S 0)" "mReadsNew b = r" "mSkewRaw b = 0"
    "mLevelCur b = of_nat (N div 2)" "mLevelDownRate b = dbl_round (1 / 100)"
    using RingBuffer_new_inv [OF assms(1-3)] by blast
  have "(0 :: rat) \<le> dbl_round (1 / 100)"
    using dbl_round_int_bounds [of 0 "1 / 100"] by simp
  moreover have "length (slots S N b) = N div 2" using b(3) by simp
  then have "nat (mFullSlots b) = N div 2" by (simp add: slots_def)
  then have "mFullSlots b = int (N div 2)" using b(2) nat_eq_iff by (auto simp: rb_inv_def)
  then have "sum_ok N (balance b)" using assms(5) b(4,5) by (simp add: sum_ok_def balance_def)
  ultimately have "flow_inv S N b"
    using b assms(4) by (simp add: flow_inv_def int32_range_def)
  then show ?thesis
    using ring_fifo.run_order [of S N b ops out q] assms(6,7) b(1,3) by auto
qed

lemma replicate_2: "replicate 2 x = [x, x]"
  by (simp add: numeral_2_eq_2)

theorem ring_buffer_order_witness:
  "\<exists>b b'. RingBuffer_new (int 2) (int 3) 0xdeadbeef 9 = Some b \<and>
    run_ops ring_put ring_get [Put [1, 2], Get, Put [3, 4], Get] b = Some ([[0, 0], [1, 2]], b') \<and>
    [[0, 0], [1, 2]] @ slots 2 3 b' = replicate (3 div 2) (replicate 2 0) @ [[1, 2], [3, 4]]"
proof -
  have "\<forall>f\<in>{1..3}. (0xdeadbeef :: u32) + of_nat (3 div 2) \<noteq> 0x80000000 + of_nat f"
  proof -
    have "{1..3 :: nat} = {1, 2, 3}" by auto
    moreover have "(3 :: nat) div 2 = 1" by simp
    ultimately show ?thesis by (simp only:) simp
  qed
  then show ?thesis
    using ring_buffer_order [of 2 3 "0xdeadbeef" "[Put [1, 2], Get, Put [3, 4], Get]" "[[0, 0], [1, 2]]" "[[3, 4]]" 9]
    by (simp add: list_put_def numeral_2_eq_2 [symmetric] replicate_2)
qed

text \<open>With one of the other values, a read and two insertions overflow \<open>mSkewRaw\<close>.\<close>

lemma uninitialised_reads_overflow:
  "\<exists>b s b1 b2. RingBuffer_new 1 2 0x80000000 u = Some b \<and> ring_get b = Some (s, b1) \<and> ring_put [7] b1 = Some b2 \<and>
    ring_put [8] b2 = None"
proof -
  obtain b where b: "RingBuffer_new (int 1) (int 2) 0x80000000 u = Some b" "rb_inv 1 2 b"
    "slots 1 2 b = replicate (2 div 2) (replicate 1 0)" "mReadsNew b = 0x80000000" "mSkewRaw b = 0"
    "mLevelCur b = of_nat (2 div 2)" "mLevelDownRate b = dbl_round (1 / 100)"
    using RingBuffer_new_inv [of 1 2 "0x80000000" u] by auto
  have one: "slots 1 2 b = [[0]]" using b(3) by simp
  obtain b1 where b1: "ring_get b = Some ([0], b1)" "rb_inv 1 2 b1" "slots 1 2 b1 = []" "same_stats b1 (account_read b)"
    using readSlotNonBlocking_item [OF b(2) one, of setUnderrunReadSlot] by (auto simp: ring_get_def)
  have len: "nat (mFullSlots x) = length (slots 1 2 x)" for x by (simp add: slots_def)
  have full: "mFullSlots b1 = 0" "mFullSlots b = 1"
    using len [of b1] len [of b] b1(2,3) b(2) one by (simp_all add: rb_inv_def)
  have st: "mSkewRaw b1 = 0" "mReadsNew b1 = 0x80000001" "mLevelCur b1 = 1"
    using b1(4) b(4-6) full(2) by (simp_all add: same_stats_def account_read_def)
  obtain c where c: "updateReadStats b1 = Some c" "same_ring c b1" "mSkewRaw c = - 2147483648"
    using st by (simp add: updateReadStats_def same_ring_def int32_range_def)
  have inv: "rb_inv 1 2 c" "mFullSlots c < mNumSlots c" "mFullSlots c = 0"
    using same_ring_inv [OF c(2)] b1(2) c(2) full(1) by (simp_all add: same_ring_def rb_inv_def)
  obtain b2 where b2: "write_slot [7] c = Some b2" "same_stats b2 c"
    using write_slot_room [OF inv(1,2), of "[7]"] by auto
  have "ring_put [7] b1 = Some b2"
    using c(1) b2(1) inv(2) by (simp add: ring_put_def insertSlotNonBlocking_alt account_loss_def)
  moreover have "ring_put [8] b2 = None"
    using b2(2) c(3) by (simp add: ring_put_def insertSlotNonBlocking_alt account_loss_def updateReadStats_def
        same_stats_def checked_int_def int32_range_def)
  ultimately show ?thesis using b(1) b1(1) by auto
qed

text \<open>
  An insertion into a full buffer drops the new slot and the oldest half of the buffered
  ones, reports success, and counts each of them as an overflow.
\<close>

lemma ring_buffer_overflow:
  assumes "rb_inv S N b" and "stats_ok b" and "lostLen \<le> 536870912" and "len = int S \<or> len = 0"
    and "length (slots S N b) = N"
  shows "\<exists>b'. insertSlotNonBlocking ptr len lostLen seq b = Some (True, b') \<and> rb_inv S N b' \<and>
    slots S N b' = drop (N div 2) (slots S N b) \<and> mOverflows b' = mOverflows b + of_nat (N div 2 + 1)"
  using assms by (rule insertSlotNonBlocking_overflow)

definition full_example :: RingBuffer where
  "full_example = \<lparr>mSlotSize = 1, mNumSlots = 2, mTotalSize = 2, mReadPosition = 1,
     mWritePosition = 1, mFullSlots = 2, mRingBuffer = [7, 8], mLastReadSlot = [0], mStatUnit = 1,
     mUnderruns = 0, mOverflows = 0, mSkewRaw = 0, mLevelCur = 2, mLevelDownRate = 0, mLevel = 2,
     mBufDecOverflow = 0, mBufDecPktLoss = 0, mBufIncUnderrun = 0, mBufIncCompensate = 0,
     mReadsNew = 0, mUnderrunsNew = 0, mSkew0 = 0, mBroadcastSkew = 0, mBroadcastDelta = 0\<rparr>"

lemma full_example_inv: "rb_inv 1 2 full_example" "stats_ok full_example"
  "slots 1 2 full_example = [[8], [7]]"
  by (simp_all add: full_example_def rb_inv_def stats_ok_def slots_def ring_items_def slot_list_def
      upt_rec)

lemma ring_buffer_overflow_witness:
  "\<exists>b'. insertSlotNonBlocking [9] 1 0 5 full_example = Some (True, b') \<and> rb_inv 1 2 b' \<and>
    slots 1 2 b' = drop (2 div 2) [[8], [7]] \<and> mOverflows b' = mOverflows full_example + of_nat (2 div 2 + 1)"
  using ring_buffer_overflow [OF full_example_inv(1,2), of 0 1 "[9]" 5] full_example_inv(3) by simp

text \<open>
  A wavetable ring buffer that runs empty keeps returning the last slot that was read, and a
  plain ring buffer returns silence; both count the underrun.
\<close>

lemma underrun_repeats_last_slot:
  assumes "rb_inv S N b" and "slots S N b = [x]"
  shows "\<exists>b1 b2 b3. readSlotNonBlocking wavetable_setUnderrunReadSlot b = Some (x, b1) \<and>
    readSlotNonBlocking wavetable_setUnderrunReadSlot b1 = Some (x, b2) \<and>
    readSlotNonBlocking setUnderrunReadSlot b1 = Some (replicate S 0, b3) \<and>
    mUnderrunsNew b2 = mUnderrunsNew b1 + 1 \<and> mUnderrunsNew b3 = mUnderrunsNew b1 + 1"
proof -
  obtain b1 where b1: "readSlotNonBlocking wavetable_setUnderrunReadSlot b = Some (x, b1)"
    "rb_inv S N b1" "slots S N b1 = []" "mLastReadSlot b1 = x"
    using readSlotNonBlocking_item [OF assms] by blast
  have inv: "rb_inv S N (account_read b1)" using same_ring_inv [OF account_read_same] b1(2) by simp
  have last: "mLastReadSlot (account_read b1) = x" using b1(4) by (simp add: account_read_def)
  show ?thesis
    using readSlotNonBlocking_underrun [OF b1(2,3), of setUnderrunReadSlot]
      readSlotNonBlocking_underrun [OF b1(2,3), of wavetable_setUnderrunReadSlot]
      underrun_slots [OF inv] b1(1) last by auto
qed

definition one_slot_example :: RingBuffer where
  "one_slot_example = full_example\<lparr>mFullSlots := 1, mWritePosition := 0\<rparr>"

lemma underrun_repeats_last_slot_witness:
  "\<exists>b1 b2 b3. readSlotNonBlocking wavetable_setUnderrunReadSlot one_slot_example = Some ([8], b1) \<and>
    readSlotNonBlocking wavetable_setUnderrunReadSlot b1 = Some ([8], b2) \<and>
    readSlotNonBlocking setUnderrunReadSlot b1 = Some (replicate 1 0, b3) \<and>
    mUnderrunsNew b2 = mUnderrunsNew b1 + 1 \<and> mUnderrunsNew b3 = mUnderrunsNew b1 + 1"
  by (rule underrun_repeats_last_slot [where N = 2])
    (simp_all add: one_slot_example_def full_example_def rb_inv_def slots_def ring_items_def
      slot_list_def upt_rec)

text \<open>
  C16: in every interleaving of the audio callback and the sender thread on the send ring, a
  sender sleeps only while the ring is empty (no wakeup is lost), and what it has delivered
  together with what is still queued is a subsequence of what was inserted: overflows lose slots
  but never reorder, repeat or alter them.
\<close>

theorem send_ring_monitor:
  assumes "send_step\<^sup>*\<^sup>* (send_init b S N) s" and "rb_inv S N b"
  shows "(reader s = R_waiting \<longrightarrow> slots S N (ring s) = []) \<and>
    subseq (delivered s @ slots S N (ring s)) (inserted s)"
  using send_inv_reachable [OF assms] by (simp add: send_inv_def)

theorem send_ring_monitor_witness:
  "\<exists>s. send_step\<^sup>*\<^sup>* (send_init full_example 1 2) s \<and> sAudioStopped s \<and>
    subseq (delivered s @ slots 1 2 (ring s)) (inserted s)"
proof -
  let ?s = "(send_init full_example 1 2)\<lparr>sAudioStopped := True\<rparr>"
  have run: "send_step\<^sup>*\<^sup>* (send_init full_example 1 2) ?s" by (rule r_into_rtranclp) (rule stop)
  then show ?thesis
    using send_ring_monitor [OF run full_example_inv(1)] by (intro exI [of _ ?s]) simp
qed

end
