(* ===== verification/UdpDataProtocol.thy ===== *)
theory UdpDataProtocol
  imports PacketHeader
begin

text \<open>
  The UDP data protocol (\<open>src/UdpDataProtocol.cpp\<close>, \<open>src/UdpDataProtocol.h\<close>, with the members it
  inherits from \<open>src/DataProtocol.h\<close>): the control packet, the setup and the loops of \<open>run\<close>, the
  redundancy algorithm of both ends, the loss statistics and the timers that report silence.

  The sockets, the random numbers of the loss simulation and the receive ring are arguments: what
  \<open>recv\<close> returns, a number of \<open>[0, 1)\<close>, and the function behind \<open>writeAudioBuffer\<close> together with
  the state it changes.  Signals and log lines are returned in the order they are emitted.
\<close>

section \<open>State\<close>

definition u64_div :: "u64 \<Rightarrow> u64 \<Rightarrow> u64 option" where
  "u64_div a b = (if b = 0 then None else Some (a div b))"

record UdpDataProtocol =
  mStopped :: bool
  mAudioPacketSize :: u64
  mAudioPacket :: bytes
  mFullPacket :: bytes
  mBuffer :: bytes
  mChans :: int
  mSmplSize :: int
  mLastOutOfOrderCount :: int
  mInitialState :: bool
  mUdpRedundancyFactor :: u32
  mTotCount :: u32
  mLostCount :: u32
  mOutOfOrderCount :: u32
  mRevivedCount :: u32
  mStatCount :: u32
  mControlPacketSize :: u8
  mStopSignalSent :: bool
  mSimulatedLossRate :: dbl
  mSimulatedJitterRate :: dbl
  mSimulatedJitterMaxDelay :: dbl
  mJackTrip :: JackTrip

datatype udp_event =
    signalError string
  | signalCeaseTransmission string
  | signalReceivedConnectionFromPeer
  | signalWaitingTooLong int
  | signalUdpWaitingTooLong
  | logUdpWaiting int

text \<open>Members the constructor leaves alone keep what the memory holds, the first argument.\<close>

definition UdpDataProtocol_new :: "UdpDataProtocol \<Rightarrow> JackTrip \<Rightarrow> u32 \<Rightarrow> UdpDataProtocol" where
  "UdpDataProtocol_new garbage jacktrip udp_redundancy_factor =
     garbage\<lparr>mStopped := True, mJackTrip := jacktrip, mAudioPacket := [], mFullPacket := [], mBuffer := [],
       mUdpRedundancyFactor := udp_redundancy_factor, mControlPacketSize := 63,
       mStopSignalSent := False, mSimulatedLossRate := 0, mSimulatedJitterRate := 0,
       mSimulatedJitterMaxDelay := 0\<rparr>"

section \<open>Control packets\<close>

text \<open>The loop over the bytes of a control packet stops at the first that is not \<open>0xff\<close>.\<close>

fun all_ff :: "bytes \<Rightarrow> nat \<Rightarrow> nat \<Rightarrow> bool option" where
  "all_ff buf i 0 = Some True"
| "all_ff buf i (Suc n) =
     (if i < length buf then (if buf ! i \<noteq> 0xff then Some False else all_ff buf (Suc i) n) else None)"

definition processControlPacket :: "bytes \<Rightarrow> UdpDataProtocol \<Rightarrow> (UdpDataProtocol \<times> udp_event list) option" where
  "processControlPacket buf s = do {
     exit \<leftarrow> all_ff buf 0 (unat (mControlPacketSize s));
     Some (if exit \<and> \<not> mStopSignalSent s
       then (s\<lparr>mStopSignalSent := True\<rparr>, [signalCeaseTransmission ''Peer Stopped''])
       else (s, []))
   }"

text \<open>\<open>recv\<close> gives the bytes it stored, or nothing when it returns an error.\<close>

definition receivePacket :: "bytes option \<Rightarrow> bytes \<Rightarrow> UdpDataProtocol \<Rightarrow>
    (int \<times> bytes \<times> UdpDataProtocol \<times> udp_event list) option" where
  "receivePacket recv buf s =
     (case recv of
        None \<Rightarrow> Some (-1, buf, s, [])
      | Some bs \<Rightarrow> do {
          buf \<leftarrow> mem_write buf 0 bs;
          if length bs = unat (mControlPacketSize s)
          then do {
            (s, events) \<leftarrow> processControlPacket buf s;
            Some (0, buf, s, events)
          }
          else Some (int (length bs), buf, s, [])
        })"

section \<open>The setup of \<open>run\<close>\<close>

datatype runModeT = SENDER | RECEIVER

definition setup_mode :: "runModeT \<Rightarrow> u64 \<Rightarrow> UdpDataProtocol \<Rightarrow> (int \<times> UdpDataProtocol \<times> string list) option option" where
  "setup_mode mode now s =
     (let jt = mJackTrip s;
          chans = sint (case mode of RECEIVER \<Rightarrow> getNumOutputChannels jt | SENDER \<Rightarrow> getNumInputChannels jt);
          packet_size = (case mode of RECEIVER \<Rightarrow> getReceivePacketSizeInBytes | SENDER \<Rightarrow> getSendPacketSizeInBytes);
          put = (case mode of RECEIVER \<Rightarrow> putHeaderInIncomingPacket | SENDER \<Rightarrow> putHeaderInOutgoingPacket)
      in if chans = 0 then Some None
         else do {
           full_packet_size \<leftarrow> packet_size jt;
           n \<leftarrow> byte_count full_packet_size;
           (jt, full, errors) \<leftarrow> put now jt (replicate n 0) (Some (mAudioPacket s));
           Some (Some (full_packet_size, s\<lparr>mChans := chans, mFullPacket := full, mJackTrip := jt\<rparr>, errors))
         })"

datatype setup_result =
    NoChannels
  | PacketSizeExceeded
  | Ready int int UdpDataProtocol "string list"

text \<open>From the start of \<open>run\<close> to its mode switch; \<open>PacketSizeExceeded\<close> is the exception.\<close>

definition run_setup :: "runModeT \<Rightarrow> u64 \<Rightarrow> UdpDataProtocol \<Rightarrow> setup_result option" where
  "run_setup mode now s = do {
     let n = unat (mAudioPacketSize s);
     let s = s\<lparr>mAudioPacket := replicate n 0, mBuffer := take n (mBuffer s) @ replicate (n - length (mBuffer s)) 0,
               mSmplSize := int (unat (getAudioBitResolution (mJackTrip s)) div 8)\<rparr>;
     r \<leftarrow> setup_mode mode now s;
     (case r of
        None \<Rightarrow> Some NoChannels
      | Some (full_packet_size, s, errors) \<Rightarrow>
          let full_redundant_packet_size = sint (of_int full_packet_size * mUdpRedundancyFactor s)
          in if full_redundant_packet_size > 0x10000 then Some PacketSizeExceeded
             else Some (Ready full_packet_size full_redundant_packet_size (s\<lparr>mStopped := False\<rparr>) errors))
   }"

section \<open>The first packet\<close>

datatype first_result =
    HeaderInvalid
  | SettingsMismatch "settings_mismatch list"
  | SizeOutOfRange int
  | Connected int UdpDataProtocol

definition first_packet :: "bytes \<Rightarrow> int \<Rightarrow> UdpDataProtocol \<Rightarrow> first_result option" where
  "first_packet buf received s = do {
     let p = mPacketHeader (mJackTrip s);
     valid \<leftarrow> validatePeerHeader p buf received;
     if \<not> valid then Some HeaderInvalid
     else do {
       (ok, report) \<leftarrow> checkPeerSettings p buf;
       if \<not> ok then Some (SettingsMismatch report)
       else do {
         peer_chans \<leftarrow> getPeerNumOutgoingChannels p buf 0;
         N \<leftarrow> getPeerBufferSize p buf 0;
         frames \<leftarrow> checked_int (int (unat N) * int (unat peer_chans));
         audio \<leftarrow> checked_int (frames * mSmplSize s);
         full_packet_size \<leftarrow> checked_int (int (getHeaderSizeInBytes p) + audio);
         if full_packet_size \<le> 0 \<or> full_packet_size > received then Some (SizeOutOfRange full_packet_size)
         else Some (Connected full_packet_size
           (s\<lparr>mTotCount := 0, mLostCount := 0, mOutOfOrderCount := 0, mLastOutOfOrderCount := 0,
              mInitialState := True, mRevivedCount := 0, mStatCount := 0\<rparr>))
       }
     }
   }"

section \<open>The redundancy algorithm, receiving\<close>

record seq_numbers =
  current_seq_num :: u16
  last_seq_num :: u16
  newer_seq_num :: u16

text \<open>The loss simulation: whether the packet is dropped (a delay does not change the state).\<close>

definition simulated_drop :: "dbl \<Rightarrow> UdpDataProtocol \<Rightarrow> bool" where
  "simulated_drop x s \<longleftrightarrow> (0 < mSimulatedLossRate s \<or> 0 < mSimulatedJitterRate s) \<and>
     dbl_sub x (mSimulatedLossRate s) < 0"

text \<open>
  The accounting of the sequence number: the new state and the number of packets lost, or nothing
  when the packet is out of order and ignored.  \<open>lost\<close> is an \<open>int16_t\<close>.
\<close>

definition account_packet :: "u16 \<Rightarrow> u16 \<Rightarrow> UdpDataProtocol \<Rightarrow> (UdpDataProtocol \<times> int option) option" where
  "account_packet newer last_seq s =
     (if mInitialState s
      then Some (s\<lparr>mLastOutOfOrderCount := 0, mInitialState := False\<rparr>, Some 0)
      else let lost = sint (of_int (int (unat newer) - int (unat last_seq) - 1) :: u16)
        in if 0 > lost \<or> 1000 < lost
           then do {
             k \<leftarrow> checked_int (mLastOutOfOrderCount s + 1);
             let s = s\<lparr>mOutOfOrderCount := mOutOfOrderCount s + 1, mLastOutOfOrderCount := k\<rparr>;
             Some (if 5 < k then s\<lparr>mInitialState := True, mStatCount := 0, mTotCount := 0\<rparr> else s, None)
           }
           else Some (s\<lparr>mLostCount := (if lost \<noteq> 0 then mLostCount s + of_int lost else mLostCount s),
                        mTotCount := mTotCount s + of_int (1 + lost),
                        mLastOutOfOrderCount := 0, mInitialState := False\<rparr>, Some lost))"

text \<open>
  The search for the next expected packet.  Both sequence numbers are promoted to \<open>int\<close>, so the
  comparison is one of integers; \<open>i * full_packet_size\<close> is unsigned.
\<close>

fun find_redundant :: "PacketHeader \<Rightarrow> bytes \<Rightarrow> int \<Rightarrow> u16 \<Rightarrow> nat list \<Rightarrow> u16 \<Rightarrow> nat \<Rightarrow> (nat \<times> u16) option" where
  "find_redundant p buf full_packet_size last_seq [] current idx = Some (idx, current)"
| "find_redundant p buf full_packet_size last_seq (i # is) current idx =
     (if int (unat current) = int (unat last_seq) + 1 then Some (idx, current)
      else do {
        c \<leftarrow> getPeerSequenceNumber p buf (unat (of_nat i * of_int full_packet_size :: u32));
        find_redundant p buf full_packet_size last_seq is c i
      })"

text \<open>Conversion of a packet's channel-after-channel layout to interleaved frames.\<close>

definition interleave :: "bytes \<Rightarrow> nat \<Rightarrow> int \<Rightarrow> int \<Rightarrow> int \<Rightarrow> int \<Rightarrow> bytes \<Rightarrow> bytes option" where
  "interleave packet pos N C chans smpl dst =
     iter_opt (\<lambda>n. iter_opt (\<lambda>c dst. do {
         bs \<leftarrow> mem_read packet (pos + nat ((int n + int c * N) * smpl)) (nat smpl);
         mem_write dst (nat ((int n * chans + int c) * smpl)) bs
       }) [0..<nat C]) [0..<nat N] dst"

text \<open>
  Handing the packets from index \<open>i\<close> down to 0 to \<open>writeAudioBuffer\<close>, whose first argument is the
  memory at the pointer it is given.
\<close>

fun deliver :: "('r \<Rightarrow> bytes \<Rightarrow> int \<Rightarrow> int \<Rightarrow> int \<Rightarrow> (bool \<times> 'r) option) \<Rightarrow> bytes \<Rightarrow> nat \<Rightarrow> int \<Rightarrow> int \<Rightarrow> int \<Rightarrow>
    int \<Rightarrow> u16 \<Rightarrow> nat list \<Rightarrow> int \<Rightarrow> UdpDataProtocol \<Rightarrow> 'r \<Rightarrow> (UdpDataProtocol \<times> 'r \<times> udp_event list) option" where
  "deliver writeAudioBuffer buf hdr_size full_packet_size N peer_chans host_buf_size seq [] gap_size s r = Some (s, r, [])"
| "deliver writeAudioBuffer buf hdr_size full_packet_size N peer_chans host_buf_size seq (i # is) gap_size s r =
     do {
       let pos = nat (int i * full_packet_size) + hdr_size;
       (src, s) \<leftarrow> (if mChans s \<noteq> 1
         then do {
           dst \<leftarrow> interleave buf pos N (min (mChans s) peer_chans) (mChans s) (mSmplSize s) (mBuffer s);
           Some (dst, s\<lparr>mBuffer := dst\<rparr>)
         }
         else Some (drop pos buf, s));
       (ok, r) \<leftarrow> writeAudioBuffer r src host_buf_size gap_size (int (unat seq));
       if \<not> ok
       then Some (s\<lparr>mStopped := True\<rparr>, r, [signalError ''Local and Peer buffer settings are incompatible''])
       else deliver writeAudioBuffer buf hdr_size full_packet_size N peer_chans host_buf_size seq is 0 s r
     }"

definition receivePacketRedundancy :: "('r \<Rightarrow> bytes \<Rightarrow> int \<Rightarrow> int \<Rightarrow> int \<Rightarrow> (bool \<times> 'r) option) \<Rightarrow> dbl \<Rightarrow> bytes \<Rightarrow> int \<Rightarrow> int \<Rightarrow>
    seq_numbers \<Rightarrow> UdpDataProtocol \<Rightarrow> 'r \<Rightarrow> (seq_numbers \<times> UdpDataProtocol \<times> 'r \<times> udp_event list) option" where
  "receivePacketRedundancy writeAudioBuffer x buf full_redundant_packet_size full_packet_size q s r =
     (if simulated_drop x s then Some (q, s, r, [])
      else do {
        let p = mPacketHeader (mJackTrip s);
        newer \<leftarrow> getPeerSequenceNumber p buf 0;
        let q = q\<lparr>newer_seq_num := newer, current_seq_num := newer\<rparr>;
        (s, accepted) \<leftarrow> account_packet newer (last_seq_num q) s;
        (case accepted of
           None \<Rightarrow> Some (q, s, r, [])
         | Some lost \<Rightarrow> do {
             (redun_last_index, current) \<leftarrow> find_redundant p buf full_packet_size (last_seq_num q)
               [1..<unat (mUdpRedundancyFactor s)] newer 0;
             let q = q\<lparr>current_seq_num := current\<rparr>;
             let s = s\<lparr>mRevivedCount := mRevivedCount s + of_nat redun_last_index\<rparr>;
             peer_chans \<leftarrow> getPeerNumOutgoingChannels p buf 0;
             N \<leftarrow> getPeerBufferSize p buf 0;
             let peer_chans = int (unat peer_chans);
             let N = int (unat N);
             let hdr_size = getHeaderSizeInBytes p;
             stride_bytes \<leftarrow> checked_int (int hdr_size + N * peer_chans * mSmplSize s);
             if stride_bytes \<le> int hdr_size \<or> stride_bytes > full_redundant_packet_size
             then Some (q, s, r, [])
             else do {
               max_redun_index \<leftarrow> cxx_div (full_redundant_packet_size - stride_bytes) full_packet_size;
               let idx = min redun_last_index (nat max_redun_index);
               host_buf_size \<leftarrow> checked_int (N * mChans s * mSmplSize s);
               gap_size \<leftarrow> (if mInitialState s then Some 0
                 else checked_int ((lost - int idx) * host_buf_size));
               let q = q\<lparr>last_seq_num := newer\<rparr>;
               let s = s\<lparr>mBuffer := mBuffer s @ replicate (nat host_buf_size - length (mBuffer s)) 0\<rparr>;
               (s, r, events) \<leftarrow> deliver writeAudioBuffer buf hdr_size full_packet_size N peer_chans
                 host_buf_size newer (rev [0..<Suc idx]) gap_size s r;
               Some (q, s, r, events)
             }
           })
      })"

text \<open>
  One turn of the receiver's loop on Linux for a datagram that \<open>epoll_wait\<close> announced: it goes to
  the start of the receive buffer, of which only the first datagram's size is used.
\<close>

definition receiver_turn :: "('r \<Rightarrow> bytes \<Rightarrow> int \<Rightarrow> int \<Rightarrow> int \<Rightarrow> (bool \<times> 'r) option) \<Rightarrow> dbl \<Rightarrow> bytes option \<Rightarrow> int \<Rightarrow> int \<Rightarrow>
    bytes \<times> seq_numbers \<times> UdpDataProtocol \<times> 'r \<Rightarrow> ((bytes \<times> seq_numbers \<times> UdpDataProtocol \<times> 'r) \<times> udp_event list) option" where
  "receiver_turn writeAudioBuffer x recv full_redundant_packet_size full_packet_size st =
     (case st of (buf, q, s, r) \<Rightarrow> do {
        (n, buf, s, events) \<leftarrow> receivePacket recv buf s;
        if n > 0
        then do {
          (q, s, r, events') \<leftarrow>
            receivePacketRedundancy writeAudioBuffer x buf full_redundant_packet_size full_packet_size q s r;
          Some ((buf, q, s, r), events @ events')
        }
        else Some ((buf, q, s, r), events)
      })"

fun receiver_loop :: "('r \<Rightarrow> bytes \<Rightarrow> int \<Rightarrow> int \<Rightarrow> int \<Rightarrow> (bool \<times> 'r) option) \<Rightarrow> (dbl \<times> bytes option) list \<Rightarrow> int \<Rightarrow> int \<Rightarrow>
    bytes \<times> seq_numbers \<times> UdpDataProtocol \<times> 'r \<Rightarrow> ((bytes \<times> seq_numbers \<times> UdpDataProtocol \<times> 'r) \<times> udp_event list) option" where
  "receiver_loop writeAudioBuffer [] full_redundant_packet_size full_packet_size st = Some (st, [])"
| "receiver_loop writeAudioBuffer ((x, recv) # rs) full_redundant_packet_size full_packet_size st =
     (if mStopped (fst (snd (snd st))) then Some (st, [])
      else do {
        (st, events) \<leftarrow> receiver_turn writeAudioBuffer x recv full_redundant_packet_size full_packet_size st;
        (st, events') \<leftarrow> receiver_loop writeAudioBuffer rs full_redundant_packet_size full_packet_size st;
        Some (st, events @ events')
      })"

section \<open>The redundancy algorithm, sending\<close>

text \<open>Conversion of interleaved frames to the layout of a packet.\<close>

definition deinterleave :: "bytes \<Rightarrow> int \<Rightarrow> int \<Rightarrow> int \<Rightarrow> bytes \<Rightarrow> bytes option" where
  "deinterleave audio N chans smpl dst =
     iter_opt (\<lambda>n. iter_opt (\<lambda>c dst. do {
         bs \<leftarrow> mem_read audio (nat ((int n * chans + int c) * smpl)) (nat smpl);
         mem_write dst (nat ((int n + int c * N) * smpl)) bs
       }) [0..<nat chans]) [0..<nat N] dst"

text \<open>
  One turn of the sender: the slot that \<open>readAudioBuffer\<close> stored in \<open>mAudioPacket\<close>, the time, and
  the array of redundant packets; the datagram is what is handed to \<open>sendPacket\<close>.
\<close>

definition sendPacketRedundancy :: "bytes \<Rightarrow> u64 \<Rightarrow> bytes \<Rightarrow> int \<Rightarrow> int \<Rightarrow> UdpDataProtocol \<Rightarrow>
    (bytes \<times> bytes \<times> UdpDataProtocol \<times> string list) option" where
  "sendPacketRedundancy slot now buf full_redundant_packet_size full_packet_size s = do {
     audio \<leftarrow> mem_write (mAudioPacket s) 0 slot;
     let s = s\<lparr>mAudioPacket := audio\<rparr>;
     (src, s) \<leftarrow> (if 1 < mChans s
       then do {
         frames \<leftarrow> u64_div (mAudioPacketSize s) (of_int (mChans s));
         n \<leftarrow> u64_div frames (of_int (mSmplSize s));
         dst \<leftarrow> deinterleave audio (int_of_size n) (mChans s) (mSmplSize s) (mBuffer s);
         Some (dst, s\<lparr>mBuffer := dst\<rparr>)
       }
       else Some (audio, s));
     (jt, full, errors) \<leftarrow> putHeaderInOutgoingPacket now (mJackTrip s) (mFullPacket s) (Some src);
     fps \<leftarrow> byte_count full_packet_size;
     let older = unat (of_int full_packet_size * (mUdpRedundancyFactor s - 1) :: u32);
     moved \<leftarrow> mem_read buf 0 older;
     buf \<leftarrow> mem_write buf fps moved;
     new \<leftarrow> mem_read full 0 fps;
     buf \<leftarrow> mem_write buf 0 new;
     frps \<leftarrow> byte_count full_redundant_packet_size;
     datagram \<leftarrow> mem_read buf 0 frps;
     Some (datagram, buf, s\<lparr>mFullPacket := full,
         mJackTrip := jt\<lparr>mPacketHeader := increaseSequenceNumber (mPacketHeader jt)\<rparr>\<rparr>, errors)
   }"

text \<open>The loop of the sender over the slots it reads, and the exit packet it ends with.\<close>

fun sender_loop :: "(bytes \<times> u64) list \<Rightarrow> bytes \<Rightarrow> int \<Rightarrow> int \<Rightarrow> UdpDataProtocol \<Rightarrow>
    (bytes list \<times> bytes \<times> UdpDataProtocol) option" where
  "sender_loop [] buf full_redundant_packet_size full_packet_size s = Some ([], buf, s)"
| "sender_loop ((slot, now) # slots) buf full_redundant_packet_size full_packet_size s = do {
     (datagram, buf, s, errors) \<leftarrow>
       sendPacketRedundancy slot now buf full_redundant_packet_size full_packet_size s;
     (datagrams, buf, s) \<leftarrow> sender_loop slots buf full_redundant_packet_size full_packet_size s;
     Some (datagram # datagrams, buf, s)
   }"

definition exit_packet :: "UdpDataProtocol \<Rightarrow> bytes" where
  "exit_packet s = replicate (unat (mControlPacketSize s)) 0xff"

section \<open>Statistics and timers\<close>

record PktStat =
  stat_tot :: u32
  stat_lost :: u32
  stat_outOfOrder :: u32
  stat_revived :: u32
  stat_statCount :: u32

definition getStats :: "UdpDataProtocol \<Rightarrow> PktStat \<times> UdpDataProtocol" where
  "getStats s =
     (let s = (if mStatCount s = 0
               then s\<lparr>mLostCount := 0, mOutOfOrderCount := 0, mRevivedCount := 0\<rparr> else s)
      in (\<lparr>stat_tot = mTotCount s, stat_lost = mLostCount s, stat_outOfOrder = mOutOfOrderCount s,
           stat_revived = mRevivedCount s, stat_statCount = mStatCount s\<rparr>,
          s\<lparr>mStatCount := mStatCount s + 1\<rparr>))"

definition setIssueSimulation :: "dbl \<Rightarrow> dbl \<Rightarrow> dbl \<Rightarrow> UdpDataProtocol \<Rightarrow> UdpDataProtocol" where
  "setIssueSimulation loss jitter max_delay s =
     s\<lparr>mSimulatedLossRate := loss, mSimulatedJitterRate := jitter, mSimulatedJitterMaxDelay := max_delay\<rparr>"

text \<open>
  \<open>waitForReady\<close>: \<open>available k\<close> and \<open>stopped k\<close> are what the two tests of turn \<open>k\<close> find.  The
  timers are below \<open>2 ^ 31\<close> for the one timeout the code uses, 60 seconds.
\<close>

function waitForReady :: "(nat \<Rightarrow> bool) \<Rightarrow> (nat \<Rightarrow> bool) \<Rightarrow> nat \<Rightarrow> nat \<Rightarrow> nat \<Rightarrow> udp_event list" where
  "waitForReady available stopped timeout_usec k elapsed_time_usec =
     (if \<not> available k \<and> elapsed_time_usec \<le> timeout_usec \<and> \<not> stopped k
      then let elapsed = elapsed_time_usec + 100
        in (if elapsed mod 10000 = 0 then [signalWaitingTooLong (int (elapsed div 1000))] else []) @
           waitForReady available stopped timeout_usec (Suc k) elapsed
      else [])"
  by pat_completeness auto
termination
  by (relation "measure (\<lambda>(available, stopped, timeout, k, elapsed). Suc timeout - elapsed)") auto

text \<open>The event loop of the receiver on Linux: the timer after a poll with or without a packet.\<close>

definition poll_timer :: "bool \<Rightarrow> int \<Rightarrow> (int \<times> udp_event list) option" where
  "poll_timer ready waitTime =
     (if ready then Some (0, [])
      else do { t \<leftarrow> checked_int (waitTime + 10); Some (t, [signalWaitingTooLong t]) })"

fun poll_timers :: "bool list \<Rightarrow> int \<Rightarrow> udp_event list option" where
  "poll_timers [] waitTime = Some []"
| "poll_timers (ready # rs) waitTime = do {
     (t, events) \<leftarrow> poll_timer ready waitTime;
     events' \<leftarrow> poll_timers rs t;
     Some (events @ events')
   }"

definition gUdpWaitTimeout :: int where "gUdpWaitTimeout = 512"

definition printUdpWaitedTooLong :: "int \<Rightarrow> udp_event list" where
  "printUdpWaitedTooLong wait_msec =
     (if cxx_mod wait_msec gUdpWaitTimeout = Some 0
      then (if wait_msec \<le> gUdpWaitTimeout then [logUdpWaiting gUdpWaitTimeout] else []) @
          [signalUdpWaitingTooLong]
      else [])"

text \<open>The slot of \<open>signalWaitingTooLong\<close>, called for each signal in turn.\<close>

fun wait_events :: "udp_event list \<Rightarrow> udp_event list" where
  "wait_events [] = []"
| "wait_events (signalWaitingTooLong t # es) = printUdpWaitedTooLong t @ wait_events es"
| "wait_events (e # es) = wait_events es"

end
