(* ===== verification/UdpSpec.thy ===== *)
theory UdpSpec
  imports UdpDataProtocol
begin

text \<open>
  What the UDP data protocol promises: the two layouts of a packet carry the same frames, every
  datagram of the sender holds the last packets, and the receiver hands the slots of the sender to
  \<open>writeAudioBuffer\<close> once and in order as long as no more packets in a row are lost than the
  redundancy covers.
\<close>

section \<open>The two layouts\<close>

definition planar_pos :: "nat \<Rightarrow> nat \<Rightarrow> nat \<Rightarrow> nat \<Rightarrow> nat" where
  "planar_pos N S n c = (n + c * N) * S"

definition frame_pos :: "nat \<Rightarrow> nat \<Rightarrow> nat \<Rightarrow> nat \<Rightarrow> nat" where
  "frame_pos C S n c = (n * C + c) * S"

lemma planar_pos_cell: "planar_pos N S n c = c * S * N + n * S"
  by (simp add: planar_pos_def algebra_simps)

lemma frame_pos_cell: "frame_pos C S n c = n * S * C + c * S"
  by (simp add: frame_pos_def algebra_simps)

text \<open>A packet's payload \<open>P\<close> carries the frames of the slot \<open>a\<close>.\<close>

definition carries :: "nat \<Rightarrow> nat \<Rightarrow> nat \<Rightarrow> bytes \<Rightarrow> bytes \<Rightarrow> bool" where
  "carries N C S P a \<longleftrightarrow> length P = N * C * S \<and> length a = N * C * S \<and>
     (\<forall>n<N. \<forall>c<C. take S (drop (planar_pos N S n c) P) = take S (drop (frame_pos C S n c) a))"

lemma nat_planar: "nat ((int n + int c * int N) * int S) = planar_pos N S n c"
  by (simp add: planar_pos_def flip: of_nat_mult of_nat_add)

lemma nat_frame: "nat ((int n * int C + int c) * int S) = frame_pos C S n c"
  by (simp add: frame_pos_def flip: of_nat_mult of_nat_add)

lemma planar_inside: "n < N \<Longrightarrow> c < C \<Longrightarrow> planar_pos N S n c + S \<le> N * C * S"
  using cell_inside [of n N c C S] by (simp add: planar_pos_cell ac_simps)

lemma frame_inside: "n < N \<Longrightarrow> c < C \<Longrightarrow> frame_pos C S n c + S \<le> N * C * S"
  using cell_inside [of c C n N S] by (simp add: frame_pos_cell ac_simps)

lemma deinterleave_carries:
  assumes "length a = N * C * S" and "length dst = N * C * S"
  shows "\<exists>P. deinterleave a (int N) (int C) (int S) dst = Some P \<and> carries N C S P a"
proof -
  let ?f = "\<lambda>n c (dst :: bytes). do {
     bs \<leftarrow> mem_read a (frame_pos C S n c) S; mem_write dst (planar_pos N S n c) bs }"
  let ?cell = "\<lambda>n c P. take S (drop (planar_pos N S n c) P) = take S (drop (frame_pos C S n c) a)"
  have "\<exists>P. iter_opt (\<lambda>n. iter_opt (?f n) [0..<C]) [0..<N] dst = Some P \<and> length P = N * C * S \<and>
      (\<forall>n<N. \<forall>c<C. ?cell n c P)"
  proof (rule cells_invariant [where Q = "\<lambda>P. length P = N * C * S", OF assms(2)])
    fix n c and t :: bytes assume n: "n < N" and c: "c < C" and t: "length t = N * C * S"
    let ?bs = "take S (drop (frame_pos C S n c) a)"
    have r: "mem_read a (frame_pos C S n c) S = Some ?bs" and len: "length ?bs = S"
      using frame_inside [OF n c, of S] assms(1) by (simp_all add: mem_read_def)
    obtain u where u: "mem_write t (planar_pos N S n c) ?bs = Some u"
      using planar_inside [OF n c, of S] t len by (simp add: mem_write_def)
    have "?cell n' c' u" if "n' < N" "(n', c') \<noteq> (n, c)" "?cell n' c' t" for n' c'
      using that mem_write_other [OF u] cell_disjoint [OF n that(1), of c' c S] len
      by (auto simp: planar_pos_cell)
    then show "\<exists>u. ?f n c t = Some u \<and> length u = N * C * S \<and> ?cell n c u \<and>
        (\<forall>n' c'. n' < N \<longrightarrow> c' < C \<longrightarrow> (n', c') \<noteq> (n, c) \<longrightarrow> ?cell n' c' t \<longrightarrow> ?cell n' c' u)"
      using r u mem_write_same [OF u] mem_write_length [OF u] t len by auto
  qed
  then show ?thesis
    using assms(1) by (auto simp: deinterleave_def nat_planar nat_frame carries_def)
qed

lemma carries_mono: "length a = N * S \<Longrightarrow> carries N 1 S a a"
  by (simp add: carries_def planar_pos_def frame_pos_def)

text \<open>A buffer is determined by its cells.\<close>

lemma blocks_determine:
  assumes "\<And>k. k < m \<Longrightarrow> take S (drop (k * S) a) = take S (drop (k * S) b)"
  shows "take (m * S) a = take (m * S) b"
  using assms
proof (induction m)
  case (Suc m)
  have "take (m * S + S) x = take (m * S) x @ take S (drop (m * S) x)" for x :: "'a list" by (rule take_add)
  then show ?case using Suc by (simp add: add.commute)
qed simp

lemma cells_determine:
  assumes "\<And>n c. n < N \<Longrightarrow> c < C \<Longrightarrow> take S (drop (frame_pos C S n c) a) = take S (drop (frame_pos C S n c) b)"
  shows "take (N * C * S) a = take (N * C * S) b"
proof (rule blocks_determine)
  fix k assume k: "k < N * C"
  then have "0 < C" by (cases C) simp_all
  then have "k div C < N" "k mod C < C" using k by (simp_all add: less_mult_imp_div_less)
  then show "take S (drop (k * S) a) = take S (drop (k * S) b)"
    using assms [of "k div C" "k mod C"] by (simp add: frame_pos_def)
qed

lemma interleave_restores:
  assumes P: "carries N C S P a" and buf: "take (N * C * S) (drop pos buf) = P"
    and room: "pos + N * C * S \<le> length buf" and dst: "N * C * S \<le> length dst"
  shows "\<exists>d. interleave buf pos (int N) (int C) (int C) (int S) dst = Some d \<and>
    length d = length dst \<and> take (N * C * S) d = a"
proof -
  let ?f = "\<lambda>n c (dst :: bytes). do {
     bs \<leftarrow> mem_read buf (pos + planar_pos N S n c) S; mem_write dst (frame_pos C S n c) bs }"
  let ?cell = "\<lambda>n c d. take S (drop (frame_pos C S n c) d) = take S (drop (frame_pos C S n c) a)"
  have "\<exists>d. iter_opt (\<lambda>n. iter_opt (?f n) [0..<C]) [0..<N] dst = Some d \<and> length d = length dst \<and>
      (\<forall>n<N. \<forall>c<C. ?cell n c d)"
  proof (rule cells_invariant [where Q = "\<lambda>d. length d = length dst", OF refl])
    fix n c and t :: bytes assume n: "n < N" and c: "c < C" and t: "length t = length dst"
    let ?bs = "take S (drop (frame_pos C S n c) a)"
    have in_P: "planar_pos N S n c + S \<le> N * C * S" by (rule planar_inside [OF n c])
    have "take S (drop (planar_pos N S n c) P) = take S (drop (pos + planar_pos N S n c) buf)"
      using in_P by (simp add: buf [symmetric] drop_take ac_simps)
    then have r: "mem_read buf (pos + planar_pos N S n c) S = Some ?bs"
      using P n c in_P room by (auto simp: mem_read_def carries_def)
    have len: "length ?bs = S" using frame_inside [OF n c, of S] P by (simp add: carries_def)
    obtain u where u: "mem_write t (frame_pos C S n c) ?bs = Some u"
      using frame_inside [OF n c, of S] dst t len by (simp add: mem_write_def)
    have "?cell n' c' u" if "c' < C" "(n', c') \<noteq> (n, c)" "?cell n' c' t" for n' c'
    proof -
      have "(c', n') \<noteq> (c, n)" using that(2) by auto
      then show ?thesis
        using that mem_write_other [OF u] cell_disjoint [OF c that(1), of n' n S] len
        by (auto simp: frame_pos_cell)
    qed
    then show "\<exists>u. ?f n c t = Some u \<and> length u = length dst \<and> ?cell n c u \<and>
        (\<forall>n' c'. n' < N \<longrightarrow> c' < C \<longrightarrow> (n', c') \<noteq> (n, c) \<longrightarrow> ?cell n' c' t \<longrightarrow> ?cell n' c' u)"
      using r u mem_write_same [OF u] mem_write_length [OF u] t len by auto
  qed
  then obtain d where d: "interleave buf pos (int N) (int C) (int C) (int S) dst = Some d" "length d = length dst"
      "\<And>n c. n < N \<Longrightarrow> c < C \<Longrightarrow> ?cell n c d"
    by (auto simp: interleave_def nat_planar nat_frame)
  have "take (N * C * S) d = take (N * C * S) a" by (rule cells_determine [OF d(3)])
  then show ?thesis using d P by (auto simp: carries_def)
qed

section \<open>The sender\<close>

text \<open>A packet that carries slot \<open>a\<close> with sequence number \<open>k\<close>.\<close>

definition packet_for :: "nat \<Rightarrow> nat \<Rightarrow> nat \<Rightarrow> nat \<Rightarrow> bytes \<Rightarrow> bytes \<Rightarrow> bool" where
  "packet_for N C S k a pkt \<longleftrightarrow> (\<exists>h P. pkt = default_struct_bytes h @ P \<and> SeqNumber h = of_nat k \<and>
     BufferSize h = of_nat N \<and> outgoing_chans h = of_nat C \<and> carries N C S P a)"

text \<open>A datagram whose newest packet is number \<open>k\<close>, with the \<open>R - 1\<close> packets before it.\<close>

definition datagram_for :: "nat \<Rightarrow> nat \<Rightarrow> nat \<Rightarrow> nat \<Rightarrow> (nat \<Rightarrow> bytes) \<Rightarrow> nat \<Rightarrow> bytes \<Rightarrow> bool" where
  "datagram_for N C S R slot k D \<longleftrightarrow> length D = R * (16 + N * C * S) \<and>
     (\<forall>i<R. i \<le> k \<longrightarrow> packet_for N C S (k - i) (slot (k - i))
        (take (16 + N * C * S) (drop (i * (16 + N * C * S)) D)))"

definition shape :: "nat \<Rightarrow> nat \<Rightarrow> nat \<Rightarrow> bool" where
  "shape N C S \<longleftrightarrow> 1 \<le> N \<and> N \<le> 4096 \<and> 1 \<le> C \<and> C \<le> 128 \<and> 1 \<le> S \<and> S \<le> 4"

text \<open>The sender after \<open>run_setup\<close>, about to send packet \<open>k\<close>.\<close>

definition sender_ready :: "nat \<Rightarrow> nat \<Rightarrow> nat \<Rightarrow> nat \<Rightarrow> nat \<Rightarrow> UdpDataProtocol \<Rightarrow> bool" where
  "sender_ready N C S R k s \<longleftrightarrow> shape N C S \<and>
     sane_sender (mJackTrip s) \<and> unat (mAudioBufferSize (mJackTrip s)) = N \<and>
     mNumAudioChansIn (mJackTrip s) = int C \<and> bit_resolution_code (jtAudioBitResolution (mJackTrip s)) = S \<and>
     (\<exists>rate. getSampleRateType (mSampleRate (mAudioInterface (mJackTrip s))) = Some rate) \<and>
     (\<exists>b h. mPacketHeader (mJackTrip s) = DefaultHeader b h \<and> SeqNumber h = of_nat k) \<and>
     mChans s = int C \<and> mSmplSize s = int S \<and> mAudioPacketSize s = of_nat (N * C * S) \<and>
     length (mAudioPacket s) = N * C * S \<and> length (mBuffer s) = N * C * S \<and>
     length (mFullPacket s) = 16 + N * C * S \<and>
     1 \<le> R \<and> R * (16 + N * C * S) \<le> 65536 \<and> mUdpRedundancyFactor s = of_nat R"

lemma shape_bounds:
  assumes "shape N C S"
  shows "N * C * S \<le> 2097152" and "0 < N * C * S" and "N * C \<le> 524288"
proof -
  have 1: "N * C \<le> 4096 * 128" using assms by (intro mult_le_mono) (simp_all add: shape_def)
  have "N * C * S \<le> 4096 * 128 * 4" using assms 1 by (intro mult_le_mono) (simp_all add: shape_def)
  then show "N * C * S \<le> 2097152" by simp
  show "0 < N * C * S" using assms by (simp add: shape_def)
  show "N * C \<le> 524288" using 1 by simp
qed

lemma u64_div_of_nat:
  "a < 18446744073709551616 \<Longrightarrow> 0 < b \<Longrightarrow> b < 18446744073709551616 \<Longrightarrow>
     u64_div (of_nat a) (of_nat b) = Some (of_nat (a div b))"
  by (auto simp: u64_div_def word_unat_eq_iff unat_div unat_of_nat)
     (metis div_le_dividend le_less_trans mod_less)

text \<open>The header that the sender fills for packet \<open>k\<close>.\<close>

lemma filled_packet:
  assumes "sender_ready N C S R k s" and "carries N C S P a"
  shows "\<exists>full b h. putHeaderInOutgoingPacket now (mJackTrip s) (mFullPacket s) (Some P) =
      Some ((mJackTrip s)\<lparr>mPacketHeader := DefaultHeader b h\<rparr>, full, []) \<and>
    packet_for N C S k a full \<and> length full = 16 + N * C * S \<and> SeqNumber h = of_nat k"
proof -
  let ?jt = "mJackTrip s"
  have sr: "sane_sender ?jt" "unat (mAudioBufferSize ?jt) = N" "mNumAudioChansIn ?jt = int C"
      "bit_resolution_code (jtAudioBitResolution ?jt) = S" "length (mFullPacket s) = 16 + N * C * S" "shape N C S"
    using assms(1) unfolding sender_ready_def by blast+
  have lP: "length P = N * C * S" using assms(2) by (simp add: carries_def)
  obtain rate b h0 where rate: "getSampleRateType (mSampleRate (mAudioInterface ?jt)) = Some rate"
    and hd: "mPacketHeader ?jt = DefaultHeader b h0" and seq: "SeqNumber h0 = of_nat k"
    using assms(1) by (auto simp: sender_ready_def)
  have C: "nat (mNumAudioChansIn ?jt) = C" by (simp add: sr(3))
  have pay: "send_payload ?jt = N * C * S" unfolding send_payload_def C by (simp add: sr(2,4))
  obtain h where h: "putHeaderInOutgoingPacket now ?jt (mFullPacket s) (Some P) =
      Some (?jt\<lparr>mPacketHeader := DefaultHeader b h\<rparr>, default_struct_bytes h @ P, [])"
    and f: "BufferSize h = ucast (mAudioBufferSize ?jt)" "SeqNumber h = of_nat k"
      "NumIncomingChannelsFromNet h = of_nat (nat (mNumAudioChansOut ?jt))"
      "NumOutgoingChannelsToNet h = (if C = nat (mNumAudioChansOut ?jt) then 0 else of_nat C)"
    using outgoing_packet [OF sr(1) hd rate, of "mFullPacket s" P now] sr(5) lP seq by (auto simp: pay C)
  have "1 \<le> C" "C \<le> 128" using sr(6) by (simp_all add: shape_def)
  note C8 = small_u8 [OF this]
  have "BufferSize h = of_nat N" unfolding f(1) sr(2) [symmetric] by simp
  moreover have "outgoing_chans h = of_nat C" using f(3,4) C8 by (simp add: outgoing_chans_def)
  ultimately have "packet_for N C S k a (default_struct_bytes h @ P)"
    using f(2) assms(2) unfolding packet_for_def by blast
  moreover have "length (default_struct_bytes h @ P) = 16 + N * C * S"
    using lP hdr.bytes_size [of "DefaultHeader b h"] by simp
  ultimately show ?thesis using h f(2) by blast
qed

lemma int_of_size_nat: "n < 2147483648 \<Longrightarrow> int_of_size (of_nat n) = int n"
proof -
  assume "n < 2147483648"
  then have "sint (of_int (int n) :: u32) = int n" by (intro sint_of_int_u32 int32_range_of_nat)
  moreover have "(ucast (of_nat n :: u64) :: u32) = of_nat n"
    using \<open>n < 2147483648\<close> by (simp add: word_unat_eq_iff unsigned_ucast_eq take_bit_eq_mod unat_of_nat)
  ultimately show ?thesis by (simp add: int_of_size_def)
qed

text \<open>The payload that the sender hands to the header.\<close>

lemma sender_payload:
  assumes "shape N C S" and "length slot = N * C * S" and "length dst = N * C * S"
  shows "\<exists>P. carries N C S P slot \<and>
    (if 1 < C then (do {
       frames \<leftarrow> u64_div (of_nat (N * C * S)) (of_int (int C));
       n \<leftarrow> u64_div frames (of_int (int S));
       deinterleave slot (int_of_size n) (int C) (int S) dst }) = Some P
     else P = slot)"
proof (cases "1 < C")
  case True
  have N: "N \<le> 4096" "0 < C" "0 < S" "C \<le> 128" "S \<le> 4" using assms(1) by (simp_all add: shape_def)
  have b: "N * C * S < 18446744073709551616" "N * S < 18446744073709551616"
    using shape_bounds(1) [OF assms(1)] mult_le_mono [OF N(1,5)] by linarith+
  have "u64_div (of_nat (N * C * S)) (of_nat C) = Some (of_nat (N * C * S div C))"
    using N b(1) by (intro u64_div_of_nat) linarith+
  moreover have "N * C * S div C = N * S" using N(2) by (simp add: ac_simps)
  moreover have "u64_div (of_nat (N * S)) (of_nat S) = Some (of_nat (N * S div S))"
    using N b(2) by (intro u64_div_of_nat) linarith+
  ultimately show ?thesis
    using deinterleave_carries [OF assms(2,3)] True N(1,3) int_of_size_nat [of N]
    by (auto simp del: of_nat_mult)
next
  case False
  then have "C = 1" using assms(1) by (simp add: shape_def)
  then show ?thesis using carries_mono [of slot N S] assms(2) by (intro exI [of _ slot]) simp
qed

text \<open>The new packet goes before the \<open>R - 1\<close> newest of the array.\<close>

lemma shift_packets:
  fixes F R :: nat
  assumes "length buf = R * F" and "length full = F" and "1 \<le> R"
  shows "\<exists>b. mem_write buf F (take (F * (R - 1)) buf) = Some b \<and>
    mem_write b 0 full = Some (full @ take (F * (R - 1)) buf)"
proof -
  have RF: "R * F = F + F * (R - 1)" using assms(3) by (cases R) (simp_all add: algebra_simps)
  let ?t = "take (F * (R - 1)) buf"
  have "length ?t = F * (R - 1)" using assms(1) RF by simp
  then show ?thesis using assms(1,2) RF by (simp add: mem_write_def)
qed

lemma shifted_packet:
  fixes F j m :: nat
  assumes "length full = F" and "Suc j * F \<le> m"
  shows "take F (drop (Suc j * F) (full @ take m buf)) = take F (drop (j * F) buf)"
proof -
  have "drop (Suc j * F) (full @ take m buf) = take (m - j * F) (drop (j * F) buf)"
    using assms(1) by (simp add: drop_take)
  moreover have "F \<le> m - j * F" using assms(2) by simp
  ultimately show ?thesis by (simp add: min_absorb1)
qed

lemma datagram_step:
  assumes "k = 0 \<or> datagram_for N C S R slot (k - 1) buf" and "length buf = R * (16 + N * C * S)"
    and "packet_for N C S k (slot k) full" and "length full = 16 + N * C * S" and "1 \<le> R"
  shows "datagram_for N C S R slot k (full @ take ((16 + N * C * S) * (R - 1)) buf)"
proof -
  define F where "F = 16 + N * C * S"
  have "length (full @ take (F * (R - 1)) buf) = R * F"
    using assms(2,4,5) by (cases R) (simp_all add: F_def algebra_simps)
  moreover have "packet_for N C S (k - i) (slot (k - i)) (take F (drop (i * F) (full @ take (F * (R - 1)) buf)))"
    if i: "i < R" "i \<le> k" for i
  proof (cases i)
    case 0
    then show ?thesis using assms(3,4) by (simp add: F_def)
  next
    case (Suc j)
    then have j: "j \<le> k - 1" "j < R - 1" "0 < k" "k - i = k - 1 - j" using i by simp_all
    have "Suc j * F \<le> (R - 1) * F" using j(2) by (intro mult_le_mono1) simp
    then have "take F (drop (i * F) (full @ take (F * (R - 1)) buf)) = take F (drop (j * F) buf)"
      unfolding Suc using assms(4) by (intro shifted_packet) (simp_all only: F_def mult.commute)
    moreover have "packet_for N C S (k - 1 - j) (slot (k - 1 - j)) (take F (drop (j * F) buf))"
      using assms(1) j by (simp add: datagram_for_def F_def)
    ultimately show ?thesis using j(4) by simp
  qed
  ultimately show ?thesis by (simp add: datagram_for_def F_def)
qed

lemma send_step:
  assumes ready: "sender_ready N C S R k s" and slot: "slot k = a" "length a = N * C * S"
    and buf: "length buf = R * (16 + N * C * S)" "k = 0 \<or> datagram_for N C S R slot (k - 1) buf"
  shows "\<exists>D s'. sendPacketRedundancy a now buf (int (R * (16 + N * C * S))) (int (16 + N * C * S)) s =
      Some (D, D, s', []) \<and> datagram_for N C S R slot k D \<and> sender_ready N C S R (Suc k) s'"
proof -
  define F where "F = 16 + N * C * S"
  have sr: "shape N C S" "mChans s = int C" "mSmplSize s = int S" "mAudioPacketSize s = of_nat (N * C * S)"
      "length (mAudioPacket s) = N * C * S" "length (mBuffer s) = N * C * S"
      "1 \<le> R" "R * F \<le> 65536" "mUdpRedundancyFactor s = of_nat R"
    using ready unfolding sender_ready_def F_def by blast+
  have audio: "mem_write (mAudioPacket s) 0 a = Some a" using sr(5) slot(2) by (simp add: mem_write_def)
  let ?s1 = "s\<lparr>mAudioPacket := a\<rparr>"
  obtain P where P: "carries N C S P a" and conv:
    "if 1 < C then (do {
       frames \<leftarrow> u64_div (of_nat (N * C * S)) (of_int (int C));
       n \<leftarrow> u64_div frames (of_int (int S));
       deinterleave a (int_of_size n) (int C) (int S) (mBuffer s) }) = Some P
     else P = a"
    using sender_payload [OF sr(1) slot(2) sr(6)] by blast
  define s2 where "s2 = (if 1 < C then ?s1\<lparr>mBuffer := P\<rparr> else ?s1)"
  have ready2: "sender_ready N C S R k s2"
    using ready P slot(2) by (simp add: s2_def sender_ready_def carries_def)
  obtain full b h where full: "putHeaderInOutgoingPacket now (mJackTrip s2) (mFullPacket s2) (Some P) =
      Some ((mJackTrip s2)\<lparr>mPacketHeader := DefaultHeader b h\<rparr>, full, [])"
    and pf: "packet_for N C S k a full" "length full = F" "SeqNumber h = of_nat k"
    using filled_packet [OF ready2 P, of now] by (auto simp: F_def)
  have "(of_nat R :: u32) - 1 = of_nat (R - 1)" using sr(7) by (simp add: of_nat_diff)
  moreover have "F * (R - 1) < 4294967296"
  proof -
    have "(R - 1) * F \<le> R * F" by (intro mult_le_mono1) simp
    then have "(R - 1) * F < 4294967296" using sr(8) by linarith
    then show ?thesis by (simp only: mult.commute)
  qed
  ultimately have older: "unat (of_int (int F) * (mUdpRedundancyFactor s2 - 1) :: u32) = F * (R - 1)"
    using sr(8,9) by (simp add: s2_def unat_of_nat mod_less flip: of_nat_mult)
  obtain b' where b': "mem_write buf F (take (F * (R - 1)) buf) = Some b'"
      "mem_write b' 0 full = Some (full @ take (F * (R - 1)) buf)"
    using shift_packets [of buf R F full] buf(1) pf(2) sr(7) by (auto simp: F_def)
  define D where "D = full @ take (F * (R - 1)) buf"
  have D: "datagram_for N C S R slot k D" "length D = R * F"
    using datagram_step [OF buf(2,1), of full] pf(1,2) slot(1) sr(7) by (auto simp: D_def F_def datagram_for_def)
  let ?s' = "s2\<lparr>mFullPacket := full, mJackTrip := (mJackTrip s2)\<lparr>mPacketHeader :=
     increaseSequenceNumber (DefaultHeader b h)\<rparr>\<rparr>"
  have bufF: "length buf = R * F" "R * F - F = F * (R - Suc 0)" "F \<le> R * F"
    using buf(1) sr(7) by (cases R; simp add: F_def algebra_simps)+
  have "sendPacketRedundancy a now buf (int (R * F)) (int F) s = Some (D, D, ?s', [])"
  proof (cases "1 < C")
    case True
    then obtain frames n where "u64_div (of_nat (N * C * S)) (of_int (int C)) = Some frames"
        "u64_div frames (of_int (int S)) = Some n"
        "deinterleave a (int_of_size n) (int C) (int S) (mBuffer s) = Some P"
      using conv by (auto split: Option.bind_splits)
    then show ?thesis
      using True sr(2,3,4) audio full older b' pf(2) D(2) bufF
      by (simp add: sendPacketRedundancy_def s2_def mem_read_def D_def del: of_nat_mult of_nat_add)
  next
    case False
    then show ?thesis
      using conv sr(2,3,4) audio full older b' pf(2) D(2) bufF
      by (simp add: sendPacketRedundancy_def s2_def mem_read_def D_def del: of_nat_mult of_nat_add)
  qed
  moreover have "sender_ready N C S R (Suc k) ?s'"
    using ready2 pf(2,3) by (simp add: sender_ready_def F_def sane_sender_def)
  ultimately show ?thesis using D(1) by (auto simp: F_def)
qed

lemma sender_run:
  assumes "sender_ready N C S R k s" and "length buf = R * (16 + N * C * S)"
    and "k = 0 \<or> datagram_for N C S R slot (k - 1) buf"
    and "\<And>i. i < length slots \<Longrightarrow> fst (slots ! i) = slot (k + i) \<and> length (slot (k + i)) = N * C * S"
  shows "\<exists>ds buf' s'. sender_loop slots buf (int (R * (16 + N * C * S))) (int (16 + N * C * S)) s = Some (ds, buf', s') \<and>
    length ds = length slots \<and> (\<forall>i<length slots. datagram_for N C S R slot (k + i) (ds ! i))"
  using assms
proof (induction slots arbitrary: k buf s)
  case (Cons x slots)
  obtain a now where x: "x = (a, now)" by (cases x)
  have a: "slot k = a" "length a = N * C * S" using Cons.prems(4) [of 0] x by auto
  obtain D s' where D: "sendPacketRedundancy a now buf (int (R * (16 + N * C * S))) (int (16 + N * C * S)) s =
      Some (D, D, s', [])" "datagram_for N C S R slot k D" "sender_ready N C S R (Suc k) s'"
    using send_step [OF Cons.prems(1) a Cons.prems(2,3), of now] by blast
  have "length D = R * (16 + N * C * S)" using D(2) by (simp add: datagram_for_def)
  moreover have "fst (slots ! i) = slot (Suc k + i) \<and> length (slot (Suc k + i)) = N * C * S"
    if "i < length slots" for i
    using Cons.prems(4) [of "Suc i"] that by simp
  ultimately obtain ds buf' s'' where ds:
      "sender_loop slots D (int (R * (16 + N * C * S))) (int (16 + N * C * S)) s' = Some (ds, buf', s'')"
      "length ds = length slots" "\<forall>i<length slots. datagram_for N C S R slot (Suc k + i) (ds ! i)"
    using Cons.IH [OF D(3), of D] D(2) by fastforce
  have "sender_loop (x # slots) buf (int (R * (16 + N * C * S))) (int (16 + N * C * S)) s = Some (D # ds, buf', s'')"
    using D(1) ds(1) by (simp only: x sender_loop.simps bind.bind_lunit prod.case)
  moreover have "datagram_for N C S R slot (k + i) ((D # ds) ! i)" if "i < length (x # slots)" for i
    using that D(2) ds(3) by (cases i) auto
  ultimately show ?case using ds(2) by (intro exI conjI) auto
qed simp

section \<open>The receiver\<close>

text \<open>The calls of \<open>writeAudioBuffer\<close>: the slot that is passed, its length, the gap and the number.\<close>

definition record_write :: "(bytes \<times> int \<times> int \<times> int) list \<Rightarrow> bytes \<Rightarrow> int \<Rightarrow> int \<Rightarrow> int \<Rightarrow>
    (bool \<times> (bytes \<times> int \<times> int \<times> int) list) option" where
  "record_write r src len gap seq = map_option (\<lambda>bs. (True, r @ [(bs, len, gap, seq)])) (mem_read src 0 (nat len))"

definition receiver_ready :: "nat \<Rightarrow> nat \<Rightarrow> nat \<Rightarrow> nat \<Rightarrow> UdpDataProtocol \<Rightarrow> bool" where
  "receiver_ready N C S R s \<longleftrightarrow> shape N C S \<and>
     (\<exists>b h. mPacketHeader (mJackTrip s) = DefaultHeader b h) \<and>
     mChans s = int C \<and> mSmplSize s = int S \<and>
     1 \<le> R \<and> R * (16 + N * C * S) \<le> 65536 \<and> mUdpRedundancyFactor s = of_nat R \<and>
     \<not> 0 < mSimulatedLossRate s \<and> \<not> 0 < mSimulatedJitterRate s"

lemma receiver_ready_update:
  assumes "receiver_ready N C S R s"
  shows "receiver_ready N C S R (s\<lparr>mBuffer := b\<rparr>)" "receiver_ready N C S R (s\<lparr>mRevivedCount := v\<rparr>)"
    "receiver_ready N C S R (s\<lparr>mLostCount := lc, mTotCount := tc, mLastOutOfOrderCount := oc, mInitialState := i\<rparr>)"
    "receiver_ready N C S R (s\<lparr>mLastOutOfOrderCount := oc, mInitialState := i\<rparr>)"
  using assms by (simp_all add: receiver_ready_def)

lemma carries_mono_eq: "carries N 1 S P a \<Longrightarrow> P = a"
proof -
  assume c: "carries N 1 S P a"
  then have "take (N * 1 * S) P = take (N * 1 * S) a"
    by (intro cells_determine) (auto simp: carries_def frame_pos_def planar_pos_def)
  then show "P = a" using c by (simp add: carries_def)
qed

text \<open>The packet at index \<open>i\<close> of a received datagram.\<close>

lemma datagram_packet:
  assumes d: "datagram_for N C S R slot k (take (R * F) buf)" and F: "F = 16 + N * C * S"
    and room: "R * F \<le> length buf" and i: "i < R" "i \<le> k"
  shows "\<exists>h P. take 16 (drop (i * F) buf) = default_struct_bytes h \<and> SeqNumber h = of_nat (k - i) \<and>
    BufferSize h = of_nat N \<and> outgoing_chans h = of_nat C \<and>
    take (N * C * S) (drop (i * F + 16) buf) = P \<and> carries N C S P (slot (k - i)) \<and> i * F + 16 + N * C * S \<le> length buf"
proof -
  have "Suc i * F \<le> R * F" using i(1) by (intro mult_le_mono1) simp
  then have le: "i * F + F \<le> R * F" by simp
  have "packet_for N C S (k - i) (slot (k - i)) (take F (drop (i * F) (take (R * F) buf)))"
    using d i unfolding F datagram_for_def by blast
  moreover have "take F (drop (i * F) (take (R * F) buf)) = take F (drop (i * F) buf)"
    using le by (simp add: drop_take min_absorb1)
  ultimately obtain h P where h: "take F (drop (i * F) buf) = default_struct_bytes h @ P"
      "SeqNumber h = of_nat (k - i)" "BufferSize h = of_nat N" "outgoing_chans h = of_nat C"
      "carries N C S P (slot (k - i))"
    by (auto simp: packet_for_def)
  have hl: "length (default_struct_bytes h) = 16" using hdr.bytes_size [of "DefaultHeader undefined h"] by simp
  have lP: "length P = N * C * S" using h(5) by (simp add: carries_def)
  have "take 16 (take F (drop (i * F) buf)) = default_struct_bytes h" unfolding h(1) using hl by simp
  then have 1: "take 16 (drop (i * F) buf) = default_struct_bytes h" by (simp add: F min_absorb1)
  have "drop 16 (take F (drop (i * F) buf)) = P" unfolding h(1) using hl by simp
  then have "take (N * C * S) (drop (i * F + 16) buf) = P" by (simp add: F drop_take ac_simps)
  then show ?thesis using 1 h le room by (intro exI [of _ h] exI [of _ P]) (simp add: F)
qed

fun calls :: "(nat \<Rightarrow> bytes) \<Rightarrow> nat \<Rightarrow> int \<Rightarrow> int \<Rightarrow> nat list \<Rightarrow> int \<Rightarrow> (bytes \<times> int \<times> int \<times> int) list" where
  "calls slot k len seq [] gap = []"
| "calls slot k len seq (i # is) gap = (slot (k - i), len, gap, seq) # calls slot k len seq is 0"

lemma deliver_records:
  assumes "receiver_ready N C S R s" and F: "F = 16 + N * C * S"
    and d: "datagram_for N C S R slot k (take (R * F) buf)" and room: "R * F \<le> length buf"
    and "N * C * S \<le> length (mBuffer s)" and "\<And>i. i \<in> set is \<Longrightarrow> i < R \<and> i \<le> k"
  shows "\<exists>b. deliver record_write buf 16 (int F) (int N) (int C) (int (N * C * S)) seq is gap s r =
    Some (s\<lparr>mBuffer := b\<rparr>, r @ calls slot k (int (N * C * S)) (int (unat seq)) is gap, [])"
  using assms(1,5,6)
proof (induction "is" arbitrary: s r gap)
  case Nil
  have "s = s\<lparr>mBuffer := mBuffer s\<rparr>" by simp
  then show ?case unfolding deliver.simps calls.simps by (metis append_Nil2)
next
  case (Cons i "is")
  have i: "i < R" "i \<le> k" using Cons.prems(3) by simp_all
  obtain P where P: "take (N * C * S) (drop (i * F + 16) buf) = P" "carries N C S P (slot (k - i))"
      "i * F + 16 + N * C * S \<le> length buf"
    using datagram_packet [OF d F room i] by blast
  have pos: "nat (int i * int F) + 16 = i * F + 16" by (simp flip: of_nat_mult)
  have s: "mChans s = int C" "mSmplSize s = int S" using Cons.prems(1) by (simp_all add: receiver_ready_def)
  have len: "length (slot (k - i)) = N * C * S" using P(2) by (simp add: carries_def)
  obtain src b where src: "(if mChans s \<noteq> 1
      then (do {
        dst \<leftarrow> interleave buf (i * F + 16) (int N) (min (mChans s) (int C)) (mChans s) (mSmplSize s) (mBuffer s);
        Some (dst, s\<lparr>mBuffer := dst\<rparr>) })
      else Some (drop (i * F + 16) buf, s)) = Some (src, s\<lparr>mBuffer := b\<rparr>)"
    and b: "N * C * S \<le> length b" and src_slot: "take (N * C * S) src = slot (k - i)" "N * C * S \<le> length src"
  proof (cases "C = 1")
    case True
    then have "P = slot (k - i)" using P(2) carries_mono_eq by blast
    moreover have "s\<lparr>mBuffer := mBuffer s\<rparr> = s" by simp
    ultimately show ?thesis
      using that [of "drop (i * F + 16) buf" "mBuffer s"] P(1,3) True s(1) Cons.prems(2) by simp
  next
    case False
    obtain dst where "interleave buf (i * F + 16) (int N) (int C) (int C) (int S) (mBuffer s) = Some dst"
        "length dst = length (mBuffer s)" "take (N * C * S) dst = slot (k - i)"
      using interleave_restores [OF P(2,1,3) Cons.prems(2)] by blast
    then show ?thesis using that [of dst dst] False s Cons.prems(2) by simp
  qed
  have w: "record_write r src (int (N * C * S)) gap (int (unat seq)) =
      Some (True, r @ [(slot (k - i), int (N * C * S), gap, int (unat seq))])"
    using src_slot by (simp add: record_write_def mem_read_def del: of_nat_mult of_nat_unat)
  obtain b' where "deliver record_write buf 16 (int F) (int N) (int C) (int (N * C * S)) seq is 0 (s\<lparr>mBuffer := b\<rparr>)
      (r @ [(slot (k - i), int (N * C * S), gap, int (unat seq))]) =
    Some (s\<lparr>mBuffer := b\<rparr>\<lparr>mBuffer := b'\<rparr>, (r @ [(slot (k - i), int (N * C * S), gap, int (unat seq))]) @
      calls slot k (int (N * C * S)) (int (unat seq)) is 0, [])"
    using Cons.IH [OF receiver_ready_update(1) [OF Cons.prems(1)], of b 0 "r @ [(slot (k - i), int (N * C * S), gap, int (unat seq))]"]
      b Cons.prems(3) by auto
  then have "deliver record_write buf 16 (int F) (int N) (int C) (int (N * C * S)) seq (i # is) gap s r =
    Some (s\<lparr>mBuffer := b'\<rparr>, r @ calls slot k (int (N * C * S)) (int (unat seq)) (i # is) gap, [])"
    unfolding deliver.simps Let_def pos src by (simp add: w del: of_nat_mult of_nat_unat)
  then show ?case by blast
qed

lemma u16_less: "unat (w :: u16) < 65536" "uint w < 65536"
  using unsigned_less [of w] uint_lt2p [of w] by simp_all

text \<open>The search in a datagram, without and with a wrap of the expected number.\<close>

lemma datagram_seq:
  assumes "datagram_for N C S R slot k (take (R * F) buf)" and F: "F = 16 + N * C * S"
    and "R * F \<le> length buf" and "i < R" "i \<le> k" and "R * F \<le> 65536"
  shows "getPeerSequenceNumber (DefaultHeader b h) buf (unat (of_nat i * of_int (int F) :: u32)) = Some (of_nat (k - i))"
proof -
  have "i * F \<le> R * F" using assms(4) by (intro mult_le_mono1) simp
  then have "i * F < 4294967296" using assms(6) by linarith
  then have "unat (of_nat i * of_int (int F) :: u32) = i * F"
    by (simp add: unat_of_nat flip: of_nat_mult)
  then show ?thesis
    using datagram_packet [OF assms(1) F assms(3-5)] by (auto simp: peer_fields(2))
qed

lemma find_redundant_expected:
  assumes "datagram_for N C S R slot k (take (R * F) buf)" and "F = 16 + N * C * S"
    and "R * F \<le> length buf" and "R * F \<le> 65536" and l: "l < k" "k < 65536"
    and "1 \<le> j" "j \<le> R" "j - 1 \<le> k - l - 1"
  shows "find_redundant (DefaultHeader b h) buf (int F) (of_nat l) [j..<R] (of_nat (k - (j - 1))) (j - 1) =
    Some (min (k - l - 1) (R - 1), of_nat (k - min (k - l - 1) (R - 1)))"
  using assms(7-9)
proof (induction "R - j" arbitrary: j)
  case 0
  then have "R \<le> j" "min (k - l - 1) (R - 1) = j - 1" by simp_all
  then show ?case by simp
next
  case (Suc d)
  have j: "[j..<R] = j # [Suc j..<R]" using Suc by (simp add: upt_conv_Cons)
  have u: "unat (of_nat (k - (j - 1)) :: u16) = k - (j - 1)" "unat (of_nat l :: u16) = l"
    using l by (simp_all add: unat_of_nat)
  show ?case
  proof (cases "k - (j - 1) = l + 1")
    case True
    then have "min (k - l - 1) (R - 1) = j - 1" using Suc by simp
    then show ?thesis unfolding j find_redundant.simps u using True by simp
  next
    case False
    then have le: "j \<le> k - l - 1" using Suc.prems l by linarith
    then have "getPeerSequenceNumber (DefaultHeader b h) buf (unat (of_nat j * of_int (int F) :: u32)) = Some (of_nat (k - j))"
      using datagram_seq [OF assms(1-3) _ _ assms(4), of j] Suc by simp
    moreover have "int (k - (j - 1)) \<noteq> int l + 1" using False by simp
    ultimately show ?thesis
      using Suc.hyps(1) [of "Suc j"] Suc.hyps(2) Suc.prems le unfolding j find_redundant.simps u by simp
  qed
qed

lemma find_redundant_never:
  assumes "datagram_for N C S R slot k (take (R * F) buf)" and "F = 16 + N * C * S"
    and "R * F \<le> length buf" and "R * F \<le> 65536" and "R \<le> Suc k"
    and "1 \<le> j" "j \<le> R"
  shows "find_redundant (DefaultHeader b h) buf (int F) 65535 [j..<R] (of_nat (k - (j - 1))) (j - 1) =
    Some (R - 1, of_nat (k - (R - 1)))"
  using assms(6-7)
proof (induction "R - j" arbitrary: j)
  case (Suc d)
  have j: "[j..<R] = j # [Suc j..<R]" using Suc by (simp add: upt_conv_Cons)
  have "getPeerSequenceNumber (DefaultHeader b h) buf (unat (of_nat j * of_int (int F) :: u32)) = Some (of_nat (k - j))"
    using datagram_seq [OF assms(1-3) _ _ assms(4), of j] Suc assms(5) by simp
  moreover have "int (unat (of_nat (k - (j - 1)) :: u16)) \<noteq> 65536"
    using u16_less(2) [of "of_nat (k - (j - 1))"] by simp
  ultimately show ?case
    using Suc.hyps(1) [of "Suc j"] Suc.hyps(2) Suc.prems unfolding j find_redundant.simps by simp
qed simp

text \<open>A datagram that the accounting accepts, for whatever index the search finds.\<close>

lemma receive_datagram:
  assumes ready: "receiver_ready N C S R s" and F: "F = 16 + N * C * S"
    and d: "datagram_for N C S R slot k (take (R * F) buf)" and room: "R * F \<le> length buf"
    and acc: "account_packet (of_nat k) (last_seq_num q) s = Some (s1, Some lost)"
    and s1: "receiver_ready N C S R s1" "\<not> mInitialState s1" and lost: "0 \<le> lost" "lost \<le> 1000"
    and found: "\<And>b h. find_redundant (DefaultHeader b h) buf (int F) (last_seq_num q) [1..<R] (of_nat k) 0 = Some (idx, cur)"
    and idx: "idx < R" "idx \<le> k"
  shows "\<exists>b'. receivePacketRedundancy record_write x buf (int (R * F)) (int F) q s r =
    Some (q\<lparr>newer_seq_num := of_nat k, current_seq_num := cur, last_seq_num := of_nat k\<rparr>,
      s1\<lparr>mRevivedCount := mRevivedCount s1 + of_nat idx, mBuffer := b'\<rparr>,
      r @ calls slot k (int (N * C * S)) (int (unat (of_nat k :: u16))) (rev [0..<Suc idx])
        ((lost - int idx) * int (N * C * S)), [])"
proof -
  define L where "L = N * C * S"
  have sh: "shape N C S" "1 \<le> R" "R * F \<le> 65536" "unat (mUdpRedundancyFactor s1) = R"
    and s1f: "mChans s1 = int C" "mSmplSize s1 = int S"
  proof -
    have "R \<le> R * F" using F by (cases F) simp_all
    moreover have "R * F \<le> 65536" using s1(1) F by (simp add: receiver_ready_def)
    ultimately have "R < 4294967296" by linarith
    then show "shape N C S" "1 \<le> R" "R * F \<le> 65536" "unat (mUdpRedundancyFactor s1) = R"
        "mChans s1 = int C" "mSmplSize s1 = int S"
      using s1(1) F by (auto simp: receiver_ready_def unat_of_nat)
  qed
  note L = shape_bounds(2) [OF sh(1), folded L_def]
  obtain h0 P where p: "take 16 (drop (0 * F) buf) = default_struct_bytes h0" "SeqNumber h0 = of_nat (k - 0)"
      "BufferSize h0 = of_nat N" "outgoing_chans h0 = of_nat C"
    using datagram_packet [OF d F room, of 0] sh(2) by auto
  then have p0: "take 16 (drop 0 buf) = default_struct_bytes h0" by simp
  obtain b h where hd: "mPacketHeader (mJackTrip s) = DefaultHeader b h"
    using ready by (auto simp: receiver_ready_def)
  have NC: "unat (of_nat N :: u16) = N" "unat (of_nat C :: u8) = C"
    using sh(1) by (simp_all add: shape_def unat_of_nat)
  have "1 * F \<le> R * F" using sh(2) by (intro mult_le_mono1) simp
  then have FR: "F \<le> R * F" by simp
  have LF: "F = 16 + L" by (simp add: F L_def)
  have F16: "L + 16 \<le> 65536" using FR sh(3) unfolding LF by linarith
  have prod: "int N * int C * int S = int L" by (simp add: L_def)
  have stride: "checked_int (int 16 + int N * int C * int S) = Some (int F)"
    unfolding prod using F16 LF by (simp add: int32_range_def)
  have max_idx: "cxx_div (int (R * F) - int F) (int F) = Some (int (R - 1))"
  proof -
    have "int (R * F) - int F = int (R - 1) * int F" using sh(2) by (simp add: of_nat_diff algebra_simps)
    then show ?thesis using LF cxx_div_pos [of "int (R - 1) * int F" "int F"] by simp
  qed
  have host: "checked_int (int N * int C * int S) = Some (int L)"
    unfolding prod using F16 LF by (simp add: int32_range_def)
  have "idx * L \<le> R * F" using idx(1) LF by (intro mult_le_mono) simp_all
  then have i1: "int idx * int L \<le> 65536" using sh(3) by (simp flip: of_nat_mult)
  have "lost * int L \<le> 1000 * 65536" using lost F16 by (intro mult_mono) simp_all
  moreover have "0 \<le> lost * int L" "0 \<le> int idx * int L" using lost(1) by simp_all
  ultimately have "int32_range ((lost - int idx) * int L)"
    using i1 unfolding int32_range_def left_diff_distrib by linarith
  then have gap: "checked_int ((lost - int idx) * int L) = Some ((lost - int idx) * int L)" by simp
  define s2 where "s2 = s1\<lparr>mRevivedCount := mRevivedCount s1 + of_nat idx,
      mBuffer := mBuffer s1 @ replicate (L - length (mBuffer s1)) 0\<rparr>"
  have r2: "receiver_ready N C S R s2" unfolding s2_def by (intro receiver_ready_update s1(1))
  have ok: "\<And>i. i \<in> set (rev [0..<Suc idx]) \<Longrightarrow> i < R \<and> i \<le> k" using idx by auto
  have room2: "N * C * S \<le> length (mBuffer s2)" by (simp add: s2_def L_def)
  obtain b' where b': "deliver record_write buf 16 (int F) (int N) (int C) (int L) (of_nat k) (rev [0..<Suc idx])
      ((lost - int idx) * int L) s2 r =
    Some (s2\<lparr>mBuffer := b'\<rparr>, r @ calls slot k (int L) (int (unat (of_nat k :: u16))) (rev [0..<Suc idx]) ((lost - int idx) * int L), [])"
    using deliver_records [where seq = "of_nat k" and gap = "(lost - int idx) * int L" and r = r, OF r2 F d room room2 ok]
    unfolding L_def by blast
  have c12: "\<not> int F \<le> int 16" "\<not> int (R * F) < int F"
    using L FR LF by (simp_all del: of_nat_mult of_nat_add)
  have drop: "\<not> simulated_drop x s" using ready by (simp add: receiver_ready_def simulated_drop_def)
  have "receivePacketRedundancy record_write x buf (int (R * F)) (int F) q s r =
    Some (q\<lparr>newer_seq_num := of_nat k, current_seq_num := cur, last_seq_num := of_nat k\<rparr>,
      s1\<lparr>mRevivedCount := mRevivedCount s1 + of_nat idx, mBuffer := b'\<rparr>,
      r @ calls slot k (int L) (int (unat (of_nat k :: u16))) (rev [0..<Suc idx]) ((lost - int idx) * int L), [])"
    using b' stride max_idx host gap c12 idx(1) s1(2)
    by (simp add: receivePacketRedundancy_def drop hd peer_fields [OF p0] peer_outgoing [OF p0] p acc
      found [unfolded One_nat_def] sh(4) s1f
      NC s2_def min_absorb1 del: of_nat_mult of_nat_add of_nat_unat of_nat_diff upt_Suc)
  then show ?thesis unfolding L_def by blast
qed

section \<open>Sequences of datagrams\<close>

lemma calls_no_gap: "calls slot k len seq is 0 = map (\<lambda>i. (slot (k - i), len, 0, seq)) is"
  by (induction "is") simp_all

lemma rev_upt_minus: "idx \<le> k \<Longrightarrow> map (\<lambda>i. k - i) (rev [0..<Suc idx]) = [k - idx..<Suc k]"
  by (intro nth_equalityI) (simp_all add: rev_nth del: upt_Suc)

lemma calls_slots:
  assumes "idx \<le> k"
  shows "calls slot k len seq (rev [0..<Suc idx]) 0 = map (\<lambda>n. (slot n, len, 0, seq)) [k - idx..<Suc k]"
  unfolding calls_no_gap rev_upt_minus [OF assms, symmetric] by (simp del: upt_Suc)

lemma account_lost:
  assumes "\<not> mInitialState s" and "sint (of_int (int (unat new) - int (unat old) - 1) :: u16) = lost"
    and "0 \<le> lost" "lost \<le> 1000"
  shows "account_packet new old s =
    Some (s\<lparr>mLostCount := mLostCount s + of_int lost, mTotCount := mTotCount s + of_int (1 + lost),
            mLastOutOfOrderCount := 0, mInitialState := False\<rparr>, Some lost)"
proof -
  have "(if lost \<noteq> 0 then mLostCount s + of_int lost else mLostCount s) = mLostCount s + of_int lost" by simp
  then show ?thesis
    unfolding account_packet_def assms(2) Let_def using assms(1,3,4) by simp
qed

lemma account_in_order:
  assumes "\<not> mInitialState s" and "l < k" "k < 65536" "k - l \<le> 1001"
  shows "account_packet (of_nat k) (of_nat l) s =
    Some (s\<lparr>mLostCount := mLostCount s + of_nat (k - l - 1), mTotCount := mTotCount s + of_nat (k - l),
            mLastOutOfOrderCount := 0, mInitialState := False\<rparr>, Some (int (k - l - 1)))"
proof -
  have u: "int (unat (of_nat k :: u16)) - int (unat (of_nat l :: u16)) - 1 = int (k - l - 1)"
    using assms(2,3) by (simp add: unat_of_nat of_nat_diff del: of_nat_unat)
  have s: "sint (of_int (int (k - l - 1)) :: u16) = int (k - l - 1)"
    using assms(4) by (simp add: signed_of_int signed_take_bit_int_eq_self del: of_int_of_nat_eq)
  have h: "sint (of_int (int (unat (of_nat k :: u16)) - int (unat (of_nat l :: u16)) - 1) :: u16) = int (k - l - 1)"
    unfolding u by (rule s)
  have "1 + int (k - l - 1) = int (k - l)" using assms(2) by simp
  then have e: "(of_int (1 + int (k - l - 1)) :: u32) = of_nat (k - l)" by (simp only: of_int_of_nat_eq)
  have "0 \<le> int (k - l - 1)" "int (k - l - 1) \<le> 1000" using assms(4) by simp_all
  from account_lost [OF assms(1) h this] show ?thesis unfolding e of_int_of_nat_eq .
qed

text \<open>The next datagram, with at most \<open>R - 1\<close> packets missing before it.\<close>

lemma recover_step:
  assumes ready: "receiver_ready N C S R s" "\<not> mInitialState s" and F: "F = 16 + N * C * S"
    and d: "datagram_for N C S R slot k (take (R * F) buf)" "R * F \<le> length buf"
    and q: "last_seq_num q = of_nat l" and l: "l < k" "k < 65536" "k - l \<le> R" "k - l \<le> 1001"
  shows "\<exists>b' cur. receivePacketRedundancy record_write x buf (int (R * F)) (int F) q s r =
    Some (q\<lparr>newer_seq_num := of_nat k, current_seq_num := cur, last_seq_num := of_nat k\<rparr>,
      s\<lparr>mLostCount := mLostCount s + of_nat (k - l - 1), mTotCount := mTotCount s + of_nat (k - l),
        mLastOutOfOrderCount := 0, mInitialState := False,
        mRevivedCount := mRevivedCount s + of_nat (k - l - 1), mBuffer := b'\<rparr>,
      r @ map (\<lambda>n. (slot n, int (N * C * S), 0, int k)) [Suc l..<Suc k], [])"
proof -
  let ?i = "k - l - 1"
  let ?s1 = "s\<lparr>mLostCount := mLostCount s + of_nat ?i, mTotCount := mTotCount s + of_nat (k - l),
      mLastOutOfOrderCount := 0, mInitialState := False\<rparr>"
  have R: "1 \<le> R" "R * F \<le> 65536" using ready(1) F by (simp_all add: receiver_ready_def)
  have acc: "account_packet (of_nat k) (last_seq_num q) s = Some (?s1, Some (int ?i))"
    unfolding q by (rule account_in_order [OF ready(2) l(1,2,4)])
  have "min ?i (R - 1) = ?i" using l(3) by simp
  then have found: "find_redundant (DefaultHeader b h) buf (int F) (last_seq_num q) [1..<R] (of_nat k) 0 =
      Some (?i, of_nat (k - ?i))" for b h
    using find_redundant_expected [OF d(1) F d(2) R(2) l(1,2), of 1] R(1) by (simp add: q)
  have i: "?i < R" "?i \<le> k" "0 \<le> int ?i" "int ?i \<le> 1000" using l R by auto
  have ini: "\<not> mInitialState ?s1" by simp
  have u: "int (unat (of_nat k :: u16)) = int k" using l(2) by (simp add: unat_of_nat del: of_nat_unat)
  have n: "k - ?i = Suc l" using l(1) by simp
  have "calls slot k (int (N * C * S)) (int (unat (of_nat k :: u16))) (rev [0..<Suc ?i])
        ((int ?i - int ?i) * int (N * C * S)) =
      map (\<lambda>n. (slot n, int (N * C * S), 0, int k)) [Suc l..<Suc k]"
    unfolding u using calls_slots [OF i(2)] unfolding n by simp
  then show ?thesis
    using receive_datagram [OF ready(1) F d acc receiver_ready_update(3) [OF ready(1)] ini i(3,4) found i(1,2), of x r]
    by (auto simp del: upt_Suc)
qed

text \<open>Datagrams that arrive in order, each at most \<open>R\<close> numbers after the one before.\<close>

fun recoverable :: "nat \<Rightarrow> nat \<Rightarrow> nat list \<Rightarrow> bool" where
  "recoverable R l [] = True"
| "recoverable R l (k # ks) = (l < k \<and> k - l \<le> R \<and> recoverable R k ks)"

definition receiving :: "nat \<Rightarrow> nat \<Rightarrow> nat \<Rightarrow> nat \<Rightarrow> nat \<Rightarrow> bytes \<times> seq_numbers \<times> UdpDataProtocol \<times> 'r \<Rightarrow> bool" where
  "receiving N C S R l st \<longleftrightarrow> (case st of (buf, q, s, r) \<Rightarrow>
     receiver_ready N C S R s \<and> \<not> mInitialState s \<and> \<not> mStopped s \<and> mControlPacketSize s = 63 \<and>
     R * (16 + N * C * S) \<le> length buf \<and> last_seq_num q = of_nat l)"

lemma receiver_turn_data:
  assumes "mControlPacketSize s = 63" and "length D \<noteq> 63" and "0 < length D" and "length D \<le> length buf"
  shows "receiver_turn w x (Some D) frps fps (buf, q, s, r) =
    (case receivePacketRedundancy w x (D @ drop (length D) buf) frps fps q s r of
       None \<Rightarrow> None
     | Some (q, s, r, events) \<Rightarrow> Some ((D @ drop (length D) buf, q, s, r), events))"
  using assms by (auto simp: receiver_turn_def receivePacket_def mem_write_def split: option.split Option.bind_split)

lemma recoverable_last: "recoverable R l ks \<Longrightarrow> ks \<noteq> [] \<Longrightarrow> l < last ks"
  by (induction ks arbitrary: l) (force split: if_splits)+

lemma receive_run:
  assumes "receiving N C S R l (buf, q, s, r)" and "recoverable R l ks" and "last (l # ks) < 65536"
    and "\<And>k. k \<in> set ks \<Longrightarrow> datagram_for N C S R slot k (D k)"
    and "R \<le> 1001" and no63: "R * (16 + N * C * S) \<noteq> 63"
  shows "\<exists>buf' q' s' cs. receiver_loop record_write (map (\<lambda>k. (x, Some (D k))) ks)
      (int (R * (16 + N * C * S))) (int (16 + N * C * S)) (buf, q, s, r) = Some ((buf', q', s', r @ cs), []) \<and>
    map (\<lambda>(bs, len, gap, seq). (bs, len, gap)) cs =
      map (\<lambda>n. (slot n, int (N * C * S), 0)) [Suc l..<Suc (last (l # ks))]"
  using assms(1-4)
proof (induction ks arbitrary: l buf q s r)
  case (Cons k ks)
  define F where "F = 16 + N * C * S"
  have st: "receiver_ready N C S R s" "\<not> mInitialState s" "\<not> mStopped s" "mControlPacketSize s = 63"
      "R * F \<le> length buf" "last_seq_num q = of_nat l"
    using Cons.prems(1) by (simp_all add: receiving_def F_def)
  have k: "l < k" "k - l \<le> R" "recoverable R k ks" using Cons.prems(2) by simp_all
  have last: "k \<le> last (k # ks)" using k(3)
  proof (induction ks arbitrary: k)
    case (Cons k' ks)
    then show ?case by fastforce
  qed simp
  have Dk: "datagram_for N C S R slot k (D k)" using Cons.prems(4) by simp
  then have len: "length (D k) = R * F" by (simp add: datagram_for_def F_def)
  define buf1 where "buf1 = D k @ drop (length (D k)) buf"
  have "take (R * F) buf1 = D k" "R * F \<le> length buf1" using len st(5) by (simp_all add: buf1_def)
  then obtain b' cur where step: "receivePacketRedundancy record_write x buf1 (int (R * F)) (int F) q s r =
    Some (q\<lparr>newer_seq_num := of_nat k, current_seq_num := cur, last_seq_num := of_nat k\<rparr>,
      s\<lparr>mLostCount := mLostCount s + of_nat (k - l - 1), mTotCount := mTotCount s + of_nat (k - l),
        mLastOutOfOrderCount := 0, mInitialState := False,
        mRevivedCount := mRevivedCount s + of_nat (k - l - 1), mBuffer := b'\<rparr>,
      r @ map (\<lambda>n. (slot n, int (N * C * S), 0, int k)) [Suc l..<Suc k], [])"
    using recover_step [OF st(1,2) F_def, of slot k buf1 q l x r] Dk st(6) k(1,2) last Cons.prems(3) assms(5)
    by auto
  define q1 where "q1 = q\<lparr>newer_seq_num := of_nat k, current_seq_num := cur, last_seq_num := of_nat k\<rparr>"
  define s1 where "s1 = s\<lparr>mLostCount := mLostCount s + of_nat (k - l - 1), mTotCount := mTotCount s + of_nat (k - l),
        mLastOutOfOrderCount := 0, mInitialState := False,
        mRevivedCount := mRevivedCount s + of_nat (k - l - 1), mBuffer := b'\<rparr>"
  define r1 where "r1 = r @ map (\<lambda>n. (slot n, int (N * C * S), 0 :: int, int k)) [Suc l..<Suc k]"
  have R: "1 \<le> R" using st(1) by (simp add: receiver_ready_def)
  have turn: "receiver_turn record_write x (Some (D k)) (int (R * F)) (int F) (buf, q, s, r) = Some ((buf1, q1, s1, r1), [])"
    using receiver_turn_data [OF st(4), of "D k" buf record_write x "int (R * F)" "int F" q r] no63 R st(5) step
    by (simp add: len buf1_def q1_def s1_def r1_def F_def del: upt_Suc)
  have "receiving N C S R k (buf1, q1, s1, r1)"
    using st \<open>R * F \<le> length buf1\<close> by (simp add: receiving_def receiver_ready_def q1_def s1_def F_def)
  then obtain buf' q' s' cs where rest: "receiver_loop record_write (map (\<lambda>k. (x, Some (D k))) ks)
      (int (R * F)) (int F) (buf1, q1, s1, r1) = Some ((buf', q', s', r1 @ cs), [])"
    "map (\<lambda>(bs, len, gap, seq). (bs, len, gap)) cs = map (\<lambda>n. (slot n, int (N * C * S), 0)) [Suc k..<Suc (last (k # ks))]"
    using Cons.IH [OF _ k(3), of buf1 q1 s1 r1] Cons.prems(3,4) unfolding F_def by auto
  define cs0 where "cs0 = map (\<lambda>n. (slot n, int (N * C * S), 0 :: int, int k)) [Suc l..<Suc k] @ cs"
  have cut: "[Suc l..<Suc (last (k # ks))] = [Suc l..<Suc k] @ [Suc k..<Suc (last (k # ks))]"
  proof -
    obtain d where "last (k # ks) = k + d" using last by (metis le_add_diff_inverse)
    then show ?thesis using upt_add_eq_append [of "Suc l" "Suc k" d] k(1) by (simp only: add_Suc)
  qed
  have "receiver_loop record_write (map (\<lambda>k. (x, Some (D k))) (k # ks)) (int (R * F)) (int F) (buf, q, s, r) =
      Some ((buf', q', s', r @ cs0), [])"
    using turn rest(1) st(3) by (simp add: r1_def cs0_def del: upt_Suc of_nat_mult)
  moreover have "map (\<lambda>(bs, len, gap, seq). (bs, len, gap)) cs0 =
      map (\<lambda>n. (slot n, int (N * C * S), 0)) [Suc l..<Suc (last (l # k # ks))]"
  proof -
    have "last (l # k # ks) = last (k # ks)" by simp
    then show ?thesis using rest(2) unfolding cs0_def by (simp add: cut comp_def del: upt_Suc last.simps)
  qed
  ultimately show ?case unfolding F_def by blast
qed simp

section \<open>Silence\<close>

lemma poll_timers_silent:
  "10 * (m + n) < 2147483648 \<Longrightarrow> poll_timers (replicate n False) (10 * int m) =
     Some (map (\<lambda>j. signalWaitingTooLong (10 * int j)) [Suc m..<Suc (m + n)])"
proof (induction n arbitrary: m)
  case (Suc n)
  have "poll_timer False (10 * int m) = Some (10 * int (Suc m), [signalWaitingTooLong (10 * int (Suc m))])"
    using Suc.prems by (simp add: poll_timer_def int32_range_def)
  moreover have "[Suc m..<Suc (m + Suc n)] = Suc m # [Suc (Suc m)..<Suc (Suc m + n)]"
    by (simp add: upt_conv_Cons del: upt_Suc)
  ultimately show ?case
    using Suc.IH [of "Suc m"] Suc.prems by (simp del: upt_Suc of_nat_Suc)
qed simp

lemma wait_multiple: "10 * int j mod 512 = 0 \<longleftrightarrow> 256 dvd j"
proof -
  have "10 * int j mod 512 = 0 \<longleftrightarrow> int 512 dvd int (10 * j)" by (simp add: dvd_eq_mod_eq_0)
  also have "\<dots> \<longleftrightarrow> 2 * 256 dvd 2 * (5 * j)" by (simp only: int_dvd_int_iff) simp
  also have "\<dots> \<longleftrightarrow> 256 dvd 5 * j" by (simp only: nat_mult_dvd_cancel_disj) simp
  also have "\<dots> \<longleftrightarrow> 256 dvd j"
    by (rule coprime_dvd_mult_right_iff) (simp add: coprime_iff_gcd_eq_1 gcd_non_0_nat)
  finally show ?thesis .
qed

lemma printed_wait:
  assumes "0 < j"
  shows "printUdpWaitedTooLong (10 * int j) = (if 256 dvd j then [signalUdpWaitingTooLong] else [])"
proof -
  have "cxx_mod (10 * int j) 512 = Some (10 * int j mod 512)" by (rule cxx_mod_pos) simp_all
  moreover note wait_multiple [of j]
  moreover have "256 dvd j \<Longrightarrow> \<not> 10 * int j \<le> 512" using assms by (auto elim!: dvdE)
  ultimately show ?thesis by (simp add: printUdpWaitedTooLong_def gUdpWaitTimeout_def)
qed

lemma wait_events_silent:
  "0 < m \<Longrightarrow> wait_events (map (\<lambda>j. signalWaitingTooLong (10 * int j)) [m..<m + n]) =
     replicate ((m + n - 1) div 256 - (m - 1) div 256) signalUdpWaitingTooLong"
proof (induction n arbitrary: m)
  case (Suc n)
  have "[m..<m + Suc n] = m # [Suc m..<Suc m + n]" by (simp add: upt_conv_Cons del: upt_Suc)
  moreover have "replicate ((m + Suc n - 1) div 256 - (m - 1) div 256) signalUdpWaitingTooLong =
      (if 256 dvd m then [signalUdpWaitingTooLong] else []) @
      replicate ((Suc m + n - 1) div 256 - (Suc m - 1) div 256) signalUdpWaitingTooLong"
  proof -
    have "m div 256 = (m - 1) div 256 + (if 256 dvd m then 1 else 0)"
      using Suc.prems div_Suc [of "m - 1" 256] by (simp add: dvd_eq_mod_eq_0)
    moreover have le: "m div 256 \<le> (m + n) div 256" by (intro div_le_mono) simp
    ultimately have "(m + n) div 256 - (m - 1) div 256 =
        (if 256 dvd m then 1 else 0) + ((m + n) div 256 - m div 256)" by simp
    then show ?thesis using le by (simp add: Suc_diff_le)
  qed
  ultimately show ?case
    using Suc.IH [of "Suc m"] Suc.prems printed_wait [of m] by (simp del: upt_Suc)
qed simp

section \<open>Properties\<close>

text \<open>
  C2: a sender and a receiver with the same redundancy, channels and resolution.  The receiver,
  having processed the datagram of packet \<open>l\<close>, gets some of the following datagrams in order, any
  two neighbours at most \<open>R\<close> numbers apart, the others being lost.  It hands every slot of
  the sender from \<open>l + 1\<close> to the last datagram's to \<open>writeAudioBuffer\<close>, once, in order and
  unchanged, with no gap, as long as the numbers stay below \<open>2 ^ 16\<close>.
\<close>

theorem redundant_transport:
  assumes "sender_ready N C S R 0 s" and "length buf0 = R * (16 + N * C * S)"
    and "\<And>i. i < length slots \<Longrightarrow> length (fst (slots ! i)) = N * C * S"
    and "receiving N C S R l (buf, q, s', r)" and "recoverable R l ks" and "last (l # ks) < 65536"
    and "\<And>k. k \<in> set ks \<Longrightarrow> k < length slots" and "R \<le> 1001" and "R * (16 + N * C * S) \<noteq> 63"
  shows "\<exists>ds buf1 s1 buf2 q2 s2 cs.
    sender_loop slots buf0 (int (R * (16 + N * C * S))) (int (16 + N * C * S)) s = Some (ds, buf1, s1) \<and>
    receiver_loop record_write (map (\<lambda>k. (x, Some (ds ! k))) ks)
      (int (R * (16 + N * C * S))) (int (16 + N * C * S)) (buf, q, s', r) = Some ((buf2, q2, s2, r @ cs), []) \<and>
    map (\<lambda>(bs, len, gap, seq). (bs, len, gap)) cs =
      map (\<lambda>n. (fst (slots ! n), int (N * C * S), 0)) [Suc l..<Suc (last (l # ks))]"
proof -
  let ?slot = "\<lambda>n. fst (slots ! n)"
  obtain ds buf1 s1 where ds:
      "sender_loop slots buf0 (int (R * (16 + N * C * S))) (int (16 + N * C * S)) s = Some (ds, buf1, s1)"
      "\<forall>i<length slots. datagram_for N C S R ?slot i (ds ! i)"
    using sender_run [OF assms(1,2), of ?slot slots] assms(3) by auto
  then have "\<And>k. k \<in> set ks \<Longrightarrow> datagram_for N C S R ?slot k (ds ! k)" using assms(7) by blast
  from receive_run [OF assms(4-6) this assms(8,9)] ds(1) show ?thesis by blast
qed

text \<open>A stereo client with redundancy 2, as a sender and as a receiver.\<close>

definition demo_udp :: UdpDataProtocol where
  "demo_udp = \<lparr>mStopped = False, mAudioPacketSize = 512, mAudioPacket = replicate 512 0,
     mFullPacket = replicate 528 0, mBuffer = replicate 512 0, mChans = 2, mSmplSize = 2,
     mLastOutOfOrderCount = 0, mInitialState = False, mUdpRedundancyFactor = 2,
     mTotCount = 0, mLostCount = 0, mOutOfOrderCount = 0, mRevivedCount = 0, mStatCount = 0,
     mControlPacketSize = 63, mStopSignalSent = False, mSimulatedLossRate = 0,
     mSimulatedJitterRate = 0, mSimulatedJitterMaxDelay = 0, mJackTrip = stereo_client\<rparr>"

definition demo_seq :: "u16 \<Rightarrow> seq_numbers" where
  "demo_seq l = \<lparr>current_seq_num = l, last_seq_num = l, newer_seq_num = l\<rparr>"

lemma demo_sender: "sender_ready 128 2 2 2 0 demo_udp"
  using stereo_client_sane stereo_client_rate stereo_client_header
  by (simp add: sender_ready_def demo_udp_def shape_def) (simp add: stereo_client_def)

lemma demo_receiver: "receiver_ready 128 2 2 2 demo_udp"
  by (simp add: receiver_ready_def demo_udp_def shape_def stereo_client_header)

lemma demo_receiving: "receiving 128 2 2 2 0 (replicate 1056 0, demo_seq 0, demo_udp, [])"
  using demo_receiver by (simp add: receiving_def demo_seq_def) (simp add: demo_udp_def)

theorem redundant_transport_witness:
  "\<exists>ds buf1 s1 buf2 q2 s2 cs.
    sender_loop [(replicate 512 7, 0), (replicate 512 8, 0), (replicate 512 9, 0)] (replicate 1056 0) 1056 528 demo_udp =
      Some (ds, buf1, s1) \<and>
    receiver_loop record_write [(0, Some (ds ! 2))] 1056 528 (replicate 1056 0, demo_seq 0, demo_udp, []) =
      Some ((buf2, q2, s2, cs), []) \<and>
    map (\<lambda>(bs, len, gap, seq). (bs, len, gap)) cs = [(replicate 512 8, 512, 0), (replicate 512 9, 512, 0)]"
proof -
  let ?slots = "[(replicate 512 7, 0), (replicate 512 8, 0), (replicate 512 9, 0)] :: (bytes \<times> u64) list"
  have len: "length (fst (?slots ! i)) = 128 * 2 * 2" if "i < length ?slots" for i
    using that by (auto simp: less_Suc_eq)
  have "[Suc 0..<Suc (last [0, 2 :: nat])] = [1, 2]" by (simp add: upt_rec)
  then show ?thesis
    using redundant_transport [where slots = ?slots and ks = "[2]" and x = 0, OF demo_sender _ len demo_receiving]
    by simp
qed

text \<open>
  When the sequence number wraps, the datagram that follows packet 65535 is taken for one with
  lost packets before it: the sum \<open>last_seq_num + 1\<close> is an \<open>int\<close> that no sequence number equals.  All
  \<open>R\<close> packets of the datagram are written again, \<open>R - 1\<close> of them a second time and with a negative gap, and
  counted as revived.
\<close>

lemma wrap_redelivers:
  assumes "receiver_ready N C S R s" and "\<not> mInitialState s" and "last_seq_num q = 65535"
    and "k = 65536 * m" and "0 < m"
    and "datagram_for N C S R slot k (take (R * (16 + N * C * S)) buf)" and "R * (16 + N * C * S) \<le> length buf"
  shows "\<exists>q' s' cs. receivePacketRedundancy record_write x buf (int (R * (16 + N * C * S))) (int (16 + N * C * S)) q s r =
      Some (q', s', r @ cs, []) \<and>
    map (\<lambda>(bs, len, gap, seq). bs) cs = map slot [k - (R - 1)..<Suc k] \<and>
    (\<lambda>(bs, len, gap, seq). gap) (hd cs) = - (int (R - 1) * int (N * C * S)) \<and>
    mRevivedCount s' = mRevivedCount s + of_nat (R - 1) \<and> mLostCount s' = mLostCount s"
proof -
  define F where "F = 16 + N * C * S"
  have R: "1 \<le> R" "R * F \<le> 65536" using assms(1) F_def by (simp_all add: receiver_ready_def)
  have "R \<le> R * F" by (simp add: F_def)
  then have "R \<le> 65536" using R(2) by linarith
  then have k: "R \<le> Suc k" "R - 1 \<le> k" using assms(4,5) by auto
  have z: "(65536 :: u16) = 0" by (rule word_unat_eq_iff [THEN iffD2]) simp
  have k0: "(of_nat k :: u16) = 0" by (simp only: assms(4) of_nat_mult of_nat_numeral z mult_zero_left)
  have "sint (of_int (int (unat (0 :: u16)) - int (unat (65535 :: u16)) - 1) :: u16) = 0" by simp
  from account_lost [OF assms(2) this]
  have acc: "account_packet (of_nat k) (last_seq_num q) s =
    Some (s\<lparr>mLostCount := mLostCount s + of_int 0, mTotCount := mTotCount s + of_int (1 + 0),
            mLastOutOfOrderCount := 0, mInitialState := False\<rparr>, Some 0)"
    by (simp add: assms(3) k0)
  have found: "find_redundant (DefaultHeader b h) buf (int F) (last_seq_num q) [1..<R] (of_nat k) 0 =
      Some (R - 1, of_nat (k - (R - 1)))" for b h
    using find_redundant_never [OF assms(6) [folded F_def] F_def assms(7) [folded F_def] R(2) k(1), of 1] R(1)
    by (simp add: assms(3))
  let ?cs = "calls slot k (int (N * C * S)) (int (unat (of_nat k :: u16))) (rev [0..<Suc (R - 1)])
      ((0 - int (R - 1)) * int (N * C * S))"
  have slots: "map (\<lambda>(bs, len, gap, seq). bs) (calls slot k len seq is gap) = map (\<lambda>i. slot (k - i)) is"
    for len seq "is" gap by (induction "is" arbitrary: gap) simp_all
  have "map (\<lambda>(bs, len, gap, seq). bs) ?cs = map slot (map (\<lambda>i. k - i) (rev [0..<Suc (R - 1)]))"
    unfolding slots by (simp only: map_map comp_def)
  then have "map (\<lambda>(bs, len, gap, seq). bs) ?cs = map slot [k - (R - 1)..<Suc k]"
    by (simp only: rev_upt_minus [OF k(2)])
  moreover have "(\<lambda>(bs, len, gap, seq). gap) (hd ?cs) = - (int (R - 1) * int (N * C * S))" by simp
  ultimately show ?thesis
    using receive_datagram [OF assms(1) F_def assms(6) [folded F_def] assms(7) [folded F_def] acc
        receiver_ready_update(3) [OF assms(1)] _ _ _ found _ k(2), of x r] R(1)
    unfolding F_def by fastforce
qed

text \<open>A datagram whose newest packet is number 65536.\<close>

definition demo_packet :: "u16 \<Rightarrow> bytes" where
  "demo_packet k = default_struct_bytes \<lparr>TimeStamp = 0, SeqNumber = k, BufferSize = 128, SamplingRate = 3,
     BitResolution = 16, NumIncomingChannelsFromNet = 2, NumOutgoingChannelsToNet = 0\<rparr> @ replicate 512 0"

lemma demo_packet_for: "packet_for 128 2 2 k (replicate 512 0) (demo_packet (of_nat k))"
proof -
  have "carries 128 2 2 (replicate 512 0) (replicate 512 0)"
    by (auto simp: carries_def planar_pos_def frame_pos_def min_def)
  then show ?thesis
    unfolding packet_for_def demo_packet_def
    by (intro exI [of _ "\<lparr>TimeStamp = 0, SeqNumber = of_nat k, BufferSize = 128, SamplingRate = 3,
      BitResolution = 16, NumIncomingChannelsFromNet = 2, NumOutgoingChannelsToNet = 0\<rparr>"] exI [of _ "replicate 512 0"])
      (simp add: outgoing_chans_def)
qed

lemma demo_datagram:
  assumes "1 \<le> k"
  shows "datagram_for 128 2 2 2 (\<lambda>_. replicate 512 0) k (demo_packet (of_nat k) @ demo_packet (of_nat (k - 1)))"
proof -
  have l: "length (demo_packet w) = 528" for w
    using hdr.bytes_size [of "DefaultHeader undefined \<lparr>TimeStamp = 0, SeqNumber = w, BufferSize = 128, SamplingRate = 3,
     BitResolution = 16, NumIncomingChannelsFromNet = 2, NumOutgoingChannelsToNet = 0\<rparr>"]
    by (simp add: demo_packet_def)
  have "packet_for 128 2 2 (k - i) (replicate 512 0)
      (take 528 (drop (i * 528) (demo_packet (of_nat k) @ demo_packet (of_nat (k - 1)))))" if "i < 2" for i
  proof -
    consider "i = 0" | "i = 1" using \<open>i < 2\<close> by linarith
    then show ?thesis using demo_packet_for [of k] demo_packet_for [of "k - 1"] l
      by cases (simp_all del: of_nat_diff)
  qed
  then show ?thesis using l by (simp add: datagram_for_def)
qed

lemma wrap_redelivers_witness:
  "\<exists>q' s' cs. receivePacketRedundancy record_write 0 (demo_packet (of_nat 65536) @ demo_packet (of_nat 65535)) 1056 528
      (demo_seq 65535) demo_udp [] = Some (q', s', cs, []) \<and> length cs = 2 \<and>
    mRevivedCount s' = mRevivedCount demo_udp + 1"
proof -
  let ?buf = "demo_packet (of_nat 65536) @ demo_packet (of_nat 65535)"
  have d: "datagram_for 128 2 2 2 (\<lambda>_. replicate 512 0) 65536 ?buf" using demo_datagram [of 65536] by simp
  then have l: "length ?buf = 1056" by (simp add: datagram_for_def)
  have "datagram_for 128 2 2 2 (\<lambda>_. replicate 512 0) 65536 (take (2 * (16 + 128 * 2 * 2)) ?buf)"
    using d l by simp
  from wrap_redelivers [OF demo_receiver _ _ _ _ this, of "demo_seq 65535" 1 0 "[]"] l
  obtain q' s' cs where r: "receivePacketRedundancy record_write 0 ?buf 1056 528 (demo_seq 65535) demo_udp [] = Some (q', s', cs, [])"
    "map (\<lambda>(bs, len, gap, seq). bs) cs = map (\<lambda>_. replicate 512 0) [65536 - (2 - 1)..<Suc 65536]"
    "mRevivedCount s' = mRevivedCount demo_udp + of_nat (2 - 1)"
    by (auto simp: demo_seq_def demo_udp_def simp del: upt_Suc)
  have "length cs = 2" using arg_cong [OF r(2), of length] by simp
  then show ?thesis using r by auto
qed

text \<open>
  A receiver with the JamLink or the empty header drops every datagram.  The peer's buffer size
  is 0 for these classes, so the guard on the stride takes each packet for a malformed one, and
  nothing reaches \<open>writeAudioBuffer\<close>.
\<close>

lemma headerless_packets_dropped:
  assumes "mPacketHeader (mJackTrip s) = JamLinkHeader b h \<or> mPacketHeader (mJackTrip s) = EmptyHeader b"
    and "receivePacketRedundancy write x buf frps fps q s r = Some (q', s', r', events)"
  shows "r' = r \<and> events = []"
proof -
  have z: "getPeerBufferSize (mPacketHeader (mJackTrip s)) buf 0 = Some 0"
    using assms(1) by (auto simp: getPeerBufferSize_def peer_field_def)
  show ?thesis
    using assms(2) z unfolding receivePacketRedundancy_def Let_def
    by (auto simp: checked_int_eq_Some split: if_splits option.splits Option.bind_splits)
qed

lemma headerless_packets_dropped_witness:
  "\<exists>q' s'. receivePacketRedundancy record_write 0 (replicate 64 7) 64 64 (demo_seq 0)
     (demo_udp\<lparr>mInitialState := True, mJackTrip := stereo_client\<lparr>mPacketHeader := EmptyHeader_new\<rparr>\<rparr>) [] =
       Some (q', s', [], [])"
proof -
  let ?s = "demo_udp\<lparr>mInitialState := True, mJackTrip := stereo_client\<lparr>mPacketHeader := EmptyHeader_new\<rparr>\<rparr>"
  have h: "mPacketHeader (mJackTrip ?s) = JamLinkHeader PacketHeader_new h \<or>
      mPacketHeader (mJackTrip ?s) = EmptyHeader PacketHeader_new" for h
    by (simp add: EmptyHeader_new_def)
  have "receivePacketRedundancy record_write 0 (replicate 64 7) 64 64 (demo_seq 0) ?s [] \<noteq> None"
    by (simp add: receivePacketRedundancy_def simulated_drop_def account_packet_def getPeerSequenceNumber_def
      peer_field_def EmptyHeader_new_def demo_udp_def demo_seq_def getPeerNumOutgoingChannels_def
      header_NumOutgoingChannels_def getPeerNumIncomingChannels_def getPeerBufferSize_def upt_rec int32_range_def)
  then obtain q' s' r' events where r: "receivePacketRedundancy record_write 0 (replicate 64 7) 64 64 (demo_seq 0) ?s [] =
      Some (q', s', r', events)" by fastforce
  then show ?thesis using headerless_packets_dropped [OF h r] by blast
qed

text \<open>
  C40: while no packet arrives, the receiver's event loop signals every 10 ms; \<open>printUdpWaitedTooLong\<close>
  passes on every 256th of these signals, one per 2.56 s and not per 512 ms, and its log line is never
  printed.
\<close>

theorem silence_reports:
  assumes "10 * n < 2147483648"
  shows "\<exists>es. poll_timers (replicate n False) 0 = Some es \<and>
    wait_events es = replicate (n div 256) signalUdpWaitingTooLong"
  using poll_timers_silent [of 0 n] wait_events_silent [of 1 n] assms by (simp del: upt_Suc)

theorem silence_reports_witness:
  "\<exists>es. poll_timers (replicate 300 False) 0 = Some es \<and> wait_events es = [signalUdpWaitingTooLong]"
  using silence_reports [of 300] by simp

end
