(* ===== verification/JitterBuffer.thy ===== *)
theory JitterBuffer
  imports RingBuffer
begin

text \<open>
  \<open>JitterBuffer\<close> (\<open>src/JitterBuffer.cpp\<close>, \<open>src/JitterBuffer.h\<close>), the receive buffer of the default
  strategy.  It extends \<open>RingBuffer\<close>: positions are running 32-bit byte counts, reduced modulo the
  size of the memory only when the memory is accessed, and insertions may move the read position
  to steer the latency.  Every operation runs under the mutex.  A \<open>double\<close> assigned to an \<open>int\<close> is
  truncated; one out of range is \<^const>\<open>None\<close>.
\<close>

section \<open>State\<close>

text \<open>The pointer to the owner: the constructor leaves it as it is.\<close>

datatype owner = Indeterminate | Nullptr | Owner

record JitterBuffer = RingBuffer +
  mMaxLatency :: int
  mNumChannels :: int
  mAudioBitRes :: int
  mMinStepSize :: int
  mFPP :: int
  mSampleRate :: int
  mInSlotSize :: int
  mActive :: bool
  mBroadcastLatency :: u32
  mBroadcastPosition :: u32
  mBroadcastPositionCorr :: dbl
  mUnderrunIncTolerance :: dbl
  mCorrIncTolerance :: dbl
  mOverflowDecTolerance :: dbl
  mOverflowDropStep :: int
  mLastCorrCounter :: u32
  mLastCorrDirection :: int
  mMinLevelThreshold :: dbl
  mAutoQueue :: int
  mAutoQueueCorr :: dbl
  mAutoQFactor :: dbl
  mAutoQRate :: dbl
  mAutoQRateMin :: dbl
  mAutoQRateDecay :: dbl
  mJackTrip :: owner

section \<open>Construction\<close>

text \<open>\<open>mUnderrunIncTolerance\<close>, \<open>mCorrIncTolerance\<close>, \<open>mOverflowDecTolerance\<close> and \<open>mOverflowDropStep\<close>.\<close>

definition strategy_tolerances :: "int \<Rightarrow> int \<Rightarrow> int \<Rightarrow> (dbl \<times> dbl \<times> dbl \<times> int) option" where
  "strategy_tolerances strategy slot maxLatency = do {
     u \<leftarrow> checked_int (-10 * slot);
     c \<leftarrow> checked_int (100 * maxLatency);
     half \<leftarrow> cxx_div maxLatency 2;
     Some (if strategy = 1 then (of_int u, of_int c, of_int c, slot)
       else if strategy = 2
       then (dbl_mul (dbl_round (11/10)) (of_int slot), dbl_mul (dbl_round (19/10)) (of_int slot),
             dbl_mul (dbl_round (1/10)) (of_int slot), slot)
       else (of_int u, of_int c, of_int c, half))
   }"

text \<open>\<open>mMaxLatency\<close> and \<open>mAutoQueue\<close>.\<close>

definition initial_latency :: "int \<Rightarrow> int \<Rightarrow> (int \<times> int) option" where
  "initial_latency qlen slot =
     (if 0 < qlen then do { l \<leftarrow> checked_int (qlen * slot); Some (l, 0) }
      else do { l \<leftarrow> checked_int (3 * slot); Some (l, 1) })"

definition JitterBuffer_new :: "int \<Rightarrow> int \<Rightarrow> int \<Rightarrow> int \<Rightarrow> int \<Rightarrow> int \<Rightarrow> int \<Rightarrow> u32 \<Rightarrow> u32 \<Rightarrow> owner \<Rightarrow>
    JitterBuffer option" where
  "JitterBuffer_new buf_samples qlen sample_rate strategy bcast_qlen channels bit_res
      readsNew underrunsNew jackTrip = do {
     base \<leftarrow> RingBuffer_new 0 0 readsNew underrunsNew;
     t1 \<leftarrow> checked_int (sample_rate * channels);
     t2 \<leftarrow> checked_int (t1 * bit_res);
     total_size \<leftarrow> checked_int (t2 * 2);
     s1 \<leftarrow> checked_int (buf_samples * channels);
     slot \<leftarrow> checked_int (s1 * bit_res);
     (maxLatency, autoQueue) \<leftarrow> initial_latency qlen slot;
     bl \<leftarrow> checked_int (bcast_qlen * slot);
     step \<leftarrow> checked_int (channels * bit_res);
     (uTol, cTol, oTol, drop_step) \<leftarrow> strategy_tolerances strategy slot maxLatency;
     rate \<leftarrow> dbl_div (of_int (min 256 buf_samples)) (dbl_mul 5 (of_int sample_rate));
     n \<leftarrow> byte_count total_size;
     corr \<leftarrow> checked_int (2 * slot);
     factor \<leftarrow> (if 0 > qlen then do { q \<leftarrow> checked_int (- qlen); dbl_div 1 (of_int q) }
       else dbl_div 1 500);
     Some (RingBuffer.RingBuffer.extend
       (base\<lparr>mSlotSize := slot, mTotalSize := total_size, mWritePosition := of_int maxLatency,
          mStatUnit := slot, mLevelDownRate := dbl_mul rate (of_int slot),
          mLevelCur := of_int maxLatency, mLevel := maxLatency, mRingBuffer := replicate n 0\<rparr>)
       (JitterBuffer.JitterBuffer.fields maxLatency channels bit_res step buf_samples sample_rate slot False
          (of_int bl) 0 0 uTol cTol oTol drop_step 0 0 (dbl_mul (dbl_round (19/10)) (of_int slot))
          autoQueue (of_int corr) factor
          (dbl_mul (of_int slot) (1/2)) (dbl_mul (of_int slot) (dbl_round (5/10000)))
          (dbl_sub 1 (min (dbl_mul (of_int buf_samples) (dbl_round (12/10000000))) (dbl_round (5/10000))))
          jackTrip))
   }"

definition setJackTrip :: "bool \<Rightarrow> JitterBuffer \<Rightarrow> JitterBuffer" where
  "setJackTrip jackTrip b = b\<lparr>mJackTrip := (if jackTrip then Owner else Nullptr)\<rparr>"

definition getLatency :: "JitterBuffer \<Rightarrow> dbl" where
  "getLatency b = of_int (mMaxLatency b)"

section \<open>Access to the memory\<close>

text \<open>\<open>mWritePosition - mReadPosition\<close> as \<open>int32_t\<close>.\<close>

definition available :: "JitterBuffer \<Rightarrow> int" where
  "available b = sint (mWritePosition b - mReadPosition b)"

text \<open>A position as an index of the memory, and the length \<open>n\<close> of the part before its end.\<close>

definition wrap_index :: "u32 \<Rightarrow> int \<Rightarrow> JitterBuffer \<Rightarrow> (int \<times> int) option" where
  "wrap_index position len b = do {
     p \<leftarrow> u32_mod position (of_int (mTotalSize b));
     let pos = sint p;
     room \<leftarrow> checked_int (mTotalSize b - pos);
     Some (pos, min room len)
   }"

text \<open>Copying \<open>len\<close> bytes to a position and from one, in two parts at the end of the memory.\<close>

definition wrap_write :: "bytes \<Rightarrow> int \<Rightarrow> JitterBuffer \<Rightarrow> JitterBuffer option" where
  "wrap_write src len b = do {
     (wpos, n) \<leftarrow> wrap_index (mWritePosition b) len b;
     pos \<leftarrow> byte_count wpos;
     k \<leftarrow> byte_count n;
     part \<leftarrow> mem_read src 0 k;
     mem \<leftarrow> mem_write (mRingBuffer b) pos part;
     mem \<leftarrow> (if n < len then do { rest \<leftarrow> mem_read src k (nat (len - n)); mem_write mem 0 rest }
       else Some mem);
     Some (b\<lparr>mRingBuffer := mem\<rparr>)
   }"

definition wrap_read :: "u32 \<Rightarrow> int \<Rightarrow> JitterBuffer \<Rightarrow> bytes option" where
  "wrap_read position read_len b = do {
     (rpos, n) \<leftarrow> wrap_index position read_len b;
     pos \<leftarrow> byte_count rpos;
     k \<leftarrow> byte_count n;
     part \<leftarrow> mem_read (mRingBuffer b) pos k;
     rest \<leftarrow> (if n < read_len then mem_read (mRingBuffer b) 0 (nat (read_len - n)) else Some []);
     Some (part @ rest)
   }"

text \<open>The same writing of zeros.\<close>

definition wrap_clear :: "int \<Rightarrow> JitterBuffer \<Rightarrow> JitterBuffer option" where
  "wrap_clear len b = do {
     (wpos, n) \<leftarrow> wrap_index (mWritePosition b) len b;
     pos \<leftarrow> byte_count wpos;
     k \<leftarrow> byte_count n;
     mem \<leftarrow> mem_set (mRingBuffer b) pos k 0;
     mem \<leftarrow> (if n < len then mem_set mem 0 (nat (len - n)) 0 else Some mem);
     Some (b\<lparr>mRingBuffer := mem\<rparr>)
   }"

section \<open>Insertion\<close>

definition lastCorrFactor :: "JitterBuffer \<Rightarrow> dbl" where
  "lastCorrFactor b = dbl_round (500 / of_nat (unat (max 500 (mLastCorrCounter b))))"

text \<open>How much of a loss is dropped instead of being filled with zeros.\<close>

definition loss_drop :: "int \<Rightarrow> JitterBuffer \<Rightarrow> (int \<times> JitterBuffer) option" where
  "loss_drop lostLen b = do {
     a1 \<leftarrow> checked_int (available b + mInSlotSize b);
     a2 \<leftarrow> checked_int (a1 + lostLen);
     a3 \<leftarrow> checked_int (a2 - mMaxLatency b);
     let delta = min a3 lostLen;
     if 0 < delta then
       Some (lostLen - delta, b\<lparr>mBufDecPktLoss := mBufDecPktLoss b + of_int delta,
         mLevelCur := of_int (mMaxLatency b), mLastCorrCounter := 0, mLastCorrDirection := 1\<rparr>)
     else do {
       al \<leftarrow> checked_int (available b + lostLen);
       if mSlotSize b < al \<and>
          (mOverflowDecTolerance b > of_int (mMaxLatency b) \<or>
           0 < mLastCorrDirection b \<and>
           mLevelCur b > dbl_sub (of_int (mMaxLatency b))
             (dbl_mul (mOverflowDecTolerance b) (dbl_sub (dbl_round (11/10)) (lastCorrFactor b))))
       then do {
         let delta = min lostLen (mSlotSize b);
         rest \<leftarrow> checked_int (lostLen - delta);
         Some (rest, b\<lparr>mBufDecPktLoss := mBufDecPktLoss b + of_int delta,
           mLevelCur := dbl_sub (mLevelCur b) (of_int delta), mLastCorrCounter := 0,
           mLastCorrDirection := 1\<rparr>)
       }
       else Some (lostLen, b)
     }
   }"

text \<open>The rest of the loss is filled with zeros; what is lost below the read position is no underrun.\<close>

definition loss_fill :: "int \<Rightarrow> JitterBuffer \<Rightarrow> JitterBuffer option" where
  "loss_fill lostLen b = do {
     b' \<leftarrow> (if lostLen \<ge> mTotalSize b then do {
           n \<leftarrow> byte_count (mTotalSize b);
           mem \<leftarrow> mem_set (mRingBuffer b) 0 n 0;
           Some (b\<lparr>mRingBuffer := mem\<rparr>)
         }
         else if 0 < lostLen then wrap_clear lostLen b
         else Some b);
     under \<leftarrow> (if lostLen \<ge> mTotalSize b \<or> 0 < lostLen then do {
           m \<leftarrow> checked_int (- available b);
           d \<leftarrow> checked_int (lostLen - max 0 m);
           Some (max 0 d)
         } else Some 0);
     Some (b'\<lparr>mUnderruns := mUnderruns b' + of_int under,
       mWritePosition := mWritePosition b' + of_int lostLen\<rparr>)
   }"

definition processPacketLoss :: "int \<Rightarrow> JitterBuffer \<Rightarrow> JitterBuffer option" where
  "processPacketLoss lostLen b = do {
     sk \<leftarrow> checked_int (mSkewRaw b - lostLen);
     (lostLen, b) \<leftarrow> loss_drop lostLen (b\<lparr>mSkewRaw := sk\<rparr>);
     loss_fill lostLen b
   }"

text \<open>The beginning of an insertion, and the statistics before the positions are corrected.\<close>

definition insert_setup :: "int \<Rightarrow> JitterBuffer \<Rightarrow> JitterBuffer option" where
  "insert_setup len b = do {
     l \<leftarrow> checked_int (len + mSlotSize b);
     Some (b\<lparr>mInSlotSize := len, mActive := True,
       mMaxLatency := (if mMaxLatency b < l then l else mMaxLatency b)\<rparr>)
   }"

definition book_insert :: "int \<Rightarrow> JitterBuffer \<Rightarrow> JitterBuffer option" where
  "book_insert len b = do {
     q \<leftarrow> dbl_div (mLevelCur b) (of_int (mSlotSize b));
     lv \<leftarrow> dbl_to_int (dbl_mul (of_int (mSlotSize b)) (of_int \<lceil>q\<rceil>));
     Some (b\<lparr>mSkewRaw := sint (of_int (mSkewRaw b) + (mReadsNew b - of_int len)), mReadsNew := 0,
       mUnderruns := mUnderruns b + mUnderrunsNew b, mUnderrunsNew := 0, mLevel := lv\<rparr>)
   }"

text \<open>The thresholds of the level below which the read position is moved back.\<close>

definition underrun_threshold :: "JitterBuffer \<Rightarrow> dbl option" where
  "underrun_threshold b = do {
     s \<leftarrow> checked_int (2 * mSlotSize b);
     Some (max (dbl_add (of_int (mInSlotSize b)) (mMinLevelThreshold b))
       (dbl_sub (dbl_sub (of_int (mMaxLatency b)) (mUnderrunIncTolerance b))
          (dbl_mul (of_int s) (lastCorrFactor b))))
   }"

definition corr_threshold :: "JitterBuffer \<Rightarrow> dbl option" where
  "corr_threshold b = do {
     s \<leftarrow> checked_int (6 * mSlotSize b);
     Some (dbl_sub (dbl_sub (of_int (mMaxLatency b)) (mCorrIncTolerance b))
       (dbl_mul (of_int s) (lastCorrFactor b)))
   }"

text \<open>
  The branch of the correction of the read position, and \<open>delta\<close>, the correction, with the
  statistics it is booked in.
\<close>

datatype correction = Reset | Overflow | Underrun | Compensate | Keep

definition correction_due :: "int \<Rightarrow> JitterBuffer \<Rightarrow> correction option" where
  "correction_due len b = do {
     low \<leftarrow> checked_int (-10 * mMaxLatency b);
     if available b < low then Some Reset
     else do {
       al \<leftarrow> checked_int (available b + len);
       if al > mMaxLatency b then Some Overflow
       else do {
         below \<leftarrow> (if 0 > available b
           then do { t \<leftarrow> underrun_threshold b; Some (mLevelCur b < t) } else Some False);
         if below then Some Underrun
         else do {
           t \<leftarrow> corr_threshold b;
           Some (if mLevelCur b < t then Compensate else Keep)
         }
       }
     }
   }"

fun correction_delta :: "correction \<Rightarrow> int \<Rightarrow> JitterBuffer \<Rightarrow> (int \<times> JitterBuffer) option" where
  "correction_delta Reset len b = do {
     k \<leftarrow> checked_int (- available b);
     Some (available b, b\<lparr>mBufIncUnderrun := mBufIncUnderrun b + of_int k, mLevelCur := of_int len\<rparr>)
   }"
| "correction_delta Overflow len b =
     Some (mOverflowDropStep b, b\<lparr>mOverflows := mOverflows b + of_int (mOverflowDropStep b),
       mBufDecOverflow := mBufDecOverflow b + of_int (mOverflowDropStep b),
       mLevelCur := of_int (mMaxLatency b)\<rparr>)"
| "correction_delta Underrun len b = do {
     a \<leftarrow> checked_int (- available b);
     let k = min a (mSlotSize b);
     d \<leftarrow> checked_int (- k);
     Some (d, b\<lparr>mBufIncUnderrun := mBufIncUnderrun b + of_int k\<rparr>)
   }"
| "correction_delta Compensate len b = do {
     d \<leftarrow> checked_int (- mSlotSize b);
     Some (d, b\<lparr>mUnderruns := mUnderruns b + of_int (mSlotSize b),
       mBufIncCompensate := mBufIncCompensate b + of_int (mSlotSize b)\<rparr>)
   }"
| "correction_delta Keep len b = Some (0, b)"

definition apply_delta :: "int \<Rightarrow> JitterBuffer \<Rightarrow> JitterBuffer" where
  "apply_delta delta b =
     (if delta \<noteq> 0
      then b\<lparr>mReadPosition := mReadPosition b + of_int delta, mLastCorrCounter := 0,
        mLastCorrDirection := (if 0 < delta then 1 else -1)\<rparr>
      else b\<lparr>mLastCorrCounter := mLastCorrCounter b + 1\<rparr>)"

definition insertSlotNonBlocking :: "bytes \<Rightarrow> int \<Rightarrow> int \<Rightarrow> int \<Rightarrow> JitterBuffer \<Rightarrow>
    (bool \<times> JitterBuffer) option" where
  "insertSlotNonBlocking ptrToSlot len lostLen seq_num b =
     (let len = (if 0 = len then mSlotSize b else len) in
      if len > mTotalSize b then Some (False, b)
      else do {
        b \<leftarrow> insert_setup len b;
        b \<leftarrow> (if 0 < lostLen then processPacketLoss lostLen b else Some b);
        b \<leftarrow> book_insert len b;
        correction \<leftarrow> correction_due len b;
        (delta, b) \<leftarrow> correction_delta correction len b;
        b \<leftarrow> wrap_write ptrToSlot len (apply_delta delta b);
        Some (True, b\<lparr>mWritePosition := mWritePosition b + of_int len\<rparr>)
      })"

section \<open>Reading\<close>

text \<open>The level follows the fill of the buffer: up at once, down at a rate.\<close>

definition track_level :: "JitterBuffer \<Rightarrow> JitterBuffer" where
  "track_level b = b\<lparr>mReadsNew := mReadsNew b + of_int (mSlotSize b),
     mLevelCur := (if of_int (available b) < mLevelCur b
       then max (of_int (available b)) (dbl_sub (mLevelCur b) (mLevelDownRate b))
       else of_int (available b))\<rparr>"

definition adapt_queue_corr :: "JitterBuffer \<Rightarrow> JitterBuffer option" where
  "adapt_queue_corr b = do {
     corr \<leftarrow> (if 0 > dbl_sub (dbl_add (of_int (available b)) (mAutoQueueCorr b)) (mLevelCur b)
       then Some (dbl_add (mAutoQueueCorr b) (mAutoQRate b))
       else do {
         s \<leftarrow> checked_int (mInSlotSize b + mSlotSize b);
         Some (if of_int s < mAutoQueueCorr b
           then dbl_sub (mAutoQueueCorr b) (dbl_mul (mAutoQRate b) (mAutoQFactor b))
           else mAutoQueueCorr b)
       });
     Some (b\<lparr>mAutoQueueCorr := corr,
       mAutoQRate := (if mAutoQRate b > mAutoQRateMin b
         then dbl_mul (mAutoQRate b) (mAutoQRateDecay b) else mAutoQRate b)\<rparr>)
   }"

text \<open>The automatic queue length; the result carries the argument of \<open>queueLengthChanged\<close>, if called.\<close>

definition queue_length_due :: "dbl \<Rightarrow> int \<Rightarrow> JitterBuffer \<Rightarrow> bool option" where
  "queue_length_due k PPS b = do {
     p12 \<leftarrow> checked_int (12 * PPS);
     if p12 > mAutoQueue b then Some True
     else do {
       half \<leftarrow> cxx_div (mSlotSize b) 2;
       Some (\<bar>dbl_add (dbl_sub (dbl_mul (mAutoQueueCorr b) k) (of_int (mMaxLatency b))) (of_int half)\<bar>
         > dbl_mul (dbl_round (6/10)) (of_int (mSlotSize b)))
     }
   }"

definition adapt_queue_length :: "JitterBuffer \<Rightarrow> (int option \<times> JitterBuffer) option" where
  "adapt_queue_length b =
     (if mAutoQueue b = 0 then Some (None, b)
      else do {
        PPS \<leftarrow> int_div (mSampleRate b) (mFPP b);
        p2 \<leftarrow> checked_int (2 * PPS);
        p4 \<leftarrow> checked_int (4 * PPS);
        m \<leftarrow> cxx_mod (mAutoQueue b) p4;
        q \<leftarrow> checked_int (mAutoQueue b + 1);
        let b = b\<lparr>mAutoQueue := q\<rparr>;
        if p2 \<noteq> m then Some (None, b)
        else do {
          e \<leftarrow> dbl_div (dbl_round (1/100000)) (mAutoQFactor b);
          let k = dbl_add 1 e;
          due \<leftarrow> queue_length_due k PPS b;
          if \<not> due then Some (None, b)
          else do {
            x \<leftarrow> dbl_div (dbl_mul (mAutoQueueCorr b) k) (of_int (mSlotSize b));
            l \<leftarrow> dbl_to_int (dbl_mul (of_int (mSlotSize b)) (of_int \<lceil>x\<rceil>));
            n \<leftarrow> int_div l (mSlotSize b);
            let b = b\<lparr>mMaxLatency := l\<rparr>;
            case mJackTrip b of
              Indeterminate \<Rightarrow> None
            | Nullptr \<Rightarrow> Some (None, b)
            | Owner \<Rightarrow> Some (Some n, b)
          }
        }
      })"

text \<open>\<open>qBound\<close> of the bytes available, the bytes at the position, and zeros for the rest.\<close>

definition read_padded :: "u32 \<Rightarrow> int \<Rightarrow> int \<Rightarrow> JitterBuffer \<Rightarrow> (bytes \<times> int) option" where
  "read_padded position avail len b = do {
     let read_len = max 0 (min len avail);
     got \<leftarrow> wrap_read position read_len b;
     rest \<leftarrow> (if read_len < len then checked_int (len - read_len) else Some 0);
     Some (got @ replicate (nat rest) 0, rest)
   }"

definition readSlotNonBlocking :: "JitterBuffer \<Rightarrow> (bytes \<times> int option \<times> JitterBuffer) option" where
  "readSlotNonBlocking b =
     (if \<not> mActive b then do { n \<leftarrow> byte_count (mSlotSize b); Some (replicate n 0, None, b) }
      else do {
        let avail = available b;
        b \<leftarrow> adapt_queue_corr (track_level b);
        (queueLength, b) \<leftarrow> adapt_queue_length b;
        (slot, missing) \<leftarrow> read_padded (mReadPosition b) avail (mSlotSize b) b;
        Some (slot, queueLength, b\<lparr>mUnderrunsNew := mUnderrunsNew b + of_int missing,
          mReadPosition := mReadPosition b + of_int (mSlotSize b)\<rparr>)
      })"

section \<open>Reading for broadcast\<close>

text \<open>
  The correction of the broadcast position; the result is the number of bytes to consume, which
  differs from the slot size when the slot is interpolated.
\<close>

definition broadcast_correct :: "int \<Rightarrow> JitterBuffer \<Rightarrow> (int \<times> JitterBuffer) option" where
  "broadcast_correct d b = do {
     let len = mSlotSize b;
     m \<leftarrow> checked_int \<bar>d\<bar>;
     if of_int m > mBroadcastLatency b div 2 then do {
       s \<leftarrow> int_div d (mMinStepSize b);
       sk \<leftarrow> checked_int (mBroadcastSkew b + s);
       Some (len, b\<lparr>mBroadcastPosition := mReadPosition b - mBroadcastLatency b - of_int len,
         mBroadcastPositionCorr := 0, mBroadcastSkew := sk\<rparr>)
     }
     else do {
       let corr = dbl_add (mBroadcastPositionCorr b) (dbl_mul (dbl_round (3/10000)) (of_int d));
       q \<leftarrow> dbl_div corr (of_int (mMinStepSize b));
       delta \<leftarrow> dbl_to_int q;
       if delta = 0 then Some (len, b\<lparr>mBroadcastPositionCorr := corr\<rparr>)
       else do {
         step \<leftarrow> checked_int (delta * mMinStepSize b);
         sk \<leftarrow> checked_int (mBroadcastSkew b + delta);
         let b = b\<lparr>mBroadcastPositionCorr := dbl_sub corr (of_int step), mBroadcastSkew := sk\<rparr>;
         if mAudioBitRes b = 2 \<and> sint (mWritePosition b - mBroadcastPosition b) > len
         then do { l \<leftarrow> checked_int (len + step); Some (l, b) }
         else Some (len, b\<lparr>mBroadcastPosition := mBroadcastPosition b + of_int step\<rparr>)
       }
     }
   }"

text \<open>A 16-bit sample in the memory (the host is little-endian), and \<open>std::round\<close>.\<close>

definition sample_at :: "int \<Rightarrow> JitterBuffer \<Rightarrow> int option" where
  "sample_at rpos b = do {
     p \<leftarrow> byte_count rpos;
     bs \<leftarrow> mem_read (mRingBuffer b) p 2;
     Some (sint (of_nat (of_le_bytes bs) :: u16))
   }"

definition round_away :: "dbl \<Rightarrow> int" where
  "round_away x = (if 0 \<le> x then \<lfloor>x + 1/2\<rfloor> else - \<lfloor>1/2 - x\<rfloor>)"

definition int16_bytes :: "int \<Rightarrow> bytes option" where
  "int16_bytes v = (if -32768 \<le> v \<and> v < 32768 then Some (le_bytes 2 (unat (of_int v :: u16))) else None)"

text \<open>Sample \<open>j\<close> of the channel at byte \<open>c\<close> of a step.\<close>

definition interpolate_sample :: "dbl \<Rightarrow> nat \<Rightarrow> nat \<Rightarrow> JitterBuffer \<Rightarrow> bytes \<Rightarrow> bytes option" where
  "interpolate_sample K c j b out = do {
     j1 \<leftarrow> dbl_to_int (of_int \<lfloor>dbl_mul (of_nat j) K\<rfloor>);
     let a = dbl_sub (dbl_mul (of_nat j) K) (of_int j1);
     o1 \<leftarrow> checked_int (j1 * mMinStepSize b);
     p \<leftarrow> u32_mod (mBroadcastPosition b + of_int o1 + of_nat c) (of_int (mTotalSize b));
     v1 \<leftarrow> sample_at (sint p) b;
     following \<leftarrow> checked_int (sint p + mMinStepSize b);
     rpos \<leftarrow> cxx_mod following (mTotalSize b);
     v2 \<leftarrow> sample_at rpos b;
     bs \<leftarrow> int16_bytes (round_away (dbl_add (dbl_mul (dbl_sub 1 a) (of_int v1)) (dbl_mul a (of_int v2))));
     o2 \<leftarrow> checked_int (int j * mMinStepSize b + int c);
     pos \<leftarrow> byte_count o2;
     mem_write out pos bs
   }"

definition interpolate_slot :: "int \<Rightarrow> JitterBuffer \<Rightarrow> bytes \<Rightarrow> bytes option" where
  "interpolate_slot len b out = do {
     K \<leftarrow> dbl_div (dbl_mul 1 (of_int len)) (of_int (mSlotSize b));
     iter_opt (\<lambda>k out. do {
         frames \<leftarrow> int_div (mSlotSize b) (mMinStepSize b);
         iter_opt (\<lambda>j. interpolate_sample K (2 * k) j b) [0..<nat frames] out
       }) [0..<nat ((mMinStepSize b + 1) div 2)] out
   }"

text \<open>The slot passed out is written into \<open>out\<close>, the memory behind \<open>ptrToReadSlot\<close>.\<close>

definition readBroadcastSlot :: "bytes \<Rightarrow> JitterBuffer \<Rightarrow> (bytes \<times> JitterBuffer) option" where
  "readBroadcastSlot out b = do {
     let len = mSlotSize b;
     if mBroadcastLatency b + of_int len > mReadPosition b then do {
       n \<leftarrow> byte_count len;
       out \<leftarrow> mem_set out 0 n 0;
       Some (out, b)
     }
     else do {
       let d = sint (mReadPosition b - mBroadcastLatency b - mBroadcastPosition b - of_int len);
       (len, b) \<leftarrow> broadcast_correct d b;
       delta \<leftarrow> int_div d (mMinStepSize b);
       let b = b\<lparr>mBroadcastDelta := delta\<rparr>;
       out \<leftarrow> (if len = mSlotSize b then do {
           (slot, missing) \<leftarrow> read_padded (mBroadcastPosition b)
             (sint (mWritePosition b - mBroadcastPosition b)) len b;
           mem_write out 0 slot
         }
         else interpolate_slot len b out);
       Some (out, b\<lparr>mBroadcastPosition := mBroadcastPosition b + of_int len\<rparr>)
     }
   }"

section \<open>Statistics\<close>

definition stats_reset :: "bool \<Rightarrow> JitterBuffer \<Rightarrow> JitterBuffer" where
  "stats_reset reset b =
     (if reset then
        b\<lparr>mUnderruns := 0, mOverflows := 0, mSkew0 := mLevel b, mSkewRaw := 0, mBufDecOverflow := 0,
          mBufDecPktLoss := 0, mBufIncUnderrun := 0, mBufIncCompensate := 0, mBroadcastSkew := 0\<rparr>
      else b)"

definition getStats :: "bool \<Rightarrow> JitterBuffer \<Rightarrow> (IOStat \<times> JitterBuffer) option" where
  "getStats reset b0 = do {
     let b = stats_reset reset b0;
     let unit = of_int (mStatUnit b);
     un \<leftarrow> u32_div (mUnderruns b) unit;
     ov \<leftarrow> u32_div (mOverflows b) unit;
     dl \<leftarrow> checked_int (mSkew0 b - mLevel b);
     sk \<leftarrow> int_div (sint (of_int dl + mBufIncUnderrun b + mBufIncCompensate b
             - mBufDecOverflow b - mBufDecPktLoss b)) (mStatUnit b);
     sr \<leftarrow> int_div (mSkewRaw b) (mStatUnit b);
     lv \<leftarrow> int_div (mLevel b) (mStatUnit b);
     dov \<leftarrow> u32_div (mBufDecOverflow b) unit;
     dpl \<leftarrow> u32_div (mBufDecPktLoss b) unit;
     iu \<leftarrow> u32_div (mBufIncUnderrun b) unit;
     ic \<leftarrow> u32_div (mBufIncCompensate b) unit;
     qc \<leftarrow> dbl_div (mAutoQueueCorr b) (of_int (mStatUnit b));
     corr \<leftarrow> dbl_to_int (dbl_mul qc 10);
     qr \<leftarrow> dbl_div (mAutoQRate b) (of_int (mStatUnit b));
     rate \<leftarrow> dbl_to_int (dbl_mul qr 1000);
     Some (\<lparr>underruns = un, overflows = ov, skew = sk, skew_raw = sr, level = lv,
       buf_dec_overflows = dov, buf_dec_pktloss = dpl, buf_inc_underrun = iu,
       buf_inc_compensate = ic, broadcast_skew = mBroadcastSkew b,
       broadcast_delta = mBroadcastDelta b, autoq_corr = corr, autoq_rate = rate\<rparr>, b)
   }"

end
