(* ===== verification/JitterSpec.thy ===== *)
theory JitterSpec
  imports JitterBuffer RingBufferSpec
begin

text \<open>
  What \<open>JitterBuffer\<close> promises.  The abstract state is the stream of all bytes written so far,
  starting with the silence of the initial latency: the memory holds its last \<open>T\<close> bytes, a read
  returns the window of the stream at the read position, and an insertion extends the stream by
  the zeros that stand for a loss and by the slot.  The buffer of the default strategy is also a
  bounded FIFO of slots, for as long as its positions do not wrap.
\<close>

section \<open>Accesses around the end of the memory\<close>

lemma unat_mod_total:
  assumes "0 < T" and "T < 2147483648"
  shows "\<exists>p. u32_mod position (of_int (int T)) = Some p \<and> unat p = unat position mod T \<and> sint p = int (unat position mod T)"
proof -
  obtain p where p: "u32_mod (position + of_int 0) (of_int (int T)) = Some p" "unat p = (unat position + nat 0) mod nat (int T)"
    using u32_advance [of 0 position "int T"] assms unsigned_less [of position] by auto
  have "unat p < T" using p(2) assms(1) by simp
  then have "int32_range (int (unat p))" using assms(2) by (intro int32_range_of_nat) linarith
  then have "sint p = int (unat p)" using sint_of_int_u32 [of "int (unat p)"] by simp
  then show ?thesis using p by auto
qed

lemma wrap_index_ok:
  assumes "0 < T" and "T < 2147483648" and "mTotalSize b = int T"
  shows "wrap_index position (int n) b =
    Some (int (unat position mod T), int (min (T - unat position mod T) n))"
proof -
  obtain p where p: "u32_mod position (of_int (int T)) = Some p" "sint p = int (unat position mod T)"
    using unat_mod_total [OF assms(1,2), of position] by blast
  have lt: "unat position mod T < T" using assms(1) by simp
  then have e: "int T - int (unat position mod T) = int (T - unat position mod T)" by simp
  have "int32_range (int (T - unat position mod T))" using assms(2) by (intro int32_range_of_nat) linarith
  then show ?thesis by (simp add: wrap_index_def assms(3) p [simplified] e of_nat_min del: of_nat_diff)
qed

definition memory_ok :: "nat \<Rightarrow> JitterBuffer \<Rightarrow> bool" where
  "memory_ok T b \<longleftrightarrow> 0 < T \<and> T < 2147483648 \<and> mTotalSize b = int T \<and> length (mRingBuffer b) = T"

lemma wrap_index_parts:
  assumes "memory_ok T b"
  obtains p m where "wrap_index position (int n) b = Some (int p, int m)" and "p = unat position mod T"
    and "p < T" and "m = min (T - p) n" and "nat (int n - int m) = n - m" and "int m < int n \<longleftrightarrow> m < n"
proof
  show "wrap_index position (int n) b = Some (int (unat position mod T), int (min (T - unat position mod T) n))"
    using assms by (intro wrap_index_ok) (auto simp: memory_ok_def)
  show "unat position mod T < T" using assms by (simp add: memory_ok_def)
  show "nat (int n - int m) = n - m" "int m < int n \<longleftrightarrow> m < n" for m by simp_all
qed simp_all

lemma wrap_write_written:
  assumes "memory_ok T b" and "n \<le> T" and "n \<le> length src"
  shows "\<exists>mem. wrap_write src (int n) b = Some (b\<lparr>mRingBuffer := mem\<rparr>) \<and>
    ring_written mem (mRingBuffer b) (unat (mWritePosition b)) (take n src)"
proof -
  let ?m = "mRingBuffer b" and ?s = "unat (mWritePosition b)"
  obtain p k where i: "wrap_index (mWritePosition b) (int n) b = Some (int p, int k)" "p = ?s mod T"
    "p < T" "k = min (T - p) n" "nat (int n - int k) = n - k" "int k < int n \<longleftrightarrow> k < n"
    by (rule wrap_index_parts [OF assms(1)])
  have T: "length ?m = T" using assms(1) by (simp add: memory_ok_def)
  then have p: "p < length ?m" "?s mod length ?m = p" using i by simp_all
  have lx: "length (take n src) = n" using assms(3) by simp
  show ?thesis
  proof (cases "n \<le> T - p")
    case True
    then have k: "k = n" "p + n \<le> T" using i(3,4) by linarith+
    have "wrap_write src (int n) b = Some (b\<lparr>mRingBuffer := take p ?m @ take n src @ drop (p + n) ?m\<rparr>)"
      unfolding wrap_write_def i(1) using k T lx assms(3)
      by (simp add: mem_read_def mem_write_def min_absorb2)
    moreover have "ring_written (take p ?m @ take n src @ drop (p + n) ?m) ?m ?s (take n src)"
      using ring_written_flat [OF p(1) _ p(2), of "take n src"] k T lx by simp
    ultimately show ?thesis by blast
  next
    case False
    then have k: "k = T - p" "p + k = T" "k < n" "n - k \<le> T" "k + (n - k) = n"
      using i(3,4) assms(2) by linarith+
    let ?r = "drop k (take n src) @ drop (n - k) (take p ?m @ take k (take n src))"
    have tk: "take k (take n src) = take k src" using k(3) by (simp add: min_absorb1)
    have "wrap_write src (int n) b = Some (b\<lparr>mRingBuffer := ?r\<rparr>)"
      unfolding wrap_write_def i(1) tk using k(2-5) T lx assms(3) i(3,5,6) p(1)
      by (simp add: mem_read_def mem_write_def drop_take min_absorb2)
    moreover have "ring_written ?r ?m ?s (take n src)"
      using ring_written_split [OF p(1) _ p(2), of "take n src" k] k T lx assms(2) by simp
    ultimately show ?thesis by blast
  qed
qed

lemma wrap_clear_write:
  assumes "memory_ok T b"
  shows "wrap_clear (int n) b = wrap_write (replicate n 0) (int n) b"
proof -
  obtain p k where i: "wrap_index (mWritePosition b) (int n) b = Some (int p, int k)"
    "p < T" "k = min (T - p) n" "nat (int n - int k) = n - k" "int k < int n \<longleftrightarrow> k < n"
    by (rule wrap_index_parts [OF assms])
  have k: "k \<le> n" using i(3) by simp
  show ?thesis
    unfolding wrap_clear_def wrap_write_def i(1)
    using k i(4,5) by (cases "k < n") (simp_all add: mem_read_def mem_set_def min_absorb1)
qed

lemma wrap_read_items:
  assumes "memory_ok T b" and "n \<le> T"
  shows "wrap_read position (int n) b = Some (ring_items (mRingBuffer b) (unat position) n)"
proof -
  let ?m = "mRingBuffer b"
  obtain p k where i: "wrap_index position (int n) b = Some (int p, int k)" "p = unat position mod T"
    "p < T" "k = min (T - p) n" "nat (int n - int k) = n - k" "int k < int n \<longleftrightarrow> k < n"
    by (rule wrap_index_parts [OF assms(1)])
  have T: "length ?m = T" using assms(1) by (simp add: memory_ok_def)
  have idx: "(unat position + j) mod T = (if j < T - p then p + j else j - (T - p))" if "j < n" for j
  proof -
    have "(unat position + j) mod T = (p + j) mod T" using i(2) by (simp add: mod_simps)
    also have "\<dots> = (if p + j < T then p + j else p + j - T)"
      by (rule mod_add_split) (use i(3) assms(2) that in linarith)+
    finally show ?thesis using i(3) by auto
  qed
  have le: "p + k \<le> T" "n - k \<le> T" "k \<le> n" using i(3,4) assms(2) by linarith+
  have "wrap_read position (int n) b = Some (take k (drop p ?m) @ take (n - k) ?m)"
    unfolding wrap_read_def i(1) using le T i(5,6)
    by (cases "k < n") (simp_all add: mem_read_def)
  moreover have "take k (drop p ?m) @ take (n - k) ?m = ring_items ?m (unat position) n"
  proof (rule nth_equalityI)
    fix j assume "j < length (take k (drop p ?m) @ take (n - k) ?m)"
    then have j: "j < n" using le T by simp
    show "(take k (drop p ?m) @ take (n - k) ?m) ! j = ring_items ?m (unat position) n ! j"
      using j le T i(3,4) idx [OF j] by (auto simp: nth_append)
  qed (use le T in simp)
  ultimately show ?thesis by simp
qed

section \<open>The stream in the memory\<close>

definition holds :: "nat \<Rightarrow> bytes \<Rightarrow> JitterBuffer \<Rightarrow> bool" where
  "holds T s b \<longleftrightarrow> memory_ok T b \<and> unat (mWritePosition b) = length s \<and>
     (\<forall>p<length s. length s \<le> p + T \<longrightarrow> mRingBuffer b ! (p mod T) = s ! p)"

definition same_store :: "JitterBuffer \<Rightarrow> JitterBuffer \<Rightarrow> bool" where
  "same_store a b \<longleftrightarrow> mRingBuffer a = mRingBuffer b \<and> mTotalSize a = mTotalSize b \<and>
     mWritePosition a = mWritePosition b"

lemma same_store_holds: "same_store a b \<Longrightarrow> holds T s a = holds T s b"
  by (simp add: same_store_def holds_def memory_ok_def)

lemma unat_advance:
  assumes "unat w + n < 4294967296"
  shows "unat ((w :: u32) + of_int (int n)) = unat w + n"
  using assms by (simp add: unat_add_lem [THEN iffD1] unat_of_nat)

lemma holds_write:
  assumes h: "holds T s b" and "length xs \<le> T" and "length s + length xs < 4294967296"
    and w: "ring_written mem (mRingBuffer b) (length s) xs"
    and b': "mRingBuffer b' = mem" "mTotalSize b' = mTotalSize b"
      "mWritePosition b' = mWritePosition b + of_int (int (length xs))"
  shows "holds T (s @ xs) b'"
proof -
  have T: "0 < T" "length (mRingBuffer b) = T" "unat (mWritePosition b) = length s"
    using h by (auto simp: holds_def memory_ok_def)
  have "mem ! (p mod T) = (s @ xs) ! p" if p: "p < length s + length xs" "length s + length xs \<le> p + T" for p
  proof (cases "p < length s")
    case True
    have "p mod T \<noteq> (length s + j) mod T" if "j < length xs" for j
    proof -
      have "length s + j - p < T" "p + (length s + j - p) = length s + j" "0 < length s + j - p"
        using True p(2) that by linarith+
      then show ?thesis using mod_add_inj_nat [of 0 T "length s + j - p" p] T(1) by auto
    qed
    then have "mem ! (p mod T) = mRingBuffer b ! (p mod T)"
      using w T by (simp add: ring_written_def)
    then show ?thesis using h True p(2) by (simp add: holds_def nth_append)
  next
    case False
    then obtain j where "p = length s + j" "j < length xs" using p(1) by (metis add_less_cancel_left le_Suc_ex linorder_not_less)
    then show ?thesis using w T(2) by (simp add: ring_written_def)
  qed
  moreover have "unat (mWritePosition b') = length (s @ xs)"
    using unat_advance [of "mWritePosition b" "length xs"] assms(3) T(3) b'(3) by simp
  moreover have "memory_ok T b'" using h w b' by (simp add: holds_def memory_ok_def ring_written_def)
  ultimately show ?thesis using b'(1) by (simp add: holds_def)
qed

text \<open>The window of the stream that a read returns: zeros stand for what is not written yet.\<close>

definition window :: "bytes \<Rightarrow> nat \<Rightarrow> nat \<Rightarrow> bytes" where
  "window s p n = take n (drop p s) @ replicate (n - (length s - p)) 0"

lemma window_length [simp]: "length (window s p n) = n"
  by (simp add: window_def)

lemma holds_items:
  assumes "holds T s b" and "length s \<le> p + T" and "p + n \<le> length s"
  shows "ring_items (mRingBuffer b) p n = take n (drop p s)"
  using assms by (intro nth_equalityI) (auto simp: holds_def memory_ok_def)

lemma read_len_nat: "max 0 (min (int S) (int l - int r)) = int (min S (l - r))"
  by (cases "r \<le> l") (auto simp: min_def)

lemma read_padded_window:
  assumes h: "holds T s b" and "length s \<le> unat r + T" and "S \<le> T"
  shows "read_padded r (int (length s) - int (unat r)) (int S) b =
    Some (window s (unat r) S, int (S - (length s - unat r)))"
proof -
  let ?n = "min S (length s - unat r)"
  have m: "memory_ok T b" using h by (simp add: holds_def)
  have n: "max 0 (min (int S) (int (length s) - int (unat r))) = int ?n"
    by (rule read_len_nat)
  have le: "?n \<le> T" using assms(3) by simp
  have "ring_items (mRingBuffer b) (unat r) ?n = take S (drop (unat r) s)"
  proof (cases "unat r \<le> length s")
    case True
    then have "ring_items (mRingBuffer b) (unat r) ?n = take ?n (drop (unat r) s)"
      by (intro holds_items [OF h assms(2)]) simp
    also have "\<dots> = take S (drop (unat r) s)" by (simp add: min_def)
    finally show ?thesis .
  qed simp
  then have rd: "wrap_read r (int ?n) b = Some (take S (drop (unat r) s))"
    using wrap_read_items [OF m le, of r] by simp
  have c: "int ?n < int S \<longleftrightarrow> ?n < S" "int S - int ?n = int (S - (length s - unat r))" by auto
  have "S < 2147483648" using assms(3) m by (simp add: memory_ok_def)
  then have "int32_range (int (S - (length s - unat r)))" by (intro int32_range_of_nat) linarith
  then show ?thesis
    unfolding read_padded_def Let_def n rd c(2) unfolding c(1)
    by (cases "?n < S") (simp_all add: window_def del: of_nat_diff)
qed

section \<open>Reading\<close>

text \<open>What the operations leave alone.\<close>

definition same_setup :: "JitterBuffer \<Rightarrow> JitterBuffer \<Rightarrow> bool" where
  "same_setup a b \<longleftrightarrow> mSlotSize a = mSlotSize b \<and> mMaxLatency a = mMaxLatency b \<and>
     mUnderrunIncTolerance a = mUnderrunIncTolerance b \<and> mCorrIncTolerance a = mCorrIncTolerance b \<and>
     mOverflowDropStep a = mOverflowDropStep b \<and> mAutoQueue a = mAutoQueue b \<and>
     mLevelDownRate a = mLevelDownRate b"

lemma adapt_queue_corr_ok:
  assumes "int32_range (mInSlotSize b + mSlotSize b)"
  shows "\<exists>c r. adapt_queue_corr b = Some (b\<lparr>mAutoQueueCorr := c, mAutoQRate := r\<rparr>)"
proof -
  have "\<exists>c. (if 0 > dbl_sub (dbl_add (of_int (available b)) (mAutoQueueCorr b)) (mLevelCur b)
      then Some (dbl_add (mAutoQueueCorr b) (mAutoQRate b))
      else do {
        s \<leftarrow> checked_int (mInSlotSize b + mSlotSize b);
        Some (if of_int s < mAutoQueueCorr b
          then dbl_sub (mAutoQueueCorr b) (dbl_mul (mAutoQRate b) (mAutoQFactor b))
          else mAutoQueueCorr b)
      }) = Some c"
    using assms by simp
  then show ?thesis unfolding adapt_queue_corr_def by (elim exE) (simp only: bind.bind_lunit, blast)
qed

lemma available_diff:
  assumes "int32_range (int (unat (mWritePosition b)) - int (unat (mReadPosition b)))"
  shows "available b = int (unat (mWritePosition b)) - int (unat (mReadPosition b))"
  using sint_of_int_u32 [OF assms] by (simp add: available_def)

lemma read_window:
  assumes h: "holds T s b" and "mActive b" and "mAutoQueue b = 0" and "mSlotSize b = int S" and "S \<le> T"
    and "int32_range (mInSlotSize b + int S)" and "int32_range (int (length s) - int (unat (mReadPosition b)))"
    and "length s \<le> unat (mReadPosition b) + T"
  shows "\<exists>b'. readSlotNonBlocking b = Some (window s (unat (mReadPosition b)) S, None, b') \<and> holds T s b' \<and>
    mReadPosition b' = mReadPosition b + of_int (int S) \<and> mActive b' \<and> same_setup b' b \<and>
    mInSlotSize b' = mInSlotSize b \<and> mLevelCur b' = mLevelCur (track_level b)"
proof -
  let ?r = "mReadPosition b" and ?t = "track_level b"
  obtain c a where a: "adapt_queue_corr ?t = Some (?t\<lparr>mAutoQueueCorr := c, mAutoQRate := a\<rparr>)"
    using adapt_queue_corr_ok [of ?t] assms(4,6) by (auto simp: track_level_def)
  let ?b = "?t\<lparr>mAutoQueueCorr := c, mAutoQRate := a\<rparr>"
  have st: "same_store ?b b" by (simp add: same_store_def track_level_def)
  have q: "adapt_queue_length ?b = Some (None, ?b)"
    using assms(3) by (simp add: adapt_queue_length_def track_level_def)
  have av: "available b = int (length s) - int (unat ?r)"
  proof -
    have w: "unat (mWritePosition b) = length s" using h by (simp add: holds_def)
    show ?thesis using available_diff [of b] assms(7) unfolding w by blast
  qed
  have "holds T s ?b" using h same_store_holds [OF st] by simp
  from read_padded_window [OF this assms(8,5)]
  have "readSlotNonBlocking b = Some (window s (unat ?r) S, None,
      ?b\<lparr>mUnderrunsNew := mUnderrunsNew ?b + of_int (int (S - (length s - unat ?r))),
        mReadPosition := mReadPosition ?b + of_int (int S)\<rparr>)"
    using assms(2,4) a q av by (simp add: readSlotNonBlocking_def track_level_def)
  moreover have "same_store (?b\<lparr>mUnderrunsNew := mUnderrunsNew ?b + of_int (int (S - (length s - unat ?r))),
        mReadPosition := mReadPosition ?b + of_int (int S)\<rparr>) b"
    by (simp add: same_store_def track_level_def)
  ultimately show ?thesis
    using h assms(2) same_store_holds by (auto simp: track_level_def same_setup_def)
qed

section \<open>Insertion\<close>

lemma loss_drop_rest:
  assumes "loss_drop l b = Some (l', b')" and "0 < l" and "0 \<le> mSlotSize b"
  shows "0 \<le> l'" and "l' \<le> l" and "same_store b' b"
  using assms by (auto simp: loss_drop_def Let_def checked_int_eq_Some same_store_def bind_eq_Some_conv
      split: if_splits)

lemma loss_fill_zeros:
  assumes h: "holds T s b" and f: "loss_fill (int z) b = Some b'" and "length s + z < 4294967296"
  shows "holds T (s @ replicate z 0) b'"
proof -
  have T: "mTotalSize b = int T" "length (mRingBuffer b) = T" "memory_ok T b"
    "unat (mWritePosition b) = length s"
    using h by (auto simp: holds_def memory_ok_def)
  consider "T \<le> z" | "0 < z" "z < T" | "z = 0" by linarith
  then show ?thesis
  proof cases
    case 1
    then obtain u where b': "b' = b\<lparr>mRingBuffer := replicate T 0, mUnderruns := u, mWritePosition := mWritePosition b + of_int (int z)\<rparr>"
      using f T by (auto simp: loss_fill_def mem_set_def mem_write_def bind_eq_Some_conv)
    have "replicate T 0 ! (p mod T) = (s @ replicate z 0) ! p" if "p < length s + z" "length s + z \<le> p + T" for p
      using that 1 T(3) by (simp add: nth_append memory_ok_def)
    then show ?thesis
      using unat_advance [of "mWritePosition b" z] assms(3) T b' by (simp add: holds_def memory_ok_def)
  next
    case 2
    have le: "z \<le> T" using 2 by simp
    obtain mem where m: "wrap_clear (int z) b = Some (b\<lparr>mRingBuffer := mem\<rparr>)"
      "ring_written mem (mRingBuffer b) (length s) (replicate z 0)"
      using wrap_write_written [OF T(3) le, of "replicate z 0"] wrap_clear_write [OF T(3)] T(4) by auto
    have "\<exists>u. b' = b\<lparr>mRingBuffer := mem, mUnderruns := u, mWritePosition := mWritePosition b + of_int (int z)\<rparr>"
      using f 2 m(1) T(1) by (auto simp: loss_fill_def bind_eq_Some_conv)
    then show ?thesis
      using 2 assms(3) m(2) by (elim exE) (rule holds_write [OF h, where mem = mem]; simp)
  next
    case 3
    then have "same_store b' b"
      using f T(1,3) by (auto simp: loss_fill_def memory_ok_def same_store_def)
    then show ?thesis using h 3 same_store_holds by simp
  qed
qed

lemma processPacketLoss_stream:
  assumes h: "holds T s b" and "0 \<le> mSlotSize b" and "length s + nat lostLen < 4294967296" and l: "0 < lostLen"
    and e: "processPacketLoss lostLen b = Some b'"
  shows "\<exists>z\<le>nat lostLen. holds T (s @ replicate z 0) b'"
proof -
  obtain l b2 where d: "loss_drop lostLen (b\<lparr>mSkewRaw := mSkewRaw b - lostLen\<rparr>) = Some (l, b2)"
    and f: "loss_fill l b2 = Some b'"
    using e by (auto simp: processPacketLoss_def checked_int_eq_Some bind_eq_Some_conv)
  have l: "0 \<le> l" "l \<le> lostLen" "same_store b2 (b\<lparr>mSkewRaw := mSkewRaw b - lostLen\<rparr>)"
    using loss_drop_rest [OF d l] assms(2) by simp_all
  then have "same_store b2 b" by (simp add: same_store_def)
  then have "holds T s b2" using h same_store_holds by simp
  then have "holds T (s @ replicate (nat l) 0) b'"
    using loss_fill_zeros [of T s b2 "nat l"] f l(1,2) assms(3) by simp
  then show ?thesis using l by (intro exI [of _ "nat l"]) simp
qed

lemma insert_steps_store:
  shows insert_setup_store: "insert_setup len b = Some b' \<Longrightarrow> same_store b' b \<and> mSlotSize b' = mSlotSize b"
    and book_insert_store: "book_insert len b = Some b' \<Longrightarrow> same_store b' b"
    and correction_delta_store: "correction_delta c len b = Some (d, b') \<Longrightarrow> same_store b' b"
proof -
  show "insert_setup len b = Some b' \<Longrightarrow> same_store b' b \<and> mSlotSize b' = mSlotSize b"
    by (auto simp: insert_setup_def same_store_def checked_int_eq_Some bind_eq_Some_conv)
  show "book_insert len b = Some b' \<Longrightarrow> same_store b' b"
    by (auto simp: book_insert_def same_store_def bind_eq_Some_conv)
  show "correction_delta c len b = Some (d, b') \<Longrightarrow> same_store b' b"
    by (cases c) (auto simp: same_store_def bind_eq_Some_conv Let_def)
qed

lemma apply_delta_store: "same_store (apply_delta d b) b"
  by (simp add: apply_delta_def same_store_def)

lemma write_stream:
  assumes h: "holds T s b" and "n \<le> T" and "n \<le> length ptr" and "length s + n < 4294967296"
  shows "\<exists>mem. wrap_write ptr (int n) b = Some (b\<lparr>mRingBuffer := mem\<rparr>) \<and>
    holds T (s @ take n ptr) (b\<lparr>mRingBuffer := mem, mWritePosition := mWritePosition b + of_int (int n)\<rparr>)"
proof -
  have m: "memory_ok T b" "unat (mWritePosition b) = length s" using h by (simp_all add: holds_def)
  obtain mem where "wrap_write ptr (int n) b = Some (b\<lparr>mRingBuffer := mem\<rparr>)"
    and w: "ring_written mem (mRingBuffer b) (length s) (take n ptr)"
    using wrap_write_written [OF m(1) assms(2,3)] m(2) by auto
  moreover have "holds T (s @ take n ptr) (b\<lparr>mRingBuffer := mem, mWritePosition := mWritePosition b + of_int (int n)\<rparr>)"
    by (rule holds_write [OF h _ _ w]) (use assms in simp_all)
  ultimately show ?thesis by blast
qed

lemma insert_stream:
  assumes h: "holds T s b" and "0 \<le> mSlotSize b" and len: "len = int n \<or> len = 0 \<and> mSlotSize b = int n"
    and "0 < n" and "n \<le> length ptr" and "length s + nat lostLen + n < 4294967296"
    and e: "insertSlotNonBlocking ptr len lostLen seq b = Some (True, b')"
  shows "\<exists>z\<le>nat lostLen. holds T (s @ replicate z 0 @ take n ptr) b'"
proof -
  have l: "(if 0 = len then mSlotSize b else len) = int n" using len \<open>0 < n\<close> by auto
  have n: "n \<le> T"
    using e h unfolding insertSlotNonBlocking_def l Let_def
    by (auto simp: holds_def memory_ok_def split: if_splits)
  define loss where "loss b = (if 0 < lostLen then processPacketLoss lostLen b else Some b)" for b
  have le: "\<not> int n > mTotalSize b" using n h by (simp add: holds_def memory_ok_def)
  have "do {
      b \<leftarrow> insert_setup (int n) b;
      b \<leftarrow> loss b;
      b \<leftarrow> book_insert (int n) b;
      c \<leftarrow> correction_due (int n) b;
      (delta, b) \<leftarrow> correction_delta c (int n) b;
      b \<leftarrow> wrap_write ptr (int n) (apply_delta delta b);
      Some (True, b\<lparr>mWritePosition := mWritePosition b + of_int (int n)\<rparr>)
    } = Some (True, b')"
    using e le unfolding insertSlotNonBlocking_def l Let_def loss_def by simp
  then obtain b1 b2 b3 c d b4 b5 where
    b1: "insert_setup (int n) b = Some b1" and b2: "loss b1 = Some b2"
    and b3: "book_insert (int n) b2 = Some b3"
    and b4: "correction_delta c (int n) b3 = Some (d, b4)"
    and b5: "wrap_write ptr (int n) (apply_delta d b4) = Some b5"
      "b' = b5\<lparr>mWritePosition := mWritePosition b5 + of_int (int n)\<rparr>"
    by (auto simp: bind_eq_Some_conv)
  have s1: "same_store b1 b" "mSlotSize b1 = mSlotSize b" using insert_setup_store [OF b1] by simp_all
  have h1: "holds T s b1" using h same_store_holds [OF s1(1)] by simp
  have "\<exists>z\<le>nat lostLen. holds T (s @ replicate z 0) b2"
    using processPacketLoss_stream [OF h1, of lostLen b2] b2 h1 s1(2) assms(2,6) unfolding loss_def
    by (cases "0 < lostLen") auto
  then obtain z where z: "z \<le> nat lostLen" "holds T (s @ replicate z 0) b2" by blast
  have "holds T (s @ replicate z 0) (apply_delta d b4)"
    using z(2) same_store_holds book_insert_store [OF b3] correction_delta_store [OF b4] apply_delta_store
    by metis
  from write_stream [OF this n assms(5)] show ?thesis
    using b5 z(1) assms(6) by auto
qed

section \<open>The buffer as a FIFO of slots\<close>

text \<open>
  The steady state under the default strategy: \<open>Q\<close> slots of latency, slots of \<open>S\<close> bytes, and no
  losses.  \<open>n\<close> more insertions are allowed before the positions could leave 31 bits.
\<close>

definition steady :: "nat \<Rightarrow> nat \<Rightarrow> nat \<Rightarrow> JitterBuffer \<Rightarrow> bool" where
  "steady S Q T b \<longleftrightarrow> 0 < S \<and> 2 \<le> Q \<and> Q * S \<le> T \<and> 100 * (Q * S) < 2147483648 \<and>
     mSlotSize b = int S \<and> mMaxLatency b = int (Q * S) \<and> mAutoQueue b = 0 \<and>
     mOverflowDropStep b = int S \<and> mCorrIncTolerance b = of_nat (100 * (Q * S)) \<and>
     0 \<le> mLevelCur b \<and> mLevelCur b \<le> of_nat (Q * S) \<and> 0 \<le> mLevelDownRate b"

lemma steady_bounds:
  assumes "steady S Q T b"
  shows "0 < S" and "Q * S \<le> T" and "2 * S \<le> Q * S" and "S \<le> T" and "100 * (Q * S) < 2147483648"
    and "S + S < 2147483648" and "6 * int S < 2147483648"
    and "mSlotSize b = int S" and "mMaxLatency b = int (Q * S)"
proof -
  have g: "0 < S" "Q * S \<le> T" "2 \<le> Q" "100 * (Q * S) < 2147483648" "mSlotSize b = int S" "mMaxLatency b = int (Q * S)"
    using assms by (simp_all add: steady_def)
  have q: "2 * S \<le> Q * S" using g(3) by (rule mult_le_mono1)
  show "S \<le> T" "S + S < 2147483648" "6 * int S < 2147483648" using q g(2,4) by linarith+
  show "0 < S" "Q * S \<le> T" "2 * S \<le> Q * S" "100 * (Q * S) < 2147483648" "mSlotSize b = int S"
    "mMaxLatency b = int (Q * S)" using g q by simp_all
qed

definition active_slots :: "nat \<Rightarrow> JitterBuffer \<Rightarrow> bool" where
  "active_slots S b \<longleftrightarrow> mActive b \<and> mInSlotSize b = int S"

text \<open>The bytes between the positions, and the slots they are.\<close>

definition content :: "JitterBuffer \<Rightarrow> bytes" where
  "content b = ring_items (mRingBuffer b) (unat (mReadPosition b)) (nat (available b))"

definition queued :: "nat \<Rightarrow> JitterBuffer \<Rightarrow> bytes list" where
  "queued S b = slot_list S (length (content b) div S) (content b)"

definition jitter_inv :: "nat \<Rightarrow> nat \<Rightarrow> nat \<Rightarrow> nat \<Rightarrow> JitterBuffer \<Rightarrow> bool" where
  "jitter_inv S Q T n b \<longleftrightarrow> steady S Q T b \<and> active_slots S b \<and>
     (\<exists>s. holds T s b \<and> length s + n * S < 2147483648 \<and> unat (mReadPosition b) \<le> length s \<and>
        S dvd (length s - unat (mReadPosition b)) \<and> length s - unat (mReadPosition b) \<le> Q * S)"

definition jitter_put :: "bytes \<Rightarrow> JitterBuffer \<Rightarrow> JitterBuffer option" where
  "jitter_put slot b = (case insertSlotNonBlocking slot 0 0 0 b of Some (True, b') \<Rightarrow> Some b' | _ \<Rightarrow> None)"

definition jitter_get :: "JitterBuffer \<Rightarrow> (bytes \<times> JitterBuffer) option" where
  "jitter_get b = (case readSlotNonBlocking b of Some (slot, None, b') \<Rightarrow> Some (slot, b') | _ \<Rightarrow> None)"

lemma available_fill:
  assumes "holds T s b" and "length s < 2147483648" and "unat (mReadPosition b) \<le> length s"
  shows "available b = int (length s - unat (mReadPosition b))"
proof -
  have w: "unat (mWritePosition b) = length s" using assms(1) by (simp add: holds_def)
  have e: "int (length s) - int (unat (mReadPosition b)) = int (length s - unat (mReadPosition b))"
    using assms(3) by simp
  have "int32_range (int (length s - unat (mReadPosition b)))"
    using assms(2) by (intro int32_range_of_nat) linarith
  then show ?thesis using available_diff [of b] unfolding w e by blast
qed

lemma content_stream:
  assumes "holds T s b" and "length s < 2147483648" and "unat (mReadPosition b) \<le> length s"
    and "length s - unat (mReadPosition b) \<le> T"
  shows "content b = drop (unat (mReadPosition b)) s"
proof -
  have "length s \<le> unat (mReadPosition b) + T" using assms(4) by linarith
  then show ?thesis
    using holds_items [OF assms(1), of "unat (mReadPosition b)" "length s - unat (mReadPosition b)"]
      available_fill [OF assms(1-3)] assms(3)
    by (simp add: content_def del: of_nat_diff)
qed

lemma dbl_level_bounds:
  assumes "0 \<le> l" and "l \<le> of_nat (Q * S)" and "0 < S" and "Q * S < 2147483648"
  shows "\<exists>q lv. dbl_div l (of_int (int S)) = Some q \<and>
    dbl_to_int (dbl_mul (of_int (int S)) (of_int \<lceil>q\<rceil>)) = Some lv"
proof -
  let ?q = "dbl_round (l / of_nat S)"
  have Q: "Q < 2147483648" using assms(3,4) by (metis One_nat_def Suc_leI le_less_trans mult.right_neutral mult_le_mono2)
  have "l / of_nat S \<le> of_nat Q" using assms(2,3) by (simp add: pos_divide_le_eq)
  then have q: "0 \<le> ?q" "?q \<le> of_nat Q"
    using dbl_round_int_bounds [of 0 "l / of_nat S"] dbl_round_int_bounds [of "int Q" "l / of_nat S"] assms(1,3) Q
    by simp_all
  then have c: "0 \<le> \<lceil>?q\<rceil>" "\<lceil>?q\<rceil> \<le> int Q" by (simp_all add: ceiling_le_iff)
  let ?x = "of_int (int S) * of_int \<lceil>?q\<rceil> :: rat"
  have "int S * \<lceil>?q\<rceil> \<le> int (Q * S)" using mult_left_mono [OF c(2), of "int S"] by (simp add: mult.commute)
  then have x: "of_int (int S * \<lceil>?q\<rceil>) \<le> (of_int (int (Q * S)) :: rat)" by (simp only: of_int_le_iff)
  have N: "\<bar>int (Q * S)\<bar> \<le> 9007199254740992" using assms(4) by (simp del: of_nat_mult)
  have "0 \<le> ?x" using c(1) by simp
  then have "0 \<le> dbl_mul (of_int (int S)) (of_int \<lceil>?q\<rceil>)"
    "dbl_mul (of_int (int S)) (of_int \<lceil>?q\<rceil>) \<le> of_int (int (Q * S))"
    using dbl_round_int_bounds(1) [of 0 ?x] dbl_round_int_bounds(2) [OF N, of ?x] x
    by (simp_all add: dbl_mul_def del: of_nat_mult of_int_of_nat_eq)
  moreover have "(of_int (int (Q * S)) :: rat) < of_int 2147483648"
    using assms(4) by (simp only: of_int_less_iff)
  ultimately have "int32_range (dbl_trunc (dbl_mul (of_int (int S)) (of_int \<lceil>?q\<rceil>)))"
    by (simp add: int32_range_def dbl_trunc_def floor_less_iff le_floor_iff del: of_nat_mult)
  then show ?thesis using assms(3) by (simp add: dbl_div_def dbl_to_int_def)
qed

lemma no_compensation:
  assumes "mMaxLatency b = int L" and "mCorrIncTolerance b = of_nat (100 * L)" and "0 \<le> mLevelCur b"
    and "0 \<le> mSlotSize b" and "6 * mSlotSize b < 2147483648"
  shows "\<exists>t. corr_threshold b = Some t \<and> \<not> mLevelCur b < t"
proof -
  let ?f = "dbl_mul (of_int (6 * mSlotSize b)) (lastCorrFactor b)"
  let ?d = "dbl_sub (of_int (mMaxLatency b)) (mCorrIncTolerance b)"
  have "0 \<le> lastCorrFactor b"
  proof -
    have "(0 :: rat) \<le> 500 / of_nat (unat (max 500 (mLastCorrCounter b)))"
      by (intro divide_nonneg_nonneg of_nat_0_le_iff) simp
    then show ?thesis
      unfolding lastCorrFactor_def using dbl_round_int_bounds(1) [of 0] by (simp del: of_nat_unat)
  qed
  then have "0 \<le> ?f"
    unfolding dbl_mul_def using assms(4) dbl_round_int_bounds(1) [of 0] by simp
  moreover have "?d \<le> 0"
    unfolding dbl_sub_def using assms(1,2) dbl_round_int_bounds(2) [of 0] by simp
  ultimately have "dbl_sub ?d ?f \<le> 0"
    unfolding dbl_sub_def using dbl_round_int_bounds(2) [of 0] by simp
  then show ?thesis using assms(3-5) by (auto simp: corr_threshold_def int32_range_def)
qed

lemma correction_delta_slot:
  assumes "steady S Q T b" and "active_slots S b"
  shows "\<exists>b'. correction_delta (if room then Keep else Overflow) len b = Some (if room then 0 else int S, b') \<and>
    same_store b' b \<and> mReadPosition b' = mReadPosition b \<and> steady S Q T b' \<and> active_slots S b'"
  using assms by (cases room) (auto simp: steady_def active_slots_def same_store_def)

lemma insert_slot:
  assumes st: "steady S Q T b" and h: "holds T s b" and r: "unat (mReadPosition b) \<le> length s"
    and fill: "length s - unat (mReadPosition b) \<le> Q * S" and "length s + S < 2147483648" and "length x = S"
    and len: "len = 0 \<or> len = int S"
  shows "\<exists>b'. insertSlotNonBlocking x len 0 seq b = Some (True, b') \<and> steady S Q T b' \<and> active_slots S b' \<and>
    holds T (s @ x) b' \<and> unat (mReadPosition b') = unat (mReadPosition b) +
      (if length s - unat (mReadPosition b) + S \<le> Q * S then 0 else S)"
proof -
  let ?L = "Q * S" and ?f = "length s - unat (mReadPosition b)"
  have g: "0 < S" "?L \<le> T" "100 * ?L < 2147483648" "2 * S \<le> ?L" "mSlotSize b = int S" "mMaxLatency b = int ?L"
    using steady_bounds [OF st] by simp_all
  let ?b1 = "b\<lparr>mInSlotSize := int S, mActive := True\<rparr>"
  have "S + S < 2147483648" using g(3,4) by linarith
  then have "int32_range (int S + int S)" using int32_range_of_nat [of "S + S"] by simp
  moreover have "\<not> int ?L < int S + int S" using g(4) by linarith
  ultimately have b1: "insert_setup (int S) b = Some ?b1"
    using g(5,6) by (simp add: insert_setup_def del: of_nat_mult)
  obtain b2 where b2: "book_insert (int S) ?b1 = Some b2" "same_store b2 b" "mReadPosition b2 = mReadPosition b"
    "steady S Q T b2" "active_slots S b2"
    using dbl_level_bounds [of "mLevelCur b" Q S] st g(3)
    by (auto simp: book_insert_def steady_def active_slots_def same_store_def)
  have h2: "holds T s b2" using h same_store_holds [OF b2(2)] by simp
  have av: "available b2 = int ?f"
    using available_fill [OF h2] r b2(3) assms(5) by simp
  have low: "checked_int (-10 * mMaxLatency b2) = Some (-10 * int ?L)" "\<not> int ?f < -10 * int ?L" "\<not> 0 > int ?f"
    using g(3) b2(4) by (simp_all add: steady_def int32_range_def del: of_nat_mult)
  have "?f + S < 2147483648" using g(3,4) fill by linarith
  then have al: "checked_int (int ?f + int S) = Some (int ?f + int S)"
    using int32_range_of_nat [of "?f + S"] by (simp del: of_nat_diff)
  have am: "int ?f + int S > mMaxLatency b2 \<longleftrightarrow> \<not> ?f + S \<le> ?L"
    using b2(4) by (auto simp: steady_def simp del: of_nat_mult)
  obtain t where t: "corr_threshold b2 = Some t" "\<not> mLevelCur b2 < t"
    using no_compensation [of b2 ?L] b2(4) steady_bounds(7-9) [OF b2(4)]
    by (auto simp: steady_def simp del: of_nat_mult)
  have c: "correction_due (int S) b2 = Some (if ?f + S \<le> ?L then Keep else Overflow)"
    using low al am t by (simp add: correction_due_def av del: of_nat_diff of_nat_mult)
  obtain d b3 where b3: "correction_delta (if ?f + S \<le> ?L then Keep else Overflow) (int S) b2 = Some (d, b3)"
    "d = (if ?f + S \<le> ?L then 0 else int S)" "same_store b3 b2" "mReadPosition b3 = mReadPosition b2"
    "steady S Q T b3" "active_slots S b3"
    using correction_delta_slot [OF b2(4,5), of "?f + S \<le> ?L" "int S"] by blast
  let ?b4 = "apply_delta d b3"
  have b4: "holds T s ?b4" "steady S Q T ?b4" "active_slots S ?b4"
    using h2 same_store_holds b3(3,5,6) apply_delta_store
    by (metis, simp_all add: apply_delta_def steady_def active_slots_def)
  have "unat (mReadPosition ?b4) = unat (mReadPosition b) + (if ?f + S \<le> ?L then 0 else S)"
    using unat_advance [of "mReadPosition b" S] assms(5) r b3(2,4) b2(3) g(1)
    by (simp add: apply_delta_def)
  moreover obtain mem where "wrap_write x (int S) ?b4 = Some (?b4\<lparr>mRingBuffer := mem\<rparr>)"
    "holds T (s @ x) (?b4\<lparr>mRingBuffer := mem, mWritePosition := mWritePosition ?b4 + of_int (int S)\<rparr>)"
    using write_stream [OF b4(1), of S x] assms(5,6) g(2,4) by auto
  moreover have "\<not> int S > mTotalSize b" using h steady_bounds(4) [OF st] by (simp add: holds_def memory_ok_def)
  moreover have "(if 0 = len then mSlotSize b else len) = int S" using len g(5) by auto
  ultimately show ?thesis
    using b1 b2(1) c b3(1) b4 unfolding insertSlotNonBlocking_def
    by (simp add: Let_def steady_def active_slots_def)
qed

lemma insert_normal_len:
  "insertSlotNonBlocking x (mSlotSize b) 0 seq b = insertSlotNonBlocking x 0 0 0 b"
  by (simp add: insertSlotNonBlocking_def)

lemma slot_list_snoc:
  assumes "length c = k * S" and "length x = S"
  shows "slot_list S (Suc k) (c @ x) = slot_list S k c @ [x]"
proof -
  have "i * S + S \<le> length c" if "i < k" for i
    using slot_bound [OF that, of S] assms(1) by (simp add: mult.commute)
  then have "slot_list S k (c @ x) = slot_list S k c" by (force simp: slot_list_def)
  then show ?thesis using assms by (simp add: slot_list_def)
qed

lemma slot_list_Cons: "slot_list S (Suc k) c = take S c # slot_list S k (drop S c)"
  by (simp add: slot_list_def map_upt_Suc add.commute del: upt_Suc)

lemma slot_list_zeros: "slot_list S k (replicate (k * S) 0) = replicate k (replicate S 0)"
proof (induction k)
  case (Suc k)
  then show ?case by (simp add: slot_list_Cons)
qed (simp add: slot_list_def)

lemma jitter_inv_fill:
  assumes "jitter_inv S Q T n b"
  obtains s k where "steady S Q T b" "active_slots S b" "holds T s b" "length s + n * S < 2147483648"
    "unat (mReadPosition b) \<le> length s" "length s - unat (mReadPosition b) = k * S" "k \<le> Q"
    "content b = drop (unat (mReadPosition b)) s" "queued S b = slot_list S k (drop (unat (mReadPosition b)) s)"
proof -
  obtain s where s: "steady S Q T b" "active_slots S b" "holds T s b" "length s + n * S < 2147483648"
    "unat (mReadPosition b) \<le> length s" and d: "S dvd length s - unat (mReadPosition b)"
    and le: "length s - unat (mReadPosition b) \<le> Q * S"
    using assms unfolding jitter_inv_def by blast
  obtain k where "length s - unat (mReadPosition b) = S * k" using d by blast
  with le have s: "steady S Q T b" "active_slots S b" "holds T s b" "length s + n * S < 2147483648"
    "unat (mReadPosition b) \<le> length s" "length s - unat (mReadPosition b) = S * k" "S * k \<le> Q * S"
    using s by simp_all
  have g: "0 < S" "Q * S \<le> T" using s(1) by (simp_all add: steady_def)
  then have k: "k \<le> Q" using s(7) by (simp add: mult.commute)
  have lt: "length s < 2147483648" and le: "length s - unat (mReadPosition b) \<le> T"
    using s(4,6,7) g(2) by linarith+
  have c: "content b = drop (unat (mReadPosition b)) s" by (rule content_stream [OF s(3) lt s(5) le])
  then have "queued S b = slot_list S k (drop (unat (mReadPosition b)) s)"
    using s(6) g(1) by (simp add: queued_def)
  from that [OF s(1-5) _ k c this] show ?thesis using s(6) by (simp add: mult.commute)
qed

lemma jitter_put_room:
  assumes inv: "jitter_inv S Q T (Suc n) b" and x: "length x = S" and room: "length (queued S b) < Q"
  shows "\<exists>b'. jitter_put x b = Some b' \<and> jitter_inv S Q T n b' \<and> queued S b' = queued S b @ [x]"
proof -
  let ?r = "unat (mReadPosition b)"
  obtain s k where s: "steady S Q T b" "active_slots S b" "holds T s b" "length s + Suc n * S < 2147483648"
    "?r \<le> length s" "length s - ?r = k * S" "k \<le> Q" "content b = drop ?r s" "queued S b = slot_list S k (drop ?r s)"
    by (rule jitter_inv_fill [OF inv])
  have k: "k < Q" using room s(9) by simp
  then have le: "k * S + S \<le> Q * S" using slot_bound [of k Q S] by (simp add: mult.commute)
  then have fill: "length s - ?r \<le> Q * S" "length s - ?r + S \<le> Q * S" using s(6) by linarith+
  obtain b' where b': "insertSlotNonBlocking x 0 0 0 b = Some (True, b')" "steady S Q T b'" "active_slots S b'"
    "holds T (s @ x) b'" "unat (mReadPosition b') = ?r"
    using insert_slot [OF s(1,3,5) fill(1) _ x, of 0 0] s(4) fill(2) by auto
  have len: "length (s @ x) - ?r = Suc k * S" "drop ?r (s @ x) = drop ?r s @ x" "length (drop ?r s) = k * S"
    using s(5,6) x by simp_all
  have lt: "length (s @ x) < 2147483648" and T: "Suc k * S \<le> T" and r': "unat (mReadPosition b') \<le> length (s @ x)"
    using s(1,4,5) x le b'(5) by (simp_all add: steady_def)
  have "content b' = drop ?r s @ x"
    using content_stream [OF b'(4) lt r'] len T b'(5) by simp
  then have "queued S b' = queued S b @ [x]"
    using slot_list_snoc [OF len(3) x] s(1,9) len(3) x by (simp add: queued_def steady_def)
  moreover have "jitter_inv S Q T n b'"
    unfolding jitter_inv_def using b' r' len(1) s(4) x le
    by (intro conjI exI [of _ "s @ x"]) simp_all
  ultimately show ?thesis using b'(1) by (simp add: jitter_put_def)
qed

lemma track_level_steady:
  assumes "steady S Q T b" and "0 \<le> available b" and "available b \<le> int (Q * S)"
  shows "0 \<le> mLevelCur (track_level b)" and "mLevelCur (track_level b) \<le> of_nat (Q * S)"
proof -
  have L: "\<bar>int (Q * S)\<bar> \<le> 9007199254740992" "mLevelCur b \<le> of_int (int (Q * S))" "0 \<le> mLevelDownRate b"
    using assms(1) by (simp_all add: steady_def del: of_nat_mult)
  have "of_int (available b) \<le> (of_int (int (Q * S)) :: rat)" using assms(3) by (simp only: of_int_le_iff)
  moreover have "dbl_sub (mLevelCur b) (mLevelDownRate b) \<le> of_int (int (Q * S))"
    unfolding dbl_sub_def using L(2,3) by (intro dbl_round_int_bounds [OF L(1)]) linarith
  moreover have "(0 :: rat) \<le> of_int (available b)" using assms(2) by simp
  ultimately show "0 \<le> mLevelCur (track_level b)" and "mLevelCur (track_level b) \<le> of_nat (Q * S)"
    by (auto simp: track_level_def le_max_iff_disj simp del: of_nat_mult)
qed

lemma jitter_get_item:
  assumes inv: "jitter_inv S Q T n b" and items: "queued S b = x # q"
  shows "\<exists>b'. jitter_get b = Some (x, b') \<and> jitter_inv S Q T n b' \<and> queued S b' = q"
proof -
  let ?r = "unat (mReadPosition b)"
  obtain s k where s: "steady S Q T b" "active_slots S b" "holds T s b" "length s + n * S < 2147483648"
    "?r \<le> length s" "length s - ?r = k * S" "k \<le> Q" "content b = drop ?r s" "queued S b = slot_list S k (drop ?r s)"
    by (rule jitter_inv_fill [OF inv])
  obtain m where m: "k = Suc m" using s(9) items by (cases k) (auto simp: slot_list_def)
  have xq: "x = take S (drop ?r s)" "q = slot_list S m (drop (S + ?r) s)"
    using s(9) items by (simp_all add: m slot_list_Cons)
  have le: "k * S \<le> Q * S" using s(7) by simp
  have g: "0 < S" "S \<le> T" "Q * S \<le> T" "mSlotSize b = int S" "mAutoQueue b = 0" "S + S < 2147483648"
    using steady_bounds [OF s(1)] s(1) by (simp_all add: steady_def)
  have lt: "length s < 2147483648" and cov: "length s \<le> ?r + T" using s(4,6) le g(3) by linarith+
  have rng: "int32_range (int (length s) - int ?r)" "int32_range (mInSlotSize b + int S)"
    using int32_range_of_nat [of "length s - ?r"] int32_range_of_nat [of "S + S"] lt s(2,5) g(6)
    by (simp_all add: active_slots_def)
  have w: "window s ?r S = x" using s(6) m xq(1) by (simp add: window_def)
  obtain b' where b': "readSlotNonBlocking b = Some (x, None, b')" "holds T s b'"
    "mReadPosition b' = mReadPosition b + of_int (int S)" "mActive b'" "same_setup b' b"
    "mInSlotSize b' = mInSlotSize b" "mLevelCur b' = mLevelCur (track_level b)"
    using read_window [OF s(3) _ g(5,4,2) rng(2,1) cov] s(2) w by (auto simp: active_slots_def)
  have av: "available b = int (k * S)" using available_fill [OF s(3) lt s(5)] s(6) by simp
  have st: "steady S Q T b'" "active_slots S b'"
    using s(1,2) b'(4-7) track_level_steady [OF s(1)] av le
    by (simp_all add: steady_def active_slots_def same_setup_def del: of_nat_mult)
  have r': "unat (mReadPosition b') = ?r + S" and rest: "length s - (?r + S) = m * S" "?r + S \<le> length s"
    using unat_advance [of "mReadPosition b" S] lt s(5,6) m g(6) b'(3) by auto
  have "m * S \<le> k * S" using m by simp
  then have T: "m * S \<le> T" "m * S \<le> Q * S" using le g(3) by linarith+
  have "content b' = drop (?r + S) s"
    using content_stream [OF b'(2) lt] r' rest T(1) by simp
  then have "queued S b' = q"
    using rest g(1) xq(2) by (simp add: queued_def add.commute)
  moreover have "jitter_inv S Q T n b'"
    unfolding jitter_inv_def using st b'(2) r' rest T s(4) by (intro conjI exI [of _ s]) simp_all
  ultimately show ?thesis using b'(1) by (simp add: jitter_get_def)
qed

interpretation jitter_fifo: metered_fifo "jitter_inv S Q T" "\<lambda>x. length x = S" Q "queued S" jitter_put jitter_get
  for S Q T
  by unfold_locales (rule jitter_put_room jitter_get_item; simp)+

section \<open>Construction\<close>

lemma RingBuffer_new_empty:
  "\<exists>b. RingBuffer_new 0 0 r u = Some b \<and> mReadPosition b = 0"
  by (simp add: RingBuffer_new_def cxx_div_def int32_range_def)

lemma checked_int_nat: "n < 2147483648 \<Longrightarrow> checked_int (int n) = Some (int n)"
  by (simp add: int32_range_of_nat)

lemma level_rate_ok:
  assumes "0 < sr" and "sr < 2147483648"
  shows "\<exists>q. dbl_div (of_int (min 256 (int buf))) (dbl_mul 5 (of_int (int sr))) = Some q \<and> 0 \<le> q"
proof -
  have "of_int 1 \<le> dbl_mul 5 (of_int (int sr))"
    unfolding dbl_mul_def by (rule dbl_round_int_bounds) (use assms(1) in simp_all)
  then have p: "0 < dbl_mul 5 (of_int (int sr))" by simp
  then have "0 \<le> dbl_round (of_int (min 256 (int buf)) / dbl_mul 5 (of_int (int sr)))"
    using dbl_round_int_bounds(1) [of 0 "of_int (min 256 (int buf)) / dbl_mul 5 (of_int (int sr))"] by simp
  then show ?thesis using p by (simp add: dbl_div_def)
qed

lemma JitterBuffer_new_steady:
  assumes pos: "0 < buf" "0 < sr" "0 < ch" "0 < bits" and Q: "2 \<le> Q"
    and S: "S = buf * ch * bits" and T: "T = sr * ch * bits * 2" "T < 2147483648"
    and fit: "Q * S \<le> T" "100 * (Q * S) < 2147483648" "bcast * S < 2147483648"
  shows "\<exists>b. JitterBuffer_new (int buf) (int Q) (int sr) 1 (int bcast) (int ch) (int bits) r u jt = Some b \<and>
    steady S Q T b \<and> holds T (replicate (Q * S) 0) b \<and> mReadPosition b = 0"
proof -
  have S0: "0 < S" using pos S by simp
  have QS: "2 * S \<le> Q * S" using Q by (rule mult_le_mono1)
  have le: "buf * ch \<le> S" "ch * bits \<le> S" "sr * ch \<le> T" "sr * ch * bits \<le> T" "sr \<le> T"
    using pos by (simp_all add: S T mult.assoc)
  have lt: "sr * ch < 2147483648" "sr * ch * bits < 2147483648" "buf * ch < 2147483648" "S < 2147483648"
    "2 * S < 2147483648" "Q * S < 2147483648" "ch * bits < 2147483648" "100 * (Q * S) < 2147483648"
    "sr < 2147483648" "10 * S < 2147483648"
    using le T(2) fit QS by linarith+
  note ck = lt(1-8) [THEN checked_int_nat] T(2) [THEN checked_int_nat] fit(3) [THEN checked_int_nat]
  have c2: "checked_int (int (sr * ch * bits) * 2) = Some (int T)" "checked_int (2 * int S) = Some (2 * int S)"
    using checked_int_nat [OF T(2)] ck(5) by (simp_all add: T)
  have c100: "checked_int (100 * int (Q * S)) = Some (100 * int (Q * S))" using ck(8) by simp
  have tols: "strategy_tolerances 1 (int S) (int (Q * S)) =
      Some (of_int (-10 * int S), of_int (100 * int (Q * S)), of_int (100 * int (Q * S)), int S)"
    using c100 lt(10) cxx_div_pos [of "int (Q * S)" 2]
    by (simp add: strategy_tolerances_def int32_range_def del: of_nat_mult) 
  have lat: "initial_latency (int Q) (int S) = Some (int (Q * S), 0)"
    using ck(6) Q by (simp add: initial_latency_def)
  obtain base where base: "RingBuffer_new 0 0 r u = Some base" "mReadPosition base = 0"
    using RingBuffer_new_empty by blast
  obtain q where q: "dbl_div (of_int (min 256 (int buf))) (dbl_mul 5 (of_int (int sr))) = Some q" "0 \<le> q"
    using level_rate_ok [OF pos(2) lt(9)] by blast
  have q2: "0 \<le> dbl_mul q (of_int (int S))"
    unfolding dbl_mul_def using q(2) dbl_round_int_bounds(1) [of 0 "q * of_int (int S)"] by simp
  have e: "dbl_div 1 500 = Some (dbl_round (1 / 500))" by (simp add: dbl_div_def)
  obtain b where b: "JitterBuffer_new (int buf) (int Q) (int sr) 1 (int bcast) (int ch) (int bits) r u jt = Some b"
    "mSlotSize b = int S" "mTotalSize b = int T" "mWritePosition b = of_int (int (Q * S))"
    "mReadPosition b = 0" "mLevelDownRate b = dbl_mul q (of_int (int S))" "mLevelCur b = of_int (int (Q * S))"
    "mRingBuffer b = replicate T 0" "mMaxLatency b = int (Q * S)" "mAutoQueue b = 0"
    "mCorrIncTolerance b = of_int (100 * int (Q * S))" "mOverflowDropStep b = int S"
    using ck c2 lat tols base q(1) e S T
    unfolding JitterBuffer_new_def
    by (auto simp: RingBuffer.RingBuffer.defs JitterBuffer.JitterBuffer.defs simp flip: of_nat_mult)
  have w: "unat (of_int (int (Q * S)) :: u32) = Q * S"
    using lt(6) by (intro unat_of_int_u32 [of "int (Q * S)", simplified nat_int]) (simp_all del: of_nat_mult)
  have T0: "0 < T" using S0 fit(1) QS by linarith
  have "steady S Q T b"
    using b S0 Q fit(1,2) q2 by (simp add: steady_def)
  moreover have "holds T (replicate (Q * S) 0) b"
    using b(3,4,8) T0 w T(2) by (simp add: holds_def memory_ok_def del: of_nat_mult)
  ultimately show ?thesis using b(1,5) by blast
qed

lemma half_frames:
  fixes k m :: int
  assumes "2 \<le> m"
  shows "m dvd k * m div 2 \<longleftrightarrow> even k"
proof
  assume "even k"
  then show "m dvd k * m div 2" by (auto elim!: evenE)
next
  assume d: "m dvd k * m div 2"
  show "even k"
  proof (rule ccontr)
    assume "odd k"
    then obtain j where "k = 2 * j + 1" by (rule oddE)
    then have "k * m div 2 = j * m + m div 2" by (simp add: algebra_simps)
    then have "m dvd m div 2" using d dvd_add_right_iff [of m "j * m" "m div 2"] by simp
    moreover have "0 < m div 2" "m div 2 < m" using assms by (simp_all add: int_div_less_self)
    ultimately show False using zdvd_imp_le [of m "m div 2"] by simp
  qed
qed

lemma JitterBuffer_new_drop_step:
  assumes "JitterBuffer_new buf qlen sr strategy bcast ch bits r u jt = Some b"
    and "strategy \<noteq> 1" and "strategy \<noteq> 2" and "0 < qlen" and "0 < buf" and "0 < ch" and "0 < bits"
  shows "mMinStepSize b = ch * bits" and "mOverflowDropStep b = (qlen * buf) * (ch * bits) div 2"
proof -
  have pos: "0 \<le> qlen * (buf * ch * bits)" using assms(4-7) by simp
  obtain u c where st: "strategy_tolerances strategy (buf * ch * bits) (qlen * (buf * ch * bits)) =
      Some (u, c, c, qlen * (buf * ch * bits) div 2) \<or>
      strategy_tolerances strategy (buf * ch * bits) (qlen * (buf * ch * bits)) = None"
    using assms(2,3) cxx_div_pos [OF pos, of 2]
    by (cases "int32_range (-10 * (buf * ch * bits)) \<and> int32_range (100 * (qlen * (buf * ch * bits)))")
      (auto simp: strategy_tolerances_def checked_int_def)
  have "mMinStepSize b = ch * bits \<and> mOverflowDropStep b = qlen * (buf * ch * bits) div 2"
    using assms(1,4) st unfolding JitterBuffer_new_def initial_latency_def
    by (auto simp only: if_True bind_eq_Some_conv checked_int_eq_Some split_conv prod.case
        RingBuffer.RingBuffer.defs JitterBuffer.JitterBuffer.defs JitterBuffer.select_convs option.inject option.distinct prod.inject)
  then show "mMinStepSize b = ch * bits" and "mOverflowDropStep b = (qlen * buf) * (ch * bits) div 2"
    by (simp_all add: mult.assoc)
qed

text \<open>From the constructor and the first slot to the steady state.\<close>

lemma jitter_start:
  assumes "0 < buf" and "0 < sr" and "0 < ch" and "0 < bits" and "2 \<le> Q"
    and "S = buf * ch * bits" and "T = sr * ch * bits * 2" and "T < 2147483648"
    and "Q * S \<le> T" and "100 * (Q * S) < 2147483648" and "bcast * S < 2147483648"
    and "length x0 = S" and "(Q + 1 + n) * S < 2147483648" and "len = 0 \<or> len = int S"
  shows "\<exists>b0 b1. JitterBuffer_new (int buf) (int Q) (int sr) 1 (int bcast) (int ch) (int bits) r u jt = Some b0 \<and>
    insertSlotNonBlocking x0 len 0 seq b0 = Some (True, b1) \<and> jitter_inv S Q T n b1 \<and>
    queued S b1 = replicate (Q - 1) (replicate S 0) @ [x0]"
proof -
  obtain b0 where b0: "JitterBuffer_new (int buf) (int Q) (int sr) 1 (int bcast) (int ch) (int bits) r u jt = Some b0"
    "steady S Q T b0" "holds T (replicate (Q * S) 0) b0" "mReadPosition b0 = 0"
    using JitterBuffer_new_steady [OF assms(1-11), of r u jt] by blast
  have S: "0 < S" "Q * S + S < 2147483648" using assms(13) steady_bounds [OF b0(2)] by (simp_all add: algebra_simps)
  obtain b1 where b1: "insertSlotNonBlocking x0 len 0 seq b0 = Some (True, b1)" "steady S Q T b1" "active_slots S b1"
    "holds T (replicate (Q * S) 0 @ x0) b1" "unat (mReadPosition b1) = S"
    using insert_slot [OF b0(2,3), of x0 len seq] b0(4) S assms(12,14) by auto
  have inv: "jitter_inv S Q T n b1"
    unfolding jitter_inv_def
    using b1 S assms(12,13) by (intro conjI exI [of _ "replicate (Q * S) 0 @ x0"]) (simp_all add: algebra_simps)
  have Q: "1 \<le> Q" "Suc (Q - Suc 0) = Q" using assms(5) by simp_all
  then have split: "Q * S - S = (Q - 1) * S" by (simp add: diff_mult_distrib)
  have "drop S (replicate (Q * S) 0 @ x0) = replicate ((Q - 1) * S) 0 @ x0"
    using split assms(5) by simp
  moreover have "length (replicate (Q * S) (0 :: u8) @ x0) - S = Q * S" using assms(12) by simp
  ultimately have q1: "queued S b1 = slot_list S Q (replicate ((Q - 1) * S) 0 @ x0)"
    using content_stream [OF b1(4)] b1(5) S assms(9,12) split Q(2) by (simp add: queued_def)
  have q2: "slot_list S Q (replicate ((Q - 1) * S) 0 @ x0) = replicate (Q - 1) (replicate S 0) @ [x0]"
  proof -
    have "Suc (Q - 1) = Q" using assms(5) by simp
    then show ?thesis
      using slot_list_snoc [of "replicate ((Q - 1) * S) 0" "Q - 1" S x0] slot_list_zeros [of S "Q - 1"] assms(12) by simp
  qed
  show ?thesis using b0(1) b1(1) inv q1 q2 by auto
qed

section \<open>Properties\<close>

text \<open>
  C10: First in, first out under the default strategy.  Let a jitter buffer of \<open>Q \<ge> 2\<close> slots be
  constructed, with at most two seconds of latency, and let a first slot arrive: it replaces the oldest
  of the \<open>Q\<close> slots of silence.  From then on every sequence of insertions and reads that never
  exceeds \<open>Q\<close> slots nor runs empty succeeds and returns the silence, the first slot and then
  the inserted slots, each once and in order, until 2^31 bytes have passed.
\<close>

theorem jitter_buffer_order:
  assumes "0 < buf" and "0 < sr" and "0 < ch" and "0 < bits" and "2 \<le> Q"
    and "S = buf * ch * bits" and "T = sr * ch * bits * 2" and "T < 2147483648"
    and "Q * S \<le> T" and "100 * (Q * S) < 2147483648" and "bcast * S < 2147483648"
    and "length x0 = S" and "list_all (\<lambda>x. length x = S) (puts ops)"
    and "(Q + 1 + length (puts ops)) * S < 2147483648"
    and "run_ops (list_put Q) list_get ops (replicate (Q - 1) (replicate S 0) @ [x0]) = Some (out, q)"
  shows "\<exists>b0 b1 b2. JitterBuffer_new (int buf) (int Q) (int sr) 1 (int bcast) (int ch) (int bits) r u jt = Some b0 \<and>
    insertSlotNonBlocking x0 0 0 0 b0 = Some (True, b1) \<and>
    run_ops jitter_put jitter_get ops b1 = Some (out, b2) \<and>
    out @ queued S b2 = replicate (Q - 1) (replicate S 0) @ x0 # puts ops"
proof -
  obtain b0 b1 where b: "JitterBuffer_new (int buf) (int Q) (int sr) 1 (int bcast) (int ch) (int bits) r u jt = Some b0"
    "insertSlotNonBlocking x0 0 0 0 b0 = Some (True, b1)" "jitter_inv S Q T (0 + length (puts ops)) b1"
    "queued S b1 = replicate (Q - 1) (replicate S 0) @ [x0]"
    using jitter_start [OF assms(1-12,14), of 0 r u jt 0] by auto
  have "run_ops (list_put Q) list_get ops (queued S b1) = Some (out, q)" using assms(15) b(4) by simp
  from jitter_fifo.run_order [OF b(3) assms(13) this] show ?thesis using b(1,2,4) by auto
qed

theorem jitter_buffer_order_witness:
  "\<exists>b0 b1 b2. JitterBuffer_new 2 2 16 1 0 1 2 0 0 Indeterminate = Some b0 \<and>
    insertSlotNonBlocking [1, 2, 3, 4] 0 0 0 b0 = Some (True, b1) \<and>
    run_ops jitter_put jitter_get [Get, Put [5, 6, 7, 8], Get, Get] b1 =
      Some ([[0, 0, 0, 0], [1, 2, 3, 4], [5, 6, 7, 8]], b2)"
proof -
  have len: "S = 4 \<Longrightarrow> list_all (\<lambda>x. length x = S) (puts [Get, Put [5, 6, 7, 8 :: u8], Get, Get])"
    "S = 4 \<Longrightarrow> run_ops (list_put 2) list_get [Get, Put [5, 6, 7, 8 :: u8], Get, Get] (replicate (2 - 1) (replicate S 0) @ [[1, 2, 3, 4]]) =
      Some ([[0, 0, 0, 0], [1, 2, 3, 4], [5, 6, 7, 8]], [])" for S
    by (simp_all add: list_put_def numeral_eq_Suc)
  show ?thesis
    using jitter_buffer_order [of 2 16 1 2 2 4 64 0 "[1, 2, 3, 4]" "[Get, Put [5, 6, 7, 8], Get, Get]",
        OF _ _ _ _ _ _ _ _ _ _ _ _ len(1) _ len(2), of 0 0 Indeterminate] by auto
qed

text \<open>
  A read returns the bytes at the read position.  When the memory holds the last \<open>T\<close> bytes of
  the stream \<open>s\<close> and the read position is not older than that, an active buffer with a fixed queue
  length returns the slot of the stream at the read position, with zeros for what has not
  arrived; the stream stays as it is and the read position advances by the slot in any case, so what
  arrives too late is never played.
\<close>

lemma jitter_read_window:
  assumes "holds T s b" and "mActive b" and "mAutoQueue b = 0" and "mSlotSize b = int S" and "S \<le> T"
    and "int32_range (mInSlotSize b + int S)" and "int32_range (int (length s) - int (unat (mReadPosition b)))"
    and "length s \<le> unat (mReadPosition b) + T"
  shows "\<exists>b'. readSlotNonBlocking b = Some
      (take S (drop (unat (mReadPosition b)) s) @ replicate (S - (length s - unat (mReadPosition b))) 0, None, b') \<and>
    holds T s b' \<and> mReadPosition b' = mReadPosition b + of_int (int S)"
  using read_window [OF assms] by (auto simp: window_def)

lemma jitter_read_window_witness:
  "\<exists>b b'. JitterBuffer_new 2 2 16 1 0 1 2 0 0 Nullptr = Some b \<and>
    readSlotNonBlocking (b\<lparr>mActive := True, mReadPosition := 6\<rparr>) = Some ([0, 0, 0, 0], None, b') \<and>
    holds 64 (replicate 8 0) b' \<and> mReadPosition b' = 10"
proof -
  obtain b where b: "JitterBuffer_new 2 2 16 1 0 1 2 0 0 Nullptr = Some b" "steady 4 2 64 b"
    "holds 64 (replicate 8 0) b"
    using JitterBuffer_new_steady [of 2 16 1 2 2 4 64 0 0 0 Nullptr] by auto
  have i: "mInSlotSize b = 4"
  proof -
    have "map_option mInSlotSize (JitterBuffer_new 2 2 16 1 0 1 2 0 0 Nullptr) = Some 4" by code_simp
    then show ?thesis using b(1) by simp
  qed
  let ?b = "b\<lparr>mActive := True, mReadPosition := 6\<rparr>"
  have "holds 64 (replicate 8 0) ?b" using b(3) by (simp add: holds_def memory_ok_def)
  then have "\<exists>b'. readSlotNonBlocking ?b = Some (take 4 (drop (unat (mReadPosition ?b)) (replicate 8 0)) @
      replicate (4 - (length (replicate 8 (0 :: u8)) - unat (mReadPosition ?b))) 0, None, b') \<and>
      holds 64 (replicate 8 0) b' \<and> mReadPosition b' = mReadPosition ?b + of_int (int 4)"
    by (rule jitter_read_window) (use b(2) i in \<open>simp_all add: steady_def int32_range_def\<close>)
  moreover have "take 4 (drop 6 (replicate 8 0)) @ replicate (4 - (8 - 6)) 0 = [0, 0, 0, 0 :: u8]"
    by (simp add: numeral_eq_Suc)
  ultimately show ?thesis using b(1) by simp
qed

text \<open>
  C20: An insertion extends the stream.  Whatever it does to the read position, and under every
  strategy, a successful insertion of \<open>n\<close> bytes after a loss of \<open>lostLen\<close> bytes appends at most
  \<open>lostLen\<close> zeros and then exactly the \<open>n\<close> bytes, also where the write wraps around the end of the
  memory; the last \<open>T\<close> bytes of the stream are in the memory afterwards.
\<close>

theorem jitter_insert_stream:
  assumes "holds T s b" and "0 \<le> mSlotSize b" and "len = int n \<or> len = 0 \<and> mSlotSize b = int n"
    and "0 < n" and "n \<le> length ptr" and "length s + nat lostLen + n < 4294967296"
    and "insertSlotNonBlocking ptr len lostLen seq b = Some (True, b')"
  shows "\<exists>z\<le>nat lostLen. holds T (s @ replicate z 0 @ take n ptr) b'"
  using assms by (rule insert_stream)

theorem jitter_insert_stream_witness:
  "\<exists>b b' z. JitterBuffer_new 2 2 16 1 0 1 2 0 0 Nullptr = Some b \<and>
    insertSlotNonBlocking [1, 2, 3, 4] 0 4 0 b = Some (True, b') \<and>
    z \<le> 4 \<and> holds 64 (replicate 8 0 @ replicate z 0 @ [1, 2, 3, 4]) b'"
proof -
  obtain b where b: "JitterBuffer_new 2 2 16 1 0 1 2 0 0 Nullptr = Some b" "steady 4 2 64 b"
    "holds 64 (replicate 8 0) b"
    using JitterBuffer_new_steady [of 2 16 1 2 2 4 64 0 0 0 Nullptr] by auto
  have "map_option fst (Option.bind (JitterBuffer_new 2 2 16 1 0 1 2 0 0 Nullptr)
      (insertSlotNonBlocking [1, 2, 3, 4] 0 4 0)) = Some True" by code_simp
  then obtain b' where b': "insertSlotNonBlocking [1, 2, 3, 4] 0 4 0 b = Some (True, b')" using b(1) by auto
  have S: "mSlotSize b = 4" using b(2) by (simp add: steady_def)
  have "\<exists>z\<le>nat 4. holds 64 (replicate 8 0 @ replicate z 0 @ take 4 [1, 2, 3, 4]) b'"
    by (rule jitter_insert_stream [OF b(3) _ _ _ _ _ b']) (simp_all add: S)
  then obtain z where "z \<le> 4" "holds 64 (replicate 8 0 @ replicate z 0 @ [1, 2, 3, 4]) b'" by auto
  then show ?thesis using b(1) b' by blast
qed

text \<open>
  Strategy 0 drops half of the latency when it overflows.  This is a whole number of frames
  exactly when the number of frames in the queue is even; otherwise the bytes read after the first
  overflow no longer start at a frame.
\<close>

lemma jitter_drop_step_frames:
  assumes "JitterBuffer_new buf qlen sr 0 bcast ch bits r u jt = Some b"
    and "0 < qlen" and "0 < buf" and "0 < ch" and "0 < bits" and "2 \<le> ch * bits"
  shows "mMinStepSize b dvd mOverflowDropStep b \<longleftrightarrow> even (qlen * buf)"
  using JitterBuffer_new_drop_step [OF assms(1) _ _ assms(2-5)] half_frames [OF assms(6)] by simp

lemma jitter_drop_step_frames_witness:
  "\<exists>b. JitterBuffer_new 441 3 44100 0 0 1 2 0 0 Nullptr = Some b \<and> \<not> mMinStepSize b dvd mOverflowDropStep b"
proof -
  have "map_option mFPP (JitterBuffer_new 441 3 44100 0 0 1 2 0 0 Nullptr) = Some 441"
    using level_rate_ok [of 44100 441] 
    by (auto simp: JitterBuffer_new_def RingBuffer_new_def strategy_tolerances_def initial_latency_def
        int32_range_def cxx_div_def dbl_div_def [of 1] RingBuffer.RingBuffer.defs JitterBuffer.JitterBuffer.defs)
  then obtain b where "JitterBuffer_new 441 3 44100 0 0 1 2 0 0 Nullptr = Some b" by auto
  with jitter_drop_step_frames [OF this] show ?thesis by simp
qed

end
