(* ===== verification/AudioPath.thy ===== *)
theory AudioPath
  imports UdpSpec JitterSpec
begin

text \<open>
  The mediator functions of \<open>JackTrip\<close> (\<open>src/JackTrip.h\<close>) between the audio callback, the ring
  buffers and the network threads, with the jitter buffer as the receive buffer, and the path of
  the audio from the datagrams to the audio callback.
\<close>

section \<open>Mediator functions\<close>

text \<open>What becomes of a slot of the audio callback: sent directly, or queued for the sender.\<close>

datatype sent = Sent_direct bytes int | Queued RingBuffer

definition sendNetworkPacket :: "bool \<Rightarrow> JackTrip \<Rightarrow> bytes \<Rightarrow> RingBuffer \<Rightarrow> sent option" where
  "sendNetworkPacket mDirectSendCallback jt ptrToSlot mSendRingBuffer =
     (if mDirectSendCallback
      then do { n \<leftarrow> getTotalAudioInputPacketSizeInBytes jt; Some (Sent_direct ptrToSlot n) }
      else do {
        (ok, b) \<leftarrow> RingBuffer.insertSlotNonBlocking ptrToSlot 0 0 0 mSendRingBuffer;
        Some (Queued b)
      })"

definition receiveBroadcastPacket :: "bytes \<Rightarrow> JitterBuffer \<Rightarrow> (bytes \<times> JitterBuffer) option" where
  "receiveBroadcastPacket ptrToReadSlot mReceiveRingBuffer =
     JitterBuffer.readBroadcastSlot ptrToReadSlot mReceiveRingBuffer"

definition receiveNetworkPacket :: "JitterBuffer \<Rightarrow> (bytes \<times> int option \<times> JitterBuffer) option" where
  "receiveNetworkPacket mReceiveRingBuffer = JitterBuffer.readSlotNonBlocking mReceiveRingBuffer"

definition writeAudioBuffer :: "JitterBuffer \<Rightarrow> bytes \<Rightarrow> int \<Rightarrow> int \<Rightarrow> int \<Rightarrow> (bool \<times> JitterBuffer) option" where
  "writeAudioBuffer mReceiveRingBuffer ptrToSlot len lostLen seq =
     JitterBuffer.insertSlotNonBlocking ptrToSlot len lostLen seq mReceiveRingBuffer"

section \<open>Calls of the receiver on the jitter buffer\<close>

definition accept_call :: "bytes \<times> int \<times> int \<times> int \<Rightarrow> JitterBuffer \<Rightarrow> JitterBuffer option" where
  "accept_call c b = (case c of (slot, len, gap, seq) \<Rightarrow>
     (case writeAudioBuffer b slot len gap seq of Some (True, b') \<Rightarrow> Some b' | _ \<Rightarrow> None))"

definition fetch_slot :: "JitterBuffer \<Rightarrow> (bytes \<times> JitterBuffer) option" where
  "fetch_slot b = (case receiveNetworkPacket b of Some (slot, None, b') \<Rightarrow> Some (slot, b') | _ \<Rightarrow> None)"

lemma fetch_slot_get: "fetch_slot = jitter_get"
  by (rule ext) (simp add: fetch_slot_def receiveNetworkPacket_def jitter_get_def)

lemma accept_call_put:
  assumes "jitter_inv S Q T n b"
  shows "accept_call (x, int S, 0, seq) b = jitter_put x b"
proof -
  have "mSlotSize b = int S" using assms by (simp add: jitter_inv_def steady_def)
  then have "JitterBuffer.insertSlotNonBlocking x (int S) 0 seq b = JitterBuffer.insertSlotNonBlocking x 0 0 0 b"
    using insert_normal_len [of x b seq] by simp
  then show ?thesis by (simp add: accept_call_def writeAudioBuffer_def jitter_put_def)
qed

text \<open>
  Once the first call has been accepted, calls with the slots of the stream, interleaved with the
  reads of the audio callback, return the slots in order.
\<close>

lemma calls_order:
  assumes geo: "0 < buf" "0 < sr" "0 < ch" "0 < bits" "2 \<le> Q" "S = buf * ch * bits"
      "T = sr * ch * bits * 2" "T < 2147483648" "Q * S \<le> T" "100 * (Q * S) < 2147483648" "bcast * S < 2147483648"
    and calls: "\<And>i. i < m \<Longrightarrow> \<exists>seq. cs ! i = (slot i, int S, 0, seq)" and len: "\<And>i. i < m \<Longrightarrow> length (slot i) = S"
    and m: "0 < m" "(Q + m) * S < 2147483648" and ops: "puts ops = [1..<m]"
    and run: "run_ops (list_put Q) list_get (map (map_fifo_op slot) ops) (replicate (Q - 1) (replicate S 0) @ [slot 0]) =
      Some (out, q)"
  shows "\<exists>b0 b1 b2. JitterBuffer_new (int buf) (int Q) (int sr) 1 (int bcast) (int ch) (int bits) r u jt = Some b0 \<and>
    accept_call (cs ! 0) b0 = Some b1 \<and> run_ops (\<lambda>i. accept_call (cs ! i)) fetch_slot ops b1 = Some (out, b2) \<and>
    out @ queued S b2 = replicate (Q - 1) (replicate S 0) @ map slot [0..<m]"
proof -
  obtain seq where c0: "cs ! 0 = (slot 0, int S, 0, seq)" using calls m(1) by blast
  obtain b0 b1 where b: "JitterBuffer_new (int buf) (int Q) (int sr) 1 (int bcast) (int ch) (int bits) r u jt = Some b0"
    "JitterBuffer.insertSlotNonBlocking (slot 0) (int S) 0 seq b0 = Some (True, b1)" "jitter_inv S Q T (m - 1) b1"
    "queued S b1 = replicate (Q - 1) (replicate S 0) @ [slot 0]"
    using jitter_start [OF geo len [OF m(1)], of "m - 1" "int S" r u jt seq] m by auto
  have inv: "jitter_inv S Q T (0 + length (puts ops)) b1" using b(3) ops by simp
  have ok: "list_all (\<lambda>i. length (slot i) = S \<and> i < m) (puts ops)" using len ops by (simp add: list_all_iff)
  have put: "accept_call (cs ! i) s = jitter_put (slot i) s" if "jitter_inv S Q T k s" "i < m" for i k s
    using calls [OF that(2)] accept_call_put [OF that(1)] by auto
  obtain b2 where b2: "run_ops (\<lambda>i. accept_call (cs ! i)) jitter_get ops b1 = Some (out, b2)" "queued S b2 = q"
    using jitter_fifo.calls_simulate_list [where f = slot and P = "\<lambda>i. i < m" and call = "\<lambda>i. accept_call (cs ! i)",
        OF inv ok _ run [folded b(4)]] put by blast
  have "out @ q = replicate (Q - 1) (replicate S 0) @ map slot (0 # [1..<m])"
    using list_run_order [OF run] ops by (simp add: puts_map)
  moreover have "map slot (0 # [1..<m]) = map slot [0..<m]" using m(1) by (simp add: upt_rec [of 0 m])
  moreover have "accept_call (cs ! 0) b0 = Some b1"
    using b(2) by (simp add: c0 accept_call_def writeAudioBuffer_def)
  ultimately show ?thesis using b(1) b2 by (auto simp: fetch_slot_get)
qed

end
