(* ===== verification/RegulatorStats.thy ===== *)
theory RegulatorStats
  imports FloatRound
begin

text \<open>
  The timing statistics of the packet loss concealment (\<open>StdDev\<close> of \<open>src/Regulator.h\<close> and
  \<open>src/Regulator.cpp\<close>): windows of intervals, their mean and deviation, and the long-term values from
  which the tolerance is computed.  Clock readings, in nanoseconds, are arguments.  A division by
  zero is \<^const>\<open>None\<close>.
\<close>

section \<open>The square root of a \<open>double\<close>\<close>

function isqrt :: "nat \<Rightarrow> nat" where
  "isqrt n = (if n = 0 then 0
     else let r = 2 * isqrt (n div 4) in if (r + 1) * (r + 1) \<le> n then r + 1 else r)"
  by pat_completeness auto
termination by (relation "measure id") auto

declare isqrt.simps [simp del]

text \<open>The root of 53 bits nearest to the exact one; a tie would need an argument of more than 53 bits.\<close>

definition dbl_sqrt :: "dbl \<Rightarrow> dbl" where
  "dbl_sqrt x =
     (if x \<le> 0 then 0
      else let e = ilog2 x div 2 - 52;
               y = x / 2 powi (2 * e);
               r = isqrt (nat \<lfloor>y\<rfloor>)
           in (if (of_nat r + 1/2) ^ 2 < y then of_nat r + 1 else of_nat r) * 2 powi e)"

section \<open>State\<close>

record StdDev =
  plcOverruns :: int
  plcUnderruns :: int
  lastTime :: dbl
  lastMean :: dbl
  lastMin :: dbl
  lastMax :: dbl
  lastStdDev :: dbl
  longTermStdDev :: dbl
  longTermStdDevAcc :: dbl
  longTermMax :: dbl
  longTermMaxAcc :: dbl
  longTermCnt :: int
  stat_data :: "dbl list"
  stat_mean :: dbl
  stat_window :: int
  stat_acc :: dbl
  stat_min :: dbl
  stat_max :: dbl
  stat_ctr :: nat

definition WindowDivisor :: int where "WindowDivisor = 8"
definition AutoHistoryWindow :: int where "AutoHistoryWindow = 60"
definition AutoMax :: dbl where "AutoMax = 250"
definition gUdpWaitTimeoutMs :: dbl where "gUdpWaitTimeoutMs = 512"

definition AutoSmoothingFactor :: dbl where
  "AutoSmoothingFactor = dbl_round (1 / of_int (WindowDivisor * AutoHistoryWindow))"

definition stat_reset :: "StdDev \<Rightarrow> StdDev" where
  "stat_reset d = d\<lparr>stat_ctr := 0, stat_mean := 0, stat_acc := 0, stat_min := 999999, stat_max := - 999999\<rparr>"

text \<open>The constructor leaves \<open>lastStdDev\<close> as it is.\<close>

definition StdDev_new :: "dbl \<Rightarrow> int \<Rightarrow> StdDev option" where
  "StdDev_new garbage w = do {
     n \<leftarrow> byte_count w;
     window \<leftarrow> cxx_div w WindowDivisor;
     Some \<lparr>plcOverruns = 0, plcUnderruns = 0, lastTime = 0, lastMean = 0, lastMin = 0, lastMax = 0,
       lastStdDev = garbage, longTermStdDev = 0, longTermStdDevAcc = 0, longTermMax = 0, longTermMaxAcc = 0,
       longTermCnt = 0, stat_data = replicate n 0, stat_mean = 0, stat_window = window, stat_acc = 0,
       stat_min = 999999, stat_max = - 999999, stat_ctr = 0\<rparr>
   }"

section \<open>Operations\<close>

definition calcAuto :: "StdDev \<Rightarrow> dbl" where
  "calcAuto d =
     (if longTermStdDev d = 0 \<or> longTermMax d = 0 then AutoMax
      else dbl_add (longTermStdDev d) (if AutoMax < longTermMax d then AutoMax else longTermMax d))"

definition smooth :: "dbl \<Rightarrow> dbl \<Rightarrow> dbl" where
  "smooth avg current = dbl_add avg (dbl_mul AutoSmoothingFactor (dbl_sub current avg))"

text \<open>A reading of the timer in milliseconds.\<close>

definition msecs :: "int \<Rightarrow> dbl" where
  "msecs ns = dbl_round (dbl_round (of_int ns) / 1000000)"

definition tick_elapsed :: "dbl \<Rightarrow> dbl \<Rightarrow> int \<Rightarrow> StdDev \<Rightarrow> dbl \<times> StdDev" where
  "tick_elapsed prevTime curTime clock d =
     (let msElapsed = dbl_sub curTime prevTime
      in if 0 < msElapsed then (msElapsed, d\<lparr>lastTime := curTime\<rparr>)
         else (dbl_sub (msecs clock) (lastTime d), d\<lparr>lastTime := msecs clock\<rparr>))"

definition tick_record :: "dbl \<Rightarrow> StdDev \<Rightarrow> StdDev option" where
  "tick_record ms d =
     (if stat_ctr d < length (stat_data d)
      then let fresh = (stat_ctr d = 0);
               start = (fresh \<and> longTermCnt d mod WindowDivisor = 0)
           in Some (d\<lparr>stat_data := (stat_data d)[stat_ctr d := ms], stat_acc := dbl_add (stat_acc d) ms,
             stat_min := (if fresh \<or> ms < stat_min d then ms else stat_min d),
             stat_max := (if fresh \<or> stat_max d < ms then ms else stat_max d),
             lastMin := (if start \<or> ms < lastMin d then ms else lastMin d),
             lastMax := (if start \<or> lastMax d < ms then ms else lastMax d),
             stat_ctr := stat_ctr d + 1\<rparr>)
      else None)"

text \<open>The deviation of a full window.\<close>

definition window_deviation :: "dbl \<Rightarrow> StdDev \<Rightarrow> dbl option" where
  "window_deviation mean d = do {
     let var = foldl (\<lambda>var x. let tmp = dbl_sub x mean in dbl_add var (dbl_mul tmp tmp)) 0
       (take (nat (stat_window d)) (stat_data d));
     var \<leftarrow> dbl_div var (of_int (stat_window d));
     Some (dbl_sqrt var)
   }"

definition long_term :: "dbl \<Rightarrow> StdDev \<Rightarrow> StdDev option" where
  "long_term stdDevTmp d =
     (if longTermCnt d \<le> 3
      then Some (d\<lparr>longTermMax := stat_max d, longTermMaxAcc := stat_max d,
        longTermStdDev := stdDevTmp, longTermStdDevAcc := stdDevTmp\<rparr>)
      else
        let d = d\<lparr>longTermStdDevAcc := dbl_add (longTermStdDevAcc d) stdDevTmp,
              longTermMaxAcc := dbl_add (longTermMaxAcc d) (stat_max d)\<rparr>
        in if longTermCnt d \<le> WindowDivisor * AutoHistoryWindow
           then do {
             s \<leftarrow> dbl_div (longTermStdDevAcc d) (of_int (longTermCnt d - 3));
             x \<leftarrow> dbl_div (longTermMaxAcc d) (of_int (longTermCnt d - 3));
             Some (d\<lparr>longTermStdDev := s, longTermMax := x\<rparr>)
           }
           else Some (d\<lparr>longTermStdDev := smooth (longTermStdDev d) stdDevTmp,
             longTermMax := smooth (longTermMax d) (stat_max d)\<rparr>))"

definition close_window :: "StdDev \<Rightarrow> StdDev option" where
  "close_window d = do {
     mean \<leftarrow> dbl_div (stat_acc d) (of_int (stat_window d));
     stdDevTmp \<leftarrow> window_deviation mean d;
     d \<leftarrow> long_term stdDevTmp (d\<lparr>stat_ctr := 0, stat_mean := mean\<rparr>);
     cnt \<leftarrow> checked_int (longTermCnt d + 1);
     Some (stat_reset (d\<lparr>longTermCnt := cnt, lastMean := mean, lastStdDev := stdDevTmp\<rparr>))
   }"

definition tick :: "dbl \<Rightarrow> dbl \<Rightarrow> int \<Rightarrow> StdDev \<Rightarrow> (bool \<times> StdDev) option" where
  "tick prevTime curTime clock d =
     (let (msElapsed, d) = tick_elapsed prevTime curTime clock d
      in if gUdpWaitTimeoutMs < msElapsed then Some (False, d)
         else do {
           d \<leftarrow> tick_record msElapsed d;
           if int (stat_ctr d) < stat_window d then Some (False, d)
           else do { d \<leftarrow> close_window d; Some (True, d) }
         })"

end
