(* ===== verification/Regulator.thy ===== *)
theory Regulator
  imports Burg RegulatorStats JitterBuffer WaitFree
begin

text \<open>
  \<open>Regulator\<close> (\<open>src/Regulator.h\<close>, \<open>src/Regulator.cpp\<close>), the receive buffer with packet loss
  concealment: the last 4096 packets with their times of arrival, the choice of the packet to
  play, the tolerance and its headroom, the concealment, the adaptation to another packet length, and the
  worker that prepares packets when the concealment is slow.  A pointer that is null is an empty buffer
  or \<^const>\<open>None\<close>, and a call through it has no result.  What a constructor leaves as it is comes from
  a \<open>garbage\<close> argument; readings of the clock are arguments.  The time measurement that is only
  printed (class \<open>Time\<close>) is left out.
\<close>

section \<open>State\<close>

record RegulatorWorker =
  mPacketQueue :: WaitFreeFrameBuffer
  mPacketQueueTarget :: nat
  mLastUnderrun :: dbl
  mSkipQueueUpdate :: bool
  mUnderrun :: bool
  mStarted :: bool
  pull_signals :: nat
  max_queue_signals :: nat

text \<open>A position in \<open>mXfrBuffer\<close> or in \<open>mWorkerBuffer\<close>.\<close>

datatype pull_ptr = InXfr nat | InWorker nat

record Regulator =
  reg_base :: RingBuffer
  mInitialized :: bool
  mNumChannels :: int
  mAudioBitRes :: int
  mLocalFPP :: int
  mPeerFPP :: int
  mSampleRate :: int
  mPacketsInThePast :: int
  mPcnt :: int
  mChanData :: "Channel list"
  ba :: "BurgAlgorithm option"
  mUpToNow :: int
  mBeyondNow :: int
  mFadeUp :: "flt list"
  mFadeDown :: "flt list"
  mBitResolutionMode :: audioBitResolutionT
  mLocalBytes :: int
  mPeerBytes :: int
  mLocalFPPdurMsec :: dbl
  mPeerFPPdurMsec :: dbl
  mXfrBuffer :: bytes
  mXfrPullPtr :: "pull_ptr option"
  mBroadcastBuffer :: bytes
  mBroadcastPullPtr :: "nat option"
  mSlots :: "bytes list"
  pushStat :: "StdDev option"
  pullStat :: "StdDev option"
  mMsecTolerance :: dbl
  mLastSeqNumOut :: int
  mStashedPacket :: int
  mLastSeqNumIn :: int
  mIncomingTiming :: "dbl list"
  mFPPratioNumerator :: int
  mFPPratioDenominator :: int
  mAuto :: bool
  mSkipAutoHeadroom :: bool
  mLastWasGlitch :: bool
  mSkipped :: int
  mLastSkipped :: int
  mLastGlitches :: int
  mStatsGlitches :: int
  mLastMaxLatency :: dbl
  mStatsMaxLatency :: dbl
  mStatsMaxPLCdspElapsed :: dbl
  mCurrentHeadroom :: dbl
  mAutoHeadroomStartTime :: dbl
  mAutoHeadroom :: dbl
  m_b_BroadcastRingBuffer :: "JitterBuffer option"
  m_b_BroadcastQueueLength :: int
  mWorkerBuffer :: bytes
  mRegulatorWorkerPtr :: "RegulatorWorker option"
  mWorkerEnabled :: bool

definition NumSlots :: int where "NumSlots = 4096"
definition HIST :: int where "HIST = 2"
definition HISTFPP :: int where "HISTFPP = 128"
definition AutoInitDur :: dbl where "AutoInitDur = 3000"
definition AutoInitValFactor :: dbl where "AutoInitValFactor = 1/2"
definition AutoHeadroomGlitchTolerance :: dbl where "AutoHeadroomGlitchTolerance = dbl_round (6 / 1000)"
definition kMaxPeerBytes :: int where "kMaxPeerBytes = 4096 * 128 * 4"

section \<open>Construction\<close>

definition mode_bytes :: "Regulator \<Rightarrow> nat" where
  "mode_bytes r = bit_resolution_code (mBitResolutionMode r)"

definition bit_res_mode :: "int \<Rightarrow> audioBitResolutionT \<Rightarrow> audioBitResolutionT" where
  "bit_res_mode n garbage =
     (if n = 1 then BIT8 else if n = 2 then BIT16 else if n = 3 then BIT24 else if n = 4 then BIT32 else garbage)"

definition Regulator_new :: "Regulator \<Rightarrow> int \<Rightarrow> int \<Rightarrow> int \<Rightarrow> int \<Rightarrow> int \<Rightarrow> int \<Rightarrow> Regulator option" where
  "Regulator_new garbage rcvChannels bit_res localFPP qLen bqLen sample_rate = do {
     base \<leftarrow> RingBuffer_new 0 0 (mReadsNew (reg_base garbage)) (mUnderrunsNew (reg_base garbage));
     let mode = bit_res_mode bit_res (mBitResolutionMode garbage);
     dur \<leftarrow> dbl_div (dbl_mul 1000 (of_int localFPP)) (of_int sample_rate);
     samples \<leftarrow> checked_int (localFPP * rcvChannels);
     bytes \<leftarrow> checked_int (samples * int (bit_resolution_code mode));
     Some (garbage\<lparr>reg_base := base, mInitialized := False, mNumChannels := rcvChannels, mAudioBitRes := bit_res,
       mLocalFPP := localFPP, mSampleRate := sample_rate, mChanData := [], ba := None, mFadeUp := [], mFadeDown := [],
       mBitResolutionMode := mode, mLocalBytes := bytes, mLocalFPPdurMsec := dur, mXfrBuffer := [],
       mXfrPullPtr := None, mBroadcastBuffer := [], mBroadcastPullPtr := None, mSlots := [], pushStat := None,
       pullStat := None, mMsecTolerance := of_int qLen, mLastSeqNumOut := - 1, mStashedPacket := - 1,
       mIncomingTiming := replicate (nat NumSlots) 0, mAuto := False,
       mSkipAutoHeadroom := True, mLastWasGlitch := False, mSkipped := 0, mLastSkipped := 0, mLastGlitches := 0,
       mStatsGlitches := 0, mLastMaxLatency := 0, mStatsMaxLatency := 0, mStatsMaxPLCdspElapsed := 0,
       mCurrentHeadroom := 0, mAutoHeadroomStartTime := 6000, mAutoHeadroom := - 1,
       m_b_BroadcastRingBuffer := None, m_b_BroadcastQueueLength := bqLen, mWorkerBuffer := [],
       mRegulatorWorkerPtr := None, mWorkerEnabled := False\<rparr>)
   }"

text \<open>\<open>mPacketsInThePast\<close> for a packet length; a length of zero divides by zero.\<close>

definition packets_in_the_past :: "int \<Rightarrow> int option" where
  "packets_in_the_past fpp =
     (if fpp < HISTFPP then map_option (\<lambda>k. HIST * k) (cxx_div HISTFPP fpp)
      else if HISTFPP * 2 < fpp then Some 1
      else Some HIST)"

text \<open>The ratio of the packet lengths, and the broadcast queue for the same duration.\<close>

definition fpp_ratio :: "Regulator \<Rightarrow> Regulator option" where
  "fpp_ratio r =
     (let r = r\<lparr>mFPPratioNumerator := 1, mFPPratioDenominator := 1\<rparr>
      in if mPeerFPP r = mLocalFPP r then Some r
         else do {
           q \<leftarrow> (if m_b_BroadcastQueueLength r \<noteq> 0
             then do { k \<leftarrow> checked_int (m_b_BroadcastQueueLength r * mLocalFPP r); cxx_div k (mPeerFPP r) }
             else Some 0);
           let r = r\<lparr>m_b_BroadcastQueueLength := q\<rparr>;
           if mLocalFPP r < mPeerFPP r
           then do { d \<leftarrow> cxx_div (mPeerFPP r) (mLocalFPP r); Some (r\<lparr>mFPPratioDenominator := d\<rparr>) }
           else do { n \<leftarrow> cxx_div (mLocalFPP r) (mPeerFPP r); Some (r\<lparr>mFPPratioNumerator := n\<rparr>) }
         })"

definition initial_tolerance :: "Regulator \<Rightarrow> Regulator" where
  "initial_tolerance r =
     (if mMsecTolerance r \<le> 0
      then r\<lparr>mAuto := True,
        mAutoHeadroom := (if mMsecTolerance r = - 500 then - 1 else \<bar>mMsecTolerance r\<bar>),
        mMsecTolerance := dbl_mul (of_int (mPeerFPP r)) AutoInitValFactor\<rparr>
      else r)"

definition fade_up :: "int \<Rightarrow> nat \<Rightarrow> flt option" where
  "fade_up fpp i = do { q \<leftarrow> dbl_div (of_nat i) (of_int fpp); Some (to_single q) }"

definition fade_down :: "flt \<Rightarrow> flt" where
  "fade_down up = narrow (d_sub (Fin 1) up)"

text \<open>The channels have \<open>new\<close>ly constructed histories; \<open>slots\<close> is memory that is not initialised.\<close>

definition setFPPratio :: "(nat \<Rightarrow> nat \<Rightarrow> u8) \<Rightarrow> dbl \<Rightarrow> u32 \<Rightarrow> u32 \<Rightarrow> int \<Rightarrow> Regulator \<Rightarrow> Regulator option" where
  "setFPPratio slots lastDev readsNew underrunsNew len r =
     (if mInitialized r then Some r
      else if len \<le> 0 \<or> kMaxPeerBytes < len then Some r
      else do {
        frame \<leftarrow> checked_int (mNumChannels r * int (mode_bytes r));
        fpp \<leftarrow> cxx_div len frame;
        past \<leftarrow> packets_in_the_past fpp;
        upToNow \<leftarrow> checked_int (past * fpp);
        beyondNow \<leftarrow> checked_int ((past + 1) * fpp);
        n \<leftarrow> byte_count upToNow;
        B \<leftarrow> BurgAlgorithm_new n;
        dur \<leftarrow> dbl_div (dbl_mul 1000 (of_int fpp)) (of_int (mSampleRate r));
        peerBytes \<leftarrow> checked_int (fpp * frame);
        r \<leftarrow> fpp_ratio (r\<lparr>mPeerFPP := fpp, mPacketsInThePast := past, mPcnt := 0, mUpToNow := upToNow,
          mBeyondNow := beyondNow, ba := Some B, mPeerFPPdurMsec := dur, mPeerBytes := peerBytes\<rparr>);
        let r = initial_tolerance r;
        nbytes \<leftarrow> byte_count peerBytes;
        up \<leftarrow> those (map (fade_up fpp) [0..<nat fpp]);
        slotBytes \<leftarrow> checked_int (NumSlots * peerBytes);
        bc \<leftarrow> (if m_b_BroadcastQueueLength r \<noteq> 0
          then map_option Some (JitterBuffer_new fpp 10 (mSampleRate r) 1 (m_b_BroadcastQueueLength r)
            (mNumChannels r) (mAudioBitRes r) readsNew underrunsNew Indeterminate)
          else Some None);
        pushW \<leftarrow> dbl_div (of_int (mSampleRate r)) (of_int fpp);
        pullW \<leftarrow> dbl_div (of_int (mSampleRate r)) (of_int (mLocalFPP r));
        pushN \<leftarrow> checked_int \<lfloor>pushW\<rfloor>;
        pullN \<leftarrow> checked_int \<lfloor>pullW\<rfloor>;
        ps \<leftarrow> StdDev_new lastDev pushN;
        pl \<leftarrow> StdDev_new lastDev pullN;
        Some (r\<lparr>mXfrBuffer := replicate nbytes 0, mBroadcastBuffer := replicate nbytes 0,
          mFadeUp := up, mFadeDown := map fade_down up,
          mSlots := map (\<lambda>i. map (slots i) [0..<nbytes]) [0..<nat NumSlots], mChanData := replicate (nat (mNumChannels r)) (Channel_new (nat fpp) n (nat past)),
          mLastSeqNumIn := - 1, m_b_BroadcastRingBuffer := bc, pushStat := Some ps, pullStat := Some pl,
          mInitialized := True\<rparr>)
      })"

section \<open>The tolerance\<close>

definition glitches_allowed :: "Regulator \<Rightarrow> int option" where
  "glitches_allowed r =
     (let rate = float_round (dbl_mul AutoHeadroomGlitchTolerance (of_int (mSampleRate r)));
          fpp = float_round (of_int (mPeerFPP r))
      in if fpp = 0 then None else checked_int \<lceil>float_round (rate / fpp)\<rceil>)"

text \<open>The headroom that adapts itself.\<close>

definition variable_headroom :: "int \<Rightarrow> StdDev \<Rightarrow> Regulator \<Rightarrow> Regulator option" where
  "variable_headroom glitches ps r = do {
     allowed \<leftarrow> glitches_allowed r;
     maxHeadroom \<leftarrow> dbl_to_int (max (dbl_mul (longTermMax ps) 3) (dbl_add (mLastMaxLatency r) 10));
     if allowed < glitches \<and> mCurrentHeadroom r < of_int maxHeadroom
     then Some (
       if mSkipAutoHeadroom r then r\<lparr>mSkipAutoHeadroom := False\<rparr>
       else if dbl_add (mMsecTolerance r) 3 < mLastMaxLatency r
       then r\<lparr>mSkipAutoHeadroom := True,
         mCurrentHeadroom := min (of_int maxHeadroom) (dbl_add (mCurrentHeadroom r)
           (of_int \<lceil>dbl_mul (dbl_sub (mLastMaxLatency r) (mMsecTolerance r)) (1/2)\<rceil>))\<rparr>
       else r\<lparr>mSkipAutoHeadroom := True, mCurrentHeadroom := dbl_add (mCurrentHeadroom r) 1\<rparr>)
     else Some (r\<lparr>mSkipAutoHeadroom := True\<rparr>)
   }"

definition update_headroom :: "int \<Rightarrow> StdDev \<Rightarrow> Regulator \<Rightarrow> Regulator option" where
  "update_headroom glitches ps r =
     (if mAutoHeadroom r < 0 then variable_headroom glitches ps r
      else Some (r\<lparr>mCurrentHeadroom := mAutoHeadroom r\<rparr>))"

definition clamp_tolerance :: "dbl \<Rightarrow> Regulator \<Rightarrow> dbl" where
  "clamp_tolerance t r =
     (let t = (if AutoMax < t then AutoMax else t);
          t = (if t < mLocalFPPdurMsec r then mLocalFPPdurMsec r else t)
      in if t < mPeerFPPdurMsec r then mPeerFPPdurMsec r else t)"

definition updateTolerance :: "int \<Rightarrow> Regulator \<Rightarrow> Regulator option" where
  "updateTolerance glitches r = do {
     ps \<leftarrow> pushStat r;
     pl \<leftarrow> pullStat r;
     r \<leftarrow> update_headroom glitches ps r;
     Some (r\<lparr>mMsecTolerance := clamp_tolerance (max (dbl_add (calcAuto ps) (mCurrentHeadroom r)) (calcAuto pl)) r\<rparr>)
   }"

text \<open>What happens once per second.\<close>

definition adapt_tolerance :: "StdDev \<Rightarrow> Regulator \<Rightarrow> Regulator option" where
  "adapt_tolerance ps r = do {
     pl \<leftarrow> pullStat r;
     totalGlitches \<leftarrow> checked_int (plcUnderruns pl + plcOverruns pl);
     newGlitches \<leftarrow> checked_int (totalGlitches - mLastGlitches r);
     let r = r\<lparr>mLastGlitches := totalGlitches, mLastSkipped := mSkipped r\<rparr>;
     if mAuto r \<and> AutoInitDur < lastTime ps
     then if lastTime ps \<le> mAutoHeadroomStartTime r
       then updateTolerance 0 (r\<lparr>mLastMaxLatency := 0, mStatsMaxLatency := 0\<rparr>)
       else updateTolerance newGlitches (r\<lparr>mLastMaxLatency := mStatsMaxLatency r, mStatsMaxLatency := 0\<rparr>)
     else Some r
   }"

text \<open>The time of arrival of a slot; a number that is not a slot is out of bounds.\<close>

definition arrival :: "int \<Rightarrow> Regulator \<Rightarrow> dbl option" where
  "arrival k r = do { i \<leftarrow> byte_count k; vec_get (mIncomingTiming r) i }"

text \<open>From the number of one slot to that of a later one.\<close>

definition seq_ahead :: "int \<Rightarrow> int" where
  "seq_ahead d = (if d < 0 then d + NumSlots else d)"

definition updatePushStats :: "int \<Rightarrow> int \<Rightarrow> Regulator \<Rightarrow> Regulator option" where
  "updatePushStats clock seq_num r = do {
     lastOut \<leftarrow> arrival (mLastSeqNumOut r) r;
     now \<leftarrow> arrival seq_num r;
     let pkts = seq_ahead (seq_num - 1 - mLastSeqNumOut r);
     let prev_time = dbl_add lastOut (dbl_mul (of_int pkts) (mPeerFPPdurMsec r));
     if now \<le> prev_time then Some r
     else do {
       ps \<leftarrow> pushStat r;
       (updated, ps) \<leftarrow> tick prev_time now clock ps;
       let r = r\<lparr>pushStat := Some ps\<rparr>;
       if updated \<and> longTermCnt ps mod WindowDivisor = 0 then adapt_tolerance ps r else Some r
     }
   }"

definition setQueueBufferLength :: "int \<Rightarrow> Regulator \<Rightarrow> Regulator" where
  "setQueueBufferLength queueBuffer r =
     (if 0 < queueBuffer
      then r\<lparr>mAuto := False, mCurrentHeadroom := 0, mMsecTolerance := of_int queueBuffer\<rparr>
      else if queueBuffer = - 500
      then r\<lparr>mAuto := True, mAutoHeadroom := - 1, mCurrentHeadroom := 0, mSkipAutoHeadroom := True,
        mAutoHeadroomStartTime := (case pushStat r of Some d \<Rightarrow> dbl_add (lastTime d) AutoInitDur | None \<Rightarrow> 6000)\<rparr>
      else r\<lparr>mAuto := True, mAutoHeadroom := of_int \<bar>queueBuffer\<bar>, mCurrentHeadroom := of_int \<bar>queueBuffer\<bar>\<rparr>)"

section \<open>Arriving packets\<close>

definition store_packet :: "bytes \<Rightarrow> nat \<Rightarrow> int \<Rightarrow> Regulator \<Rightarrow> Regulator option" where
  "store_packet buf i clock r = do {
     timing \<leftarrow> vec_set (mIncomingTiming r) i (msecs clock);
     n \<leftarrow> byte_count (mPeerBytes r);
     packet \<leftarrow> mem_read buf 0 n;
     slot \<leftarrow> vec_get (mSlots r) i;
     slot \<leftarrow> mem_write slot 0 packet;
     slots \<leftarrow> vec_set (mSlots r) i slot;
     Some (r\<lparr>mIncomingTiming := timing, mSlots := slots\<rparr>)
   }"

definition newest_seq :: "int \<Rightarrow> int \<Rightarrow> int" where
  "newest_seq seq_num lastSeqNumIn =
     (if lastSeqNumIn = - 1 \<or> lastSeqNumIn < seq_num \<or>
         seq_num < lastSeqNumIn \<and> NumSlots div 2 < lastSeqNumIn - seq_num
      then seq_num else lastSeqNumIn)"

definition pushPacket :: "bytes \<Rightarrow> int \<Rightarrow> int \<Rightarrow> Regulator \<Rightarrow> Regulator option" where
  "pushPacket buf seq_num clock r = do {
     bc \<leftarrow> (case m_b_BroadcastRingBuffer r of
         None \<Rightarrow> Some None
       | Some b \<Rightarrow> map_option (\<lambda>(_, b). Some b) (insertSlotNonBlocking buf (mPeerBytes r) 0 seq_num b));
     k \<leftarrow> cxx_mod seq_num NumSlots;
     i \<leftarrow> byte_count k;
     r \<leftarrow> store_packet buf i clock (r\<lparr>m_b_BroadcastRingBuffer := bc\<rparr>);
     Some (r\<lparr>mLastSeqNumIn := newest_seq k (mLastSeqNumIn r)\<rparr>)
   }"

record setup_garbage =
  garbage_slots :: "nat \<Rightarrow> nat \<Rightarrow> u8"
  garbage_dev :: dbl
  garbage_reads :: u32
  garbage_underruns :: u32

definition insert_packet :: "setup_garbage \<Rightarrow> bytes \<Rightarrow> int \<Rightarrow> int \<Rightarrow> int \<Rightarrow> Regulator \<Rightarrow> (bool \<times> Regulator) option" where
  "insert_packet G ptrToSlot len seq_num clock r =
     (if seq_num = - 1 then Some (True, r)
      else do {
        r \<leftarrow> setFPPratio (garbage_slots G) (garbage_dev G) (garbage_reads G) (garbage_underruns G) len r;
        r \<leftarrow> pushPacket ptrToSlot seq_num clock r;
        Some (True, r)
      })"

section \<open>Playing a packet\<close>

text \<open>One loop over the channels of \<open>mChanData\<close>.\<close>

definition each_channel :: "(nat \<Rightarrow> Channel \<Rightarrow> Channel option) \<Rightarrow> Regulator \<Rightarrow> Regulator option" where
  "each_channel f r = do {
     chans \<leftarrow> iter_opt (\<lambda>ch chans. do {
         c \<leftarrow> vec_get chans ch;
         c \<leftarrow> f ch c;
         vec_set chans ch c
       }) [0..<nat (mNumChannels r)] (mChanData r);
     Some (r\<lparr>mChanData := chans\<rparr>)
   }"

definition sample_offset :: "Regulator \<Rightarrow> nat \<Rightarrow> nat \<Rightarrow> nat" where
  "sample_offset r ch frame = frame * mode_bytes r * nat (mNumChannels r) + ch * mode_bytes r"

definition bitsToSample :: "Regulator \<Rightarrow> nat \<Rightarrow> nat \<Rightarrow> flt option" where
  "bitsToSample r ch frame = do {
     bs \<leftarrow> mem_read (mXfrBuffer r) (sample_offset r ch frame) (mode_bytes r);
     x \<leftarrow> fromBitToSampleConversion bs (mBitResolutionMode r);
     Some (float_val x)
   }"

definition sampleToBits :: "Regulator \<Rightarrow> flt \<Rightarrow> nat \<Rightarrow> nat \<Rightarrow> bytes \<Rightarrow> bytes option" where
  "sampleToBits r x ch frame xfr = do {
     bs \<leftarrow> fromSampleToBitConversion (flt_bits x) (mBitResolutionMode r);
     mem_write xfr (sample_offset r ch frame) bs
   }"

definition zeroTmpFloatBuf :: "Regulator \<Rightarrow> Regulator option" where
  "zeroTmpFloatBuf = each_channel (\<lambda>_ c. Some (c\<lparr>mTmpFloatBuf := mZeros c\<rparr>))"

definition xfrBufferToFloatBuf :: "Regulator \<Rightarrow> Regulator option" where
  "xfrBufferToFloatBuf r = each_channel (\<lambda>ch c. do {
       tmp \<leftarrow> iter_opt (\<lambda>s tmp. do {
           x \<leftarrow> bitsToSample r ch s;
           vec_set tmp s x
         }) [0..<nat (mPeerFPP r)] (mTmpFloatBuf c);
       Some (c\<lparr>mTmpFloatBuf := tmp\<rparr>)
     }) r"

definition floatBufToXfrBuffer :: "Regulator \<Rightarrow> Regulator option" where
  "floatBufToXfrBuffer r = do {
     xfr \<leftarrow> iter_opt (\<lambda>ch xfr. do {
         c \<leftarrow> vec_get (mChanData r) ch;
         iter_opt (\<lambda>s xfr. do {
             x \<leftarrow> vec_get (mTmpFloatBuf c) s;
             sampleToBits r x ch s xfr
           }) [0..<nat (mPeerFPP r)] xfr
       }) [0..<nat (mNumChannels r)] (mXfrBuffer r);
     Some (r\<lparr>mXfrBuffer := xfr\<rparr>)
   }"

definition burg_setup_of :: "Regulator \<Rightarrow> burg_setup" where
  "burg_setup_of r = \<lparr>setup_fpp = nat (mPeerFPP r), setup_past = nat (mPacketsInThePast r),
     fadeUp = mFadeUp r, fadeDown = mFadeDown r\<rparr>"

definition burg :: "bool \<Rightarrow> Regulator \<Rightarrow> Regulator option" where
  "burg glitch r = do {
     let primed = (mPacketsInThePast r < mPcnt r);
     B \<leftarrow> ba r;
     (B, chans) \<leftarrow> iter_opt (\<lambda>ch (B, chans). do {
         c \<leftarrow> vec_get chans ch;
         (B, c) \<leftarrow> burg_channel glitch primed (mLastWasGlitch r) (burg_setup_of r) (B, c);
         chans \<leftarrow> vec_set chans ch c;
         Some (B, chans)
       }) [0..<nat (mNumChannels r)] (B, mChanData r);
     pcnt \<leftarrow> checked_int (mPcnt r + 1);
     Some (r\<lparr>ba := Some B, mChanData := chans, mLastWasGlitch := glitch, mPcnt := pcnt\<rparr>)
   }"

text \<open>The readings of the clock during one pull.\<close>

record pull_clock =
  clock_now :: int
  clock_stat :: int
  clock_dsp_start :: int
  clock_dsp_end :: int

definition dsp_elapsed :: "pull_clock \<Rightarrow> dbl" where
  "dsp_elapsed C = dbl_round
     (dbl_sub (dbl_round (of_int (clock_dsp_end C))) (dbl_round (of_int (clock_dsp_start C))) / 1000000)"

definition processPacket :: "bool \<Rightarrow> pull_clock \<Rightarrow> Regulator \<Rightarrow> Regulator option" where
  "processPacket glitch C r = do {
     r \<leftarrow> zeroTmpFloatBuf r;
     r \<leftarrow> xfrBufferToFloatBuf r;
     r \<leftarrow> burg glitch r;
     r \<leftarrow> floatBufToXfrBuffer r;
     Some (if glitch \<and> mStatsMaxPLCdspElapsed r < dsp_elapsed C
       then r\<lparr>mStatsMaxPLCdspElapsed := dsp_elapsed C\<rparr> else r)
   }"

section \<open>The choice of the packet\<close>

definition silence_xfr :: "Regulator \<Rightarrow> Regulator option" where
  "silence_xfr r = do {
     n \<leftarrow> byte_count (mPeerBytes r);
     xfr \<leftarrow> mem_set (mXfrBuffer r) 0 n 0;
     Some (r\<lparr>mXfrBuffer := xfr\<rparr>)
   }"

text \<open>Copies slot \<open>k\<close> to \<open>mXfrBuffer\<close>.\<close>

definition load_slot :: "int \<Rightarrow> Regulator \<Rightarrow> Regulator option" where
  "load_slot k r = do {
     i \<leftarrow> byte_count k;
     n \<leftarrow> byte_count (mPeerBytes r);
     slot \<leftarrow> vec_get (mSlots r) i;
     packet \<leftarrow> mem_read slot 0 n;
     xfr \<leftarrow> mem_write (mXfrBuffer r) 0 packet;
     Some (r\<lparr>mXfrBuffer := xfr\<rparr>)
   }"

text \<open>The result of a pull is whether the packet is a prediction.\<close>

definition underrun :: "dbl \<Rightarrow> int \<Rightarrow> pull_clock \<Rightarrow> Regulator \<Rightarrow> (bool \<times> Regulator) option" where
  "underrun now lastSeqNumIn C r = do {
     pl \<leftarrow> pullStat r;
     n \<leftarrow> checked_int (plcUnderruns pl + 1);
     let r = r\<lparr>pullStat := Some (pl\<lparr>plcUnderruns := n\<rparr>)\<rparr>;
     stuck \<leftarrow> (if mLastSeqNumOut r = lastSeqNumIn
       then map_option (\<lambda>t. gUdpWaitTimeoutMs < dbl_sub now t) (arrival (mLastSeqNumOut r) r)
       else Some False);
     if stuck then do { r \<leftarrow> silence_xfr r; Some (False, r) }
     else do { r \<leftarrow> processPacket True C r; Some (True, r) }
   }"

definition play_slot :: "int \<Rightarrow> pull_clock \<Rightarrow> Regulator \<Rightarrow> (bool \<times> Regulator) option" where
  "play_slot k C r = do {
     r \<leftarrow> load_slot k r;
     r \<leftarrow> processPacket False C (r\<lparr>mLastSeqNumOut := k\<rparr>);
     Some (False, r)
   }"

text \<open>
  What is done with the first packet that is in time, \<open>candidate\<close>: one good packet before it is
  played first; other packets before it are lost.
\<close>

definition play_candidate :: "int \<Rightarrow> int \<Rightarrow> int \<Rightarrow> pull_clock \<Rightarrow> Regulator \<Rightarrow> (bool \<times> Regulator) option" where
  "play_candidate candidate skipped firstGoodSkipped C r =
     (if skipped = 1 \<and> 0 \<le> firstGoodSkipped
      then play_slot firstGoodSkipped C (r\<lparr>mStashedPacket := candidate\<rparr>)
      else if 0 < skipped
      then do {
        pl \<leftarrow> pullStat r;
        n \<leftarrow> checked_int (plcOverruns pl + skipped);
        k \<leftarrow> checked_int (mSkipped r + skipped);
        r \<leftarrow> processPacket True C (r\<lparr>pullStat := Some (pl\<lparr>plcOverruns := n\<rparr>), mSkipped := k,
          mStashedPacket := candidate\<rparr>);
        Some (True, r)
      }
      else play_slot candidate C r)"

text \<open>A packet that is so much older than the last one played is left from a round before: it is missing.\<close>

definition is_missing :: "int \<Rightarrow> Regulator \<Rightarrow> bool option" where
  "is_missing k r =
     (if mLastSeqNumOut r = - 1 then Some False
      else do {
        t \<leftarrow> arrival k r;
        out \<leftarrow> arrival (mLastSeqNumOut r) r;
        Some (t < out \<and> mMsecTolerance r < dbl_sub out t)
      })"

text \<open>The loop over the new packets; \<open>Suc i\<close> are left.\<close>

fun pull_scan :: "dbl \<Rightarrow> int \<Rightarrow> pull_clock \<Rightarrow> nat \<Rightarrow> int \<Rightarrow> int \<Rightarrow> Regulator \<Rightarrow> (bool \<times> Regulator) option" where
  "pull_scan now lastSeqNumIn C 0 skipped firstGood r = underrun now lastSeqNumIn C r"
| "pull_scan now lastSeqNumIn C (Suc i) skipped firstGood r = do {
     let k = seq_ahead (lastSeqNumIn - int i);
     missing \<leftarrow> is_missing k r;
     if missing then pull_scan now lastSeqNumIn C i skipped firstGood r
     else do {
       r \<leftarrow> (if mLastSeqNumOut r = - 1 then Some r else updatePushStats (clock_stat C) k r);
       let skipped = (if mLastSeqNumOut r = - 1 then skipped else seq_ahead (k - mLastSeqNumOut r - 1));
       t \<leftarrow> arrival k r;
       let r = (if mStatsMaxLatency r < dbl_sub now t then r\<lparr>mStatsMaxLatency := dbl_sub now t\<rparr> else r);
       if now \<le> dbl_add t (mMsecTolerance r) \<or> i = 0
       then play_candidate k skipped firstGood C r
       else pull_scan now lastSeqNumIn C i skipped (if firstGood = - 1 then k else firstGood) r
     }
   }"

definition pullPacket :: "pull_clock \<Rightarrow> Regulator \<Rightarrow> (bool \<times> Regulator) option" where
  "pullPacket C r =
     (let now = msecs (clock_now C);
          lastSeqNumIn = mLastSeqNumIn r
      in if lastSeqNumIn = - 1 \<or> \<not> mInitialized r \<or> now < mMsecTolerance r
         then do { r \<leftarrow> silence_xfr r; Some (False, r) }
         else if mStashedPacket r \<noteq> - 1
         then do {
           r \<leftarrow> load_slot (mStashedPacket r) r;
           r \<leftarrow> processPacket False C (r\<lparr>mLastSeqNumOut := mStashedPacket r, mStashedPacket := - 1\<rparr>);
           Some (False, r)
         }
         else if lastSeqNumIn = mLastSeqNumOut r then underrun now lastSeqNumIn C r
         else pull_scan now lastSeqNumIn C (nat (seq_ahead (lastSeqNumIn - mLastSeqNumOut r))) 0 (- 1) r)"

section \<open>The worker\<close>

text \<open>\<open>pop\<close> on the audio thread: the packet, or silence, written to the buffer.\<close>

definition worker_pop :: "bytes \<Rightarrow> RegulatorWorker \<Rightarrow> (bytes \<times> RegulatorWorker) option" where
  "worker_pop pkt w = do {
     (got, pkt, q) \<leftarrow> frame_pop pkt (mPacketQueue w);
     let w = w\<lparr>pull_signals := pull_signals w + 1, mPacketQueue := q\<rparr>;
     if got then Some (pkt, w)
     else do {
       pkt \<leftarrow> mem_set pkt 0 (mBytesPerFrame q) 0;
       Some (pkt, w\<lparr>mUnderrun := True\<rparr>)
     }
   }"

definition updateQueueTarget :: "RegulatorWorker \<Rightarrow> RegulatorWorker" where
  "updateQueueTarget w =
     (let maxPackets = capacity (mPacketQueue w) div 2
      in if maxPackets < mPacketQueueTarget w then w
         else let w = w\<lparr>mPacketQueueTarget := mPacketQueueTarget w + 1\<rparr>
              in if mPacketQueueTarget w = maxPackets
                 then w\<lparr>max_queue_signals := max_queue_signals w + 1\<rparr> else w)"

definition worker_underrun :: "int \<Rightarrow> RegulatorWorker \<Rightarrow> RegulatorWorker" where
  "worker_underrun clock w =
     (if \<not> mUnderrun w then w
      else if \<not> mStarted w then w\<lparr>mStarted := True\<rparr>
      else
        let now = msecs clock;
            since = dbl_sub now (mLastUnderrun w);
            w = (if 1000 \<le> since
              then (if mSkipQueueUpdate w then w\<lparr>mSkipQueueUpdate := False\<rparr>
                    else if since < 2000 then (updateQueueTarget w)\<lparr>mSkipQueueUpdate := True\<rparr>
                    else w)\<lparr>mLastUnderrun := now\<rparr>
              else w)
        in w\<lparr>mUnderrun := False\<rparr>)"

text \<open>
  The loop that fills the queue, on the worker thread; it ends when the queue has the target
  size.  \<open>Cs\<close> are the readings of the clock of its pulls; with too few of them it has no result.
\<close>

fun worker_fill :: "pull_clock list \<Rightarrow> nat \<Rightarrow> RegulatorWorker \<Rightarrow> Regulator \<Rightarrow> (RegulatorWorker \<times> Regulator) option" where
  "worker_fill [] n w r = (if n < mPacketQueueTarget w then None else Some (w, r))"
| "worker_fill (C # Cs) n w r =
     (if n < mPacketQueueTarget w
      then do {
        (_, r) \<leftarrow> pullPacket C r;
        (n, q) \<leftarrow> frame_push (mXfrBuffer r) (mPacketQueue w);
        worker_fill Cs n (w\<lparr>mPacketQueue := q\<rparr>) r
      }
      else Some (w, r))"

definition worker_pullPacket :: "int \<Rightarrow> pull_clock list \<Rightarrow> Regulator \<Rightarrow> Regulator option" where
  "worker_pullPacket clock Cs r = do {
     w \<leftarrow> mRegulatorWorkerPtr r;
     let w = worker_underrun clock w;
     (w, r) \<leftarrow> worker_fill Cs (ring_size (mPacketQueue w)) w r;
     Some (r\<lparr>mRegulatorWorkerPtr := Some w\<rparr>)
   }"

definition RegulatorWorker_new :: "(nat \<Rightarrow> nat \<Rightarrow> u8) \<Rightarrow> nat \<Rightarrow> RegulatorWorker" where
  "RegulatorWorker_new garbage peerBytes =
     \<lparr>mPacketQueue = WaitFreeFrameBuffer_new 64 garbage peerBytes, mPacketQueueTarget = 1, mLastUnderrun = 0,
       mSkipQueueUpdate = True, mUnderrun = False, mStarted = False, pull_signals = 0, max_queue_signals = 0\<rparr>"

definition enableWorker :: "(nat \<Rightarrow> nat \<Rightarrow> u8) \<Rightarrow> Regulator \<Rightarrow> Regulator option" where
  "enableWorker garbage r =
     (if dbl_mul (mLocalFPPdurMsec r) (dbl_round (7 / 10)) \<le> mStatsMaxPLCdspElapsed r \<and> \<not> mWorkerEnabled r
      then do {
        n \<leftarrow> byte_count (mPeerBytes r);
        Some (r\<lparr>mWorkerBuffer := replicate n 0, mRegulatorWorkerPtr := Some (RegulatorWorker_new garbage n),
          mWorkerEnabled := True\<rparr>)
      }
      else Some r)"

section \<open>Reading\<close>

text \<open>\<open>pop\<close> into \<open>mWorkerBuffer\<close>.\<close>

definition pop_packet :: "Regulator \<Rightarrow> Regulator option" where
  "pop_packet r = do {
     w \<leftarrow> mRegulatorWorkerPtr r;
     (pkt, w) \<leftarrow> worker_pop (mWorkerBuffer r) w;
     Some (r\<lparr>mWorkerBuffer := pkt, mRegulatorWorkerPtr := Some w\<rparr>)
   }"

text \<open>What the callback reads: the slot it passes out, the clock of every pull, memory of a new worker.\<close>

record read_env =
  env_clock :: "nat \<Rightarrow> pull_clock"
  env_tick :: int
  env_queue :: "nat \<Rightarrow> nat \<Rightarrow> u8"

definition next_packet :: "pull_clock \<Rightarrow> Regulator \<Rightarrow> (bytes \<times> bool \<times> Regulator) option" where
  "next_packet C r =
     (if mWorkerEnabled r
      then do { r \<leftarrow> pop_packet r; Some (mWorkerBuffer r, False, r) }
      else do { (p, r) \<leftarrow> pullPacket C r; Some (mXfrBuffer r, p, r) })"

definition after_prediction :: "read_env \<Rightarrow> bool \<Rightarrow> Regulator \<Rightarrow> Regulator option" where
  "after_prediction E predicted r = (if predicted then enableWorker (env_queue E) r else Some r)"

definition read_equal :: "read_env \<Rightarrow> bytes \<Rightarrow> Regulator \<Rightarrow> (bytes \<times> Regulator) option" where
  "read_equal E out r = do {
     (packet, predicted, r) \<leftarrow> next_packet (env_clock E 0) r;
     n \<leftarrow> byte_count (mLocalBytes r);
     packet \<leftarrow> mem_read packet 0 n;
     out \<leftarrow> mem_write out 0 packet;
     r \<leftarrow> after_prediction E predicted r;
     Some (out, r)
   }"

definition read_several :: "read_env \<Rightarrow> bytes \<Rightarrow> Regulator \<Rightarrow> (bytes \<times> Regulator) option" where
  "read_several E out r = do {
     n \<leftarrow> byte_count (mPeerBytes r);
     (out, predicted, r) \<leftarrow> iter_opt (\<lambda>i (out, predicted, r). do {
         (packet, p, r) \<leftarrow> next_packet (env_clock E i) r;
         packet \<leftarrow> mem_read packet 0 n;
         out \<leftarrow> mem_write out (i * n) packet;
         Some (out, predicted \<or> p, r)
       }) [0..<nat (mFPPratioNumerator r)] (out, False, r);
     r \<leftarrow> after_prediction E predicted r;
     Some (out, r)
   }"

text \<open>Whether a new packet is due, and the one the pull pointer then stands in.\<close>

definition pull_due :: "Regulator \<Rightarrow> bool option" where
  "pull_due r =
     (case mXfrPullPtr r of
        None \<Rightarrow> Some True
      | Some (InWorker k) \<Rightarrow> if mWorkerEnabled r then Some (mPeerBytes r \<le> int k) else None
      | Some (InXfr k) \<Rightarrow> if mWorkerEnabled r then None else Some (mPeerBytes r \<le> int k))"

definition refill :: "read_env \<Rightarrow> Regulator \<Rightarrow> Regulator option" where
  "refill E r =
     (if mWorkerEnabled r
      then do { r \<leftarrow> pop_packet r; Some (r\<lparr>mXfrPullPtr := Some (InWorker 0)\<rparr>) }
      else do {
        (predicted, r) \<leftarrow> pullPacket (env_clock E 0) r;
        let r = r\<lparr>mXfrPullPtr := Some (InXfr 0)\<rparr>;
        r \<leftarrow> after_prediction E predicted r;
        if predicted \<and> mWorkerEnabled r
        then do {
          n \<leftarrow> byte_count (mPeerBytes r);
          packet \<leftarrow> mem_read (mXfrBuffer r) 0 n;
          buf \<leftarrow> mem_write (mWorkerBuffer r) 0 packet;
          Some (r\<lparr>mWorkerBuffer := buf, mXfrPullPtr := Some (InWorker 0)\<rparr>)
        }
        else Some r
      })"

definition read_part :: "read_env \<Rightarrow> bytes \<Rightarrow> Regulator \<Rightarrow> (bytes \<times> Regulator) option" where
  "read_part E out r = do {
     due \<leftarrow> pull_due r;
     r \<leftarrow> (if due then refill E r else Some r);
     n \<leftarrow> byte_count (mLocalBytes r);
     (packet, ptr) \<leftarrow> (case mXfrPullPtr r of
         None \<Rightarrow> None
       | Some (InXfr k) \<Rightarrow> map_option (\<lambda>b. (b, InXfr (k + n))) (mem_read (mXfrBuffer r) k n)
       | Some (InWorker k) \<Rightarrow> map_option (\<lambda>b. (b, InWorker (k + n))) (mem_read (mWorkerBuffer r) k n));
     out \<leftarrow> mem_write out 0 packet;
     Some (out, r\<lparr>mXfrPullPtr := Some ptr\<rparr>)
   }"

definition read_slot :: "read_env \<Rightarrow> bytes \<Rightarrow> Regulator \<Rightarrow> (bytes \<times> Regulator) option" where
  "read_slot E out r =
     (if \<not> mInitialized r
      then do { n \<leftarrow> byte_count (mLocalBytes r); out \<leftarrow> mem_set out 0 n 0; Some (out, r) }
      else do {
        pl \<leftarrow> pullStat r;
        (_, pl) \<leftarrow> tick 0 0 (env_tick E) pl;
        let r = r\<lparr>pullStat := Some pl\<rparr>;
        if mFPPratioNumerator r = mFPPratioDenominator r then read_equal E out r
        else if 1 < mFPPratioNumerator r then read_several E out r
        else read_part E out r
      })"

definition broadcast_read :: "bytes \<Rightarrow> Regulator \<Rightarrow> (bytes \<times> Regulator) option" where
  "broadcast_read out r = do {
     b \<leftarrow> m_b_BroadcastRingBuffer r;
     (out, b) \<leftarrow> readBroadcastSlot out b;
     Some (out, r\<lparr>m_b_BroadcastRingBuffer := Some b\<rparr>)
   }"

definition read_broadcast_slot :: "bytes \<Rightarrow> Regulator \<Rightarrow> (bytes \<times> Regulator) option" where
  "read_broadcast_slot out r = do {
     n \<leftarrow> byte_count (mLocalBytes r);
     if \<not> mInitialized r \<or> m_b_BroadcastRingBuffer r = None
     then do { out \<leftarrow> mem_set out 0 n 0; Some (out, r) }
     else if mFPPratioNumerator r = mFPPratioDenominator r then broadcast_read out r
     else if 1 < mFPPratioNumerator r
     then do {
       m \<leftarrow> byte_count (mPeerBytes r);
       iter_opt (\<lambda>i (out, r). do {
           rest \<leftarrow> mem_read out (i * m) (length out - i * m);
           (rest, r) \<leftarrow> broadcast_read rest r;
           out \<leftarrow> mem_write out (i * m) rest;
           Some (out, r)
         }) [0..<nat (mFPPratioNumerator r)] (out, r)
     }
     else do {
       r \<leftarrow> (if (case mBroadcastPullPtr r of None \<Rightarrow> True | Some k \<Rightarrow> mPeerBytes r \<le> int k)
         then do {
           (buf, r) \<leftarrow> broadcast_read (mBroadcastBuffer r) r;
           Some (r\<lparr>mBroadcastBuffer := buf, mBroadcastPullPtr := Some 0\<rparr>)
         }
         else Some r);
       k \<leftarrow> mBroadcastPullPtr r;
       part \<leftarrow> mem_read (mBroadcastBuffer r) k n;
       out \<leftarrow> mem_write out 0 part;
       Some (out, r\<lparr>mBroadcastPullPtr := Some (k + n)\<rparr>)
     }
   }"

section \<open>Statistics\<close>

definition dbl_to_u32 :: "dbl \<Rightarrow> u32 option" where
  "dbl_to_u32 x = (if 0 \<le> dbl_trunc x \<and> dbl_trunc x < 4294967296 then Some (of_int (dbl_trunc x)) else None)"

definition FLOATFACTOR :: dbl where "FLOATFACTOR = 1000"

definition regulator_stats :: "bool \<Rightarrow> Regulator \<Rightarrow> (IOStat option \<times> Regulator) option" where
  "regulator_stats reset r =
     (if \<not> mInitialized r then Some (None, r)
      else do {
        let r = (if reset then r\<lparr>reg_base := (reg_base r)\<lparr>RingBuffer.mUnderruns := 0, mOverflows := 0,
              mSkew0 := mLevel (reg_base r), mSkewRaw := 0, mBufDecOverflow := 0, mBufDecPktLoss := 0,
              mBufIncUnderrun := 0, mBufIncCompensate := 0, mBroadcastSkew := 0\<rparr>\<rparr> else r);
        let r = (if mWorkerEnabled r then r\<lparr>mRegulatorWorkerPtr := map_option (\<lambda>w.
              w\<lparr>mPacketQueue := (mPacketQueue w)\<lparr>WaitFreeRingBuffer.mUnderruns := 0, WaitFreeRingBuffer.mOverruns := 0\<rparr>\<rparr>)
              (mRegulatorWorkerPtr r)\<rparr> else r);
        ps \<leftarrow> pushStat r;
        pl \<leftarrow> pullStat r;
        un \<leftarrow> checked_int (mLastGlitches r - mStatsGlitches r);
        ov \<leftarrow> dbl_to_u32 (dbl_mul FLOATFACTOR (longTermStdDev ps));
        sk \<leftarrow> dbl_to_int (dbl_mul FLOATFACTOR (lastMean ps));
        sr \<leftarrow> dbl_to_int (dbl_mul FLOATFACTOR (lastMin ps));
        lv \<leftarrow> dbl_to_int (dbl_mul FLOATFACTOR (lastMax ps));
        dov \<leftarrow> dbl_to_u32 (dbl_mul FLOATFACTOR (lastStdDev ps));
        corr \<leftarrow> dbl_to_int (dbl_mul FLOATFACTOR (mMsecTolerance r));
        dpl \<leftarrow> dbl_to_u32 (dbl_mul FLOATFACTOR (longTermStdDev pl));
        iu \<leftarrow> dbl_to_u32 (dbl_mul FLOATFACTOR (lastMean pl));
        ic \<leftarrow> dbl_to_u32 (dbl_mul FLOATFACTOR (lastMin pl));
        bs \<leftarrow> dbl_to_int (dbl_mul FLOATFACTOR (lastMax pl));
        bd \<leftarrow> dbl_to_int (dbl_mul FLOATFACTOR (lastStdDev pl));
        rate \<leftarrow> dbl_to_int (dbl_mul FLOATFACTOR (mStatsMaxPLCdspElapsed r));
        Some (Some \<lparr>underruns = of_int un, overflows = ov, skew = sk, skew_raw = sr, level = lv,
            buf_dec_overflows = dov, buf_dec_pktloss = dpl, buf_inc_underrun = iu, buf_inc_compensate = ic,
            broadcast_skew = bs, broadcast_delta = bd, autoq_corr = corr, autoq_rate = rate\<rparr>,
          r\<lparr>mStatsGlitches := mLastGlitches r, mStatsMaxPLCdspElapsed := 0\<rparr>)
      })"

end
