(* ===== verification/BurgSpec.thy ===== *)
theory BurgSpec
  imports Burg
begin

text \<open>
  The concealment never leaves its vectors: training, prediction and a packet of a channel have
  a result and keep every length.  A silent past is continued by silence.
\<close>

section \<open>Vectors\<close>

lemma vec_get_Some [simp]: "i < length v \<Longrightarrow> vec_get v i = Some (v ! i)"
  by (simp add: vec_get_def)

lemma vec_set_Some [simp]: "i < length v \<Longrightarrow> vec_set v i x = Some (v[i := x])"
  by (simp add: vec_set_def)

lemma iter_opt_keeps:
  assumes "P s" and "\<And>k t. k < n \<Longrightarrow> P t \<Longrightarrow> \<exists>u. f k t = Some u \<and> P u"
  shows "\<exists>t. iter_opt f [0..<n] s = Some t \<and> P t"
  using iter_opt_invariant [where P = "\<lambda>_. P" and s = s and n = n and f = f] assms by blast

text \<open>A step that has a result, and what follows it.\<close>

lemma bind_total:
  assumes "\<exists>x. m = Some x \<and> P x" and "\<And>x. P x \<Longrightarrow> \<exists>y. f x = Some y \<and> Q y"
  shows "\<exists>y. m \<bind> f = Some y \<and> Q y"
  using assms by auto

section \<open>Training and prediction\<close>

definition burg_ok :: "nat \<Rightarrow> BurgAlgorithm \<Rightarrow> bool" where
  "burg_ok N B \<longleftrightarrow> 0 < N \<and> burg_m B = N - 1 \<and> burg_N B = N - 1 \<and> length (burg_Ak B) = N \<and>
     length (burg_AkReset B) = N \<and> length (burg_f B) = N \<and> length (burg_b B) = N"

lemma BurgAlgorithm_new_ok: "0 < N \<Longrightarrow> \<exists>B. BurgAlgorithm_new N = Some B \<and> burg_ok N B"
  by (simp add: BurgAlgorithm_new_def burg_ok_def Let_def)

definition sizes_ok :: "nat \<Rightarrow> flt list \<times> flt list \<times> flt list \<times> flt \<Rightarrow> bool" where
  "sizes_ok N = (\<lambda>(A, f, b, D). length A = N \<and> length f = N \<and> length b = N)"

lemma burg_recursion_total:
  assumes "k < N - 1" and "sizes_ok N s"
  shows "\<exists>s'. burg_recursion (N - 1) k s = Some s' \<and> sizes_ok N s'"
proof -
  obtain A f b D where s: "s = (A, f, b, D)" "length A = N" "length f = N" "length b = N"
    using assms(2) by (cases s) (auto simp: sizes_ok_def)
  obtain mu where "iter_opt (train_mu f b k) [0..<N - 1 - k] (Fin 0) = Some mu"
    using iter_opt_keeps [where P = "\<lambda>_. True" and f = "train_mu f b k" and n = "N - 1 - k" and s = "Fin 0"] assms(1) s
    by (auto simp: train_mu_def)
  moreover have "\<exists>A'. iter_opt (train_Ak mu k) [0..<(k + 1) div 2 + 1] A = Some A' \<and> length A' = N" for mu
    by (rule iter_opt_keeps [where P = "\<lambda>A. length A = N"]) (use assms(1) s in \<open>auto simp: train_Ak_def\<close>)
  then obtain A' where "\<And>mu. iter_opt (train_Ak mu k) [0..<(k + 1) div 2 + 1] A = Some (A' mu) \<and> length (A' mu) = N"
    by metis
  moreover have "\<exists>fb. iter_opt (train_fb mu k) [0..<N - 1 - k] (f, b) = Some fb \<and> length (fst fb) = N \<and> length (snd fb) = N" for mu
    by (rule iter_opt_keeps) (use assms(1) s in \<open>auto simp: train_fb_def\<close>)
  then obtain fb where "\<And>mu. iter_opt (train_fb mu k) [0..<N - 1 - k] (f, b) = Some (fb mu) \<and>
      length (fst (fb mu)) = N \<and> length (snd (fb mu)) = N" by metis
  ultimately show ?thesis using assms(1) s
    by (simp add: burg_recursion_def sizes_ok_def Let_def case_prod_beta)
qed

lemma train_total:
  assumes "burg_ok N B" and "N \<le> length x"
  shows "\<exists>cs B'. train x N B = Some (cs, B') \<and> burg_ok N B' \<and> length cs = N - 1"
proof -
  let ?x = "take N x"
  have len: "length ?x = N" "0 < N" using assms by (simp_all add: burg_ok_def)
  obtain Dk where Dk: "iter_opt (train_power ?x) [0..<N - 1 + 1] (Fin 0) = Some Dk"
    using iter_opt_keeps [where P = "\<lambda>_. True" and f = "train_power ?x" and n = "N - 1 + 1" and s = "Fin 0"] len
    by (auto simp: train_power_def)
  have "\<exists>s. iter_opt (burg_recursion (N - 1)) [0..<N - 1] (burg_AkReset B, ?x, ?x, D) = Some s \<and> sizes_ok N s" for D
    by (rule iter_opt_keeps) (use assms len burg_recursion_total in \<open>auto simp: burg_ok_def sizes_ok_def\<close>)
  then obtain s where s: "\<And>D. iter_opt (burg_recursion (N - 1)) [0..<N - 1] (burg_AkReset B, ?x, ?x, D) = Some (s D) \<and>
      sizes_ok N (s D)" by metis
  let ?D = "s_sub Dk (s_add (s_mul (?x ! 0) (?x ! 0)) (s_mul (?x ! (N - 1)) (?x ! (N - 1))))"
  obtain A f b D where t: "s ?D = (A, f, b, D)" by (cases "s ?D") auto
  have "train x N B = Some (tl A, B\<lparr>burg_Ak := A, burg_f := f, burg_b := b\<rparr>)"
    using assms len Dk s [of ?D] t
    by (simp add: train_def burg_ok_def mem_read_def mem_write_def Let_def)
  then show ?thesis using s [of ?D] t assms(1) by (simp add: sizes_ok_def burg_ok_def)
qed

lemma predict_step_total:
  assumes "i < length v" and "burg_m B \<le> length cs" and "burg_m B \<le> i"
  shows "\<exists>w. iter_opt (predict_step cs i) [0..<burg_m B] v = Some w \<and> length w = length v"
  by (rule iter_opt_keeps [where P = "\<lambda>w. length w = length v"]) (use assms in \<open>auto simp: predict_step_def\<close>)

lemma predict_total:
  assumes "burg_m B \<le> length cs" and "sz \<le> length w"
  shows "\<exists>v. predict cs w sz B = Some v \<and> length v = length w"
proof -
  define step where "step = (\<lambda>i v. vec_set v i (Fin 0) \<bind> iter_opt (predict_step cs i) [0..<burg_m B])"
  have one: "\<exists>u. step i v = Some u \<and> length u = length v" if "i < length v" "burg_m B \<le> i" for i v
    using predict_step_total [of i "v[i := Fin 0]" B cs] that assms(1) by (simp add: step_def)
  have "\<exists>v. iter_opt step is u = Some v \<and> length v = length u" if "set is \<subseteq> {burg_m B..<length u}" for "is" u
    using that
  proof (induction "is" arbitrary: u)
    case (Cons i "is")
    then obtain v where v: "step i u = Some v" "length v = length u" using one [of i u] by auto
    then obtain y where "iter_opt step is v = Some y" "length y = length v" using Cons.IH [of v] Cons.prems by auto
    then show ?case using v by simp
  qed simp
  from this [of "[burg_m B..<sz]" w] assms(2) show ?thesis by (simp add: predict_def step_def subset_iff)
qed

section \<open>Channels\<close>

definition channel_ok :: "nat \<Rightarrow> nat \<Rightarrow> Channel \<Rightarrow> bool" where
  "channel_ok n past c \<longleftrightarrow> length (mTmpFloatBuf c) = n \<and> length (prediction c) = past * n + n * 2 \<and>
     length (predictedNowPacket c) = n \<and> length (realNowPacket c) = n \<and> length (outputNowPacket c) = n \<and>
     length (futurePredictedPacket c) = n \<and> length (realPast c) = past * n \<and> length (predictedPast c) = past \<and>
     (\<forall>p\<in>set (predictedPast c). length p = n) \<and> length (mPacketRing c) = past \<and>
     (\<forall>p\<in>set (mPacketRing c). length p = n) \<and> mWptr c < past \<and> mRing c = past \<and> length (mZeros c) = n \<and>
     mTailSize c = past * n + n * 2"

definition setup_ok :: "nat \<Rightarrow> nat \<Rightarrow> burg_setup \<Rightarrow> bool" where
  "setup_ok n past S \<longleftrightarrow> 0 < n \<and> 0 < past \<and> setup_fpp S = n \<and> setup_past S = past \<and>
     length (fadeUp S) = n \<and> length (fadeDown S) = n"

lemma Channel_new_ok: "0 < past \<Longrightarrow> channel_ok n past (Channel_new n (past * n) past)"
  by (simp add: channel_ok_def Channel_new_def Let_def)

lemma ringBufferPush_total:
  assumes "channel_ok n past c"
  shows "\<exists>c'. ringBufferPush c = Some c' \<and> channel_ok n past c' \<and> realNowPacket c' = realNowPacket c \<and>
    prediction c' = prediction c \<and> predictedPast c' = predictedPast c \<and>
    futurePredictedPacket c' = futurePredictedPacket c"
  using assms by (auto simp: ringBufferPush_def channel_ok_def dest!: set_update_subset_insert [THEN subsetD])

lemma ringBufferPull_total:
  assumes "channel_ok n past c" and "0 < k" and "k \<le> past"
  shows "\<exists>c'. ringBufferPull k c = Some c' \<and> channel_ok n past c' \<and> realPast c' = realPast c \<and>
    realNowPacket c' = realNowPacket c \<and> prediction c' = prediction c \<and> predictedPast c' = predictedPast c \<and>
    futurePredictedPacket c' = futurePredictedPacket c"
proof -
  let ?i = "if k \<le> mWptr c then mWptr c - k else mWptr c + mRing c - k"
  have "?i < past" using assms by (auto simp: channel_ok_def)
  then have "length (mPacketRing c ! ?i) = n" using assms(1) by (auto simp: channel_ok_def)
  then show ?thesis using assms \<open>?i < past\<close> by (auto simp: ringBufferPull_def channel_ok_def)
qed

lemma mem_read_all: "length v = n \<Longrightarrow> mem_read v 0 n = Some v"
  by (simp add: mem_read_def)

lemma mem_write_all: "length v = n \<Longrightarrow> length x = n \<Longrightarrow> mem_write v 0 x = Some x"
  by (simp add: mem_write_def)

lemma mem_write_total: "pos + length x \<le> length v \<Longrightarrow> \<exists>w. mem_write v pos x = Some w \<and> length w = length v"
  by (simp add: mem_write_def)

lemma recall_past_total:
  assumes "channel_ok n past c" and "setup_ok n past S"
  shows "\<exists>c'. recall_past S c = Some c' \<and> channel_ok n past c' \<and> realNowPacket c' = realNowPacket c \<and>
    prediction c' = prediction c \<and> predictedPast c' = predictedPast c \<and>
    futurePredictedPacket c' = futurePredictedPacket c"
  unfolding recall_past_def
proof (rule iter_opt_keeps)
  fix i d
  assume i: "i < setup_past S" and d: "channel_ok n past d \<and> realNowPacket d = realNowPacket c \<and>
    prediction d = prediction c \<and> predictedPast d = predictedPast c \<and>
    futurePredictedPacket d = futurePredictedPacket c"
  have S: "setup_past S = past" "setup_fpp S = n" using assms(2) by (simp_all add: setup_ok_def)
  obtain e where e: "ringBufferPull (past - i) d = Some e" "channel_ok n past e" "realPast e = realPast d"
    "realNowPacket e = realNowPacket c" "prediction e = prediction c" "predictedPast e = predictedPast c"
    "futurePredictedPacket e = futurePredictedPacket c"
    using ringBufferPull_total [of n past d "past - i"] d i S by auto
  have len: "length (mTmpFloatBuf e) = n" "length (realPast e) = past * n" using e(2) by (simp_all add: channel_ok_def)
  have "i * n + n \<le> past * n" using mult_le_mono1 [of "Suc i" past n] i S by simp
  then obtain w where "mem_write (realPast e) (i * n) (mTmpFloatBuf e) = Some w" "length w = past * n"
    using mem_write_total [of "i * n" "mTmpFloatBuf e" "realPast e"] len by auto
  then show "\<exists>u. (ringBufferPull (setup_past S - i) d \<bind> (\<lambda>c. mem_read (mTmpFloatBuf c) 0 (setup_fpp S) \<bind>
      (\<lambda>packet. mem_write (realPast c) (i * setup_fpp S) packet \<bind> (\<lambda>past. Some (c\<lparr>realPast := past\<rparr>))))) = Some u \<and>
    channel_ok n past u \<and> realNowPacket u = realNowPacket c \<and> prediction u = prediction c \<and>
    predictedPast u = predictedPast c \<and> futurePredictedPacket u = futurePredictedPacket c"
    using e S len by (simp add: mem_read_all channel_ok_def)
qed (use assms in simp)

lemma predict_packet_total:
  assumes "channel_ok n past c" and "setup_ok n past S" and "burg_ok (past * n) B"
  shows "\<exists>B' c'. predict_packet S (B, c) = Some (B', c') \<and> channel_ok n past c' \<and> burg_ok (past * n) B' \<and>
    realNowPacket c' = realNowPacket c \<and> predictedPast c' = predictedPast c \<and>
    futurePredictedPacket c' = futurePredictedPacket c"
proof -
  have S: "setup_past S = past" "setup_fpp S = n" "0 < n" using assms(2) by (simp_all add: setup_ok_def)
  have c: "length (prediction c) = past * n + n * 2" "length (predictedPast c) = past"
    "\<forall>p\<in>set (predictedPast c). length p = n" "mTailSize c = past * n + n * 2" "length (predictedNowPacket c) = n"
    using assms(1) by (simp_all add: channel_ok_def)
  have "\<exists>q. iter_opt (\<lambda>s q. do {
         packet \<leftarrow> vec_get (predictedPast c) (s div n);
         x \<leftarrow> vec_get packet (s mod n);
         vec_set q s x
       }) [0..<past * n] (prediction c) = Some q \<and> length q = past * n + n * 2"
  proof (rule iter_opt_keeps)
    fix k q assume k: "k < past * n" "length (q :: flt list) = past * n + n * 2"
    have "k div n < past" using k(1) by (simp add: less_mult_imp_div_less)
    moreover from this have "length (predictedPast c ! (k div n)) = n" using c by simp
    ultimately show "\<exists>u. (vec_get (predictedPast c) (k div n) \<bind> (\<lambda>packet. vec_get packet (k mod n) \<bind> vec_set q k)) = Some u \<and>
        length u = past * n + n * 2"
      using k c(2) S(3) by simp
  qed (simp add: c)
  then obtain q where q: "iter_opt (\<lambda>s q. do {
         packet \<leftarrow> vec_get (predictedPast c) (s div n);
         x \<leftarrow> vec_get packet (s mod n);
         vec_set q s x
       }) [0..<past * n] (prediction c) = Some q" "length q = past * n + n * 2" by blast
  obtain cs B' where t: "train q (past * n) B = Some (cs, B')" "burg_ok (past * n) B'" "length cs = past * n - 1"
    using train_total [OF assms(3), of q] q(2) by auto
  obtain v where v: "predict cs q (past * n + n * 2) B' = Some v" "length v = past * n + n * 2"
    using predict_total [of B' cs "past * n + n * 2" q] t q(2) by (auto simp: burg_ok_def)
  then show ?thesis using q t c S assms(1)
    by (simp add: predict_packet_def channel_ok_def mem_read_def mem_write_def)
qed

text \<open>Filling a vector position by position.\<close>

lemma fill_vector:
  assumes "\<And>i. i < n \<Longrightarrow> f i = Some (g i)" and "length v = n"
  shows "iter_opt (\<lambda>i v. f i \<bind> vec_set v i) [0..<n] v = Some (map g [0..<n])"
proof -
  have "\<exists>w. iter_opt (\<lambda>i v. f i \<bind> vec_set v i) [0..<n] v = Some w \<and>
      (length w = n \<and> (\<forall>i<n. w ! i = g i))"
    by (rule iter_opt_invariant [where P = "\<lambda>k w. length w = n \<and> (\<forall>i<k. w ! i = g i)"])
      (use assms in \<open>auto simp: nth_list_update less_Suc_eq\<close>)
  then obtain w where w: "iter_opt (\<lambda>i v. f i \<bind> vec_set v i) [0..<n] v = Some w" "length w = n" "\<forall>i<n. w ! i = g i"
    by blast
  then have "w = map g [0..<n]" by (simp add: list_eq_iff_nth_eq)
  then show ?thesis using w(1) by simp
qed

text \<open>What a channel plays.\<close>

definition played :: "bool \<Rightarrow> bool \<Rightarrow> bool \<Rightarrow> burg_setup \<Rightarrow> flt list \<Rightarrow> flt list \<Rightarrow> flt list \<Rightarrow> nat \<Rightarrow> flt" where
  "played glitch primed lastWasGlitch S packet predicted future s =
     (if glitch then (if primed then predicted ! s else Fin 0)
      else if lastWasGlitch then s_add (s_mul (fadeDown S ! s) (future ! s)) (s_mul (fadeUp S ! s) (packet ! s))
      else packet ! s)"

lemma shift_past_total:
  assumes "length ps = past" and "\<forall>p\<in>set ps. length p = n"
  shows "\<exists>qs. iter_opt (\<lambda>i qs. do {
         newer \<leftarrow> vec_get qs (i + 1);
         newer \<leftarrow> mem_read newer 0 n;
         older \<leftarrow> vec_get qs i;
         older \<leftarrow> mem_write older 0 newer;
         vec_set qs i older
       }) [0..<past - 1] ps = Some qs \<and> (length qs = past \<and> (\<forall>p\<in>set qs. length p = n))"
proof (rule iter_opt_keeps)
  fix k qs
  assume k: "k < past - 1" and q: "length (qs :: 'a list list) = past \<and> (\<forall>p\<in>set qs. length p = n)"
  have len: "length (qs ! k) = n" "length (qs ! Suc k) = n" using k q by auto
  then have "\<forall>p\<in>set (qs[k := qs ! Suc k]). length p = n" using q set_update_subset_insert [of qs k] by auto
  then show "\<exists>u. (vec_get qs (k + 1) \<bind> (\<lambda>newer. mem_read newer 0 n \<bind> (\<lambda>newer. vec_get qs k \<bind>
      (\<lambda>older. mem_write older 0 newer \<bind> vec_set qs k)))) = Some u \<and> length u = past \<and> (\<forall>p\<in>set u. length p = n)"
    using k q len by (simp add: mem_read_all mem_write_all)
qed (use assms in simp)

lemma burg_channel_total:
  assumes c: "channel_ok n past c" and S: "setup_ok n past S" and B: "burg_ok (past * n) B"
  shows "\<exists>B' c'. burg_channel glitch primed lastWasGlitch S (B, c) = Some (B', c') \<and> channel_ok n past c' \<and>
    burg_ok (past * n) B' \<and> (\<not> glitch \<longrightarrow> B' = B) \<and>
    mTmpFloatBuf c' = map (played glitch primed lastWasGlitch S (mTmpFloatBuf c) (predictedNowPacket c')
      (futurePredictedPacket c)) [0..<n]"
proof -
  have n: "setup_fpp S = n" "setup_past S = past" "0 < n" "0 < past" "length (fadeUp S) = n" "length (fadeDown S) = n"
    using S by (simp_all add: setup_ok_def)
  let ?packet = "if glitch then replicate n (Fin 0) else mTmpFloatBuf c"
  let ?c1 = "c\<lparr>realNowPacket := ?packet\<rparr>"
  have tmp: "length (mTmpFloatBuf c) = n" "length (realNowPacket c) = n" using c by (simp_all add: channel_ok_def)
  have c1: "channel_ok n past ?c1" using c by (simp add: channel_ok_def)
  obtain c2 where c2: "(if glitch then Some ?c1 else ringBufferPush ?c1) = Some c2" "channel_ok n past c2"
    "realNowPacket c2 = ?packet" "predictedPast c2 = predictedPast c" "futurePredictedPacket c2 = futurePredictedPacket c"
    using ringBufferPush_total [OF c1] c1 by (cases glitch) auto
  obtain c3 where c3: "(if primed then recall_past S c2 else Some c2) = Some c3" "channel_ok n past c3"
    "realNowPacket c3 = ?packet" "predictedPast c3 = predictedPast c" "futurePredictedPacket c3 = futurePredictedPacket c"
    using recall_past_total [OF c2(2) S] c2 by (cases primed) auto
  obtain B' c4 where c4: "(if glitch then predict_packet S (B, c3) else Some (B, c3)) = Some (B', c4)"
    "channel_ok n past c4" "burg_ok (past * n) B'" "realNowPacket c4 = ?packet" "predictedPast c4 = predictedPast c"
    "futurePredictedPacket c4 = futurePredictedPacket c" "\<not> glitch \<longrightarrow> B' = B"
    using predict_packet_total [OF c3(2) S B] c3 B by (cases glitch) auto
  let ?play = "played glitch primed lastWasGlitch S (mTmpFloatBuf c) (predictedNowPacket c4) (futurePredictedPacket c)"
  have out: "iter_opt (\<lambda>s out. output_sample glitch primed lastWasGlitch S c4 s \<bind> vec_set out s) [0..<n] (outputNowPacket c4) =
      Some (map ?play [0..<n])"
    using c4 n tmp c by (intro fill_vector) (auto simp: channel_ok_def output_sample_def played_def)
  have past: "length (predictedPast c4) = past" "\<forall>p\<in>set (predictedPast c4). length p = n"
    using c4(2) by (simp_all add: channel_ok_def)
  obtain qs where qs: "iter_opt (\<lambda>i qs. do {
         newer \<leftarrow> vec_get qs (i + 1);
         newer \<leftarrow> mem_read newer 0 n;
         older \<leftarrow> vec_get qs i;
         older \<leftarrow> mem_write older 0 newer;
         vec_set qs i older
       }) [0..<past - 1] (predictedPast c4) = Some qs" "length qs = past" "\<forall>p\<in>set qs. length p = n"
    using shift_past_total [OF past] by blast
  have newest: "length (qs ! (past - 1)) = n" using qs n by auto
  have shifted: "\<forall>p\<in>set (qs[past - 1 := map ?play [0..<n]]). length p = n"
    using qs(3) set_update_subset_insert [of qs "past - 1"] by fastforce
  have pred: "length (prediction c4) = past * n + n * 2" "length (futurePredictedPacket c4) = n" "length (mTmpFloatBuf c4) = n"
    using c4(2) by (simp_all add: channel_ok_def)
  let ?future = "take n (drop ((past + 1) * n) (prediction c4))"
  have future: "mem_read (prediction c4) ((past + 1) * n) n = Some ?future" "length ?future = n"
    using pred by (simp_all add: mem_read_def)
  let ?c = "c4\<lparr>outputNowPacket := map ?play [0..<n], mTmpFloatBuf := map ?play [0..<n],
      predictedPast := qs[past - 1 := map ?play [0..<n]], futurePredictedPacket := ?future\<rparr>"
  have "burg_channel glitch primed lastWasGlitch S (B, c) = Some (B', ?c)"
    unfolding burg_channel_def Let_def prod.case n
    using c2(1) c3(1) c4(1) tmp out qs newest n future pred
    by (cases glitch; cases primed) (simp_all add: mem_read_all mem_write_all)
  moreover have "channel_ok n past ?c" using c4(2) qs shifted future(2) by (simp add: channel_ok_def)
  ultimately show ?thesis using c4(3,7)
    by (intro exI [of _ B'] exI [of _ ?c]) auto
qed

end
