(* ===== verification/RegulatorStatsSpec.thy ===== *)
theory RegulatorStatsSpec
  imports RegulatorStats
begin

text \<open>
  What the statistics of the concealment keep: windows inside of their data, long-term maxima
  within bounds through all roundings, and a square root that is the nearest one.  The baseline of
  the first windows divides by one too few.
\<close>

section \<open>Rounded values\<close>

lemma dbl_rep_round [simp]: "dbl_rep (dbl_round x)"
proof (cases "x = 0")
  case True
  then show ?thesis using dbl_rep_of_int [of 0] by (simp add: dbl_round_def fl_round_def)
next
  case False
  define e where "e = max (ilog2 \<bar>x\<bar> - 52) (-1074)"
  have r: "dbl_round x = of_int (rne (x / 2 powi e)) * 2 powi e"
    using False by (simp add: dbl_round_def fl_round_def e_def Let_def)
  have "\<bar>x\<bar> < 2 powi (ilog2 \<bar>x\<bar> + 1)" using ilog2_bounds(2) [of "\<bar>x\<bar>"] False by simp
  also have "\<dots> \<le> 2 powi (53 + e)" by (rule power_int_increasing) (simp_all add: e_def)
  finally have "\<bar>x\<bar> < 2 powi 53 * 2 powi e" by (simp add: power_int_add)
  then have "\<bar>x\<bar> / 2 powi e < 2 powi 53" by (simp add: divide_less_eq)
  then have b: "\<bar>x / 2 powi e\<bar> \<le> of_int (2 ^ 53)" by (simp add: abs_divide power_int_abs)
  then have "x / 2 powi e \<le> of_int (2 ^ 53)" "of_int (- (2 ^ 53)) \<le> x / 2 powi e"
    unfolding abs_le_iff of_int_minus by linarith+
  then have "rne (x / 2 powi e) \<le> 2 ^ 53" "- (2 ^ 53) \<le> rne (x / 2 powi e)"
    by (blast intro: rne_le rne_ge)+
  then have "\<bar>rne (x / 2 powi e)\<bar> \<le> 2 ^ 53" by linarith
  moreover have "-1074 \<le> e" by (simp add: e_def)
  ultimately show ?thesis unfolding dbl_rep_def fl_rep_def r by blast
qed

lemma dbl_rep_minus: "dbl_rep x \<Longrightarrow> dbl_rep (- x)"
  unfolding dbl_rep_def fl_rep_def
proof (elim exE conjE)
  fix m e :: int
  assume "x = of_int m * 2 powi e" "\<bar>m\<bar> \<le> 2 ^ 53" "-1074 \<le> e"
  then show "\<exists>m e. - x = of_int m * 2 powi e \<and> \<bar>m\<bar> \<le> 2 ^ 53 \<and> -1074 \<le> e"
    by (intro exI [of _ "- m"] exI [of _ e]) simp
qed

lemma dbl_rep_pow: "- 1074 \<le> e \<Longrightarrow> dbl_rep (2 powi e)"
  unfolding dbl_rep_def fl_rep_def by (intro exI [of _ 1] exI [of _ e]) simp

lemma dbl_round_bounds:
  assumes "dbl_rep a" and "dbl_rep b" and "a \<le> x" and "x \<le> b"
  shows "a \<le> dbl_round x \<and> dbl_round x \<le> b"
  using assms dbl_round_ge dbl_round_le by blast

lemma dbl_rep_numeral [simp]: "(numeral n :: int) \<le> 9007199254740992 \<Longrightarrow> dbl_rep (numeral n)"
  using dbl_rep_of_int [of "numeral n"] by simp

lemma dbl_rep_0 [simp]: "dbl_rep 0" and dbl_rep_1 [simp]: "dbl_rep 1"
  using dbl_rep_of_int [of 0] dbl_rep_of_int [of 1] by simp_all

section \<open>The square root\<close>

lemma isqrt_bounds: "isqrt n * isqrt n \<le> n \<and> n < (isqrt n + 1) * (isqrt n + 1)"
proof (induction n rule: isqrt.induct)
  case (1 n)
  show ?case
  proof (cases "n = 0")
    case False
    define r where "r = isqrt (n div 4)"
    have ih: "r * r \<le> n div 4" "n div 4 < (r + 1) * (r + 1)" using 1 False by (simp_all add: r_def)
    have "4 * (r * r) \<le> n" "n < 4 * ((r + 1) * (r + 1))" using ih by linarith+
    then have "(2 * r) * (2 * r) \<le> n" "n < (2 * r + 2) * (2 * r + 2)" by (simp_all add: algebra_simps)
    moreover have "isqrt n = (if (2 * r + 1) * (2 * r + 1) \<le> n then 2 * r + 1 else 2 * r)"
      using False by (subst isqrt.simps) (simp add: r_def Let_def)
    ultimately show ?thesis by (simp add: add.commute)
  qed (simp add: isqrt.simps)
qed

section \<open>The smoothed values\<close>

lemma smoothing_factor: "0 \<le> AutoSmoothingFactor \<and> AutoSmoothingFactor \<le> 1 / 256"
proof -
  have "dbl_rep (1 / 256)" using dbl_rep_pow [of "- 8"] by (simp add: power_int_minus)
  then show ?thesis unfolding AutoSmoothingFactor_def
    by (intro dbl_round_bounds) (simp_all add: WindowDivisor_def AutoHistoryWindow_def)
qed

lemma smooth_bounds:
  assumes "dbl_rep avg" and "0 \<le> avg" and "avg \<le> 262144" and "0 \<le> current" and "current \<le> 512"
  shows "dbl_rep (smooth avg current) \<and> 0 \<le> smooth avg current \<and> smooth avg current \<le> 262144"
proof -
  let ?y = "dbl_sub current avg" and ?f = AutoSmoothingFactor
  let ?t = "dbl_mul ?f ?y"
  have f: "0 \<le> ?f" "?f \<le> 1 / 256" using smoothing_factor by auto
  show ?thesis
  proof (cases "current \<le> avg")
    case True
    have y: "- avg \<le> ?y \<and> ?y \<le> 0" unfolding dbl_sub_def
      by (rule dbl_round_bounds) (use assms True in \<open>simp_all add: dbl_rep_minus\<close>)
    have "?f * avg \<le> 1 * avg" using f assms(2) by (intro mult_right_mono) auto
    moreover have "?f * - avg \<le> ?f * ?y" using y f by (intro mult_left_mono) auto
    ultimately have "- avg \<le> ?f * ?y" by simp
    moreover have "?f * ?y \<le> 0" using y f by (simp add: mult_nonneg_nonpos)
    ultimately have t: "- avg \<le> ?t \<and> ?t \<le> 0" unfolding dbl_mul_def
      by (intro dbl_round_bounds) (use assms in \<open>simp_all add: dbl_rep_minus\<close>)
    have "0 \<le> smooth avg current \<and> smooth avg current \<le> avg" unfolding smooth_def dbl_add_def
      by (rule dbl_round_bounds) (use t assms in auto)
    then show ?thesis using assms(3) by (simp add: smooth_def dbl_add_def)
  next
    case False
    have y: "0 \<le> ?y \<and> ?y \<le> 512" unfolding dbl_sub_def
      by (rule dbl_round_bounds) (use assms False in simp_all)
    have "?f * ?y \<le> 1 / 256 * 512" using f y by (intro mult_mono) auto
    then have t: "0 \<le> ?t \<and> ?t \<le> 2" unfolding dbl_mul_def
      by (intro dbl_round_bounds) (use f y in simp_all)
    have "0 \<le> smooth avg current \<and> smooth avg current \<le> 514" unfolding smooth_def dbl_add_def
      by (rule dbl_round_bounds) (use t assms False in auto)
    then show ?thesis by (simp add: smooth_def dbl_add_def)
  qed
qed

section \<open>Windows\<close>

definition stat_inv :: "StdDev \<Rightarrow> bool" where
  "stat_inv d \<longleftrightarrow> 0 < stat_window d \<and> stat_window d \<le> int (length (stat_data d)) \<and>
     int (stat_ctr d) < stat_window d \<and> (stat_ctr d = 0 \<or> 0 \<le> stat_max d \<and> stat_max d \<le> 512) \<and>
     dbl_rep (stat_max d) \<and> 0 \<le> longTermCnt d \<and> dbl_rep (longTermMax d) \<and> 0 \<le> longTermMax d \<and> longTermMax d \<le> 262144 \<and>
     0 \<le> longTermMaxAcc d \<and> (longTermCnt d \<le> 481 \<longrightarrow> longTermMaxAcc d \<le> of_int (512 * max 1 (longTermCnt d - 3)))"

lemma StdDev_new_inv:
  assumes "8 \<le> w"
  shows "\<exists>d. StdDev_new g w = Some d \<and> stat_inv d \<and> lastTime d = 0 \<and> plcOverruns d = 0 \<and> plcUnderruns d = 0 \<and>
    longTermCnt d = 0"
  using assms cxx_div_pos [of w 8] dbl_rep_minus [of 999999] by (auto simp: StdDev_new_def stat_inv_def WindowDivisor_def)

lemma tick_elapsed_nonneg:
  assumes "tick_elapsed p c k d = (ms, d')" and "lastTime d \<le> msecs k"
  shows "0 \<le> ms \<and> dbl_rep ms"
proof -
  have "0 \<le> dbl_sub (msecs k) (lastTime d)"
    using assms(2) dbl_round_ge [of 0 "msecs k - lastTime d"] by (simp add: dbl_sub_def)
  then show ?thesis using assms(1) by (auto simp: tick_elapsed_def dbl_sub_def Let_def split: if_splits)
qed

lemma tick_elapsed_keeps:
  assumes "tick_elapsed p c k d = (ms, d')"
  shows "\<exists>t. d' = d\<lparr>lastTime := t\<rparr> \<and> (t = c \<or> t = msecs k)"
  using assms by (auto simp: tick_elapsed_def Let_def split: if_splits)

lemma tick_record_inv:
  assumes "stat_inv d" and "0 \<le> ms" and "ms \<le> 512" and "dbl_rep ms"
  shows "\<exists>d'. tick_record ms d = Some d' \<and> stat_ctr d' = stat_ctr d + 1 \<and> 0 \<le> stat_max d' \<and> stat_max d' \<le> 512 \<and>
    dbl_rep (stat_max d') \<and> stat_window d' = stat_window d \<and> length (stat_data d') = length (stat_data d) \<and> longTermCnt d' = longTermCnt d \<and>
    longTermMax d' = longTermMax d \<and> longTermMaxAcc d' = longTermMaxAcc d \<and> lastTime d' = lastTime d \<and>
    plcOverruns d' = plcOverruns d \<and> plcUnderruns d' = plcUnderruns d"
  using assms by (auto simp: tick_record_def stat_inv_def Let_def)

lemma long_term_inv:
  assumes "0 \<le> stat_max d" and "stat_max d \<le> 512" and "0 \<le> longTermCnt d"
    and "dbl_rep (longTermMax d)" and "0 \<le> longTermMax d" and "longTermMax d \<le> 262144"
    and "0 \<le> longTermMaxAcc d"
    and "longTermCnt d \<le> 481 \<longrightarrow> longTermMaxAcc d \<le> of_int (512 * max 1 (longTermCnt d - 3))"
    and "dbl_rep (stat_max d)"
  shows "\<exists>d'. long_term s d = Some d' \<and> dbl_rep (longTermMax d') \<and> 0 \<le> longTermMax d' \<and> longTermMax d' \<le> 262144 \<and>
    0 \<le> longTermMaxAcc d' \<and>
    (longTermCnt d + 1 \<le> 481 \<longrightarrow> longTermMaxAcc d' \<le> of_int (512 * max 1 (longTermCnt d - 2))) \<and>
    longTermCnt d' = longTermCnt d \<and> stat_window d' = stat_window d \<and> stat_data d' = stat_data d \<and>
    lastTime d' = lastTime d \<and> plcOverruns d' = plcOverruns d \<and> plcUnderruns d' = plcUnderruns d"
proof (cases "longTermCnt d \<le> 3")
  case True
  then show ?thesis using assms by (auto simp: long_term_def max_def)
next
  case False
  let ?acc = "dbl_add (longTermMaxAcc d) (stat_max d)" and ?n = "longTermCnt d - 3"
  have acc: "0 \<le> ?acc" using dbl_round_ge [of 0 "longTermMaxAcc d + stat_max d"] assms(1,7) by (simp add: dbl_add_def)
  show ?thesis
  proof (cases "longTermCnt d \<le> 480")
    case early: True
    have "longTermMaxAcc d \<le> of_int (512 * ?n)" using assms(8) early False by (simp add: max_def)
    then have "longTermMaxAcc d + stat_max d \<le> of_int (512 * (?n + 1))" using assms(2) by simp
    then have acc2: "?acc \<le> of_int (512 * (?n + 1))"
      unfolding dbl_add_def using early False by (intro dbl_round_le dbl_rep_of_int) auto
    have "512 * (?n + 1) \<le> 262144" using early by simp
    then have "(of_int (512 * (?n + 1)) :: rat) \<le> of_int 262144" by (simp only: of_int_le_iff)
    then have small: "?acc \<le> 262144" using acc2 by simp
    have "?acc / of_int ?n \<le> ?acc / 1" using acc False by (intro divide_left_mono) auto
    then have "0 \<le> dbl_round (?acc / of_int ?n) \<and> dbl_round (?acc / of_int ?n) \<le> 262144"
      using acc small False by (intro dbl_round_bounds) auto
    moreover have "dbl_div y (of_int ?n) = Some (dbl_round (y / of_int ?n))" for y using False by (simp add: dbl_div_def)
    ultimately show ?thesis using False early acc acc2
      by (auto simp: long_term_def Let_def WindowDivisor_def AutoHistoryWindow_def max_def)
  next
    case late: False
    then show ?thesis using False smooth_bounds [OF assms(4-6,1,2)] acc
      by (auto simp: long_term_def Let_def WindowDivisor_def AutoHistoryWindow_def)
  qed
qed

lemma tick_inv:
  assumes "stat_inv d" and "lastTime d \<le> msecs k" and "longTermCnt d < 2147483647"
  shows "\<exists>u d'. tick p c k d = Some (u, d') \<and> stat_inv d' \<and> (lastTime d' = c \<or> lastTime d' = msecs k) \<and>
    longTermCnt d \<le> longTermCnt d' \<and> longTermCnt d' \<le> longTermCnt d + 1 \<and>
    plcOverruns d' = plcOverruns d \<and> plcUnderruns d' = plcUnderruns d"
proof -
  obtain ms e where e: "tick_elapsed p c k d = (ms, e)" by (cases "tick_elapsed p c k d") auto
  have ms: "0 \<le> ms" "dbl_rep ms" using tick_elapsed_nonneg [OF e assms(2)] by auto
  obtain t where t: "e = d\<lparr>lastTime := t\<rparr>" "t = c \<or> t = msecs k" using tick_elapsed_keeps [OF e] by blast
  have inv: "stat_inv e" using assms(1) by (simp add: t stat_inv_def)
  show ?thesis
  proof (cases "512 < ms")
    case True
    then show ?thesis using e t inv by (auto simp: tick_def gUdpWaitTimeoutMs_def)
  next
    case False
    obtain f where f: "tick_record ms e = Some f" "stat_ctr f = stat_ctr e + 1" "0 \<le> stat_max f" "stat_max f \<le> 512"
      "dbl_rep (stat_max f)" "stat_window f = stat_window e" "length (stat_data f) = length (stat_data e)"
      "longTermCnt f = longTermCnt e" "longTermMax f = longTermMax e" "longTermMaxAcc f = longTermMaxAcc e"
      "lastTime f = lastTime e" "plcOverruns f = plcOverruns e" "plcUnderruns f = plcUnderruns e"
      using tick_record_inv [OF inv ms(1) _ ms(2)] False by auto
    have i: "0 < stat_window e" "stat_window e \<le> int (length (stat_data e))" "0 \<le> longTermCnt e"
      "dbl_rep (longTermMax e)" "0 \<le> longTermMax e" "longTermMax e \<le> 262144" "0 \<le> longTermMaxAcc e"
      "longTermCnt e \<le> 481 \<longrightarrow> longTermMaxAcc e \<le> of_int (512 * max 1 (longTermCnt e - 3))"
      using inv by (simp_all add: stat_inv_def)
    show ?thesis
    proof (cases "int (stat_ctr f) < stat_window f")
      case True
      then have "stat_inv f" using f i by (simp add: stat_inv_def)
      then show ?thesis using True e False f t by (auto simp: tick_def gUdpWaitTimeoutMs_def)
    next
      case full: False
      let ?mean = "dbl_round (stat_acc f / of_int (stat_window f))"
      have mean: "dbl_div y (of_int (stat_window f)) = Some (dbl_round (y / of_int (stat_window f)))" for y
        using i(1) f(6) by (simp add: dbl_div_def)
      obtain dev where dev: "window_deviation ?mean f = Some dev"
        by (simp add: window_deviation_def mean Let_def)
      let ?f = "f\<lparr>stat_ctr := 0, stat_mean := ?mean\<rparr>"
      obtain g where g: "long_term dev ?f = Some g" "dbl_rep (longTermMax g)" "0 \<le> longTermMax g" "longTermMax g \<le> 262144"
        "0 \<le> longTermMaxAcc g"
        "longTermCnt f + 1 \<le> 481 \<longrightarrow> longTermMaxAcc g \<le> of_int (512 * max 1 (longTermCnt f - 2))"
        "longTermCnt g = longTermCnt f" "stat_window g = stat_window f" "stat_data g = stat_data f"
        "lastTime g = lastTime f" "plcOverruns g = plcOverruns f" "plcUnderruns g = plcUnderruns f"
        using long_term_inv [of ?f dev] f i by auto
      let ?g = "stat_reset (g\<lparr>longTermCnt := longTermCnt f + 1, lastMean := ?mean, lastStdDev := dev\<rparr>)"
      have cnt: "checked_int (longTermCnt f + 1) = Some (longTermCnt f + 1)"
        using assms(3) i(3) f(8) t by (simp add: int32_range_def)
      have "close_window f = Some ?g"
        using mean dev g(1,7) cnt by (simp add: close_window_def)
      moreover have "stat_inv ?g"
        using g f i by (simp add: stat_inv_def stat_reset_def dbl_rep_minus)
      ultimately show ?thesis using full e False f g t
        by (auto simp: tick_def gUdpWaitTimeoutMs_def stat_reset_def)
    qed
  qed
qed

section \<open>The baseline\<close>

text \<open>Intervals of the same length.\<close>

fun steady_ticks :: "nat \<Rightarrow> dbl \<Rightarrow> int \<Rightarrow> StdDev \<Rightarrow> StdDev option" where
  "steady_ticks 0 m k d = Some d"
| "steady_ticks (Suc n) m k d = do { (_, d) \<leftarrow> tick 0 m k d; steady_ticks n m k d }"

lemma steady_ticks_add:
  "steady_ticks (i + j) m k d = steady_ticks i m k d \<bind> steady_ticks j m k"
  by (induction i arbitrary: d) (auto split: Option.bind_split)

definition steady_inv :: "nat \<Rightarrow> dbl \<Rightarrow> StdDev \<Rightarrow> bool" where
  "steady_inv W m d \<longleftrightarrow> stat_window d = int W \<and> W \<le> length (stat_data d) \<and> stat_ctr d < W \<and>
     (0 < stat_ctr d \<longrightarrow> stat_max d = m) \<and> 0 \<le> longTermCnt d \<and> longTermCnt d < 1000"

lemma steady_record:
  assumes "steady_inv W m d" and "0 < m" and "m \<le> 512" and "dbl_rep m"
  shows "\<exists>e. tick_record m (d\<lparr>lastTime := m\<rparr>) = Some e \<and> stat_ctr e = stat_ctr d + 1 \<and> stat_max e = m \<and>
    stat_window e = int W \<and> length (stat_data e) = length (stat_data d) \<and> longTermCnt e = longTermCnt d \<and>
    longTermMax e = longTermMax d \<and> longTermMaxAcc e = longTermMaxAcc d"
  using assms by (auto simp: tick_record_def steady_inv_def Let_def)

lemma steady_elapsed: "dbl_rep m \<Longrightarrow> 0 < m \<Longrightarrow> tick_elapsed 0 m k d = (m, d\<lparr>lastTime := m\<rparr>)"
  by (simp add: tick_elapsed_def dbl_sub_def)

lemma steady_within:
  assumes "steady_inv W m d" and "0 < m" and "m \<le> 512" and "dbl_rep m" and "stat_ctr d + 1 < W"
  shows "\<exists>u d'. tick 0 m k d = Some (u, d') \<and> steady_inv W m d' \<and> stat_ctr d' = stat_ctr d + 1 \<and>
    longTermCnt d' = longTermCnt d \<and> longTermMax d' = longTermMax d \<and> longTermMaxAcc d' = longTermMaxAcc d"
proof -
  obtain e where e: "tick_record m (d\<lparr>lastTime := m\<rparr>) = Some e" "stat_ctr e = stat_ctr d + 1" "stat_max e = m"
    "stat_window e = int W" "length (stat_data e) = length (stat_data d)" "longTermCnt e = longTermCnt d"
    "longTermMax e = longTermMax d" "longTermMaxAcc e = longTermMaxAcc d"
    using steady_record [OF assms(1-4)] by blast
  then show ?thesis using assms steady_elapsed [OF assms(4,2)]
    by (auto simp: tick_def gUdpWaitTimeoutMs_def steady_inv_def)
qed

lemma steady_close:
  assumes "steady_inv W m d" and "0 < m" and "m \<le> 512" and "dbl_rep m" and "stat_ctr d + 1 = W"
    and "longTermCnt d \<le> 4"
  shows "\<exists>u d'. tick 0 m k d = Some (u, d') \<and> steady_inv W m d' \<and> stat_ctr d' = 0 \<and>
    longTermCnt d' = longTermCnt d + 1 \<and>
    longTermMaxAcc d' = (if longTermCnt d \<le> 3 then m else dbl_add (longTermMaxAcc d) m) \<and>
    longTermMax d' = (if longTermCnt d \<le> 3 then m else dbl_add (longTermMaxAcc d) m)"
proof -
  obtain e where e: "tick_record m (d\<lparr>lastTime := m\<rparr>) = Some e" "stat_ctr e = stat_ctr d + 1" "stat_max e = m"
    "stat_window e = int W" "length (stat_data e) = length (stat_data d)" "longTermCnt e = longTermCnt d"
    "longTermMax e = longTermMax d" "longTermMaxAcc e = longTermMaxAcc d"
    using steady_record [OF assms(1-4)] by blast
  have W: "0 < W" using assms(5) by simp
  have mean: "dbl_div y (of_int (stat_window e)) = Some (dbl_round (y / of_int (stat_window e)))" for y
    using e(4) W by (simp add: dbl_div_def)
  obtain dev where dev: "window_deviation (dbl_round (stat_acc e / of_int (stat_window e))) e = Some dev"
    by (simp add: window_deviation_def mean Let_def)
  have cnt: "checked_int (longTermCnt d + 1) = Some (longTermCnt d + 1)"
    using assms(1) by (simp add: steady_inv_def int32_range_def)
  have one: "dbl_div (dbl_add y z) 1 = Some (dbl_add y z)" for y z by (simp add: dbl_div_def dbl_add_def)
  have ctr: "\<not> int (stat_ctr e) < stat_window e" using e(2,4) assms(5) by simp
  have el: "tick_elapsed 0 m k d = (m, d\<lparr>lastTime := m\<rparr>)" by (rule steady_elapsed [OF assms(4,2)])
  show ?thesis
  proof (cases "longTermCnt d \<le> 3")
    case True
    then show ?thesis
      using assms(1,3,6) W e el ctr mean dev cnt
      by (auto simp: tick_def gUdpWaitTimeoutMs_def close_window_def long_term_def stat_reset_def steady_inv_def)
  next
    case False
    then have four: "longTermCnt d = 4" using assms(6) by simp
    obtain s where "dbl_div (dbl_add (longTermStdDevAcc e) dev) 1 = Some s" using one by blast
    then show ?thesis
      using assms(1,3) W e el ctr mean dev cnt four one
      by (auto simp: tick_def gUdpWaitTimeoutMs_def close_window_def long_term_def stat_reset_def steady_inv_def
          WindowDivisor_def AutoHistoryWindow_def Let_def)
  qed
qed

lemma steady_window:
  assumes "steady_inv W m d" and "0 < m" and "m \<le> 512" and "dbl_rep m" and "longTermCnt d \<le> 4"
    and "stat_ctr d + n = W" and "0 < n"
  shows "\<exists>d'. steady_ticks n m k d = Some d' \<and> steady_inv W m d' \<and> stat_ctr d' = 0 \<and>
    longTermCnt d' = longTermCnt d + 1 \<and>
    longTermMaxAcc d' = (if longTermCnt d \<le> 3 then m else dbl_add (longTermMaxAcc d) m) \<and>
    longTermMax d' = (if longTermCnt d \<le> 3 then m else dbl_add (longTermMaxAcc d) m)"
  using assms
proof (induction n arbitrary: d)
  case (Suc n)
  show ?case
  proof (cases "n = 0")
    case True
    then show ?thesis using steady_close [of W m d k] Suc.prems by auto
  next
    case False
    then obtain u e where e: "tick 0 m k d = Some (u, e)" "steady_inv W m e" "stat_ctr e = stat_ctr d + 1"
      "longTermCnt e = longTermCnt d" "longTermMax e = longTermMax d" "longTermMaxAcc e = longTermMaxAcc d"
      using steady_within [of W m d k] Suc.prems by auto
    then show ?thesis using Suc.IH [of e] Suc.prems False by (cases "longTermCnt d \<le> 3") simp_all
  qed
qed simp

text \<open>
  The baseline of the long-term maximum is too high at first: when every interval has the same length,
  the maximum is that length after four windows and twice that length after the fifth.
\<close>

lemma baseline_doubled:
  assumes "8 \<le> w" and "StdDev_new g w = Some d" and "0 < m" and "m \<le> 512" and "dbl_rep m"
  shows "\<exists>d4 d5. steady_ticks (4 * nat (w div 8)) m k d = Some d4 \<and> longTermMax d4 = m \<and>
    steady_ticks (5 * nat (w div 8)) m k d = Some d5 \<and> longTermMax d5 = 2 * m"
proof -
  let ?W = "nat (w div 8)"
  have W: "0 < ?W" "cxx_div w 8 = Some (w div 8)" using assms(1) cxx_div_pos [of w 8] by simp_all
  have "w div 8 \<le> w" using assms(1) by simp
  then have d: "steady_inv ?W m d" "stat_ctr d = 0" "longTermCnt d = 0"
    using assms(1,2) W by (auto simp: StdDev_new_def steady_inv_def WindowDivisor_def)
  note window = steady_window [OF _ assms(3-5), where W = ?W and n = ?W and k = k]
  obtain d1 where d1: "steady_ticks ?W m k d = Some d1" "steady_inv ?W m d1" "stat_ctr d1 = 0" "longTermCnt d1 = 1"
    using window [of d] d W by auto
  obtain d2 where d2: "steady_ticks ?W m k d1 = Some d2" "steady_inv ?W m d2" "stat_ctr d2 = 0" "longTermCnt d2 = 2"
    using window [of d1] d1 W by auto
  obtain d3 where d3: "steady_ticks ?W m k d2 = Some d3" "steady_inv ?W m d3" "stat_ctr d3 = 0" "longTermCnt d3 = 3"
    using window [of d2] d2 W by auto
  obtain d4 where d4: "steady_ticks ?W m k d3 = Some d4" "steady_inv ?W m d4" "stat_ctr d4 = 0" "longTermCnt d4 = 4"
    "longTermMax d4 = m" "longTermMaxAcc d4 = m"
    using window [of d3] d3 W by auto
  obtain d5 where d5: "steady_ticks ?W m k d4 = Some d5" "longTermMax d5 = dbl_add m m"
    using window [of d4] d4 W by auto
  have "dbl_rep (2 * m)"
  proof -
    obtain a e where "m = of_int a * 2 powi e" "\<bar>a\<bar> \<le> 2 ^ 53" "-1074 \<le> e"
      using assms(5) by (auto simp: dbl_rep_def fl_rep_def)
    then show ?thesis unfolding dbl_rep_def fl_rep_def
      by (intro exI [of _ a] exI [of _ "e + 1"]) (simp add: power_int_add)
  qed
  then have "dbl_add m m = 2 * m" by (simp add: dbl_add_def)
  moreover have four: "steady_ticks (?W + (?W + (?W + ?W))) m k d = Some d4"
    using d1(1) d2(1) d3(1) d4(1) by (simp add: steady_ticks_add)
  moreover have "steady_ticks ((?W + (?W + (?W + ?W))) + ?W) m k d = Some d5"
    by (simp only: steady_ticks_add [of "?W + (?W + (?W + ?W))" ?W] four) (simp add: d5(1))
  moreover have "4 * ?W = ?W + (?W + (?W + ?W))" "5 * ?W = (?W + (?W + (?W + ?W))) + ?W" by simp_all
  ultimately show ?thesis using d4(5) d5(2) by (simp only:) blast
qed

lemma baseline_doubled_witness:
  "\<exists>d d4 d5. StdDev_new 0 80 = Some d \<and> steady_ticks 40 10 0 d = Some d4 \<and> longTermMax d4 = 10 \<and>
    steady_ticks 50 10 0 d = Some d5 \<and> longTermMax d5 = 20"
proof -
  have "cxx_div 80 8 = Some (10::int)" by (simp add: cxx_div_pos)
  then obtain d where d: "StdDev_new 0 80 = Some d" by (auto simp: StdDev_new_def WindowDivisor_def)
  have "dbl_rep 10" unfolding dbl_rep_def fl_rep_def by (intro exI [of _ 10] exI [of _ 0]) simp
  then show ?thesis using baseline_doubled [of 80 0 d 10 0] d by simp
qed

end
