(* ===== verification/RegulatorSpec.thy ===== *)
theory RegulatorSpec
  imports Regulator BurgSpec RegulatorStatsSpec
begin

text \<open>
  What the regulator promises: no operation faults and every buffer keeps its size when one packet
  length divides the other; packets that arrive in time are played once, in order and with the samples
  that the bit resolution keeps; a burst of lost packets is bridged by one predicted packet; the tolerance stays
  within its bounds and the queue of the worker fills up.  Where a precondition fails, the code
  faults: a first packet of a bad length, and packet lengths that do not divide each other.
\<close>

section \<open>The shape of the state\<close>

text \<open>Packets of the peer have \<open>n\<close> frames, those of the interface \<open>L\<close>; there are \<open>C\<close> channels and a
  history of \<open>p\<close> packets.\<close>

definition packet_bytes :: "nat \<Rightarrow> nat \<Rightarrow> Regulator \<Rightarrow> nat" where
  "packet_bytes n C r = n * mode_bytes r * C"

definition reg_shape :: "nat \<Rightarrow> nat \<Rightarrow> nat \<Rightarrow> nat \<Rightarrow> Regulator \<Rightarrow> bool" where
  "reg_shape n L C p r \<longleftrightarrow> mInitialized r \<and> 0 < n \<and> 0 < L \<and> 0 < C \<and> 0 < p \<and> mNumChannels r = int C \<and>
     mPeerFPP r = int n \<and> mLocalFPP r = int L \<and> mPacketsInThePast r = int p \<and> mBitResolutionMode r \<noteq> BIT24 \<and>
     mPeerBytes r = int (packet_bytes n C r) \<and> mLocalBytes r = int (packet_bytes L C r) \<and>
     length (mXfrBuffer r) = packet_bytes n C r \<and> (\<exists>B. ba r = Some B \<and> burg_ok (p * n) B) \<and>
     length (mChanData r) = C \<and> (\<forall>c\<in>set (mChanData r). channel_ok n p c) \<and>
     length (mFadeUp r) = n \<and> length (mFadeDown r) = n"

section \<open>Requantisation\<close>

text \<open>Every packet that is played goes through single precision: the samples of the bit resolution are decoded and
  encoded again.\<close>

definition requantize_sample :: "audioBitResolutionT \<Rightarrow> bytes \<Rightarrow> bytes" where
  "requantize_sample mode bs =
     (case fromBitToSampleConversion bs mode of None \<Rightarrow> bs
      | Some x \<Rightarrow> (case fromSampleToBitConversion (flt_bits (float_val x)) mode of None \<Rightarrow> bs | Some b \<Rightarrow> b))"

definition requantize :: "audioBitResolutionT \<Rightarrow> bytes \<Rightarrow> bytes" where
  "requantize mode bs =
     (let B = bit_resolution_code mode
      in concat (map (\<lambda>i. requantize_sample mode (take B (drop (i * B) bs))) [0..<length bs div B]))"

lemma decode_total: "length bs = bit_resolution_code mode \<Longrightarrow> \<exists>x. fromBitToSampleConversion bs mode = Some x"
  by (simp add: fromBitToSampleConversion_def mem_read_def)

lemma chunks_concat:
  assumes "length xs = k * B"
  shows "xs = concat (map (\<lambda>i. take B (drop (i * B) xs)) [0..<k])"
  using assms
proof (induction k arbitrary: xs)
  case (Suc k)
  have "take (k * B) xs = concat (map (\<lambda>i. take B (drop (i * B) (take (k * B) xs))) [0..<k])"
    using Suc.prems by (intro Suc.IH) simp
  also have "\<dots> = concat (map (\<lambda>i. take B (drop (i * B) xs)) [0..<k])"
  proof (intro arg_cong [of _ _ concat] map_cong refl)
    fix i assume "i \<in> set [0..<k]"
    then have "Suc i * B \<le> k * B" by (intro mult_le_mono1) simp
    then show "take B (drop (i * B) (take (k * B) xs)) = take B (drop (i * B) xs)"
      by (simp add: drop_take min_def)
  qed
  finally have t: "take (k * B) xs = concat (map (\<lambda>i. take B (drop (i * B) xs)) [0..<k])" .
  have "drop (k * B) xs = take B (drop (k * B) xs)" using Suc.prems by simp
  then show ?case using t append_take_drop_id [of "k * B" xs] by (metis (no_types, lifting) concat.simps(1)
        concat.simps(2) concat_append map_append self_append_conv upt_Suc_append zero_le list.map(1) list.map(2))
qed simp

text \<open>A packet whose cells are the requantised cells of another.\<close>

lemma requantize_cells:
  assumes "length xs = n * B * C" and "length ys = n * B * C" and B: "B = bit_resolution_code mode"
    and "\<And>ch s. ch < C \<Longrightarrow> s < n \<Longrightarrow> take B (drop (s * B * C + ch * B) ys) =
      requantize_sample mode (take B (drop (s * B * C + ch * B) xs))"
  shows "ys = requantize mode xs"
proof -
  have pos: "0 < B" by (cases mode) (simp_all add: B)
  have div: "length xs div B = n * C" using assms(1) pos by (simp add: mult.assoc mult.left_commute)
  have cell: "take B (drop (i * B) ys) = requantize_sample mode (take B (drop (i * B) xs))" if "i < n * C" for i
  proof -
    have "0 < C" using that by (cases C) auto
    then have "i mod C < C" "i div C < n" using that by (simp_all add: less_mult_imp_div_less)
    moreover have "i div C * B * C + i mod C * B = (i div C * C + i mod C) * B" by (simp only: algebra_simps)
    then have "i div C * B * C + i mod C * B = i * B" by simp
    ultimately show ?thesis using assms(4) [of "i mod C" "i div C"] by simp
  qed
  have "ys = concat (map (\<lambda>i. take B (drop (i * B) ys)) [0..<n * C])"
    using assms(2) by (intro chunks_concat) (simp add: algebra_simps)
  also have "\<dots> = concat (map (\<lambda>i. requantize_sample mode (take B (drop (i * B) xs))) [0..<n * C])"
    using cell by (intro arg_cong [of _ _ concat] map_cong) auto
  finally show ?thesis by (simp add: requantize_def Let_def flip: B, simp add: div)
qed

section \<open>Playing a packet\<close>

lemma each_channel_total:
  assumes "mNumChannels r = int C" and "length (mChanData r) = C"
    and "\<And>ch. ch < C \<Longrightarrow> \<exists>c'. f ch (mChanData r ! ch) = Some c' \<and> Q ch c'"
  shows "\<exists>cs. each_channel f r = Some (r\<lparr>mChanData := cs\<rparr>) \<and> length cs = C \<and> (\<forall>ch<C. Q ch (cs ! ch))"
proof -
  have "\<exists>cs. iter_opt (\<lambda>ch chans. do { c \<leftarrow> vec_get chans ch; c \<leftarrow> f ch c; vec_set chans ch c }) [0..<C] (mChanData r) =
      Some cs \<and> (length cs = C \<and> (\<forall>ch<C. Q ch (cs ! ch)) \<and> (\<forall>ch\<ge>C. cs ! ch = mChanData r ! ch))"
  proof (rule iter_opt_invariant [where P = "\<lambda>k cs. length cs = C \<and> (\<forall>ch<k. Q ch (cs ! ch)) \<and>
      (\<forall>ch\<ge>k. cs ! ch = mChanData r ! ch)"])
    fix k cs
    assume "k < C" "length cs = C \<and> (\<forall>ch<k. Q ch (cs ! ch)) \<and> (\<forall>ch\<ge>k. cs ! ch = mChanData r ! ch)"
    then show "\<exists>u. (vec_get cs k \<bind> (\<lambda>c. f k c \<bind> vec_set cs k)) = Some u \<and> length u = C \<and>
        (\<forall>ch<Suc k. Q ch (u ! ch)) \<and> (\<forall>ch\<ge>Suc k. u ! ch = mChanData r ! ch)"
      using assms(3) [of k] by (auto simp: nth_list_update less_Suc_eq)
  qed (use assms(2) in simp)
  then show ?thesis using assms(1) by (auto simp: each_channel_def)
qed

lemma reg_shape_channel: "reg_shape n L C p r \<Longrightarrow> ch < C \<Longrightarrow> channel_ok n p (mChanData r ! ch)"
  by (simp add: reg_shape_def)

definition cell_sample :: "Regulator \<Rightarrow> nat \<Rightarrow> nat \<Rightarrow> flt" where
  "cell_sample r ch s = the (bitsToSample r ch s)"

lemma bitsToSample_cell:
  assumes "reg_shape n L C p r" and "ch < C" and "s < n"
  shows "bitsToSample r ch s = Some (cell_sample r ch s)"
    and "\<exists>bs. fromBitToSampleConversion (take (mode_bytes r) (drop (s * mode_bytes r * C + ch * mode_bytes r) (mXfrBuffer r)))
        (mBitResolutionMode r) = Some bs \<and> cell_sample r ch s = float_val bs"
proof -
  let ?bs = "take (mode_bytes r) (drop (s * mode_bytes r * C + ch * mode_bytes r) (mXfrBuffer r))"
  have r: "mNumChannels r = int C" "length (mXfrBuffer r) = n * mode_bytes r * C"
    using assms(1) by (simp_all add: reg_shape_def packet_bytes_def)
  have inside: "s * mode_bytes r * C + ch * mode_bytes r + mode_bytes r \<le> n * mode_bytes r * C"
    by (rule cell_inside [OF assms(2,3)])
  then have read: "mem_read (mXfrBuffer r) (sample_offset r ch s) (mode_bytes r) = Some ?bs" "length ?bs = mode_bytes r"
    using r by (simp_all add: sample_offset_def mem_read_def)
  obtain x where x: "fromBitToSampleConversion ?bs (mBitResolutionMode r) = Some x"
    using decode_total [of ?bs "mBitResolutionMode r"] read(2) by (auto simp: mode_bytes_def)
  have "bitsToSample r ch s = Some (float_val x)" using read(1) x by (simp add: bitsToSample_def)
  then show "bitsToSample r ch s = Some (cell_sample r ch s)"
    and "\<exists>bs. fromBitToSampleConversion ?bs (mBitResolutionMode r) = Some bs \<and> cell_sample r ch s = float_val bs"
    using x by (simp_all add: cell_sample_def)
qed

lemma zero_total:
  assumes "reg_shape n L C p r"
  shows "\<exists>cs. zeroTmpFloatBuf r = Some (r\<lparr>mChanData := cs\<rparr>) \<and> reg_shape n L C p (r\<lparr>mChanData := cs\<rparr>) \<and>
    (\<forall>ch<C. futurePredictedPacket (cs ! ch) = futurePredictedPacket (mChanData r ! ch))"
proof -
  have "\<exists>cs. zeroTmpFloatBuf r = Some (r\<lparr>mChanData := cs\<rparr>) \<and> length cs = C \<and> (\<forall>ch<C. channel_ok n p (cs ! ch) \<and>
      futurePredictedPacket (cs ! ch) = futurePredictedPacket (mChanData r ! ch))"
    unfolding zeroTmpFloatBuf_def
    by (rule each_channel_total) (use assms reg_shape_channel [OF assms] in \<open>simp_all add: reg_shape_def channel_ok_def\<close>)
  then show ?thesis using assms
    by (auto simp: reg_shape_def packet_bytes_def mode_bytes_def set_conv_nth)
qed

lemma decode_packet_total:
  assumes "reg_shape n L C p r"
  shows "\<exists>cs. xfrBufferToFloatBuf r = Some (r\<lparr>mChanData := cs\<rparr>) \<and> reg_shape n L C p (r\<lparr>mChanData := cs\<rparr>) \<and>
    (\<forall>ch<C. mTmpFloatBuf (cs ! ch) = map (cell_sample r ch) [0..<n] \<and>
      futurePredictedPacket (cs ! ch) = futurePredictedPacket (mChanData r ! ch))"
proof -
  have n: "mPeerFPP r = int n" using assms by (simp add: reg_shape_def)
  have "\<exists>cs. xfrBufferToFloatBuf r = Some (r\<lparr>mChanData := cs\<rparr>) \<and> length cs = C \<and>
      (\<forall>ch<C. channel_ok n p (cs ! ch) \<and> mTmpFloatBuf (cs ! ch) = map (cell_sample r ch) [0..<n] \<and>
        futurePredictedPacket (cs ! ch) = futurePredictedPacket (mChanData r ! ch))"
    unfolding xfrBufferToFloatBuf_def
  proof (rule each_channel_total)
    fix ch assume ch: "ch < C"
    have c: "channel_ok n p (mChanData r ! ch)" using assms ch by (rule reg_shape_channel)
    have "iter_opt (\<lambda>s tmp. bitsToSample r ch s \<bind> vec_set tmp s) [0..<n] (mTmpFloatBuf (mChanData r ! ch)) =
        Some (map (cell_sample r ch) [0..<n])"
      by (rule fill_vector) (use bitsToSample_cell(1) [OF assms ch] c in \<open>simp_all add: channel_ok_def\<close>)
    then show "\<exists>c'. (iter_opt (\<lambda>s tmp. bitsToSample r ch s \<bind> vec_set tmp s) [0..<nat (mPeerFPP r)]
          (mTmpFloatBuf (mChanData r ! ch)) \<bind> (\<lambda>tmp. Some ((mChanData r ! ch)\<lparr>mTmpFloatBuf := tmp\<rparr>))) = Some c' \<and>
        channel_ok n p c' \<and> mTmpFloatBuf c' = map (cell_sample r ch) [0..<n] \<and>
        futurePredictedPacket c' = futurePredictedPacket (mChanData r ! ch)"
      using c n by (simp add: channel_ok_def)
  qed (use assms in \<open>simp_all add: reg_shape_def\<close>)
  then show ?thesis using assms
    by (auto simp: reg_shape_def packet_bytes_def mode_bytes_def set_conv_nth)
qed

lemma burg_setup_ok: "reg_shape n L C p r \<Longrightarrow> setup_ok n p (burg_setup_of r)"
  by (simp add: reg_shape_def setup_ok_def burg_setup_of_def)

lemma burg_total:
  assumes "reg_shape n L C p r" and "0 \<le> mPcnt r" and "mPcnt r < 2147483647"
  shows "\<exists>B cs. burg glitch r = Some (r\<lparr>ba := Some B, mChanData := cs, mLastWasGlitch := glitch, mPcnt := mPcnt r + 1\<rparr>) \<and>
    reg_shape n L C p (r\<lparr>ba := Some B, mChanData := cs, mLastWasGlitch := glitch, mPcnt := mPcnt r + 1\<rparr>) \<and>
    (\<forall>ch<C. mTmpFloatBuf (cs ! ch) = map (played glitch (mPacketsInThePast r < mPcnt r) (mLastWasGlitch r) (burg_setup_of r)
      (mTmpFloatBuf (mChanData r ! ch)) (predictedNowPacket (cs ! ch)) (futurePredictedPacket (mChanData r ! ch))) [0..<n])"
proof -
  let ?S = "burg_setup_of r" and ?primed = "mPacketsInThePast r < mPcnt r"
  let ?same = "\<lambda>cs ch. mTmpFloatBuf (cs ! ch) = map (played glitch ?primed (mLastWasGlitch r) ?S
      (mTmpFloatBuf (mChanData r ! ch)) (predictedNowPacket (cs ! ch)) (futurePredictedPacket (mChanData r ! ch))) [0..<n]"
  let ?f = "\<lambda>ch (B, chans). do {
         c \<leftarrow> vec_get chans ch;
         (B, c) \<leftarrow> burg_channel glitch ?primed (mLastWasGlitch r) ?S (B, c);
         chans \<leftarrow> vec_set chans ch c;
         Some (B, chans)
       }"
  obtain B where B: "ba r = Some B" "burg_ok (p * n) B" using assms(1) by (auto simp: reg_shape_def)
  have C: "length (mChanData r) = C" "mNumChannels r = int C" using assms(1) by (simp_all add: reg_shape_def)
  have "\<exists>t. iter_opt ?f [0..<C] (B, mChanData r) = Some t \<and>
      (burg_ok (p * n) (fst t) \<and> length (snd t) = C \<and> (\<forall>ch<C. channel_ok n p (snd t ! ch)) \<and>
       (\<forall>ch<C. ?same (snd t) ch) \<and> (\<forall>ch\<ge>C. snd t ! ch = mChanData r ! ch))"
  proof (rule iter_opt_invariant [where P = "\<lambda>k t. burg_ok (p * n) (fst t) \<and> length (snd t) = C \<and>
      (\<forall>ch<C. channel_ok n p (snd t ! ch)) \<and> (\<forall>ch<k. ?same (snd t) ch) \<and> (\<forall>ch\<ge>k. snd t ! ch = mChanData r ! ch)"])
    show "burg_ok (p * n) (fst (B, mChanData r)) \<and> length (snd (B, mChanData r)) = C \<and>
      (\<forall>ch<C. channel_ok n p (snd (B, mChanData r) ! ch)) \<and> (\<forall>ch<0. ?same (snd (B, mChanData r)) ch) \<and>
      (\<forall>ch\<ge>0. snd (B, mChanData r) ! ch = mChanData r ! ch)"
      using B C reg_shape_channel [OF assms(1)] by simp
  next
    fix k t
    assume k: "k < C" and t: "burg_ok (p * n) (fst t) \<and> length (snd t) = C \<and>
      (\<forall>ch<C. channel_ok n p (snd t ! ch)) \<and> (\<forall>ch<k. ?same (snd t) ch) \<and> (\<forall>ch\<ge>k. snd t ! ch = mChanData r ! ch)"
    obtain B1 cs where tt: "t = (B1, cs)" by (cases t) auto
    have ck: "channel_ok n p (cs ! k)" "burg_ok (p * n) B1" "length cs = C" using t k tt by auto
    obtain B' c' where c': "burg_channel glitch ?primed (mLastWasGlitch r) ?S (B1, cs ! k) = Some (B', c')"
      "channel_ok n p c'" "burg_ok (p * n) B'"
      "mTmpFloatBuf c' = map (played glitch ?primed (mLastWasGlitch r) ?S (mTmpFloatBuf (cs ! k))
        (predictedNowPacket c') (futurePredictedPacket (cs ! k))) [0..<n]"
      using burg_channel_total [OF ck(1) burg_setup_ok [OF assms(1)] ck(2)] by blast
    have "mTmpFloatBuf c' = map (played glitch ?primed (mLastWasGlitch r) ?S (mTmpFloatBuf (mChanData r ! k))
        (predictedNowPacket c') (futurePredictedPacket (mChanData r ! k))) [0..<n]"
      using c'(4) t tt by simp
    then show "\<exists>u. ?f k t = Some u \<and> burg_ok (p * n) (fst u) \<and> length (snd u) = C \<and>
      (\<forall>ch<C. channel_ok n p (snd u ! ch)) \<and> (\<forall>ch<Suc k. ?same (snd u) ch) \<and> (\<forall>ch\<ge>Suc k. snd u ! ch = mChanData r ! ch)"
      using c'(1-3) k t tt ck by (auto simp: nth_list_update less_Suc_eq)
  qed
  then obtain B' cs where cs: "iter_opt ?f [0..<C] (B, mChanData r) = Some (B', cs)" "burg_ok (p * n) B'" "length cs = C"
    "\<forall>ch<C. channel_ok n p (cs ! ch)" "\<forall>ch<C. ?same cs ch" by auto
  have "checked_int (mPcnt r + 1) = Some (mPcnt r + 1)" using assms(2,3) by (simp add: int32_range_def)
  then have "burg glitch r = Some (r\<lparr>ba := Some B', mChanData := cs, mLastWasGlitch := glitch, mPcnt := mPcnt r + 1\<rparr>)"
    using B(1) C(2) cs(1) by (simp add: burg_def)
  moreover have "reg_shape n L C p (r\<lparr>ba := Some B', mChanData := cs, mLastWasGlitch := glitch, mPcnt := mPcnt r + 1\<rparr>)"
    using assms(1) cs(2-4) by (auto simp: reg_shape_def packet_bytes_def mode_bytes_def set_conv_nth)
  ultimately show ?thesis using cs(5) by blast
qed

lemma encode_packet_total:
  assumes "reg_shape n L C p r" and "\<And>ch. ch < C \<Longrightarrow> length (tmp ch) = n"
    and "\<And>ch. ch < C \<Longrightarrow> mTmpFloatBuf (mChanData r ! ch) = tmp ch"
  shows "\<exists>xfr. floatBufToXfrBuffer r = Some (r\<lparr>mXfrBuffer := xfr\<rparr>) \<and> reg_shape n L C p (r\<lparr>mXfrBuffer := xfr\<rparr>) \<and>
    (\<forall>ch<C. \<forall>s<n. fromSampleToBitConversion (flt_bits (tmp ch ! s)) (mBitResolutionMode r) =
      Some (take (mode_bytes r) (drop (s * mode_bytes r * C + ch * mode_bytes r) xfr)))"
proof -
  let ?B = "mode_bytes r"
  let ?at = "\<lambda>ch s xfr. take ?B (drop (s * ?B * C + ch * ?B) xfr)"
  let ?cell = "\<lambda>ch s xfr. fromSampleToBitConversion (flt_bits (tmp ch ! s)) (mBitResolutionMode r) = Some (?at ch s xfr)"
  let ?f = "\<lambda>ch s xfr. vec_get (tmp ch) s \<bind> (\<lambda>x. sampleToBits r x ch s xfr)"
  have r: "mNumChannels r = int C" "mPeerFPP r = int n" "length (mXfrBuffer r) = n * ?B * C" "length (mChanData r) = C"
    "mBitResolutionMode r \<noteq> BIT24"
    using assms(1) by (simp_all add: reg_shape_def packet_bytes_def)
  have "\<exists>t. iter_opt (\<lambda>ch. iter_opt (?f ch) [0..<n]) [0..<C] (mXfrBuffer r) = Some t \<and> length t = n * ?B * C \<and>
      (\<forall>ch<C. \<forall>s<n. ?cell ch s t)"
  proof (rule cells_invariant)
    fix ch s xfr
    assume ch: "ch < C" and s: "s < n" and xfr: "length (xfr :: bytes) = n * ?B * C"
    obtain bs where bs: "fromSampleToBitConversion (flt_bits (tmp ch ! s)) (mBitResolutionMode r) = Some bs" "length bs = ?B"
      using conversion_total [OF r(5)] by (metis mode_bytes_def)
    have pos: "sample_offset r ch s = s * ?B * C + ch * ?B" using r(1) by (simp add: sample_offset_def)
    have "s * ?B * C + ch * ?B + ?B \<le> n * ?B * C" by (rule cell_inside [OF ch s])
    then obtain u where u: "mem_write xfr (s * ?B * C + ch * ?B) bs = Some u"
      using mem_write_total [of "s * ?B * C + ch * ?B" bs xfr] bs(2) xfr by auto
    have "?at ch s u = bs" using mem_write_same [OF u] bs(2) by simp
    moreover have "?at ch' s' u = ?at ch' s' xfr" if "ch' < C" "(ch', s') \<noteq> (ch, s)" for ch' s'
      using cell_disjoint [OF ch that] bs(2) by (intro mem_write_other [OF u]) auto
    moreover have "?f ch s xfr = Some u"
      using assms(2) [OF ch] s bs(1) u pos by (simp add: sampleToBits_def)
    ultimately show "\<exists>u. ?f ch s xfr = Some u \<and> length u = n * ?B * C \<and> ?cell ch s u \<and>
        (\<forall>ch' s'. ch' < C \<longrightarrow> s' < n \<longrightarrow> (ch', s') \<noteq> (ch, s) \<longrightarrow> ?cell ch' s' xfr \<longrightarrow> ?cell ch' s' u)"
      using bs(1) mem_write_length [OF u] xfr by simp
  qed (use r in simp)
  then obtain xfr where xfr: "iter_opt (\<lambda>ch. iter_opt (?f ch) [0..<n]) [0..<C] (mXfrBuffer r) = Some xfr"
    "length xfr = n * ?B * C" "\<forall>ch<C. \<forall>s<n. ?cell ch s xfr" by blast
  have loop: "iter_opt (\<lambda>ch xfr. vec_get (mChanData r) ch \<bind> (\<lambda>c. iter_opt (\<lambda>s xfr. vec_get (mTmpFloatBuf c) s \<bind>
        (\<lambda>x. sampleToBits r x ch s xfr)) [0..<n] xfr)) is x = iter_opt (\<lambda>ch. iter_opt (?f ch) [0..<n]) is x"
    if "set is \<subseteq> {0..<C}" for "is" x
    using that
  proof (induction "is" arbitrary: x)
    case (Cons ch "is")
    then show ?case using r(4) assms(3) [of ch] by (simp split: option.split)
  qed simp
  have "floatBufToXfrBuffer r = Some (r\<lparr>mXfrBuffer := xfr\<rparr>)"
    using loop [of "[0..<C]"] r xfr(1) by (simp add: floatBufToXfrBuffer_def)
  then show ?thesis using xfr assms(1) by (auto simp: reg_shape_def packet_bytes_def mode_bytes_def)
qed

text \<open>
  A packet that is played, in time or not: what is heard of it, and the bytes of a sample in a buffer.
\<close>

definition heard :: "bool \<Rightarrow> Regulator \<Rightarrow> Channel list \<Rightarrow> nat \<Rightarrow> nat \<Rightarrow> flt" where
  "heard glitch r cs ch s = played glitch (mPacketsInThePast r < mPcnt r) (mLastWasGlitch r) (burg_setup_of r)
     (map (cell_sample r ch) [0..<nat (mPeerFPP r)]) (predictedNowPacket (cs ! ch)) (futurePredictedPacket (mChanData r ! ch)) s"

definition cell_at :: "Regulator \<Rightarrow> nat \<Rightarrow> nat \<Rightarrow> bytes \<Rightarrow> bytes" where
  "cell_at r ch s xfr = take (mode_bytes r) (drop (sample_offset r ch s) xfr)"

lemma processPacket_total:
  assumes "reg_shape n L C p r" and "0 \<le> mPcnt r" and "mPcnt r < 2147483647"
  shows "\<exists>x cs b e. processPacket glitch K r = Some (r\<lparr>mXfrBuffer := x, mChanData := cs, ba := b,
      mLastWasGlitch := glitch, mPcnt := mPcnt r + 1, mStatsMaxPLCdspElapsed := e\<rparr>) \<and>
    reg_shape n L C p (r\<lparr>mXfrBuffer := x, mChanData := cs, ba := b, mLastWasGlitch := glitch, mPcnt := mPcnt r + 1,
      mStatsMaxPLCdspElapsed := e\<rparr>) \<and>
    (\<not> glitch \<and> \<not> mLastWasGlitch r \<longrightarrow> x = requantize (mBitResolutionMode r) (mXfrBuffer r)) \<and>
    (\<forall>ch<C. \<forall>s<n. fromSampleToBitConversion (flt_bits (heard glitch r cs ch s)) (mBitResolutionMode r) = Some (cell_at r ch s x))"
proof -
  obtain z where z: "zeroTmpFloatBuf r = Some (r\<lparr>mChanData := z\<rparr>)" "reg_shape n L C p (r\<lparr>mChanData := z\<rparr>)"
    "\<forall>ch<C. futurePredictedPacket (z ! ch) = futurePredictedPacket (mChanData r ! ch)"
    using zero_total [OF assms(1)] by blast
  let ?r1 = "r\<lparr>mChanData := z\<rparr>"
  obtain cs where cs: "xfrBufferToFloatBuf ?r1 = Some (r\<lparr>mChanData := cs\<rparr>)" "reg_shape n L C p (r\<lparr>mChanData := cs\<rparr>)"
    "\<forall>ch<C. mTmpFloatBuf (cs ! ch) = map (cell_sample r ch) [0..<n]"
    "\<forall>ch<C. futurePredictedPacket (cs ! ch) = futurePredictedPacket (mChanData r ! ch)"
    using decode_packet_total [OF z(2)] z(3) by (auto simp: cell_sample_def bitsToSample_def sample_offset_def mode_bytes_def)
  let ?r2 = "r\<lparr>mChanData := cs\<rparr>"
  obtain B ds where b: "burg glitch ?r2 = Some (?r2\<lparr>ba := Some B, mChanData := ds, mLastWasGlitch := glitch, mPcnt := mPcnt r + 1\<rparr>)"
    "reg_shape n L C p (?r2\<lparr>ba := Some B, mChanData := ds, mLastWasGlitch := glitch, mPcnt := mPcnt r + 1\<rparr>)"
    "\<forall>ch<C. mTmpFloatBuf (ds ! ch) = map (played glitch (mPacketsInThePast r < mPcnt r) (mLastWasGlitch r) (burg_setup_of ?r2)
      (mTmpFloatBuf (cs ! ch)) (predictedNowPacket (ds ! ch)) (futurePredictedPacket (cs ! ch))) [0..<n]"
    using burg_total [OF cs(2), of glitch] assms(2,3) by auto
  let ?r3 = "?r2\<lparr>ba := Some B, mChanData := ds, mLastWasGlitch := glitch, mPcnt := mPcnt r + 1\<rparr>"
  let ?tmp = "\<lambda>ch. mTmpFloatBuf (ds ! ch)"
  have play: "?tmp ch ! s = heard glitch r ds ch s" if "ch < C" "s < n" for ch s
    using b(3) cs(3,4) that assms(1) by (simp add: heard_def reg_shape_def burg_setup_of_def)
  have ds: "length (?tmp ch) = n" if "ch < C" for ch
    using reg_shape_channel [OF b(2) that] by (simp add: channel_ok_def)
  obtain x where x: "floatBufToXfrBuffer ?r3 = Some (?r3\<lparr>mXfrBuffer := x\<rparr>)" "reg_shape n L C p (?r3\<lparr>mXfrBuffer := x\<rparr>)"
    "\<forall>ch<C. \<forall>s<n. fromSampleToBitConversion (flt_bits (?tmp ch ! s)) (mBitResolutionMode r) =
      Some (take (mode_bytes r) (drop (s * mode_bytes r * C + ch * mode_bytes r) x))"
    using encode_packet_total [OF b(2), of ?tmp] ds by (auto simp: mode_bytes_def)
  define e where "e = (if glitch \<and> mStatsMaxPLCdspElapsed r < dsp_elapsed K then dsp_elapsed K else mStatsMaxPLCdspElapsed r)"
  let ?r4 = "r\<lparr>mXfrBuffer := x, mChanData := ds, ba := Some B, mLastWasGlitch := glitch, mPcnt := mPcnt r + 1,
      mStatsMaxPLCdspElapsed := e\<rparr>"
  have "processPacket glitch K r = Some ?r4"
    using z(1) cs(1) b(1) x(1) by (simp add: processPacket_def e_def)
  moreover have "reg_shape n L C p ?r4" using x(2) by (simp add: reg_shape_def packet_bytes_def mode_bytes_def)
  moreover have "x = requantize (mBitResolutionMode r) (mXfrBuffer r)" if "\<not> glitch" "\<not> mLastWasGlitch r"
  proof (rule requantize_cells)
    show "length (mXfrBuffer r) = n * mode_bytes r * C" "length x = n * mode_bytes r * C"
      using assms(1) x(2) by (simp_all add: reg_shape_def packet_bytes_def mode_bytes_def)
    show "mode_bytes r = bit_resolution_code (mBitResolutionMode r)" by (simp add: mode_bytes_def)
    fix ch s assume ch: "ch < C" and s: "s < n"
    have "?tmp ch ! s = cell_sample r ch s" using play [OF ch s] that ch s assms(1) by (simp add: heard_def played_def reg_shape_def)
    then have "fromSampleToBitConversion (flt_bits (cell_sample r ch s)) (mBitResolutionMode r) =
        Some (take (mode_bytes r) (drop (s * mode_bytes r * C + ch * mode_bytes r) x))"
      using x(3) ch s by metis
    then show "take (mode_bytes r) (drop (s * mode_bytes r * C + ch * mode_bytes r) x) = requantize_sample
        (mBitResolutionMode r) (take (mode_bytes r) (drop (s * mode_bytes r * C + ch * mode_bytes r) (mXfrBuffer r)))"
      using bitsToSample_cell(2) [OF assms(1) ch s] by (auto simp: requantize_sample_def)
  qed
  moreover have "fromSampleToBitConversion (flt_bits (heard glitch r ds ch s)) (mBitResolutionMode r) = Some (cell_at r ch s x)"
    if "ch < C" "s < n" for ch s
  proof -
    have "sample_offset r ch s = s * mode_bytes r * C + ch * mode_bytes r" using assms(1) by (simp add: sample_offset_def reg_shape_def)
    then show ?thesis using x(3) that play [OF that] unfolding cell_at_def by metis
  qed
  ultimately show ?thesis by blast
qed

end
