(* ===== verification/RegulatorPull.thy ===== *)
theory RegulatorPull
  imports RegulatorSpec
begin

text \<open>
  The choice of the next packet: statistics, tolerance and latency stay within their bounds, and every
  pull has a result and keeps the state well-formed.
\<close>

section \<open>Slots, statistics and tolerance\<close>

text \<open>Every time that is stored is at most \<open>K\<close>; every counter is at most \<open>M\<close>.\<close>

definition slot_number :: "int \<Rightarrow> bool" where
  "slot_number k \<longleftrightarrow> - 1 \<le> k \<and> k < NumSlots"

definition reg_slots :: "nat \<Rightarrow> nat \<Rightarrow> dbl \<Rightarrow> Regulator \<Rightarrow> bool" where
  "reg_slots n C K r \<longleftrightarrow> length (mSlots r) = 4096 \<and> (\<forall>s\<in>set (mSlots r). length s = packet_bytes n C r) \<and>
     length (mIncomingTiming r) = 4096 \<and> (\<forall>t\<in>set (mIncomingTiming r). 0 \<le> t \<and> t \<le> K) \<and>
     slot_number (mLastSeqNumIn r) \<and> slot_number (mLastSeqNumOut r) \<and> slot_number (mStashedPacket r)"

definition max_latency :: dbl where "max_latency = 1200000000"

definition stats_ok :: "dbl \<Rightarrow> int \<Rightarrow> StdDev \<Rightarrow> bool" where
  "stats_ok K M d \<longleftrightarrow> stat_inv d \<and> lastTime d \<le> K \<and> longTermCnt d \<le> M \<and>
     0 \<le> plcUnderruns d \<and> plcUnderruns d \<le> M \<and> 0 \<le> plcOverruns d \<and> plcOverruns d \<le> M"

definition reg_stats :: "dbl \<Rightarrow> int \<Rightarrow> Regulator \<Rightarrow> bool" where
  "reg_stats K M r \<longleftrightarrow> (\<exists>ps. pushStat r = Some ps \<and> stats_ok K M ps) \<and> (\<exists>pl. pullStat r = Some pl \<and> stats_ok K M pl) \<and>
     0 \<le> mSkipped r \<and> mSkipped r \<le> M \<and> 0 \<le> mLastGlitches r \<and> mLastGlitches r \<le> 2 * M \<and>
     0 \<le> mPcnt r \<and> mPcnt r \<le> M \<and> 0 \<le> mLastMaxLatency r \<and> mLastMaxLatency r \<le> max_latency \<and>
     0 \<le> mStatsMaxLatency r \<and> mStatsMaxLatency r \<le> max_latency \<and> glitches_allowed r \<noteq> None"

lemma stats_ok_mono: "stats_ok K M d \<Longrightarrow> K \<le> K' \<Longrightarrow> M \<le> M' \<Longrightarrow> stats_ok K' M' d"
  by (auto simp: stats_ok_def)

lemma reg_stats_mono:
  assumes "reg_stats K M r" and "K \<le> K'" and "M \<le> M'"
  shows "reg_stats K' M' r"
  using assms stats_ok_mono [OF _ assms(2,3)] by (fastforce simp: reg_stats_def)

lemma reg_slots_mono: "reg_slots n C K r \<Longrightarrow> K \<le> K' \<Longrightarrow> reg_slots n C K' r"
  by (fastforce simp: reg_slots_def)

text \<open>What an update of the tolerance changes.\<close>

definition tune :: "StdDev \<Rightarrow> int \<Rightarrow> int \<Rightarrow> dbl \<Rightarrow> dbl \<Rightarrow> dbl \<Rightarrow> bool \<Rightarrow> dbl \<Rightarrow> Regulator \<Rightarrow> Regulator" where
  "tune ps lg ls lm sm h sk t r = r\<lparr>pushStat := Some ps, mLastGlitches := lg, mLastSkipped := ls, mLastMaxLatency := lm,
     mStatsMaxLatency := sm, mCurrentHeadroom := h, mSkipAutoHeadroom := sk, mMsecTolerance := t\<rparr>"

lemma headroom_form:
  "\<exists>h sk. (if a then if b then r\<lparr>mSkipAutoHeadroom := False\<rparr>
       else if c then r\<lparr>mSkipAutoHeadroom := True, mCurrentHeadroom := x\<rparr>
       else r\<lparr>mSkipAutoHeadroom := True, mCurrentHeadroom := y\<rparr>
     else r\<lparr>mSkipAutoHeadroom := True\<rparr>) = r\<lparr>mSkipAutoHeadroom := sk, mCurrentHeadroom := h\<rparr>"
proof -
  have same: "r\<lparr>mSkipAutoHeadroom := sk\<rparr> = r\<lparr>mSkipAutoHeadroom := sk, mCurrentHeadroom := mCurrentHeadroom r\<rparr>" for sk by simp
  show ?thesis using same by metis
qed

lemma variable_headroom_total:
  assumes "longTermMax ps \<le> 262144" and "0 \<le> mLastMaxLatency r" and "mLastMaxLatency r \<le> max_latency"
    and "glitches_allowed r \<noteq> None"
  shows "\<exists>h sk. variable_headroom g ps r = Some (r\<lparr>mSkipAutoHeadroom := sk, mCurrentHeadroom := h\<rparr>)"
proof -
  let ?m = "max (dbl_mul (longTermMax ps) 3) (dbl_add (mLastMaxLatency r) 10)"
  have "dbl_mul (longTermMax ps) 3 \<le> 786432" unfolding dbl_mul_def
    by (rule dbl_round_le) (use assms(1) in simp_all)
  moreover have "10 \<le> dbl_add (mLastMaxLatency r) 10" unfolding dbl_add_def
    by (rule dbl_round_ge) (use assms(2) in simp_all)
  moreover have "dbl_add (mLastMaxLatency r) 10 \<le> 1200000010" unfolding dbl_add_def
    by (rule dbl_round_le) (use assms(3) in \<open>simp_all add: max_latency_def\<close>)
  ultimately have m: "0 \<le> ?m" "?m \<le> 1200000010" by auto
  then have "0 \<le> \<lfloor>?m\<rfloor>" "\<lfloor>?m\<rfloor> \<le> 1200000010" by linarith+
  then have "dbl_to_int ?m = Some \<lfloor>?m\<rfloor>" using m(1) by (simp add: dbl_to_int_def dbl_trunc_def int32_range_def)
  moreover obtain a where "glitches_allowed r = Some a" using assms(4) by blast
  ultimately show ?thesis
    unfolding variable_headroom_def by (simp only: Option.bind.bind_lunit if_distrib [of Some, symmetric] option.inject headroom_form)
qed

definition tolerance_bounds :: "dbl \<Rightarrow> Regulator \<Rightarrow> bool" where
  "tolerance_bounds t r \<longleftrightarrow> mLocalFPPdurMsec r \<le> t \<and> mPeerFPPdurMsec r \<le> t \<and>
     t \<le> max AutoMax (max (mLocalFPPdurMsec r) (mPeerFPPdurMsec r))"

lemma clamp_tolerance_bounds: "tolerance_bounds (clamp_tolerance t r) r"
  by (auto simp: tolerance_bounds_def clamp_tolerance_def Let_def)

lemma updateTolerance_total:
  assumes "pushStat r = Some ps" and "pullStat r = Some pl" and "longTermMax ps \<le> 262144" and "0 \<le> mLastMaxLatency r"
    and "mLastMaxLatency r \<le> max_latency" and "glitches_allowed r \<noteq> None"
  shows "\<exists>h sk t. updateTolerance g r = Some (r\<lparr>mSkipAutoHeadroom := sk, mCurrentHeadroom := h, mMsecTolerance := t\<rparr>) \<and>
    tolerance_bounds t r"
proof -
  obtain h sk where h: "update_headroom g ps r = Some (r\<lparr>mSkipAutoHeadroom := sk, mCurrentHeadroom := h\<rparr>)"
  proof (cases "mAutoHeadroom r < 0")
    case True
    then show ?thesis using variable_headroom_total [OF assms(3-6)] that by (auto simp: update_headroom_def)
  next
    case False
    then show ?thesis using that [of "mAutoHeadroom r" "mSkipAutoHeadroom r"] by (simp add: update_headroom_def)
  qed
  let ?r = "r\<lparr>mSkipAutoHeadroom := sk, mCurrentHeadroom := h\<rparr>"
  let ?t = "clamp_tolerance (max (dbl_add (calcAuto ps) h) (calcAuto pl)) ?r"
  have "updateTolerance g r = Some (?r\<lparr>mMsecTolerance := ?t\<rparr>)"
    using h assms(1,2) by (simp add: updateTolerance_def)
  moreover have "tolerance_bounds ?t r" using clamp_tolerance_bounds [of _ ?r] by (simp add: tolerance_bounds_def)
  ultimately show ?thesis by blast
qed

lemma adapt_tolerance_total:
  assumes "reg_stats K M (r\<lparr>pushStat := Some ps\<rparr>)" and "M \<le> 1073741823"
  shows "\<exists>lg ls lm sm h sk t. adapt_tolerance ps (r\<lparr>pushStat := Some ps\<rparr>) = Some (tune ps lg ls lm sm h sk t r) \<and>
    reg_stats K M (tune ps lg ls lm sm h sk t r) \<and>
    (t = mMsecTolerance r \<or> tolerance_bounds t r)"
proof -
  let ?r = "r\<lparr>pushStat := Some ps\<rparr>"
  obtain pl where pl: "pullStat r = Some pl" "stats_ok K M pl" and ps: "stats_ok K M ps"
    using assms(1) by (auto simp: reg_stats_def)
  let ?total = "plcUnderruns pl + plcOverruns pl" and ?new = "plcUnderruns pl + plcOverruns pl - mLastGlitches r"
  have total: "checked_int ?total = Some ?total" "checked_int ?new = Some ?new" "0 \<le> ?total" "?total \<le> 2 * M"
    using pl(2) assms by (simp_all add: stats_ok_def reg_stats_def int32_range_def)
  have max: "longTermMax ps \<le> 262144" using ps by (simp add: stats_ok_def stat_inv_def)
  let ?base = "?r\<lparr>mLastGlitches := ?total, mLastSkipped := mSkipped r\<rparr>"
  have allowed: "glitches_allowed (?base\<lparr>mLastMaxLatency := x, mStatsMaxLatency := y\<rparr>) \<noteq> None" for x y
    using assms(1) by (simp add: reg_stats_def glitches_allowed_def Let_def)
  have lat: "0 \<le> mStatsMaxLatency r" "mStatsMaxLatency r \<le> max_latency" "0 \<le> max_latency"
    using assms(1) by (simp_all add: reg_stats_def max_latency_def)
  have upd: "\<exists>h sk t. updateTolerance g (?base\<lparr>mLastMaxLatency := x, mStatsMaxLatency := 0\<rparr>) =
      Some (tune ps ?total (mSkipped r) x 0 h sk t r) \<and> tolerance_bounds t r" if "0 \<le> x" "x \<le> max_latency" for g x
  proof -
    let ?b = "?base\<lparr>mLastMaxLatency := x, mStatsMaxLatency := 0\<rparr>"
    have "\<exists>h sk t. updateTolerance g ?b = Some (?b\<lparr>mSkipAutoHeadroom := sk, mCurrentHeadroom := h, mMsecTolerance := t\<rparr>) \<and>
        tolerance_bounds t ?b"
      by (rule updateTolerance_total) (use pl(1) max that allowed in simp_all)
    moreover have "?b\<lparr>mSkipAutoHeadroom := sk, mCurrentHeadroom := h, mMsecTolerance := t\<rparr> =
        tune ps ?total (mSkipped r) x 0 h sk t r" for h sk t by (simp add: tune_def)
    ultimately show ?thesis by (simp add: tolerance_bounds_def)
  qed
  have keep: "reg_stats K M (tune ps ?total (mSkipped r) x y h sk t r)" if "0 \<le> x" "x \<le> max_latency" "0 \<le> y" "y \<le> max_latency" for x y h sk t
    using assms(1) total that by (simp add: reg_stats_def tune_def glitches_allowed_def Let_def)
  consider "\<not> (mAuto r \<and> AutoInitDur < lastTime ps)" | "mAuto r" "AutoInitDur < lastTime ps" "lastTime ps \<le> mAutoHeadroomStartTime r"
    | "mAuto r" "AutoInitDur < lastTime ps" "\<not> lastTime ps \<le> mAutoHeadroomStartTime r" by blast
  then show ?thesis
  proof cases
    case 1
    have "adapt_tolerance ps ?r = Some (tune ps ?total (mSkipped r) (mLastMaxLatency r) (mStatsMaxLatency r)
        (mCurrentHeadroom r) (mSkipAutoHeadroom r) (mMsecTolerance r) r)"
      using 1 pl(1) total by (cases "mAuto r") (simp_all add: adapt_tolerance_def tune_def Let_def)
    then show ?thesis using keep [of "mLastMaxLatency r" "mStatsMaxLatency r"] assms(1) by (fastforce simp: reg_stats_def)
  next
    case 2
    then obtain h sk t where "updateTolerance 0 (?base\<lparr>mLastMaxLatency := 0, mStatsMaxLatency := 0\<rparr>) =
      Some (tune ps ?total (mSkipped r) 0 0 h sk t r)" "tolerance_bounds t r" using upd [of 0 0] lat by auto
    then show ?thesis using 2 pl(1) total keep [of 0 0] lat(3) by (fastforce simp: adapt_tolerance_def Let_def)
  next
    case 3
    then obtain h sk t where "updateTolerance ?new (?base\<lparr>mLastMaxLatency := mStatsMaxLatency r, mStatsMaxLatency := 0\<rparr>) =
      Some (tune ps ?total (mSkipped r) (mStatsMaxLatency r) 0 h sk t r)" "tolerance_bounds t r"
      using upd [of "mStatsMaxLatency r" ?new] lat by auto
    then show ?thesis using 3 pl(1) total keep [of "mStatsMaxLatency r" 0] lat by (fastforce simp: adapt_tolerance_def Let_def)
  qed
qed

section \<open>What a pull keeps\<close>

definition reg_inv :: "nat \<Rightarrow> nat \<Rightarrow> nat \<Rightarrow> nat \<Rightarrow> dbl \<Rightarrow> int \<Rightarrow> Regulator \<Rightarrow> bool" where
  "reg_inv n L C p K M r \<longleftrightarrow> reg_shape n L C p r \<and> reg_slots n C K r \<and> reg_stats K M r"

text \<open>The state that no pull changes, and the tolerance, which changes only within its bounds.\<close>

definition pull_frame :: "Regulator \<Rightarrow> Regulator \<Rightarrow> bool" where
  "pull_frame r r' \<longleftrightarrow> mWorkerEnabled r' = mWorkerEnabled r \<and> mRegulatorWorkerPtr r' = mRegulatorWorkerPtr r \<and>
     mWorkerBuffer r' = mWorkerBuffer r \<and> mXfrPullPtr r' = mXfrPullPtr r \<and> mBroadcastPullPtr r' = mBroadcastPullPtr r \<and>
     mBroadcastBuffer r' = mBroadcastBuffer r \<and> m_b_BroadcastRingBuffer r' = m_b_BroadcastRingBuffer r \<and>
     mSlots r' = mSlots r \<and> mIncomingTiming r' = mIncomingTiming r \<and> mLastSeqNumIn r' = mLastSeqNumIn r \<and>
     mFPPratioNumerator r' = mFPPratioNumerator r \<and> mFPPratioDenominator r' = mFPPratioDenominator r \<and>
     mBitResolutionMode r' = mBitResolutionMode r \<and> mLocalFPPdurMsec r' = mLocalFPPdurMsec r \<and>
     mPeerFPPdurMsec r' = mPeerFPPdurMsec r \<and>
     (mMsecTolerance r' = mMsecTolerance r \<or> tolerance_bounds (mMsecTolerance r') r)"

text \<open>A bound for the tolerance that no pull exceeds.\<close>

definition tol_ok :: "dbl \<Rightarrow> Regulator \<Rightarrow> bool" where
  "tol_ok T r \<longleftrightarrow> mMsecTolerance r \<le> T \<and> AutoMax \<le> T \<and> mLocalFPPdurMsec r \<le> T \<and> mPeerFPPdurMsec r \<le> T"

lemma tol_ok_frame: "tol_ok T r \<Longrightarrow> pull_frame r r' \<Longrightarrow> tol_ok T r'"
  by (auto simp: tol_ok_def pull_frame_def tolerance_bounds_def)

lemma pull_frame_refl [simp]: "pull_frame r r"
  by (simp add: pull_frame_def)

lemma pull_frame_trans: "pull_frame r s \<Longrightarrow> pull_frame s t \<Longrightarrow> pull_frame r t"
  by (auto simp: pull_frame_def tolerance_bounds_def)

lemma reg_inv_mono:
  assumes "reg_inv n L C p K M r" and "K \<le> K'" and "M \<le> M'"
  shows "reg_inv n L C p K' M' r"
  using assms reg_stats_mono reg_slots_mono by (auto simp: reg_inv_def)

lemma tune_same:
  assumes "pushStat r = Some ps"
  shows "tune ps (mLastGlitches r) (mLastSkipped r) (mLastMaxLatency r) (mStatsMaxLatency r) (mCurrentHeadroom r)
    (mSkipAutoHeadroom r) (mMsecTolerance r) r = r"
  using assms by (cases r) (simp add: tune_def)

lemma tune_shape [simp]: "reg_shape n L C p (tune ps lg ls lm sm h sk t r) = reg_shape n L C p r"
  by (simp add: reg_shape_def tune_def packet_bytes_def mode_bytes_def)

lemma tune_slots [simp]: "reg_slots n C K (tune ps lg ls lm sm h sk t r) = reg_slots n C K r"
  by (simp add: reg_slots_def tune_def packet_bytes_def mode_bytes_def)

text \<open>What the statistics of a new packet change.\<close>

definition tuned :: "Regulator \<Rightarrow> Regulator \<Rightarrow> bool" where
  "tuned r r' \<longleftrightarrow> (\<exists>ps lg ls lm sm h sk t. r' = tune ps lg ls lm sm h sk t r \<and>
     (t = mMsecTolerance r \<or> tolerance_bounds t r))"

lemma tunedI: "t = mMsecTolerance r \<or> tolerance_bounds t r \<Longrightarrow> tuned r (tune ps lg ls lm sm h sk t r)"
  unfolding tuned_def by blast

lemma tuned_frame: "tuned r r' \<Longrightarrow> pull_frame r r'"
  by (auto simp: tuned_def pull_frame_def tune_def)

lemma tuned_keeps:
  assumes "tuned r r'"
  shows "reg_shape n L C p r' = reg_shape n L C p r" and "reg_slots n C K r' = reg_slots n C K r"
    and "mLastSeqNumOut r' = mLastSeqNumOut r" and "mStashedPacket r' = mStashedPacket r"
    and "mXfrBuffer r' = mXfrBuffer r" and "mLastWasGlitch r' = mLastWasGlitch r" and "mSlots r' = mSlots r"
    and "pullStat r' = pullStat r" and "mSkipped r' = mSkipped r" and "mIncomingTiming r' = mIncomingTiming r"
    and "mPcnt r' = mPcnt r" and "mBitResolutionMode r' = mBitResolutionMode r"
  using assms by (auto simp: tuned_def) (simp_all add: tune_def)

lemma arrival_total:
  assumes "reg_slots n C K r" and "0 \<le> k" and "k < NumSlots"
  shows "arrival k r = Some (mIncomingTiming r ! nat k) \<and> 0 \<le> mIncomingTiming r ! nat k \<and> mIncomingTiming r ! nat k \<le> K"
proof -
  have "nat k < length (mIncomingTiming r)" using assms by (simp add: reg_slots_def NumSlots_def)
  then show ?thesis using assms by (auto simp: arrival_def byte_count_def reg_slots_def)
qed

lemma updatePushStats_total:
  assumes slots: "reg_slots n C K r" and stats: "reg_stats K M r" and "K \<le> msecs clock"
    and out: "0 \<le> mLastSeqNumOut r" and k: "0 \<le> k" "k < NumSlots" and M: "M + 1 \<le> 1073741823"
  shows "\<exists>r'. updatePushStats clock k r = Some r' \<and> tuned r r' \<and> reg_stats (msecs clock) (M + 1) r'"
proof -
  obtain ps where ps: "pushStat r = Some ps" "stats_ok K M ps" using stats by (auto simp: reg_stats_def)
  have "mLastSeqNumOut r < NumSlots" using slots by (simp add: reg_slots_def slot_number_def)
  note tout = arrival_total [OF slots out this] and tk = arrival_total [OF slots k]
  define prev where "prev = dbl_add (mIncomingTiming r ! nat (mLastSeqNumOut r))
    (dbl_mul (of_int (seq_ahead (k - 1 - mLastSeqNumOut r))) (mPeerFPPdurMsec r))"
  let ?now = "mIncomingTiming r ! nat k"
  have same: "tuned r r" using tune_same [OF ps(1)] tunedI [of "mMsecTolerance r" r] by metis
  have mono: "reg_stats (msecs clock) (M + 1) r" using reg_stats_mono [OF stats, of "msecs clock" "M + 1"] assms(3) by simp
  show ?thesis
  proof (cases "?now \<le> prev")
    case True
    then have "updatePushStats clock k r = Some r" using tout tk by (simp add: updatePushStats_def prev_def Let_def)
    then show ?thesis using same mono by blast
  next
    case False
    have "lastTime ps \<le> msecs clock" "longTermCnt ps < 2147483647" "stat_inv ps"
      using ps(2) assms(3) M by (auto simp: stats_ok_def)
    then obtain u d where d: "tick prev ?now clock ps = Some (u, d)" "stat_inv d" "lastTime d = ?now \<or> lastTime d = msecs clock"
      "longTermCnt d \<le> longTermCnt ps + 1" "plcOverruns d = plcOverruns ps" "plcUnderruns d = plcUnderruns ps"
      using tick_inv [of ps clock prev ?now] by blast
    have "stats_ok (msecs clock) (M + 1) d" using ps(2) d tk assms(3) by (auto simp: stats_ok_def)
    then have stats': "reg_stats (msecs clock) (M + 1) (r\<lparr>pushStat := Some d\<rparr>)"
      using mono by (simp add: reg_stats_def glitches_allowed_def Let_def)
    have eq: "updatePushStats clock k r = (if u \<and> longTermCnt d mod WindowDivisor = 0
        then adapt_tolerance d (r\<lparr>pushStat := Some d\<rparr>) else Some (r\<lparr>pushStat := Some d\<rparr>))"
      using tout tk False ps(1) d(1) by (simp add: updatePushStats_def prev_def Let_def)
    show ?thesis
    proof (cases "u \<and> longTermCnt d mod WindowDivisor = 0")
      case True
      obtain lg ls lm sm h sk t where a: "adapt_tolerance d (r\<lparr>pushStat := Some d\<rparr>) = Some (tune d lg ls lm sm h sk t r)"
        "reg_stats (msecs clock) (M + 1) (tune d lg ls lm sm h sk t r)" "t = mMsecTolerance r \<or> tolerance_bounds t r"
        using adapt_tolerance_total [OF stats' M] by blast
      then show ?thesis using True eq tunedI [OF a(3)] by auto
    next
      case other: False
      have "r\<lparr>pushStat := Some d\<rparr> = tune d (mLastGlitches r) (mLastSkipped r) (mLastMaxLatency r) (mStatsMaxLatency r)
          (mCurrentHeadroom r) (mSkipAutoHeadroom r) (mMsecTolerance r) r" by (cases r) (simp add: tune_def)
      then have "tuned r (r\<lparr>pushStat := Some d\<rparr>)" using tunedI [of "mMsecTolerance r" r] by metis
      then show ?thesis using other eq stats' by (simp only: if_False) blast
    qed
  qed
qed

section \<open>Playing\<close>

lemma some_bool [simp]: "\<exists>b. b" "\<exists>b. \<not> b"
  by blast+

lemma reg_inv_process:
  assumes "reg_inv n L C p K M r" and "M < 2147483647"
  shows "\<exists>r'. processPacket glitch Cl r = Some r' \<and> reg_inv n L C p K (M + 1) r' \<and> pull_frame r r' \<and>
    mLastWasGlitch r' = glitch \<and> mLastSeqNumOut r' = mLastSeqNumOut r \<and> mStashedPacket r' = mStashedPacket r \<and>
    pullStat r' = pullStat r \<and> mSkipped r' = mSkipped r \<and> mMsecTolerance r' = mMsecTolerance r \<and>
    (\<not> glitch \<and> \<not> mLastWasGlitch r \<longrightarrow> mXfrBuffer r' = requantize (mBitResolutionMode r) (mXfrBuffer r)) \<and>
    (\<forall>ch<C. \<forall>s<n. fromSampleToBitConversion (flt_bits (heard glitch r (mChanData r') ch s)) (mBitResolutionMode r) =
      Some (cell_at r ch s (mXfrBuffer r')))"
proof -
  have r: "reg_shape n L C p r" "reg_slots n C K r" "reg_stats K M r" using assms(1) by (simp_all add: reg_inv_def)
  have "0 \<le> mPcnt r" "mPcnt r < 2147483647" using r(3) assms(2) by (auto simp: reg_stats_def)
  then obtain x cs b e where x: "processPacket glitch Cl r = Some (r\<lparr>mXfrBuffer := x, mChanData := cs, ba := b,
      mLastWasGlitch := glitch, mPcnt := mPcnt r + 1, mStatsMaxPLCdspElapsed := e\<rparr>)"
    "reg_shape n L C p (r\<lparr>mXfrBuffer := x, mChanData := cs, ba := b, mLastWasGlitch := glitch, mPcnt := mPcnt r + 1,
      mStatsMaxPLCdspElapsed := e\<rparr>)"
    "\<not> glitch \<and> \<not> mLastWasGlitch r \<longrightarrow> x = requantize (mBitResolutionMode r) (mXfrBuffer r)"
    "\<forall>ch<C. \<forall>s<n. fromSampleToBitConversion (flt_bits (heard glitch r cs ch s)) (mBitResolutionMode r) = Some (cell_at r ch s x)"
    using processPacket_total [OF r(1), of glitch Cl] by blast
  let ?r = "r\<lparr>mXfrBuffer := x, mChanData := cs, ba := b, mLastWasGlitch := glitch, mPcnt := mPcnt r + 1,
      mStatsMaxPLCdspElapsed := e\<rparr>"
  have "reg_slots n C K ?r" using r(2) by (simp add: reg_slots_def packet_bytes_def mode_bytes_def)
  moreover have "reg_stats K (M + 1) r" by (rule reg_stats_mono [OF r(3)]) simp_all
  then have "reg_stats K (M + 1) ?r" using r(3) by (simp add: reg_stats_def glitches_allowed_def Let_def)
  ultimately show ?thesis using x by (intro exI [of _ ?r]) (simp add: reg_inv_def pull_frame_def)
qed

lemma glitches_allowed_keeps [simp]:
  "glitches_allowed (r\<lparr>mXfrBuffer := x\<rparr>) = glitches_allowed r"
  "glitches_allowed (r\<lparr>mLastSeqNumOut := k\<rparr>) = glitches_allowed r"
  "glitches_allowed (r\<lparr>mStashedPacket := k\<rparr>) = glitches_allowed r"
  "glitches_allowed (r\<lparr>pullStat := d\<rparr>) = glitches_allowed r"
  "glitches_allowed (r\<lparr>mSkipped := k\<rparr>) = glitches_allowed r"
  by (simp_all add: glitches_allowed_def)

lemma reg_inv_xfr:
  assumes "reg_inv n L C p K M r" and "length x = packet_bytes n C r"
  shows "reg_inv n L C p K M (r\<lparr>mXfrBuffer := x\<rparr>)"
  using assms by (simp add: reg_inv_def reg_shape_def reg_slots_def reg_stats_def packet_bytes_def mode_bytes_def)

lemma reg_inv_out:
  assumes "reg_inv n L C p K M r" and "slot_number k"
  shows "reg_inv n L C p K M (r\<lparr>mLastSeqNumOut := k\<rparr>)" and "reg_inv n L C p K M (r\<lparr>mStashedPacket := k\<rparr>)"
  using assms by (simp_all add: reg_inv_def reg_shape_def reg_slots_def reg_stats_def packet_bytes_def mode_bytes_def)

lemma reg_inv_bytes:
  assumes "reg_inv n L C p K M r"
  shows "byte_count (mPeerBytes r) = Some (packet_bytes n C r)" and "length (mXfrBuffer r) = packet_bytes n C r"
    and "0 \<le> k \<Longrightarrow> k < NumSlots \<Longrightarrow> nat k < length (mSlots r) \<and> length (mSlots r ! nat k) = packet_bytes n C r"
    and "slot_number (mLastSeqNumIn r)" and "slot_number (mLastSeqNumOut r)" and "slot_number (mStashedPacket r)"
proof -
  show "nat k < length (mSlots r) \<and> length (mSlots r ! nat k) = packet_bytes n C r" if "0 \<le> k" "k < NumSlots"
  proof -
    have "nat k < length (mSlots r)" using assms that by (simp add: reg_inv_def reg_slots_def NumSlots_def)
    then show ?thesis using assms by (simp add: reg_inv_def reg_slots_def)
  qed
qed (use assms in \<open>simp_all add: reg_inv_def reg_shape_def reg_slots_def byte_count_def\<close>)

lemma load_slot_total:
  assumes "reg_inv n L C p K M r" and "0 \<le> k" and "k < NumSlots"
  shows "load_slot k r = Some (r\<lparr>mXfrBuffer := mSlots r ! nat k\<rparr>) \<and> reg_inv n L C p K M (r\<lparr>mXfrBuffer := mSlots r ! nat k\<rparr>)"
proof -
  note b = reg_inv_bytes(1-3) [OF assms(1)]
  have "nat k < length (mSlots r)" "length (mSlots r ! nat k) = packet_bytes n C r" using b(3) assms(2,3) by auto
  moreover have "byte_count k = Some (nat k)" using assms(2) by (simp add: byte_count_def)
  ultimately show ?thesis using b(1,2) reg_inv_xfr [OF assms(1)] by (simp add: load_slot_def mem_read_all mem_write_all)
qed

lemma silence_total:
  assumes "reg_inv n L C p K M r"
  shows "silence_xfr r = Some (r\<lparr>mXfrBuffer := replicate (packet_bytes n C r) 0\<rparr>) \<and>
    reg_inv n L C p K M (r\<lparr>mXfrBuffer := replicate (packet_bytes n C r) 0\<rparr>)"
  using reg_inv_bytes(1,2) [OF assms] reg_inv_xfr [OF assms] by (simp add: silence_xfr_def mem_set_def mem_write_all)

lemma play_slot_total:
  assumes "reg_inv n L C p K M r" and "0 \<le> k" and "k < NumSlots" and "M < 2147483647"
  shows "\<exists>r'. play_slot k Cl r = Some (False, r') \<and> reg_inv n L C p K (M + 1) r' \<and> pull_frame r r' \<and>
    \<not> mLastWasGlitch r' \<and> mLastSeqNumOut r' = k \<and> mStashedPacket r' = mStashedPacket r \<and> pullStat r' = pullStat r \<and>
    mMsecTolerance r' = mMsecTolerance r \<and>
    (\<not> mLastWasGlitch r \<longrightarrow> mXfrBuffer r' = requantize (mBitResolutionMode r) (mSlots r ! nat k))"
proof -
  let ?r = "r\<lparr>mXfrBuffer := mSlots r ! nat k\<rparr>"
  let ?s = "?r\<lparr>mLastSeqNumOut := k\<rparr>"
  have load: "load_slot k r = Some ?r" "reg_inv n L C p K M ?r" using load_slot_total [OF assms(1-3)] by blast+
  have "reg_inv n L C p K M ?s" using reg_inv_out(1) [OF load(2)] assms(2,3) by (simp add: slot_number_def)
  from reg_inv_process [OF this assms(4), of False Cl] load(1) show ?thesis
    by (auto simp: play_slot_def pull_frame_def tolerance_bounds_def)
qed

lemma reg_inv_counts:
  assumes "reg_inv n L C p K M r" and "pullStat r = Some pl" and "0 \<le> a" and "M + a \<le> M'"
  shows "reg_inv n L C p K M' (r\<lparr>pullStat := Some (pl\<lparr>plcUnderruns := plcUnderruns pl + a\<rparr>)\<rparr>)"
    and "reg_inv n L C p K M' (r\<lparr>pullStat := Some (pl\<lparr>plcOverruns := plcOverruns pl + a\<rparr>), mSkipped := mSkipped r + a\<rparr>)"
    and "0 \<le> plcUnderruns pl \<and> plcUnderruns pl \<le> M \<and> 0 \<le> plcOverruns pl \<and> plcOverruns pl \<le> M \<and>
      0 \<le> mSkipped r \<and> mSkipped r \<le> M"
proof -
  have r: "reg_shape n L C p r" "reg_slots n C K r" "reg_stats K M r" using assms(1) by (simp_all add: reg_inv_def)
  have "reg_stats K M' r" by (rule reg_stats_mono [OF r(3)]) (use assms(3,4) in simp_all)
  moreover have "stats_ok K M' (pl\<lparr>plcUnderruns := plcUnderruns pl + a\<rparr>)" "stats_ok K M' (pl\<lparr>plcOverruns := plcOverruns pl + a\<rparr>)"
    using r(3) assms(2-4) by (auto simp: reg_stats_def stats_ok_def stat_inv_def)
  ultimately show "reg_inv n L C p K M' (r\<lparr>pullStat := Some (pl\<lparr>plcUnderruns := plcUnderruns pl + a\<rparr>)\<rparr>)"
    and "reg_inv n L C p K M' (r\<lparr>pullStat := Some (pl\<lparr>plcOverruns := plcOverruns pl + a\<rparr>), mSkipped := mSkipped r + a\<rparr>)"
    using r assms(3,4)
    by (auto simp: reg_inv_def reg_shape_def reg_slots_def reg_stats_def packet_bytes_def mode_bytes_def)
  show "0 \<le> plcUnderruns pl \<and> plcUnderruns pl \<le> M \<and> 0 \<le> plcOverruns pl \<and> plcOverruns pl \<le> M \<and>
      0 \<le> mSkipped r \<and> mSkipped r \<le> M" using r(3) assms(2) by (auto simp: reg_stats_def stats_ok_def)
qed

lemma pullStat_exists: "reg_inv n L C p K M r \<Longrightarrow> \<exists>pl. pullStat r = Some pl"
  by (auto simp: reg_inv_def reg_stats_def)

lemma underrun_total:
  assumes "reg_inv n L C p K M r" and "M + 2 \<le> 1073741823" and "mLastSeqNumIn r = k" and "0 \<le> k"
  shows "\<exists>b r'. underrun now k Cl r = Some (b, r') \<and> reg_inv n L C p K (M + 2) r' \<and> pull_frame r r'"
proof -
  obtain pl where pl: "pullStat r = Some pl" using pullStat_exists [OF assms(1)] by blast
  let ?r = "r\<lparr>pullStat := Some (pl\<lparr>plcUnderruns := plcUnderruns pl + 1\<rparr>)\<rparr>"
  have inv: "reg_inv n L C p K (M + 1) ?r" by (rule reg_inv_counts(1) [OF assms(1) pl]) simp_all
  have n: "checked_int (plcUnderruns pl + 1) = Some (plcUnderruns pl + 1)"
    using reg_inv_counts(3) [OF assms(1) pl, of 1 "M + 1"] assms(2) by (simp add: int32_range_def)
  have k: "k < NumSlots" using reg_inv_bytes(4) [OF assms(1)] assms(3) by (simp add: slot_number_def)
  have slots: "reg_slots n C K ?r" using inv by (simp add: reg_inv_def)
  obtain stuck where stuck: "(if mLastSeqNumOut ?r = k
      then map_option (\<lambda>t. gUdpWaitTimeoutMs < dbl_sub now t) (arrival (mLastSeqNumOut ?r) ?r) else Some False) = Some stuck"
    using arrival_total [OF slots assms(4) k] by (cases "mLastSeqNumOut ?r = k") auto
  have frame: "pull_frame r ?r" by (simp add: pull_frame_def)
  have eq: "underrun now k Cl r = (if stuck then silence_xfr ?r \<bind> (\<lambda>r. Some (False, r))
      else processPacket True Cl ?r \<bind> (\<lambda>r. Some (True, r)))"
    using pl n stuck by (simp add: underrun_def)
  show ?thesis
  proof (cases stuck)
    case True
    have "reg_inv n L C p K (M + 2) (?r\<lparr>mXfrBuffer := replicate (packet_bytes n C ?r) 0\<rparr>)"
      by (rule reg_inv_mono [OF conjunct2 [OF silence_total [OF inv]]]) simp_all
    then show ?thesis using True eq silence_total [OF inv] by (simp add: pull_frame_def)
  next
    case False
    have "M + 1 < 2147483647" using assms(2) by simp
    from reg_inv_process [OF inv this, of True Cl] obtain r' where
      "processPacket True Cl ?r = Some r'" "reg_inv n L C p K (M + 1 + 1) r'" "pull_frame ?r r'" by blast
    then show ?thesis using False eq pull_frame_trans [OF frame] by (simp add: add.assoc)
  qed
qed

lemma play_candidate_total:
  assumes "reg_inv n L C p K M r" and "M + 4096 \<le> 1073741823" and "0 \<le> k" and "k < NumSlots"
    and "0 \<le> skipped" and "skipped < NumSlots" and "slot_number good"
  shows "\<exists>b r'. play_candidate k skipped good Cl r = Some (b, r') \<and> reg_inv n L C p K (M + 4096) r' \<and> pull_frame r r'"
proof -
  have M: "M < 2147483647" using assms(2) by simp
  consider "skipped = 1 \<and> 0 \<le> good" | "\<not> (skipped = 1 \<and> 0 \<le> good)" "0 < skipped" | "skipped = 0" using assms(5) by fastforce
  then show ?thesis
  proof cases
    case 1
    let ?r = "r\<lparr>mStashedPacket := k\<rparr>"
    have inv: "reg_inv n L C p K M ?r" using reg_inv_out(2) [OF assms(1)] assms(3,4) by (simp add: slot_number_def)
    have good: "0 \<le> good" "good < NumSlots" using 1 assms(7) by (simp_all add: slot_number_def)
    obtain r' where r': "play_slot good Cl ?r = Some (False, r')" "reg_inv n L C p K (M + 1) r'" "pull_frame ?r r'"
      using play_slot_total [OF inv good M, of Cl] by blast
    moreover have "pull_frame r ?r" by (simp add: pull_frame_def)
    moreover have "reg_inv n L C p K (M + 4096) r'" by (rule reg_inv_mono [OF r'(2)]) simp_all
    ultimately show ?thesis using 1 pull_frame_trans by (fastforce simp: play_candidate_def)
  next
    case 2
    obtain pl where pl: "pullStat r = Some pl" using pullStat_exists [OF assms(1)] by blast
    let ?r = "r\<lparr>pullStat := Some (pl\<lparr>plcOverruns := plcOverruns pl + skipped\<rparr>), mSkipped := mSkipped r + skipped\<rparr>"
    let ?s = "?r\<lparr>mStashedPacket := k\<rparr>"
    have "reg_inv n L C p K (M + 4095) ?r"
      by (rule reg_inv_counts(2) [OF assms(1) pl]) (use assms(5,6) in \<open>simp_all add: NumSlots_def\<close>)
    then have inv: "reg_inv n L C p K (M + 4095) ?s"
      by (rule reg_inv_out(2)) (use assms(3,4) in \<open>simp add: slot_number_def\<close>)
    have c: "checked_int (plcOverruns pl + skipped) = Some (plcOverruns pl + skipped)"
      "checked_int (mSkipped r + skipped) = Some (mSkipped r + skipped)"
      using reg_inv_counts(3) [OF assms(1) pl assms(5) order_refl] assms(2,5,6)
      by (simp_all add: int32_range_def NumSlots_def)
    have "M + 4095 < 2147483647" using assms(2) by simp
    from reg_inv_process [OF inv this, of True Cl] obtain r' where
      r': "processPacket True Cl ?s = Some r'" "reg_inv n L C p K (M + 4095 + 1) r'" "pull_frame ?s r'" by blast
    have "play_candidate k skipped good Cl r = Some (True, r')"
      unfolding play_candidate_def if_not_P [OF 2(1)] if_P [OF 2(2)] using pl c r'(1) by simp
    moreover have "pull_frame r ?s" by (simp add: pull_frame_def)
    ultimately show ?thesis using r'(2) pull_frame_trans [OF _ r'(3)] by (simp add: add.assoc)
  next
    case 3
    obtain r' where r': "play_slot k Cl r = Some (False, r')" "reg_inv n L C p K (M + 1) r'" "pull_frame r r'"
      using play_slot_total [OF assms(1,3,4) M, of Cl] by blast
    moreover have "reg_inv n L C p K (M + 4096) r'" by (rule reg_inv_mono [OF r'(2)]) simp_all
    ultimately show ?thesis using 3 by (simp add: play_candidate_def)
  qed
qed

lemma seq_ahead_range: "- NumSlots \<le> d \<Longrightarrow> d < NumSlots \<Longrightarrow> 0 \<le> seq_ahead d \<and> seq_ahead d < NumSlots"
  by (simp add: seq_ahead_def NumSlots_def)

lemma reg_inv_latency:
  assumes "reg_inv n L C p K M r" and "now \<le> max_latency" and "0 \<le> t"
  shows "reg_inv n L C p K M (if mStatsMaxLatency r < dbl_sub now t then r\<lparr>mStatsMaxLatency := dbl_sub now t\<rparr> else r)"
proof -
  have "dbl_sub now t \<le> max_latency" unfolding dbl_sub_def
    by (rule dbl_round_le) (use assms(2,3) in \<open>simp_all add: max_latency_def\<close>)
  moreover have "0 \<le> mStatsMaxLatency r" using assms(1) by (simp add: reg_inv_def reg_stats_def)
  moreover have "glitches_allowed (r\<lparr>mStatsMaxLatency := x\<rparr>) = glitches_allowed r" for x by (simp add: glitches_allowed_def)
  ultimately show ?thesis using assms(1)
    by (simp add: reg_inv_def reg_shape_def reg_slots_def reg_stats_def packet_bytes_def mode_bytes_def)
qed

lemma is_missing_total:
  assumes "reg_inv n L C p K M r" and "0 \<le> k" and "k < NumSlots"
  shows "\<exists>b. is_missing k r = Some b"
proof -
  have slots: "reg_slots n C K r" using assms(1) by (simp add: reg_inv_def)
  show ?thesis using arrival_total [OF slots assms(2,3)] arrival_total [OF slots, of "mLastSeqNumOut r"] reg_inv_bytes(5) [OF assms(1)]
    by (cases "mLastSeqNumOut r = - 1") (simp_all add: is_missing_def slot_number_def)
qed

lemma pull_scan_total:
  assumes "reg_inv n L C p (msecs (clock_stat Cl)) M r" and "mLastSeqNumIn r = k0" and "0 \<le> k0" and "i \<le> 4096"
    and "0 \<le> skipped" and "skipped < NumSlots" and "slot_number good" and "now \<le> max_latency"
    and "M + int i + 4096 \<le> 1073741823"
  shows "\<exists>b r'. pull_scan now k0 Cl i skipped good r = Some (b, r') \<and>
    reg_inv n L C p (msecs (clock_stat Cl)) (M + int i + 4096) r' \<and> pull_frame r r'"
  using assms
proof (induction i arbitrary: r M skipped good)
  case 0
  then have M: "M + 2 \<le> 1073741823" by simp
  obtain b r' where r': "underrun now k0 Cl r = Some (b, r')" "reg_inv n L C p (msecs (clock_stat Cl)) (M + 2) r'" "pull_frame r r'"
    using underrun_total [OF "0.prems"(1) M "0.prems"(2,3), of now Cl] by blast
  moreover have "reg_inv n L C p (msecs (clock_stat Cl)) (M + int 0 + 4096) r'" by (rule reg_inv_mono [OF r'(2)]) simp_all
  ultimately show ?case by simp
next
  case (Suc i)
  let ?k = "seq_ahead (k0 - int i)" and ?K = "msecs (clock_stat Cl)"
  have "k0 < NumSlots" using reg_inv_bytes(4) [OF Suc.prems(1)] Suc.prems(2) by (simp add: slot_number_def)
  then have k: "0 \<le> ?k" "?k < NumSlots" using seq_ahead_range [of "k0 - int i"] Suc.prems(3,4) by (auto simp: NumSlots_def)
  obtain b where b: "is_missing ?k r = Some b" using is_missing_total [OF Suc.prems(1) k] by blast
  show ?case
  proof (cases b)
    case True
    obtain c r' where r': "pull_scan now k0 Cl i skipped good r = Some (c, r')" "reg_inv n L C p ?K (M + int i + 4096) r'"
      "pull_frame r r'" using Suc.IH [OF Suc.prems(1-3) _ Suc.prems(5-8)] Suc.prems(4,9) by auto
    moreover have "reg_inv n L C p ?K (M + int (Suc i) + 4096) r'" by (rule reg_inv_mono [OF r'(2)]) simp_all
    ultimately show ?thesis using True b by (simp add: Let_def)
  next
    case False
    have parts: "reg_shape n L C p r" "reg_slots n C ?K r" "reg_stats ?K M r" using Suc.prems(1) by (simp_all add: reg_inv_def)
    have out: "slot_number (mLastSeqNumOut r)" by (rule reg_inv_bytes(5) [OF Suc.prems(1)])
    have M: "M + 1 \<le> 1073741823" using Suc.prems(9) by simp
    obtain r1 where r1: "(if mLastSeqNumOut r = - 1 then Some r else updatePushStats (clock_stat Cl) ?k r) = Some r1"
      "r1 = r \<or> tuned r r1" "reg_inv n L C p ?K (M + 1) r1"
    proof (cases "mLastSeqNumOut r = - 1")
      case True
      have "reg_inv n L C p ?K (M + 1) r" by (rule reg_inv_mono [OF Suc.prems(1)]) simp_all
      then show ?thesis using that True by simp
    next
      case False
      then have "0 \<le> mLastSeqNumOut r" using out by (simp add: slot_number_def)
      from updatePushStats_total [OF parts(2,3) order_refl this k M] obtain r1 where
        r1: "updatePushStats (clock_stat Cl) ?k r = Some r1" "tuned r r1" "reg_stats ?K (M + 1) r1" by blast
      moreover have "reg_inv n L C p ?K (M + 1) r1" using r1(3) parts tuned_keeps(1,2) [OF r1(2)] by (simp add: reg_inv_def)
      ultimately show ?thesis using that False by simp
    qed
    have keep: "mLastSeqNumOut r1 = mLastSeqNumOut r" "mIncomingTiming r1 = mIncomingTiming r" "pull_frame r r1"
      using r1(2) tuned_keeps(3,10) tuned_frame by auto
    let ?t = "mIncomingTiming r ! nat ?k"
    have slots1: "reg_slots n C ?K r1" using r1(3) by (simp add: reg_inv_def)
    have t: "arrival ?k r1 = Some ?t" "0 \<le> ?t" using arrival_total [OF slots1 k] keep(2) by auto
    let ?r2 = "if mStatsMaxLatency r1 < dbl_sub now ?t then r1\<lparr>mStatsMaxLatency := dbl_sub now ?t\<rparr> else r1"
    have r2: "reg_inv n L C p ?K (M + 1) ?r2" by (rule reg_inv_latency [OF r1(3) Suc.prems(8) t(2)])
    have "pull_frame r1 ?r2" by (simp add: pull_frame_def)
    then have f2: "pull_frame r ?r2" using keep(3) pull_frame_trans by blast
    define sk where "sk = (if mLastSeqNumOut r = - 1 then skipped else seq_ahead (?k - mLastSeqNumOut r - 1))"
    have sk: "0 \<le> sk" "sk < NumSlots"
      using Suc.prems(5,6) seq_ahead_range [of "?k - mLastSeqNumOut r - 1"] k out by (auto simp: sk_def slot_number_def)
    have step: "pull_scan now k0 Cl (Suc i) skipped good r = (if now \<le> dbl_add ?t (mMsecTolerance ?r2) \<or> i = 0
        then play_candidate ?k sk good Cl ?r2 else pull_scan now k0 Cl i sk (if good = - 1 then ?k else good) ?r2)"
      using b False r1(1) t(1) keep(1) by (simp add: Let_def sk_def)
    show ?thesis
    proof (cases "now \<le> dbl_add ?t (mMsecTolerance ?r2) \<or> i = 0")
      case True
      have M: "M + 1 + 4096 \<le> 1073741823" using Suc.prems(9) by simp
      obtain c r' where r': "play_candidate ?k sk good Cl ?r2 = Some (c, r')" "reg_inv n L C p ?K (M + 1 + 4096) r'"
        "pull_frame ?r2 r'" using play_candidate_total [OF r2 M k sk Suc.prems(7)] by blast
      moreover have "reg_inv n L C p ?K (M + int (Suc i) + 4096) r'" by (rule reg_inv_mono [OF r'(2)]) simp_all
      ultimately show ?thesis using pull_frame_trans [OF f2] unfolding step if_P [OF True] by blast
    next
      case False
      have good: "slot_number (if good = - 1 then ?k else good)" using Suc.prems(7) k by (simp add: slot_number_def)
      have newest: "mLastSeqNumIn ?r2 = k0" using f2 Suc.prems(2) by (simp add: pull_frame_def)
      have bounds: "i \<le> 4096" "M + 1 + int i + 4096 \<le> 1073741823" using Suc.prems(4,9) by simp_all
      obtain c r' where r': "pull_scan now k0 Cl i sk (if good = - 1 then ?k else good) ?r2 = Some (c, r')"
        "reg_inv n L C p ?K (M + 1 + int i + 4096) r'" "pull_frame ?r2 r'"
        using Suc.IH [OF r2 newest Suc.prems(3) bounds(1) sk good Suc.prems(8) bounds(2)] by blast
      have eq: "M + int (Suc i) + 4096 = M + 1 + int i + 4096" by simp
      show ?thesis using r' pull_frame_trans [OF f2] unfolding step if_not_P [OF False] eq by blast
    qed
  qed
qed

text \<open>Every pull has a result.\<close>

lemma pullPacket_total:
  assumes "reg_inv n L C p K M r" and "K \<le> msecs (clock_stat Cl)" and "msecs (clock_now Cl) \<le> max_latency"
    and "M + 8192 \<le> 1073741823"
  shows "\<exists>b r'. pullPacket Cl r = Some (b, r') \<and> reg_inv n L C p (msecs (clock_stat Cl)) (M + 8192) r' \<and> pull_frame r r'"
proof -
  let ?K = "msecs (clock_stat Cl)" and ?now = "msecs (clock_now Cl)"
  have inv: "reg_inv n L C p ?K M r" by (rule reg_inv_mono [OF assms(1,2)]) simp
  have widen: "reg_inv n L C p ?K M' r' \<Longrightarrow> M' \<le> M + 8192 \<Longrightarrow> reg_inv n L C p ?K (M + 8192) r'" for M' r'
    by (erule reg_inv_mono) simp_all
  note num = reg_inv_bytes(4-6) [OF inv]
  have init: "mInitialized r" using inv by (simp add: reg_inv_def reg_shape_def)
  consider "mLastSeqNumIn r = - 1 \<or> ?now < mMsecTolerance r"
    | "\<not> (mLastSeqNumIn r = - 1 \<or> ?now < mMsecTolerance r)" "mStashedPacket r \<noteq> - 1"
    | "\<not> (mLastSeqNumIn r = - 1 \<or> ?now < mMsecTolerance r)" "mStashedPacket r = - 1" "mLastSeqNumIn r = mLastSeqNumOut r"
    | "\<not> (mLastSeqNumIn r = - 1 \<or> ?now < mMsecTolerance r)" "mStashedPacket r = - 1" "mLastSeqNumIn r \<noteq> mLastSeqNumOut r"
    by blast
  then show ?thesis
  proof cases
    case 1
    have "pull_frame r (r\<lparr>mXfrBuffer := x\<rparr>)" for x by (simp add: pull_frame_def)
    moreover have "pullPacket Cl r = Some (False, r\<lparr>mXfrBuffer := replicate (packet_bytes n C r) 0\<rparr>)"
      using 1 silence_total [OF inv] by (auto simp: pullPacket_def Let_def)
    ultimately show ?thesis using widen [of M] silence_total [OF inv] by auto
  next
    case 2
    let ?k = "mStashedPacket r"
    let ?r = "r\<lparr>mXfrBuffer := mSlots r ! nat ?k\<rparr>"
    let ?s = "?r\<lparr>mLastSeqNumOut := ?k, mStashedPacket := - 1\<rparr>"
    have k: "0 \<le> ?k" "?k < NumSlots" using 2(2) num(3) by (simp_all add: slot_number_def)
    have load: "load_slot ?k r = Some ?r" "reg_inv n L C p ?K M ?r" using load_slot_total [OF inv k] by blast+
    have "reg_inv n L C p ?K M ?s"
      by (rule reg_inv_out(2) [OF reg_inv_out(1) [OF load(2)]]) (use num(3) in \<open>simp_all add: slot_number_def NumSlots_def\<close>)
    moreover have "M < 2147483647" using assms(4) by simp
    ultimately obtain r' where r': "processPacket False Cl ?s = Some r'" "reg_inv n L C p ?K (M + 1) r'" "pull_frame ?s r'"
      using reg_inv_process [of n L C p ?K M ?s False Cl] by blast
    have "pullPacket Cl r = Some (False, r')" using 2 init load(1) r'(1) by (simp add: pullPacket_def Let_def)
    moreover have "pull_frame r ?s" by (simp add: pull_frame_def)
    ultimately show ?thesis using widen [OF r'(2)] pull_frame_trans [OF _ r'(3)] by auto
  next
    case 3
    have "0 \<le> mLastSeqNumIn r" using 3(1) num(1) by (simp add: slot_number_def)
    moreover have "M + 2 \<le> 1073741823" using assms(4) by simp
    ultimately obtain b r' where "underrun ?now (mLastSeqNumIn r) Cl r = Some (b, r')" "reg_inv n L C p ?K (M + 2) r'"
      "pull_frame r r'" using underrun_total [OF inv _ refl] by blast
    then show ?thesis using 3 init widen [of "M + 2"] by (simp add: pullPacket_def Let_def)
  next
    case 4
    have k: "0 \<le> mLastSeqNumIn r" using 4(1) num(1) by (simp add: slot_number_def)
    let ?i = "nat (seq_ahead (mLastSeqNumIn r - mLastSeqNumOut r))"
    have "- NumSlots \<le> mLastSeqNumIn r - mLastSeqNumOut r \<and> mLastSeqNumIn r - mLastSeqNumOut r \<le> NumSlots"
      using num(1,2) by (simp add: slot_number_def)
    then have i: "?i \<le> 4096" by (auto simp: seq_ahead_def NumSlots_def nat_le_iff)
    have M: "M + int ?i + 4096 \<le> 1073741823" using i assms(4) by linarith
    have le: "M + int ?i + 4096 \<le> M + 8192" using i by linarith
    have "0 < NumSlots" "slot_number (- 1)" by (simp_all add: NumSlots_def slot_number_def)
    from pull_scan_total [OF inv refl k i order_refl this assms(3) M] obtain b r' where
      r': "pull_scan ?now (mLastSeqNumIn r) Cl ?i 0 (- 1) r = Some (b, r')" "reg_inv n L C p ?K (M + int ?i + 4096) r'"
      "pull_frame r r'" by blast
    have "pullPacket Cl r = Some (b, r')" using 4 init r'(1) by (simp add: pullPacket_def Let_def)
    then show ?thesis using widen [OF r'(2) le] r'(3) by blast
  qed
qed

end
