(* ===== verification/RegulatorReceive.thy ===== *)
theory RegulatorReceive
  imports RegulatorPull
begin

text \<open>
  The first packet fixes the packet length of the peer and establishes the invariant; every further packet of
  that length keeps it.  A first packet of a bad length is written through null pointers.
\<close>

section \<open>Rounding to singles\<close>

lemma float_round_bounds:
  assumes "of_int a \<le> x" and "x \<le> of_int b" and "\<bar>a\<bar> \<le> 16777216" and "\<bar>b\<bar> \<le> 16777216"
  shows "of_int a \<le> float_round x \<and> float_round x \<le> of_int b"
  using fl_round_ge [OF fl_rep_of_int, of a 24 "-149" x] fl_round_le [OF fl_rep_of_int, of b 24 "-149" x] assms
  by (simp add: float_round_def)

lemma glitches_allowed_total:
  assumes "mPeerFPP r = int n" and "0 < n" and "0 \<le> mSampleRate r" and "mSampleRate r < 2147483648" and "n \<le> 16777216"
  shows "glitches_allowed r \<noteq> None"
proof -
  let ?A = AutoHeadroomGlitchTolerance and ?sr = "of_int (mSampleRate r) :: rat"
  have "dbl_rep (1 / 128)" using dbl_rep_pow [of "- 7"] by (simp add: power_int_minus)
  then have A: "0 \<le> ?A \<and> ?A \<le> 1 / 128" unfolding AutoHeadroomGlitchTolerance_def by (intro dbl_round_bounds) simp_all
  have "mSampleRate r \<le> 2147483648" using assms(4) by simp
  then have "?sr \<le> of_int 2147483648" by (simp only: of_int_le_iff)
  then have "?A * ?sr \<le> 1 / 128 * 2147483648" using A assms(3) by (intro mult_mono) auto
  moreover have "0 \<le> ?A * ?sr" using A assms(3) by simp
  ultimately have rate: "0 \<le> dbl_mul ?A ?sr \<and> dbl_mul ?A ?sr \<le> 16777216"
    unfolding dbl_mul_def by (intro dbl_round_bounds) simp_all
  define x where "x = float_round (dbl_mul ?A ?sr)"
  have x: "0 \<le> x" "x \<le> 16777216" using float_round_bounds [of 0 "dbl_mul ?A ?sr" 16777216] rate by (simp_all add: x_def)
  define f where "f = float_round (of_nat n)"
  have "of_nat n \<le> (16777216 :: rat)" using assms(5) by (metis of_nat_le_iff of_nat_numeral)
  moreover have "(1 :: rat) \<le> of_nat n" using assms(2) by simp
  ultimately have f: "1 \<le> f" using float_round_bounds [of 1 "of_nat n" 16777216] by (simp add: f_def)
  have "x / f \<le> x / 1" using x(1) f by (intro divide_left_mono) auto
  then have q: "0 \<le> x / f" "x / f \<le> 16777216" using x f by simp_all
  then have "0 \<le> float_round (x / f)" "float_round (x / f) \<le> 16777216"
    using float_round_bounds [of 0 "x / f" 16777216] by simp_all
  then have "0 \<le> \<lceil>float_round (x / f)\<rceil>" "\<lceil>float_round (x / f)\<rceil> \<le> 16777216" by linarith+
  then have "checked_int \<lceil>float_round (x / f)\<rceil> = Some \<lceil>float_round (x / f)\<rceil>" by (simp add: int32_range_def)
  moreover have "glitches_allowed r = (if f = 0 then None else checked_int \<lceil>float_round (x / f)\<rceil>)"
    by (simp only: glitches_allowed_def Let_def x_def f_def assms(1) of_int_of_nat_eq)
  ultimately show ?thesis using f by simp
qed

section \<open>A new regulator\<close>

definition reg_fresh :: "nat \<Rightarrow> nat \<Rightarrow> Regulator \<Rightarrow> bool" where
  "reg_fresh L C r \<longleftrightarrow> \<not> mInitialized r \<and> 0 < L \<and> 0 < C \<and> mNumChannels r = int C \<and> mLocalFPP r = int L \<and>
     mBitResolutionMode r \<noteq> BIT24 \<and> mLocalBytes r = int (packet_bytes L C r) \<and> m_b_BroadcastQueueLength r = 0 \<and>
     m_b_BroadcastRingBuffer r = None \<and>
     8 * int L \<le> mSampleRate r \<and> mSampleRate r < 2147483648 \<and> mIncomingTiming r = replicate 4096 0 \<and>
     mLastSeqNumOut r = - 1 \<and> mStashedPacket r = - 1 \<and> mSkipped r = 0 \<and> mLastGlitches r = 0 \<and>
     mLastMaxLatency r = 0 \<and> mStatsMaxLatency r = 0 \<and> mXfrPullPtr r = None \<and> \<not> mWorkerEnabled r \<and>
     mRegulatorWorkerPtr r = None \<and> \<not> mLastWasGlitch r"

lemma Regulator_new_fresh:
  assumes "bits = 1 \<or> bits = 2 \<or> bits = 4" and "0 < C" and "0 < L" and "L * C * nat bits < 2147483648"
    and "8 * int L \<le> rate" and "rate < 2147483648"
  shows "\<exists>r. Regulator_new g (int C) bits (int L) qLen 0 rate = Some r \<and> reg_fresh L C r \<and>
    mBitResolutionMode r = bit_res_mode bits BIT16 \<and> mMsecTolerance r = of_int qLen \<and> mSampleRate r = rate \<and>
    mLocalFPPdurMsec r = dbl_round (dbl_mul 1000 (of_int (int L)) / of_int rate)"
proof -
  obtain base where base: "RingBuffer_new 0 0 (mReadsNew (reg_base g)) (mUnderrunsNew (reg_base g)) = Some base"
    by (simp add: RingBuffer_new_def cxx_div_def int32_range_def)
  let ?mode = "bit_res_mode bits (mBitResolutionMode g)"
  have mode: "?mode = bit_res_mode bits BIT16" "?mode \<noteq> BIT24" "bit_resolution_code ?mode = nat bits" "1 \<le> nat bits"
    using assms(1) by (auto simp: bit_res_mode_def)
  have dur: "dbl_div x (of_int rate) = Some (dbl_round (x / of_int rate))" for x
    using assms(3,5) by (simp add: dbl_div_def)
  have "L * C \<le> L * C * nat bits" using mode(4) by simp
  then have "int32_range (int (L * C))" "int32_range (int (L * C * nat bits))"
    using assms(4) by (intro int32_range_of_nat; linarith)+
  then have c: "checked_int (int L * int C) = Some (int L * int C)"
    "checked_int (int L * int C * int (nat bits)) = Some (int L * int C * int (nat bits))"
    by (simp_all only: of_nat_mult checked_int_Some)
  show ?thesis using base mode dur c assms
    by (simp add: Regulator_new_def Let_def reg_fresh_def packet_bytes_def mode_bytes_def NumSlots_def algebra_simps)
qed

section \<open>The first packet\<close>

definition past_packets :: "nat \<Rightarrow> nat" where
  "past_packets n = (if n < 128 then 2 * (128 div n) else if 256 < n then 1 else 2)"

lemma packets_in_the_past_eq: "0 < n \<Longrightarrow> packets_in_the_past (int n) = Some (int (past_packets n)) \<and> 0 < past_packets n"
  by (auto simp: packets_in_the_past_def past_packets_def HISTFPP_def HIST_def cxx_div_pos zdiv_int div_greater_zero_iff)

lemma past_samples: "0 < n \<Longrightarrow> past_packets n * n \<le> max 512 n"
proof (cases "n < 128")
  case True
  assume "0 < n"
  have "n * (128 div n) \<le> 256" by (rule order_trans [OF times_div_less_eq_dividend]) simp
  then show ?thesis using True by (simp add: past_packets_def)
qed (auto simp: past_packets_def)

definition ratio_of :: "nat \<Rightarrow> nat \<Rightarrow> int \<times> int" where
  "ratio_of n L = (if n = L then (1, 1) else if L < n then (1, int (n div L)) else (int (L div n), 1))"

lemma fpp_ratio_total:
  assumes "mPeerFPP r = int n" and "mLocalFPP r = int L" and "0 < n" and "0 < L" and "m_b_BroadcastQueueLength r = 0"
  shows "fpp_ratio r = Some (r\<lparr>mFPPratioNumerator := fst (ratio_of n L), mFPPratioDenominator := snd (ratio_of n L)\<rparr>)"
proof -
  have q: "r\<lparr>mFPPratioNumerator := a, mFPPratioDenominator := b, m_b_BroadcastQueueLength := 0\<rparr> =
      r\<lparr>mFPPratioNumerator := a, mFPPratioDenominator := b\<rparr>" for a b using assms(5) by (cases r) simp
  consider "n = L" | "L < n" | "n < L" by linarith
  then show ?thesis using assms q
    by cases (simp_all add: fpp_ratio_def ratio_of_def cxx_div_pos zdiv_int Let_def)
qed

lemma fade_total:
  assumes "0 < n"
  shows "\<exists>up. those (map (fade_up (int n)) [0..<n]) = Some up \<and> length up = n"
proof -
  have "those (map (fade_up (int n)) is) = Some (map (\<lambda>i. to_single (dbl_round (of_nat i / of_int (int n)))) is)" for "is"
    by (induction "is") (use assms in \<open>simp_all add: fade_up_def dbl_div_def\<close>)
  then show ?thesis by simp
qed

lemma window_total:
  assumes "0 < n" and "8 * int n \<le> rate" and "rate < 2147483648"
  shows "\<exists>w d. dbl_div (of_int rate) (of_int (int n)) = Some w \<and> checked_int \<lfloor>w\<rfloor> = Some \<lfloor>w\<rfloor> \<and>
    StdDev_new g \<lfloor>w\<rfloor> = Some d \<and> stats_ok 0 0 d"
proof -
  have div: "dbl_div (of_int rate) (of_int (int n)) = Some (dbl_round (of_int rate / of_int (int n)))"
    using assms(1) by (simp add: dbl_div_def)
  have "(of_int (8 * int n) :: rat) \<le> of_int rate" using assms(2) by (simp only: of_int_le_iff)
  then have "8 \<le> (of_int rate :: rat) / of_int (int n)" using assms(1) by (simp add: le_divide_eq)
  moreover have "(of_int rate :: rat) / of_int (int n) \<le> of_int rate / 1"
    using assms(1,2) by (intro divide_left_mono) auto
  moreover have "dbl_rep (of_int rate)" using assms by (intro dbl_rep_of_int) simp
  ultimately have "8 \<le> dbl_round (of_int rate / of_int (int n)) \<and> dbl_round (of_int rate / of_int (int n)) \<le> of_int rate"
    by (intro dbl_round_bounds) simp_all
  then have w: "8 \<le> \<lfloor>dbl_round (of_int rate / of_int (int n))\<rfloor>" "\<lfloor>dbl_round (of_int rate / of_int (int n))\<rfloor> \<le> rate"
    by (auto simp: le_floor_iff floor_le_iff)
  obtain d where d: "StdDev_new g \<lfloor>dbl_round (of_int rate / of_int (int n))\<rfloor> = Some d" "stat_inv d" "lastTime d = 0"
    "plcOverruns d = 0" "plcUnderruns d = 0" "longTermCnt d = 0" using StdDev_new_inv [OF w(1)] by blast
  moreover have "int32_range \<lfloor>dbl_round (of_int rate / of_int (int n))\<rfloor>"
    using w assms(3) unfolding int32_range_def by linarith
  ultimately show ?thesis using div by (auto simp: stats_ok_def)
qed

lemma setFPPratio_total:
  assumes "reg_fresh L C r" and "0 < n" and "8 * int n \<le> mSampleRate r"
    and "packet_bytes n C r \<le> 524287"
  shows "\<exists>r'. setFPPratio slots g rn un (int (packet_bytes n C r)) r = Some r' \<and>
    reg_inv n L C (past_packets n) 0 0 r' \<and> mBitResolutionMode r' = mBitResolutionMode r \<and>
    mFPPratioNumerator r' = fst (ratio_of n L) \<and> mFPPratioDenominator r' = snd (ratio_of n L) \<and>
    mLastSeqNumIn r' = - 1 \<and> mLastSeqNumOut r' = - 1 \<and> mStashedPacket r' = - 1 \<and> \<not> mLastWasGlitch r' \<and>
    \<not> mWorkerEnabled r' \<and> mXfrPullPtr r' = None \<and> m_b_BroadcastRingBuffer r' = None \<and>
    (\<forall>T. AutoMax \<le> T \<and> mMsecTolerance r \<le> T \<and> of_nat n \<le> T \<and> mLocalFPPdurMsec r \<le> T \<longrightarrow> tol_ok T r')"
proof -
  let ?B = "mode_bytes r" and ?p = "past_packets n" and ?len = "packet_bytes n C r"
  have f: "\<not> mInitialized r" "0 < L" "0 < C" "mNumChannels r = int C" "mLocalFPP r = int L"
    "m_b_BroadcastQueueLength r = 0" "0 \<le> mSampleRate r" "mSampleRate r < 2147483648" "8 * int L \<le> mSampleRate r"
    using assms(1) by (simp_all add: reg_fresh_def)
  have B: "0 < ?B" by (cases "mBitResolutionMode r") (simp_all add: mode_bytes_def)
  have len: "?len = n * (C * ?B)" by (simp add: packet_bytes_def algebra_simps)
  have "C * ?B \<le> ?len" "n \<le> ?len" using assms(2) f(3) B by (simp_all add: len)
  then have small: "C * ?B \<le> 524287" "n \<le> 524287" using assms(4) by linarith+
  have frame: "checked_int (int C * int ?B) = Some (int C * int ?B)"
    using int32_range_of_nat [of "C * ?B"] small(1) by (simp only: of_nat_mult checked_int_Some)
  have fpp: "cxx_div (int ?len) (int C * int ?B) = Some (int n)"
    using f(3) B by (subst cxx_div_pos) (simp_all add: len)
  have past: "packets_in_the_past (int n) = Some (int ?p)" "0 < ?p" using packets_in_the_past_eq [OF assms(2)] by blast+
  have samples: "?p * n \<le> 524287" using past_samples [OF assms(2)] small(2) by simp
  have now: "checked_int (int ?p * int n) = Some (int (?p * n))"
    using int32_range_of_nat [of "?p * n"] samples by (simp only: of_nat_mult checked_int_Some)
  have count: "byte_count (int ?p * int n) = Some (?p * n)" by (simp flip: of_nat_mult)
  have beyond: "checked_int ((int ?p + 1) * int n) = Some ((int ?p + 1) * int n)"
    using int32_range_of_nat [of "(?p + 1) * n"] samples small(2) by (simp add: algebra_simps)
  obtain B where B: "BurgAlgorithm_new (?p * n) = Some B" "burg_ok (?p * n) B"
    using BurgAlgorithm_new_ok [of "?p * n"] past(2) assms(2) by auto
  have dur: "dbl_div x (of_int (mSampleRate r)) = Some (dbl_round (x / of_int (mSampleRate r)))" for x
    using f(2,9) by (simp add: dbl_div_def)
  have bytes: "checked_int (int n * (int C * int ?B)) = Some (int ?len)"
    using int32_range_of_nat [of ?len] assms(4) by (simp only: len of_nat_mult checked_int_Some)
  have slotBytes: "checked_int (NumSlots * int ?len) = Some (NumSlots * int ?len)"
    using assms(4) by (intro checked_int_Some) (simp add: NumSlots_def int32_range_def)
  obtain up where up: "those (map (fade_up (int n)) [0..<n]) = Some up" "length up = n" using fade_total [OF assms(2)] by blast
  obtain w d where w: "dbl_div (of_int (mSampleRate r)) (of_int (int n)) = Some w" "checked_int \<lfloor>w\<rfloor> = Some \<lfloor>w\<rfloor>"
    "StdDev_new g \<lfloor>w\<rfloor> = Some d" "stats_ok 0 0 d" using window_total [OF assms(2,3) f(8)] by blast
  obtain v e where v: "dbl_div (of_int (mSampleRate r)) (of_int (int L)) = Some v" "checked_int \<lfloor>v\<rfloor> = Some \<lfloor>v\<rfloor>"
    "StdDev_new g \<lfloor>v\<rfloor> = Some e" "stats_ok 0 0 e" using window_total [OF f(2,9,8)] by blast
  define durn where "durn = dbl_round (dbl_mul 1000 (of_int (int n)) / of_int (mSampleRate r))"
  let ?r1 = "r\<lparr>mPeerFPP := int n, mPacketsInThePast := int ?p, mPcnt := 0, mUpToNow := int (?p * n),
          mBeyondNow := (int ?p + 1) * int n, ba := Some B, mPeerFPPdurMsec := durn, mPeerBytes := int ?len\<rparr>"
  let ?r2 = "?r1\<lparr>mFPPratioNumerator := fst (ratio_of n L), mFPPratioDenominator := snd (ratio_of n L)\<rparr>"
  have r2: "fpp_ratio ?r1 = Some ?r2" by (rule fpp_ratio_total) (use f assms(2) in simp_all)
  let ?r3 = "initial_tolerance ?r2"
  have q3: "m_b_BroadcastQueueLength ?r3 = 0" "mSampleRate ?r3 = mSampleRate r" "mLocalFPP ?r3 = int L" "mNumChannels ?r3 = int C"
    using f by (simp_all add: initial_tolerance_def)
  let ?r4 = "?r3\<lparr>mXfrBuffer := replicate ?len 0, mBroadcastBuffer := replicate ?len 0,
          mFadeUp := up, mFadeDown := map fade_down up,
          mSlots := map (\<lambda>i. map (slots i) [0..<?len]) [0..<4096], mChanData := replicate C (Channel_new n (?p * n) ?p),
          mLastSeqNumIn := - 1, m_b_BroadcastRingBuffer := None, pushStat := Some d, pullStat := Some e,
          mInitialized := True\<rparr>"
  have range: "\<not> (int ?len \<le> 0 \<or> kMaxPeerBytes < int ?len)"
    using assms(2,4) f(3) \<open>0 < mode_bytes r\<close>
    by (simp add: kMaxPeerBytes_def) (simp add: len)
  have eq: "setFPPratio slots g rn un (int ?len) r = Some ?r4"
    unfolding setFPPratio_def if_not_P [OF f(1)] if_not_P [OF range]
    using f frame fpp past now count beyond B(1) dur [folded durn_def] bytes r2 slotBytes up w v q3
    by (simp add: durn_def Let_def NumSlots_def)
  have g4: "glitches_allowed ?r4 \<noteq> None"
    by (rule glitches_allowed_total [where n = n]) (use f assms(2) small in \<open>simp_all add: initial_tolerance_def\<close>)
  have keep: "mPeerFPP ?r3 = int n" "mPacketsInThePast ?r3 = int ?p" "mPeerBytes ?r3 = int ?len" "ba ?r3 = Some B"
    "mLocalBytes ?r3 = mLocalBytes r" "mBitResolutionMode ?r3 = mBitResolutionMode r"
    "mIncomingTiming ?r3 = mIncomingTiming r" "mLastSeqNumOut ?r3 = mLastSeqNumOut r" "mStashedPacket ?r3 = mStashedPacket r"
    "mSkipped ?r3 = mSkipped r" "mLastGlitches ?r3 = mLastGlitches r" "mPcnt ?r3 = 0" "mLastMaxLatency ?r3 = mLastMaxLatency r"
    "mStatsMaxLatency ?r3 = mStatsMaxLatency r" "mLastWasGlitch ?r3 = mLastWasGlitch r" "mWorkerEnabled ?r3 = mWorkerEnabled r"
    "mXfrPullPtr ?r3 = mXfrPullPtr r" "mFPPratioNumerator ?r3 = fst (ratio_of n L)"
    "mFPPratioDenominator ?r3 = snd (ratio_of n L)"
    by (simp_all add: initial_tolerance_def)
  have bytes4: "packet_bytes k C ?r4 = packet_bytes k C r" for k using keep(6) by (simp add: packet_bytes_def mode_bytes_def)
  have shape: "reg_shape n L C ?p ?r4"
    using assms(1,2) f past(2) B(2) up(2) keep q3 Channel_new_ok [OF past(2), of n]
    unfolding reg_shape_def bytes4 by (simp add: reg_fresh_def)
  have slots: "reg_slots n C 0 ?r4" using assms(1) keep
    unfolding reg_slots_def bytes4 by (simp add: reg_fresh_def slot_number_def NumSlots_def)
  have stats: "reg_stats 0 0 ?r4" using assms(1) keep g4 w(4) v(4)
    unfolding reg_stats_def by (simp add: reg_fresh_def max_latency_def)
  have inv: "reg_inv n L C ?p 0 0 ?r4" using shape slots stats by (simp add: reg_inv_def)
  have rest: "mBitResolutionMode ?r4 = mBitResolutionMode r" "mFPPratioNumerator ?r4 = fst (ratio_of n L)"
    "mFPPratioDenominator ?r4 = snd (ratio_of n L)" "mLastSeqNumIn ?r4 = - 1" "mLastSeqNumOut ?r4 = - 1"
    "mStashedPacket ?r4 = - 1" "\<not> mLastWasGlitch ?r4" "\<not> mWorkerEnabled ?r4" "mXfrPullPtr ?r4 = None"
    "m_b_BroadcastRingBuffer ?r4 = None"
    using assms(1) keep by (simp_all add: reg_fresh_def)
  have "tol_ok T ?r4" if "AutoMax \<le> T" "mMsecTolerance r \<le> T" "of_nat n \<le> T" "mLocalFPPdurMsec r \<le> T" for T
  proof -
    have thousand: "dbl_mul 1000 (of_int (int n)) = of_int (1000 * int n)"
      using small(2) by (simp add: dbl_mul_def) (use dbl_rep_of_int [of "1000 * int n"] in simp)
    have "(of_int (8 * int n) :: rat) \<le> of_int (mSampleRate r)" using assms(3) by (simp only: of_int_le_iff)
    then have "of_int (1000 * int n) / of_int (mSampleRate r) \<le> (125 :: rat)" using assms(2,3) by (simp add: divide_le_eq)
    then have "durn \<le> 125" unfolding durn_def thousand by (intro dbl_round_le) simp_all
    then have d: "durn \<le> T" using that(1) by (simp add: AutoMax_def)
    have "dbl_mul (of_nat n) AutoInitValFactor \<le> of_nat n" unfolding dbl_mul_def AutoInitValFactor_def
      using dbl_rep_of_int [of "int n"] small(2) by (intro dbl_round_le) simp_all
    then have "mMsecTolerance ?r4 \<le> T" using that(2,3) by (simp add: initial_tolerance_def)
    then show ?thesis using d that by (simp add: tol_ok_def) (simp add: initial_tolerance_def)
  qed
  then show ?thesis using eq inv rest by blast
qed

section \<open>Further packets\<close>

text \<open>The state after a packet for slot \<open>k\<close>.\<close>

definition pushed :: "bytes \<Rightarrow> int \<Rightarrow> int \<Rightarrow> Regulator \<Rightarrow> Regulator" where
  "pushed buf k clock r = r\<lparr>mIncomingTiming := (mIncomingTiming r)[nat k := msecs clock],
     mSlots := (mSlots r)[nat k := buf], mLastSeqNumIn := newest_seq k (mLastSeqNumIn r)\<rparr>"

lemma pushed_inv:
  assumes "reg_inv n L C p K M r" and "0 \<le> K" and "K \<le> msecs clock" and "length buf = packet_bytes n C r"
    and "0 \<le> k" and "k < NumSlots"
  shows "reg_inv n L C p (msecs clock) M (pushed buf k clock r)"
proof -
  have r: "reg_shape n L C p r" "reg_slots n C (msecs clock) r" "reg_stats (msecs clock) M r"
    using reg_inv_mono [OF assms(1,3) order_refl] by (simp_all add: reg_inv_def)
  have shape: "reg_shape n L C p (pushed buf k clock r)" using r(1)
    by (simp add: reg_shape_def pushed_def packet_bytes_def mode_bytes_def)
  have "\<forall>t\<in>set ((mIncomingTiming r)[nat k := msecs clock]). 0 \<le> t \<and> t \<le> msecs clock"
    using r(2) assms(2,3) set_update_subset_insert [of "mIncomingTiming r" "nat k"] by (fastforce simp: reg_slots_def)
  moreover have "\<forall>s\<in>set ((mSlots r)[nat k := buf]). length s = packet_bytes n C r"
    using r(2) assms(4) set_update_subset_insert [of "mSlots r" "nat k" buf] by (auto simp: reg_slots_def)
  moreover have "slot_number (newest_seq k (mLastSeqNumIn r))"
    using r(2) assms(5,6) by (auto simp: newest_seq_def slot_number_def reg_slots_def)
  ultimately have slots: "reg_slots n C (msecs clock) (pushed buf k clock r)" using r(2)
    by (simp add: reg_slots_def pushed_def packet_bytes_def mode_bytes_def)
  have "reg_stats (msecs clock) M (pushed buf k clock r)" using r(3)
    by (simp add: reg_stats_def pushed_def glitches_allowed_def)
  then show ?thesis using shape slots by (simp add: reg_inv_def)
qed

lemma pushPacket_total:
  assumes "reg_inv n L C p K M r" and "m_b_BroadcastRingBuffer r = None" and "length buf = packet_bytes n C r"
    and "0 \<le> seq"
  shows "pushPacket buf seq clock r = Some (pushed buf (seq mod 4096) clock r)"
proof -
  let ?k = "seq mod 4096"
  have k: "0 \<le> ?k" "?k < NumSlots" by (simp_all add: NumSlots_def)
  have idx: "cxx_mod seq NumSlots = Some ?k" using assms(4) by (simp add: NumSlots_def cxx_mod_pos)
  note b = reg_inv_bytes(1,3) [OF assms(1)]
  have slot: "nat ?k < length (mSlots r)" "length (mSlots r ! nat ?k) = length buf" using b(2) [OF k] assms(3) by auto
  have timing: "nat ?k < length (mIncomingTiming r)" using assms(1) k by (simp add: reg_inv_def reg_slots_def NumSlots_def)
  have same: "r\<lparr>m_b_BroadcastRingBuffer := None\<rparr> = r" using assms(2) by (cases r) simp
  show ?thesis using assms(2,3) idx b(1) slot timing
    by (simp add: pushPacket_def store_packet_def same pushed_def mem_read_all mem_write_all)
qed

lemma insert_packet_first:
  assumes "reg_fresh L C r" and "0 < n" and "8 * int n \<le> mSampleRate r" and "packet_bytes n C r \<le> 524287"
    and "length buf = packet_bytes n C r" and "0 \<le> seq" and "0 \<le> msecs clock"
  shows "\<exists>r'. insert_packet G buf (int (length buf)) seq clock r = Some (True, pushed buf (seq mod 4096) clock r') \<and>
    reg_inv n L C (past_packets n) 0 0 r' \<and>
    reg_inv n L C (past_packets n) (msecs clock) 0 (pushed buf (seq mod 4096) clock r') \<and>
    mBitResolutionMode r' = mBitResolutionMode r \<and> mFPPratioNumerator r' = fst (ratio_of n L) \<and>
    mFPPratioDenominator r' = snd (ratio_of n L) \<and> mLastSeqNumIn r' = - 1 \<and> mLastSeqNumOut r' = - 1 \<and>
    mStashedPacket r' = - 1 \<and> \<not> mLastWasGlitch r' \<and> \<not> mWorkerEnabled r' \<and> mXfrPullPtr r' = None \<and>
    m_b_BroadcastRingBuffer r' = None \<and>
    (\<forall>T. AutoMax \<le> T \<and> mMsecTolerance r \<le> T \<and> of_nat n \<le> T \<and> mLocalFPPdurMsec r \<le> T \<longrightarrow> tol_ok T r')"
proof -
  obtain r' where r': "setFPPratio (garbage_slots G) (garbage_dev G) (garbage_reads G) (garbage_underruns G)
      (int (packet_bytes n C r)) r = Some r'" "reg_inv n L C (past_packets n) 0 0 r'"
    "mBitResolutionMode r' = mBitResolutionMode r" "mFPPratioNumerator r' = fst (ratio_of n L)"
    "mFPPratioDenominator r' = snd (ratio_of n L)" "mLastSeqNumIn r' = - 1" "mLastSeqNumOut r' = - 1"
    "mStashedPacket r' = - 1" "\<not> mLastWasGlitch r'" "\<not> mWorkerEnabled r'" "mXfrPullPtr r' = None"
    "m_b_BroadcastRingBuffer r' = None"
    "\<forall>T. AutoMax \<le> T \<and> mMsecTolerance r \<le> T \<and> of_nat n \<le> T \<and> mLocalFPPdurMsec r \<le> T \<longrightarrow> tol_ok T r'"
    using setFPPratio_total [OF assms(1-4)] by blast
  have len: "length buf = packet_bytes n C r'" using assms(5) r'(3) by (simp add: packet_bytes_def mode_bytes_def)
  have "pushPacket buf seq clock r' = Some (pushed buf (seq mod 4096) clock r')"
    by (rule pushPacket_total [OF r'(2,12) len assms(6)])
  moreover have "reg_inv n L C (past_packets n) (msecs clock) 0 (pushed buf (seq mod 4096) clock r')"
    by (rule pushed_inv [OF r'(2) order_refl assms(7) len]) (simp_all add: NumSlots_def)
  ultimately show ?thesis using r' assms(5,6) by (intro exI [of _ r']) (simp add: insert_packet_def)
qed

lemma insert_packet_next:
  assumes "reg_inv n L C p K M r" and "m_b_BroadcastRingBuffer r = None" and "length buf = packet_bytes n C r"
    and "0 \<le> seq"
  shows "insert_packet G buf len seq clock r = Some (True, pushed buf (seq mod 4096) clock r)"
proof -
  have "mInitialized r" using assms(1) by (simp add: reg_inv_def reg_shape_def)
  then show ?thesis using assms(4) pushPacket_total [OF assms] by (simp add: insert_packet_def setFPPratio_def)
qed

text \<open>A refused length leaves the pointers null, and the packet is stored through them.\<close>

lemma bad_length_faults:
  assumes "reg_fresh L C r" and "mSlots r = []" and "0 \<le> seq" and "len < int (C * mode_bytes r) \<or> 2097152 < len"
    and "C * mode_bytes r < 2147483648"
  shows "insert_packet G buf len seq clock r = None"
proof -
  have f: "\<not> mInitialized r" "mNumChannels r = int C" "m_b_BroadcastRingBuffer r = None" "0 < C"
    using assms(1) by (simp_all add: reg_fresh_def)
  let ?first = "setFPPratio (garbage_slots G) (garbage_dev G) (garbage_reads G) (garbage_underruns G) len r"
  have stored: "pushPacket buf seq clock r = None"
    using f(3) assms(2,3)
    by (auto simp: pushPacket_def store_packet_def vec_get_def split: Option.bind_splits)
  show ?thesis
  proof (cases "len \<le> 0 \<or> 2097152 < len")
    case True
    then have "?first = Some r"
      using f(1) by (simp add: setFPPratio_def kMaxPeerBytes_def)
    then show ?thesis using stored assms(3) by (simp add: insert_packet_def)
  next
    case False
    then have len: "0 < len" "len < int C * int (mode_bytes r)" using assms(4) by auto
    have frame: "checked_int (int C * int (mode_bytes r)) = Some (int C * int (mode_bytes r))"
      using int32_range_of_nat [of "C * mode_bytes r"] assms(5) by (simp only: of_nat_mult checked_int_Some)
    have "cxx_div len (int C * int (mode_bytes r)) = Some 0" using len by (subst cxx_div_pos) auto
    moreover have "packets_in_the_past 0 = None" by (simp add: packets_in_the_past_def HISTFPP_def cxx_div_def)
    ultimately have "?first = None" using f False frame
      by (simp add: setFPPratio_def kMaxPeerBytes_def)
    then show ?thesis using assms(3) by (simp add: insert_packet_def)
  qed
qed

end
