(* ===== verification/RegulatorRun.thy ===== *)
theory RegulatorRun
  imports RegulatorReceive
begin

text \<open>
  Reading and the worker: every read has a result when one packet length divides the other, the worker fills its
  queue to the target with one pull for each missing packet, and no sequence of packets, reads and work
  faults.  When no length divides the other, a read leaves the packet.
\<close>

section \<open>The worker\<close>

definition worker_ok :: "nat \<Rightarrow> RegulatorWorker \<Rightarrow> bool" where
  "worker_ok N w \<longleftrightarrow> frames_ok 64 N (mPacketQueue w) \<and> mPacketQueueTarget w \<le> 33"

lemma frame_pop_total:
  assumes "frames_ok 64 N q" and "length buf = N"
  shows "\<exists>got buf' q'. frame_pop buf q = Some (got, buf', q') \<and> frames_ok 64 N q' \<and> length buf' = N \<and>
    mBytesPerFrame q' = N"
proof (cases "pending_items q")
  case Nil
  have ok: "ring_ok q" using assms(1) by (simp add: frames_ok_def)
  have "frame_pop buf q = Some (False, buf, q\<lparr>WaitFreeRingBuffer.mUnderruns := WaitFreeRingBuffer.mUnderruns q + 1\<rparr>)"
    unfolding frame_pop_def by (rule pop_empty [OF ok Nil])
  then show ?thesis using assms by (simp add: frames_ok_def ring_ok_def)
next
  case (Cons x xs)
  obtain q' where "frame_pop buf q = Some (True, x, q')" "frames_ok 64 N q'"
    using frame_pop_item [OF assms Cons] by blast
  moreover have "length x = N"
  proof -
    have ok: "ring_ok q" "list_all (\<lambda>item. length item = N) (mRing q)" "mTailPtr q < length (mRing q)"
      using assms(1) by (simp_all add: frames_ok_def ring_ok_def)
    have "mHeadPtr q \<noteq> mTailPtr q" using pending_items_empty [OF ok(1)] Cons by auto
    then have "x = mRing q ! mTailPtr q" using pending_items_read [OF ok(1)] Cons by simp
    then show ?thesis using ok(2,3) by (simp add: list_all_length)
  qed
  ultimately show ?thesis by (auto simp: frames_ok_def)
qed

lemma worker_pop_total:
  assumes "worker_ok N w" and "length buf = N"
  shows "\<exists>buf' w'. worker_pop buf w = Some (buf', w') \<and> worker_ok N w' \<and> length buf' = N"
proof -
  obtain got b q where q: "frame_pop buf (mPacketQueue w) = Some (got, b, q)" "frames_ok 64 N q" "length b = N" "mBytesPerFrame q = N"
    using frame_pop_total [of N "mPacketQueue w" buf] assms by (auto simp: worker_ok_def)
  have "mem_set b 0 N 0 = Some (replicate N 0)" using q(3) by (simp add: mem_set_def mem_write_all)
  then show ?thesis using q assms(1) by (cases got) (simp_all add: worker_pop_def worker_ok_def)
qed

lemma worker_underrun_ok: "worker_ok N w \<Longrightarrow> worker_ok N (worker_underrun clock w)"
  by (auto simp: worker_underrun_def updateQueueTarget_def worker_ok_def capacity_def frames_ok_def Let_def)

lemma worker_underrun_queue [simp]: "mPacketQueue (worker_underrun clock w) = mPacketQueue w"
  by (simp add: worker_underrun_def updateQueueTarget_def Let_def)

text \<open>The clock readings of consecutive pulls.\<close>

fun clocks_ok :: "dbl \<Rightarrow> pull_clock list \<Rightarrow> bool" where
  "clocks_ok K [] \<longleftrightarrow> True"
| "clocks_ok K (C # Cs) \<longleftrightarrow> K \<le> msecs (clock_stat C) \<and> msecs (clock_now C) \<le> max_latency \<and>
     clocks_ok (msecs (clock_stat C)) Cs"

text \<open>The time of the last of them.\<close>

definition last_time :: "dbl \<Rightarrow> pull_clock list \<Rightarrow> dbl" where
  "last_time K Cs = (if Cs = [] then K else msecs (clock_stat (last Cs)))"

lemma last_time_Nil [simp]: "last_time K [] = K"
  by (simp add: last_time_def)

lemma last_time_snoc [simp]: "last_time K (Cs @ [C]) = msecs (clock_stat C)"
  by (simp add: last_time_def)

lemma last_time_Cons: "last_time K (C # Cs) = last_time (msecs (clock_stat C)) Cs"
  by (simp add: last_time_def)

lemma clocks_ok_last: "clocks_ok K Cs \<Longrightarrow> K \<le> last_time K Cs"
  by (induction Cs arbitrary: K) (auto simp: last_time_Cons intro: order_trans)

lemma clocks_ok_split:
  "clocks_ok K (Cs @ C # Ds) \<Longrightarrow> last_time K Cs \<le> msecs (clock_stat C) \<and> msecs (clock_now C) \<le> max_latency"
  by (induction Cs arbitrary: K) (auto simp: last_time_Cons)

lemma clocks_ok_nth:
  assumes "clocks_ok K (map f [0..<m])" and "i < m"
  shows "last_time K (map f [0..<i]) \<le> msecs (clock_stat (f i)) \<and> msecs (clock_now (f i)) \<le> max_latency \<and>
    last_time K (map f [0..<Suc i]) = msecs (clock_stat (f i))"
proof -
  have "[0..<m] = [0..<i] @ i # [Suc i..<m]"
    using assms(2) by (metis le_add1 le_add_diff_inverse less_or_eq_imp_le upt_add_eq_append upt_conv_Cons zero_le)
  then have "clocks_ok K (map f [0..<i] @ f i # map f [Suc i..<m])" using assms(1) by simp
  from clocks_ok_split [OF this] show ?thesis by simp
qed

lemma worker_fill_total:
  assumes "reg_inv n L C p K M r" and "worker_ok (packet_bytes n C r) w" and "clocks_ok K Cs"
    and "mPacketQueueTarget w \<le> q + length Cs" and "q = ring_size (mPacketQueue w)"
    and "M + 8192 * int (length Cs) \<le> 1073741823"
  shows "\<exists>w' r'. worker_fill Cs q w r = Some (w', r') \<and> worker_ok (packet_bytes n C r) w' \<and>
    ring_size (mPacketQueue w') = max q (mPacketQueueTarget w) \<and> pull_frame r r' \<and>
    reg_inv n L C p (last_time K Cs) (M + 8192 * int (length Cs)) r'"
  using assms
proof (induction Cs arbitrary: K M r w q)
  case Nil
  then show ?case by (simp add: last_time_def max_def)
next
  case (Cons Cl Cs)
  show ?case
  proof (cases "q < mPacketQueueTarget w")
    case False
    have "K \<le> last_time K (Cl # Cs)" using clocks_ok_last [OF Cons.prems(3)] .
    then have "reg_inv n L C p (last_time K (Cl # Cs)) (M + 8192 * int (length (Cl # Cs))) r"
      by (rule reg_inv_mono [OF Cons.prems(1)]) simp
    then show ?thesis using False Cons.prems(2,5) by (simp add: max_def)
  next
    case True
    let ?K = "msecs (clock_stat Cl)"
    have clk: "K \<le> ?K" "msecs (clock_now Cl) \<le> max_latency" "clocks_ok ?K Cs" using Cons.prems(3) by simp_all
    have M: "M + 8192 \<le> 1073741823" using Cons.prems(6) by simp
    obtain b r1 where r1: "pullPacket Cl r = Some (b, r1)" "reg_inv n L C p ?K (M + 8192) r1" "pull_frame r r1"
      using pullPacket_total [OF Cons.prems(1) clk(1,2) M] by blast
    have bytes: "packet_bytes n C r1 = packet_bytes n C r" using r1(3) by (simp add: pull_frame_def packet_bytes_def mode_bytes_def)
    have len: "length (mXfrBuffer r1) = packet_bytes n C r" using reg_inv_bytes(2) [OF r1(2)] bytes by simp
    have frames: "frames_ok 64 (packet_bytes n C r) (mPacketQueue w)" and target: "mPacketQueueTarget w \<le> 33"
      using Cons.prems(2) by (simp_all add: worker_ok_def)
    have room: "length (pending_items (mPacketQueue w)) < 64 - 1"
      using True target Cons.prems(5) by (simp add: pending_items_length)
    obtain q1 where q1: "frame_push (mXfrBuffer r1) (mPacketQueue w) = Some (q + 1, q1)"
      "frames_ok 64 (packet_bytes n C r) q1" "ring_size q1 = q + 1"
      using frame_push_room [OF frames len room] Cons.prems(5) by (metis pending_items_length length_append_singleton Suc_eq_plus1)
    let ?w = "w\<lparr>mPacketQueue := q1\<rparr>"
    have w: "worker_ok (packet_bytes n C r1) ?w" using q1(2) target bytes by (simp add: worker_ok_def)
    have ih: "mPacketQueueTarget ?w \<le> q + 1 + length Cs" "q + 1 = ring_size (mPacketQueue ?w)"
      "M + 8192 + 8192 * int (length Cs) \<le> 1073741823" using Cons.prems(4,6) q1(3) by simp_all
    obtain w' r' where r': "worker_fill Cs (q + 1) ?w r1 = Some (w', r')" "worker_ok (packet_bytes n C r1) w'"
      "ring_size (mPacketQueue w') = max (q + 1) (mPacketQueueTarget ?w)" "pull_frame r1 r'"
      "reg_inv n L C p (last_time ?K Cs) (M + 8192 + 8192 * int (length Cs)) r'"
      using Cons.IH [OF r1(2) w clk(3) ih] by blast
    have "worker_fill (Cl # Cs) q w r = Some (w', r')" using True r1(1) q1(1) r'(1) by simp
    moreover have "ring_size (mPacketQueue w') = max q (mPacketQueueTarget w)" using r'(3) True by simp
    moreover have "M + 8192 + 8192 * int (length Cs) = M + 8192 * int (length (Cl # Cs))" by simp
    ultimately show ?thesis using r'(2,4,5) bytes pull_frame_trans [OF r1(3)] by (simp only: last_time_Cons) blast
  qed
qed

section \<open>Reading\<close>

definition pull_ptr_ok :: "nat \<Rightarrow> Regulator \<Rightarrow> bool" where
  "pull_ptr_ok b r \<longleftrightarrow> (case mXfrPullPtr r of None \<Rightarrow> True
     | Some (InXfr k) \<Rightarrow> \<not> mWorkerEnabled r \<and> b dvd k
     | Some (InWorker k) \<Rightarrow> mWorkerEnabled r \<and> b dvd k)"

definition worker_ready :: "nat \<Rightarrow> Regulator \<Rightarrow> bool" where
  "worker_ready N r \<longleftrightarrow> (mWorkerEnabled r \<longrightarrow> (\<exists>w. mRegulatorWorkerPtr r = Some w \<and> worker_ok N w) \<and> length (mWorkerBuffer r) = N)"

text \<open>A regulator that has got its first packet, without a queue for broadcasts.\<close>

definition reg_ready :: "nat \<Rightarrow> nat \<Rightarrow> nat \<Rightarrow> nat \<Rightarrow> dbl \<Rightarrow> int \<Rightarrow> Regulator \<Rightarrow> bool" where
  "reg_ready n L C p K M r \<longleftrightarrow> reg_inv n L C p K M r \<and> m_b_BroadcastRingBuffer r = None \<and>
     mFPPratioNumerator r = fst (ratio_of n L) \<and> mFPPratioDenominator r = snd (ratio_of n L) \<and>
     worker_ready (packet_bytes n C r) r \<and> pull_ptr_ok (packet_bytes L C r) r \<and> (n \<le> L \<longrightarrow> mXfrPullPtr r = None)"

lemma reg_ready_inv: "reg_ready n L C p K M r \<Longrightarrow> reg_inv n L C p K M r"
  by (simp add: reg_ready_def)

lemma reg_ready_mono: "reg_ready n L C p K M r \<Longrightarrow> K \<le> K' \<Longrightarrow> M \<le> M' \<Longrightarrow> reg_ready n L C p K' M' r"
  using reg_inv_mono by (auto simp: reg_ready_def)

lemma frame_bytes: "pull_frame r r' \<Longrightarrow> packet_bytes k C r' = packet_bytes k C r"
  by (simp add: pull_frame_def packet_bytes_def mode_bytes_def)

lemma pull_ptr_ok_cong:
  assumes "mXfrPullPtr r' = mXfrPullPtr r" and "mWorkerEnabled r' = mWorkerEnabled r"
  shows "pull_ptr_ok b r' = pull_ptr_ok b r"
  by (simp only: pull_ptr_ok_def assms)

lemma reg_ready_pull:
  assumes "reg_ready n L C p K M r" and "reg_inv n L C p K' M' r'" and "pull_frame r r'"
  shows "reg_ready n L C p K' M' r'"
proof -
  have "pull_ptr_ok b r' = pull_ptr_ok b r" for b
    by (rule pull_ptr_ok_cong) (use assms(3) in \<open>simp_all add: pull_frame_def\<close>)
  then show ?thesis using assms frame_bytes [OF assms(3)]
    by (simp add: reg_ready_def worker_ready_def) (simp add: pull_frame_def)
qed

lemma reg_inv_nonneg:
  assumes "reg_inv n L C p K M r"
  shows "0 \<le> K"
proof -
  have "mIncomingTiming r ! 0 \<in> set (mIncomingTiming r)" using assms by (intro nth_mem) (simp add: reg_inv_def reg_slots_def)
  then have "0 \<le> mIncomingTiming r ! 0 \<and> mIncomingTiming r ! 0 \<le> K"
    using assms unfolding reg_inv_def reg_slots_def by blast
  then show ?thesis by linarith
qed

lemma glitches_allowed_cong: "mPeerFPP s = mPeerFPP r \<Longrightarrow> mSampleRate s = mSampleRate r \<Longrightarrow> glitches_allowed s = glitches_allowed r"
  by (simp add: glitches_allowed_def)

lemma glitches_allowed_worker [simp]:
  "glitches_allowed (r\<lparr>mWorkerBuffer := b\<rparr>) = glitches_allowed r"
  "glitches_allowed (r\<lparr>mRegulatorWorkerPtr := w\<rparr>) = glitches_allowed r"
  "glitches_allowed (r\<lparr>mWorkerEnabled := e\<rparr>) = glitches_allowed r"
  "glitches_allowed (r\<lparr>mXfrPullPtr := x\<rparr>) = glitches_allowed r"
  by (rule glitches_allowed_cong; simp)+

text \<open>Changes of the worker and of the pull pointer keep the invariant.\<close>

lemma reg_inv_worker:
  assumes "reg_inv n L C p K M r"
  shows "reg_inv n L C p K M (r\<lparr>mWorkerBuffer := b, mRegulatorWorkerPtr := w\<rparr>)"
    and "reg_inv n L C p K M (r\<lparr>mWorkerBuffer := b, mRegulatorWorkerPtr := w, mWorkerEnabled := e\<rparr>)"
    and "reg_inv n L C p K M (r\<lparr>mXfrPullPtr := x\<rparr>)"
    and "reg_inv n L C p K M (r\<lparr>mWorkerBuffer := b, mXfrPullPtr := x\<rparr>)"
    and "reg_inv n L C p K M (r\<lparr>mRegulatorWorkerPtr := w\<rparr>)"
  using assms by (simp_all add: reg_inv_def reg_shape_def reg_slots_def reg_stats_def packet_bytes_def mode_bytes_def)

lemma reg_inv_tick:
  assumes "reg_inv n L C p K M r" and "K \<le> msecs clock" and "M + 1 \<le> 1073741823"
  shows "\<exists>pl u pl'. pullStat r = Some pl \<and> tick 0 0 clock pl = Some (u, pl') \<and>
    reg_inv n L C p (msecs clock) (M + 1) (r\<lparr>pullStat := Some pl'\<rparr>)"
proof -
  have inv: "reg_inv n L C p (msecs clock) (M + 1) r" by (rule reg_inv_mono [OF assms(1,2)]) simp
  obtain pl where pl: "pullStat r = Some pl" "stats_ok K M pl" using assms(1) by (auto simp: reg_inv_def reg_stats_def)
  have pre: "stat_inv pl" "lastTime pl \<le> msecs clock" "longTermCnt pl < 2147483647"
    using pl(2) assms(2,3) by (auto simp: stats_ok_def)
  obtain u d where d: "tick 0 0 clock pl = Some (u, d)" "stat_inv d" "lastTime d = 0 \<or> lastTime d = msecs clock"
    "longTermCnt d \<le> longTermCnt pl + 1" "plcOverruns d = plcOverruns pl" "plcUnderruns d = plcUnderruns pl"
    using tick_inv [OF pre, of 0 0] by blast
  have "0 \<le> msecs clock" using reg_inv_nonneg [OF inv] .
  then have "stats_ok (msecs clock) (M + 1) d" using pl(2) d pre by (auto simp: stats_ok_def)
  then have "reg_inv n L C p (msecs clock) (M + 1) (r\<lparr>pullStat := Some d\<rparr>)" using inv
    by (simp add: reg_inv_def reg_shape_def reg_slots_def reg_stats_def packet_bytes_def mode_bytes_def)
  then show ?thesis using pl(1) d(1) by blast
qed

lemma packet_bytes_mode: "mBitResolutionMode r' = mBitResolutionMode r \<Longrightarrow> packet_bytes k C r' = packet_bytes k C r"
  by (simp add: packet_bytes_def mode_bytes_def)

lemma local_bytes: "reg_ready n L C p K M r \<Longrightarrow> byte_count (mLocalBytes r) = Some (packet_bytes L C r)"
  by (simp add: reg_ready_def reg_inv_def reg_shape_def byte_count_def)

lemma pop_packet_total:
  assumes "reg_ready n L C p K M r" and "mWorkerEnabled r"
  shows "\<exists>r'. pop_packet r = Some r' \<and> reg_ready n L C p K M r' \<and> mWorkerEnabled r' \<and> mXfrPullPtr r' = mXfrPullPtr r \<and>
    mBitResolutionMode r' = mBitResolutionMode r"
proof -
  obtain w where w: "mRegulatorWorkerPtr r = Some w" "worker_ok (packet_bytes n C r) w"
    "length (mWorkerBuffer r) = packet_bytes n C r" using assms by (auto simp: reg_ready_def worker_ready_def)
  obtain b w' where b: "worker_pop (mWorkerBuffer r) w = Some (b, w')" "worker_ok (packet_bytes n C r) w'"
    "length b = packet_bytes n C r" using worker_pop_total [OF w(2,3)] by blast
  let ?r = "r\<lparr>mWorkerBuffer := b, mRegulatorWorkerPtr := Some w'\<rparr>"
  have bytes: "packet_bytes k C ?r = packet_bytes k C r" for k by (simp add: packet_bytes_def mode_bytes_def)
  have "pull_ptr_ok x ?r = pull_ptr_ok x r" for x by (rule pull_ptr_ok_cong) simp_all
  then have "reg_ready n L C p K M ?r" using assms b(2,3) reg_inv_worker(1) [of n L C p K M r, where b = b and w = "Some w'"] bytes
    by (simp add: reg_ready_def worker_ready_def)
  then show ?thesis using w(1) b(1) assms(2) by (simp add: pop_packet_def)
qed

lemma next_packet_total:
  assumes "reg_ready n L C p K M r" and "K \<le> msecs (clock_stat Cl)" and "msecs (clock_now Cl) \<le> max_latency"
    and "M + 8192 \<le> 1073741823"
  shows "\<exists>x b r'. next_packet Cl r = Some (x, b, r') \<and> length x = packet_bytes n C r \<and>
    reg_ready n L C p (msecs (clock_stat Cl)) (M + 8192) r' \<and> mXfrPullPtr r' = mXfrPullPtr r \<and>
    mBitResolutionMode r' = mBitResolutionMode r"
proof (cases "mWorkerEnabled r")
  case True
  obtain r' where r': "pop_packet r = Some r'" "reg_ready n L C p K M r'" "mWorkerEnabled r'" "mXfrPullPtr r' = mXfrPullPtr r"
    "mBitResolutionMode r' = mBitResolutionMode r" using pop_packet_total [OF assms(1) True] by blast
  have "reg_ready n L C p (msecs (clock_stat Cl)) (M + 8192) r'" by (rule reg_ready_mono [OF r'(2) assms(2)]) simp
  moreover have "length (mWorkerBuffer r') = packet_bytes n C r" using r'(2,3,5)
    by (simp add: reg_ready_def worker_ready_def packet_bytes_def mode_bytes_def)
  ultimately show ?thesis using True r' by (simp add: next_packet_def)
next
  case False
  obtain b r' where r': "pullPacket Cl r = Some (b, r')" "reg_inv n L C p (msecs (clock_stat Cl)) (M + 8192) r'" "pull_frame r r'"
    using pullPacket_total [OF reg_ready_inv [OF assms(1)] assms(2-4)] by blast
  have "length (mXfrBuffer r') = packet_bytes n C r" using reg_inv_bytes(2) [OF r'(2)] frame_bytes [OF r'(3)] by simp
  moreover have "mXfrPullPtr r' = mXfrPullPtr r" "mBitResolutionMode r' = mBitResolutionMode r"
    using r'(3) by (simp_all add: pull_frame_def)
  ultimately show ?thesis using False r'(1) reg_ready_pull [OF assms(1) r'(2,3)] by (simp add: next_packet_def)
qed

lemma enableWorker_total:
  assumes "reg_ready n L C p K M r" and "mXfrPullPtr r = None \<or> n > L"
  shows "\<exists>r'. enableWorker q r = Some r' \<and> reg_inv n L C p K M r' \<and> worker_ready (packet_bytes n C r) r' \<and>
    m_b_BroadcastRingBuffer r' = None \<and> mFPPratioNumerator r' = fst (ratio_of n L) \<and>
    mFPPratioDenominator r' = snd (ratio_of n L) \<and> mXfrPullPtr r' = mXfrPullPtr r \<and> mXfrBuffer r' = mXfrBuffer r \<and>
    mBitResolutionMode r' = mBitResolutionMode r \<and> (mWorkerEnabled r \<longrightarrow> mWorkerEnabled r')"
proof (cases "dbl_mul (mLocalFPPdurMsec r) (dbl_round (7 / 10)) \<le> mStatsMaxPLCdspElapsed r \<and> \<not> mWorkerEnabled r")
  case True
  note b = reg_inv_bytes(1) [OF reg_ready_inv [OF assms(1)]]
  let ?w = "RegulatorWorker_new q (packet_bytes n C r)"
  let ?r = "r\<lparr>mWorkerBuffer := replicate (packet_bytes n C r) 0, mRegulatorWorkerPtr := Some ?w, mWorkerEnabled := True\<rparr>"
  have "enableWorker q r = Some ?r" using True b by (simp add: enableWorker_def)
  moreover have "worker_ok (packet_bytes n C r) ?w"
    using frames_ok_new [of 64 "packet_bytes n C r" q] by (simp add: worker_ok_def RegulatorWorker_new_def)
  moreover have "reg_inv n L C p K M ?r" by (rule reg_inv_worker(2) [OF reg_ready_inv [OF assms(1)]])
  ultimately show ?thesis using assms(1) by (simp add: reg_ready_def worker_ready_def)
next
  case False
  then have "enableWorker q r = Some r" by (auto simp: enableWorker_def)
  then show ?thesis using assms(1) by (simp add: reg_ready_def)
qed

lemma after_prediction_total:
  assumes "reg_ready n L C p K M r" and "mXfrPullPtr r = None"
  shows "\<exists>r'. after_prediction E b r = Some r' \<and> reg_ready n L C p K M r' \<and> mBitResolutionMode r' = mBitResolutionMode r"
proof (cases b)
  case True
  obtain r' where r': "enableWorker (env_queue E) r = Some r'" "reg_inv n L C p K M r'" "worker_ready (packet_bytes n C r) r'"
    "m_b_BroadcastRingBuffer r' = None" "mFPPratioNumerator r' = fst (ratio_of n L)"
    "mFPPratioDenominator r' = snd (ratio_of n L)" "mXfrPullPtr r' = mXfrPullPtr r"
    "mBitResolutionMode r' = mBitResolutionMode r"
    using enableWorker_total [OF assms(1), of "env_queue E"] assms(2) by blast
  have "packet_bytes n C r' = packet_bytes n C r" using r'(8) by (simp add: packet_bytes_def mode_bytes_def)
  then have "reg_ready n L C p K M r'" using r' assms(2) by (simp add: reg_ready_def pull_ptr_ok_def)
  then show ?thesis using True r'(1,8) by (simp add: after_prediction_def)
qed (use assms in \<open>simp add: after_prediction_def\<close>)

lemma reg_ready_tick:
  assumes "reg_ready n L C p K M r" and "K \<le> msecs clock" and "M + 1 \<le> 1073741823"
  shows "\<exists>pl u pl'. pullStat r = Some pl \<and> tick 0 0 clock pl = Some (u, pl') \<and>
    reg_ready n L C p (msecs clock) (M + 1) (r\<lparr>pullStat := Some pl'\<rparr>)"
proof -
  obtain pl u pl' where t: "pullStat r = Some pl" "tick 0 0 clock pl = Some (u, pl')"
    "reg_inv n L C p (msecs clock) (M + 1) (r\<lparr>pullStat := Some pl'\<rparr>)"
    using reg_inv_tick [OF reg_ready_inv [OF assms(1)] assms(2,3)] by blast
  have "pull_frame r (r\<lparr>pullStat := Some pl'\<rparr>)" by (simp add: pull_frame_def)
  then show ?thesis using t reg_ready_pull [OF assms(1) t(3)] by blast
qed

lemma ratio_times: "n dvd L \<Longrightarrow> 0 < n \<Longrightarrow> 0 < L \<Longrightarrow> nat (fst (ratio_of n L)) * n = L"
  by (auto simp: ratio_of_def dest: dvd_imp_le)

lemma read_equal_total:
  assumes "reg_ready n n C p K M r" and "clocks_ok K [env_clock E 0]" and "M + 8192 \<le> 1073741823"
    and "length out = packet_bytes n C r"
  shows "\<exists>out' r'. read_equal E out r = Some (out', r') \<and> length out' = length out \<and>
    reg_ready n n C p (msecs (clock_stat (env_clock E 0))) (M + 8192) r' \<and> mBitResolutionMode r' = mBitResolutionMode r"
proof -
  have clk: "K \<le> msecs (clock_stat (env_clock E 0))" "msecs (clock_now (env_clock E 0)) \<le> max_latency" using assms(2) by simp_all
  obtain x b r1 where x: "next_packet (env_clock E 0) r = Some (x, b, r1)" "length x = packet_bytes n C r"
    "reg_ready n n C p (msecs (clock_stat (env_clock E 0))) (M + 8192) r1" "mXfrPullPtr r1 = mXfrPullPtr r"
    "mBitResolutionMode r1 = mBitResolutionMode r" using next_packet_total [OF assms(1) clk assms(3)] by blast
  have none: "mXfrPullPtr r1 = None" using x(3) by (simp add: reg_ready_def)
  obtain r2 where r2: "after_prediction E b r1 = Some r2"
    "reg_ready n n C p (msecs (clock_stat (env_clock E 0))) (M + 8192) r2" "mBitResolutionMode r2 = mBitResolutionMode r1"
    using after_prediction_total [OF x(3) none] by blast
  have "byte_count (mLocalBytes r1) = Some (packet_bytes n C r)"
    using local_bytes [OF x(3)] packet_bytes_mode [OF x(5)] by simp
  then show ?thesis using x r2 assms(4) by (simp add: read_equal_def mem_read_all mem_write_all)
qed

lemma read_several_total:
  assumes "reg_ready n L C p K M r" and "n dvd L" and "n \<le> L"
    and "clocks_ok K (map (env_clock E) [0..<nat (fst (ratio_of n L))])"
    and "M + 8192 * fst (ratio_of n L) \<le> 1073741823" and "length out = packet_bytes L C r"
  shows "\<exists>out' r'. read_several E out r = Some (out', r') \<and> length out' = length out \<and>
    reg_ready n L C p (last_time K (map (env_clock E) [0..<nat (fst (ratio_of n L))])) (M + 8192 * fst (ratio_of n L)) r' \<and>
    mBitResolutionMode r' = mBitResolutionMode r"
proof -
  let ?m = "nat (fst (ratio_of n L))" and ?N = "packet_bytes n C r"
  have pos: "0 < n" "0 < L" using assms(1) by (simp_all add: reg_ready_def reg_inv_def reg_shape_def)
  have m: "?m * n = L" by (rule ratio_times [OF assms(2) pos])
  then have fm: "fst (ratio_of n L) = int ?m" using pos by (cases "fst (ratio_of n L) \<le> 0") auto
  have size: "length out = ?m * ?N" unfolding assms(6) packet_bytes_def by (metis m mult.assoc)
  define step where "step = (\<lambda>i (out :: bytes, predicted, r). do {
         (packet, p, r) \<leftarrow> next_packet (env_clock E i) r;
         packet \<leftarrow> mem_read packet 0 ?N;
         out \<leftarrow> mem_write out (i * ?N) packet;
         Some (out, predicted \<or> p, r)
       })"
  define Kt where "Kt = (\<lambda>i. last_time K (map (env_clock E) [0..<i]))"
  have clk: "Kt i \<le> msecs (clock_stat (env_clock E i)) \<and> msecs (clock_now (env_clock E i)) \<le> max_latency \<and>
      Kt (Suc i) = msecs (clock_stat (env_clock E i))" if "i < ?m" for i
    using clocks_ok_nth [OF assms(4) that] by (simp add: Kt_def)
  have "\<exists>t. iter_opt step [0..<?m] (out, False, r) = Some t \<and>
      (length (fst t) = length out \<and> reg_ready n L C p (Kt ?m) (M + 8192 * int ?m) (snd (snd t)) \<and>
       mBitResolutionMode (snd (snd t)) = mBitResolutionMode r)"
  proof (rule iter_opt_invariant [where P = "\<lambda>k t. length (fst t) = length out \<and>
      reg_ready n L C p (Kt k) (M + 8192 * int k) (snd (snd t)) \<and> mBitResolutionMode (snd (snd t)) = mBitResolutionMode r"])
    fix i and t :: "bytes \<times> bool \<times> Regulator"
    assume i: "i < ?m" and t: "length (fst t) = length out \<and> reg_ready n L C p (Kt i) (M + 8192 * int i) (snd (snd t)) \<and>
      mBitResolutionMode (snd (snd t)) = mBitResolutionMode r"
    obtain o1 b1 r1 where tt: "t = (o1, b1, r1)" by (cases t) auto
    have r1: "reg_ready n L C p (Kt i) (M + 8192 * int i) r1" "packet_bytes n C r1 = ?N" "length o1 = length out"
      using t tt by (simp_all add: packet_bytes_def mode_bytes_def)
    have "int i + 1 \<le> int ?m" using i by linarith
    then have M: "M + 8192 * int i + 8192 \<le> 1073741823" using assms(5) fm by linarith
    obtain x b r2 where x: "next_packet (env_clock E i) r1 = Some (x, b, r2)" "length x = packet_bytes n C r1"
      "reg_ready n L C p (msecs (clock_stat (env_clock E i))) (M + 8192 * int i + 8192) r2"
      "mBitResolutionMode r2 = mBitResolutionMode r1"
      using next_packet_total [OF r1(1) _ _ M, of "env_clock E i"] clk [OF i] by auto
    have "Suc i * ?N \<le> ?m * ?N" using i by (intro mult_le_mono1) simp
    then obtain o2 where o2: "mem_write o1 (i * ?N) x = Some o2" "length o2 = length o1"
      using mem_write_total [of "i * ?N" x o1] x(2) r1(2,3) size by auto
    have "reg_ready n L C p (Kt (Suc i)) (M + 8192 * int (Suc i)) r2" using x(3) clk [OF i] by (simp add: algebra_simps)
    then show "\<exists>u. step i t = Some u \<and> length (fst u) = length out \<and>
        reg_ready n L C p (Kt (Suc i)) (M + 8192 * int (Suc i)) (snd (snd u)) \<and>
        mBitResolutionMode (snd (snd u)) = mBitResolutionMode r"
      using tt t x(1,2,4) r1(2,3) o2 by (simp add: step_def mem_read_all)
  qed (use assms(1) in \<open>simp add: Kt_def last_time_def\<close>)
  then obtain o1 b r1 where t: "iter_opt step [0..<?m] (out, False, r) = Some (o1, b, r1)" "length o1 = length out"
    "reg_ready n L C p (Kt ?m) (M + 8192 * int ?m) r1" "mBitResolutionMode r1 = mBitResolutionMode r" by auto
  have none: "mXfrPullPtr r1 = None" using t(3) assms(3) by (simp add: reg_ready_def)
  obtain r2 where r2: "after_prediction E b r1 = Some r2" "reg_ready n L C p (Kt ?m) (M + 8192 * int ?m) r2"
    "mBitResolutionMode r2 = mBitResolutionMode r1" using after_prediction_total [OF t(3) none] by blast
  have "mFPPratioNumerator r = fst (ratio_of n L)" using assms(1) by (simp add: reg_ready_def)
  then have "read_several E out r = Some (o1, r2)"
    using t(1) r2(1) reg_inv_bytes(1) [OF reg_ready_inv [OF assms(1)]] by (simp add: read_several_def step_def)
  then show ?thesis using t(2,4) r2(2,3) fm by (simp add: Kt_def)
qed

text \<open>What a read of a part needs: a pointer that is in one of the buffers.\<close>

lemma refill_total:
  assumes "reg_ready n L C p K M r" and "L < n" and "K \<le> msecs (clock_stat (env_clock E 0))"
    and "msecs (clock_now (env_clock E 0)) \<le> max_latency" and "M + 8192 \<le> 1073741823"
  shows "\<exists>r'. refill E r = Some r' \<and> reg_ready n L C p (msecs (clock_stat (env_clock E 0))) (M + 8192) r' \<and>
    mBitResolutionMode r' = mBitResolutionMode r \<and>
    mXfrPullPtr r' = Some (if mWorkerEnabled r' then InWorker 0 else InXfr 0)"
proof (cases "mWorkerEnabled r")
  case True
  obtain r1 where r1: "pop_packet r = Some r1" "reg_ready n L C p K M r1" "mWorkerEnabled r1" "mXfrPullPtr r1 = mXfrPullPtr r"
    "mBitResolutionMode r1 = mBitResolutionMode r" using pop_packet_total [OF assms(1) True] by blast
  let ?r = "r1\<lparr>mXfrPullPtr := Some (InWorker 0)\<rparr>"
  have "reg_ready n L C p (msecs (clock_stat (env_clock E 0))) (M + 8192) r1" by (rule reg_ready_mono [OF r1(2) assms(3)]) simp
  then have "reg_ready n L C p (msecs (clock_stat (env_clock E 0))) (M + 8192) ?r"
    using reg_inv_worker(3) assms(2) r1(3) packet_bytes_mode [of ?r r1]
    by (simp add: reg_ready_def pull_ptr_ok_def worker_ready_def)
  then show ?thesis using True r1 by (simp add: refill_def)
next
  case False
  let ?K = "msecs (clock_stat (env_clock E 0))"
  obtain b r1 where r1: "pullPacket (env_clock E 0) r = Some (b, r1)" "reg_inv n L C p ?K (M + 8192) r1" "pull_frame r r1"
    using pullPacket_total [OF reg_ready_inv [OF assms(1)] assms(3-5)] by blast
  have ready1: "reg_ready n L C p ?K (M + 8192) r1" by (rule reg_ready_pull [OF assms(1) r1(2,3)])
  let ?r2 = "r1\<lparr>mXfrPullPtr := Some (InXfr 0)\<rparr>"
  have off: "\<not> mWorkerEnabled r1" using False r1(3) by (simp add: pull_frame_def)
  have ready2: "reg_ready n L C p ?K (M + 8192) ?r2" using ready1 off assms(2) reg_inv_worker(3) packet_bytes_mode [of ?r2 r1]
    by (simp add: reg_ready_def pull_ptr_ok_def worker_ready_def)
  have mode: "mBitResolutionMode r1 = mBitResolutionMode r" using r1(3) by (simp add: pull_frame_def)
  show ?thesis
  proof (cases b)
    case no: False
    then show ?thesis using False r1(1) ready2 mode off by (simp add: refill_def after_prediction_def)
  next
    case True
    obtain r3 where r3: "enableWorker (env_queue E) ?r2 = Some r3" "reg_inv n L C p ?K (M + 8192) r3"
      "worker_ready (packet_bytes n C ?r2) r3" "m_b_BroadcastRingBuffer r3 = None" "mFPPratioNumerator r3 = fst (ratio_of n L)"
      "mFPPratioDenominator r3 = snd (ratio_of n L)" "mXfrPullPtr r3 = Some (InXfr 0)"
      "mBitResolutionMode r3 = mBitResolutionMode r1"
      using enableWorker_total [OF ready2, of "env_queue E"] assms(2) by auto
    note n3 = reg_inv_bytes(1,2) [OF r3(2)]
    show ?thesis
    proof (cases "mWorkerEnabled r3")
      case on: True
      let ?r4 = "r3\<lparr>mWorkerBuffer := mXfrBuffer r3, mXfrPullPtr := Some (InWorker 0)\<rparr>"
      have len: "length (mWorkerBuffer r3) = packet_bytes n C r3"
        using r3(3) on packet_bytes_mode [OF r3(8)] packet_bytes_mode [of ?r2 r1] by (simp add: worker_ready_def)
      have "refill E r = Some ?r4" using False True r1(1) r3(1) on n3 len
        by (simp add: refill_def after_prediction_def mem_read_all mem_write_all)
      moreover have "worker_ready (packet_bytes n C ?r4) ?r4" using r3(3) on n3(2) packet_bytes_mode [OF r3(8)]
          packet_bytes_mode [of ?r4 r3] packet_bytes_mode [of ?r2 r1] by (simp add: worker_ready_def)
      ultimately show ?thesis using r3 on reg_inv_worker(4) [OF r3(2)] assms(2) mode
        by (simp add: reg_ready_def pull_ptr_ok_def)
    next
      case out: False
      have "refill E r = Some r3" using False True r1(1) r3(1) out by (simp add: refill_def after_prediction_def)
      moreover have "worker_ready (packet_bytes n C r3) r3" using out by (simp add: worker_ready_def)
      ultimately show ?thesis using r3 out assms(2) mode by (simp add: reg_ready_def pull_ptr_ok_def)
    qed
  qed
qed

lemma read_part_total:
  assumes "reg_ready n L C p K M r" and "L dvd n" and "L < n" and "clocks_ok K [env_clock E 0]"
    and "M + 8192 \<le> 1073741823" and "length out = packet_bytes L C r"
  shows "\<exists>out' r'. read_part E out r = Some (out', r') \<and> length out' = length out \<and>
    reg_ready n L C p (msecs (clock_stat (env_clock E 0))) (M + 8192) r' \<and> mBitResolutionMode r' = mBitResolutionMode r"
proof -
  let ?K = "msecs (clock_stat (env_clock E 0))" and ?N = "packet_bytes n C r" and ?B = "packet_bytes L C r"
  have clk: "K \<le> ?K" "msecs (clock_now (env_clock E 0)) \<le> max_latency" using assms(4) by simp_all
  have pos: "0 < ?B" using assms(1) by (cases "mBitResolutionMode r")
    (simp_all add: packet_bytes_def mode_bytes_def reg_ready_def reg_inv_def reg_shape_def)
  have dvd: "?B dvd ?N" using assms(2) by (simp add: packet_bytes_def mult_dvd_mono)
  have N: "mPeerBytes r = int ?N" using assms(1) by (simp add: reg_ready_def reg_inv_def reg_shape_def)
  have ptr: "pull_ptr_ok ?B r" using assms(1) by (simp add: reg_ready_def)
  obtain due where due: "pull_due r = Some due" "\<not> due \<Longrightarrow> \<exists>x. mXfrPullPtr r = Some x"
    "\<And>k. \<not> due \<Longrightarrow> mXfrPullPtr r = Some (InWorker k) \<Longrightarrow> k < ?N"
    "\<And>k. \<not> due \<Longrightarrow> mXfrPullPtr r = Some (InXfr k) \<Longrightarrow> k < ?N"
    using ptr N that by (auto simp: pull_due_def pull_ptr_ok_def split: option.splits pull_ptr.splits)
  obtain r1 where r1: "(if due then refill E r else Some r) = Some r1" "reg_ready n L C p ?K (M + 8192) r1"
    "mBitResolutionMode r1 = mBitResolutionMode r"
    "\<exists>k. mXfrPullPtr r1 = Some (if mWorkerEnabled r1 then InWorker k else InXfr k) \<and> ?B dvd k \<and> k < ?N"
  proof (cases due)
    case True
    have "0 < ?N" using pos dvd assms(3) by (cases "?N = 0") (auto simp: packet_bytes_def)
    then show ?thesis using refill_total [OF assms(1,3) clk assms(5)] that True by fastforce
  next
    case False
    have "reg_ready n L C p ?K (M + 8192) r" by (rule reg_ready_mono [OF assms(1) clk(1)]) simp
    moreover have "\<exists>k. mXfrPullPtr r = Some (if mWorkerEnabled r then InWorker k else InXfr k) \<and> ?B dvd k \<and> k < ?N"
      using due(2-4) [OF False] ptr by (auto simp: pull_ptr_ok_def split: option.splits pull_ptr.splits)
    ultimately show ?thesis using that False by simp
  qed
  then obtain k where k: "mXfrPullPtr r1 = Some (if mWorkerEnabled r1 then InWorker k else InXfr k)" "?B dvd k" "k < ?N" by blast
  have "k + ?B \<le> ?N"
  proof -
    obtain a b where "k = ?B * a" "?N = ?B * b" using k(2) dvd by (auto elim!: dvdE)
    moreover from this have "a < b" using k(3) pos by simp
    ultimately show ?thesis using mult_le_mono2 [of "Suc a" b ?B] by simp
  qed
  note inside = this
  have bytes: "byte_count (mLocalBytes r1) = Some ?B" using local_bytes [OF r1(2)] packet_bytes_mode [OF r1(3)] by simp
  have len: "length (mXfrBuffer r1) = ?N" "mWorkerEnabled r1 \<Longrightarrow> length (mWorkerBuffer r1) = ?N"
    using reg_inv_bytes(2) [OF reg_ready_inv [OF r1(2)]] r1(2) packet_bytes_mode [OF r1(3)]
    by (simp_all add: reg_ready_def worker_ready_def)
  let ?src = "if mWorkerEnabled r1 then mWorkerBuffer r1 else mXfrBuffer r1"
  let ?r2 = "r1\<lparr>mXfrPullPtr := Some (if mWorkerEnabled r1 then InWorker (k + ?B) else InXfr (k + ?B))\<rparr>"
  have "read_part E out r = Some (take ?B (drop k ?src), ?r2)"
    using due(1) r1(1) k(1) bytes len inside assms(6)
    by (cases "mWorkerEnabled r1") (simp_all add: read_part_def mem_read_def mem_write_all)
  moreover have "reg_ready n L C p ?K (M + 8192) ?r2"
    using r1(2) reg_inv_worker(3) assms(3) k(2) packet_bytes_mode [of ?r2 r1] packet_bytes_mode [OF r1(3)]
    by (simp add: reg_ready_def pull_ptr_ok_def worker_ready_def)
  moreover have "length (take ?B (drop k ?src)) = length out" using len inside assms(6) by (cases "mWorkerEnabled r1") simp_all
  ultimately show ?thesis using r1(3) by simp
qed

end
