(* ===== verification/RegulatorSafety.thy ===== *)
theory RegulatorSafety
  imports RegulatorRun
begin

text \<open>
  The regulator as a whole: sequences of arriving packets, reads and work of the worker thread from a new
  regulator on, which never fault when the lengths fit, and the two ways in which lengths that do not fit fault.
\<close>

section \<open>Lengths that fit\<close>

definition lengths_ok :: "nat \<Rightarrow> nat \<Rightarrow> nat \<Rightarrow> int \<Rightarrow> int \<Rightarrow> bool" where
  "lengths_ok n L C bits rate \<longleftrightarrow> (bits = 1 \<or> bits = 2 \<or> bits = 4) \<and> 0 < C \<and> 0 < L \<and> 0 < n \<and>
     L * C * nat bits < 2147483648 \<and> n * nat bits * C \<le> 524287 \<and> 8 * int L \<le> rate \<and> 8 * int n \<le> rate \<and>
     rate < 2147483648"

lemma new_regulator:
  assumes "lengths_ok n L C bits rate"
  shows "\<exists>r. Regulator_new g (int C) bits (int L) qLen 0 rate = Some r \<and> reg_fresh L C r \<and> mSampleRate r = rate \<and>
    mSlots r = [] \<and> mode_bytes r = nat bits \<and> mBitResolutionMode r = bit_res_mode bits BIT16 \<and>
    mMsecTolerance r = of_int qLen \<and> mLocalFPPdurMsec r \<le> 125"
proof -
  obtain r where r: "Regulator_new g (int C) bits (int L) qLen 0 rate = Some r" "reg_fresh L C r"
    "mBitResolutionMode r = bit_res_mode bits BIT16" "mSampleRate r = rate" "mMsecTolerance r = of_int qLen"
    "mLocalFPPdurMsec r = dbl_round (dbl_mul 1000 (of_int (int L)) / of_int rate)"
    using Regulator_new_fresh [of bits C L rate g qLen] assms by (auto simp: lengths_ok_def)
  have rate: "8 * int L \<le> rate" "rate < 2147483648" "0 < L" using assms by (simp_all add: lengths_ok_def)
  then have "dbl_mul 1000 (of_int (int L)) = of_int (1000 * int L)"
    by (simp add: dbl_mul_def) (use dbl_rep_of_int [of "1000 * int L"] rate in simp)
  moreover have "(of_int (8 * int L) :: rat) \<le> of_int rate" using rate(1) by (simp only: of_int_le_iff)
  then have "of_int (1000 * int L) / of_int rate \<le> (125 :: rat)" using rate by (simp add: divide_le_eq)
  ultimately have "mLocalFPPdurMsec r \<le> 125" unfolding r(6) by (simp only:) (intro dbl_round_le, simp_all)
  moreover
have "mSlots r = []" using r(1) by (auto simp: Regulator_new_def Let_def split: Option.bind_splits)
  moreover have "mode_bytes r = nat bits" using r(3) assms by (auto simp: mode_bytes_def bit_res_mode_def lengths_ok_def)
  ultimately show ?thesis using r by blast
qed

lemma first_packet:
  assumes "lengths_ok n L C bits rate" and "reg_fresh L C r" and "mSampleRate r = rate" and "mode_bytes r = nat bits"
    and "length buf = n * nat bits * C" and "0 \<le> seq" and "0 \<le> msecs clock"
  shows "\<exists>r'. insert_packet G buf (int (length buf)) seq clock r = Some (True, pushed buf (seq mod 4096) clock r') \<and>
    reg_ready n L C (past_packets n) (msecs clock) 0 (pushed buf (seq mod 4096) clock r') \<and>
    reg_ready n L C (past_packets n) 0 0 r' \<and>
    mBitResolutionMode r' = mBitResolutionMode r \<and> mLastSeqNumIn r' = - 1 \<and> mLastSeqNumOut r' = - 1 \<and>
    mStashedPacket r' = - 1 \<and> \<not> mLastWasGlitch r' \<and> \<not> mWorkerEnabled r' \<and>
    (\<forall>T. AutoMax \<le> T \<and> mMsecTolerance r \<le> T \<and> of_nat n \<le> T \<and> mLocalFPPdurMsec r \<le> T \<longrightarrow> tol_ok T r')"
proof -
  have b: "packet_bytes n C r = n * nat bits * C" using assms(4) by (simp add: packet_bytes_def)
  have pre: "0 < n" "8 * int n \<le> mSampleRate r" "packet_bytes n C r \<le> 524287" "length buf = packet_bytes n C r"
    using assms(1,3,5) b by (simp_all add: lengths_ok_def)
  obtain r' where r': "insert_packet G buf (int (length buf)) seq clock r = Some (True, pushed buf (seq mod 4096) clock r')"
    "reg_inv n L C (past_packets n) 0 0 r'"
    "reg_inv n L C (past_packets n) (msecs clock) 0 (pushed buf (seq mod 4096) clock r')"
    "mBitResolutionMode r' = mBitResolutionMode r" "mFPPratioNumerator r' = fst (ratio_of n L)"
    "mFPPratioDenominator r' = snd (ratio_of n L)" "mLastSeqNumIn r' = - 1" "mLastSeqNumOut r' = - 1"
    "mStashedPacket r' = - 1" "\<not> mLastWasGlitch r'" "\<not> mWorkerEnabled r'" "mXfrPullPtr r' = None"
    "m_b_BroadcastRingBuffer r' = None"
    "\<forall>T. AutoMax \<le> T \<and> mMsecTolerance r \<le> T \<and> of_nat n \<le> T \<and> mLocalFPPdurMsec r \<le> T \<longrightarrow> tol_ok T r'"
    using insert_packet_first [OF assms(2) pre assms(6,7), of G] by blast
  have "reg_ready n L C (past_packets n) (msecs clock) 0 (pushed buf (seq mod 4096) clock r')"
    "reg_ready n L C (past_packets n) 0 0 r'"
    using r' by (simp_all add: reg_ready_def worker_ready_def pull_ptr_ok_def pushed_def)
  then show ?thesis using r' by blast
qed

lemma next_packet_arrives:
  assumes "reg_ready n L C p K M r" and "length buf = packet_bytes n C r" and "0 \<le> seq" and "K \<le> msecs clock"
  shows "insert_packet G buf len seq clock r = Some (True, pushed buf (seq mod 4096) clock r) \<and>
    reg_ready n L C p (msecs clock) M (pushed buf (seq mod 4096) clock r)"
proof -
  have inv: "reg_inv n L C p K M r" "m_b_BroadcastRingBuffer r = None" using assms(1) by (simp_all add: reg_ready_def)
  let ?r = "pushed buf (seq mod 4096) clock r"
  have "reg_inv n L C p (msecs clock) M ?r"
    by (rule pushed_inv [OF inv(1) reg_inv_nonneg [OF inv(1)] assms(4,2)]) (simp_all add: NumSlots_def)
  moreover have "packet_bytes k C ?r = packet_bytes k C r" for k by (rule packet_bytes_mode) (simp add: pushed_def)
  moreover have "pull_ptr_ok b ?r = pull_ptr_ok b r" for b by (rule pull_ptr_ok_cong) (simp_all add: pushed_def)
  ultimately have "reg_ready n L C p (msecs clock) M ?r" using assms(1)
    by (simp add: reg_ready_def worker_ready_def) (simp add: pushed_def)
  then show ?thesis using insert_packet_next [OF inv assms(2,3)] by simp
qed

section \<open>Reads\<close>

definition pulls :: "nat \<Rightarrow> nat \<Rightarrow> nat" where
  "pulls n L = nat (fst (ratio_of n L))"

definition env_ok :: "dbl \<Rightarrow> nat \<Rightarrow> read_env \<Rightarrow> bool" where
  "env_ok K m E \<longleftrightarrow> K \<le> msecs (env_tick E) \<and> clocks_ok (msecs (env_tick E)) (map (env_clock E) [0..<m])"

definition env_end :: "nat \<Rightarrow> read_env \<Rightarrow> dbl" where
  "env_end m E = last_time (msecs (env_tick E)) (map (env_clock E) [0..<m])"

lemma env_end_ge: "env_ok K m E \<Longrightarrow> K \<le> env_end m E"
  using clocks_ok_last by (fastforce simp: env_ok_def env_end_def)

lemma read_slot_total:
  assumes "reg_ready n L C p K M r" and "n dvd L \<or> L dvd n" and "env_ok K (pulls n L) E"
    and "M + 1 + 8192 * int (pulls n L) \<le> 1073741823" and "length out = packet_bytes L C r"
  shows "\<exists>out' r'. read_slot E out r = Some (out', r') \<and> length out' = length out \<and>
    reg_ready n L C p (env_end (pulls n L) E) (M + 1 + 8192 * int (pulls n L)) r' \<and>
    mBitResolutionMode r' = mBitResolutionMode r"
proof -
  have pos: "0 < n" "0 < L" "mInitialized r" using assms(1) by (simp_all add: reg_ready_def reg_inv_def reg_shape_def)
  have M: "M + 1 \<le> 1073741823" using assms(4) by simp
  have tick: "K \<le> msecs (env_tick E)" using assms(3) by (simp add: env_ok_def)
  obtain pl u pl' where t: "pullStat r = Some pl" "tick 0 0 (env_tick E) pl = Some (u, pl')"
    "reg_ready n L C p (msecs (env_tick E)) (M + 1) (r\<lparr>pullStat := Some pl'\<rparr>)"
    using reg_ready_tick [OF assms(1) tick M] by blast
  let ?r = "r\<lparr>pullStat := Some pl'\<rparr>"
  have len: "packet_bytes k C ?r = packet_bytes k C r" for k by (rule packet_bytes_mode) simp
  have ratio: "mFPPratioNumerator r = fst (ratio_of n L)" "mFPPratioDenominator r = snd (ratio_of n L)"
    using assms(1) by (simp_all add: reg_ready_def)
  have clk: "clocks_ok (msecs (env_tick E)) (map (env_clock E) [0..<pulls n L])" using assms(3) by (simp add: env_ok_def)
  consider "n = L" | "n \<noteq> L" "n dvd L" | "n \<noteq> L" "L dvd n" using assms(2) by blast
  then show ?thesis
  proof cases
    case 1
    have one: "pulls n L = 1" using 1 by (simp add: pulls_def ratio_of_def)
    obtain o' r' where "read_equal E out ?r = Some (o', r')" "length o' = length out"
      "reg_ready n L C p (msecs (clock_stat (env_clock E 0))) (M + 1 + 8192) r'" "mBitResolutionMode r' = mBitResolutionMode ?r"
      using read_equal_total [of n C p "msecs (env_tick E)" "M + 1" ?r E out] t(3) clk one assms(4,5) len 1 by auto
    then show ?thesis using 1 t(1,2) pos(3) ratio one by (simp add: read_slot_def ratio_of_def env_end_def last_time_def)
  next
    case 2
    have less: "n < L" using 2 pos dvd_imp_le [of n L] by simp
    obtain k where k: "L = n * k" using 2(2) by blast
    have "k \<noteq> 0" "k \<noteq> 1" using k 2(1) pos by auto
    then have two: "1 < k" by simp
    have f: "fst (ratio_of n L) = int k" "snd (ratio_of n L) = 1" using less k pos by (simp_all add: ratio_of_def)
    have m: "pulls n L = k" using f by (simp add: pulls_def)
    obtain o' r' where "read_several E out ?r = Some (o', r')" "length o' = length out"
      "reg_ready n L C p (last_time (msecs (env_tick E)) (map (env_clock E) [0..<k])) (M + 1 + 8192 * int k) r'"
      "mBitResolutionMode r' = mBitResolutionMode ?r"
      using read_several_total [OF t(3) 2(2), of E out] less clk assms(4,5) len f m by auto
    then show ?thesis using two t(1,2) pos(3) ratio f m by (simp add: read_slot_def env_end_def)
  next
    case 3
    have less: "L < n" using 3 pos dvd_imp_le [of L n] by simp
    obtain k where k: "n = L * k" using 3(2) by blast
    have "k \<noteq> 0" "k \<noteq> 1" using k 3(1) pos by auto
    then have f: "fst (ratio_of n L) = 1" "snd (ratio_of n L) = int k" "1 < k" using less k pos by (simp_all add: ratio_of_def)
    have m: "pulls n L = 1" using f by (simp add: pulls_def)
    obtain o' r' where "read_part E out ?r = Some (o', r')" "length o' = length out"
      "reg_ready n L C p (msecs (clock_stat (env_clock E 0))) (M + 1 + 8192) r'" "mBitResolutionMode r' = mBitResolutionMode ?r"
      using read_part_total [OF t(3) 3(2) less, of E out] clk assms(4,5) len m by auto
    then show ?thesis using t(1,2) pos(3) ratio f m by (simp add: read_slot_def env_end_def last_time_def)
  qed
qed

section \<open>Sequences of operations\<close>

text \<open>A packet and the time of its arrival, a read of the audio callback, and a turn of the worker thread.\<close>

datatype reg_op = Arrive bytes int int | Play read_env | Work int "pull_clock list"

fun reg_step :: "setup_garbage \<Rightarrow> reg_op \<Rightarrow> bytes list \<times> Regulator \<Rightarrow> (bytes list \<times> Regulator) option" where
  "reg_step G (Arrive buf seq clock) (outs, r) =
     map_option (\<lambda>(_, r). (outs, r)) (insert_packet G buf (int (length buf)) seq clock r)"
| "reg_step G (Play E) (outs, r) = do {
     n \<leftarrow> byte_count (mLocalBytes r);
     (out, r) \<leftarrow> read_slot E (replicate n 0) r;
     Some (outs @ [out], r)
   }"
| "reg_step G (Work clock Cs) (outs, r) =
     (if mWorkerEnabled r then map_option (Pair outs) (worker_pullPacket clock Cs r) else Some (outs, r))"

fun reg_run :: "setup_garbage \<Rightarrow> reg_op list \<Rightarrow> bytes list \<times> Regulator \<Rightarrow> (bytes list \<times> Regulator) option" where
  "reg_run G [] s = Some s"
| "reg_run G (op # ops) s = do { s \<leftarrow> reg_step G op s; reg_run G ops s }"

text \<open>Packets of the length of the first one, clocks that do not run backwards, and readings enough for the worker.\<close>

fun ops_ok :: "nat \<Rightarrow> nat \<Rightarrow> dbl \<Rightarrow> reg_op list \<Rightarrow> bool" where
  "ops_ok N m K [] \<longleftrightarrow> True"
| "ops_ok N m K (Arrive buf seq clock # ops) \<longleftrightarrow>
     length buf = N \<and> - 1 \<le> seq \<and> K \<le> msecs clock \<and> ops_ok N m (msecs clock) ops"
| "ops_ok N m K (Play E # ops) \<longleftrightarrow> env_ok K m E \<and> ops_ok N m (env_end m E) ops"
| "ops_ok N m K (Work clock Cs # ops) \<longleftrightarrow>
     length Cs = 33 \<and> clocks_ok K Cs \<and> ops_ok N m (last_time K Cs) ops"

fun is_play :: "reg_op \<Rightarrow> bool" where
  "is_play (Play _) \<longleftrightarrow> True"
| "is_play _ \<longleftrightarrow> False"

lemma worker_turn_total:
  assumes "reg_ready n L C p K M r" and "mWorkerEnabled r" and "clocks_ok K Cs" and "length Cs = 33"
    and "M + 8192 * 33 \<le> 1073741823"
  shows "\<exists>r'. worker_pullPacket clock Cs r = Some r' \<and> reg_ready n L C p (last_time K Cs) (M + 8192 * 33) r' \<and>
    mBitResolutionMode r' = mBitResolutionMode r \<and>
    (\<exists>w w'. mRegulatorWorkerPtr r = Some w \<and> mRegulatorWorkerPtr r' = Some w' \<and>
       ring_size (mPacketQueue w') = max (ring_size (mPacketQueue w)) (mPacketQueueTarget (worker_underrun clock w)))"
proof -
  obtain w where w: "mRegulatorWorkerPtr r = Some w" "worker_ok (packet_bytes n C r) w"
    using assms(1,2) by (auto simp: reg_ready_def worker_ready_def)
  let ?w = "worker_underrun clock w"
  have ok: "worker_ok (packet_bytes n C r) ?w" using w(2) by (rule worker_underrun_ok)
  have enough: "mPacketQueueTarget ?w \<le> ring_size (mPacketQueue w) + length Cs" using ok assms(4) by (simp add: worker_ok_def)
  have M: "M + 8192 * int (length Cs) \<le> 1073741823" using assms(4,5) by simp
  obtain w' r' where f: "worker_fill Cs (ring_size (mPacketQueue w)) ?w r = Some (w', r')" "worker_ok (packet_bytes n C r) w'"
    "ring_size (mPacketQueue w') = max (ring_size (mPacketQueue w)) (mPacketQueueTarget ?w)" "pull_frame r r'"
    "reg_inv n L C p (last_time K Cs) (M + 8192 * int (length Cs)) r'"
    using worker_fill_total [OF reg_ready_inv [OF assms(1)] ok assms(3) enough _ M] by auto
  have ready: "reg_ready n L C p (last_time K Cs) (M + 8192 * 33) r'"
    using reg_ready_pull [OF assms(1) f(5,4)] assms(4) by simp
  let ?r = "r'\<lparr>mRegulatorWorkerPtr := Some w'\<rparr>"
  have mode: "mBitResolutionMode r' = mBitResolutionMode r" using f(4) by (simp add: pull_frame_def)
  have "packet_bytes k C ?r = packet_bytes k C r" for k by (rule packet_bytes_mode) (simp add: mode)
  moreover have "packet_bytes k C r' = packet_bytes k C r" for k by (rule packet_bytes_mode [OF mode])
  moreover have "pull_ptr_ok b ?r = pull_ptr_ok b r'" for b by (rule pull_ptr_ok_cong) simp_all
  ultimately have "reg_ready n L C p (last_time K Cs) (M + 8192 * 33) ?r"
    using ready reg_inv_worker(5) [OF reg_ready_inv [OF ready]] f(2) by (simp add: reg_ready_def worker_ready_def)
  then show ?thesis using w(1) f(1,3) mode by (simp add: worker_pullPacket_def Let_def)
qed

text \<open>
  The counters of the code are \<open>int\<close>s: of the packets played, skipped and concealed and of the windows of the
  statistics.  What one operation can add to the largest of them.
\<close>

definition stat_counters :: "StdDev option \<Rightarrow> int" where
  "stat_counters d = (case d of None \<Rightarrow> 0
     | Some d \<Rightarrow> max (longTermCnt d) (max (plcUnderruns d) (plcOverruns d)))"

definition counters :: "Regulator \<Rightarrow> int" where
  "counters r = max (max (mSkipped r) (mPcnt r))
     (max ((mLastGlitches r + 1) div 2) (max (stat_counters (pushStat r)) (stat_counters (pullStat r))))"

fun op_cost :: "nat \<Rightarrow> reg_op \<Rightarrow> int" where
  "op_cost m (Arrive _ _ _) = 0"
| "op_cost m (Play _) = 1 + 8192 * int m"
| "op_cost m (Work _ _) = 8192 * 33"

definition ops_cost :: "nat \<Rightarrow> reg_op list \<Rightarrow> int" where
  "ops_cost m ops = sum_list (map (op_cost m) ops)"

lemma ops_cost_simps [simp]: "ops_cost m [] = 0" "ops_cost m (op # ops) = op_cost m op + ops_cost m ops"
  by (simp_all add: ops_cost_def)

lemma op_cost_nonneg: "0 \<le> op_cost m op"
  by (cases op) simp_all

lemma ops_cost_nonneg: "0 \<le> ops_cost m ops"
  by (induction ops) (simp_all add: op_cost_nonneg)

lemma ops_cost_split:
  assumes "k < length ops"
  shows "ops_cost m (take k ops) + op_cost m (ops ! k) \<le> ops_cost m ops"
proof -
  have "ops_cost m ops = ops_cost m (take k ops @ ops ! k # drop (Suc k) ops)"
    using assms by (simp add: id_take_nth_drop [symmetric])
  also have "\<dots> = ops_cost m (take k ops) + (op_cost m (ops ! k) + ops_cost m (drop (Suc k) ops))"
    by (simp add: ops_cost_def)
  finally show ?thesis using ops_cost_nonneg [of m "drop (Suc k) ops"] by simp
qed

lemma counters_bound: "reg_ready n L C p K M r \<Longrightarrow> counters r \<le> M"
  by (auto simp: reg_ready_def reg_inv_def reg_stats_def stats_ok_def counters_def stat_counters_def)

lemma counters_ready:
  assumes "reg_ready n L C p K M r"
  shows "reg_ready n L C p K (counters r) r"
proof -
  have s: "reg_stats K M r" using assms by (simp add: reg_ready_def reg_inv_def)
  obtain ps pl where d: "pushStat r = Some ps" "stats_ok K M ps" "pullStat r = Some pl" "stats_ok K M pl"
    using s by (auto simp: reg_stats_def)
  have c: "mSkipped r \<le> counters r" "mPcnt r \<le> counters r" "mLastGlitches r \<le> 2 * counters r"
    "stat_counters (Some ps) \<le> counters r" "stat_counters (Some pl) \<le> counters r"
    using d(1,3) by (auto simp: counters_def)
  have "stats_ok K (counters r) ps" "stats_ok K (counters r) pl"
    using d(2,4) c(4,5) by (auto simp: stats_ok_def stat_counters_def)
  then have "reg_stats K (counters r) r" using s d(1,3) c(1-3) by (auto simp: reg_stats_def)
  then show ?thesis using assms by (simp add: reg_ready_def reg_inv_def)
qed

text \<open>One operation, as long as the counters leave room for it.\<close>

lemma step_total:
  assumes "reg_ready n L C p K M r" and "n dvd L \<or> L dvd n" and "ops_ok (packet_bytes n C r) (pulls n L) K (op # ops)"
    and "M + op_cost (pulls n L) op \<le> 1073741823"
  shows "\<exists>os K' r'. reg_step G op (outs, r) = Some (outs @ os, r') \<and> length os = length (filter is_play [op]) \<and>
    (\<forall>x\<in>set os. length x = packet_bytes L C r) \<and> reg_ready n L C p K' (M + op_cost (pulls n L) op) r' \<and>
    mBitResolutionMode r' = mBitResolutionMode r \<and> ops_ok (packet_bytes n C r) (pulls n L) K' ops"
proof (cases op)
  case (Arrive buf seq clock)
  have a: "length buf = packet_bytes n C r" "- 1 \<le> seq" "K \<le> msecs clock" "ops_ok (packet_bytes n C r) (pulls n L) (msecs clock) ops"
    using assms(3) Arrive by simp_all
  obtain b r' where r': "insert_packet G buf (int (length buf)) seq clock r = Some (b, r')"
    "reg_ready n L C p (msecs clock) M r'" "mBitResolutionMode r' = mBitResolutionMode r"
  proof (cases "seq = - 1")
    case True
    then show ?thesis using that reg_ready_mono [OF assms(1) a(3) order_refl] by (simp add: insert_packet_def)
  next
    case False
    then have "0 \<le> seq" using a(2) by simp
    then show ?thesis using that next_packet_arrives [OF assms(1) a(1) _ a(3)] by (simp add: pushed_def)
  qed
  then have "reg_step G op (outs, r) = Some (outs @ [], r')" using Arrive by simp
  then show ?thesis using Arrive r'(2,3) a(4) by fastforce
next
  case (Play E)
  have a: "env_ok K (pulls n L) E" "ops_ok (packet_bytes n C r) (pulls n L) (env_end (pulls n L) E) ops"
    using assms(3) Play by simp_all
  have M: "M + 1 + 8192 * int (pulls n L) \<le> 1073741823" using assms(4) Play by simp
  obtain x r' where r': "read_slot E (replicate (packet_bytes L C r) 0) r = Some (x, r')" "length x = packet_bytes L C r"
    "reg_ready n L C p (env_end (pulls n L) E) (M + 1 + 8192 * int (pulls n L)) r'" "mBitResolutionMode r' = mBitResolutionMode r"
    using read_slot_total [OF assms(1,2) a(1) M, of "replicate (packet_bytes L C r) 0"] by auto
  have "reg_step G op (outs, r) = Some (outs @ [x], r')" using Play r'(1) local_bytes [OF assms(1)] by simp
  moreover have "M + op_cost (pulls n L) op = M + 1 + 8192 * int (pulls n L)" using Play by simp
  then have "reg_ready n L C p (env_end (pulls n L) E) (M + op_cost (pulls n L) op) r'" using r'(3) by (simp only:)
  moreover have "length [x] = length (filter is_play [op])" using Play by simp
  ultimately show ?thesis using r'(2,4) a(2)
    by (intro exI [of _ "[x]"] exI [of _ "env_end (pulls n L) E"] exI [of _ r'] conjI) (assumption | simp)+
next
  case (Work clock Cs)
  have a: "length Cs = 33" "clocks_ok K Cs" "ops_ok (packet_bytes n C r) (pulls n L) (last_time K Cs) ops"
    using assms(3) Work by simp_all
  have M: "M + 8192 * 33 \<le> 1073741823" using assms(4) Work by simp
  obtain r' where r': "reg_step G op (outs, r) = Some (outs, r')"
    "reg_ready n L C p (last_time K Cs) (M + 8192 * 33) r'" "mBitResolutionMode r' = mBitResolutionMode r"
  proof (cases "mWorkerEnabled r")
    case True
    then show ?thesis using that worker_turn_total [OF assms(1) True a(2,1) M, of clock] Work by auto
  next
    case False
    have "reg_ready n L C p (last_time K Cs) (M + 8192 * 33) r"
      by (rule reg_ready_mono [OF assms(1) clocks_ok_last [OF a(2)]]) simp
    then show ?thesis using that False Work by simp
  qed
  then show ?thesis using Work a(3) by (intro exI [of _ "[]"] exI [of _ "last_time K Cs"] exI [of _ r'])
    (simp del: reg_step.simps ops_ok.simps)
qed

text \<open>A run ends, or stops where the counters leave no room for the next operation.\<close>

definition run_ends :: "setup_garbage \<Rightarrow> nat \<Rightarrow> reg_op list \<Rightarrow> bytes list \<Rightarrow> Regulator \<Rightarrow> bool" where
  "run_ends G b ops outs r \<longleftrightarrow> (\<exists>os r'. reg_run G ops (outs, r) = Some (outs @ os, r') \<and>
     length os = length (filter is_play ops) \<and> (\<forall>x\<in>set os. length x = b))"

definition run_fills :: "setup_garbage \<Rightarrow> nat \<Rightarrow> int \<Rightarrow> reg_op list \<Rightarrow> bytes list \<Rightarrow> Regulator \<Rightarrow> bool" where
  "run_fills G m M ops outs r \<longleftrightarrow> (\<exists>k<length ops. \<exists>os s. reg_run G (take k ops) (outs, r) = Some (os, s) \<and>
     1073741823 < counters s + op_cost m (ops ! k) \<and> counters s \<le> M + ops_cost m (take k ops))"

lemma run_ends_step:
  assumes "reg_step G op (outs, r) = Some (outs @ os, r')" and "length os = length (filter is_play [op])"
    and "\<forall>x\<in>set os. length x = b" and "run_ends G b ops (outs @ os) r'"
  shows "run_ends G b (op # ops) outs r"
proof -
  obtain os' r2 where r2: "reg_run G ops (outs @ os, r') = Some ((outs @ os) @ os', r2)"
    "length os' = length (filter is_play ops)" "\<forall>x\<in>set os'. length x = b" using assms(4) by (auto simp: run_ends_def)
  have "reg_run G (op # ops) (outs, r) = Some (outs @ (os @ os'), r2)" using assms(1) r2(1) by simp
  moreover have "length (os @ os') = length (filter is_play (op # ops))" using assms(2) r2(2) by (auto split: if_splits)
  ultimately show ?thesis using assms(3) r2(3) unfolding run_ends_def by (metis Un_iff set_append)
qed

lemma run_fills_step:
  assumes "reg_step G op (outs, r) = Some (outs', r')" and "run_fills G m M' ops outs' r'" and "M' \<le> M + op_cost m op"
  shows "run_fills G m M (op # ops) outs r"
proof -
  obtain k os s where k: "k < length ops" "reg_run G (take k ops) (outs', r') = Some (os, s)"
    "1073741823 < counters s + op_cost m (ops ! k)" "counters s \<le> M' + ops_cost m (take k ops)"
    using assms(2) by (auto simp: run_fills_def)
  then have "reg_run G (take (Suc k) (op # ops)) (outs, r) = Some (os, s)" using assms(1) by simp
  moreover have "counters s \<le> M + ops_cost m (take (Suc k) (op # ops))" using k(4) assms(3) by simp
  ultimately show ?thesis using k(1,3) unfolding run_fills_def by (intro exI [of _ "Suc k"]) auto
qed

lemma run_total:
  assumes "reg_ready n L C p K M r" and "n dvd L \<or> L dvd n" and "ops_ok (packet_bytes n C r) (pulls n L) K ops"
  shows "run_ends G (packet_bytes L C r) ops outs r \<or> run_fills G (pulls n L) (counters r) ops outs r"
  using assms(1,3)
proof (induction ops arbitrary: K M r outs)
  case Nil
  then show ?case by (simp add: run_ends_def)
next
  case (Cons op ops)
  let ?c = "op_cost (pulls n L) op"
  have ready: "reg_ready n L C p K (counters r) r" using counters_ready [OF Cons.prems(1)] .
  show ?case
  proof (cases "counters r + ?c \<le> 1073741823")
    case False
    then have "run_fills G (pulls n L) (counters r) (op # ops) outs r"
      unfolding run_fills_def by (intro exI [of _ 0]) simp
    then show ?thesis by blast
  next
    case True
    obtain os K' r' where s: "reg_step G op (outs, r) = Some (outs @ os, r')" "length os = length (filter is_play [op])"
      "\<forall>x\<in>set os. length x = packet_bytes L C r" "reg_ready n L C p K' (counters r + ?c) r'"
      "mBitResolutionMode r' = mBitResolutionMode r" "ops_ok (packet_bytes n C r) (pulls n L) K' ops"
      using step_total [OF ready assms(2) Cons.prems(2) True, of G outs] by blast
    have bytes: "packet_bytes k C r' = packet_bytes k C r" for k by (rule packet_bytes_mode [OF s(5)])
    have "run_ends G (packet_bytes L C r) ops (outs @ os) r' \<or> run_fills G (pulls n L) (counters r') ops (outs @ os) r'"
      using Cons.IH [OF s(4), of "outs @ os"] s(6) by (simp add: bytes)
    then show ?thesis using run_ends_step [OF s(1-3)] run_fills_step [OF s(1) _ counters_bound [OF s(4)]] by blast
  qed
qed

text \<open>Before the first packet a read is silence.\<close>

lemma fresh_run_total:
  assumes "lengths_ok n L C bits rate" and "n dvd L \<or> L dvd n" and "reg_fresh L C r" and "mSampleRate r = rate"
    and "mode_bytes r = nat bits" and "ops_ok (n * nat bits * C) (pulls n L) K ops" and "0 \<le> K"
  shows "run_ends G (L * nat bits * C) ops outs r \<or> run_fills G (pulls n L) 0 ops outs r"
  using assms(6,7)
proof (induction ops arbitrary: K outs)
  case Nil
  then show ?case by (simp add: run_ends_def)
next
  case (Cons op ops)
  have local: "byte_count (mLocalBytes r) = Some (L * nat bits * C)"
  proof -
    have "mLocalBytes r = int (packet_bytes L C r)" "packet_bytes L C r = L * nat bits * C"
      using assms(3,5) by (simp_all only: reg_fresh_def packet_bytes_def)
    then show ?thesis by (simp add: byte_count_def del: of_nat_mult)
  qed
  have idle: ?case
    if s: "reg_step G op (outs, r) = Some (outs @ os, r)" "length os = length (filter is_play [op])"
      "\<forall>x\<in>set os. length x = L * nat bits * C" and "ops_ok (n * nat bits * C) (pulls n L) K' ops" "0 \<le> K'" for os K'
    using run_ends_step [OF s] run_fills_step [OF s(1)] Cons.IH [OF that(4,5), of "outs @ os"]
      op_cost_nonneg [of "pulls n L" op] by fastforce
  show ?case
  proof (cases op)
    case (Arrive buf seq clock)
    have a: "length buf = n * nat bits * C" "- 1 \<le> seq" "0 \<le> msecs clock" "ops_ok (n * nat bits * C) (pulls n L) (msecs clock) ops"
      using Cons.prems Arrive by simp_all
    show ?thesis
    proof (cases "seq = - 1")
      case True
      then show ?thesis using idle [of "[]", OF _ _ _ a(4,3)] Arrive by (simp add: insert_packet_def)
    next
      case False
      then have "0 \<le> seq" using a(2) by simp
      then obtain r1 where r1: "insert_packet G buf (int (length buf)) seq clock r = Some (True, r1)"
        "reg_ready n L C (past_packets n) (msecs clock) 0 r1" "mBitResolutionMode r1 = mBitResolutionMode r"
        using first_packet [OF assms(1,3,4,5) a(1) _ a(3), of seq G] by (auto simp: pushed_def)
      have bytes: "packet_bytes k C r1 = k * nat bits * C" for k
        using packet_bytes_mode [OF r1(3)] assms(5) by (simp add: packet_bytes_def)
      have s: "reg_step G op (outs, r) = Some (outs @ [], r1)" using Arrive r1(1) by simp
      have "run_ends G (L * nat bits * C) ops (outs @ []) r1 \<or> run_fills G (pulls n L) (counters r1) ops (outs @ []) r1"
        using run_total [OF r1(2) assms(2), of ops G outs] a(4) bytes by simp
      then show ?thesis using run_ends_step [OF s] run_fills_step [OF s, of "pulls n L" "counters r1" ops 0]
        counters_bound [OF r1(2)] Arrive by auto
    qed
  next
    case (Play E)
    have a: "env_ok K (pulls n L) E" "ops_ok (n * nat bits * C) (pulls n L) (env_end (pulls n L) E) ops"
      using Cons.prems(1) Play by simp_all
    have "0 \<le> env_end (pulls n L) E" using env_end_ge [OF a(1)] Cons.prems(2) by simp
    moreover have "\<not> mInitialized r" using assms(3) by (simp add: reg_fresh_def)
    then have "read_slot E (replicate (L * nat bits * C) 0) r = Some (replicate (L * nat bits * C) 0, r)"
      by (simp add: read_slot_def local mem_set_def mem_write_all)
    ultimately show ?thesis using idle [of "[replicate (L * nat bits * C) 0]", OF _ _ _ a(2)] Play local by simp
  next
    case (Work clock Cs)
    have a: "0 \<le> last_time K Cs" "ops_ok (n * nat bits * C) (pulls n L) (last_time K Cs) ops"
      using Cons.prems(1,2) Work clocks_ok_last [of K Cs] by auto
    moreover have "\<not> mWorkerEnabled r" using assms(3) by (simp add: reg_fresh_def)
    ultimately show ?thesis using idle [of "[]", OF _ _ _ a(2,1)] Work by simp
  qed
qed


definition still_clock :: pull_clock where
  "still_clock = \<lparr>clock_now = 0, clock_stat = 0, clock_dsp_start = 0, clock_dsp_end = 0\<rparr>"

definition still_env :: read_env where
  "still_env = \<lparr>env_clock = (\<lambda>_. still_clock), env_tick = 0, env_queue = (\<lambda>_ _. 0)\<rparr>"

definition zero_garbage :: setup_garbage where
  "zero_garbage = \<lparr>garbage_slots = (\<lambda>_ _. 0), garbage_dev = 0, garbage_reads = 0, garbage_underruns = 0\<rparr>"

lemma msecs_0 [simp]: "msecs 0 = 0"
  by (simp add: msecs_def)

lemma still_env_ok: "env_ok 0 (Suc 0) still_env \<and> env_end (Suc 0) still_env = 0"
  by (simp add: env_ok_def env_end_def still_env_def still_clock_def last_time_def max_latency_def)

lemma pulls_equal [simp]: "pulls n n = Suc 0"
  by (simp add: pulls_def ratio_of_def)


section \<open>Turns of the worker\<close>

text \<open>
  C29: A turn of the worker thread ends: after at most 33 pulls the queue has the target size, which a turn
  raises by at most one, or keeps the larger size it had.
\<close>

theorem worker_fills:
  assumes "reg_ready n L C p K M r" and "mWorkerEnabled r" and "clocks_ok K Cs" and "length Cs = 33"
    and "M + 8192 * 33 \<le> 1073741823"
  shows "\<exists>r' w w'. worker_pullPacket clock Cs r = Some r' \<and> mRegulatorWorkerPtr r = Some w \<and>
    mRegulatorWorkerPtr r' = Some w' \<and>
    ring_size (mPacketQueue w') = max (ring_size (mPacketQueue w)) (mPacketQueueTarget (worker_underrun clock w)) \<and>
    mPacketQueueTarget (worker_underrun clock w) \<le> mPacketQueueTarget w + 1 \<and>
    mPacketQueueTarget (worker_underrun clock w) \<le> 33"
proof -
  obtain w where w: "mRegulatorWorkerPtr r = Some w" "worker_ok (packet_bytes n C r) w"
    using assms(1,2) by (auto simp: reg_ready_def worker_ready_def)
  have "mPacketQueueTarget (worker_underrun clock w) \<le> mPacketQueueTarget w + 1"
    by (simp add: worker_underrun_def updateQueueTarget_def Let_def)
  moreover have "mPacketQueueTarget (worker_underrun clock w) \<le> 33"
    using worker_underrun_ok [OF w(2), of clock] by (simp add: worker_ok_def)
  ultimately show ?thesis using worker_turn_total [OF assms, of clock] w(1) by fastforce
qed

lemma still_clocks_ok: "clocks_ok 0 (replicate k still_clock)"
  by (induction k) (simp_all add: still_clock_def max_latency_def)

theorem worker_fills_witness:
  "\<exists>r r' w'. mWorkerEnabled r \<and> worker_pullPacket 0 (replicate 33 still_clock) r = Some r' \<and>
     mRegulatorWorkerPtr r' = Some w' \<and> ring_size (mPacketQueue w') = 1"
proof -
  have l: "lengths_ok 1 1 1 1 48000" by (simp add: lengths_ok_def)
  obtain r0 where r0: "reg_fresh 1 1 r0" "mSampleRate r0 = 48000" "mode_bytes r0 = nat 1"
    using new_regulator [OF l] by blast
  obtain r1 where r1: "reg_ready 1 1 1 (past_packets 1) 0 0 r1" "mBitResolutionMode r1 = mBitResolutionMode r0"
    using first_packet [OF l r0, of "[7]" 0 0 zero_garbage] by auto
  let ?w = "RegulatorWorker_new (\<lambda>_ _. 0) (packet_bytes 1 1 r1)"
  let ?r = "r1\<lparr>mWorkerBuffer := replicate (packet_bytes 1 1 r1) 0, mRegulatorWorkerPtr := Some ?w, mWorkerEnabled := True\<rparr>"
  have queue: "frames_ok 64 (packet_bytes 1 1 r1) (mPacketQueue ?w)" "ring_size (mPacketQueue ?w) = 0"
    using frames_ok_new [of 64 "packet_bytes 1 1 r1" "\<lambda>_ _. 0"] pending_items_length [of "mPacketQueue ?w"]
    by (simp_all add: RegulatorWorker_new_def)
  then have "worker_ok (packet_bytes 1 1 r1) ?w" by (simp add: worker_ok_def) (simp add: RegulatorWorker_new_def)
  moreover have "packet_bytes k 1 ?r = packet_bytes k 1 r1" for k by (rule packet_bytes_mode) simp
  ultimately have ready: "reg_ready 1 1 1 (past_packets 1) 0 0 ?r"
    using r1(1) reg_inv_worker(2) [OF reg_ready_inv [OF r1(1)]]
    by (simp add: reg_ready_def worker_ready_def pull_ptr_ok_def)
  have "mPacketQueueTarget (worker_underrun 0 ?w) = 1" by (simp add: worker_underrun_def RegulatorWorker_new_def)
  then obtain r' w' where "worker_pullPacket 0 (replicate 33 still_clock) ?r = Some r'"
      "mRegulatorWorkerPtr r' = Some w'" "ring_size (mPacketQueue w') = 1"
    using worker_fills [OF ready _ still_clocks_ok, of 33 0] queue(2) by auto
  moreover have "mWorkerEnabled ?r" by simp
  ultimately show ?thesis by blast
qed

section \<open>Lengths that do not fit\<close>

text \<open>
  C24: A first packet whose length is more than 2097152 bytes or less than one frame (a length that is zero or negative
  included) crashes the receiver: the length is refused, or divides by zero, but the packet is stored all the
  same, through pointers that are null.
\<close>

theorem bad_length_crash:
  assumes "lengths_ok n L C bits rate" and "Regulator_new g (int C) bits (int L) qLen 0 rate = Some r"
    and "0 \<le> seq" and "len < int (C * nat bits) \<or> 2097152 < len"
  shows "insert_packet G buf len seq clock r = None"
proof -
  have r: "reg_fresh L C r" "mSlots r = []" "mode_bytes r = nat bits" using new_regulator [OF assms(1), of g qLen] assms(2) by auto
  have "C * nat bits \<le> L * C * nat bits" "L * C * nat bits < 2147483648" using assms(1) by (simp_all add: lengths_ok_def)
  then have "C * mode_bytes r < 2147483648" unfolding r(3) by linarith
  then show ?thesis using bad_length_faults [OF r(1,2) assms(3)] assms(4) r(3) by simp
qed

theorem bad_length_crash_witness:
  "\<forall>g. \<exists>r. Regulator_new g 2 2 128 5 0 48000 = Some r \<and>
     insert_packet zero_garbage [] 0 1 0 r = None \<and> insert_packet zero_garbage [1, 2, 3] 3 1 0 r = None"
proof
  fix g
  have l: "lengths_ok 128 128 2 2 48000" by (simp add: lengths_ok_def)
  obtain r where r: "Regulator_new g (int 2) 2 (int 128) 5 0 48000 = Some r" using new_regulator [OF l] by blast
  then show "\<exists>r. Regulator_new g 2 2 128 5 0 48000 = Some r \<and>
     insert_packet zero_garbage [] 0 1 0 r = None \<and> insert_packet zero_garbage [1, 2, 3] 3 1 0 r = None"
    using bad_length_crash [OF l r, of 1 0] bad_length_crash [OF l r, of 1 3] by simp
qed

text \<open>
  C26: When the local packets are longer than those of the peer, but less than twice as long, a read copies the local length out
  of a packet that is shorter: the ratio of the lengths is rounded to 1, and the read leaves the packet buffer.
\<close>

theorem uneven_lengths_overread:
  assumes "lengths_ok n L C bits rate" and "n < L" and "L < 2 * n"
    and "Regulator_new g (int C) bits (int L) qLen 0 rate = Some r"
    and "insert_packet G buf (int (length buf)) seq clock r = Some (b, r')"
    and "length buf = n * nat bits * C" and "0 \<le> seq" and "0 \<le> msecs clock" and "env_ok (msecs clock) 1 E"
  shows "read_slot E out r' = None"
proof -
  have r: "reg_fresh L C r" "mSampleRate r = rate" "mode_bytes r = nat bits"
    using new_regulator [OF assms(1), of g qLen] assms(4) by auto
  have r': "reg_ready n L C (past_packets n) (msecs clock) 0 r'"
    using first_packet [OF assms(1) r assms(6-8), of G] assms(5) by auto
  have tick: "msecs clock \<le> msecs (env_tick E)" "msecs (env_tick E) \<le> msecs (clock_stat (env_clock E 0))"
    "msecs (clock_now (env_clock E 0)) \<le> max_latency" using assms(9) by (simp_all add: env_ok_def)
  obtain pl u pl' where t: "pullStat r' = Some pl" "tick 0 0 (env_tick E) pl = Some (u, pl')"
    "reg_ready n L C (past_packets n) (msecs (env_tick E)) (0 + 1) (r'\<lparr>pullStat := Some pl'\<rparr>)"
    using reg_ready_tick [OF r' tick(1)] by auto
  let ?r = "r'\<lparr>pullStat := Some pl'\<rparr>"
  obtain x p r2 where x: "next_packet (env_clock E 0) ?r = Some (x, p, r2)" "length x = packet_bytes n C ?r"
    "reg_ready n L C (past_packets n) (msecs (clock_stat (env_clock E 0))) (0 + 1 + 8192) r2"
    "mBitResolutionMode r2 = mBitResolutionMode ?r" using next_packet_total [OF t(3) tick(2,3)] by auto
  have pos: "0 < C" "mInitialized r'" using r' by (simp_all add: reg_ready_def reg_inv_def reg_shape_def)
  have code: "0 < bit_resolution_code (mBitResolutionMode r')" by (cases "mBitResolutionMode r'") simp_all
  have "length x < packet_bytes L C r2" using x(2,4) assms(2) pos(1) code by (simp add: packet_bytes_def mode_bytes_def)
  then have "mem_read x 0 (packet_bytes L C r2) = None" by (simp add: mem_read_def)
  then have over: "read_equal E out ?r = None" using x(1) local_bytes [OF x(3)] by (simp add: read_equal_def)
  have "L div n = 1" using assms(2,3) by (simp add: div_nat_eqI)
  then have "mFPPratioNumerator r' = 1" "mFPPratioDenominator r' = 1"
    using r' assms(2) by (simp_all add: reg_ready_def ratio_of_def)
  then show ?thesis using over t(1,2) pos(2) by (simp add: read_slot_def)
qed

theorem uneven_lengths_overread_witness:
  "\<forall>g. \<exists>r r'. Regulator_new g 1 1 3 5 0 48000 = Some r \<and> insert_packet zero_garbage [7, 8] 2 0 0 r = Some (True, r') \<and>
     read_slot still_env [0, 0, 0] r' = None"
proof
  fix g
  have l: "lengths_ok 2 3 1 1 48000" by (simp add: lengths_ok_def)
  obtain r where r: "Regulator_new g (int 1) 1 (int 3) 5 0 48000 = Some r" "reg_fresh 3 1 r" "mSampleRate r = 48000"
    "mode_bytes r = nat 1" using new_regulator [OF l] by blast
  obtain r' where r': "insert_packet zero_garbage [7, 8] (int (length [7, 8 :: u8])) 0 0 r = Some (True, r')"
    using first_packet [OF l r(2-4), of "[7, 8]" 0 0 zero_garbage] by auto
  have "read_slot still_env [0, 0, 0] r' = None"
    by (rule uneven_lengths_overread [OF l _ _ r(1) r']) (use still_env_ok in simp_all)
  then show "\<exists>r r'. Regulator_new g 1 1 3 5 0 48000 = Some r \<and> insert_packet zero_garbage [7, 8] 2 0 0 r = Some (True, r') \<and>
     read_slot still_env [0, 0, 0] r' = None" using r(1) r' by auto
qed

end
