(* ===== verification/RegulatorPlay.thy ===== *)
theory RegulatorPlay
  imports RegulatorSafety
begin

text \<open>
  What is heard: packets that arrive in order and in time are played in order, each once and requantised, and a burst of
  lost packets is bridged by one predicted packet, after which the packet that ended the burst is played.
\<close>

section \<open>In step\<close>

text \<open>The newest packet has been played; \<open>- 1\<close> stands for the time before the first packet.\<close>

definition in_step :: "int \<Rightarrow> Regulator \<Rightarrow> bool" where
  "in_step j r \<longleftrightarrow> mLastSeqNumIn r = j \<and> mLastSeqNumOut r = j \<and> mStashedPacket r = - 1 \<and> \<not> mLastWasGlitch r \<and>
     \<not> mWorkerEnabled r"

definition next_slot :: "int \<Rightarrow> int" where
  "next_slot j = (j + 1) mod 4096"

lemma next_slot_range: "0 \<le> next_slot j \<and> next_slot j < NumSlots"
  by (simp add: next_slot_def NumSlots_def)

lemma next_slot_cases: "- 1 \<le> j \<Longrightarrow> j < NumSlots \<Longrightarrow> next_slot j = (if j = 4095 then 0 else j + 1)"
  by (simp add: next_slot_def NumSlots_def mod_pos_pos_trivial)

lemma pushed_next:
  assumes "in_step j r" and "reg_inv n L C p K M r"
  shows "mLastSeqNumIn (pushed buf (next_slot j) clock r) = next_slot j"
    and "seq_ahead (next_slot j - j) = 1" and "0 \<le> j \<Longrightarrow> seq_ahead (next_slot j - j - 1) = 0"
proof -
  have j: "- 1 \<le> j" "j < NumSlots" using reg_inv_bytes(5) [OF assms(2)] assms(1) by (simp_all add: in_step_def slot_number_def)
  show "mLastSeqNumIn (pushed buf (next_slot j) clock r) = next_slot j"
    and "seq_ahead (next_slot j - j) = 1" and "0 \<le> j \<Longrightarrow> seq_ahead (next_slot j - j - 1) = 0"
    using assms(1) j next_slot_cases [OF j]
    by (auto simp: pushed_def in_step_def newest_seq_def seq_ahead_def NumSlots_def split: if_splits)
qed

text \<open>The scan of a packet that is not missing and is the only or last one.\<close>

lemma scan_last:
  assumes "reg_inv n L C p (msecs (clock_stat Cl)) M r" and "mLastSeqNumIn r = k" and "0 \<le> k"
    and "is_missing k r = Some False" and "now \<le> max_latency" and "M + 1 \<le> 1073741823"
    and sk: "sk = (if mLastSeqNumOut r = - 1 then skipped else seq_ahead (k - mLastSeqNumOut r - 1))"
  shows "\<exists>r'. pull_scan now k Cl (Suc 0) skipped good r = play_candidate k sk good Cl r' \<and>
    reg_inv n L C p (msecs (clock_stat Cl)) (M + 1) r' \<and> pull_frame r r' \<and> mLastSeqNumOut r' = mLastSeqNumOut r \<and>
    mStashedPacket r' = mStashedPacket r \<and> mLastWasGlitch r' = mLastWasGlitch r \<and> mSkipped r' = mSkipped r \<and>
    pullStat r' = pullStat r \<and> mPcnt r' = mPcnt r"
proof -
  let ?K = "msecs (clock_stat Cl)"
  have k: "k < NumSlots" using reg_inv_bytes(4) [OF assms(1)] assms(2) by (simp add: slot_number_def)
  have parts: "reg_shape n L C p r" "reg_slots n C ?K r" "reg_stats ?K M r" using assms(1) by (simp_all add: reg_inv_def)
  have ahead: "seq_ahead k = k" using assms(3) by (simp add: seq_ahead_def)
  have wide: "reg_inv n L C p ?K (M + 1) r" by (rule reg_inv_mono [OF assms(1)]) simp_all
  obtain r1 where r1: "(if mLastSeqNumOut r = - 1 then Some r else updatePushStats (clock_stat Cl) k r) = Some r1"
    "r1 = r \<or> tuned r r1" "reg_inv n L C p ?K (M + 1) r1"
  proof (cases "mLastSeqNumOut r = - 1")
    case True
    then show ?thesis using that wide by simp
  next
    case False
    then have "0 \<le> mLastSeqNumOut r" using reg_inv_bytes(5) [OF assms(1)] by (simp add: slot_number_def)
    from updatePushStats_total [OF parts(2,3) order_refl this assms(3) k assms(6)] obtain r1 where
      r1: "updatePushStats (clock_stat Cl) k r = Some r1" "tuned r r1" "reg_stats ?K (M + 1) r1" by blast
    moreover have "reg_inv n L C p ?K (M + 1) r1" using r1(3) parts tuned_keeps(1,2) [OF r1(2)] by (simp add: reg_inv_def)
    ultimately show ?thesis using that False by simp
  qed
  have keep: "mLastSeqNumOut r1 = mLastSeqNumOut r" "mStashedPacket r1 = mStashedPacket r" "mLastWasGlitch r1 = mLastWasGlitch r"
    "mSkipped r1 = mSkipped r" "pullStat r1 = pullStat r" "pull_frame r r1" "mPcnt r1 = mPcnt r"
    using r1(2) tuned_keeps tuned_frame by auto
  have slots1: "reg_slots n C ?K r1" using r1(3) by (simp add: reg_inv_def)
  obtain t where t: "arrival k r1 = Some t" "0 \<le> t" using arrival_total [OF slots1 assms(3) k] by blast
  let ?r2 = "if mStatsMaxLatency r1 < dbl_sub now t then r1\<lparr>mStatsMaxLatency := dbl_sub now t\<rparr> else r1"
  have "pull_scan now k Cl (Suc 0) skipped good r = play_candidate k sk good Cl ?r2"
    using assms(4) r1(1) t(1) keep(1) sk by (simp add: Let_def ahead)
  moreover have "reg_inv n L C p ?K (M + 1) ?r2" by (rule reg_inv_latency [OF r1(3) assms(5) t(2)])
  moreover have "pull_frame r1 ?r2" by (simp add: pull_frame_def)
  then have "pull_frame r ?r2" using keep(6) pull_frame_trans by blast
  moreover have "mLastSeqNumOut ?r2 = mLastSeqNumOut r" "mStashedPacket ?r2 = mStashedPacket r"
    "mLastWasGlitch ?r2 = mLastWasGlitch r" "mSkipped ?r2 = mSkipped r" "pullStat ?r2 = pullStat r" "mPcnt ?r2 = mPcnt r"
    using keep by simp_all
  ultimately show ?thesis by blast
qed

lemma newer_not_missing:
  assumes "reg_inv n L C p K M r" and "0 \<le> k" and "k < NumSlots" and "K \<le> mIncomingTiming r ! nat k"
  shows "is_missing k r = Some False"
proof (cases "mLastSeqNumOut r = - 1")
  case False
  have slots: "reg_slots n C K r" using assms(1) by (simp add: reg_inv_def)
  have "0 \<le> mLastSeqNumOut r" "mLastSeqNumOut r < NumSlots"
    using reg_inv_bytes(5) [OF assms(1)] False by (simp_all add: slot_number_def)
  from arrival_total [OF slots this] arrival_total [OF slots assms(2,3)] assms(4) show ?thesis
    by (simp add: is_missing_def)
qed (simp add: is_missing_def)

text \<open>The packet after the last one that was played is there, and it is the newest.\<close>

definition waiting :: "int \<Rightarrow> bytes \<Rightarrow> Regulator \<Rightarrow> bool" where
  "waiting j buf r \<longleftrightarrow> mLastSeqNumIn r = next_slot j \<and> mLastSeqNumOut r = j \<and> mStashedPacket r = - 1 \<and>
     \<not> mLastWasGlitch r \<and> \<not> mWorkerEnabled r \<and> is_missing (next_slot j) r = Some False \<and>
     mSlots r ! nat (next_slot j) = buf"

lemma pushed_waiting:
  assumes "reg_inv n L C p K M r" and "in_step j r" and "K \<le> msecs clock" and "length buf = packet_bytes n C r"
  shows "waiting j buf (pushed buf (next_slot j) clock r)"
proof -
  let ?k = "next_slot j"
  let ?r = "pushed buf ?k clock r"
  note k = next_slot_range [of j]
  have inv: "reg_inv n L C p (msecs clock) M ?r"
    by (rule pushed_inv [OF assms(1) reg_inv_nonneg [OF assms(1)] assms(3,4)]) (use k in simp_all)
  have idx: "nat ?k < length (mIncomingTiming r)" "nat ?k < length (mSlots r)"
    using assms(1) k by (simp_all add: reg_inv_def reg_slots_def NumSlots_def nat_less_iff)
  have "is_missing ?k ?r = Some False"
    by (rule newer_not_missing [OF inv]) (use k idx in \<open>simp_all add: pushed_def\<close>)
  then show ?thesis using pushed_next(1) [OF assms(2,1)] assms(2) idx(2) by (simp add: waiting_def in_step_def) (simp add: pushed_def)
qed

text \<open>A packet that is next and arrives before the pull is played.\<close>

lemma pull_waiting:
  assumes inv: "reg_inv n L C p K M r" and "waiting j buf r" and "K \<le> msecs (clock_stat Cl)"
    and "mMsecTolerance r \<le> msecs (clock_now Cl)" and "msecs (clock_now Cl) \<le> max_latency" and "M + 2 \<le> 1073741823"
  shows "\<exists>r'. pullPacket Cl r = Some (False, r') \<and> mXfrBuffer r' = requantize (mBitResolutionMode r) buf \<and>
    in_step (next_slot j) r' \<and> reg_inv n L C p (msecs (clock_stat Cl)) (M + 2) r' \<and> pull_frame r r'"
proof -
  let ?k = "next_slot j" and ?now = "msecs (clock_now Cl)" and ?K = "msecs (clock_stat Cl)"
  note k = next_slot_range [of j]
  have w: "mLastSeqNumIn r = ?k" "mLastSeqNumOut r = j" "mStashedPacket r = - 1" "\<not> mLastWasGlitch r" "\<not> mWorkerEnabled r"
    "is_missing ?k r = Some False" "mSlots r ! nat ?k = buf" using assms(2) by (simp_all add: waiting_def)
  have j: "- 1 \<le> j" "j < NumSlots" using reg_inv_bytes(5) [OF inv] w(2) by (simp_all add: slot_number_def)
  have inv': "reg_inv n L C p ?K M r" by (rule reg_inv_mono [OF inv assms(3) order_refl])
  have init: "mInitialized r" using inv by (simp add: reg_inv_def reg_shape_def)
  have ahead: "seq_ahead (?k - j) = 1" "0 \<le> j \<Longrightarrow> seq_ahead (?k - j - 1) = 0" "j \<noteq> ?k"
    using j next_slot_cases [OF j] by (auto simp: seq_ahead_def NumSlots_def split: if_splits)
  define sk where "sk = (if mLastSeqNumOut r = - 1 then 0 else seq_ahead (?k - mLastSeqNumOut r - 1))"
  have "sk = 0" using ahead(2) w(2) j(1) by (simp add: sk_def)
  have M: "M + 1 \<le> 1073741823" "M + 1 < 2147483647" using assms(6) by simp_all
  obtain r1 where r1: "pull_scan ?now ?k Cl (Suc 0) 0 (- 1) r = play_candidate ?k sk (- 1) Cl r1"
    "reg_inv n L C p ?K (M + 1) r1" "pull_frame r r1" "mLastSeqNumOut r1 = j" "mStashedPacket r1 = - 1" "\<not> mLastWasGlitch r1"
    using scan_last [OF inv' w(1) _ w(6) assms(5) M(1) sk_def, of "- 1"] k w by auto
  obtain r2 where r2: "play_slot ?k Cl r1 = Some (False, r2)" "reg_inv n L C p ?K (M + 1 + 1) r2" "pull_frame r1 r2"
    "\<not> mLastWasGlitch r2" "mLastSeqNumOut r2 = ?k" "mStashedPacket r2 = mStashedPacket r1"
    "\<not> mLastWasGlitch r1 \<longrightarrow> mXfrBuffer r2 = requantize (mBitResolutionMode r1) (mSlots r1 ! nat ?k)"
    using play_slot_total [OF r1(2) _ _ M(2), of ?k Cl] k by blast
  have frame: "pull_frame r r2" using pull_frame_trans [OF r1(3) r2(3)] .
  have "mSlots r1 ! nat ?k = buf" "mBitResolutionMode r1 = mBitResolutionMode r" using r1(3) w(7) by (simp_all add: pull_frame_def)
  then have x: "mXfrBuffer r2 = requantize (mBitResolutionMode r) buf" using r2(7) r1(6) by simp
  have "in_step ?k r2" using r2(4-6) r1(5) frame w(1,5) by (simp add: in_step_def pull_frame_def)
  moreover have "pullPacket Cl r = pull_scan ?now ?k Cl (Suc 0) 0 (- 1) r"
    using init w(1-3) assms(4) k ahead(1,3) by (simp add: pullPacket_def Let_def)
  ultimately show ?thesis using r1(1) r2(1,2) x frame \<open>sk = 0\<close> by (simp add: play_candidate_def add.assoc)
qed

section \<open>The stream\<close>

text \<open>A read of packets of the same length, after the next packet has arrived.\<close>

lemma read_waiting:
  assumes "reg_ready n n C p K M r" and "waiting j buf r" and "env_ok K 1 E" and "mMsecTolerance r \<le> msecs (clock_now (env_clock E 0))"
    and "M + 3 \<le> 1073741823" and "length out = packet_bytes n C r" and "length buf = packet_bytes n C r"
  shows "\<exists>r'. read_slot E out r = Some (requantize (mBitResolutionMode r) buf, r') \<and> in_step (next_slot j) r' \<and>
    reg_ready n n C p (env_end 1 E) (M + 3) r' \<and> pull_frame r r'"
proof -
  have tick: "K \<le> msecs (env_tick E)" "msecs (env_tick E) \<le> msecs (clock_stat (env_clock E 0))"
    "msecs (clock_now (env_clock E 0)) \<le> max_latency" using assms(3) by (simp_all add: env_ok_def)
  have M: "M + 1 \<le> 1073741823" "M + 1 + 2 \<le> 1073741823" using assms(5) by simp_all
  obtain pl u pl' where t: "pullStat r = Some pl" "tick 0 0 (env_tick E) pl = Some (u, pl')"
    "reg_ready n n C p (msecs (env_tick E)) (M + 1) (r\<lparr>pullStat := Some pl'\<rparr>)"
    using reg_ready_tick [OF assms(1) tick(1) M(1)] by blast
  let ?r = "r\<lparr>pullStat := Some pl'\<rparr>"
  have "is_missing k ?r = is_missing k r" for k by (simp add: is_missing_def arrival_def)
  then have "waiting j buf ?r" using assms(2) by (simp add: waiting_def)
  then obtain r' where r': "pullPacket (env_clock E 0) ?r = Some (False, r')" "mXfrBuffer r' = requantize (mBitResolutionMode r) buf"
    "in_step (next_slot j) r'" "reg_inv n n C p (msecs (clock_stat (env_clock E 0))) (M + 1 + 2) r'" "pull_frame ?r r'"
    using pull_waiting [OF reg_ready_inv [OF t(3)] _ tick(2) _ tick(3) M(2)] assms(4) by auto
  have ready: "reg_ready n n C p (msecs (clock_stat (env_clock E 0))) (M + 1 + 2) r'" by (rule reg_ready_pull [OF t(3) r'(4,5)])
  have frame: "pull_frame r r'" using r'(5) pull_frame_trans [of r ?r r'] by (simp add: pull_frame_def)
  have bytes: "packet_bytes n C r' = packet_bytes n C r" by (rule packet_bytes_mode) (use frame in \<open>simp add: pull_frame_def\<close>)
  have off: "\<not> mWorkerEnabled r" using assms(2) by (simp add: waiting_def)
  have len: "length (mXfrBuffer r') = packet_bytes n C r" using reg_inv_bytes(2) [OF r'(4)] bytes by simp
  have ratio: "mInitialized r" "mFPPratioNumerator r = mFPPratioDenominator r"
    using assms(1) by (simp_all add: reg_ready_def reg_inv_def reg_shape_def ratio_of_def)
  have "read_equal E out ?r = Some (mXfrBuffer r', r')"
    using off r'(1) local_bytes [OF ready] bytes len assms(6)
    by (simp add: read_equal_def next_packet_def after_prediction_def mem_read_all mem_write_all)
  then have "read_slot E out r = Some (mXfrBuffer r', r')" using ratio t(1,2) by (simp add: read_slot_def)
  moreover have "env_end 1 E = msecs (clock_stat (env_clock E 0))" by (simp add: env_end_def last_time_def)
  ultimately show ?thesis using r'(2,3) ready frame by (simp add: add.assoc)
qed

text \<open>Packets with consecutive sequence numbers of 16 bits, each followed by a read.\<close>

fun stream_ops :: "int \<Rightarrow> (bytes \<times> int \<times> read_env) list \<Rightarrow> reg_op list" where
  "stream_ops s [] = []"
| "stream_ops s ((buf, clock, E) # ps) = Arrive buf (s mod 65536) clock # Play E # stream_ops (s + 1) ps"

definition played_stream :: "audioBitResolutionT \<Rightarrow> (bytes \<times> int \<times> read_env) list \<Rightarrow> bytes list" where
  "played_stream mode ps = map (\<lambda>(buf, _, _). requantize mode buf) ps"

lemma seq_slot: "s mod 65536 mod 4096 = s mod (4096 :: int)"
  by (rule mod_mod_cancel) simp

lemma next_slot_mod: "next_slot (s mod 4096) = (s + 1) mod 4096"
  by (simp add: next_slot_def mod_simps)

lemma tol_ok_pushed: "tol_ok T (pushed buf k clock r) = tol_ok T r"
  by (simp add: tol_ok_def pushed_def)

lemma stream_step:
  assumes "reg_ready n n C p K M (pushed buf (next_slot j) clock r)" and "waiting j buf (pushed buf (next_slot j) clock r)"
    and "tol_ok T r" and "env_ok K 1 E" and "T \<le> msecs (clock_now (env_clock E 0))" and "M + 3 \<le> 1073741823"
    and "length buf = packet_bytes n C r"
  shows "\<exists>r'. reg_step G (Play E) (outs, pushed buf (next_slot j) clock r) = Some (outs @ [requantize (mBitResolutionMode r) buf], r') \<and>
    in_step (next_slot j) r' \<and> reg_ready n n C p (env_end 1 E) (M + 3) r' \<and> tol_ok T r' \<and>
    mBitResolutionMode r' = mBitResolutionMode r"
proof -
  let ?r = "pushed buf (next_slot j) clock r"
  have mode: "mBitResolutionMode ?r = mBitResolutionMode r" by (simp add: pushed_def)
  then have bytes: "packet_bytes n C ?r = packet_bytes n C r" by (rule packet_bytes_mode)
  have "mMsecTolerance ?r \<le> msecs (clock_now (env_clock E 0))"
    using assms(3,5) by (simp add: tol_ok_def pushed_def)
  then obtain r' where r': "read_slot E (replicate (packet_bytes n C r) 0) ?r = Some (requantize (mBitResolutionMode ?r) buf, r')"
    "in_step (next_slot j) r'" "reg_ready n n C p (env_end 1 E) (M + 3) r'" "pull_frame ?r r'"
    using read_waiting [OF assms(1,2,4) _ assms(6), of "replicate (packet_bytes n C r) 0"] bytes assms(7) by auto
  have "tol_ok T r'" using tol_ok_frame [OF _ r'(4)] assms(3) by (simp add: tol_ok_pushed)
  moreover have "mBitResolutionMode r' = mBitResolutionMode r" using r'(4) mode by (simp add: pull_frame_def)
  ultimately show ?thesis using r' local_bytes [OF assms(1)] bytes mode by simp
qed

lemma stream_run:
  assumes "reg_ready n n C p K M r" and "in_step (next_slot j) r" and "0 \<le> s" and "s mod 4096 = next_slot j" and "tol_ok T r"
    and "ops_ok (packet_bytes n C r) 1 K (stream_ops (s + 1) ps)"
    and "\<forall>(buf, clock, E)\<in>set ps. T \<le> msecs (clock_now (env_clock E 0))"
    and "M + 3 * int (length ps) \<le> 1073741823"
  shows "\<exists>r'. reg_run G (stream_ops (s + 1) ps) (outs, r) = Some (outs @ played_stream (mBitResolutionMode r) ps, r')"
  using assms
proof (induction ps arbitrary: K M r s j outs)
  case (Cons q ps)
  obtain buf clock E where q: "q = (buf, clock, E)" by (cases q) auto
  let ?k = "next_slot (next_slot j)"
  have seq: "(s + 1) mod 65536 mod 4096 = ?k" using Cons.prems(4) by (simp add: seq_slot flip: next_slot_mod)
  have ops: "length buf = packet_bytes n C r" "K \<le> msecs clock" "env_ok (msecs clock) 1 E"
    "ops_ok (packet_bytes n C r) 1 (env_end 1 E) (stream_ops (s + 1 + 1) ps)" using Cons.prems(6) q by simp_all
  have "0 \<le> (s + 1) mod 65536" by simp
  from next_packet_arrives [OF Cons.prems(1) ops(1) this ops(2), of G "int (length buf)"]
  have arrive: "insert_packet G buf (int (length buf)) ((s + 1) mod 65536) clock r = Some (True, pushed buf ?k clock r)"
    "reg_ready n n C p (msecs clock) M (pushed buf ?k clock r)" unfolding seq by blast+
  have wait: "waiting (next_slot j) buf (pushed buf ?k clock r)"
    by (rule pushed_waiting [OF reg_ready_inv [OF Cons.prems(1)] Cons.prems(2) ops(2,1)])
  have T: "T \<le> msecs (clock_now (env_clock E 0))" "\<forall>(buf, clock, E)\<in>set ps. T \<le> msecs (clock_now (env_clock E 0))"
    using Cons.prems(7) q by auto
  have M: "M + 3 \<le> 1073741823" "M + 3 + 3 * int (length ps) \<le> 1073741823" using Cons.prems(8) by simp_all
  obtain r1 where r1: "reg_step G (Play E) (outs, pushed buf ?k clock r) = Some (outs @ [requantize (mBitResolutionMode r) buf], r1)"
    "in_step ?k r1" "reg_ready n n C p (env_end 1 E) (M + 3) r1" "tol_ok T r1" "mBitResolutionMode r1 = mBitResolutionMode r"
    using stream_step [OF arrive(2) wait Cons.prems(5) ops(3) T(1) M(1) ops(1)] by blast
  have bytes: "packet_bytes n C r1 = packet_bytes n C r" by (rule packet_bytes_mode [OF r1(5)])
  have seq2: "0 \<le> s + 1" "(s + 1) mod 4096 = ?k" using Cons.prems(3) seq by (simp_all add: seq_slot)
  obtain r' where "reg_run G (stream_ops (s + 1 + 1) ps) (outs @ [requantize (mBitResolutionMode r) buf], r1) =
      Some ((outs @ [requantize (mBitResolutionMode r) buf]) @ played_stream (mBitResolutionMode r1) ps, r')"
    using Cons.IH [OF r1(3,2) seq2 r1(4) _ T(2) M(2)] ops(4) bytes by metis
  then show ?case using q arrive(1) r1(1,5) by (simp add: played_stream_def del: reg_step.simps(2))
qed (simp add: played_stream_def)

text \<open>
  C4: When packets of the local length arrive in order, each before the read that is to play it, and no read comes before the
  tolerance has passed, the regulator plays every packet once and in order, through the wraps of the sequence number, for up to 357913941
  packets (the counter of the packets played stays below \<open>2 ^ 30\<close>);
  what is heard of a packet is its samples, decoded to single precision and encoded again.
\<close>

theorem packets_play_in_order:
  assumes "lengths_ok n n C bits rate" and "Regulator_new g (int C) bits (int n) qLen 0 rate = Some r"
    and "ops_ok (n * nat bits * C) 1 0 (stream_ops 0 ps)"
    and "\<forall>(buf, clock, E)\<in>set ps. T \<le> msecs (clock_now (env_clock E 0))"
    and "AutoMax \<le> T" and "of_int qLen \<le> T" and "of_nat n \<le> T"
    and "3 * int (length ps) \<le> 1073741823"
  shows "\<exists>r'. reg_run G (stream_ops 0 ps) ([], r) = Some (played_stream (bit_res_mode bits BIT16) ps, r')"
proof (cases ps)
  case Nil
  then show ?thesis by (simp add: played_stream_def)
next
  case (Cons q qs)
  obtain buf clock E where q: "q = (buf, clock, E)" by (cases q) auto
  have r: "reg_fresh n C r" "mSampleRate r = rate" "mode_bytes r = nat bits" "mBitResolutionMode r = bit_res_mode bits BIT16"
    "mMsecTolerance r = of_int qLen" "mLocalFPPdurMsec r \<le> 125" using new_regulator [OF assms(1), of g qLen] assms(2) by auto
  have ops: "length buf = n * nat bits * C" "0 \<le> msecs clock" "env_ok (msecs clock) 1 E"
    "ops_ok (n * nat bits * C) 1 (env_end 1 E) (stream_ops 1 qs)" using assms(3) Cons q by simp_all
  obtain r0 where r0: "insert_packet G buf (int (length buf)) 0 clock r = Some (True, pushed buf (0 mod 4096) clock r0)"
    "reg_ready n n C (past_packets n) (msecs clock) 0 (pushed buf (0 mod 4096) clock r0)"
    "reg_ready n n C (past_packets n) 0 0 r0" "mBitResolutionMode r0 = mBitResolutionMode r"
    "mLastSeqNumIn r0 = - 1" "mLastSeqNumOut r0 = - 1" "mStashedPacket r0 = - 1" "\<not> mLastWasGlitch r0" "\<not> mWorkerEnabled r0"
    "\<forall>T. AutoMax \<le> T \<and> mMsecTolerance r \<le> T \<and> of_nat n \<le> T \<and> mLocalFPPdurMsec r \<le> T \<longrightarrow> tol_ok T r0"
    using first_packet [OF assms(1) r(1-3) ops(1) order_refl ops(2), of G] by blast
  have zero: "0 mod 4096 = next_slot (- 1)" by (simp add: next_slot_def)
  have step: "in_step (- 1) r0" using r0(5-9) by (simp add: in_step_def)
  have bytes: "packet_bytes n C r0 = n * nat bits * C" using packet_bytes_mode [OF r0(4)] r(3) by (simp add: packet_bytes_def)
  have wait: "waiting (- 1) buf (pushed buf (next_slot (- 1)) clock r0)"
    by (rule pushed_waiting [OF reg_ready_inv [OF r0(3)] step ops(2)]) (simp add: bytes ops(1))
  have tol: "tol_ok T r0" using r0(10) r(5,6) assms(5-7) by (simp add: AutoMax_def)
  have T: "T \<le> msecs (clock_now (env_clock E 0))" "\<forall>(buf, clock, E)\<in>set qs. T \<le> msecs (clock_now (env_clock E 0))"
    using assms(4) Cons q by auto
  have len: "length buf = packet_bytes n C r0" using bytes ops(1) by simp
  have ready: "reg_ready n n C (past_packets n) (msecs clock) 0 (pushed buf (next_slot (- 1)) clock r0)"
    using r0(2) by (simp only: zero)
  have three: "0 + 3 \<le> (1073741823 :: int)" by simp
  obtain r1 where r1: "reg_step G (Play E) ([], pushed buf (next_slot (- 1)) clock r0) = Some ([] @ [requantize (mBitResolutionMode r0) buf], r1)"
    "in_step (next_slot (- 1)) r1" "reg_ready n n C (past_packets n) (env_end 1 E) (0 + 3) r1" "tol_ok T r1"
    "mBitResolutionMode r1 = mBitResolutionMode r0"
    using stream_step [OF ready wait tol ops(3) T(1) three len] by blast
  have "packet_bytes n C r1 = n * nat bits * C" using packet_bytes_mode [OF r1(5)] bytes by simp
  moreover have "0 mod 4096 = next_slot (- 1)" by (rule zero)
  ultimately obtain r' where "reg_run G (stream_ops (0 + 1) qs) ([requantize (mBitResolutionMode r0) buf], r1) =
      Some ([requantize (mBitResolutionMode r0) buf] @ played_stream (mBitResolutionMode r1) qs, r')"
    using stream_run [OF r1(3,2) order_refl _ r1(4) _ T(2)] ops(4) assms(8) Cons by fastforce
  moreover have "insert_packet G buf (int (length buf)) 0 clock r = Some (True, pushed buf (next_slot (- 1)) clock r0)"
    using r0(1) by (simp only: zero)
  ultimately show ?thesis using Cons q r1(1,5) r0(4) r(4) by (simp add: played_stream_def del: reg_step.simps(2))
qed

text \<open>Readings of \<open>ms\<close> milliseconds.\<close>

definition clock_at :: "int \<Rightarrow> pull_clock" where
  "clock_at ms = \<lparr>clock_now = ms * 1000000, clock_stat = ms * 1000000, clock_dsp_start = 0, clock_dsp_end = 0\<rparr>"

definition read_at :: "int \<Rightarrow> read_env" where
  "read_at ms = \<lparr>env_clock = (\<lambda>_. clock_at ms), env_tick = ms * 1000000, env_queue = (\<lambda>_ _. 0)\<rparr>"

lemma msecs_at:
  assumes "0 \<le> ms" and "ms \<le> 1000000000"
  shows "msecs (ms * 1000000) = of_int ms"
proof -
  have "dbl_rep (of_int (ms * 1000000))" by (rule dbl_rep_of_int) (use assms in auto)
  then have "dbl_round (of_int (ms * 1000000)) = of_int (ms * 1000000)" by (rule dbl_round_rep)
  moreover have "dbl_rep (of_int ms)" by (rule dbl_rep_of_int) (use assms in auto)
  ultimately show ?thesis by (simp add: msecs_def)
qed

lemma clock_at_msecs:
  assumes "0 \<le> ms" and "ms \<le> 1000000000"
  shows "msecs (clock_now (clock_at ms)) = of_int ms" and "msecs (clock_stat (clock_at ms)) = of_int ms"
  using msecs_at [OF assms] by (simp_all add: clock_at_def)

lemma read_at_ok:
  assumes "0 \<le> ms" and "ms \<le> 1000000000"
  shows "env_ok K (Suc 0) (read_at ms) \<longleftrightarrow> K \<le> of_int ms" and "env_end (Suc 0) (read_at ms) = of_int ms"
    and "msecs (clock_now (env_clock (read_at ms) 0)) = of_int ms"
proof -
  have "(of_int ms :: rat) \<le> of_int 1000000000" using assms(2) by (simp only: of_int_le_iff)
  then have "(of_int ms :: rat) \<le> max_latency" by (simp add: max_latency_def)
  then show "env_ok K (Suc 0) (read_at ms) \<longleftrightarrow> K \<le> of_int ms" "env_end (Suc 0) (read_at ms) = of_int ms"
    "msecs (clock_now (env_clock (read_at ms) 0)) = of_int ms"
    using clock_at_msecs [OF assms(1,2)] msecs_at [OF assms(1,2)]
    by (simp_all add: env_ok_def env_end_def read_at_def last_time_def)
qed

theorem packets_play_in_order_witness:
  "\<forall>g. \<exists>r r'. Regulator_new g 1 1 1 5 0 48000 = Some r \<and>
     reg_run zero_garbage [Arrive [7] 0 250000000, Play (read_at 251), Arrive [9] 1 252000000, Play (read_at 253)] ([], r) =
       Some ([requantize BIT8 [7], requantize BIT8 [9]], r')"
proof
  fix g
  have l: "lengths_ok 1 1 1 1 48000" by (simp add: lengths_ok_def)
  obtain r where r: "Regulator_new g (int 1) 1 (int 1) 5 0 48000 = Some r" using new_regulator [OF l] by blast
  let ?ps = "[([7], 250000000, read_at 251), ([9], 252000000, read_at 253)] :: (bytes \<times> int \<times> read_env) list"
  have ops: "stream_ops 0 ?ps = [Arrive [7] 0 250000000, Play (read_at 251), Arrive [9] 1 252000000, Play (read_at 253)]" by simp
  have t: "msecs 250000000 = 250" "msecs 252000000 = 252" using msecs_at [of 250] msecs_at [of 252] by simp_all
  note e = read_at_ok [of 251] read_at_ok [of 253]
  have "\<exists>r'. reg_run zero_garbage (stream_ops 0 ?ps) ([], r) = Some (played_stream (bit_res_mode 1 BIT16) ?ps, r')"
    by (rule packets_play_in_order [OF l r, where T = 250]) (use e t in \<open>simp_all add: AutoMax_def\<close>)
  then show "\<exists>r r'. Regulator_new g 1 1 1 5 0 48000 = Some r \<and>
     reg_run zero_garbage [Arrive [7] 0 250000000, Play (read_at 251), Arrive [9] 1 252000000, Play (read_at 253)] ([], r) =
       Some ([requantize BIT8 [7], requantize BIT8 [9]], r')"
    using r by (simp only: ops) (auto simp: played_stream_def bit_res_mode_def simp del: reg_run.simps)
qed

section \<open>Lost packets\<close>

lemma scan_missing:
  "is_missing (seq_ahead (k - int i)) r = Some True \<Longrightarrow> pull_scan now k Cl (Suc i) sk good r = pull_scan now k Cl i sk good r"
  by (simp add: Let_def)

lemma scan_skip:
  assumes "\<forall>i\<in>{1..m}. is_missing (seq_ahead (k - int i)) r = Some True"
  shows "pull_scan now k Cl (Suc m) sk good r = pull_scan now k Cl (Suc 0) sk good r"
  using assms
proof (induction m)
  case (Suc m)
  have "pull_scan now k Cl (Suc (Suc m)) sk good r = pull_scan now k Cl (Suc m) sk good r"
    by (rule scan_missing) (use bspec [OF Suc.prems, of "Suc m"] in simp)
  then show ?case using Suc by simp
qed simp

text \<open>
  What is heard instead of a lost packet, once enough packets have been played: the prediction for each channel; and how the packet after it is
  heard: faded in, while what was predicted to follow is faded out.
\<close>

definition concealed :: "bool \<Rightarrow> Regulator \<Rightarrow> nat \<Rightarrow> nat \<Rightarrow> flt" where
  "concealed primed r ch s = (if primed then predictedNowPacket (mChanData r ! ch) ! s else Fin 0)"

definition faded_in :: "Regulator \<Rightarrow> bytes \<Rightarrow> nat \<Rightarrow> nat \<Rightarrow> flt" where
  "faded_in r buf ch s = s_add (s_mul (mFadeDown r ! s) (futurePredictedPacket (mChanData r ! ch) ! s))
     (s_mul (mFadeUp r ! s) (cell_sample (r\<lparr>mXfrBuffer := buf\<rparr>) ch s))"

text \<open>A buffer that holds the samples of \<open>f\<close>, each in the bytes of its channel and frame.\<close>

definition holds_samples :: "nat \<Rightarrow> nat \<Rightarrow> Regulator \<Rightarrow> (nat \<Rightarrow> nat \<Rightarrow> flt) \<Rightarrow> bool" where
  "holds_samples n C r f \<longleftrightarrow> (\<forall>ch<C. \<forall>s<n.
     fromSampleToBitConversion (flt_bits (f ch s)) (mBitResolutionMode r) = Some (cell_at r ch s (mXfrBuffer r)))"

lemma heard_glitch: "heard True r (mChanData r') ch s = concealed (mPacketsInThePast r < mPcnt r) r' ch s"
  by (simp add: heard_def played_def concealed_def)

lemma heard_faded:
  "mLastWasGlitch r \<Longrightarrow> mPeerFPP r = int n \<Longrightarrow> s < n \<Longrightarrow> heard False r cs ch s = faded_in r (mXfrBuffer r) ch s"
  by (simp add: heard_def played_def faded_in_def burg_setup_of_def)

lemma cell_at_cong:
  assumes "mBitResolutionMode r' = mBitResolutionMode r" and "mNumChannels r' = mNumChannels r"
  shows "cell_at r' ch s x = cell_at r ch s x"
  using assms by (simp add: cell_at_def sample_offset_def mode_bytes_def)

lemma cell_sample_cong:
  assumes "mBitResolutionMode r' = mBitResolutionMode r" and "mNumChannels r' = mNumChannels r" and "mXfrBuffer r' = mXfrBuffer r"
  shows "cell_sample r' ch s = cell_sample r ch s"
  using assms by (simp add: cell_sample_def bitsToSample_def sample_offset_def mode_bytes_def)

lemma holds_samplesI:
  assumes "\<forall>ch<C. \<forall>s<n. fromSampleToBitConversion (flt_bits (f ch s)) (mBitResolutionMode r) = Some (cell_at r ch s (mXfrBuffer r'))"
    and "mBitResolutionMode r' = mBitResolutionMode r" and "mNumChannels r' = mNumChannels r"
    and "\<And>ch s. s < n \<Longrightarrow> f ch s = g ch s"
  shows "holds_samples n C r' g"
  using assms(1,2,4) cell_at_cong [OF assms(2,3)] by (simp add: holds_samples_def)

lemma pull_burst:
  assumes inv: "reg_inv n L C p K M r" and "mLastSeqNumIn r = k" and "mLastSeqNumOut r = j" and "0 \<le> j" and "0 \<le> k"
    and "mStashedPacket r = - 1" and gap: "seq_ahead (k - j) = int (Suc m)" "seq_ahead (k - j - 1) = int m" and "0 < m"
    and "\<forall>i\<in>{1..m}. is_missing (seq_ahead (k - int i)) r = Some True" and "is_missing k r = Some False"
    and "K \<le> msecs (clock_stat Cl)" and "mMsecTolerance r \<le> msecs (clock_now Cl)"
    and "msecs (clock_now Cl) \<le> max_latency" and "M + 4098 \<le> 1073741823"
  shows "\<exists>r'. pullPacket Cl r = Some (True, r') \<and> mStashedPacket r' = k \<and> mLastSeqNumOut r' = j \<and>
    mSkipped r' = mSkipped r + int m \<and> mLastWasGlitch r' \<and>
    reg_inv n L C p (msecs (clock_stat Cl)) (M + 4098) r' \<and> pull_frame r r' \<and>
    holds_samples n C r' (concealed (int p < mPcnt r) r')"
proof -
  let ?K = "msecs (clock_stat Cl)" and ?now = "msecs (clock_now Cl)"
  have inv': "reg_inv n L C p ?K M r" by (rule reg_inv_mono [OF inv assms(12) order_refl])
  have init: "mInitialized r" using inv by (simp add: reg_inv_def reg_shape_def)
  have k: "k < NumSlots" using reg_inv_bytes(4) [OF inv] assms(2) by (simp add: slot_number_def)
  define sk where "sk = (if mLastSeqNumOut r = - 1 then 0 else seq_ahead (k - mLastSeqNumOut r - 1))"
  have sk: "sk = int m" using gap(2) assms(3,4) by (simp add: sk_def)
  have M: "M + 1 \<le> 1073741823" "M + 1 + 4096 < 2147483647" using assms(15) by simp_all
  obtain r1 where r1: "pull_scan ?now k Cl (Suc 0) 0 (- 1) r = play_candidate k sk (- 1) Cl r1"
    "reg_inv n L C p ?K (M + 1) r1" "pull_frame r r1" "mLastSeqNumOut r1 = j" "mSkipped r1 = mSkipped r" "pullStat r1 = pullStat r"
    "mPcnt r1 = mPcnt r"
    using scan_last [OF inv' assms(2,5,11,14) M(1) sk_def, of "- 1"] assms(3) by auto
  obtain pl where pl: "pullStat r1 = Some pl" using pullStat_exists [OF r1(2)] by blast
  have small: "int m < NumSlots" using gap(2) assms(2-4) k reg_inv_bytes(5) [OF inv]
    by (simp add: seq_ahead_def slot_number_def split: if_splits)
  let ?r2 = "r1\<lparr>pullStat := Some (pl\<lparr>plcOverruns := plcOverruns pl + int m\<rparr>), mSkipped := mSkipped r1 + int m\<rparr>"
  let ?r3 = "?r2\<lparr>mStashedPacket := k\<rparr>"
  have "reg_inv n L C p ?K (M + 1 + 4096) ?r2"
    by (rule reg_inv_counts(2) [OF r1(2) pl]) (use small in \<open>simp_all add: NumSlots_def\<close>)
  then have inv3: "reg_inv n L C p ?K (M + 1 + 4096) ?r3"
    by (rule reg_inv_out(2)) (use assms(5) k in \<open>simp add: slot_number_def\<close>)
  have c: "checked_int (plcOverruns pl + int m) = Some (plcOverruns pl + int m)"
    "checked_int (mSkipped r1 + int m) = Some (mSkipped r1 + int m)"
    using reg_inv_counts(3) [OF r1(2) pl, of 0 "M + 1"] assms(15) small by (simp_all add: int32_range_def NumSlots_def)
  obtain r' where r': "processPacket True Cl ?r3 = Some r'" "reg_inv n L C p ?K (M + 1 + 4096 + 1) r'" "pull_frame ?r3 r'"
    "mLastWasGlitch r' = True" "mLastSeqNumOut r' = mLastSeqNumOut ?r3" "mStashedPacket r' = mStashedPacket ?r3"
    "mSkipped r' = mSkipped ?r3" "\<forall>ch<C. \<forall>s<n. fromSampleToBitConversion (flt_bits (heard True ?r3 (mChanData r') ch s))
      (mBitResolutionMode ?r3) = Some (cell_at ?r3 ch s (mXfrBuffer r'))"
    using reg_inv_process [OF inv3 M(2), of True Cl] by blast
  have same: "mBitResolutionMode r' = mBitResolutionMode ?r3" "mNumChannels r' = mNumChannels ?r3" "mPacketsInThePast r1 = int p"
    using r'(2,3) r1(2) by (simp_all add: pull_frame_def reg_inv_def reg_shape_def)
  have holds: "holds_samples n C r' (concealed (int p < mPcnt r) r')"
    by (rule holds_samplesI [OF r'(8) same(1,2)]) (simp add: heard_glitch same(3) r1(7))
  have "play_candidate k (int m) (- 1) Cl r1 = Some (True, r')" using assms(9) pl c r'(1) by (simp add: play_candidate_def)
  moreover have "pullPacket Cl r = pull_scan ?now k Cl (Suc m) 0 (- 1) r"
  proof -
    have "k \<noteq> j" using gap(1) by (auto simp: seq_ahead_def)
    moreover have "nat (seq_ahead (k - j)) = Suc m" unfolding gap(1) by simp
    ultimately show ?thesis using init assms(2,3,5,6,13) by (simp add: pullPacket_def Let_def del: pull_scan.simps)
  qed
  ultimately have "pullPacket Cl r = Some (True, r')" using scan_skip [OF assms(10)] r1(1) sk by simp
  moreover have "pull_frame r1 ?r3" by (simp add: pull_frame_def)
  then have "pull_frame r r'" using pull_frame_trans [OF r1(3)] pull_frame_trans [OF _ r'(3)] by blast
  moreover have "reg_inv n L C p ?K (M + 4098) r'" by (rule reg_inv_mono [OF r'(2)]) simp_all
  ultimately show ?thesis using r'(4-7) r1(4,5) holds by simp
qed

text \<open>A packet that was kept back is played by the next pull.\<close>

lemma pull_stashed:
  assumes inv: "reg_inv n L C p K M r" and "0 \<le> mStashedPacket r" and "0 \<le> mLastSeqNumIn r"
    and "K \<le> msecs (clock_stat Cl)" and "mMsecTolerance r \<le> msecs (clock_now Cl)" and "M + 1 \<le> 1073741823"
  shows "\<exists>r'. pullPacket Cl r = Some (False, r') \<and> mLastSeqNumOut r' = mStashedPacket r \<and> mStashedPacket r' = - 1 \<and>
    \<not> mLastWasGlitch r' \<and> mSkipped r' = mSkipped r \<and> reg_inv n L C p (msecs (clock_stat Cl)) (M + 1) r' \<and> pull_frame r r' \<and>
    (mLastWasGlitch r \<longrightarrow> holds_samples n C r' (faded_in r (mSlots r ! nat (mStashedPacket r))))"
proof -
  let ?K = "msecs (clock_stat Cl)" and ?k = "mStashedPacket r"
  let ?r = "r\<lparr>mXfrBuffer := mSlots r ! nat ?k\<rparr>"
  let ?s = "?r\<lparr>mLastSeqNumOut := ?k, mStashedPacket := - 1\<rparr>"
  have inv': "reg_inv n L C p ?K M r" by (rule reg_inv_mono [OF inv assms(4) order_refl])
  have k: "?k < NumSlots" using reg_inv_bytes(6) [OF inv] by (simp add: slot_number_def)
  have load: "load_slot ?k r = Some ?r" "reg_inv n L C p ?K M ?r" using load_slot_total [OF inv' assms(2) k] by blast+
  have "reg_inv n L C p ?K M ?s"
    by (rule reg_inv_out(2) [OF reg_inv_out(1) [OF load(2)]]) (use assms(2) k in \<open>simp_all add: slot_number_def NumSlots_def\<close>)
  moreover have "M < 2147483647" using assms(6) by simp
  ultimately obtain r' where r': "processPacket False Cl ?s = Some r'" "reg_inv n L C p ?K (M + 1) r'" "pull_frame ?s r'"
    "mLastWasGlitch r' = False" "mLastSeqNumOut r' = ?k" "mStashedPacket r' = - 1" "mSkipped r' = mSkipped r"
    "\<forall>ch<C. \<forall>s<n. fromSampleToBitConversion (flt_bits (heard False ?s (mChanData r') ch s)) (mBitResolutionMode ?s) =
      Some (cell_at ?s ch s (mXfrBuffer r'))"
    using reg_inv_process [of n L C p ?K M ?s False Cl] by auto
  have shape: "mPeerFPP ?s = int n" "mNumChannels ?s = int C" "mNumChannels r' = int C" "mBitResolutionMode r' = mBitResolutionMode ?s"
    using inv r'(2,3) by (simp_all add: pull_frame_def reg_inv_def reg_shape_def)
  have holds: "holds_samples n C r' (faded_in r (mSlots r ! nat ?k))" if glitch: "mLastWasGlitch r"
  proof (rule holds_samplesI [OF r'(8) shape(4)])
    fix ch s assume "s < n"
    then have "heard False ?s (mChanData r') ch s = faded_in ?s (mXfrBuffer ?s) ch s"
      by (intro heard_faded) (use glitch shape(1) in simp_all)
    also have "cell_sample (?s\<lparr>mXfrBuffer := mXfrBuffer ?s\<rparr>) ch s = cell_sample (r\<lparr>mXfrBuffer := mSlots r ! nat ?k\<rparr>) ch s"
      by (rule cell_sample_cong) simp_all
    then have "faded_in ?s (mXfrBuffer ?s) ch s = faded_in r (mSlots r ! nat ?k) ch s" unfolding faded_in_def by simp
    finally show "heard False ?s (mChanData r') ch s = faded_in r (mSlots r ! nat ?k) ch s" .
  qed (use shape in simp)
  have "mInitialized r" using inv by (simp add: reg_inv_def reg_shape_def)
  then have "pullPacket Cl r = Some (False, r')" using assms(2,3,5) load(1) r'(1) by (simp add: pullPacket_def Let_def)
  moreover have "pull_frame r ?s" by (simp add: pull_frame_def)
  ultimately show ?thesis using r' pull_frame_trans holds by auto
qed

lemma pushed_missing:
  assumes "is_missing i r = Some b" and "0 \<le> i" and "0 \<le> k" and "i \<noteq> k" and "mLastSeqNumOut r = j" and "0 \<le> j" and "j \<noteq> k"
  shows "is_missing i (pushed buf k clock r) = Some b"
proof -
  have other: "arrival x (pushed buf k clock r) = arrival x r" if "0 \<le> x" "x \<noteq> k" for x
  proof -
    have "nat k \<noteq> nat x" using that assms(3) by auto
    then show ?thesis using that by (simp add: arrival_def vec_get_def pushed_def)
  qed
  have "mLastSeqNumOut (pushed buf k clock r) = j" "mMsecTolerance (pushed buf k clock r) = mMsecTolerance r"
    using assms(5) by (simp_all add: pushed_def)
  then have "is_missing i (pushed buf k clock r) = is_missing i r"
    by (simp only: is_missing_def assms(5) other [OF assms(2,4)] other [OF assms(6,7)])
  then show ?thesis using assms(1) by simp
qed

text \<open>
  C5: A burst of lost packets: when \<open>m\<close> packets are missing (their slots hold packets of a round before) and then one
  arrives, the next pull plays one predicted packet (silence, when no more packets than the history holds have been played) and counts
  \<open>m\<close> lost ones, whatever \<open>m\<close> is; the pull after it plays the packet that arrived, each of its samples faded in
  while the prediction of what follows the predicted packet is faded out, and then the regulator is in step again.
\<close>

theorem burst_concealed:
  assumes "reg_inv n L C p K M r" and "in_step j r" and "0 \<le> j" and "0 < m" and "m < 2047"
    and "k = (j + int m + 1) mod 4096" and "\<forall>i\<in>{1..m}. is_missing ((j + int i) mod 4096) r = Some True"
    and "length buf = packet_bytes n C r" and "K \<le> msecs clock" and "msecs clock \<le> msecs (clock_stat C1)"
    and "tol_ok T r" and "T \<le> msecs (clock_now C1)" and "msecs (clock_now C1) \<le> max_latency"
    and "msecs (clock_stat C1) \<le> msecs (clock_stat C2)" and "T \<le> msecs (clock_now C2)"
    and "M + 4099 \<le> 1073741823"
  shows "\<exists>r1 r2. pullPacket C1 (pushed buf k clock r) = Some (True, r1) \<and> mSkipped r1 = mSkipped r + int m \<and>
    holds_samples n C r1 (concealed (int p < mPcnt r) r1) \<and>
    pullPacket C2 r1 = Some (False, r2) \<and> mSkipped r2 = mSkipped r + int m \<and> in_step k r2 \<and>
    holds_samples n C r2 (faded_in r1 buf)"
proof -
  let ?r = "pushed buf k clock r"
  have s: "mLastSeqNumIn r = j" "mLastSeqNumOut r = j" "mStashedPacket r = - 1" "\<not> mWorkerEnabled r"
    using assms(2) by (simp_all add: in_step_def)
  have j: "j < 4096" using reg_inv_bytes(5) [OF assms(1)] s(2) by (simp add: slot_number_def NumSlots_def)
  have wrap: "(j + int i) mod 4096 = (if j + int i < 4096 then j + int i else j + int i - 4096)" if "i \<le> 2047" for i
  proof (cases "j + int i < 4096")
    case False
    have "(j + int i - 4096) mod 4096 = j + int i - 4096" using False that j by (intro mod_pos_pos_trivial) linarith+
    then show ?thesis using False minus_mod_self2 [of "j + int i" 4096] by simp
  qed (use assms(3) in \<open>simp add: mod_pos_pos_trivial\<close>)
  have k_eq: "k = (if j + int m + 1 < 4096 then j + int m + 1 else j + int m + 1 - 4096)"
  proof -
    have "j + int m + 1 = j + int (Suc m)" by simp
    then have "k = (j + int (Suc m)) mod 4096" using assms(6) by (simp only:)
    moreover have "Suc m \<le> 2047" using assms(5) by simp
    ultimately show ?thesis using wrap [of "Suc m"] by simp
  qed
  then have k: "0 \<le> k" "k < NumSlots" "k \<noteq> j" using assms(3-5) j by (auto simp: NumSlots_def split: if_splits)
  have newest: "mLastSeqNumIn ?r = k"
    using k_eq s(1) assms(3-5) j by (auto simp: pushed_def newest_seq_def NumSlots_def split: if_splits)
  have gap: "seq_ahead (k - j) = int (Suc m)" "seq_ahead (k - j - 1) = int m"
    using k_eq assms(3-5) j by (auto simp: seq_ahead_def NumSlots_def split: if_splits)
  have lost: "\<forall>i\<in>{1..m}. is_missing (seq_ahead (k - int i)) ?r = Some True"
  proof
    fix i assume i: "i \<in> {1..m}"
    define i' where "i' = Suc m - i"
    have i': "i' \<in> {1..m}" "int i' = int m + 1 - int i" using i by (auto simp: i'_def)
    have eq: "seq_ahead (k - int i) = (j + int i') mod 4096"
      using k_eq wrap [of i'] i i' assms(3,5) j by (auto simp: seq_ahead_def NumSlots_def split: if_splits)
    have "(j + int i') mod 4096 \<noteq> k" using k_eq wrap [of i'] i i' assms(3,5) j by (auto split: if_splits)
    moreover have "is_missing ((j + int i') mod 4096) r = Some True" using assms(7) i'(1) by blast
    ultimately show "is_missing (seq_ahead (k - int i)) ?r = Some True" unfolding eq
      using pushed_missing [OF _ _ k(1) _ s(2) assms(3)] k(3) by simp
  qed
  have inv: "reg_inv n L C p (msecs clock) M ?r"
    by (rule pushed_inv [OF assms(1) reg_inv_nonneg [OF assms(1)] assms(9,8) k(1,2)])
  have "nat k < length (mIncomingTiming r)" using assms(1) k by (simp add: reg_inv_def reg_slots_def NumSlots_def nat_less_iff)
  then have there: "is_missing k ?r = Some False"
    by (intro newer_not_missing [OF inv k(1,2)]) (simp add: pushed_def)
  have tol: "mMsecTolerance ?r \<le> msecs (clock_now C1)" using assms(11,12) by (simp add: tol_ok_def pushed_def)
  have M: "M + 4098 \<le> 1073741823" using assms(16) by simp
  obtain r1 where r1: "pullPacket C1 ?r = Some (True, r1)" "mStashedPacket r1 = k" "mSkipped r1 = mSkipped ?r + int m"
    "reg_inv n L C p (msecs (clock_stat C1)) (M + 4098) r1" "pull_frame ?r r1" "mLastWasGlitch r1"
    "holds_samples n C r1 (concealed (int p < mPcnt ?r) r1)"
    using pull_burst [OF inv newest _ assms(3) k(1) _ gap assms(4) lost there assms(10) tol assms(13) M] s
    by (auto simp: pushed_def)
  have "tol_ok T r1" by (rule tol_ok_frame [OF _ r1(5)]) (simp only: tol_ok_pushed assms(11))
  then have tol1: "mMsecTolerance r1 \<le> msecs (clock_now C2)" using assms(15) by (simp add: tol_ok_def)
  have in1: "mLastSeqNumIn r1 = k" "\<not> mWorkerEnabled r1" using r1(5) newest s(4) by (simp_all add: pull_frame_def) (simp add: pushed_def)
  have pre: "0 \<le> mStashedPacket r1" "0 \<le> mLastSeqNumIn r1" "M + 4098 + 1 \<le> 1073741823" using r1(2) in1(1) k(1) assms(16) by simp_all
  obtain r2 where r2: "pullPacket C2 r1 = Some (False, r2)" "mLastSeqNumOut r2 = k" "mStashedPacket r2 = - 1" "\<not> mLastWasGlitch r2"
    "mSkipped r2 = mSkipped r1" "pull_frame r1 r2" "holds_samples n C r2 (faded_in r1 (mSlots r1 ! nat k))"
    using pull_stashed [OF r1(4) pre(1,2) assms(14) tol1 pre(3)] r1(2,6) by auto
  have "nat k < length (mSlots r)" using assms(1) k by (simp add: reg_inv_def reg_slots_def NumSlots_def nat_less_iff)
  then have "mSlots r1 ! nat k = buf" using r1(5) by (simp add: pull_frame_def pushed_def)
  then have played: "holds_samples n C r2 (faded_in r1 buf)" "holds_samples n C r1 (concealed (int p < mPcnt r) r1)"
    using r2(7) r1(7) by (simp_all add: pushed_def)
  have "in_step k r2" using r2(2-4,6) in1 by (simp add: in_step_def pull_frame_def)
  moreover have "mSkipped ?r = mSkipped r" by (simp add: pushed_def)
  ultimately show ?thesis using r1(1,3) r2(1,5) played by auto
qed

text \<open>The slots of a new regulator have never been filled.\<close>

theorem burst_concealed_witness:
  "\<exists>r r1 r2. in_step 0 r \<and> pullPacket (clock_at 310) (pushed [8, 5] 4 310000000 r) = Some (True, r1) \<and>
     mSkipped r1 = mSkipped r + 3 \<and> pullPacket (clock_at 311) r1 = Some (False, r2) \<and> in_step 4 r2 \<and>
     holds_samples 2 1 r2 (faded_in r1 [8, 5])"
proof -
  have l: "lengths_ok 2 2 1 1 48000" by (simp add: lengths_ok_def)
  obtain r0 where r0: "reg_fresh 2 1 r0" "mSampleRate r0 = 48000" "mode_bytes r0 = nat 1" "mMsecTolerance r0 = of_int 5"
    "mLocalFPPdurMsec r0 \<le> 125" using new_regulator [OF l] by blast
  have t: "msecs 300000000 = 300" "msecs 310000000 = 310" using msecs_at [of 300] msecs_at [of 310] by simp_all
  obtain r1 where r1: "reg_ready 2 2 1 (past_packets 2) 0 0 r1" "mBitResolutionMode r1 = mBitResolutionMode r0"
    "mLastSeqNumIn r1 = - 1" "mLastSeqNumOut r1 = - 1" "mStashedPacket r1 = - 1" "\<not> mLastWasGlitch r1" "\<not> mWorkerEnabled r1"
    "\<forall>T. AutoMax \<le> T \<and> mMsecTolerance r0 \<le> T \<and> of_nat 2 \<le> T \<and> mLocalFPPdurMsec r0 \<le> T \<longrightarrow> tol_ok T r1"
    using first_packet [OF l r0(1-3), of "[7, 9]" 0 0 zero_garbage] by auto
  note inv1 = reg_ready_inv [OF r1(1)]
  have tol1: "tol_ok 250 r1" using r1(8) r0(4,5) by (simp add: AutoMax_def)
  have bytes: "packet_bytes 2 1 r1 = 2" using packet_bytes_mode [OF r1(2), of 2 1] r0(3) by (simp add: packet_bytes_def)
  have step1: "in_step (- 1) r1" using r1(3-7) by (simp add: in_step_def)
  have zero: "next_slot (- 1) = 0" by (simp add: next_slot_def)
  let ?p = "pushed [7, 9] 0 300000000 r1"
  have wait: "waiting (- 1) [7, 9] ?p" using pushed_waiting [OF inv1 step1, of 300000000 "[7, 9]"] bytes t zero by simp
  have inv2: "reg_inv 2 2 1 (past_packets 2) 300 0 ?p"
    using pushed_inv [OF inv1 order_refl, of 300000000 "[7, 9]" 0] bytes t by (simp add: NumSlots_def)
  have bounds: "(310 :: rat) \<le> max_latency" "(305 :: rat) \<le> max_latency" by (simp_all add: max_latency_def)
  have tolp: "mMsecTolerance ?p \<le> 255" using tol1 by (simp add: tol_ok_def pushed_def)
  note c = clock_at_msecs [of 305] clock_at_msecs [of 310] clock_at_msecs [of 311]
  obtain r where r: "in_step 0 r" "reg_inv 2 2 1 (past_packets 2) 305 2 r" "pull_frame ?p r"
    using pull_waiting [OF inv2 wait, of "clock_at 305"] c tolp bounds zero by auto
  have "tol_ok 255 r1" using tol1 by (simp add: tol_ok_def)
  then have tol: "tol_ok 255 r" by (intro tol_ok_frame [OF _ r(3)]) (simp only: tol_ok_pushed)
  have bytes_r: "packet_bytes 2 1 r = 2" using packet_bytes_mode [of r r1 2 1] r(3) bytes by (simp add: pull_frame_def pushed_def)
  have times: "mIncomingTiming r ! nat 0 = 300" "\<And>i. 0 < i \<Longrightarrow> i < 4096 \<Longrightarrow> mIncomingTiming r ! nat i = 0"
  proof -
    have len: "length (mIncomingTiming r1) = 4096" "\<forall>x\<in>set (mIncomingTiming r1). 0 \<le> x \<and> x \<le> 0"
      using inv1 by (simp_all add: reg_inv_def reg_slots_def)
    have eq: "mIncomingTiming r = (mIncomingTiming r1)[0 := 300]" using r(3) t by (simp add: pull_frame_def pushed_def)
    then show "mIncomingTiming r ! nat 0 = 300" using len(1) by simp
    fix i :: int assume i: "0 < i" "i < 4096"
    then have "mIncomingTiming r1 ! nat i \<in> set (mIncomingTiming r1)" using len(1) by simp
    then show "mIncomingTiming r ! nat i = 0" using len(2) i eq by fastforce
  qed
  have slots: "reg_slots 2 1 305 r" using r(2) by (simp add: reg_inv_def)
  have "mMsecTolerance r < 300" using tol by (simp add: tol_ok_def)
  then have "is_missing i r = Some True" if "0 < i" "i < 4096" for i
    using arrival_total [OF slots, of i] arrival_total [OF slots, of 0] times times(2) [OF that] that r(1)
    by (simp add: is_missing_def in_step_def NumSlots_def dbl_sub_def)
  then have lost: "\<forall>i\<in>{1..3}. is_missing ((0 + int i) mod 4096) r = Some True" by auto
  have "\<exists>r1 r2. pullPacket (clock_at 310) (pushed [8, 5] 4 310000000 r) = Some (True, r1) \<and> mSkipped r1 = mSkipped r + int 3 \<and>
    holds_samples 2 1 r1 (concealed (int (past_packets 2) < mPcnt r) r1) \<and>
    pullPacket (clock_at 311) r1 = Some (False, r2) \<and> mSkipped r2 = mSkipped r + int 3 \<and> in_step 4 r2 \<and>
    holds_samples 2 1 r2 (faded_in r1 [8, 5])"
    by (rule burst_concealed [OF r(2,1) _ _ _ _ lost, where T = 255]) (use bytes_r t c tol bounds in simp_all)
  then show ?thesis using r(1) by auto
qed

section \<open>What requantisation costs\<close>

lemma round_down_unit:
  assumes "\<bar>q\<bar> \<le> 32767"
  shows "cxx_round (of_int q / 32768 * of_int 32767) = (if \<bar>q\<bar> \<le> 16384 then q else q - sgn q)"
proof -
  have v: "(of_int q / 32768 * of_int 32767 :: rat) = of_int q - of_int q / 32768" by (simp add: field_simps)
  have h: "\<lfloor>of_int a - of_int a / 32768 + 1 / 2 :: rat\<rfloor> = (if a \<le> 16384 then a else a - 1)" if a: "0 \<le> a" "a \<le> 32767" for a :: int
  proof (cases "a \<le> 16384")
    case True
    then have "(of_int a :: rat) \<le> 16384" "0 \<le> (of_int a :: rat)" using a(1) by simp_all
    then show ?thesis using True by (simp add: floor_eq_iff)
  next
    case False
    then have "(16384 :: rat) < of_int a" "of_int a \<le> (32767 :: rat)" using a(2) by simp_all
    then show ?thesis using False by (simp add: floor_eq_iff)
  qed
  show ?thesis
  proof (cases "0 \<le> q")
    case True
    then have "(of_int q :: rat) / 32768 \<le> of_int q / 1" by (intro divide_left_mono) simp_all
    then have "0 \<le> (of_int q - of_int q / 32768 :: rat)" by simp
    then show ?thesis unfolding v cxx_round_def using h [of q] True assms by (cases "q = 0") (simp_all add: sgn_if)
  next
    case False
    define a where "a = - q"
    have a: "0 < a" "a \<le> 32767" "q = - a" using False assms by (simp_all add: a_def)
    have "(of_int a :: rat) / 32768 < of_int a / 1" using a(1) by (intro divide_strict_left_mono) simp_all
    then have neg: "\<not> 0 \<le> (of_int q - of_int q / 32768 :: rat)" unfolding a(3) by simp
    have "1 / 2 - (of_int q - of_int q / 32768) = (of_int a - of_int a / 32768 + 1 / 2 :: rat)" unfolding a(3) by simp
    then have "\<lfloor>1 / 2 - (of_int q - of_int q / 32768 :: rat)\<rfloor> = (if a \<le> 16384 then a else a - 1)"
      using h [of a] a(1,2) by (simp only: less_imp_le)
    then show ?thesis unfolding v cxx_round_def if_not_P [OF neg] using a by (simp only:) (simp add: sgn_if)
  qed
qed

text \<open>
  What is heard of a 16-bit packet that arrives in time: a sample of at most half of full scale is heard as it was sent, and a
  louder one, positive or negative, one unit nearer to zero, although nothing was lost.
\<close>

lemma loud_samples_lose_one_unit:
  assumes "\<forall>q\<in>set qs. \<bar>q\<bar> \<le> 32767"
  shows "requantize BIT16 (concat (map (le_bytes_int 2) qs)) =
    concat (map (\<lambda>q. le_bytes_int 2 (if \<bar>q\<bar> \<le> 16384 then q else q - sgn q)) qs)"
proof -
  have one: "requantize_sample BIT16 (le_bytes_int 2 q) = le_bytes_int 2 (if \<bar>q\<bar> \<le> 16384 then q else q - sgn q)"
    if q: "\<bar>q\<bar> \<le> 32767" for q
  proof -
    obtain s where s: "fromBitToSampleConversion (le_bytes_int 2 q) BIT16 = Some s" "float_val s = Fin (of_int q / 32768)"
      using decode_int(1) [OF q] by blast
    have "fl_rep 24 (-149) (of_int (q * 256) / 8388608)" using wire_rep(1) [of "q * 256"] q by simp
    then have rep: "fl_rep 24 (-149) (of_int q / 32768)" by simp
    have "\<bar>of_int q\<bar> \<le> (of_int 32767 :: rat)" using q by (simp only: of_int_abs [symmetric] of_int_le_iff)
    then have small: "\<bar>of_int q / 32768\<bar> \<le> (1 :: rat)" by (simp add: abs_divide)
    then have val: "float_val (float_bits (of_int q / 32768)) = Fin (of_int q / 32768)"
      by (intro float_val_bits [OF rep]) (simp add: order_le_less_trans)
    have "scale_clamp 32767 (Fin (of_int q / 32768)) = (if \<bar>q\<bar> \<le> 16384 then q else q - sgn q)"
      using scale_clamp_inside [OF val small, of 32767] round_down_unit [OF q] by simp
    then have "fromSampleToBitConversion (flt_bits (float_val s)) BIT16 =
        Some (le_bytes_int 2 (if \<bar>q\<bar> \<le> 16384 then q else q - sgn q))"
      using s(2) val by (simp add: fromSampleToBitConversion_def)
    then show ?thesis using s(1) by (simp add: requantize_sample_def)
  qed
  have len: "length (concat (map (le_bytes_int 2) qs)) div 2 = length qs"
    by (induction qs) simp_all
  have cell: "take 2 (drop (i * 2) (concat (map (le_bytes_int 2) qs))) = le_bytes_int 2 (qs ! i)" if "i < length qs" for i
    using that
  proof (induction qs arbitrary: i)
    case (Cons q qs)
    then show ?case by (cases i) simp_all
  qed simp
  have "map (\<lambda>i. requantize_sample BIT16 (take 2 (drop (i * 2) (concat (map (le_bytes_int 2) qs))))) [0..<length qs] =
      map (\<lambda>q. le_bytes_int 2 (if \<bar>q\<bar> \<le> 16384 then q else q - sgn q)) qs"
    using cell one assms by (intro nth_equalityI) simp_all
  then show ?thesis by (simp add: requantize_def len)
qed

lemma loud_samples_lose_one_unit_witness:
  "requantize BIT16 (concat (map (le_bytes_int 2) [16384, 32767, - 20000])) =
     concat (map (le_bytes_int 2) [16384, 32766, - 19999])"
  by (subst loud_samples_lose_one_unit) simp_all

end
