(* ===== verification/Framing.thy ===== *)
theory Framing
  imports Prelude "HOL-Library.Sublist"
begin

text \<open>
  Messages on a byte stream: the loop that takes complete frames off a buffer, which several receivers of
  the program have, and what it delivers however the stream is cut into reads.  A decoder
  returns whether it found a message, what it leaves in the buffer, and the message.
\<close>

section \<open>The loop\<close>

text \<open>The loop goes on while the decoder finds messages; a loop that never ends has no result.\<close>

partial_function (option) drain :: "(bytes \<Rightarrow> (bool \<times> bytes \<times> 'm) option) \<Rightarrow> bytes \<Rightarrow> 'm list \<Rightarrow>
    (bytes \<times> 'm list) option" where
  "drain decode buf msgs = do {
     (found, buf, m) \<leftarrow> decode buf;
     if found then drain decode buf (msgs @ [m]) else Some (buf, msgs)
   }"

lemma drain_found [simp]: "decode buf = Some (True, buf', m) \<Longrightarrow> drain decode buf msgs = drain decode buf' (msgs @ [m])"
  by (subst drain.simps) simp

lemma drain_wait [simp]: "decode buf = Some (False, buf', m) \<Longrightarrow> drain decode buf msgs = Some (buf', msgs)"
  by (subst drain.simps) simp

lemma drain_undefined: "decode buf = None \<Longrightarrow> drain decode buf msgs = None"
  by (subst drain.simps) simp

text \<open>A decoder that finds a message and leaves the buffer as it was keeps the loop going for ever.\<close>

lemma drain_stuck:
  assumes "decode buf = Some (True, buf, m)"
  shows "drain decode buf msgs = None"
proof (rule ccontr)
  assume "drain decode buf msgs \<noteq> None"
  then obtain r where "drain decode buf msgs = Some r" by blast
  then have "\<not> (\<exists>m. decode buf = Some (True, buf, m))"
    by (rule drain.raw_induct [where P = "\<lambda>decode buf msgs r. \<not> (\<exists>m. decode buf = Some (True, buf, m))", rotated])
      (auto split: Option.bind_splits if_splits)
  then show False using assms by blast
qed

text \<open>The reads of a stream, each appended to what the read before left.\<close>

fun feed :: "(bytes \<Rightarrow> (bool \<times> bytes \<times> 'm) option) \<Rightarrow> bytes list \<Rightarrow> bytes \<Rightarrow> (bytes \<times> 'm list) option" where
  "feed decode [] buf = Some (buf, [])"
| "feed decode (c # cs) buf = do {
     (buf, ms) \<leftarrow> drain decode (buf @ c) [];
     (buf, ms') \<leftarrow> feed decode cs buf;
     Some (buf, ms @ ms')
   }"

section \<open>Self-delimiting frames\<close>

text \<open>What waits in the buffer is less than the next frame.\<close>

definition cut :: "('f \<Rightarrow> bytes) \<Rightarrow> 'f list \<Rightarrow> bytes \<Rightarrow> bool" where
  "cut frame fs r \<longleftrightarrow> (case fs of [] \<Rightarrow> r = [] | f # _ \<Rightarrow> strict_prefix r (frame f))"

locale framing =
  fixes decode :: "bytes \<Rightarrow> (bool \<times> bytes \<times> 'm) option"
    and frame :: "'f \<Rightarrow> bytes"
    and content :: "'f \<Rightarrow> 'm"
    and valid :: "'f \<Rightarrow> bool"
  assumes complete: "valid f \<Longrightarrow> decode (frame f @ rest) = Some (True, rest, content f)"
    and incomplete: "valid f \<Longrightarrow> strict_prefix b (frame f) \<Longrightarrow> \<exists>m. decode b = Some (False, b, m)"
    and idle: "\<exists>m. decode [] = Some (False, [], m)"
begin

lemma drain_frames:
  assumes "\<forall>f\<in>set fs. valid f" and "\<exists>m. decode rest = Some (False, rest, m)"
  shows "drain decode (concat (map frame fs) @ rest) msgs = Some (rest, msgs @ map content fs)"
  using assms
proof (induction fs arbitrary: msgs)
  case Nil
  then show ?case by auto
next
  case (Cons f fs)
  then show ?case using complete [of f "concat (map frame fs) @ rest"] by simp
qed

lemma frame_nonempty: "valid f \<Longrightarrow> frame f \<noteq> []"
  using complete [of f "[]"] idle by auto

lemma prefix_of_frames:
  assumes "b @ rest = concat (map frame fs)" and "\<forall>f\<in>set fs. valid f"
  shows "\<exists>k r. k \<le> length fs \<and> b = concat (map frame (take k fs)) @ r \<and> cut frame (drop k fs) r"
  using assms
proof (induction fs arbitrary: b)
  case Nil
  then show ?case by (simp add: cut_def)
next
  case (Cons f fs)
  show ?case
  proof (cases "strict_prefix b (frame f)")
    case True
    then show ?thesis by (intro exI [of _ 0]) (simp add: cut_def)
  next
    case False
    have "prefix b (frame f @ concat (map frame fs))"
      using Cons.prems(1) by (metis concat.simps(2) list.simps(9) prefixI)
    then obtain b' where b': "b = frame f @ b'"
      using False by (auto simp: prefix_append strict_prefix_def)
    then have "b' @ rest = concat (map frame fs)" using Cons.prems(1) by simp
    then obtain k r where "k \<le> length fs" "b' = concat (map frame (take k fs)) @ r" "cut frame (drop k fs) r"
      using Cons.IH [of b'] Cons.prems(2) by fastforce
    then show ?thesis using b' by (intro exI [of _ "Suc k"] exI [of _ r]) simp
  qed
qed

lemma cut_waits: "cut frame fs r \<Longrightarrow> \<forall>f\<in>set fs. valid f \<Longrightarrow> \<exists>m. decode r = Some (False, r, m)"
  using idle incomplete by (auto simp: cut_def split: list.splits)

lemma feed_from:
  assumes "buf @ concat cs @ tail = concat (map frame fs)" and "\<forall>f\<in>set fs. valid f" and "cut frame fs buf"
  shows "\<exists>k r. k \<le> length fs \<and> feed decode cs buf = Some (r, map content (take k fs)) \<and>
    buf @ concat cs = concat (map frame (take k fs)) @ r \<and> cut frame (drop k fs) r"
  using assms
proof (induction cs arbitrary: buf fs)
  case Nil
  then show ?case by (intro exI [of _ 0]) simp
next
  case (Cons c cs)
  obtain k r where k: "k \<le> length fs" "buf @ c = concat (map frame (take k fs)) @ r" "cut frame (drop k fs) r"
    using prefix_of_frames [of "buf @ c" "concat cs @ tail" fs] Cons.prems by auto
  have valid: "\<forall>f\<in>set (take k fs). valid f" "\<forall>f\<in>set (drop k fs). valid f"
    using Cons.prems(2) by (auto dest: in_set_takeD in_set_dropD)
  have drain: "drain decode (buf @ c) [] = Some (r, map content (take k fs))"
    using drain_frames [OF valid(1) cut_waits [OF k(3) valid(2)], of "[]"] k(2) by simp
  have "concat (map frame (take k fs)) @ r @ concat cs @ tail = concat (map frame (take k fs @ drop k fs))"
    using Cons.prems(1) k(2) by simp (metis append.assoc)
  then have "r @ concat cs @ tail = concat (map frame (drop k fs))"
    unfolding map_append concat_append by simp
  then obtain l s where l: "l \<le> length (drop k fs)" "feed decode cs r = Some (s, map content (take l (drop k fs)))"
    "r @ concat cs = concat (map frame (take l (drop k fs))) @ s" "cut frame (drop l (drop k fs)) s"
    using Cons.IH valid(2) k(3) by blast
  have sum: "take (k + l) fs = take k fs @ take l (drop k fs)" by (simp add: take_add)
  have "buf @ concat (c # cs) = (buf @ c) @ concat cs" by simp
  also have "\<dots> = concat (map frame (take k fs)) @ concat (map frame (take l (drop k fs))) @ s"
    using k(2) l(3) by (metis append.assoc)
  finally show ?case
    using drain l(1,2,4) k(1) by (intro exI [of _ "k + l"] exI [of _ s]) (auto simp: sum add.commute)
qed

text \<open>However the frames are cut into reads: the complete ones are delivered, the rest waits.\<close>

lemma feed_stream:
  assumes "concat cs @ tail = concat (map frame fs)" and "\<forall>f\<in>set fs. valid f"
  shows "\<exists>k r. k \<le> length fs \<and> feed decode cs [] = Some (r, map content (take k fs)) \<and>
    concat cs = concat (map frame (take k fs)) @ r \<and> cut frame (drop k fs) r"
proof -
  have "cut frame fs []"
  proof (cases fs)
    case (Cons f gs)
    then have "frame f \<noteq> []" using assms(2) frame_nonempty [of f] by simp
    then show ?thesis using Cons by (simp add: cut_def strict_prefix_def)
  qed (simp add: cut_def)
  then show ?thesis using feed_from [of "[]" cs tail fs] assms(1,2) by simp
qed

lemma feed_all:
  assumes "concat cs = concat (map frame fs)" and "\<forall>f\<in>set fs. valid f"
  shows "feed decode cs [] = Some ([], map content fs)"
proof -
  obtain k r where k: "k \<le> length fs" "feed decode cs [] = Some (r, map content (take k fs))"
    "concat cs = concat (map frame (take k fs)) @ r" "cut frame (drop k fs) r"
    using feed_stream [of cs "[]" fs] assms by auto
  have "concat (map frame fs) = concat (map frame (take k fs)) @ concat (map frame (drop k fs))"
    by (metis append_take_drop_id concat_append map_append)
  then have "r = concat (map frame (drop k fs))" using k(3) assms(1) by simp
  then have "drop k fs = []"
    using k(4) by (cases "drop k fs") (auto simp: cut_def strict_prefix_def prefix_def)
  then show ?thesis using k by (simp add: cut_def)
qed

end

end
