(* ===== verification/Signaling.thy ===== *)
theory Signaling
  imports Auth Framing FloatRound
begin

text \<open>
  The messages of WebRTC signalling (\<open>src/webrtc/WebRtcSignalingProtocol.cpp\<close>): their JSON
  objects, and messages behind a length prefix.  A JSON object maps keys to values; Qt's parser and
  printer of JSON are arguments.
\<close>

section \<open>Messages\<close>

datatype MessageType = UNKNOWN | PROTOCOL_DETECT | OFFER | ANSWER | ICE_CANDIDATE | HANGUP | ERROR_MSG

datatype ProtocolType = PROTOCOL_UNKNOWN | PROTOCOL_UDP | PROTOCOL_WEBRTC

record SignalingMessage =
  msg_type :: MessageType
  msg_protocol :: ProtocolType
  sdp :: qstring
  candidate :: qstring
  sdpMid :: qstring
  sdpMLineIndex :: int
  msg_clientName :: qstring
  version :: int
  errorMessage :: qstring
  msg_udpPort :: int

definition empty_message :: SignalingMessage where
  "empty_message = \<lparr>msg_type = UNKNOWN, msg_protocol = PROTOCOL_UNKNOWN, sdp = [], candidate = [], sdpMid = [],
     sdpMLineIndex = - 1, msg_clientName = [], version = 0, errorMessage = [], msg_udpPort = 0\<rparr>"

text \<open>A JSON value that is neither a string nor a number is \<open>JOther\<close>.\<close>

datatype json_value = JString qstring | JNumber rat | JOther

type_synonym json_object = "qstring \<Rightarrow> json_value option"

datatype json_text = ParseError | NotObject | JObject json_object

record json_qt =
  toJson :: "json_object \<Rightarrow> bytes"
  fromJson :: "bytes \<Rightarrow> json_text"

definition json_put :: "string \<Rightarrow> json_value \<Rightarrow> json_object \<Rightarrow> json_object" where
  "json_put k v o' = o'(qs k \<mapsto> v)"

definition json_string :: "json_object \<Rightarrow> string \<Rightarrow> qstring" where
  "json_string o' k = (case o' (qs k) of Some (JString s) \<Rightarrow> s | _ \<Rightarrow> [])"

definition json_int :: "json_object \<Rightarrow> string \<Rightarrow> int \<Rightarrow> int" where
  "json_int o' k d =
     (case o' (qs k) of
        Some (JNumber x) \<Rightarrow> if x = of_int \<lfloor>x\<rfloor> \<and> int32_range \<lfloor>x\<rfloor> then \<lfloor>x\<rfloor> else d
      | _ \<Rightarrow> d)"

definition PROTOCOL_VERSION :: int where "PROTOCOL_VERSION = 1"

definition protocol_json :: "SignalingMessage \<Rightarrow> json_object \<Rightarrow> json_object" where
  "protocol_json msg json =
     (let json = json_put ''type'' (JString (qs ''protocol'')) json;
          json = (case msg_protocol msg of
              PROTOCOL_UDP \<Rightarrow> json_put ''protocol'' (JString (qs ''udp'')) json
            | PROTOCOL_WEBRTC \<Rightarrow> json_put ''protocol'' (JString (qs ''webrtc'')) json
            | PROTOCOL_UNKNOWN \<Rightarrow> json);
          json = (if msg_clientName msg \<noteq> [] then json_put ''client_name'' (JString (msg_clientName msg)) json else json)
      in if 0 < msg_udpPort msg then json_put ''udp_port'' (JNumber (of_int (msg_udpPort msg))) json else json)"

definition message_json :: "SignalingMessage \<Rightarrow> json_object option" where
  "message_json msg =
     (let json = json_put ''version'' (JNumber (of_int PROTOCOL_VERSION)) (\<lambda>_. None)
      in case msg_type msg of
        PROTOCOL_DETECT \<Rightarrow> Some (protocol_json msg json)
      | OFFER \<Rightarrow> Some (json_put ''sdp'' (JString (sdp msg)) (json_put ''type'' (JString (qs ''offer'')) json))
      | ANSWER \<Rightarrow> Some (json_put ''sdp'' (JString (sdp msg)) (json_put ''type'' (JString (qs ''answer'')) json))
      | ICE_CANDIDATE \<Rightarrow> Some (json_put ''sdpMLineIndex'' (JNumber (of_int (sdpMLineIndex msg)))
          (json_put ''sdpMid'' (JString (sdpMid msg)) (json_put ''candidate'' (JString (candidate msg))
            (json_put ''type'' (JString (qs ''ice'')) json))))
      | HANGUP \<Rightarrow> Some (json_put ''type'' (JString (qs ''hangup'')) json)
      | ERROR_MSG \<Rightarrow> Some (json_put ''message'' (JString (errorMessage msg))
          (json_put ''type'' (JString (qs ''error'')) json))
      | UNKNOWN \<Rightarrow> None)"

definition encodeMessage :: "json_qt \<Rightarrow> SignalingMessage \<Rightarrow> bytes" where
  "encodeMessage J msg = (case message_json msg of None \<Rightarrow> [] | Some json \<Rightarrow> toJson J json)"

definition read_protocol :: "json_object \<Rightarrow> ProtocolType" where
  "read_protocol json =
     (if json_string json ''protocol'' = qs ''udp'' then PROTOCOL_UDP
      else if json_string json ''protocol'' = qs ''webrtc'' then PROTOCOL_WEBRTC
      else PROTOCOL_UNKNOWN)"

definition read_message :: "json_object \<Rightarrow> SignalingMessage" where
  "read_message json =
     (let msg = empty_message\<lparr>version := json_int json ''version'' 0\<rparr>;
          typeStr = json_string json ''type''
      in if typeStr = qs ''protocol''
         then msg\<lparr>msg_type := PROTOCOL_DETECT, msg_protocol := read_protocol json,
           msg_clientName := json_string json ''client_name'', msg_udpPort := json_int json ''udp_port'' 0\<rparr>
         else if typeStr = qs ''offer'' then msg\<lparr>msg_type := OFFER, sdp := json_string json ''sdp''\<rparr>
         else if typeStr = qs ''answer'' then msg\<lparr>msg_type := ANSWER, sdp := json_string json ''sdp''\<rparr>
         else if typeStr = qs ''ice''
         then msg\<lparr>msg_type := ICE_CANDIDATE, candidate := json_string json ''candidate'',
           sdpMid := json_string json ''sdpMid'', sdpMLineIndex := json_int json ''sdpMLineIndex'' (- 1)\<rparr>
         else if typeStr = qs ''hangup'' then msg\<lparr>msg_type := HANGUP\<rparr>
         else if typeStr = qs ''error'' then msg\<lparr>msg_type := ERROR_MSG, errorMessage := json_string json ''message''\<rparr>
         else msg\<lparr>msg_type := UNKNOWN\<rparr>)"

definition decodeMessage :: "json_qt \<Rightarrow> bytes \<Rightarrow> SignalingMessage" where
  "decodeMessage J data = (case fromJson J data of JObject json \<Rightarrow> read_message json | _ \<Rightarrow> empty_message)"

definition isWebRtcSignaling :: "json_qt \<Rightarrow> bytes \<Rightarrow> bool" where
  "isWebRtcSignaling J data \<longleftrightarrow> data \<noteq> [] \<and> data ! 0 = 0x7B \<and>
     (case fromJson J data of JObject json \<Rightarrow> json (qs ''type'') \<noteq> None \<or> json (qs ''protocol'') \<noteq> None | _ \<Rightarrow> False)"

definition createProtocolMessage :: "json_qt \<Rightarrow> ProtocolType \<Rightarrow> qstring \<Rightarrow> bytes" where
  "createProtocolMessage J protocol clientName = encodeMessage J
     (empty_message\<lparr>msg_type := PROTOCOL_DETECT, msg_protocol := protocol, msg_clientName := clientName\<rparr>)"

definition createOfferMessage :: "json_qt \<Rightarrow> qstring \<Rightarrow> bytes" where
  "createOfferMessage J s = encodeMessage J (empty_message\<lparr>msg_type := OFFER, sdp := s\<rparr>)"

definition createAnswer :: "json_qt \<Rightarrow> qstring \<Rightarrow> bytes" where
  "createAnswer J s = encodeMessage J (empty_message\<lparr>msg_type := ANSWER, sdp := s\<rparr>)"

definition createIceCandidate :: "json_qt \<Rightarrow> qstring \<Rightarrow> qstring \<Rightarrow> int \<Rightarrow> bytes" where
  "createIceCandidate J cand mid n = encodeMessage J
     (empty_message\<lparr>msg_type := ICE_CANDIDATE, candidate := cand, sdpMid := mid, sdpMLineIndex := n\<rparr>)"

definition createHangup :: "json_qt \<Rightarrow> bytes" where
  "createHangup J = encodeMessage J (empty_message\<lparr>msg_type := HANGUP\<rparr>)"

definition createError :: "json_qt \<Rightarrow> qstring \<Rightarrow> bytes" where
  "createError J s = encodeMessage J (empty_message\<lparr>msg_type := ERROR_MSG, errorMessage := s\<rparr>)"

section \<open>Messages behind their length\<close>

definition quint32_be :: "nat \<Rightarrow> bytes" where
  "quint32_be v = rev (le_bytes 4 v)"

definition quint32_be_at :: "bytes \<Rightarrow> nat" where
  "quint32_be_at b = of_le_bytes (rev (take 4 b))"

definition readLegacyUdpPort :: "bytes \<Rightarrow> int" where
  "readLegacyUdpPort data = (if length data < 4 then - 1 else sint (of_nat (quint32_be_at data) :: u32))"

definition frameMessage :: "bytes \<Rightarrow> bytes" where
  "frameMessage message = quint32_be (length message) @ message"

text \<open>The result is whether there is a message, the rest of the buffer, and the message.\<close>

definition extractFramedMessage :: "bytes \<Rightarrow> bool \<times> bytes \<times> bytes" where
  "extractFramedMessage buffer =
     (if length buffer < 4 then (False, buffer, [])
      else let n = quint32_be_at buffer
           in if 1024 * 1024 < n then (False, [], [])
              else if length buffer < 4 + n then (False, buffer, [])
              else (True, drop (4 + n) buffer, take n (drop 4 buffer)))"

section \<open>What is read back\<close>

text \<open>What of a message goes over the wire.\<close>

definition wire_message :: "SignalingMessage \<Rightarrow> SignalingMessage" where
  "wire_message msg =
     (let m = empty_message\<lparr>msg_type := msg_type msg, version := 1\<rparr> in case msg_type msg of
        PROTOCOL_DETECT \<Rightarrow> m\<lparr>msg_protocol := msg_protocol msg, msg_clientName := msg_clientName msg,
          msg_udpPort := max 0 (msg_udpPort msg)\<rparr>
      | OFFER \<Rightarrow> m\<lparr>sdp := sdp msg\<rparr>
      | ANSWER \<Rightarrow> m\<lparr>sdp := sdp msg\<rparr>
      | ICE_CANDIDATE \<Rightarrow> m\<lparr>candidate := candidate msg, sdpMid := sdpMid msg, sdpMLineIndex := sdpMLineIndex msg\<rparr>
      | HANGUP \<Rightarrow> m
      | ERROR_MSG \<Rightarrow> m\<lparr>errorMessage := errorMessage msg\<rparr>
      | UNKNOWN \<Rightarrow> empty_message)"

text \<open>Keys are told apart by their characters.\<close>

lemma qs_eq [simp]: "qs a = qs b \<longleftrightarrow> a = b"
proof
  have inj: "x = y" if "(of_nat (of_char x) :: u16) = of_nat (of_char y)" for x y :: char
  proof -
    have "(of_char x :: nat) < 256" "(of_char y :: nat) < 256" by (rule nat_of_char_less_256)+
    then have "(of_char x :: nat) mod 65536 = of_char x" "(of_char y :: nat) mod 65536 = of_char y"
      by (intro mod_less, linarith)+
    then have "(of_char x :: nat) = of_char y"
      using arg_cong [OF that, of unat] by (simp add: unat_of_nat)
    then show "x = y" by simp
  qed
  assume "qs a = qs b"
  then show "a = b" unfolding qs_def by (rule list.inj_map_strong [rotated]) (rule inj)
qed simp

lemma qs_empty [simp]: "qs s = [] \<longleftrightarrow> s = []" "[] = qs s \<longleftrightarrow> s = []"
  by (auto simp: qs_def)

lemma json_put_at [simp]: "json_put k v o' (qs l) = (if k = l then Some v else o' (qs l))"
  by (simp add: json_put_def)

lemma json_string_put [simp]:
  "json_string (json_put k v o') l = (if k = l then (case v of JString s \<Rightarrow> s | _ \<Rightarrow> []) else json_string o' l)"
  by (simp add: json_string_def)

lemma json_int_put [simp]:
  "json_int (json_put k v o') l d = (if k = l
     then (case v of JNumber x \<Rightarrow> if x = of_int \<lfloor>x\<rfloor> \<and> int32_range \<lfloor>x\<rfloor> then \<lfloor>x\<rfloor> else d | _ \<Rightarrow> d)
     else json_int o' l d)"
  by (simp add: json_int_def)

lemma json_empty [simp]: "json_string (\<lambda>_. None) k = []" "json_int (\<lambda>_. None) k d = d"
  by (simp_all add: json_string_def json_int_def)

lemma read_protocol_json:
  assumes "int32_range (msg_udpPort msg)" and "json = json_put ''version'' (JNumber 1) (\<lambda>_. None)"
  shows "read_message (protocol_json msg json) = empty_message\<lparr>version := 1, msg_type := PROTOCOL_DETECT,
    msg_protocol := msg_protocol msg, msg_clientName := msg_clientName msg, msg_udpPort := max 0 (msg_udpPort msg)\<rparr>"
proof -
  let ?j = "protocol_json msg json"
  have "json_string ?j ''type'' = qs ''protocol''"
    using assms(2) by (simp add: protocol_json_def Let_def split: ProtocolType.splits)
  moreover have "json_int ?j ''version'' 0 = 1"
    using assms(2) by (simp add: protocol_json_def Let_def int32_range_def split: ProtocolType.splits)
  moreover have "read_protocol ?j = msg_protocol msg"
    using assms(2) by (simp add: protocol_json_def read_protocol_def Let_def split: ProtocolType.splits)
  moreover have "json_string ?j ''client_name'' = msg_clientName msg"
    using assms(2) by (simp add: protocol_json_def Let_def split: ProtocolType.splits)
  moreover have "json_int ?j ''udp_port'' 0 = max 0 (msg_udpPort msg)"
    using assms by (simp add: protocol_json_def Let_def split: ProtocolType.splits)
  ultimately show ?thesis by (simp add: read_message_def Let_def)
qed

lemma version_1: "int32_range 1"
  by (simp add: int32_range_def)

lemma read_message_json:
  defines "v \<equiv> json_put ''version'' (JNumber 1) (\<lambda>_. None)"
  shows "read_message (json_put ''sdp'' (JString s) (json_put ''type'' (JString (qs ''offer'')) v)) =
      empty_message\<lparr>msg_type := OFFER, version := 1, sdp := s\<rparr>"
    and "read_message (json_put ''sdp'' (JString s) (json_put ''type'' (JString (qs ''answer'')) v)) =
      empty_message\<lparr>msg_type := ANSWER, version := 1, sdp := s\<rparr>"
    and "int32_range n \<Longrightarrow> read_message (json_put ''sdpMLineIndex'' (JNumber (of_int n)) (json_put ''sdpMid'' (JString m)
        (json_put ''candidate'' (JString c) (json_put ''type'' (JString (qs ''ice'')) v)))) =
      empty_message\<lparr>msg_type := ICE_CANDIDATE, version := 1, candidate := c, sdpMid := m, sdpMLineIndex := n\<rparr>"
    and "read_message (json_put ''type'' (JString (qs ''hangup'')) v) = empty_message\<lparr>msg_type := HANGUP, version := 1\<rparr>"
    and "read_message (json_put ''message'' (JString s) (json_put ''type'' (JString (qs ''error'')) v)) =
      empty_message\<lparr>msg_type := ERROR_MSG, version := 1, errorMessage := s\<rparr>"
  unfolding v_def by (simp_all add: read_message_def Let_def version_1)

lemma read_written:
  assumes "message_json msg = Some json" and "int32_range (sdpMLineIndex msg)" and "int32_range (msg_udpPort msg)"
  shows "read_message json = wire_message msg"
  using assms read_message_json read_protocol_json [OF assms(3) refl]
  by (cases "msg_type msg") (auto simp: message_json_def wire_message_def PROTOCOL_VERSION_def Let_def
      simp del: json_put_at split del: if_split)

text \<open>Qt's parser reads the object that its printer wrote for a message.\<close>

definition json_reads :: "json_qt \<Rightarrow> SignalingMessage \<Rightarrow> bool" where
  "json_reads J msg \<longleftrightarrow> (\<forall>json. message_json msg = Some json \<longrightarrow> fromJson J (toJson J json) = JObject json)"

lemma decode_encoded:
  assumes "msg_type msg \<noteq> UNKNOWN" and "int32_range (sdpMLineIndex msg)" and "int32_range (msg_udpPort msg)"
    and "json_reads J msg"
  shows "decodeMessage J (encodeMessage J msg) = wire_message msg"
proof -
  obtain json where json: "message_json msg = Some json"
    using assms(1) by (cases "msg_type msg") (auto simp: message_json_def Let_def)
  then show ?thesis
    using assms(4) read_written [OF json assms(2,3)] by (simp add: decodeMessage_def encodeMessage_def json_reads_def)
qed

lemma frame_message_complete:
  assumes "length m \<le> 1048576"
  shows "extractFramedMessage (frameMessage m @ rest) = (True, rest, m)"
proof -
  have "quint32_be_at (frameMessage m @ rest) = length m"
    using assms by (simp add: quint32_be_at_def frameMessage_def quint32_be_def of_le_bytes_le_bytes del: le_bytes.simps)
  then show ?thesis
    using assms by (simp add: extractFramedMessage_def frameMessage_def quint32_be_def del: le_bytes.simps)
qed

lemma frame_message_incomplete:
  assumes "length m \<le> 1048576" and "strict_prefix b (frameMessage m)"
  shows "extractFramedMessage b = (False, b, [])"
proof (cases "length b < 4")
  case False
  obtain c where c: "frameMessage m = b @ c" "c \<noteq> []" using assms(2) by (auto elim: strict_prefixE')
  have "take 4 (b @ c) = quint32_be (length m)"
    unfolding c(1) [symmetric] by (simp add: frameMessage_def quint32_be_def del: le_bytes.simps)
  then have "take 4 b = quint32_be (length m)" using False by simp
  then have "quint32_be_at b = length m"
    using assms(1) by (simp add: quint32_be_at_def quint32_be_def of_le_bytes_le_bytes del: le_bytes.simps)
  moreover have "length b < 4 + length m"
    using arg_cong [OF c(1), of length] c(2) by (simp add: frameMessage_def quint32_be_def del: le_bytes.simps)
  ultimately show ?thesis using assms(1) by (simp add: extractFramedMessage_def)
qed (simp add: extractFramedMessage_def)

interpretation prefixed: framing "\<lambda>b. Some (extractFramedMessage b)" frameMessage "\<lambda>m. m" "\<lambda>m. length m \<le> 1048576"
  by unfold_locales
    (auto simp: frame_message_complete frame_message_incomplete extractFramedMessage_def [of "[]"])

end
