(* ===== verification/WebSocket.thy ===== *)
theory WebSocket
  imports HubConnection Signaling
begin

text \<open>
  The WebSocket over which a browser and the hub exchange signalling messages
  (\<open>src/webrtc/WebSocketSignalingConnection.cpp\<close>): the upgrade of the HTTP connection, and frames.  The
  socket is the bytes that were not read yet and the bytes written; signals are collected.
\<close>

section \<open>State\<close>

record ws_socket =
  unread :: bytes
  sent :: bytes
  is_open :: bool

datatype ws_signal = UpgradeComplete | MessageReceived SignalingMessage | WsError | ConnectionClosed

record WebSocketConnection =
  mSocket :: "ws_socket option"
  mBuffer :: bytes
  mUpgradeComplete :: bool
  ws_clientName :: qstring
  ws_signals :: "ws_signal list"

text \<open>
  What the environment provides: Qt's strings, JSON, the parser of queries, SHA-1 and Base64, and what
  \<open>QByteArray\<close> does with a negative length, of which the documentation does not tell.
\<close>

record ws_env =
  ws_qt :: qt
  ws_json :: json_qt
  query_name :: "qstring \<Rightarrow> qstring option"
  sha1 :: "bytes \<Rightarrow> bytes"
  toBase64 :: "bytes \<Rightarrow> qstring"
  mid_negative :: "bytes \<Rightarrow> nat \<Rightarrow> int \<Rightarrow> bytes"
  remove_negative :: "bytes \<Rightarrow> int \<Rightarrow> bytes"

definition byte_mid :: "ws_env \<Rightarrow> bytes \<Rightarrow> nat \<Rightarrow> int \<Rightarrow> bytes" where
  "byte_mid E b pos n =
     (if n = - 1 then drop pos b else if n < 0 then mid_negative E b pos n else take (nat n) (drop pos b))"

definition byte_remove :: "ws_env \<Rightarrow> bytes \<Rightarrow> int \<Rightarrow> bytes" where
  "byte_remove E b n = (if n < 0 then remove_negative E b n else drop (nat n) b)"

section \<open>Frames\<close>

text \<open>Where the rest of the frame begins and how long its payload is; none when bytes are missing.\<close>

definition payload_length :: "bytes \<Rightarrow> (nat \<times> u64) option" where
  "payload_length buffer =
     (let len = ucast (buffer ! 1 AND 0x7F) :: u64
      in if len = 126
         then if length buffer < 4 then None
           else Some (4, ucast (push_bit 8 (ucast (buffer ! 2)) OR ucast (buffer ! 3) :: u32))
         else if len = 127
         then if length buffer < 10 then None
           else Some (10, foldl (\<lambda>len b. push_bit 8 len OR ucast b) 0 (take 8 (drop 2 buffer)))
         else Some (2, len))"

definition masking_key :: "bytes \<Rightarrow> nat \<Rightarrow> (nat \<times> bytes) option" where
  "masking_key buffer pos =
     (if buffer ! 1 AND 0x80 = 0 then Some (pos, [])
      else if length buffer < pos + 4 then None
      else Some (pos + 4, take 4 (drop pos buffer)))"

definition unmask :: "bytes \<Rightarrow> bytes \<Rightarrow> bytes" where
  "unmask key body =
     (if key = [] then body else map (\<lambda>i. body ! i XOR key ! (i mod 4)) [0..<length body])"

definition decodeWebSocketFrame :: "ws_env \<Rightarrow> bytes \<Rightarrow> (bool \<times> bytes \<times> bytes) option" where
  "decodeWebSocketFrame E buffer =
     (if length buffer < 2 then Some (False, buffer, [])
      else case payload_length buffer of
        None \<Rightarrow> Some (False, buffer, [])
      | Some (pos, len) \<Rightarrow> (case masking_key buffer pos of
            None \<Rightarrow> Some (False, buffer, [])
          | Some (pos, key) \<Rightarrow> do {
              let n = sint (ucast len :: u32);
              stop \<leftarrow> checked_int (int pos + n);
              if int (length buffer) < stop then Some (False, buffer, [])
              else Some (buffer ! 0 AND 0x0F \<noteq> 0x08, byte_remove E buffer stop, unmask key (byte_mid E buffer pos n))
            }))"

text \<open>A shift of an \<open>int\<close> by its width or more is undefined.\<close>

definition int_byte :: "int \<Rightarrow> nat \<Rightarrow> u8 option" where
  "int_byte n k = (if k < 32 then Some (of_int (n div 2 ^ k)) else None)"

definition encodeWebSocketFrame :: "bytes \<Rightarrow> bytes option" where
  "encodeWebSocketFrame body =
     (let n = length body
      in if n < 126 then Some ([0x81, of_nat n] @ body)
         else if n < 65536 then do {
           hi \<leftarrow> int_byte (int n) 8;
           lo \<leftarrow> int_byte (int n) 0;
           Some ([0x81, 126, hi, lo] @ body)
         }
         else do {
           bs \<leftarrow> those (map (\<lambda>i. int_byte (int n) (i * 8)) (rev [0..<8]));
           Some ([0x81, 127] @ bs @ body)
         })"

section \<open>The connection\<close>

definition ws_close :: "WebSocketConnection \<Rightarrow> WebSocketConnection" where
  "ws_close c = c\<lparr>mSocket := None\<rparr>"

definition ws_isOpen :: "WebSocketConnection \<Rightarrow> bool" where
  "ws_isOpen c = (case mSocket c of None \<Rightarrow> False | Some s \<Rightarrow> is_open s)"

definition ws_write :: "bytes \<Rightarrow> WebSocketConnection \<Rightarrow> WebSocketConnection" where
  "ws_write b c = c\<lparr>mSocket := map_option (\<lambda>s. s\<lparr>sent := sent s @ b\<rparr>) (mSocket c)\<rparr>"

definition ws_emit :: "ws_signal list \<Rightarrow> WebSocketConnection \<Rightarrow> WebSocketConnection" where
  "ws_emit l c = c\<lparr>ws_signals := ws_signals c @ l\<rparr>"

definition sendMessage :: "bytes \<Rightarrow> WebSocketConnection \<Rightarrow> WebSocketConnection option" where
  "sendMessage message c =
     (if \<not> ws_isOpen c \<or> \<not> mUpgradeComplete c then Some c
      else do { b \<leftarrow> encodeWebSocketFrame message; Some (ws_write b c) })"

text \<open>\<open>split\<close> at carriage return and line feed.\<close>

fun split_crlf :: "qstring \<Rightarrow> qstring list" where
  "split_crlf [] = [[]]"
| "split_crlf [c] = [[c]]"
| "split_crlf (c # d # s) =
     (if c = 13 \<and> d = 10 then [] # split_crlf s
      else case split_crlf (d # s) of [] \<Rightarrow> [[c]] | l # ls \<Rightarrow> (c # l) # ls)"

text \<open>The characters that fold to an ASCII letter, and those that \<open>trimmed\<close> removes.\<close>

definition fold_case :: "u16 \<Rightarrow> u16" where
  "fold_case c = (if 65 \<le> c \<and> c \<le> 90 then c + 32 else if c = 0x17F then 115 else if c = 0x212A then 107 else c)"

definition qspace :: "u16 \<Rightarrow> bool" where
  "qspace c \<longleftrightarrow> 9 \<le> c \<and> c \<le> 13 \<or> 0x2000 \<le> c \<and> c \<le> 0x200A \<or>
     c \<in> set [0x20, 0x85, 0xA0, 0x1680, 0x2028, 0x2029, 0x202F, 0x205F, 0x3000]"

definition qtrimmed :: "qstring \<Rightarrow> qstring" where
  "qtrimmed s = rev (dropWhile qspace (rev (dropWhile qspace s)))"

definition is_key_line :: "qstring \<Rightarrow> bool" where
  "is_key_line line = startsWith (map fold_case line) (qs ''sec-websocket-key:'')"

definition upgrade_path :: "qstring list \<Rightarrow> qstring" where
  "upgrade_path lines =
     (case lines of
        [] \<Rightarrow> []
      | line # _ \<Rightarrow> let parts = split_at 32 line in if 2 \<le> length parts then parts ! 1 else [])"

definition upgrade_key :: "qstring list \<Rightarrow> qstring" where
  "upgrade_key lines = (case filter is_key_line lines of [] \<Rightarrow> [] | line # _ \<Rightarrow> qtrimmed (drop 18 line))"

definition accept_key :: "ws_env \<Rightarrow> qstring \<Rightarrow> qstring" where
  "accept_key E wsKey =
     toBase64 E (sha1 E (toUtf8 (ws_qt E) (wsKey @ qs ''258EAFA5-E914-47DA-95CA-C5AB0DC85B11'')))"

definition upgrade_response :: "qstring \<Rightarrow> qstring" where
  "upgrade_response acceptKey =
     qs ''HTTP/1.1 101 Switching Protocols'' @ [13, 10] @ qs ''Upgrade: websocket'' @ [13, 10] @
     qs ''Connection: Upgrade'' @ [13, 10] @ qs ''Sec-WebSocket-Accept: '' @ acceptKey @ [13, 10, 13, 10]"

definition handleWebSocketUpgrade :: "ws_env \<Rightarrow> bytes \<Rightarrow> WebSocketConnection \<Rightarrow> bool \<times> WebSocketConnection" where
  "handleWebSocketUpgrade E data c =
     (let lines = split_crlf (fromUtf8 (ws_qt E) data);
          c = (case query_name E (qs ''http://localhost'' @ upgrade_path lines) of
              None \<Rightarrow> c | Some name \<Rightarrow> c\<lparr>ws_clientName := name\<rparr>);
          wsKey = upgrade_key lines
      in if wsKey = [] then (False, c)
         else (True, ws_write (toUtf8 (ws_qt E) (upgrade_response (accept_key E wsKey))) c))"

definition onReadyRead :: "ws_env \<Rightarrow> WebSocketConnection \<Rightarrow> WebSocketConnection option" where
  "onReadyRead E c =
     (case mSocket c of
        None \<Rightarrow> Some c
      | Some s \<Rightarrow>
          if \<not> mUpgradeComplete c
          then if startsWith (take 256 (unread s)) (ascii ''GET'')
            then let (ok, c) = handleWebSocketUpgrade E (unread s) (c\<lparr>mSocket := Some (s\<lparr>unread := []\<rparr>)\<rparr>)
                 in if ok then Some (ws_emit [UpgradeComplete] (c\<lparr>mUpgradeComplete := True\<rparr>))
                    else Some (ws_close (ws_emit [WsError] c))
            else Some c
          else do {
            (buf, payloads) \<leftarrow> drain (decodeWebSocketFrame E) (mBuffer c @ unread s) [];
            Some (ws_emit (map (\<lambda>p. MessageReceived (decodeMessage (ws_json E) p)) payloads)
              (c\<lparr>mSocket := Some (s\<lparr>unread := []\<rparr>), mBuffer := buf\<rparr>))
          })"

definition WebSocketConnection_new :: "ws_env \<Rightarrow> ws_socket option \<Rightarrow> WebSocketConnection option" where
  "WebSocketConnection_new E socket =
     (let c = \<lparr>mSocket = socket, mBuffer = [], mUpgradeComplete = False, ws_clientName = [], ws_signals = []\<rparr>
      in case socket of
        None \<Rightarrow> Some c
      | Some s \<Rightarrow> if unread s \<noteq> [] then onReadyRead E c else Some c)"

definition onDisconnected :: "WebSocketConnection \<Rightarrow> WebSocketConnection" where
  "onDisconnected c = ws_emit [ConnectionClosed] c"

end
