(* ===== verification/WebSocketSpec.thy ===== *)
theory WebSocketSpec
  imports WebSocket
begin

text \<open>
  What the WebSocket connection delivers: the frames of a client, as RFC 6455 builds them, cut into reads
  in any way; the frames the server sends; and what a hostile length does.
\<close>

section \<open>Frames of a client\<close>

datatype ws_form = Short | Medium | Long

record ws_frame =
  frame_first :: u8
  frame_form :: ws_form
  frame_key :: bytes
  frame_body :: bytes

definition length_code :: "ws_frame \<Rightarrow> nat" where
  "length_code f = (case frame_form f of Short \<Rightarrow> length (frame_body f) | Medium \<Rightarrow> 126 | Long \<Rightarrow> 127)"

definition length_field :: "ws_frame \<Rightarrow> bytes" where
  "length_field f = (case frame_form f of
     Short \<Rightarrow> [] | Medium \<Rightarrow> rev (le_bytes 2 (length (frame_body f))) | Long \<Rightarrow> rev (le_bytes 8 (length (frame_body f))))"

text \<open>The key goes round over the bytes, one byte of it for each.\<close>

fun masked :: "bytes \<Rightarrow> bytes \<Rightarrow> bytes" where
  "masked [] body = body"
| "masked (k # ks) [] = []"
| "masked (k # ks) (b # bs) = (b XOR k) # masked (ks @ [k]) bs"

definition ws_frame_bytes :: "ws_frame \<Rightarrow> bytes" where
  "ws_frame_bytes f =
     frame_first f # of_nat (length_code f + (if frame_key f = [] then 0 else 128)) #
     length_field f @ frame_key f @ masked (frame_key f) (frame_body f)"

definition ws_frame_ok :: "ws_frame \<Rightarrow> bool" where
  "ws_frame_ok f \<longleftrightarrow> frame_first f AND 0x0F \<noteq> 0x08 \<and> length (frame_key f) \<in> {0, 4} \<and>
     length (frame_body f) < (case frame_form f of Short \<Rightarrow> 126 | Medium \<Rightarrow> 65536 | Long \<Rightarrow> 2147483634)"

lemma unmask_length [simp]: "length (unmask key body) = length body"
  by (simp add: unmask_def)

lemma masked_length [simp]: "length (masked key body) = length body"
  by (induction key body rule: masked.induct) simp_all

lemma masked_nth:
  "key \<noteq> [] \<Longrightarrow> i < length body \<Longrightarrow> masked key body ! i = body ! i XOR key ! (i mod length key)"
proof (induction key body arbitrary: i rule: masked.induct)
  case (3 k ks b bs)
  show ?case
  proof (cases i)
    case (Suc j)
    have "(ks @ [k]) ! (j mod Suc (length ks)) = (k # ks) ! (Suc j mod Suc (length ks))"
      using nth_rotate1 [of "j mod Suc (length ks)" "k # ks"] by (simp add: mod_Suc_eq)
    then show ?thesis using 3 Suc by simp
  qed simp
qed simp_all

lemma unmask_masked: "length key \<in> {0, 4} \<Longrightarrow> unmask key (masked key body) = body"
  by (rule nth_equalityI) (auto simp: unmask_def masked_nth xor.assoc)

lemma length_code_less: "ws_frame_ok f \<Longrightarrow> length_code f < 128"
  by (auto simp: ws_frame_ok_def length_code_def split: ws_form.splits)

text \<open>The second byte: seven bits of the length and whether there is a key.\<close>

lemma second_byte:
  assumes "n < 128"
  shows "unat (of_nat (n + (if m then 128 else 0)) AND 0x7F :: u8) = n"
    and "(of_nat (n + (if m then 128 else 0)) AND 0x80 :: u8) = 0 \<longleftrightarrow> \<not> m"
proof -
  have mask: "w AND 0x7F = take_bit 7 w" for w :: u8
    by (simp only: take_bit_eq_mask) (simp add: mask_eq_exp_minus_1)
  have "unat (w AND 0x7F) = unat w mod 128" for w :: u8
    by (simp only: mask unsigned_take_bit_eq take_bit_eq_mod) (simp add: unat_mod)
  moreover have u: "unat (of_nat (n + (if m then 128 else 0)) :: u8) = n + (if m then 128 else 0)"
    unfolding unat_of_nat using assms by (cases m) simp_all
  ultimately show "unat (of_nat (n + (if m then 128 else 0)) AND 0x7F :: u8) = n"
    using assms by (simp del: of_nat_add)
  have bit: "bit (of_nat (n + (if m then 128 else 0)) :: u8) 7 \<longleftrightarrow> m"
  proof -
    have "bit w 7 = bit (unat w) 7" for w :: u8 by (simp add: bit_unsigned_iff)
    then show ?thesis using u assms by (cases m) (simp_all add: bit_iff_odd del: of_nat_add)
  qed
  have "(w AND 0x80 :: u8) = 0 \<longleftrightarrow> \<not> bit w 7" for w :: u8
    using and_exp_eq_0_iff_not_bit [of w 7] by simp
  then show "(of_nat (n + (if m then 128 else 0)) AND 0x80 :: u8) = 0 \<longleftrightarrow> \<not> m" using bit by simp
qed

lemma of_le_bytes_snoc: "of_le_bytes (bs @ [b]) = of_le_bytes bs + 256 ^ length bs * unat b"
  by (induction bs) (simp_all add: algebra_simps)

lemma append_byte:
  assumes "unat (len :: u64) * 256 + 256 \<le> 2 ^ 64"
  shows "unat (push_bit 8 len OR ucast (b :: u8)) = unat len * 256 + unat b"
proof -
  have b: "uint b < 256" "0 \<le> uint b" by simp_all
  have "uint (push_bit 8 len OR ucast b) = take_bit 64 (push_bit 8 (uint len)) OR take_bit 64 (uint b)"
    by (simp add: unsigned_or_eq unsigned_push_bit_eq unsigned_ucast_eq)
  also have "\<dots> = take_bit 64 (push_bit 8 (uint len) OR uint b)" by simp
  also have "\<dots> = take_bit 64 (uint len * 256 + uint b)" using or_shifted_byte_int [OF b(2,1)] by simp
  also have "\<dots> = uint len * 256 + uint b"
  proof (rule take_bit_int_eq_self)
    have "int (unat len * 256 + 256) \<le> int (2 ^ 64)" using assms by (simp only: of_nat_le_iff)
    then have "uint len * 256 + 256 \<le> 2 ^ 64" by simp
    then show "uint len * 256 + uint b < 2 ^ 64" using b(1) by linarith
  qed simp
  finally have "int (unat (push_bit 8 len OR ucast b)) = int (unat len * 256 + unat b)" by simp
  then show ?thesis by (simp only: of_nat_eq_iff)
qed

lemma length_loop:
  "(unat v + 1) * 256 ^ length bs \<le> 2 ^ 64 \<Longrightarrow>
     unat (foldl (\<lambda>len b. push_bit 8 len OR ucast b) (v :: u64) bs) = unat v * 256 ^ length bs + of_le_bytes (rev bs)"
proof (induction bs arbitrary: v)
  case (Cons b bs)
  have "(unat v + 1) * 256 * 1 \<le> (unat v + 1) * 256 * 256 ^ length bs" by (rule mult_le_mono2) simp
  also have "\<dots> = (unat v + 1) * 256 ^ length (b # bs)" by (simp add: algebra_simps)
  also have "\<dots> \<le> 2 ^ 64" by (rule Cons.prems)
  finally have step: "unat (push_bit 8 v OR ucast b) = unat v * 256 + unat b"
    by (intro append_byte) simp
  have "(unat v * 256 + unat b + 1) * 256 ^ length bs \<le> (unat v * 256 + 256) * 256 ^ length bs"
    by (intro mult_le_mono1) (use unat_u8_less [of b] in linarith)
  also have "\<dots> = (unat v + 1) * 256 ^ length (b # bs)" by (simp add: algebra_simps)
  also have "\<dots> \<le> 2 ^ 64" by (rule Cons.prems)
  finally show ?case using Cons.IH [of "push_bit 8 v OR ucast b"] step
    by (simp add: of_le_bytes_snoc algebra_simps)
qed simp

section \<open>Decoding\<close>

definition frame_tail :: "ws_frame \<Rightarrow> bytes" where
  "frame_tail f = length_field f @ frame_key f @ masked (frame_key f) (frame_body f)"

definition second :: "ws_frame \<Rightarrow> u8" where
  "second f = of_nat (length_code f + (if frame_key f \<noteq> [] then 128 else 0))"

lemma ws_frame_bytes_eq: "ws_frame_bytes f = frame_first f # second f # frame_tail f"
  by (simp add: ws_frame_bytes_def second_def frame_tail_def)

lemma frame_body_less: "ws_frame_ok f \<Longrightarrow> length (frame_body f) < 2147483634"
  by (auto simp: ws_frame_ok_def split: ws_form.splits)

lemma length_field_length: "length (length_field f) = (case frame_form f of Short \<Rightarrow> 0 | Medium \<Rightarrow> 2 | Long \<Rightarrow> 8)"
  by (simp add: length_field_def split: ws_form.splits del: le_bytes.simps)

lemma prefix_take: "prefix t (xs @ ys) \<Longrightarrow> length xs \<le> length t \<Longrightarrow> take (length xs) t = xs"
  by (auto simp: prefix_def append_eq_append_conv2)

lemma two_bytes:
  assumes "take 2 t = rev (le_bytes 2 n)" and "n < 65536"
  shows "(ucast (push_bit 8 (ucast (t ! 0)) OR ucast (t ! 1) :: u32) :: u64) = of_nat n"
proof -
  obtain x y where t: "t ! 0 = x" "t ! 1 = y" "take 2 t = [x, y]"
    using assms(1) by (cases t; cases "List.tl t") (auto simp: numeral_2_eq_2)
  then have xy: "x = of_nat (n div 256 mod 256)" "y = of_nat (n mod 256)"
    using assms(1) by (simp_all add: numeral_2_eq_2)
  have n: "n = unat x * 256 + unat y"
    using assms(2) unfolding xy by (simp only: unat_byte_of_nat) (simp add: div_mult_mod_eq)
  have "take_bit 32 (uint z) = uint z" for z :: u8
    by (intro take_bit_int_eq_self order_less_le_trans [OF uint_u8_less]) simp_all
  then have "uint (push_bit 8 (ucast x) OR ucast y :: u32) = take_bit 32 (push_bit 8 (uint x) OR uint y)"
    by (simp add: unsigned_or_eq unsigned_push_bit_eq unsigned_ucast_eq)
  also have "\<dots> = take_bit 32 (uint x * 256 + uint y)"
    by (subst or_shifted_byte_int) simp_all
  also have "uint x * 256 + uint y = int n" using n by simp
  also have "take_bit 32 (int n) = int n"
    by (intro take_bit_int_eq_self) (use assms(2) in simp_all)
  finally have "int (unat (push_bit 8 (ucast x) OR ucast y :: u32)) = int n" by (simp only: of_nat_unat)
  then have "unat (push_bit 8 (ucast x) OR ucast y :: u32) = n" by (simp only: of_nat_eq_iff)
  then show ?thesis unfolding t(1,2) by (metis of_nat_unat)
qed


lemma payload_length_frame:
  assumes "ws_frame_ok f" and "prefix t (frame_tail f @ rest)"
  shows "payload_length (frame_first f # second f # t) =
    (if length t < length (length_field f) then None
     else Some (2 + length (length_field f), of_nat (length (frame_body f))))"
proof -
  let ?n = "length (frame_body f)"
  have code: "unat (second f AND 0x7F) = length_code f"
    unfolding second_def using second_byte(1) [OF length_code_less [OF assms(1)], of "frame_key f \<noteq> []"] by simp
  then have len: "(ucast (second f AND 0x7F) :: u64) = of_nat (length_code f)"
    using of_nat_unat [of "second f AND 0x7F"] by metis
  have code_eq: "(of_nat (length_code f) :: u64) = of_nat k \<longleftrightarrow> length_code f = k" if "k < 128" for k
    using length_code_less [OF assms(1)] that by (auto simp: word_unat_eq_iff unat_of_nat)
  have field: "take (length (length_field f)) t = length_field f" if "\<not> length t < length (length_field f)"
    using that assms(2) prefix_take [of t "length_field f"] by (simp add: frame_tail_def)
  show ?thesis
  proof (cases "frame_form f")
    case Short
    then have "?n < 126" "length_code f = ?n" using assms(1) by (simp_all add: ws_frame_ok_def length_code_def)
    then show ?thesis using Short code_eq [of 126] code_eq [of 127]
      by (simp add: payload_length_def len Let_def length_field_def)
  next
    case Medium
    then have n: "?n < 65536" "length_code f = 126" using assms(1) by (simp_all add: ws_frame_ok_def length_code_def)
    then show ?thesis using Medium two_bytes [OF _ n(1), of t] field
      by (simp add: payload_length_def len Let_def length_field_def del: le_bytes.simps)
  next
    case Long
    then have n: "?n < 2147483634" "length_code f = 127" using assms(1) by (simp_all add: ws_frame_ok_def length_code_def)
    have "unat (foldl (\<lambda>len b. push_bit 8 len OR ucast b) (0 :: u64) (rev (le_bytes 8 ?n))) = ?n"
      using length_loop [of 0 "rev (le_bytes 8 ?n)"] n(1) by (simp add: of_le_bytes_le_bytes del: le_bytes.simps)
    then have "foldl (\<lambda>len b. push_bit 8 len OR ucast b) (0 :: u64) (rev (le_bytes 8 ?n)) = of_nat ?n"
      using n(1) by (simp add: word_unat_eq_iff unat_of_nat del: le_bytes.simps)
    then show ?thesis using Long n field
      by (simp add: payload_length_def len Let_def length_field_def del: le_bytes.simps)
  qed
qed


lemma masking_key_frame:
  assumes "ws_frame_ok f" and "prefix t (frame_tail f @ rest)" and "length (length_field f) \<le> length t"
  shows "masking_key (frame_first f # second f # t) (2 + length (length_field f)) =
    (if length t < length (length_field f @ frame_key f) then None
     else Some (2 + length (length_field f @ frame_key f), frame_key f))"
proof -
  have mask: "second f AND 0x80 = 0 \<longleftrightarrow> frame_key f = []"
    unfolding second_def using second_byte(2) [OF length_code_less [OF assms(1)], of "frame_key f \<noteq> []"] by simp
  have key: "take 4 (drop (length (length_field f)) t) = frame_key f"
    if "frame_key f \<noteq> []" "length (length_field f @ frame_key f) \<le> length t"
  proof -
    have "take (length (length_field f @ frame_key f)) t = length_field f @ frame_key f"
      using assms(2) that(2) by (intro prefix_take) (simp_all add: frame_tail_def)
    from arg_cong [OF this, of "drop (length (length_field f))"] show ?thesis
      using assms(1) that(1) by (auto simp: ws_frame_ok_def drop_take)
  qed
  have four: "length (frame_key f) = (if frame_key f = [] then 0 else 4)"
    using assms(1) by (auto simp: ws_frame_ok_def)
  show ?thesis
    using assms(3) mask key four by (auto simp: masking_key_def)
qed

definition frame_size :: "ws_frame \<Rightarrow> nat" where
  "frame_size f = 2 + length (length_field f) + length (frame_key f) + length (frame_body f)"

lemma ws_frame_bytes_length: "length (ws_frame_bytes f) = frame_size f"
  by (simp add: ws_frame_bytes_eq frame_tail_def frame_size_def)

lemma frame_size_bounds:
  assumes "ws_frame_ok f"
  shows "int32_range (int (frame_size f))"
    and "sint (ucast (of_nat (length (frame_body f)) :: u64) :: u32) = int (length (frame_body f))"
proof -
  have n: "length (frame_body f) < 2147483634" by (rule frame_body_less [OF assms])
  have "length (length_field f) \<le> 8" "length (frame_key f) \<le> 4"
    using assms by (auto simp: length_field_length ws_frame_ok_def split: ws_form.splits)
  then show "int32_range (int (frame_size f))" using n by (simp add: int32_range_def frame_size_def)
  have "(ucast (of_nat (length (frame_body f)) :: u64) :: u32) = of_int (int (length (frame_body f)))"
    using n by (simp add: word_unat_eq_iff unsigned_ucast_eq unat_of_nat take_bit_eq_mod)
  then show "sint (ucast (of_nat (length (frame_body f)) :: u64) :: u32) = int (length (frame_body f))"
    using n sint_of_int_u32 [of "int (length (frame_body f))"] by (simp add: int32_range_def)
qed

lemma decode_frame:
  assumes "ws_frame_ok f"
  shows "decodeWebSocketFrame E (ws_frame_bytes f @ rest) = Some (True, rest, frame_body f)"
proof -
  let ?t = "frame_tail f @ rest" and ?h = "length_field f @ frame_key f"
  have pl: "payload_length (frame_first f # second f # ?t) = Some (2 + length (length_field f), of_nat (length (frame_body f)))"
    by (subst payload_length_frame [OF assms, of ?t rest]) (simp_all add: frame_tail_def)
  have mk: "masking_key (frame_first f # second f # ?t) (2 + length (length_field f)) =
      Some (2 + length ?h, frame_key f)"
    by (subst masking_key_frame [OF assms, of ?t rest]) (simp_all add: frame_tail_def)
  have body: "take (length (frame_body f)) (drop (length ?h) ?t) = masked (frame_key f) (frame_body f)"
    by (simp add: frame_tail_def)
  have rest: "drop (frame_size f) (frame_first f # second f # ?t) = rest"
    and size: "length (frame_first f # second f # ?t) = frame_size f + length rest"
    by (simp_all add: frame_tail_def frame_size_def)
  have body2: "take (length (frame_body f)) (drop (2 + length ?h) (frame_first f # second f # ?t)) =
      masked (frame_key f) (frame_body f)"
    using body by simp
  have stop: "int (2 + length ?h) + int (length (frame_body f)) = int (frame_size f)"
    by (simp add: frame_size_def)
  have "frame_first f AND 0x0F \<noteq> 0x08" "unmask (frame_key f) (masked (frame_key f) (frame_body f)) = frame_body f"
    using assms unmask_masked [of "frame_key f" "frame_body f"] unfolding ws_frame_ok_def by blast+
  moreover have "\<not> length (frame_first f # second f # ?t) < 2" by simp
  ultimately show ?thesis
    unfolding decodeWebSocketFrame_def ws_frame_bytes_eq append_Cons pl mk option.case prod.case Let_def
      frame_size_bounds(2) [OF assms] stop checked_int_Some [OF frame_size_bounds(1) [OF assms]] size byte_mid_def byte_remove_def
    using rest body2 by (simp del: drop_Suc_Cons length_append)
qed

lemma decode_part:
  assumes "ws_frame_ok f" and "strict_prefix b (ws_frame_bytes f)"
  shows "decodeWebSocketFrame E b = Some (False, b, [])"
proof (cases "length b < 2")
  case False
  then obtain x y t where b: "b = x # y # t" by (cases b; cases "List.tl b") auto
  then have t: "b = frame_first f # second f # t" "prefix t (frame_tail f @ [])"
    using assms(2) by (auto simp: ws_frame_bytes_eq strict_prefix_def)
  have less: "length b < frame_size f"
    using assms(2) prefix_length_less ws_frame_bytes_length by metis
  show ?thesis
  proof (cases "length t < length (length_field f)")
    case True
    then show ?thesis using False payload_length_frame [OF assms(1) t(2)] t(1) by (simp add: decodeWebSocketFrame_def)
  next
    case F: False
    show ?thesis
    proof (cases "length t < length (length_field f @ frame_key f)")
      case True
      then show ?thesis using False F payload_length_frame [OF assms(1) t(2)] masking_key_frame [OF assms(1) t(2)] t(1)
        by (simp add: decodeWebSocketFrame_def)
    next
      case False
      have stop: "int (2 + length (length_field f @ frame_key f)) + int (length (frame_body f)) = int (frame_size f)"
        by (simp add: frame_size_def)
      have pl: "payload_length b = Some (2 + length (length_field f), of_nat (length (frame_body f)))"
        using payload_length_frame [OF assms(1) t(2)] F t(1) by simp
      have mk: "masking_key b (2 + length (length_field f)) = Some (2 + length (length_field f @ frame_key f), frame_key f)"
        using masking_key_frame [OF assms(1) t(2)] F False t(1) by simp
      show ?thesis
        unfolding decodeWebSocketFrame_def pl mk option.case prod.case Let_def frame_size_bounds(2) [OF assms(1)] stop
        using frame_size_bounds(1) [OF assms(1)] less by simp
    qed
  qed
qed (simp add: decodeWebSocketFrame_def)

interpretation ws: framing "decodeWebSocketFrame E" ws_frame_bytes frame_body ws_frame_ok
  for E
  by unfold_locales (auto simp: decode_frame decode_part decodeWebSocketFrame_def [of _ "[]"])


section \<open>Reads of a connection\<close>

text \<open>Bytes arrive, and the connection is told each time.\<close>

definition ws_arrive :: "bytes \<Rightarrow> WebSocketConnection \<Rightarrow> WebSocketConnection" where
  "ws_arrive b c = c\<lparr>mSocket := map_option (\<lambda>s. s\<lparr>unread := unread s @ b\<rparr>) (mSocket c)\<rparr>"

fun ws_reads :: "ws_env \<Rightarrow> bytes list \<Rightarrow> WebSocketConnection \<Rightarrow> WebSocketConnection option" where
  "ws_reads E [] c = Some c"
| "ws_reads E (b # bs) c = do { c \<leftarrow> onReadyRead E (ws_arrive b c); ws_reads E bs c }"

definition upgraded :: "ws_socket \<Rightarrow> WebSocketConnection \<Rightarrow> bool" where
  "upgraded s c \<longleftrightarrow> mUpgradeComplete c \<and> mSocket c = Some s \<and> unread s = []"

definition received :: "ws_env \<Rightarrow> bytes \<Rightarrow> ws_signal" where
  "received E body = MessageReceived (decodeMessage (ws_json E) body)"

lemma ws_reads_feed:
  assumes "upgraded s c" and "feed (decodeWebSocketFrame E) bs (mBuffer c) = Some (buf, bodies)"
  shows "\<exists>c'. ws_reads E bs c = Some c' \<and> upgraded s c' \<and> mBuffer c' = buf \<and>
    ws_signals c' = ws_signals c @ map (received E) bodies"
  using assms
proof (induction bs arbitrary: c bodies)
  case (Cons b bs)
  obtain buf1 l1 l2 where d: "drain (decodeWebSocketFrame E) (mBuffer c @ b) [] = Some (buf1, l1)"
    "feed (decodeWebSocketFrame E) bs buf1 = Some (buf, l2)" "bodies = l1 @ l2"
    using Cons.prems(2) by (auto split: Option.bind_splits)
  let ?c = "ws_emit (map (received E) l1) (c\<lparr>mSocket := Some s, mBuffer := buf1\<rparr>)"
  have "onReadyRead E (ws_arrive b c) = Some ?c"
    using Cons.prems(1) d(1) by (cases s) (simp add: onReadyRead_def ws_arrive_def upgraded_def received_def [abs_def])
  moreover have "upgraded s ?c" "mBuffer ?c = buf1"
    using Cons.prems(1) by (simp_all add: upgraded_def ws_emit_def)
  moreover have "ws_signals ?c = ws_signals c @ map (received E) l1" by (simp add: ws_emit_def)
  ultimately show ?case using Cons.IH [of ?c l2] d(2,3) by auto
qed simp

text \<open>
  C13: However the frames of a browser are cut into reads, the connection passes on the messages of the
  frames that are complete, each once and in order, and keeps the rest, less than a frame, for the next read.
\<close>

theorem websocket_stream:
  assumes "upgraded s c" and "mBuffer c = []" and "concat bs @ tail = concat (map ws_frame_bytes fs)"
    and "\<forall>f\<in>set fs. ws_frame_ok f"
  shows "\<exists>k c'. k \<le> length fs \<and> ws_reads E bs c = Some c' \<and>
    ws_signals c' = ws_signals c @ map (\<lambda>f. MessageReceived (decodeMessage (ws_json E) (frame_body f))) (take k fs) \<and>
    concat bs = concat (map ws_frame_bytes (take k fs)) @ mBuffer c' \<and> cut ws_frame_bytes (drop k fs) (mBuffer c')"
proof -
  obtain k r where k: "k \<le> length fs"
    "feed (decodeWebSocketFrame E) bs [] = Some (r, map frame_body (take k fs))"
    "concat bs = concat (map ws_frame_bytes (take k fs)) @ r" "cut ws_frame_bytes (drop k fs) r"
    using ws.feed_stream [OF assms(3,4), of E] by blast
  then show ?thesis
    using ws_reads_feed [OF assms(1), of E bs r "map frame_body (take k fs)"] assms(2)
    by (auto simp: received_def o_def)
qed

section \<open>Frames of the server\<close>

lemma encode_frame:
  assumes "length body < 65536"
  shows "encodeWebSocketFrame body = Some (ws_frame_bytes \<lparr>frame_first = 0x81,
    frame_form = (if length body < 126 then Short else Medium), frame_key = [], frame_body = body\<rparr>)"
proof -
  have hi: "(of_int (int (length body) div 256) :: u8) = of_nat (length body div 256 mod 256)"
  proof -
    have "int (length body) div 256 = int (length body div 256)" by (simp add: zdiv_int)
    then have "(of_int (int (length body) div 256) :: u8) = of_nat (length body div 256)" by (simp only: of_int_of_nat_eq)
    moreover have "length body div 256 mod 256 = length body div 256" using assms by simp
    ultimately show ?thesis by (simp only:)
  qed
  have lo: "(of_int (int (length body)) :: u8) = of_nat (length body mod 256)"
    by (simp only: of_int_of_nat_eq word_of_nat_eq_iff) (simp add: take_bit_eq_mod)
  have le: "rev (le_bytes 2 (length body)) = [of_nat (length body div 256 mod 256), of_nat (length body mod 256)]"
    by (simp add: numeral_2_eq_2)
  show ?thesis
  proof (cases "length body < 126")
    case True
    then show ?thesis
      by (simp add: encodeWebSocketFrame_def ws_frame_bytes_def length_code_def length_field_def Let_def)
  next
    case False
    have "int_byte (int (length body)) 8 = Some (of_nat (length body div 256 mod 256))"
      "int_byte (int (length body)) 0 = Some (of_nat (length body mod 256))"
      using hi lo by (simp_all only: int_byte_def) simp_all
    then have "encodeWebSocketFrame body = Some ([0x81, 126] @ rev (le_bytes 2 (length body)) @ body)"
      unfolding le using False assms by (simp add: encodeWebSocketFrame_def Let_def)
    then show ?thesis
      using False by (simp add: ws_frame_bytes_def length_code_def length_field_def del: le_bytes.simps)
  qed
qed

lemma encode_ok:
  "length body < 65536 \<Longrightarrow> ws_frame_ok \<lparr>frame_first = 0x81,
    frame_form = (if length body < 126 then Short else Medium), frame_key = [], frame_body = body\<rparr>"
  by (simp add: ws_frame_ok_def)

lemma large_frame_undefined: "65536 \<le> length body \<Longrightarrow> encodeWebSocketFrame body = None"
  by (simp add: encodeWebSocketFrame_def int_byte_def Let_def upt_rec)

text \<open>
  C18: A signalling message of less than 64 KiB that one end of an upgraded connection sends is received by the other end as
  the fields of its type, with the version of the protocol, whatever is in the fields that its type does not use.
\<close>

theorem signaling_message_arrives:
  assumes "upgraded s c" and "is_open s" and "upgraded s' c'" and "mBuffer c' = []"
    and "msg_type msg \<noteq> UNKNOWN" and "int32_range (sdpMLineIndex msg)" and "int32_range (msg_udpPort msg)"
    and "json_reads (ws_json E) msg" and "length (encodeMessage (ws_json E) msg) < 65536"
  shows "\<exists>b c1 c2. sendMessage (encodeMessage (ws_json E) msg) c = Some c1 \<and>
    mSocket c1 = Some (s\<lparr>sent := sent s @ b\<rparr>) \<and> ws_reads E [b] c' = Some c2 \<and> mBuffer c2 = [] \<and>
    ws_signals c2 = ws_signals c' @ [MessageReceived (wire_message msg)]"
proof -
  let ?body = "encodeMessage (ws_json E) msg"
  let ?f = "\<lparr>frame_first = 0x81, frame_form = (if length ?body < 126 then Short else Medium), frame_key = [], frame_body = ?body\<rparr>"
  have "feed (decodeWebSocketFrame E) [ws_frame_bytes ?f] [] = Some ([], map frame_body [?f])"
    by (rule ws.feed_all) (use encode_ok [OF assms(9)] in simp_all)
  from ws_reads_feed [OF assms(3), of E "[ws_frame_bytes ?f]"] this assms(4) obtain c2 where
    "ws_reads E [ws_frame_bytes ?f] c' = Some c2" "mBuffer c2 = []" "ws_signals c2 = ws_signals c' @ [received E ?body]"
    by auto
  moreover have "received E ?body = MessageReceived (wire_message msg)"
    using decode_encoded [OF assms(5-8)] by (simp add: received_def)
  moreover have "sendMessage ?body c = Some (ws_write (ws_frame_bytes ?f) c)"
    using assms(1,2) encode_frame [OF assms(9)] by (simp add: sendMessage_def upgraded_def ws_isOpen_def)
  ultimately show ?thesis using assms(1) by (auto simp: ws_write_def upgraded_def)
qed

section \<open>A hostile length\<close>

lemma sint_high:
  assumes "2147483648 \<le> uint (w :: u32)"
  shows "sint w = uint w - 4294967296"
proof -
  have "uint w < 4294967296" using uint_lt2p [of w] by simp
  then have "int32_range (uint w - 4294967296)" using assms by (simp add: int32_range_def)
  moreover have "(of_int (uint w - 4294967296) :: u32) = w" by simp
  ultimately show ?thesis using sint_of_int_u32 [of "uint w - 4294967296"] by metis
qed

lemma hostile_frame:
  assumes "b = x # (if key = [] then 127 else 255) # field @ key @ rest" and "length field = 8" and "length key \<in> {0, 4}"
    and "x AND 0x0F \<noteq> 0x08" and "2147483648 \<le> of_le_bytes (rev field) mod 4294967296"
    and "of_le_bytes (rev field) mod 4294967296 < 4294967286 - length key"
    and n: "n = int (of_le_bytes (rev field) mod 4294967296) - 4294967296"
  shows "decodeWebSocketFrame E b = Some (True, remove_negative E b (int (10 + length key) + n),
    unmask key (mid_negative E b (10 + length key) n))"
proof -
  let ?len = "foldl (\<lambda>len b. push_bit 8 len OR ucast b) (0 :: u64) field"
  have "unat ?len = of_le_bytes (rev field)" using length_loop [of 0 field] assms(2) by simp
  then have "uint ?len = int (of_le_bytes (rev field))" by (metis of_nat_unat)
  then have u: "uint (ucast ?len :: u32) = int (of_le_bytes (rev field) mod 4294967296)"
    by (simp add: unsigned_ucast_eq take_bit_eq_mod zmod_int)
  have sint: "sint (ucast ?len :: u32) = n" using sint_high [of "ucast ?len"] u assms(5) n by simp
  have neg: "int (10 + length key) + n < 0" "int32_range (int (10 + length key) + n)" "n < 0" "n \<noteq> - 1"
    using assms(3,5,6) n by (auto simp: int32_range_def)
  have len: "payload_length b = Some (10, ?len)"
    using assms(1,2) by (simp add: payload_length_def Let_def)
  have key: "masking_key b 10 = Some (10 + length key, key)"
    using assms(1-3) by (auto simp: masking_key_def)
  have first: "b ! 0 = x" "\<not> length b < 2" using assms(1) by simp_all
  have "\<not> int (length b) < int (10 + length key) + n" using neg(1) by linarith
  moreover have "byte_remove E b (int (10 + length key) + n) = remove_negative E b (int (10 + length key) + n)"
    using neg(1) by (simp only: byte_remove_def if_True)
  moreover have "byte_mid E b (10 + length key) n = mid_negative E b (10 + length key) n"
    using neg(3,4) by (simp only: byte_mid_def if_False if_True)
  ultimately show ?thesis using first assms(4) neg(2)
    by (simp only: decodeWebSocketFrame_def len key if_False option.case prod.case Let_def sint checked_int_Some
        bind.bind_lunit simp_thms)
qed

text \<open>What the loop has delivered stays delivered.\<close>

lemma drain_grows:
  assumes "drain decode buf msgs = Some r"
  shows "\<exists>l. snd r = msgs @ l"
  by (rule drain.raw_induct [OF _ assms]) (fastforce split: Option.bind_splits if_splits prod.splits)

text \<open>When \<open>remove\<close> does nothing for a negative length, the loop finds the same frame for ever.\<close>

lemma hostile_frame_kept:
  assumes "decodeWebSocketFrame E b = Some (True, remove_negative E b n, p)" and "remove_negative E b n = b"
    and "upgraded s c" and "mBuffer c = []"
  shows "onReadyRead E (ws_arrive b c) = None"
proof -
  have "drain (decodeWebSocketFrame E) b [] = None" using assms(1,2) by (intro drain_stuck [of _ b p]) simp
  then show ?thesis using assms(3,4) by (simp add: onReadyRead_def ws_arrive_def upgraded_def)
qed


section \<open>Witnesses\<close>

definition sample_env :: ws_env where
  "sample_env = \<lparr>ws_qt = \<lparr>sha512 = id, toUtf8 = map ucast, fromUtf8 = map ucast, timeFromString = \<lambda>_. None\<rparr>, ws_json = \<lparr>toJson = \<lambda>_. [123, 125], fromJson = \<lambda>_. case message_json
       (empty_message\<lparr>msg_type := HANGUP\<rparr>) of Some j \<Rightarrow> JObject j | None \<Rightarrow> ParseError\<rparr>,
     query_name = \<lambda>_. None, sha1 = id, toBase64 = \<lambda>_. [], mid_negative = \<lambda>_ _ _. [], remove_negative = \<lambda>b _. b\<rparr>"

definition sample_ws :: "ws_socket \<Rightarrow> WebSocketConnection" where
  "sample_ws s = \<lparr>mSocket = Some s, mBuffer = [], mUpgradeComplete = True, ws_clientName = [], ws_signals = []\<rparr>"

definition open_socket :: ws_socket where "open_socket = \<lparr>unread = [], sent = [], is_open = True\<rparr>"

lemma sample_upgraded: "upgraded open_socket (sample_ws open_socket)" "mBuffer (sample_ws s) = []"
  by (simp_all add: upgraded_def sample_ws_def open_socket_def)

definition sample_message :: SignalingMessage where
  "sample_message = empty_message\<lparr>msg_type := HANGUP, sdp := qs ''x''\<rparr>"

lemma sample_reads: "json_reads (ws_json sample_env) sample_message"
  by (simp add: json_reads_def sample_env_def sample_message_def message_json_def empty_message_def Let_def)

lemma sample_encoded: "encodeMessage (ws_json sample_env) sample_message = [123, 125]"
  by (simp add: encodeMessage_def sample_env_def sample_message_def message_json_def Let_def)

definition masked_frame :: ws_frame where
  "masked_frame = \<lparr>frame_first = 0x81, frame_form = Short, frame_key = [1, 2, 3, 4], frame_body = [123, 125]\<rparr>"

lemma masked_frame_bytes: "ws_frame_bytes masked_frame = [0x81, 130, 1, 2, 3, 4, 122, 127]"
  by (simp add: ws_frame_bytes_def masked_frame_def length_code_def length_field_def upt_rec)

theorem websocket_stream_witness:
  "\<exists>k c'. k \<le> length [masked_frame, masked_frame] \<and>
    ws_reads sample_env [[0x81], [130, 1, 2, 3, 4, 122, 127, 0x81]] (sample_ws open_socket) = Some c' \<and>
    ws_signals c' = ws_signals (sample_ws open_socket) @
      map (\<lambda>f. MessageReceived (decodeMessage (ws_json sample_env) (frame_body f))) (take k [masked_frame, masked_frame]) \<and>
    concat [[0x81], [130, 1, 2, 3, 4, 122, 127, 0x81]] =
      concat (map ws_frame_bytes (take k [masked_frame, masked_frame])) @ mBuffer c' \<and>
    cut ws_frame_bytes (drop k [masked_frame, masked_frame]) (mBuffer c')"
  by (rule websocket_stream [OF sample_upgraded, where tail = "[130, 1, 2, 3, 4, 122, 127]"])
    (simp_all add: masked_frame_bytes, simp add: ws_frame_ok_def masked_frame_def)

theorem signaling_message_arrives_witness:
  "\<exists>b c1 c2. sendMessage (encodeMessage (ws_json sample_env) sample_message) (sample_ws open_socket) = Some c1 \<and>
    mSocket c1 = Some (open_socket\<lparr>sent := sent open_socket @ b\<rparr>) \<and>
    ws_reads sample_env [b] (sample_ws open_socket) = Some c2 \<and> mBuffer c2 = [] \<and>
    ws_signals c2 = ws_signals (sample_ws open_socket) @ [MessageReceived (wire_message sample_message)]"
  by (rule signaling_message_arrives [OF sample_upgraded(1) _ sample_upgraded _ _ _ sample_reads])
    (simp_all add: sample_encoded, simp_all add: sample_message_def empty_message_def int32_range_def open_socket_def)


end
