(* ===== verification/AudioSocket.thy ===== *)
theory AudioSocket
  imports WaitFree Sample
begin

text \<open>
  The exchange of audio with another process over a local socket (\<open>src/AudioSocket.cpp\<close>): the plugin
  that puts the samples of a callback into a queue, the worker that moves them between the queues and the socket, the
  plugin that mixes what was received into a callback, and the header that introduces the stream.  The
  build without libsamplerate is modelled.  A buffer of samples is the list of its channels.
\<close>

section \<open>State\<close>

definition AudioSocketNumChannels :: nat where "AudioSocketNumChannels = 2"
definition AudioSocketMaxSamplesPerBlock :: nat where "AudioSocketMaxSamplesPerBlock = 8192"
definition AudioSocketMaxQueueSize :: nat where "AudioSocketMaxQueueSize = 1024"
definition AudioSocketHeaderSize :: nat where "AudioSocketHeaderSize = 6"
definition BytesPerSample :: nat where "BytesPerSample = 4"
definition BytesForFullSample :: nat where "BytesForFullSample = BytesPerSample * AudioSocketNumChannels"

text \<open>The size of the buffers of the plugins and the worker, and of a frame of the queues.\<close>

definition block_bytes :: nat where
  "block_bytes = AudioSocketMaxSamplesPerBlock * BytesForFullSample + BytesPerSample"

type_synonym channels = "sample_t list list"

record ProcessPlugin =
  pl_sampleRate :: int
  pl_bufferSize :: int
  pl_inited :: bool
  pl_outgoing :: bool

record ToAudioSocketPlugin = ProcessPlugin +
  to_buffer :: bytes
  to_channels :: int

record FromAudioSocketPlugin = ProcessPlugin +
  from_buffer :: bytes
  mExtraSamples :: channels
  from_channels :: int
  mNextExtraSample :: nat
  mLastExtraSample :: nat
  mMinQueuePackets :: int
  mMaxQueuePackets :: int
  mQueueCheckSec :: int
  mNextQueueCheck :: u32
  mPassthrough :: bool

record local_socket =
  sock_in :: bytes
  sock_out :: bytes
  sock_connected :: bool

record AudioSocketWorker =
  mSocketPtr :: "local_socket option"
  wk_sendBuffer :: bytes
  wk_recvBuffer :: bytes
  wk_popBuffer :: bytes
  mRetryConnection :: bool
  mStopRequested :: bool
  mIsEstablished :: bool
  mLocalSampleRate :: int
  mRemoteSampleRate :: int
  mLocalBufferSize :: int

record AudioSocket =
  mSendQueue :: WaitFreeFrameBuffer
  mReceiveQueue :: WaitFreeFrameBuffer
  toPlugin :: ToAudioSocketPlugin
  fromPlugin :: FromAudioSocketPlugin
  worker :: AudioSocketWorker

section \<open>Floats in byte buffers\<close>

definition float_of_int :: "int \<Rightarrow> sample_t" where
  "float_of_int n = float_bits (float_round (of_int n))"

text \<open>Conversion to \<open>int\<close>, and the product with an \<open>int\<close>.\<close>

definition float_to_int :: "sample_t \<Rightarrow> int option" where
  "float_to_int w = (case float_val w of Fin x \<Rightarrow> dbl_to_int x | _ \<Rightarrow> None)"

definition float_times_int :: "sample_t \<Rightarrow> int \<Rightarrow> int option" where
  "float_times_int w n =
     (case float_val w of
        Fin x \<Rightarrow> dbl_to_int (float_round (x * float_round (of_int n)))
      | _ \<Rightarrow> None)"

definition float_bytes :: "sample_t \<Rightarrow> bytes" where
  "float_bytes w = le_bytes 4 (unat w)"

definition put_float :: "nat \<Rightarrow> sample_t \<Rightarrow> bytes \<Rightarrow> bytes option" where
  "put_float k w buf = mem_write buf (4 * k) (float_bytes w)"

definition get_float :: "bytes \<Rightarrow> nat \<Rightarrow> sample_t option" where
  "get_float buf k = do { bs \<leftarrow> mem_read buf (4 * k) 4; Some (of_nat (of_le_bytes bs)) }"

section \<open>Construction\<close>

definition plugin_init :: "int \<Rightarrow> int \<Rightarrow> ('a) ProcessPlugin_scheme \<Rightarrow> 'a ProcessPlugin_scheme" where
  "plugin_init samplingRate bufferSize p =
     p\<lparr>pl_sampleRate := (if samplingRate \<le> 0 then 48000 else samplingRate),
       pl_bufferSize := (if bufferSize \<le> 0 then 128 else bufferSize)\<rparr>"

definition socket_plugin_init :: "int \<Rightarrow> int \<Rightarrow> ('a) ProcessPlugin_scheme \<Rightarrow> 'a ProcessPlugin_scheme" where
  "socket_plugin_init samplingRate bufferSize p =
     (plugin_init samplingRate (if bufferSize < 8 then 8 else bufferSize) p)\<lparr>pl_inited := True\<rparr>"

definition updateNumChannels :: "('a ProcessPlugin_scheme) \<Rightarrow> int \<Rightarrow> int \<Rightarrow> int" where
  "updateNumChannels p nChansIn nChansOut = (if pl_outgoing p then nChansIn else nChansOut)"

definition to_updateNumChannels :: "int \<Rightarrow> int \<Rightarrow> ToAudioSocketPlugin \<Rightarrow> ToAudioSocketPlugin" where
  "to_updateNumChannels nChansIn nChansOut p = p\<lparr>to_channels := updateNumChannels p nChansIn nChansOut\<rparr>"

definition from_updateNumChannels :: "int \<Rightarrow> int \<Rightarrow> FromAudioSocketPlugin \<Rightarrow> FromAudioSocketPlugin" where
  "from_updateNumChannels nChansIn nChansOut p = p\<lparr>from_channels := updateNumChannels p nChansIn nChansOut\<rparr>"

text \<open>What \<open>new\<close> and the default constructors leave uninitialised are the first arguments.\<close>

definition AudioSocket_new :: "int \<Rightarrow> int \<Rightarrow> channels \<Rightarrow> (nat \<Rightarrow> nat \<Rightarrow> u8) \<Rightarrow> local_socket option \<Rightarrow> bool \<Rightarrow> AudioSocket" where
  "AudioSocket_new garbage_rate garbage_size garbage_extra garbage s retryConnection =
     \<lparr>mSendQueue = WaitFreeFrameBuffer_new AudioSocketMaxQueueSize garbage block_bytes,
       mReceiveQueue = WaitFreeFrameBuffer_new AudioSocketMaxQueueSize garbage block_bytes,
       toPlugin = \<lparr>pl_sampleRate = garbage_rate, pl_bufferSize = garbage_size, pl_inited = False, pl_outgoing = False,
         to_buffer = replicate block_bytes 0, to_channels = int AudioSocketNumChannels\<rparr>,
       fromPlugin = \<lparr>pl_sampleRate = garbage_rate, pl_bufferSize = garbage_size, pl_inited = False, pl_outgoing = False,
         from_buffer = replicate block_bytes 0, mExtraSamples = garbage_extra, from_channels = int AudioSocketNumChannels,
         mNextExtraSample = 0, mLastExtraSample = 0, mMinQueuePackets = 0, mMaxQueuePackets = 0, mQueueCheckSec = 0,
         mNextQueueCheck = 0, mPassthrough = False\<rparr>,
       worker = \<lparr>mSocketPtr = s, wk_sendBuffer = replicate block_bytes 0, wk_recvBuffer = replicate block_bytes 0,
         wk_popBuffer = replicate block_bytes 0, mRetryConnection = retryConnection, mStopRequested = False,
         mIsEstablished = False, mLocalSampleRate = 0, mRemoteSampleRate = 0, mLocalBufferSize = 0\<rparr>\<rparr>"

definition isInitialized :: "AudioSocketWorker \<Rightarrow> bool" where
  "isInitialized w \<longleftrightarrow> mLocalSampleRate w \<noteq> 0 \<and> mLocalBufferSize w \<noteq> 0"

definition isConnected :: "AudioSocketWorker \<Rightarrow> bool" where
  "isConnected w = (case mSocketPtr w of None \<Rightarrow> False | Some s \<Rightarrow> sock_connected s)"

section \<open>The plugin that sends\<close>

definition interleave_samples :: "channels \<Rightarrow> int \<Rightarrow> nat \<Rightarrow> bytes \<Rightarrow> bytes option" where
  "interleave_samples inputs chans nframes buf =
     iter_opt (\<lambda>k. iter_opt (\<lambda>i buf. do {
         x \<leftarrow> get_sample inputs (if int i < chans then i else 0) k;
         put_float (1 + k * AudioSocketNumChannels + i) x buf
       }) [0..<AudioSocketNumChannels]) [0..<nframes] buf"

definition to_compute :: "nat \<Rightarrow> channels \<Rightarrow> AudioSocket \<Rightarrow> AudioSocket option" where
  "to_compute nframes inputs s =
     (let p = toPlugin s;
          p = (if pl_inited p then p else socket_plugin_init 0 0 p);
          s = s\<lparr>toPlugin := p\<rparr>;
          w = worker s
      in if \<not> isInitialized w
         then Some (s\<lparr>worker := w\<lparr>mLocalSampleRate := pl_sampleRate p, mLocalBufferSize := pl_bufferSize p\<rparr>\<rparr>)
         else if \<not> mIsEstablished w then Some s
         else do {
           let n = min nframes AudioSocketMaxSamplesPerBlock;
           buf \<leftarrow> put_float 0 (float_of_int (int n)) (to_buffer p);
           buf \<leftarrow> interleave_samples inputs (to_channels p) n buf;
           (_, q) \<leftarrow> frame_push buf (mSendQueue s);
           Some (s\<lparr>toPlugin := p\<lparr>to_buffer := buf\<rparr>, mSendQueue := q\<rparr>)
         })"

section \<open>The plugin that receives\<close>

definition resetQueueStats :: "FromAudioSocketPlugin \<Rightarrow> FromAudioSocketPlugin option" where
  "resetQueueStats p = do {
     n \<leftarrow> checked_int (pl_sampleRate p * mQueueCheckSec p);
     let p = p\<lparr>mMinQueuePackets := int AudioSocketMaxQueueSize, mMaxQueuePackets := 0, mNextQueueCheck := of_int n\<rparr>;
     if mQueueCheckSec p < 512 then do { t \<leftarrow> checked_int (mQueueCheckSec p * 2); Some (p\<lparr>mQueueCheckSec := t\<rparr>) }
     else Some p
   }"

definition from_handleConnectionEstablished :: "FromAudioSocketPlugin \<Rightarrow> FromAudioSocketPlugin option" where
  "from_handleConnectionEstablished p =
     resetQueueStats (p\<lparr>mNextExtraSample := 0, mLastExtraSample := 0, mQueueCheckSec := 2\<rparr>)"

text \<open>The packets that waited throughout the interval are dropped.\<close>

definition drop_packets :: "nat \<Rightarrow> bytes \<Rightarrow> WaitFreeFrameBuffer \<Rightarrow> (bytes \<times> WaitFreeFrameBuffer) option" where
  "drop_packets n buf q =
     iter_opt (\<lambda>_ (buf, q). do { (_, buf, q) \<leftarrow> frame_pop buf q; Some (buf, q) }) [0..<n] (buf, q)"

definition updateQueueStats :: "nat \<Rightarrow> WaitFreeFrameBuffer \<Rightarrow> FromAudioSocketPlugin \<Rightarrow>
    (WaitFreeFrameBuffer \<times> FromAudioSocketPlugin) option" where
  "updateQueueStats nframes q p =
     (let remainingPackets = int (ring_size q);
          p = p\<lparr>mMinQueuePackets := min (mMinQueuePackets p) remainingPackets,
            mMaxQueuePackets := max (mMaxQueuePackets p) remainingPackets\<rparr>
      in if of_nat nframes < mNextQueueCheck p
         then Some (q, p\<lparr>mNextQueueCheck := mNextQueueCheck p - of_nat nframes\<rparr>)
         else do {
           (buf, q) \<leftarrow> drop_packets (nat (mMinQueuePackets p)) (from_buffer p) q;
           p \<leftarrow> resetQueueStats (p\<lparr>from_buffer := buf, mMinQueuePackets := min 0 (mMinQueuePackets p)\<rparr>);
           Some (q, p)
         })"

definition ring_next :: "nat \<Rightarrow> nat" where
  "ring_next k = (if AudioSocketMaxSamplesPerBlock \<le> k + 1 then 0 else k + 1)"

definition add_sample :: "nat \<Rightarrow> nat \<Rightarrow> sample_t \<Rightarrow> channels \<Rightarrow> channels option" where
  "add_sample chan j x outputs = do { y \<leftarrow> get_sample outputs chan j; put_sample outputs chan j (float_add y x) }"

definition add_extra :: "int \<Rightarrow> channels \<Rightarrow> nat \<Rightarrow> nat \<Rightarrow> channels \<Rightarrow> channels option" where
  "add_extra chans extra k j =
     iter_opt (\<lambda>i outputs. do {
         x \<leftarrow> get_sample extra i k;
         add_sample (if int i < chans then i else 0) j x outputs
       }) [0..<AudioSocketNumChannels]"

text \<open>The inner loop: the samples left over from a packet.\<close>

function use_extras :: "nat \<Rightarrow> nat \<Rightarrow> channels \<Rightarrow> FromAudioSocketPlugin \<Rightarrow>
    (nat \<times> channels \<times> FromAudioSocketPlugin) option" where
  "use_extras nframes j outputs p =
     (if mNextExtraSample p \<noteq> mLastExtraSample p \<and> j < nframes
      then do {
        outputs \<leftarrow> add_extra (from_channels p) (mExtraSamples p) (mNextExtraSample p) j outputs;
        use_extras nframes (j + 1) outputs (p\<lparr>mNextExtraSample := ring_next (mNextExtraSample p)\<rparr>)
      }
      else Some (j, outputs, p))"
  by pat_completeness auto

termination by (relation "measure (\<lambda>(nframes, j, _). nframes - j)") auto

declare use_extras.simps [simp del]

text \<open>The samples of a packet become left over.\<close>

definition take_packet :: "FromAudioSocketPlugin \<Rightarrow> FromAudioSocketPlugin option" where
  "take_packet p = do {
     first \<leftarrow> get_float (from_buffer p) 0;
     newSamples \<leftarrow> float_to_int first;
     iter_opt (\<lambda>j p. do {
         extra \<leftarrow> iter_opt (\<lambda>i extra. do {
             x \<leftarrow> get_float (from_buffer p) (1 + j * AudioSocketNumChannels + i);
             put_sample extra i (mLastExtraSample p) x
           }) [0..<AudioSocketNumChannels] (mExtraSamples p);
         Some (p\<lparr>mExtraSamples := extra, mLastExtraSample := ring_next (mLastExtraSample p)\<rparr>)
       }) [0..<nat newSamples] p
   }"

text \<open>The outer loop.\<close>

partial_function (option) mix_received :: "nat \<Rightarrow> nat \<Rightarrow> channels \<Rightarrow> WaitFreeFrameBuffer \<Rightarrow> FromAudioSocketPlugin \<Rightarrow>
    (channels \<times> WaitFreeFrameBuffer \<times> FromAudioSocketPlugin) option" where
  "mix_received nframes j outputs q p = do {
     (j, outputs, p) \<leftarrow> use_extras nframes j outputs p;
     if nframes \<le> j then Some (outputs, q, p)
     else do {
       (got, buf, q) \<leftarrow> frame_pop (from_buffer p) q;
       if \<not> got then Some (outputs, q, p\<lparr>from_buffer := buf\<rparr>)
       else do {
         p \<leftarrow> take_packet (p\<lparr>from_buffer := buf\<rparr>);
         mix_received nframes j outputs q p
       }
     }
   }"

text \<open>The copy of the inputs, or silence; the samples behind \<open>nframes\<close> stay.\<close>

definition copy_inputs :: "nat \<Rightarrow> channels \<Rightarrow> FromAudioSocketPlugin \<Rightarrow> channels \<Rightarrow> channels option" where
  "copy_inputs nframes inputs p outputs =
     iter_opt (\<lambda>i outputs.
         if i < length outputs
         then do {
           src \<leftarrow> (if mPassthrough p
             then if i < length inputs then mem_read (inputs ! i) 0 nframes else None
             else Some (replicate nframes 0));
           out \<leftarrow> mem_write (outputs ! i) 0 src;
           Some (outputs[i := out])
         }
         else None) [0..<nat (from_channels p)] outputs"

definition from_compute :: "nat \<Rightarrow> channels \<Rightarrow> channels \<Rightarrow> AudioSocket \<Rightarrow> (channels \<times> AudioSocket) option" where
  "from_compute nframes inputs outputs s =
     (let p = fromPlugin s;
          p = (if pl_inited p then p else socket_plugin_init 0 0 p)
      in do {
        outputs \<leftarrow> copy_inputs nframes inputs p outputs;
        if \<not> mIsEstablished (worker s) then Some (outputs, s\<lparr>fromPlugin := p\<rparr>)
        else do {
          (outputs, q, p) \<leftarrow> mix_received nframes 0 outputs (mReceiveQueue s) p;
          (q, p) \<leftarrow> updateQueueStats nframes q p;
          Some (outputs, s\<lparr>fromPlugin := p, mReceiveQueue := q\<rparr>)
        }
      })"

definition AudioSocket_compute :: "nat \<Rightarrow> channels \<Rightarrow> channels \<Rightarrow> AudioSocket \<Rightarrow> (channels \<times> AudioSocket) option" where
  "AudioSocket_compute nframes inputs outputs s = do {
     s \<leftarrow> to_compute nframes inputs s;
     from_compute nframes inputs outputs s
   }"

definition AudioSocket_connect :: "int \<Rightarrow> int \<Rightarrow> AudioSocket \<Rightarrow> AudioSocket" where
  "AudioSocket_connect samplingRate bufferSize s =
     (if pl_inited (toPlugin s) then s
      else s\<lparr>toPlugin := socket_plugin_init samplingRate bufferSize (toPlugin s),
        fromPlugin := socket_plugin_init samplingRate bufferSize (fromPlugin s)\<rparr>)"

section \<open>The worker\<close>

text \<open>What the local socket does: whether it connects, what arrives while it waits, and whether it reports bytes as written.\<close>

record socket_env =
  server_found :: bool
  bytes_written :: bool
  arrived :: "bytes option"

definition socket_write :: "bytes \<Rightarrow> AudioSocketWorker \<Rightarrow> AudioSocketWorker" where
  "socket_write b w = w\<lparr>mSocketPtr := map_option (\<lambda>s. s\<lparr>sock_out := sock_out s @ b\<rparr>) (mSocketPtr w)\<rparr>"

definition worker_close :: "AudioSocketWorker \<Rightarrow> AudioSocketWorker" where
  "worker_close w = w\<lparr>mIsEstablished := False,
     mSocketPtr := map_option (\<lambda>s. s\<lparr>sock_connected := False\<rparr>) (mSocketPtr w)\<rparr>"

definition sendAudioHeader :: "socket_env \<Rightarrow> AudioSocketWorker \<Rightarrow> bool \<times> AudioSocketWorker" where
  "sendAudioHeader E w =
     (bytes_written E, socket_write (le_bytes_int 4 (mLocalSampleRate w) @ le_bytes_int 2 (mLocalBufferSize w)) w)"

definition readAudioHeader :: "socket_env \<Rightarrow> AudioSocketWorker \<Rightarrow> bool \<times> AudioSocketWorker" where
  "readAudioHeader E w =
     (case (arrived E, mSocketPtr w) of
        (Some b, Some s) \<Rightarrow>
          (let unread = sock_in s @ b;
               header = take AudioSocketHeaderSize (unread @ replicate AudioSocketHeaderSize 0);
               headSampleRate = int (of_le_bytes (take 4 header));
               headBufferSize = of_le_bytes (drop 4 header);
               w = w\<lparr>mSocketPtr := Some (s\<lparr>sock_in := drop AudioSocketHeaderSize unread\<rparr>)\<rparr>
           in if headSampleRate \<notin> {44100, 48000, 96000} then (False, w)
              else if headBufferSize < 2 then (False, w)
              else (headSampleRate = mLocalSampleRate w, w\<lparr>mRemoteSampleRate := headSampleRate\<rparr>))
      | _ \<Rightarrow> (False, w))"

definition client_header :: bytes where
  "client_header = map of_char (''JackTrip/1.0 audio'' @ [CHR 0x0A])"

text \<open>The socket as \<open>SocketClient\<close> connects it and introduces the connection.\<close>

definition client_connect :: "socket_env \<Rightarrow> AudioSocketWorker \<Rightarrow> bool \<times> AudioSocketWorker" where
  "client_connect E w =
     (let s = (case mSocketPtr w of None \<Rightarrow> \<lparr>sock_in = [], sock_out = [], sock_connected = False\<rparr> | Some s \<Rightarrow> s);
          w = w\<lparr>mSocketPtr := Some s\<rparr>
      in if sock_connected s then (True, w)
         else if \<not> server_found E then (False, w)
         else (True, socket_write client_header
           (w\<lparr>mSocketPtr := Some \<lparr>sock_in = [], sock_out = [], sock_connected = True\<rparr>\<rparr>)))"

definition worker_connect :: "socket_env \<Rightarrow> AudioSocket \<Rightarrow> (bool \<times> AudioSocket) option" where
  "worker_connect E s =
     (let (ok, w) = client_connect E (worker s)
      in if \<not> ok then Some (False, s\<lparr>worker := w\<rparr>)
         else let (ok, w) = sendAudioHeader E w; (ok, w) = (if ok then readAudioHeader E w else (False, w))
           in if \<not> ok then Some (False, s\<lparr>worker := worker_close w\<rparr>)
              else do {
                p \<leftarrow> from_handleConnectionEstablished (fromPlugin s);
                Some (True, s\<lparr>worker := w\<lparr>mIsEstablished := True\<rparr>, fromPlugin := p\<rparr>)
              })"

partial_function (option) send_queue :: "WaitFreeFrameBuffer \<Rightarrow> AudioSocketWorker \<Rightarrow>
    (WaitFreeFrameBuffer \<times> AudioSocketWorker) option" where
  "send_queue q w = do {
     (got, buf, q) \<leftarrow> frame_pop (wk_popBuffer w) q;
     let w = w\<lparr>wk_popBuffer := buf\<rparr>;
     if \<not> got then Some (q, w)
     else do {
       first \<leftarrow> get_float buf 0;
       bytesToSend \<leftarrow> float_times_int first (int BytesForFullSample);
       n \<leftarrow> byte_count bytesToSend;
       data \<leftarrow> mem_read buf BytesPerSample n;
       send_queue q (socket_write data (w\<lparr>wk_sendBuffer := data\<rparr>))
     }
   }"

definition sendAudio :: "socket_env \<Rightarrow> AudioSocket \<Rightarrow> (bool \<times> AudioSocket) option" where
  "sendAudio E s =
     (if mStopRequested (worker s) \<or> \<not> isConnected (worker s) then Some (False, s)
      else if ring_empty (mSendQueue s) then Some (True, s)
      else do {
        (q, w) \<leftarrow> send_queue (mSendQueue s) (worker s);
        Some (bytes_written E, s\<lparr>mSendQueue := q, worker := w\<rparr>)
      })"

text \<open>How much is read at once; a buffer without room for a sample would make no progress.\<close>

definition bytes_to_read :: "nat \<Rightarrow> nat \<Rightarrow> nat" where
  "bytes_to_read available room = (let n = min available (room - BytesPerSample) in n - n mod BytesForFullSample)"

function receive_loop :: "bytes \<Rightarrow> bytes \<Rightarrow> WaitFreeFrameBuffer \<Rightarrow> (bytes \<times> bytes \<times> WaitFreeFrameBuffer) option" where
  "receive_loop unread buf q =
     (let n = bytes_to_read (length unread) (length buf)
      in if length unread \<le> BytesForFullSample then Some (unread, buf, q)
         else if n = 0 then None
         else do {
           buf \<leftarrow> mem_write buf BytesPerSample (take n unread);
           buf \<leftarrow> put_float 0 (float_of_int (int (n div BytesForFullSample))) buf;
           (_, q) \<leftarrow> frame_push buf q;
           receive_loop (drop n unread) buf q
         })"
  by pat_completeness auto

termination by (relation "measure (\<lambda>(unread, _). length unread)") auto

declare receive_loop.simps [simp del]

definition receiveAudio :: "AudioSocket \<Rightarrow> (bool \<times> AudioSocket) option" where
  "receiveAudio s =
     (case mSocketPtr (worker s) of
        None \<Rightarrow> Some (True, s)
      | Some c \<Rightarrow>
          if mStopRequested (worker s) \<or> \<not> sock_connected c then Some (True, s)
          else do {
            (unread, buf, q) \<leftarrow> receive_loop (sock_in c) (wk_recvBuffer (worker s)) (mReceiveQueue s);
            Some (True, s\<lparr>mReceiveQueue := q,
              worker := (worker s)\<lparr>wk_recvBuffer := buf, mSocketPtr := Some (c\<lparr>sock_in := unread\<rparr>)\<rparr>\<rparr>)
          })"

text \<open>A turn of the loop of \<open>run\<close>, and whether the loop goes on.\<close>

definition transfer :: "socket_env \<Rightarrow> AudioSocket \<Rightarrow> (bool \<times> AudioSocket) option" where
  "transfer E s = do {
     (ok, s) \<leftarrow> sendAudio E s;
     (ok, s) \<leftarrow> (if ok then receiveAudio s else Some (False, s));
     if ok then Some (True, s)
     else if mStopRequested (worker s) \<or> \<not> mRetryConnection (worker s) then Some (False, s)
     else Some (True, s\<lparr>worker := worker_close (worker s)\<rparr>)
   }"

definition worker_turn :: "socket_env \<Rightarrow> AudioSocket \<Rightarrow> (bool \<times> AudioSocket) option" where
  "worker_turn E s =
     (if mStopRequested (worker s) then Some (False, s)
      else if \<not> isInitialized (worker s) then Some (True, s)
      else if mIsEstablished (worker s) then transfer E s
      else do {
        (ok, s) \<leftarrow> worker_connect E s;
        if ok then transfer E s
        else Some (\<not> mStopRequested (worker s) \<and> mRetryConnection (worker s), s)
      })"

text \<open>The thread, as long as there are turns.\<close>

fun worker_run :: "socket_env list \<Rightarrow> AudioSocket \<Rightarrow> AudioSocket option" where
  "worker_run [] s = Some s"
| "worker_run (E # Es) s = do {
     (go, s) \<leftarrow> worker_turn E s;
     if go then worker_run Es s else Some (s\<lparr>worker := worker_close (worker s)\<rparr>)
   }"

end
