(* ===== verification/AudioSocketSpec.thy ===== *)
theory AudioSocketSpec
  imports AudioSocket "HOL-Library.Sublist"
begin

text \<open>
  The operations of the audio socket on samples: the packets in the queues, the samples left over from a packet, what a callback
  mixes in, what it sends, and what the worker moves between the queues and the socket.
\<close>

section \<open>Floats and packets\<close>

lemma socket_sizes:
  "BytesPerSample = 4" "AudioSocketNumChannels = 2" "BytesForFullSample = 8" "AudioSocketMaxSamplesPerBlock = 8192"
  "block_bytes = 65540" "AudioSocketMaxQueueSize = 1024" "AudioSocketHeaderSize = 6"
  by (simp_all add: BytesPerSample_def AudioSocketNumChannels_def BytesForFullSample_def
      AudioSocketMaxSamplesPerBlock_def block_bytes_def AudioSocketMaxQueueSize_def AudioSocketHeaderSize_def)

lemma float_of_int_val:
  assumes "n \<le> 8192"
  shows "float_val (float_of_int (int n)) = Fin (of_nat n)"
proof -
  have rep: "fl_rep 24 (-149) (of_int (int n))" using assms by (intro small_int_rep) simp
  have "of_int (int n) \<le> (of_int 8192 :: rat)" using assms by (simp only: of_int_le_iff)
  moreover have "(8192 :: rat) < 2 powi 128" by simp
  ultimately have "\<bar>of_int (int n)\<bar> < (2 :: rat) powi 128" by simp
  from float_val_bits [OF rep this] rep show ?thesis by (simp add: float_of_int_def)
qed

lemma float_of_int_back:
  assumes "n \<le> 8192"
  shows "float_to_int (float_of_int (int n)) = Some (int n)"
    and "float_times_int (float_of_int (int n)) 8 = Some (8 * int n)"
proof -
  have trunc: "dbl_to_int (of_nat k) = Some (int k)" if "k \<le> 65536" for k
    using that by (simp add: dbl_to_int_def dbl_trunc_def int32_range_def)
  show "float_to_int (float_of_int (int n)) = Some (int n)"
    using assms trunc [of n] by (simp add: float_to_int_def float_of_int_val)
  have "fl_rep 24 (-149) (of_int 8)" "fl_rep 24 (-149) (of_int (int (8 * n)))"
    using assms by (intro small_int_rep; simp)+
  then have "float_round (of_nat n * float_round (of_int 8)) = of_nat (8 * n)"
    by (simp add: mult.commute)
  then show "float_times_int (float_of_int (int n)) 8 = Some (8 * int n)"
    using assms trunc [of "8 * n"] by (simp add: float_times_int_def float_of_int_val)
qed

lemma float_bytes_length [simp]: "length (float_bytes w) = 4"
  by (simp add: float_bytes_def)

lemma of_float_bytes: "(of_nat (of_le_bytes (float_bytes w)) :: u32) = w"
proof -
  have "unat w < 4294967296" using unsigned_less [of w] by simp
  then show ?thesis by (simp add: float_bytes_def of_le_bytes_le_bytes)
qed

lemma get_float_at:
  "length xs = 4 * k \<Longrightarrow> get_float (xs @ float_bytes w @ ys) k = Some w"
  by (simp add: get_float_def mem_read_def of_float_bytes)

lemma put_float_at:
  "length xs = 4 * k \<Longrightarrow> length old = 4 \<Longrightarrow> put_float k w (xs @ old @ ys) = Some (xs @ float_bytes w @ ys)"
  by (simp add: put_float_def mem_write_def)

type_synonym stereo = "sample_t \<times> sample_t"

definition pair_bytes :: "stereo \<Rightarrow> bytes" where
  "pair_bytes p = float_bytes (fst p) @ float_bytes (snd p)"

definition stereo_bytes :: "stereo list \<Rightarrow> bytes" where
  "stereo_bytes ps = concat (map pair_bytes ps)"

lemma pair_bytes_length [simp]: "length (pair_bytes p) = 8"
  by (simp add: pair_bytes_def)

lemma stereo_bytes_simps [simp]:
  "stereo_bytes [] = []" "stereo_bytes (p # ps) = pair_bytes p @ stereo_bytes ps"
  "stereo_bytes (ps @ qs) = stereo_bytes ps @ stereo_bytes qs"
  by (simp_all add: stereo_bytes_def)

lemma stereo_bytes_length [simp]: "length (stereo_bytes ps) = 8 * length ps"
  by (induction ps) simp_all

lemma stereo_bytes_take: "take (8 * m) (stereo_bytes ps) = stereo_bytes (take m ps)"
proof (induction ps arbitrary: m)
  case (Cons p ps)
  then show ?case by (cases m) simp_all
qed simp

lemma stereo_bytes_drop: "drop (8 * m) (stereo_bytes ps) = stereo_bytes (drop m ps)"
proof (induction ps arbitrary: m)
  case (Cons p ps)
  then show ?case by (cases m) simp_all
qed simp

lemma stereo_bytes_nth:
  assumes "j < length ps"
  shows "stereo_bytes ps = stereo_bytes (take j ps) @ float_bytes (fst (ps ! j)) @
    float_bytes (snd (ps ! j)) @ stereo_bytes (drop (Suc j) ps)"
proof -
  have "ps = take j ps @ ps ! j # drop (Suc j) ps" using assms by (rule id_take_nth_drop)
  then have "stereo_bytes ps = stereo_bytes (take j ps) @ pair_bytes (ps ! j) @ stereo_bytes (drop (Suc j) ps)"
    by (metis stereo_bytes_simps(2,3))
  then show ?thesis by (simp add: pair_bytes_def)
qed

text \<open>A packet that carries a list of samples.\<close>

definition packet :: "stereo list \<Rightarrow> bytes \<Rightarrow> bool" where
  "packet l buf \<longleftrightarrow> length buf = 65540 \<and> length l \<le> 8192 \<and>
     (\<exists>rest. buf = float_bytes (float_of_int (int (length l))) @ stereo_bytes l @ rest)"

lemma packet_count: "packet l buf \<Longrightarrow> get_float buf 0 = Some (float_of_int (int (length l)))"
  using get_float_at [of "[]" 0] by (auto simp: packet_def)

lemma packet_sample:
  assumes "packet l buf" and "j < length l"
  shows "get_float buf (Suc (j * 2)) = Some (fst (l ! j))"
    and "get_float buf (Suc (j * 2 + 1)) = Some (snd (l ! j))"
proof -
  let ?head = "float_bytes (float_of_int (int (length l))) @ stereo_bytes (take j l)"
  obtain rest where buf: "buf = ?head @ float_bytes (fst (l ! j)) @
      float_bytes (snd (l ! j)) @ stereo_bytes (drop (Suc j) l) @ rest"
    using assms stereo_bytes_nth [OF assms(2)] by (auto simp: packet_def)
  have "length ?head = 4 * Suc (j * 2)" using assms(2) by simp
  from get_float_at [OF this] show "get_float buf (Suc (j * 2)) = Some (fst (l ! j))" unfolding buf .
  have "length (?head @ float_bytes (fst (l ! j))) = 4 * Suc (j * 2 + 1)" using assms(2) by simp
  from get_float_at [OF this] show "get_float buf (Suc (j * 2 + 1)) = Some (snd (l ! j))" unfolding buf by simp
qed

lemma packet_data: "packet l buf \<Longrightarrow> mem_read buf 4 (8 * length l) = Some (stereo_bytes l)"
  by (auto simp: packet_def mem_read_def)

text \<open>Queues of packets.\<close>

definition queue_of :: "stereo list list \<Rightarrow> WaitFreeFrameBuffer \<Rightarrow> bool" where
  "queue_of ls q \<longleftrightarrow> frames_ok 1024 65540 q \<and> list_all2 packet ls (pending_items q)"

lemma queue_length: "queue_of ls q \<Longrightarrow> ring_size q = length ls"
  by (auto simp: queue_of_def pending_items_length [symmetric] dest: list_all2_lengthD)

lemma queue_bound: "queue_of ls q \<Longrightarrow> length ls < 1024"
  using queue_length [of ls q] ring_distance_less [of "mHeadPtr q" "Size q" "mTailPtr q"]
  by (simp add: queue_of_def frames_ok_def ring_ok_def ring_size_def)

lemma queue_push:
  assumes "queue_of ls q" and "packet l buf"
  shows "\<exists>n q'. frame_push buf q = Some (n, q') \<and> queue_of (if length ls < 1023 then ls @ [l] else ls) q'"
proof (cases "length ls < 1023")
  case True
  then have "length (pending_items q) < 1024 - 1"
    using queue_length [OF assms(1)] by (simp add: pending_items_length)
  then obtain q' where "frame_push buf q = Some (ring_size q + 1, q')" "frames_ok 1024 65540 q'"
    "pending_items q' = pending_items q @ [buf]"
    using frame_push_room [of 1024 65540 q buf] assms by (auto simp: queue_of_def packet_def)
  then show ?thesis using True assms by (auto simp: queue_of_def intro: list_all2_appendI)
next
  case False
  then have full: "length ls = 1023" using queue_bound [OF assms(1)] by simp
  let ?q = "q\<lparr>mOverruns := mOverruns q + 1\<rparr>"
  have "ring_ok q" "ring_size q = Size q - 1"
    using assms(1) queue_length [OF assms(1)] full by (simp_all add: queue_of_def frames_ok_def)
  then have "frame_push buf q = Some (0, ?q)" by (simp add: frame_push_def push_full)
  moreover have "queue_of ls ?q"
    using assms(1) by (simp add: queue_of_def frames_ok_def ring_ok_def pending_items_def ring_size_def cong: conj_cong)
  ultimately show ?thesis using False by auto
qed

lemma queue_pop:
  assumes "queue_of (l # ls) q" and "length val = 65540"
  shows "\<exists>buf q'. frame_pop val q = Some (True, buf, q') \<and> packet l buf \<and> queue_of ls q'"
proof -
  obtain buf bs where p: "pending_items q = buf # bs" "packet l buf" "list_all2 packet ls bs"
    using assms(1) by (auto simp: queue_of_def list_all2_Cons1)
  then show ?thesis
    using frame_pop_item [of 1024 65540 q val buf bs] assms by (auto simp: queue_of_def)
qed

lemma queue_pop_empty:
  assumes "queue_of [] q"
  shows "\<exists>q'. frame_pop val q = Some (False, val, q') \<and> queue_of [] q'"
  using assms by (auto simp: queue_of_def frame_pop_def pop_empty frames_ok_def ring_ok_def pending_items_def ring_size_def)

lemma queue_empty: "queue_of ls q \<Longrightarrow> ring_empty q \<longleftrightarrow> ls = []"
  by (auto simp: queue_of_def ring_empty_def frames_ok_def pending_items_empty [symmetric] list_all2_conv_all_nth)

section \<open>Samples left over\<close>

definition extras_ok :: "FromAudioSocketPlugin \<Rightarrow> bool" where
  "extras_ok p \<longleftrightarrow> length (mExtraSamples p) = 2 \<and> length (mExtraSamples p ! 0) = 8192 \<and>
     length (mExtraSamples p ! 1) = 8192 \<and> mNextExtraSample p < 8192 \<and> mLastExtraSample p < 8192"

definition extras :: "FromAudioSocketPlugin \<Rightarrow> stereo list" where
  "extras p = (let d = ring_distance 8192 (mLastExtraSample p) (mNextExtraSample p) in
     map (\<lambda>i. (mExtraSamples p ! 0 ! ((mNextExtraSample p + i) mod 8192),
       mExtraSamples p ! 1 ! ((mNextExtraSample p + i) mod 8192))) [0..<d])"

lemma ring_next_eq: "k < 8192 \<Longrightarrow> ring_next k = next_index 8192 k"
  by (auto simp: ring_next_def socket_sizes next_index_def mod_if)

lemma extras_empty: "extras_ok p \<Longrightarrow> extras p = [] \<longleftrightarrow> mNextExtraSample p = mLastExtraSample p"
  by (auto simp: extras_def extras_ok_def Let_def ring_distance_0)

lemma extras_Cons:
  assumes "extras_ok p" and "mNextExtraSample p \<noteq> mLastExtraSample p"
  shows "extras p = (mExtraSamples p ! 0 ! mNextExtraSample p, mExtraSamples p ! 1 ! mNextExtraSample p) #
    extras (p\<lparr>mNextExtraSample := ring_next (mNextExtraSample p)\<rparr>)"
proof -
  let ?n = "mNextExtraSample p" and ?l = "mLastExtraSample p"
  have n: "?n < 8192" "?l < 8192" using assms(1) by (simp_all add: extras_ok_def)
  have "ring_distance 8192 ?l ?n = Suc (ring_distance 8192 ?l (next_index 8192 ?n))"
    using ring_distance_pop [of ?l 8192 ?n] n assms(2) by simp
  then show ?thesis
    using n by (simp add: extras_def ring_next_eq Let_def upt_rec [of 0 "Suc _"] map_Suc_upt [symmetric]
        next_index_def mod_simps o_def del: upt_Suc)
qed

text \<open>What the loops over samples leave as it is.\<close>

definition same_settings :: "FromAudioSocketPlugin \<Rightarrow> FromAudioSocketPlugin \<Rightarrow> bool" where
  "same_settings p p' \<longleftrightarrow> from_channels p' = from_channels p \<and> pl_sampleRate p' = pl_sampleRate p \<and>
     pl_bufferSize p' = pl_bufferSize p \<and> pl_inited p' = pl_inited p \<and> pl_outgoing p' = pl_outgoing p \<and>
     mMinQueuePackets p' = mMinQueuePackets p \<and> mMaxQueuePackets p' = mMaxQueuePackets p \<and>
     mQueueCheckSec p' = mQueueCheckSec p \<and> mNextQueueCheck p' = mNextQueueCheck p \<and> mPassthrough p' = mPassthrough p"

lemma same_settings_refl [simp]: "same_settings p p"
  by (simp add: same_settings_def)

lemma same_settings_trans: "same_settings p p' \<Longrightarrow> same_settings p' p'' \<Longrightarrow> same_settings p p''"
  by (simp add: same_settings_def)

text \<open>A sample is added to the first two channels, or twice to the only one.\<close>

definition add_pair :: "int \<Rightarrow> nat \<Rightarrow> stereo \<Rightarrow> channels \<Rightarrow> channels" where
  "add_pair C j p out =
     (let out = out[0 := (out ! 0)[j := float_add (out ! 0 ! j) (fst p)]]; c = (if 1 < C then 1 else 0)
      in out[c := (out ! c)[j := float_add (out ! c ! j) (snd p)]])"

fun mix :: "int \<Rightarrow> nat \<Rightarrow> stereo list \<Rightarrow> channels \<Rightarrow> channels" where
  "mix C j [] out = out"
| "mix C j (p # ps) out = mix C (Suc j) ps (add_pair C j p out)"

lemma mix_append: "mix C j (ps @ qs) out = mix C (j + length ps) qs (mix C j ps out)"
  by (induction ps arbitrary: j out) simp_all

definition room :: "int \<Rightarrow> nat \<Rightarrow> channels \<Rightarrow> bool" where
  "room C n out \<longleftrightarrow> 0 < C \<and> C \<le> int (length out) \<and> (\<forall>i<nat C. n \<le> length (out ! i))"

lemma add_pair_lengths:
  "length (add_pair C j p out) = length out" "i < length out \<Longrightarrow> length (add_pair C j p out ! i) = length (out ! i)"
  by (simp_all add: add_pair_def Let_def nth_list_update split del: if_split)
    (cases "1 < C"; cases i; cases "i = 1"; simp)

lemma room_add_pair: "room C n out \<Longrightarrow> room C n (add_pair C j p out)"
  by (auto simp: room_def add_pair_lengths)

lemma add_extra_eq:
  assumes "room C n out" and "j < n" and "length E = 2" and "k < length (E ! 0)" and "k < length (E ! 1)"
  shows "add_extra C E k j out = Some (add_pair C j (E ! 0 ! k, E ! 1 ! k) out)"
proof -
  have c: "0 < length out" "j < length (out ! 0)" "1 < C \<Longrightarrow> 1 < length out \<and> j < length (out ! 1)"
    using assms(1,2) by (auto simp: room_def intro: less_le_trans)
  show ?thesis
    using c assms(3-5)
    by (simp add: add_extra_def socket_sizes upt_rec get_sample_def put_sample_def add_sample_def add_pair_def Let_def)
qed

lemma use_extras_takes:
  assumes "extras_ok p" and "room (from_channels p) n out" and "j \<le> n" and "h = take (n - j) (extras p)"
  shows "\<exists>p'. use_extras n j out p = Some (j + length h, mix (from_channels p) j h out, p') \<and> extras_ok p' \<and>
    extras p = h @ extras p' \<and> same_settings p p' \<and> from_buffer p' = from_buffer p \<and>
    room (from_channels p) n (mix (from_channels p) j h out)"
  using assms
proof (induction "extras p" arbitrary: p j out h)
  case Nil
  then have "use_extras n j out p = Some (j, out, p)" using extras_empty [of p] by (simp add: use_extras.simps)
  then show ?case using Nil by simp
next
  case (Cons x xs)
  then have ne: "mNextExtraSample p \<noteq> mLastExtraSample p" using extras_empty [of p] by auto
  let ?k = "mNextExtraSample p" and ?E = "mExtraSamples p" and ?C = "from_channels p"
  let ?p = "p\<lparr>mNextExtraSample := ring_next ?k\<rparr>"
  have xs: "x = (?E ! 0 ! ?k, ?E ! 1 ! ?k)" "extras ?p = xs"
    using extras_Cons [OF Cons.prems(1) ne] Cons.hyps(2) by simp_all
  show ?case
  proof (cases "j < n")
    case True
    have ok: "extras_ok ?p"
      using Cons.prems(1) by (simp add: extras_ok_def ring_next_def socket_sizes)
    have add: "add_extra ?C ?E ?k j out = Some (add_pair ?C j x out)"
      using add_extra_eq [OF Cons.prems(2) True] Cons.prems(1) by (simp add: extras_ok_def xs(1))
    have "use_extras n j out p = use_extras n (j + 1) (add_pair ?C j x out) ?p"
      by (subst use_extras.simps) (simp add: ne True add)
    moreover have "h = x # take (n - (j + 1)) xs"
      using True Cons.prems(4) by (simp add: Suc_diff_Suc [symmetric] flip: Cons.hyps(2) del: Suc_diff_Suc)
    moreover have same: "same_settings p ?p" by (simp add: same_settings_def)
    ultimately show ?thesis
      using Cons.hyps(1) [of ?p "add_pair ?C j x out" "j + 1" "take (n - (j + 1)) xs"] ok
        room_add_pair [OF Cons.prems(2)] True xs(2) same_settings_trans [OF same]
      by (simp flip: Cons.hyps(2)) blast
  next
    case False
    then show ?thesis using Cons.prems by (simp add: use_extras.simps)
  qed
qed

lemma take_packet_takes:
  assumes "extras_ok p" and "extras p = []" and "packet l (from_buffer p)"
  shows "\<exists>p'. take_packet p = Some p' \<and> extras_ok p' \<and> extras p' = (if length l < 8192 then l else []) \<and>
    same_settings p p' \<and> from_buffer p' = from_buffer p"
proof -
  let ?n = "mNextExtraSample p"
  define P where "P j p' \<longleftrightarrow> (\<exists>E. p' = p\<lparr>mExtraSamples := E, mLastExtraSample := (?n + j) mod 8192\<rparr> \<and> extras_ok p' \<and>
    (\<forall>i<j. E ! 0 ! ((?n + i) mod 8192) = fst (l ! i) \<and> E ! 1 ! ((?n + i) mod 8192) = snd (l ! i)))" for j p'
  have last: "mLastExtraSample p = ?n" and n: "?n < 8192"
    using assms(1,2) extras_empty by (auto simp: extras_ok_def)
  have len: "length l \<le> 8192" using assms(3) by (simp add: packet_def)
  have "\<exists>p'. iter_opt (\<lambda>j p. do {
         extra \<leftarrow> iter_opt (\<lambda>i extra. do {
             x \<leftarrow> get_float (from_buffer p) (1 + j * AudioSocketNumChannels + i);
             put_sample extra i (mLastExtraSample p) x
           }) [0..<AudioSocketNumChannels] (mExtraSamples p);
         Some (p\<lparr>mExtraSamples := extra, mLastExtraSample := ring_next (mLastExtraSample p)\<rparr>)
       }) [0..<length l] p = Some p' \<and> P (length l) p'"
  proof (rule iter_opt_invariant)
    show "P 0 p" using assms(1) last n by (auto simp: P_def intro!: exI [of _ "mExtraSamples p"])
  next
    fix j p1
    assume j: "j < length l" and "P j p1"
    then obtain E where E: "p1 = p\<lparr>mExtraSamples := E, mLastExtraSample := (?n + j) mod 8192\<rparr>" "extras_ok p1"
      "\<And>i. i < j \<Longrightarrow> E ! 0 ! ((?n + i) mod 8192) = fst (l ! i) \<and> E ! 1 ! ((?n + i) mod 8192) = snd (l ! i)"
      by (auto simp: P_def)
    let ?k = "(?n + j) mod 8192" and ?E = "E[0 := (E ! 0)[(?n + j) mod 8192 := fst (l ! j)], 1 := (E ! 1)[(?n + j) mod 8192 := snd (l ! j)]]"
    have ne: "E \<noteq> []" using E(1,2) by (auto simp: extras_ok_def)
    have lens: "length E = 2" "length (E ! 0) = 8192" "length (E ! 1) = 8192" using E(1,2) by (simp_all add: extras_ok_def)
    have other: "?k \<noteq> (?n + i) mod 8192" if "i < j" for i
      using mod_add_inj_nat [of i 8192 j ?n] that j len by auto
    have "iter_opt (\<lambda>i extra. do {
             x \<leftarrow> get_float (from_buffer p1) (1 + j * AudioSocketNumChannels + i);
             put_sample extra i (mLastExtraSample p1) x
           }) [0..<AudioSocketNumChannels] (mExtraSamples p1) = Some ?E"
      using packet_sample [OF assms(3) j] lens ne E(1)
      by (simp add: socket_sizes upt_rec put_sample_def)
    moreover have "ring_next ?k = (?n + Suc j) mod 8192"
      by (simp add: ring_next_eq next_index_def mod_simps)
    moreover have "P (Suc j) (p1\<lparr>mExtraSamples := ?E, mLastExtraSample := (?n + Suc j) mod 8192\<rparr>)"
      using E(2,3) lens other unfolding P_def E(1)
      by (intro exI [of _ ?E]) (auto simp: extras_ok_def less_Suc_eq)
    ultimately show "\<exists>u. do {
         extra \<leftarrow> iter_opt (\<lambda>i extra. do {
             x \<leftarrow> get_float (from_buffer p1) (1 + j * AudioSocketNumChannels + i);
             put_sample extra i (mLastExtraSample p1) x
           }) [0..<AudioSocketNumChannels] (mExtraSamples p1);
         Some (p1\<lparr>mExtraSamples := extra, mLastExtraSample := ring_next (mLastExtraSample p1)\<rparr>)
       } = Some u \<and> P (Suc j) u"
      using E(1) by simp
  qed
  then obtain E where E: "take_packet p = Some (p\<lparr>mExtraSamples := E, mLastExtraSample := (?n + length l) mod 8192\<rparr>)"
      "extras_ok (p\<lparr>mExtraSamples := E, mLastExtraSample := (?n + length l) mod 8192\<rparr>)"
      "\<And>i. i < length l \<Longrightarrow> E ! 0 ! ((?n + i) mod 8192) = fst (l ! i) \<and> E ! 1 ! ((?n + i) mod 8192) = snd (l ! i)"
    using len packet_count [OF assms(3)] float_of_int_back(1) by (auto simp: take_packet_def P_def)
  have d: "ring_distance 8192 ((?n + length l) mod 8192) ?n = (if length l < 8192 then length l else 0)"
    using n len by (auto simp: ring_distance_def mod_if)
  have "extras (p\<lparr>mExtraSamples := E, mLastExtraSample := (?n + length l) mod 8192\<rparr>) =
      (if length l < 8192 then l else [])"
    using E(3) by (auto simp: extras_def d Let_def intro!: nth_equalityI)
  with E(1,2) show ?thesis by (auto simp: same_settings_def)
qed

section \<open>The callback that receives\<close>

text \<open>What follows from a list of samples that may lose some: all of them, when nothing may be lost.\<close>

definition kept :: "bool \<Rightarrow> 'a list \<Rightarrow> 'a list \<Rightarrow> bool" where
  "kept careful xs ys \<longleftrightarrow> subseq xs ys \<and> (careful \<longrightarrow> xs = ys)"

lemma kept_refl [simp]: "kept c xs xs"
  by (simp add: kept_def)

lemma kept_trans: "kept c xs ys \<Longrightarrow> kept d ys zs \<Longrightarrow> kept (c \<and> d) xs zs"
  by (auto simp: kept_def intro: subseq_order.trans)

lemma kept_append: "kept c xs ys \<Longrightarrow> kept d xs' ys' \<Longrightarrow> kept (c \<and> d) (xs @ xs') (ys @ ys')"
  by (auto simp: kept_def intro: list_emb_append_mono)

lemma kept_weaken: "kept c xs ys \<Longrightarrow> (d \<Longrightarrow> c) \<Longrightarrow> kept d xs ys"
  by (auto simp: kept_def)

abbreviation short :: "stereo list \<Rightarrow> bool" where "short l \<equiv> length l < 8192"

definition receiver_ok :: "stereo list list \<Rightarrow> FromAudioSocketPlugin \<Rightarrow> WaitFreeFrameBuffer \<Rightarrow> bool" where
  "receiver_ok ls p q \<longleftrightarrow> extras_ok p \<and> length (from_buffer p) = 65540 \<and> queue_of ls q"

lemma mix_received_takes:
  assumes "receiver_ok ls p q" and "room (from_channels p) n out" and "j \<le> n"
  shows "\<exists>h ls' q' p'. mix_received n j out q p = Some (mix (from_channels p) j h out, q', p') \<and> j + length h \<le> n \<and>
    receiver_ok ls' p' q' \<and> same_settings p p' \<and> (\<exists>ks. ls = ks @ ls') \<and>
    kept (list_all short ls) (h @ extras p' @ concat ls') (extras p @ concat ls)"
  using assms
proof (induction ls arbitrary: j out q p)
  case Nil
  let ?h = "take (n - j) (extras p)"
  obtain p' where k: "use_extras n j out p = Some (j + length ?h, mix (from_channels p) j ?h out, p')"
    "extras_ok p'" "extras p = ?h @ extras p'" "same_settings p p'" "from_buffer p' = from_buffer p"
    using use_extras_takes [OF _ Nil.prems(2,3) refl] Nil.prems(1) by (auto simp: receiver_ok_def)
  obtain q' where q: "frame_pop (from_buffer p) q = Some (False, from_buffer p, q')" "queue_of [] q'"
    using queue_pop_empty [of q "from_buffer p"] Nil.prems(1) by (auto simp: receiver_ok_def)
  have buf: "p'\<lparr>from_buffer := from_buffer p\<rparr> = p'" using k(5) by (metis FromAudioSocketPlugin.surjective FromAudioSocketPlugin.update_convs(1))
  have "\<exists>q'. mix_received n j out q p = Some (mix (from_channels p) j ?h out, q', p') \<and> queue_of [] q'"
    using k(1,5) q buf Nil.prems(1) by (subst mix_received.simps) (auto simp: receiver_ok_def)
  then show ?case
    using k(2-5) Nil.prems by (intro exI [of _ ?h] exI [of _ "[]"]) (auto simp: receiver_ok_def)
next
  case (Cons l ls)
  let ?h = "take (n - j) (extras p)" and ?C = "from_channels p"
  obtain p1 where k: "use_extras n j out p = Some (j + length ?h, mix ?C j ?h out, p1)"
    "extras_ok p1" "extras p = ?h @ extras p1" "same_settings p p1" "from_buffer p1 = from_buffer p"
    "room ?C n (mix ?C j ?h out)"
    using use_extras_takes [OF _ Cons.prems(2,3) refl] Cons.prems(1) by (auto simp: receiver_ok_def)
  have le: "j + length ?h \<le> n" using Cons.prems(3) by simp
  show ?case
  proof (cases "n \<le> j + length ?h")
    case True
    have "mix_received n j out q p = Some (mix ?C j ?h out, q, p1)"
      by (subst mix_received.simps) (simp add: k(1) True del: length_take)
    moreover have "kept (list_all short (l # ls)) (?h @ extras p1 @ concat (l # ls)) (extras p @ concat (l # ls))"
      using k(3) by (metis append_assoc kept_refl)
    moreover have "receiver_ok (l # ls) p1 q" using k(2,5) Cons.prems(1) by (simp add: receiver_ok_def)
    ultimately show ?thesis using k(4) le by blast
  next
    case False
    then have all: "?h = extras p" "extras p1 = []"
      using k(3) by (simp_all add: min_def split: if_splits)
    obtain buf q1 where pop: "frame_pop (from_buffer p1) q = Some (True, buf, q1)" "packet l buf" "queue_of ls q1"
      using queue_pop [of l ls q "from_buffer p1"] Cons.prems(1) k(5) by (auto simp: receiver_ok_def)
    let ?p = "p1\<lparr>from_buffer := buf\<rparr>" and ?out = "mix ?C j ?h out"
    have "extras_ok ?p" "extras ?p = []" "packet l (from_buffer ?p)" and same: "same_settings p ?p"
      using k(2,4) all(2) pop(2) by (simp_all add: extras_ok_def extras_def same_settings_def)
    then obtain p2 where t: "take_packet ?p = Some p2" "extras_ok p2" "extras p2 = (if short l then l else [])"
      "same_settings ?p p2" "from_buffer p2 = buf"
      using take_packet_takes [of ?p l] by auto
    have same2: "same_settings p p2" using same t(4) by (rule same_settings_trans)
    then have C: "from_channels p2 = ?C" by (simp add: same_settings_def)
    have ok: "receiver_ok ls p2 q1" using t(2,5) pop(2,3) by (simp add: receiver_ok_def packet_def)
    obtain h ls' q' p' where r: "mix_received n (j + length ?h) ?out q1 p2 = Some (mix ?C (j + length ?h) h ?out, q', p')"
      "j + length ?h + length h \<le> n" "receiver_ok ls' p' q'" "same_settings p2 p'" "\<exists>ks. ls = ks @ ls'"
      "kept (list_all short ls) (h @ extras p' @ concat ls') ((if short l then l else []) @ concat ls)"
      using Cons.IH [OF ok, of ?out "j + length ?h"] k(6) le C t(3) by auto
    have "mix_received n j out q p = mix_received n (j + length ?h) ?out q1 p2"
      by (subst mix_received.simps) (simp add: k(1) False pop(1) t(1) del: length_take)
    then have run: "mix_received n j out q p = Some (mix ?C j (?h @ h) out, q', p')"
      using r(1) by (simp add: mix_append)
    have "kept (short l) ((if short l then l else []) @ concat ls) (l @ concat ls)"
      by (auto simp: kept_def)
    from kept_trans [OF r(6) this] have "kept (list_all short (l # ls)) (h @ extras p' @ concat ls') (l @ concat ls)"
      by (rule kept_weaken) simp
    from kept_append [OF kept_refl this, of True "extras p"]
    have "kept (list_all short (l # ls)) ((?h @ h) @ extras p' @ concat ls') (extras p @ concat (l # ls))"
      by (simp add: all(1))
    with run r(2-5) same_settings_trans [OF same2 r(4)] show ?thesis
      by (intro exI [of _ "?h @ h"] exI [of _ ls'] exI [of _ q'] exI [of _ p']) auto
  qed
qed

text \<open>What the callback starts from: the inputs that are passed through, or silence.\<close>

definition base :: "int \<Rightarrow> nat \<Rightarrow> bool \<Rightarrow> channels \<Rightarrow> channels \<Rightarrow> channels" where
  "base C n pass inputs outputs = map (\<lambda>i. if i < nat C
     then (if pass then take n (inputs ! i) else replicate n 0) @ drop n (outputs ! i) else outputs ! i) [0..<length outputs]"

lemma copy_inputs_eq:
  assumes "room (from_channels p) n out" and "mPassthrough p \<Longrightarrow> room (from_channels p) n inp"
  shows "copy_inputs n inp p out = Some (base (from_channels p) n (mPassthrough p) inp out)"
    and "room (from_channels p) n (base (from_channels p) n (mPassthrough p) inp out)"
proof -
  let ?C = "from_channels p" and ?b = "base (from_channels p) n (mPassthrough p) inp out"
  have C: "nat ?C \<le> length out" "\<And>i. i < nat ?C \<Longrightarrow> n \<le> length (out ! i)"
    "\<And>i. mPassthrough p \<Longrightarrow> i < nat ?C \<Longrightarrow> i < length inp \<and> n \<le> length (inp ! i)"
    using assms by (auto simp: room_def)
  let ?P = "\<lambda>k out'. length out' = length out \<and> (\<forall>i<length out. out' ! i = (if i < k then ?b ! i else out ! i))"
  have "\<exists>out'. copy_inputs n inp p out = Some out' \<and> ?P (nat ?C) out'"
    unfolding copy_inputs_def
  proof (rule iter_opt_invariant)
    fix k out'
    assume k: "k < nat ?C" and P: "?P k out'"
    have "?P (Suc k) (out'[k := ?b ! k])" using P k by (auto simp: nth_list_update less_Suc_eq)
    moreover have "mem_write (out' ! k) 0 (if mPassthrough p then take n (inp ! k) else replicate n 0) = Some (?b ! k)"
      using k C(1) C(2) [of k] C(3) [of k] P by (auto simp: base_def mem_write_def min_absorb2)
    ultimately show "\<exists>u. (if k < length out' then do {
           src \<leftarrow> (if mPassthrough p
             then if k < length inp then mem_read (inp ! k) 0 n else None
             else Some (replicate n 0));
           out \<leftarrow> mem_write (out' ! k) 0 src;
           Some (out'[k := out])
         } else None) = Some u \<and> ?P (Suc k) u"
      using k C P by (auto simp: mem_read_def)
  qed (simp add: base_def)
  moreover have "out' = ?b" if "?P (nat ?C) out'" for out'
    using that by (auto simp: base_def intro!: nth_equalityI)
  ultimately show "copy_inputs n inp p out = Some ?b" by blast
  show "room ?C n ?b"
    using assms(1) C by (auto simp: room_def base_def)
qed

definition rate_ok :: "FromAudioSocketPlugin \<Rightarrow> bool" where
  "rate_ok p \<longleftrightarrow> pl_inited p \<and> 0 < pl_sampleRate p \<and> pl_sampleRate p \<le> 2000000 \<and>
     0 \<le> mQueueCheckSec p \<and> mQueueCheckSec p \<le> 1022"

lemma resetQueueStats_some:
  assumes "rate_ok p"
  shows "\<exists>p'. resetQueueStats p = Some p' \<and> rate_ok p' \<and> extras p' = extras p \<and> extras_ok p' = extras_ok p \<and>
    from_buffer p' = from_buffer p \<and> from_channels p' = from_channels p \<and> mPassthrough p' = mPassthrough p"
proof -
  have "pl_sampleRate p * mQueueCheckSec p \<le> 2000000 * 1022"
    using assms by (intro mult_mono) (simp_all add: rate_ok_def)
  moreover have "0 \<le> pl_sampleRate p * mQueueCheckSec p" using assms by (simp add: rate_ok_def)
  ultimately have "int32_range (pl_sampleRate p * mQueueCheckSec p)" by (simp add: int32_range_def)
  moreover have "int32_range (mQueueCheckSec p * 2)" using assms by (simp add: int32_range_def rate_ok_def)
  ultimately have "int32_range (pl_sampleRate p * mQueueCheckSec p)" "int32_range (mQueueCheckSec p * 2)" .
  then show ?thesis
    using assms by (auto simp: resetQueueStats_def rate_ok_def extras_def extras_ok_def Let_def)
qed

lemma drop_packets_drops:
  assumes "n \<le> length ls" and "length buf = 65540" and "queue_of ls q"
  shows "\<exists>buf' q'. drop_packets n buf q = Some (buf', q') \<and> length buf' = 65540 \<and> queue_of (drop n ls) q'"
proof -
  have "\<exists>t. drop_packets n buf q = Some t \<and> (case t of (buf, q) \<Rightarrow> length buf = 65540 \<and> queue_of (drop n ls) q)"
    unfolding drop_packets_def
  proof (rule iter_opt_invariant [where P = "\<lambda>k t. case t of (buf, q) \<Rightarrow> length buf = 65540 \<and> queue_of (drop k ls) q"])
    fix k and t :: "bytes \<times> WaitFreeFrameBuffer"
    assume k: "k < n" and t: "case t of (buf, q) \<Rightarrow> length buf = 65540 \<and> queue_of (drop k ls) q"
    then obtain buf q where [simp]: "t = (buf, q)" and t: "length buf = 65540" "queue_of (drop k ls) q" by (cases t) auto
    have "drop k ls = ls ! k # drop (Suc k) ls" using k assms(1) by (simp add: Cons_nth_drop_Suc)
    then obtain buf' q' where "frame_pop buf q = Some (True, buf', q')" "packet (ls ! k) buf'" "queue_of (drop (Suc k) ls) q'"
      using queue_pop [of "ls ! k" "drop (Suc k) ls" q buf] t by auto
    then show "\<exists>u. (case t of (buf, q) \<Rightarrow> do { (_, buf, q) \<leftarrow> frame_pop buf q; Some (buf, q) }) = Some u \<and>
        (case u of (buf, q) \<Rightarrow> length buf = 65540 \<and> queue_of (drop (Suc k) ls) q)"
      by (simp add: packet_def)
  qed (use assms in simp)
  then show ?thesis by auto
qed

lemma updateQueueStats_keeps:
  assumes "receiver_ok ls p q" and "rate_ok p"
  shows "\<exists>q' p' ls'. updateQueueStats n q p = Some (q', p') \<and> receiver_ok ls' p' q' \<and> rate_ok p' \<and> extras p' = extras p \<and>
    from_channels p' = from_channels p \<and> mPassthrough p' = mPassthrough p \<and> (\<exists>ks. ls = ks @ ls') \<and>
    (of_nat n < mNextQueueCheck p \<or> mMinQueuePackets p \<le> 0 \<longrightarrow> ls' = ls)"
proof -
  let ?p = "p\<lparr>mMinQueuePackets := min (mMinQueuePackets p) (int (ring_size q)),
    mMaxQueuePackets := max (mMaxQueuePackets p) (int (ring_size q))\<rparr>"
  have ring: "ring_size q = length ls" using assms(1) queue_length by (simp add: receiver_ok_def)
  show ?thesis
  proof (cases "of_nat n < mNextQueueCheck p")
    case True
    then have "updateQueueStats n q p = Some (q, ?p\<lparr>mNextQueueCheck := mNextQueueCheck p - of_nat n\<rparr>)"
      by (simp add: updateQueueStats_def Let_def)
    then show ?thesis
      using assms by (intro exI [of _ q] exI [of _ "?p\<lparr>mNextQueueCheck := mNextQueueCheck p - of_nat n\<rparr>"] exI [of _ ls])
        (auto simp: receiver_ok_def rate_ok_def extras_ok_def extras_def Let_def)
  next
    case False
    let ?d = "nat (mMinQueuePackets ?p)"
    have "?d \<le> length ls" using ring by simp
    then obtain buf q' where d: "drop_packets ?d (from_buffer p) q = Some (buf, q')" "length buf = 65540"
      "queue_of (drop ?d ls) q'"
      using drop_packets_drops [of ?d ls "from_buffer p" q] assms(1) by (auto simp: receiver_ok_def)
    let ?p1 = "?p\<lparr>from_buffer := buf, mMinQueuePackets := min 0 (mMinQueuePackets ?p)\<rparr>"
    have "rate_ok ?p1" using assms(2) by (simp add: rate_ok_def)
    then obtain p' where p': "resetQueueStats ?p1 = Some p'" "rate_ok p'" "extras p' = extras ?p1"
      "extras_ok p' = extras_ok ?p1" "from_buffer p' = buf" "from_channels p' = from_channels p"
      "mPassthrough p' = mPassthrough p"
      using resetQueueStats_some [of ?p1] by auto
    have "updateQueueStats n q p = Some (q', p')"
      using False d(1) p'(1) by (simp add: updateQueueStats_def Let_def)
    moreover have "\<exists>ks. ls = ks @ drop ?d ls" by (metis append_take_drop_id)
    moreover have "mMinQueuePackets p \<le> 0 \<Longrightarrow> ?d = 0" by simp
    ultimately show ?thesis
      using False d(2,3) p' assms(1)
      by (intro exI [of _ q'] exI [of _ p'] exI [of _ "drop ?d ls"])
        (auto simp: receiver_ok_def extras_ok_def extras_def Let_def)
  qed
qed

text \<open>One callback.\<close>

definition mixing :: "int \<Rightarrow> stereo list list \<Rightarrow> AudioSocket \<Rightarrow> bool" where
  "mixing C ls s \<longleftrightarrow> receiver_ok ls (fromPlugin s) (mReceiveQueue s) \<and> rate_ok (fromPlugin s) \<and>
     from_channels (fromPlugin s) = C \<and> mIsEstablished (worker s) \<and> length (wk_recvBuffer (worker s)) = 65540"

text \<open>A callback in which nothing is dropped.\<close>

definition keeps_packets :: "nat \<Rightarrow> AudioSocket \<Rightarrow> bool" where
  "keeps_packets n s \<longleftrightarrow> of_nat n < mNextQueueCheck (fromPlugin s) \<or> mMinQueuePackets (fromPlugin s) \<le> 0"

lemma kept_suffix: "\<exists>ks. ls = ks @ ls' \<Longrightarrow> (c \<Longrightarrow> ls' = ls) \<Longrightarrow> kept c (concat ls') (concat ls)"
  by (auto simp: kept_def intro: list_emb_append2)

lemma from_compute_mixes:
  assumes "mixing C ls s" and "room C n out" and "mPassthrough (fromPlugin s) \<Longrightarrow> room C n inp"
  shows "\<exists>h s' ls'. from_compute n inp out s =
      Some (mix C 0 h (base C n (mPassthrough (fromPlugin s)) inp out), s') \<and> length h \<le> n \<and> mixing C ls' s' \<and>
    mPassthrough (fromPlugin s') = mPassthrough (fromPlugin s) \<and> worker s' = worker s \<and> (\<exists>ks. ls = ks @ ls') \<and>
    kept (list_all short ls \<and> keeps_packets n s) (h @ extras (fromPlugin s') @ concat ls') (extras (fromPlugin s) @ concat ls)"
proof -
  let ?p = "fromPlugin s"
  have C: "from_channels ?p = C" "receiver_ok ls ?p (mReceiveQueue s)" "rate_ok ?p" "pl_inited ?p" "mIsEstablished (worker s)"
    using assms(1) by (simp_all add: mixing_def rate_ok_def)
  note copy = copy_inputs_eq [of ?p n out inp, unfolded C(1), OF assms(2,3)]
  obtain h ls1 q1 p1 where m: "mix_received n 0 (base C n (mPassthrough ?p) inp out) (mReceiveQueue s) ?p =
      Some (mix C 0 h (base C n (mPassthrough ?p) inp out), q1, p1)" "length h \<le> n" "receiver_ok ls1 p1 q1"
    "same_settings ?p p1" "\<exists>ks. ls = ks @ ls1" "kept (list_all short ls) (h @ extras p1 @ concat ls1) (extras ?p @ concat ls)"
    using mix_received_takes [OF C(2), unfolded C(1), OF copy(2), of 0] by auto
  have "rate_ok p1" using C(3) m(4) by (simp add: rate_ok_def same_settings_def)
  then obtain q2 p2 ls2 where u: "updateQueueStats n q1 p1 = Some (q2, p2)" "receiver_ok ls2 p2 q2" "rate_ok p2"
    "extras p2 = extras p1" "from_channels p2 = from_channels p1" "mPassthrough p2 = mPassthrough p1" "\<exists>ks. ls1 = ks @ ls2"
    "of_nat n < mNextQueueCheck p1 \<or> mMinQueuePackets p1 \<le> 0 \<longrightarrow> ls2 = ls1"
    using updateQueueStats_keeps [OF m(3), of n] by auto
  let ?s = "s\<lparr>fromPlugin := p2, mReceiveQueue := q2\<rparr>"
  have "from_compute n inp out s = Some (mix C 0 h (base C n (mPassthrough ?p) inp out), ?s)"
    using C(4,5) copy(1) m(1) u(1) by (simp add: from_compute_def Let_def)
  moreover have "mixing C ls2 ?s"
    using assms(1) u(2,3,5) m(4) by (simp add: mixing_def same_settings_def)
  moreover have keep: "kept (keeps_packets n s) (concat ls2) (concat ls1)"
    by (rule kept_suffix [OF u(7)]) (use u(8) m(4) in \<open>auto simp: keeps_packets_def same_settings_def\<close>)
  have "kept (True \<and> keeps_packets n s) ((h @ extras p1) @ concat ls2) ((h @ extras p1) @ concat ls1)"
    by (rule kept_append [OF kept_refl keep])
  then have "kept (keeps_packets n s) (h @ extras p1 @ concat ls2) (h @ extras p1 @ concat ls1)" by simp
  from kept_trans [OF this m(6)]
  have "kept (list_all short ls \<and> keeps_packets n s) (h @ extras p2 @ concat ls2) (extras ?p @ concat ls)"
    unfolding u(4) by (rule kept_weaken) simp
  moreover have "\<exists>ks. ls = ks @ ls2" using m(5) u(7) by (metis append_assoc)
  ultimately show ?thesis
    using m(2,4) u(6) by (intro exI [of _ h] exI [of _ ?s] exI [of _ ls2]) (auto simp: same_settings_def)
qed

section \<open>The callback that sends\<close>

definition block :: "int \<Rightarrow> nat \<Rightarrow> channels \<Rightarrow> stereo list" where
  "block C n inputs = map (\<lambda>k. (inputs ! 0 ! k, inputs ! (if 1 < C then 1 else 0) ! k)) [0..<n]"

definition sending :: "int \<Rightarrow> stereo list list \<Rightarrow> AudioSocket \<Rightarrow> bool" where
  "sending C ls s \<longleftrightarrow> queue_of ls (mSendQueue s) \<and> pl_inited (toPlugin s) \<and> length (to_buffer (toPlugin s)) = 65540 \<and>
     to_channels (toPlugin s) = C \<and> isInitialized (worker s) \<and> mIsEstablished (worker s) \<and>
     length (wk_popBuffer (worker s)) = 65540"

definition stereo_room :: "int \<Rightarrow> nat \<Rightarrow> channels \<Rightarrow> bool" where
  "stereo_room C n inputs \<longleftrightarrow> 0 < length inputs \<and> n \<le> length (inputs ! 0) \<and>
     (1 < C \<longrightarrow> 1 < length inputs \<and> n \<le> length (inputs ! 1))"

lemma interleave_packet:
  assumes "stereo_room C n inputs" and "0 < C" and "n \<le> 8192" and "length buf = 65540"
  shows "\<exists>buf1 buf2. put_float 0 (float_of_int (int n)) buf = Some buf1 \<and> interleave_samples inputs C n buf1 = Some buf2 \<and>
    packet (block C n inputs) buf2"
proof -
  let ?head = "float_bytes (float_of_int (int n))" and ?l = "block C n inputs"
  have "put_float 0 (float_of_int (int n)) ([] @ take 4 buf @ drop 4 buf) = Some ([] @ ?head @ drop 4 buf)"
    by (rule put_float_at) (use assms(4) in simp_all)
  then have put: "put_float 0 (float_of_int (int n)) buf = Some (?head @ drop 4 buf)" by simp
  let ?P = "\<lambda>k b. b = ?head @ stereo_bytes (take k ?l) @ drop (4 + 8 * k) buf"
  have "\<exists>b. interleave_samples inputs C n (?head @ drop 4 buf) = Some b \<and> ?P n b"
    unfolding interleave_samples_def
  proof (rule iter_opt_invariant [where P = ?P])
    fix k b
    assume k: "k < n" and b: "?P k b"
    let ?x = "inputs ! 0 ! k" and ?y = "inputs ! (if 1 < C then 1 else 0) ! k" and ?r = "drop (4 + 8 * k) buf"
    let ?h = "?head @ stereo_bytes (take k ?l)"
    have "xs = take 4 xs @ take 4 (drop 4 xs) @ drop 8 xs" for xs :: bytes
      using append_take_drop_id [of 4 xs] append_take_drop_id [of 4 "drop 4 xs"] by simp
    from this [of ?r] have r: "?r = take 4 ?r @ take 4 (drop 4 ?r) @ drop (4 + 8 * Suc k) buf" by simp
    have lr: "length (take 4 ?r) = 4" "length (take 4 (drop 4 ?r)) = 4"
      using k assms(3,4) by simp_all
    have lh: "length ?h = 4 * (1 + k * 2 + 0)" using k by (simp add: block_def)
    have "put_float (1 + k * 2 + 0) ?x (?h @ take 4 ?r @ take 4 (drop 4 ?r) @ drop (4 + 8 * Suc k) buf) =
        Some (?h @ float_bytes ?x @ take 4 (drop 4 ?r) @ drop (4 + 8 * Suc k) buf)"
      by (rule put_float_at [OF lh lr(1)])
    moreover have "put_float (1 + k * 2 + 1) ?y ((?h @ float_bytes ?x) @ take 4 (drop 4 ?r) @ drop (4 + 8 * Suc k) buf) =
        Some ((?h @ float_bytes ?x) @ float_bytes ?y @ drop (4 + 8 * Suc k) buf)"
      by (rule put_float_at) (use lh lr(2) in simp_all)
    moreover have "stereo_bytes (take (Suc k) ?l) = stereo_bytes (take k ?l) @ float_bytes ?x @ float_bytes ?y"
      using k by (simp add: take_Suc_conv_app_nth block_def pair_bytes_def)
    moreover have "get_sample inputs 0 k = Some ?x" "get_sample inputs (if 1 < C then 1 else 0) k = Some ?y"
      using assms(1) k by (auto simp: get_sample_def stereo_room_def)
    ultimately show "\<exists>u. iter_opt (\<lambda>i buf. do {
         x \<leftarrow> get_sample inputs (if int i < C then i else 0) k;
         put_float (1 + k * AudioSocketNumChannels + i) x buf
       }) [0..<AudioSocketNumChannels] b = Some u \<and> ?P (Suc k) u"
      using assms(2) b r by (cases "1 < C") (simp_all add: socket_sizes upt_rec)
  qed simp
  moreover have "packet ?l b" if "?P n b" for b
    using that assms(3,4) by (auto simp: packet_def block_def)
  ultimately show ?thesis using put by blast
qed

lemma to_compute_pushes:
  assumes "sending C ls s" and "stereo_room C (min n 8192) inputs" and "0 < C"
  shows "\<exists>s'. to_compute n inputs s = Some s' \<and> worker s' = worker s \<and>
    sending C (if length ls < 1023 then ls @ [block C (min n 8192) inputs] else ls) s'"
proof -
  let ?p = "toPlugin s"
  have s: "pl_inited ?p" "isInitialized (worker s)" "mIsEstablished (worker s)" "to_channels ?p = C"
    "length (to_buffer ?p) = 65540" "queue_of ls (mSendQueue s)"
    using assms(1) by (simp_all add: sending_def)
  obtain b1 b2 where b: "put_float 0 (float_of_int (int (min n 8192))) (to_buffer ?p) = Some b1"
    "interleave_samples inputs C (min n 8192) b1 = Some b2" "packet (block C (min n 8192) inputs) b2"
    using interleave_packet [OF assms(2,3) _ s(5)] by auto
  obtain k q where q: "frame_push b2 (mSendQueue s) = Some (k, q)"
    "queue_of (if length ls < 1023 then ls @ [block C (min n 8192) inputs] else ls) q"
    using queue_push [OF s(6) b(3)] by blast
  have "to_compute n inputs s = Some (s\<lparr>toPlugin := ?p\<lparr>to_buffer := b2\<rparr>, mSendQueue := q\<rparr>)"
    using s(1-4) b(1,2) q(1) by (simp add: to_compute_def socket_sizes Let_def)
  then show ?thesis
    using assms(1) q(2) b(3) by (simp add: sending_def packet_def)
qed

section \<open>The worker\<close>

lemma socket_write_write [simp]: "socket_write b (socket_write a w) = socket_write (a @ b) w"
  by (cases "mSocketPtr w") (simp_all add: socket_write_def)

lemma send_queue_sends:
  assumes "queue_of ls q" and "length (wk_popBuffer w) = 65540"
  shows "\<exists>q' x y. send_queue q w = Some (q', (socket_write (stereo_bytes (concat ls)) w)\<lparr>wk_sendBuffer := x, wk_popBuffer := y\<rparr>) \<and>
    queue_of [] q' \<and> length y = 65540"
  using assms
proof (induction ls arbitrary: q w)
  case Nil
  obtain q' where "frame_pop (wk_popBuffer w) q = Some (False, wk_popBuffer w, q')" "queue_of [] q'"
    using queue_pop_empty Nil.prems(1) by blast
  moreover have "socket_write [] w = w" by (cases "mSocketPtr w") (simp_all add: socket_write_def)
  ultimately have "send_queue q w = Some (q', (socket_write (stereo_bytes (concat [])) w)
      \<lparr>wk_sendBuffer := wk_sendBuffer w, wk_popBuffer := wk_popBuffer w\<rparr>)" "queue_of [] q'"
    by (subst send_queue.simps, simp_all)
  with Nil.prems(2) show ?case by blast
next
  case (Cons l ls)
  obtain buf q1 where pop: "frame_pop (wk_popBuffer w) q = Some (True, buf, q1)" "packet l buf" "queue_of ls q1"
    using queue_pop [OF Cons.prems] by blast
  let ?w = "socket_write (stereo_bytes l) (w\<lparr>wk_popBuffer := buf, wk_sendBuffer := stereo_bytes l\<rparr>)"
  have l: "length l \<le> 8192" "length buf = 65540" using pop(2) by (simp_all add: packet_def)
  have "send_queue q w = send_queue q1 ?w"
    using pop(1) packet_count [OF pop(2)] packet_data [OF pop(2)] float_of_int_back(2) [OF l(1)]
    by (subst send_queue.simps) (simp add: socket_sizes nat_mult_distrib)
  moreover obtain q' x y where "send_queue q1 ?w =
      Some (q', (socket_write (stereo_bytes (concat ls)) ?w)\<lparr>wk_sendBuffer := x, wk_popBuffer := y\<rparr>)"
    "queue_of [] q'" "length y = 65540"
    using Cons.IH [OF pop(3), of ?w] l(2) by (auto simp: socket_write_def)
  moreover have "socket_write (stereo_bytes (concat ls)) ?w =
      (socket_write (stereo_bytes (concat (l # ls))) w)\<lparr>wk_popBuffer := buf, wk_sendBuffer := stereo_bytes l\<rparr>"
    by (cases "mSocketPtr w") (simp_all add: socket_write_def)
  ultimately have "send_queue q w = Some (q', (socket_write (stereo_bytes (concat (l # ls))) w)
      \<lparr>wk_sendBuffer := x, wk_popBuffer := y\<rparr>)" by simp
  with \<open>queue_of [] q'\<close> \<open>length y = 65540\<close> show ?case by blast
qed

definition online :: "bytes \<Rightarrow> bytes \<Rightarrow> AudioSocket \<Rightarrow> bool" where
  "online i out s \<longleftrightarrow> (\<exists>c. mSocketPtr (worker s) = Some c \<and> sock_connected c \<and> sock_in c = i \<and> sock_out c = out) \<and>
     \<not> mStopRequested (worker s)"

lemma sendAudio_sends:
  assumes "sending C ls s" and "online i out s"
  shows "\<exists>ok s'. sendAudio E s = Some (ok, s') \<and> sending C [] s' \<and> online i (out @ stereo_bytes (concat ls)) s'"
proof (cases "ls = []")
  case True
  then have "sendAudio E s = Some (True, s)"
    using assms by (auto simp: sendAudio_def isConnected_def online_def sending_def queue_empty)
  then show ?thesis using assms True by auto
next
  case False
  obtain q' x y where "send_queue (mSendQueue s) (worker s) =
      Some (q', (socket_write (stereo_bytes (concat ls)) (worker s))\<lparr>wk_sendBuffer := x, wk_popBuffer := y\<rparr>)"
    "queue_of [] q'" "length y = 65540"
    using send_queue_sends [of ls "mSendQueue s" "worker s"] assms(1) by (auto simp: sending_def)
  moreover have "\<not> ring_empty (mSendQueue s)" using queue_empty [of ls "mSendQueue s"] assms(1) False by (simp add: sending_def)
  ultimately show ?thesis
    using assms by (auto simp: sendAudio_def isConnected_def online_def sending_def socket_write_def isInitialized_def)
qed

lemma bytes_to_read_eq: "bytes_to_read n 65540 = 8 * (min n 65536 div 8)"
  by (simp add: bytes_to_read_def socket_sizes Let_def minus_mod_eq_mult_div)

lemma received_packet:
  assumes "length buf = 65540" and "length l \<le> 8192"
  shows "\<exists>b1 b2. mem_write buf 4 (stereo_bytes l) = Some b1 \<and> put_float 0 (float_of_int (int (length l))) b1 = Some b2 \<and>
    packet l b2"
proof -
  let ?r = "stereo_bytes l @ drop (4 + 8 * length l) buf"
  have "mem_write buf 4 (stereo_bytes l) = Some (take 4 buf @ ?r)"
    using assms by (simp add: mem_write_def)
  moreover have "put_float 0 (float_of_int (int (length l))) ([] @ take 4 buf @ ?r) =
      Some ([] @ float_bytes (float_of_int (int (length l))) @ ?r)"
    by (rule put_float_at) (use assms in simp_all)
  moreover have "packet l (float_bytes (float_of_int (int (length l))) @ ?r)"
    using assms by (auto simp: packet_def)
  ultimately show ?thesis by simp
qed

lemma receive_loop_receives:
  assumes "queue_of ls q" and "length buf = 65540" and "unread @ rest = stereo_bytes T"
  shows "\<exists>m unread' buf' q' ls'. receive_loop unread buf q = Some (unread', buf', q') \<and> length buf' = 65540 \<and>
    m \<le> length T \<and> unread' @ rest = stereo_bytes (drop m T) \<and> queue_of (ls @ ls') q' \<and>
    kept (length unread < 65536 \<and> length ls < 1023) (concat ls') (take m T) \<and>
    (length unread < 65536 \<longrightarrow> list_all short ls')"
  using assms
proof (induction unread arbitrary: ls q buf T rule: measure_induct_rule [of length])
  case (less unread)
  show ?case
  proof (cases "length unread \<le> 8")
    case True
    then have "receive_loop unread buf q = Some (unread, buf, q)" by (simp add: receive_loop.simps socket_sizes Let_def)
    then show ?thesis using less.prems
      by (intro exI [of _ 0] exI [of _ unread] exI [of _ buf] exI [of _ q] exI [of _ "[]"]) simp
  next
    case False
    define k where "k = min (length unread) 65536 div 8"
    have k: "0 < k" "8 * k \<le> length unread" "k \<le> 8192" using False by (auto simp: k_def)
    have kT: "k \<le> length T" using k(2) arg_cong [OF less.prems(3), of length] by simp
    have "take (8 * k) unread = take (8 * k) (stereo_bytes T)" using k(2) by (simp flip: less.prems(3))
    then have chunk: "take (8 * k) unread = stereo_bytes (take k T)" by (simp add: stereo_bytes_take)
    have "drop (8 * k) (unread @ rest) = stereo_bytes (drop k T)"
      by (simp only: less.prems(3) stereo_bytes_drop)
    then have rest: "drop (8 * k) unread @ rest = stereo_bytes (drop k T)" using k(2) by simp
    have len: "length (take k T) = k" using kT by simp
    obtain b1 b2 where b: "mem_write buf 4 (stereo_bytes (take k T)) = Some b1"
      "put_float 0 (float_of_int (int k)) b1 = Some b2" "packet (take k T) b2"
      using received_packet [OF less.prems(2), of "take k T"] k(3) unfolding len by blast
    obtain j q1 where q: "frame_push b2 q = Some (j, q1)"
      "queue_of (if length ls < 1023 then ls @ [take k T] else ls) q1"
      using queue_push [OF less.prems(1) b(3)] by blast
    have step: "receive_loop unread buf q = receive_loop (drop (8 * k) unread) b2 q1"
      using False k(1) b(1,2) q(1) chunk
      by (subst receive_loop.simps) (simp add: less.prems(2) bytes_to_read_eq socket_sizes Let_def flip: k_def)
    obtain ls1 where ls1: "queue_of (ls @ ls1) q1" "kept (length ls < 1023) (concat ls1) (take k T)"
      "short (take k T) \<Longrightarrow> list_all short ls1"
    proof
      show "queue_of (ls @ (if length ls < 1023 then [take k T] else [])) q1" using q(2) by (simp split: if_splits)
    qed (auto simp: kept_def)
    have b2: "length b2 = 65540" using b(3) by (simp add: packet_def)
    show ?thesis
    proof (cases "length unread < 65536")
      case True
      then have "length (drop (8 * k) unread) \<le> 8" by (simp add: k_def minus_mult_div_eq_mod)
      then have "receive_loop unread buf q = Some (drop (8 * k) unread, b2, q1)"
        unfolding step by (subst receive_loop.simps) (simp add: socket_sizes Let_def)
      moreover have "list_all short ls1" by (rule ls1(3)) (use True in \<open>simp add: k_def\<close>)
      moreover have "kept (length unread < 65536 \<and> length ls < 1023) (concat ls1) (take k T)"
        using ls1(2) by (rule kept_weaken) simp
      ultimately show ?thesis using ls1(1) b2 rest kT by blast
    next
      case long: False
      have shorter: "length (drop (8 * k) unread) < length unread" using False k(1) by simp
      obtain m u' buf' q' ls' where r: "receive_loop (drop (8 * k) unread) b2 q1 = Some (u', buf', q')" "length buf' = 65540"
        "m \<le> length (drop k T)" "u' @ rest = stereo_bytes (drop m (drop k T))" "queue_of ((ls @ ls1) @ ls') q'"
        "subseq (concat ls') (take m (drop k T))"
        using less.IH [OF shorter ls1(1) b2 rest] unfolding kept_def by blast
      have "subseq (concat ls1) (take k T)" using ls1(2) by (simp add: kept_def)
      from list_emb_append_mono [OF this r(6)]
      have "kept (length unread < 65536 \<and> length ls < 1023) (concat (ls1 @ ls')) (take (k + m) T)"
        using long by (simp add: take_add kept_def)
      moreover have "receive_loop unread buf q = Some (u', buf', q')" using step r(1) by simp
      moreover have "k + m \<le> length T" "u' @ rest = stereo_bytes (drop (k + m) T)" "queue_of (ls @ ls1 @ ls') q'"
        using r(3-5) kT by (simp_all add: add.commute)
      ultimately show ?thesis using r(2) long by blast
    qed
  qed
qed

lemma receiveAudio_receives:
  assumes "mixing C ls s" and "online unread out s" and "unread @ rest = stereo_bytes T"
  shows "\<exists>s' m unread' ls'. receiveAudio s = Some (True, s') \<and> mixing C (ls @ ls') s' \<and> online unread' out s' \<and>
    fromPlugin s' = fromPlugin s \<and> m \<le> length T \<and> unread' @ rest = stereo_bytes (drop m T) \<and>
    kept (length unread < 65536 \<and> length ls < 1023) (concat ls') (take m T) \<and>
    (length unread < 65536 \<longrightarrow> list_all short ls')"
proof -
  obtain c where c: "mSocketPtr (worker s) = Some c" "sock_connected c" "sock_in c = unread" "sock_out c = out"
    "\<not> mStopRequested (worker s)" using assms(2) by (auto simp: online_def)
  have r: "queue_of ls (mReceiveQueue s)" "length (wk_recvBuffer (worker s)) = 65540"
    using assms(1) by (simp_all add: mixing_def receiver_ok_def)
  obtain m unread' buf' q' ls' where l: "receive_loop unread (wk_recvBuffer (worker s)) (mReceiveQueue s) = Some (unread', buf', q')"
    "length buf' = 65540" "m \<le> length T" "unread' @ rest = stereo_bytes (drop m T)" "queue_of (ls @ ls') q'"
    "kept (length unread < 65536 \<and> length ls < 1023) (concat ls') (take m T)" "length unread < 65536 \<longrightarrow> list_all short ls'"
    using receive_loop_receives [OF r assms(3)] by blast
  then show ?thesis
    using c assms(1)
    by (intro exI [of _ "s\<lparr>mReceiveQueue := q', worker := (worker s)\<lparr>wk_recvBuffer := buf', mSocketPtr := Some (c\<lparr>sock_in := unread'\<rparr>)\<rparr>\<rparr>"]
        exI [of _ m] exI [of _ unread'] exI [of _ ls'])
      (auto simp: receiveAudio_def mixing_def receiver_ok_def online_def)
qed

end
