(* ===== verification/AudioSocketLink.thy ===== *)
theory AudioSocketLink
  imports AudioSocketSpec
begin

text \<open>
  Two processes joined by an audio socket: what is captured by the callbacks of one is played by those of the other, and
  what is lost when a packet is as long as the memory.
\<close>

section \<open>Two processes\<close>

text \<open>
  The audio of one process on its way to the other; the way back is the same with the processes exchanged.  The
  socket carries some of the bytes at a time.
\<close>

datatype link_op = Capture nat channels | SendOut socket_env | Carry nat | Receive | is_Play: Play nat channels channels

type_synonym link = "AudioSocket \<times> AudioSocket"

definition carry :: "nat \<Rightarrow> link \<Rightarrow> link" where
  "carry n l = (case l of (a, b) \<Rightarrow> (case (mSocketPtr (worker a), mSocketPtr (worker b)) of
       (Some c, Some d) \<Rightarrow> (a\<lparr>worker := (worker a)\<lparr>mSocketPtr := Some (c\<lparr>sock_out := drop n (sock_out c)\<rparr>)\<rparr>\<rparr>,
         b\<lparr>worker := (worker b)\<lparr>mSocketPtr := Some (d\<lparr>sock_in := sock_in d @ take n (sock_out c)\<rparr>)\<rparr>\<rparr>)
     | _ \<Rightarrow> (a, b)))"

fun link_step :: "link_op \<Rightarrow> link \<Rightarrow> (link \<times> channels list) option" where
  "link_step (Capture n inputs) (a, b) = do { a \<leftarrow> to_compute n inputs a; Some ((a, b), []) }"
| "link_step (SendOut E) (a, b) = do { (_, a) \<leftarrow> sendAudio E a; Some ((a, b), []) }"
| "link_step (Carry n) l = Some (carry n l, [])"
| "link_step Receive (a, b) = do { (_, b) \<leftarrow> receiveAudio b; Some ((a, b), []) }"
| "link_step (Play n inputs outputs) (a, b) = do { (out, b) \<leftarrow> from_compute n inputs outputs b; Some ((a, b), [out]) }"

fun link_run :: "link_op list \<Rightarrow> link \<Rightarrow> (link \<times> channels list) option" where
  "link_run [] l = Some (l, [])"
| "link_run (op # ops) l = do { (l, out) \<leftarrow> link_step op l; (l, outs) \<leftarrow> link_run ops l; Some (l, out @ outs) }"

text \<open>What was captured, and what is played when certain samples are mixed in.\<close>

fun captured :: "int \<Rightarrow> link_op list \<Rightarrow> stereo list" where
  "captured C [] = []"
| "captured C (Capture n inputs # ops) = block C (min n 8192) inputs @ captured C ops"
| "captured C (_ # ops) = captured C ops"

fun played :: "int \<Rightarrow> bool \<Rightarrow> link_op list \<Rightarrow> stereo list list \<Rightarrow> channels list" where
  "played C pass (Play n inputs outputs # ops) (h # hs) = mix C 0 h (base C n pass inputs outputs) # played C pass ops hs"
| "played C pass (Play n inputs outputs # ops) [] = []"
| "played C pass (_ # ops) hs = played C pass ops hs"
| "played C pass [] hs = []"

fun buffers_ok :: "int \<Rightarrow> int \<Rightarrow> bool \<Rightarrow> link_op \<Rightarrow> bool" where
  "buffers_ok C D pass (Capture n inputs) = stereo_room C (min n 8192) inputs"
| "buffers_ok C D pass (Play n inputs outputs) = (room D n outputs \<and> (pass \<longrightarrow> room D n inputs))"
| "buffers_ok C D pass _ = True"

text \<open>
  A step in which nothing is lost: the queue has room for the packet, at most 8191 samples are received at once, and
  the check of the queue, when it is due, finds that it was empty at times.
\<close>

fun careful :: "link_op \<Rightarrow> link \<Rightarrow> bool" where
  "careful (Capture n inputs) (a, b) = (ring_size (mSendQueue a) < 1023)"
| "careful Receive (a, b) = (ring_size (mReceiveQueue b) < 1023 \<and>
     (case mSocketPtr (worker b) of Some c \<Rightarrow> length (sock_in c) < 65536 | None \<Rightarrow> True))"
| "careful (Play n inputs outputs) (a, b) = keeps_packets n b"
| "careful _ _ = True"

fun careful_run :: "link_op list \<Rightarrow> link \<Rightarrow> bool" where
  "careful_run [] l = True"
| "careful_run (op # ops) l = (careful op l \<and> (case link_step op l of Some (l, _) \<Rightarrow> careful_run ops l | None \<Rightarrow> True))"

text \<open>The states in between: packets in the two queues, and samples on the socket.\<close>

definition link_inv :: "int \<Rightarrow> int \<Rightarrow> bool \<Rightarrow> stereo list list \<Rightarrow> stereo list list \<Rightarrow> stereo list \<Rightarrow> link \<Rightarrow> bool" where
  "link_inv C D pass la lb T l = (case l of (a, b) \<Rightarrow> 0 < C \<and> sending C la a \<and> mixing D lb b \<and>
     mPassthrough (fromPlugin b) = pass \<and>
     (\<exists>i r j w. online i r a \<and> online j w b \<and> j @ r = stereo_bytes T))"

lemma link_invI:
  "0 < C \<Longrightarrow> sending C la a \<Longrightarrow> mixing D lb b \<Longrightarrow> mPassthrough (fromPlugin b) = pass \<Longrightarrow> online i r a \<Longrightarrow>
    online j w b \<Longrightarrow> j @ r = stereo_bytes T \<Longrightarrow> link_inv C D pass la lb T (a, b)"
  unfolding link_inv_def by auto

definition in_flight :: "stereo list list \<Rightarrow> stereo list list \<Rightarrow> stereo list \<Rightarrow> link \<Rightarrow> stereo list" where
  "in_flight la lb T l = extras (fromPlugin (snd l)) @ concat lb @ T @ concat la"

lemma online_carry:
  assumes "online i r a" and "online j w b"
  shows "\<exists>a' b'. carry n (a, b) = (a', b') \<and> online i (drop n r) a' \<and> online (j @ take n r) w b' \<and>
    sending C la a' = sending C la a \<and> mixing D lb b' = mixing D lb b \<and> fromPlugin b' = fromPlugin b"
  using assms by (auto simp: carry_def online_def sending_def mixing_def isInitialized_def)

lemma link_step_keeps:
  assumes "link_inv C D pass la lb T l" and "buffers_ok C D pass op"
  shows "\<exists>l' out la' lb' T' h. link_step op l = Some (l', out) \<and> link_inv C D pass la' lb' T' l' \<and>
    (\<forall>ops hs. out @ played D pass ops hs = played D pass (op # ops) (h @ hs)) \<and> length h = (if is_Play op then 1 else 0) \<and>
    kept (careful op l \<and> list_all short lb) (concat h @ in_flight la' lb' T' l') (in_flight la lb T l @ captured C [op]) \<and>
    (careful op l \<and> list_all short lb \<longrightarrow> list_all short lb')"
proof -
  obtain a b where l: "l = (a, b)" by (cases l)
  obtain i r j w where inv: "0 < C" "sending C la a" "mixing D lb b" "mPassthrough (fromPlugin b) = pass"
    "online i r a" "online j w b" "j @ r = stereo_bytes T"
    using assms(1) by (auto simp: link_inv_def l)
  let ?result = "\<lambda>l' out la' lb' T' h. link_step op l = Some (l', out) \<and> link_inv C D pass la' lb' T' l' \<and>
    (\<forall>ops hs. out @ played D pass ops hs = played D pass (op # ops) (h @ hs)) \<and> length h = (if is_Play op then 1 else 0) \<and>
    kept (careful op l \<and> list_all short lb) (concat h @ in_flight la' lb' T' l') (in_flight la lb T l @ captured C [op]) \<and>
    (careful op l \<and> list_all short lb \<longrightarrow> list_all short lb')"
  show ?thesis
  proof (cases op)
    case (Capture n inputs)
    let ?l = "block C (min n 8192) inputs" and ?la = "if length la < 1023 then la @ [block C (min n 8192) inputs] else la"
    obtain a' where a': "to_compute n inputs a = Some a'" "worker a' = worker a" "sending C ?la a'"
      using to_compute_pushes [OF inv(2), of n inputs] assms(2) inv(1) Capture by auto
    have "ring_size (mSendQueue a) = length la" using inv(2) by (simp add: sending_def queue_length)
    moreover have "kept (length la < 1023) (concat ?la) (concat la @ ?l)" by (auto simp: kept_def)
    from kept_append [OF kept_refl this, of True "extras (fromPlugin b) @ concat lb @ T"]
    have "kept (length la < 1023) (in_flight ?la lb T (a', b)) (in_flight la lb T l @ ?l)"
      by (simp add: in_flight_def l)
    moreover have "link_inv C D pass ?la lb T (a', b)"
      using inv a'(2,3) by (auto simp: link_inv_def online_def)
    ultimately have "?result (a', b) [] ?la lb T []"
      using a'(1) Capture by (auto simp: l intro: kept_weaken)
    then show ?thesis by blast
  next
    case (SendOut E)
    obtain ok a' where a': "sendAudio E a = Some (ok, a')" "sending C [] a'" "online i (r @ stereo_bytes (concat la)) a'"
      using sendAudio_sends [OF inv(2,5)] by blast
    have "j @ r @ stereo_bytes (concat la) = stereo_bytes (T @ concat la)" using inv(7) by (metis append_assoc stereo_bytes_simps(3))
    then have "link_inv C D pass [] lb (T @ concat la) (a', b)"
      by (rule link_invI [OF inv(1) a'(2) inv(3,4) a'(3) inv(6)])
    moreover have "in_flight [] lb (T @ concat la) (a', b) = in_flight la lb T l" by (simp add: in_flight_def l)
    ultimately have "?result (a', b) [] [] lb (T @ concat la) []" using a'(1) SendOut by (simp add: l)
    then show ?thesis by blast
  next
    case (Carry n)
    obtain a' b' where c: "carry n (a, b) = (a', b')" "online i (drop n r) a'" "online (j @ take n r) w b'"
      "sending C la a'" "mixing D lb b'" "fromPlugin b' = fromPlugin b"
      using online_carry [OF inv(5,6), of n C la D lb] inv(2,3) by auto
    have "link_inv C D pass la lb T (a', b')"
      by (rule link_invI [OF inv(1) c(4,5) _ c(2,3)]) (simp_all add: c(6) inv(4,7))
    moreover have "in_flight la lb T (a', b') = in_flight la lb T l" by (simp add: in_flight_def l c(6))
    ultimately have "?result (a', b') [] la lb T []" using c(1) Carry by (simp add: l)
    then show ?thesis by blast
  next
    case Receive
    obtain b' m j' lb' where b': "receiveAudio b = Some (True, b')" "mixing D (lb @ lb') b'" "online j' w b'"
      "fromPlugin b' = fromPlugin b" "m \<le> length T" "j' @ r = stereo_bytes (drop m T)"
      "kept (length j < 65536 \<and> length lb < 1023) (concat lb') (take m T)" "length j < 65536 \<longrightarrow> list_all short lb'"
      using receiveAudio_receives [OF inv(3,6,7)] by blast
    have ring: "ring_size (mReceiveQueue b) = length lb"
      using inv(3) by (simp add: mixing_def receiver_ok_def queue_length)
    have sock: "\<exists>c. mSocketPtr (worker b) = Some c \<and> sock_in c = j" using inv(6) by (auto simp: online_def)
    have "link_inv C D pass la (lb @ lb') (drop m T) (a, b')"
      by (rule link_invI [OF inv(1,2) b'(2) _ inv(5) b'(3,6)]) (simp add: b'(4) inv(4))
    moreover have T: "take m T @ drop m T @ concat la = T @ concat la" by (metis append_assoc append_take_drop_id)
    have "kept (length j < 65536 \<and> length lb < 1023) (concat lb' @ drop m T @ concat la) (T @ concat la)"
      using kept_append [OF b'(7) kept_refl, of True "drop m T @ concat la"] unfolding T by simp
    from kept_append [OF kept_refl this, of True "extras (fromPlugin b) @ concat lb"]
    have "kept (length j < 65536 \<and> length lb < 1023) (in_flight la (lb @ lb') (drop m T) (a, b')) (in_flight la lb T l)"
      by (simp add: in_flight_def l b'(4))
    moreover have "careful op l \<Longrightarrow> length j < 65536 \<and> length lb < 1023" using Receive ring sock by (auto simp: l)
    ultimately have "?result (a, b') [] la (lb @ lb') (drop m T) []"
      using b'(1,8) Receive kept_weaken [of _ "in_flight la (lb @ lb') (drop m T) (a, b')" "in_flight la lb T l"
          "careful op l \<and> list_all short lb"]
      by (simp add: l)
    then show ?thesis by blast
  next
    case (Play n inputs outputs)
    obtain h b' lb' where b': "from_compute n inputs outputs b = Some (mix D 0 h (base D n pass inputs outputs), b')"
      "mixing D lb' b'" "mPassthrough (fromPlugin b') = pass" "worker b' = worker b" "\<exists>ks. lb = ks @ lb'"
      "kept (list_all short lb \<and> keeps_packets n b) (h @ extras (fromPlugin b') @ concat lb') (extras (fromPlugin b) @ concat lb)"
      using from_compute_mixes [OF inv(3), of n outputs inputs] assms(2) inv(4) Play by auto
    have "link_inv C D pass la lb' T (a, b')" using inv b'(2-4) by (auto simp: link_inv_def online_def)
    moreover have "kept (list_all short lb \<and> keeps_packets n b) (concat [h] @ in_flight la lb' T (a, b')) (in_flight la lb T l)"
      using kept_append [OF b'(6) kept_refl, of True "T @ concat la"] by (simp add: in_flight_def l)
    ultimately have "?result (a, b') [mix D 0 h (base D n pass inputs outputs)] la lb' T [h]"
      using b'(1,5) Play by (auto simp: l intro: kept_weaken)
    then show ?thesis by blast
  qed
qed

lemma captured_Cons: "captured C (op # ops) = captured C [op] @ captured C ops"
  by (cases op) simp_all

lemma link_run_keeps:
  assumes "link_inv C D pass la lb T l" and "list_all (buffers_ok C D pass) ops"
  shows "\<exists>l' outs la' lb' T' hs. link_run ops l = Some (l', outs) \<and> link_inv C D pass la' lb' T' l' \<and>
    outs = played D pass ops hs \<and> length hs = length (filter is_Play ops) \<and>
    kept (careful_run ops l \<and> list_all short lb) (concat hs @ in_flight la' lb' T' l') (in_flight la lb T l @ captured C ops)"
  using assms
proof (induction ops arbitrary: la lb T l)
  case Nil
  then have "link_run [] l = Some (l, []) \<and> link_inv C D pass la lb T l \<and> [] = played D pass [] [] \<and>
      length [] = length (filter is_Play []) \<and>
      kept (careful_run [] l \<and> list_all short lb) (concat [] @ in_flight la lb T l) (in_flight la lb T l @ captured C [])"
    by simp
  then show ?case by blast
next
  case (Cons op ops)
  have ok: "buffers_ok C D pass op" "list_all (buffers_ok C D pass) ops" using Cons.prems(2) by simp_all
  obtain l1 out la1 lb1 T1 h where step: "link_step op l = Some (l1, out)" "link_inv C D pass la1 lb1 T1 l1"
    "\<forall>ops hs. out @ played D pass ops hs = played D pass (op # ops) (h @ hs)" "length h = (if is_Play op then 1 else 0)"
    "kept (careful op l \<and> list_all short lb) (concat h @ in_flight la1 lb1 T1 l1) (in_flight la lb T l @ captured C [op])"
    "careful op l \<and> list_all short lb \<longrightarrow> list_all short lb1"
    using link_step_keeps [OF Cons.prems(1) ok(1)] by blast
  obtain l' outs la' lb' T' hs where run: "link_run ops l1 = Some (l', outs)" "link_inv C D pass la' lb' T' l'"
    "outs = played D pass ops hs" "length hs = length (filter is_Play ops)"
    "kept (careful_run ops l1 \<and> list_all short lb1) (concat hs @ in_flight la' lb' T' l') (in_flight la1 lb1 T1 l1 @ captured C ops)"
    using Cons.IH [OF step(2) ok(2)] by blast
  have "kept (careful_run ops l1 \<and> list_all short lb1) (concat h @ concat hs @ in_flight la' lb' T' l')
      ((concat h @ in_flight la1 lb1 T1 l1) @ captured C ops)"
    using kept_append [OF kept_refl [of True "concat h"] run(5)] by simp
  from kept_trans [OF this kept_append [OF step(5) kept_refl [of True "captured C ops"]]]
  have "kept (careful_run (op # ops) l \<and> list_all short lb) (concat (h @ hs) @ in_flight la' lb' T' l')
      (in_flight la lb T l @ captured C (op # ops))"
    using step(1,6) by (subst captured_Cons) (auto intro: kept_weaken)
  moreover have "link_run (op # ops) l = Some (l', played D pass (op # ops) (h @ hs))"
    using step(1,3) run(1,3) by simp
  moreover have "length (h @ hs) = length (filter is_Play (op # ops))" using step(4) run(4) by simp
  ultimately show ?case using run(2) by blast
qed

text \<open>Two processes that are connected and have not sent anything yet, and when nothing is on its way.\<close>

definition linked :: "int \<Rightarrow> int \<Rightarrow> AudioSocket \<Rightarrow> AudioSocket \<Rightarrow> bool" where
  "linked C D a b \<longleftrightarrow> 0 < C \<and> sending C [] a \<and> mixing D [] b \<and> online [] [] a \<and> online [] [] b \<and>
     extras (fromPlugin b) = []"

definition nothing_left :: "link \<Rightarrow> bool" where
  "nothing_left l \<longleftrightarrow> (case l of (a, b) \<Rightarrow> ring_empty (mSendQueue a) \<and> ring_empty (mReceiveQueue b) \<and>
     mNextExtraSample (fromPlugin b) = mLastExtraSample (fromPlugin b) \<and>
     (case (mSocketPtr (worker a), mSocketPtr (worker b)) of (Some c, Some d) \<Rightarrow> sock_out c = [] \<and> sock_in d = [] | _ \<Rightarrow> False))"

lemma linked_inv: "linked C D a b \<Longrightarrow> link_inv C D (mPassthrough (fromPlugin b)) [] [] [] (a, b) \<and> in_flight [] [] [] (a, b) = []"
  by (auto simp: linked_def in_flight_def intro: link_invI)

lemma nothing_in_flight:
  assumes "link_inv C D pass la lb T l" and "nothing_left l"
  shows "in_flight la lb T l = []"
proof -
  obtain a b where l: "l = (a, b)" by (cases l)
  obtain i r j w where inv: "sending C la a" "mixing D lb b" "online i r a" "online j w b" "j @ r = stereo_bytes T"
    using assms(1) by (auto simp: link_inv_def l)
  have "la = []" "lb = []"
    using inv(1,2) assms(2) queue_empty by (auto simp: sending_def mixing_def receiver_ok_def nothing_left_def l)
  moreover have "r = []" "j = []" using inv(3,4) assms(2) by (auto simp: online_def nothing_left_def l)
  moreover have "extras (fromPlugin b) = []"
    using inv(2) assms(2) extras_empty by (auto simp: mixing_def receiver_ok_def nothing_left_def l)
  moreover have "length (stereo_bytes T) = length (j @ r)" by (simp only: inv(5))
  ultimately show ?thesis by (simp add: in_flight_def l)
qed

text \<open>
  C14: Whatever the order of the callbacks, the turns of the workers and the bytes on the socket, two connected
  processes do not fault, and what the second mixes into its callbacks are the samples of the callbacks of the first, in order
  and each at most once; when every step has room none is lost, and when nothing is on its way all have been played.
\<close>

theorem audio_socket_stream:
  assumes "linked C D a b" and "list_all (buffers_ok C D (mPassthrough (fromPlugin b))) ops"
  shows "\<exists>l outs hs w. link_run ops (a, b) = Some (l, outs) \<and> outs = played D (mPassthrough (fromPlugin b)) ops hs \<and>
    length hs = length (filter is_Play ops) \<and> subseq (concat hs) (captured C ops) \<and>
    (careful_run ops (a, b) \<longrightarrow> concat hs @ w = captured C ops \<and> (nothing_left l \<longrightarrow> w = []))"
proof -
  obtain l outs la lb T hs where run: "link_run ops (a, b) = Some (l, outs)"
    "link_inv C D (mPassthrough (fromPlugin b)) la lb T l" "outs = played D (mPassthrough (fromPlugin b)) ops hs"
    "length hs = length (filter is_Play ops)"
    "kept (careful_run ops (a, b)) (concat hs @ in_flight la lb T l) (captured C ops)"
    using link_run_keeps [OF conjunct1 [OF linked_inv [OF assms(1)]] assms(2)] linked_inv [OF assms(1)]
    by (auto simp del: split_paired_Ex)
  have "subseq (concat hs) (concat hs @ in_flight la lb T l)" by (simp add: list_emb_prefix)
  then have "subseq (concat hs) (captured C ops)"
    using run(5) subseq_order.trans unfolding kept_def by blast
  moreover have "careful_run ops (a, b) \<Longrightarrow> concat hs @ in_flight la lb T l = captured C ops"
    using run(5) by (simp add: kept_def)
  ultimately show ?thesis using run(1-4) nothing_in_flight [OF run(2)] by blast
qed

section \<open>A packet as long as the memory\<close>

lemma receive_full_block:
  assumes "length T = 8192" and "queue_of [] q" and "length buf = 65540"
  shows "\<exists>buf' q'. receive_loop (stereo_bytes T) buf q = Some ([], buf', q') \<and> length buf' = 65540 \<and> queue_of [T] q'"
proof -
  obtain b1 b2 where b: "mem_write buf 4 (stereo_bytes T) = Some b1" "put_float 0 (float_of_int 8192) b1 = Some b2" "packet T b2"
    using received_packet [OF assms(3), of T] assms(1) by auto
  obtain k q' where q: "frame_push b2 q = Some (k, q')" "queue_of [T] q'"
    using queue_push [OF assms(2) b(3)] by auto
  have "receive_loop (stereo_bytes T) buf q = receive_loop [] b2 q'"
    using b(1,2) q(1) assms(1)
    by (subst receive_loop.simps) (simp add: assms(3) bytes_to_read_eq socket_sizes Let_def)
  moreover have "receive_loop [] b2 q' = Some ([], b2, q')" by (simp add: receive_loop.simps socket_sizes Let_def)
  ultimately show ?thesis using q(2) b(3) by (auto simp: packet_def)
qed

lemma mix_full_block:
  assumes "receiver_ok [T] p q" and "extras p = []" and "length T = 8192" and "0 < n"
  shows "\<exists>q' p'. mix_received n 0 out q p = Some (out, q', p') \<and> receiver_ok [] p' q' \<and> extras p' = [] \<and> same_settings p p'"
proof -
  have idle: "use_extras n 0 out p' = Some (0, out, p')" if "extras_ok p'" "extras p' = []" for p'
    using that extras_empty by (simp add: use_extras.simps)
  obtain buf q1 where pop: "frame_pop (from_buffer p) q = Some (True, buf, q1)" "packet T buf" "queue_of [] q1"
    using queue_pop [of T "[]" q "from_buffer p"] assms(1) by (auto simp: receiver_ok_def)
  let ?p = "p\<lparr>from_buffer := buf\<rparr>"
  have "extras_ok ?p" "extras ?p = []" "packet T (from_buffer ?p)" "same_settings p ?p"
    using assms(1,2) pop(2) by (simp_all add: receiver_ok_def extras_ok_def extras_def same_settings_def)
  then obtain p2 where t: "take_packet ?p = Some p2" "extras_ok p2" "extras p2 = []" "same_settings p p2" "from_buffer p2 = buf"
    using take_packet_takes [of ?p T] assms(3) same_settings_trans [of p ?p] by auto
  obtain q2 where q2: "frame_pop buf q1 = Some (False, buf, q2)" "queue_of [] q2" using queue_pop_empty [OF pop(3)] by blast
  have buf: "p2\<lparr>from_buffer := buf\<rparr> = p2"
    using t(5) by (metis FromAudioSocketPlugin.surjective FromAudioSocketPlugin.update_convs(1))
  have "mix_received n 0 out q p = mix_received n 0 out q1 p2"
    using idle [of p] assms(1,2,4) pop(1) t(1) by (subst mix_received.simps) (simp add: receiver_ok_def)
  also have "\<dots> = Some (out, q2, p2)"
    using idle [OF t(2,3)] assms(4) q2(1) t(5) buf by (subst mix_received.simps) simp
  finally show ?thesis using t(2-5) q2(2) pop(2) by (auto simp: receiver_ok_def packet_def)
qed

lemma play_full_block:
  assumes "mixing D [T] s" and "extras (fromPlugin s) = []" and "length T = 8192" and "0 < n" and "room D n out"
    and "mPassthrough (fromPlugin s) \<Longrightarrow> room D n inp"
  shows "\<exists>s'. from_compute n inp out s = Some (base D n (mPassthrough (fromPlugin s)) inp out, s') \<and>
    mixing D [] s' \<and> extras (fromPlugin s') = [] \<and> worker s' = worker s"
proof -
  let ?p = "fromPlugin s"
  have C: "from_channels ?p = D" "receiver_ok [T] ?p (mReceiveQueue s)" "rate_ok ?p" "pl_inited ?p" "mIsEstablished (worker s)"
    using assms(1) by (simp_all add: mixing_def rate_ok_def)
  note copy = copy_inputs_eq [of ?p n out inp, unfolded C(1), OF assms(5,6)]
  obtain q1 p1 where m: "mix_received n 0 (base D n (mPassthrough ?p) inp out) (mReceiveQueue s) ?p =
      Some (base D n (mPassthrough ?p) inp out, q1, p1)" "receiver_ok [] p1 q1" "extras p1 = []" "same_settings ?p p1"
    using mix_full_block [OF C(2) assms(2-4)] by blast
  have "rate_ok p1" using C(3) m(4) by (simp add: rate_ok_def same_settings_def)
  then obtain q2 p2 where u: "updateQueueStats n q1 p1 = Some (q2, p2)" "receiver_ok [] p2 q2" "rate_ok p2"
    "extras p2 = []" "from_channels p2 = D"
    using updateQueueStats_keeps [OF m(2), of n] m(3,4) C(1) by (auto simp: same_settings_def)
  then show ?thesis
    using C(4,5) copy(1) m(1) assms(1)
    by (intro exI [of _ "s\<lparr>fromPlugin := p2, mReceiveQueue := q2\<rparr>"]) (simp add: from_compute_def mixing_def Let_def)
qed

lemma captures_queue:
  assumes "sending C la a" and "0 < C" and "list_all (\<lambda>(n, x). n \<le> 8192 \<and> stereo_room C n x) bl" and "length la + length bl \<le> 1023"
  shows "\<exists>a'. link_run (map (\<lambda>(n, x). Capture n x) bl) (a, b) = Some ((a', b), []) \<and> worker a' = worker a \<and>
    sending C (la @ map (\<lambda>(n, x). block C n x) bl) a'"
  using assms
proof (induction bl arbitrary: la a)
  case (Cons nx bl)
  obtain n x where nx: "nx = (n, x)" by (cases nx)
  have n: "n \<le> 8192" "stereo_room C n x" "length la < 1023" using Cons.prems(3,4) by (simp_all add: nx)
  then obtain a1 where a1: "to_compute n x a = Some a1" "worker a1 = worker a" "sending C (la @ [block C n x]) a1"
    using to_compute_pushes [OF Cons.prems(1), of n x] Cons.prems(2) by (auto simp: min_absorb1)
  then obtain a' where "link_run (map (\<lambda>(n, x). Capture n x) bl) (a1, b) = Some ((a', b), [])" "worker a' = worker a1"
    "sending C ((la @ [block C n x]) @ map (\<lambda>(n, x). block C n x) bl) a'"
    using Cons.IH [OF a1(3)] Cons.prems(2-4) by auto
  then show ?case using a1(1,2) by (simp add: nx)
qed simp

lemma captured_blocks:
  "list_all (\<lambda>(n, x). n \<le> 8192) bl \<Longrightarrow>
    captured C (map (\<lambda>(n, x). Capture n x) bl) = concat (map (\<lambda>(n, x). block C n x) bl)"
  by (induction bl) (auto simp: min_absorb1)

lemma link_run_append:
  "link_run (xs @ ys) l = do { (l, o1) \<leftarrow> link_run xs l; (l, o2) \<leftarrow> link_run ys l; Some (l, o1 @ o2) }"
  by (induction xs arbitrary: l) (auto split: Option.bind_splits)

text \<open>
  C27: When exactly 8192 samples have gathered on the socket, they are received as one packet, whose write position
  comes round to the read position: the memory counts as empty, the callback plays none of them, and nothing is left.
\<close>

theorem full_block_lost:
  assumes "linked C D a b" and "list_all (\<lambda>(n, x). n \<le> 8192 \<and> stereo_room C n x) bl" and "length bl \<le> 1023"
    and "length (captured C (map (\<lambda>(n, x). Capture n x) bl)) = 8192" and "0 < n" and "room D n out"
    and "mPassthrough (fromPlugin b) \<Longrightarrow> room D n inp"
  shows "\<exists>l. link_run (map (\<lambda>(n, x). Capture n x) bl @ [SendOut E, Carry 65536, Receive, Play n inp out]) (a, b) =
    Some (l, [base D n (mPassthrough (fromPlugin b)) inp out]) \<and> nothing_left l"
proof -
  let ?bs = "map (\<lambda>(n, x). block C n x) bl" and ?T = "concat (map (\<lambda>(n, x). block C n x) bl)"
  have lk: "0 < C" "sending C [] a" "mixing D [] b" "online [] [] a" "online [] [] b" "extras (fromPlugin b) = []"
    using assms(1) by (simp_all add: linked_def)
  have "list_all (\<lambda>(n, x). n \<le> 8192) bl" using assms(2) by (auto simp: list_all_iff)
  then have T: "length ?T = 8192" using assms(4) captured_blocks [of bl C] by simp
  obtain a1 where a1: "link_run (map (\<lambda>(n, x). Capture n x) bl) (a, b) = Some ((a1, b), [])" "worker a1 = worker a"
    "sending C ?bs a1"
    using captures_queue [OF lk(2,1) assms(2), of b] assms(3) by auto
  have "online [] [] a1" using lk(4) a1(2) by (simp add: online_def)
  then obtain ok a2 where a2: "sendAudio E a1 = Some (ok, a2)" "sending C [] a2" "online [] (stereo_bytes ?T) a2"
    using sendAudio_sends [OF a1(3)] by fastforce
  obtain a3 b3 where c: "carry 65536 (a2, b) = (a3, b3)" "online [] [] a3" "online (stereo_bytes ?T) [] b3"
    "sending C [] a3" "mixing D [] b3" "fromPlugin b3 = fromPlugin b"
    using online_carry [OF a2(3) lk(5), of 65536 C "[]" D "[]"] a2(2) lk(3) T by (auto simp del: length_concat)
  obtain c3 where c3: "mSocketPtr (worker b3) = Some c3" "sock_connected c3" "sock_in c3 = stereo_bytes ?T" "sock_out c3 = []"
    "\<not> mStopRequested (worker b3)" using c(3) by (auto simp: online_def)
  obtain buf q where r: "receive_loop (stereo_bytes ?T) (wk_recvBuffer (worker b3)) (mReceiveQueue b3) = Some ([], buf, q)"
    "length buf = 65540" "queue_of [?T] q"
    using receive_full_block [OF T, of "mReceiveQueue b3" "wk_recvBuffer (worker b3)"] c(5)
    by (auto simp: mixing_def receiver_ok_def)
  let ?b4 = "b3\<lparr>mReceiveQueue := q, worker := (worker b3)\<lparr>wk_recvBuffer := buf, mSocketPtr := Some (c3\<lparr>sock_in := []\<rparr>)\<rparr>\<rparr>"
  have b4: "receiveAudio b3 = Some (True, ?b4)" using c3 r(1) by (simp add: receiveAudio_def)
  have "mixing D [?T] ?b4" using c(5) r(2,3) by (simp add: mixing_def receiver_ok_def)
  then obtain b5 where b5: "from_compute n inp out ?b4 = Some (base D n (mPassthrough (fromPlugin b)) inp out, b5)"
    "mixing D [] b5" "extras (fromPlugin b5) = []" "worker b5 = worker ?b4"
    using play_full_block [of D ?T ?b4 n out inp] T assms(5-7) c(6) lk(6) by auto
  have "nothing_left (a3, b5)"
    using c(2,4) b5(2-4) extras_empty queue_empty
    by (auto simp: nothing_left_def sending_def mixing_def receiver_ok_def online_def)
  moreover have "link_run [SendOut E, Carry 65536, Receive, Play n inp out] (a1, b) =
      Some ((a3, b5), [base D n (mPassthrough (fromPlugin b)) inp out])"
    using a2(1) c(1) b4 b5(1) by simp
  ultimately show ?thesis using a1(1) by (simp add: link_run_append)
qed

section \<open>Witnesses\<close>

text \<open>A socket that a process has opened, once the bytes of its headers have been read by the peer.\<close>

definition opened :: "socket_env \<Rightarrow> int \<Rightarrow> int \<Rightarrow> channels \<Rightarrow> AudioSocket \<Rightarrow> AudioSocket option" where
  "opened E rate n inputs s = do {
     s \<leftarrow> to_compute (nat n) inputs (AudioSocket_connect rate n s);
     (ok, s) \<leftarrow> worker_connect E s;
     if ok then Some (s\<lparr>worker := (worker s)\<lparr>mSocketPtr := map_option (\<lambda>c. c\<lparr>sock_out := []\<rparr>) (mSocketPtr (worker s))\<rparr>\<rparr>) else None
   }"

lemma opened_ready:
  assumes "rate \<in> {44100, 48000, 96000}" and "8 \<le> n" and "2 \<le> m" and "m < 65536"
    and "server_found E" and "bytes_written E" and "arrived E = Some (le_bytes_int 4 rate @ le_bytes_int 2 m)"
    and "length gx = 2" and "length (gx ! 0) = 8192" and "length (gx ! 1) = 8192"
  shows "\<exists>s. opened E rate n inputs (AudioSocket_new g1 g2 gx g None retry) = Some s \<and> sending 2 [] s \<and> mixing 2 [] s \<and>
    online [] [] s \<and> extras (fromPlugin s) = [] \<and> \<not> mPassthrough (fromPlugin s)"
proof -
  have q: "queue_of [] (WaitFreeFrameBuffer_new 1024 g 65540)"
    using frames_ok_new [of 1024 65540 g] by (simp add: queue_of_def)
  have hdr: "of_le_bytes (le_bytes_int 4 rate) = nat rate" "of_le_bytes (le_bytes_int 2 m) = nat m"
    using assms(1,3,4) by (auto simp: le_bytes_int_def of_le_bytes_le_bytes simp del: le_bytes.simps)
  have "int32_range (rate * 2)" using assms(1) by (auto simp: int32_range_def)
  moreover have "nat rate = 44100 \<or> nat rate = 48000 \<or> nat rate = 96000" "rate \<le> 2000000" using assms(1) by auto
  moreover have "2 \<le> nat m" "int (nat rate) = rate" "0 < rate" "rate \<noteq> 0" "n \<noteq> 0" using assms(1-3) by auto
  ultimately show ?thesis
    using assms q hdr
    by (simp add: opened_def AudioSocket_new_def AudioSocket_connect_def socket_plugin_init_def plugin_init_def to_compute_def
        isInitialized_def worker_connect_def client_connect_def socket_write_def sendAudioHeader_def readAudioHeader_def
        from_handleConnectionEstablished_def resetQueueStats_def int32_range_def socket_sizes sending_def mixing_def
        receiver_ok_def rate_ok_def extras_ok_def extras_def online_def ring_distance_def Let_def)
qed

definition peer_env :: socket_env where
  "peer_env = \<lparr>server_found = True, bytes_written = True, arrived = Some (le_bytes_int 4 48000 @ le_bytes_int 2 128)\<rparr>"

lemma linked_sockets: "\<exists>s. linked 2 2 s s \<and> \<not> mPassthrough (fromPlugin s)"
  using opened_ready [of 48000 128 128 peer_env "[replicate 8192 0, replicate 8192 0]" "[]" 0 0 "\<lambda>_ _. 0" False]
  by (auto simp: peer_env_def linked_def)

definition sample_ops :: "link_op list" where
  "sample_ops = [Capture 2 [[1, 2], [3, 4]], SendOut peer_env, Carry 12, Receive, Play 2 [] [[0, 0], [0, 0]], Carry 4, Receive,
     Play 1 [] [[0], [0]]]"

theorem audio_socket_stream_witness:
  "\<exists>s l outs hs w. linked 2 2 s s \<and> link_run sample_ops (s, s) = Some (l, outs) \<and> outs = played 2 (mPassthrough (fromPlugin s)) sample_ops hs \<and>
    length hs = length (filter is_Play sample_ops) \<and> subseq (concat hs) (captured 2 sample_ops) \<and>
    (careful_run sample_ops (s, s) \<longrightarrow> concat hs @ w = captured 2 sample_ops \<and> (nothing_left l \<longrightarrow> w = []))"
proof -
  obtain s where s: "linked 2 2 s s" "\<not> mPassthrough (fromPlugin s)" using linked_sockets by blast
  have "list_all (buffers_ok 2 2 (mPassthrough (fromPlugin s))) sample_ops"
    using s(2) by (simp add: sample_ops_def stereo_room_def room_def nth_Cons less_Suc_eq numeral_2_eq_2 split: nat.splits)
  from audio_socket_stream [OF s(1) this] s(1) show ?thesis by blast
qed

theorem full_block_lost_witness:
  "\<exists>s l. linked 2 2 s s \<and> link_run [Capture 4096 (replicate 2 (replicate 4096 1)), Capture 4096 (replicate 2 (replicate 4096 1)),
      SendOut peer_env, Carry 65536, Receive, Play 1 [] [[7], [7]]] (s, s) =
    Some (l, [base 2 1 (mPassthrough (fromPlugin s)) [] [[7], [7]]]) \<and> nothing_left l"
proof -
  obtain s where s: "linked 2 2 s s" "\<not> mPassthrough (fromPlugin s)" using linked_sockets by blast
  let ?bl = "[(4096, replicate 2 (replicate 4096 1)), (4096, replicate 2 (replicate 4096 1))] :: (nat \<times> channels) list"
  have "list_all (\<lambda>(n, x). n \<le> 8192 \<and> stereo_room 2 n x) ?bl" by (simp add: stereo_room_def)
  moreover have "length (captured 2 (map (\<lambda>(n, x). Capture n x) ?bl)) = 8192" by (simp add: block_def)
  moreover have "room 2 1 [[7], [7]]" by (simp add: room_def nth_Cons split: nat.splits)
  ultimately have "\<exists>l. link_run (map (\<lambda>(n, x). Capture n x) ?bl @ [SendOut peer_env, Carry 65536, Receive, Play 1 [] [[7], [7]]]) (s, s) =
      Some (l, [base 2 1 (mPassthrough (fromPlugin s)) [] [[7], [7]]]) \<and> nothing_left l"
    by (intro full_block_lost [OF s(1)]) (use s(2) in simp_all)
  then have "\<exists>l. link_run [Capture 4096 (replicate 2 (replicate 4096 1)), Capture 4096 (replicate 2 (replicate 4096 1)),
      SendOut peer_env, Carry 65536, Receive, Play 1 [] [[7], [7]]] (s, s) =
    Some (l, [base 2 1 (mPassthrough (fromPlugin s)) [] [[7], [7]]]) \<and> nothing_left l"
    by (simp only: list.map prod.case append.simps)
  with s(1) show ?thesis by blast
qed

end
