(* ===== verification/TesterSpec.thy ===== *)
theory TesterSpec
  imports AudioInterface
begin

text \<open>
  The latency test on a loop: the impulses that \<^const>\<open>writeImpulse\<close> puts on its channel are carried
  with 16 bits over a line of \<open>d\<close> samples and come back to \<^const>\<open>lookForReturnPulse\<close>.  Every impulse is
  found, the delay measured is \<open>d\<close>, and the histogram counts it.
\<close>

section \<open>Amplitudes and time stamps over the line\<close>

definition hop :: "sample_t \<Rightarrow> sample_t" where
  "hop s = (case fromSampleToBitConversion s BIT16 of None \<Rightarrow> 0
     | Some bs \<Rightarrow> (case fromBitToSampleConversion bs BIT16 of None \<Rightarrow> 0 | Some x \<Rightarrow> x))"

lemma hop_value:
  assumes "float_val w = Fin x" and "\<bar>x\<bar> \<le> 1"
  shows "float_val (hop w) = Fin (of_int (cxx_round (x * 32767)) / 32768)"
proof -
  let ?q = "scale_clamp 32767 (Fin x)"
  have q: "?q = cxx_round (x * of_int 32767)" using assms by (intro scale_clamp_inside) simp_all
  have "\<bar>?q\<bar> \<le> 32767" by (rule scale_clamp_bound) simp
  then obtain s where "fromBitToSampleConversion (le_bytes_int 2 ?q) BIT16 = Some s"
    "float_val s = Fin (of_int ?q / 32768)"
    using decode_int(1) by blast
  moreover have "fromSampleToBitConversion w BIT16 = Some (le_bytes_int 2 ?q)"
    using assms(1) by (simp add: fromSampleToBitConversion_def)
  ultimately show ?thesis using q by (simp add: hop_def)
qed

lemma hop_near:
  assumes "float_val w = Fin x" and "\<bar>x\<bar> \<le> 1"
  shows "\<exists>y. float_val (hop w) = Fin y \<and> \<bar>y - x\<bar> \<le> 3 / 65536"
proof -
  have "\<bar>of_int (cxx_round (x * 32767)) / 32768 - x\<bar> \<le> 3 / 65536"
    using rescale_error [OF assms(2), of 32767] by simp
  then show ?thesis unfolding hop_value [OF assms] by blast
qed

lemma to_single_between:
  assumes "fl_rep 24 (-149) a" and "fl_rep 24 (-149) b" and "a \<le> x" and "x \<le> b"
    and "- (2 ^ 128) < a" and "b < 2 ^ 128"
  shows "\<exists>r. to_single x = Fin r \<and> a \<le> r \<and> r \<le> b"
proof -
  have "a \<le> float_round x" "float_round x \<le> b"
    unfolding float_round_def using assms(1-4) by (auto intro: fl_round_ge fl_round_le)
  moreover from this have "\<bar>float_round x\<bar> < 2 ^ 128" using assms(5,6) by (simp add: abs_less_iff)
  ultimately show ?thesis by (simp add: to_single_def Let_def)
qed

lemma to_single_exact: "fl_rep 24 (-149) x \<Longrightarrow> \<bar>x\<bar> < 2 ^ 128 \<Longrightarrow> to_single x = Fin x"
  by (simp add: to_single_def)

lemma wire_int_rep: "\<bar>k\<bar> \<le> 16777216 \<Longrightarrow> 0 \<le> j \<Longrightarrow> j \<le> 100 \<Longrightarrow> fl_rep 24 (-149) (of_int k / 2 ^ nat j)"
  unfolding fl_rep_def
  by (intro exI [of _ k] exI [of _ "- j"]) (auto simp: power_int_minus power_int_def field_simps)

lemma ampCellHeight_value: "ampCellHeight = Fin (5368709 / 536870912)"
  by code_simp

lemma noise_value: "d_mul (Fin (1/2)) ampCellHeight = Fin (5368709 / 1073741824)"
  by code_simp

lemma above_noise_iff: "above_noise (Fin y) \<longleftrightarrow> 5368709 / 1073741824 < y"
  unfolding above_noise_def noise_value by simp

definition amp_value :: "int \<Rightarrow> rat" where
  "amp_value k = of_int ([0, 5368709, 5368709, 16106127, 5368709, 3355443, 16106127, 9395241, 5368709, 12079595] ! nat k)
     / 2 ^ ([0, 29, 28, 29, 27, 26, 28, 27, 26, 27] ! nat k)"

text \<open>The amplitude of cell \<open>k\<close> is \<open>k\<close> times the height of a cell, rounded.\<close>

lemma amplitudes:
  "list_all (\<lambda>k. s_mul (to_single (of_int k)) ampCellHeight = Fin (amp_value k)) [1..9]"
  by code_simp

lemma amp_value_near:
  "list_all (\<lambda>k. \<bar>amp_value k - of_int k * (5368709 / 536870912)\<bar> \<le> 1 / 65536 \<and> 0 \<le> amp_value k \<and> amp_value k \<le> 1) [1..9]"
  by code_simp

lemma amp_value_rep: "fl_rep 24 (-149) (amp_value k)" if "k \<in> set [1..9]"
proof -
  have "k \<in> {1, 2, 3, 4, 5, 6, 7, 8, 9}" using that by auto
  then show ?thesis
    using wire_int_rep [of 5368709 29] wire_int_rep [of 5368709 28] wire_int_rep [of 16106127 29]
      wire_int_rep [of 5368709 27] wire_int_rep [of 3355443 26] wire_int_rep [of 16106127 28]
      wire_int_rep [of 9395241 27] wire_int_rep [of 5368709 26] wire_int_rep [of 12079595 27]
    by (auto simp: amp_value_def numeral_eq_Suc)
qed

text \<open>What comes back lies in the cell of what was sent, and above the noise.\<close>

lemma cell_of_near:
  assumes "\<bar>y - of_int k * (5368709 / 536870912)\<bar> \<le> 1 / 16384" and "1 \<le> k" and "k \<le> 9"
  shows "getImpulseCellNum (Fin y) = Some k" and "above_noise (Fin y)"
proof -
  let ?h = "5368709 / 536870912 :: rat"
  have "of_int k - 1/128 \<le> y / ?h" "y / ?h \<le> of_int k + 1/128"
    using assms(1) unfolding abs_le_iff by (simp_all add: field_simps)
  moreover have "fl_rep 24 (-149) (of_int k - 1/128)" "fl_rep 24 (-149) (of_int k + 1/128)"
    using wire_int_rep [of "128 * k - 1" 7] wire_int_rep [of "128 * k + 1" 7] assms(2,3)
    by (simp_all add: diff_divide_distrib add_divide_distrib)
  ultimately obtain r where r: "to_single (y / ?h) = Fin r" "of_int k - 1/128 \<le> r" "r \<le> of_int k + 1/128"
    using to_single_between [of "of_int k - 1/128" "of_int k + 1/128" "y / ?h"] assms(2,3) by auto
  have "fl_rep 24 (-149) (of_int k + 63/128)" "fl_rep 24 (-149) (of_int k + 65/128)"
    using wire_int_rep [of "128 * k + 63" 7] wire_int_rep [of "128 * k + 65" 7] assms(2,3)
    by (simp_all add: add_divide_distrib)
  then obtain q where q: "to_single (1/2 + r) = Fin q" "of_int k + 63/128 \<le> q" "q \<le> of_int k + 65/128"
    using to_single_between [of "of_int k + 63/128" "of_int k + 65/128" "1/2 + r"] r(2,3) assms(2,3) by auto
  then have "\<lfloor>q\<rfloor> = k" by (intro floor_unique) simp_all
  then show "getImpulseCellNum (Fin y) = Some k"
    using r(1) q(1) assms(2,3)
    by (simp add: getImpulseCellNum_def ampCellHeight_value numAmpCells_def checked_int_def int32_range_def)
  have "1 * (5368709 / 536870912) \<le> of_int k * (5368709 / 536870912 :: rat)"
    using assms(2) by (intro mult_right_mono) simp_all
  then have "5368709 / 1073741824 < y" using assms(1) unfolding abs_le_iff by linarith
  then show "above_noise (Fin y)" by (simp only: above_noise_iff)
qed

lemma time_stamp_value:
  assumes "0 \<le> S" and "S \<le> 16384"
  shows "float_val (time_stamp S) = Fin (- of_int S / 32768)"
proof -
  have s: "to_single (of_int S) = Fin (of_int S)"
    using assms by (intro to_single_exact small_int_rep) simp_all
  have r: "fl_rep 24 (-149) (- of_int S / 32768)" using wire_int_rep [of "- S" 15] assms by simp
  have b: "\<bar>- of_int S / 32768\<bar> \<le> (1 :: rat)" using assms by simp
  then have "to_single (- of_int S / 32768) = Fin (- of_int S / 32768)"
    using r by (intro to_single_exact) simp_all
  moreover have "float_val (float_bits (- of_int S / 32768)) = Fin (- of_int S / 32768)"
    using r b by (intro float_val_bits) simp_all
  ultimately show ?thesis using s by (simp add: time_stamp_def)
qed

text \<open>The scale of 32767 takes less than half a unit from a stamp up to 16384, and rounding restores it.\<close>

lemma stamp_over_line:
  assumes "0 \<le> S" and "S \<le> 16384"
  shows "float_val (hop (time_stamp S)) = Fin (- of_int S / 32768)"
proof -
  have v: "float_val (time_stamp S) = Fin (- of_int S / 32768)" using assms by (rule time_stamp_value)
  have "cxx_round (- of_int S / 32768 * 32767) = - S"
  proof (cases "S = 0")
    case False
    then have n: "\<not> (0 \<le> - of_int S / 32768 * (32767 :: rat))" using assms by (simp add: not_le)
    have "\<lfloor>1/2 + of_int S * 32767 / (32768 :: rat)\<rfloor> = S"
      using assms by (intro floor_unique) (simp_all add: field_simps)
    then show ?thesis using n by (simp add: cxx_round_def)
  qed (simp add: cxx_round_def floor_eq_iff)
  moreover have "\<bar>- of_int S / 32768\<bar> \<le> (1 :: rat)" using assms by simp
  ultimately show ?thesis using hop_value [OF v] by simp
qed

lemma stamp_silent: "0 \<le> S \<Longrightarrow> \<not> above_noise (Fin (- of_int S / 32768))"
  unfolding above_noise_iff not_less by (rule order_trans [of _ 0]) simp_all

lemma sint_of_int_u64: "0 \<le> k \<Longrightarrow> k < 9223372036854775808 \<Longrightarrow> sint (of_int k :: u64) = k"
  by (simp add: signed_of_int signed_take_bit_int_eq_self)

lemma sint_unat:
  assumes "unat w < 9223372036854775808"
  shows "sint (w :: u64) = int (unat w)"
proof -
  have "uint w < 9223372036854775808" unfolding uint_nat using assms by (simp del: of_nat_unat)
  then show ?thesis using sint_of_int_u64 [of "uint w"] by simp
qed

lemma elapsed_exact:
  assumes "float_val stamp = Fin (- of_int S / 32768)" and "0 \<le> S" and "S \<le> 16384"
    and "count = of_int (S + D)" and "0 \<le> D" and "D + int n < 4611686018427387904"
  shows "elapsed_samples count n stamp = Some (D + int n)"
proof -
  have "s_mul (Fin (- 32768)) (float_val stamp) = Fin (of_int S)"
    using assms(1-3) by (simp add: to_single_exact small_int_rep)
  moreover have "sint (count + of_nat n - of_int S) = D + int n"
  proof -
    have "count + of_nat n - of_int S = (of_int (D + int n) :: u64)" using assms(4) by simp
    then show ?thesis using assms(5,6) sint_of_int_u64 [of "D + int n"] by (simp only:)
  qed
  ultimately show ?thesis
    using assms(2,3) by (simp add: elapsed_samples_def dbl_trunc_def checked_int64_def int64_range_def)
qed

section \<open>The cell of a delay\<close>

lemma double_range: "(1099511627776 :: rat) < 2 ^ 1024"
  by simp

lemma to_double_between:
  assumes "dbl_rep a" and "dbl_rep b" and "a \<le> x" and "x \<le> b" and "0 \<le> a" and "b \<le> 1099511627776"
  shows "\<exists>r. to_double x = Fin r \<and> a \<le> r \<and> r \<le> b"
proof -
  have ab: "a \<le> dbl_round x" "dbl_round x \<le> b"
    using assms(1-4) by (auto intro: dbl_round_ge dbl_round_le)
  then have "\<bar>dbl_round x\<bar> \<le> 1099511627776" using assms(5,6) by linarith
  then have "\<not> 2 ^ 1024 \<le> \<bar>dbl_round x\<bar>" using double_range by (meson leD le_less_trans)
  then have "to_double x = Fin (dbl_round x)" unfolding to_double_def Let_def by (simp only: if_False)
  with ab show ?thesis by blast
qed

lemma to_double_int: "0 \<le> k \<Longrightarrow> k \<le> 1099511627776 \<Longrightarrow> to_double (of_int k) = Fin (of_int k)"
  using to_double_between [of "of_int k" "of_int k" "of_int k"] dbl_rep_of_int [of k] by auto

text \<open>At 48000 samples in a second a cell of 5 milliseconds has 240 samples.\<close>

definition delay_ms :: "int \<Rightarrow> flt" where
  "delay_ms d = d_div (d_mul (Fin 1000) (to_double (of_int d))) (Fin 48000)"

lemma latency_cell_48k:
  assumes "0 \<le> d" and "d < 1073741824"
  shows "latency_cell (delay_ms d) = min 19 (d div 240)"
proof -
  define q where "q = d div 240"
  have q: "0 \<le> q" "240 * q \<le> d" "d \<le> 240 * q + 239" "q < 1073741824" using assms by (auto simp: q_def)
  have k: "delay_ms d = to_double (of_int d / 48)"
    using to_double_int [of d] to_double_int [of "1000 * d"] assms by (simp add: delay_ms_def)
  have rep: "dbl_rep (of_int n / 512)" if "\<bar>n\<bar> \<le> 9007199254740992" for n
  proof -
    have "of_int n / 512 = (of_int n * 2 powi -9 :: rat)" by simp
    then show ?thesis unfolding dbl_rep_def fl_rep_def using that by (intro exI [of _ n] exI [of _ "-9"]) simp
  qed
  have d: "of_int (5 * q) \<le> of_int d / (48 :: rat)" "of_int d / 48 \<le> of_int (320 * q + 319) / (64 :: rat)"
    using q by (simp_all add: field_simps flip: of_int_le_iff)
  obtain x where x: "to_double (of_int d / 48) = Fin x" "of_int (5 * q) \<le> x" "x \<le> of_int (320 * q + 319) / 64"
  proof (rule exE [OF to_double_between [OF _ _ d]])
    show "dbl_rep (of_int (5 * q))" using q by (intro dbl_rep_of_int) simp
    have "of_int (320 * q + 319) / 64 = (of_int (8 * (320 * q + 319)) / 512 :: rat)" by simp
    moreover have "dbl_rep (of_int (8 * (320 * q + 319)) / 512)" using q by (intro rep) simp
    ultimately show "dbl_rep (of_int (320 * q + 319) / 64)" by (simp only:)
  qed (use q in auto)
  have e: "of_int q \<le> x / 5" "x / 5 \<le> of_int (512 * q + 511) / 512"
    using x(2,3) by (simp_all add: field_simps)
  obtain y where y: "to_double (x / 5) = Fin y" "of_int q \<le> y" "y \<le> of_int (512 * q + 511) / 512"
  proof (rule exE [OF to_double_between [OF _ _ e]])
    show "dbl_rep (of_int q)" using q by (intro dbl_rep_of_int) simp
    show "dbl_rep (of_int (512 * q + 511) / 512)" using q by (intro rep) simp
  qed (use q in auto)
  then have "\<lfloor>y\<rfloor> = q" by (intro floor_unique) simp_all
  then show ?thesis
    using k x(1) y(1) q(1) by (simp add: latency_cell_def latencyHistogramCellMax_def flip: q_def)
qed

section \<open>One period of the loop\<close>

text \<open>The line holds the samples that have left and have not come back; the other channels do not matter.\<close>

definition loop_period :: "nat \<Rightarrow> (nat \<Rightarrow> u64) \<Rightarrow> sample_t list list \<Rightarrow> AudioTester \<times> sample_t list \<Rightarrow>
    (AudioTester \<times> sample_t list) option" where
  "loop_period n now inb = (\<lambda>(t, line). do {
     (buf, t) \<leftarrow> writeImpulse now inb n t;
     let ch = nat (sendChannel t);
     let line = line @ map hop (take n (buf ! ch));
     t \<leftarrow> lookForReturnPulse (\<lambda>i j. now (2 + 2 * i + j)) (buf[ch := take n line]) n t;
     Some (t, drop n line)
   })"

definition silent :: "sample_t \<Rightarrow> bool" where
  "silent x \<longleftrightarrow> \<not> above_noise (float_val x)"

text \<open>The input of the channel stays below 1/256.\<close>

definition quiet_input :: "nat \<Rightarrow> nat \<Rightarrow> sample_t list list \<Rightarrow> bool" where
  "quiet_input n ch inb \<longleftrightarrow> ch < length inb \<and> n \<le> length (inb ! ch) \<and>
     (\<forall>x \<in> set (take n (inb ! ch)). \<exists>y. float_val x = Fin y \<and> \<bar>y\<bar> \<le> 1 / 256)"

lemma hop_silent: "float_val x = Fin y \<Longrightarrow> \<bar>y\<bar> \<le> 1 / 256 \<Longrightarrow> silent (hop x)"
proof -
  assume x: "float_val x = Fin y" and y: "\<bar>y\<bar> \<le> 1 / 256"
  have "\<bar>y\<bar> \<le> 1" using y by simp
  then obtain z where z: "float_val (hop x) = Fin z" "\<bar>z - y\<bar> \<le> 3 / 65536" using hop_near [OF x] by blast
  then have "z \<le> 5368709 / 1073741824" using y unfolding abs_le_iff by linarith
  then show "silent (hop x)" unfolding silent_def z(1) above_noise_iff by (simp only: not_less)
qed

lemma hop_zero: "silent (hop 0)"
  by (rule hop_silent [of _ 0]) (simp_all add: float_val_def float_exp_def float_frac_def with_sign_def)

lemma quiet_hop: "quiet_input n ch inb \<Longrightarrow> \<forall>x \<in> set (take n (inb ! ch)). silent (hop x)"
  unfolding quiet_input_def using hop_silent by blast

text \<open>An impulse on its way: the amplitude of the cell, then the stamp.\<close>

definition impulse_of :: "int \<Rightarrow> int \<Rightarrow> sample_t \<Rightarrow> sample_t \<Rightarrow> bool" where
  "impulse_of k S i s \<longleftrightarrow> 1 \<le> S \<and> S \<le> 16384 \<and> above_noise (float_val i) \<and> getImpulseCellNum (float_val i) = Some k \<and>
     float_val s = Fin (- of_int S / 32768)"

lemma getImpulseAmp_next:
  assumes "0 \<le> pendingCell t" and "pendingCell t \<le> 9"
  shows "\<exists>k amp. getImpulseAmp t = Some (amp, t\<lparr>pendingCell := k\<rparr>) \<and> 1 \<le> k \<and> k \<le> 9 \<and>
    above_noise (float_val (hop amp)) \<and> getImpulseCellNum (float_val (hop amp)) = Some k"
proof -
  define k where "k = (if numAmpCells \<le> pendingCell t + 1 then 1 else pendingCell t + 1)"
  have k: "1 \<le> k" "k \<le> 9" using assms by (auto simp: k_def numAmpCells_def)
  then have K: "k \<in> set [1..9]" by simp
  define amp where "amp = flt_bits (s_mul (to_single (of_int k)) ampCellHeight)"
  have a: "getImpulseAmp t = Some (amp, t\<lparr>pendingCell := k\<rparr>)"
    using assms by (simp add: getImpulseAmp_def k_def amp_def ampCellHeight_def numAmpCells_def int32_range_def Let_def)
  have v: "s_mul (to_single (of_int k)) ampCellHeight = Fin (amp_value k)"
    using amplitudes K unfolding list_all_iff by blast
  have b: "\<bar>amp_value k - of_int k * (5368709 / 536870912)\<bar> \<le> 1 / 65536" "0 \<le> amp_value k" "amp_value k \<le> 1"
    using amp_value_near K unfolding list_all_iff by blast+
  have "\<bar>amp_value k\<bar> \<le> 1" "\<bar>amp_value k\<bar> < 2 powi 128" using b by simp_all
  then have f: "float_val amp = Fin (amp_value k)" "\<bar>amp_value k\<bar> \<le> 1"
    using amp_value_rep [OF K] unfolding amp_def v by (simp_all add: float_val_bits)
  obtain y where y: "float_val (hop amp) = Fin y" "\<bar>y - amp_value k\<bar> \<le> 3 / 65536"
    using hop_near [OF f] by blast
  have "\<bar>y - of_int k * (5368709 / 536870912)\<bar> \<le> 1 / 16384"
    using y(2) b(1) unfolding abs_le_iff by linarith
  then show ?thesis using cell_of_near [OF _ k] a k y(1) by metis
qed

section \<open>The two halves of a period\<close>

lemma zero_samples:
  assumes "ch < length buf" and "n \<le> length (buf ! ch)"
  shows "\<exists>b. iter_opt (\<lambda>j buf. put_sample buf ch j 0) [1..<n] buf = Some b \<and> length b = length buf \<and>
    length (b ! ch) = length (buf ! ch) \<and> (\<forall>j. b ! ch ! j = (if 1 \<le> j \<and> j < n then 0 else buf ! ch ! j))"
  using assms(2)
proof (induction n)
  case (Suc n)
  then obtain b where b: "iter_opt (\<lambda>j buf. put_sample buf ch j 0) [1..<n] buf = Some b" "length b = length buf"
    "length (b ! ch) = length (buf ! ch)" "\<forall>j. b ! ch ! j = (if 1 \<le> j \<and> j < n then 0 else buf ! ch ! j)"
    by fastforce
  show ?case
  proof (cases "n = 0")
    case False
    then have r: "[1..<Suc n] = [1..<n] @ [n]" by simp
    have "put_sample b ch n 0 = Some (b[ch := (b ! ch)[n := 0]])"
      using b(2,3) assms(1) Suc.prems by (simp add: put_sample_def)
    then have "iter_opt (\<lambda>j buf. put_sample buf ch j 0) [1..<Suc n] buf = Some (b[ch := (b ! ch)[n := 0]])"
      using b(1) unfolding r by (simp add: iter_opt_append)
    then show ?thesis
      using b(2-4) assms(1) Suc.prems False by (simp add: nth_list_update)
  qed simp
qed simp

lemma writeImpulse_send:
  assumes "enabled t" "bufferSkip t = 0" "\<not> impulsePending t" "sendChannel t = int ch"
    and q: "quiet_input n ch inb" and n: "2 \<le> n"
    and S: "sampleCountSinceImpulse t = of_int S" "1 \<le> S" "S \<le> 16384"
    and cell: "0 \<le> pendingCell t" "pendingCell t \<le> 9"
  shows "\<exists>buf i s zs k. writeImpulse now inb n t = Some (buf, t\<lparr>pendingCell := k, impulsePending := True,
      impulseTimeUS := sint (now 1), impulseTimeSamples := S\<rparr>) \<and> ch < length buf \<and>
    map hop (take n (buf ! ch)) = i # s # zs \<and> length zs = n - 2 \<and> (\<forall>x \<in> set zs. silent x) \<and>
    impulse_of k S i s \<and> 1 \<le> k \<and> k \<le> 9"
proof -
  have c: "ch < length inb" "n \<le> length (inb ! ch)" "0 < length (inb ! ch)"
    using q n by (auto simp: quiet_input_def)
  obtain k amp where k: "getImpulseAmp t = Some (amp, t\<lparr>pendingCell := k\<rparr>)" "1 \<le> k" "k \<le> 9"
    "above_noise (float_val (hop amp))" "getImpulseCellNum (float_val (hop amp)) = Some k"
    using getImpulseAmp_next [OF cell] by blast
  define b0 where "b0 = inb[ch := (inb ! ch)[0 := amp]]"
  have c0: "ch < length b0" "n \<le> length (b0 ! ch)" "b0 ! ch ! 0 = amp" "put_sample inb ch 0 amp = Some b0"
    using c by (simp_all add: b0_def put_sample_def)
  obtain b1 where b1: "iter_opt (\<lambda>j buf. put_sample buf ch j 0) [1..<n] b0 = Some b1" "length b1 = length b0"
    "length (b1 ! ch) = length (b0 ! ch)" "\<forall>j. b1 ! ch ! j = (if 1 \<le> j \<and> j < n then 0 else b0 ! ch ! j)"
    using zero_samples [OF c0(1,2)] by blast
  define b2 where "b2 = b1[ch := (b1 ! ch)[1 := time_stamp S]]"
  have p2: "put_sample b1 ch 1 (time_stamp S) = Some b2" using b1(2,3) c0(1,2) n by (simp add: put_sample_def b2_def)
  have st: "sint (of_int S :: u64) = S" using S(2,3) by (intro sint_of_int_u64) simp_all
  have w: "writeImpulse now inb n t = Some (b2, t\<lparr>pendingCell := k, impulsePending := True,
      impulseTimeUS := sint (now 1), impulseTimeSamples := S\<rparr>)"
    using assms(1-4) c(1) n k(1) c0(4) b1(1) p2 st S(1)
    by (simp add: writeImpulse_def time_for_impulse_def send_impulse_def tester_channel_def Let_def)
  have "take n (b2 ! ch) = amp # time_stamp S # replicate (n - 2) 0"
  proof (rule nth_equalityI)
    show "length (take n (b2 ! ch)) = length (amp # time_stamp S # replicate (n - 2) 0)"
      using b1(2,3) c0(1,2) n by (simp add: b2_def)
    fix j assume "j < length (take n (b2 ! ch))"
    then have j: "j < n" by simp
    then show "take n (b2 ! ch) ! j = (amp # time_stamp S # replicate (n - 2) 0) ! j"
      using b1 c0 n by (auto simp: b2_def nth_Cons' nth_list_update)
  qed
  then have "map hop (take n (b2 ! ch)) = hop amp # hop (time_stamp S) # replicate (n - 2) (hop 0)"
    by simp
  moreover have "impulse_of k S (hop amp) (hop (time_stamp S))"
    using k(4,5) S(2,3) stamp_over_line [of S] by (simp add: impulse_of_def)
  moreover have "ch < length b2" using b1(2) c0(1) by (simp add: b2_def)
  moreover have "\<forall>x \<in> set (replicate (n - 2) (hop 0)). silent x" using hop_zero by simp
  ultimately show ?thesis using w k(2,3) length_replicate by metis
qed

lemma writeImpulse_wait:
  assumes "enabled t" "bufferSkip t = 0" "impulsePending t" "sendChannel t = int ch"
    and q: "quiet_input n ch inb" and n: "2 \<le> n" and clock: "\<not> of_int (impulseTimeUS t) + 500000 < now 0"
  shows "\<exists>buf. writeImpulse now inb n t = Some (buf, t) \<and> ch < length buf \<and>
    length (take n (buf ! ch)) = n \<and> (\<forall>x \<in> set (map hop (take n (buf ! ch))). silent x)"
proof -
  have c: "ch < length inb" "n \<le> length (inb ! ch)" "0 < length (inb ! ch)" "1 < length (inb ! ch)"
    using q n by (auto simp: quiet_input_def)
  define b where "b = inb[ch := (inb ! ch)[0 := 0, 1 := 0]]"
  have "writeImpulse now inb n t = Some (b, t)"
    using assms(1-4) clock c n
    by (simp add: writeImpulse_def time_for_impulse_def put_sample_def b_def Let_def)
  moreover have "take n (b ! ch) = (take n (inb ! ch))[0 := 0, 1 := 0]"
    using c by (simp add: b_def take_update_swap)
  moreover have "\<forall>x \<in> set ((take n (inb ! ch))[0 := 0, 1 := 0]). silent (hop x)"
  proof
    fix x assume "x \<in> set ((take n (inb ! ch))[0 := 0, 1 := 0])"
    then have "x = 0 \<or> x \<in> set (take n (inb ! ch))"
      using set_update_subset_insert [of "(take n (inb ! ch))[0 := 0]" 1 0]
        set_update_subset_insert [of "take n (inb ! ch)" 0 0] by blast
    then show "silent (hop x)" using hop_zero quiet_hop [OF q] by blast
  qed
  ultimately show ?thesis using c by (auto simp: b_def)
qed

lemma look_sample_silent:
  assumes "\<forall>j \<in> set js. j < length (out ! ch) \<and> silent (out ! ch ! j)" and "ch < length out" and "sendChannel t = int ch"
  shows "iter_opt (look_sample now out n) js t = Some t"
  using assms(1)
  by (induction js) (simp_all add: look_sample_def get_sample_def assms(2,3) silent_def)

lemma lookForReturnPulse_silent:
  assumes "enabled t" "impulsePending t" "sendChannel t = int ch" "ch < length out" "length (out ! ch) = n"
    and "\<forall>x \<in> set (out ! ch). silent x"
  shows "lookForReturnPulse now out n t = Some (t\<lparr>sampleCountSinceImpulse := sampleCountSinceImpulse t + of_nat n\<rparr>)"
  using assms look_sample_silent [of "[0..<n]" out ch t now n]
  by (simp add: lookForReturnPulse_def tester_channel_def)

lemma report_times_time:
  assumes "0 \<le> lastPrintTimeUS t" "lastPrintTimeUS t < 9223372036854775808"
    and "unat (now 0) < 9223372036854775808" "unat (now 1) < 9223372036854775808"
  shows "\<exists>L. report_times now t = Some (t\<lparr>lastPrintTimeUS := L\<rparr>) \<and> 0 \<le> L \<and> L < 9223372036854775808"
proof -
  have "sint (now 0) = int (unat (now 0))" "sint (now 1) = int (unat (now 1))"
    using assms(3,4) by (simp_all only: sint_unat)
  then show ?thesis
    using assms by (auto simp: report_times_def checked_int64_def int64_range_def Let_def simp del: of_nat_unat
      intro: exI [of _ "lastPrintTimeUS t"])
qed

text \<open>A tester that has measured the delay \<open>d\<close> in \<open>r\<close> rounds.\<close>

definition measured :: "nat \<Rightarrow> nat \<Rightarrow> nat \<Rightarrow> AudioTester \<Rightarrow> bool" where
  "measured ch d r t \<longleftrightarrow> enabled t \<and> sendChannel t = int ch \<and> bufferSkip t = 0 \<and> testerSampleRate t = Fin 48000 \<and>
     roundTripCount t = Fin (of_nat r) \<and> latencyHistogram t = (\<lambda>_. 0)(min 19 (int d div 240) := int r) \<and>
     0 \<le> lastPrintTimeUS t \<and> lastPrintTimeUS t < 9223372036854775808"

definition clock_ok :: "(nat \<Rightarrow> u64) \<Rightarrow> bool" where
  "clock_ok now \<longleftrightarrow> (\<forall>c. unat (now c) < 9223372036854775808)"

lemma record_latency_measured:
  assumes "measured ch d r t"
    and t': "t' = t\<lparr>sampleCountSinceImpulse := c, roundTripCount := Fin (of_nat (Suc r))\<rparr>"
    and "r < 2147483647" "d < 1073741824" "clock_ok now"
  shows "\<exists>u. record_latency now (int d) t' = Some u \<and> measured ch d (Suc r) u \<and>
    sampleCountSinceImpulse u = c \<and> pendingCell u = pendingCell t"
proof -
  let ?c = "min 19 (int d div 240)"
  let ?h = "t'\<lparr>latencyHistogram := (\<lambda>_. 0)(?c := int (Suc r))\<rparr>"
  have h: "latencyHistogram t = (\<lambda>_. 0)(?c := int r)" "testerSampleRate t = Fin 48000"
    using assms(1) by (simp_all add: measured_def)
  have "latency_cell (delay_ms (int d)) = ?c" using assms(4) by (intro latency_cell_48k) simp_all
  moreover have "int32_range (int r + 1)" using assms(3) by (simp add: int32_range_def)
  ultimately have e: "extendLatencyHistogram (delay_ms (int d)) t' = Some ?h"
    using h(1) by (simp add: extendLatencyHistogram_def t' Let_def algebra_simps)
  obtain m s where m: "update_means (delay_ms (int d)) ?h = ?h\<lparr>roundTripMean := m, roundTripMeanSquare := s\<rparr>"
    by (cases "flt_less (Fin 1) (roundTripCount ?h)") (auto simp: update_means_def Let_def)
  obtain L where L: "report_times now (?h\<lparr>roundTripMean := m, roundTripMeanSquare := s\<rparr>) =
      Some (?h\<lparr>roundTripMean := m, roundTripMeanSquare := s\<rparr>\<lparr>lastPrintTimeUS := L\<rparr>)"
    "0 \<le> L" "L < 9223372036854775808"
    using report_times_time [of "?h\<lparr>roundTripMean := m, roundTripMeanSquare := s\<rparr>" now] assms(1,5)
    by (auto simp: t' measured_def clock_ok_def)
  have "record_latency now (int d) t' = Some (?h\<lparr>roundTripMean := m, roundTripMeanSquare := s, lastPrintTimeUS := L\<rparr>)"
    using e L(1) m h(2) by (simp add: record_latency_def t' delay_ms_def Let_def)
  then show ?thesis using L(2,3) assms(1) by (simp add: t' measured_def)
qed

lemma own_impulse_measured:
  assumes m: "measured ch d r t" and out: "ch < length out" "out ! ch = A @ i # s # B" "length (out ! ch) = n"
    and imp: "impulse_of k S i s" and c: "sampleCountSinceImpulse t = of_int (S + int D)" and d: "D + length A = d" "0 < d"
    and b: "r < 2147483647" "d < 1073741824" "clock_ok now"
  shows "\<exists>u. own_impulse now out n (length A) t = Some u \<and> measured ch d (Suc r) u \<and> \<not> impulsePending u \<and>
    sampleCountSinceImpulse u = 1 \<and> pendingCell u = pendingCell t"
proof -
  let ?t = "t\<lparr>sampleCountSinceImpulse := 1, roundTripCount := Fin (of_nat (Suc r))\<rparr>"
  have ch: "nat (sendChannel t) = ch" "roundTripCount t = Fin (of_nat r)" using m by (simp_all add: measured_def)
  have n: "\<not> n - 1 \<le> length A" using out(2,3) by auto
  have g: "get_sample out ch (length A + 1) = Some s" using out by (simp add: get_sample_def nth_append)
  have "elapsed_samples (sampleCountSinceImpulse t) (length A) s = Some (int D + int (length A))"
    using imp c d b(2) by (intro elapsed_exact [where S = S]) (auto simp: impulse_of_def)
  then have e: "elapsed_samples (sampleCountSinceImpulse t) (length A) s = Some (int d)" using d by simp
  have "d_add (roundTripCount t) (Fin 1) = Fin (of_nat (Suc r))"
    using to_double_int [of "int (Suc r)"] b(1) ch(2) by (simp add: add.commute)
  moreover obtain u where u: "record_latency now (int d) ?t = Some u" "measured ch d (Suc r) u"
    "sampleCountSinceImpulse u = 1" "pendingCell u = pendingCell t"
    using record_latency_measured [OF m refl b] by blast
  ultimately have "own_impulse now out n (length A) t = Some (u\<lparr>impulsePending := False\<rparr>)"
    using n g e d(2) ch(1) by (simp add: own_impulse_def)
  moreover have "measured ch d (Suc r) (u\<lparr>impulsePending := False\<rparr>)" using u(2) by (simp add: measured_def)
  ultimately show ?thesis using u(3,4) by simp
qed

lemma lookForReturnPulse_return:
  assumes m: "measured ch d r t" and p: "impulsePending t" and out: "ch < length out" "out ! ch = A @ i # s # B" "length (out ! ch) = n"
    and sil: "\<forall>x \<in> set A. silent x" "\<forall>x \<in> set B. silent x"
    and imp: "impulse_of (pendingCell t) S i s" and c: "sampleCountSinceImpulse t = of_int (S + int D)"
    and d: "D + length A = d" "0 < d" and b: "r < 2147483647" "d < 1073741824" "\<And>j. clock_ok (now j)"
  shows "\<exists>u. lookForReturnPulse now out n t = Some u \<and> measured ch d (Suc r) u \<and> \<not> impulsePending u \<and>
    sampleCountSinceImpulse u = of_int (1 + int n) \<and> pendingCell u = pendingCell t"
proof -
  have t: "enabled t" "sendChannel t = int ch" using m by (simp_all add: measured_def)
  have s: "silent s" using imp stamp_silent [of S] by (simp add: impulse_of_def silent_def)
  have n: "n = length A + 2 + length B" using out(2,3) by simp
  then have r: "[0..<n] = [0..<length A] @ length A # [Suc (length A)..<n]"
    using upt_add_eq_append [of 0 "length A" "2 + length B"] by (simp add: upt_rec)
  obtain u where u: "own_impulse (now (length A)) out n (length A) t = Some u" "measured ch d (Suc r) u"
    "\<not> impulsePending u" "sampleCountSinceImpulse u = 1" "pendingCell u = pendingCell t"
    using own_impulse_measured [OF m out imp c d b] by blast
  have "iter_opt (look_sample now out n) [0..<length A] t = Some t"
    using out sil(1) t by (intro look_sample_silent [of _ out ch]) (auto simp: nth_append)
  moreover have "look_sample now out n (length A) t = Some u"
    using out imp t(2) u(1) by (simp add: look_sample_def get_sample_def nth_append impulse_of_def)
  moreover have "iter_opt (look_sample now out n) [Suc (length A)..<n] u = Some u"
  proof (rule look_sample_silent [of _ out ch])
    show "\<forall>j \<in> set [Suc (length A)..<n]. j < length (out ! ch) \<and> silent (out ! ch ! j)"
    proof
      fix j assume "j \<in> set [Suc (length A)..<n]"
      then obtain l where l: "j = Suc (length A) + l" "l < Suc (length B)" using n by (auto simp: less_eq_Suc_le elim: le_Suc_ex [THEN exE])
      then have "out ! ch ! j = (s # B) ! l" using out(2) by (simp add: nth_append)
      moreover have "\<forall>x \<in> set (s # B). silent x" using sil(2) s by simp
      ultimately show "j < length (out ! ch) \<and> silent (out ! ch ! j)" using l out(3) n by (metis add_Suc_right add_Suc add_2_eq_Suc' length_Cons nat_add_left_cancel_less nth_mem)
    qed
  qed (use out u(2) in \<open>simp_all add: measured_def\<close>)
  ultimately have "iter_opt (look_sample now out n) [0..<n] t = Some u" unfolding r by (simp add: iter_opt_append)
  then have "lookForReturnPulse now out n t = Some (u\<lparr>sampleCountSinceImpulse := of_int (1 + int n)\<rparr>)"
    using t p out(1) u(4) by (simp add: lookForReturnPulse_def tester_channel_def)
  then show ?thesis using u(2,3,5) by (simp add: measured_def)
qed

section \<open>Rounds\<close>

definition ready :: "nat \<Rightarrow> nat \<Rightarrow> nat \<Rightarrow> AudioTester \<times> sample_t list \<Rightarrow> bool" where
  "ready ch d r = (\<lambda>(t, line). measured ch d r t \<and> \<not> impulsePending t \<and> 0 \<le> pendingCell t \<and> pendingCell t \<le> 9 \<and>
     (\<exists>S. sampleCountSinceImpulse t = of_int S \<and> 1 \<le> S \<and> S \<le> 16384) \<and> length line = d \<and> (\<forall>x \<in> set line. silent x))"

text \<open>An impulse has been on the line for \<open>D\<close> samples.\<close>

definition flying :: "nat \<Rightarrow> nat \<Rightarrow> nat \<Rightarrow> nat \<Rightarrow> AudioTester \<times> sample_t list \<Rightarrow> bool" where
  "flying ch d r D = (\<lambda>(t, line). measured ch d r t \<and> impulsePending t \<and> 1 \<le> pendingCell t \<and> pendingCell t \<le> 9 \<and>
     (\<exists>S i s A B. sampleCountSinceImpulse t = of_int (S + int D) \<and> impulse_of (pendingCell t) S i s \<and>
        line = A @ i # s # B \<and> D + length A = d \<and> (\<forall>x \<in> set A. silent x) \<and> (\<forall>x \<in> set B. silent x)))"

lemma send_flying:
  assumes "ready ch d r (t, line)" and "quiet_input n ch inb" and "2 \<le> n"
  shows "\<exists>buf u. writeImpulse now inb n t = Some (buf, u) \<and> ch < length buf \<and> impulseTimeUS u = sint (now 1) \<and>
    flying ch d r 0 (u, line @ map hop (take n (buf ! ch))) \<and> length (take n (buf ! ch)) = n"
proof -
  have t: "measured ch d r t" "enabled t" "bufferSkip t = 0" "\<not> impulsePending t" "sendChannel t = int ch"
    "0 \<le> pendingCell t" "pendingCell t \<le> 9" "length line = d" "\<forall>x \<in> set line. silent x"
    using assms(1) by (auto simp: ready_def measured_def)
  obtain S where S: "sampleCountSinceImpulse t = of_int S" "1 \<le> S" "S \<le> 16384" using assms(1) by (auto simp: ready_def)
  obtain buf i s zs k where w: "writeImpulse now inb n t = Some (buf, t\<lparr>pendingCell := k, impulsePending := True,
      impulseTimeUS := sint (now 1), impulseTimeSamples := S\<rparr>)" "ch < length buf"
    "map hop (take n (buf ! ch)) = i # s # zs" "length zs = n - 2" "\<forall>x \<in> set zs. silent x"
    "impulse_of k S i s" "1 \<le> k" "k \<le> 9"
    using writeImpulse_send [OF t(2-5) assms(2,3) S t(6,7), where now = now]
    by (elim exE conjE) (rule that; assumption)
  let ?u = "t\<lparr>pendingCell := k, impulsePending := True, impulseTimeUS := sint (now 1), impulseTimeSamples := S\<rparr>"
  have "sampleCountSinceImpulse ?u = of_int (S + int 0) \<and> impulse_of (pendingCell ?u) S i s \<and>
      line @ map hop (take n (buf ! ch)) = line @ i # s # zs \<and> 0 + length line = d \<and>
      (\<forall>x \<in> set line. silent x) \<and> (\<forall>x \<in> set zs. silent x)"
    using S w(3,5,6) t(8,9) by simp
  then have "flying ch d r 0 (?u, line @ map hop (take n (buf ! ch)))"
    unfolding flying_def prod.case using t(1) w(7,8) by (intro conjI) (blast | simp add: measured_def)+
  moreover have "length (map hop (take n (buf ! ch))) = n" unfolding w(3) using w(4) assms(3) by simp
  ultimately show ?thesis using w(1,2) by auto
qed

lemma wait_flying:
  assumes "flying ch d r D (t, line)" and "quiet_input n ch inb" and "2 \<le> n"
    and "\<not> of_int (impulseTimeUS t) + 500000 < now 0"
  shows "\<exists>buf. writeImpulse now inb n t = Some (buf, t) \<and> ch < length buf \<and>
    flying ch d r D (t, line @ map hop (take n (buf ! ch))) \<and> length (take n (buf ! ch)) = n"
proof -
  have t: "enabled t" "bufferSkip t = 0" "impulsePending t" "sendChannel t = int ch"
    using assms(1) by (auto simp: flying_def measured_def)
  obtain buf where b: "writeImpulse now inb n t = Some (buf, t)" "ch < length buf" "length (take n (buf ! ch)) = n"
    "\<forall>x \<in> set (map hop (take n (buf ! ch))). silent x"
    using writeImpulse_wait [where now = now, OF t assms(2-4)] by blast
  obtain S i s A B where f: "sampleCountSinceImpulse t = of_int (S + int D)" "impulse_of (pendingCell t) S i s"
    "line = A @ i # s # B" "D + length A = d" "\<forall>x \<in> set A. silent x" "\<forall>x \<in> set B. silent x"
    using assms(1) by (auto simp: flying_def)
  have "line @ map hop (take n (buf ! ch)) = A @ i # s # (B @ map hop (take n (buf ! ch)))" using f(3) by simp
  moreover have "\<forall>x \<in> set (B @ map hop (take n (buf ! ch))). silent x" using f(6) b(4) by auto
  ultimately have "flying ch d r D (t, line @ map hop (take n (buf ! ch)))"
    using assms(1) f(1,2,4,5) unfolding flying_def by blast
  then show ?thesis using b(1-3) by blast
qed

text \<open>The impulse passes a period by, or it returns.\<close>

lemma look_flying:
  assumes f: "flying ch d r D (t, L)" and "ch < length buf" and len: "length L = d + n" and far: "D + n \<le> d"
  shows "\<exists>u. lookForReturnPulse now (buf[ch := take n L]) n t = Some u \<and> impulseTimeUS u = impulseTimeUS t \<and>
    flying ch d r (D + n) (u, drop n L)"
proof -
  obtain S i s A B where a: "sampleCountSinceImpulse t = of_int (S + int D)" "impulse_of (pendingCell t) S i s"
    "L = A @ i # s # B" "D + length A = d" "\<forall>x \<in> set A. silent x" "\<forall>x \<in> set B. silent x"
    using f by (auto simp: flying_def)
  let ?u = "t\<lparr>sampleCountSinceImpulse := sampleCountSinceImpulse t + of_nat n\<rparr>"
  have n: "n \<le> length A" using a(4) far by simp
  then have "take n L = take n A" using a(3) by simp
  then have "lookForReturnPulse now (buf[ch := take n L]) n t = Some ?u"
    using f assms(2) a(5) n by (intro lookForReturnPulse_silent [of _ ch]) (auto simp: flying_def measured_def dest: in_set_takeD)
  moreover have "sampleCountSinceImpulse ?u = of_int (S + int (D + n)) \<and> impulse_of (pendingCell ?u) S i s \<and>
      drop n L = drop n A @ i # s # B \<and> (D + n) + length (drop n A) = d \<and>
      (\<forall>x \<in> set (drop n A). silent x) \<and> (\<forall>x \<in> set B. silent x)"
    using a n far by (auto dest: in_set_dropD)
  then have "flying ch d r (D + n) (?u, drop n L)"
    unfolding flying_def prod.case using f by (intro conjI) (blast | simp add: flying_def measured_def)+
  ultimately show ?thesis by auto
qed

lemma look_return:
  assumes f: "flying ch d r D (t, L)" and "ch < length buf" and len: "length L = d + n"
    and near: "d + 1 < D + n" and b: "0 < d" "d < 1073741824" "r < 2147483647" "n \<le> 16383"
    and clock: "\<And>j. clock_ok (now j)"
  shows "\<exists>u. lookForReturnPulse now (buf[ch := take n L]) n t = Some u \<and> ready ch d (Suc r) (u, drop n L)"
proof -
  obtain S i s A B where a: "sampleCountSinceImpulse t = of_int (S + int D)" "impulse_of (pendingCell t) S i s"
    "L = A @ i # s # B" "D + length A = d" "\<forall>x \<in> set A. silent x" "\<forall>x \<in> set B. silent x"
    using f by (auto simp: flying_def)
  have m: "measured ch d r t" and p: "impulsePending t" using f by (simp_all add: flying_def)
  define q where "q = n - (length A + 2)"
  have n: "n = length A + 2 + q" using a(4) near by (simp add: q_def)
  have tk: "take n L = A @ i # s # take q B" "drop n L = drop q B" using a(3) n by simp_all
  have out: "ch < length (buf[ch := take n L])" "buf[ch := take n L] ! ch = A @ i # s # take q B"
    "\<forall>x \<in> set (take q B). silent x"
    using assms(2) tk a(6) by (auto dest: in_set_takeD)
  have ln: "length (buf[ch := take n L] ! ch) = n" using assms(2) len by simp
  obtain u where u: "lookForReturnPulse now (buf[ch := take n L]) n t = Some u" "measured ch d (Suc r) u"
    "\<not> impulsePending u" "sampleCountSinceImpulse u = of_int (1 + int n)" "pendingCell u = pendingCell t"
    using lookForReturnPulse_return [where now = now, OF m p out(1,2) ln a(5) out(3) a(2,1,4) b(1,3,2)] clock by blast
  have "length (drop n L) = d" using len by simp
  moreover have "\<forall>x \<in> set (drop n L). silent x" unfolding tk(2) using a(6) by (auto dest: in_set_dropD)
  moreover have "1 \<le> 1 + int n \<and> 1 + int n \<le> 16384" using b(4) by simp
  ultimately have "ready ch d (Suc r) (u, drop n L)"
    unfolding ready_def prod.case using u(2-5) f by (intro conjI) (blast | simp add: flying_def)+
  then show ?thesis using u(1) by blast
qed

section \<open>The run\<close>

text \<open>The times of the calls in period \<open>k\<close>, when a period takes \<open>P\<close> microseconds.\<close>

definition paced :: "nat \<Rightarrow> nat \<Rightarrow> nat \<Rightarrow> (nat \<Rightarrow> u64) \<Rightarrow> bool" where
  "paced T P k now \<longleftrightarrow> (\<forall>c. T + k * P \<le> unat (now c) \<and> unat (now c) \<le> T + (k + 1) * P)"

definition rounds_at :: "nat \<Rightarrow> nat \<Rightarrow> nat \<Rightarrow> nat \<Rightarrow> nat \<Rightarrow> nat \<Rightarrow> AudioTester \<times> sample_t list \<Rightarrow> bool" where
  "rounds_at ch n d T P i st \<longleftrightarrow>
     (let q = d div n + 1; r = i div q; j = i mod q in
        if j = 0 then ready ch d r st
        else flying ch d r (j * n) st \<and> length (snd st) = d \<and>
          (\<exists>x. impulseTimeUS (fst st) = int x \<and> T + (i - j) * P \<le> x \<and> x < 9000000000000000000))"

lemma no_timeout:
  assumes "paced T P k now" and "impulseTimeUS t = int x" and "T + (k + 1) * P \<le> x + 500000" and "x < 9223372036854775808"
  shows "\<not> of_int (impulseTimeUS t) + 500000 < now 0"
proof -
  have "unat (of_int (impulseTimeUS t) + 500000 :: u64) = x + 500000"
    using assms(2,4) by (simp add: unat_word_ariths unat_of_nat)
  moreover have "unat (now 0) \<le> T + (k + 1) * P" using assms(1) by (simp add: paced_def)
  ultimately show ?thesis using assms(3) unfolding word_less_nat_alt by linarith
qed

lemma loop_period_write:
  assumes "writeImpulse now inb n t = Some (buf, u)" and "ch < length buf" and "sendChannel u = int ch"
    and "lookForReturnPulse (\<lambda>i j. now (2 + 2 * i + j)) (buf[ch := take n (line @ map hop (take n (buf ! ch)))]) n u = Some v"
  shows "loop_period n now inb (t, line) = Some (v, drop n (line @ map hop (take n (buf ! ch))))"
  using assms by (simp add: loop_period_def Let_def)

text \<open>One period of a round: the write, then the look.\<close>

lemma round_write:
  assumes at: "rounds_at ch n d T P i (t, line)" and inb: "quiet_input n ch inb" and now: "paced T P i now" and n: "2 \<le> n"
    and P: "(d div n + 1) * P \<le> 500000" and T: "T + (i + 1) * P < 9000000000000000000"
    and R: "R = i div (d div n + 1)" and J: "j = i mod (d div n + 1)"
  shows "\<exists>buf u x. writeImpulse now inb n t = Some (buf, u) \<and> ch < length buf \<and> length (take n (buf ! ch)) = n \<and>
      flying ch d R (j * n) (u, line @ map hop (take n (buf ! ch))) \<and> length line = d \<and>
      impulseTimeUS u = int x \<and> T + (i - j) * P \<le> x \<and> x < 9000000000000000000"
proof -
  have j: "j < d div n + 1" "j \<le> i" by (simp_all add: J)
  have le: "unat (now k) \<le> T + (i + 1) * P" for k using now unfolding paced_def by blast
  have small: "T + (i + 1) * P < 9223372036854775808" by (rule less_trans [OF T]) simp
  show ?thesis
  proof (cases "j = 0")
    case True
    then have rdy: "ready ch d R (t, line)" using at by (simp add: rounds_at_def R J Let_def)
    have u: "unat (now 1) < 9000000000000000000" "T + i * P \<le> unat (now 1)"
      using now le_less_trans [OF le T] unfolding paced_def by blast+
    have s: "sint (now 1) = int (unat (now 1))"
      using le_less_trans [OF le small, of 1] by (rule sint_unat)
    obtain buf u where "writeImpulse now inb n t = Some (buf, u)" "ch < length buf" "impulseTimeUS u = sint (now 1)"
      "flying ch d R 0 (u, line @ map hop (take n (buf ! ch)))" "length (take n (buf ! ch)) = n"
      using send_flying [where now = now, OF rdy inb n] by blast
    moreover have "length line = d" using rdy by (simp add: ready_def)
    ultimately show ?thesis using u s True by (intro exI [of _ buf] exI [of _ u] exI [of _ "unat (now 1)"]) simp
  next
    case False
    then have f: "flying ch d R (j * n) (t, line)" "length line = d"
      and "\<exists>x. impulseTimeUS t = int x \<and> T + (i - j) * P \<le> x \<and> x < 9000000000000000000"
      using at by (simp_all add: rounds_at_def R J Let_def)
    then obtain x where x: "impulseTimeUS t = int x" "T + (i - j) * P \<le> x" "x < 9000000000000000000" by blast
    have "(i + 1) * P = (i - j) * P + (j + 1) * P" using j(2) by (simp flip: add_mult_distrib)
    moreover have "(j + 1) * P \<le> (d div n + 1) * P" using j(1) by (intro mult_le_mono1) simp
    ultimately have "T + (i + 1) * P \<le> x + 500000" using x(2) P by linarith
    moreover have "x < 9223372036854775808" using x(3) by simp
    ultimately have "\<not> of_int (impulseTimeUS t) + 500000 < now 0" using now x(1) by (intro no_timeout)
    then show ?thesis using wait_flying [where now = now, OF f(1) inb n] f(2) x by blast
  qed
qed

lemma round_period:
  assumes at: "rounds_at ch n d T P i (t, line)" and inb: "quiet_input n ch inb" and now: "paced T P i now"
    and n: "2 \<le> n" "n \<le> 16383" and d: "0 < d" "d < 1073741824" "d mod n < n - 1"
    and P: "(d div n + 1) * P \<le> 500000" and T: "T + (i + 1) * P < 9000000000000000000" and r: "i div (d div n + 1) < 2147483647"
  shows "\<exists>st. loop_period n now inb (t, line) = Some st \<and> rounds_at ch n d T P (Suc i) st"
proof -
  define q where "q = d div n + 1"
  define R where "R = i div q"
  define j where "j = i mod q"
  have j: "j < q" "j \<le> i" by (simp_all add: j_def q_def)
  have dn: "d = d div n * n + d mod n" by simp
  have le: "unat (now k) \<le> T + (i + 1) * P" for k using now unfolding paced_def by blast
  have small: "T + (i + 1) * P < 9223372036854775808" by (rule less_trans [OF T]) simp
  have c: "clock_ok (\<lambda>j. now (2 + 2 * l + j))" for l
    unfolding clock_ok_def using le_less_trans [OF le small] by blast
  obtain buf u x where w: "writeImpulse now inb n t = Some (buf, u)" "ch < length buf" "length (take n (buf ! ch)) = n"
      "flying ch d R (j * n) (u, line @ map hop (take n (buf ! ch)))" "length line = d"
      "impulseTimeUS u = int x" "T + (i - j) * P \<le> x" "x < 9000000000000000000"
    using round_write [OF at inb now n(1) P T R_def [unfolded q_def] j_def [unfolded q_def]] by blast
  let ?L = "line @ map hop (take n (buf ! ch))"
  have L: "length ?L = d + n" using w(3,5) by simp
  have ch: "sendChannel u = int ch" using w(4) by (simp add: flying_def measured_def)
  show ?thesis
  proof (cases "j < d div n")
    case True
    then have "(j + 1) * n \<le> d div n * n" by (intro mult_le_mono1) simp
    then have "j * n + n \<le> d" using dn unfolding add_mult_distrib by linarith
    then obtain v where v: "lookForReturnPulse (\<lambda>i j. now (2 + 2 * i + j)) (buf[ch := take n ?L]) n u = Some v"
      "impulseTimeUS v = impulseTimeUS u" "flying ch d R (j * n + n) (v, drop n ?L)"
      using look_flying [OF w(4,2) L] by blast
    have "Suc i div q = R" "Suc i mod q = Suc j"
      using True by (simp_all add: R_def j_def q_def div_Suc mod_Suc)
    then have "rounds_at ch n d T P (Suc i) (v, drop n ?L) \<longleftrightarrow> flying ch d R (Suc j * n) (v, drop n ?L) \<and>
        length (drop n ?L) = d \<and> (\<exists>x. impulseTimeUS v = int x \<and> T + (i - j) * P \<le> x \<and> x < 9000000000000000000)"
      unfolding rounds_at_def Let_def q_def [symmetric] by (simp only: diff_Suc_Suc fst_conv snd_conv nat.distinct if_False)
    moreover have "length (drop n ?L) = d" unfolding length_drop L by simp
    moreover have "flying ch d R (Suc j * n) (v, drop n ?L)" using v(3) by (simp add: add.commute)
    ultimately have "rounds_at ch n d T P (Suc i) (v, drop n ?L)" using v(2) w(6-8) by auto
    then show ?thesis using loop_period_write [OF w(1,2) ch v(1)] by blast
  next
    case False
    then have jm: "j = d div n" using j(1) by (simp add: q_def)
    have "d + 1 < j * n + n" using dn d(3) unfolding jm by linarith
    moreover have "R < 2147483647" using r by (simp add: R_def q_def)
    ultimately obtain v where v: "lookForReturnPulse (\<lambda>i j. now (2 + 2 * i + j)) (buf[ch := take n ?L]) n u = Some v"
      "ready ch d (Suc R) (v, drop n ?L)"
      using look_return [where now = "\<lambda>i j. now (2 + 2 * i + j)", OF w(4,2) L _ d(1,2) _ n(2) c] by blast
    have "Suc i div q = Suc R" "Suc i mod q = 0"
      using jm by (simp_all add: R_def j_def q_def div_Suc mod_Suc)
    then have "rounds_at ch n d T P (Suc i) (v, drop n ?L)"
      unfolding rounds_at_def Let_def q_def [symmetric] using v(2) by (simp only: refl if_True)
    then show ?thesis using loop_period_write [OF w(1,2) ch v(1)] by blast
  qed
qed

text \<open>The first hundred periods are skipped.\<close>

definition new_tester :: "nat \<Rightarrow> AudioTester" where
  "new_tester ch = AudioTester_new\<lparr>enabled := True, sendChannel := int ch\<rparr>"

definition skipping :: "nat \<Rightarrow> nat \<Rightarrow> nat \<Rightarrow> AudioTester \<times> sample_t list \<Rightarrow> bool" where
  "skipping ch d k = (\<lambda>(t, line). t = (new_tester ch)\<lparr>bufferSkip := 100 - int k\<rparr> \<and> length line = d \<and> (\<forall>x \<in> set line. silent x))"

lemma skip_period:
  assumes "skipping ch d k (t, line)" and "k < 100" and "quiet_input n ch inb"
  shows "\<exists>st. loop_period n now inb (t, line) = Some st \<and> skipping ch d (Suc k) st"
proof -
  let ?L = "line @ map hop (take n (inb ! ch))"
  let ?u = "t\<lparr>bufferSkip := bufferSkip t - 1\<rparr>"
  have t: "t = (new_tester ch)\<lparr>bufferSkip := 100 - int k\<rparr>" "length line = d" "\<forall>x \<in> set line. silent x"
    using assms(1) by (simp_all add: skipping_def)
  have in1: "ch < length inb" "n \<le> length (inb ! ch)" using assms(3) by (simp_all add: quiet_input_def)
  have "writeImpulse now inb n t = Some (inb, ?u)"
    using assms(2) by (simp add: writeImpulse_def t(1) new_tester_def)
  moreover have "lookForReturnPulse (\<lambda>i j. now (2 + 2 * i + j)) (inb[ch := take n ?L]) n ?u = Some ?u"
    by (simp add: lookForReturnPulse_def t(1) new_tester_def AudioTester_new_def)
  moreover have "sendChannel ?u = int ch" by (simp add: t(1) new_tester_def)
  ultimately have "loop_period n now inb (t, line) = Some (?u, drop n ?L)"
    using in1(1) by (intro loop_period_write)
  moreover have "\<forall>x \<in> set ?L. silent x" using t(3) quiet_hop [OF assms(3)] by auto
  then have "\<forall>x \<in> set (drop n ?L). silent x" by (blast dest: in_set_dropD)
  moreover have "length (drop n ?L) = d" using in1(2) t(2) by simp
  ultimately show ?thesis using assms(2) t(1) by (simp add: skipping_def of_nat_diff algebra_simps)
qed

definition run_at :: "nat \<Rightarrow> nat \<Rightarrow> nat \<Rightarrow> nat \<Rightarrow> nat \<Rightarrow> nat \<Rightarrow> AudioTester \<times> sample_t list \<Rightarrow> bool" where
  "run_at ch n d T P k st \<longleftrightarrow> (if k < 100 then skipping ch d k st else rounds_at ch n d (T + 100 * P) P (k - 100) st)"

lemma skipped_ready: "skipping ch d 100 st \<Longrightarrow> ready ch d 0 st"
  by (auto simp: skipping_def ready_def measured_def new_tester_def AudioTester_new_def intro: exI [of _ 1])

text \<open>
  C30: the latency test measures the delay.  A tester on a loop whose line carries 16 bits and delays
  by \<open>d\<close> samples, with a quiet input, and with a delay that lets the impulse and its time stamp return
  in one buffer of at most 16383 frames and within half a second: after the hundred skipped buffers each round of \<open>d div n + 1\<close> buffers
  sends one impulse and finds it.  After \<open>R\<close> rounds the count of round trips is \<open>R\<close>, and the histogram has all of them in
  the cell of \<open>d\<close> samples at 48000 samples in a second, 240 samples to a cell, and nothing in the others.
\<close>

theorem tester_measures_delay:
  assumes n: "2 \<le> n" "n \<le> 16383" and d: "0 < d" "d < 1073741824" "d mod n < n - 1"
    and line: "length line = d" "\<forall>x \<in> set line. silent x"
    and R: "R < 2147483647" and K: "K = 100 + R * (d div n + 1)"
    and inb: "\<And>k. k < K \<Longrightarrow> quiet_input n ch (inb k)"
    and now: "\<And>k. k < K \<Longrightarrow> paced T P k (now k)" and P: "(d div n + 1) * P \<le> 500000"
    and T: "T + K * P < 9000000000000000000"
  shows "\<exists>t line'. iter_opt (\<lambda>k. loop_period n (now k) (inb k)) [0..<K] (new_tester ch, line) = Some (t, line') \<and>
    roundTripCount t = Fin (of_nat R) \<and> latencyHistogram t = (\<lambda>_. 0)(min 19 (int d div 240) := int R) \<and>
    \<not> impulsePending t"
proof -
  have "\<exists>st. iter_opt (\<lambda>k. loop_period n (now k) (inb k)) [0..<K] (new_tester ch, line) = Some st \<and> run_at ch n d T P K st"
  proof (rule iter_opt_invariant [where P = "run_at ch n d T P"])
    show "run_at ch n d T P 0 (new_tester ch, line)"
      using line by (simp add: run_at_def skipping_def new_tester_def AudioTester_new_def bufferSkipStart_def)
  next
    fix k st assume k: "k < K" and st: "run_at ch n d T P k st"
    obtain t l where tl: "st = (t, l)" by (cases st)
    show "\<exists>u. loop_period n (now k) (inb k) st = Some u \<and> run_at ch n d T P (Suc k) u"
    proof (cases "k < 100")
      case True
      then have sk: "skipping ch d k (t, l)" using st by (simp add: run_at_def tl)
      obtain u where u: "loop_period n (now k) (inb k) st = Some u" "skipping ch d (Suc k) u"
        using skip_period [where now = "now k", OF sk True inb [OF k]] unfolding tl by blast
      have "run_at ch n d T P (Suc k) u"
      proof (cases "Suc k < 100")
        case False
        then have "Suc k = 100" using True by simp
        then show ?thesis using u(2) by (auto simp: run_at_def rounds_at_def Let_def dest: skipped_ready)
      qed (use u(2) in \<open>simp add: run_at_def\<close>)
      then show ?thesis using u(1) by blast
    next
      case False
      have pc: "paced (T + 100 * P) P (k - 100) (now k)"
        using now [OF k] False by (simp add: paced_def algebra_simps flip: add_mult_distrib)
      have "T + 100 * P + (k - 100 + 1) * P \<le> T + K * P"
        using mult_le_mono1 [of "Suc k" K P] k False by (simp add: algebra_simps flip: add_mult_distrib)
      then have tm: "T + 100 * P + (k - 100 + 1) * P < 9000000000000000000" using T by (rule le_less_trans)
      have "(k - 100) div (d div n + 1) < R"
        using k False unfolding K by (intro less_mult_imp_div_less) linarith
      then have rr: "(k - 100) div (d div n + 1) < 2147483647" using R by (rule less_trans)
      have at: "rounds_at ch n d (T + 100 * P) P (k - 100) (t, l)" using st False by (simp add: run_at_def tl)
      have "Suc k - 100 = Suc (k - 100)" "\<not> Suc k < 100" using False by simp_all
      then show ?thesis
        using round_period [OF at inb [OF k] pc n d P tm rr] unfolding tl run_at_def by presburger
    qed
  qed
  then obtain t l where t: "iter_opt (\<lambda>k. loop_period n (now k) (inb k)) [0..<K] (new_tester ch, line) = Some (t, l)"
    "run_at ch n d T P K (t, l)" by auto
  have "ready ch d R (t, l)" using t(2) by (simp add: run_at_def K rounds_at_def Let_def del: mult_Suc_right)
  then have "measured ch d R t" "\<not> impulsePending t" by (simp_all add: ready_def)
  then show ?thesis using t(1) unfolding measured_def by blast
qed

lemma value_zero: "float_val 0 = Fin 0"
  by (simp add: float_val_def float_exp_def float_frac_def with_sign_def)

theorem tester_measures_delay_witness:
  "\<exists>t line'. iter_opt (\<lambda>k. loop_period 4 (\<lambda>_. of_nat (k * 100)) [replicate 4 0]) [0..<106] (new_tester 0, replicate 5 0) = Some (t, line') \<and>
    roundTripCount t = Fin (of_nat 3) \<and> latencyHistogram t = (\<lambda>_. 0)(min 19 (int 5 div 240) := int 3) \<and> \<not> impulsePending t"
proof (rule tester_measures_delay [where T = 0 and P = 100 and ch = 0 and n = 4 and d = 5])
  show "\<forall>x \<in> set (replicate 5 0). silent x" using value_zero by (simp add: silent_def above_noise_iff)
  show "quiet_input 4 0 [replicate 4 0]" for k :: nat using value_zero by (simp add: quiet_input_def)
  show "paced 0 100 k (\<lambda>_. of_nat (k * 100))" if "k < 106" for k
  proof -
    have "unat (of_nat (k * 100) :: u64) = k * 100" using that by (simp add: unat_of_nat del: of_nat_mult)
    then show ?thesis unfolding paced_def by simp
  qed
qed simp_all

end
