(* ===== verification/AudioCallbacks.thy ===== *)
theory AudioCallbacks
  imports AudioInterface AudioSocket
begin

text \<open>
  The callbacks of the audio system (\<open>src/AudioInterface.cpp\<close>) without the WAIR option: the input
  through the audio sockets, the monitor queue, the plugins and the latency test to the packet for the
  network, and the packet from the network through the latency test, the plugins, the monitor and the
  audio sockets to the output.  The plugins are virtual functions: what they compute, their
  flag and their preparation are arguments, over a state of their own.  A callback with too many
  frames ends the program; it has no result here.
\<close>

section \<open>Plugins\<close>

datatype chain = ToNetwork | FromNetwork | ToMonitor

text \<open>The functions take the chain and the position of the plugin in it.\<close>

record 'w plugin_code =
  plugin_inited :: "chain \<Rightarrow> nat \<Rightarrow> 'w \<Rightarrow> bool"
  plugin_compute :: "chain \<Rightarrow> nat \<Rightarrow> nat \<Rightarrow> channels \<Rightarrow> channels \<Rightarrow> 'w \<Rightarrow> (channels \<times> 'w) option"
  plugin_setOutgoing :: "chain \<Rightarrow> nat \<Rightarrow> bool \<Rightarrow> 'w \<Rightarrow> 'w"
  plugin_updateNumChannels :: "chain \<Rightarrow> nat \<Rightarrow> int \<Rightarrow> int \<Rightarrow> 'w \<Rightarrow> 'w"
  plugin_initialize :: "chain \<Rightarrow> nat \<Rightarrow> u32 \<Rightarrow> u32 \<Rightarrow> 'w \<Rightarrow> 'w"

record 'w callbacks =
  interface :: AudioInterface
  mAudioSockets :: "AudioSocket list"
  plugins :: 'w

text \<open>The plugins of a chain work in place.\<close>

definition run_chain :: "'w plugin_code \<Rightarrow> chain \<Rightarrow> nat \<Rightarrow> nat \<Rightarrow> channels \<Rightarrow> 'w \<Rightarrow> (channels \<times> 'w) option" where
  "run_chain C chain count n_frames buf w =
     iter_opt (\<lambda>k (buf, w). if plugin_inited C chain k w then plugin_compute C chain k n_frames buf buf w else Some (buf, w))
       [0..<count] (buf, w)"

text \<open>The sockets, one after the other; the input and the output of the plugin are the same buffer.\<close>

definition sockets_in :: "nat \<Rightarrow> channels \<Rightarrow> AudioSocket list \<Rightarrow> (channels \<times> AudioSocket list) option" where
  "sockets_in n_frames buf ss =
     iter_opt (\<lambda>k (buf, ss). do {
         (buf, s) \<leftarrow> from_compute n_frames buf buf (ss ! k);
         Some (buf, ss[k := s])
       }) [0..<length ss] (buf, ss)"

definition sockets_out :: "nat \<Rightarrow> channels \<Rightarrow> AudioSocket list \<Rightarrow> AudioSocket list option" where
  "sockets_out n_frames buf ss =
     iter_opt (\<lambda>k ss. do { s \<leftarrow> to_compute n_frames buf (ss ! k); Some (ss[k := s]) }) [0..<length ss] ss"

section \<open>The monitor\<close>

definition monitoring :: "AudioInterface \<Rightarrow> bool" where
  "monitoring a \<longleftrightarrow> mMonitorQueuePtr a \<noteq> None \<and> mProcessPluginsToMonitor a \<noteq> []"

text \<open>The bytes of samples, and back.\<close>

definition sample_bytes :: "sample_t list \<Rightarrow> bytes" where
  "sample_bytes xs = concat (map float_bytes xs)"

definition bytes_samples :: "nat \<Rightarrow> bytes \<Rightarrow> sample_t list" where
  "bytes_samples n bs = map (\<lambda>j. of_nat (of_le_bytes (take 4 (drop (4 * j) bs)))) [0..<n]"

definition monitor_input :: "channels \<Rightarrow> nat \<Rightarrow> AudioInterface \<Rightarrow> AudioInterface option" where
  "monitor_input in_buffer n_frames a =
     (case mMonitorQueuePtr a of None \<Rightarrow> None
      | Some q \<Rightarrow> do {
          packet \<leftarrow> iter_opt (\<lambda>i packet.
              if i < length in_buffer
              then do { xs \<leftarrow> mem_read (in_buffer ! i) 0 n_frames; mem_write packet (i * (4 * n_frames)) (sample_bytes xs) }
              else None) [0..<length (mInputChans a)] (mAudioInputPacket a);
          (_, q) \<leftarrow> frame_push packet q;
          Some (a\<lparr>mAudioInputPacket := packet, mMonitorQueuePtr := Some q\<rparr>)
        })"

partial_function (option) drain_queue :: "bytes \<Rightarrow> WaitFreeFrameBuffer \<Rightarrow> (bytes \<times> WaitFreeFrameBuffer) option" where
  "drain_queue packet q = do {
     (got, packet, q) \<leftarrow> frame_pop packet q;
     if got then drain_queue packet q else Some (packet, q)
   }"

definition monitor_pop :: "bool \<Rightarrow> bytes \<Rightarrow> WaitFreeFrameBuffer \<Rightarrow> (bytes \<times> WaitFreeFrameBuffer) option" where
  "monitor_pop started packet q =
     (if started then do { (_, packet, q) \<leftarrow> frame_pop packet q; Some (packet, q) }
      else drain_queue packet q)"

text \<open>The channel of the input that an output channel hears.\<close>

definition monitor_source :: "AudioInterface \<Rightarrow> nat \<Rightarrow> nat" where
  "monitor_source a i = (if 0 < i \<and> i < length (mInputChans a) \<and> mInputMixMode a = STEREO then i else 0)"

definition monitor_copy :: "nat \<Rightarrow> bytes \<Rightarrow> AudioInterface \<Rightarrow> channels option" where
  "monitor_copy n_frames packet a =
     iter_opt (\<lambda>i buf.
         if i < length buf
         then do {
           bs \<leftarrow> mem_read packet (monitor_source a i * (4 * n_frames)) (4 * n_frames);
           channel \<leftarrow> mem_write (buf ! i) 0 (bytes_samples n_frames bs);
           Some (buf[i := channel])
         }
         else None) [0..<length (mOutputChans a)] (mOutProcessBuffer a)"

definition monitor_output :: "nat \<Rightarrow> AudioInterface \<Rightarrow> AudioInterface option" where
  "monitor_output n_frames a =
     (case mMonitorQueuePtr a of None \<Rightarrow> None
      | Some q \<Rightarrow> do {
          packet \<leftarrow> mem_write (mAudioOutputPacket a) 0 (replicate (4 * n_frames * length (mInputChans a)) 0);
          (packet, q) \<leftarrow> monitor_pop (mMonitorStarted a) packet q;
          buf \<leftarrow> monitor_copy n_frames packet a;
          Some (a\<lparr>mAudioOutputPacket := packet, mMonitorQueuePtr := Some q, mMonitorStarted := True, mOutProcessBuffer := buf\<rparr>)
        })"

definition run_monitors :: "'w plugin_code \<Rightarrow> nat \<Rightarrow> nat \<Rightarrow> channels \<Rightarrow> channels \<Rightarrow> 'w \<Rightarrow> (channels \<times> 'w) option" where
  "run_monitors C count n_frames inputs out_buffer w =
     iter_opt (\<lambda>k (out, w). if plugin_inited C ToMonitor k w then plugin_compute C ToMonitor k n_frames inputs out w else Some (out, w))
       [0..<count] (out_buffer, w)"

section \<open>The callbacks\<close>

text \<open>The latency test, when it is there and enabled.\<close>

definition test_impulse :: "(nat \<Rightarrow> u64) \<Rightarrow> channels \<Rightarrow> nat \<Rightarrow> AudioInterface \<Rightarrow> (channels \<times> AudioInterface) option" where
  "test_impulse now in_buffer n_frames a =
     (case mAudioTesterP a of None \<Rightarrow> Some (in_buffer, a)
      | Some t \<Rightarrow> if \<not> enabled t then Some (in_buffer, a)
          else do { (buf, t) \<leftarrow> writeImpulse now in_buffer n_frames t; Some (buf, a\<lparr>mAudioTesterP := Some t\<rparr>) })"

definition test_return :: "(nat \<Rightarrow> nat \<Rightarrow> u64) \<Rightarrow> channels \<Rightarrow> nat \<Rightarrow> AudioInterface \<Rightarrow> AudioInterface option" where
  "test_return now out_buffer n_frames a =
     (case mAudioTesterP a of None \<Rightarrow> Some a
      | Some t \<Rightarrow> if \<not> enabled t then Some a
          else do { t \<leftarrow> lookForReturnPulse now out_buffer n_frames t; Some (a\<lparr>mAudioTesterP := Some t\<rparr>) })"

definition audioInputCallback :: "'w plugin_code \<Rightarrow> (nat \<Rightarrow> u64) \<Rightarrow> channels \<Rightarrow> nat \<Rightarrow> 'w callbacks \<Rightarrow>
    (channels \<times> 'w callbacks) option" where
  "audioInputCallback C now in_buffer n_frames c =
     (let a = interface c in if unat (mBufferSizeInSamples a) < n_frames then None else do {
        (buf, ss) \<leftarrow> sockets_in n_frames in_buffer (mAudioSockets c);
        a \<leftarrow> (if monitoring a then monitor_input buf n_frames a else Some a);
        (buf, w) \<leftarrow> run_chain C ToNetwork (length (mProcessPluginsToNetwork a)) n_frames buf (plugins c);
        (buf, a) \<leftarrow> test_impulse now buf n_frames a;
        a \<leftarrow> (if mProcessWithNetwork a then computeProcessToNetwork buf n_frames a else Some a);
        Some (buf, c\<lparr>interface := a, mAudioSockets := ss, plugins := w\<rparr>)
      })"

text \<open>\<open>received\<close> is what \<open>receiveNetworkPacket\<close> writes to the packet.\<close>

definition audioOutputCallback :: "'w plugin_code \<Rightarrow> (nat \<Rightarrow> nat \<Rightarrow> u64) \<Rightarrow> bytes \<Rightarrow> channels \<Rightarrow> nat \<Rightarrow> 'w callbacks \<Rightarrow>
    (channels \<times> 'w callbacks) option" where
  "audioOutputCallback C now received out_buffer n_frames c =
     (let a = interface c in if unat (mBufferSizeInSamples a) < n_frames then None else do {
        (buf, a) \<leftarrow> (if mProcessWithNetwork a then computeProcessFromNetwork received out_buffer n_frames a else Some (out_buffer, a));
        a \<leftarrow> test_return now buf n_frames a;
        (buf, w) \<leftarrow> run_chain C FromNetwork (length (mProcessPluginsFromNetwork a)) n_frames buf (plugins c);
        (buf, a, w) \<leftarrow> (if monitoring a
          then do {
            a \<leftarrow> monitor_output n_frames a;
            (buf, w) \<leftarrow> run_monitors C (length (mProcessPluginsToMonitor a)) n_frames (mOutProcessBuffer a) buf w;
            Some (buf, a, w)
          }
          else Some (buf, a, w));
        ss \<leftarrow> sockets_out n_frames buf (mAudioSockets c);
        Some (buf, c\<lparr>interface := a, mAudioSockets := ss, plugins := w\<rparr>)
      })"

definition audio_callback :: "'w plugin_code \<Rightarrow> (nat \<Rightarrow> u64) \<Rightarrow> (nat \<Rightarrow> nat \<Rightarrow> u64) \<Rightarrow> bytes \<Rightarrow> channels \<Rightarrow> channels \<Rightarrow> nat \<Rightarrow>
    'w callbacks \<Rightarrow> (channels \<times> channels \<times> 'w callbacks) option" where
  "audio_callback C now_in now_out received in_buffer out_buffer n_frames c = do {
     (inb, c) \<leftarrow> audioInputCallback C now_in in_buffer n_frames c;
     (outb, c) \<leftarrow> audioOutputCallback C now_out received out_buffer n_frames c;
     Some (inb, outb, c)
   }"

section \<open>Preparation\<close>

definition appendAudioSocket :: "AudioSocket option \<Rightarrow> 'w callbacks \<Rightarrow> 'w callbacks" where
  "appendAudioSocket s c =
     (case s of None \<Rightarrow> c
      | Some s \<Rightarrow> c\<lparr>mAudioSockets := mAudioSockets c @ [s\<lparr>fromPlugin := (fromPlugin s)\<lparr>mPassthrough := True\<rparr>\<rparr>]\<rparr>)"

definition prepare_chain :: "'w plugin_code \<Rightarrow> chain \<Rightarrow> nat \<Rightarrow> bool \<Rightarrow> int \<Rightarrow> int \<Rightarrow> AudioInterface \<Rightarrow> 'w \<Rightarrow> 'w" where
  "prepare_chain C chain count outgoing nin nout a w =
     foldl (\<lambda>w k. plugin_initialize C chain k (mSampleRate a) (mBufferSizeInSamples a)
         (plugin_updateNumChannels C chain k nin nout (plugin_setOutgoing C chain k outgoing w))) w [0..<count]"

definition prepare_socket :: "int \<Rightarrow> int \<Rightarrow> AudioInterface \<Rightarrow> AudioSocket \<Rightarrow> AudioSocket" where
  "prepare_socket nin nout a s =
     (let rate = sint (mSampleRate a); frames = sint (mBufferSizeInSamples a)
      in s\<lparr>fromPlugin := socket_plugin_init rate frames (from_updateNumChannels nin nout ((fromPlugin s)\<lparr>pl_outgoing := True\<rparr>)),
        toPlugin := socket_plugin_init rate frames (to_updateNumChannels nin nout ((toPlugin s)\<lparr>pl_outgoing := False\<rparr>))\<rparr>)"

definition initPlugins :: "'w plugin_code \<Rightarrow> 'w callbacks \<Rightarrow> 'w callbacks" where
  "initPlugins C c =
     (let a = interface c;
          nChansIn = (if mInputMixMode a = MIXTOMONO then 1 else int (length (mInputChans a)));
          nChansOut = int (length (mOutputChans a));
          nChansMon = getNumMonChannels a;
          w = prepare_chain C FromNetwork (length (mProcessPluginsFromNetwork a)) False nChansIn nChansOut a (plugins c);
          w = prepare_chain C ToNetwork (length (mProcessPluginsToNetwork a)) True nChansIn nChansOut a w;
          w = prepare_chain C ToMonitor (length (mProcessPluginsToMonitor a)) False nChansMon nChansMon a w
      in c\<lparr>plugins := w, mAudioSockets := map (prepare_socket nChansIn nChansOut a) (mAudioSockets c)\<rparr>)"

end
