(* ===== verification/CallbackSpec.thy ===== *)
theory CallbackSpec
  imports AudioCallbacks AudioSocketSpec
begin

text \<open>
  The monitor of the audio callbacks: while there is room for a period of the input in the packet of
  the output, every period hears its own input; with more inputs than outputs there is no room.
\<close>

section \<open>Samples as bytes\<close>

lemma sample_bytes_length [simp]: "length (sample_bytes xs) = 4 * length xs"
  by (induction xs) (simp_all add: sample_bytes_def)

lemma sample_bytes_at: "j < length xs \<Longrightarrow> take 4 (drop (4 * j) (sample_bytes xs)) = float_bytes (xs ! j)"
proof (induction xs arbitrary: j)
  case (Cons x xs)
  have e: "sample_bytes (x # xs) = float_bytes x @ sample_bytes xs" by (simp add: sample_bytes_def)
  show ?case
  proof (cases j)
    case (Suc i)
    then have "take 4 (drop (4 * i) (sample_bytes xs)) = float_bytes (xs ! i)" using Cons by simp
    then show ?thesis unfolding e Suc by (simp add: drop_append)
  qed (simp add: e)
qed simp

lemma bytes_of_samples: "bytes_samples (length xs) (sample_bytes xs) = xs"
  by (rule nth_equalityI) (simp_all add: bytes_samples_def sample_bytes_at of_float_bytes)

section \<open>The queue\<close>

text \<open>A frame popped into a larger array.\<close>

lemma frame_pop_into:
  assumes "frames_ok sz n b" and "n \<le> length val" and "pending_items b = x # xs"
  shows "\<exists>b'. frame_pop val b = Some (True, x @ drop n val, b') \<and> frames_ok sz n b' \<and> pending_items b' = xs \<and> length x = n"
proof -
  obtain b' where b': "frame_pop (replicate n 0) b = Some (True, x, b')" "frames_ok sz n b'" "pending_items b' = xs"
    using frame_pop_item [OF assms(1) length_replicate assms(3)] by blast
  have sz: "mBytesPerFrame b = n" using assms(1) by (simp add: frames_ok_def)
  let ?item = "mRing b ! mTailPtr b"
  have pop: "mTailPtr b \<noteq> mHeadPtr b" "n \<le> length ?item" "x = take n ?item"
    "b' = b\<lparr>mTailPtr := next_index (Size b) (mTailPtr b)\<rparr>"
    using b'(1) by (auto simp: frame_pop_def pop_def frame_getItem_def mem_read_def mem_write_def sz Let_def split: if_splits option.splits)
  then have "frame_pop val b = Some (True, x @ drop n val, b')"
    using assms(2) by (simp add: frame_pop_def pop_def frame_getItem_def mem_read_def mem_write_def sz Let_def)
  then show ?thesis using b'(2,3) pop(2,3) by simp
qed

lemma frame_pop_nothing:
  assumes "frames_ok sz n b" and "pending_items b = []"
  shows "\<exists>b'. frame_pop val b = Some (False, val, b') \<and> frames_ok sz n b' \<and> pending_items b' = []"
proof -
  have "mHeadPtr b = mTailPtr b" using assms pending_items_empty [of b] by (auto simp: frames_ok_def)
  then show ?thesis
    using assms by (simp add: frame_pop_def pop_def frames_ok_def ring_ok_def pending_items_def ring_size_def Let_def)
qed

lemma monitor_pop_item:
  assumes "frames_ok sz n q" and "n \<le> length mem" and "pending_items q = [x]"
  shows "\<exists>q'. monitor_pop started mem q = Some (x @ drop n mem, q') \<and> frames_ok sz n q' \<and> pending_items q' = [] \<and> length x = n"
proof -
  obtain q1 where q1: "frame_pop mem q = Some (True, x @ drop n mem, q1)" "frames_ok sz n q1"
    "pending_items q1 = []" "length x = n"
    using frame_pop_into [OF assms(1-3)] by blast
  obtain q2 where q2: "frame_pop (x @ drop n mem) q1 = Some (False, x @ drop n mem, q2)" "frames_ok sz n q2" "pending_items q2 = []"
    using frame_pop_nothing [OF q1(2,3)] by blast
  have "drain_queue mem q = Some (x @ drop n mem, q2)"
    using q1(1) q2(1) by (simp add: drain_queue.simps [of mem] drain_queue.simps [of "x @ drop n mem"])
  then show ?thesis using q1 q2 by (cases started) (simp_all add: monitor_pop_def)
qed

section \<open>Filling and copying\<close>

lemma chunk_other: "i \<noteq> j \<Longrightarrow> i * (m :: nat) + m \<le> j * m \<or> j * m + m \<le> i * m"
proof -
  assume "i \<noteq> j"
  then consider "Suc i \<le> j" | "Suc j \<le> i" by linarith
  then show ?thesis
  proof cases
    case 1
    then have "Suc i * m \<le> j * m" by (rule mult_le_mono1)
    then show ?thesis by simp
  next
    case 2
    then have "Suc j * m \<le> i * m" by (rule mult_le_mono1)
    then show ?thesis by simp
  qed
qed

lemma monitor_packet:
  assumes "has_frames inb C n" and "C * (4 * n) \<le> length mem"
  shows "\<exists>p. iter_opt (\<lambda>i mem.
      if i < length inb
      then do { xs \<leftarrow> mem_read (inb ! i) 0 n; mem_write mem (i * (4 * n)) (sample_bytes xs) }
      else None) [0..<C] mem = Some p \<and> length p = length mem \<and>
    (\<forall>i<C. take (4 * n) (drop (i * (4 * n)) p) = sample_bytes (take n (inb ! i)))"
proof -
  let ?P = "\<lambda>k p. length p = length mem \<and> (\<forall>i<k. take (4 * n) (drop (i * (4 * n)) p) = sample_bytes (take n (inb ! i)))"
  show ?thesis
  proof (rule iter_opt_invariant [where P = ?P])
    fix k p assume k: "k < C" and p: "?P k p"
    have b: "k < length inb" "n \<le> length (inb ! k)" using assms(1) k by (auto simp: has_frames_def)
    have "Suc k * (4 * n) \<le> C * (4 * n)" using k by (intro mult_le_mono1) simp
    then have room: "k * (4 * n) + 4 * n \<le> length p" using assms(2) p by simp
    have len: "length (sample_bytes (take n (inb ! k))) = 4 * n" using b(2) by simp
    obtain r where r: "mem_write p (k * (4 * n)) (sample_bytes (take n (inb ! k))) = Some r"
      using room len by (simp add: mem_write_def)
    have "take (4 * n) (drop (i * (4 * n)) r) = sample_bytes (take n (inb ! i))" if "i < Suc k" for i
    proof (cases "i = k")
      case True
      then show ?thesis using mem_write_same [OF r] unfolding len by simp
    next
      case False
      then have "take (4 * n) (drop (i * (4 * n)) r) = take (4 * n) (drop (i * (4 * n)) p)"
        using chunk_other [of i k "4 * n"] len by (intro mem_write_other [OF r]) simp
      then show ?thesis using p that False by simp
    qed
    then show "\<exists>u. (if k < length inb
        then do { xs \<leftarrow> mem_read (inb ! k) 0 n; mem_write p (k * (4 * n)) (sample_bytes xs) }
        else None) = Some u \<and> ?P (Suc k) u"
      using r b p mem_write_length [OF r] by (simp add: mem_read_def)
  qed simp
qed

lemma monitor_copy_channels:
  assumes out: "has_frames (mOutProcessBuffer a) (length (mOutputChans a)) n" and C: "0 < length (mInputChans a)"
    and p: "\<And>i. i < length (mInputChans a) \<Longrightarrow> take (4 * n) (drop (i * (4 * n)) mem) = sample_bytes (take n (inb ! i)) \<and>
      i * (4 * n) + 4 * n \<le> length mem"
    and inb: "has_frames inb (length (mInputChans a)) n"
  shows "\<exists>buf. monitor_copy n mem a = Some buf \<and> length buf = length (mOutProcessBuffer a) \<and>
    (\<forall>i. length (buf ! i) = length (mOutProcessBuffer a ! i)) \<and>
    (\<forall>i<length (mOutputChans a). take n (buf ! i) = take n (inb ! monitor_source a i))"
proof -
  let ?O = "mOutProcessBuffer a"
  let ?P = "\<lambda>k buf. length buf = length ?O \<and> (\<forall>i. length (buf ! i) = length (?O ! i)) \<and>
    (\<forall>i<k. take n (buf ! i) = take n (inb ! monitor_source a i))"
  show ?thesis unfolding monitor_copy_def
  proof (rule iter_opt_invariant [where P = ?P])
    fix k buf assume k: "k < length (mOutputChans a)" and P: "?P k buf"
    let ?s = "monitor_source a k"
    have b: "k < length buf" "n \<le> length (buf ! k)" using out k P by (auto simp: has_frames_def)
    have s: "?s < length (mInputChans a)" using C by (simp add: monitor_source_def)
    have len: "length (take n (inb ! ?s)) = n" using inb s by (simp add: has_frames_def)
    have rd: "mem_read mem (?s * (4 * n)) (4 * n) = Some (sample_bytes (take n (inb ! ?s)))"
      using p [OF s] by (simp add: mem_read_def)
    have "bytes_samples n (sample_bytes (take n (inb ! ?s))) = take n (inb ! ?s)"
      using bytes_of_samples [of "take n (inb ! ?s)"] len by simp
    moreover have "mem_write (buf ! k) 0 (take n (inb ! ?s)) = Some (take n (inb ! ?s) @ drop n (buf ! k))"
      using b(2) len by (simp add: mem_write_def)
    ultimately show "\<exists>u. (if k < length buf
         then do {
           bs \<leftarrow> mem_read mem (monitor_source a k * (4 * n)) (4 * n);
           channel \<leftarrow> mem_write (buf ! k) 0 (bytes_samples n bs);
           Some (buf[k := channel])
         }
         else None) = Some u \<and> ?P (Suc k) u"
      using b rd len P by (auto simp: nth_list_update less_Suc_eq)
  qed simp
qed

section \<open>A period\<close>

lemma has_frames_less: "has_frames buf C n \<Longrightarrow> c \<le> C \<Longrightarrow> m \<le> n \<Longrightarrow> has_frames buf c m"
  by (auto simp: has_frames_def) (meson order_trans order_less_le_trans)

definition frames :: "AudioInterface \<Rightarrow> nat" where
  "frames a = unat (mBufferSizeInSamples a)"

abbreviation inputs :: "AudioInterface \<Rightarrow> nat" where "inputs a \<equiv> length (mInputChans a)"
abbreviation outputs :: "AudioInterface \<Rightarrow> nat" where "outputs a \<equiv> length (mOutputChans a)"

text \<open>The plugins compute on the channels of the interface and keep the sizes of the buffers.\<close>

definition plugins_ok :: "AudioInterface \<Rightarrow> 'w plugin_code \<Rightarrow> bool" where
  "plugins_ok a C \<longleftrightarrow> (\<forall>k n inp out w. n \<le> frames a \<longrightarrow>
     (has_frames inp (inputs a) n \<longrightarrow>
        (\<exists>out' w'. plugin_compute C ToNetwork k n inp inp w = Some (out', w') \<and> has_frames out' (inputs a) n)) \<and>
     (has_frames inp (outputs a) n \<longrightarrow>
        (\<exists>out' w'. plugin_compute C FromNetwork k n inp inp w = Some (out', w') \<and> has_frames out' (outputs a) n)) \<and>
     (has_frames inp (outputs a) n \<and> has_frames out (outputs a) n \<longrightarrow>
        (\<exists>out' w'. plugin_compute C ToMonitor k n inp out w = Some (out', w') \<and> has_frames out' (outputs a) n)))"

lemma chain_total:
  fixes f :: "nat \<Rightarrow> channels \<Rightarrow> 'w \<Rightarrow> (channels \<times> 'w) option"
  assumes "\<And>k buf w. has_frames buf c n \<Longrightarrow> \<exists>buf' w'. f k buf w = Some (buf', w') \<and> has_frames buf' c n"
    and "has_frames buf c n"
  shows "\<exists>buf' w'. iter_opt (\<lambda>k (buf, w). if b k w then f k buf w else Some (buf, w)) [0..<count] (buf, w) = Some (buf', w') \<and>
    has_frames buf' c n"
proof -
  have "\<exists>t. iter_opt (\<lambda>k (buf, w). if b k w then f k buf w else Some (buf, w)) [0..<count] (buf, w) = Some t \<and> has_frames (fst t) c n"
  proof (rule iter_opt_invariant [where P = "\<lambda>_ t. has_frames (fst t) c n"])
    fix k and t :: "channels \<times> 'w" assume t: "has_frames (fst t) c n"
    show "\<exists>u. (case t of (buf, w) \<Rightarrow> if b k w then f k buf w else Some (buf, w)) = Some u \<and> has_frames (fst u) c n"
      using assms(1) [OF t, of k "snd t"] t by (cases t) auto
  qed (use assms(2) in simp)
  then show ?thesis by fastforce
qed

lemma run_chain_in: "plugins_ok a C \<Longrightarrow> n \<le> frames a \<Longrightarrow> has_frames buf (inputs a) n \<Longrightarrow>
    \<exists>buf' w'. run_chain C ToNetwork count n buf w = Some (buf', w') \<and> has_frames buf' (inputs a) n"
  unfolding run_chain_def by (rule chain_total) (simp_all add: plugins_ok_def)

lemma run_chain_out: "plugins_ok a C \<Longrightarrow> n \<le> frames a \<Longrightarrow> has_frames buf (outputs a) n \<Longrightarrow>
    \<exists>buf' w'. run_chain C FromNetwork count n buf w = Some (buf', w') \<and> has_frames buf' (outputs a) n"
  unfolding run_chain_def by (rule chain_total) (simp_all add: plugins_ok_def)

lemma run_monitors_total: "plugins_ok a C \<Longrightarrow> n \<le> frames a \<Longrightarrow> has_frames inp (outputs a) n \<Longrightarrow> has_frames out (outputs a) n \<Longrightarrow>
    \<exists>out' w'. run_monitors C count n inp out w = Some (out', w') \<and> has_frames out' (outputs a) n"
  unfolding run_monitors_def by (rule chain_total) (simp_all add: plugins_ok_def)

text \<open>An interface after \<open>setup\<close>, without a latency test.\<close>

definition set_up :: "AudioInterface \<Rightarrow> bool" where
  "set_up a \<longleftrightarrow> 0 < inputs a \<and> inputs a * (4 * frames a) \<le> length (mAudioInputPacket a) \<and>
     outputs a * (4 * frames a) \<le> length (mAudioOutputPacket a) \<and>
     has_frames (mInProcessBuffer a) (inputs a) (frames a) \<and> has_frames (mOutProcessBuffer a) (outputs a) (frames a) \<and>
     mBitResolutionMode a \<noteq> BIT24 \<and> mAudioTesterP a = None"

text \<open>A plugin monitors, a frame of the queue fits into the packet of the output, and these frames wait.\<close>

definition monitored :: "bytes list \<Rightarrow> AudioInterface \<Rightarrow> bool" where
  "monitored xs a \<longleftrightarrow> mProcessPluginsToMonitor a \<noteq> [] \<and> length (mAudioInputPacket a) \<le> length (mAudioOutputPacket a) \<and>
     (\<exists>q. mMonitorQueuePtr a = Some q \<and> frames_ok 64 (length (mAudioInputPacket a)) q \<and> pending_items q = xs)"

lemma room_less: "C * (4 * N) \<le> L \<Longrightarrow> n \<le> N \<Longrightarrow> C * (4 * n) \<le> (L :: nat)"
  by (rule order_trans [of _ "C * (4 * N)"]) simp_all

lemma resolution_bytes:
  "n \<le> N \<Longrightarrow> c \<le> C \<Longrightarrow> C * (4 * N) \<le> L \<Longrightarrow> n * bit_resolution_code res * c \<le> L"
proof -
  assume "n \<le> N" "c \<le> C" and L: "C * (4 * N) \<le> L"
  then have "n * bit_resolution_code res * c \<le> N * 4 * C"
    using resolution_at_most_4 [of res] by (intro mult_le_mono)
  with L show ?thesis by (simp add: ac_simps)
qed

lemma to_network_total:
  assumes a: "set_up a" and n: "n \<le> frames a" and inb: "has_frames inb (inputs a) n"
  shows "\<exists>p. computeProcessToNetwork inb n a = Some (a\<lparr>mAudioInputPacket := p\<rparr>) \<and> length p = length (mAudioInputPacket a)"
proof -
  have c: "nChansIn a \<le> inputs a" using a by (auto simp: nChansIn_def set_up_def Suc_le_eq)
  have "has_frames inb (nChansIn a) n" using inb c by (rule has_frames_less) simp
  moreover have "has_frames (mInProcessBuffer a) (nChansIn a) n"
    using a c n by (auto simp: set_up_def intro: has_frames_less)
  moreover have "n * bit_resolution_code (mBitResolutionMode a) * nChansIn a \<le> length (mAudioInputPacket a)"
    using a n c by (intro resolution_bytes [where N = "frames a" and C = "inputs a"]) (simp_all add: set_up_def)
  moreover have "\<exists>bs. fromSampleToBitConversion x (mBitResolutionMode a) = Some bs" for x
    using a conversion_total [of "mBitResolutionMode a" x] by (auto simp: set_up_def)
  ultimately show ?thesis using to_network_cells [of inb a n] by blast
qed

lemma from_network_total:
  assumes a: "set_up a" and n: "n \<le> frames a" and outb: "has_frames outb (outputs a) n"
    and rx: "length rx \<le> length (mAudioOutputPacket a)"
  shows "\<exists>out p. computeProcessFromNetwork rx outb n a = Some (out, a\<lparr>mAudioOutputPacket := p\<rparr>) \<and>
    length p = length (mAudioOutputPacket a) \<and> has_frames out (outputs a) n"
proof -
  obtain p where p: "mem_write (mAudioOutputPacket a) 0 rx = Some p" "length p = length (mAudioOutputPacket a)"
    using rx by (auto simp: mem_write_def)
  have "n * bit_resolution_code (mBitResolutionMode a) * outputs a \<le> length p"
    using a n p(2) by (intro resolution_bytes [where N = "frames a" and C = "outputs a"]) (simp_all add: set_up_def)
  then obtain out where "extract_channels outb n (a\<lparr>mAudioOutputPacket := p\<rparr>) = Some out" "has_frames out (outputs a) n"
    using extract_cells [OF outb, of "a\<lparr>mAudioOutputPacket := p\<rparr>"] by auto
  then show ?thesis using p by (auto simp: computeProcessFromNetwork_def intro!: exI [of _ p])
qed

section \<open>The two callbacks\<close>

lemma monitor_input_queues:
  assumes a: "set_up a" "monitored [] a" and n: "n \<le> frames a" and inb: "has_frames inb (inputs a) n"
  shows "\<exists>p q. monitor_input inb n a = Some (a\<lparr>mAudioInputPacket := p, mMonitorQueuePtr := Some q\<rparr>) \<and>
    length p = length (mAudioInputPacket a) \<and> frames_ok 64 (length p) q \<and> pending_items q = [p] \<and>
    (\<forall>i<inputs a. take (4 * n) (drop (i * (4 * n)) p) = sample_bytes (take n (inb ! i)))"
proof -
  obtain q where q: "mMonitorQueuePtr a = Some q" "frames_ok 64 (length (mAudioInputPacket a)) q" "pending_items q = []"
    using a(2) by (auto simp: monitored_def)
  have "inputs a * (4 * n) \<le> length (mAudioInputPacket a)" using a(1) n by (auto simp: set_up_def intro: room_less)
  then obtain p where p: "iter_opt (\<lambda>i mem.
      if i < length inb
      then do { xs \<leftarrow> mem_read (inb ! i) 0 n; mem_write mem (i * (4 * n)) (sample_bytes xs) }
      else None) [0..<inputs a] (mAudioInputPacket a) = Some p" "length p = length (mAudioInputPacket a)"
    "\<forall>i<inputs a. take (4 * n) (drop (i * (4 * n)) p) = sample_bytes (take n (inb ! i))"
    using monitor_packet [OF inb] by blast
  obtain q' where "frame_push p q = Some (ring_size q + 1, q')" "frames_ok 64 (length p) q'" "pending_items q' = [p]"
    using frame_push_room [OF q(2), of p] p(2) q(3) by auto
  moreover have "monitor_input inb n a = Some (a\<lparr>mAudioInputPacket := p, mMonitorQueuePtr := Some q'\<rparr>)"
    using calculation(1) p(1) q(1) by (simp add: monitor_input_def)
  ultimately show ?thesis using p(2,3) by blast
qed

lemma monitor_output_hears:
  assumes a: "set_up a" "monitored [p] a" and n: "n \<le> frames a"
    and p: "\<forall>i<inputs a. take (4 * n) (drop (i * (4 * n)) p) = sample_bytes (take n (inb ! i))"
    and inb: "has_frames inb (inputs a) n"
  shows "\<exists>op q buf. monitor_output n a = Some (a\<lparr>mAudioOutputPacket := op, mMonitorQueuePtr := Some q, mMonitorStarted := True, mOutProcessBuffer := buf\<rparr>) \<and>
    length op = length (mAudioOutputPacket a) \<and> frames_ok 64 (length (mAudioInputPacket a)) q \<and> pending_items q = [] \<and>
    has_frames buf (outputs a) (frames a) \<and> (\<forall>i<outputs a. take n (buf ! i) = take n (inb ! monitor_source a i))"
proof -
  let ?F = "length (mAudioInputPacket a)"
  obtain q where q: "mMonitorQueuePtr a = Some q" "frames_ok 64 ?F q" "pending_items q = [p]" "?F \<le> length (mAudioOutputPacket a)"
    using a(2) by (auto simp: monitored_def)
  have F: "inputs a * (4 * n) \<le> ?F" using a(1) n by (auto simp: set_up_def intro: room_less)
  then have "4 * n * inputs a \<le> length (mAudioOutputPacket a)" using q(4) by (simp add: ac_simps)
  then obtain z where z: "mem_write (mAudioOutputPacket a) 0 (replicate (4 * n * inputs a) 0) = Some z"
    "length z = length (mAudioOutputPacket a)" by (auto simp: mem_write_def)
  obtain q' where q': "monitor_pop (mMonitorStarted a) z q = Some (p @ drop ?F z, q')" "frames_ok 64 ?F q'"
    "pending_items q' = []" "length p = ?F"
    using monitor_pop_item [OF q(2) _ q(3), of z] z(2) q(4) by auto
  have ch: "take (4 * n) (drop (i * (4 * n)) (p @ drop ?F z)) = sample_bytes (take n (inb ! i)) \<and>
      i * (4 * n) + 4 * n \<le> length (p @ drop ?F z)" if i: "i < inputs a" for i
  proof -
    have "Suc i * (4 * n) \<le> inputs a * (4 * n)" using i by (intro mult_le_mono1) simp
    then have "i * (4 * n) + 4 * n \<le> length p" using F q'(4) by simp
    then show ?thesis using p i by simp
  qed
  have out: "has_frames (mOutProcessBuffer a) (outputs a) n"
    using a(1) n by (auto simp: set_up_def intro: has_frames_less)
  obtain buf where buf: "monitor_copy n (p @ drop ?F z) a = Some buf" "length buf = length (mOutProcessBuffer a)"
    "\<forall>i. length (buf ! i) = length (mOutProcessBuffer a ! i)"
    "\<forall>i<outputs a. take n (buf ! i) = take n (inb ! monitor_source a i)"
    using monitor_copy_channels [OF out _ ch inb] a(1) by (auto simp: set_up_def)
  have "has_frames buf (outputs a) (frames a)" using a(1) buf(2,3) by (simp add: set_up_def has_frames_def)
  moreover have "length (p @ drop ?F z) = length (mAudioOutputPacket a)" using z(2) q(4) q'(4) by simp
  moreover have "monitor_output n a = Some (a\<lparr>mAudioOutputPacket := p @ drop ?F z, mMonitorQueuePtr := Some q',
      mMonitorStarted := True, mOutProcessBuffer := buf\<rparr>)"
    using q(1) z(1) q'(1) buf(1) by (simp add: monitor_output_def)
  ultimately show ?thesis using q'(2,3) buf(4) by blast
qed

definition same_config :: "AudioInterface \<Rightarrow> AudioInterface \<Rightarrow> bool" where
  "same_config a b \<longleftrightarrow> mInputChans b = mInputChans a \<and> mOutputChans b = mOutputChans a \<and> mInputMixMode b = mInputMixMode a \<and>
     mBufferSizeInSamples b = mBufferSizeInSamples a \<and> length (mAudioOutputPacket b) = length (mAudioOutputPacket a)"

lemma same_config_trans: "same_config a b \<Longrightarrow> same_config b c \<Longrightarrow> same_config a c"
  by (simp add: same_config_def)

lemma same_config_plugins: "same_config a b \<Longrightarrow> plugins_ok b C \<longleftrightarrow> plugins_ok a C"
  by (simp add: same_config_def plugins_ok_def frames_def)

lemma monitoring_eq: "monitored xs a \<Longrightarrow> monitoring a"
  by (auto simp: monitored_def monitoring_def)

lemma input_callback_queues:
  assumes c: "interface c = a" "mAudioSockets c = []" and a: "set_up a" "monitored [] a" and C: "plugins_ok a C"
    and n: "n \<le> frames a" and inb: "has_frames inb (inputs a) n"
  shows "\<exists>inb' c' p. audioInputCallback C now inb n c = Some (inb', c') \<and> mAudioSockets c' = [] \<and> set_up (interface c') \<and>
    monitored [p] (interface c') \<and> same_config a (interface c') \<and>
    (\<forall>i<inputs a. take (4 * n) (drop (i * (4 * n)) p) = sample_bytes (take n (inb ! i))) \<and>
    mProcessPluginsToMonitor (interface c') = mProcessPluginsToMonitor a \<and>
    (\<exists>count buf buf'. run_chain C ToNetwork count n buf (plugins c) = Some (buf', plugins c'))"
proof -
  obtain p q where m: "monitor_input inb n a = Some (a\<lparr>mAudioInputPacket := p, mMonitorQueuePtr := Some q\<rparr>)"
    "length p = length (mAudioInputPacket a)" "frames_ok 64 (length p) q" "pending_items q = [p]"
    "\<forall>i<inputs a. take (4 * n) (drop (i * (4 * n)) p) = sample_bytes (take n (inb ! i))"
    using monitor_input_queues [OF a n inb] by blast
  define a1 where "a1 = a\<lparr>mAudioInputPacket := p, mMonitorQueuePtr := Some q\<rparr>"
  have a1: "set_up a1" "monitored [p] a1" "same_config a a1" "inputs a1 = inputs a" "n \<le> frames a1"
    using a m(2-4) n by (simp_all add: a1_def set_up_def monitored_def same_config_def frames_def)
  obtain buf w where r: "run_chain C ToNetwork (length (mProcessPluginsToNetwork a1)) n inb (plugins c) = Some (buf, w)"
    "has_frames buf (inputs a) n"
    using run_chain_in [OF C n inb] by blast
  have t: "test_impulse now buf n a1 = Some (buf, a1)" using a1(1) by (simp add: test_impulse_def set_up_def)
  obtain a2 where a2: "(if mProcessWithNetwork a1 then computeProcessToNetwork buf n a1 else Some a1) = Some a2"
    "set_up a2" "monitored [p] a2" "same_config a1 a2" "mProcessPluginsToMonitor a2 = mProcessPluginsToMonitor a1"
  proof (cases "mProcessWithNetwork a1")
    case True
    obtain p' where p': "computeProcessToNetwork buf n a1 = Some (a1\<lparr>mAudioInputPacket := p'\<rparr>)"
      "length p' = length (mAudioInputPacket a1)"
      using to_network_total [OF a1(1,5)] r(2) a1(4) by auto
    moreover have "set_up (a1\<lparr>mAudioInputPacket := p'\<rparr>)" "monitored [p] (a1\<lparr>mAudioInputPacket := p'\<rparr>)"
      "same_config a1 (a1\<lparr>mAudioInputPacket := p'\<rparr>)"
      using a1 p'(2) by (simp_all add: set_up_def monitored_def same_config_def frames_def)
    ultimately show ?thesis using True that by simp
  qed (use a1 that in \<open>simp add: same_config_def\<close>)
  have "audioInputCallback C now inb n c = Some (buf, c\<lparr>interface := a2, mAudioSockets := [], plugins := w\<rparr>)"
    using c n monitoring_eq [OF a(2)] m(1) r(1) t a2(1)
    by (simp add: audioInputCallback_def sockets_in_def frames_def a1_def [symmetric] Let_def)
  moreover have "mProcessPluginsToMonitor a2 = mProcessPluginsToMonitor a" using a2(5) by (simp add: a1_def)
  ultimately show ?thesis using a2(2,3) same_config_trans [OF a1(3) a2(4)] m(5) r(1) by fastforce
qed

text \<open>What the output callback does before the monitor.\<close>

lemma output_prefix:
  assumes a: "set_up a" and C: "plugins_ok a C" and n: "n \<le> frames a" and outb: "has_frames outb (outputs a) n"
    and rx: "length rx \<le> length (mAudioOutputPacket a)"
  shows "\<exists>p buf buf' w'. (if mProcessWithNetwork a then computeProcessFromNetwork rx outb n a else Some (outb, a)) =
      Some (buf, a\<lparr>mAudioOutputPacket := p\<rparr>) \<and> length p = length (mAudioOutputPacket a) \<and>
    run_chain C FromNetwork (length (mProcessPluginsFromNetwork a)) n buf w = Some (buf', w') \<and> has_frames buf' (outputs a) n"
proof -
  obtain buf p where "(if mProcessWithNetwork a then computeProcessFromNetwork rx outb n a else Some (outb, a)) =
      Some (buf, a\<lparr>mAudioOutputPacket := p\<rparr>)" "length p = length (mAudioOutputPacket a)" "has_frames buf (outputs a) n"
  proof (cases "mProcessWithNetwork a")
    case True
    then show ?thesis using from_network_total [OF a n outb rx] that by auto
  next
    case False
    then show ?thesis using that [of outb "mAudioOutputPacket a"] outb by simp
  qed
  then show ?thesis using run_chain_out [OF C n, of buf "length (mProcessPluginsFromNetwork a)" w] by blast
qed

lemma output_callback_hears:
  assumes c: "interface c = a" "mAudioSockets c = []" and a: "set_up a" "monitored [p] a" and C: "plugins_ok a C"
    and n: "n \<le> frames a" and outb: "has_frames outb (outputs a) n" and rx: "length rx \<le> length (mAudioOutputPacket a)"
    and p: "\<forall>i<inputs a. take (4 * n) (drop (i * (4 * n)) p) = sample_bytes (take n (inb ! i))"
    and inb: "has_frames inb (inputs a) n"
  shows "\<exists>outb' c'. audioOutputCallback C now rx outb n c = Some (outb', c') \<and> mAudioSockets c' = [] \<and> set_up (interface c') \<and>
    monitored [] (interface c') \<and> same_config a (interface c') \<and>
    (\<forall>i<outputs a. take n (mOutProcessBuffer (interface c') ! i) = take n (inb ! monitor_source a i)) \<and>
    mProcessPluginsToMonitor (interface c') = mProcessPluginsToMonitor a \<and>
    (\<exists>count buf buf' w. run_chain C FromNetwork count n buf (plugins c) = Some (buf', w) \<and>
       run_monitors C (length (mProcessPluginsToMonitor a)) n (mOutProcessBuffer (interface c')) buf' w = Some (outb', plugins c'))"
proof -
  obtain op1 buf buf' w where r: "(if mProcessWithNetwork a then computeProcessFromNetwork rx outb n a else Some (outb, a)) =
      Some (buf, a\<lparr>mAudioOutputPacket := op1\<rparr>)" "length op1 = length (mAudioOutputPacket a)"
    "run_chain C FromNetwork (length (mProcessPluginsFromNetwork a)) n buf (plugins c) = Some (buf', w)" "has_frames buf' (outputs a) n"
    using output_prefix [OF a(1) C n outb rx] by blast
  define a1 where "a1 = a\<lparr>mAudioOutputPacket := op1\<rparr>"
  have a1: "set_up a1" "monitored [p] a1" "n \<le> frames a1"
    "\<forall>i<inputs a1. take (4 * n) (drop (i * (4 * n)) p) = sample_bytes (take n (inb ! i))" "has_frames inb (inputs a1) n"
    using a r(2) n p inb by (simp_all add: a1_def set_up_def monitored_def frames_def)
  obtain op q ob where m: "monitor_output n a1 = Some (a1\<lparr>mAudioOutputPacket := op, mMonitorQueuePtr := Some q, mMonitorStarted := True, mOutProcessBuffer := ob\<rparr>)"
    "length op = length (mAudioOutputPacket a1)" "frames_ok 64 (length (mAudioInputPacket a1)) q" "pending_items q = []"
    "has_frames ob (outputs a1) (frames a1)" "\<forall>i<outputs a1. take n (ob ! i) = take n (inb ! monitor_source a1 i)"
    using monitor_output_hears [OF a1] by (elim exE conjE) (rule that; assumption)
  define a2 where "a2 = a1\<lparr>mAudioOutputPacket := op, mMonitorQueuePtr := Some q, mMonitorStarted := True, mOutProcessBuffer := ob\<rparr>"
  have ms: "monitor_source a1 = monitor_source a" by (simp add: a1_def monitor_source_def fun_eq_iff)
  have a2: "set_up a2" "monitored [] a2" "mOutProcessBuffer a2 = ob" "mProcessPluginsToMonitor a2 = mProcessPluginsToMonitor a"
    using a1(1,2) m(2-5) by (simp_all add: a2_def a1_def set_up_def monitored_def frames_def)
  have sc: "same_config a a2" using m(2) r(2) by (simp add: a2_def a1_def same_config_def)
  have "has_frames ob (outputs a) n" using n by (intro has_frames_less [OF m(5)]) (simp_all add: a1_def frames_def)
  then obtain buf2 w2 where r2: "run_monitors C (length (mProcessPluginsToMonitor a)) n ob buf' w = Some (buf2, w2)"
    using run_monitors_total [OF C n _ r(4)] by blast
  have t: "test_return now buf n a1 = Some a1" using a1(1) by (simp add: test_return_def set_up_def)
  have mo: "monitoring a1" using a1(2) by (rule monitoring_eq)
  have "mProcessPluginsFromNetwork a1 = mProcessPluginsFromNetwork a" by (simp add: a1_def)
  then have "audioOutputCallback C now rx outb n c = Some (buf2, c\<lparr>interface := a2, mAudioSockets := [], plugins := w2\<rparr>)"
    using c n r(1,3) t mo m(1) r2 a2(3,4) unfolding a1_def [symmetric] a2_def [symmetric]
    by (simp add: audioOutputCallback_def sockets_out_def frames_def Let_def)
  moreover have "\<forall>i<outputs a. take n (mOutProcessBuffer a2 ! i) = take n (inb ! monitor_source a i)"
    using m(6) a2(3) ms by (simp add: a1_def)
  moreover have "run_monitors C (length (mProcessPluginsToMonitor a)) n (mOutProcessBuffer a2) buf' w = Some (buf2, w2)"
    using r2 a2(3) by simp
  ultimately show ?thesis using a2(1,2,4) sc r(3)
    by (intro exI [of _ buf2] exI [of _ "c\<lparr>interface := a2, mAudioSockets := [], plugins := w2\<rparr>"]) auto
qed

section \<open>What the plugins of the monitor are given\<close>

text \<open>
  Plugins that compute as \<open>C\<close> does, with a log of the calls of the plugins of the monitor: the position of the
  plugin, and the samples of each channel of the input it is given.
\<close>

type_synonym call_log = "(nat \<times> channels) list"

definition spy :: "'w plugin_code \<Rightarrow> ('w \<times> call_log) plugin_code" where
  "spy C = \<lparr>plugin_inited = (\<lambda>chain k (w, _). plugin_inited C chain k w),
     plugin_compute = (\<lambda>chain k n inp out (w, l0). map_option
       (\<lambda>(out', w'). (out', w', if chain = ToMonitor then l0 @ [(k, map (take n) inp)] else l0))
       (plugin_compute C chain k n inp out w)),
     plugin_setOutgoing = (\<lambda>chain k b (w, l0). (plugin_setOutgoing C chain k b w, l0)),
     plugin_updateNumChannels = (\<lambda>chain k i j (w, l0). (plugin_updateNumChannels C chain k i j w, l0)),
     plugin_initialize = (\<lambda>chain k i j (w, l0). (plugin_initialize C chain k i j w, l0))\<rparr>"

lemma spy_ok:
  assumes "plugins_ok a C"
  shows "plugins_ok a (spy C)"
  using assms unfolding plugins_ok_def spy_def by (fastforce split: prod.split)

lemma iter_opt_Some:
  assumes "iter_opt f [0..<n] s = Some t" and "P 0 s" and "\<And>k u v. k < n \<Longrightarrow> P k u \<Longrightarrow> f k u = Some v \<Longrightarrow> P (Suc k) v"
  shows "P n t"
  using assms(1,3)
proof (induction n arbitrary: t)
  case 0
  then show ?case using assms(2) by simp
next
  case (Suc n)
  then obtain u where u: "iter_opt f [0..<n] s = Some u" "f n u = Some t" by (auto simp: iter_opt_append split: option.splits)
  then have "P n u" using Suc.IH Suc.prems(2) by simp
  then show ?case using Suc.prems(2) u(2) by simp
qed

text \<open>Other chains leave the log alone.\<close>

lemma spied_chain:
  assumes "run_chain (spy C) chain count n buf w = Some (buf', w')" and "chain \<noteq> ToMonitor"
  shows "snd w' = snd w"
  using iter_opt_Some [OF assms(1) [unfolded run_chain_def], of "\<lambda>_ t. snd (snd t) = snd w"] assms(2)
  by (fastforce simp: spy_def split: prod.splits if_splits)

text \<open>The calls of one period: every plugin that is initialised gets the input \<open>inp\<close>, one after the other.\<close>

definition given :: "'w plugin_code \<Rightarrow> nat \<Rightarrow> nat \<Rightarrow> channels \<Rightarrow> call_log \<Rightarrow> bool" where
  "given C count n inp l \<longleftrightarrow> (\<forall>(k, x)\<in>set l. k < count \<and> x = map (take n) inp) \<and>
     ((\<forall>k<count. \<forall>w. plugin_inited C ToMonitor k w) \<longrightarrow> map fst l = [0..<count])"

lemma spied_monitors:
  assumes "run_monitors (spy C) count n inp buf (w, l0) = Some (buf', w')"
  shows "\<exists>l. snd w' = l0 @ l \<and> given C count n inp l"
proof -
  let ?all = "\<forall>k<count. \<forall>w. plugin_inited C ToMonitor k w"
  let ?P = "\<lambda>m t. \<exists>l. snd (snd t) = l0 @ l \<and> (\<forall>(k, x)\<in>set l. k < count \<and> x = map (take n) inp) \<and> (?all \<longrightarrow> map fst l = [0..<m])"
  have "?P count (buf', w')"
  proof (rule iter_opt_Some [OF assms [unfolded run_monitors_def], where P = ?P])
    fix k :: nat and u v :: "channels \<times> 'a \<times> call_log"
    assume k: "k < count" and u: "?P k u" and step: "(case u of (out, w) \<Rightarrow> if plugin_inited (spy C) ToMonitor k w
        then plugin_compute (spy C) ToMonitor k n inp out w else Some (out, w)) = Some v"
    obtain out w0 l1 where uu: "u = (out, w0, l1)" by (cases u) auto
    obtain l where l: "l1 = l0 @ l" "\<forall>(k, x)\<in>set l. k < count \<and> x = map (take n) inp" "?all \<longrightarrow> map fst l = [0..<k]"
      using u uu by auto
    show "?P (Suc k) v"
    proof (cases "plugin_inited C ToMonitor k w0")
      case True
      then have "snd (snd v) = l0 @ (l @ [(k, map (take n) inp)])" using step l(1) by (auto simp: uu spy_def)
      then show ?thesis using l(2,3) k by (intro exI [of _ "l @ [(k, map (take n) inp)]"]) auto
    next
      case False
      then have "v = u" "\<not> ?all" using step k by (auto simp: uu spy_def)
      then show ?thesis using l uu by (intro exI [of _ l]) simp
    qed
  qed simp
  then show ?thesis by (auto simp: given_def)
qed

section \<open>What setup allocates\<close>

lemma packet_word:
  assumes "unat sz * k < 2147483648"
  shows "unat (of_int (sint (ucast (sz * of_nat k :: u64) :: u32)) :: u64) \<le> unat sz * k"
proof -
  define v where "v = unat (sz * of_nat k)"
  have v: "v \<le> unat sz * k"
  proof -
    have "v \<le> unat sz * (k mod 2 ^ 64)" by (simp add: v_def unat_word_ariths unat_of_nat)
    also have "\<dots> \<le> unat sz * k" by (intro mult_le_mono2) simp
    finally show ?thesis .
  qed
  have "(ucast (sz * of_nat k) :: u32) = of_int (int v)" by (simp add: v_def)
  moreover have "int32_range (int v)" using v assms by (simp add: int32_range_def)
  ultimately have "sint (ucast (sz * of_nat k) :: u32) = int v" by (simp only: sint_of_int_u32)
  then have "unat (of_int (sint (ucast (sz * of_nat k :: u64) :: u32)) :: u64) = v"
    using v assms by (simp add: unat_of_nat del: of_nat_unat)
  then show ?thesis using v by simp
qed

lemma unat_times_le: "unat (of_nat a * of_nat b :: u64) \<le> a * b"
proof -
  have "(of_nat a * of_nat b :: u64) = of_nat (a * b)" by simp
  then show ?thesis by (simp only: unat_of_nat) simp
qed

lemma channel_bytes:
  assumes "mAudioBitResolution a = 8 * int (bit_resolution_code (mBitResolutionMode a))"
  shows "unat (getSizeInBytesPerChannel a) \<le> 4 * frames a"
proof -
  let ?B = "bit_resolution_code (mBitResolutionMode a)"
  have "unat (mBufferSizeInSamples a * of_int (mAudioBitResolution a)) \<le> frames a * (8 * ?B)"
  proof -
    have "mBufferSizeInSamples a * of_int (mAudioBitResolution a) = of_nat (frames a * (8 * ?B))"
      using assms by (simp add: frames_def)
    then show ?thesis by (simp only: unat_of_nat) simp
  qed
  then have "unat (mBufferSizeInSamples a * of_int (mAudioBitResolution a)) div 8 \<le> frames a * ?B" by simp
  also have "\<dots> \<le> frames a * 4" using resolution_at_most_4 by (rule mult_le_mono2)
  finally have "unat (mBufferSizeInSamples a * of_int (mAudioBitResolution a) div 8) \<le> frames a * 4"
    by (simp add: unat_div)
  moreover have "unat (ucast w :: u64) \<le> unat w" for w :: u32
    by (simp add: unsigned_ucast_eq take_bit_eq_mod)
  ultimately have "unat (getSizeInBytesPerChannel a) \<le> frames a * 4"
    unfolding getSizeInBytesPerChannel_def by (rule order_trans [rotated])
  then show ?thesis by (simp only: mult.commute)
qed

lemma setup_packets:
  assumes set: "AudioInterface_setup g q a0 = Some a" and i: "int_channels a0"
    and r: "mAudioBitResolution a0 = 8 * int (bit_resolution_code (mBitResolutionMode a0))"
    and small: "inputs a0 * (4 * frames a0) < 2147483648" "outputs a0 * (4 * frames a0) < 2147483648"
  shows "length (mAudioInputPacket a) = inputs a0 * (4 * frames a0)" "length (mAudioOutputPacket a) = outputs a0 * (4 * frames a0)"
proof -
  let ?sz = "getSizeInBytesPerChannel a0"
  have nn: "0 \<le> sint (mBufferSizeInSamples a0)"
    using set by (auto simp: AudioInterface_setup_def Let_def split: if_splits)
  then have n: "sint (mBufferSizeInSamples a0) = int (frames a0)" unfolding frames_def by (rule sint_nonneg_u32)
  have x: "unat (of_int (sint (ucast (?sz * of_nat k :: u64) :: u32)) :: u64) \<le> k * (4 * frames a0)"
    if "k * (4 * frames a0) < 2147483648" for k
  proof -
    have "unat ?sz * k \<le> k * (4 * frames a0)" using channel_bytes [OF r] by (simp add: mult.commute)
    then show ?thesis using packet_word [of ?sz k] that by linarith
  qed
  have y: "unat (of_nat (k * 4) * of_int (int (frames a0)) :: u64) \<le> k * (4 * frames a0)" for k
    using unat_times_le [of "k * 4" "frames a0"] by (simp add: mult.assoc)
  have "length (mAudioInputPacket a) \<le> inputs a0 * (4 * frames a0)" "length (mAudioOutputPacket a) \<le> outputs a0 * (4 * frames a0)"
    using set x [OF small(1)] x [OF small(2)] y [of "inputs a0"] y [of "outputs a0"] nn
    unfolding AudioInterface_setup_def Let_def unat_max_u64 n by auto
  then show "length (mAudioInputPacket a) = inputs a0 * (4 * frames a0)" "length (mAudioOutputPacket a) = outputs a0 * (4 * frames a0)"
    using setup_sizes(1,2) [OF set i] by (simp_all add: frames_def mult.assoc)
qed

text \<open>An interface that is going to be set up: fewer than 2 GiB in a packet, inputs, and no latency test.\<close>

definition sane_interface :: "AudioInterface \<Rightarrow> bool" where
  "sane_interface a0 \<longleftrightarrow> int_channels a0 \<and> 0 < inputs a0 \<and>
     mAudioBitResolution a0 = 8 * int (bit_resolution_code (mBitResolutionMode a0)) \<and>
     inputs a0 * (4 * frames a0) < 2147483648 \<and> outputs a0 * (4 * frames a0) < 2147483648 \<and>
     mBitResolutionMode a0 \<noteq> BIT24 \<and> mAudioTesterP a0 = None"

lemma setup_ready:
  assumes set: "AudioInterface_setup g q a0 = Some a" and s: "sane_interface a0"
  shows "set_up a" "same_config a a" "inputs a = inputs a0" "outputs a = outputs a0" "frames a = frames a0"
    "mProcessPluginsToMonitor a = mProcessPluginsToMonitor a0"
    "mMonitorQueuePtr a = Some (WaitFreeFrameBuffer_new 64 q (length (mAudioInputPacket a)))"
    "mMonitorStarted a = mMonitorStarted a0"
proof -
  have nn: "0 \<le> sint (mBufferSizeInSamples a0)"
    using set by (auto simp: AudioInterface_setup_def Let_def split: if_splits)
  then have n: "sint (mBufferSizeInSamples a0) = int (frames a0)" unfolding frames_def by (rule sint_nonneg_u32)
  show e: "inputs a = inputs a0" "outputs a = outputs a0" "frames a = frames a0"
    "mProcessPluginsToMonitor a = mProcessPluginsToMonitor a0" "mMonitorStarted a = mMonitorStarted a0"
    "mMonitorQueuePtr a = Some (WaitFreeFrameBuffer_new 64 q (length (mAudioInputPacket a)))"
    using set by (auto simp: AudioInterface_setup_def frames_def Let_def split: if_splits)
  have f: "mInProcessBuffer a = replicate (inputs a0) (replicate (frames a0) 0)"
    "mOutProcessBuffer a = replicate (outputs a0) (replicate (frames a0) 0)" "mAudioTesterP a = mAudioTesterP a0"
    "mBitResolutionMode a = mBitResolutionMode a0"
    using set n by (auto simp: AudioInterface_setup_def Let_def split: if_splits)
  show "same_config a a" by (simp add: same_config_def)
  show "set_up a"
    using s setup_packets [OF set] setup_process_frames unfolding set_up_def e f sane_interface_def by simp
qed

section \<open>Properties\<close>

text \<open>A period: what the hardware delivers, the buffer of the output, the packet of the network, and the frames.\<close>

type_synonym audio_period = "channels \<times> channels \<times> bytes \<times> nat"

text \<open>Periods with spied plugins, and the calls of the plugins of the monitor in each.\<close>

fun run_periods :: "'w plugin_code \<Rightarrow> (nat \<Rightarrow> u64) \<Rightarrow> (nat \<Rightarrow> nat \<Rightarrow> u64) \<Rightarrow> audio_period list \<Rightarrow> ('w \<times> call_log) callbacks \<Rightarrow>
    (call_log list \<times> ('w \<times> call_log) callbacks) option" where
  "run_periods C now_in now_out [] c = Some ([], c)"
| "run_periods C now_in now_out ((inb, outb, rx, n) # ps) c = do {
     (_, _, c) \<leftarrow> audio_callback (spy C) now_in now_out rx inb outb n (c\<lparr>plugins := (fst (plugins c), [])\<rparr>);
     (calls, c') \<leftarrow> run_periods C now_in now_out ps c;
     Some (snd (plugins c) # calls, c')
   }"

text \<open>
  The right calls of one period: as long as all plugins of the monitor are initialised, each is called once and in order, and
  every call has for each output channel the input of this period at the channel that the output hears.
\<close>

definition hears_input :: "'w plugin_code \<Rightarrow> AudioInterface \<Rightarrow> audio_period \<Rightarrow> call_log \<Rightarrow> bool" where
  "hears_input C a = (\<lambda>(inb, outb, rx, n) calls.
     (\<forall>(k, x)\<in>set calls. k < length (mProcessPluginsToMonitor a) \<and>
        outputs a \<le> length x \<and> (\<forall>i<outputs a. x ! i = take n (inb ! monitor_source a i))) \<and>
     ((\<forall>k<length (mProcessPluginsToMonitor a). \<forall>w. plugin_inited C ToMonitor k w) \<longrightarrow>
        map fst calls = [0..<length (mProcessPluginsToMonitor a)]))"

lemma given_hears:
  assumes "given C (length (mProcessPluginsToMonitor a)) n buf l" and "outputs a \<le> length buf"
    and "\<forall>i<outputs a. take n (buf ! i) = take n (inb ! monitor_source a i)"
  shows "hears_input C a (inb, outb, rx, n) l"
  using assms by (fastforce simp: given_def hears_input_def)

definition period_ok :: "AudioInterface \<Rightarrow> audio_period \<Rightarrow> bool" where
  "period_ok a = (\<lambda>(inb, outb, rx, n). n \<le> frames a \<and> has_frames inb (inputs a) n \<and> has_frames outb (outputs a) n \<and>
     length rx \<le> outputs a * (4 * frames a))"

lemma callback_hears:
  assumes c: "interface c = a" "mAudioSockets c = []" "snd (plugins c) = []" and a: "set_up a" "monitored [] a" and C: "plugins_ok a C"
    and p: "n \<le> frames a" "has_frames inb (inputs a) n" "has_frames outb (outputs a) n" "length rx \<le> length (mAudioOutputPacket a)"
  shows "\<exists>inb' outb' c'. audio_callback (spy C) now_in now_out rx inb outb n c = Some (inb', outb', c') \<and> mAudioSockets c' = [] \<and>
    set_up (interface c') \<and> monitored [] (interface c') \<and> same_config a (interface c') \<and>
    mProcessPluginsToMonitor (interface c') = mProcessPluginsToMonitor a \<and> hears_input C a (inb, outb, rx, n) (snd (plugins c'))"
proof -
  have S: "plugins_ok a (spy C)" by (rule spy_ok [OF C])
  obtain inb' c1 q m b b' where 1: "audioInputCallback (spy C) now_in inb n c = Some (inb', c1)" "mAudioSockets c1 = []"
    "set_up (interface c1)" "monitored [q] (interface c1)" "same_config a (interface c1)"
    "\<forall>i<inputs a. take (4 * n) (drop (i * (4 * n)) q) = sample_bytes (take n (inb ! i))"
    "mProcessPluginsToMonitor (interface c1) = mProcessPluginsToMonitor a"
    "run_chain (spy C) ToNetwork m n b (plugins c) = Some (b', plugins c1)"
    using input_callback_queues [OF c(1,2) a S p(1,2), where now = now_in] by (elim exE conjE) (rule that; assumption)
  have e: "inputs (interface c1) = inputs a" "outputs (interface c1) = outputs a" "frames (interface c1) = frames a"
    "monitor_source (interface c1) = monitor_source a" "length (mAudioOutputPacket (interface c1)) = length (mAudioOutputPacket a)"
    using 1(5) by (auto simp: same_config_def frames_def monitor_source_def)
  have Sok: "plugins_ok (interface c1) (spy C)" by (rule same_config_plugins [OF 1(5), THEN iffD2, OF S])
  obtain outb' c2 m2 d d' w where 2: "audioOutputCallback (spy C) now_out rx outb n c1 = Some (outb', c2)" "mAudioSockets c2 = []"
    "set_up (interface c2)" "monitored [] (interface c2)" "same_config (interface c1) (interface c2)"
    "\<forall>i<outputs a. take n (mOutProcessBuffer (interface c2) ! i) = take n (inb ! monitor_source a i)"
    "mProcessPluginsToMonitor (interface c2) = mProcessPluginsToMonitor a"
    "run_chain (spy C) FromNetwork m2 n d (plugins c1) = Some (d', w)"
    "run_monitors (spy C) (length (mProcessPluginsToMonitor a)) n (mOutProcessBuffer (interface c2)) d' w = Some (outb', plugins c2)"
    using output_callback_hears [OF refl 1(2-4) Sok, where now = now_out, of n outb rx inb, unfolded e 1(7), OF p(1,3,4) 1(6) p(2)]
    by (elim exE conjE) (rule that; assumption)
  have "snd (plugins c1) = []" using spied_chain [OF 1(8)] c(3) by simp
  moreover have "snd w = snd (plugins c1)" by (rule spied_chain [OF 2(8)]) simp
  ultimately have "w = (fst w, [])" by (simp add: prod_eq_iff)
  then have "run_monitors (spy C) (length (mProcessPluginsToMonitor a)) n (mOutProcessBuffer (interface c2)) d' (fst w, []) =
      Some (outb', plugins c2)" using 2(9) by metis
  from spied_monitors [OF this] have l: "given C (length (mProcessPluginsToMonitor a)) n (mOutProcessBuffer (interface c2)) (snd (plugins c2))"
    by auto
  have "outputs a \<le> length (mOutProcessBuffer (interface c2))"
    using 2(3,5) e(2) by (simp add: set_up_def has_frames_def same_config_def)
  then have "hears_input C a (inb, outb, rx, n) (snd (plugins c2))" by (rule given_hears [OF l _ 2(6)])
  then show ?thesis using 1(1) 2(1-4,7) same_config_trans [OF 1(5) 2(5)] by (auto simp: audio_callback_def)
qed

lemma periods_hear:
  assumes "set_up a" "monitored [] a" "interface c = a" "mAudioSockets c = []" "plugins_ok a C"
    and "outputs a * (4 * frames a) \<le> length (mAudioOutputPacket a)" and "list_all (period_ok a) ps"
  shows "\<exists>calls c'. run_periods C now_in now_out ps c = Some (calls, c') \<and> length calls = length ps \<and>
    (\<forall>k<length ps. hears_input C a (ps ! k) (calls ! k))"
  using assms
proof (induction ps arbitrary: a c)
  case (Cons p ps)
  obtain inb outb rx n where p: "p = (inb, outb, rx, n)" by (cases p)
  have ok: "n \<le> frames a" "has_frames inb (inputs a) n" "has_frames outb (outputs a) n" "length rx \<le> length (mAudioOutputPacket a)"
    using Cons.prems(6,7) by (auto simp: p period_ok_def)
  let ?c = "c\<lparr>plugins := (fst (plugins c), [])\<rparr>"
  have start: "interface ?c = a" "mAudioSockets ?c = []" "snd (plugins ?c) = []" using Cons.prems(3,4) by simp_all
  obtain inb' outb' c1 where c1: "audio_callback (spy C) now_in now_out rx inb outb n ?c = Some (inb', outb', c1)" "mAudioSockets c1 = []"
    "set_up (interface c1)" "monitored [] (interface c1)" "same_config a (interface c1)"
    "mProcessPluginsToMonitor (interface c1) = mProcessPluginsToMonitor a" "hears_input C a p (snd (plugins c1))"
    using callback_hears [OF start Cons.prems(1,2,5) ok] unfolding p by blast
  have e: "outputs (interface c1) = outputs a" "frames (interface c1) = frames a" "period_ok (interface c1) = period_ok a"
    "length (mAudioOutputPacket (interface c1)) = length (mAudioOutputPacket a)" "hears_input C (interface c1) = hears_input C a"
    using c1(5,6) by (auto simp: same_config_def frames_def monitor_source_def period_ok_def hears_input_def fun_eq_iff)
  have Cok: "plugins_ok (interface c1) C" by (rule same_config_plugins [OF c1(5), THEN iffD2, OF Cons.prems(5)])
  obtain calls c2 where h: "run_periods C now_in now_out ps c1 = Some (calls, c2)" "length calls = length ps"
    "\<forall>k<length ps. hears_input C a (ps ! k) (calls ! k)"
    using Cons.IH [OF c1(3,4) refl c1(2) Cok] Cons.prems(6,7) unfolding e by auto
  have run: "run_periods C now_in now_out (p # ps) c = Some (snd (plugins c1) # calls, c2)" using c1(1) h(1) by (simp add: p)
  have "hears_input C a ((p # ps) ! k) ((snd (plugins c1) # calls) ! k)" if "k < length (p # ps)" for k
    using that c1(7) h(3) by (cases k) simp_all
  then show ?case using run h(2) by (intro exI [of _ "snd (plugins c1) # calls"] exI [of _ c2]) simp
qed simp


text \<open>
  C21: with more input channels than output channels the monitor writes behind the packet of the output: the output
  callback of a full period has no defined behaviour, whatever plugins that keep the sizes of their buffers compute; without the
  plugin for the monitor the same callback returns.
\<close>

theorem monitor_overrun:
  assumes set: "AudioInterface_setup g q a0 = Some a" and s: "sane_interface a0" and more: "outputs a0 < inputs a0"
    and n: "0 < frames a0" and mon: "mProcessPluginsToMonitor a0 \<noteq> []" and c: "interface c = a" "mAudioSockets c = []"
    and C: "plugins_ok a C" and p: "period_ok a (inb, outb, rx, frames a)"
  shows "audioOutputCallback C now rx outb (frames a) c = None \<and>
    audioOutputCallback C now rx outb (frames a) (c\<lparr>interface := a\<lparr>mProcessPluginsToMonitor := []\<rparr>\<rparr>) \<noteq> None"
proof -
  have a: "set_up a" using setup_ready(1) [OF set s] .
  have e: "inputs a = inputs a0" "outputs a = outputs a0" "frames a = frames a0" using setup_ready(3-5) [OF set s] by simp_all
  have sz: "length (mAudioOutputPacket a) = outputs a0 * (4 * frames a0)"
    using s setup_packets(2) [OF set] by (simp add: sane_interface_def)
  have ok: "has_frames outb (outputs a) (frames a)" "length rx \<le> length (mAudioOutputPacket a)"
    using p a by (auto simp: period_ok_def set_up_def)
  obtain n where n': "n = frames a" by blast
  have room: "\<not> unat (mBufferSizeInSamples a) < n" by (simp add: n' frames_def)
  obtain op buf buf' w where r: "(if mProcessWithNetwork a then computeProcessFromNetwork rx outb n a else Some (outb, a)) =
      Some (buf, a\<lparr>mAudioOutputPacket := op\<rparr>)" "length op = length (mAudioOutputPacket a)"
    "run_chain C FromNetwork (length (mProcessPluginsFromNetwork a)) n buf (plugins c) = Some (buf', w)"
    using output_prefix [OF a C order_refl ok] unfolding n' by blast
  have "outputs a0 * (4 * frames a0) < inputs a0 * (4 * frames a0)" using more n by simp
  then have f: "mem_write op 0 (replicate (4 * n * inputs a) 0) = None"
    using r(2) sz e by (simp add: mem_write_def n' ac_simps)
  obtain q' where q': "mMonitorQueuePtr a = Some q'" using setup_ready(7) [OF set s] by blast
  have "monitor_output n (a\<lparr>mAudioOutputPacket := op\<rparr>) = None" using f q' by (simp add: monitor_output_def)
  moreover have "monitoring (a\<lparr>mAudioOutputPacket := op\<rparr>)" using q' mon setup_ready(6) [OF set s] by (simp add: monitoring_def)
  moreover have "test_return now buf n (a\<lparr>mAudioOutputPacket := op\<rparr>) = Some (a\<lparr>mAudioOutputPacket := op\<rparr>)"
    using a by (simp add: test_return_def set_up_def)
  ultimately have 1: "audioOutputCallback C now rx outb n c = None"
    using c r(1,3) room by (simp add: audioOutputCallback_def Let_def)
  let ?b = "a\<lparr>mProcessPluginsToMonitor := []\<rparr>"
  have b: "set_up ?b" "plugins_ok ?b C" "has_frames outb (outputs ?b) (frames ?b)" "length rx \<le> length (mAudioOutputPacket ?b)"
    "frames ?b = frames a"
    using a C ok by (simp_all add: set_up_def plugins_ok_def frames_def)
  obtain op buf buf' w where r: "(if mProcessWithNetwork ?b then computeProcessFromNetwork rx outb n ?b else Some (outb, ?b)) =
      Some (buf, ?b\<lparr>mAudioOutputPacket := op\<rparr>)"
    "run_chain C FromNetwork (length (mProcessPluginsFromNetwork ?b)) n buf (plugins c) = Some (buf', w)"
    using output_prefix [OF b(1,2) order_refl b(3,4)] unfolding b(5) n' by blast
  have "test_return now buf n (?b\<lparr>mAudioOutputPacket := op\<rparr>) = Some (?b\<lparr>mAudioOutputPacket := op\<rparr>)"
    using a by (simp add: test_return_def set_up_def)
  then have "audioOutputCallback C now rx outb n (c\<lparr>interface := ?b\<rparr>) \<noteq> None"
    using c r room by (simp add: audioOutputCallback_def sockets_out_def monitoring_def Let_def)
  with 1 show ?thesis unfolding n' by blast
qed

section \<open>An example\<close>

definition example_interface :: "int list \<Rightarrow> int list \<Rightarrow> AudioInterface" where
  "example_interface ins outs = (AudioInterface_new 0 False ins outs STEREO BIT16 False)\<lparr>mBufferSizeInSamples := 2,
     mProcessPluginsToMonitor := [\<lparr>getNumInputs = 1, getNumOutputs = 1\<rparr>]\<rparr>"

text \<open>A plugin that passes its input on.\<close>

definition pass_on :: "unit plugin_code" where
  "pass_on = \<lparr>plugin_inited = (\<lambda>_ _ _. True), plugin_compute = (\<lambda>_ _ n inp out w. Some (inp, w)), plugin_setOutgoing = (\<lambda>_ _ _ w. w),
     plugin_updateNumChannels = (\<lambda>_ _ _ _ w. w), plugin_initialize = (\<lambda>_ _ _ _ w. w)\<rparr>"

lemma pass_on_ok: "plugins_ok a pass_on"
  by (simp add: plugins_ok_def pass_on_def)

lemma example_sane:
  assumes "0 < length ins" "length ins \<le> 2" "length outs \<le> 2"
  shows "sane_interface (example_interface ins outs)"
  using assms by (auto simp: sane_interface_def example_interface_def AudioInterface_new_def int_channels_def frames_def)

lemma example_setup:
  "\<exists>a. AudioInterface_setup (\<lambda>_. 0) (\<lambda>_ _. 0) (example_interface ins outs) = Some a"
  by (simp add: AudioInterface_setup_def example_interface_def Let_def)

definition example_periods :: "audio_period list" where
  "example_periods = [([[1, 2], [3, 4]], [[0, 0], [0, 0]], [], 2), ([[5], [6]], [[0], [0]], [], 1)]"

lemma framesI: "C \<le> length buf \<Longrightarrow> list_all (\<lambda>x. n \<le> length x) buf \<Longrightarrow> has_frames buf C n"
  by (simp add: has_frames_def list_all_length)

lemma example_periods_ok: "frames a = 2 \<Longrightarrow> inputs a \<le> 2 \<Longrightarrow> outputs a \<le> 2 \<Longrightarrow> list_all (period_ok a) example_periods"
  by (simp add: example_periods_def period_ok_def framesI)

definition example_callbacks :: "AudioInterface \<Rightarrow> unit callbacks" where
  "example_callbacks a = \<lparr>interface = a, mAudioSockets = [], plugins = ()\<rparr>"

definition spied_callbacks :: "AudioInterface \<Rightarrow> (unit \<times> call_log) callbacks" where
  "spied_callbacks a = \<lparr>interface = a, mAudioSockets = [], plugins = ((), [])\<rparr>"

lemma example_fields:
  assumes "AudioInterface_setup (\<lambda>_. 0) (\<lambda>_ _. 0) (example_interface ins outs) = Some a"
    and "0 < length ins" "length ins \<le> 2" "length outs \<le> 2"
  shows "inputs a = length ins" "outputs a = length outs" "frames a = 2"
  using setup_ready(3-5) [OF assms(1) example_sane [OF assms(2-4)]]
  by (simp_all add: example_interface_def AudioInterface_new_def frames_def)


theorem monitor_overrun_witness:
  "\<exists>a. AudioInterface_setup (\<lambda>_. 0) (\<lambda>_ _. 0) (example_interface [0, 1] [0]) = Some a \<and>
    audioOutputCallback pass_on (\<lambda>_ _. 0) [] [[0, 0]] (frames a) (example_callbacks a) = None \<and>
    audioOutputCallback pass_on (\<lambda>_ _. 0) [] [[0, 0]] (frames a)
      ((example_callbacks a)\<lparr>interface := a\<lparr>mProcessPluginsToMonitor := []\<rparr>\<rparr>) \<noteq> None"
proof -
  obtain a where a: "AudioInterface_setup (\<lambda>_. 0) (\<lambda>_ _. 0) (example_interface [0, 1] [0]) = Some a"
    using example_setup by blast
  have s: "sane_interface (example_interface [0, 1] [0])" by (rule example_sane) simp_all
  have p: "period_ok a ([[1, 2], [3, 4]], [[0, 0]], [], frames a)"
    using example_fields [OF a] by (simp add: period_ok_def framesI)
  have "outputs (example_interface [0, 1] [0]) < inputs (example_interface [0, 1] [0])" "0 < frames (example_interface [0, 1] [0])"
    "mProcessPluginsToMonitor (example_interface [0, 1] [0]) \<noteq> []"
    "interface (example_callbacks a) = a" "mAudioSockets (example_callbacks a) = []"
    by (simp_all add: example_interface_def AudioInterface_new_def example_callbacks_def frames_def)
  then show ?thesis using monitor_overrun [OF a s _ _ _ _ _ pass_on_ok p] a by blast
qed

end
