(* ===== verification/Spec2Isabelle.thy ===== *)
theory Spec2Isabelle
  imports HubHandshake Http3Frame Qpack WaitFree RingBufferSpec AudioPath RegulatorPlay
    WebSocketSpec AudioSocketLink TesterSpec CallbackSpec
begin

text \<open>
  A verification library for JackTrip, the program that sends uncompressed audio between computers with low
  latency.  The sources are C++ on Qt, under \<open>src/\<close>; file names below are relative to it.

  \<^bold>\<open>The program.\<close>  An audio interface calls back once per period.  The callback converts the input
  samples to a packet, which a network thread puts behind a header and sends as datagrams; the
  datagrams of the peer are checked, put in order, and written to a receive buffer, which the
  callback reads.  Several receive buffers exist: a ring of slots, a jitter buffer that steers its
  own latency, and a regulator that conceals lost packets by prediction.  A client can connect to a
  peer or to a hub.  A hub accepts clients over TCP, with credentials and TLS when it
  requires them, starts a worker with a port of its own for each, and connects the
  workers with each other; browsers reach it over HTTP, WebSockets, WebRTC and HTTP/3.

  \<^bold>\<open>Theories and sources.\<close>
  \<^item> \<open>Prelude\<close>, \<open>Fifo\<close>, \<open>FloatRound\<close>: machine types, checked memory, bytes and
    bits; circular memory and the locale \<open>bounded_fifo\<close>; rounding of IEEE 754.
  \<^item> \<open>WaitFree\<close>: \<open>WaitFreeRingBuffer.h\<close> and \<open>WaitFreeFrameBuffer.h\<close>, the sequential operations and
    the atomic steps of one producer and one consumer (\<open>spsc_step\<close>).
  \<^item> \<open>RingBuffer\<close>, \<open>RingBufferSpec\<close>: \<open>RingBuffer.cpp\<close>, its blocking operations as steps of a monitor, and its statistics.
  \<^item> \<open>JitterBuffer\<close>, \<open>JitterSpec\<close>: \<open>JitterBuffer.cpp\<close>.
  \<^item> \<open>Burg\<close>, \<open>RegulatorStats\<close>, \<open>Regulator\<close>: \<open>Regulator.cpp\<close> and \<open>Regulator.h\<close>: the autoregressive prediction, the
    statistics, the choice of the packet and the worker thread.  \<open>BurgSpec\<close>, \<open>RegulatorStatsSpec\<close>, \<open>RegulatorSpec\<close>,
    \<open>RegulatorPull\<close>, \<open>RegulatorReceive\<close>, \<open>RegulatorRun\<close>, \<open>RegulatorSafety\<close> and \<open>RegulatorPlay\<close> hold the lemmas, in this order.
  \<^item> \<open>Sample\<close>, \<open>AudioInterface\<close>: \<open>AudioInterface.cpp\<close>, the conversion of samples, and packets of a period.
  \<^item> \<open>AudioCallbacks\<close>, \<open>CallbackSpec\<close>: the callbacks of \<open>AudioInterface.cpp\<close>, from the input through sockets, monitor queue, plugins and
    latency test to the packet, and from the packet to the output.
  \<^item> \<open>AudioTester\<close>, \<open>TesterSpec\<close>: \<open>AudioTester.cpp\<close>, the latency test, and the loop that it measures.
  \<^item> \<open>AudioSocket\<close>, \<open>AudioSocketSpec\<close>, \<open>AudioSocketLink\<close>: \<open>AudioSocket.cpp\<close>, the exchange of audio with another process, and
    two processes joined by a socket.
  \<^item> \<open>PacketHeader\<close>: \<open>PacketHeader.cpp\<close> and the functions of \<open>JackTrip.cpp\<close> that use headers.
  \<^item> \<open>UdpDataProtocol\<close>, \<open>UdpSpec\<close>: \<open>UdpDataProtocol.cpp\<close>, sender and receiver with redundancy.
  \<^item> \<open>AudioPath\<close> and this theory: the mediator functions of \<open>JackTrip.h\<close>, and the path from one client's slots to
    the other's callback.
  \<^item> \<open>Auth\<close>, \<open>AuthSpec\<close>: \<open>Auth.cpp\<close>, the credentials, their file and the crypt scheme.
  \<^item> \<open>Patcher\<close>: \<open>Patcher.cpp\<close>, which clients of a hub hear which.
  \<^item> \<open>HubWorkers\<close>, \<open>HubSpec\<close>, \<open>HubPool\<close>: \<open>JackTripWorker.cpp\<close> and the pool of workers of \<open>UdpHubListener.cpp\<close>, as a
    state machine of the events of the clients.
  \<^item> \<open>HubWire\<close>, \<open>HubConnection\<close>, \<open>ClientConnection\<close>, \<open>HubHandshake\<close>: the two ends of the TCP handshake
    (\<open>UdpHubListener.cpp\<close>, \<open>JackTrip.cpp\<close>).
  \<^item> \<open>Framing\<close>, \<open>Signaling\<close>, \<open>WebSocket\<close>, \<open>WebSocketSpec\<close>: \<open>webrtc/WebRtcSignalingProtocol.cpp\<close> and
    \<open>webrtc/WebSocketSignalingConnection.cpp\<close>, the signalling of WebRTC; the locale \<open>framing\<close> is the contract of a
    decoder that takes messages off a stream of bytes.
  \<^item> \<open>QuicVarint\<close>, \<open>Http3Frame\<close>, \<open>HuffmanTable\<close>, \<open>HuffmanRfc\<close>, \<open>Huffman\<close>, \<open>QpackTable\<close>, \<open>Qpack\<close>:
    \<open>http3/Http3Protocol.cpp\<close>; \<open>HuffmanRfc\<close> has the code of RFC 7541, which the table promises to be.

  \<^bold>\<open>Conventions.\<close>  An object is a record with the fields of the class.  An operation is a function from the state
  to the new state; it returns \<^const>\<open>None\<close> where the C++ standard leaves the behaviour undefined: an access outside of
  memory, a null pointer, an overflow of a signed integer, a conversion out of range, a division by zero.  Memory is
  a list, so a pointer and the null pointer's empty memory are lists of bytes; what \<open>new\<close> leaves uninitialised is
  an argument.  Unsigned integers are words; an \<open>int\<close> is a mathematical integer that every operation checks against
  its range.  A \<open>double\<close> is the rational number it stands for, and every operation rounds; a sample keeps
  its bit pattern.  Qt, the clock, sockets and the audio system are arguments, and a theorem that relies on them says
  how.  Locks, condition variables and atomic operations are steps that interleave; they are sequentially
  consistent.

  \<^bold>\<open>Lemmas.\<close>  Each component has its invariant, the preservation of it by every operation, and what the
  operations compute.  The locale \<open>bounded_fifo\<close> (\<open>metered_fifo\<close> with a count that bounds the run) is the contract of a FIFO while it neither overflows nor runs empty:
  \<open>run_ops\<close> of its operations refines that of a list.  It is interpreted by the frame buffer, the ring buffer and the jitter buffer, and
  the path of the audio is put together from it.  The properties of the pool, of the monitor and of the wait-free ring are
  inductions over the steps.  The theorems about the regulator follow the packets: a shape of the state, what a
  pull and an arriving packet do to it, the absence of faults for every run, and what is played.

  \<^bold>\<open>Bounds and fuel.\<close>  Sequence numbers and counters are as wide as in the code; where a theorem restricts a run so
  that a counter does not overflow an \<open>int\<close>, it says so.  \<open>worker_fill\<close> has one reading of the clock per
  pull, 33 at most, because the target of its queue never exceeds 33.  The loops
  of the decoders recurse over the bytes that are left; the loop that takes WebSocket frames off a buffer (\<open>drain\<close>) may
  not end, and then has the value \<^const>\<open>None\<close>.

  \<^bold>\<open>Not modelled.\<close>  Threads and their priorities, sockets and name resolution, the signals of Qt as such (a handler is
  called where the code emits to it), text for the console, destructors, the WAIR build, and the components that the manifest lists as not
  modelled: the set-up of a session, which only constructs and connects objects, the command line and the graphical interfaces, the glue to JACK, RtAudio,
  MsQuic, libdatachannel and plugin hosts, and code that the Faust compiler generated.
\<close>

section \<open>Properties across components\<close>

text \<open>
  C1: The path of the audio from one client to another.  A sender puts its slots into datagrams
  with redundancy \<open>R\<close>; the receiver gets some of them, any two neighbours at most \<open>R\<close> apart, and
  calls \<open>writeAudioBuffer\<close>.  If the receive buffer is the jitter buffer of the default strategy
  with \<open>Q\<close> slots and the audio callback reads it at any moments that neither exceed \<open>Q\<close> slots nor
  run it empty, the callback gets the \<open>Q - 1\<close> slots of initial silence and then the sender's slots from
  \<open>l + 1\<close> on, every one of them, once, in order and unchanged, in spite of the lost datagrams.
\<close>

theorem network_to_audio:
  assumes "sender_ready N C B R 0 s" and "length buf0 = R * (16 + N * C * B)"
    and "\<And>i. i < length xs \<Longrightarrow> length (fst (xs ! i)) = N * C * B"
    and "receiving N C B R l (buf, q0, s0, [] :: (bytes \<times> int \<times> int \<times> int) list)" and "recoverable R l ks" and "ks \<noteq> []" and "last ks < 65536"
    and "\<And>k. k \<in> set ks \<Longrightarrow> k < length xs" and "R \<le> 1001" and "R * (16 + N * C * B) \<noteq> 63"
    and "0 < N" and "0 < sr" and "0 < C" and "0 < B" and "2 \<le> Q" and "T = sr * C * B * 2" and "T < 2147483648"
    and "Q * (N * C * B) \<le> T" and "100 * (Q * (N * C * B)) < 2147483648" and "bcast * (N * C * B) < 2147483648"
    and "(Q + (last ks - l)) * (N * C * B) < 2147483648"
    and "puts ops = [1..<last ks - l]"
    and "run_ops (list_put Q) list_get (map (map_fifo_op (\<lambda>i. fst (xs ! (Suc l + i)))) ops)
      (replicate (Q - 1) (replicate (N * C * B) 0) @ [fst (xs ! Suc l)]) = Some (out, q)"
  shows "\<exists>ds buf1 s1 buf2 q2 s2 cs b0 b1 b2.
    sender_loop xs buf0 (int (R * (16 + N * C * B))) (int (16 + N * C * B)) s = Some (ds, buf1, s1) \<and>
    receiver_loop record_write (map (\<lambda>k. (x, Some (ds ! k))) ks)
      (int (R * (16 + N * C * B))) (int (16 + N * C * B)) (buf, q0, s0, []) = Some ((buf2, q2, s2, cs), []) \<and>
    JitterBuffer_new (int N) (int Q) (int sr) 1 (int bcast) (int C) (int B) r u jt = Some b0 \<and>
    accept_call (cs ! 0) b0 = Some b1 \<and> run_ops (\<lambda>i. accept_call (cs ! i)) fetch_slot ops b1 = Some (out, b2) \<and>
    out @ queued (N * C * B) b2 = replicate (Q - 1) (replicate (N * C * B) 0) @
      map (\<lambda>n. fst (xs ! n)) [Suc l..<Suc (last ks)]"
proof -
  let ?S = "N * C * B" and ?m = "last ks - l" and ?slot = "\<lambda>i. fst (xs ! (Suc l + i))"
  obtain ds buf1 s1 where ds:
      "sender_loop xs buf0 (int (R * (16 + ?S))) (int (16 + ?S)) s = Some (ds, buf1, s1)"
      "\<forall>i<length xs. datagram_for N C B R (\<lambda>n. fst (xs ! n)) i (ds ! i)"
    using sender_run [OF assms(1,2), of "\<lambda>n. fst (xs ! n)" xs] assms(3) by auto
  have d: "\<And>k. k \<in> set ks \<Longrightarrow> datagram_for N C B R (\<lambda>n. fst (xs ! n)) k (ds ! k)" using ds(2) assms(8) by blast
  have "last (l # ks) < 65536" using assms(6,7) by simp
  from receive_run [OF assms(4,5) this d assms(9,10), of x] obtain buf' q' s' cs where cs:
    "receiver_loop record_write (map (\<lambda>k. (x, Some (ds ! k))) ks)
      (int (R * (16 + ?S))) (int (16 + ?S)) (buf, q0, s0, []) = Some ((buf', q', s', cs), [])"
    "map (\<lambda>(bs, len, gap, seq). (bs, len, gap)) cs =
      map (\<lambda>n. (fst (xs ! n), int ?S, 0)) [Suc l..<Suc (last ks)]"
    using assms(6) by auto
  have lt: "l < last ks" using assms(5,6) by (rule recoverable_last)
  have len: "length cs = ?m" using arg_cong [OF cs(2), of length] by (simp del: upt_Suc)
  have call: "\<exists>seq. cs ! i = (?slot i, int ?S, 0, seq)" if "i < ?m" for i
  proof -
    have "(\<lambda>(bs, len, gap, seq). (bs, len, gap)) (cs ! i) = (?slot i, int ?S, 0)"
      using arg_cong [OF cs(2), of "\<lambda>l. l ! i"] that len by (simp del: upt_Suc)
    then show ?thesis by (cases "cs ! i") auto
  qed
  have sl: "length (?slot i) = ?S" if "i < ?m" for i
    using that assms(3) [of "Suc l + i"] assms(8) [of "last ks"] assms(6) by simp
  have "map ?slot [0..<?m] = map (\<lambda>n. fst (xs ! n)) [Suc l..<Suc (last ks)]"
    using lt by (intro nth_equalityI) (simp_all del: upt_Suc)
  moreover obtain b0 b1 b2 where
    "JitterBuffer_new (int N) (int Q) (int sr) 1 (int bcast) (int C) (int B) r u jt = Some b0"
    "accept_call (cs ! 0) b0 = Some b1" "run_ops (\<lambda>i. accept_call (cs ! i)) fetch_slot ops b1 = Some (out, b2)"
    "out @ queued ?S b2 = replicate (Q - 1) (replicate ?S 0) @ map ?slot [0..<?m]"
    using calls_order [OF assms(11-15) refl assms(16-20) call sl _ assms(21,22), of out q r u jt] lt assms(23) by auto
  ultimately show ?thesis using ds(1) cs(1) by (intro exI conjI) simp_all
qed

theorem network_to_audio_witness:
  "\<exists>ds buf2 q2 s2 cs b0 b1 b2.
    receiver_loop record_write [(0, Some (ds ! 2))] 1056 528 (replicate 1056 0, demo_seq 0, demo_udp, []) =
      Some ((buf2, q2, s2, cs), []) \<and> JitterBuffer_new 128 2 48000 1 0 2 2 0 0 Nullptr = Some b0 \<and>
    accept_call (cs ! 0) b0 = Some b1 \<and>
    run_ops (\<lambda>i. accept_call (cs ! i)) fetch_slot [Get, Put 1, Get, Get] b1 =
      Some ([replicate 512 0, replicate 512 8, replicate 512 9], b2)"
proof -
  let ?xs = "[(replicate 512 7, 0), (replicate 512 8, 0), (replicate 512 9, 0)] :: (bytes \<times> u64) list"
  have len: "length (fst (?xs ! i)) = 128 * 2 * 2" if "i < length ?xs" for i
    using that by (auto simp: less_Suc_eq)
  have ops: "puts [Get, Put 1, Get, Get] = [1..<last [2] - (0 :: nat)]" by (simp add: upt_rec)
  have run: "run_ops (list_put 2) list_get (map (map_fifo_op (\<lambda>i. fst (?xs ! (Suc 0 + i)))) [Get, Put 1, Get, Get])
      (replicate (2 - 1) (replicate (128 * 2 * 2) 0) @ [fst (?xs ! Suc 0)]) =
    Some ([replicate 512 0, replicate 512 8, replicate 512 9], [])"
    by (simp add: list_put_def numeral_2_eq_2 [symmetric])
  have "\<exists>ds buf1 s1 buf2 q2 s2 cs b0 b1 b2.
    sender_loop ?xs (replicate 1056 0) (int (2 * (16 + 128 * 2 * 2))) (int (16 + 128 * 2 * 2)) demo_udp = Some (ds, buf1, s1) \<and>
    receiver_loop record_write (map (\<lambda>k. (0, Some (ds ! k))) [2])
      (int (2 * (16 + 128 * 2 * 2))) (int (16 + 128 * 2 * 2)) (replicate 1056 0, demo_seq 0, demo_udp, []) =
      Some ((buf2, q2, s2, cs), []) \<and>
    JitterBuffer_new (int 128) (int 2) (int 48000) 1 (int 0) (int 2) (int 2) 0 0 Nullptr = Some b0 \<and>
    accept_call (cs ! 0) b0 = Some b1 \<and> run_ops (\<lambda>i. accept_call (cs ! i)) fetch_slot [Get, Put 1, Get, Get] b1 =
      Some ([replicate 512 0, replicate 512 8, replicate 512 9], b2) \<and>
    [replicate 512 0, replicate 512 8, replicate 512 9] @ queued (128 * 2 * 2) b2 =
      replicate (2 - 1) (replicate (128 * 2 * 2) 0) @ map (\<lambda>n. fst (?xs ! n)) [Suc 0..<Suc (last [2])]"
    by (rule network_to_audio [where T = 384000, OF demo_sender _ len demo_receiving _ _ _ _ _ _ _ _ _ _ _ _ _ _ _ _ _ ops run])
      simp_all
  moreover have "int (2 * (16 + 128 * 2 * 2)) = 1056" "int (16 + 128 * 2 * 2) = 528" "int 128 = 128" "int 2 = 2"
    "int 48000 = 48000" "int 0 = 0" "map f [2 :: nat] = [f 2]" for f :: "nat \<Rightarrow> dbl \<times> bytes option"
    by simp_all
  ultimately show ?thesis by (simp only:) blast
qed

end
